(* ===== verification/Prelude.thy ===== *)
theory Prelude
  imports Main "HOL-Library.Word"
begin

text \<open>
  What the components of the model share.

  \<^item> C++ values: an \<open>int\<close> whose bits or wrap-around matter is a 32-bit word (\<open>u32\<close>),
    a \<open>char\<close> is an 8-bit word (\<open>u8\<close>); an \<open>int\<close> used only as an index, a count or a
    time is a mathematical integer.
  \<^item> Failures: an operation that can bring the whole simulator down (a failed \<open>ASSERT\<close>,
    a null or dangling pointer, an array access outside its bounds, undefined integer
    arithmetic) returns a value of \<open>'a result\<close>, with \<open>Inl\<close> for the crash.
  \<^item> Arrays: a list read and written with a bounds check, \<open>array_get\<close> and \<open>array_set\<close>.
\<close>

unbundle bit_operations_syntax

section \<open>Types\<close>

type_synonym u8 = "8 word"
type_synonym u16 = "16 word"
type_synonym u32 = "32 word"

datatype crash =
    AssertFailed        \<comment> \<open>the macro ASSERT of threads/utility.h aborts\<close>
  | OutOfBounds         \<comment> \<open>an array access outside the array\<close>
  | NullPointer         \<comment> \<open>a null pointer is dereferenced\<close>
  | DanglingPointer     \<comment> \<open>memory that was never allocated or was deleted is dereferenced\<close>
  | UndefinedArith      \<comment> \<open>arithmetic C++ leaves undefined\<close>
  | Uninitialised       \<comment> \<open>what happens next depends on an uninitialised variable\<close>
  | Halted              \<comment> \<open>\<open>interrupt->Halt()\<close> ends the program: no crash, but no return either\<close>
  | OutOfMemory         \<comment> \<open>\<open>new\<close> of an array of negative size\<close>
  | NoReturn            \<comment> \<open>a loop of the callee does not end\<close>

type_synonym 'a result = "crash + 'a"

section \<open>Collections of facts\<close>

named_theorems result_simps \<open>equations that evaluate an operation returning a result\<close>
named_theorems inv_intros \<open>every operation keeps the invariant of its component\<close>

section \<open>Results\<close>

fun bind_result :: "'a result \<Rightarrow> ('a \<Rightarrow> 'b result) \<Rightarrow> 'b result" where
  "bind_result (Inl c) f = Inl c"
| "bind_result (Inr x) f = f x"

lemma bind_result_eq_Inr [simp]:
  "bind_result r f = Inr y \<longleftrightarrow> (\<exists>x. r = Inr x \<and> f x = Inr y)"
  by (cases r) auto

lemma bind_result_eq_Inl:
  "bind_result r f = Inl c \<longleftrightarrow> r = Inl c \<or> (\<exists>x. r = Inr x \<and> f x = Inl c)"
  by (cases r) auto

lemma bind_result_assoc: "bind_result (bind_result r f) g = bind_result r (\<lambda>x. bind_result (f x) g)"
  by (cases r) auto

lemma bind_result_return: "bind_result r Inr = r"
  by (cases r) auto

lemma bind_result_cong [fundef_cong]:
  "r = r' \<Longrightarrow> (\<And>x. r' = Inr x \<Longrightarrow> f x = g x) \<Longrightarrow> bind_result r f = bind_result r' g"
  by (cases r') auto

definition ASSERT :: "bool \<Rightarrow> unit result" where
  "ASSERT b = (if b then Inr () else Inl AssertFailed)"

lemma ASSERT_True [simp]: "ASSERT True = Inr ()"
  by (simp add: ASSERT_def)

lemma ASSERT_False [simp]: "ASSERT False = Inl AssertFailed"
  by (simp add: ASSERT_def)

lemma ASSERT_eq_Inr [simp]: "ASSERT b = Inr u \<longleftrightarrow> b"
  by (cases u) (simp add: ASSERT_def)

lemma bind_ASSERT [simp]: "b \<Longrightarrow> bind_result (ASSERT b) f = f ()"
  by (simp add: ASSERT_def)

section \<open>Arrays with bounds\<close>

definition array_get :: "'a list \<Rightarrow> int \<Rightarrow> 'a result" where
  "array_get xs i = (if 0 \<le> i \<and> i < int (length xs) then Inr (xs ! nat i) else Inl OutOfBounds)"

definition array_set :: "'a list \<Rightarrow> int \<Rightarrow> 'a \<Rightarrow> 'a list result" where
  "array_set xs i v =
     (if 0 \<le> i \<and> i < int (length xs) then Inr (xs[nat i := v]) else Inl OutOfBounds)"

lemma array_get_ok [simp]: "0 \<le> i \<Longrightarrow> i < int (length xs) \<Longrightarrow> array_get xs i = Inr (xs ! nat i)"
  by (simp add: array_get_def)

lemma array_set_ok [simp]:
  "0 \<le> i \<Longrightarrow> i < int (length xs) \<Longrightarrow> array_set xs i v = Inr (xs[nat i := v])"
  by (simp add: array_set_def)

lemma array_get_Inr:
  "array_get xs i = Inr x \<longleftrightarrow> 0 \<le> i \<and> i < int (length xs) \<and> x = xs ! nat i"
  by (auto simp: array_get_def)

lemma array_set_Inr:
  "array_set xs i v = Inr ys \<longleftrightarrow> 0 \<le> i \<and> i < int (length xs) \<and> ys = xs[nat i := v]"
  by (auto simp: array_set_def)

section \<open>Counted loops\<close>

text \<open>\<open>for_loop i n f s\<close> is \<open>for (; i < n; i++) s = f(i, s)\<close>, ended by a crash of the body.\<close>

function for_loop :: "int \<Rightarrow> int \<Rightarrow> (int \<Rightarrow> 's \<Rightarrow> 's result) \<Rightarrow> 's \<Rightarrow> 's result" where
  "for_loop i n f s =
     (if i < n then bind_result (f i s) (\<lambda>s'. for_loop (i + 1) n f s') else Inr s)"
  by pat_completeness auto
termination by (relation "measure (\<lambda>(i, n, f, s). nat (n - i))") auto

declare for_loop.simps [simp del]

lemma for_loop_done [simp]: "n \<le> i \<Longrightarrow> for_loop i n f s = Inr s"
  by (simp add: for_loop.simps)

lemma for_loop_step: "i < n \<Longrightarrow> for_loop i n f s = bind_result (f i s) (for_loop (i + 1) n f)"
  by (subst for_loop.simps) simp

text \<open>The rule for a loop whose body cannot crash while the invariant \<open>I\<close> holds.\<close>

lemma for_loop_rule:
  assumes "I i s" "i \<le> n"
    and "\<And>j t. i \<le> j \<Longrightarrow> j < n \<Longrightarrow> I j t \<Longrightarrow> \<exists>t'. f j t = Inr t' \<and> I (j + 1) t'"
  shows "\<exists>s'. for_loop i n f s = Inr s' \<and> I n s'"
  using assms
proof (induction i n f s rule: for_loop.induct)
  case (1 i n f s)
  show ?case
  proof (cases "i < n")
    case True
    then obtain t where "f i s = Inr t" "I (i + 1) t" using 1 by blast
    with 1 True show ?thesis by (simp add: for_loop_step)
  next
    case False
    with 1 show ?thesis by simp
  qed
qed

section \<open>Division of C++ integers\<close>

text \<open>
  \<open>divRoundDown\<close> and \<open>divRoundUp\<close> are macros of threads/utility.h. Their arguments are
  never negative in the code that uses them, where C++ division is \<open>div\<close>.
\<close>

definition divRoundDown :: "int \<Rightarrow> int \<Rightarrow> int" where
  "divRoundDown n s = n div s"

definition divRoundUp :: "int \<Rightarrow> int \<Rightarrow> int" where
  "divRoundUp n s = n div s + (if n mod s > 0 then 1 else 0)"

lemma divRoundUp_cases:
  "divRoundUp n s * s = n div s * s + (if n mod s > 0 then s else 0)"
  by (simp add: divRoundUp_def distrib_right)

lemma div_mod_bounds:
  fixes n s :: int
  assumes "0 < s"
  shows "n = n div s * s + n mod s" "0 \<le> n mod s" "n mod s < s"
  using assms by simp_all

lemma divRoundUp_bounds:
  assumes "0 < s"
  shows "n \<le> divRoundUp n s * s \<and> divRoundUp n s * s < n + s"
proof (cases "0 < n mod s")
  case True
  then show ?thesis
    unfolding divRoundUp_cases if_P [OF True] using div_mod_bounds [OF assms, of n] by linarith
next
  case False
  then show ?thesis
    unfolding divRoundUp_cases if_not_P [OF False] using assms div_mod_bounds [OF assms, of n] by linarith
qed

lemmas divRoundUp_lower = divRoundUp_bounds [THEN conjunct1]
lemmas divRoundUp_upper = divRoundUp_bounds [THEN conjunct2]

lemma divRoundUp_nonneg: "0 \<le> n \<Longrightarrow> 0 < s \<Longrightarrow> 0 \<le> divRoundUp n s"
  by (simp add: divRoundUp_def pos_imp_zdiv_nonneg_iff)

lemma div_less_divRoundUp: "0 < s \<Longrightarrow> i < n \<Longrightarrow> i div s < divRoundUp n s"
proof -
  assume s: "0 < s" and i: "i < n"
  have "i div s * s \<le> i"
    using div_mod_bounds [OF s, of i] by linarith
  also have "i < divRoundUp n s * s"
    using i divRoundUp_lower [OF s, of n] by linarith
  finally show ?thesis
    using s by (simp add: mult_less_cancel_right)
qed

text \<open>C++ integer division truncates towards zero.\<close>

definition quot :: "int \<Rightarrow> int \<Rightarrow> int" where
  "quot a b = sgn a * sgn b * (\<bar>a\<bar> div \<bar>b\<bar>)"

definition rem :: "int \<Rightarrow> int \<Rightarrow> int" where
  "rem a b = a - quot a b * b"

lemma quot_nonneg: "0 \<le> a \<Longrightarrow> 0 < b \<Longrightarrow> quot a b = a div b"
  by (cases "a = 0") (simp_all add: quot_def)

lemma sint_of_int: "sint (word_of_int k :: u32) =
    (if - (2 ^ 31) \<le> k \<and> k < 2 ^ 31 then k else signed_take_bit 31 k)"
  using signed_take_bit_int_eq_self [of 31 k] by (simp add: sint_sbintrunc')

text \<open>The numbers an \<open>int\<close> and an \<open>unsigned\<close> can hold.\<close>

definition int32 :: "int \<Rightarrow> bool" where
  "int32 x \<longleftrightarrow> - (2 ^ 31) \<le> x \<and> x < 2 ^ 31"

definition uint32 :: "int \<Rightarrow> bool" where
  "uint32 x \<longleftrightarrow> 0 \<le> x \<and> x < 2 ^ 32"

lemma sint_int32: "int32 x \<Longrightarrow> sint (word_of_int x :: u32) = x"
  by (simp add: int32_def sint_of_int)

lemma uint_uint32: "uint32 x \<Longrightarrow> uint (word_of_int x :: u32) = x"
  by (simp add: uint32_def unsigned_of_int take_bit_int_eq_self)

section \<open>Lists\<close>

lemma takeWhile_all_snoc:
  "(\<forall>x\<in>set xs. P x) \<Longrightarrow> takeWhile P (xs @ y # ys) = xs @ (if P y then y # takeWhile P ys else [])"
  by (induction xs) auto

lemma dropWhile_all_snoc:
  "(\<forall>x\<in>set xs. P x) \<Longrightarrow> \<not> P y \<Longrightarrow> dropWhile P (xs @ y # ys) = y # ys"
  by (induction xs) auto

lemma find_upt_Some:
  "List.find P [0..<n] = Some i \<longleftrightarrow> i < n \<and> P i \<and> (\<forall>j<i. \<not> P j)"
  by (force simp: find_Some_iff)

lemma find_upt_None: "List.find P [0..<n] = None \<longleftrightarrow> (\<forall>i<n. \<not> P i)"
  by (auto simp: find_None_iff)

end
