(* ===== verification/Linked_List.thy ===== *)
theory Linked_List
  imports Prelude "HOL-Library.Multiset"
begin

text \<open>
  threads/list.cc and threads/list.h: the singly linked list every queue of the kernel is
  made of (the ready list, the waiters of a lock, the pending interrupts, a mailbox).

  The first half models the code as it is, over a heap of \<open>ListElement\<close>s reached through
  pointers. The second half gives the same operations on a plain list of (key, item) pairs,
  proves that the pointer code refines them (\<open>Append_refines\<close> and its companions), and
  states the contract of a first-in first-out queue as the locale \<open>fifo_queue\<close>, which both
  levels provide.
\<close>

section \<open>The code: elements on a heap\<close>

type_synonym addr = nat

record 'a ListElement =
  nxt :: "addr option"      \<comment> \<open>next; None is NULL\<close>
  key :: int                \<comment> \<open>int64_t, only compared\<close>
  item :: 'a

text \<open>
  The C++ heap, as far as list elements go: the live elements, and the address the next
  \<open>new\<close> returns (addresses are never reused, so a stale pointer finds nothing).
\<close>

record 'a heap =
  cells :: "addr \<rightharpoonup> 'a ListElement"
  brk :: addr

record List =
  first :: "addr option"
  lastp :: "addr option"

definition heap_ok :: "'a heap \<Rightarrow> bool" where
  "heap_ok h \<longleftrightarrow> (\<forall>a\<in>dom (cells h). a < brk h)"

definition new_ListElement :: "'a heap \<Rightarrow> 'a \<Rightarrow> int \<Rightarrow> 'a heap \<times> addr" where
  "new_ListElement h itemPtr sortKey =
     (h\<lparr>cells := (cells h)(brk h \<mapsto> \<lparr>nxt = None, key = sortKey, item = itemPtr\<rparr>),
        brk := Suc (brk h)\<rparr>, brk h)"

definition deref :: "'a heap \<Rightarrow> addr option \<Rightarrow> 'a ListElement result" where
  "deref h p = (case p of None \<Rightarrow> Inl NullPointer
     | Some a \<Rightarrow> (case cells h a of None \<Rightarrow> Inl DanglingPointer | Some e \<Rightarrow> Inr e))"

definition set_next :: "'a heap \<Rightarrow> addr option \<Rightarrow> addr option \<Rightarrow> 'a heap result" where
  "set_next h p q = (case p of None \<Rightarrow> Inl NullPointer
     | Some a \<Rightarrow> (case cells h a of None \<Rightarrow> Inl DanglingPointer
        | Some e \<Rightarrow> Inr (h\<lparr>cells := (cells h)(a \<mapsto> e\<lparr>nxt := q\<rparr>)\<rparr>)))"

definition new_List :: List where
  "new_List = \<lparr>first = None, lastp = None\<rparr>"

definition IsEmpty :: "List \<Rightarrow> bool" where
  "IsEmpty l \<longleftrightarrow> first l = None"

definition Append :: "'a heap \<Rightarrow> List \<Rightarrow> 'a \<Rightarrow> ('a heap \<times> List) result" where
  "Append h l itm =
     (let (h1, element) = new_ListElement h itm 0 in
      if IsEmpty l then Inr (h1, l\<lparr>first := Some element, lastp := Some element\<rparr>)
      else bind_result (set_next h1 (lastp l) (Some element))
             (\<lambda>h2. Inr (h2, l\<lparr>lastp := Some element\<rparr>)))"

definition Prepend :: "'a heap \<Rightarrow> List \<Rightarrow> 'a \<Rightarrow> ('a heap \<times> List) result" where
  "Prepend h l itm =
     (let (h1, element) = new_ListElement h itm 0 in
      if IsEmpty l then Inr (h1, l\<lparr>first := Some element, lastp := Some element\<rparr>)
      else bind_result (set_next h1 (Some element) (first l))
             (\<lambda>h2. Inr (h2, l\<lparr>first := Some element\<rparr>)))"

text \<open>
  The loop of \<open>SortedInsert\<close> walks the elements; on a heap where they form a cycle it would
  not end, so it is a \<open>partial_function\<close> whose value \<open>None\<close> is "does not return".
  \<open>insert_walk h l sortKey element ptr\<close> is the loop from the element \<open>ptr\<close> on.
\<close>

partial_function (option) insert_walk ::
  "'a heap \<Rightarrow> List \<Rightarrow> int \<Rightarrow> addr \<Rightarrow> addr option \<Rightarrow> ('a heap \<times> List) result option" where
  "insert_walk h l sortKey element ptr =
     (case deref h ptr of Inl c \<Rightarrow> Some (Inl c)
      | Inr e \<Rightarrow>
        (case nxt e of
           None \<Rightarrow> Some (bind_result (set_next h (lastp l) (Some element))
                      (\<lambda>h'. Inr (h', l\<lparr>lastp := Some element\<rparr>)))
         | Some n \<Rightarrow>
           (case deref h (Some n) of Inl c \<Rightarrow> Some (Inl c)
            | Inr e2 \<Rightarrow>
              (if sortKey < key e2
               then Some (bind_result (set_next h (Some element) (Some n))
                      (\<lambda>h'. bind_result (set_next h' ptr (Some element)) (\<lambda>h''. Inr (h'', l))))
               else insert_walk h l sortKey element (Some n)))))"

definition SortedInsert ::
  "'a heap \<Rightarrow> List \<Rightarrow> 'a \<Rightarrow> int \<Rightarrow> ('a heap \<times> List) result option" where
  "SortedInsert h l itm sortKey =
     (let (h1, element) = new_ListElement h itm sortKey in
      if IsEmpty l then Some (Inr (h1, l\<lparr>first := Some element, lastp := Some element\<rparr>))
      else (case deref h1 (first l) of Inl c \<Rightarrow> Some (Inl c)
        | Inr e \<Rightarrow>
          (if sortKey < key e
           then Some (bind_result (set_next h1 (Some element) (first l))
                  (\<lambda>h2. Inr (h2, l\<lparr>first := Some element\<rparr>)))
           else insert_walk h1 l sortKey element (first l))))"

text \<open>
  \<open>SortedRemove\<close> returns the item and its key, or \<open>None\<close> (NULL) on an empty list;
  \<open>delete element\<close> takes the element off the heap.
\<close>

definition SortedRemove ::
  "'a heap \<Rightarrow> List \<Rightarrow> (('a \<times> int) option \<times> 'a heap \<times> List) result" where
  "SortedRemove h l =
     (case first l of None \<Rightarrow> Inr (None, h, l)
      | Some a \<Rightarrow> bind_result (deref h (Some a)) (\<lambda>element.
          let thing = item element;
              l' = (if first l = lastp l then \<lparr>first = None, lastp = None\<rparr>
                    else l\<lparr>first := nxt element\<rparr>)
          in Inr (Some (thing, key element), h\<lparr>cells := (cells h)(a := None)\<rparr>, l')))"

definition Remove :: "'a heap \<Rightarrow> List \<Rightarrow> ('a option \<times> 'a heap \<times> List) result" where
  "Remove h l = bind_result (SortedRemove h l) (\<lambda>(r, h', l'). Inr (map_option fst r, h', l'))"

text \<open>\<open>Mapcar\<close>, with the calls it makes as the list of items in the order visited.\<close>

partial_function (option) Mapcar_walk :: "'a heap \<Rightarrow> addr option \<Rightarrow> 'a list result option" where
  "Mapcar_walk h ptr =
     (case ptr of None \<Rightarrow> Some (Inr [])
      | Some a \<Rightarrow>
        (case deref h (Some a) of Inl c \<Rightarrow> Some (Inl c)
         | Inr e \<Rightarrow>
           Option.bind (Mapcar_walk h (nxt e))
             (\<lambda>r. Some (bind_result r (\<lambda>xs. Inr (item e # xs))))))"

definition Mapcar :: "'a heap \<Rightarrow> List \<Rightarrow> 'a list result option" where
  "Mapcar h l = Mapcar_walk h (first l)"

section \<open>The abstract list and the representation\<close>

text \<open>
  \<open>seg f p as q\<close>: following \<open>next\<close> from \<open>p\<close> visits exactly the elements at the addresses
  \<open>as\<close> and then reaches \<open>q\<close>. \<open>repr h l as xs\<close>: the list object \<open>l\<close> on heap \<open>h\<close> stands for
  the list \<open>xs\<close> of (key, item) pairs, kept at the distinct addresses \<open>as\<close>, with \<open>last\<close>
  pointing at the last element.
\<close>

fun seg :: "(addr \<rightharpoonup> 'a ListElement) \<Rightarrow> addr option \<Rightarrow> addr list \<Rightarrow> addr option \<Rightarrow> bool" where
  "seg m p [] q \<longleftrightarrow> p = q"
| "seg m p (a # as) q \<longleftrightarrow> p = Some a \<and> (\<exists>e. m a = Some e \<and> seg m (nxt e) as q)"

definition entry :: "(addr \<rightharpoonup> 'a ListElement) \<Rightarrow> addr \<Rightarrow> int \<times> 'a" where
  "entry m a = (key (the (m a)), item (the (m a)))"

definition repr :: "'a heap \<Rightarrow> List \<Rightarrow> addr list \<Rightarrow> (int \<times> 'a) list \<Rightarrow> bool" where
  "repr h l as xs \<longleftrightarrow>
     heap_ok h \<and> distinct as \<and> seg (cells h) (first l) as None \<and>
     xs = map (entry (cells h)) as \<and> (as \<noteq> [] \<longrightarrow> lastp l = Some (last as))"

definition is_list :: "'a heap \<Rightarrow> List \<Rightarrow> (int \<times> 'a) list \<Rightarrow> bool" where
  "is_list h l xs \<longleftrightarrow> (\<exists>as. repr h l as xs)"

text \<open>The functional view of list.cc that the other components are written with.\<close>

definition list_append :: "'b list \<Rightarrow> 'b \<Rightarrow> 'b list" where
  "list_append q x = q @ [x]"

fun list_remove :: "'b list \<Rightarrow> 'b option \<times> 'b list" where
  "list_remove [] = (None, [])"
| "list_remove (x # xs) = (Some x, xs)"

definition sorted_insert :: "int \<Rightarrow> 'a \<Rightarrow> (int \<times> 'a) list \<Rightarrow> (int \<times> 'a) list" where
  "sorted_insert k x xs =
     takeWhile (\<lambda>p. fst p \<le> k) xs @ (k, x) # dropWhile (\<lambda>p. fst p \<le> k) xs"

section \<open>Facts about segments\<close>

lemma seg_append [simp]:
  "seg m p (as @ bs) q \<longleftrightarrow> (\<exists>r. seg m p as r \<and> seg m r bs q)"
  by (induction as arbitrary: p) auto

lemma seg_upd [simp]: "a \<notin> set as \<Longrightarrow> seg (m(a := x)) p as q = seg m p as q"
  by (induction as arbitrary: p) auto

lemma seg_dom: "seg m p as q \<Longrightarrow> set as \<subseteq> dom m"
  by (induction as arbitrary: p) auto

lemma seg_first: "seg m p as None \<Longrightarrow> p = None \<longleftrightarrow> as = []"
  by (cases as) auto

lemma entry_upd [simp]: "a \<noteq> b \<Longrightarrow> entry (m(a := x)) b = entry m b"
  by (simp add: entry_def)

lemma entry_upd_in [simp]: "a \<notin> set as \<Longrightarrow> b \<in> set as \<Longrightarrow> entry (m(a := x)) b = entry m b"
  by (cases "a = b") auto

lemma entry_nxt [simp]: "m a = Some e \<Longrightarrow> entry (m(a \<mapsto> e\<lparr>nxt := q\<rparr>)) b = entry m b"
  by (simp add: entry_def)

lemma map_entry_upd [simp]:
  "a \<notin> set as \<Longrightarrow> map (entry (m(a := x))) as = map (entry m) as"
  by (induction as) auto

lemma heap_ok_fresh: "heap_ok h \<Longrightarrow> cells h (brk h) = None"
  by (auto simp: heap_ok_def)

lemma repr_dom: "repr h l as xs \<Longrightarrow> set as \<subseteq> dom (cells h)"
  by (auto simp: repr_def dest: seg_dom)

lemma repr_fresh: "repr h l as xs \<Longrightarrow> brk h \<notin> set as \<and> cells h (brk h) = None"
  by (auto simp: repr_def heap_ok_def dest!: seg_dom)

lemma repr_length: "repr h l as xs \<Longrightarrow> length as = length xs"
  by (simp add: repr_def)

lemma repr_empty: "repr h l as xs \<Longrightarrow> IsEmpty l \<longleftrightarrow> xs = []"
  by (auto simp: repr_def IsEmpty_def dest: seg_first)

lemma is_list_IsEmpty: "is_list h l xs \<Longrightarrow> IsEmpty l \<longleftrightarrow> xs = []"
  by (auto simp: is_list_def dest: repr_empty)

lemma repr_Cons:
  "repr h l as (p # xs) \<Longrightarrow> \<exists>a as'. as = a # as' \<and> first l = Some a"
  by (cases as) (auto simp: repr_def)

lemma new_List_repr: "heap_ok h \<Longrightarrow> is_list h new_List []"
  by (auto simp: is_list_def repr_def new_List_def)

lemma deref_Some [simp]: "cells h a = Some e \<Longrightarrow> deref h (Some a) = Inr e"
  by (simp add: deref_def)

lemma set_next_Some [simp]:
  "cells h a = Some e \<Longrightarrow> set_next h (Some a) q = Inr (h\<lparr>cells := (cells h)(a \<mapsto> e\<lparr>nxt := q\<rparr>)\<rparr>)"
  by (simp add: set_next_def)

lemma heap_ok_new: "heap_ok h \<Longrightarrow> heap_ok (fst (new_ListElement h x k))"
  by (auto simp: heap_ok_def new_ListElement_def less_Suc_eq)

lemma heap_ok_upd: "heap_ok h \<Longrightarrow> cells h a = Some e \<Longrightarrow> heap_ok (h\<lparr>cells := (cells h)(a \<mapsto> e')\<rparr>)"
  by (auto simp: heap_ok_def)

text \<open>Setting \<open>next\<close> of the last element of a segment redirects where it ends.\<close>

lemma seg_set_last:
  assumes "seg m p (as @ [b]) q" "distinct (as @ [b])" "m b = Some e"
  shows "seg (m(b \<mapsto> e\<lparr>nxt := r\<rparr>)) p (as @ [b]) r"
  using assms by auto

section \<open>The code refines the abstract list\<close>

lemma repr_snoc_set_next:
  assumes "repr h l (as @ [b]) xs" "cells h b = Some e"
    and "c \<notin> set (as @ [b])" "c < brk h" "cells h c = Some f" "nxt f = None"
  shows "repr (h\<lparr>cells := (cells h)(b \<mapsto> e\<lparr>nxt := Some c\<rparr>)\<rparr>) (l\<lparr>lastp := Some c\<rparr>)
     ((as @ [b]) @ [c]) (xs @ [(key f, item f)])"
  using assms by (auto simp: repr_def heap_ok_def entry_def fun_upd_twist)

lemma repr_new:
  assumes "repr h l as xs" "new_ListElement h x k = (h1, c)"
  shows "repr h1 l as xs" "c \<notin> set as" "c < brk h1"
    "cells h1 c = Some \<lparr>nxt = None, key = k, item = x\<rparr>"
  using assms repr_fresh [OF assms(1)]
  by (auto simp: repr_def heap_ok_def new_ListElement_def less_Suc_eq)

lemma repr_singleton:
  assumes "repr h l as []" "new_ListElement h x k = (h1, c)"
  shows "repr h1 (l\<lparr>first := Some c, lastp := Some c\<rparr>) [c] [(k, x)]"
  using assms by (auto simp: repr_def heap_ok_def new_ListElement_def entry_def less_Suc_eq)

lemma Append_repr:
  assumes R: "repr h l as xs"
  shows "\<exists>h' l'. Append h l x = Inr (h', l') \<and> repr h' l' (as @ [brk h]) (xs @ [(0, x)])"
proof -
  obtain h1 c where new: "new_ListElement h x 0 = (h1, c)" by fastforce
  have c: "c = brk h" using new by (simp add: new_ListElement_def)
  note N = repr_new [OF R new]
  show ?thesis
  proof (cases as rule: rev_cases)
    case Nil
    with R have "xs = []" by (simp add: repr_def)
    then show ?thesis
      using R new c Nil repr_empty [OF R] repr_singleton [of h l as x 0 h1 c]
      by (simp add: Append_def)
  next
    case (snoc bs b)
    with N(1) obtain e where e: "cells h1 b = Some e"
      by (auto simp: repr_def)
    from snoc R have ne: "\<not> IsEmpty l" "lastp l = Some b"
      using repr_empty [OF R] by (auto simp: repr_def)
    have "repr (h1\<lparr>cells := (cells h1)(b \<mapsto> e\<lparr>nxt := Some c\<rparr>)\<rparr>) (l\<lparr>lastp := Some c\<rparr>)
        (as @ [c]) (xs @ [(0, x)])"
      using repr_snoc_set_next [of h1 l bs b xs e c] N e snoc by fastforce
    then show ?thesis
      using new ne e c by (simp add: Append_def)
  qed
qed

lemma Prepend_repr:
  assumes R: "repr h l as xs"
  shows "\<exists>h' l'. Prepend h l x = Inr (h', l') \<and> repr h' l' (brk h # as) ((0, x) # xs)"
proof -
  obtain h1 c where new: "new_ListElement h x 0 = (h1, c)" by fastforce
  have c: "c = brk h" using new by (simp add: new_ListElement_def)
  note N = repr_new [OF R new]
  show ?thesis
  proof (cases "xs = []")
    case True
    then show ?thesis
      using R new c repr_empty [OF R] repr_singleton [of h l as x 0 h1 c] repr_length [OF R]
      by (simp add: Prepend_def)
  next
    case False
    then have ne: "\<not> IsEmpty l" "as \<noteq> []" using repr_empty [OF R] repr_length [OF R] by auto
    then show ?thesis
      using N new c by (auto simp: Prepend_def repr_def heap_ok_def entry_def)
  qed
qed

lemma sorted_insert_end:
  "\<forall>p\<in>set xs. fst p \<le> k \<Longrightarrow> sorted_insert k x xs = xs @ [(k, x)]"
  by (metis append_Nil2 dropWhile_eq_Nil_conv sorted_insert_def takeWhile_eq_all_conv)

lemma sorted_insert_middle:
  "\<forall>p\<in>set xs. fst p \<le> k \<Longrightarrow> k < fst y \<Longrightarrow>
   sorted_insert k x (xs @ y # ys) = xs @ (k, x) # y # ys"
  by (simp add: sorted_insert_def takeWhile_all_snoc dropWhile_all_snoc)

text \<open>The loop of \<open>SortedInsert\<close>, from any element whose predecessors all have a small key.\<close>

lemma insert_walk_repr:
  assumes "repr h l (us @ a # vs) xs"
    and "\<forall>u\<in>set (us @ [a]). fst (entry (cells h) u) \<le> k"
    and "c \<notin> set (us @ a # vs)" "c < brk h"
    and "cells h c = Some \<lparr>nxt = None, key = k, item = x\<rparr>"
  shows "\<exists>h' l' as'. insert_walk h l k c (Some a) = Some (Inr (h', l')) \<and>
           repr h' l' as' (sorted_insert k x xs)"
  using assms
proof (induction vs arbitrary: us a)
  case Nil
  from Nil.prems(1) obtain e where e: "cells h a = Some e" "nxt e = None"
    by (auto simp: repr_def)
  from Nil.prems(1) have last: "lastp l = Some a" and xs: "xs = map (entry (cells h)) (us @ [a])"
    by (auto simp: repr_def)
  from Nil.prems(2) xs have "sorted_insert k x xs = xs @ [(k, x)]"
    by (intro sorted_insert_end) auto
  moreover have "repr (h\<lparr>cells := (cells h)(a \<mapsto> e\<lparr>nxt := Some c\<rparr>)\<rparr>) (l\<lparr>lastp := Some c\<rparr>)
      ((us @ [a]) @ [c]) (xs @ [(k, x)])"
    using repr_snoc_set_next [OF Nil.prems(1) e(1) Nil.prems(3,4,5)] by simp
  ultimately show ?case
    using e last by (subst insert_walk.simps) fastforce
next
  case (Cons n ws)
  from Cons.prems(1) obtain e f where e: "cells h a = Some e" "nxt e = Some n"
    and f: "cells h n = Some f" and tail: "seg (cells h) (nxt f) ws None"
    by (auto simp: repr_def)
  show ?case
  proof (cases "k < key f")
    case True
    define h' where "h' = h\<lparr>cells := (cells h)
        (c \<mapsto> \<lparr>nxt = Some n, key = k, item = x\<rparr>, a \<mapsto> e\<lparr>nxt := Some c\<rparr>)\<rparr>"
    have xs: "xs = map (entry (cells h)) (us @ [a]) @ entry (cells h) n # map (entry (cells h)) ws"
      using Cons.prems(1) by (simp add: repr_def)
    have "sorted_insert k x xs =
        map (entry (cells h)) (us @ [a]) @ (k, x) # entry (cells h) n # map (entry (cells h)) ws"
      unfolding xs using Cons.prems(2) True f
      by (subst sorted_insert_middle) (auto simp: entry_def)
    moreover have "repr h' l (us @ a # c # n # ws)
        (map (entry (cells h)) (us @ [a]) @ (k, x) # entry (cells h) n # map (entry (cells h)) ws)"
      using Cons.prems e f tail
      by (auto simp: repr_def h'_def heap_ok_def entry_def)
    moreover have "insert_walk h l k c (Some a) = Some (Inr (h', l))"
      using True e f Cons.prems(3,5)
      by (subst insert_walk.simps) (auto simp: h'_def fun_upd_twist)
    ultimately show ?thesis by metis
  next
    case False
    have "\<exists>h' l' as'. insert_walk h l k c (Some n) = Some (Inr (h', l')) \<and>
        repr h' l' as' (sorted_insert k x xs)"
      using Cons.IH [of "us @ [a]" n] Cons.prems False f by (simp add: entry_def)
    then show ?thesis
      using False e f by (subst insert_walk.simps) simp
  qed
qed

lemma SortedInsert_repr:
  assumes R: "repr h l as xs"
  shows "\<exists>h' l' as'. SortedInsert h l x k = Some (Inr (h', l')) \<and>
           repr h' l' as' (sorted_insert k x xs)"
proof -
  obtain h1 c where new: "new_ListElement h x k = (h1, c)" by fastforce
  note N = repr_new [OF R new]
  show ?thesis
  proof (cases as)
    case Nil
    with R have "xs = []" by (simp add: repr_def)
    then show ?thesis
      using R new repr_empty [OF R] repr_singleton [of h l as x k h1 c]
      by (auto simp: SortedInsert_def sorted_insert_def)
  next
    case (Cons a bs)
    with N(1) obtain e where fst: "first l = Some a" and e: "cells h1 a = Some e"
      and tail: "seg (cells h1) (nxt e) bs None"
      by (auto simp: repr_def)
    from Cons R have ne: "\<not> IsEmpty l" using repr_empty [OF R] by (auto simp: repr_def)
    from N(1) Cons e have xs: "xs = (key e, item e) # map (entry (cells h1)) bs"
      by (simp add: repr_def entry_def)
    show ?thesis
    proof (cases "k < key e")
      case True
      then have "sorted_insert k x xs = (k, x) # xs"
        by (simp add: sorted_insert_def xs)
      moreover have "repr (h1\<lparr>cells := (cells h1)(c \<mapsto> \<lparr>nxt = Some a, key = k, item = x\<rparr>)\<rparr>)
          (l\<lparr>first := Some c\<rparr>) (c # as) ((k, x) # xs)"
        using N fst Cons by (auto simp: repr_def heap_ok_def entry_def)
      ultimately show ?thesis
        using True new ne fst e N(4) by (auto simp: SortedInsert_def)
    next
      case False
      then have "\<exists>h' l' as'. insert_walk h1 l k c (Some a) = Some (Inr (h', l')) \<and>
          repr h' l' as' (sorted_insert k x xs)"
        using insert_walk_repr [of h1 l "[]" a bs xs k c x] N Cons e by (simp add: entry_def)
      then show ?thesis
        using False new ne fst e by (simp add: SortedInsert_def)
    qed
  qed
qed

lemma SortedRemove_repr_Nil:
  "repr h l as [] \<Longrightarrow> SortedRemove h l = Inr (None, h, l)"
  using repr_empty [of h l as "[]"] by (simp add: SortedRemove_def IsEmpty_def)

lemma SortedRemove_repr_Cons:
  assumes R: "repr h l as ((k, x) # xs)"
  shows "\<exists>h' l'. SortedRemove h l = Inr (Some (x, k), h', l') \<and> repr h' l' (tl as) xs"
proof -
  from R obtain a bs where as: "as = a # bs" and fst: "first l = Some a"
    using repr_Cons by blast
  with R obtain e where e: "cells h a = Some e" "seg (cells h) (nxt e) bs None"
    by (auto simp: repr_def)
  from R as e have kx: "key e = k" "item e = x" "xs = map (entry (cells h)) bs"
    by (auto simp: repr_def entry_def)
  have only: "first l = lastp l \<longleftrightarrow> bs = []"
    using R as fst by (auto simp: repr_def)
  show ?thesis
    using R as fst e kx only
    by (auto simp: SortedRemove_def repr_def heap_ok_def)
qed

lemma Mapcar_walk_seg:
  "seg (cells h) p as None \<Longrightarrow>
   Mapcar_walk h p = Some (Inr (map (\<lambda>a. snd (entry (cells h) a)) as))"
proof (induction as arbitrary: p)
  case Nil
  then show ?case by (subst Mapcar_walk.simps) simp
next
  case (Cons a as)
  then obtain e where "p = Some a" "cells h a = Some e" "seg (cells h) (nxt e) as None"
    by auto
  with Cons.IH show ?case
    by (subst Mapcar_walk.simps) (simp add: entry_def)
qed

section \<open>The abstract sorted insertion is a stable sort\<close>

lemma mset_sorted_insert [simp]: "mset (sorted_insert k x xs) = add_mset (k, x) (mset xs)"
proof -
  have "mset xs = mset (takeWhile (\<lambda>p. fst p \<le> k) xs @ dropWhile (\<lambda>p. fst p \<le> k) xs)"
    by simp
  then show ?thesis unfolding sorted_insert_def by (simp del: takeWhile_dropWhile_id)
qed

lemma set_sorted_insert [simp]: "set (sorted_insert k x xs) = insert (k, x) (set xs)"
  by (metis mset_sorted_insert set_mset_add_mset_insert set_mset_mset)

lemma sorted_insert_Cons:
  "sorted_insert k x (p # xs) = (if fst p \<le> k then p # sorted_insert k x xs else (k, x) # p # xs)"
  by (simp add: sorted_insert_def)

lemma sorted_insert_Nil [simp]: "sorted_insert k x [] = [(k, x)]"
  by (simp add: sorted_insert_def)

lemma sorted_sorted_insert:
  "sorted (map fst xs) \<Longrightarrow> sorted (map fst (sorted_insert k x xs))"
  by (induction xs) (auto simp: sorted_insert_Cons)

lemma filter_sorted_insert:
  "sorted (map fst xs) \<Longrightarrow> filter (\<lambda>p. j = fst p) (sorted_insert k x xs) =
     filter (\<lambda>p. j = fst p) xs @ (if j = k then [(k, x)] else [])"
proof (induction xs)
  case Nil
  then show ?case by simp
next
  case (Cons a xs)
  have "filter (\<lambda>p. j = fst p) (a # xs) = []" if "k < fst a" "j = k"
    using that Cons.prems by (fastforce simp: filter_empty_conv)
  with Cons show ?case by (auto simp: sorted_insert_Cons not_le)
qed

definition insert_all :: "(int \<times> 'a) list \<Rightarrow> (int \<times> 'a) list \<Rightarrow> (int \<times> 'a) list" where
  "insert_all ps xs = foldl (\<lambda>ys (k, x). sorted_insert k x ys) xs ps"

lemma insert_all_invariants:
  "sorted (map fst xs) \<Longrightarrow>
   sorted (map fst (insert_all ps xs)) \<and> mset (insert_all ps xs) = mset xs + mset ps \<and>
   filter (\<lambda>p. j = fst p) (insert_all ps xs) =
     filter (\<lambda>p. j = fst p) xs @ filter (\<lambda>p. j = fst p) ps"
proof (induction ps arbitrary: xs)
  case Nil
  then show ?case by (simp add: insert_all_def)
next
  case (Cons p ps)
  obtain k x where p: "p = (k, x)" by fastforce
  from Cons.IH [OF sorted_sorted_insert [OF Cons.prems, of k x]] show ?case
    using Cons.prems by (simp add: insert_all_def p filter_sorted_insert)
qed

lemma insert_all_sort: "insert_all ps [] = sort_key fst ps"
proof -
  have "sorted (map fst (insert_all ps []))" "mset (insert_all ps []) = mset ps"
    "\<And>j. filter (\<lambda>p. j = fst p) (insert_all ps []) = filter (\<lambda>p. j = fst p) ps"
    using insert_all_invariants [of "[]" ps] by auto
  then show ?thesis
    by (intro properties_for_sort_key [symmetric]) auto
qed

section \<open>Interfaces of the list, and the code as their provider\<close>

text \<open>
  \<open>rep q xs\<close> says that the queue \<open>q\<close> holds \<open>xs\<close>, the first element first. The two helpers run
  a queue: \<open>enq_all\<close> adds a list of elements, \<open>deq_n\<close> removes \<open>n\<close> times and collects what
  came out.
\<close>

fun enq_all :: "('q \<Rightarrow> 'b \<Rightarrow> 'q result) \<Rightarrow> 'q \<Rightarrow> 'b list \<Rightarrow> 'q result" where
  "enq_all enq q [] = Inr q"
| "enq_all enq q (x # xs) = bind_result (enq q x) (\<lambda>q'. enq_all enq q' xs)"

fun deq_n :: "('q \<Rightarrow> ('b option \<times> 'q) result) \<Rightarrow> 'q \<Rightarrow> nat \<Rightarrow> ('b option list \<times> 'q) result" where
  "deq_n deq q 0 = Inr ([], q)"
| "deq_n deq q (Suc n) =
     bind_result (deq q) (\<lambda>(r, q'). bind_result (deq_n deq q' n) (\<lambda>(rs, q''). Inr (r # rs, q'')))"

locale removable =
  fixes rep :: "'q \<Rightarrow> 'b list \<Rightarrow> bool"
    and deq :: "'q \<Rightarrow> ('b option \<times> 'q) result"
  assumes deq_Nil: "rep q [] \<Longrightarrow> deq q = Inr (None, q)"
    and deq_Cons: "rep q (x # xs) \<Longrightarrow> \<exists>q'. deq q = Inr (Some x, q') \<and> rep q' xs"
begin

lemma deq_n_ok:
  "rep q xs \<Longrightarrow> n \<le> length xs \<Longrightarrow>
   \<exists>q'. deq_n deq q n = Inr (map Some (take n xs), q') \<and> rep q' (drop n xs)"
proof (induction n arbitrary: q xs)
  case 0
  then show ?case by simp
next
  case (Suc n)
  then obtain y ys where xs: "xs = y # ys" by (cases xs) auto
  from Suc.prems xs obtain q1 where q1: "deq q = Inr (Some y, q1)" "rep q1 ys"
    using deq_Cons by blast
  from Suc.IH [OF q1(2)] Suc.prems xs
  obtain q2 where "deq_n deq q1 n = Inr (map Some (take n ys), q2)" "rep q2 (drop n ys)"
    by auto
  with q1 xs show ?case by simp
qed

end

locale fifo_queue = removable +
  fixes enq :: "'a \<Rightarrow> 'b \<Rightarrow> 'a result"
  assumes enq_ok: "rep q xs \<Longrightarrow> \<exists>q'. enq q x = Inr q' \<and> rep q' (xs @ [x])"
begin

lemma enq_all_ok: "rep q xs \<Longrightarrow> \<exists>q'. enq_all enq q ys = Inr q' \<and> rep q' (xs @ ys)"
proof (induction ys arbitrary: q xs)
  case Nil
  then show ?case by simp
next
  case (Cons y ys)
  then obtain q1 where "enq q y = Inr q1" "rep q1 (xs @ [y])"
    using enq_ok by blast
  with Cons.IH [of q1 "xs @ [y]"] show ?case by auto
qed

lemma drains_in_order:
  assumes "rep q xs"
  shows "\<exists>q' q''. enq_all enq q ys = Inr q' \<and>
     deq_n deq q' (length xs + length ys) = Inr (map Some (xs @ ys), q'') \<and> rep q'' []"
proof -
  from enq_all_ok [OF assms, of ys] obtain q' where
    "enq_all enq q ys = Inr q'" "rep q' (xs @ ys)" by blast
  with deq_n_ok [of q' "xs @ ys" "length xs + length ys"] show ?thesis by auto
qed

end

locale sorted_queue = removable rep deq
  for rep :: "'q \<Rightarrow> (int \<times> 'a) list \<Rightarrow> bool" and deq +
  fixes ins :: "'q \<Rightarrow> int \<times> 'a \<Rightarrow> 'q result"
  assumes ins_ok: "rep q xs \<Longrightarrow> \<exists>q'. ins q (k, x) = Inr q' \<and> rep q' (sorted_insert k x xs)"
begin

lemma ins_all_ok: "rep q xs \<Longrightarrow> \<exists>q'. enq_all ins q ps = Inr q' \<and> rep q' (insert_all ps xs)"
proof (induction ps arbitrary: q xs)
  case Nil
  then show ?case by (simp add: insert_all_def)
next
  case (Cons p ps)
  obtain k x where p: "p = (k, x)" by fastforce
  from Cons.prems obtain q1 where "ins q (k, x) = Inr q1" "rep q1 (sorted_insert k x xs)"
    using ins_ok by blast
  with Cons.IH [of q1 "sorted_insert k x xs"] p show ?case
    by (auto simp: insert_all_def)
qed

lemma drains_sorted:
  assumes "rep q []"
  shows "\<exists>q' q''. enq_all ins q ps = Inr q' \<and>
     deq_n deq q' (length ps) = Inr (map Some (sort_key fst ps), q'') \<and> rep q'' []"
proof -
  from ins_all_ok [OF assms, of ps] obtain q' where
    "enq_all ins q ps = Inr q'" "rep q' (sort_key fst ps)"
    by (auto simp: insert_all_sort)
  with deq_n_ok [of q' "sort_key fst ps" "length ps"] show ?thesis by auto
qed

end

text \<open>
  The code of list.cc provides both. \<open>SortedInsert\<close> returns an option (it might not end);
  \<open>total\<close> reads "does not return" as a crash, which the interpretation shows not to happen.
\<close>

definition code_enq :: "'a heap \<times> List \<Rightarrow> 'a \<Rightarrow> ('a heap \<times> List) result" where
  "code_enq q x = (case q of (h, l) \<Rightarrow> Append h l x)"

definition code_deq :: "'a heap \<times> List \<Rightarrow> ('a option \<times> ('a heap \<times> List)) result" where
  "code_deq q = (case q of (h, l) \<Rightarrow> Remove h l)"

definition code_ins :: "'a heap \<times> List \<Rightarrow> int \<times> 'a \<Rightarrow> ('a heap \<times> List) result" where
  "code_ins q p = (case q of (h, l) \<Rightarrow>
     case SortedInsert h l (snd p) (fst p) of None \<Rightarrow> Inl AssertFailed | Some r \<Rightarrow> r)"

definition code_sdeq :: "'a heap \<times> List \<Rightarrow> ((int \<times> 'a) option \<times> ('a heap \<times> List)) result" where
  "code_sdeq q = (case q of (h, l) \<Rightarrow>
     bind_result (SortedRemove h l)
       (\<lambda>(r, h', l'). Inr (map_option (\<lambda>(x, k). (k, x)) r, h', l')))"

definition items_rep :: "'a heap \<times> List \<Rightarrow> 'a list \<Rightarrow> bool" where
  "items_rep q xs \<longleftrightarrow> (\<exists>kxs. is_list (fst q) (snd q) kxs \<and> map snd kxs = xs)"

definition entries_rep :: "'a heap \<times> List \<Rightarrow> (int \<times> 'a) list \<Rightarrow> bool" where
  "entries_rep q xs \<longleftrightarrow> is_list (fst q) (snd q) xs"

interpretation code_queue: fifo_queue items_rep code_deq code_enq
proof unfold_locales
  fix q :: "'a heap \<times> List"
  assume "items_rep q []"
  then show "code_deq q = Inr (None, q)"
    by (cases q)
      (auto simp: items_rep_def is_list_def code_deq_def Remove_def SortedRemove_repr_Nil)
next
  fix q :: "'a heap \<times> List" and x xs
  assume "items_rep q (x # xs)"
  then obtain k kxs as where "repr (fst q) (snd q) as ((k, x) # kxs)" "map snd kxs = xs"
    by (auto simp: items_rep_def is_list_def)
  then show "\<exists>q'. code_deq q = Inr (Some x, q') \<and> items_rep q' xs"
    using SortedRemove_repr_Cons
    by (cases q) (fastforce simp: items_rep_def is_list_def code_deq_def Remove_def)
next
  fix q :: "'a heap \<times> List" and xs x
  assume "items_rep q xs"
  then obtain kxs as where "repr (fst q) (snd q) as kxs" "map snd kxs = xs"
    by (auto simp: items_rep_def is_list_def)
  then show "\<exists>q'. code_enq q x = Inr q' \<and> items_rep q' (xs @ [x])"
    using Append_repr [of "fst q" "snd q" as kxs x]
    by (cases q) (fastforce simp: items_rep_def is_list_def code_enq_def)
qed

interpretation code_sorted: sorted_queue entries_rep code_sdeq code_ins
proof unfold_locales
  fix q :: "'a heap \<times> List"
  assume "entries_rep q []"
  then show "code_sdeq q = Inr (None, q)"
    by (cases q) (auto simp: entries_rep_def is_list_def code_sdeq_def SortedRemove_repr_Nil)
next
  fix q :: "'a heap \<times> List" and x :: "int \<times> 'a" and xs
  assume "entries_rep q (x # xs)"
  then obtain as where "repr (fst q) (snd q) as ((fst x, snd x) # xs)"
    by (auto simp: entries_rep_def is_list_def)
  from SortedRemove_repr_Cons [OF this]
  show "\<exists>q'. code_sdeq q = Inr (Some x, q') \<and> entries_rep q' xs"
    by (cases q) (auto simp: entries_rep_def is_list_def code_sdeq_def)
next
  fix q :: "'a heap \<times> List" and xs k and x :: 'a
  assume "entries_rep q xs"
  then obtain as where "repr (fst q) (snd q) as xs"
    by (auto simp: entries_rep_def is_list_def)
  from SortedInsert_repr [OF this, of x k]
  show "\<exists>q'. code_ins q (k, x) = Inr q' \<and> entries_rep q' (sorted_insert k x xs)"
    by (cases q) (fastforce simp: entries_rep_def is_list_def code_ins_def)
qed

text \<open>The functional view is a first-in first-out queue too.\<close>

definition view_enq :: "'b list \<Rightarrow> 'b \<Rightarrow> 'b list result" where
  "view_enq q x = Inr (list_append q x)"

definition view_deq :: "'b list \<Rightarrow> ('b option \<times> 'b list) result" where
  "view_deq q = Inr (list_remove q)"

interpretation view_queue: fifo_queue "\<lambda>q xs. q = xs" view_deq view_enq
  by unfold_locales (auto simp: view_enq_def view_deq_def list_append_def)

section \<open>Several lists on one heap\<close>

text \<open>
  The kernel keeps all its queues on one heap. An operation on one list leaves a list with
  other elements alone; \<open>agree_on\<close> is what it needs to know of the change.
\<close>

definition agree_on :: "addr set \<Rightarrow> 'a heap \<Rightarrow> 'a heap \<Rightarrow> bool" where
  "agree_on A h h' \<longleftrightarrow> heap_ok h' \<and> (\<forall>a\<in>A. cells h' a = cells h a)"

lemma seg_agree: "\<forall>a\<in>set as. m' a = m a \<Longrightarrow> seg m' p as q = seg m p as q"
  by (induction as arbitrary: p) auto

lemma repr_agree: "repr h l bs ys \<Longrightarrow> agree_on (set bs) h h' \<Longrightarrow> repr h' l bs ys"
  by (auto simp: repr_def agree_on_def seg_agree [of bs "cells h'" "cells h"] entry_def)

lemma Append_frame:
  assumes "repr h l as xs" "Append h l x = Inr (h', l')" "heap_ok h'"
  shows "agree_on (dom (cells h) - set as) h h'"
proof (cases as rule: rev_cases)
  case Nil
  with assms(1) have "IsEmpty l" by (simp add: repr_def IsEmpty_def)
  with assms show ?thesis
    using heap_ok_fresh [of h]
    by (auto simp: agree_on_def Append_def new_ListElement_def repr_def split: if_splits)
next
  case (snoc bs b)
  with assms(1) have "\<not> IsEmpty l" "lastp l = Some b" "b \<in> dom (cells h)" "b \<noteq> brk h"
    using repr_fresh [OF assms(1)] by (cases bs; auto simp: repr_def IsEmpty_def)+
  with assms snoc show ?thesis
    using repr_fresh [OF assms(1)]
    by (auto simp: agree_on_def Append_def new_ListElement_def set_next_def deref_def
        split: if_splits)
qed

lemma SortedRemove_frame:
  assumes "repr h l as (p # xs)" "SortedRemove h l = Inr (r, h', l')" "heap_ok h'"
  shows "agree_on (dom (cells h) - set as) h h' \<and> dom (cells h') \<subseteq> dom (cells h)"
  using assms repr_Cons [OF assms(1)]
  by (auto simp: agree_on_def SortedRemove_def deref_def Let_def split: option.splits if_splits)

section \<open>Properties\<close>

text \<open>
  C1: what \<open>Append\<close> puts in a list comes out of \<open>Remove\<close> in the same order. On any heap with a
  well-formed list holding \<open>xs\<close>, appending the items \<open>ys\<close> one after another and then removing
  as many items as there are returns exactly \<open>xs @ ys\<close>, no pointer is misused on the way, and
  the list is empty at the end.
\<close>

theorem Append_Remove_fifo:
  assumes "is_list h l kxs"
  shows "\<exists>q q'. enq_all code_enq (h, l) ys = Inr q \<and>
     deq_n code_deq q (length kxs + length ys) = Inr (map Some (map snd kxs @ ys), q') \<and>
     items_rep q' []"
  using code_queue.drains_in_order [of "(h, l)" "map snd kxs" ys] assms
  by (auto simp: items_rep_def)

definition empty_heap :: "'a heap" where
  "empty_heap = \<lparr>cells = Map.empty, brk = 0\<rparr>"

lemma empty_heap_list: "is_list empty_heap new_List []"
  by (rule new_List_repr) (simp add: empty_heap_def heap_ok_def)

theorem Append_Remove_fifo_witness:
  "\<exists>q q'. enq_all code_enq (empty_heap, new_List) ''ab'' = Inr q \<and>
     deq_n code_deq q 2 = Inr ([Some (CHR ''a''), Some (CHR ''b'')], q') \<and> items_rep q' []"
  using Append_Remove_fifo [OF empty_heap_list, of "''ab''"] by (simp add: numeral_2_eq_2)

text \<open>
  \<open>SortedInsert\<close> keeps the list sorted and stable, always returns, and never follows a bad
  pointer: on a well-formed list it gives a well-formed list in which the new element stands
  after every element whose key is not larger and before the rest.
\<close>

lemma SortedInsert_refines:
  assumes "is_list h l xs"
  shows "\<exists>h' l'. SortedInsert h l x k = Some (Inr (h', l')) \<and>
     is_list h' l' (takeWhile (\<lambda>p. fst p \<le> k) xs @ (k, x) # dropWhile (\<lambda>p. fst p \<le> k) xs)"
  using assms SortedInsert_repr [of h l _ xs x k] unfolding is_list_def sorted_insert_def by blast

lemma SortedInsert_refines_example:
  "\<exists>h' l'. SortedInsert empty_heap new_List CHR ''a'' 7 = Some (Inr (h', l')) \<and>
     is_list h' l' [(7, CHR ''a'')]"
  using SortedInsert_refines [OF empty_heap_list, of "CHR ''a''" 7] by simp

text \<open>
  \<open>SortedInsert\<close> and \<open>SortedRemove\<close> together are a stable sort: a fresh list into which any
  elements are inserted gives them back in the order of their keys, those with equal keys in
  the order of insertion.
\<close>

lemma SortedInsert_SortedRemove_sorts:
  assumes "heap_ok h"
  shows "\<exists>q q'. enq_all code_ins (h, new_List) ps = Inr q \<and>
     deq_n code_sdeq q (length ps) = Inr (map Some (sort_key fst ps), q') \<and> entries_rep q' []"
  using code_sorted.drains_sorted [of "(h, new_List)" ps] new_List_repr [OF assms]
  by (simp add: entries_rep_def)

lemma SortedInsert_SortedRemove_sorts_example:
  "\<exists>q q'. enq_all code_ins (empty_heap, new_List) [(3, CHR ''a''), (1, CHR ''b''), (3, CHR ''c'')] = Inr q \<and>
     deq_n code_sdeq q 3 =
       Inr ([Some (1, CHR ''b''), Some (3, CHR ''a''), Some (3, CHR ''c'')], q') \<and> entries_rep q' []"
proof -
  have "heap_ok (empty_heap :: char heap)" by (simp add: empty_heap_def heap_ok_def)
  from SortedInsert_SortedRemove_sorts
    [OF this, of "[(3, CHR ''a''), (1, CHR ''b''), (3, CHR ''c'')]"]
  show ?thesis by (simp add: numeral_3_eq_3)
qed

text \<open>
  moving the first waiter of one queue to the end of another, as \<open>Lock::Release\<close>,
  \<open>Semaphore::V\<close> and \<open>Condition::Signal\<close> do with the ready list, is safe on a shared heap: two
  lists with no element in common are still well-formed and share no element afterwards, and
  exactly the first item has moved.
\<close>

lemma Remove_Append_moves:
  assumes "repr h l1 as ((k, x) # xs)" "repr h l2 bs ys" "set as \<inter> set bs = {}"
  shows "\<exists>h1 l1' h2 l2' as' bs'. Remove h l1 = Inr (Some x, h1, l1') \<and>
     Append h1 l2 x = Inr (h2, l2') \<and> repr h2 l1' as' xs \<and> repr h2 l2' bs' (ys @ [(0, x)]) \<and>
     set as' \<inter> set bs' = {}"
proof -
  from SortedRemove_repr_Cons [OF assms(1)] obtain h1 l1' where
    rm: "SortedRemove h l1 = Inr (Some (x, k), h1, l1')" "repr h1 l1' (tl as) xs" by blast
  then have ok1: "heap_ok h1" by (simp add: repr_def)
  have "agree_on (set bs) h h1"
    using SortedRemove_frame [OF assms(1) rm(1) ok1] assms(3) repr_dom [OF assms(2)]
    by (auto simp: agree_on_def)
  with assms(2) have bs1: "repr h1 l2 bs ys" by (rule repr_agree)
  from Append_repr [OF bs1, of x] obtain h2 l2' where
    ap: "Append h1 l2 x = Inr (h2, l2')" "repr h2 l2' (bs @ [brk h1]) (ys @ [(0, x)])" by blast
  have dj: "set (tl as) \<inter> set bs = {}"
    using assms(1,3) repr_Cons [OF assms(1)] by auto
  have "agree_on (set (tl as)) h1 h2"
    using Append_frame [OF bs1 ap(1)] ap(2) dj repr_dom [OF rm(2)]
    by (auto simp: agree_on_def repr_def)
  with rm(2) have "repr h2 l1' (tl as) xs" by (rule repr_agree)
  moreover have "brk h1 \<notin> set (tl as)" using repr_fresh [OF rm(2)] by simp
  ultimately show ?thesis
    using rm ap dj by (intro exI [of _ h1] exI [of _ l1'] exI [of _ h2] exI [of _ l2']
      exI [of _ "tl as"] exI [of _ "bs @ [brk h1]"]) (auto simp: Remove_def)
qed

definition two_queues :: "char heap" where
  "two_queues = \<lparr>cells = [0 \<mapsto> \<lparr>nxt = None, key = 0, item = CHR ''a''\<rparr>,
     1 \<mapsto> \<lparr>nxt = None, key = 0, item = CHR ''b''\<rparr>], brk = 2\<rparr>"

lemma Remove_Append_moves_example:
  "\<exists>h1 l1' h2 l2' as' bs'. Remove two_queues \<lparr>first = Some 0, lastp = Some 0\<rparr> = Inr (Some CHR ''a'', h1, l1') \<and>
     Append h1 \<lparr>first = Some 1, lastp = Some 1\<rparr> CHR ''a'' = Inr (h2, l2') \<and>
     repr h2 l1' as' [] \<and> repr h2 l2' bs' [(0, CHR ''b''), (0, CHR ''a'')] \<and> set as' \<inter> set bs' = {}"
proof -
  have "repr two_queues \<lparr>first = Some 0, lastp = Some 0\<rparr> [0] [(0, CHR ''a'')]"
    "repr two_queues \<lparr>first = Some 1, lastp = Some 1\<rparr> [1] [(0, CHR ''b'')]"
    by (auto simp: repr_def two_queues_def heap_ok_def entry_def)
  from Remove_Append_moves [OF this] show ?thesis by simp
qed

end
