(* ===== verification/Bit_Map.thy ===== *)
theory Bit_Map
  imports Prelude
begin

text \<open>
  userprog/bitmap.cc and the class \<open>Table\<close> of userprog/addrspace.cc.

  A bitmap is an array of 32-bit words; \<open>bits\<close> abstracts it to the set of its set bits, and
  every operation is proved against that set. The contract the users of a bitmap rely on
  (disk sectors, page frames, open-file slots, locks and condition variables are all
  allocated with \<open>Find\<close>) is the locale \<open>slot_allocator\<close>.
\<close>

section \<open>The code\<close>

record BitMap =
  numBits :: int
  numWords :: int
  bmap :: "u32 list"     \<comment> \<open>the field map\<close>

definition word_index :: "int \<Rightarrow> nat" where
  "word_index which = nat (which div 32)"

definition bit_index :: "int \<Rightarrow> nat" where
  "bit_index which = nat (which mod 32)"

definition Mark :: "BitMap \<Rightarrow> int \<Rightarrow> BitMap result" where
  "Mark b which =
     bind_result (ASSERT (which \<ge> 0 \<and> which < numBits b)) (\<lambda>_.
     bind_result (array_get (bmap b) (which div 32)) (\<lambda>w.
     bind_result (array_set (bmap b) (which div 32) (w OR push_bit (bit_index which) 1)) (\<lambda>ws.
     Inr (b\<lparr>bmap := ws\<rparr>))))"

definition Clear :: "BitMap \<Rightarrow> int \<Rightarrow> BitMap result" where
  "Clear b which =
     bind_result (ASSERT (which \<ge> 0 \<and> which < numBits b)) (\<lambda>_.
     bind_result (array_get (bmap b) (which div 32)) (\<lambda>w.
     bind_result (array_set (bmap b) (which div 32) (w AND NOT (push_bit (bit_index which) 1))) (\<lambda>ws.
     Inr (b\<lparr>bmap := ws\<rparr>))))"

definition Test :: "BitMap \<Rightarrow> int \<Rightarrow> bool result" where
  "Test b which =
     bind_result (ASSERT (which \<ge> 0 \<and> which < numBits b)) (\<lambda>_.
     bind_result (array_get (bmap b) (which div 32)) (\<lambda>w.
     Inr (w AND push_bit (bit_index which) 1 \<noteq> 0)))"

text \<open>\<open>new unsigned int[n]\<close> does not initialise the words: they are what \<open>garbage\<close> says.\<close>

definition new_BitMap :: "(nat \<Rightarrow> u32) \<Rightarrow> int \<Rightarrow> BitMap result" where
  "new_BitMap garbage nitems =
     (let words = divRoundUp nitems 32 in
      for_loop 0 nitems (\<lambda>i b. Clear b i)
        \<lparr>numBits = nitems, numWords = words, bmap = map garbage [0..<nat words]\<rparr>)"

function Find_from :: "BitMap \<Rightarrow> int \<Rightarrow> (int \<times> BitMap) result" where
  "Find_from b i =
     (if i < numBits b
      then bind_result (Test b i) (\<lambda>t.
             if \<not> t then bind_result (Mark b i) (\<lambda>b'. Inr (i, b')) else Find_from b (i + 1))
      else Inr (- 1, b))"
  by pat_completeness auto
termination by (relation "measure (\<lambda>(b, i). nat (numBits b - i))") auto

declare Find_from.simps [simp del]

definition Find :: "BitMap \<Rightarrow> (int \<times> BitMap) result" where
  "Find b = Find_from b 0"

definition NumClear :: "BitMap \<Rightarrow> int result" where
  "NumClear b = for_loop 0 (numBits b)
     (\<lambda>i count. bind_result (Test b i) (\<lambda>t. Inr (if \<not> t then count + 1 else count))) 0"

text \<open>
  \<open>Resize\<close> as written: it copies \<open>numBits\<close> words, not \<open>numWords\<close>, out of an array of
  \<open>numWords\<close> words, and then clears bits of the old map that lie outside it.
\<close>

definition Resize :: "(nat \<Rightarrow> u32) \<Rightarrow> BitMap \<Rightarrow> BitMap result" where
  "Resize garbage b =
     (let newMap = map garbage [0..<nat (numWords b * 2)] in
      bind_result (for_loop 0 (numBits b)
          (\<lambda>i m. bind_result (array_get (bmap b) i) (\<lambda>w. array_set m i w)) newMap) (\<lambda>newMap'.
      bind_result (for_loop (numBits b) (numBits b * 2) (\<lambda>i b'. Clear b' i) b) (\<lambda>b'.
      Inr (b'\<lparr>numBits := numBits b * 2, numWords := divRoundUp (numBits b * 2) 32,
              bmap := newMap'\<rparr>))))"

section \<open>The abstraction: a set of bits\<close>

definition wf_BitMap :: "BitMap \<Rightarrow> bool" where
  "wf_BitMap b \<longleftrightarrow> 0 \<le> numBits b \<and> numWords b = divRoundUp (numBits b) 32 \<and>
     int (length (bmap b)) = numWords b"

definition bits :: "BitMap \<Rightarrow> int set" where
  "bits b = {i. 0 \<le> i \<and> i < numBits b \<and> bit (bmap b ! word_index i) (bit_index i)}"

lemma wf_index:
  "wf_BitMap b \<Longrightarrow> 0 \<le> i \<Longrightarrow> i < numBits b \<Longrightarrow> 0 \<le> i div 32 \<and> i div 32 < int (length (bmap b))"
  by (simp add: wf_BitMap_def pos_imp_zdiv_nonneg_iff div_less_divRoundUp)

lemma bit_index_less [simp]: "bit_index i < 32"
  by (simp add: bit_index_def nat_less_iff)

lemma index_inj:
  "0 \<le> i \<Longrightarrow> 0 \<le> j \<Longrightarrow> word_index i = word_index j \<Longrightarrow> bit_index i = bit_index j \<Longrightarrow> i = j"
  by (metis Euclidean_Rings.pos_mod_sign bit_index_def div_mult_mod_eq eq_nat_nat_iff
      pos_imp_zdiv_nonneg_iff word_index_def zero_less_numeral)

text \<open>The simplifier writes \<open>push_bit m 1\<close> as \<open>2 ^ m\<close>.\<close>

lemma and_push_bit_1: "n < 32 \<Longrightarrow> (w::u32) AND 2 ^ n \<noteq> 0 \<longleftrightarrow> bit w n"
  by (auto simp: bit_eq_iff [where ?'a = u32] bit_simps)

lemma bit_or_1: "n < 32 \<Longrightarrow> bit ((w::u32) OR 2 ^ m) n \<longleftrightarrow> bit w n \<or> n = m"
  by (auto simp: bit_simps)

lemma bit_and_not_1: "n < 32 \<Longrightarrow> bit ((w::u32) AND NOT (2 ^ m)) n \<longleftrightarrow> bit w n \<and> n \<noteq> m"
  by (auto simp: bit_simps)

lemma Test_ok [simp]:
  "wf_BitMap b \<Longrightarrow> 0 \<le> i \<Longrightarrow> i < numBits b \<Longrightarrow> Test b i = Inr (i \<in> bits b)"
  using wf_index [of b i] by (simp add: Test_def bits_def and_push_bit_1 word_index_def)

lemma Mark_ok:
  assumes "wf_BitMap b" "0 \<le> i" "i < numBits b"
  shows "\<exists>b'. Mark b i = Inr b' \<and> wf_BitMap b' \<and> numBits b' = numBits b \<and> bits b' = insert i (bits b)"
proof -
  note ix = wf_index [OF assms]
  let ?b' = "b\<lparr>bmap := (bmap b)[word_index i := bmap b ! word_index i OR push_bit (bit_index i) 1]\<rparr>"
  have "Mark b i = Inr ?b'"
    using assms ix by (simp add: Mark_def word_index_def)
  moreover have "word_index i < length (bmap b)"
    using ix by (simp add: word_index_def nat_less_iff)
  then have "bits ?b' = insert i (bits b)"
    using assms by (auto simp: bits_def nth_list_update bit_or_1 intro: index_inj)
  ultimately show ?thesis using assms by (auto simp: wf_BitMap_def)
qed

lemma Clear_ok:
  assumes "wf_BitMap b" "0 \<le> i" "i < numBits b"
  shows "\<exists>b'. Clear b i = Inr b' \<and> wf_BitMap b' \<and> numBits b' = numBits b \<and> bits b' = bits b - {i}"
proof -
  note ix = wf_index [OF assms]
  let ?b' = "b\<lparr>bmap := (bmap b)[word_index i := bmap b ! word_index i AND NOT (push_bit (bit_index i) 1)]\<rparr>"
  have "Clear b i = Inr ?b'"
    using assms ix by (simp add: Clear_def word_index_def)
  moreover have "word_index i < length (bmap b)"
    using ix by (simp add: word_index_def nat_less_iff)
  then have "bits ?b' = bits b - {i}"
    using assms by (auto simp: bits_def nth_list_update bit_and_not_1 intro: index_inj)
  ultimately show ?thesis using assms by (auto simp: wf_BitMap_def)
qed

lemma range_asserts:
  "\<not> (0 \<le> i \<and> i < numBits b) \<Longrightarrow>
   Mark b i = Inl AssertFailed \<and> Clear b i = Inl AssertFailed \<and> Test b i = Inl AssertFailed"
  by (auto simp: Mark_def Clear_def Test_def ASSERT_def)

lemma new_BitMap_ok:
  assumes "0 \<le> n"
  shows "\<exists>b. new_BitMap garbage n = Inr b \<and> wf_BitMap b \<and> numBits b = n \<and> bits b = {}"
proof -
  let ?b = "\<lparr>numBits = n, numWords = divRoundUp n 32, bmap = map garbage [0..<nat (divRoundUp n 32)]\<rparr>"
  let ?I = "\<lambda>i b. wf_BitMap b \<and> numBits b = n \<and> bits b \<subseteq> {i..<n}"
  have "\<exists>b. for_loop 0 n (\<lambda>i b. Clear b i) ?b = Inr b \<and> ?I n b"
  proof (rule for_loop_rule [where I = ?I])
    show "?I 0 ?b"
      using assms divRoundUp_nonneg [OF assms, of 32]
      by (simp add: wf_BitMap_def bits_def subset_iff)
  next
    fix j t assume "0 \<le> j" "j < n" "?I j t"
    then show "\<exists>t'. Clear t j = Inr t' \<and> ?I (j + 1) t'"
      using Clear_ok [of t j] by fastforce
  next
    show "0 \<le> n" by (rule assms)
  qed
  then show ?thesis by (auto simp: new_BitMap_def)
qed

lemma Find_from_ok:
  assumes "wf_BitMap b" "0 \<le> i" "{0..<i} \<subseteq> bits b" "i \<le> numBits b"
  shows "(if \<exists>j. 0 \<le> j \<and> j < numBits b \<and> j \<notin> bits b
     then \<exists>j b'. Find_from b i = Inr (j, b') \<and> 0 \<le> j \<and> j < numBits b \<and> j \<notin> bits b \<and> {0..<j} \<subseteq> bits b \<and>
            wf_BitMap b' \<and> numBits b' = numBits b \<and> bits b' = insert j (bits b)
     else Find_from b i = Inr (- 1, b))"
  using assms
proof (induction b i rule: Find_from.induct)
  case (1 b i)
  show ?case
  proof (cases "i < numBits b \<and> i \<in> bits b")
    case True
    moreover have "{0..<i + 1} = insert i {0..<i}" using 1(3) by auto
    ultimately have "{0..<i + 1} \<subseteq> bits b" using 1(4) by simp
    with 1 True have IH: "if \<exists>j. 0 \<le> j \<and> j < numBits b \<and> j \<notin> bits b
      then \<exists>j b'. Find_from b (i + 1) = Inr (j, b') \<and> 0 \<le> j \<and> j < numBits b \<and> j \<notin> bits b \<and>
             {0..<j} \<subseteq> bits b \<and> wf_BitMap b' \<and> numBits b' = numBits b \<and> bits b' = insert j (bits b)
      else Find_from b (i + 1) = Inr (- 1, b)" by force
    moreover have "Find_from b i = Find_from b (i + 1)"
      using True 1(2,3) by (subst Find_from.simps) simp
    ultimately show ?thesis by simp
  next
    case False
    show ?thesis
    proof (cases "i < numBits b")
      case True
      with 1 False obtain b' where "Mark b i = Inr b'" "wf_BitMap b'" "numBits b' = numBits b"
        "bits b' = insert i (bits b)" using Mark_ok [of b i] by blast
      moreover from this have "Find_from b i = Inr (i, b')"
        using True False 1(2,3) by (subst Find_from.simps) simp
      ultimately show ?thesis using True False 1(3,4) by auto
    next
      case False
      with 1(5) have "i = numBits b" by simp
      moreover from this have "Find_from b i = Inr (- 1, b)"
        by (subst Find_from.simps) simp
      ultimately show ?thesis using 1(4) by auto
    qed
  qed
qed

lemma Find_full:
  assumes "wf_BitMap b" "{0..<numBits b} \<subseteq> bits b"
  shows "Find b = Inr (- 1, b)"
  using Find_from_ok [of b 0] assms by (auto simp: Find_def wf_BitMap_def split: if_splits)

lemma Find_free:
  assumes "wf_BitMap b" "\<not> {0..<numBits b} \<subseteq> bits b"
  shows "\<exists>i b'. Find b = Inr (i, b') \<and> 0 \<le> i \<and> i < numBits b \<and> i \<notin> bits b \<and> {0..<i} \<subseteq> bits b \<and>
     wf_BitMap b' \<and> numBits b' = numBits b \<and> bits b' = insert i (bits b)"
proof -
  have "\<exists>j. 0 \<le> j \<and> j < numBits b \<and> j \<notin> bits b" using assms(2) by auto
  then show ?thesis
    using Find_from_ok [of b 0] assms(1) by (simp add: Find_def wf_BitMap_def)
qed

lemma bits_range: "bits b \<subseteq> {0..<numBits b}"
  by (auto simp: bits_def)

lemma card_clear_step:
  "0 \<le> (i::int) \<Longrightarrow> int (card ({0..<i + 1} - B)) = int (card ({0..<i} - B)) + (if i \<in> B then 0 else 1)"
proof -
  assume "0 \<le> i"
  then have "{0..<i + 1} - B = (if i \<in> B then {0..<i} - B else insert i ({0..<i} - B))"
    by (auto simp: less_le)
  then show ?thesis by simp
qed

lemma NumClear_ok:
  assumes "wf_BitMap b"
  shows "NumClear b = Inr (int (card ({0..<numBits b} - bits b)))"
proof -
  let ?I = "\<lambda>i c. c = int (card ({0..<i} - bits b))"
  have "\<exists>c. for_loop 0 (numBits b)
      (\<lambda>i count. bind_result (Test b i) (\<lambda>t. Inr (if \<not> t then count + 1 else count))) 0 = Inr c \<and>
      ?I (numBits b) c"
  proof (rule for_loop_rule [where I = ?I])
    fix j t assume "0 \<le> j" "j < numBits b" "?I j t"
    then show "\<exists>t'. bind_result (Test b j) (\<lambda>x. Inr (if \<not> x then t + 1 else t)) = Inr t' \<and> ?I (j + 1) t'"
      using assms card_clear_step [of j "bits b"] by simp
  qed (use assms in \<open>simp_all add: wf_BitMap_def\<close>)
  then show ?thesis by (auto simp: NumClear_def)
qed

section \<open>The allocator interface\<close>

fun find_n :: "('s \<Rightarrow> (int \<times> 's) result) \<Rightarrow> 's \<Rightarrow> nat \<Rightarrow> (int list \<times> 's) result" where
  "find_n alloc s 0 = Inr ([], s)"
| "find_n alloc s (Suc n) =
     bind_result (alloc s) (\<lambda>(i, s'). bind_result (find_n alloc s' n) (\<lambda>(is, s''). Inr (i # is, s'')))"

locale slot_allocator =
  fixes inv :: "'s \<Rightarrow> bool"
    and used :: "'s \<Rightarrow> int set"
    and cap :: "'s \<Rightarrow> int"
    and alloc :: "'s \<Rightarrow> (int \<times> 's) result"
    and release :: "'s \<Rightarrow> int \<Rightarrow> 's result"
  assumes used_range: "inv s \<Longrightarrow> used s \<subseteq> {0..<cap s}"
    and find_full: "inv s \<Longrightarrow> {0..<cap s} \<subseteq> used s \<Longrightarrow> alloc s = Inr (- 1, s)"
    and find_free: "inv s \<Longrightarrow> \<not> {0..<cap s} \<subseteq> used s \<Longrightarrow>
      \<exists>i s'. alloc s = Inr (i, s') \<and> 0 \<le> i \<and> i < cap s \<and> i \<notin> used s \<and> {0..<i} \<subseteq> used s \<and>
        inv s' \<and> cap s' = cap s \<and> used s' = insert i (used s)"
    and release_ok: "inv s \<Longrightarrow> 0 \<le> i \<Longrightarrow> i < cap s \<Longrightarrow>
      \<exists>s'. release s i = Inr s' \<and> inv s' \<and> cap s' = cap s \<and> used s' = used s - {i}"
begin

lemma finite_used: "inv s \<Longrightarrow> finite (used s)"
  using used_range [of s] finite_subset by blast

lemma free_iff_room: "inv s \<Longrightarrow> {0..<cap s} \<subseteq> used s \<longleftrightarrow> int (card (used s)) \<ge> cap s"
proof -
  assume s: "inv s"
  have "card {0..<cap s} \<le> card (used s)" if "cap s \<le> int (card (used s))"
    using that by simp
  with s show ?thesis
    using card_mono [OF finite_used, of s "{0..<cap s}"] used_range card_seteq [of "{0..<cap s}" "used s"]
    by force
qed

lemma find_n_ok:
  "inv s \<Longrightarrow> int (card (used s)) + int n \<le> cap s \<Longrightarrow>
   \<exists>is s'. find_n alloc s n = Inr (is, s') \<and> length is = n \<and> distinct is \<and>
     set is \<inter> used s = {} \<and> set is \<subseteq> {0..<cap s} \<and>
     inv s' \<and> cap s' = cap s \<and> used s' = used s \<union> set is"
proof (induction n arbitrary: s)
  case 0
  then show ?case by simp
next
  case (Suc n)
  then have "\<not> {0..<cap s} \<subseteq> used s" by (simp add: free_iff_room)
  with Suc.prems find_free obtain i s1 where
    s1: "alloc s = Inr (i, s1)" "0 \<le> i" "i < cap s" "i \<notin> used s" "inv s1" "cap s1 = cap s"
      "used s1 = insert i (used s)" by metis
  then have "int (card (used s1)) + int n \<le> cap s1"
    using Suc.prems finite_used by simp
  from Suc.IH [OF s1(5) this] s1 show ?case by auto
qed

lemma find_release_find:
  assumes "inv s" "i \<in> used s" "{0..<i} \<subseteq> used s"
  shows "\<exists>s1 s2. release s i = Inr s1 \<and> alloc s1 = Inr (i, s2) \<and> used s2 = used s"
proof -
  from assms(2) used_range [OF assms(1)] have i: "0 \<le> i" "i < cap s" by auto
  with assms release_ok obtain s1 where
    s1: "release s i = Inr s1" "inv s1" "cap s1 = cap s" "used s1 = used s - {i}" by blast
  then have "\<not> {0..<cap s1} \<subseteq> used s1" using i by auto
  with s1 find_free obtain j s2 where
    j: "alloc s1 = Inr (j, s2)" "j \<notin> used s1" "{0..<j} \<subseteq> used s1" "0 \<le> j" "used s2 = insert j (used s1)"
    by metis
  have "j = i"
  proof (rule antisym)
    show "j \<le> i" using j(3) i s1(4) by (auto simp: subset_iff not_less)
    show "i \<le> j" using assms(3) j(2,4) s1(4) by (auto simp: subset_iff not_less)
  qed
  with j s1 assms(2) show ?thesis by auto
qed

end

interpretation bitmap: slot_allocator wf_BitMap bits numBits Find Clear
proof unfold_locales
  show "wf_BitMap s \<Longrightarrow> bits s \<subseteq> {0..<numBits s}" for s by (rule bits_range)
  show "wf_BitMap s \<Longrightarrow> {0..<numBits s} \<subseteq> bits s \<Longrightarrow> Find s = Inr (- 1, s)" for s
    by (rule Find_full)
qed (use Find_free Clear_ok in blast)+

section \<open>Table: a table of pointers over a bitmap\<close>

text \<open>
  \<open>None\<close> is the null pointer. \<open>new void *[size]\<close> leaves the slots uninitialised (\<open>garbage\<close>).
  \<open>Put\<close> holds the table's lock only while it searches the bitmap, so it has two steps:
  \<open>Put_find\<close> (the critical section) and \<open>Put_store\<close> (after \<open>Release\<close>); \<open>Put\<close> is both. The
  lock itself is the \<open>Lock\<close> of the thread component and is not a field of the model.
\<close>

record 'p Table =
  tmap :: BitMap
  table :: "'p option list"
  size_of :: int

definition new_Table :: "(nat \<Rightarrow> u32) \<Rightarrow> (nat \<Rightarrow> 'p option) \<Rightarrow> int \<Rightarrow> 'p Table result" where
  "new_Table garbage slots s = bind_result (new_BitMap garbage s)
     (\<lambda>m. Inr \<lparr>tmap = m, table = map slots [0..<nat s], size_of = s\<rparr>)"

definition Get :: "'p Table \<Rightarrow> int \<Rightarrow> 'p option result" where
  "Get t i =
     (if i \<ge> 0 \<and> i < size_of t
      then bind_result (Test (tmap t) i) (\<lambda>used. if used then array_get (table t) i else Inr None)
      else Inr None)"

definition Put_find :: "'p Table \<Rightarrow> (int \<times> 'p Table) result" where
  "Put_find t = bind_result (Find (tmap t)) (\<lambda>(i, m). Inr (i, t\<lparr>tmap := m\<rparr>))"

definition Put_store :: "'p Table \<Rightarrow> int \<Rightarrow> 'p option \<Rightarrow> (int \<times> 'p Table) result" where
  "Put_store t i f =
     (if i \<noteq> - 1 then bind_result (array_set (table t) i f) (\<lambda>ts. Inr (i, t\<lparr>table := ts\<rparr>))
      else Inr (i, t))"

definition Put :: "'p Table \<Rightarrow> 'p option \<Rightarrow> (int \<times> 'p Table) result" where
  "Put t f = bind_result (Put_find t) (\<lambda>(i, t'). Put_store t' i f)"

definition Table_Remove :: "'p Table \<Rightarrow> int \<Rightarrow> ('p option \<times> 'p Table) result" where
  "Table_Remove t i =
     (if i \<ge> 0 \<and> i < size_of t
      then bind_result (Test (tmap t) i) (\<lambda>used.
        if used
        then bind_result (Clear (tmap t) i) (\<lambda>m.
             bind_result (array_get (table t) i) (\<lambda>f.
             bind_result (array_set (table t) i None) (\<lambda>ts.
             Inr (f, t\<lparr>tmap := m, table := ts\<rparr>))))
        else Inr (None, t))
      else Inr (None, t))"

text \<open>The abstract table is a partial map from slot numbers to pointers.\<close>

definition wf_Table :: "'p Table \<Rightarrow> bool" where
  "wf_Table t \<longleftrightarrow> wf_BitMap (tmap t) \<and> numBits (tmap t) = size_of t \<and>
     int (length (table t)) = size_of t"

definition abs_Table :: "'p Table \<Rightarrow> int \<rightharpoonup> 'p option" where
  "abs_Table t = (\<lambda>i. if i \<in> bits (tmap t) then Some (table t ! nat i) else None)"

lemma dom_abs_Table [simp]: "dom (abs_Table t) = bits (tmap t)"
  by (auto simp: abs_Table_def split: if_splits)

lemma wf_Table_bits: "wf_Table t \<Longrightarrow> i \<in> bits (tmap t) \<Longrightarrow> 0 \<le> i \<and> i < size_of t"
  using bits_range [of "tmap t"] by (auto simp: wf_Table_def)

lemma new_Table_ok:
  assumes "0 \<le> n"
  shows "\<exists>t. new_Table garbage slots n = Inr t \<and> wf_Table t \<and> size_of t = n \<and> abs_Table t = Map.empty"
  using new_BitMap_ok [OF assms, of garbage] assms
  by (auto simp: new_Table_def wf_Table_def abs_Table_def fun_eq_iff)

lemma Get_ok: "wf_Table t \<Longrightarrow> Get t i = Inr (case abs_Table t i of None \<Rightarrow> None | Some p \<Rightarrow> p)"
  using wf_Table_bits [of t i] by (auto simp: Get_def wf_Table_def abs_Table_def)

lemma Put_ok:
  assumes "wf_Table t"
  shows "if {0..<size_of t} \<subseteq> dom (abs_Table t) then Put t f = Inr (- 1, t)
    else \<exists>i t'. Put t f = Inr (i, t') \<and> 0 \<le> i \<and> i < size_of t \<and> i \<notin> dom (abs_Table t) \<and>
      {0..<i} \<subseteq> dom (abs_Table t) \<and> wf_Table t' \<and> size_of t' = size_of t \<and>
      abs_Table t' = (abs_Table t)(i \<mapsto> f)"
proof (cases "{0..<size_of t} \<subseteq> bits (tmap t)")
  case True
  with assms Find_full [of "tmap t"] show ?thesis
    by (simp add: Put_def Put_find_def Put_store_def wf_Table_def)
next
  case False
  with assms Find_free [of "tmap t"] obtain i m where
    m: "Find (tmap t) = Inr (i, m)" "0 \<le> i" "i < size_of t" "i \<notin> bits (tmap t)"
      "{0..<i} \<subseteq> bits (tmap t)" "wf_BitMap m" "numBits m = numBits (tmap t)"
      "bits m = insert i (bits (tmap t))"
    by (auto simp: wf_Table_def)
  let ?t' = "t\<lparr>tmap := m, table := (table t)[nat i := f]\<rparr>"
  have "Put t f = Inr (i, ?t')"
    using m assms by (simp add: Put_def Put_find_def Put_store_def wf_Table_def)
  moreover have "abs_Table ?t' = (abs_Table t)(i \<mapsto> f)"
    using m assms wf_Table_bits [OF assms]
    by (auto simp: abs_Table_def wf_Table_def fun_eq_iff nth_list_update nat_eq_iff)
  ultimately show ?thesis
    using False m assms by (auto simp: wf_Table_def)
qed

lemma Table_Remove_ok:
  assumes "wf_Table t"
  shows "\<exists>t'. Table_Remove t i = Inr (case abs_Table t i of None \<Rightarrow> None | Some p \<Rightarrow> p, t') \<and>
     wf_Table t' \<and> size_of t' = size_of t \<and> abs_Table t' = (abs_Table t)(i := None)"
proof (cases "i \<in> bits (tmap t)")
  case True
  note i = wf_Table_bits [OF assms True]
  from assms i Clear_ok [of "tmap t" i] obtain m where
    m: "Clear (tmap t) i = Inr m" "wf_BitMap m" "numBits m = numBits (tmap t)"
      "bits m = bits (tmap t) - {i}"
    by (auto simp: wf_Table_def)
  let ?t' = "t\<lparr>tmap := m, table := (table t)[nat i := None]\<rparr>"
  have "Table_Remove t i = Inr (table t ! nat i, ?t')"
    using m i True assms by (simp add: Table_Remove_def wf_Table_def)
  moreover have "abs_Table ?t' = (abs_Table t)(i := None)"
    using m True i wf_Table_bits [OF assms]
    by (auto simp: abs_Table_def fun_eq_iff nth_list_update nat_eq_iff)
  ultimately show ?thesis
    using True m assms by (auto simp: wf_Table_def abs_Table_def)
next
  case False
  then have "abs_Table t i = None" by (simp add: abs_Table_def)
  moreover have "Table_Remove t i = Inr (None, t)"
    using False assms by (auto simp: Table_Remove_def wf_Table_def)
  ultimately show ?thesis using assms by (auto simp: fun_upd_idem)
qed

section \<open>Properties\<close>

text \<open>
  C2: on a well-formed bitmap the word-level operations are the operations of a set of integers:
  \<open>Mark\<close> inserts, \<open>Clear\<close> deletes and \<open>Test\<close> decides membership of any bit in range (and all
  three abort outside the range, touching nothing), and \<open>NumClear\<close> counts the complement.
\<close>

theorem BitMap_refines_set:
  assumes "wf_BitMap b"
  shows "(if 0 \<le> i \<and> i < numBits b
    then (\<exists>b'. Mark b i = Inr b' \<and> wf_BitMap b' \<and> numBits b' = numBits b \<and> bits b' = insert i (bits b)) \<and>
         (\<exists>b'. Clear b i = Inr b' \<and> wf_BitMap b' \<and> numBits b' = numBits b \<and> bits b' = bits b - {i}) \<and>
         Test b i = Inr (i \<in> bits b)
    else Mark b i = Inl AssertFailed \<and> Clear b i = Inl AssertFailed \<and> Test b i = Inl AssertFailed) \<and>
    NumClear b = Inr (int (card ({0..<numBits b} - bits b)))"
  using assms by (simp add: Mark_ok Clear_ok NumClear_ok range_asserts)

definition sample_map :: BitMap where
  "sample_map = \<lparr>numBits = 40, numWords = 2, bmap = [5, 128]\<rparr>"

lemma sample_map_wf: "wf_BitMap sample_map"
  by (simp add: sample_map_def wf_BitMap_def divRoundUp_def)

theorem BitMap_refines_set_witness:
  "(\<exists>b. Mark sample_map 1 = Inr b \<and> bits b = insert 1 (bits sample_map)) \<and>
   Test sample_map 39 = Inr True \<and> Test sample_map 40 = Inl AssertFailed"
proof -
  have "Test sample_map 39 = Inr (39 \<in> bits sample_map)"
    using BitMap_refines_set [OF sample_map_wf, of 39] by (simp add: sample_map_def)
  moreover have "39 \<in> bits sample_map"
    by (simp add: sample_map_def bits_def word_index_def bit_index_def)
  ultimately show ?thesis
    using BitMap_refines_set [OF sample_map_wf, of 1] BitMap_refines_set [OF sample_map_wf, of 40]
    by (auto simp: sample_map_def)
qed

text \<open>
  allocating with \<open>Find\<close> never hands out a slot twice. On a well-formed bitmap with at least
  \<open>n\<close> clear bits, \<open>n\<close> calls of \<open>Find\<close> return \<open>n\<close> different in-range slots, none of them in
  use before, and afterwards exactly those are marked in addition; with no clear bit \<open>Find\<close>
  returns -1 and changes nothing.
\<close>

lemma Find_never_allocates_twice:
  assumes "wf_BitMap b" "int (card (bits b)) + int n \<le> numBits b"
  shows "\<exists>is b'. find_n Find b n = Inr (is, b') \<and> length is = n \<and> distinct is \<and>
     set is \<inter> bits b = {} \<and> set is \<subseteq> {0..<numBits b} \<and> wf_BitMap b' \<and>
     bits b' = bits b \<union> set is \<and>
     (bits b' = {0..<numBits b} \<longrightarrow> Find b' = Inr (- 1, b'))"
  using bitmap.find_n_ok [OF assms] bitmap.find_full by fastforce

definition clear_map :: BitMap where
  "clear_map = \<lparr>numBits = 40, numWords = 2, bmap = [0, 0]\<rparr>"

lemma clear_map_wf: "wf_BitMap clear_map" "bits clear_map = {}" "numBits clear_map = 40"
proof -
  show "wf_BitMap clear_map" "numBits clear_map = 40"
    by (simp_all add: clear_map_def wf_BitMap_def divRoundUp_def)
  have "[0, 0 :: u32] ! k = 0" if "k < 2" for k
    using that by (auto simp: less_2_cases_iff)
  moreover have "word_index i < 2" if "i < 40" for i
    using that by (simp add: word_index_def)
  ultimately show "bits clear_map = {}" by (auto simp: clear_map_def bits_def)
qed

lemma Find_never_allocates_twice_example:
  "\<exists>is b'. find_n Find clear_map 4 = Inr (is, b') \<and> length is = 4 \<and> distinct is \<and>
     set is \<subseteq> {0..<40} \<and> bits b' = set is"
proof -
  have n: "int (card (bits clear_map)) + int 4 \<le> numBits clear_map"
    by (simp add: clear_map_wf)
  show ?thesis
    using Find_never_allocates_twice [OF clear_map_wf(1) n] by (auto simp: clear_map_wf)
qed

text \<open>
  \<open>Resize\<close>, which is meant to double a bitmap, never succeeds on a bitmap with bits: it
  clears the new bits in the old map before the size is changed, so \<open>Clear\<close> aborts (when the
  copy loop, which reads past the words, has not failed first).
\<close>

lemma Resize_never_returns:
  assumes "0 < numBits b"
  shows "\<exists>c. Resize garbage b = Inl c"
proof (cases "Resize garbage b")
  case (Inr b')
  then obtain b1 where "for_loop (numBits b) (numBits b * 2) (\<lambda>i b'. Clear b' i) b = Inr b1"
    by (auto simp: Resize_def Let_def)
  moreover have "for_loop (numBits b) (numBits b * 2) (\<lambda>i b'. Clear b' i) b = Inl AssertFailed"
    using assms range_asserts [of "numBits b" b] by (simp add: for_loop_step)
  ultimately show ?thesis by simp
qed blast


text \<open>
  a \<open>Table\<close> is a partial map from slot numbers to pointers. A fresh table, whatever its
  memory held, is empty; \<open>Put\<close> stores at the least free slot and nowhere else, or returns -1
  when the table is full; \<open>Get\<close> and \<open>Remove\<close> return what is stored, and the null pointer for a
  free slot or an index out of range; \<open>Remove\<close> frees the slot and no other.
\<close>

lemma Table_refines_map:
  assumes "wf_Table t"
  shows "Get t i = Inr (case abs_Table t i of None \<Rightarrow> None | Some p \<Rightarrow> p) \<and>
     (if {0..<size_of t} \<subseteq> dom (abs_Table t) then Put t f = Inr (- 1, t)
      else \<exists>j t'. Put t f = Inr (j, t') \<and> 0 \<le> j \<and> j < size_of t \<and> j \<notin> dom (abs_Table t) \<and>
        {0..<j} \<subseteq> dom (abs_Table t) \<and> wf_Table t' \<and> abs_Table t' = (abs_Table t)(j \<mapsto> f)) \<and>
     (\<exists>t'. Table_Remove t i = Inr (case abs_Table t i of None \<Rightarrow> None | Some p \<Rightarrow> p, t') \<and>
        wf_Table t' \<and> abs_Table t' = (abs_Table t)(i := None))"
proof (intro conjI)
  show "Get t i = Inr (case abs_Table t i of None \<Rightarrow> None | Some p \<Rightarrow> p)" by (rule Get_ok [OF assms])
qed (use Put_ok [OF assms, of f] Table_Remove_ok [OF assms, of i] in metis)+

lemma Table_refines_map_example:
  "\<exists>t j t'. new_Table (\<lambda>_. 7) (\<lambda>_. Some CHR ''z'') 3 = Inr t \<and> Get t 2 = Inr None \<and>
     Put t (Some CHR ''f'') = Inr (j, t') \<and> abs_Table t' = [j \<mapsto> Some CHR ''f'']"
proof -
  from new_Table_ok [of 3 "\<lambda>_. 7" "\<lambda>_. Some CHR ''z''"] obtain t where
    t: "new_Table (\<lambda>_. 7) (\<lambda>_. Some CHR ''z'') 3 = Inr t" "wf_Table t" "size_of t = 3"
      "abs_Table t = Map.empty" by auto
  from Table_refines_map [OF t(2), of 2 "Some CHR ''f''"] t show ?thesis
    by (intro exI [of _ t]) auto
qed

end
