(* ===== verification/Memory.thy ===== *)
theory Memory
  imports Prelude
begin

text \<open>
  machine/translate.cc, machine/translate.h and the register and trap part of
  machine/machine.cc: the state of the simulated workstation, the translation of virtual
  addresses through a page table or a TLB, and the reads and writes of simulated memory.

  The record \<open>machine\<close> is extensible: the kernel's own state is whatever extends it, and the
  kernel's \<open>ExceptionHandler\<close> is an argument \<open>H\<close> of every operation that can trap. The byte
  order of the host (the macro \<open>HOST_IS_BIG_ENDIAN\<close>) is the argument \<open>big\<close>.
\<close>

section \<open>State\<close>

definition PageSize :: int where "PageSize = 128"
definition NumPhysPages :: int where "NumPhysPages = 4096"
definition MemorySize :: int where "MemorySize = NumPhysPages * PageSize"
definition TLBSize :: nat where "TLBSize = 4"

lemmas machine_sizes = PageSize_def NumPhysPages_def MemorySize_def TLBSize_def

datatype ExceptionType = NoException | SyscallException | PageFaultException | ReadOnlyException
  | BusErrorException | AddressErrorException | OverflowException | IllegalInstrException

datatype MachineStatus = IdleMode | SystemMode | UserMode

record TranslationEntry =
  virtualPage :: int
  physicalPage :: int
  valid :: bool
  readOnly :: bool
  use :: bool
  dirty :: bool

text \<open>The numbers of the special registers.\<close>

definition StackReg :: nat where "StackReg = 29"
definition RetAddrReg :: nat where "RetAddrReg = 31"
definition HiReg :: nat where "HiReg = 32"
definition LoReg :: nat where "LoReg = 33"
definition PCReg :: nat where "PCReg = 34"
definition NextPCReg :: nat where "NextPCReg = 35"
definition PrevPCReg :: nat where "PrevPCReg = 36"
definition LoadReg :: nat where "LoadReg = 37"
definition LoadValueReg :: nat where "LoadValueReg = 38"
definition BadVAddrReg :: nat where "BadVAddrReg = 39"
definition NumTotalRegs :: int where "NumTotalRegs = 40"

lemmas reg_numbers = StackReg_def RetAddrReg_def HiReg_def LoReg_def PCReg_def NextPCReg_def
  PrevPCReg_def LoadReg_def LoadValueReg_def BadVAddrReg_def NumTotalRegs_def

text \<open>
  \<open>totalTicks\<close> is the field of the global \<open>stats\<close>, \<open>mode\<close> the status kept by the global
  \<open>interrupt\<close>; a null \<open>tlb\<close> or \<open>pageTable\<close> is \<open>None\<close>.
\<close>

record machine =
  mainMemory :: "nat \<Rightarrow> u8"
  registers :: "nat \<Rightarrow> u32"
  tlb :: "TranslationEntry list option"
  pageTable :: "TranslationEntry list option"
  pageTableSize :: int
  lastUsed :: "nat \<Rightarrow> int"
  totalTicks :: int
  mode :: MachineStatus

definition set_reg :: "nat \<Rightarrow> u32 \<Rightarrow> 'k machine_scheme \<Rightarrow> 'k machine_scheme" where
  "set_reg r v m = m\<lparr>registers := (registers m)(r := v)\<rparr>"

definition new_Machine ::
  "bool \<Rightarrow> (nat \<Rightarrow> TranslationEntry) \<Rightarrow> int \<Rightarrow> machine" where
  "new_Machine use_tlb garbage ticks = \<lparr>mainMemory = (\<lambda>_. 0), registers = (\<lambda>_. 0),
     tlb = (if use_tlb then Some (map (\<lambda>i. (garbage i)\<lparr>valid := False\<rparr>) [0..<TLBSize]) else None),
     pageTable = None, pageTableSize = 0, lastUsed = (\<lambda>_. ticks), totalTicks = ticks,
     mode = SystemMode\<rparr>"

definition getTimeUsed :: "'k machine_scheme \<Rightarrow> int \<Rightarrow> int" where
  "getTimeUsed m pageNo =
     (if pageNo < 0 \<or> pageNo \<ge> NumPhysPages then - 1 else lastUsed m (nat pageNo))"

definition ReadRegister :: "'k machine_scheme \<Rightarrow> int \<Rightarrow> u32 result" where
  "ReadRegister m num =
     bind_result (ASSERT (num \<ge> 0 \<and> num < NumTotalRegs)) (\<lambda>_. Inr (registers m (nat num)))"

definition WriteRegister :: "'k machine_scheme \<Rightarrow> int \<Rightarrow> u32 \<Rightarrow> 'k machine_scheme result" where
  "WriteRegister m num v =
     bind_result (ASSERT (num \<ge> 0 \<and> num < NumTotalRegs)) (\<lambda>_. Inr (set_reg (nat num) v m))"

section \<open>Delayed loads and traps\<close>

text \<open>\<open>registers[registers[LoadReg]]\<close> is an array access: outside the file it is a crash.\<close>

definition DelayedLoad :: "'k machine_scheme \<Rightarrow> u32 \<Rightarrow> u32 \<Rightarrow> 'k machine_scheme result" where
  "DelayedLoad m nextReg nextValue =
     (let r = sint (registers m LoadReg) in
      if 0 \<le> r \<and> r < NumTotalRegs
      then Inr (set_reg 0 0 (set_reg LoadValueReg nextValue (set_reg LoadReg nextReg
             (set_reg (nat r) (registers m LoadValueReg) m))))
      else Inl OutOfBounds)"

type_synonym 'k handler = "ExceptionType \<Rightarrow> 'k machine_scheme \<Rightarrow> 'k machine_scheme result"

definition RaiseException ::
  "'k handler \<Rightarrow> 'k machine_scheme \<Rightarrow> ExceptionType \<Rightarrow> u32 \<Rightarrow> 'k machine_scheme result" where
  "RaiseException H m which badVAddr =
     bind_result (DelayedLoad (set_reg BadVAddrReg badVAddr m) 0 0) (\<lambda>m1.
     bind_result (H which (m1\<lparr>mode := SystemMode\<rparr>)) (\<lambda>m2.
     Inr (m2\<lparr>mode := UserMode\<rparr>)))"

section \<open>Byte order\<close>

definition WordToHost :: "bool \<Rightarrow> u32 \<Rightarrow> u32" where
  "WordToHost big word =
     (if big
      then (drop_bit 24 word AND 0x000000ff) OR (drop_bit 8 word AND 0x0000ff00) OR
           (push_bit 8 word AND 0x00ff0000) OR (push_bit 24 word AND 0xff000000)
      else word)"

definition ShortToHost :: "bool \<Rightarrow> u16 \<Rightarrow> u16" where
  "ShortToHost big shortword =
     (if big then (push_bit 8 shortword AND 0xff00) OR (drop_bit 8 shortword AND 0x00ff)
      else shortword)"

definition WordToMachine :: "bool \<Rightarrow> u32 \<Rightarrow> u32" where
  "WordToMachine big word = WordToHost big word"

definition ShortToMachine :: "bool \<Rightarrow> u16 \<Rightarrow> u16" where
  "ShortToMachine big shortword = ShortToHost big shortword"

text \<open>
  \<open>*(unsigned int *) &mainMemory[p]\<close> and the like: what the host makes of the bytes in memory.
\<close>

definition le32 :: "u8 \<Rightarrow> u8 \<Rightarrow> u8 \<Rightarrow> u8 \<Rightarrow> u32" where
  "le32 b0 b1 b2 b3 = ucast b0 OR push_bit 8 (ucast b1) OR push_bit 16 (ucast b2) OR
     push_bit 24 (ucast b3)"

definition host_load32 :: "bool \<Rightarrow> (nat \<Rightarrow> u8) \<Rightarrow> nat \<Rightarrow> u32" where
  "host_load32 big mem p =
     (if big then le32 (mem (p + 3)) (mem (p + 2)) (mem (p + 1)) (mem p)
      else le32 (mem p) (mem (p + 1)) (mem (p + 2)) (mem (p + 3)))"

definition le16 :: "u8 \<Rightarrow> u8 \<Rightarrow> u16" where
  "le16 b0 b1 = ucast b0 OR push_bit 8 (ucast b1)"

definition host_load16 :: "bool \<Rightarrow> (nat \<Rightarrow> u8) \<Rightarrow> nat \<Rightarrow> u16" where
  "host_load16 big mem p = (if big then le16 (mem (p + 1)) (mem p) else le16 (mem p) (mem (p + 1)))"

definition byte_of :: "'a::len word \<Rightarrow> nat \<Rightarrow> u8" where
  "byte_of w i = ucast (drop_bit (8 * i) w)"

definition host_store32 :: "bool \<Rightarrow> (nat \<Rightarrow> u8) \<Rightarrow> nat \<Rightarrow> u32 \<Rightarrow> nat \<Rightarrow> u8" where
  "host_store32 big mem p w =
     (if big then mem(p := byte_of w 3, p + 1 := byte_of w 2, p + 2 := byte_of w 1, p + 3 := byte_of w 0)
      else mem(p := byte_of w 0, p + 1 := byte_of w 1, p + 2 := byte_of w 2, p + 3 := byte_of w 3))"

definition host_store16 :: "bool \<Rightarrow> (nat \<Rightarrow> u8) \<Rightarrow> nat \<Rightarrow> u16 \<Rightarrow> nat \<Rightarrow> u8" where
  "host_store16 big mem p w =
     (if big then mem(p := byte_of w 1, p + 1 := byte_of w 0)
      else mem(p := byte_of w 0, p + 1 := byte_of w 1))"

text \<open>The constructor of the machine checks the byte order; \<open>check_bytes\<close> is its union.\<close>

definition check_bytes :: "nat \<Rightarrow> u8" where
  "check_bytes i = (if i = 0 then 1 else if i = 1 then 2 else if i = 2 then 3 else 4)"

definition CheckEndian :: "bool \<Rightarrow> bool \<Rightarrow> unit result" where
  "CheckEndian host_big declared_big =
     ASSERT (host_load32 host_big check_bytes 0 = (if declared_big then 0x01020304 else 0x04030201))"

section \<open>Translate, ReadMem, WriteMem\<close>

fun tlb_search :: "TranslationEntry list \<Rightarrow> int \<Rightarrow> nat option" where
  "tlb_search [] vpn = None"
| "tlb_search (e # es) vpn =
     (if valid e \<and> virtualPage e mod 2 ^ 32 = vpn then Some 0
      else map_option Suc (tlb_search es vpn))"

text \<open>The part of \<open>Translate\<close> after the entry is found: \<open>entry\<close> is a pointer, the updated entry
  is returned for the caller to put back.\<close>

definition translate_entry ::
  "TranslationEntry \<Rightarrow> int \<Rightarrow> int \<Rightarrow> bool \<Rightarrow> (ExceptionType + int \<times> TranslationEntry) result" where
  "translate_entry entry offset sz writing =
     (if readOnly entry \<and> writing then Inr (Inl ReadOnlyException)
      else
        let pageFrame = physicalPage entry mod 2 ^ 32 in
        if pageFrame \<ge> NumPhysPages then Inr (Inl BusErrorException)
        else
          let entry' = entry\<lparr>use := True, dirty := dirty entry \<or> writing\<rparr>;
              physAddr = pageFrame * PageSize + offset
          in bind_result (ASSERT (physAddr \<ge> 0 \<and> physAddr + sz \<le> MemorySize))
               (\<lambda>_. Inr (Inr (physAddr, entry'))))"

definition Translate ::
  "'k machine_scheme \<Rightarrow> u32 \<Rightarrow> int \<Rightarrow> bool \<Rightarrow> ((ExceptionType + int) \<times> 'k machine_scheme) result" where
  "Translate m virtAddr sz writing =
     (if sz = 4 \<and> virtAddr AND 3 \<noteq> 0 \<or> sz = 2 \<and> virtAddr AND 1 \<noteq> 0
      then Inr (Inl AddressErrorException, m)
      else
        bind_result (ASSERT (tlb m = None \<or> pageTable m = None)) (\<lambda>_.
        bind_result (ASSERT (tlb m \<noteq> None \<or> pageTable m \<noteq> None)) (\<lambda>_.
        let vpn = uint virtAddr div PageSize; offset = uint virtAddr mod PageSize in
        case tlb m of
          None \<Rightarrow>
            (case pageTable m of None \<Rightarrow> Inl NullPointer
             | Some pt \<Rightarrow>
               if vpn \<ge> pageTableSize m then Inr (Inl AddressErrorException, m)
               else bind_result (array_get pt vpn) (\<lambda>entry.
                 if \<not> valid entry then Inr (Inl PageFaultException, m)
                 else bind_result (translate_entry entry offset sz writing) (\<lambda>r.
                   case r of Inl e \<Rightarrow> Inr (Inl e, m)
                   | Inr (p, entry') \<Rightarrow>
                       Inr (Inr p, m\<lparr>pageTable := Some (pt[nat vpn := entry'])\<rparr>))))
        | Some t \<Rightarrow>
            (case tlb_search t vpn of None \<Rightarrow> Inr (Inl PageFaultException, m)
             | Some i \<Rightarrow>
               bind_result (translate_entry (t ! i) offset sz writing) (\<lambda>r.
                 case r of Inl e \<Rightarrow> Inr (Inl e, m)
                 | Inr (p, entry') \<Rightarrow> Inr (Inr p, m\<lparr>tlb := Some (t[i := entry'])\<rparr>))))))"

definition touch :: "int \<Rightarrow> 'k machine_scheme \<Rightarrow> 'k machine_scheme" where
  "touch physicalAddress m =
     m\<lparr>lastUsed := (lastUsed m)(nat (physicalAddress div PageSize) := totalTicks m)\<rparr>"

text \<open>\<open>None\<close> is the return value FALSE: an exception was raised and handled.\<close>

definition ReadMem ::
  "bool \<Rightarrow> 'k handler \<Rightarrow> 'k machine_scheme \<Rightarrow> u32 \<Rightarrow> int \<Rightarrow> (u32 option \<times> 'k machine_scheme) result" where
  "ReadMem big H m addr sz =
     bind_result (Translate m addr sz False) (\<lambda>(r, m1).
       case r of
         Inl e \<Rightarrow> bind_result (RaiseException H m1 e addr) (\<lambda>m2. Inr (None, m2))
       | Inr p \<Rightarrow>
           if sz = 1 then Inr (Some (scast (mainMemory m1 (nat p))), touch p m1)
           else if sz = 2
             then Inr (Some (ucast (ShortToHost big (host_load16 big (mainMemory m1) (nat p)))), touch p m1)
           else if sz = 4
             then Inr (Some (WordToHost big (host_load32 big (mainMemory m1) (nat p))), touch p m1)
           else Inl AssertFailed)"

definition WriteMem ::
  "bool \<Rightarrow> 'k handler \<Rightarrow> 'k machine_scheme \<Rightarrow> u32 \<Rightarrow> int \<Rightarrow> u32 \<Rightarrow> (bool \<times> 'k machine_scheme) result" where
  "WriteMem big H m addr sz v =
     bind_result (Translate m addr sz True) (\<lambda>(r, m1).
       case r of
         Inl e \<Rightarrow> bind_result (RaiseException H m1 e addr) (\<lambda>m2. Inr (False, m2))
       | Inr p \<Rightarrow>
           if sz = 1
             then Inr (True, touch p (m1\<lparr>mainMemory := (mainMemory m1)(nat p := ucast (v AND 0xff))\<rparr>))
           else if sz = 2
             then Inr (True, touch p (m1\<lparr>mainMemory := host_store16 big (mainMemory m1) (nat p)
                    (ShortToMachine big (ucast (v AND 0xffff)))\<rparr>))
           else if sz = 4
             then Inr (True, touch p (m1\<lparr>mainMemory := host_store32 big (mainMemory m1) (nat p)
                    (WordToMachine big v)\<rparr>))
           else Inl AssertFailed)"

section \<open>The byte order of the host does not show\<close>

lemma byte_masks:
  "(0x000000ff :: u32) = mask 8" "(0x0000ff00 :: u32) = push_bit 8 (mask 8)"
  "(0x00ff0000 :: u32) = push_bit 16 (mask 8)" "(0xff000000 :: u32) = push_bit 24 (mask 8)"
  "(0xff00 :: u16) = push_bit 8 (mask 8)" "(0x00ff :: u16) = mask 8" "(0xffff :: u32) = mask 16"
  by (simp_all add: mask_eq_exp_minus_1 push_bit_eq_mult)

lemma bit_u8: "bit (b :: u8) n \<Longrightarrow> n < 8"
  using bit_imp_le_length [of b n] by simp

lemma bit_le32: "bit (le32 a b c d) n \<longleftrightarrow>
    (if n < 8 then bit a n else if n < 16 then bit b (n - 8)
     else if n < 24 then bit c (n - 16) else bit d (n - 24))"
  unfolding le32_def by (auto simp: bit_simps dest: bit_u8)

lemma bit_le16: "bit (le16 a b) n \<longleftrightarrow> (if n < 8 then bit a n else bit b (n - 8))"
  unfolding le16_def by (auto simp: bit_simps dest: bit_u8)

lemma bit_byte_of: "bit (byte_of w i) n \<longleftrightarrow> n < 8 \<and> bit w (8 * i + n)"
  by (auto simp: byte_of_def bit_simps)

lemma le32_eqI:
  assumes "\<And>n. n < 8 \<Longrightarrow> bit w n = bit a n" "\<And>n. n < 8 \<Longrightarrow> bit w (8 + n) = bit b n"
    "\<And>n. n < 8 \<Longrightarrow> bit w (16 + n) = bit c n" "\<And>n. n < 8 \<Longrightarrow> bit w (24 + n) = bit d n"
  shows "w = le32 a b c d"
proof (rule bit_word_eqI)
  fix n assume n: "n < LENGTH(32)"
  show "bit w n = bit (le32 a b c d) n"
    using assms(1) [of n] assms(2) [of "n - 8"] assms(3) [of "n - 16"] assms(4) [of "n - 24"] n
    by (cases "n < 8"; cases "n < 16"; cases "n < 24") (simp_all add: bit_le32)
qed

lemma le16_eqI:
  assumes "\<And>n. n < 8 \<Longrightarrow> bit w n = bit a n" "\<And>n. n < 8 \<Longrightarrow> bit w (8 + n) = bit b n"
  shows "w = le16 a b"
proof (rule bit_word_eqI)
  fix n assume n: "n < LENGTH(16)"
  show "bit w n = bit (le16 a b) n"
    using assms(1) [of n] assms(2) [of "n - 8"] n by (cases "n < 8") (simp_all add: bit_le16)
qed

lemma WordToHost_le32: "WordToHost True (le32 a b c d) = le32 d c b a"
  unfolding WordToHost_def byte_masks if_True
  by (rule le32_eqI) (simp_all add: bit_le32 bit_simps)

lemma ShortToHost_le16: "ShortToHost True (le16 a b) = le16 b a"
  unfolding ShortToHost_def byte_masks if_True
  by (rule le16_eqI) (simp_all add: bit_le16 bit_simps)

lemma le32_bytes: "le32 (byte_of w 0) (byte_of w 1) (byte_of w 2) (byte_of w 3) = w"
  by (rule le32_eqI [symmetric]) (simp_all add: bit_byte_of)

lemma bytes_le32:
  "byte_of (le32 a b c d) 0 = a" "byte_of (le32 a b c d) 1 = b"
  "byte_of (le32 a b c d) 2 = c" "byte_of (le32 a b c d) 3 = d"
  by (rule bit_word_eqI; simp add: bit_byte_of bit_le32)+

lemma le16_bytes: "le16 (byte_of w 0) (byte_of w 1) = w"
  by (rule le16_eqI [symmetric]) (simp_all add: bit_byte_of)

lemma bytes_le16: "byte_of (le16 a b) 0 = a" "byte_of (le16 a b) 1 = b"
  by (rule bit_word_eqI; simp add: bit_byte_of bit_le16)+

text \<open>Memory is little-endian whatever the host is.\<close>

lemma load32_host: "WordToHost big (host_load32 big mem p) =
    le32 (mem p) (mem (p + 1)) (mem (p + 2)) (mem (p + 3))"
  by (cases big) (simp_all add: host_load32_def WordToHost_le32 WordToHost_def [of False])

lemma load16_host: "ShortToHost big (host_load16 big mem p) = le16 (mem p) (mem (p + 1))"
  by (cases big) (simp_all add: host_load16_def ShortToHost_le16 ShortToHost_def [of False])

lemma WordToMachine_bytes:
  "i < 4 \<Longrightarrow> byte_of (WordToMachine True w) i = byte_of w (3 - i)"
proof -
  assume "i < 4"
  then have "i \<in> {0, 1, 2, 3}" by auto
  moreover have "WordToMachine True w = le32 (byte_of w 3) (byte_of w 2) (byte_of w 1) (byte_of w 0)"
    unfolding WordToMachine_def
    by (metis WordToHost_le32 le32_bytes)
  ultimately show ?thesis by (auto simp: bytes_le32 simp flip: One_nat_def)
qed

lemma ShortToMachine_bytes:
  "byte_of (ShortToMachine True w) 0 = byte_of w 1" "byte_of (ShortToMachine True w) 1 = byte_of w 0"
proof -
  have "ShortToMachine True w = le16 (byte_of w 1) (byte_of w 0)"
    unfolding ShortToMachine_def by (metis ShortToHost_le16 le16_bytes)
  then show "byte_of (ShortToMachine True w) 0 = byte_of w 1"
    "byte_of (ShortToMachine True w) 1 = byte_of w 0"
    by (simp_all only: bytes_le16)
qed

lemma store32_host: "host_store32 big mem p (WordToMachine big w) =
    mem(p := byte_of w 0, p + 1 := byte_of w 1, p + 2 := byte_of w 2, p + 3 := byte_of w 3)"
  by (cases big)
    (simp_all add: host_store32_def WordToMachine_bytes WordToMachine_def [of False]
      WordToHost_def [of False])

lemma store16_host: "host_store16 big mem p (ShortToMachine big w) =
    mem(p := byte_of w 0, p + 1 := byte_of w 1)"
  by (cases big)
    (simp_all add: host_store16_def ShortToMachine_bytes ShortToMachine_def [of False]
      ShortToHost_def [of False]
      flip: One_nat_def)

section \<open>What translation promises\<close>

definition wf_machine :: "'k machine_scheme \<Rightarrow> bool" where
  "wf_machine m \<longleftrightarrow> (tlb m = None \<longleftrightarrow> pageTable m \<noteq> None) \<and>
     (\<forall>pt. pageTable m = Some pt \<longrightarrow> int (length pt) = pageTableSize m)"

definition lookup :: "'k machine_scheme \<Rightarrow> int \<Rightarrow> TranslationEntry option" where
  "lookup m vpn =
     (case tlb m of
        None \<Rightarrow> (case pageTable m of None \<Rightarrow> None
          | Some pt \<Rightarrow> if 0 \<le> vpn \<and> vpn < pageTableSize m \<and> valid (pt ! nat vpn)
                       then Some (pt ! nat vpn) else None)
      | Some t \<Rightarrow> map_option ((!) t) (tlb_search t vpn))"

definition aligned :: "u32 \<Rightarrow> int \<Rightarrow> bool" where
  "aligned a sz \<longleftrightarrow> \<not> (sz = 4 \<and> a AND 3 \<noteq> 0 \<or> sz = 2 \<and> a AND 1 \<noteq> 0)"

definition translation ::
  "'k machine_scheme \<Rightarrow> u32 \<Rightarrow> int \<Rightarrow> bool \<Rightarrow> ExceptionType + int" where
  "translation m a sz writing =
     (if \<not> aligned a sz then Inl AddressErrorException
      else if tlb m = None \<and> pageTableSize m \<le> uint a div PageSize then Inl AddressErrorException
      else (case lookup m (uint a div PageSize) of
          None \<Rightarrow> Inl PageFaultException
        | Some e \<Rightarrow>
            if readOnly e \<and> writing then Inl ReadOnlyException
            else if NumPhysPages \<le> physicalPage e mod 2 ^ 32 then Inl BusErrorException
            else Inr (physicalPage e mod 2 ^ 32 * PageSize + uint a mod PageSize)))"

definition mark_entry :: "bool \<Rightarrow> TranslationEntry \<Rightarrow> TranslationEntry" where
  "mark_entry writing e = e\<lparr>use := True, dirty := dirty e \<or> writing\<rparr>"

definition sizes :: "int set" where "sizes = {1, 2, 4}"

lemma and_3_eq_0: "(a :: u32) AND 3 = 0 \<longleftrightarrow> uint a mod 4 = 0"
proof -
  have "uint (a AND 3) = uint a AND mask 2" by (simp add: uint_and mask_eq_exp_minus_1)
  then show ?thesis by (simp add: word_uint_eq_iff take_bit_eq_mod flip: take_bit_eq_mask)
qed

lemma and_1_eq_0: "(a :: u32) AND 1 = 0 \<longleftrightarrow> uint a mod 2 = 0"
proof -
  have "uint (a AND 1) = uint a mod 2" by (subst uint_and) (simp add: and_one_eq)
  then show ?thesis by (simp add: word_uint_eq_iff)
qed

lemma uint_div_nonneg [simp]: "0 \<le> uint (a :: u32) div PageSize"
  by (simp add: PageSize_def pos_imp_zdiv_nonneg_iff)

lemma page_offset_bounds:
  "0 \<le> (x::int) mod 128" "x mod 128 + 1 \<le> 128"
  "x mod 2 = 0 \<Longrightarrow> x mod 128 + 2 \<le> 128" "x mod 4 = 0 \<Longrightarrow> x mod 128 + 4 \<le> 128"
  by presburger+

lemma aligned_in_page:
  assumes "sz \<in> sizes" "aligned a sz"
  shows "uint a mod PageSize + sz \<le> PageSize"
  using assms page_offset_bounds [of "uint a"]
  by (auto simp: sizes_def aligned_def PageSize_def and_3_eq_0 and_1_eq_0)

lemma in_memory:
  assumes "sz \<in> sizes" "aligned a sz" "0 \<le> f" "f < NumPhysPages"
  shows "0 \<le> f * PageSize + uint a mod PageSize \<and> f * PageSize + uint a mod PageSize + sz \<le> MemorySize"
  using aligned_in_page [OF assms(1,2)] assms(3,4) unfolding machine_sizes by simp

lemma translate_entry_ok:
  assumes "sz \<in> sizes" "aligned a sz"
  shows "translate_entry e (uint a mod PageSize) sz writing =
    Inr (if readOnly e \<and> writing then Inl ReadOnlyException
       else if NumPhysPages \<le> physicalPage e mod 2 ^ 32 then Inl BusErrorException
       else Inr (physicalPage e mod 2 ^ 32 * PageSize + uint a mod PageSize, mark_entry writing e))"
  using in_memory [OF assms, of "physicalPage e mod 2 ^ 32"]
  by (simp add: translate_entry_def mark_entry_def Let_def)

lemma tlb_search_Some:
  "tlb_search t v = Some i \<Longrightarrow> i < length t \<and> valid (t ! i) \<and> virtualPage (t ! i) mod 2 ^ 32 = v"
  by (induction t arbitrary: i) (auto split: if_splits)

lemma tlb_search_update:
  "i < length t \<Longrightarrow> valid e' = valid (t ! i) \<Longrightarrow> virtualPage e' = virtualPage (t ! i) \<Longrightarrow>
   tlb_search (t[i := e']) v = tlb_search t v"
  by (induction t arbitrary: i) (auto split: nat.splits)

lemma mark_entry_simps [simp]:
  "valid (mark_entry w e) = valid e" "virtualPage (mark_entry w e) = virtualPage e"
  "physicalPage (mark_entry w e) = physicalPage e" "readOnly (mark_entry w e) = readOnly e"
  "use (mark_entry w e)" "dirty (mark_entry w e) \<longleftrightarrow> dirty e \<or> w"
  by (simp_all add: mark_entry_def)

text \<open>
  \<open>marked w a m m'\<close>: \<open>m'\<close> is \<open>m\<close> with the use (and for a write the dirty) bit set in the
  entry that translates \<open>a\<close>, and nothing else changed.
\<close>

definition marked :: "bool \<Rightarrow> u32 \<Rightarrow> 'k machine_scheme \<Rightarrow> 'k machine_scheme \<Rightarrow> bool" where
  "marked w a m m' \<longleftrightarrow>
     (\<forall>v. lookup m' v = (if v = uint a div PageSize then map_option (mark_entry w) (lookup m v)
                          else lookup m v)) \<and>
     (tlb m' = None \<longleftrightarrow> tlb m = None) \<and> wf_machine m' \<and>
     m' = m\<lparr>tlb := tlb m', pageTable := pageTable m'\<rparr>"

lemma marked_frame:
  assumes "marked w a m m'"
  shows "wf_machine m'" "mainMemory m' = mainMemory m" "registers m' = registers m"
    "lastUsed m' = lastUsed m" "totalTicks m' = totalTicks m" "mode m' = mode m"
    "pageTableSize m' = pageTableSize m" "machine.more m' = machine.more m"
    "tlb m' = None \<longleftrightarrow> tlb m = None"
  using assms by (auto simp: marked_def elim: ssubst)

lemma marked_tlb:
  assumes "wf_machine m" "tlb m = Some t" "tlb_search t (uint a div PageSize) = Some i"
  shows "marked w a m (m\<lparr>tlb := Some (t[i := mark_entry w (t ! i)])\<rparr>)"
proof -
  note i = tlb_search_Some [OF assms(3)]
  have "tlb_search (t[i := mark_entry w (t ! i)]) v = tlb_search t v" for v
    using i by (intro tlb_search_update) auto
  moreover have ne: "j \<noteq> i" if "tlb_search t v = Some j" "v \<noteq> uint a div PageSize" for v j
    using tlb_search_Some [OF that(1)] that(2) i by auto
  moreover have "map_option ((!) (t[i := mark_entry w (t ! i)])) (tlb_search t v) =
      map_option ((!) t) (tlb_search t v)" if "v \<noteq> uint a div PageSize" for v
    using that ne [OF _ that] by (cases "tlb_search t v") (auto simp: nth_list_update)
  ultimately show ?thesis
    using assms i by (auto simp: marked_def lookup_def wf_machine_def)
qed

lemma marked_pt:
  assumes "wf_machine m" "tlb m = None" "pageTable m = Some pt"
    "uint a div PageSize < pageTableSize m" "valid (pt ! nat (uint a div PageSize))"
  shows "marked w a m (m\<lparr>pageTable :=
     Some (pt[nat (uint a div PageSize) := mark_entry w (pt ! nat (uint a div PageSize))])\<rparr>)"
proof -
  note v = uint_div_nonneg [of a]
  have "int (length pt) = pageTableSize m" using assms by (simp add: wf_machine_def)
  with assms v show ?thesis
    by (auto simp: marked_def lookup_def wf_machine_def nth_list_update nat_eq_iff
        eq_nat_nat_iff nat_less_iff)
qed

lemma Translate_translation:
  assumes "wf_machine m" "sz \<in> sizes"
  shows "\<exists>m'. Translate m a sz w = Inr (translation m a sz w, m') \<and>
     (case translation m a sz w of Inl _ \<Rightarrow> m' = m
      | Inr p \<Rightarrow> marked w a m m' \<and> 0 \<le> p \<and> p + sz \<le> MemorySize)"
proof (cases "aligned a sz")
  case False
  then show ?thesis by (auto simp: Translate_def translation_def aligned_def)
next
  case al: True
  have neg: "\<not> (sz = 4 \<and> a AND 3 \<noteq> 0 \<or> sz = 2 \<and> a AND 1 \<noteq> 0)"
    using al by (simp add: aligned_def)
  note te = translate_entry_ok [OF assms(2) al]
  note im = in_memory [OF assms(2) al]
  note v = uint_div_nonneg [of a]
  show ?thesis
  proof (cases "tlb m")
    case (Some t)
    then have "pageTable m = None" using assms by (simp add: wf_machine_def)
    with Some al im [of "physicalPage (t ! the (tlb_search t (uint a div PageSize))) mod 2 ^ 32"]
      marked_tlb [OF assms(1) Some] show ?thesis
      by (cases "tlb_search t (uint a div PageSize)")
        (auto simp: Translate_def if_not_P [OF neg] translation_def lookup_def te Let_def)
  next
    case None
    then obtain pt where pt: "pageTable m = Some pt" "int (length pt) = pageTableSize m"
      using assms by (auto simp: wf_machine_def)
    with None al v im [of "physicalPage (pt ! nat (uint a div PageSize)) mod 2 ^ 32"]
      marked_pt [OF assms(1) None pt(1)] show ?thesis
      by (auto simp: Translate_def if_not_P [OF neg] translation_def lookup_def te Let_def)
  qed
qed

section \<open>What reads and writes do\<close>

definition read_value :: "(nat \<Rightarrow> u8) \<Rightarrow> nat \<Rightarrow> int \<Rightarrow> u32" where
  "read_value mem p sz =
     (if sz = 1 then scast (mem p)
      else if sz = 2 then ucast (le16 (mem p) (mem (p + 1)))
      else le32 (mem p) (mem (p + 1)) (mem (p + 2)) (mem (p + 3)))"

definition write_value :: "(nat \<Rightarrow> u8) \<Rightarrow> nat \<Rightarrow> int \<Rightarrow> u32 \<Rightarrow> nat \<Rightarrow> u8" where
  "write_value mem p sz v =
     (if sz = 1 then mem(p := byte_of v 0)
      else if sz = 2 then mem(p := byte_of v 0, p + 1 := byte_of v 1)
      else mem(p := byte_of v 0, p + 1 := byte_of v 1, p + 2 := byte_of v 2, p + 3 := byte_of v 3))"

lemma low_byte: "ucast (v AND 0xff :: u32) = byte_of v 0"
  unfolding byte_masks byte_of_def by (rule bit_word_eqI) (auto simp: bit_simps)

lemma byte_of_low16:
  "byte_of (ucast (v AND 0xffff :: u32) :: u16) 0 = byte_of v 0"
  "byte_of (ucast (v AND 0xffff :: u32) :: u16) 1 = byte_of v 1"
  unfolding byte_masks by (rule bit_word_eqI; simp add: bit_byte_of bit_simps)+

lemma le16_low: "ucast (le16 (byte_of v 0) (byte_of v 1)) = (v AND 0xffff :: u32)"
  unfolding byte_masks by (rule bit_word_eqI) (auto simp: bit_simps bit_le16 bit_byte_of)

lemma ReadMem_cases:
  assumes "wf_machine m" "sz \<in> sizes"
  shows "case translation m a sz False of
      Inl e \<Rightarrow> ReadMem big H m a sz = bind_result (RaiseException H m e a) (\<lambda>m2. Inr (None, m2))
    | Inr p \<Rightarrow> \<exists>m1. marked False a m m1 \<and> 0 \<le> p \<and> p + sz \<le> MemorySize \<and>
        ReadMem big H m a sz = Inr (Some (read_value (mainMemory m) (nat p) sz), touch p m1)"
proof -
  from Translate_translation [OF assms, of a False] obtain m1 where
    t: "Translate m a sz False = Inr (translation m a sz False, m1)"
      "case translation m a sz False of Inl _ \<Rightarrow> m1 = m
       | Inr p \<Rightarrow> marked False a m m1 \<and> 0 \<le> p \<and> p + sz \<le> MemorySize" by blast
  show ?thesis
  proof (cases "translation m a sz False")
    case (Inl e)
    with t show ?thesis by (simp add: ReadMem_def)
  next
    case (Inr p)
    with t have "mainMemory m1 = mainMemory m" by (auto dest: marked_frame)
    with t Inr assms(2) show ?thesis
      by (auto simp: ReadMem_def sizes_def read_value_def load16_host load32_host)
  qed
qed

lemma WriteMem_cases:
  assumes "wf_machine m" "sz \<in> sizes"
  shows "case translation m a sz True of
      Inl e \<Rightarrow> WriteMem big H m a sz v = bind_result (RaiseException H m e a) (\<lambda>m2. Inr (False, m2))
    | Inr p \<Rightarrow> \<exists>m1. marked True a m m1 \<and> 0 \<le> p \<and> p + sz \<le> MemorySize \<and>
        WriteMem big H m a sz v =
          Inr (True, touch p (m1\<lparr>mainMemory := write_value (mainMemory m) (nat p) sz v\<rparr>))"
proof -
  from Translate_translation [OF assms, of a True] obtain m1 where
    t: "Translate m a sz True = Inr (translation m a sz True, m1)"
      "case translation m a sz True of Inl _ \<Rightarrow> m1 = m
       | Inr p \<Rightarrow> marked True a m m1 \<and> 0 \<le> p \<and> p + sz \<le> MemorySize" by blast
  show ?thesis
  proof (cases "translation m a sz True")
    case (Inl e)
    with t show ?thesis by (simp add: WriteMem_def)
  next
    case (Inr p)
    with t have "mainMemory m1 = mainMemory m" by (auto dest: marked_frame)
    with t Inr assms(2) show ?thesis
      by (auto simp: WriteMem_def sizes_def write_value_def store16_host store32_host low_byte
          byte_of_low16 simp del: One_nat_def)
  qed
qed

lemma mark_entry_eqD:
  "mark_entry w e = mark_entry w e' \<Longrightarrow> readOnly e = readOnly e' \<and> physicalPage e = physicalPage e'"
  by (metis mark_entry_simps(3,4))

lemma mark_mark [simp]: "mark_entry True (mark_entry w e) = mark_entry True e"
  by (simp add: mark_entry_def)

lemma translation_cong:
  assumes "\<And>v. map_option (mark_entry True) (lookup m' v) = map_option (mark_entry True) (lookup m v)"
    "tlb m' = None \<longleftrightarrow> tlb m = None" "pageTableSize m' = pageTableSize m"
  shows "translation m' a sz w = translation m a sz w"
proof -
  have *: "(case lookup m' v of None \<Rightarrow> x | Some e \<Rightarrow> f (readOnly e) (physicalPage e)) =
        (case lookup m v of None \<Rightarrow> x | Some e \<Rightarrow> f (readOnly e) (physicalPage e))"
    for v x and f :: "bool \<Rightarrow> int \<Rightarrow> ExceptionType + int"
    using assms(1) [of v] by (cases "lookup m' v"; cases "lookup m v") (auto dest: mark_entry_eqD)
  from * [where f = "\<lambda>r pp. if r \<and> w then Inl ReadOnlyException
      else if NumPhysPages \<le> pp mod 2 ^ 32 then Inl BusErrorException
      else Inr (pp mod 2 ^ 32 * PageSize + uint a mod PageSize)"]
  show ?thesis unfolding translation_def using assms(2,3) by simp
qed

lemma lookup_frame [simp]:
  "lookup (touch p m) = lookup m" "lookup (m\<lparr>mainMemory := mem\<rparr>) = lookup m"
  "tlb (touch p m) = tlb m" "pageTableSize (touch p m) = pageTableSize m"
  "mainMemory (touch p m) = mainMemory m" "registers (touch p m) = registers m"
  by (auto simp: touch_def lookup_def fun_eq_iff split: option.splits)

lemma wf_frame [simp]:
  "wf_machine (touch p m) = wf_machine m" "wf_machine (m\<lparr>mainMemory := mem\<rparr>) = wf_machine m"
  by (simp_all add: touch_def wf_machine_def)

lemma translation_marked:
  assumes "marked w b m m1"
  shows "translation (touch p (m1\<lparr>mainMemory := mem\<rparr>)) a sz x = translation m a sz x"
proof (rule translation_cong)
  show "pageTableSize (touch p (m1\<lparr>mainMemory := mem\<rparr>)) = pageTableSize m"
    using marked_frame(7) [OF assms] by (simp add: touch_def)
  fix v
  show "map_option (mark_entry True) (lookup (touch p (m1\<lparr>mainMemory := mem\<rparr>)) v) =
      map_option (mark_entry True) (lookup m v)"
    using assms by (simp add: marked_def option.map_comp comp_def)
qed (use assms in \<open>simp add: marked_def\<close>)

lemma translation_True_False: "translation m a sz True = Inr p \<Longrightarrow> translation m a sz False = Inr p"
  by (auto simp: translation_def split: if_splits option.splits)

lemma translation_Inr:
  "translation m a sz w = Inr p \<Longrightarrow> \<exists>e. lookup m (uint a div PageSize) = Some e \<and>
     \<not> (readOnly e \<and> w) \<and> physicalPage e mod 2 ^ 32 < NumPhysPages \<and>
     p = physicalPage e mod 2 ^ 32 * PageSize + uint a mod PageSize"
  by (auto simp: translation_def split: if_splits option.splits)

text \<open>The value a read gives back after a write of \<open>v\<close>: the low bytes, a single byte sign-extended.\<close>

definition stored_value :: "int \<Rightarrow> u32 \<Rightarrow> u32" where
  "stored_value sz v = (if sz = 1 then scast (byte_of v 0) else if sz = 2 then v AND 0xffff else v)"

lemma read_write_value: "sz \<in> sizes \<Longrightarrow> read_value (write_value mem p sz v) p sz = stored_value sz v"
  by (auto simp: sizes_def read_value_def write_value_def stored_value_def le32_bytes le16_low
      simp del: One_nat_def)

section \<open>Properties\<close>

text \<open>
  C3: address translation is safe and classifies every failure. With exactly one of a TLB and a
  page table, translating any address for an access of 1, 2 or 4 bytes never fails an ASSERT and
  never reads outside the table. It succeeds exactly for an aligned address whose page has a
  valid entry (writable, for a write) with a physical page that exists, and then gives that
  page's frame plus the offset, so that all the bytes lie inside physical memory, and sets the
  use and dirty bits of that entry alone; each failure has its own exception and changes nothing.
\<close>

theorem Translate_correct:
  assumes "wf_machine m" "sz \<in> {1, 2, 4}"
  shows "\<exists>r m'. Translate m a sz w = Inr (r, m') \<and>
    (case r of
       Inl e \<Rightarrow> m' = m \<and>
         e = (if \<not> aligned a sz \<or> tlb m = None \<and> pageTableSize m \<le> uint a div PageSize
              then AddressErrorException
              else if lookup m (uint a div PageSize) = None then PageFaultException
              else if readOnly (the (lookup m (uint a div PageSize))) \<and> w then ReadOnlyException
              else BusErrorException) \<and>
         (e = BusErrorException \<longrightarrow>
            NumPhysPages \<le> physicalPage (the (lookup m (uint a div PageSize))) mod 2 ^ 32)
     | Inr p \<Rightarrow> aligned a sz \<and> 0 \<le> p \<and> p + sz \<le> MemorySize \<and> marked w a m m' \<and>
         (\<exists>e. lookup m (uint a div PageSize) = Some e \<and> \<not> (readOnly e \<and> w) \<and>
            physicalPage e mod 2 ^ 32 < NumPhysPages \<and>
            p = physicalPage e mod 2 ^ 32 * PageSize + uint a mod PageSize))"
proof -
  have sz: "sz \<in> sizes" using assms(2) by (simp add: sizes_def)
  from Translate_translation [OF assms(1) sz, of a w] obtain m' where
    t: "Translate m a sz w = Inr (translation m a sz w, m')"
      "case translation m a sz w of Inl _ \<Rightarrow> m' = m
       | Inr p \<Rightarrow> marked w a m m' \<and> 0 \<le> p \<and> p + sz \<le> MemorySize" by blast
  show ?thesis
  proof (cases "translation m a sz w")
    case (Inl e)
    then have "e = (if \<not> aligned a sz \<or> tlb m = None \<and> pageTableSize m \<le> uint a div PageSize
              then AddressErrorException
              else if lookup m (uint a div PageSize) = None then PageFaultException
              else if readOnly (the (lookup m (uint a div PageSize))) \<and> w then ReadOnlyException
              else BusErrorException)"
      "e = BusErrorException \<longrightarrow>
         NumPhysPages \<le> physicalPage (the (lookup m (uint a div PageSize))) mod 2 ^ 32"
      by (auto simp: translation_def split: if_splits option.splits)
    with t Inl show ?thesis by simp
  next
    case (Inr p)
    moreover from Inr have "aligned a sz" by (auto simp: translation_def split: if_splits)
    ultimately show ?thesis using t translation_Inr [OF Inr] by simp
  qed
qed

definition sample_entry :: TranslationEntry where
  "sample_entry = \<lparr>virtualPage = 3, physicalPage = 9, valid = True, readOnly = False,
     use = False, dirty = False\<rparr>"

definition sample_machine :: machine where
  "sample_machine = (new_Machine True (\<lambda>_. sample_entry) 5)
     \<lparr>tlb := Some [sample_entry\<lparr>valid := False\<rparr>, sample_entry]\<rparr>"

lemma sample_machine_simps:
  "wf_machine sample_machine" "lookup sample_machine 3 = Some sample_entry"
  "translation sample_machine 0x184 4 True = Inr 1156"
  by (simp_all add: sample_machine_def new_Machine_def wf_machine_def lookup_def sample_entry_def
      translation_def aligned_def machine_sizes)

lemma sample_machine_facts: "aligned 0x184 4" "tlb sample_machine \<noteq> None"
  by (simp_all add: aligned_def sample_machine_def)

theorem Translate_correct_witness:
  "\<exists>m'. Translate sample_machine 0x184 4 True = Inr (Inr 1156, m') \<and> wf_machine m'"
proof -
  have *: "uint (0x184 :: u32) div PageSize = 3" "uint (0x184 :: u32) mod PageSize = 4"
    by (simp_all add: PageSize_def)
  obtain r m' where r: "Translate sample_machine 0x184 4 True = Inr (r, m')"
    "case r of Inl e \<Rightarrow> e = BusErrorException \<and> NumPhysPages \<le> 9
       | Inr p \<Rightarrow> p = 9 * PageSize + 4 \<and> marked True 0x184 sample_machine m'"
    using Translate_correct [OF sample_machine_simps(1), of 4 "0x184" True]
    unfolding * by (fastforce simp: sample_machine_simps(2) sample_machine_facts sample_entry_def
        split: sum.splits)
  then show ?thesis
    by (cases r) (auto simp: NumPhysPages_def PageSize_def marked_frame)
qed

text \<open>
  simulated memory is memory, and the byte order of the host does not show. After a
  successful write of \<open>v\<close>, a read of the same address and size succeeds and returns the bytes of
  \<open>v\<close> that fit (a single byte sign-extended, a half word zero-extended), even if the two are run
  with different settings of \<open>HOST_IS_BIG_ENDIAN\<close>.
\<close>

lemma ReadMem_after_WriteMem:
  assumes "wf_machine m" "sz \<in> {1, 2, 4}" "WriteMem big H m a sz v = Inr (True, m')"
    and "translation m a sz True = Inr p"
  shows "\<exists>m''. ReadMem big' H' m' a sz = Inr (Some (stored_value sz v), m'') \<and>
     mainMemory m'' = mainMemory m'"
proof -
  have sz: "sz \<in> sizes" using assms(2) by (simp add: sizes_def)
  from WriteMem_cases [OF assms(1) sz, of big H a v] assms(3,4) obtain m1 where
    m1: "marked True a m m1" "m' = touch p (m1\<lparr>mainMemory := write_value (mainMemory m) (nat p) sz v\<rparr>)"
    by auto
  then have wf: "wf_machine m'" by (simp add: marked_def)
  have "translation m' a sz False = Inr p"
    using translation_True_False [OF assms(4)] m1 by (simp add: translation_marked)
  with ReadMem_cases [OF wf sz, of big' H' a] m1(2) read_write_value [OF sz] show ?thesis
    by (auto simp: marked_frame)
qed

lemma ReadMem_after_WriteMem_example:
  "\<exists>m' m''. WriteMem True (\<lambda>_. Inr) sample_machine 0x184 4 0x12345678 = Inr (True, m') \<and>
     ReadMem False (\<lambda>_. Inr) m' 0x184 4 = Inr (Some 0x12345678, m'')"
proof -
  have sz: "(4::int) \<in> sizes" by (simp add: sizes_def)
  obtain m' where w: "WriteMem True (\<lambda>_. Inr) sample_machine 0x184 4 0x12345678 = Inr (True, m')"
    using WriteMem_cases [OF sample_machine_simps(1) sz, of True "\<lambda>_. Inr" "0x184" "0x12345678"]
    by (auto simp: sample_machine_simps)
  from ReadMem_after_WriteMem [OF sample_machine_simps(1) _ w sample_machine_simps(3),
      of False "\<lambda>_. Inr"] w show ?thesis
    by (auto simp: stored_value_def)
qed

text \<open>
  user memory is isolated. A \<open>WriteMem\<close> that returns TRUE has changed only the bytes it
  names, all of them in the frame of a valid, writable entry for their page, and has set that
  entry's dirty bit, so the kernel can tell that the frame differs from its copy on disk; a
  \<open>WriteMem\<close> whose translation fails hands the kernel's handler a machine whose memory and
  translation tables are untouched.
\<close>

lemma WriteMem_isolation:
  assumes "wf_machine m" "sz \<in> {1, 2, 4}"
  shows "(\<exists>p e m'. translation m a sz True = Inr p \<and> WriteMem big H m a sz v = Inr (True, m') \<and>
       lookup m (uint a div PageSize) = Some e \<and> \<not> readOnly e \<and>
       {p..<p + sz} \<subseteq> {physicalPage e mod 2 ^ 32 * PageSize..<(physicalPage e mod 2 ^ 32 + 1) * PageSize} \<and>
       (\<forall>q. mainMemory m' q \<noteq> mainMemory m q \<longrightarrow> int q \<in> {p..<p + sz}) \<and>
       lookup m' (uint a div PageSize) = Some (e\<lparr>use := True, dirty := True\<rparr>) \<and>
       (\<forall>u. u \<noteq> uint a div PageSize \<longrightarrow> lookup m' u = lookup m u)) \<or>
     (\<exists>e. translation m a sz True = Inl e \<and>
       WriteMem big H m a sz v = bind_result (RaiseException H m e a) (\<lambda>m2. Inr (False, m2)))"
proof -
  have sz: "sz \<in> sizes" using assms(2) by (simp add: sizes_def)
  note wc = WriteMem_cases [OF assms(1) sz, of big H a v]
  show ?thesis
  proof (cases "translation m a sz True")
    case (Inl e)
    with wc show ?thesis by simp
  next
    case (Inr p)
    with wc obtain m1 where m1: "marked True a m m1" "0 \<le> p"
      "WriteMem big H m a sz v =
         Inr (True, touch p (m1\<lparr>mainMemory := write_value (mainMemory m) (nat p) sz v\<rparr>))"
      by auto
    from translation_Inr [OF Inr] obtain e where
      e: "lookup m (uint a div PageSize) = Some e" "\<not> readOnly e"
        "p = physicalPage e mod 2 ^ 32 * PageSize + uint a mod PageSize" by auto
    from Inr have al: "aligned a sz" by (auto simp: translation_def split: if_splits)
    have "{p..<p + sz} \<subseteq> {physicalPage e mod 2 ^ 32 * PageSize..<(physicalPage e mod 2 ^ 32 + 1) * PageSize}"
      using aligned_in_page [OF sz al] e(3) by (auto simp: PageSize_def distrib_right)
    moreover have "int q \<in> {p..<p + sz}"
      if "write_value (mainMemory m) (nat p) sz v q \<noteq> mainMemory m q" for q
      using that sz m1(2) by (auto simp: write_value_def sizes_def split: if_splits)
    ultimately show ?thesis
      using m1 e Inr by (auto simp: marked_def mark_entry_def)
  qed
qed

lemma WriteMem_isolation_example:
  "\<exists>m'. WriteMem True (\<lambda>_. Inr) sample_machine 0x184 4 7 = Inr (True, m') \<and>
     (\<forall>q. mainMemory m' q \<noteq> 0 \<longrightarrow> int q \<in> {1156..<1160}) \<and>
     lookup m' 3 = Some (sample_entry\<lparr>use := True, dirty := True\<rparr>)"
proof -
  have "uint (0x184 :: u32) div PageSize = 3" "mainMemory sample_machine = (\<lambda>_. 0)"
    by (simp_all add: PageSize_def sample_machine_def new_Machine_def)
  with WriteMem_isolation [OF sample_machine_simps(1), of 4 "0x184" True "\<lambda>_. Inr" 7]
  show ?thesis by (auto simp: sample_machine_simps)
qed

end
