(* ===== verification/Mips.thy ===== *)
theory Mips
  imports Memory
begin

text \<open>
  machine/mipssim.cc and machine/mipssim.h: the instruction decoder and the interpreter of the
  simulated MIPS processor.

  Registers are 32-bit words. C++ \<open>int\<close> arithmetic in the interpreter (\<open>+\<close>, \<open>-\<close>, unary minus,
  \<open><<\<close>) wraps in two's complement, as the compilers this code was written for do and as its
  overflow tests require; \<open>>>\<close> on an \<open>int\<close> is arithmetic. The one division with no value in
  two's complement, INT_MIN / -1, is the crash \<open>UndefinedArith\<close>.
\<close>

section \<open>Opcodes and decoding tables\<close>

text \<open>The codes of mipssim.h. \<open>SPECIAL\<close> and \<open>BCOND\<close> ask for further decoding.\<close>

definition OP_ADD :: nat where "OP_ADD = 1"
definition OP_ADDI :: nat where "OP_ADDI = 2"
definition OP_ADDIU :: nat where "OP_ADDIU = 3"
definition OP_ADDU :: nat where "OP_ADDU = 4"
definition OP_AND :: nat where "OP_AND = 5"
definition OP_ANDI :: nat where "OP_ANDI = 6"
definition OP_BEQ :: nat where "OP_BEQ = 7"
definition OP_BGEZ :: nat where "OP_BGEZ = 8"
definition OP_BGEZAL :: nat where "OP_BGEZAL = 9"
definition OP_BGTZ :: nat where "OP_BGTZ = 10"
definition OP_BLEZ :: nat where "OP_BLEZ = 11"
definition OP_BLTZ :: nat where "OP_BLTZ = 12"
definition OP_BLTZAL :: nat where "OP_BLTZAL = 13"
definition OP_BNE :: nat where "OP_BNE = 14"
definition OP_DIV :: nat where "OP_DIV = 16"
definition OP_DIVU :: nat where "OP_DIVU = 17"
definition OP_J :: nat where "OP_J = 18"
definition OP_JAL :: nat where "OP_JAL = 19"
definition OP_JALR :: nat where "OP_JALR = 20"
definition OP_JR :: nat where "OP_JR = 21"
definition OP_LB :: nat where "OP_LB = 22"
definition OP_LBU :: nat where "OP_LBU = 23"
definition OP_LH :: nat where "OP_LH = 24"
definition OP_LHU :: nat where "OP_LHU = 25"
definition OP_LUI :: nat where "OP_LUI = 26"
definition OP_LW :: nat where "OP_LW = 27"
definition OP_LWL :: nat where "OP_LWL = 28"
definition OP_LWR :: nat where "OP_LWR = 29"
definition OP_MFHI :: nat where "OP_MFHI = 31"
definition OP_MFLO :: nat where "OP_MFLO = 32"
definition OP_MTHI :: nat where "OP_MTHI = 34"
definition OP_MTLO :: nat where "OP_MTLO = 35"
definition OP_MULT :: nat where "OP_MULT = 36"
definition OP_MULTU :: nat where "OP_MULTU = 37"
definition OP_NOR :: nat where "OP_NOR = 38"
definition OP_OR :: nat where "OP_OR = 39"
definition OP_ORI :: nat where "OP_ORI = 40"
definition OP_RFE :: nat where "OP_RFE = 41"
definition OP_SB :: nat where "OP_SB = 42"
definition OP_SH :: nat where "OP_SH = 43"
definition OP_SLL :: nat where "OP_SLL = 44"
definition OP_SLLV :: nat where "OP_SLLV = 45"
definition OP_SLT :: nat where "OP_SLT = 46"
definition OP_SLTI :: nat where "OP_SLTI = 47"
definition OP_SLTIU :: nat where "OP_SLTIU = 48"
definition OP_SLTU :: nat where "OP_SLTU = 49"
definition OP_SRA :: nat where "OP_SRA = 50"
definition OP_SRAV :: nat where "OP_SRAV = 51"
definition OP_SRL :: nat where "OP_SRL = 52"
definition OP_SRLV :: nat where "OP_SRLV = 53"
definition OP_SUB :: nat where "OP_SUB = 54"
definition OP_SUBU :: nat where "OP_SUBU = 55"
definition OP_SW :: nat where "OP_SW = 56"
definition OP_SWL :: nat where "OP_SWL = 57"
definition OP_SWR :: nat where "OP_SWR = 58"
definition OP_XOR :: nat where "OP_XOR = 59"
definition OP_XORI :: nat where "OP_XORI = 60"
definition OP_SYSCALL :: nat where "OP_SYSCALL = 61"
definition OP_UNIMP :: nat where "OP_UNIMP = 62"
definition OP_RES :: nat where "OP_RES = 63"
definition MaxOpcode :: nat where "MaxOpcode = 63"
definition SPECIAL :: nat where "SPECIAL = 100"
definition BCOND :: nat where "BCOND = 101"

lemmas opcodes = OP_ADD_def OP_ADDI_def OP_ADDIU_def OP_ADDU_def OP_AND_def OP_ANDI_def OP_BEQ_def 
  OP_BGEZ_def OP_BGEZAL_def OP_BGTZ_def OP_BLEZ_def OP_BLTZ_def OP_BLTZAL_def OP_BNE_def 
  OP_DIV_def OP_DIVU_def OP_J_def OP_JAL_def OP_JALR_def OP_JR_def OP_LB_def OP_LBU_def 
  OP_LH_def OP_LHU_def OP_LUI_def OP_LW_def OP_LWL_def OP_LWR_def OP_MFHI_def OP_MFLO_def 
  OP_MTHI_def OP_MTLO_def OP_MULT_def OP_MULTU_def OP_NOR_def OP_OR_def OP_ORI_def 
  OP_RFE_def OP_SB_def OP_SH_def OP_SLL_def OP_SLLV_def OP_SLT_def OP_SLTI_def 
  OP_SLTIU_def OP_SLTU_def OP_SRA_def OP_SRAV_def OP_SRL_def OP_SRLV_def OP_SUB_def 
  OP_SUBU_def OP_SW_def OP_SWL_def OP_SWR_def OP_XOR_def OP_XORI_def OP_SYSCALL_def 
  OP_UNIMP_def OP_RES_def MaxOpcode_def SPECIAL_def BCOND_def

datatype format = IFMT | JFMT | RFMT

definition opTable :: "(nat \<times> format) list" where
  "opTable =
    [(SPECIAL, RFMT), (BCOND, IFMT), (OP_J, JFMT), (OP_JAL, JFMT),
     (OP_BEQ, IFMT), (OP_BNE, IFMT), (OP_BLEZ, IFMT), (OP_BGTZ, IFMT),
     (OP_ADDI, IFMT), (OP_ADDIU, IFMT), (OP_SLTI, IFMT), (OP_SLTIU, IFMT),
     (OP_ANDI, IFMT), (OP_ORI, IFMT), (OP_XORI, IFMT), (OP_LUI, IFMT),
     (OP_UNIMP, IFMT), (OP_UNIMP, IFMT), (OP_UNIMP, IFMT), (OP_UNIMP, IFMT),
     (OP_RES, IFMT), (OP_RES, IFMT), (OP_RES, IFMT), (OP_RES, IFMT),
     (OP_RES, IFMT), (OP_RES, IFMT), (OP_RES, IFMT), (OP_RES, IFMT),
     (OP_RES, IFMT), (OP_RES, IFMT), (OP_RES, IFMT), (OP_RES, IFMT),
     (OP_LB, IFMT), (OP_LH, IFMT), (OP_LWL, IFMT), (OP_LW, IFMT),
     (OP_LBU, IFMT), (OP_LHU, IFMT), (OP_LWR, IFMT), (OP_RES, IFMT),
     (OP_SB, IFMT), (OP_SH, IFMT), (OP_SWL, IFMT), (OP_SW, IFMT),
     (OP_RES, IFMT), (OP_RES, IFMT), (OP_SWR, IFMT), (OP_RES, IFMT),
     (OP_UNIMP, IFMT), (OP_UNIMP, IFMT), (OP_UNIMP, IFMT), (OP_UNIMP, IFMT),
     (OP_RES, IFMT), (OP_RES, IFMT), (OP_RES, IFMT), (OP_RES, IFMT),
     (OP_UNIMP, IFMT), (OP_UNIMP, IFMT), (OP_UNIMP, IFMT), (OP_UNIMP, IFMT),
     (OP_RES, IFMT), (OP_RES, IFMT), (OP_RES, IFMT), (OP_RES, IFMT)]"

definition specialTable :: "nat list" where
  "specialTable =
    [OP_SLL, OP_RES, OP_SRL, OP_SRA, OP_SLLV, OP_RES, OP_SRLV, OP_SRAV,
     OP_JR, OP_JALR, OP_RES, OP_RES, OP_SYSCALL, OP_UNIMP, OP_RES, OP_RES,
     OP_MFHI, OP_MTHI, OP_MFLO, OP_MTLO, OP_RES, OP_RES, OP_RES, OP_RES,
     OP_MULT, OP_MULTU, OP_DIV, OP_DIVU, OP_RES, OP_RES, OP_RES, OP_RES,
     OP_ADD, OP_ADDU, OP_SUB, OP_SUBU, OP_AND, OP_OR, OP_XOR, OP_NOR,
     OP_RES, OP_RES, OP_SLT, OP_SLTU, OP_RES, OP_RES, OP_RES, OP_RES,
     OP_RES, OP_RES, OP_RES, OP_RES, OP_RES, OP_RES, OP_RES, OP_RES,
     OP_RES, OP_RES, OP_RES, OP_RES, OP_RES, OP_RES, OP_RES, OP_RES]"

record Instruction =
  ivalue :: u32     \<comment> \<open>the field value\<close>
  opCode :: nat
  rs :: nat
  rt :: nat
  rd :: nat
  extra :: u32

definition Decode :: "u32 \<Rightarrow> Instruction" where
  "Decode v =
     (let rs' = unat (drop_bit 21 v AND 0x1f);
          rt' = unat (drop_bit 16 v AND 0x1f);
          rd' = unat (drop_bit 11 v AND 0x1f);
          (op, fmt) = opTable ! unat (drop_bit 26 v AND 0x3f);
          ex = (case fmt of
              IFMT \<Rightarrow> let e = v AND 0xffff in if e AND 0x8000 \<noteq> 0 then e OR 0xffff0000 else e
            | RFMT \<Rightarrow> drop_bit 6 v AND 0x1f
            | JFMT \<Rightarrow> v AND 0x3ffffff);
          op' =
            (if op = SPECIAL then specialTable ! unat (v AND 0x3f)
             else if op = BCOND then
               (let i = v AND 0x1f0000 in
                if i = 0 then OP_BLTZ
                else if i = 0x10000 then OP_BGEZ
                else if i = 0x100000 then OP_BLTZAL
                else if i = 0x110000 then OP_BGEZAL
                else OP_UNIMP)
             else op)
      in \<lparr>ivalue = v, opCode = op', rs = rs', rt = rt', rd = rd', extra = ex\<rparr>)"

definition SIGN_BIT :: u32 where "SIGN_BIT = 0x80000000"
definition R31 :: nat where "R31 = 31"
definition IndexToAddr :: "u32 \<Rightarrow> u32" where "IndexToAddr x = push_bit 2 x"

section \<open>Multiplication and division\<close>

text \<open>
  The loop of \<open>Mult\<close>: \<open>n\<close> is the number of iterations left, so the \<open>for\<close> starts at 32.
\<close>

fun mult_loop :: "nat \<Rightarrow> u32 \<Rightarrow> u32 \<Rightarrow> u32 \<Rightarrow> u32 \<Rightarrow> u32 \<Rightarrow> u32 \<times> u32" where
  "mult_loop 0 a bHi bLo hi lo = (hi, lo)"
| "mult_loop (Suc n) a bHi bLo hi lo =
     (if a AND 1 \<noteq> 0
      then let lo' = lo + bLo;
               hi' = (if lo' < bLo then hi + 1 else hi) + bHi
           in if a AND 0xfffffffe = 0 then (hi', lo')
              else mult_loop n (signed_drop_bit 1 a)
                     (push_bit 1 bHi OR (if bLo AND 0x80000000 \<noteq> 0 then 1 else 0)) (push_bit 1 bLo) hi' lo'
      else mult_loop n (signed_drop_bit 1 a)
             (push_bit 1 bHi OR (if bLo AND 0x80000000 \<noteq> 0 then 1 else 0)) (push_bit 1 bLo) hi lo)"

text \<open>The result is the pair (*hiPtr, *loPtr).\<close>

definition Mult :: "u32 \<Rightarrow> u32 \<Rightarrow> bool \<Rightarrow> u32 \<times> u32" where
  "Mult a b signedArith =
     (if a = 0 \<or> b = 0 then (0, 0)
      else
        let negA = signedArith \<and> sint a < 0;
            negB = signedArith \<and> sint b < 0;
            negative = (negA \<noteq> negB);
            a' = (if negA then - a else a);
            b' = (if negB then - b else b);
            (hi, lo) = mult_loop 32 a' 0 b' 0 0
        in if negative
           then let hi1 = NOT hi; lo1 = NOT lo + 1
                in (if lo1 = 0 then hi1 + 1 else hi1, lo1)
           else (hi, lo))"

definition int_div :: "u32 \<Rightarrow> u32 \<Rightarrow> u32 result" where
  "int_div a b = (if a = SIGN_BIT \<and> b = - 1 then Inl UndefinedArith
     else Inr (word_of_int (quot (sint a) (sint b))))"

definition int_mod :: "u32 \<Rightarrow> u32 \<Rightarrow> u32 result" where
  "int_mod a b = (if a = SIGN_BIT \<and> b = - 1 then Inl UndefinedArith
     else Inr (word_of_int (rem (sint a) (sint b))))"

section \<open>The interpreter\<close>

text \<open>
  The \<open>switch\<close> of \<open>OneInstruction\<close>. A case ends with \<open>break\<close> (\<open>Break\<close>: the machine, the delayed
  load to record, and the next value of NextPC) or with \<open>return\<close> (\<open>Return\<close>). The cases are
  grouped in the order of the source; a group passes an opcode that is not its own to the next.
\<close>

datatype 'm exec = Break 'm (nextLoadReg: u32) (nextLoadValue: u32) (pcAfter: u32) | Return 'm

definition finish :: "'m \<Rightarrow> u32 \<Rightarrow> 'm exec result" where
  "finish m pc = Inr (Break m 0 0 pc)"

definition return_exc ::
  "'k handler \<Rightarrow> 'k machine_scheme \<Rightarrow> ExceptionType \<Rightarrow> u32 \<Rightarrow> 'k machine_scheme exec result" where
  "return_exc H m e a = bind_result (RaiseException H m e a) (\<lambda>m'. Inr (Return m'))"

definition branch :: "'k machine_scheme \<Rightarrow> Instruction \<Rightarrow> u32" where
  "branch m i = registers m NextPCReg + IndexToAddr (extra i)"

text \<open>\<open>case OP_SYSCALL\<close> to the end of the switch.\<close>

definition exec_rest ::
  "bool \<Rightarrow> 'k handler \<Rightarrow> Instruction \<Rightarrow> 'k machine_scheme \<Rightarrow> u32 \<Rightarrow> 'k machine_scheme exec result" where
  "exec_rest big H i m pc =
     (let R = registers m; op = opCode i in
      if op = OP_SYSCALL then return_exc H m SyscallException 0
      else if op = OP_XOR then finish (set_reg (rd i) (R (rs i) XOR R (rt i)) m) pc
      else if op = OP_XORI then finish (set_reg (rt i) (R (rs i) XOR (extra i AND 0xffff)) m) pc
      else if op = OP_RES \<or> op = OP_UNIMP then return_exc H m IllegalInstrException 0
      else Inl AssertFailed)"

text \<open>\<open>case OP_SUB\<close> to \<open>case OP_SWR\<close>.\<close>

definition exec_sub ::
  "bool \<Rightarrow> 'k handler \<Rightarrow> Instruction \<Rightarrow> 'k machine_scheme \<Rightarrow> u32 \<Rightarrow> 'k machine_scheme exec result" where
  "exec_sub big H i m pc =
     (let R = registers m; op = opCode i in
      if op = OP_SUB then
        (let diff = R (rs i) - R (rt i) in
         if (R (rs i) XOR R (rt i)) AND SIGN_BIT \<noteq> 0 \<and> (R (rs i) XOR diff) AND SIGN_BIT \<noteq> 0
         then return_exc H m OverflowException 0
         else finish (set_reg (rd i) diff m) pc)
      else if op = OP_SUBU then finish (set_reg (rd i) (R (rs i) - R (rt i)) m) pc
      else if op = OP_SW then
        bind_result (WriteMem big H m (R (rs i) + extra i) 4 (R (rt i))) (\<lambda>(ok, m').
          if \<not> ok then Inr (Return m') else finish m' pc)
      else if op = OP_SWL then
        (let tmp = R (rs i) + extra i in
         bind_result (ASSERT (tmp AND 3 = 0)) (\<lambda>_.
         bind_result (ReadMem big H m (tmp AND NOT 3) 4) (\<lambda>(r, m1).
           case r of None \<Rightarrow> Inr (Return m1)
           | Some v \<Rightarrow>
             let t = registers m1 (rt i);
                 v' = (if tmp AND 3 = 0 then t
                       else if tmp AND 3 = 1 then (v AND 0xff000000) OR (signed_drop_bit 8 t AND 0xffffff)
                       else if tmp AND 3 = 2 then (v AND 0xffff0000) OR (signed_drop_bit 16 t AND 0xffff)
                       else (v AND 0xffffff00) OR (signed_drop_bit 24 t AND 0xff))
             in bind_result (WriteMem big H m1 (tmp AND NOT 3) 4 v') (\<lambda>(ok, m2).
                  if \<not> ok then Inr (Return m2) else finish m2 pc))))
      else if op = OP_SWR then
        (let tmp = R (rs i) + extra i in
         bind_result (ASSERT (tmp AND 3 = 0)) (\<lambda>_.
         bind_result (ReadMem big H m (tmp AND NOT 3) 4) (\<lambda>(r, m1).
           case r of None \<Rightarrow> Inr (Return m1)
           | Some v \<Rightarrow>
             let t = registers m1 (rt i);
                 v' = (if tmp AND 3 = 0 then (v AND 0xffffff) OR push_bit 24 t
                       else if tmp AND 3 = 1 then (v AND 0xffff) OR push_bit 16 t
                       else if tmp AND 3 = 2 then (v AND 0xff) OR push_bit 8 t
                       else t)
             in bind_result (WriteMem big H m1 (tmp AND NOT 3) 4 v') (\<lambda>(ok, m2).
                  if \<not> ok then Inr (Return m2) else finish m2 pc))))
      else exec_rest big H i m pc)"

text \<open>\<open>case OP_SB\<close> to \<open>case OP_SRLV\<close>.\<close>

definition exec_shift ::
  "bool \<Rightarrow> 'k handler \<Rightarrow> Instruction \<Rightarrow> 'k machine_scheme \<Rightarrow> u32 \<Rightarrow> 'k machine_scheme exec result" where
  "exec_shift big H i m pc =
     (let R = registers m; op = opCode i in
      if op = OP_SB then
        bind_result (WriteMem big H m (R (rs i) + extra i) 1 (R (rt i))) (\<lambda>(ok, m').
          if \<not> ok then Inr (Return m') else finish m' pc)
      else if op = OP_SH then
        bind_result (WriteMem big H m (R (rs i) + extra i) 2 (R (rt i))) (\<lambda>(ok, m').
          if \<not> ok then Inr (Return m') else finish m' pc)
      else if op = OP_SLL then finish (set_reg (rd i) (push_bit (unat (extra i)) (R (rt i))) m) pc
      else if op = OP_SLLV then
        finish (set_reg (rd i) (push_bit (unat (R (rs i) AND 0x1f)) (R (rt i))) m) pc
      else if op = OP_SLT then
        finish (set_reg (rd i) (if sint (R (rs i)) < sint (R (rt i)) then 1 else 0) m) pc
      else if op = OP_SLTI then
        finish (set_reg (rt i) (if sint (R (rs i)) < sint (extra i) then 1 else 0) m) pc
      else if op = OP_SLTIU then
        finish (set_reg (rt i) (if R (rs i) < extra i then 1 else 0) m) pc
      else if op = OP_SLTU then
        finish (set_reg (rd i) (if R (rs i) < R (rt i) then 1 else 0) m) pc
      else if op = OP_SRA then
        finish (set_reg (rd i) (signed_drop_bit (unat (extra i)) (R (rt i))) m) pc
      else if op = OP_SRAV then
        finish (set_reg (rd i) (signed_drop_bit (unat (R (rs i) AND 0x1f)) (R (rt i))) m) pc
      else if op = OP_SRL then
        (let tmp = R (rt i) in
         finish (set_reg (rd i) (signed_drop_bit (unat (extra i)) tmp) m) pc)
      else if op = OP_SRLV then
        (let tmp = R (rt i) in
         finish (set_reg (rd i) (signed_drop_bit (unat (R (rs i) AND 0x1f)) tmp) m) pc)
      else exec_sub big H i m pc)"

text \<open>\<open>case OP_MFHI\<close> to \<open>case OP_ORI\<close>.\<close>

definition exec_mult ::
  "bool \<Rightarrow> 'k handler \<Rightarrow> Instruction \<Rightarrow> 'k machine_scheme \<Rightarrow> u32 \<Rightarrow> 'k machine_scheme exec result" where
  "exec_mult big H i m pc =
     (let R = registers m; op = opCode i in
      if op = OP_MFHI then finish (set_reg (rd i) (R HiReg) m) pc
      else if op = OP_MFLO then finish (set_reg (rd i) (R LoReg) m) pc
      else if op = OP_MTHI then finish (set_reg HiReg (R (rs i)) m) pc
      else if op = OP_MTLO then finish (set_reg LoReg (R (rs i)) m) pc
      else if op = OP_MULT then
        (let (hi, lo) = Mult (R (rs i)) (R (rt i)) True in
         finish (set_reg LoReg lo (set_reg HiReg hi m)) pc)
      else if op = OP_MULTU then
        (let (hi, lo) = Mult (R (rs i)) (R (rt i)) False in
         finish (set_reg LoReg lo (set_reg HiReg hi m)) pc)
      else if op = OP_NOR then finish (set_reg (rd i) (NOT (R (rs i) OR R (rt i))) m) pc
      else if op = OP_OR then finish (set_reg (rd i) (R (rs i) OR R (rs i)) m) pc
      else if op = OP_ORI then finish (set_reg (rt i) (R (rs i) OR (extra i AND 0xffff)) m) pc
      else exec_shift big H i m pc)"

text \<open>\<open>case OP_LB\<close> to \<open>case OP_LWR\<close>: the loads, whose value is applied one instruction later.\<close>

definition exec_load ::
  "bool \<Rightarrow> 'k handler \<Rightarrow> Instruction \<Rightarrow> 'k machine_scheme \<Rightarrow> u32 \<Rightarrow> 'k machine_scheme exec result" where
  "exec_load big H i m pc =
     (let R = registers m; op = opCode i; tmp = R (rs i) + extra i; load = word_of_nat (rt i) in
      if op = OP_LB \<or> op = OP_LBU then
        bind_result (ReadMem big H m tmp 1) (\<lambda>(r, m1).
          case r of None \<Rightarrow> Inr (Return m1)
          | Some v \<Rightarrow> Inr (Break m1 load
              (if v AND 0x80 \<noteq> 0 \<and> op = OP_LB then v OR 0xffffff00 else v AND 0xff) pc))
      else if op = OP_LH \<or> op = OP_LHU then
        (if tmp AND 1 \<noteq> 0 then return_exc H m AddressErrorException tmp
         else bind_result (ReadMem big H m tmp 2) (\<lambda>(r, m1).
           case r of None \<Rightarrow> Inr (Return m1)
           | Some v \<Rightarrow> Inr (Break m1 load
               (if v AND 0x8000 \<noteq> 0 \<and> op = OP_LH then v OR 0xffff0000 else v AND 0xffff) pc)))
      else if op = OP_LUI then finish (set_reg (rt i) (push_bit 16 (extra i)) m) pc
      else if op = OP_LW then
        (if tmp AND 3 \<noteq> 0 then return_exc H m AddressErrorException tmp
         else bind_result (ReadMem big H m tmp 4) (\<lambda>(r, m1).
           case r of None \<Rightarrow> Inr (Return m1) | Some v \<Rightarrow> Inr (Break m1 load v pc)))
      else if op = OP_LWL then
        bind_result (ASSERT (tmp AND 3 = 0)) (\<lambda>_.
        bind_result (ReadMem big H m tmp 4) (\<lambda>(r, m1).
          case r of None \<Rightarrow> Inr (Return m1)
          | Some v \<Rightarrow>
            let old = (if registers m1 LoadReg = load then registers m1 LoadValueReg
                       else registers m1 (rt i))
            in Inr (Break m1 load
              (if tmp AND 3 = 0 then v
               else if tmp AND 3 = 1 then (old AND 0xff) OR push_bit 8 v
               else if tmp AND 3 = 2 then (old AND 0xffff) OR push_bit 16 v
               else (old AND 0xffffff) OR push_bit 24 v) pc)))
      else if op = OP_LWR then
        bind_result (ASSERT (tmp AND 3 = 0)) (\<lambda>_.
        bind_result (ReadMem big H m tmp 4) (\<lambda>(r, m1).
          case r of None \<Rightarrow> Inr (Return m1)
          | Some v \<Rightarrow>
            let old = (if registers m1 LoadReg = load then registers m1 LoadValueReg
                       else registers m1 (rt i))
            in Inr (Break m1 load
              (if tmp AND 3 = 0 then (old AND 0xffffff00) OR (signed_drop_bit 24 v AND 0xff)
               else if tmp AND 3 = 1 then (old AND 0xffff0000) OR (signed_drop_bit 16 v AND 0xffff)
               else if tmp AND 3 = 2 then (old AND 0xff000000) OR (signed_drop_bit 8 v AND 0xffffff)
               else v) pc)))
      else exec_mult big H i m pc)"

text \<open>
  \<open>case OP_DIV\<close> to \<open>case OP_JR\<close>. \<open>JAL\<close> and \<open>JALR\<close> fall through to \<open>J\<close> and \<open>JR\<close> after they have
  written the return address.
\<close>

definition exec_jump ::
  "bool \<Rightarrow> 'k handler \<Rightarrow> Instruction \<Rightarrow> 'k machine_scheme \<Rightarrow> u32 \<Rightarrow> 'k machine_scheme exec result" where
  "exec_jump big H i m pc =
     (let R = registers m; op = opCode i in
      if op = OP_DIV then
        (if R (rt i) = 0 then finish (set_reg HiReg 0 (set_reg LoReg 0 m)) pc
         else
           bind_result (int_div (R (rs i)) (R (rt i))) (\<lambda>q.
           let m1 = set_reg LoReg q m in
           bind_result (int_mod (registers m1 (rs i)) (registers m1 (rt i))) (\<lambda>r.
           finish (set_reg HiReg r m1) pc)))
      else if op = OP_DIVU then
        (if R (rt i) = 0 then finish (set_reg HiReg 0 (set_reg LoReg 0 m)) pc
         else finish (set_reg HiReg (R (rs i) mod R (rt i)) (set_reg LoReg (R (rs i) div R (rt i)) m)) pc)
      else if op = OP_JAL \<or> op = OP_J then
        (let m1 = (if op = OP_JAL then set_reg R31 (R NextPCReg + 4) m else m) in
         finish m1 ((pc AND 0xf0000000) OR IndexToAddr (extra i)))
      else if op = OP_JALR \<or> op = OP_JR then
        (let m1 = (if op = OP_JALR then set_reg (rd i) (R NextPCReg + 4) m else m) in
         finish m1 (registers m1 (rs i)))
      else exec_load big H i m pc)"

text \<open>\<open>case OP_ADD\<close> to \<open>case OP_BNE\<close>; \<open>pc\<close> is the value of \<open>pcAfter\<close> computed before the switch.\<close>

definition exec_instr ::
  "bool \<Rightarrow> 'k handler \<Rightarrow> Instruction \<Rightarrow> 'k machine_scheme \<Rightarrow> u32 \<Rightarrow> 'k machine_scheme exec result" where
  "exec_instr big H i m pc =
     (let R = registers m; op = opCode i in
      if op = OP_ADD then
        (let sum = R (rs i) + R (rt i) in
         if \<not> (R (rs i) XOR R (rt i)) AND SIGN_BIT \<noteq> 0 \<and> (R (rs i) XOR sum) AND SIGN_BIT \<noteq> 0
         then return_exc H m OverflowException 0
         else finish (set_reg (rd i) sum m) pc)
      else if op = OP_ADDI then
        (let sum = R (rs i) + extra i in
         if \<not> (R (rs i) XOR extra i) AND SIGN_BIT \<noteq> 0 \<and> (extra i XOR sum) AND SIGN_BIT \<noteq> 0
         then return_exc H m OverflowException 0
         else finish (set_reg (rt i) sum m) pc)
      else if op = OP_ADDIU then finish (set_reg (rt i) (R (rs i) + extra i) m) pc
      else if op = OP_ADDU then finish (set_reg (rd i) (R (rs i) + R (rt i)) m) pc
      else if op = OP_AND then finish (set_reg (rd i) (R (rs i) AND R (rt i)) m) pc
      else if op = OP_ANDI then finish (set_reg (rt i) (R (rs i) AND (extra i AND 0xffff)) m) pc
      else if op = OP_BEQ then finish m (if R (rs i) = R (rt i) then branch m i else pc)
      else if op = OP_BGEZAL \<or> op = OP_BGEZ then
        (let m1 = (if op = OP_BGEZAL then set_reg R31 (R NextPCReg + 4) m else m) in
         finish m1 (if \<not> registers m1 (rs i) AND SIGN_BIT \<noteq> 0 then branch m1 i else pc))
      else if op = OP_BGTZ then finish m (if sint (R (rs i)) > 0 then branch m i else pc)
      else if op = OP_BLEZ then finish m (if sint (R (rs i)) \<le> 0 then branch m i else pc)
      else if op = OP_BLTZAL \<or> op = OP_BLTZ then
        (let m1 = (if op = OP_BLTZAL then set_reg R31 (R NextPCReg + 4) m else m) in
         finish m1 (if registers m1 (rs i) AND SIGN_BIT \<noteq> 0 then branch m1 i else pc))
      else if op = OP_BNE then finish m (if R (rs i) \<noteq> R (rt i) then branch m i else pc)
      else exec_jump big H i m pc)"

definition advance :: "u32 \<Rightarrow> 'k machine_scheme \<Rightarrow> 'k machine_scheme" where
  "advance pc m =
     set_reg NextPCReg pc (set_reg PCReg (registers m NextPCReg) (set_reg PrevPCReg (registers m PCReg) m))"

definition OneInstruction :: "bool \<Rightarrow> 'k handler \<Rightarrow> 'k machine_scheme \<Rightarrow> 'k machine_scheme result" where
  "OneInstruction big H m =
     bind_result (ReadMem big H m (registers m PCReg) 4) (\<lambda>(raw, m1).
       case raw of None \<Rightarrow> Inr m1
       | Some v \<Rightarrow>
         let i = Decode v; pc = registers m1 NextPCReg + 4 in
         bind_result (exec_instr big H i m1 pc) (\<lambda>x.
           case x of Return m2 \<Rightarrow> Inr m2
           | Break m2 lr lv pc' \<Rightarrow>
               bind_result (DelayedLoad m2 lr lv) (\<lambda>m3. Inr (advance pc' m3))))"

text \<open>
  \<open>Run\<close> never returns; \<open>Run_for n\<close> is its first \<open>n\<close> iterations, with \<open>interrupt->OneTick\<close> as the
  argument \<open>tick\<close>.
\<close>

primrec Run_for ::
  "nat \<Rightarrow> bool \<Rightarrow> 'k handler \<Rightarrow> ('k machine_scheme \<Rightarrow> 'k machine_scheme result) \<Rightarrow>
   'k machine_scheme \<Rightarrow> 'k machine_scheme result" where
  "Run_for 0 big H tick m = Inr m"
| "Run_for (Suc n) big H tick m =
     bind_result (OneInstruction big H m) (\<lambda>m1.
     bind_result (tick m1) (\<lambda>m2. Run_for n big H tick m2))"

section \<open>Multiplication is exact\<close>

definition dword :: "u32 \<Rightarrow> u32 \<Rightarrow> 64 word" where
  "dword hi lo = ucast hi * 2 ^ 32 + ucast lo"

definition carry :: "u32 \<Rightarrow> u32 \<Rightarrow> int" where
  "carry x y = (if x + y < y then 1 else 0)"

lemma uint_add_carry: "uint (x + y) = uint x + uint y - carry x y * 2 ^ 32"
proof -
  have b: "0 \<le> uint x" "uint x < 2 ^ 32" "0 \<le> uint y" "uint y < 2 ^ 32"
    using uint_lt2p [of x] uint_lt2p [of y] by auto
  show ?thesis
  proof (cases "uint x + uint y < 2 ^ 32")
    case True
    then have "uint (x + y) = uint x + uint y" by (simp add: uint_plus_if')
    with b show ?thesis by (simp add: carry_def word_less_def)
  next
    case False
    then have "uint (x + y) = uint x + uint y - 2 ^ 32" by (simp add: uint_plus_if')
    with b show ?thesis by (simp add: carry_def word_less_def)
  qed
qed

lemma ucast_add_carry:
  "(ucast (x + y :: u32) :: 64 word) = ucast x + ucast y - word_of_int (carry x y) * 2 ^ 32"
proof -
  have "(word_of_int (uint (x + y)) :: 64 word) = word_of_int (uint x + uint y - carry x y * 2 ^ 32)"
    by (simp only: uint_add_carry)
  then show ?thesis
    unfolding ucast_eq wi_hom_syms [symmetric] by simp
qed

lemma shift_64: "(2 ^ 32 * 2 ^ 32 :: 64 word) = 0"
  by simp

lemma ucast_hi: "(ucast (x + y :: u32) :: 64 word) * 2 ^ 32 = (ucast x + ucast y) * 2 ^ 32"
proof -
  have "(word_of_int (carry x y) * 2 ^ 32 * 2 ^ 32 :: 64 word) = 0"
    by (simp only: mult.assoc shift_64 mult_zero_right)
  then show ?thesis by (simp add: ucast_add_carry left_diff_distrib)
qed

lemma dword_add:
  "dword ((if lo + bLo < bLo then hi + 1 else hi) + bHi) (lo + bLo) = dword hi lo + dword bHi bLo"
proof -
  have c: "ucast (if lo + bLo < bLo then hi + 1 else hi) * 2 ^ 32 =
      (ucast hi + word_of_int (carry lo bLo)) * (2 ^ 32 :: 64 word)"
    using ucast_hi [of hi 1] by (simp add: carry_def)
  show ?thesis
    unfolding dword_def ucast_hi distrib_right c ucast_add_carry [of lo bLo] by (simp add: algebra_simps)
qed

lemma and_power: "n < 32 \<Longrightarrow> (w :: u32) AND 2 ^ n \<noteq> 0 \<longleftrightarrow> bit w n"
  by (auto simp: bit_eq_iff [where ?'a = u32] bit_simps)

lemma top_bit: "(w :: u32) AND 0x80000000 \<noteq> 0 \<longleftrightarrow> 2 ^ 31 \<le> uint w"
proof -
  have "w AND 0x80000000 \<noteq> 0 \<longleftrightarrow> bit w 31"
    using and_power [of 31 w] by simp
  also have "\<dots> \<longleftrightarrow> odd (uint w div 2 ^ 31)"
    using bit_uint_iff [of w 31] by (simp add: bit_iff_odd)
  also have "\<dots> \<longleftrightarrow> 2 ^ 31 \<le> uint w"
  proof -
    have "uint w div 2 ^ 31 = (if 2 ^ 31 \<le> uint w then 1 else 0)"
      using uint_lt2p [of w] by (auto simp: div_pos_pos_trivial intro!: int_div_pos_eq [where r = "uint w - 2 ^ 31"])
    then show ?thesis by simp
  qed
  finally show ?thesis by simp
qed

lemma dword_double:
  "dword (push_bit 1 bHi OR (if bLo AND 0x80000000 \<noteq> 0 then 1 else 0)) (push_bit 1 bLo) = 2 * dword bHi bLo"
proof -
  have u: "0 \<le> uint bLo" "uint bLo < 2 ^ 32" using uint_lt2p [of bLo] by auto
  have "uint (bLo + bLo) = (if 2 ^ 31 \<le> uint bLo then 2 * uint bLo - 2 ^ 32 else 2 * uint bLo)"
    unfolding uint_plus_if' by simp
  then have "bLo AND 0x80000000 \<noteq> 0 \<longleftrightarrow> bLo + bLo < bLo"
    unfolding top_bit word_less_def using u by auto
  moreover have "push_bit 1 bHi OR 1 = push_bit 1 bHi + 1"
    by (rule disjunctive_add_eq_or [symmetric]) (simp add: and_one_eq mod_2_eq_odd)
  moreover have p: "push_bit 1 x = x + x" for x :: u32
    by (simp add: push_bit_eq_mult)
  ultimately have "push_bit 1 bHi OR (if bLo AND 0x80000000 \<noteq> 0 then 1 else 0) =
      (if bLo + bLo < bLo then bHi + 1 else bHi) + bHi"
    by (simp add: add.assoc add.commute)
  then show ?thesis
    by (simp only: p dword_add mult_2)
qed

lemma dword_neg:
  "dword (if NOT lo + 1 = 0 then NOT hi + 1 else NOT hi) (NOT lo + 1) = - dword hi lo"
proof -
  have z: "NOT lo + 1 + lo = 0" "NOT hi + 1 + hi = 0" by (simp_all add: not_eq_complement)
  let ?h = "if NOT lo + 1 = 0 then NOT hi + 1 else NOT hi"
  have "(if NOT lo + 1 + lo < lo then ?h + 1 else ?h) + hi = 0"
  proof (cases "lo = 0")
    case True
    then show ?thesis using z by simp
  next
    case False
    then have "NOT lo + 1 \<noteq> 0" "0 < lo" by (simp_all add: not_eq_complement word_neq_0_conv)
    then show ?thesis using z by simp
  qed
  with dword_add [of "NOT lo + 1" lo ?h hi] z have "dword ?h (NOT lo + 1) + dword hi lo = 0"
    by (simp add: dword_def)
  then show ?thesis by (simp add: eq_neg_iff_add_eq_0)
qed


text \<open>The bits of \<open>a\<close> the loop still has to look at, when \<open>n\<close> iterations are left.\<close>

definition low_bits :: "nat \<Rightarrow> u32 \<Rightarrow> 64 word" where
  "low_bits n a = word_of_int (take_bit n (uint a))"

lemma take_bit_shift:
  "n < 32 \<Longrightarrow> take_bit n (uint (signed_drop_bit 1 a)) = take_bit n (uint (a :: u32) div 2)"
  by (rule bit_eqI)
    (auto simp: bit_take_bit_iff bit_uint_iff bit_signed_drop_bit_iff min_def simp flip: bit_Suc)

lemma low_bits_Suc:
  assumes "n < 32"
  shows "low_bits (Suc n) a = (if a AND 1 \<noteq> 0 then 1 else 0) + 2 * low_bits n (signed_drop_bit 1 a)"
proof -
  have "take_bit (Suc n) (uint a) =
      (if a AND 1 \<noteq> 0 then 1 else 0) + 2 * take_bit n (uint (signed_drop_bit 1 a))"
    unfolding take_bit_shift [OF assms] and_1_eq_0 by (simp add: take_bit_Suc mod_2_eq_odd)
  then show ?thesis unfolding low_bits_def by (simp flip: wi_hom_mult wi_hom_add)
qed

lemma low_bits_done:
  assumes "a AND 0xfffffffe = 0" "a AND 1 \<noteq> 0"
  shows "low_bits (Suc n) a = 1"
proof -
  have "(0xfffffffe :: u32) = NOT 1" by simp
  then have "a = (a AND 1) OR (a AND 0xfffffffe)"
    by (metis and.right_neutral bit.conj_disj_distrib bit.disj_cancel_right)
  with assms have "a = 1" by (simp add: and_one_eq mod_2_eq_odd split: if_splits)
  then show ?thesis by (simp add: low_bits_def take_bit_Suc)
qed

lemma mult_loop_dword:
  "n \<le> 32 \<Longrightarrow> (case mult_loop n a bHi bLo hi lo of (h, l) \<Rightarrow> dword h l) =
     dword hi lo + dword bHi bLo * low_bits n a"
proof (induction n a bHi bLo hi lo rule: mult_loop.induct)
  case (1 a bHi bLo hi lo)
  then show ?case by (simp add: low_bits_def)
next
  case (2 n a bHi bLo hi lo)
  have lb: "low_bits (Suc n) a = (if a AND 1 \<noteq> 0 then 1 else 0) + 2 * low_bits n (signed_drop_bit 1 a)"
    using 2(3) by (intro low_bits_Suc) simp
  let ?hi = "(if lo + bLo < bLo then hi + 1 else hi) + bHi"
  show ?case
  proof (cases "a AND 1 \<noteq> 0")
    case True
    note IH = 2(1) [OF True refl refl]
    show ?thesis
    proof (cases "a AND 0xfffffffe = 0")
      case last: True
      then show ?thesis using True low_bits_done [OF last True, of n]
        by (simp only: mult_loop.simps if_P if_True Let_def prod.case dword_add) (simp add: dword_add)
    next
      case False
      have "n \<le> 32" using 2(3) by simp
      note IH' = IH [OF False this]
      have "mult_loop (Suc n) a bHi bLo hi lo = mult_loop n (signed_drop_bit 1 a)
          (push_bit 1 bHi OR (if bLo AND 0x80000000 \<noteq> 0 then 1 else 0)) (push_bit 1 bLo) ?hi (lo + bLo)"
        using True False by (simp only: mult_loop.simps if_P if_False if_True not_False_eq_True Let_def)
      then show ?thesis
        unfolding lb using IH' unfolding dword_double dword_add
        using True by (simp only: if_P) (simp add: algebra_simps)
    qed
  next
    case False
    have "n \<le> 32" using 2(3) by simp
    note IH = 2(2) [OF False this]
    have "mult_loop (Suc n) a bHi bLo hi lo = mult_loop n (signed_drop_bit 1 a)
        (push_bit 1 bHi OR (if bLo AND 0x80000000 \<noteq> 0 then 1 else 0)) (push_bit 1 bLo) hi lo"
      using False by (simp only: mult_loop.simps if_False)
    then show ?thesis
      unfolding lb using IH unfolding dword_double
      using False by (simp only: if_False) (simp add: algebra_simps)
  qed
qed


lemma low_bits_32: "low_bits 32 a = ucast a"
proof -
  have "take_bit 32 (uint a) = uint a"
    using uint_lt2p [of a] by (simp add: take_bit_int_eq_self)
  then show ?thesis by (simp only: low_bits_def ucast_eq)
qed

lemma mult_loop_32: "(case mult_loop 32 a 0 b 0 0 of (h, l) \<Rightarrow> dword h l) = ucast a * ucast b"
  using mult_loop_dword [of 32 a 0 b 0 0]
  by (simp add: low_bits_32 dword_def [of 0] mult.commute split: prod.splits)

lemma sint_cases: "sint a = (if 2 ^ 31 \<le> uint a then uint a - 2 ^ 32 else uint (a :: u32))"
proof -
  have b: "- (2 ^ 31) \<le> sint a" "sint a < 2 ^ 31" using sint_ge [of a] sint_lt [of a] by auto
  have u: "uint a = sint a mod 2 ^ 32" by (simp add: uint_sint take_bit_eq_mod)
  show ?thesis
  proof (cases "sint a < 0")
    case True
    then have "sint a mod 2 ^ 32 = sint a + 2 ^ 32"
      using b mod_pos_pos_trivial [of "sint a + 2 ^ 32" "2 ^ 32"] by simp
    with u b True show ?thesis by simp
  next
    case False
    then show ?thesis using u b by simp
  qed
qed

lemma uint_neg: "a \<noteq> 0 \<Longrightarrow> uint (- a) = 2 ^ 32 - uint (a :: u32)"
proof -
  assume "a \<noteq> 0"
  then have "0 < uint a" by (simp add: word_neq_0_conv word_less_def)
  then have "(- uint a) mod 2 ^ 32 = 2 ^ 32 - uint a"
    using uint_lt2p [of a] mod_add_self2 [of "- uint a" "2 ^ 32"]
      mod_pos_pos_trivial [of "2 ^ 32 - uint a" "2 ^ 32"] by simp
  then show ?thesis by (simp add: uint_word_ariths)
qed

lemma scast_abs:
  "(scast a :: 64 word) = (if sint a < 0 then - ucast (- a) else ucast (a :: u32))"
proof (cases "sint a < 0")
  case True
  then have "a \<noteq> 0" by auto
  with True have u: "uint (- a) = - sint a"
    using uint_lt2p [of a] by (auto simp: uint_neg sint_cases split: if_splits)
  show ?thesis
    by (simp only: True if_True ucast_eq scast_eq u wi_hom_neg minus_minus)
next
  case False
  then have u: "sint a = uint a"
    using uint_lt2p [of a] by (auto simp: sint_cases split: if_splits)
  from False show ?thesis by (simp only: if_False ucast_eq scast_eq u)
qed

lemma Mult_dword:
  "(case Mult a b s of (h, l) \<Rightarrow> dword h l) =
     (if s then scast a * scast b else ucast a * ucast b)"
proof (cases "a = 0 \<or> b = 0")
  case True
  then show ?thesis by (auto simp: Mult_def dword_def)
next
  case False
  then show ?thesis
    using mult_loop_32 [of "if s \<and> sint a < 0 then - a else a" "if s \<and> sint b < 0 then - b else b"]
    by (auto simp: Mult_def Let_def dword_neg scast_abs split: prod.splits)
qed

lemma uint_dword: "uint (dword hi lo) = uint hi * 2 ^ 32 + uint lo"
proof -
  have b: "uint hi < 2 ^ 32" "uint lo < 2 ^ 32" using uint_lt2p [of hi] uint_lt2p [of lo] by auto
  then have "(uint hi * 2 ^ 32 + uint lo) mod 2 ^ 64 = uint hi * 2 ^ 32 + uint lo"
    by (intro mod_pos_pos_trivial) auto
  then show ?thesis
    by (simp add: dword_def uint_word_ariths unsigned_ucast_eq take_bit_eq_mod mod_simps)
qed

lemma uint_ucast_mult: "uint (ucast a * ucast b :: 64 word) = uint (a :: u32) * uint (b :: u32)"
proof -
  have "uint a * uint b < 2 ^ 32 * 2 ^ 32"
    using uint_lt2p [of a] uint_lt2p [of b] by (intro mult_strict_mono) auto
  then have "(uint a * uint b) mod 2 ^ 64 = uint a * uint b"
    by (intro mod_pos_pos_trivial) auto
  then show ?thesis by (simp add: uint_word_ariths unsigned_ucast_eq take_bit_eq_mod mod_simps)
qed

lemma sint_scast_mult: "sint (scast a * scast b :: 64 word) = sint (a :: u32) * sint (b :: u32)"
proof -
  have "\<bar>sint a\<bar> \<le> 2 ^ 31" "\<bar>sint b\<bar> \<le> 2 ^ 31"
    using sint_ge [of a] sint_lt [of a] sint_ge [of b] sint_lt [of b] by auto
  then have "\<bar>sint a * sint b\<bar> \<le> 2 ^ 31 * 2 ^ 31"
    unfolding abs_mult by (intro mult_mono) auto
  then have *: "signed_take_bit 63 (sint a * sint b) = sint a * sint b"
    by (intro signed_take_bit_int_eq_self) auto
  have "(scast a * scast b :: 64 word) = word_of_int (sint a * sint b)"
    by (simp only: scast_eq wi_hom_mult)
  with * show ?thesis by (simp only: sint_sbintrunc') simp
qed


section \<open>Decoding\<close>

text \<open>The opcodes each group of cases and the groups after it handle.\<close>

definition ops_rest :: "nat set" where
  "ops_rest = {OP_SYSCALL, OP_XOR, OP_XORI, OP_RES, OP_UNIMP}"

definition ops_sub :: "nat set" where
  "ops_sub = {OP_SUB, OP_SUBU, OP_SW, OP_SWL, OP_SWR} \<union> ops_rest"

definition ops_shift :: "nat set" where
  "ops_shift = {OP_SB, OP_SH, OP_SLL, OP_SLLV, OP_SLT, OP_SLTI, OP_SLTIU, OP_SLTU, OP_SRA, OP_SRAV, 
       OP_SRL, OP_SRLV} \<union> ops_sub"

definition ops_mult :: "nat set" where
  "ops_mult = {OP_MFHI, OP_MFLO, OP_MTHI, OP_MTLO, OP_MULT, OP_MULTU, OP_NOR, OP_OR, OP_ORI} \<union> ops_shift"

definition ops_load :: "nat set" where
  "ops_load = {OP_LB, OP_LBU, OP_LH, OP_LHU, OP_LUI, OP_LW, OP_LWL, OP_LWR} \<union> ops_mult"

definition ops_jump :: "nat set" where
  "ops_jump = {OP_DIV, OP_DIVU, OP_JAL, OP_J, OP_JALR, OP_JR} \<union> ops_load"

definition ops_instr :: "nat set" where
  "ops_instr = {OP_ADD, OP_ADDI, OP_ADDIU, OP_ADDU, OP_AND, OP_ANDI, OP_BEQ, OP_BGEZAL, OP_BGEZ, 
       OP_BGTZ, OP_BLEZ, OP_BLTZAL, OP_BLTZ, OP_BNE} \<union> ops_jump"

lemma field_less: "unat (w AND 0x1f :: u32) < 32"
  using word_and_le1 [of w "0x1f"] by (simp add: word_le_nat_alt)

lemma op_field_less: "unat (w AND 0x3f :: u32) < 64"
  using word_and_le1 [of w "0x3f"] by (simp add: word_le_nat_alt)

lemma Decode_fields: "rs (Decode v) < 32" "rt (Decode v) < 32" "rd (Decode v) < 32"
  by (simp_all add: Decode_def field_less Let_def split: prod.split)

lemmas ops_defs = ops_instr_def ops_jump_def ops_load_def ops_mult_def ops_shift_def ops_sub_def
  ops_rest_def

lemma opTable_ops: "\<forall>x\<in>set opTable. fst x \<in> ops_instr \<union> {SPECIAL, BCOND}"
  by (simp add: opTable_def ops_defs)

lemma specialTable_ops: "\<forall>x\<in>set specialTable. x \<in> ops_instr"
  by (simp add: specialTable_def ops_defs)

lemma Decode_ops: "opCode (Decode v) \<in> ops_instr"
proof -
  have "length opTable = 64" "length specialTable = 64"
    by (simp_all add: opTable_def specialTable_def)
  then have o: "fst (opTable ! unat (drop_bit 26 v AND 0x3f)) \<in> ops_instr \<union> {SPECIAL, BCOND}"
    "specialTable ! unat (v AND 0x3f) \<in> ops_instr"
    using op_field_less opTable_ops specialTable_ops by (auto intro: nth_mem)
  have "OP_BLTZ \<in> ops_instr" "OP_BGEZ \<in> ops_instr" "OP_BLTZAL \<in> ops_instr"
    "OP_BGEZAL \<in> ops_instr" "OP_UNIMP \<in> ops_instr"
    by (simp_all add: ops_defs)
  with o show ?thesis
    by (auto simp: Decode_def Let_def split: prod.splits)
qed

section \<open>What one instruction can do\<close>

text \<open>
  The user instructions that bring the simulator itself down: the unaligned word accesses the
  code does not implement and the one division with no result.
\<close>

definition crashes :: "Instruction \<Rightarrow> 'k machine_scheme \<Rightarrow> bool" where
  "crashes i m \<longleftrightarrow>
     opCode i \<in> {OP_LWL, OP_LWR, OP_SWL, OP_SWR} \<and> (registers m (rs i) + extra i) AND 3 \<noteq> 0 \<or>
     opCode i = OP_DIV \<and> registers m (rs i) = SIGN_BIT \<and> registers m (rt i) = - 1"

text \<open>The instruction that the fetch delivers, if it delivers one.\<close>

definition fetch_crashes :: "bool \<Rightarrow> 'k handler \<Rightarrow> 'k machine_scheme \<Rightarrow> bool" where
  "fetch_crashes big H m \<longleftrightarrow>
     (\<exists>v m1. ReadMem big H m (registers m PCReg) 4 = Inr (Some v, m1) \<and> crashes (Decode v) m1)"

text \<open>
  \<open>cpu_closed\<close>: a property \<open>I\<close> of machines that holds throughout an instruction and a property \<open>Q\<close>
  of what \<open>OneInstruction\<close> returns. \<open>I\<close> must be kept by what the cases of the switch do to
  the machine; \<open>Q\<close> must be what a trap and the end of an instruction establish. A trap may also
  end in the kernel (a handler that stops the machine), so \<open>Q\<close> is asked of the result, not of a machine.
\<close>

locale cpu_closed =
  fixes big :: bool
    and H :: "'k handler"
    and I :: "'k machine_scheme \<Rightarrow> bool"
    and Q :: "'k machine_scheme result \<Rightarrow> bool"
  assumes I_wf: "I m \<Longrightarrow> wf_machine m"
    and I_set_reg: "I m \<Longrightarrow> r \<noteq> LoadReg \<Longrightarrow> I (set_reg r v m)"
    and I_read: "I m \<Longrightarrow> sz \<in> sizes \<Longrightarrow> translation m a sz False = Inr p \<Longrightarrow> marked False a m m1 \<Longrightarrow>
      I (touch p m1)"
    and I_write: "I m \<Longrightarrow> sz \<in> sizes \<Longrightarrow> translation m a sz True = Inr p \<Longrightarrow> marked True a m m1 \<Longrightarrow>
      I (touch p (m1\<lparr>mainMemory := write_value (mainMemory m) (nat p) sz v\<rparr>))"
    and Q_raise: "I m \<Longrightarrow> Q (RaiseException H m e a)"
    and Q_next: "I m \<Longrightarrow> lr < 32 \<Longrightarrow> \<exists>m'. DelayedLoad m lr lv = Inr m' \<and> Q (Inr (advance pc m'))"
begin

definition ok :: "'k machine_scheme exec result \<Rightarrow> bool" where
  "ok r \<longleftrightarrow> (\<exists>x. r = bind_result x (\<lambda>m'. Inr (Return m')) \<and> Q x) \<or>
     (\<exists>m' lr lv pc. r = Inr (Break m' lr lv pc) \<and> I m' \<and> lr < 32)"

lemma ok_finish: "I m \<Longrightarrow> ok (finish m pc)"
  by (simp add: ok_def finish_def)

lemma ok_break: "I m \<Longrightarrow> n < 32 \<Longrightarrow> ok (Inr (Break m (word_of_nat n) lv pc))"
  by (simp add: ok_def word_less_nat_alt unat_of_nat)

lemma ok_raise: "I m \<Longrightarrow> ok (bind_result (RaiseException H m e a) (\<lambda>m'. Inr (Return m')))"
  using Q_raise [of m e a] by (auto simp: ok_def)

lemma ok_exc: "I m \<Longrightarrow> ok (return_exc H m e a)"
  by (simp add: ok_raise return_exc_def)

lemma ok_read:
  assumes "I m" "sz \<in> sizes"
    and "\<And>v m1. I m1 \<Longrightarrow> registers m1 = registers m \<Longrightarrow> ok (f v m1)"
  shows "ok (bind_result (ReadMem big H m a sz)
           (\<lambda>(r, m1). case r of None \<Rightarrow> Inr (Return m1) | Some v \<Rightarrow> f v m1))"
proof (cases "translation m a sz False")
  case (Inl e)
  with ReadMem_cases [OF I_wf [OF assms(1)] assms(2), of big H a] ok_raise [OF assms(1), of e a]
  show ?thesis by (simp add: bind_result_assoc)
next
  case (Inr p)
  with ReadMem_cases [OF I_wf [OF assms(1)] assms(2), of big H a] obtain m1 where
    m1: "marked False a m m1"
      "ReadMem big H m a sz = Inr (Some (read_value (mainMemory m) (nat p) sz), touch p m1)" by auto
  with I_read [OF assms(1,2) Inr m1(1)] assms(3) marked_frame [OF m1(1)] show ?thesis by simp
qed

lemma ok_write:
  assumes "I m" "sz \<in> sizes"
  shows "ok (bind_result (WriteMem big H m a sz v)
           (\<lambda>(b, m'). if \<not> b then Inr (Return m') else finish m' pc))"
proof (cases "translation m a sz True")
  case (Inl e)
  with WriteMem_cases [OF I_wf [OF assms(1)] assms(2), of big H a v] ok_raise [OF assms(1), of e a]
  show ?thesis by (simp add: bind_result_assoc)
next
  case (Inr p)
  with WriteMem_cases [OF I_wf [OF assms(1)] assms(2), of big H a v] obtain m1 where
    m1: "marked True a m m1"
      "WriteMem big H m a sz v =
         Inr (True, touch p (m1\<lparr>mainMemory := write_value (mainMemory m) (nat p) sz v\<rparr>))" by auto
  with I_write [OF assms(1,2) Inr m1(1)] show ?thesis by (simp add: ok_finish)
qed

lemma ok_assert: "b \<Longrightarrow> ok (f ()) \<Longrightarrow> ok (bind_result (ASSERT b) f)"
  by simp

lemma ok_if: "(c \<Longrightarrow> ok x) \<Longrightarrow> (\<not> c \<Longrightarrow> ok y) \<Longrightarrow> ok (if c then x else y)"
  by simp

lemma I_if: "(c \<Longrightarrow> I x) \<Longrightarrow> (\<not> c \<Longrightarrow> I y) \<Longrightarrow> I (if c then x else y)"
  by simp

lemma ok_prod: "(\<And>x y. ok (f x y)) \<Longrightarrow> ok (case p of (x, y) \<Rightarrow> f x y)"
  by (cases p) simp

lemma ok_div:
  assumes "I m" "r < 32" "t < 32" "\<not> (registers m r = SIGN_BIT \<and> registers m t = - 1)"
  shows "ok (bind_result (int_div (registers m r) (registers m t)) (\<lambda>q.
    bind_result (int_mod (registers (set_reg LoReg q m) r) (registers (set_reg LoReg q m) t)) (\<lambda>u.
    finish (set_reg HiReg u (set_reg LoReg q m)) pc)))"
proof -
  have "registers (set_reg LoReg q m) r = registers m r" "registers (set_reg LoReg q m) t = registers m t"
    for q using assms(2,3) by (auto simp: set_reg_def LoReg_def)
  moreover have "I (set_reg HiReg u (set_reg LoReg q m))" for u q
    by (intro I_set_reg assms) (simp_all add: reg_numbers)
  ultimately show ?thesis
    by (simp add: int_div_def int_mod_def if_not_P [OF assms(4)] ok_finish)
qed

lemmas ok_intros = ok_prod ok_div ok_if I_if ok_finish ok_break ok_exc ok_read ok_write ok_assert I_set_reg

lemma sizes_mem: "1 \<in> sizes" "2 \<in> sizes" "4 \<in> sizes"
  by (simp_all add: sizes_def)

lemma reg_less: "r < 32 \<Longrightarrow> r \<noteq> LoadReg" "HiReg \<noteq> LoadReg" "LoReg \<noteq> LoadReg" "R31 \<noteq> LoadReg"
  by (auto simp: reg_numbers R31_def)

lemma ok_rest:
  assumes "I m" "rs i < 32" "rt i < 32" "rd i < 32" "\<not> crashes i m" "opCode i \<in> ops_rest"
  shows "ok (exec_rest big H i m pc)"
  unfolding exec_rest_def Let_def
  by (intro ok_intros)
    (use assms in \<open>auto simp: ops_rest_def crashes_def reg_less sizes_mem\<close>)

lemma ok_sub:
  assumes "I m" "rs i < 32" "rt i < 32" "rd i < 32" "\<not> crashes i m" "opCode i \<in> ops_sub"
  shows "ok (exec_sub big H i m pc)"
  unfolding exec_sub_def Let_def
  by (intro ok_intros ok_rest)
    (use assms in \<open>auto simp: ops_sub_def crashes_def reg_less sizes_mem\<close>)

lemma ok_shift:
  assumes "I m" "rs i < 32" "rt i < 32" "rd i < 32" "\<not> crashes i m" "opCode i \<in> ops_shift"
  shows "ok (exec_shift big H i m pc)"
  unfolding exec_shift_def Let_def
  by (intro ok_intros ok_sub)
    (use assms in \<open>auto simp: ops_shift_def crashes_def reg_less sizes_mem\<close>)

lemma ok_mult:
  assumes "I m" "rs i < 32" "rt i < 32" "rd i < 32" "\<not> crashes i m" "opCode i \<in> ops_mult"
  shows "ok (exec_mult big H i m pc)"
  unfolding exec_mult_def Let_def
  by (intro ok_intros ok_shift)
    (use assms in \<open>auto simp: ops_mult_def crashes_def reg_less sizes_mem\<close>)

lemma ok_load:
  assumes "I m" "rs i < 32" "rt i < 32" "rd i < 32" "\<not> crashes i m" "opCode i \<in> ops_load"
  shows "ok (exec_load big H i m pc)"
  unfolding exec_load_def Let_def
  by (intro ok_intros ok_mult)
    (use assms in \<open>auto simp: ops_load_def crashes_def reg_less sizes_mem\<close>)

lemma ok_jump:
  assumes "I m" "rs i < 32" "rt i < 32" "rd i < 32" "\<not> crashes i m" "opCode i \<in> ops_jump"
  shows "ok (exec_jump big H i m pc)"
  unfolding exec_jump_def Let_def
  by (intro ok_intros ok_load)
    (use assms in \<open>auto simp: ops_jump_def crashes_def reg_less sizes_mem\<close>)

lemma ok_instr:
  assumes "I m" "rs i < 32" "rt i < 32" "rd i < 32" "\<not> crashes i m" "opCode i \<in> ops_instr"
  shows "ok (exec_instr big H i m pc)"
  unfolding exec_instr_def Let_def
  by (intro ok_intros ok_jump)
    (use assms in \<open>auto simp: ops_instr_def crashes_def reg_less sizes_mem\<close>)

lemma OneInstruction_ok:
  assumes "I m" "\<not> fetch_crashes big H m"
  shows "Q (OneInstruction big H m)"
proof (cases "translation m (registers m PCReg) 4 False")
  case (Inl e)
  with ReadMem_cases [OF I_wf [OF assms(1)] sizes_mem(3), of big H "registers m PCReg"]
    Q_raise [OF assms(1), of e "registers m PCReg"]
  show ?thesis by (simp add: OneInstruction_def bind_result_assoc bind_result_return)
next
  case (Inr p)
  with ReadMem_cases [OF I_wf [OF assms(1)] sizes_mem(3), of big H "registers m PCReg"] obtain m1 v where
    rd: "ReadMem big H m (registers m PCReg) 4 = Inr (Some v, touch p m1)"
    and mk: "marked False (registers m PCReg) m m1" by auto
  with assms(2) have nc: "\<not> crashes (Decode v) (touch p m1)" by (auto simp: fetch_crashes_def)
  have "I (touch p m1)" using I_read [OF assms(1) sizes_mem(3) Inr mk] .
  from ok_instr [OF this Decode_fields nc Decode_ops, of "registers m1 NextPCReg + 4"]
  consider x where "exec_instr big H (Decode v) (touch p m1) (registers m1 NextPCReg + 4) =
        bind_result x (\<lambda>m'. Inr (Return m'))" "Q x"
    | m' lr lv pc where "exec_instr big H (Decode v) (touch p m1) (registers m1 NextPCReg + 4) =
        Inr (Break m' lr lv pc)" "I m'" "lr < 32"
    unfolding ok_def by blast
  then show ?thesis
  proof cases
    case 1
    with rd show ?thesis by (simp add: OneInstruction_def bind_result_assoc bind_result_return)
  next
    case 2
    with Q_next [OF 2(2,3), of lv pc] rd show ?thesis by (auto simp: OneInstruction_def)
  qed
qed

end

section \<open>The machine invariant and isolation, as two instances\<close>

definition pre_inv :: "'k machine_scheme \<Rightarrow> bool" where
  "pre_inv m \<longleftrightarrow> wf_machine m \<and> registers m LoadReg < 32"

definition cpu_inv :: "'k machine_scheme \<Rightarrow> bool" where
  "cpu_inv m \<longleftrightarrow> wf_machine m \<and> registers m LoadReg < 32 \<and> registers m 0 = 0"

text \<open>What is asked of the kernel: its handler returns, and gives back a sane machine.\<close>

definition good_handler :: "'k handler \<Rightarrow> bool" where
  "good_handler H \<longleftrightarrow> (\<forall>e m. cpu_inv m \<longrightarrow> (\<exists>m'. H e m = Inr m' \<and> cpu_inv m'))"

lemma set_reg_frame [simp]:
  "wf_machine (set_reg r v m) = wf_machine m" "lookup (set_reg r v m) = lookup m"
  "mainMemory (set_reg r v m) = mainMemory m"
  by (auto simp: set_reg_def wf_machine_def lookup_def fun_eq_iff split: option.splits)

lemma mode_frame [simp]:
  "wf_machine (m\<lparr>mode := x\<rparr>) = wf_machine m" "lookup (m\<lparr>mode := x\<rparr>) = lookup m"
  by (auto simp: wf_machine_def lookup_def fun_eq_iff split: option.splits)

lemma registers_set_reg [simp]: "registers (set_reg r v m) = (registers m)(r := v)"
  by (simp add: set_reg_def)

lemma small_sint: "(w :: u32) < 32 \<Longrightarrow> 0 \<le> sint w \<and> sint w < 32"
  using uint_lt2p [of w] by (simp add: sint_cases word_less_def)

lemma DelayedLoad_ok:
  assumes "pre_inv m" "lr < 32"
  shows "\<exists>m'. DelayedLoad m lr lv = Inr m' \<and> cpu_inv m' \<and> lookup m' = lookup m \<and>
     mainMemory m' = mainMemory m"
  using assms small_sint [of "registers m LoadReg"]
  by (auto simp: DelayedLoad_def pre_inv_def cpu_inv_def Let_def reg_numbers)

lemma advance_frame [simp]:
  "cpu_inv (advance pc m) = cpu_inv m" "lookup (advance pc m) = lookup m"
  "mainMemory (advance pc m) = mainMemory m"
  by (auto simp: advance_def cpu_inv_def reg_numbers)

text \<open>
  A trap: the handler runs on a machine whose memory and translations are those at the trap.
\<close>

lemma RaiseException_ok:
  assumes "good_handler H" "pre_inv m"
  shows "\<exists>m1 m2. RaiseException H m e a = Inr (m2\<lparr>mode := UserMode\<rparr>) \<and> H e m1 = Inr m2 \<and>
     cpu_inv m1 \<and> cpu_inv m2 \<and> lookup m1 = lookup m \<and> mainMemory m1 = mainMemory m"
proof -
  have "pre_inv (set_reg BadVAddrReg a m)"
    using assms(2) by (auto simp: pre_inv_def reg_numbers)
  from DelayedLoad_ok [OF this, of 0 0] obtain m1 where
    m1: "DelayedLoad (set_reg BadVAddrReg a m) 0 0 = Inr m1" "cpu_inv m1" "lookup m1 = lookup m"
      "mainMemory m1 = mainMemory m" by auto
  then have "cpu_inv (m1\<lparr>mode := SystemMode\<rparr>)" by (simp add: cpu_inv_def)
  with assms(1) obtain m2 where "H e (m1\<lparr>mode := SystemMode\<rparr>) = Inr m2" "cpu_inv m2"
    unfolding good_handler_def by blast
  with m1 \<open>cpu_inv (m1\<lparr>mode := SystemMode\<rparr>)\<close> show ?thesis
    by (intro exI [of _ "m1\<lparr>mode := SystemMode\<rparr>"] exI [of _ m2]) (simp add: RaiseException_def)
qed

lemma pre_inv_frame [simp]:
  "pre_inv (touch p m) = pre_inv m" "pre_inv (m\<lparr>mainMemory := mem\<rparr>) = pre_inv m"
  by (auto simp: pre_inv_def)

lemma pre_inv_wf: "pre_inv m \<Longrightarrow> wf_machine m"
  by (simp add: pre_inv_def)

lemma pre_inv_marked: "pre_inv m \<Longrightarrow> marked w a m m1 \<Longrightarrow> pre_inv m1"
  by (auto simp: pre_inv_def marked_frame)

lemma pre_inv_set_reg: "pre_inv m \<Longrightarrow> r \<noteq> LoadReg \<Longrightarrow> pre_inv (set_reg r v m)"
  by (auto simp: pre_inv_def)

interpretation safe: cpu_closed big H "\<lambda>m. good_handler H \<and> pre_inv m" "\<lambda>r. \<exists>m'. r = Inr m' \<and> cpu_inv m'"
  for big and H :: "'k handler"
proof unfold_locales
  fix m :: "'k machine_scheme" and e a
  assume "good_handler H \<and> pre_inv m"
  then show "\<exists>m'. RaiseException H m e a = Inr m' \<and> cpu_inv m'"
    using RaiseException_ok [of H m e a] by (auto simp: cpu_inv_def)
next
  fix m :: "'k machine_scheme" and lr lv pc :: u32
  assume "good_handler H \<and> pre_inv m" "lr < 32"
  then show "\<exists>m'. DelayedLoad m lr lv = Inr m' \<and> (\<exists>m2. Inr (advance pc m') = (Inr m2 :: _ result) \<and> cpu_inv m2)"
    using DelayedLoad_ok [of m lr lv] by auto
qed (auto simp: pre_inv_set_reg dest: pre_inv_marked pre_inv_wf)

text \<open>
  \<open>confined m0 m\<close>: memory differs from that of \<open>m0\<close> only in frames that \<open>m0\<close> maps writable.
\<close>

definition frame_of :: "TranslationEntry \<Rightarrow> nat set" where
  "frame_of e = {q. physicalPage e mod 2 ^ 32 * PageSize \<le> int q \<and>
     int q < (physicalPage e mod 2 ^ 32 + 1) * PageSize}"

definition confined :: "'k machine_scheme \<Rightarrow> (nat \<Rightarrow> u8) \<Rightarrow> bool" where
  "confined m0 mem \<longleftrightarrow> (\<forall>q. mem q \<noteq> mainMemory m0 q \<longrightarrow>
     (\<exists>v e. lookup m0 v = Some e \<and> \<not> readOnly e \<and> q \<in> frame_of e))"

definition same_maps :: "'k machine_scheme \<Rightarrow> 'k machine_scheme \<Rightarrow> bool" where
  "same_maps m0 m \<longleftrightarrow>
     (\<forall>v. map_option (mark_entry True) (lookup m v) = map_option (mark_entry True) (lookup m0 v))"

definition user_effect :: "'k machine_scheme \<Rightarrow> 'k machine_scheme \<Rightarrow> bool" where
  "user_effect m0 m \<longleftrightarrow> cpu_inv m \<and> same_maps m0 m \<and> confined m0 (mainMemory m)"

text \<open>The result of an instruction: it returns, or it returns what the handler makes of the machine.\<close>

definition trap_or_quiet :: "'k handler \<Rightarrow> 'k machine_scheme \<Rightarrow> 'k machine_scheme result \<Rightarrow> bool" where
  "trap_or_quiet H m0 r \<longleftrightarrow> (\<exists>m1. user_effect m0 m1 \<and>
     (r = Inr m1 \<or> mode m1 = SystemMode \<and> (\<exists>e. r = bind_result (H e m1) (\<lambda>m2. Inr (m2\<lparr>mode := UserMode\<rparr>)))))"

lemma same_maps_frame [simp]:
  "same_maps m0 (set_reg r v m) = same_maps m0 m" "same_maps m0 (touch p m) = same_maps m0 m"
  "same_maps m0 (m\<lparr>mainMemory := mem\<rparr>) = same_maps m0 m"
  by (simp_all add: same_maps_def)

lemma same_maps_marked: "same_maps m0 m \<Longrightarrow> marked w a m m1 \<Longrightarrow> same_maps m0 m1"
  by (auto simp: same_maps_def marked_def option.map_comp comp_def)

lemma confined_write:
  assumes "confined m0 (mainMemory m)" "same_maps m0 m" "sz \<in> sizes" "translation m a sz True = Inr p"
  shows "confined m0 (write_value (mainMemory m) (nat p) sz v)"
proof -
  from translation_Inr [OF assms(4)] obtain e where
    e: "lookup m (uint a div PageSize) = Some e" "\<not> readOnly e"
      "p = physicalPage e mod 2 ^ 32 * PageSize + uint a mod PageSize" by auto
  with assms(2) obtain e0 where e0: "lookup m0 (uint a div PageSize) = Some e0"
    "mark_entry True e = mark_entry True e0"
    by (cases "lookup m0 (uint a div PageSize)")
      (auto simp: same_maps_def dest!: spec [of _ "uint a div PageSize"])
  then have "\<not> readOnly e0" "physicalPage e0 = physicalPage e"
    using e(2) mark_entry_eqD [OF e0(2)] by auto
  moreover have "aligned a sz" using assms(4) by (auto simp: translation_def split: if_splits)
  have "q \<in> frame_of e" if "write_value (mainMemory m) (nat p) sz v q \<noteq> mainMemory m q" for q
  proof -
    have "p \<le> int q \<and> int q < p + sz"
      using that assms(3) e(3) by (auto simp: write_value_def sizes_def PageSize_def split: if_splits)
    then show ?thesis
      using aligned_in_page [OF assms(3) \<open>aligned a sz\<close>] e(3)
      by (auto simp: frame_of_def PageSize_def distrib_right)
  qed
  ultimately show ?thesis
    using assms(1) e0(1) by (auto simp: confined_def frame_of_def) metis
qed

lemma RaiseException_trap:
  assumes "pre_inv m" "same_maps m0 m" "confined m0 (mainMemory m)"
  shows "trap_or_quiet H m0 (RaiseException H m e a)"
proof -
  have "pre_inv (set_reg BadVAddrReg a m)"
    using assms(1) by (auto simp: pre_inv_def reg_numbers)
  from DelayedLoad_ok [OF this, of 0 0] obtain m1 where
    m1: "DelayedLoad (set_reg BadVAddrReg a m) 0 0 = Inr m1" "cpu_inv m1" "lookup m1 = lookup m"
      "mainMemory m1 = mainMemory m" by auto
  then have "user_effect m0 (m1\<lparr>mode := SystemMode\<rparr>)"
    using assms(2,3) by (simp add: user_effect_def cpu_inv_def same_maps_def)
  then show ?thesis
    using m1(1) unfolding trap_or_quiet_def
    by (intro exI [of _ "m1\<lparr>mode := SystemMode\<rparr>"]) (auto simp: RaiseException_def)
qed

interpretation isolated: cpu_closed big H
    "\<lambda>m. pre_inv m \<and> same_maps m0 m \<and> confined m0 (mainMemory m)"
    "trap_or_quiet H m0"
  for big and H :: "'k handler" and m0
proof unfold_locales
  fix m :: "'k machine_scheme" and e a
  assume "pre_inv m \<and> same_maps m0 m \<and> confined m0 (mainMemory m)"
  then show "trap_or_quiet H m0 (RaiseException H m e a)"
    using RaiseException_trap by blast
next
  fix m :: "'k machine_scheme" and lr lv pc :: u32
  assume "pre_inv m \<and> same_maps m0 m \<and> confined m0 (mainMemory m)" "lr < 32"
  then show "\<exists>m'. DelayedLoad m lr lv = Inr m' \<and> trap_or_quiet H m0 (Inr (advance pc m'))"
    using DelayedLoad_ok [of m lr lv] unfolding trap_or_quiet_def user_effect_def same_maps_def
    by (metis advance_frame)
qed (auto simp: pre_inv_set_reg confined_write marked_frame
    dest: pre_inv_marked same_maps_marked pre_inv_wf)

lemma OneInstruction_confined:
  assumes "cpu_inv m" "\<not> fetch_crashes big H m"
  shows "trap_or_quiet H m (OneInstruction big H m)"
proof -
  have "confined m (mainMemory m)" "same_maps m m" by (simp_all add: confined_def same_maps_def)
  then show ?thesis
    using isolated.OneInstruction_ok [of m m big H] assms by (auto simp: pre_inv_def cpu_inv_def)
qed

section \<open>Signed overflow, and the crashing instructions\<close>

lemma sign_bit: "w AND SIGN_BIT \<noteq> 0 \<longleftrightarrow> sint w < 0"
proof -
  have "sint w < 0 \<longleftrightarrow> 2 ^ 31 \<le> uint w"
    using uint_lt2p [of w] by (auto simp: sint_cases)
  then show ?thesis by (simp add: SIGN_BIT_def top_bit)
qed

lemma bit_31: "bit w 31 \<longleftrightarrow> sint (w :: u32) < 0"
  using sign_bit [of w] and_power [of 31 w] by (simp add: SIGN_BIT_def)

lemma sign_bit_xor: "(a XOR b) AND SIGN_BIT \<noteq> 0 \<longleftrightarrow> (sint a < 0) \<noteq> (sint b < 0)"
  unfolding sign_bit unfolding bit_31 [symmetric] by (simp add: bit_xor_iff)

lemma sint_32: "- (2 ^ 31) \<le> sint (a :: u32)" "sint a < 2 ^ 31"
  using sint_ge [of a] sint_lt [of a] by auto

lemma sint_wrap:
  assumes "- (2 ^ 32) \<le> k" "k < 2 ^ 32"
  shows "sint (word_of_int k :: u32) =
    (if k < - (2 ^ 31) then k + 2 ^ 32 else if 2 ^ 31 \<le> k then k - 2 ^ 32 else k)"
proof -
  have e: "(word_of_int (k + 2 ^ 32) :: u32) = word_of_int k" "(word_of_int (k - 2 ^ 32) :: u32) = word_of_int k"
    by (simp_all add: word_of_int_eq_iff take_bit_eq_mod)
  have "sint (word_of_int (k + 2 ^ 32) :: u32) = k + 2 ^ 32" if "k < - (2 ^ 31)"
    unfolding sint_of_int using assms that by simp
  moreover have "sint (word_of_int (k - 2 ^ 32) :: u32) = k - 2 ^ 32" if "2 ^ 31 \<le> k"
    unfolding sint_of_int using assms that by simp
  moreover have "sint (word_of_int k :: u32) = k" if "- (2 ^ 31) \<le> k" "k < 2 ^ 31"
    unfolding sint_of_int using that by simp
  ultimately show ?thesis unfolding e by (simp add: not_le not_less)
qed

lemma add_word_of_int: "a + b = word_of_int (sint a + sint (b :: u32))"
  by (simp add: wi_hom_add [symmetric])

lemma sub_word_of_int: "a - b = word_of_int (sint a - sint (b :: u32))"
  by (simp add: wi_hom_sub [symmetric])

lemma add_overflow:
  "(\<not> (a XOR b) AND SIGN_BIT \<noteq> 0 \<and> (a XOR (a + b)) AND SIGN_BIT \<noteq> 0) \<longleftrightarrow>
   \<not> (- (2 ^ 31) \<le> sint a + sint b \<and> sint a + sint b < 2 ^ 31)"
  "(\<not> (a XOR b) AND SIGN_BIT \<noteq> 0 \<and> (b XOR (a + b)) AND SIGN_BIT \<noteq> 0) \<longleftrightarrow>
   \<not> (- (2 ^ 31) \<le> sint a + sint b \<and> sint a + sint b < 2 ^ 31)"
  unfolding sign_bit_xor add_word_of_int [of a b]
  using sint_32 [of a] sint_32 [of b] sint_wrap [of "sint a + sint b"] by auto

lemma sub_overflow:
  "((a XOR b) AND SIGN_BIT \<noteq> 0 \<and> (a XOR (a - b)) AND SIGN_BIT \<noteq> 0) \<longleftrightarrow>
   \<not> (- (2 ^ 31) \<le> sint a - sint b \<and> sint a - sint b < 2 ^ 31)"
  unfolding sign_bit_xor sub_word_of_int [of a b]
  using sint_32 [of a] sint_32 [of b] sint_wrap [of "sint a - sint b"] by auto

lemma crashes_crash:
  assumes "crashes i m"
  shows "\<exists>c. exec_instr big H i m pc = Inl c"
proof -
  consider "opCode i = OP_LWL" "(registers m (rs i) + extra i) AND 3 \<noteq> 0"
    | "opCode i = OP_LWR" "(registers m (rs i) + extra i) AND 3 \<noteq> 0"
    | "opCode i = OP_SWL" "(registers m (rs i) + extra i) AND 3 \<noteq> 0"
    | "opCode i = OP_SWR" "(registers m (rs i) + extra i) AND 3 \<noteq> 0"
    | "opCode i = OP_DIV" "registers m (rs i) = SIGN_BIT" "registers m (rt i) = - 1"
    using assms by (auto simp: crashes_def)
  then show ?thesis
    by cases (simp_all add: exec_instr_def exec_jump_def exec_load_def exec_mult_def
        exec_shift_def exec_sub_def Let_def opcodes int_div_def)
qed

lemma OneInstruction_crash:
  assumes "fetch_crashes big H m"
  shows "\<exists>c. OneInstruction big H m = Inl c"
proof -
  from assms obtain v m1 where "ReadMem big H m (registers m PCReg) 4 = Inr (Some v, m1)"
    "crashes (Decode v) m1" by (auto simp: fetch_crashes_def)
  with crashes_crash [of "Decode v" m1 big H "registers m1 NextPCReg + 4"] show ?thesis
    by (auto simp: OneInstruction_def)
qed

section \<open>Properties\<close>

text \<open>
  C4: the shift-and-add multiplier is exact. For all operands, the words \<open>Mult\<close> leaves in HI and
  LO are the full 64-bit product: of the signed values for MULT (including the most negative
  operand, whose negation wraps) and of the unsigned values for MULTU.
\<close>

theorem Mult_correct:
  "(case Mult a b s of (hi, lo) \<Rightarrow>
      if s then sint (dword hi lo) = sint a * sint b
      else uint hi * 2 ^ 32 + uint lo = uint a * uint b)"
proof -
  obtain hi lo where M: "Mult a b s = (hi, lo)" by fastforce
  with Mult_dword [of a b s] have d: "dword hi lo = (if s then scast a * scast b else ucast a * ucast b)"
    by simp
  show ?thesis
  proof (cases s)
    case True
    with d show ?thesis unfolding M by (simp add: sint_scast_mult)
  next
    case False
    with d have "uint (dword hi lo) = uint a * uint b" by (simp add: uint_ucast_mult)
    with False show ?thesis unfolding M by (simp add: uint_dword)
  qed
qed

text \<open>
  C5: ADD, ADDI and SUB trap exactly on signed overflow. With \<open>s\<close> the exact sum or difference of
  the signed operands, the instruction writes \<open>s\<close> to its destination and goes on if \<open>s\<close> fits in
  32 bits; otherwise it raises OverflowException and its destination is not written.
\<close>

theorem add_sub_trap_on_overflow:
  assumes "opCode i \<in> {OP_ADD, OP_ADDI, OP_SUB}"
    and "y = (if opCode i = OP_ADDI then extra i else registers m (rt i))"
    and "s = (if opCode i = OP_SUB then sint (registers m (rs i)) - sint y
              else sint (registers m (rs i)) + sint y)"
  shows "exec_instr big H i m pc =
    (if - (2 ^ 31) \<le> s \<and> s < 2 ^ 31
     then finish (set_reg (if opCode i = OP_ADDI then rt i else rd i) (word_of_int s) m) pc
     else return_exc H m OverflowException 0)"
proof -
  consider "opCode i = OP_ADD" | "opCode i = OP_ADDI" | "opCode i = OP_SUB" using assms(1) by blast
  then show ?thesis
  proof cases
    case 1
    then have s: "s = sint (registers m (rs i)) + sint (registers m (rt i))"
      and x: "exec_instr big H i m pc =
        (if \<not> (registers m (rs i) XOR registers m (rt i)) AND SIGN_BIT \<noteq> 0 \<and>
           (registers m (rs i) XOR (registers m (rs i) + registers m (rt i))) AND SIGN_BIT \<noteq> 0
         then return_exc H m OverflowException 0
         else finish (set_reg (rd i) (registers m (rs i) + registers m (rt i)) m) pc)"
      using assms(2,3) by (simp_all add: exec_instr_def Let_def opcodes)
    have w: "registers m (rs i) + registers m (rt i) = word_of_int s" by (simp only: s add_word_of_int)
    show ?thesis
      unfolding x unfolding add_overflow unfolding s [symmetric] w using 1 by (simp add: opcodes)
  next
    case 2
    then have s: "s = sint (registers m (rs i)) + sint (extra i)"
      and x: "exec_instr big H i m pc =
        (if \<not> (registers m (rs i) XOR extra i) AND SIGN_BIT \<noteq> 0 \<and>
           (extra i XOR (registers m (rs i) + extra i)) AND SIGN_BIT \<noteq> 0
         then return_exc H m OverflowException 0
         else finish (set_reg (rt i) (registers m (rs i) + extra i) m) pc)"
      using assms(2,3) by (simp_all add: exec_instr_def Let_def opcodes)
    have w: "registers m (rs i) + extra i = word_of_int s" by (simp only: s add_word_of_int)
    show ?thesis
      unfolding x unfolding add_overflow unfolding s [symmetric] w using 2 by (simp add: opcodes)
  next
    case 3
    then have s: "s = sint (registers m (rs i)) - sint (registers m (rt i))"
      and x: "exec_instr big H i m pc =
        (if (registers m (rs i) XOR registers m (rt i)) AND SIGN_BIT \<noteq> 0 \<and>
           (registers m (rs i) XOR (registers m (rs i) - registers m (rt i))) AND SIGN_BIT \<noteq> 0
         then return_exc H m OverflowException 0
         else finish (set_reg (rd i) (registers m (rs i) - registers m (rt i)) m) pc)"
      using assms(2,3) by (simp_all add: exec_instr_def exec_jump_def exec_load_def exec_mult_def
          exec_shift_def exec_sub_def Let_def opcodes)
    have w: "registers m (rs i) - registers m (rt i) = word_of_int s" by (simp only: s sub_word_of_int)
    show ?thesis
      unfolding x unfolding sub_overflow unfolding s [symmetric] w using 3 by (simp add: opcodes)
  qed
qed

definition sample_add :: Instruction where
  "sample_add = \<lparr>ivalue = 0, opCode = OP_ADD, rs = 1, rt = 2, rd = 3, extra = 0\<rparr>"

theorem add_sub_trap_on_overflow_witness:
  "exec_instr True (\<lambda>_. Inr) sample_add (set_reg 1 0x7fffffff (set_reg 2 1 sample_machine)) 12 =
     return_exc (\<lambda>_. Inr) (set_reg 1 0x7fffffff (set_reg 2 1 sample_machine)) OverflowException 0"
  using add_sub_trap_on_overflow [of sample_add 1 "set_reg 1 0x7fffffff (set_reg 2 1 sample_machine)"
      "2 ^ 31" True "\<lambda>_. Inr" 12]
  by (simp add: sample_add_def opcodes)

text \<open>
  C6: the machine invariant, and exactly how a user program can bring the simulator down. If the
  kernel's handler returns a sane machine, then from a sane machine (well-formed translation, a
  register number in the load slot, zero in R0) \<open>OneInstruction\<close> returns a sane machine, except
  when the fetched instruction is an LWL, LWR, SWL or SWR whose address is not a multiple of four
  or a DIV of the most negative number by -1; those bring the simulator down every time.
\<close>

theorem OneInstruction_safe:
  assumes "good_handler H" "cpu_inv m"
  shows "if fetch_crashes big H m then \<exists>c. OneInstruction big H m = Inl c
    else \<exists>m'. OneInstruction big H m = Inr m' \<and> cpu_inv m'"
  using safe.OneInstruction_ok [of H m big] OneInstruction_crash [of big H m] assms
  by (auto simp: pre_inv_def cpu_inv_def)

definition sample_code :: "u32 \<Rightarrow> machine" where
  "sample_code v = sample_machine
     \<lparr>registers := (\<lambda>_. 0)(PCReg := 0x180, NextPCReg := 0x184),
      mainMemory := write_value (\<lambda>_. 0) 1152 4 v\<rparr>"

lemma sample_code_facts:
  "cpu_inv (sample_code v)" "registers (sample_code v) PCReg = 0x180"
  "translation (sample_code v) 0x180 4 False = Inr 1152"
  "mainMemory (sample_code v) = write_value (\<lambda>_. 0) 1152 4 v"
  by (simp_all add: sample_code_def sample_machine_def new_Machine_def cpu_inv_def wf_machine_def
      lookup_def sample_entry_def translation_def aligned_def machine_sizes reg_numbers)

lemma good_handler_Inr: "good_handler (\<lambda>_. Inr)"
  by (simp add: good_handler_def)

lemma sample_code_fetch:
  "\<exists>m1. ReadMem big H (sample_code v) (registers (sample_code v) PCReg) 4 = Inr (Some v, m1) \<and>
     registers m1 = registers (sample_code v)"
proof -
  have wf: "wf_machine (sample_code v)" using sample_code_facts(1) by (simp add: cpu_inv_def)
  have sz: "(4 :: int) \<in> sizes" by (simp add: sizes_def)
  from ReadMem_cases [OF wf sz, of big H "0x180"] read_write_value [OF sz, of "\<lambda>_. 0" 1152 v]
  show ?thesis
    by (auto simp: sample_code_facts stored_value_def marked_frame)
qed

text \<open>0x20080007 is ADDI r8,r0,7; 0x88010001 is LWL r1,1(r0), whose address is 1.\<close>

theorem OneInstruction_safe_witness:
  "(\<exists>m'. OneInstruction True (\<lambda>_. Inr) (sample_code 0x20080007) = Inr m' \<and> cpu_inv m') \<and>
   (\<exists>c. OneInstruction True (\<lambda>_. Inr) (sample_code 0x88010001) = Inl c)"
proof -
  have "\<not> fetch_crashes True (\<lambda>_. Inr) (sample_code 0x20080007)"
    using sample_code_fetch [of True "\<lambda>_. Inr" "0x20080007"]
    by (auto simp: fetch_crashes_def crashes_def Decode_def opTable_def opcodes)
  moreover have "fetch_crashes True (\<lambda>_. Inr) (sample_code 0x88010001)"
  proof -
    have "registers (sample_code 0x88010001) 0 = 0"
      by (simp add: sample_code_def reg_numbers)
    then show ?thesis
      using sample_code_fetch [of True "\<lambda>_. Inr" "0x88010001"]
      by (auto simp: fetch_crashes_def crashes_def Decode_def opTable_def opcodes)
  qed
  ultimately show ?thesis
    using OneInstruction_safe [OF good_handler_Inr sample_code_facts(1), of True] by metis
qed

text \<open>
  two instructions do not do what the architecture says. OR ignores its second operand: it
  copies rs to rd, because the code ors rs with itself. SRL and SRLV are SRA and SRAV: the
  operand is shifted as a signed \<open>int\<close>, so the sign bit is copied in instead of zeros.
\<close>

lemma OR_and_SRL_deviate:
  "exec_instr big H (i\<lparr>opCode := OP_OR\<rparr>) m pc = finish (set_reg (rd i) (registers m (rs i)) m) pc \<and>
   exec_instr big H (i\<lparr>opCode := OP_SRL\<rparr>) m pc = exec_instr big H (i\<lparr>opCode := OP_SRA\<rparr>) m pc \<and>
   exec_instr big H (i\<lparr>opCode := OP_SRLV\<rparr>) m pc = exec_instr big H (i\<lparr>opCode := OP_SRAV\<rparr>) m pc \<and>
   signed_drop_bit 4 (0x80000000 :: u32) = 0xf8000000 \<and> drop_bit 4 (0x80000000 :: u32) = 0x08000000"
  by (simp add: exec_instr_def exec_jump_def exec_load_def exec_mult_def exec_shift_def Let_def opcodes)

end
