(* ===== verification/Threads.thy ===== *)
theory Threads
  imports Linked_List
begin

text \<open>
  threads/scheduler.cc, threads/thread.cc (Fork, Yield, Sleep, Finish) and the semaphores, locks
  and condition variables of threads/synch.cc.

  These routines run with interrupts off, so each is atomic up to the point where it puts its
  thread to sleep; what is left to do when the thread is dispatched again is its
  \<open>continuation\<close> (the code after \<open>SWITCH\<close> in \<open>Scheduler::Run\<close>). A step of the kernel is one
  call of one routine by the running thread, with all the dispatching it leads to, or a \<open>V\<close> done by
  a device's interrupt handler. The queues are the lists of list.cc, used through their
  functional view. The messages that \<open>Release\<close>, \<open>Wait\<close> and \<open>Signal\<close> print when they refuse a call are not
  part of the model.
\<close>

section \<open>State\<close>

type_synonym tid = nat
type_synonym lid = nat
type_synonym cid = nat
type_synonym sid = nat

datatype ThreadStatus = JUST_CREATED | RUNNING | READY | BLOCKED

datatype LockStatus = BUSY | FREE

record Semaphore =
  svalue :: int
  squeue :: "tid list"

record Lock =
  lstate :: LockStatus
  threadWithPossession :: "tid option"
  lqueue :: "tid list"

record Condition =
  waitingLock :: "lid option"
  cqueue :: "tid list"

text \<open>Where a thread goes on when it is dispatched.\<close>

datatype cont =
    Start             \<comment> \<open>a forked thread: ThreadRoot, not the end of Run\<close>
  | Returned          \<comment> \<open>back from Yield\<close>
  | RetryP sid        \<comment> \<open>the while loop of Semaphore::P\<close>
  | Reacquire lid     \<comment> \<open>the last lines of Condition::Wait\<close>
  | AcquireDone lid   \<comment> \<open>the last lines of Lock::Acquire\<close>
  | Finished          \<comment> \<open>after Sleep in Thread::Finish, not reached\<close>

text \<open>
  \<open>idle\<close> holds while the CPU waits in the loop of \<open>Thread::Sleep\<close>; \<open>deleted\<close> collects the
  threads whose destructor has run.
\<close>

record kernel =
  currentThread :: tid
  readyList :: "tid list"
  status :: "tid \<Rightarrow> ThreadStatus"
  conts :: "tid \<Rightarrow> cont"
  idle :: bool
  threadToBeDestroyed :: "tid option"
  deleted :: "tid set"
  sems :: "sid \<Rightarrow> Semaphore"
  locks :: "lid \<Rightarrow> Lock"
  conds :: "cid \<Rightarrow> Condition"

section \<open>Scheduler and threads\<close>

definition ReadyToRun :: "tid \<Rightarrow> kernel \<Rightarrow> kernel" where
  "ReadyToRun t k = k\<lparr>status := (status k)(t := READY), readyList := list_append (readyList k) t\<rparr>"

definition FindNextToRun :: "kernel \<Rightarrow> tid option \<times> kernel" where
  "FindNextToRun k = (case list_remove (readyList k) of (t, ts) \<Rightarrow> (t, k\<lparr>readyList := ts\<rparr>))"

text \<open>The end of \<open>Scheduler::Run\<close>, with the ASSERT of the destructor \<open>~Thread\<close>.\<close>

definition destroy_carcass :: "kernel \<Rightarrow> kernel result" where
  "destroy_carcass k =
     (case threadToBeDestroyed k of
        None \<Rightarrow> Inr k
      | Some d \<Rightarrow> bind_result (ASSERT (d \<noteq> currentThread k))
          (\<lambda>_. Inr (k\<lparr>deleted := insert d (deleted k), threadToBeDestroyed := None\<rparr>)))"

definition set_sem :: "sid \<Rightarrow> Semaphore \<Rightarrow> kernel \<Rightarrow> kernel" where
  "set_sem s x k = k\<lparr>sems := (sems k)(s := x)\<rparr>"

definition set_lock :: "lid \<Rightarrow> Lock \<Rightarrow> kernel \<Rightarrow> kernel" where
  "set_lock l x k = k\<lparr>locks := (locks k)(l := x)\<rparr>"

definition set_cond :: "cid \<Rightarrow> Condition \<Rightarrow> kernel \<Rightarrow> kernel" where
  "set_cond c x k = k\<lparr>conds := (conds k)(c := x)\<rparr>"

definition isHeldByCurrentThread :: "kernel \<Rightarrow> lid \<Rightarrow> bool" where
  "isHeldByCurrentThread k l \<longleftrightarrow> threadWithPossession (locks k l) = Some (currentThread k)"

text \<open>
  The part of a routine before \<open>Sleep\<close>: the flag says whether it went through (\<open>True\<close>) or has
  queued its thread and must sleep (\<open>False\<close>).
\<close>

definition P_try :: "sid \<Rightarrow> kernel \<Rightarrow> bool \<times> kernel" where
  "P_try s k =
     (let x = sems k s in
      if svalue x = 0 then (False, set_sem s (x\<lparr>squeue := list_append (squeue x) (currentThread k)\<rparr>) k)
      else (True, set_sem s (x\<lparr>svalue := svalue x - 1\<rparr>) k))"

definition Acquire_try :: "lid \<Rightarrow> kernel \<Rightarrow> bool \<times> kernel" where
  "Acquire_try l k =
     (let x = locks k l in
      if isHeldByCurrentThread k l then (True, k)
      else if lstate x = FREE
        then (True, set_lock l (x\<lparr>lstate := BUSY, threadWithPossession := Some (currentThread k)\<rparr>) k)
      else (False, set_lock l (x\<lparr>lqueue := list_append (lqueue x) (currentThread k)\<rparr>) k))"

definition mark_blocked :: "cont \<Rightarrow> kernel \<Rightarrow> kernel" where
  "mark_blocked c k = k\<lparr>status := (status k)(currentThread k := BLOCKED),
     conts := (conts k)(currentThread k := c)\<rparr>"

text \<open>
  The loop of \<open>Thread::Sleep\<close> and \<open>Scheduler::Run\<close>: take the next ready thread and go on where
  it left off, which can put it to sleep again; with no ready thread the CPU is idle.
\<close>

function dispatch :: "kernel \<Rightarrow> kernel result" where
  "dispatch k =
     (case FindNextToRun k of
        (None, k0) \<Rightarrow> Inr (k0\<lparr>idle := True\<rparr>)
      | (Some t, k0) \<Rightarrow>
          let k1 = k0\<lparr>idle := False, currentThread := t, status := (status k0)(t := RUNNING),
                      conts := (conts k0)(t := Returned)\<rparr> in
          if conts k0 t = Start then Inr k1
          else bind_result (destroy_carcass k1) (\<lambda>k2.
            case conts k0 t of
              RetryP s \<Rightarrow>
                (case P_try s k2 of (True, k3) \<Rightarrow> Inr k3
                 | (False, k3) \<Rightarrow> dispatch (mark_blocked (RetryP s) k3))
            | Reacquire l \<Rightarrow>
                (case Acquire_try l k2 of (True, k3) \<Rightarrow> Inr k3
                 | (False, k3) \<Rightarrow> dispatch (mark_blocked (AcquireDone l) k3))
            | _ \<Rightarrow> Inr k2))"
  by pat_completeness auto
termination
proof (relation "measure (\<lambda>k. length (readyList k))")
  have d: "destroy_carcass k = Inr k' \<Longrightarrow> readyList k' = readyList k" for k k'
    by (auto simp: destroy_carcass_def split: option.splits)
  have p: "P_try s k = (b, k') \<Longrightarrow> readyList k' = readyList k" for s k b k'
    by (auto simp: P_try_def set_sem_def Let_def split: if_splits)
  have a: "Acquire_try l k = (b, k') \<Longrightarrow> readyList k' = readyList k" for l k b k'
    by (auto simp: Acquire_try_def set_lock_def Let_def split: if_splits)
  have f: "FindNextToRun k = (Some t, k') \<Longrightarrow> length (readyList k') < length (readyList k)" for k t k'
    by (cases "readyList k") (auto simp: FindNextToRun_def)
  show "wf (measure (\<lambda>k. length (readyList k)))" by simp
  show "(mark_blocked (RetryP s) k3, k) \<in> measure (\<lambda>k. length (readyList k))"
    if "(x, k0) = FindNextToRun k" "x = Some t"
      "k1 = k0\<lparr>idle := False, currentThread := t, status := (status k0)(t := RUNNING),
                      conts := (conts k0)(t := Returned)\<rparr>"
      "destroy_carcass k1 = Inr k2" "(y, k3) = P_try s k2" for k x k0 t k1 k2 s y k3
    using d [OF that(4)] p [OF that(5) [symmetric]] f [of k t k0] that
    by (simp add: mark_blocked_def)
  show "(mark_blocked (AcquireDone l) k3, k) \<in> measure (\<lambda>k. length (readyList k))"
    if "(x, k0) = FindNextToRun k" "x = Some t"
      "k1 = k0\<lparr>idle := False, currentThread := t, status := (status k0)(t := RUNNING),
                      conts := (conts k0)(t := Returned)\<rparr>"
      "destroy_carcass k1 = Inr k2" "(y, k3) = Acquire_try l k2" for k x k0 t k1 k2 l y k3
    using d [OF that(4)] a [OF that(5) [symmetric]] f [of k t k0] that
    by (simp add: mark_blocked_def)
qed

declare dispatch.simps [simp del]

definition Sleep :: "cont \<Rightarrow> kernel \<Rightarrow> kernel result" where
  "Sleep c k = dispatch (mark_blocked c k)"

text \<open>
  \<open>Yield\<close> takes the next thread off the ready list before it appends its own thread; with a
  ready thread that is the same list as appending first, which is what \<open>dispatch\<close> needs.
\<close>

definition Yield :: "kernel \<Rightarrow> kernel result" where
  "Yield k =
     (if readyList k = [] then Inr k
      else dispatch (ReadyToRun (currentThread k) (k\<lparr>conts := (conts k)(currentThread k := Returned)\<rparr>)))"

definition Fork :: "tid \<Rightarrow> kernel \<Rightarrow> kernel" where
  "Fork t k = ReadyToRun t (k\<lparr>conts := (conts k)(t := Start)\<rparr>)"

definition Finish :: "kernel \<Rightarrow> kernel result" where
  "Finish k = Sleep Finished (k\<lparr>threadToBeDestroyed := Some (currentThread k)\<rparr>)"

section \<open>Semaphores\<close>

definition new_Semaphore :: "int \<Rightarrow> Semaphore" where
  "new_Semaphore initialValue = \<lparr>svalue = initialValue, squeue = []\<rparr>"

definition P :: "sid \<Rightarrow> kernel \<Rightarrow> kernel result" where
  "P s k = (case P_try s k of (True, k') \<Rightarrow> Inr k' | (False, k') \<Rightarrow> Sleep (RetryP s) k')"

definition V :: "sid \<Rightarrow> kernel \<Rightarrow> kernel" where
  "V s k =
     (let x = sems k s in
      case list_remove (squeue x) of
        (None, q) \<Rightarrow> set_sem s (x\<lparr>squeue := q, svalue := svalue x + 1\<rparr>) k
      | (Some t, q) \<Rightarrow> set_sem s (x\<lparr>squeue := q, svalue := svalue x + 1\<rparr>) (ReadyToRun t k))"

section \<open>Locks\<close>

text \<open>The constructor does not set \<open>threadWithPossession\<close>: it is whatever the memory held.\<close>

definition new_Lock :: "tid option \<Rightarrow> Lock" where
  "new_Lock garbage = \<lparr>lstate = FREE, threadWithPossession = garbage, lqueue = []\<rparr>"

definition Acquire :: "lid \<Rightarrow> kernel \<Rightarrow> kernel result" where
  "Acquire l k =
     (case Acquire_try l k of (True, k') \<Rightarrow> Inr k' | (False, k') \<Rightarrow> Sleep (AcquireDone l) k')"

definition Release :: "lid \<Rightarrow> kernel \<Rightarrow> kernel" where
  "Release l k =
     (let x = locks k l in
      if \<not> isHeldByCurrentThread k l then k
      else case list_remove (lqueue x) of
        (Some t, q) \<Rightarrow> ReadyToRun t (set_lock l (x\<lparr>lqueue := q, threadWithPossession := Some t\<rparr>) k)
      | (None, _) \<Rightarrow> set_lock l (x\<lparr>lstate := FREE, threadWithPossession := None\<rparr>) k)"

definition isBusy :: "lid \<Rightarrow> kernel \<Rightarrow> bool" where
  "isBusy l k \<longleftrightarrow> lstate (locks k l) = BUSY"

section \<open>Condition variables\<close>

text \<open>
  The constructor does not set \<open>waitingLock\<close>. A null lock argument is \<open>None\<close>.
\<close>

definition new_Condition :: "lid option \<Rightarrow> Condition" where
  "new_Condition garbage = \<lparr>waitingLock = garbage, cqueue = []\<rparr>"

definition Wait :: "cid \<Rightarrow> lid option \<Rightarrow> kernel \<Rightarrow> kernel result" where
  "Wait c conditionLock k =
     (case conditionLock of None \<Rightarrow> Inr k
      | Some l \<Rightarrow>
        let x = conds k c;
            x1 = (if waitingLock x = None then x\<lparr>waitingLock := Some l\<rparr> else x);
            k1 = set_cond c x1 k in
        if Some l \<noteq> waitingLock x1 then Inr k1
        else if \<not> isHeldByCurrentThread k1 l then Inr k1
        else
          let k2 = Release l k1;
              x2 = conds k2 c;
              k3 = set_cond c (x2\<lparr>cqueue := list_append (cqueue x2) (currentThread k2)\<rparr>) k2
          in Sleep (Reacquire l) k3)"

definition Signal :: "cid \<Rightarrow> lid option \<Rightarrow> kernel \<Rightarrow> kernel" where
  "Signal c conditionLock k =
     (case conditionLock of None \<Rightarrow> k
      | Some l \<Rightarrow>
        let x = conds k c in
        case list_remove (cqueue x) of
          (None, _) \<Rightarrow> k
        | (Some t, q) \<Rightarrow>
            if waitingLock x \<noteq> Some l then k
            else if \<not> isHeldByCurrentThread k l then k
            else set_cond c (x\<lparr>cqueue := q, waitingLock := (if q = [] then None else waitingLock x)\<rparr>)
                   (ReadyToRun t k))"

text \<open>The loop of \<open>Broadcast\<close> ends when the queue is empty; \<open>None\<close> is a loop that does not end.\<close>

partial_function (option) broadcast_loop :: "cid \<Rightarrow> lid \<Rightarrow> kernel \<Rightarrow> kernel option" where
  "broadcast_loop c l k =
     (if cqueue (conds k c) = [] then Some k else broadcast_loop c l (Signal c (Some l) k))"

definition Broadcast :: "cid \<Rightarrow> lid option \<Rightarrow> kernel \<Rightarrow> kernel option" where
  "Broadcast c conditionLock k =
     (case conditionLock of None \<Rightarrow> Some k
      | Some l \<Rightarrow>
        if cqueue (conds k c) = [] then Some k
        else if waitingLock (conds k c) \<noteq> Some l then Some k
        else if \<not> isHeldByCurrentThread k l then Some k
        else broadcast_loop c l k)"

definition hasWaiting :: "cid \<Rightarrow> kernel \<Rightarrow> bool" where
  "hasWaiting c k \<longleftrightarrow> cqueue (conds k c) \<noteq> []"

section \<open>The kernel as a state machine\<close>

datatype kop = Op_Acquire lid | Op_Release lid | Op_Wait cid "lid option" | Op_Signal cid "lid option"
  | Op_Broadcast cid "lid option" | Op_P sid | Op_V sid | Op_Yield | Op_Fork tid | Op_Finish

text \<open>One call by the running thread; \<open>None\<close> is a call that never returns.\<close>

fun exec :: "kop \<Rightarrow> kernel \<Rightarrow> kernel result option" where
  "exec (Op_Acquire l) k = Some (Acquire l k)"
| "exec (Op_Release l) k = Some (Inr (Release l k))"
| "exec (Op_Wait c l) k = Some (Wait c l k)"
| "exec (Op_Signal c l) k = Some (Inr (Signal c l k))"
| "exec (Op_Broadcast c l) k = map_option Inr (Broadcast c l k)"
| "exec (Op_P s) k = Some (P s k)"
| "exec (Op_V s) k = Some (Inr (V s k))"
| "exec Op_Yield k = Some (Yield k)"
| "exec (Op_Fork t) k = Some (Inr (Fork t k))"
| "exec Op_Finish k = Some (Finish k)"

text \<open>
  A device's interrupt handler does \<open>V\<close>; if the CPU was idle, the loop of \<open>Sleep\<close> then looks at
  the ready list again.
\<close>

definition device_V :: "sid \<Rightarrow> kernel \<Rightarrow> kernel result" where
  "device_V s k = (let k' = V s k in if idle k then dispatch k' else Inr k')"

inductive kstep :: "kernel \<Rightarrow> kernel \<Rightarrow> bool" where
  call: "\<not> idle k \<Longrightarrow> (\<And>t. p = Op_Fork t \<Longrightarrow> status k t = JUST_CREATED) \<Longrightarrow> exec p k = Some (Inr k') \<Longrightarrow>
    kstep k k'"
| device: "device_V s k = Inr k' \<Longrightarrow> kstep k k'"

text \<open>
  The kernel when thread 0 starts: every lock and condition variable is as its constructor should
  leave it (the garbage is null) and no semaphore is negative.
\<close>

definition boot :: "(sid \<Rightarrow> int) \<Rightarrow> kernel" where
  "boot v = \<lparr>currentThread = 0, readyList = [],
     status = (\<lambda>t. if t = 0 then RUNNING else JUST_CREATED), conts = (\<lambda>_. Returned), idle = False,
     threadToBeDestroyed = None, deleted = {}, sems = (\<lambda>s. new_Semaphore (v s)),
     locks = (\<lambda>_. new_Lock None), conds = (\<lambda>_. new_Condition None)\<rparr>"

inductive reachable :: "kernel \<Rightarrow> bool" where
  init: "(\<And>s. 0 \<le> v s) \<Longrightarrow> reachable (boot v)"
| step: "reachable k \<Longrightarrow> kstep k k' \<Longrightarrow> reachable k'"

end
