(* ===== verification/Thread_Invariant.thy ===== *)
theory Thread_Invariant
  imports Threads
begin

text \<open>
  The invariant of the thread system of theory Threads, that every routine keeps it and
  returns, and the properties of scheduling, locks, condition variables and semaphores that
  follow for every reachable state.
\<close>

section \<open>Every thread is in one place\<close>

datatype place = InReady | AtLock lid | AtCond cid | AtSem sid

fun queue_at :: "kernel \<Rightarrow> place \<Rightarrow> tid list" where
  "queue_at k InReady = readyList k"
| "queue_at k (AtLock l) = lqueue (locks k l)"
| "queue_at k (AtCond c) = cqueue (conds k c)"
| "queue_at k (AtSem s) = squeue (sems k s)"

text \<open>
  The discipline of the queues, stated of any assignment \<open>at\<close> of queues to places: \<open>loc\<close> says in
  which queue a thread is; it is there once, its status fits the kind of queue, and a thread in
  no queue is running, not started yet, or finished (\<open>fin\<close>).
\<close>

definition place_status :: "place \<Rightarrow> ThreadStatus" where
  "place_status p = (if p = InReady then READY else BLOCKED)"

definition thread_ok :: "place option \<Rightarrow> ThreadStatus \<Rightarrow> bool \<Rightarrow> bool" where
  "thread_ok lo st fin \<longleftrightarrow>
     (case lo of Some p \<Rightarrow> st = place_status p \<and> \<not> fin
      | None \<Rightarrow> (if fin then st = BLOCKED else st = RUNNING \<or> st = JUST_CREATED))"

definition queues_ok ::
  "(tid \<Rightarrow> place option) \<Rightarrow> (place \<Rightarrow> tid list) \<Rightarrow> (tid \<Rightarrow> ThreadStatus) \<Rightarrow> (tid \<Rightarrow> bool) \<Rightarrow> bool" where
  "queues_ok loc at st fin \<longleftrightarrow>
     (\<forall>p. distinct (at p)) \<and> (\<forall>p t. t \<in> set (at p) \<longleftrightarrow> loc t = Some p) \<and>
     (\<forall>t. thread_ok (loc t) (st t) (fin t))"

lemma queues_okD:
  assumes "queues_ok loc at st fin"
  shows "distinct (at p)" "t \<in> set (at p) \<longleftrightarrow> loc t = Some p" "thread_ok (loc t) (st t) (fin t)"
  using assms by (auto simp: queues_ok_def)

lemma queues_ok_wake:
  assumes "queues_ok loc at st fin" "at p = t # q" "p \<noteq> InReady"
  shows "queues_ok (loc(t := Some InReady)) (at(p := q, InReady := at InReady @ [t]))
     (st(t := READY)) fin"
proof -
  have t: "loc t = Some p" "t \<notin> set q" "distinct q"
    using queues_okD(1,2) [OF assms(1), where p = p] assms(2) by auto
  have "x \<in> set q \<longleftrightarrow> loc x = Some p \<and> x \<noteq> t" for x
    using queues_okD(2) [OF assms(1), of x p] assms(2) t by auto
  moreover have "t \<notin> set (at InReady)"
    using queues_okD(2) [OF assms(1), of t InReady] t assms(3) by auto
  moreover have "thread_ok (Some InReady) READY (fin t)"
    using queues_okD(3) [OF assms(1), of t] t by (simp add: thread_ok_def place_status_def)
  ultimately show ?thesis
    using assms(1,3) t unfolding queues_ok_def by simp
qed

lemma queues_ok_enter:
  assumes "queues_ok loc at st fin" "loc t = None" "\<not> fin t"
  shows "queues_ok (loc(t := Some p)) (at(p := at p @ [t])) (st(t := place_status p)) fin"
proof -
  have "t \<notin> set (at p)" for p
    using queues_okD(2) [OF assms(1), of t p] assms(2) by simp
  moreover have "thread_ok (Some p) (place_status p) (fin t)"
    using assms(3) by (simp add: thread_ok_def)
  ultimately show ?thesis
    using assms(1) unfolding queues_ok_def by auto
qed

lemma queues_ok_run:
  assumes "queues_ok loc at st fin" "at InReady = t # q"
  shows "queues_ok (loc(t := None)) (at(InReady := q)) (st(t := RUNNING)) fin" "\<not> fin t"
proof -
  have t: "loc t = Some InReady" "t \<notin> set q" "distinct q"
    using queues_okD(1,2) [OF assms(1), where p = InReady] assms(2) by auto
  have "x \<in> set q \<longleftrightarrow> loc x = Some InReady \<and> x \<noteq> t" for x
    using queues_okD(2) [OF assms(1), of x InReady] assms(2) t by auto
  moreover show nf: "\<not> fin t"
    using queues_okD(3) [OF assms(1), of t] t by (simp add: thread_ok_def)
  moreover from nf have "thread_ok None RUNNING (fin t)" by (simp add: thread_ok_def)
  ultimately show "queues_ok (loc(t := None)) (at(InReady := q)) (st(t := RUNNING)) fin"
    using assms(1) t unfolding queues_ok_def by simp
qed

lemma queues_ok_finish:
  assumes "queues_ok loc at st fin" "loc t = None"
  shows "queues_ok loc at (st(t := BLOCKED)) (fin(t := True))"
proof -
  have "thread_ok None BLOCKED True" by (simp add: thread_ok_def)
  with assms show ?thesis unfolding queues_ok_def by auto
qed

section \<open>The kernel invariant\<close>

definition locks_ok :: "kernel \<Rightarrow> bool" where
  "locks_ok k \<longleftrightarrow> (\<forall>l. (lstate (locks k l) = FREE \<longleftrightarrow> threadWithPossession (locks k l) = None) \<and>
     (lstate (locks k l) = FREE \<longrightarrow> lqueue (locks k l) = []) \<and>
     (\<forall>t. threadWithPossession (locks k l) = Some t \<longrightarrow> t \<notin> set (lqueue (locks k l))))"

text \<open>A queued thread goes on where its queue says it should.\<close>

fun cont_ok :: "kernel \<Rightarrow> tid \<Rightarrow> place option \<Rightarrow> bool" where
  "cont_ok k t None \<longleftrightarrow> True"
| "cont_ok k t (Some InReady) \<longleftrightarrow>
     (\<forall>l. conts k t = AcquireDone l \<longrightarrow> threadWithPossession (locks k l) = Some t)"
| "cont_ok k t (Some (AtLock l)) \<longleftrightarrow> conts k t = AcquireDone l"
| "cont_ok k t (Some (AtCond c)) \<longleftrightarrow>
     (\<exists>l. conts k t = Reacquire l \<and> waitingLock (conds k c) = Some l)"
| "cont_ok k t (Some (AtSem s)) \<longleftrightarrow> conts k t = RetryP s"

text \<open>The threads that \<open>V\<close> has woken and that have not looked at the semaphore since.\<close>

definition woken :: "kernel \<Rightarrow> sid \<Rightarrow> nat" where
  "woken k s = length (filter (\<lambda>t. conts k t = RetryP s) (readyList k))"

definition sems_ok :: "kernel \<Rightarrow> bool" where
  "sems_ok k \<longleftrightarrow> (\<forall>s. 0 \<le> svalue (sems k s) \<and>
     (squeue (sems k s) \<noteq> [] \<longrightarrow> svalue (sems k s) \<le> int (woken k s)))"

definition dead_ok :: "kernel \<Rightarrow> bool" where
  "dead_ok k \<longleftrightarrow> (\<forall>d. threadToBeDestroyed k = Some d \<or> d \<in> deleted k \<longrightarrow> conts k d = Finished)"

definition kcore :: "(tid \<Rightarrow> place option) \<Rightarrow> kernel \<Rightarrow> bool" where
  "kcore loc k \<longleftrightarrow>
     queues_ok loc (queue_at k) (status k) (\<lambda>t. conts k t = Finished) \<and>
     locks_ok k \<and> (\<forall>t. cont_ok k t (loc t)) \<and> dead_ok k \<and>
     (\<forall>t. status k t = RUNNING \<longrightarrow> t = currentThread k)"

definition kinv :: "(tid \<Rightarrow> place option) \<Rightarrow> kernel \<Rightarrow> bool" where
  "kinv loc k \<longleftrightarrow> kcore loc k \<and> sems_ok k"

definition kernel_inv :: "kernel \<Rightarrow> bool" where
  "kernel_inv k \<longleftrightarrow> (\<exists>loc. kinv loc k) \<and> (idle k \<longleftrightarrow> status k (currentThread k) \<noteq> RUNNING)"

lemma all_place: "(\<forall>p. Q p) \<longleftrightarrow>
    Q InReady \<and> (\<forall>l. Q (AtLock l)) \<and> (\<forall>c. Q (AtCond c)) \<and> (\<forall>s. Q (AtSem s))"
  by (metis place.exhaust)

lemma queue_at_upd [simp]:
  "queue_at (ReadyToRun t k) = (queue_at k)(InReady := readyList k @ [t])"
  "queue_at (set_lock l x k) = (queue_at k)(AtLock l := lqueue x)"
  "queue_at (set_cond c y k) = (queue_at k)(AtCond c := cqueue y)"
  "queue_at (set_sem s z k) = (queue_at k)(AtSem s := squeue z)"
  "queue_at (mark_blocked co k) = queue_at k"
  by (simp_all add: fun_eq_iff all_place ReadyToRun_def set_lock_def set_cond_def set_sem_def
      mark_blocked_def list_append_def)

lemma kernel_upd [simp]:
  "currentThread (ReadyToRun t k) = currentThread k" "status (ReadyToRun t k) = (status k)(t := READY)"
  "conts (ReadyToRun t k) = conts k" "locks (ReadyToRun t k) = locks k" "conds (ReadyToRun t k) = conds k"
  "sems (ReadyToRun t k) = sems k" "readyList (ReadyToRun t k) = readyList k @ [t]"
  "idle (ReadyToRun t k) = idle k" "deleted (ReadyToRun t k) = deleted k"
  "threadToBeDestroyed (ReadyToRun t k) = threadToBeDestroyed k"
  by (simp_all add: ReadyToRun_def list_append_def)

lemma set_lock_upd [simp]:
  "currentThread (set_lock l x k) = currentThread k" "status (set_lock l x k) = status k"
  "conts (set_lock l x k) = conts k" "locks (set_lock l x k) = (locks k)(l := x)"
  "conds (set_lock l x k) = conds k" "sems (set_lock l x k) = sems k"
  "readyList (set_lock l x k) = readyList k" "idle (set_lock l x k) = idle k"
  "deleted (set_lock l x k) = deleted k" "threadToBeDestroyed (set_lock l x k) = threadToBeDestroyed k"
  by (simp_all add: set_lock_def)

lemma set_cond_upd [simp]:
  "currentThread (set_cond c x k) = currentThread k" "status (set_cond c x k) = status k"
  "conts (set_cond c x k) = conts k" "conds (set_cond c x k) = (conds k)(c := x)"
  "locks (set_cond c x k) = locks k" "sems (set_cond c x k) = sems k"
  "readyList (set_cond c x k) = readyList k" "idle (set_cond c x k) = idle k"
  "deleted (set_cond c x k) = deleted k" "threadToBeDestroyed (set_cond c x k) = threadToBeDestroyed k"
  by (simp_all add: set_cond_def)

lemma set_sem_upd [simp]:
  "currentThread (set_sem s x k) = currentThread k" "status (set_sem s x k) = status k"
  "conts (set_sem s x k) = conts k" "sems (set_sem s x k) = (sems k)(s := x)"
  "locks (set_sem s x k) = locks k" "conds (set_sem s x k) = conds k"
  "readyList (set_sem s x k) = readyList k" "idle (set_sem s x k) = idle k"
  "deleted (set_sem s x k) = deleted k" "threadToBeDestroyed (set_sem s x k) = threadToBeDestroyed k"
  by (simp_all add: set_sem_def)

lemma mark_blocked_upd [simp]:
  "currentThread (mark_blocked co k) = currentThread k"
  "status (mark_blocked co k) = (status k)(currentThread k := BLOCKED)"
  "conts (mark_blocked co k) = (conts k)(currentThread k := co)"
  "sems (mark_blocked co k) = sems k" "locks (mark_blocked co k) = locks k"
  "conds (mark_blocked co k) = conds k" "readyList (mark_blocked co k) = readyList k"
  "idle (mark_blocked co k) = idle k" "deleted (mark_blocked co k) = deleted k"
  "threadToBeDestroyed (mark_blocked co k) = threadToBeDestroyed k"
  by (simp_all add: mark_blocked_def)

lemma cont_ok_cong:
  assumes "cont_ok k t lo" "conts k' t = conts k t"
    and "\<And>l. threadWithPossession (locks k l) = Some t \<Longrightarrow> threadWithPossession (locks k' l) = Some t"
    and "\<And>c. lo = Some (AtCond c) \<Longrightarrow> waitingLock (conds k' c) = waitingLock (conds k c)"
  shows "cont_ok k' t lo"
  using assms by (cases "(k, t, lo)" rule: cont_ok.cases) auto

lemma kcoreD:
  assumes "kcore loc k"
  shows "queues_ok loc (queue_at k) (status k) (\<lambda>t. conts k t = Finished)" "locks_ok k"
    "cont_ok k t (loc t)" "dead_ok k" "status k t = RUNNING \<Longrightarrow> t = currentThread k"
  using assms by (simp_all add: kcore_def)

lemma kinvD:
  assumes "kinv loc k"
  shows "queues_ok loc (queue_at k) (status k) (\<lambda>t. conts k t = Finished)" "locks_ok k"
    "cont_ok k t (loc t)" "sems_ok k" "dead_ok k" "status k t = RUNNING \<Longrightarrow> t = currentThread k"
    "kcore loc k"
  using assms by (simp_all add: kinv_def kcore_def)

lemma thread_ok_cases:
  assumes "kcore loc k"
  shows "loc t = Some p \<Longrightarrow> status k t = place_status p \<and> conts k t \<noteq> Finished"
    "loc t = None \<Longrightarrow> (if conts k t = Finished then status k t = BLOCKED
       else status k t = RUNNING \<or> status k t = JUST_CREATED)"
  using queues_okD(3) [OF kcoreD(1) [OF assms], of t] by (simp_all add: thread_ok_def)

lemma place_status_simps [simp]: "place_status p \<noteq> RUNNING" "place_status p \<noteq> JUST_CREATED"
  "place_status InReady = READY" "RUNNING \<noteq> place_status p" "JUST_CREATED \<noteq> place_status p"
  by (simp_all add: place_status_def)

lemma running_alone:
  assumes "kcore loc k" "status k (currentThread k) = RUNNING"
  shows "loc (currentThread k) = None" "conts k (currentThread k) \<noteq> Finished"
proof -
  show l: "loc (currentThread k) = None"
    using thread_ok_cases(1) [OF assms(1)] assms(2) by (cases "loc (currentThread k)") force+
  show "conts k (currentThread k) \<noteq> Finished"
    using thread_ok_cases(2) [OF assms(1) l] assms(2) by auto
qed

lemma queue_loc:
  assumes "kcore loc k" "queue_at k p = t # q"
  shows "loc t = Some p" "t \<notin> set q" "distinct q"
  using queues_okD(1,2) [OF kcoreD(1) [OF assms(1)], where p = p] assms(2) by auto

lemma woken_ReadyToRun [simp]:
  "woken (ReadyToRun t k) s = woken k s + (if conts k t = RetryP s then 1 else 0)"
  by (simp add: woken_def)

lemma woken_upd [simp]:
  "woken (set_lock l x k) s = woken k s" "woken (set_cond c y k) s = woken k s"
  "woken (set_sem u z k) s = woken k s"
  by (simp_all add: woken_def)

lemma Release_kinv:
  assumes "kinv loc k" "status k (currentThread k) = RUNNING"
  shows "\<exists>loc'. kinv loc' (Release l k)"
proof (cases "isHeldByCurrentThread k l")
  case False
  then show ?thesis using assms by (auto simp: Release_def)
next
  case held: True
  then have own: "threadWithPossession (locks k l) = Some (currentThread k)"
    by (simp add: isHeldByCurrentThread_def)
  note cur = running_alone [OF kinvD(7) [OF assms(1)] assms(2)]
  have lk: "lstate (locks k l) = BUSY"
    using kinvD(2) [OF assms(1)] own by (cases "lstate (locks k l)") (auto simp: locks_ok_def)
  show ?thesis
  proof (cases "lqueue (locks k l)")
    case Nil
    let ?k = "set_lock l ((locks k l)\<lparr>lstate := FREE, threadWithPossession := None\<rparr>) k"
    have "queue_at ?k = queue_at k" using Nil by (simp add: fun_upd_idem)
    moreover have "cont_ok ?k t (loc t)" for t
    proof (cases "t = currentThread k")
      case False
      then show ?thesis
        using own by (intro cont_ok_cong [OF kinvD(3) [OF assms(1)]]) auto
    qed (simp add: cur)
    moreover have "locks_ok ?k" using kinvD(2) [OF assms(1)] Nil by (simp add: locks_ok_def)
    ultimately have "kinv loc ?k"
      using assms(1) by (simp add: kinv_def kcore_def sems_ok_def dead_ok_def)
    then show ?thesis using held Nil by (auto simp: Release_def Let_def)
  next
    case (Cons t q)
    let ?x = "(locks k l)\<lparr>lqueue := q, threadWithPossession := Some t\<rparr>"
    let ?k = "ReadyToRun t (set_lock l ?x k)"
    note tq = queue_loc [OF kinvD(7) [OF assms(1)], of "AtLock l" t q]
    from Cons tq have t: "loc t = Some (AtLock l)" "t \<notin> set q" by auto
    with kinvD(3) [OF assms(1), of t] have ct: "conts k t = AcquireDone l" by simp
    have "queues_ok (loc(t := Some InReady)) (queue_at ?k) (status ?k) (\<lambda>t. conts ?k t = Finished)"
      using queues_ok_wake [OF kinvD(1) [OF assms(1)], of "AtLock l" t q] Cons by simp
    moreover have "cont_ok ?k u ((loc(t := Some InReady)) u)" for u
    proof (cases "u = t \<or> u = currentThread k")
      case False
      then show ?thesis
        using own by (auto intro!: cont_ok_cong [OF kinvD(3) [OF assms(1)]])
    qed (use cur t ct in auto)
    moreover have "locks_ok ?k"
      using kinvD(2) [OF assms(1)] lk t by (simp add: locks_ok_def)
    moreover have "sems_ok ?k" using kinvD(4) [OF assms(1)] ct by (simp add: sems_ok_def)
    ultimately have "kinv (loc(t := Some InReady)) ?k"
      using kinvD(5,6) [OF assms(1)] by (auto simp: kinv_def kcore_def dead_ok_def)
    then show ?thesis using held Cons by (auto simp: Release_def Let_def)
  qed
qed

lemma V_kinv:
  assumes "kinv loc k"
  shows "\<exists>loc'. kinv loc' (V s k)"
proof (cases "squeue (sems k s)")
  case Nil
  let ?k = "set_sem s ((sems k s)\<lparr>squeue := [], svalue := svalue (sems k s) + 1\<rparr>) k"
  have "queue_at ?k = queue_at k" using Nil by (simp add: fun_upd_idem)
  moreover have "cont_ok ?k t (loc t)" for t
    by (intro cont_ok_cong [OF kinvD(3) [OF assms(1)]]) auto
  moreover have "sems_ok ?k" using kinvD(4) [OF assms(1)] by (simp add: sems_ok_def)
  ultimately have "kinv loc ?k"
    using assms by (simp add: kinv_def kcore_def locks_ok_def dead_ok_def)
  then show ?thesis using Nil by (auto simp: V_def Let_def)
next
  case (Cons t q)
  let ?x = "(sems k s)\<lparr>squeue := q, svalue := svalue (sems k s) + 1\<rparr>"
  let ?k = "set_sem s ?x (ReadyToRun t k)"
  from Cons queue_loc [OF kinvD(7) [OF assms(1)], of "AtSem s" t q] have t: "loc t = Some (AtSem s)" by auto
  with kinvD(3) [OF assms(1), of t] have ct: "conts k t = RetryP s" by simp
  have "queues_ok (loc(t := Some InReady)) (queue_at ?k) (status ?k) (\<lambda>t. conts ?k t = Finished)"
    using queues_ok_wake [OF kinvD(1) [OF assms(1)], of "AtSem s" t q] Cons
    by (simp add: fun_upd_twist)
  moreover have "cont_ok ?k u ((loc(t := Some InReady)) u)" for u
  proof (cases "u = t")
    case False
    then show ?thesis by (auto intro!: cont_ok_cong [OF kinvD(3) [OF assms(1)]])
  qed (use ct in auto)
  moreover have "sems_ok ?k" using kinvD(4) [OF assms(1)] ct Cons
    unfolding sems_ok_def by (auto dest: spec [of _ s])
  ultimately have "kinv (loc(t := Some InReady)) ?k"
    using kinvD(2,5,6) [OF assms(1)] by (auto simp: kinv_def kcore_def dead_ok_def locks_ok_def)
  then show ?thesis using Cons by (auto simp: V_def Let_def)
qed

lemma Signal_kinv:
  assumes "kinv loc k"
  shows "\<exists>loc'. kinv loc' (Signal c lo k)"
proof (cases "\<exists>l t q. lo = Some l \<and> cqueue (conds k c) = t # q \<and> waitingLock (conds k c) = Some l \<and>
    isHeldByCurrentThread k l")
  case False
  then have "Signal c lo k = k"
    by (cases "cqueue (conds k c)") (auto simp: Signal_def Let_def split: option.splits)
  with assms show ?thesis by auto
next
  case True
  then obtain l t q where lo: "lo = Some l" "cqueue (conds k c) = t # q"
    "waitingLock (conds k c) = Some l" "isHeldByCurrentThread k l" by blast
  let ?y = "(conds k c)\<lparr>cqueue := q, waitingLock := (if q = [] then None else waitingLock (conds k c))\<rparr>"
  let ?k = "set_cond c ?y (ReadyToRun t k)"
  from lo(2) queue_loc [OF kinvD(7) [OF assms(1)], of "AtCond c" t q] have t: "loc t = Some (AtCond c)" by auto
  with kinvD(3) [OF assms(1), of t] have ct: "conts k t = Reacquire l" using lo by auto
  have "queues_ok (loc(t := Some InReady)) (queue_at ?k) (status ?k) (\<lambda>t. conts ?k t = Finished)"
    using queues_ok_wake [OF kinvD(1) [OF assms(1)], of "AtCond c" t q] lo
    by (simp add: fun_upd_twist)
  moreover have "cont_ok ?k u ((loc(t := Some InReady)) u)" for u
  proof (cases "u = t")
    case False
    have "q \<noteq> []" if "loc u = Some (AtCond c)"
      using that False queues_okD(2) [OF kinvD(1) [OF assms(1)], of u "AtCond c"] lo by auto
    with False show ?thesis by (auto intro!: cont_ok_cong [OF kinvD(3) [OF assms(1)]])
  qed (use ct in auto)
  moreover have "sems_ok ?k" using kinvD(4) [OF assms(1)] ct by (simp add: sems_ok_def)
  ultimately have "kinv (loc(t := Some InReady)) ?k"
    using kinvD(2,5,6) [OF assms(1)] by (auto simp: kinv_def kcore_def dead_ok_def locks_ok_def)
  then show ?thesis using lo by (auto simp: Signal_def Let_def)
qed

text \<open>The running thread appends itself to a queue and blocks, with the continuation it needs.\<close>

lemma woken_mark_blocked:
  "currentThread k \<notin> set (readyList k) \<Longrightarrow> woken (mark_blocked co k) s = woken k s"
  unfolding woken_def by (auto intro!: arg_cong [where f = length] filter_cong)

lemma queues_ok_cong_fin:
  "queues_ok loc at st fin \<Longrightarrow> (\<And>t. fin' t = fin t) \<Longrightarrow> queues_ok loc at st fin'"
  by (simp add: queues_ok_def)

lemma block_kinv:
  assumes "kcore loc k" "status k (currentThread k) = RUNNING"
    and "queue_at k' = (queue_at k)(p := queue_at k p @ [currentThread k])"
    and "p \<noteq> InReady" "co \<noteq> Finished"
    and "currentThread k' = currentThread k" "status k' = status k" "conts k' = conts k"
    and "readyList k' = readyList k" "deleted k' = deleted k"
      "threadToBeDestroyed k' = threadToBeDestroyed k"
    and "cont_ok (mark_blocked co k') (currentThread k) (Some p)"
    and "\<And>l. threadWithPossession (locks k' l) = threadWithPossession (locks k l)"
    and "\<And>c. waitingLock (conds k' c) = waitingLock (conds k c)"
    and "locks_ok k'" "sems_ok k'"
  shows "kinv (loc(currentThread k := Some p)) (mark_blocked co k')"
proof -
  let ?t = "currentThread k"
  note cur = running_alone [OF assms(1,2)]
  have notready: "?t \<notin> set (readyList k)"
    using queues_okD(2) [OF kcoreD(1) [OF assms(1)], of ?t InReady] cur by simp
  have "queues_ok (loc(?t := Some p)) ((queue_at k)(p := queue_at k p @ [?t]))
      ((status k)(?t := place_status p)) (\<lambda>t. conts k t = Finished)"
    by (rule queues_ok_enter [OF kcoreD(1) [OF assms(1)]]) (use cur in auto)
  then have "queues_ok (loc(?t := Some p)) (queue_at (mark_blocked co k'))
      (status (mark_blocked co k')) (\<lambda>t. conts (mark_blocked co k') t = Finished)"
    using assms(3-8) cur
    by (auto simp: place_status_def elim!: queues_ok_cong_fin)
  moreover have "cont_ok (mark_blocked co k') u ((loc(?t := Some p)) u)" for u
  proof (cases "u = ?t")
    case True
    then show ?thesis using assms(12) by simp
  next
    case False
    then show ?thesis
      using assms(6,8,13,14) by (auto intro!: cont_ok_cong [OF kcoreD(3) [OF assms(1), of u]])
  qed
  moreover have "locks_ok (mark_blocked co k')" using assms(15) by (simp add: locks_ok_def)
  moreover have "sems_ok (mark_blocked co k')"
    using assms(16) woken_mark_blocked [of k'] notready assms(6,9) by (simp add: sems_ok_def)
  moreover have "dead_ok (mark_blocked co k')"
    using kcoreD(4) [OF assms(1)] cur(2) assms(6,8,10,11) by (auto simp: dead_ok_def)
  ultimately show ?thesis
    using kcoreD(5) [OF assms(1)] assms(6,7) by (auto simp: kinv_def kcore_def split: if_splits)
qed

text \<open>
  What a routine that must sleep leaves to \<open>dispatch\<close>: a sane kernel with no running thread.
\<close>

definition asleep :: "kernel \<Rightarrow> bool" where
  "asleep k \<longleftrightarrow> (\<exists>loc. kinv loc k) \<and> status k (currentThread k) \<noteq> RUNNING"

definition awake :: "kernel \<Rightarrow> bool" where
  "awake k \<longleftrightarrow> (\<exists>loc. kinv loc k) \<and> status k (currentThread k) = RUNNING"

text \<open>\<open>sems_slack s\<close>: \<open>sems_ok\<close>, with the running thread counted as woken from \<open>s\<close>.\<close>

definition sems_slack :: "sid \<Rightarrow> kernel \<Rightarrow> bool" where
  "sems_slack s k \<longleftrightarrow> (\<forall>u. 0 \<le> svalue (sems k u) \<and> (squeue (sems k u) \<noteq> [] \<longrightarrow>
     svalue (sems k u) \<le> int (woken k u) + (if u = s then 1 else 0)))"

lemma P_try_kinv:
  assumes "kcore loc k" "status k (currentThread k) = RUNNING" "sems_slack s k"
  shows "case P_try s k of (True, k') \<Rightarrow> awake k' \<and> idle k' = idle k \<and> currentThread k' = currentThread k
    | (False, k') \<Rightarrow> asleep (mark_blocked (RetryP s) k')"
proof -
  note k = assms(1,2)
  have nn: "0 \<le> svalue (sems k u)" for u using assms(3) by (simp add: sems_slack_def)
  show ?thesis
  proof (cases "svalue (sems k s) = 0")
    case True
    let ?k = "set_sem s ((sems k s)\<lparr>squeue := squeue (sems k s) @ [currentThread k]\<rparr>) k"
    have "kinv (loc(currentThread k := Some (AtSem s))) (mark_blocked (RetryP s) ?k)"
      using assms(3) kcoreD(2) [OF k(1)] True
      by (intro block_kinv [OF k]) (auto simp: sems_ok_def sems_slack_def locks_ok_def)
    then show ?thesis
      using True by (auto simp: P_try_def Let_def list_append_def asleep_def)
  next
    case False
    let ?k = "set_sem s ((sems k s)\<lparr>svalue := svalue (sems k s) - 1\<rparr>) k"
    have "queue_at ?k = queue_at k" by (simp add: fun_upd_idem)
    moreover have "cont_ok ?k t (loc t)" for t
      by (intro cont_ok_cong [OF kcoreD(3) [OF k(1)]]) auto
    moreover have "sems_ok ?k"
      using assms(3) False nn [of s] unfolding sems_ok_def sems_slack_def by (auto dest: spec [of _ s])
    ultimately have "kinv loc ?k"
      using k(1) by (simp add: kinv_def kcore_def locks_ok_def dead_ok_def)
    then show ?thesis using False k(2) by (auto simp: P_try_def Let_def awake_def)
  qed
qed

lemma Acquire_try_kinv:
  assumes "awake k"
  shows "case Acquire_try l k of
      (True, k') \<Rightarrow> awake k' \<and> idle k' = idle k \<and> currentThread k' = currentThread k \<and>
        threadWithPossession (locks k' l) = Some (currentThread k)
    | (False, k') \<Rightarrow> asleep (mark_blocked (AcquireDone l) k')"
proof -
  from assms obtain loc where k: "kinv loc k" "status k (currentThread k) = RUNNING"
    by (auto simp: awake_def)
  consider "isHeldByCurrentThread k l" | "\<not> isHeldByCurrentThread k l" "lstate (locks k l) = FREE"
    | "\<not> isHeldByCurrentThread k l" "lstate (locks k l) = BUSY"
    by (cases "lstate (locks k l)") auto
  then show ?thesis
  proof cases
    case 1
    then show ?thesis using assms by (simp add: Acquire_try_def isHeldByCurrentThread_def)
  next
    case 2
    let ?k = "set_lock l ((locks k l)\<lparr>lstate := BUSY, threadWithPossession := Some (currentThread k)\<rparr>) k"
    have free: "threadWithPossession (locks k l) = None" "lqueue (locks k l) = []"
      using kinvD(2) [OF k(1)] 2(2) by (auto simp: locks_ok_def)
    have "queue_at ?k = queue_at k" by (simp add: fun_upd_idem)
    moreover have "cont_ok ?k t (loc t)" for t
      using free by (intro cont_ok_cong [OF kinvD(3) [OF k(1)]]) auto
    moreover have "locks_ok ?k" using kinvD(2) [OF k(1)] free by (simp add: locks_ok_def)
    ultimately have "kinv loc ?k" using k(1) by (simp add: kinv_def kcore_def sems_ok_def dead_ok_def)
    then show ?thesis using 2 k(2) by (auto simp: Acquire_try_def Let_def awake_def)
  next
    case 3
    let ?k = "set_lock l ((locks k l)\<lparr>lqueue := lqueue (locks k l) @ [currentThread k]\<rparr>) k"
    have "locks_ok ?k"
      using kinvD(2) [OF k(1)] 3 by (auto simp: locks_ok_def isHeldByCurrentThread_def)
    then have "kinv (loc(currentThread k := Some (AtLock l))) (mark_blocked (AcquireDone l) ?k)"
      using kinvD(4) [OF k(1)]
      by (intro block_kinv [OF kinvD(7) [OF k(1)] k(2)]) (auto simp: sems_ok_def)
    then show ?thesis
      using 3 by (auto simp: Acquire_try_def Let_def list_append_def asleep_def)
  qed
qed

lemma awake_not_idle: "awake k \<Longrightarrow> \<not> idle k \<Longrightarrow> kernel_inv k"
  by (auto simp: awake_def kernel_inv_def)

lemma P_try_frame:
  "P_try s k = (b, k') \<Longrightarrow> readyList k' = readyList k \<and> conts k' = conts k \<and> currentThread k' = currentThread k"
  by (auto simp: P_try_def Let_def split: if_splits)

lemma Acquire_try_frame:
  "Acquire_try l k = (b, k') \<Longrightarrow>
   readyList k' = readyList k \<and> conts k' = conts k \<and> currentThread k' = currentThread k"
  by (auto simp: Acquire_try_def Let_def split: if_splits)

text \<open>\<open>resumed k k'\<close>: the thread running in \<open>k'\<close> was ready in \<open>k\<close>, and holds the lock it waited for.\<close>

definition resumed :: "kernel \<Rightarrow> kernel \<Rightarrow> bool" where
  "resumed k k' \<longleftrightarrow> currentThread k' \<in> set (readyList k) \<and>
     (\<forall>l. conts k (currentThread k') \<in> {AcquireDone l, Reacquire l} \<longrightarrow>
        threadWithPossession (locks k' l) = Some (currentThread k'))"

definition run_next :: "tid \<Rightarrow> tid list \<Rightarrow> kernel \<Rightarrow> kernel" where
  "run_next t ts k = k\<lparr>readyList := ts, idle := False, currentThread := t,
     status := (status k)(t := RUNNING), conts := (conts k)(t := Returned)\<rparr>"

lemma run_next_core:
  assumes "kinv loc k" "status k (currentThread k) \<noteq> RUNNING" "readyList k = t # ts"
  shows "kcore (loc(t := None)) (run_next t ts k)" "conts k t \<noteq> Finished"
    "status (run_next t ts k) (currentThread (run_next t ts k)) = RUNNING"
    "\<And>l. conts k t = AcquireDone l \<Longrightarrow> threadWithPossession (locks k l) = Some t"
proof -
  note q = queue_loc [OF kinvD(7) [OF assms(1)], of InReady t ts]
  from assms(3) q have t: "loc t = Some InReady" "t \<notin> set ts" by auto
  then show nf: "conts k t \<noteq> Finished" using thread_ok_cases(1) [OF kinvD(7) [OF assms(1)]] by blast
  show "\<And>l. conts k t = AcquireDone l \<Longrightarrow> threadWithPossession (locks k l) = Some t"
    using kinvD(3) [OF assms(1), of t] t by simp
  show "status (run_next t ts k) (currentThread (run_next t ts k)) = RUNNING"
    by (simp add: run_next_def)
  have q': "queue_at (run_next t ts k) = (queue_at k)(InReady := ts)"
    by (simp add: fun_eq_iff all_place run_next_def)
  show "kcore (loc(t := None)) (run_next t ts k)"
    unfolding kcore_def
  proof (intro conjI allI impI)
    show "queues_ok (loc(t := None)) (queue_at (run_next t ts k)) (status (run_next t ts k))
      (\<lambda>u. conts (run_next t ts k) u = Finished)"
      using queues_ok_run(1) [OF kinvD(1) [OF assms(1)], of t ts] assms(3) nf
      unfolding q' by (auto simp: run_next_def elim!: queues_ok_cong_fin)
    show "cont_ok (run_next t ts k) u ((loc(t := None)) u)" for u
      by (cases "u = t") (auto simp: run_next_def intro!: cont_ok_cong [OF kinvD(3) [OF assms(1)]])
    show "u = currentThread (run_next t ts k)" if "status (run_next t ts k) u = RUNNING" for u
      using that kinvD(6) [OF assms(1), of u] assms(2) by (auto simp: run_next_def split: if_splits)
    show "locks_ok (run_next t ts k)"
      using kinvD(2) [OF assms(1)] by (simp add: locks_ok_def run_next_def)
    show "dead_ok (run_next t ts k)"
      using kinvD(5) [OF assms(1)] nf by (auto simp: dead_ok_def run_next_def)
  qed
qed

lemma run_next_sems:
  assumes "kinv loc k" "readyList k = t # ts"
  shows "if \<exists>s. conts k t = RetryP s then \<forall>s. conts k t = RetryP s \<longrightarrow> sems_slack s (run_next t ts k)
    else sems_ok (run_next t ts k)"
proof -
  have "t \<notin> set ts" using queue_loc(2) [OF kinvD(7) [OF assms(1)], of InReady t ts] assms(2) by simp
  then have "filter (\<lambda>u. conts (run_next t ts k) u = RetryP s) ts = filter (\<lambda>u. conts k u = RetryP s) ts" for s
    by (intro filter_cong) (auto simp: run_next_def)
  then have w: "int (woken k s) = int (woken (run_next t ts k) s) + (if conts k t = RetryP s then 1 else 0)" for s
    unfolding woken_def assms(2) by (simp add: run_next_def)
  have same: "sems (run_next t ts k) = sems k" by (simp add: run_next_def)
  have inv: "0 \<le> svalue (sems k u)" "squeue (sems k u) \<noteq> [] \<Longrightarrow> svalue (sems k u) \<le> int (woken k u)" for u
    using kinvD(4) [OF assms(1)] by (auto simp: sems_ok_def)
  show ?thesis
  proof (cases "\<exists>s. conts k t = RetryP s")
    case True
    then obtain s where s: "conts k t = RetryP s" by blast
    have "squeue (sems k u) \<noteq> [] \<longrightarrow>
        svalue (sems k u) \<le> int (woken (run_next t ts k) u) + (if u = s then 1 else 0)" for u
      using inv(2) [of u] w [of u] s by (cases "u = s") simp_all
    then show ?thesis
      unfolding if_P [OF True] using s inv(1) by (simp add: sems_slack_def same)
  next
    case False
    then have "woken (run_next t ts k) u = woken k u" for u using w [of u] by simp
    then show ?thesis unfolding if_not_P [OF False] using inv by (simp add: sems_ok_def same)
  qed
qed

lemma destroy_ok:
  assumes "kcore loc k" "status k (currentThread k) = RUNNING"
  shows "\<exists>k'. destroy_carcass k = Inr k' \<and> kcore loc k' \<and> currentThread k' = currentThread k \<and>
    status k' = status k \<and> conts k' = conts k \<and> readyList k' = readyList k \<and> locks k' = locks k \<and>
    sems k' = sems k \<and> idle k' = idle k"
proof (cases "threadToBeDestroyed k")
  case None
  then show ?thesis using assms by (simp add: destroy_carcass_def)
next
  case (Some d)
  then have d: "conts k d = Finished" using kcoreD(4) [OF assms(1)] by (simp add: dead_ok_def)
  then have "d \<noteq> currentThread k" using running_alone(2) [OF assms] by auto
  moreover have "queue_at (k\<lparr>deleted := insert d (deleted k), threadToBeDestroyed := None\<rparr>) = queue_at k"
    by (simp add: fun_eq_iff all_place)
  moreover have "cont_ok (k\<lparr>deleted := insert d (deleted k), threadToBeDestroyed := None\<rparr>) t (loc t)" for t
    by (rule cont_ok_cong [OF kcoreD(3) [OF assms(1)]]) auto
  ultimately have "destroy_carcass k = Inr (k\<lparr>deleted := insert d (deleted k), threadToBeDestroyed := None\<rparr>)"
    "kcore loc (k\<lparr>deleted := insert d (deleted k), threadToBeDestroyed := None\<rparr>)"
    using assms(1) d Some by (simp_all add: destroy_carcass_def kcore_def locks_ok_def dead_ok_def)
  then show ?thesis by simp
qed

lemma resumed_after_block:
  assumes "resumed (mark_blocked co k3) k'" "readyList k = t # ts" "readyList k3 = ts" "t \<notin> set ts"
    and "conts k3 = (conts k)(t := Returned)" "currentThread k3 = t"
  shows "resumed k k'"
  using assms by (auto simp: resumed_def split: if_splits)

lemma dispatch_ok:
  "asleep k \<Longrightarrow> \<exists>k'. dispatch k = Inr k' \<and> kernel_inv k' \<and> (\<not> idle k' \<longrightarrow> resumed k k')"
proof (induction k rule: dispatch.induct)
  case (1 k)
  then obtain loc where k: "kinv loc k" "status k (currentThread k) \<noteq> RUNNING"
    by (auto simp: asleep_def)
  show ?case
  proof (cases "readyList k")
    case Nil
    have "queue_at (k\<lparr>idle := True\<rparr>) = queue_at k" by (simp add: fun_eq_iff all_place)
    moreover have "cont_ok (k\<lparr>idle := True\<rparr>) t (loc t)" for t
      by (rule cont_ok_cong [OF kinvD(3) [OF k(1)]]) auto
    ultimately have "kinv loc (k\<lparr>idle := True\<rparr>)"
      using k(1) by (simp add: kinv_def kcore_def locks_ok_def sems_ok_def dead_ok_def woken_def)
    moreover have "dispatch k = Inr (k\<lparr>idle := True\<rparr>)"
      using Nil by (subst dispatch.simps) (simp add: FindNextToRun_def)
    ultimately show ?thesis using k(2) by (auto simp: kernel_inv_def)
  next
    case (Cons t ts)
    define k1 where "k1 = run_next t ts k"
    note core = run_next_core [OF k Cons, folded k1_def]
    note sem = run_next_sems [OF k(1) Cons, folded k1_def]
    have cur: "currentThread k1 = t" "idle k1 = False" "locks k1 = locks k" "conts k1 = (conts k)(t := Returned)"
      by (simp_all add: k1_def run_next_def)
    have find: "FindNextToRun k = (Some t, k\<lparr>readyList := ts\<rparr>)"
      using Cons by (simp add: FindNextToRun_def)
    have k1eq: "k1 = (k\<lparr>readyList := ts\<rparr>)\<lparr>idle := False, currentThread := t,
        status := (status (k\<lparr>readyList := ts\<rparr>))(t := RUNNING),
        conts := (conts (k\<lparr>readyList := ts\<rparr>))(t := Returned)\<rparr>"
      by (simp add: k1_def run_next_def)
    have dsp: "dispatch k = (if conts k t = Start then Inr k1
      else bind_result (destroy_carcass k1) (\<lambda>k2.
        case conts k t of
          RetryP s \<Rightarrow> (case P_try s k2 of (True, k3) \<Rightarrow> Inr k3
             | (False, k3) \<Rightarrow> dispatch (mark_blocked (RetryP s) k3))
        | Reacquire l \<Rightarrow> (case Acquire_try l k2 of (True, k3) \<Rightarrow> Inr k3
             | (False, k3) \<Rightarrow> dispatch (mark_blocked (AcquireDone l) k3))
        | _ \<Rightarrow> Inr k2))"
      by (subst dispatch.simps) (simp add: find Let_def k1_def run_next_def)
    have tts: "t \<notin> set ts" using queue_loc(2) [OF kinvD(7) [OF k(1)], of InReady t ts] Cons by simp
    obtain k2 where k2: "destroy_carcass k1 = Inr k2" "kcore (loc(t := None)) k2" "currentThread k2 = t"
      "status k2 = status k1" "conts k2 = conts k1" "readyList k2 = ts" "locks k2 = locks k"
      "sems k2 = sems k" "idle k2 = False"
      using destroy_ok [OF core(1,3)] cur by (auto simp: k1_def run_next_def)
    then have run2: "status k2 (currentThread k2) = RUNNING" using core(3) cur by simp
    have wok: "woken k2 = woken k1" using k2 by (simp add: woken_def fun_eq_iff k1_def run_next_def)
    have plain: "awake k2" "kernel_inv k2" if "\<nexists>s. conts k t = RetryP s"
    proof -
      have "sems k1 = sems k" by (simp add: k1_def run_next_def)
      then have "sems_ok k2" using sem that k2 wok by (simp add: sems_ok_def)
      then show "awake k2" using k2(2) run2 by (auto simp: awake_def kinv_def)
      then show "kernel_inv k2" using k2(9) by (simp add: awake_not_idle)
    qed
    show ?thesis
    proof (cases "conts k t")
      case Start
      then have "awake k1" using sem core by (auto simp: awake_def kinv_def)
      then have "kernel_inv k1" using cur by (simp add: awake_not_idle)
      then show ?thesis using Start dsp cur Cons by (simp add: resumed_def)
    next
      case Returned
      then show ?thesis using dsp k2 plain Cons by (simp add: resumed_def)
    next
      case (AcquireDone l)
      then show ?thesis using dsp k2 plain Cons core(4) [OF AcquireDone] by (simp add: resumed_def)
    next
      case Finished
      with core(2) show ?thesis by simp
    next
      case (RetryP s)
      have "sems k1 = sems k" by (simp add: k1_def run_next_def)
      then have "sems_slack s k2" using sem RetryP k2 wok by (simp add: sems_slack_def)
      note p = P_try_kinv [OF k2(2) run2 this]
      show ?thesis
      proof (cases "P_try s k2")
        case (Pair b k3)
        note fr = P_try_frame [OF Pair]
        show ?thesis
        proof (cases b)
          case True
          with p Pair k2 have "kernel_inv k3" by (simp add: awake_not_idle)
          then show ?thesis using dsp k2 Pair True RetryP fr Cons by (simp add: resumed_def)
        next
          case False
          with Pair have Pf: "P_try s k2 = (False, k3)" by simp
          with p have as: "asleep (mark_blocked (RetryP s) k3)" by simp
          have "conts (k\<lparr>readyList := ts\<rparr>) t \<noteq> Start" "conts (k\<lparr>readyList := ts\<rparr>) t = RetryP s"
            using RetryP by simp_all
          from 1(1) [OF find [symmetric] refl k1eq this(1) k2(1) this(2) Pf [symmetric] refl as]
          obtain k' where k': "dispatch (mark_blocked (RetryP s) k3) = Inr k'" "kernel_inv k'"
            "\<not> idle k' \<longrightarrow> resumed (mark_blocked (RetryP s) k3) k'" by blast
          have "conts k3 = (conts k)(t := Returned)" "readyList k3 = ts" "currentThread k3 = t"
            using fr k2 cur by simp_all
          with k'(3) have "\<not> idle k' \<longrightarrow> resumed k k'"
            using resumed_after_block [OF _ Cons _ tts] by blast
          with k' dsp k2(1) Pf RetryP show ?thesis by simp
        qed
      qed
    next
      case (Reacquire l)
      note p = Acquire_try_kinv [OF plain(1), of l]
      show ?thesis
      proof (cases "Acquire_try l k2")
        case (Pair b k3)
        note fr = Acquire_try_frame [OF Pair]
        have np: "\<nexists>s. conts k t = RetryP s" using Reacquire by simp
        show ?thesis
        proof (cases b)
          case True
          with p [OF np] Pair k2 have "kernel_inv k3" "threadWithPossession (locks k3 l) = Some t"
            by (simp_all add: awake_not_idle)
          then show ?thesis using dsp k2 Pair True Reacquire fr Cons by (simp add: resumed_def)
        next
          case False
          with Pair have Pf: "Acquire_try l k2 = (False, k3)" by simp
          with p [OF np] have as: "asleep (mark_blocked (AcquireDone l) k3)" by simp
          have "conts (k\<lparr>readyList := ts\<rparr>) t \<noteq> Start" "conts (k\<lparr>readyList := ts\<rparr>) t = Reacquire l"
            using Reacquire by simp_all
          from 1(2) [OF find [symmetric] refl k1eq this(1) k2(1) this(2) Pf [symmetric] refl as]
          obtain k' where k': "dispatch (mark_blocked (AcquireDone l) k3) = Inr k'" "kernel_inv k'"
            "\<not> idle k' \<longrightarrow> resumed (mark_blocked (AcquireDone l) k3) k'" by blast
          have "conts k3 = (conts k)(t := Returned)" "readyList k3 = ts" "currentThread k3 = t"
            using fr k2 cur by simp_all
          with k'(3) have "\<not> idle k' \<longrightarrow> resumed k k'"
            using resumed_after_block [OF _ Cons _ tts] by blast
          with k' dsp k2(1) Pf Reacquire show ?thesis by simp
        qed
      qed
    qed
  qed
qed

section \<open>Every routine keeps the invariant and returns\<close>

lemma awake_kinv: "awake k \<Longrightarrow> \<exists>loc. kinv loc k" and asleep_kinv: "asleep k \<Longrightarrow> \<exists>loc. kinv loc k"
  by (auto simp: awake_def asleep_def)

lemma queued_not_running:
  assumes "kinv loc k" "queue_at k p = t # q"
  shows "status k t \<noteq> RUNNING"
  using queue_loc(1) [OF kinvD(7) [OF assms(1)] assms(2)] thread_ok_cases(1) [OF kinvD(7) [OF assms(1)]]
  by fastforce

lemma V_status:
  assumes "kinv loc k"
  shows "status (V s k) (currentThread k) = RUNNING \<longleftrightarrow> status k (currentThread k) = RUNNING"
    "currentThread (V s k) = currentThread k" "idle (V s k) = idle k"
proof -
  show "status (V s k) (currentThread k) = RUNNING \<longleftrightarrow> status k (currentThread k) = RUNNING"
  proof (cases "squeue (sems k s)")
    case Nil
    then show ?thesis by (simp add: V_def Let_def)
  next
    case (Cons t q)
    with queued_not_running [OF assms, of "AtSem s" t q] show ?thesis by (auto simp: V_def Let_def)
  qed
  show "currentThread (V s k) = currentThread k" "idle (V s k) = idle k"
    by (cases "squeue (sems k s)"; simp add: V_def Let_def)+
qed

lemma V_awake: "awake k \<Longrightarrow> awake (V s k)" and V_asleep: "asleep k \<Longrightarrow> asleep (V s k)"
  using V_kinv V_status by (auto simp: awake_def asleep_def)

lemma Release_frame:
  "currentThread (Release l k) = currentThread k \<and> idle (Release l k) = idle k \<and>
   conds (Release l k) = conds k \<and> conts (Release l k) = conts k"
  by (cases "lqueue (locks k l)") (simp_all add: Release_def Let_def)

lemma Release_awake: "awake k \<Longrightarrow> awake (Release l k)"
proof -
  assume "awake k"
  then obtain loc where k: "kinv loc k" "status k (currentThread k) = RUNNING" by (auto simp: awake_def)
  have "status (Release l k) (currentThread k) = RUNNING"
  proof (cases "lqueue (locks k l)")
    case Nil
    then show ?thesis using k(2) by (simp add: Release_def Let_def)
  next
    case (Cons t q)
    with queued_not_running [OF k(1), of "AtLock l" t q] k(2) show ?thesis
      by (auto simp: Release_def Let_def)
  qed
  then show ?thesis using Release_kinv [OF k, of l] Release_frame [of l k] by (simp add: awake_def)
qed

lemma Signal_frame:
  "currentThread (Signal c lo k) = currentThread k \<and> idle (Signal c lo k) = idle k \<and>
   locks (Signal c lo k) = locks k \<and> conts (Signal c lo k) = conts k"
  by (cases "cqueue (conds k c)") (auto simp: Signal_def Let_def split: option.splits)

lemma Signal_awake: "awake k \<Longrightarrow> awake (Signal c lo k)"
proof -
  assume "awake k"
  then obtain loc where k: "kinv loc k" "status k (currentThread k) = RUNNING" by (auto simp: awake_def)
  have "status (Signal c lo k) (currentThread k) = RUNNING"
  proof (cases "cqueue (conds k c)")
    case Nil
    then show ?thesis using k(2) by (auto simp: Signal_def Let_def split: option.splits)
  next
    case (Cons t q)
    with queued_not_running [OF k(1), of "AtCond c" t q] k(2) show ?thesis
      by (auto simp: Signal_def Let_def split: option.splits)
  qed
  then show ?thesis using Signal_kinv [OF k(1), of c lo] Signal_frame [of c lo k] by (simp add: awake_def)
qed

lemma Sleep_ok:
  "asleep (mark_blocked co k) \<Longrightarrow>
   \<exists>k'. Sleep co k = Inr k' \<and> kernel_inv k' \<and> (\<not> idle k' \<longrightarrow> resumed (mark_blocked co k) k')"
  using dispatch_ok by (simp add: Sleep_def)

text \<open>
  \<open>handover k k'\<close>: a thread that a step has brought back from \<open>Acquire\<close> or \<open>Wait\<close> holds the lock.
\<close>

definition handover :: "kernel \<Rightarrow> kernel \<Rightarrow> bool" where
  "handover k k' \<longleftrightarrow> (\<not> idle k' \<and> (idle k \<or> currentThread k' \<noteq> currentThread k) \<longrightarrow>
     (\<forall>l. conts k (currentThread k') \<in> {AcquireDone l, Reacquire l} \<longrightarrow>
        threadWithPossession (locks k' l) = Some (currentThread k')))"

lemma handover_same: "\<not> idle k \<Longrightarrow> currentThread k' = currentThread k \<Longrightarrow> handover k k'"
  by (simp add: handover_def)

lemma handover_resumed:
  assumes "\<not> idle k' \<longrightarrow> resumed k1 k'" "\<And>u. u \<noteq> currentThread k \<Longrightarrow> conts k1 u = conts k u"
    "idle k \<Longrightarrow> conts k1 = conts k"
  shows "handover k k'"
  using assms by (auto simp: handover_def resumed_def)

lemma Acquire_ok:
  assumes "awake k" "\<not> idle k"
  shows "\<exists>k'. Acquire l k = Inr k' \<and> kernel_inv k' \<and> handover k k' \<and>
    (\<not> idle k' \<and> currentThread k' = currentThread k \<longrightarrow>
       threadWithPossession (locks k' l) = Some (currentThread k))"
proof (cases "Acquire_try l k")
  case (Pair b k1)
  note a = Acquire_try_kinv [OF assms(1), of l] and fr = Acquire_try_frame [OF Pair]
  show ?thesis
  proof (cases b)
    case True
    with a Pair assms show ?thesis by (simp add: Acquire_def awake_not_idle handover_same)
  next
    case False
    with a Pair have "asleep (mark_blocked (AcquireDone l) k1)" by simp
    from Sleep_ok [OF this] obtain k' where k': "Sleep (AcquireDone l) k1 = Inr k'" "kernel_inv k'"
      "\<not> idle k' \<longrightarrow> resumed (mark_blocked (AcquireDone l) k1) k'" by blast
    moreover have "handover k k'" using fr assms(2) by (intro handover_resumed [OF k'(3)]) auto
    ultimately show ?thesis
      using fr Pair False by (auto simp: Acquire_def resumed_def)
  qed
qed

lemma P_ok:
  assumes "awake k" "\<not> idle k"
  shows "\<exists>k'. P s k = Inr k' \<and> kernel_inv k' \<and> handover k k'"
proof (cases "P_try s k")
  case (Pair b k1)
  from assms(1) obtain loc where k: "kinv loc k" "status k (currentThread k) = RUNNING"
    by (auto simp: awake_def)
  have "sems_slack s k" using kinvD(4) [OF k(1)] by (force simp: sems_ok_def sems_slack_def)
  note p = P_try_kinv [OF kinvD(7) [OF k(1)] k(2) this]
  show ?thesis
  proof (cases b)
    case True
    with p Pair assms show ?thesis by (simp add: P_def awake_not_idle handover_same)
  next
    case False
    with p Pair have "asleep (mark_blocked (RetryP s) k1)" by simp
    from Sleep_ok [OF this] obtain k' where k': "Sleep (RetryP s) k1 = Inr k'" "kernel_inv k'"
      "\<not> idle k' \<longrightarrow> resumed (mark_blocked (RetryP s) k1) k'" by blast
    moreover have "handover k k'"
      using P_try_frame [OF Pair] assms(2) by (intro handover_resumed [OF k'(3)]) auto
    ultimately show ?thesis using Pair False by (simp add: P_def)
  qed
qed

lemma set_waitingLock_awake:
  assumes "awake k" "waitingLock (conds k c) = None"
  shows "awake (set_cond c ((conds k c)\<lparr>waitingLock := Some l\<rparr>) k)"
proof -
  from assms(1) obtain loc where k: "kinv loc k" "status k (currentThread k) = RUNNING"
    by (auto simp: awake_def)
  let ?k = "set_cond c ((conds k c)\<lparr>waitingLock := Some l\<rparr>) k"
  have "queue_at ?k = queue_at k" by (simp add: fun_upd_idem)
  moreover have "cont_ok ?k t (loc t)" for t
  proof -
    have "loc t \<noteq> Some (AtCond c)" using kinvD(3) [OF k(1), of t] assms(2) by auto
    then show ?thesis by (intro cont_ok_cong [OF kinvD(3) [OF k(1)]]) auto
  qed
  ultimately have "kinv loc ?k"
    using k(1) by (simp add: kinv_def kcore_def locks_ok_def sems_ok_def dead_ok_def)
  then show ?thesis using k(2) by (auto simp: awake_def)
qed

lemma Wait_ok:
  assumes "awake k" "\<not> idle k"
  shows "\<exists>k'. Wait c lo k = Inr k' \<and> kernel_inv k' \<and> handover k k'"
proof (cases lo)
  case None
  then show ?thesis using assms by (simp add: Wait_def awake_not_idle handover_same)
next
  case (Some l)
  define x1 where "x1 = (if waitingLock (conds k c) = None then (conds k c)\<lparr>waitingLock := Some l\<rparr> else conds k c)"
  define k1 where "k1 = set_cond c x1 k"
  have k1: "awake k1" "\<not> idle k1" "currentThread k1 = currentThread k"
    using assms set_waitingLock_awake [OF assms(1), of c l]
    by (auto simp: k1_def x1_def set_cond_def)
  show ?thesis
  proof (cases "Some l = waitingLock x1 \<and> isHeldByCurrentThread k1 l")
    case False
    then have "Wait c lo k = Inr k1" using Some by (auto simp: Wait_def Let_def k1_def x1_def)
    then show ?thesis using k1 assms(2) by (simp add: awake_not_idle handover_same)
  next
    case True
    define k2 where "k2 = Release l k1"
    define k3 where "k3 = set_cond c ((conds k2 c)\<lparr>cqueue := cqueue (conds k2 c) @ [currentThread k2]\<rparr>) k2"
    have w: "Wait c lo k = Sleep (Reacquire l) k3"
      using Some True by (simp add: Wait_def Let_def k1_def x1_def k2_def k3_def list_append_def)
    have "awake k2" unfolding k2_def by (rule Release_awake [OF k1(1)])
    then obtain loc where kk: "kinv loc k2" "status k2 (currentThread k2) = RUNNING"
      by (auto simp: awake_def)
    have "waitingLock (conds k2 c) = Some l"
      using True Release_frame [of l k1] by (simp add: k2_def k1_def)
    then have "kinv (loc(currentThread k2 := Some (AtCond c))) (mark_blocked (Reacquire l) k3)"
      using kinvD(2,4) [OF kk(1)]
      by (intro block_kinv [OF kinvD(7) [OF kk(1)] kk(2)])
        (auto simp: k3_def locks_ok_def sems_ok_def)
    then have "asleep (mark_blocked (Reacquire l) k3)" by (auto simp: asleep_def)
    from Sleep_ok [OF this] obtain k' where k': "Sleep (Reacquire l) k3 = Inr k'" "kernel_inv k'"
      "\<not> idle k' \<longrightarrow> resumed (mark_blocked (Reacquire l) k3) k'" by blast
    moreover have "handover k k'"
      using Release_frame [of l k1] k1 assms(2)
      by (intro handover_resumed [OF k'(3)]) (auto simp: k3_def k2_def k1_def)
    ultimately show ?thesis using w by simp
  qed
qed

lemma Broadcast_loop_ok:
  "awake k \<Longrightarrow> waitingLock (conds k c) = Some l \<Longrightarrow> isHeldByCurrentThread k l \<Longrightarrow>
   cqueue (conds k c) \<noteq> [] \<Longrightarrow>
   \<exists>k'. broadcast_loop c l k = Some k' \<and> awake k' \<and> idle k' = idle k \<and>
     currentThread k' = currentThread k \<and> conts k' = conts k \<and>
     cqueue (conds k' c) = [] \<and> waitingLock (conds k' c) = None \<and>
     readyList k' = readyList k @ cqueue (conds k c)"
proof (induction "length (cqueue (conds k c))" arbitrary: k)
  case 0
  then show ?case by simp
next
  case (Suc n)
  then obtain t q where tq: "cqueue (conds k c) = t # q" by (cases "cqueue (conds k c)") auto
  let ?k = "Signal c (Some l) k"
  have sg: "?k = set_cond c ((conds k c)\<lparr>cqueue := q,
      waitingLock := (if q = [] then None else waitingLock (conds k c))\<rparr>) (ReadyToRun t k)"
    using Suc.prems tq by (simp add: Signal_def Let_def)
  have unf: "broadcast_loop c l k = broadcast_loop c l ?k"
    using tq by (subst broadcast_loop.simps) simp
  show ?case
  proof (cases "q = []")
    case True
    then have "broadcast_loop c l ?k = Some ?k"
      by (subst broadcast_loop.simps) (simp add: sg)
    then show ?thesis
      using unf Signal_awake [OF Suc.prems(1), of c "Some l"] tq True by (simp add: sg)
  next
    case False
    have "\<exists>k'. broadcast_loop c l ?k = Some k' \<and> awake k' \<and> idle k' = idle ?k \<and>
     currentThread k' = currentThread ?k \<and> conts k' = conts ?k \<and>
     cqueue (conds k' c) = [] \<and> waitingLock (conds k' c) = None \<and>
     readyList k' = readyList ?k @ cqueue (conds ?k c)"
    proof (rule Suc.hyps(1))
      show "n = length (cqueue (conds ?k c))" using Suc.hyps(2) tq by (simp add: sg)
      show "awake ?k" by (rule Signal_awake [OF Suc.prems(1)])
    qed (use Suc.prems tq False in \<open>simp_all add: sg isHeldByCurrentThread_def\<close>)
    then show ?thesis using unf tq by (auto simp: sg)
  qed
qed

lemma Broadcast_ok:
  assumes "awake k"
  shows "\<exists>k'. Broadcast c lo k = Some k' \<and> awake k' \<and> idle k' = idle k \<and> currentThread k' = currentThread k"
proof (cases lo)
  case None
  then show ?thesis using assms by (simp add: Broadcast_def)
next
  case (Some l)
  show ?thesis
  proof (cases "cqueue (conds k c) \<noteq> [] \<and> waitingLock (conds k c) = Some l \<and> isHeldByCurrentThread k l")
    case True
    with Broadcast_loop_ok [OF assms, of c l] Some show ?thesis by (auto simp: Broadcast_def)
  next
    case False
    with Some assms show ?thesis by (auto simp: Broadcast_def)
  qed
qed

lemma enter_ready:
  assumes "kinv loc k" "loc t = None" "conts k t \<noteq> Finished" "\<And>l. co \<noteq> AcquireDone l" "co \<noteq> Finished"
    "\<And>s. co \<noteq> RetryP s"
  shows "kinv (loc(t := Some InReady)) (ReadyToRun t (k\<lparr>conts := (conts k)(t := co)\<rparr>))"
proof -
  let ?k = "ReadyToRun t (k\<lparr>conts := (conts k)(t := co)\<rparr>)"
  have tr: "t \<notin> set (readyList k)"
    using queues_okD(2) [OF kinvD(1) [OF assms(1)], of t InReady] assms(2) by simp
  then have "woken ?k s = woken k s" for s
    using assms(6) by (auto simp: woken_def ReadyToRun_def list_append_def
        intro!: arg_cong [where f = length] filter_cong)
  then have "sems_ok ?k" using kinvD(4) [OF assms(1)] by (simp add: sems_ok_def)
  moreover have "queue_at ?k = (queue_at k)(InReady := readyList k @ [t])"
    by (simp add: fun_eq_iff all_place ReadyToRun_def list_append_def)
  then have "queues_ok (loc(t := Some InReady)) (queue_at ?k) (status ?k) (\<lambda>u. conts ?k u = Finished)"
    using queues_ok_enter [OF kinvD(1) [OF assms(1)] assms(2,3), of InReady] assms(3,5)
    by (auto elim!: queues_ok_cong_fin)
  moreover have "cont_ok ?k u ((loc(t := Some InReady)) u)" for u
    using assms(4) by (cases "u = t") (auto intro!: cont_ok_cong [OF kinvD(3) [OF assms(1)]])
  moreover have "dead_ok ?k" using kinvD(5) [OF assms(1)] assms(3) by (auto simp: dead_ok_def)
  moreover have "u = currentThread ?k" if "status ?k u = RUNNING" for u
    using that kinvD(6) [OF assms(1), of u] by (auto split: if_splits)
  ultimately show ?thesis
    using kinvD(2) [OF assms(1)] unfolding kinv_def kcore_def by (simp add: locks_ok_def)
qed

lemma Yield_asleep:
  assumes "awake k"
  shows "asleep (ReadyToRun (currentThread k) (k\<lparr>conts := (conts k)(currentThread k := Returned)\<rparr>))"
proof -
  from assms(1) obtain loc where k: "kinv loc k" "status k (currentThread k) = RUNNING"
    by (auto simp: awake_def)
  note cur = running_alone [OF kinvD(7) [OF k(1)] k(2)]
  have "kinv (loc(currentThread k := Some InReady))
      (ReadyToRun (currentThread k) (k\<lparr>conts := (conts k)(currentThread k := Returned)\<rparr>))"
    by (rule enter_ready [OF k(1) cur]) auto
  then show ?thesis by (auto simp: asleep_def)
qed

lemma Yield_ok:
  assumes "awake k" "\<not> idle k"
  shows "\<exists>k'. Yield k = Inr k' \<and> kernel_inv k' \<and> handover k k'"
proof (cases "readyList k")
  case Nil
  then show ?thesis using assms by (simp add: Yield_def awake_not_idle handover_same)
next
  case (Cons t ts)
  from dispatch_ok [OF Yield_asleep [OF assms(1)]] obtain k' where k': "Yield k = Inr k'" "kernel_inv k'"
    "\<not> idle k' \<longrightarrow> resumed (ReadyToRun (currentThread k)
        (k\<lparr>conts := (conts k)(currentThread k := Returned)\<rparr>)) k'"
    using Cons by (auto simp: Yield_def)
  moreover have "handover k k'"
    using assms(2) by (intro handover_resumed [OF k'(3)]) auto
  ultimately show ?thesis by blast
qed

lemma Fork_ok:
  assumes "awake k" "status k t = JUST_CREATED"
  shows "awake (Fork t k)" "idle (Fork t k) = idle k"
proof -
  from assms(1) obtain loc where k: "kinv loc k" "status k (currentThread k) = RUNNING"
    by (auto simp: awake_def)
  have l: "loc t = None"
    using thread_ok_cases(1) [OF kinvD(7) [OF k(1)], of t] assms(2) by (cases "loc t") auto
  then have "conts k t \<noteq> Finished"
    using thread_ok_cases(2) [OF kinvD(7) [OF k(1)], of t] assms(2) by auto
  from enter_ready [OF k(1) l this, of Start] k(2) assms(2)
  show "awake (Fork t k)" "idle (Fork t k) = idle k" by (auto simp: awake_def Fork_def)
qed

lemma Finish_asleep:
  assumes "awake k"
  shows "asleep (mark_blocked Finished (k\<lparr>threadToBeDestroyed := Some (currentThread k)\<rparr>))"
proof -
  from assms(1) obtain loc where k: "kinv loc k" "status k (currentThread k) = RUNNING"
    by (auto simp: awake_def)
  note cur = running_alone [OF kinvD(7) [OF k(1)] k(2)]
  define k1 where "k1 = mark_blocked Finished (k\<lparr>threadToBeDestroyed := Some (currentThread k)\<rparr>)"
  have q: "queue_at k1 = queue_at k" by (simp add: k1_def fun_eq_iff all_place)
  have nr: "currentThread k \<notin> set (readyList k)"
    using queues_okD(2) [OF kinvD(1) [OF k(1)], of "currentThread k" InReady] cur by simp
  have w: "woken k1 s = woken k s" for s
    using woken_mark_blocked [of "k\<lparr>threadToBeDestroyed := Some (currentThread k)\<rparr>" Finished s] nr
    by (simp add: k1_def woken_def)
  have "kcore loc k1"
    unfolding kcore_def
  proof (intro conjI allI impI)
    show "queues_ok loc (queue_at k1) (status k1) (\<lambda>u. conts k1 u = Finished)"
      using queues_ok_finish [OF kinvD(1) [OF k(1)] cur(1)] unfolding q
      by (auto simp: k1_def elim!: queues_ok_cong_fin)
    show "cont_ok k1 u (loc u)" for u
      using cur by (cases "u = currentThread k")
        (auto simp: k1_def intro!: cont_ok_cong [OF kinvD(3) [OF k(1)]])
    show "dead_ok k1" using kinvD(5) [OF k(1)] by (auto simp: dead_ok_def k1_def)
    show "u = currentThread k1" if "status k1 u = RUNNING" for u
      using that kinvD(6) [OF k(1), of u] by (auto simp: k1_def split: if_splits)
    show "locks_ok k1" using kinvD(2) [OF k(1)] by (simp add: locks_ok_def k1_def)
  qed
  moreover have "sems_ok k1" using kinvD(4) [OF k(1)] w by (simp add: sems_ok_def k1_def)
  ultimately have "kinv loc k1" by (simp add: kinv_def)
  then show ?thesis by (auto simp: asleep_def k1_def)
qed

lemma Finish_ok:
  assumes "awake k" "\<not> idle k"
  shows "\<exists>k'. Finish k = Inr k' \<and> kernel_inv k' \<and> handover k k'"
proof -
  let ?k = "mark_blocked Finished (k\<lparr>threadToBeDestroyed := Some (currentThread k)\<rparr>)"
  from dispatch_ok [OF Finish_asleep [OF assms(1)]] obtain k' where k': "Finish k = Inr k'" "kernel_inv k'"
    "\<not> idle k' \<longrightarrow> resumed ?k k'"
    by (auto simp: Finish_def Sleep_def)
  moreover have "handover k k'"
    using assms(2) by (intro handover_resumed [OF k'(3)]) auto
  ultimately show ?thesis by blast
qed

lemma exec_ok:
  assumes "kernel_inv k" "\<not> idle k" "\<And>t. p = Op_Fork t \<Longrightarrow> status k t = JUST_CREATED"
  shows "\<exists>k'. exec p k = Some (Inr k') \<and> kernel_inv k' \<and> handover k k'"
proof -
  have aw: "awake k" using assms(1,2) by (auto simp: kernel_inv_def awake_def)
  show ?thesis
  proof (cases p)
    case (Op_Acquire l)
    with Acquire_ok [OF aw assms(2), of l] show ?thesis by auto
  next
    case (Op_Release l)
    with Release_awake [OF aw, of l] Release_frame [of l k] assms(2)
    show ?thesis by (simp add: awake_not_idle handover_same)
  next
    case (Op_Wait c lo)
    with Wait_ok [OF aw assms(2), of c lo] show ?thesis by auto
  next
    case (Op_Signal c lo)
    with Signal_awake [OF aw, of c lo] Signal_frame [of c lo k] assms(2)
    show ?thesis by (simp add: awake_not_idle handover_same)
  next
    case (Op_Broadcast c lo)
    with Broadcast_ok [OF aw, of c lo] assms(2) show ?thesis by (auto simp: awake_not_idle handover_same)
  next
    case (Op_P s)
    with P_ok [OF aw assms(2), of s] show ?thesis by auto
  next
    case (Op_V s)
    have "\<not> idle (V s k)" using aw V_status(3) assms(2) by (auto simp: awake_def)
    with V_awake [OF aw, of s] Op_V assms(2) V_status(2) aw show ?thesis by (auto simp: awake_not_idle awake_def intro!: handover_same)
  next
    case Op_Yield
    with Yield_ok [OF aw assms(2)] show ?thesis by auto
  next
    case (Op_Fork t)
    then show ?thesis using Fork_ok [OF aw assms(3)] assms(2)
      by (simp add: awake_not_idle handover_same Fork_def)
  next
    case Op_Finish
    with Finish_ok [OF aw assms(2)] show ?thesis by auto
  qed
qed

lemma device_V_ok:
  assumes "kernel_inv k"
  shows "\<exists>k'. device_V s k = Inr k' \<and> kernel_inv k' \<and> handover k k'"
proof (cases "idle k")
  case True
  with assms have "asleep k" by (auto simp: kernel_inv_def asleep_def)
  from dispatch_ok [OF V_asleep [OF this, of s]] obtain k' where k': "dispatch (V s k) = Inr k'"
    "kernel_inv k'" "\<not> idle k' \<longrightarrow> resumed (V s k) k'" by blast
  moreover have "conts (V s k) = conts k"
    by (cases "squeue (sems k s)") (simp_all add: V_def Let_def)
  then have "handover k k'" by (intro handover_resumed [OF k'(3)]) auto
  ultimately show ?thesis using True by (simp add: device_V_def)
next
  case False
  with assms have "awake k" by (auto simp: kernel_inv_def awake_def)
  then obtain loc where "kinv loc k" by (auto simp: awake_def)
  note st = V_status [OF this, of s]
  have "kernel_inv (V s k)" using V_awake [OF \<open>awake k\<close>, of s] st(3) False by (simp add: awake_not_idle)
  then show ?thesis using False st by (simp add: device_V_def handover_same)
qed

lemma boot_inv: "(\<And>s. 0 \<le> v s) \<Longrightarrow> kernel_inv (boot v)"
proof -
  assume v: "\<And>s. 0 \<le> v s"
  have q: "queue_at (boot v) p = []" for p
    by (cases p) (simp_all add: boot_def new_Lock_def new_Condition_def new_Semaphore_def)
  have "kinv (\<lambda>_. None) (boot v)"
    using v unfolding kinv_def kcore_def queues_ok_def q
    by (simp add: boot_def thread_ok_def locks_ok_def sems_ok_def dead_ok_def new_Lock_def
        new_Semaphore_def)
  then show ?thesis by (auto simp: kernel_inv_def boot_def)
qed

lemma kstep_inv:
  assumes "kernel_inv k" "kstep k k'"
  shows "kernel_inv k' \<and> handover k k'"
  using assms(2)
proof cases
  case (call p)
  with exec_ok [OF assms(1), of p] show ?thesis by force
next
  case (device s)
  with device_V_ok [OF assms(1), of s] show ?thesis by simp
qed

lemma reachable_inv: "reachable k \<Longrightarrow> kernel_inv k"
  by (induction rule: reachable.induct) (auto intro: boot_inv dest: kstep_inv)

section \<open>Properties\<close>

text \<open>
  C8: no thread is ever lost or in two places. In every reachable state of the kernel a thread
  is at most once in at most one queue (ready list, lock, condition variable or semaphore); the
  ready threads are exactly those of the ready list; a blocked thread has finished or waits in
  some queue; and only the current thread is running.
\<close>

theorem every_thread_in_one_place:
  assumes "reachable k"
  shows "distinct (queue_at k p) \<and>
    (t \<in> set (queue_at k p) \<and> t \<in> set (queue_at k q) \<longrightarrow> p = q) \<and>
    (status k t = READY \<longleftrightarrow> t \<in> set (readyList k)) \<and>
    (status k t = BLOCKED \<longleftrightarrow> conts k t = Finished \<or> (\<exists>p. p \<noteq> InReady \<and> t \<in> set (queue_at k p))) \<and>
    (status k t = RUNNING \<longleftrightarrow> t = currentThread k \<and> \<not> idle k)"
proof -
  from reachable_inv [OF assms] obtain loc where k: "kinv loc k"
    and run: "idle k \<longleftrightarrow> status k (currentThread k) \<noteq> RUNNING" by (auto simp: kernel_inv_def)
  note qd = queues_okD [OF kinvD(1) [OF k]]
  note tc = thread_ok_cases [OF kinvD(7) [OF k], of t]
  have ready: "t \<in> set (readyList k) \<longleftrightarrow> loc t = Some InReady" using qd(2) [of t InReady] by simp
  have "status k t = READY \<longleftrightarrow> loc t = Some InReady"
    using tc by (cases "loc t") (auto simp: place_status_def split: if_splits)
  moreover have "status k t = BLOCKED \<longleftrightarrow> conts k t = Finished \<or> (\<exists>p. p \<noteq> InReady \<and> loc t = Some p)"
    using tc by (cases "loc t") (auto simp: place_status_def split: if_splits)
  moreover have "status k t = RUNNING \<longleftrightarrow> t = currentThread k \<and> \<not> idle k"
    using kinvD(6) [OF k, of t] run by auto
  ultimately show ?thesis using qd(1) [of p] by (auto simp: qd(2) ready)
qed

lemma reachable_exec:
  assumes "reachable k" "\<not> idle k" "\<And>t. p = Op_Fork t \<Longrightarrow> status k t = JUST_CREATED"
  shows "\<exists>k'. exec p k = Some (Inr k') \<and> reachable k'"
proof -
  obtain k' where "exec p k = Some (Inr k')"
    using exec_ok [OF reachable_inv [OF assms(1)] assms(2,3)] by blast
  moreover from this have "kstep k k'" using assms(2,3) by (intro kstep.call) auto
  ultimately show ?thesis using reachable.step [OF assms(1)] by blast
qed

lemma boot_reachable: "reachable (boot (\<lambda>_. 1))"
  by (rule reachable.init) simp

text \<open>Thread 0 takes lock 0, starts threads 1 and 2 and yields; thread 1 then waits for the lock.\<close>

definition sample_kernel :: kernel where
  "sample_kernel = (boot (\<lambda>_. 1))\<lparr>currentThread := 2, readyList := [0],
     status := (\<lambda>t. if t = 0 then READY else if t = 1 then BLOCKED else if t = 2 then RUNNING else JUST_CREATED),
     conts := (\<lambda>_. Returned)(1 := AcquireDone 0),
     locks := (\<lambda>_. new_Lock None)(0 := \<lparr>lstate = BUSY, threadWithPossession = Some 0, lqueue = [1]\<rparr>)\<rparr>"

text \<open>A sequence of calls, each by the thread then running.\<close>

fun run_ops :: "kop list \<Rightarrow> kernel \<Rightarrow> kernel option" where
  "run_ops [] k = Some k"
| "run_ops (p # ps) k =
     (if \<not> idle k \<and> (case p of Op_Fork t \<Rightarrow> status k t = JUST_CREATED | _ \<Rightarrow> True)
      then (case exec p k of Some (Inr k') \<Rightarrow> run_ops ps k' | _ \<Rightarrow> None) else None)"

lemma run_ops_reachable: "reachable k \<Longrightarrow> run_ops ps k = Some k' \<Longrightarrow> reachable k'"
proof (induction ps arbitrary: k)
  case (Cons p ps)
  let ?fresh = "case p of Op_Fork t \<Rightarrow> status k t = JUST_CREATED | _ \<Rightarrow> True"
  from Cons.prems(2) have c: "\<not> idle k" "?fresh"
    and "(case exec p k of Some (Inr k') \<Rightarrow> run_ops ps k' | _ \<Rightarrow> None) = Some k'"
    by (simp_all only: run_ops.simps split: if_splits) simp_all
  then obtain k1 where k1: "exec p k = Some (Inr k1)" "run_ops ps k1 = Some k'"
    by (simp split: option.splits sum.splits)
  from c(2) have "\<forall>t. p = Op_Fork t \<longrightarrow> status k t = JUST_CREATED" by auto
  with c(1) k1(1) have "kstep k k1" by (intro kstep.call [where p = p]) auto
  then show ?case using Cons k1 reachable.step by blast
qed simp

lemmas run_defs = Acquire_def Acquire_try_def Let_def boot_def isHeldByCurrentThread_def new_Lock_def
  Fork_def ReadyToRun_def list_append_def Yield_def dispatch.simps FindNextToRun_def
  destroy_carcass_def set_lock_def Sleep_def mark_blocked_def Wait_def Release_def set_cond_def
  new_Condition_def

lemma sample_reachable: "reachable sample_kernel"
proof (rule run_ops_reachable [OF boot_reachable])
  show "run_ops [Op_Acquire 0, Op_Fork 1, Op_Fork 2, Op_Yield, Op_Acquire 0] (boot (\<lambda>_. 1)) =
    Some sample_kernel"
    by (simp add: run_defs sample_kernel_def fun_eq_iff)
qed

theorem every_thread_in_one_place_witness:
  "reachable sample_kernel \<and> 1 \<in> set (queue_at sample_kernel (AtLock 0)) \<and>
   status sample_kernel 1 = BLOCKED \<and> 1 \<notin> set (readyList sample_kernel)"
  using every_thread_in_one_place [OF sample_reachable, of "AtLock 0" 1 InReady] sample_reachable
  by (simp add: sample_kernel_def)

text \<open>
  C9: the routines of the kernel always return to some thread or leave the CPU idle, and never
  fail an ASSERT: in every reachable state any call by the running thread (a Fork: of a thread
  not started yet) comes to an end, including the loop of \<open>Broadcast\<close> and the dispatching, in a
  reachable state; and so does a device's \<open>V\<close>.
\<close>

theorem kernel_never_stuck:
  assumes "reachable k"
  shows "(\<not> idle k \<and> (\<forall>t. p = Op_Fork t \<longrightarrow> status k t = JUST_CREATED) \<longrightarrow>
       (\<exists>k'. exec p k = Some (Inr k') \<and> reachable k')) \<and>
     (\<exists>k'. device_V s k = Inr k' \<and> reachable k')"
proof -
  obtain k' where "device_V s k = Inr k'" using device_V_ok [OF reachable_inv [OF assms], of s] by blast
  moreover from this have "reachable k'" by (intro reachable.step [OF assms] kstep.device)
  ultimately show ?thesis using reachable_exec [OF assms, of p] by blast
qed

theorem kernel_never_stuck_witness:
  "\<exists>k'. exec (Op_Wait 0 (Some 0)) sample_kernel = Some (Inr k') \<and> reachable k'"
  using kernel_never_stuck [OF sample_reachable, of "Op_Wait 0 (Some 0)"]
  by (simp add: sample_kernel_def boot_def)

text \<open>Thread 2 yields; thread 0, which holds lock 0, runs.\<close>

definition sample_after :: kernel where
  "sample_after = sample_kernel\<lparr>currentThread := 0, readyList := [2],
     status := (\<lambda>t. if t = 0 then RUNNING else if t = 1 then BLOCKED else if t = 2 then READY else JUST_CREATED)\<rparr>"

lemma sample_after_reachable: "reachable sample_after"
proof (rule run_ops_reachable [OF sample_reachable])
  show "run_ops [Op_Yield] sample_kernel = Some sample_after"
    by (simp add: run_defs sample_kernel_def sample_after_def fun_eq_iff)
qed

text \<open>
  a lock is handed to the thread that has waited longest, and nobody can get in between.
  When the holder releases a lock with waiters, the first waiter possesses it at once and is put
  at the end of the ready list, the others keep their order, and the lock stays busy; until that
  thread releases it, no other thread's \<open>Acquire\<close> goes through.
\<close>

lemma Release_hands_over:
  assumes "reachable k" "\<not> idle k" "isHeldByCurrentThread k l" "lqueue (locks k l) = t # q"
  shows "let k' = Release l k in
     threadWithPossession (locks k' l) = Some t \<and> lstate (locks k' l) = BUSY \<and>
     lqueue (locks k' l) = q \<and> readyList k' = readyList k @ [t] \<and> t \<noteq> currentThread k \<and>
     (\<forall>k2. locks k2 l = locks k' l \<and> currentThread k2 \<noteq> t \<longrightarrow> \<not> fst (Acquire_try l k2))"
proof -
  from reachable_inv [OF assms(1)] obtain loc where "kinv loc k" by (auto simp: kernel_inv_def)
  then have "locks_ok k" by (rule kinvD)
  then have "lstate (locks k l) = BUSY"
    using assms(4) by (cases "lstate (locks k l)") (auto simp: locks_ok_def dest: spec [of _ l])
  moreover have "t \<noteq> currentThread k"
  proof -
    have "\<forall>u. threadWithPossession (locks k l) = Some u \<longrightarrow> u \<notin> set (lqueue (locks k l))"
      using \<open>locks_ok k\<close> by (simp add: locks_ok_def)
    then show ?thesis using assms(3,4) by (auto simp: isHeldByCurrentThread_def)
  qed
  ultimately show ?thesis
    using assms(3,4)
    by (auto simp: Release_def Let_def Acquire_try_def isHeldByCurrentThread_def)
qed

lemma Release_hands_over_example:
  "threadWithPossession (locks (Release 0 sample_after) 0) = Some 1 \<and>
   readyList (Release 0 sample_after) = [2, 1]"
  using Release_hands_over [OF sample_after_reachable, of 0 1 "[]"]
  by (simp add: sample_after_def sample_kernel_def boot_def isHeldByCurrentThread_def Let_def)

text \<open>
  C11: semaphores lose no wakeup. In every reachable state a semaphore is not negative, and if
  threads sleep on it while it is positive, then at least that many threads have been woken from
  it, are on the ready list, and will look at it again.
\<close>

theorem semaphore_no_lost_wakeup:
  assumes "reachable k"
  shows "0 \<le> svalue (sems k s) \<and> (squeue (sems k s) \<noteq> [] \<longrightarrow>
     svalue (sems k s) \<le> int (length (filter (\<lambda>t. conts k t = RetryP s) (readyList k))))"
proof -
  from reachable_inv [OF assms] obtain loc where "kinv loc k" by (auto simp: kernel_inv_def)
  then show ?thesis using kinvD(4) by (force simp: sems_ok_def woken_def)
qed

text \<open>Threads 1 and 2 sleep in \<open>P\<close> of semaphore 3, which is 0, and thread 0 does one \<open>V\<close>.\<close>

definition woken_kernel :: kernel where
  "woken_kernel = (boot (\<lambda>_. 0))\<lparr>readyList := [1],
     status := (\<lambda>t. if t = 0 then RUNNING else if t = 1 then READY else if t = 2 then BLOCKED else JUST_CREATED),
     conts := (\<lambda>_. Returned)(1 := RetryP 3, 2 := RetryP 3),
     sems := (\<lambda>_. new_Semaphore 0)(3 := \<lparr>svalue = 1, squeue = [2]\<rparr>)\<rparr>"

lemma woken_reachable: "reachable woken_kernel"
proof (rule run_ops_reachable)
  show "reachable (boot (\<lambda>_. 0))" by (rule reachable.init) simp
  show "run_ops [Op_Fork 1, Op_Fork 2, Op_Yield, Op_P 3, Op_P 3, Op_V 3] (boot (\<lambda>_. 0)) = Some woken_kernel"
    by (auto simp: run_defs P_def P_try_def V_def set_sem_def new_Semaphore_def woken_kernel_def fun_eq_iff)
qed

theorem semaphore_no_lost_wakeup_witness:
  "squeue (sems woken_kernel 3) = [2] \<and> svalue (sems woken_kernel 3) = 1 \<and>
   1 \<le> length (filter (\<lambda>t. conts woken_kernel t = RetryP 3) (readyList woken_kernel))"
  using semaphore_no_lost_wakeup [OF woken_reachable, of 3] by (simp add: woken_kernel_def)

text \<open>
  \<open>Broadcast\<close> wakes every waiter, in order, and comes to an end: called by the holder of the
  lock the waiters wait with, it moves the whole queue to the end of the ready list in the order
  they began to wait, and the condition variable forgets its lock.
\<close>

lemma Broadcast_wakes_all:
  assumes "reachable k" "\<not> idle k" "waitingLock (conds k c) = Some l" "isHeldByCurrentThread k l"
    "cqueue (conds k c) \<noteq> []"
  shows "\<exists>k'. Broadcast c (Some l) k = Some k' \<and> readyList k' = readyList k @ cqueue (conds k c) \<and>
     cqueue (conds k' c) = [] \<and> waitingLock (conds k' c) = None \<and> currentThread k' = currentThread k"
proof -
  have "awake k" using reachable_inv [OF assms(1)] assms(2) by (auto simp: kernel_inv_def awake_def)
  from Broadcast_loop_ok [OF this assms(3-5)] assms(3-5) show ?thesis by (auto simp: Broadcast_def)
qed

text \<open>Thread 0 holds lock 0; threads 1 and 2 wait for condition variable 4 with it.\<close>

definition wait_kernel :: kernel where
  "wait_kernel = sample_kernel\<lparr>currentThread := 0, readyList := [],
     status := (\<lambda>t. if t = 0 then RUNNING else if t \<le> 2 then BLOCKED else JUST_CREATED),
     conts := (\<lambda>_. Returned)(1 := Reacquire 0, 2 := Reacquire 0),
     locks := (\<lambda>_. new_Lock None)(0 := \<lparr>lstate = BUSY, threadWithPossession = Some 0, lqueue = []\<rparr>),
     conds := (\<lambda>_. new_Condition None)(4 := \<lparr>waitingLock = Some 0, cqueue = [2, 1]\<rparr>)\<rparr>"

lemma wait_reachable: "reachable wait_kernel"
proof (rule run_ops_reachable [OF boot_reachable])
  show "run_ops [Op_Fork 2, Op_Fork 1, Op_Yield, Op_Acquire 0, Op_Wait 4 (Some 0), Op_Acquire 0,
      Op_Wait 4 (Some 0), Op_Acquire 0] (boot (\<lambda>_. 1)) = Some wait_kernel"
    by (auto simp: run_defs sample_kernel_def wait_kernel_def fun_eq_iff)
qed

lemma Broadcast_wakes_all_example:
  "\<exists>k'. Broadcast 4 (Some 0) wait_kernel = Some k' \<and> readyList k' = [2, 1]"
  using Broadcast_wakes_all [OF wait_reachable, of 4 0]
  by (auto simp: wait_kernel_def sample_kernel_def boot_def isHeldByCurrentThread_def)

text \<open>
  the constructors of \<open>Lock\<close> and \<open>Condition\<close> leave a pointer uninitialised, and if the memory
  holds an unlucky value they do not work. A fresh lock whose \<open>threadWithPossession\<close> happens to
  point to thread 0 lets thread 0 and then thread 1 through \<open>Acquire\<close>, neither having released it;
  a fresh condition variable whose \<open>waitingLock\<close> happens to point to another lock makes \<open>Wait\<close>
  return at once, without waiting, to the holder of the right lock.
\<close>

lemma uninitialised_Lock_and_Condition:
  "(\<exists>k1 k2 k3 k4. let k = set_lock 0 (new_Lock (Some 0)) (boot (\<lambda>_. 1)) in
     Acquire 0 k = Inr k1 \<and> currentThread k1 = 0 \<and> \<not> idle k1 \<and>
     Fork 1 k1 = k2 \<and> Yield k2 = Inr k3 \<and> currentThread k3 = 1 \<and>
     Acquire 0 k3 = Inr k4 \<and> currentThread k4 = 1 \<and> \<not> idle k4) \<and>
   (let k = set_lock 0 \<lparr>lstate = BUSY, threadWithPossession = Some 0, lqueue = []\<rparr>
              (set_cond 0 (new_Condition (Some 7)) (boot (\<lambda>_. 1)))
    in Wait 0 (Some 0) k = Inr k)"
  by (simp add: run_defs)

text \<open>
  a misused condition variable stays broken. If a thread that does not hold lock \<open>l1\<close> calls
  \<open>Wait\<close> with it on a condition variable nobody waits for, the call returns without waiting but
  leaves \<open>l1\<close> remembered as the variable's lock. From then on every \<open>Wait\<close> with another lock
  returns at once without waiting, and neither \<open>Signal\<close> nor \<open>Broadcast\<close> with any lock undoes it.
\<close>

lemma failed_Wait_poisons_condition:
  assumes "waitingLock (conds k c) = None" "cqueue (conds k c) = []"
    "\<not> isHeldByCurrentThread k l1" "l \<noteq> l1"
  shows "\<exists>k1. Wait c (Some l1) k = Inr k1 \<and> waitingLock (conds k1 c) = Some l1 \<and>
     (\<forall>k2. conds k2 c = conds k1 c \<longrightarrow> (\<exists>k3. Wait c (Some l) k2 = Inr k3 \<and> k3 = k2) \<and>
        (\<forall>lo. Signal c lo k2 = k2 \<and> Broadcast c lo k2 = Some k2))"
proof -
  let ?k1 = "set_cond c ((conds k c)\<lparr>waitingLock := Some l1\<rparr>) k"
  have "Wait c (Some l1) k = Inr ?k1"
    using assms by (simp add: Wait_def Let_def isHeldByCurrentThread_def)
  moreover have "Wait c (Some l) k2 = Inr k2 \<and> Signal c lo k2 = k2 \<and> Broadcast c lo k2 = Some k2"
    if "conds k2 c = conds ?k1 c" for k2 lo
    using that assms
    by (cases lo) (simp_all add: Wait_def Signal_def Broadcast_def Let_def set_cond_def fun_upd_idem)
  ultimately show ?thesis by (intro exI [of _ ?k1]) simp
qed

lemma failed_Wait_poisons_condition_example:
  "\<exists>k1. Wait 9 (Some 1) wait_kernel = Inr k1 \<and> Wait 9 (Some 0) k1 = Inr k1"
  using failed_Wait_poisons_condition [of wait_kernel 9 1 0]
  by (auto simp: wait_kernel_def new_Condition_def isHeldByCurrentThread_def new_Lock_def)

end
