(* ===== verification/Server_Messages.thy ===== *)
theory Server_Messages
  imports Prelude
begin

text \<open>
  What the servers of network/server.cc exchange: the integers and strings packed into a message, the
  message types of network/messagetypes.h, and sending. A \<open>char\<close> is signed; an \<open>int\<close> is modelled by
  its value.
\<close>

section \<open>Buffers, integers and strings\<close>

definition MaxMailSize :: int where "MaxMailSize = 40"

definition numBoxes :: int where "numBoxes = 100"

definition compressInt :: "int \<Rightarrow> u8 list" where
  "compressInt x = (let w = word_of_int x :: u32 in
     [ucast (drop_bit 24 w AND 0xff), ucast (drop_bit 16 w AND 0xff),
      ucast (drop_bit 8 w AND 0xff), ucast (w AND 0xff)])"

definition extractInt :: "u8 list \<Rightarrow> int" where
  "extractInt buf =
     (let a = push_bit 24 (scast (buf ! 0)) AND 0xff000000 :: u32;
          b = push_bit 16 (scast (buf ! 1)) AND 0x00ff0000;
          c = push_bit 8 (scast (buf ! 2)) AND 0x0000ff00;
          d = scast (buf ! 3) AND 0x000000ff
      in sint (a + b + c + d))"

text \<open>\<open>compressInt(x, out + k)\<close>.\<close>

definition put_int :: "nat \<Rightarrow> int \<Rightarrow> u8 list \<Rightarrow> u8 list" where
  "put_int k x out = take k out @ compressInt x @ drop (k + 4) out"

text \<open>
  A string is the buffer that holds it. \<open>strncpy\<close> copies up to the zero byte and fills with zeros; it
  and \<open>strcmp\<close> fail when they run over the end of a buffer.
\<close>

fun strncpy :: "nat \<Rightarrow> u8 list \<Rightarrow> u8 list result" where
  "strncpy 0 src = Inr []"
| "strncpy (Suc n) [] = Inl OutOfBounds"
| "strncpy (Suc n) (b # bs) =
     (if b = 0 then Inr (replicate (Suc n) 0)
      else bind_result (strncpy n bs) (\<lambda>r. Inr (b # r)))"

fun str_eq :: "u8 list \<Rightarrow> u8 list \<Rightarrow> bool result" where
  "str_eq (a # as) (b # bs) =
     (if a \<noteq> b then Inr False else if a = 0 then Inr True else str_eq as bs)"
| "str_eq _ _ = Inl OutOfBounds"

text \<open>\<open>new char[nameLength]; strncpy(name, data + k, nameLength)\<close>.\<close>

definition get_name :: "u8 list \<Rightarrow> nat \<Rightarrow> int \<Rightarrow> u8 list result" where
  "get_name data k nameLength =
     (if nameLength < 0 then Inl OutOfBounds else strncpy (nat nameLength) (drop k data))"

section \<open>Messages\<close>

definition CREATE_LOCK :: int where "CREATE_LOCK = 97"
definition DESTROY_LOCK :: int where "DESTROY_LOCK = 98"
definition ACQUIRE :: int where "ACQUIRE = 99"
definition RELEASE :: int where "RELEASE = 100"
definition CREATE_CV :: int where "CREATE_CV = 101"
definition DESTROY_CV :: int where "DESTROY_CV = 102"
definition SIGNAL :: int where "SIGNAL = 103"
definition WAIT :: int where "WAIT = 104"
definition BROADCAST :: int where "BROADCAST = 105"
definition CREATE_MV :: int where "CREATE_MV = 106"
definition DESTROY_MV :: int where "DESTROY_MV = 107"
definition GET_MV :: int where "GET_MV = 108"
definition SET_MV :: int where "SET_MV = 109"
definition DO_YOU_HAVE_LOCK :: int where "DO_YOU_HAVE_LOCK = 110"
definition HAVE_LOCK :: int where "HAVE_LOCK = 111"
definition DO_NOT_HAVE_LOCK :: int where "DO_NOT_HAVE_LOCK = 112"
definition DO_YOU_HAVE_CV :: int where "DO_YOU_HAVE_CV = 113"
definition HAVE_CV :: int where "HAVE_CV = 114"
definition DO_NOT_HAVE_CV :: int where "DO_NOT_HAVE_CV = 115"
definition DO_YOU_HAVE_MV :: int where "DO_YOU_HAVE_MV = 116"
definition HAVE_MV :: int where "HAVE_MV = 117"
definition DO_NOT_HAVE_MV :: int where "DO_NOT_HAVE_MV = 118"
definition DO_YOU_HAVE_LOCK_NAME :: int where "DO_YOU_HAVE_LOCK_NAME = 119"
definition DO_YOU_HAVE_CV_NAME :: int where "DO_YOU_HAVE_CV_NAME = 120"
definition DO_YOU_HAVE_MV_NAME :: int where "DO_YOU_HAVE_MV_NAME = 121"
definition DOES_CLIENT_HAVE_LOCK :: int where "DOES_CLIENT_HAVE_LOCK = 122"
definition CV_LOCK_TRACKER_RESPONSE :: int where "CV_LOCK_TRACKER_RESPONSE = 65"
definition HAVE_LOCK_NAME :: int where "HAVE_LOCK_NAME = 66"
definition HAVE_CV_NAME :: int where "HAVE_CV_NAME = 67"
definition HAVE_MV_NAME :: int where "HAVE_MV_NAME = 68"
definition DO_NOT_HAVE_LOCK_NAME :: int where "DO_NOT_HAVE_LOCK_NAME = 69"
definition DO_NOT_HAVE_CV_NAME :: int where "DO_NOT_HAVE_CV_NAME = 70"
definition DO_NOT_HAVE_MV_NAME :: int where "DO_NOT_HAVE_MV_NAME = 71"
definition NO_ACTION :: int where "NO_ACTION = 255"

text \<open>
  A message with its two headers and its data. A message received is in a buffer of \<open>MaxMailSize\<close>
  bytes, whatever its length; a message sent holds as many bytes as its length says.
\<close>

record mail =
  pkt_to :: int
  pkt_from :: int
  mail_to :: int
  mail_from :: int
  mail_len :: int
  mdata :: "u8 list"

definition char_at :: "u8 list \<Rightarrow> nat \<Rightarrow> int" where
  "char_at data k = sint (data ! k)"

definition post_send :: "mail \<Rightarrow> mail result" where
  "post_send m =
     bind_result (ASSERT (0 \<le> mail_len m \<and> mail_len m \<le> MaxMailSize)) (\<lambda>_.
     bind_result (ASSERT (0 \<le> mail_to m \<and> mail_to m < numBoxes)) (\<lambda>_.
     if mail_len m \<le> int (length (mdata m)) then Inr (m\<lparr>mdata := take (nat (mail_len m)) (mdata m)\<rparr>)
     else Inl OutOfBounds))"

definition sendMessageWithData :: "int \<Rightarrow> int \<Rightarrow> int \<Rightarrow> int \<Rightarrow> int \<Rightarrow> u8 list \<Rightarrow> mail result" where
  "sendMessageWithData fromMachine fromMailbox toMachine toMailbox dataLength data =
     post_send \<lparr>pkt_to = toMachine, pkt_from = fromMachine, mail_to = toMailbox,
       mail_from = fromMailbox, mail_len = dataLength, mdata = data\<rparr>"

end
