(* ===== verification/Server_Tables.thy ===== *)
theory Server_Tables
  imports Server_Messages Threads Bit_Map
begin

text \<open>
  The classes \<open>ServerLock\<close> and \<open>ServerCondition\<close> of threads/synch.cc and the tables of locks,
  condition variables and monitor variables of network/server.cc with their operations.

  The three tables have the same shape: a size that is 0 until the first creation, a bitmap of the
  slots in use and an array of entries; \<open>table\<close> is this shape, with what the entries hold as its
  parameter. A pointer that was never set or whose target was deleted is \<open>None\<close>.
\<close>

section \<open>ServerLock and ServerCondition\<close>

record ClientRequest =
  machineID :: int
  mailboxNumber :: int
  respond :: bool

definition new_ClientRequest :: "int \<Rightarrow> int \<Rightarrow> ClientRequest" where
  "new_ClientRequest m mb = \<lparr>machineID = m, mailboxNumber = mb, respond = False\<rparr>"

record ServerLock =
  lockname :: "u8 list"
  slstate :: LockStatus
  slqueue :: "ClientRequest list"
  currentClientRequest :: "ClientRequest option"

definition new_ServerLock :: "u8 list \<Rightarrow> ServerLock" where
  "new_ServerLock n = \<lparr>lockname = n, slstate = FREE, slqueue = [], currentClientRequest = None\<rparr>"

definition isHeldByRequester :: "ServerLock \<Rightarrow> ClientRequest \<Rightarrow> bool" where
  "isHeldByRequester L cr =
     (case currentClientRequest L of None \<Rightarrow> False
      | Some c \<Rightarrow> machineID cr = machineID c \<and> mailboxNumber cr = mailboxNumber c)"

definition sl_Acquire :: "ClientRequest \<Rightarrow> ServerLock \<Rightarrow> ClientRequest \<times> ServerLock" where
  "sl_Acquire cr L =
     (if isHeldByRequester L cr then (cr\<lparr>respond := True\<rparr>, L)
      else if slstate L = FREE
        then (cr\<lparr>respond := True\<rparr>,
              L\<lparr>slstate := BUSY, currentClientRequest := Some (cr\<lparr>respond := True\<rparr>)\<rparr>)
      else (cr\<lparr>respond := False\<rparr>, L\<lparr>slqueue := list_append (slqueue L) (cr\<lparr>respond := False\<rparr>)\<rparr>))"

definition sl_Release :: "ClientRequest \<Rightarrow> ServerLock \<Rightarrow> ClientRequest \<times> ServerLock" where
  "sl_Release cr L =
     (if \<not> isHeldByRequester L cr then (cr\<lparr>respond := False\<rparr>, L)
      else case list_remove (slqueue L) of
        (Some c, q) \<Rightarrow> (c\<lparr>respond := True\<rparr>,
            L\<lparr>slqueue := q, currentClientRequest := Some (c\<lparr>respond := True\<rparr>)\<rparr>)
      | (None, _) \<Rightarrow> (cr\<lparr>respond := False\<rparr>, L\<lparr>slstate := FREE, currentClientRequest := None\<rparr>))"

definition sl_isBusy :: "ServerLock \<Rightarrow> bool" where
  "sl_isBusy L \<longleftrightarrow> slstate L = BUSY"

record ServerCondition =
  condname :: "u8 list"
  scqueue :: "ClientRequest list"
  scwaiting :: int     \<comment> \<open>the field waitingLock\<close>

definition new_ServerCondition :: "u8 list \<Rightarrow> ServerCondition" where
  "new_ServerCondition n = \<lparr>condname = n, scqueue = [], scwaiting = - 1\<rparr>"

definition sc_Wait :: "int \<Rightarrow> ClientRequest \<Rightarrow> ServerCondition \<Rightarrow> ClientRequest \<times> ServerCondition" where
  "sc_Wait l cr C =
     (let C1 = (if scwaiting C = - 1 then C\<lparr>scwaiting := l\<rparr> else C) in
      if l \<noteq> scwaiting C1 then (cr\<lparr>respond := True\<rparr>, C1)
      else (cr, C1\<lparr>scqueue := list_append (scqueue C1) cr\<rparr>))"

definition sc_Signal :: "int \<Rightarrow> ClientRequest \<Rightarrow> ServerCondition \<Rightarrow> ClientRequest \<times> ServerCondition" where
  "sc_Signal l cr C =
     (if scqueue C = [] then (cr\<lparr>respond := False\<rparr>, C)
      else if scwaiting C \<noteq> l then (cr\<lparr>respond := False\<rparr>, C)
      else case list_remove (scqueue C) of
        (Some c, q) \<Rightarrow> (c\<lparr>respond := True\<rparr>,
            if q = [] then C\<lparr>scqueue := q, scwaiting := - 1\<rparr> else C\<lparr>scqueue := q\<rparr>)
      | (None, q) \<Rightarrow> (cr, C))"

definition sc_hasWaiting :: "ServerCondition \<Rightarrow> bool" where
  "sc_hasWaiting C \<longleftrightarrow> scqueue C \<noteq> []"

section \<open>The tables\<close>

definition MAX_SERVER :: int where "MAX_SERVER = 500"

definition MAX_SERVER_ENTRIES_PER_MV_ARRAY :: int where "MAX_SERVER_ENTRIES_PER_MV_ARRAY = 500"

record ServerLockEntry =
  lockp :: "ServerLock option"     \<comment> \<open>the field lock\<close>
  lk_isToBeDeleted :: bool
  acquireCount :: int

record ServerConditionEntry =
  condp :: "ServerCondition option"     \<comment> \<open>the field condition\<close>
  cv_isToBeDeleted :: bool

record ServerMVEntry =
  mvEntries :: "int list option"
  numEntries :: int
  mvname :: "u8 list option"     \<comment> \<open>the field name\<close>

record 'e table =
  tsize :: int
  tbits :: "BitMap option"
  tentries :: "'e list"

definition empty_table :: "'e table" where
  "empty_table = \<lparr>tsize = 0, tbits = None, tentries = []\<rparr>"

text \<open>What \<open>new ServerLockEntry[n]\<close> holds before a slot is first used.\<close>

definition no_lock :: ServerLockEntry where
  "no_lock = \<lparr>lockp = None, lk_isToBeDeleted = False, acquireCount = 0\<rparr>"

definition no_cond :: ServerConditionEntry where
  "no_cond = \<lparr>condp = None, cv_isToBeDeleted = False\<rparr>"

definition no_mv :: ServerMVEntry where
  "no_mv = \<lparr>mvEntries = None, numEntries = 0, mvname = None\<rparr>"

definition lock_name :: "ServerLockEntry \<Rightarrow> u8 list result" where
  "lock_name e = (case lockp e of None \<Rightarrow> Inl DanglingPointer | Some L \<Rightarrow> Inr (lockname L))"

definition cond_name :: "ServerConditionEntry \<Rightarrow> u8 list result" where
  "cond_name e = (case condp e of None \<Rightarrow> Inl DanglingPointer | Some C \<Rightarrow> Inr (condname C))"

definition mv_name :: "ServerMVEntry \<Rightarrow> u8 list result" where
  "mv_name e = (case mvname e of None \<Rightarrow> Inl DanglingPointer | Some n \<Rightarrow> Inr n)"

definition slot_test :: "'e table \<Rightarrow> int \<Rightarrow> bool result" where
  "slot_test t i = (case tbits t of None \<Rightarrow> Inl NullPointer | Some b \<Rightarrow> Test b i)"

definition slot_clear :: "'e table \<Rightarrow> int \<Rightarrow> 'e table result" where
  "slot_clear t i = (case tbits t of None \<Rightarrow> Inl NullPointer
     | Some b \<Rightarrow> bind_result (Clear b i) (\<lambda>b'. Inr (t\<lparr>tbits := Some b'\<rparr>)))"

definition slot_get :: "'e table \<Rightarrow> int \<Rightarrow> 'e result" where
  "slot_get t i = array_get (tentries t) i"

definition slot_set :: "'e table \<Rightarrow> int \<Rightarrow> 'e \<Rightarrow> 'e table result" where
  "slot_set t i e = bind_result (array_set (tentries t) i e) (\<lambda>es. Inr (t\<lparr>tentries := es\<rparr>))"

text \<open>The loops that look for a name: the first slot in use with that name, or -1.\<close>

fun find_name :: "('e \<Rightarrow> u8 list result) \<Rightarrow> u8 list \<Rightarrow> 'e table \<Rightarrow> int list \<Rightarrow> int result" where
  "find_name nm name t [] = Inr (- 1)"
| "find_name nm name t (i # is) =
     bind_result (slot_test t i) (\<lambda>used.
     if \<not> used then find_name nm name t is
     else bind_result (slot_get t i) (\<lambda>e.
          bind_result (nm e) (\<lambda>n.
          bind_result (str_eq n name) (\<lambda>same.
          if same then Inr i else find_name nm name t is))))"

definition checkIfExists :: "('e \<Rightarrow> u8 list result) \<Rightarrow> u8 list \<Rightarrow> 'e table \<Rightarrow> int result" where
  "checkIfExists nm name t =
     (if tsize t = 0 then Inr (- 1) else find_name nm name t [0..MAX_SERVER - 1])"

text \<open>Creation: the table is set up by the first call; the name is looked up; a free slot is taken.\<close>

definition init_table :: "(nat \<Rightarrow> u32) \<Rightarrow> 'e \<Rightarrow> 'e table \<Rightarrow> 'e table result" where
  "init_table g blank t =
     (if tsize t = 0
      then bind_result (new_BitMap g MAX_SERVER) (\<lambda>b.
           Inr \<lparr>tsize = MAX_SERVER, tbits = Some b, tentries = replicate (nat MAX_SERVER) blank\<rparr>)
      else Inr t)"

definition create_slot ::
  "('e \<Rightarrow> u8 list result) \<Rightarrow> u8 list \<Rightarrow> 'e result \<Rightarrow> 'e table \<Rightarrow> (int \<times> 'e table) result" where
  "create_slot nm name e0 t =
     bind_result (find_name nm name t [0..MAX_SERVER - 1]) (\<lambda>i.
     if i \<noteq> - 1 then Inr (i, t)
     else case tbits t of None \<Rightarrow> Inl NullPointer
       | Some b \<Rightarrow> bind_result (Find b) (\<lambda>(k, b').
           let t' = t\<lparr>tbits := Some b'\<rparr> in
           if k = - 1 then Inr (- 1, t')
           else bind_result e0 (\<lambda>e. bind_result (slot_set t' k e) (\<lambda>t''. Inr (k, t'')))))"

definition ServerCreateLock ::
  "(nat \<Rightarrow> u32) \<Rightarrow> u8 list \<Rightarrow> ServerLockEntry table \<Rightarrow> (int \<times> ServerLockEntry table) result" where
  "ServerCreateLock g name t =
     bind_result (init_table g no_lock t)
       (create_slot lock_name name (Inr \<lparr>lockp = Some (new_ServerLock name), lk_isToBeDeleted = False,
                                        acquireCount = 0\<rparr>))"

definition ServerCreateCV ::
  "(nat \<Rightarrow> u32) \<Rightarrow> u8 list \<Rightarrow> ServerConditionEntry table \<Rightarrow> (int \<times> ServerConditionEntry table) result" where
  "ServerCreateCV g name t =
     bind_result (init_table g no_cond t)
       (create_slot cond_name name (Inr \<lparr>condp = Some (new_ServerCondition name),
                                        cv_isToBeDeleted = False\<rparr>))"

definition new_mv :: "u8 list \<Rightarrow> int \<Rightarrow> int \<Rightarrow> ServerMVEntry result" where
  "new_mv name n initialValue =
     (if n < 0 then Inl OutOfBounds
      else Inr \<lparr>mvEntries = Some (replicate (nat n) initialValue), numEntries = n, mvname = Some name\<rparr>)"

definition ServerCreateMV ::
  "(nat \<Rightarrow> u32) \<Rightarrow> u8 list \<Rightarrow> int \<Rightarrow> int \<Rightarrow> ServerMVEntry table \<Rightarrow> (int \<times> ServerMVEntry table) result" where
  "ServerCreateMV g name n initialValue t =
     bind_result (init_table g no_mv t) (\<lambda>t1.
     if n > MAX_SERVER_ENTRIES_PER_MV_ARRAY then Inr (- 1, t1)
     else create_slot mv_name name (new_mv name n initialValue) t1)"

section \<open>Operations on the slots\<close>

text \<open>The two checks every operation starts with; \<open>False\<close> is the early return.\<close>

definition valid_slot :: "'e table \<Rightarrow> int \<Rightarrow> bool result" where
  "valid_slot t i = (if i < 0 \<or> i > tsize t - 1 then Inr False else slot_test t i)"

definition lock_at :: "ServerLockEntry table \<Rightarrow> int \<Rightarrow> (ServerLockEntry \<times> ServerLock) result" where
  "lock_at t i = bind_result (slot_get t i) (\<lambda>e.
     case lockp e of None \<Rightarrow> Inl DanglingPointer | Some L \<Rightarrow> Inr (e, L))"

definition cond_at :: "ServerConditionEntry table \<Rightarrow> int \<Rightarrow> (ServerConditionEntry \<times> ServerCondition) result" where
  "cond_at t i = bind_result (slot_get t i) (\<lambda>e.
     case condp e of None \<Rightarrow> Inl DanglingPointer | Some C \<Rightarrow> Inr (e, C))"

definition delete_lock :: "ServerLockEntry table \<Rightarrow> int \<Rightarrow> ServerLockEntry \<Rightarrow> ServerLockEntry table result" where
  "delete_lock t i e = bind_result (slot_set t i (e\<lparr>lockp := None\<rparr>)) (\<lambda>t'. slot_clear t' i)"

definition delete_cond ::
  "ServerConditionEntry table \<Rightarrow> int \<Rightarrow> ServerConditionEntry \<Rightarrow> ServerConditionEntry table result" where
  "delete_cond t i e = bind_result (slot_set t i (e\<lparr>condp := None\<rparr>)) (\<lambda>t'. slot_clear t' i)"

definition ServerDestroyLock :: "int \<Rightarrow> ServerLockEntry table \<Rightarrow> ServerLockEntry table result" where
  "ServerDestroyLock i t =
     bind_result (valid_slot t i) (\<lambda>ok.
     if \<not> ok then Inr t
     else bind_result (lock_at t i) (\<lambda>(e, L).
       if \<not> (sl_isBusy L \<and> acquireCount e = 0) then delete_lock t i e
       else slot_set t i (e\<lparr>lk_isToBeDeleted := True\<rparr>)))"

text \<open>The result \<open>None\<close> is the null pointer.\<close>

definition ServerAcquire ::
  "int \<Rightarrow> int \<Rightarrow> int \<Rightarrow> ServerLockEntry table \<Rightarrow> (ClientRequest option \<times> ServerLockEntry table) result" where
  "ServerAcquire m mb i t =
     bind_result (valid_slot t i) (\<lambda>ok.
     if \<not> ok then Inr (None, t)
     else bind_result (lock_at t i) (\<lambda>(e, L).
       case sl_Acquire (new_ClientRequest m mb) L of (cr, L') \<Rightarrow>
         bind_result (slot_set t i (e\<lparr>acquireCount := acquireCount e + 1, lockp := Some L'\<rparr>))
           (\<lambda>t'. Inr (Some cr, t'))))"

definition ServerRelease ::
  "int \<Rightarrow> int \<Rightarrow> int \<Rightarrow> ServerLockEntry table \<Rightarrow> (ClientRequest option \<times> ServerLockEntry table) result" where
  "ServerRelease m mb i t =
     bind_result (valid_slot t i) (\<lambda>ok.
     if \<not> ok then Inr (None, t)
     else bind_result (lock_at t i) (\<lambda>(e, L).
       case sl_Release (new_ClientRequest m mb) L of (cr, L') \<Rightarrow>
         let e' = e\<lparr>acquireCount := acquireCount e - 1, lockp := Some L'\<rparr> in
         bind_result (slot_set t i e') (\<lambda>t1.
         if lk_isToBeDeleted e' \<and> acquireCount e' = 0 \<and> \<not> sl_isBusy L'
         then bind_result (delete_lock t1 i e') (\<lambda>t2. Inr (Some cr, t2))
         else Inr (Some cr, t1))))"

definition ServerDestroyCV :: "int \<Rightarrow> ServerConditionEntry table \<Rightarrow> ServerConditionEntry table result" where
  "ServerDestroyCV i t =
     bind_result (valid_slot t i) (\<lambda>ok.
     if \<not> ok then Inr t
     else bind_result (cond_at t i) (\<lambda>(e, C).
       if \<not> sc_hasWaiting C then delete_cond t i e
       else slot_set t i (e\<lparr>cv_isToBeDeleted := True\<rparr>)))"

definition ServerSignal ::
  "int \<Rightarrow> int \<Rightarrow> int \<Rightarrow> int \<Rightarrow> ServerConditionEntry table \<Rightarrow>
   (ClientRequest option \<times> ServerConditionEntry table) result" where
  "ServerSignal m mb i lockNum t =
     bind_result (valid_slot t i) (\<lambda>ok.
     if \<not> ok \<or> lockNum < 0 then Inr (None, t)
     else bind_result (cond_at t i) (\<lambda>(e, C).
       case sc_Signal lockNum (new_ClientRequest m mb) C of (cr, C') \<Rightarrow>
         bind_result (slot_set t i (e\<lparr>condp := Some C'\<rparr>)) (\<lambda>t'. Inr (Some cr, t'))))"

text \<open>\<open>ServerWait\<close> and \<open>ServerBroadcast\<close> check only the sign of the index before \<open>Test\<close>.\<close>

definition ServerWait ::
  "int \<Rightarrow> int \<Rightarrow> int \<Rightarrow> int \<Rightarrow> ServerConditionEntry table \<Rightarrow> ServerConditionEntry table result" where
  "ServerWait m mb i lockNum t =
     (if i < 0 then Inr t
      else bind_result (slot_test t i) (\<lambda>used.
        if \<not> used then Inr t
        else bind_result (cond_at t i) (\<lambda>(e, C).
          case sc_Wait lockNum (new_ClientRequest m mb) C of (_, C') \<Rightarrow>
            let e' = e\<lparr>condp := Some C'\<rparr> in
            bind_result (slot_set t i e') (\<lambda>t1.
            if cv_isToBeDeleted e' \<and> \<not> sc_hasWaiting C' then delete_cond t1 i e' else Inr t1))))"

record ServerResponse =
  toMachine :: int
  toMailbox :: int
  rdata :: int

text \<open>The loop of \<open>ServerBroadcast\<close>; it may not end.\<close>

partial_function (option) broadcast_responses ::
  "int \<Rightarrow> int \<Rightarrow> int \<Rightarrow> ServerCondition \<Rightarrow> ServerResponse list \<Rightarrow>
   (ServerCondition \<times> ServerResponse list) option" where
  "broadcast_responses m mb l C rs =
     (if \<not> sc_hasWaiting C then Some (C, rs)
      else case sc_Signal l (new_ClientRequest m mb) C of (cr, C') \<Rightarrow>
        broadcast_responses m mb l C'
          (rs @ [\<lparr>toMachine = machineID cr, toMailbox = mailboxNumber cr, rdata = - 1\<rparr>]))"

definition ServerBroadcast ::
  "int \<Rightarrow> int \<Rightarrow> int \<Rightarrow> int \<Rightarrow> ServerConditionEntry table \<Rightarrow> ServerResponse list \<Rightarrow>
   (ServerConditionEntry table \<times> ServerResponse list) result option" where
  "ServerBroadcast m mb i l t rs =
     (if i < 0 then Some (Inr (t, rs))
      else case bind_result (slot_test t i) (\<lambda>used.
             if used then bind_result (cond_at t i) (\<lambda>p. Inr (Some p)) else Inr None) of
        Inl c \<Rightarrow> Some (Inl c)
      | Inr None \<Rightarrow> Some (Inr (t, rs))
      | Inr (Some (e, C)) \<Rightarrow> map_option (\<lambda>(C', rs').
            bind_result (slot_set t i (e\<lparr>condp := Some C'\<rparr>)) (\<lambda>t'. Inr (t', rs')))
          (broadcast_responses m mb l C rs))"

definition ServerDestroyMV :: "int \<Rightarrow> ServerMVEntry table \<Rightarrow> ServerMVEntry table result" where
  "ServerDestroyMV i t =
     bind_result (valid_slot t i) (\<lambda>ok.
     if \<not> ok then Inr t
     else bind_result (slot_get t i) (\<lambda>e.
       bind_result (slot_set t i (e\<lparr>mvEntries := None\<rparr>)) (\<lambda>t'. slot_clear t' i)))"

definition ServerGetMV :: "int \<Rightarrow> int \<Rightarrow> ServerMVEntry table \<Rightarrow> int result" where
  "ServerGetMV i entryIndex t =
     bind_result (valid_slot t i) (\<lambda>ok.
     if \<not> ok then Inr (- 1)
     else bind_result (slot_get t i) (\<lambda>e.
       if entryIndex < 0 \<or> entryIndex > numEntries e - 1 then Inr (- 1)
       else case mvEntries e of None \<Rightarrow> Inl DanglingPointer | Some vs \<Rightarrow> array_get vs entryIndex))"

definition ServerSetMV :: "int \<Rightarrow> int \<Rightarrow> int \<Rightarrow> ServerMVEntry table \<Rightarrow> ServerMVEntry table result" where
  "ServerSetMV i entryIndex v t =
     bind_result (valid_slot t i) (\<lambda>ok.
     if \<not> ok then Inr t
     else bind_result (slot_get t i) (\<lambda>e.
       if entryIndex < 0 \<or> entryIndex > numEntries e - 1 then Inr t
       else case mvEntries e of None \<Rightarrow> Inl DanglingPointer
         | Some vs \<Rightarrow> bind_result (array_set vs entryIndex v) (\<lambda>vs'.
             slot_set t i (e\<lparr>mvEntries := Some vs'\<rparr>))))"

end
