(* ===== verification/Server.thy ===== *)
theory Server
  imports Server_Tables
begin

text \<open>
  The lock, condition-variable and monitor-variable server of network/server.cc, which a group of
  machines runs together.

  A machine has two server threads. \<open>Server\<close> (mailbox 0) takes the requests of the clients; what it
  cannot do itself it hands to \<open>ServerToServerMessageHandler\<close> (mailbox 1), which asks the other
  machines. \<open>handle0\<close> and \<open>handle1\<close> are one iteration of their loops: they take a message and the
  state of the machine and give the new state and the messages sent, in order. Both threads use the
  tables; an iteration changes them before its first \<open>Send\<close>, the only place where it can be switched
  out.
\<close>

section \<open>The state of a machine\<close>

datatype StructureType = LockT | CVT | MVT

datatype ServerAction = Query_All_Servers | Respond_Once_To_Server | Respond_Once_To_Client |
  Do_Bookkeeping | No_Action | Create_Query

record ResponseQueueEntry =
  replyMachine :: int
  replyMailbox :: int
  replyMessageID :: int

record QueryStatus =
  qmail :: mail     \<comment> \<open>packetHeader, mailHeader and data\<close>
  numResponsesReceived :: int
  qid :: int

record PendingCreate =
  pcname :: "u8 list"
  pctype :: StructureType
  responseTracker :: "bool list"
  waitingClients :: "QueryStatus list"
  serverResponseQueue :: "ResponseQueueEntry list"
  numResponses :: int
  pcID :: int

record CVLockTracker =
  clientMachineID :: int
  clientMailbox :: int
  cvNum :: int
  lockNum :: int
  messageType :: int

record server =
  myMachineID :: int
  totalNumServers :: int
  nextQueryID :: int
  lock_table :: "ServerLockEntry table"
  cond_table :: "ServerConditionEntry table"
  mv_table :: "ServerMVEntry table"
  pendingCreates :: "PendingCreate list"
  queryQueue :: "QueryStatus list"
  necessaryResponses :: "ServerResponse list"
  cvLockTrackerList :: "CVLockTracker list"

definition start_server :: "int \<Rightarrow> int \<Rightarrow> server" where
  "start_server me n = \<lparr>myMachineID = me, totalNumServers = n, nextQueryID = 0,
     lock_table = empty_table, cond_table = empty_table, mv_table = empty_table,
     pendingCreates = [], queryQueue = [], necessaryResponses = [], cvLockTrackerList = []\<rparr>"

definition encodeIndex :: "server \<Rightarrow> int \<Rightarrow> int" where
  "encodeIndex s i = myMachineID s * MAX_SERVER + i"

definition decodeIndex :: "server \<Rightarrow> int \<Rightarrow> int" where
  "decodeIndex s i = i - myMachineID s * MAX_SERVER"

definition decodeMachineID :: "int \<Rightarrow> int" where
  "decodeMachineID n = quot n MAX_SERVER"

section \<open>Mailbox 0: the requests of the clients\<close>

text \<open>
  A case of the switch gives the flag \<open>respond\<close>, the messages it sent and the state. \<open>response\<close> is
  the variable of that name as it is before the switch.
\<close>

type_synonym outcome = "bool \<times> mail list \<times> server"

definition response :: "mail \<Rightarrow> int \<Rightarrow> ServerResponse" where
  "response m d = \<lparr>toMachine = pkt_from m, toMailbox = mail_from m, rdata = d\<rparr>"

definition response_to :: "ClientRequest \<Rightarrow> ServerResponse" where
  "response_to cr = \<lparr>toMachine = machineID cr, toMailbox = mailboxNumber cr, rdata = - 1\<rparr>"

definition push_response :: "ServerResponse \<Rightarrow> server \<Rightarrow> server" where
  "push_response r s = s\<lparr>necessaryResponses := necessaryResponses s @ [r]\<rparr>"

text \<open>Hand the message to the other thread, under the name of the client.\<close>

definition forward :: "mail \<Rightarrow> server \<Rightarrow> outcome result" where
  "forward m s =
     bind_result (sendMessageWithData (pkt_from m) (mail_from m) (myMachineID s) 1 (mail_len m) (mdata m))
       (\<lambda>x. Inr (False, [x], s))"

definition int_at :: "mail \<Rightarrow> nat \<Rightarrow> int" where
  "int_at m k = extractInt (drop k (mdata m))"

definition on_CREATE_LOCK :: "(nat \<Rightarrow> u32) \<Rightarrow> mail \<Rightarrow> server \<Rightarrow> outcome result" where
  "on_CREATE_LOCK g m s =
     bind_result (get_name (mdata m) 2 (char_at (mdata m) 1)) (\<lambda>name.
     bind_result (find_name lock_name name (lock_table s) [0..tsize (lock_table s) - 1]) (\<lambda>i.
     if i \<noteq> - 1 then Inr (True, [], push_response (response m (encodeIndex s i)) s)
     else if totalNumServers s = 1 then
       bind_result (ServerCreateLock g name (lock_table s)) (\<lambda>(k, t).
       Inr (True, [], push_response (response m k) (s\<lparr>lock_table := t\<rparr>)))
     else forward m s))"

definition on_DESTROY_LOCK :: "mail \<Rightarrow> server \<Rightarrow> outcome result" where
  "on_DESTROY_LOCK m s =
     (if decodeMachineID (int_at m 1) \<noteq> myMachineID s then forward m s
      else bind_result (ServerDestroyLock (decodeIndex s (int_at m 1)) (lock_table s)) (\<lambda>t.
        Inr (False, [], s\<lparr>lock_table := t\<rparr>)))"

definition on_ACQUIRE :: "mail \<Rightarrow> server \<Rightarrow> outcome result" where
  "on_ACQUIRE m s =
     (if decodeMachineID (int_at m 1) \<noteq> myMachineID s then forward m s
      else bind_result (ServerAcquire (pkt_from m) (mail_from m) (decodeIndex s (int_at m 1)) (lock_table s))
        (\<lambda>(temp, t). let s1 = s\<lparr>lock_table := t\<rparr> in
          case temp of None \<Rightarrow> Inr (True, [], push_response (response m (- 1)) s1)
          | Some cr \<Rightarrow> if respond cr then Inr (True, [], push_response (response_to cr) s1)
                       else Inr (False, [], s1)))"

definition on_RELEASE :: "mail \<Rightarrow> server \<Rightarrow> outcome result" where
  "on_RELEASE m s =
     (if decodeMachineID (int_at m 1) \<noteq> myMachineID s then forward m s
      else bind_result (ServerRelease (pkt_from m) (mail_from m) (decodeIndex s (int_at m 1)) (lock_table s))
        (\<lambda>(temp, t). let s1 = push_response (response m (- 1)) (s\<lparr>lock_table := t\<rparr>) in
          case temp of None \<Rightarrow> Inr (True, [], s1)
          | Some cr \<Rightarrow> if respond cr then Inr (True, [], push_response (response_to cr) s1)
                       else Inr (True, [], s1)))"

definition on_CREATE_CV :: "(nat \<Rightarrow> u32) \<Rightarrow> mail \<Rightarrow> server \<Rightarrow> outcome result" where
  "on_CREATE_CV g m s =
     bind_result (get_name (mdata m) 2 (char_at (mdata m) 1)) (\<lambda>name.
     bind_result (find_name cond_name name (cond_table s) [0..tsize (cond_table s) - 1]) (\<lambda>i.
     if i \<noteq> - 1 then Inr (True, [], push_response (response m (encodeIndex s i)) s)
     else if totalNumServers s = 1 then
       bind_result (ServerCreateCV g name (cond_table s)) (\<lambda>(k, t).
       Inr (True, [], push_response (response m k) (s\<lparr>cond_table := t\<rparr>)))
     else forward m s))"

text \<open>The number of the condition variable is used without \<open>decodeIndex\<close>.\<close>

definition on_DESTROY_CV :: "mail \<Rightarrow> server \<Rightarrow> outcome result" where
  "on_DESTROY_CV m s =
     (if decodeMachineID (int_at m 1) \<noteq> myMachineID s then forward m s
      else bind_result (ServerDestroyCV (int_at m 1) (cond_table s)) (\<lambda>t.
        Inr (False, [], s\<lparr>cond_table := t\<rparr>)))"

definition on_DOES_CLIENT_HAVE_LOCK :: "mail \<Rightarrow> server \<Rightarrow> outcome result" where
  "on_DOES_CLIENT_HAVE_LOCK m s =
     (let clientMID = int_at m 1; clientMBX = int_at m 5; lockIndex = decodeIndex s (int_at m 9) in
      bind_result (valid_slot (lock_table s) lockIndex) (\<lambda>ok.
      if \<not> ok then Inr (False, [], s)
      else bind_result (lock_at (lock_table s) lockIndex) (\<lambda>(e, L).
        let held = isHeldByRequester L (new_ClientRequest clientMID clientMBX);
            rData = word_of_int CV_LOCK_TRACKER_RESPONSE # compressInt clientMID @ compressInt clientMBX @
                    compressInt (int_at m 9) @ [if held then 1 else 0]
        in bind_result (sendMessageWithData (myMachineID s) 0 (pkt_from m) (mail_from m) 14 rData)
             (\<lambda>x. Inr (False, [x], s)))))"

definition push_signalled :: "ClientRequest option \<Rightarrow> server \<Rightarrow> server" where
  "push_signalled temp s =
     (case temp of None \<Rightarrow> s | Some cr \<Rightarrow> if respond cr then push_response (response_to cr) s else s)"

definition tracker_match :: "int \<Rightarrow> int \<Rightarrow> int \<Rightarrow> CVLockTracker \<Rightarrow> bool" where
  "tracker_match mid mbx ln e \<longleftrightarrow> clientMachineID e = mid \<and> clientMailbox e = mbx \<and> lockNum e = ln"

text \<open>The first match leaves the list.\<close>

fun take_tracker ::
  "(CVLockTracker \<Rightarrow> bool) \<Rightarrow> CVLockTracker list \<Rightarrow> CVLockTracker option \<times> CVLockTracker list" where
  "take_tracker f [] = (None, [])"
| "take_tracker f (e # es) =
     (if f e then (Some e, es) else case take_tracker f es of (r, es') \<Rightarrow> (r, e # es'))"

text \<open>The answer of the machine that has the lock, for an operation that waits for it.\<close>

definition tracked_operation ::
  "mail \<Rightarrow> int \<Rightarrow> int \<Rightarrow> int \<Rightarrow> CVLockTracker \<Rightarrow> server \<Rightarrow> outcome result option" where
  "tracked_operation m mid mbx ln e s =
     (let r = \<lparr>toMachine = mid, toMailbox = mbx, rdata = - 1\<rparr>; op = messageType e; cv = cvNum e in
      if decodeMachineID cv = myMachineID s then
        if op = SIGNAL then
          Some (bind_result (ServerSignal mid mbx (decodeIndex s cv) ln (cond_table s)) (\<lambda>(temp, t).
            Inr (True, [], push_response r (push_signalled temp (s\<lparr>cond_table := t\<rparr>)))))
        else if op = WAIT then
          Some (bind_result (ServerWait mid mbx (decodeIndex s cv) ln (cond_table s)) (\<lambda>t.
            bind_result (sendMessageWithData (myMachineID s) 0 (decodeMachineID ln) 0 5
                (word_of_int RELEASE # compressInt ln)) (\<lambda>x.
            Inr (False, [x], s\<lparr>cond_table := t\<rparr>))))
        else if op = BROADCAST then
          map_option (\<lambda>res. bind_result res (\<lambda>(t, rs).
              Inr (True, [], push_response r (s\<lparr>cond_table := t, necessaryResponses := rs\<rparr>))))
            (ServerBroadcast (pkt_from m) (mail_from m) (decodeIndex s cv) ln (cond_table s)
              (necessaryResponses s))
        else Some (Inr (False, [], s))
      else
        Some (bind_result (sendMessageWithData mid mbx (myMachineID s) 1 9
            (word_of_int op # compressInt cv @ compressInt ln)) (\<lambda>x. Inr (False, [x], s))))"

definition on_CV_LOCK_TRACKER_RESPONSE :: "mail \<Rightarrow> server \<Rightarrow> outcome result option" where
  "on_CV_LOCK_TRACKER_RESPONSE m s =
     (let mid = int_at m 1; mbx = int_at m 5; ln = int_at m 9 in
      case take_tracker (tracker_match mid mbx ln) (cvLockTrackerList s) of (found, es) \<Rightarrow>
        let s1 = s\<lparr>cvLockTrackerList := es\<rparr> in
        if char_at (mdata m) 13 = 0
        then Some (Inr (True, [], push_response \<lparr>toMachine = mid, toMailbox = mbx, rdata = - 1\<rparr> s1))
        else case found of None \<Rightarrow> Some (Inl Uninitialised)
          | Some e \<Rightarrow> tracked_operation m mid mbx ln e s1)"

text \<open>\<open>SIGNAL\<close>, \<open>BROADCAST\<close> and \<open>WAIT\<close> with the lock on another machine: ask that machine first.\<close>

definition query_lock_owner :: "int \<Rightarrow> mail \<Rightarrow> server \<Rightarrow> outcome result" where
  "query_lock_owner op m s =
     (let queryData = word_of_int DOES_CLIENT_HAVE_LOCK # compressInt (pkt_from m) @
            compressInt (mail_from m) @ compressInt (int_at m 5);
          cvlt = \<lparr>clientMachineID = pkt_from m, clientMailbox = mail_from m, cvNum = int_at m 1,
            lockNum = int_at m 5, messageType = op\<rparr>
      in bind_result (sendMessageWithData (myMachineID s) 0 (decodeMachineID (int_at m 5)) 0 13 queryData)
        (\<lambda>x. Inr (False, [x], s\<lparr>cvLockTrackerList := cvLockTrackerList s @ [cvlt]\<rparr>)))"

text \<open>
  The check of the lock's machine these three begin with: it queues an answer but does not end the
  case.
\<close>

definition check_lock_machine :: "mail \<Rightarrow> server \<Rightarrow> server" where
  "check_lock_machine m s =
     (if decodeMachineID (int_at m 5) < 0 \<or> decodeMachineID (int_at m 5) > totalNumServers s
      then push_response (response m (- 1)) s else s)"

definition on_SIGNAL :: "mail \<Rightarrow> server \<Rightarrow> outcome result" where
  "on_SIGNAL m s =
     (let s0 = check_lock_machine m s; r = response m (- 1); lockIndex = decodeIndex s (int_at m 5) in
      if decodeMachineID (int_at m 5) \<noteq> myMachineID s then query_lock_owner SIGNAL m s0
      else bind_result (valid_slot (lock_table s0) lockIndex) (\<lambda>ok.
        if \<not> ok then Inr (True, [], push_response r s0)
        else if decodeMachineID (int_at m 1) \<noteq> myMachineID s then forward m s0
        else bind_result (ServerSignal (pkt_from m) (mail_from m) (decodeIndex s (int_at m 1)) lockIndex
            (cond_table s0)) (\<lambda>(temp, t).
          Inr (True, [], push_response r (push_signalled temp (s0\<lparr>cond_table := t\<rparr>))))))"

definition on_BROADCAST :: "mail \<Rightarrow> server \<Rightarrow> outcome result option" where
  "on_BROADCAST m s =
     (let s0 = check_lock_machine m s; r = response m (- 1); lockIndex = decodeIndex s (int_at m 5) in
      if decodeMachineID (int_at m 5) \<noteq> myMachineID s then Some (query_lock_owner BROADCAST m s0)
      else case valid_slot (lock_table s0) lockIndex of
        Inl c \<Rightarrow> Some (Inl c)
      | Inr ok \<Rightarrow>
          if \<not> ok then Some (Inr (True, [], push_response r s0))
          else if decodeMachineID (int_at m 1) \<noteq> myMachineID s then Some (forward m s0)
          else map_option (\<lambda>res. bind_result res (\<lambda>(t, rs).
                Inr (True, [], push_response r (s0\<lparr>cond_table := t, necessaryResponses := rs\<rparr>))))
              (ServerBroadcast (pkt_from m) (mail_from m) (decodeIndex s (int_at m 1)) lockIndex
                (cond_table s0) (necessaryResponses s0)))"

definition on_WAIT :: "mail \<Rightarrow> server \<Rightarrow> outcome result" where
  "on_WAIT m s =
     (let s0 = check_lock_machine m s; lockIndex = decodeIndex s (int_at m 5) in
      if decodeMachineID (int_at m 5) \<noteq> myMachineID s then query_lock_owner WAIT m s0
      else bind_result (valid_slot (lock_table s0) lockIndex) (\<lambda>ok.
        if \<not> ok then Inr (True, [], s0)
        else if decodeMachineID (int_at m 1) \<noteq> myMachineID s then forward m s0
        else bind_result (ServerWait (pkt_from m) (mail_from m) (decodeIndex s (int_at m 1)) lockIndex
            (cond_table s0)) (\<lambda>ct.
          bind_result (ServerRelease (pkt_from m) (mail_from m) lockIndex (lock_table s0)) (\<lambda>(relResp, lt).
          let s1 = s0\<lparr>cond_table := ct, lock_table := lt\<rparr> in
          case relResp of None \<Rightarrow> Inl NullPointer
          | Some cr \<Rightarrow>
              if respond cr then Inr (True, [], push_response (response_to cr) s1)
              else Inr (decodeMachineID (int_at m 5) < 0 \<or>
                        decodeMachineID (int_at m 5) > totalNumServers s, [], s1)))))"

definition on_CREATE_MV :: "(nat \<Rightarrow> u32) \<Rightarrow> mail \<Rightarrow> server \<Rightarrow> outcome result" where
  "on_CREATE_MV g m s =
     bind_result (get_name (mdata m) 10 (char_at (mdata m) 9)) (\<lambda>name.
     bind_result (find_name mv_name name (mv_table s) [0..tsize (mv_table s) - 1]) (\<lambda>i.
     if i \<noteq> - 1 then Inr (True, [], push_response (response m (encodeIndex s i)) s)
     else if totalNumServers s = 1 then
       bind_result (ServerCreateMV g name (int_at m 1) (int_at m 5) (mv_table s)) (\<lambda>(k, t).
       Inr (True, [], push_response (response m (encodeIndex s k)) (s\<lparr>mv_table := t\<rparr>)))
     else forward m s))"

definition on_DESTROY_MV :: "mail \<Rightarrow> server \<Rightarrow> outcome result" where
  "on_DESTROY_MV m s =
     (if decodeMachineID (int_at m 1) \<noteq> myMachineID s then forward m s
      else bind_result (ServerDestroyMV (decodeIndex s (int_at m 1)) (mv_table s)) (\<lambda>t.
        Inr (False, [], s\<lparr>mv_table := t\<rparr>)))"

definition on_GET_MV :: "mail \<Rightarrow> server \<Rightarrow> outcome result" where
  "on_GET_MV m s =
     (if decodeMachineID (int_at m 1) \<noteq> myMachineID s then forward m s
      else bind_result (ServerGetMV (decodeIndex s (int_at m 1)) (int_at m 5) (mv_table s)) (\<lambda>v.
        Inr (True, [], push_response (response m v) s)))"

definition on_SET_MV :: "mail \<Rightarrow> server \<Rightarrow> outcome result" where
  "on_SET_MV m s =
     (if decodeMachineID (int_at m 1) \<noteq> myMachineID s then forward m s
      else bind_result (ServerSetMV (decodeIndex s (int_at m 1)) (int_at m 5) (int_at m 9) (mv_table s))
        (\<lambda>t. Inr (True, [], push_response (response m (- 1)) (s\<lparr>mv_table := t\<rparr>))))"

text \<open>The switch on the message type; \<open>NO_ACTION\<close> and an unknown type do nothing.\<close>

definition dispatch0 :: "(nat \<Rightarrow> u32) \<Rightarrow> mail \<Rightarrow> server \<Rightarrow> outcome result option" where
  "dispatch0 g m s =
     (let ty = char_at (mdata m) 0 in
      if ty = CREATE_LOCK then Some (on_CREATE_LOCK g m s)
      else if ty = DESTROY_LOCK then Some (on_DESTROY_LOCK m s)
      else if ty = ACQUIRE then Some (on_ACQUIRE m s)
      else if ty = RELEASE then Some (on_RELEASE m s)
      else if ty = CREATE_CV then Some (on_CREATE_CV g m s)
      else if ty = DESTROY_CV then Some (on_DESTROY_CV m s)
      else if ty = DOES_CLIENT_HAVE_LOCK then Some (on_DOES_CLIENT_HAVE_LOCK m s)
      else if ty = CV_LOCK_TRACKER_RESPONSE then on_CV_LOCK_TRACKER_RESPONSE m s
      else if ty = SIGNAL then Some (on_SIGNAL m s)
      else if ty = BROADCAST then on_BROADCAST m s
      else if ty = WAIT then Some (on_WAIT m s)
      else if ty = CREATE_MV then Some (on_CREATE_MV g m s)
      else if ty = DESTROY_MV then Some (on_DESTROY_MV m s)
      else if ty = GET_MV then Some (on_GET_MV m s)
      else if ty = SET_MV then Some (on_SET_MV m s)
      else Some (Inr (False, [], s)))"

text \<open>The end of the loop body: with \<open>respond\<close> set, every queued answer is sent.\<close>

definition response_mail :: "server \<Rightarrow> ServerResponse \<Rightarrow> mail" where
  "response_mail s r = \<lparr>pkt_to = toMachine r, pkt_from = myMachineID s, mail_to = toMailbox r,
     mail_from = 0, mail_len = 4, mdata = compressInt (rdata r)\<rparr>"

fun send_all :: "mail list \<Rightarrow> mail list result" where
  "send_all [] = Inr []"
| "send_all (m # ms) = bind_result (post_send m) (\<lambda>x. bind_result (send_all ms) (\<lambda>xs. Inr (x # xs)))"

definition flush :: "outcome \<Rightarrow> (mail list \<times> server) result" where
  "flush out =
     (case out of (resp, ms, s) \<Rightarrow>
        if resp then bind_result (send_all (map (response_mail s) (necessaryResponses s)))
          (\<lambda>xs. Inr (ms @ xs, s\<lparr>necessaryResponses := []\<rparr>))
        else Inr (ms, s))"

definition handle0 :: "(nat \<Rightarrow> u32) \<Rightarrow> mail \<Rightarrow> server \<Rightarrow> (mail list \<times> server) result option" where
  "handle0 g m s = map_option (\<lambda>res. bind_result res flush) (dispatch0 g m s)"

end
