(* ===== verification/Server_Peer.thy ===== *)
theory Server_Peer
  imports Server
begin

text \<open>
  \<open>ServerToServerMessageHandler\<close> of network/server.cc: mailbox 1, where the servers ask each other
  which of them has an object, or is to create it.

  A case of its switch gives the action to take, the data to send with it (positions 1 to 4, the
  message number, are filled in afterwards where the code does so), the messages already sent and
  the state. A variable the case leaves unset is \<open>Uninitialised\<close> where its value matters.
\<close>

type_synonym peer_outcome = "ServerAction \<times> u8 list \<times> mail list \<times> server"

section \<open>Pending creations\<close>

definition new_QueryStatus :: "mail \<Rightarrow> server \<Rightarrow> QueryStatus \<times> server" where
  "new_QueryStatus m s =
     (\<lparr>qmail = m, numResponsesReceived = 0, qid = nextQueryID s\<rparr>,
      s\<lparr>nextQueryID := nextQueryID s + 1\<rparr>)"

definition new_PendingCreate :: "u8 list \<Rightarrow> StructureType \<Rightarrow> server \<Rightarrow> (PendingCreate \<times> server) result" where
  "new_PendingCreate name ty s =
     bind_result (array_set (replicate (nat (totalNumServers s)) False) (myMachineID s) True) (\<lambda>tr.
     Inr (\<lparr>pcname = name, pctype = ty, responseTracker = tr, waitingClients = [],
            serverResponseQueue = [], numResponses = 0, pcID = nextQueryID s\<rparr>,
          s\<lparr>nextQueryID := nextQueryID s + 1\<rparr>))"

definition isAMatch :: "PendingCreate \<Rightarrow> u8 list \<Rightarrow> StructureType \<Rightarrow> bool result" where
  "isAMatch p name ty = bind_result (str_eq (pcname p) name) (\<lambda>same. Inr (same \<and> ty = pctype p))"

definition forwardWaitingClientMessagesToServer :: "PendingCreate \<Rightarrow> int \<Rightarrow> mail list result" where
  "forwardWaitingClientMessagesToServer p recipient =
     send_all (map (\<lambda>q. (qmail q)\<lparr>pkt_to := recipient, mail_to := 1\<rparr>) (waitingClients p))"

definition messageBackClients :: "PendingCreate \<Rightarrow> int \<Rightarrow> server \<Rightarrow> mail list result" where
  "messageBackClients p encodedIndex s =
     send_all (map (\<lambda>q. let x = qmail q in
        x\<lparr>pkt_to := pkt_from x, mail_to := mail_from x, pkt_from := myMachineID s, mail_from := 1,
          mdata := put_int 0 encodedIndex (mdata x), mail_len := 4\<rparr>) (waitingClients p))"

definition notifyServersOfCreation :: "PendingCreate \<Rightarrow> u8 list \<Rightarrow> server \<Rightarrow> mail list result" where
  "notifyServersOfCreation p outData s =
     send_all (map (\<lambda>r. \<lparr>pkt_to = replyMachine r, pkt_from = myMachineID s, mail_to = replyMailbox r,
        mail_from = 1, mail_len = 5, mdata = put_int 1 (replyMessageID r) outData\<rparr>)
        (serverResponseQueue p))"

definition DO_NOT_HAVE_NAME :: "StructureType \<Rightarrow> int" where
  "DO_NOT_HAVE_NAME ty = (case ty of LockT \<Rightarrow> DO_NOT_HAVE_LOCK_NAME | CVT \<Rightarrow> DO_NOT_HAVE_CV_NAME
     | MVT \<Rightarrow> DO_NOT_HAVE_MV_NAME)"

definition HAVE_NAME :: "StructureType \<Rightarrow> int" where
  "HAVE_NAME ty = (case ty of LockT \<Rightarrow> HAVE_LOCK_NAME | CVT \<Rightarrow> HAVE_CV_NAME | MVT \<Rightarrow> HAVE_MV_NAME)"

text \<open>A message of five bytes: a type and room for a message number.\<close>

definition five :: "int \<Rightarrow> u8 list" where
  "five ty = word_of_int ty # replicate 4 0"

text \<open>
  The loop of \<open>determineResponseToCreateRequest\<close>: the last matching creation it looked at, and
  whether it stopped there because the asking server had already answered us.
\<close>

fun scan_pending ::
  "u8 list \<Rightarrow> StructureType \<Rightarrow> int \<Rightarrow> PendingCreate list \<Rightarrow> nat \<Rightarrow> nat option \<Rightarrow> (nat option \<times> bool) result" where
  "scan_pending name ty from [] i pc = Inr (pc, False)"
| "scan_pending name ty from (p # ps) i pc =
     bind_result (isAMatch p name ty) (\<lambda>mt.
     if mt then bind_result (array_get (responseTracker p) from) (\<lambda>told.
       if told then Inr (Some i, True) else scan_pending name ty from ps (Suc i) (Some i))
     else scan_pending name ty from ps (Suc i) pc)"

definition queue_response :: "mail \<Rightarrow> nat \<Rightarrow> server \<Rightarrow> server" where
  "queue_response m i s =
     (let p = pendingCreates s ! i;
          r = \<lparr>replyMachine = pkt_from m, replyMailbox = mail_from m, replyMessageID = int_at m 1\<rparr>
      in s\<lparr>pendingCreates := (pendingCreates s)[i :=
            p\<lparr>serverResponseQueue := serverResponseQueue p @ [r]\<rparr>]\<rparr>)"

definition determineResponseToCreateRequest ::
  "StructureType \<Rightarrow> u8 list \<Rightarrow> mail \<Rightarrow> server \<Rightarrow> peer_outcome result" where
  "determineResponseToCreateRequest ty name m s =
     bind_result (scan_pending name ty (pkt_from m) (pendingCreates s) 0 None) (\<lambda>(pc, received).
     case pc of
       None \<Rightarrow> Inr (Respond_Once_To_Server, five (DO_NOT_HAVE_NAME ty), [], s)
     | Some i \<Rightarrow>
         if received then Inr (No_Action, [], [], queue_response m i s)
         else if myMachineID s < pkt_from m then Inr (No_Action, [], [], queue_response m i s)
         else Inr (Respond_Once_To_Server, five (DO_NOT_HAVE_NAME ty), [], s))"

section \<open>Questions of other servers\<close>

definition on_DO_YOU_HAVE :: "'e table \<Rightarrow> int \<Rightarrow> int \<Rightarrow> mail \<Rightarrow> server \<Rightarrow> peer_outcome result" where
  "on_DO_YOU_HAVE t yes no m s =
     (let index = decodeIndex s (int_at m 5) in
      bind_result (if index > 0 \<and> index < tsize t then slot_test t index else Inr False) (\<lambda>have.
      Inr (Respond_Once_To_Server, five (if have then yes else no), [], s)))"

definition on_DO_YOU_HAVE_LOCK :: "mail \<Rightarrow> server \<Rightarrow> peer_outcome result" where
  "on_DO_YOU_HAVE_LOCK m s = on_DO_YOU_HAVE (lock_table s) HAVE_LOCK DO_NOT_HAVE_LOCK m s"

definition on_DO_YOU_HAVE_CV :: "mail \<Rightarrow> server \<Rightarrow> peer_outcome result" where
  "on_DO_YOU_HAVE_CV m s = on_DO_YOU_HAVE (cond_table s) HAVE_CV DO_NOT_HAVE_CV m s"

definition on_DO_YOU_HAVE_MV :: "mail \<Rightarrow> server \<Rightarrow> peer_outcome result" where
  "on_DO_YOU_HAVE_MV m s = on_DO_YOU_HAVE (mv_table s) HAVE_MV DO_NOT_HAVE_MV m s"

definition on_DO_YOU_HAVE_NAME ::
  "StructureType \<Rightarrow> (u8 list \<Rightarrow> int result) \<Rightarrow> mail \<Rightarrow> server \<Rightarrow> peer_outcome result" where
  "on_DO_YOU_HAVE_NAME ty exists m s =
     bind_result (get_name (mdata m) 6 (char_at (mdata m) 5)) (\<lambda>name.
     bind_result (exists name) (\<lambda>i.
     if i \<noteq> - 1 then Inr (Respond_Once_To_Server, five (HAVE_NAME ty), [], s)
     else determineResponseToCreateRequest ty name m s))"

definition on_DO_YOU_HAVE_LOCK_NAME :: "mail \<Rightarrow> server \<Rightarrow> peer_outcome result" where
  "on_DO_YOU_HAVE_LOCK_NAME m s =
     on_DO_YOU_HAVE_NAME LockT (\<lambda>n. checkIfExists lock_name n (lock_table s)) m s"

definition on_DO_YOU_HAVE_CV_NAME :: "mail \<Rightarrow> server \<Rightarrow> peer_outcome result" where
  "on_DO_YOU_HAVE_CV_NAME m s =
     on_DO_YOU_HAVE_NAME CVT (\<lambda>n. checkIfExists cond_name n (cond_table s)) m s"

definition on_DO_YOU_HAVE_MV_NAME :: "mail \<Rightarrow> server \<Rightarrow> peer_outcome result" where
  "on_DO_YOU_HAVE_MV_NAME m s =
     on_DO_YOU_HAVE_NAME MVT (\<lambda>n. checkIfExists mv_name n (mv_table s)) m s"

section \<open>Answers of other servers to our questions about a name\<close>

text \<open>The first element with the property, its position, and the list without it.\<close>

fun index_of :: "('x \<Rightarrow> bool) \<Rightarrow> 'x list \<Rightarrow> nat option" where
  "index_of f [] = None"
| "index_of f (x # xs) = (if f x then Some 0 else map_option Suc (index_of f xs))"

definition erase :: "nat \<Rightarrow> 'x list \<Rightarrow> 'x list" where
  "erase i xs = take i xs @ drop (Suc i) xs"

definition on_HAVE_NAME :: "mail \<Rightarrow> server \<Rightarrow> peer_outcome result" where
  "on_HAVE_NAME m s =
     (case index_of (\<lambda>p. pcID p = int_at m 1) (pendingCreates s) of
        None \<Rightarrow> Inr (No_Action, [], [], s)
      | Some i \<Rightarrow>
          bind_result (forwardWaitingClientMessagesToServer (pendingCreates s ! i) (pkt_from m)) (\<lambda>ms.
          Inr (No_Action, [], ms, s\<lparr>pendingCreates := erase i (pendingCreates s)\<rparr>)))"

text \<open>Every other server has answered that it has no such object: create it here.\<close>

definition create_pending ::
  "(nat \<Rightarrow> u32) \<Rightarrow> PendingCreate \<Rightarrow> mail \<Rightarrow> server \<Rightarrow> (int \<times> server) result" where
  "create_pending g p q s =
     (case pctype p of
        LockT \<Rightarrow>
          bind_result (get_name (mdata q) 2 (char_at (mdata q) 1)) (\<lambda>name.
          bind_result (ServerCreateLock g name (lock_table s)) (\<lambda>(k, t).
          Inr (encodeIndex s k, s\<lparr>lock_table := t\<rparr>)))
      | CVT \<Rightarrow>
          bind_result (get_name (mdata q) 2 (char_at (mdata q) 1)) (\<lambda>name.
          bind_result (ServerCreateCV g name (cond_table s)) (\<lambda>(k, t).
          Inr (encodeIndex s k, s\<lparr>cond_table := t\<rparr>)))
      | MVT \<Rightarrow>
          bind_result (get_name (mdata q) 10 (char_at (mdata q) 9)) (\<lambda>name.
          bind_result (ServerCreateMV g name (int_at q 1) (int_at q 5) (mv_table s)) (\<lambda>(k, t).
          Inr (encodeIndex s k, s\<lparr>mv_table := t\<rparr>))))"

definition on_DO_NOT_HAVE_NAME :: "(nat \<Rightarrow> u32) \<Rightarrow> mail \<Rightarrow> server \<Rightarrow> peer_outcome result" where
  "on_DO_NOT_HAVE_NAME g m s =
     (case index_of (\<lambda>p. pcID p = int_at m 1) (pendingCreates s) of
        None \<Rightarrow> Inl Uninitialised
      | Some i \<Rightarrow>
          let p = pendingCreates s ! i in
          bind_result (array_set (responseTracker p) (pkt_from m) True) (\<lambda>tr.
          let p1 = p\<lparr>numResponses := numResponses p + 1, responseTracker := tr\<rparr>;
              s1 = s\<lparr>pendingCreates := (pendingCreates s)[i := p1]\<rparr>
          in if numResponses p1 \<noteq> totalNumServers s - 1 then Inr (No_Action, [], [], s1)
             else case waitingClients p1 of
               [] \<Rightarrow> Inl OutOfBounds
             | q # _ \<Rightarrow>
                 bind_result (create_pending g p1 (qmail q) s1) (\<lambda>(index, s2).
                 bind_result (notifyServersOfCreation p1 (five (HAVE_NAME (pctype p1))) s2) (\<lambda>ms1.
                 bind_result (messageBackClients p1 index s2) (\<lambda>ms2.
                 Inr (No_Action, [], ms1 @ ms2,
                   s2\<lparr>pendingCreates := erase i (pendingCreates s2)\<rparr>))))))"

section \<open>Requests passed on by mailbox 0\<close>

text \<open>The loop that looks for a creation of the same object in progress.\<close>

fun find_pending :: "u8 list \<Rightarrow> StructureType \<Rightarrow> PendingCreate list \<Rightarrow> nat option result" where
  "find_pending name ty [] = Inr None"
| "find_pending name ty (p # ps) = bind_result (isAMatch p name ty) (\<lambda>mt.
     if mt then Inr (Some 0)
     else bind_result (find_pending name ty ps) (\<lambda>r. Inr (map_option Suc r)))"

definition on_CREATE ::
  "StructureType \<Rightarrow> int \<Rightarrow> nat \<Rightarrow> (u8 list \<Rightarrow> int result) \<Rightarrow> mail \<Rightarrow> server \<Rightarrow> peer_outcome result" where
  "on_CREATE ty question k exists m s =
     (let nameLength = char_at (mdata m) (k - 1) in
      bind_result (get_name (mdata m) k nameLength) (\<lambda>name.
      bind_result (exists name) (\<lambda>i.
      if i \<noteq> - 1 then Inr (Respond_Once_To_Client, compressInt (encodeIndex s i), [], s)
      else if 6 + nameLength > MaxMailSize then Inl OutOfBounds
      else
        bind_result (get_name (mdata m) 2 nameLength) (\<lambda>asked.
        let outData = five question @ word_of_int nameLength # asked in
        bind_result (find_pending name ty (pendingCreates s)) (\<lambda>pend.
        case pend of
          Some j \<Rightarrow>
            (case new_QueryStatus m s of (q, s1) \<Rightarrow>
              let p = pendingCreates s1 ! j in
              Inr (No_Action, [], [], s1\<lparr>pendingCreates :=
                (pendingCreates s1)[j := p\<lparr>waitingClients := waitingClients p @ [q]\<rparr>]\<rparr>))
        | None \<Rightarrow>
            bind_result (new_PendingCreate name ty s) (\<lambda>(p, s1).
            case new_QueryStatus m s1 of (q, s2) \<Rightarrow>
              Inr (Create_Query, put_int 1 (pcID p) outData, [],
                s2\<lparr>pendingCreates := pendingCreates s2 @ [p\<lparr>waitingClients := [q]\<rparr>]\<rparr>)))))))"

definition on_CREATE_LOCK1 :: "mail \<Rightarrow> server \<Rightarrow> peer_outcome result" where
  "on_CREATE_LOCK1 m s = on_CREATE LockT DO_YOU_HAVE_LOCK_NAME 2
     (\<lambda>n. checkIfExists lock_name n (lock_table s)) m s"

definition on_CREATE_CV1 :: "mail \<Rightarrow> server \<Rightarrow> peer_outcome result" where
  "on_CREATE_CV1 m s = on_CREATE CVT DO_YOU_HAVE_CV_NAME 2
     (\<lambda>n. checkIfExists cond_name n (cond_table s)) m s"

definition on_CREATE_MV1 :: "mail \<Rightarrow> server \<Rightarrow> peer_outcome result" where
  "on_CREATE_MV1 m s = on_CREATE MVT DO_YOU_HAVE_MV_NAME 10
     (\<lambda>n. checkIfExists mv_name n (mv_table s)) m s"

text \<open>Any other request: ask all servers for the object with this number.\<close>

definition ask_for_object :: "int \<Rightarrow> mail \<Rightarrow> server \<Rightarrow> peer_outcome" where
  "ask_for_object question m s =
     (Query_All_Servers, five question @ compressInt (int_at m 1), [], s)"

section \<open>Answers to our questions about a number\<close>

definition on_HAVE :: "mail \<Rightarrow> server \<Rightarrow> peer_outcome result" where
  "on_HAVE m s =
     (case index_of (\<lambda>q. qid q = int_at m 1) (queryQueue s) of
        None \<Rightarrow> Inr (Do_Bookkeeping, [], [], s)
      | Some i \<Rightarrow>
          bind_result (post_send ((qmail (queryQueue s ! i))\<lparr>pkt_to := pkt_from m, mail_to := 0\<rparr>)) (\<lambda>x.
          Inr (Do_Bookkeeping, [], [x], s\<lparr>queryQueue := erase i (queryQueue s)\<rparr>)))"

text \<open>The loop leaves after the first query, whether it is the one asked for or not.\<close>

definition on_DO_NOT_HAVE :: "mail \<Rightarrow> server \<Rightarrow> peer_outcome" where
  "on_DO_NOT_HAVE m s =
     (case queryQueue s of
        [] \<Rightarrow> (No_Action, [], [], s)
      | q # qs \<Rightarrow>
          if qid q = int_at m 1
          then (No_Action, [], [],
            s\<lparr>queryQueue := q\<lparr>numResponsesReceived := numResponsesReceived q + 1\<rparr> # qs\<rparr>)
          else (No_Action, [], [], s))"

section \<open>One iteration\<close>

definition dispatch1 :: "(nat \<Rightarrow> u32) \<Rightarrow> mail \<Rightarrow> server \<Rightarrow> peer_outcome result" where
  "dispatch1 g m s =
     (let ty = char_at (mdata m) 0 in
      if ty = DO_YOU_HAVE_LOCK then on_DO_YOU_HAVE_LOCK m s
      else if ty = DO_YOU_HAVE_CV then on_DO_YOU_HAVE_CV m s
      else if ty = DO_YOU_HAVE_MV then on_DO_YOU_HAVE_MV m s
      else if ty = DO_YOU_HAVE_LOCK_NAME then on_DO_YOU_HAVE_LOCK_NAME m s
      else if ty = DO_YOU_HAVE_CV_NAME then on_DO_YOU_HAVE_CV_NAME m s
      else if ty = DO_YOU_HAVE_MV_NAME then on_DO_YOU_HAVE_MV_NAME m s
      else if ty = HAVE_LOCK_NAME \<or> ty = HAVE_CV_NAME \<or> ty = HAVE_MV_NAME then on_HAVE_NAME m s
      else if ty = DO_NOT_HAVE_LOCK_NAME \<or> ty = DO_NOT_HAVE_CV_NAME \<or> ty = DO_NOT_HAVE_MV_NAME
        then on_DO_NOT_HAVE_NAME g m s
      else if ty = CREATE_LOCK then on_CREATE_LOCK1 m s
      else if ty = CREATE_CV then on_CREATE_CV1 m s
      else if ty = CREATE_MV then on_CREATE_MV1 m s
      else if ty = ACQUIRE \<or> ty = RELEASE \<or> ty = DESTROY_LOCK
        then Inr (ask_for_object DO_YOU_HAVE_LOCK m s)
      else if ty = DESTROY_CV \<or> ty = SIGNAL \<or> ty = WAIT \<or> ty = BROADCAST
        then Inr (ask_for_object DO_YOU_HAVE_CV m s)
      else if ty = DESTROY_MV \<or> ty = GET_MV \<or> ty = SET_MV
        then Inr (ask_for_object DO_YOU_HAVE_MV m s)
      else if ty = HAVE_LOCK \<or> ty = HAVE_CV \<or> ty = HAVE_MV then on_HAVE m s
      else if ty = DO_NOT_HAVE_LOCK \<or> ty = DO_NOT_HAVE_CV \<or> ty = DO_NOT_HAVE_MV
        then Inr (on_DO_NOT_HAVE m s)
      else Inl Uninitialised)"

text \<open>A message of this server's mailbox 1 to mailbox 1 of every other server.\<close>

definition to_all_servers :: "u8 list \<Rightarrow> int \<Rightarrow> server \<Rightarrow> mail list result" where
  "to_all_servers data len s =
     send_all (map (\<lambda>i. \<lparr>pkt_to = i, pkt_from = myMachineID s, mail_to = 1, mail_from = 1,
        mail_len = len, mdata = data\<rparr>) (filter (\<lambda>i. i \<noteq> myMachineID s) [0..totalNumServers s - 1]))"

definition perform :: "mail \<Rightarrow> peer_outcome \<Rightarrow> (mail list \<times> server) result" where
  "perform m out = (case out of (action, data, ms, s) \<Rightarrow>
     (case action of
        Respond_Once_To_Client \<Rightarrow>
          bind_result (post_send \<lparr>pkt_to = pkt_from m, pkt_from = myMachineID s, mail_to = mail_from m,
              mail_from = 1, mail_len = 4, mdata = data\<rparr>) (\<lambda>x. Inr (ms @ [x], s))
      | Respond_Once_To_Server \<Rightarrow>
          bind_result (post_send \<lparr>pkt_to = pkt_from m, pkt_from = myMachineID s, mail_to = mail_from m,
              mail_from = mail_to m, mail_len = 5, mdata = put_int 1 (int_at m 1) data\<rparr>)
            (\<lambda>x. Inr (ms @ [x], s))
      | Create_Query \<Rightarrow>
          bind_result (to_all_servers data (int (length data)) s) (\<lambda>xs. Inr (ms @ xs, s))
      | Query_All_Servers \<Rightarrow>
          (case new_QueryStatus m s of (q, s1) \<Rightarrow>
            let s2 = s1\<lparr>nextQueryID := nextQueryID s1 + 1, queryQueue := queryQueue s1 @ [q]\<rparr> in
            bind_result (to_all_servers (put_int 1 (qid q) data) 9 s2) (\<lambda>xs. Inr (ms @ xs, s2)))
      | Do_Bookkeeping \<Rightarrow> Inr (ms, s)
      | No_Action \<Rightarrow> Inr (ms, s)))"

definition handle1 :: "(nat \<Rightarrow> u32) \<Rightarrow> mail \<Rightarrow> server \<Rightarrow> (mail list \<times> server) result" where
  "handle1 g m s = bind_result (dispatch1 g m s) (perform m)"

end
