(* ===== verification/Server_Invariant.thy ===== *)
theory Server_Invariant
  imports Server_Peer Memory
begin

text \<open>
  The invariant of the server's tables, and what each operation does to them.
\<close>

section \<open>Integers and strings in messages\<close>

lemma length_compressInt [simp]: "length (compressInt x) = 4"
  by (simp add: compressInt_def Let_def)

text \<open>Addition of the four masked bytes is the big-endian word: no two have a bit in common.\<close>

lemma byte_parts:
  "(push_bit 24 (scast (a::u8)) AND 0xff000000 :: u32) = le32 0 0 0 a"
  "(push_bit 16 (scast (a::u8)) AND 0x00ff0000 :: u32) = le32 0 0 a 0"
  "(push_bit 8 (scast (a::u8)) AND 0x0000ff00 :: u32) = le32 0 a 0 0"
  "(scast (a::u8) AND 0x000000ff :: u32) = le32 a 0 0 0"
  unfolding byte_masks by (rule le32_eqI; simp add: bit_simps)+

lemma le32_add:
  "le32 0 0 0 a + le32 0 0 b 0 = le32 0 0 b a"
  "le32 0 0 b a + le32 0 c 0 0 = le32 0 c b a"
  "le32 0 c b a + le32 d 0 0 0 = le32 d c b a"
proof -
  have z: "le32 0 0 0 a AND le32 0 0 b 0 = 0" "le32 0 0 b a AND le32 0 c 0 0 = 0"
    "le32 0 c b a AND le32 d 0 0 0 = 0"
    by (rule bit_word_eqI; simp add: bit_le32 bit_simps)+
  have o: "le32 0 0 0 a OR le32 0 0 b 0 = le32 0 0 b a" "le32 0 0 b a OR le32 0 c 0 0 = le32 0 c b a"
    "le32 0 c b a OR le32 d 0 0 0 = le32 d c b a"
    by (rule bit_word_eqI; simp add: bit_le32 bit_simps)+
  show "le32 0 0 0 a + le32 0 0 b 0 = le32 0 0 b a" "le32 0 0 b a + le32 0 c 0 0 = le32 0 c b a"
    "le32 0 c b a + le32 d 0 0 0 = le32 d c b a"
    using disjunctive_add_eq_or [OF z(1)] disjunctive_add_eq_or [OF z(2)]
      disjunctive_add_eq_or [OF z(3)] o by simp_all
qed

lemma extractInt_bytes: "extractInt (a # b # c # d # rest) = sint (le32 d c b a)"
  unfolding extractInt_def Let_def
  by (simp add: byte_parts le32_add numeral_2_eq_2 numeral_3_eq_3)

lemma compressInt_bytes:
  "compressInt x = (let w = word_of_int x :: u32 in [byte_of w 3, byte_of w 2, byte_of w 1, byte_of w 0])"
proof -
  have b: "byte_of (drop_bit 24 w) 0 = byte_of w 3" "byte_of (drop_bit 16 w) 0 = byte_of w 2"
    "byte_of (drop_bit 8 w) 0 = byte_of w 1" for w :: u32
    by (rule bit_word_eqI; simp add: bit_byte_of bit_simps)+
  show ?thesis unfolding compressInt_def Let_def low_byte b ..
qed

lemma extractInt_compressInt:
  assumes "- (2 ^ 31) \<le> x" "x < 2 ^ 31"
  shows "extractInt (compressInt x @ rest) = x"
  
  unfolding compressInt_bytes Let_def append_Cons extractInt_bytes le32_bytes
  using assms by (simp add: sint_of_int)

lemma compressInt_extractInt:
  assumes "length buf = 4"
  shows "compressInt (extractInt buf) = buf"
proof -
  obtain a b c d where "buf = [a, b, c, d]"
    using assms by (auto simp: length_Suc_conv numeral_eq_Suc)
  then show ?thesis 
    by (simp only: compressInt_bytes Let_def extractInt_bytes of_int_sint scast_id bytes_le32)
qed

text \<open>The string in a buffer that has a zero byte.\<close>

definition cstr :: "u8 list \<Rightarrow> u8 list" where
  "cstr b = takeWhile (\<lambda>c. c \<noteq> 0) b"

definition terminated :: "u8 list \<Rightarrow> bool" where
  "terminated b \<longleftrightarrow> 0 \<in> set b"

lemma str_eq_cstr: "terminated a \<Longrightarrow> terminated b \<Longrightarrow> str_eq a b = Inr (cstr a = cstr b)"
  by (induction a b rule: str_eq.induct) (auto simp: terminated_def cstr_def)

lemma strncpy_terminated:
  assumes "terminated (take n src)"
  shows "\<exists>r. strncpy n src = Inr r \<and> terminated r \<and> cstr r = cstr (take n src) \<and> length r = n"
  using assms
proof (induction n src rule: strncpy.induct)
  case (3 n b bs)
  then show ?case by (cases "b = 0") (auto simp: terminated_def cstr_def)
qed (simp_all add: terminated_def)

section \<open>Well-formed tables\<close>

text \<open>
  \<open>wf_table nm f t\<close>: either the table has not been set up, or it has its 500 slots, and every slot in
  use has an entry that satisfies \<open>f\<close> and has a terminated name (\<open>nm\<close>) that no other slot has.
\<close>

definition used :: "'e table \<Rightarrow> int set" where
  "used t = (case tbits t of None \<Rightarrow> {} | Some b \<Rightarrow> bits b)"

definition at :: "'e table \<Rightarrow> int \<Rightarrow> 'e" where
  "at t i = tentries t ! nat i"

definition slots :: "'e table \<Rightarrow> int \<rightharpoonup> 'e" where
  "slots t = (\<lambda>i. if i \<in> used t then Some (at t i) else None)"

definition sname :: "('e \<Rightarrow> u8 list result) \<Rightarrow> 'e \<Rightarrow> u8 list" where
  "sname nm e = (case nm e of Inr n \<Rightarrow> cstr n | Inl _ \<Rightarrow> [])"

definition set_up :: "'e table \<Rightarrow> bool" where
  "set_up t \<longleftrightarrow> tsize t = MAX_SERVER \<and> length (tentries t) = 500 \<and>
     (\<exists>b. tbits t = Some b \<and> wf_BitMap b \<and> numBits b = MAX_SERVER)"

definition wf_map :: "('e \<Rightarrow> u8 list result) \<Rightarrow> ('e \<Rightarrow> bool) \<Rightarrow> (int \<rightharpoonup> 'e) \<Rightarrow> bool" where
  "wf_map nm f M \<longleftrightarrow> (\<forall>i e. M i = Some e \<longrightarrow> (\<exists>n. nm e = Inr n \<and> terminated n) \<and> f e) \<and>
     (\<forall>i j d e. M i = Some d \<longrightarrow> M j = Some e \<longrightarrow> sname nm d = sname nm e \<longrightarrow> i = j)"

definition wf_table :: "('e \<Rightarrow> u8 list result) \<Rightarrow> ('e \<Rightarrow> bool) \<Rightarrow> 'e table \<Rightarrow> bool" where
  "wf_table nm f t \<longleftrightarrow> (tsize t = 0 \<and> tbits t = None \<or> set_up t) \<and> wf_map nm f (slots t)"

lemma slots_Some [simp]: "slots t i = Some e \<longleftrightarrow> i \<in> used t \<and> e = at t i"
  by (auto simp: slots_def)

lemma dom_slots [simp]: "dom (slots t) = used t"
  by (auto simp: slots_def split: if_splits)

lemma used_range: "wf_table nm f t \<Longrightarrow> i \<in> used t \<Longrightarrow> 0 \<le> i \<and> i < 500 \<and> set_up t"
  using bits_range
  by (fastforce simp: wf_table_def used_def set_up_def MAX_SERVER_def split: option.splits)

lemma slot_test_set_up: "set_up t \<Longrightarrow> 0 \<le> i \<Longrightarrow> i < 500 \<Longrightarrow> slot_test t i = Inr (i \<in> used t)"
  by (auto simp: set_up_def slot_test_def used_def MAX_SERVER_def)

lemma valid_slot_ok [simp]: "wf_table nm f t \<Longrightarrow> valid_slot t i = Inr (i \<in> used t)"
  using used_range [of nm f t i] slot_test_set_up [of t i]
  by (auto simp: valid_slot_def wf_table_def set_up_def MAX_SERVER_def used_def)

lemma slot_get_ok [simp]: "set_up t \<Longrightarrow> 0 \<le> i \<Longrightarrow> i < 500 \<Longrightarrow> slot_get t i = Inr (at t i)"
  by (simp add: slot_get_def array_get_def at_def set_up_def)

text \<open>Looking for a name.\<close>

lemma find_name_ok:
  assumes "wf_table nm f t" "set_up t" "terminated name" "\<forall>i\<in>set is. 0 \<le> i \<and> i < 500"
  shows "find_name nm name t is =
     Inr (case List.find (\<lambda>i. i \<in> used t \<and> sname nm (at t i) = cstr name) is of None \<Rightarrow> - 1 | Some i \<Rightarrow> i)"
  using assms(4)
proof (induction "is")
  case (Cons i "is")
  then have i: "0 \<le> i" "i < 500" by auto
  show ?case
  proof (cases "i \<in> used t")
    case True
    then obtain n where n: "nm (at t i) = Inr n" "terminated n" using assms(1) by (auto simp: wf_table_def wf_map_def)
    then show ?thesis
      using Cons i True assms(2,3) slot_test_set_up [OF assms(2) i]
      by (simp add: str_eq_cstr sname_def)
  next
    case False
    then show ?thesis using Cons i assms(2) slot_test_set_up [OF assms(2) i] by simp
  qed
qed simp

text \<open>The slot with a name, -1 if there is none.\<close>

definition slot_of :: "('e \<Rightarrow> u8 list result) \<Rightarrow> 'e table \<Rightarrow> u8 list \<Rightarrow> int option" where
  "slot_of nm t s = List.find (\<lambda>i. i \<in> used t \<and> sname nm (at t i) = s) [0..499]"

lemma slot_of_Some:
  assumes "wf_table nm f t"
  shows "slot_of nm t s = Some i \<longleftrightarrow> i \<in> used t \<and> sname nm (at t i) = s"
proof
  assume "slot_of nm t s = Some i"
  then show "i \<in> used t \<and> sname nm (at t i) = s" by (auto simp: slot_of_def find_Some_iff)
next
  assume i: "i \<in> used t \<and> sname nm (at t i) = s"
  then have "slot_of nm t s \<noteq> None" using used_range [OF assms, of i] by (auto simp: slot_of_def find_None_iff)
  then obtain j where j: "slot_of nm t s = Some j" by auto
  then have "j \<in> used t \<and> sname nm (at t j) = s" by (auto simp: slot_of_def find_Some_iff)
  with i assms have "j = i" by (auto simp: wf_table_def wf_map_def)
  with j show "slot_of nm t s = Some i" by simp
qed

lemma slot_of_None: "wf_table nm f t \<Longrightarrow> slot_of nm t s = None \<longleftrightarrow> (\<forall>i\<in>used t. sname nm (at t i) \<noteq> s)"
  using slot_of_Some [of nm f t s] by (cases "slot_of nm t s") auto

lemma find_name_all:
  assumes "wf_table nm f t" "terminated name"
  shows "find_name nm name t [0..tsize t - 1] = Inr (case slot_of nm t (cstr name) of None \<Rightarrow> - 1 | Some i \<Rightarrow> i)"
    and "set_up t \<Longrightarrow> find_name nm name t [0..MAX_SERVER - 1] =
      Inr (case slot_of nm t (cstr name) of None \<Rightarrow> - 1 | Some i \<Rightarrow> i)"
    and "checkIfExists nm name t = Inr (case slot_of nm t (cstr name) of None \<Rightarrow> - 1 | Some i \<Rightarrow> i)"
proof -
  show a: "set_up t \<Longrightarrow> find_name nm name t [0..MAX_SERVER - 1] =
      Inr (case slot_of nm t (cstr name) of None \<Rightarrow> - 1 | Some i \<Rightarrow> i)"
    using find_name_ok [OF assms(1) _ assms(2), of "[0..499]"] by (simp add: MAX_SERVER_def slot_of_def)
  consider (empty) "tsize t = 0" "used t = {}" | (up) "set_up t" "tsize t = MAX_SERVER"
    using assms(1) by (auto simp: wf_table_def used_def set_up_def)
  then have "find_name nm name t [0..tsize t - 1] = Inr (case slot_of nm t (cstr name) of None \<Rightarrow> - 1 | Some i \<Rightarrow> i) \<and>
    checkIfExists nm name t = Inr (case slot_of nm t (cstr name) of None \<Rightarrow> - 1 | Some i \<Rightarrow> i)"
  proof cases
    case empty
    then have "slot_of nm t (cstr name) = None" by (simp add: slot_of_None [OF assms(1)])
    then show ?thesis using empty by (simp add: checkIfExists_def)
  next
    case up
    then show ?thesis using a by (simp add: checkIfExists_def MAX_SERVER_def)
  qed
  then show "find_name nm name t [0..tsize t - 1] = Inr (case slot_of nm t (cstr name) of None \<Rightarrow> - 1 | Some i \<Rightarrow> i)"
    "checkIfExists nm name t = Inr (case slot_of nm t (cstr name) of None \<Rightarrow> - 1 | Some i \<Rightarrow> i)" by auto
qed

section \<open>Changing a table\<close>

lemma wf_table_set_up: "wf_table nm f t \<Longrightarrow> i \<in> used t \<Longrightarrow> set_up t \<and> 0 \<le> i \<and> i < 500"
  using used_range [of nm f t i] by simp

lemma slot_set_ok:
  assumes "set_up t" "i \<in> used t \<or> 0 \<le> i \<and> i < 500"
  shows "\<exists>t'. slot_set t i e = Inr t' \<and> set_up t' \<and> used t' = used t \<and>
     (i \<in> used t \<longrightarrow> slots t' = (slots t)(i \<mapsto> e)) \<and> at t' i = e \<and> (\<forall>j\<in>used t. j \<noteq> i \<longrightarrow> at t' j = at t j)"
proof -
  have r: "0 \<le> j \<and> j < 500" if "j \<in> used t" for j
    using that assms(1) bits_range by (fastforce simp: set_up_def used_def MAX_SERVER_def)
  have i: "0 \<le> i" "i < 500" using assms(2) r by auto
  let ?t' = "t\<lparr>tentries := (tentries t)[nat i := e]\<rparr>"
  have "slot_set t i e = Inr ?t'" using assms(1) i by (simp add: slot_set_def set_up_def)
  moreover have "set_up ?t'" "used ?t' = used t" using assms(1) by (simp_all add: set_up_def used_def)
  moreover have a: "at ?t' i = e" using assms(1) i by (simp add: at_def set_up_def)
  moreover have b: "at ?t' j = at t j" if "j \<in> used t" "j \<noteq> i" for j
    using that r [of j] i by (simp add: at_def nth_list_update_neq nat_eq_iff)
  moreover have "slots ?t' = (slots t)(i \<mapsto> e)" if "i \<in> used t"
    using a b that by (auto simp: fun_eq_iff slots_def used_def)
  ultimately show ?thesis by blast
qed

lemma slot_clear_ok:
  assumes "set_up t" "i \<in> used t"
  shows "\<exists>t'. slot_clear t i = Inr t' \<and> set_up t' \<and> slots t' = (slots t)(i := None)"
proof -
  obtain b where b: "tbits t = Some b" "wf_BitMap b" "numBits b = MAX_SERVER"
    using assms(1) by (auto simp: set_up_def)
  then have i: "0 \<le> i" "i < numBits b" using assms(2) bits_range [of b] by (auto simp: used_def)
  obtain b' where "Clear b i = Inr b'" "wf_BitMap b'" "numBits b' = numBits b" "bits b' = bits b - {i}"
    using Clear_ok [OF b(2) i] by blast
  then show ?thesis using b assms(1)
    by (auto simp: slot_clear_def set_up_def slots_def used_def at_def fun_eq_iff)
qed

lemma wf_map_upd_same:
  assumes "wf_map nm f M" "M i = Some e" "nm e' = nm e" "f e'"
  shows "wf_map nm f (M(i \<mapsto> e'))"
proof -
  have "sname nm e' = sname nm e" using assms(3) by (simp add: sname_def)
  then show ?thesis using assms unfolding wf_map_def by (auto split: if_splits; metis)
qed

lemma wf_map_del: "wf_map nm f M \<Longrightarrow> wf_map nm f (M(i := None))"
  unfolding wf_map_def by (auto split: if_splits)

lemma wf_map_new:
  assumes "wf_map nm f M" "nm e = Inr n" "terminated n" "f e" "\<forall>j d. M j = Some d \<longrightarrow> sname nm d \<noteq> cstr n"
  shows "wf_map nm f (M(i \<mapsto> e))"
proof -
  have "sname nm e = cstr n" using assms(2) by (simp add: sname_def)
  then show ?thesis using assms unfolding wf_map_def by (auto split: if_splits; metis)
qed

text \<open>Storing at a slot in use an entry with the same name, and deleting a slot.\<close>

lemma slot_update:
  assumes "wf_table nm f t" "i \<in> used t" "nm e = nm (at t i)" "f e"
  shows "\<exists>t'. slot_set t i e = Inr t' \<and> wf_table nm f t' \<and> slots t' = (slots t)(i \<mapsto> e)"
proof -
  have u: "set_up t" "0 \<le> i" "i < 500" using wf_table_set_up [OF assms(1,2)] by auto
  then obtain t' where t': "slot_set t i e = Inr t'" "set_up t'" "slots t' = (slots t)(i \<mapsto> e)"
    using slot_set_ok [of t i e] assms(2) by auto
  have "wf_map nm f (slots t')"
    using wf_map_upd_same [of nm f "slots t" i "at t i" e] assms t'(3) by (simp add: wf_table_def)
  with t' show ?thesis by (auto simp: wf_table_def)
qed

lemma slot_delete:
  assumes "wf_table nm f t" "i \<in> used t"
  shows "\<exists>t1 t'. slot_set t i e = Inr t1 \<and> slot_clear t1 i = Inr t' \<and> wf_table nm f t' \<and>
     slots t' = (slots t)(i := None)"
proof -
  have u: "set_up t" "0 \<le> i" "i < 500" using wf_table_set_up [OF assms] by auto
  then obtain t1 where t1: "slot_set t i e = Inr t1" "set_up t1" "used t1 = used t" "slots t1 = (slots t)(i \<mapsto> e)"
    using slot_set_ok [of t i e] assms(2) by auto
  then obtain t' where t': "slot_clear t1 i = Inr t'" "set_up t'" "slots t' = (slots t)(i := None)"
    using slot_clear_ok [of t1 i] assms(2) by (auto simp: fun_upd_idem)
  moreover have "wf_map nm f (slots t')" using assms(1) wf_map_del [of nm f "slots t" i] t'(3) by (simp add: wf_table_def)
  ultimately show ?thesis using t1(1) by (auto simp: wf_table_def)
qed

section \<open>Creation\<close>

lemma init_table_ok:
  assumes "wf_table nm f t"
  shows "\<exists>t'. init_table g blank t = Inr t' \<and> wf_table nm f t' \<and> set_up t' \<and> slots t' = slots t"
proof (cases "set_up t")
  case True
  then show ?thesis using assms by (simp add: init_table_def set_up_def MAX_SERVER_def)
next
  case False
  then have t: "tsize t = 0" "tbits t = None" using assms by (auto simp: wf_table_def)
  obtain b where b: "new_BitMap g MAX_SERVER = Inr b" "wf_BitMap b" "numBits b = MAX_SERVER" "bits b = {}"
    using new_BitMap_ok [of MAX_SERVER g] by (auto simp: MAX_SERVER_def)
  then show ?thesis using t
    by (auto simp: init_table_def wf_table_def set_up_def slots_def used_def wf_map_def MAX_SERVER_def)
qed

text \<open>
  \<open>created n e t k t'\<close>: what creating \<open>e\<close> with the name \<open>n\<close> does. An object with the name is found; or
  the least free slot is taken; or, with all slots in use, the answer is -1.
\<close>

definition created ::
  "('e \<Rightarrow> u8 list result) \<Rightarrow> u8 list \<Rightarrow> 'e \<Rightarrow> 'e table \<Rightarrow> int \<Rightarrow> 'e table \<Rightarrow> bool" where
  "created nm n e t k t' \<longleftrightarrow>
     (case slot_of nm t n of
        Some i \<Rightarrow> k = i \<and> slots t' = slots t
      | None \<Rightarrow>
          if used t = {0..<500} then k = - 1 \<and> slots t' = slots t
          else 0 \<le> k \<and> k < 500 \<and> k \<notin> used t \<and> {0..<k} \<subseteq> used t \<and> slots t' = (slots t)(k \<mapsto> e))"

lemma used_subset: "wf_table nm f t \<Longrightarrow> used t \<subseteq> {0..<500}"
  using used_range by fastforce

lemma create_slot_ok:
  assumes "wf_table nm f t" "set_up t" "terminated name" "nm e = Inr name" "f e"
  shows "\<exists>k t'. create_slot nm name (Inr e) t = Inr (k, t') \<and> wf_table nm f t' \<and>
     created nm (cstr name) e t k t'"
proof (cases "slot_of nm t (cstr name)")
  case (Some i)
  then have "i \<noteq> - 1" using slot_of_Some [OF assms(1)] used_range [OF assms(1), of i] by auto
  then show ?thesis
    using Some find_name_all(2) [OF assms(1,3,2)] assms(1) by (simp add: create_slot_def created_def)
next
  case None
  obtain b where b: "tbits t = Some b" "wf_BitMap b" "numBits b = 500" "used t = bits b"
    using assms(2) by (auto simp: set_up_def used_def MAX_SERVER_def)
  note c = create_slot_def find_name_all(2) [OF assms(1,3,2)] None b(1)
  show ?thesis
  proof (cases "used t = {0..<500}")
    case True
    then have "Find b = Inr (- 1, b)" using b Find_full by simp
    moreover have "t\<lparr>tbits := Some b\<rparr> = t" using b(1) by (cases t) simp
    ultimately have "create_slot nm name (Inr e) t = Inr (- 1, t)" by (simp add: c)
    then show ?thesis using True None assms(1) b(1) by (simp add: created_def)
  next
    case False
    then have "\<not> {0..<numBits b} \<subseteq> bits b" using b used_subset [OF assms(1)] by auto
    then obtain k b' where k: "Find b = Inr (k, b')" "0 \<le> k" "k < 500" "k \<notin> bits b" "{0..<k} \<subseteq> bits b"
      "wf_BitMap b'" "numBits b' = 500" "bits b' = insert k (bits b)"
      using Find_free [OF b(2)] b(3) by auto
    let ?t1 = "t\<lparr>tbits := Some b'\<rparr>"
    have t1: "set_up ?t1" "used ?t1 = insert k (used t)" "\<forall>j. at ?t1 j = at t j"
      using assms(2) k b by (auto simp: set_up_def used_def MAX_SERVER_def at_def)
    then obtain t' where t': "slot_set ?t1 k e = Inr t'" "set_up t'" "used t' = used ?t1"
      "slots t' = (slots ?t1)(k \<mapsto> e)"
      using slot_set_ok [of ?t1 k e] by auto
    have s: "slots t' = (slots t)(k \<mapsto> e)" using t'(4) t1(2,3) by (auto simp: slots_def fun_eq_iff)
    have "\<forall>j d. slots t j = Some d \<longrightarrow> sname nm d \<noteq> cstr name"
      using None slot_of_None [OF assms(1)] by auto
    then have "wf_map nm f (slots t')"
      unfolding s using wf_map_new [of nm f "slots t" e name k] assms by (auto simp: wf_table_def)
    moreover have "create_slot nm name (Inr e) t = Inr (k, t')" using k(1,2) t'(1) by (simp add: c)
    ultimately show ?thesis using None False k b(4) s t'(2) by (auto simp: created_def wf_table_def)
  qed
qed

section \<open>Locks, condition variables, monitor variables\<close>

text \<open>A reply can be sent to the client: its mailbox exists.\<close>

definition good_client :: "ClientRequest \<Rightarrow> bool" where
  "good_client c \<longleftrightarrow> 0 \<le> mailboxNumber c \<and> mailboxNumber c < numBoxes"

definition lock_wf :: "ServerLock \<Rightarrow> bool" where
  "lock_wf L \<longleftrightarrow> (slstate L = FREE \<longleftrightarrow> currentClientRequest L = None) \<and>
     (slstate L = FREE \<longrightarrow> slqueue L = []) \<and> (\<forall>c\<in>set (slqueue L). good_client c)"

definition lock_entry_wf :: "ServerLockEntry \<Rightarrow> bool" where
  "lock_entry_wf e \<longleftrightarrow> (\<exists>L. lockp e = Some L \<and> lock_wf L)"

definition cond_wf :: "ServerCondition \<Rightarrow> bool" where
  "cond_wf C \<longleftrightarrow> (scqueue C = [] \<longrightarrow> scwaiting C = - 1) \<and> (\<forall>c\<in>set (scqueue C). good_client c)"

definition cond_entry_wf :: "ServerConditionEntry \<Rightarrow> bool" where
  "cond_entry_wf e \<longleftrightarrow> (\<exists>C. condp e = Some C \<and> cond_wf C)"

definition mv_entry_wf :: "ServerMVEntry \<Rightarrow> bool" where
  "mv_entry_wf e \<longleftrightarrow> (\<exists>vs. mvEntries e = Some vs \<and> numEntries e = int (length vs))"

abbreviation wf_locks :: "ServerLockEntry table \<Rightarrow> bool" where
  "wf_locks \<equiv> wf_table lock_name lock_entry_wf"

abbreviation wf_conds :: "ServerConditionEntry table \<Rightarrow> bool" where
  "wf_conds \<equiv> wf_table cond_name cond_entry_wf"

abbreviation wf_mvs :: "ServerMVEntry table \<Rightarrow> bool" where
  "wf_mvs \<equiv> wf_table mv_name mv_entry_wf"

definition fresh_lock :: "u8 list \<Rightarrow> ServerLockEntry" where
  "fresh_lock n = \<lparr>lockp = Some (new_ServerLock n), lk_isToBeDeleted = False, acquireCount = 0\<rparr>"

definition fresh_cond :: "u8 list \<Rightarrow> ServerConditionEntry" where
  "fresh_cond n = \<lparr>condp = Some (new_ServerCondition n), cv_isToBeDeleted = False\<rparr>"

definition fresh_mv :: "u8 list \<Rightarrow> int \<Rightarrow> int \<Rightarrow> ServerMVEntry" where
  "fresh_mv n k v = \<lparr>mvEntries = Some (replicate (nat k) v), numEntries = k, mvname = Some n\<rparr>"

lemma slot_of_slots: "slots t' = slots t \<Longrightarrow> slot_of nm t' = slot_of nm t"
proof (rule ext)
  fix s assume s: "slots t' = slots t"
  have "(i \<in> used t' \<and> sname nm (at t' i) = s) = (i \<in> used t \<and> sname nm (at t i) = s)" for i
    using fun_cong [OF s, of i] by (auto simp: slots_def split: if_splits)
  then show "slot_of nm t' s = slot_of nm t s" by (simp add: slot_of_def)
qed

lemma created_slots:
  assumes "slots t1 = slots t"
  shows "created nm n e t1 k t' = created nm n e t k t'"
proof -
  have u: "used t1 = used t" using arg_cong [OF assms, of dom] by simp
  show ?thesis unfolding created_def assms slot_of_slots [OF assms] u ..
qed

lemma create_ok:
  assumes "wf_table nm f t" "terminated name" "nm e = Inr name" "f e"
  shows "\<exists>k t'. bind_result (init_table g blank t) (create_slot nm name (Inr e)) = Inr (k, t') \<and>
     wf_table nm f t' \<and> created nm (cstr name) e t k t'"
proof -
  obtain t1 where t1: "init_table g blank t = Inr t1" "wf_table nm f t1" "set_up t1" "slots t1 = slots t"
    using init_table_ok [OF assms(1)] by blast
  then show ?thesis
    using create_slot_ok [OF t1(2,3) assms(2-4)] created_slots [OF t1(4)] by auto
qed

lemma ServerCreateLock_ok:
  assumes "wf_locks t" "terminated name"
  shows "\<exists>k t'. ServerCreateLock g name t = Inr (k, t') \<and> wf_locks t' \<and>
     created lock_name (cstr name) (fresh_lock name) t k t'"
  using create_ok [OF assms, of "fresh_lock name" g no_lock]
  by (simp add: ServerCreateLock_def fresh_lock_def lock_name_def lock_entry_wf_def lock_wf_def
      new_ServerLock_def)

lemma ServerCreateCV_ok:
  assumes "wf_conds t" "terminated name"
  shows "\<exists>k t'. ServerCreateCV g name t = Inr (k, t') \<and> wf_conds t' \<and>
     created cond_name (cstr name) (fresh_cond name) t k t'"
  using create_ok [OF assms, of "fresh_cond name" g no_cond]
  by (simp add: ServerCreateCV_def fresh_cond_def cond_name_def cond_entry_wf_def cond_wf_def
      new_ServerCondition_def)

lemma ServerCreateMV_ok:
  assumes "wf_mvs t" "terminated name" "0 \<le> n" "n \<le> 500"
  shows "\<exists>k t'. ServerCreateMV g name n v t = Inr (k, t') \<and> wf_mvs t' \<and>
     created mv_name (cstr name) (fresh_mv name n v) t k t'"
  using create_ok [OF assms(1,2), of "fresh_mv name n v" g no_mv] assms(3,4)
  by (simp add: ServerCreateMV_def fresh_mv_def mv_name_def mv_entry_wf_def new_mv_def
      MAX_SERVER_ENTRIES_PER_MV_ARRAY_def)

section \<open>Operations on a slot\<close>

lemma lock_at_ok:
  assumes "wf_locks t" "i \<in> used t"
  shows "\<exists>L. lock_at t i = Inr (at t i, L) \<and> lockp (at t i) = Some L \<and> lock_wf L"
proof -
  have "lock_entry_wf (at t i)" using assms by (auto simp: wf_table_def wf_map_def)
  then show ?thesis using wf_table_set_up [OF assms] by (auto simp: lock_at_def lock_entry_wf_def)
qed

lemma cond_at_ok:
  assumes "wf_conds t" "i \<in> used t"
  shows "\<exists>C. cond_at t i = Inr (at t i, C) \<and> condp (at t i) = Some C \<and> cond_wf C"
proof -
  have "cond_entry_wf (at t i)" using assms by (auto simp: wf_table_def wf_map_def)
  then show ?thesis using wf_table_set_up [OF assms] by (auto simp: cond_at_def cond_entry_wf_def)
qed

lemma mv_at_ok:
  assumes "wf_mvs t" "i \<in> used t"
  shows "\<exists>vs. slot_get t i = Inr (at t i) \<and> mvEntries (at t i) = Some vs \<and> numEntries (at t i) = int (length vs)"
proof -
  have "mv_entry_wf (at t i)" using assms by (auto simp: wf_table_def wf_map_def)
  then show ?thesis using wf_table_set_up [OF assms] by (auto simp: mv_entry_wf_def)
qed

lemma sl_Acquire_wf:
  assumes "lock_wf L" "good_client cr" "sl_Acquire cr L = (c, L')"
  shows "lock_wf L' \<and> lockname L' = lockname L \<and> machineID c = machineID cr \<and> mailboxNumber c = mailboxNumber cr"
  using assms by (auto simp: sl_Acquire_def lock_wf_def list_append_def good_client_def split: if_splits)

lemma sl_Release_wf:
  assumes "lock_wf L" "good_client cr" "sl_Release cr L = (c, L')"
  shows "lock_wf L' \<and> lockname L' = lockname L \<and> good_client c"
  using assms
  by (cases "slqueue L")
    (auto simp: sl_Release_def lock_wf_def isHeldByRequester_def good_client_def split: if_splits option.splits)

lemma sc_Wait_wf:
  assumes "cond_wf C" "good_client cr" "sc_Wait l cr C = (c, C')"
  shows "cond_wf C' \<and> condname C' = condname C"
  using assms by (auto simp: sc_Wait_def cond_wf_def Let_def list_append_def split: if_splits)

lemma sc_Signal_wf:
  assumes "cond_wf C" "good_client cr" "sc_Signal l cr C = (c, C')"
  shows "cond_wf C' \<and> condname C' = condname C \<and> good_client c"
  using assms
  by (cases "scqueue C") (auto simp: sc_Signal_def cond_wf_def good_client_def split: if_splits)

lemma new_good [simp]: "good_client (new_ClientRequest m mb) \<longleftrightarrow> 0 \<le> mb \<and> mb < numBoxes"
  by (simp add: good_client_def new_ClientRequest_def)

lemma new_ids [simp]: "machineID (new_ClientRequest m mb) = m" "mailboxNumber (new_ClientRequest m mb) = mb"
  by (simp_all add: new_ClientRequest_def)

lemma ServerAcquire_ok:
  assumes "wf_locks t" "0 \<le> mb" "mb < numBoxes"
  shows "if i \<in> used t
     then \<exists>L cr L' t'. lockp (at t i) = Some L \<and> lock_wf L \<and> sl_Acquire (new_ClientRequest m mb) L = (cr, L') \<and>
       ServerAcquire m mb i t = Inr (Some cr, t') \<and> wf_locks t' \<and> slots t' =
         (slots t)(i \<mapsto> (at t i)\<lparr>acquireCount := acquireCount (at t i) + 1, lockp := Some L'\<rparr>)
     else ServerAcquire m mb i t = Inr (None, t)"
proof (cases "i \<in> used t")
  case True
  obtain L where L: "lock_at t i = Inr (at t i, L)" "lockp (at t i) = Some L" "lock_wf L"
    using lock_at_ok [OF assms(1) True] by blast
  obtain cr L' where a: "sl_Acquire (new_ClientRequest m mb) L = (cr, L')" by fastforce
  note w = sl_Acquire_wf [OF L(3) _ a]
  let ?e = "(at t i)\<lparr>acquireCount := acquireCount (at t i) + 1, lockp := Some L'\<rparr>"
  have "lock_name ?e = lock_name (at t i)" "lock_entry_wf ?e"
    using w L assms by (simp_all add: lock_name_def lock_entry_wf_def)
  then obtain t' where "slot_set t i ?e = Inr t'" "wf_locks t'" "slots t' = (slots t)(i \<mapsto> ?e)"
    using slot_update [OF assms(1) True] by blast
  then show ?thesis using True L a assms(1) by (simp add: ServerAcquire_def)
next
  case False
  then show ?thesis using assms(1) by (simp add: ServerAcquire_def)
qed

lemma delete_lock_ok:
  assumes "wf_locks t" "i \<in> used t"
  shows "\<exists>t'. delete_lock t i e = Inr t' \<and> wf_locks t' \<and> slots t' = (slots t)(i := None)"
  using slot_delete [OF assms, of "e\<lparr>lockp := None\<rparr>"] by (auto simp: delete_lock_def)

lemma delete_cond_ok:
  assumes "wf_conds t" "i \<in> used t"
  shows "\<exists>t'. delete_cond t i e = Inr t' \<and> wf_conds t' \<and> slots t' = (slots t)(i := None)"
  using slot_delete [OF assms, of "e\<lparr>condp := None\<rparr>"] by (auto simp: delete_cond_def)

lemma ServerRelease_ok:
  assumes "wf_locks t" "0 \<le> mb" "mb < numBoxes"
  shows "if i \<in> used t
     then \<exists>L cr L' e' t'. lockp (at t i) = Some L \<and> lock_wf L \<and> sl_Release (new_ClientRequest m mb) L = (cr, L') \<and>
       e' = (at t i)\<lparr>acquireCount := acquireCount (at t i) - 1, lockp := Some L'\<rparr> \<and>
       ServerRelease m mb i t = Inr (Some cr, t') \<and> wf_locks t' \<and>
       slots t' = (slots t)(i := if lk_isToBeDeleted e' \<and> acquireCount e' = 0 \<and> slstate L' = FREE then None else Some e')
     else ServerRelease m mb i t = Inr (None, t)"
proof (cases "i \<in> used t")
  case True
  obtain L where L: "lock_at t i = Inr (at t i, L)" "lockp (at t i) = Some L" "lock_wf L"
    using lock_at_ok [OF assms(1) True] by blast
  obtain cr L' where a: "sl_Release (new_ClientRequest m mb) L = (cr, L')" by fastforce
  note w = sl_Release_wf [OF L(3) _ a]
  define e where "e = (at t i)\<lparr>acquireCount := acquireCount (at t i) - 1, lockp := Some L'\<rparr>"
  have "lock_name e = lock_name (at t i)" "lock_entry_wf e"
    using w L assms by (simp_all add: lock_name_def lock_entry_wf_def e_def)
  then obtain t1 where t1: "slot_set t i e = Inr t1" "wf_locks t1" "slots t1 = (slots t)(i \<mapsto> e)"
    using slot_update [OF assms(1) True] by blast
  have u: "i \<in> used t1" using arg_cong [OF t1(3), of dom] by simp
  obtain t2 where t2: "delete_lock t1 i e = Inr t2" "wf_locks t2" "slots t2 = (slots t1)(i := None)"
    using delete_lock_ok [OF t1(2) u] by blast
  have b: "sl_isBusy L' \<longleftrightarrow> slstate L' \<noteq> FREE" by (cases "slstate L'") (simp_all add: sl_isBusy_def)
  have "ServerRelease m mb i t = (if lk_isToBeDeleted e \<and> acquireCount e = 0 \<and> slstate L' = FREE
      then Inr (Some cr, t2) else Inr (Some cr, t1))"
    by (simp only: ServerRelease_def valid_slot_ok [OF assms(1)] L(1) a bind_result.simps prod.case
        Let_def e_def [symmetric] t1(1) t2(1) b True not_True_eq_False if_False not_not)
  then have "\<exists>t'. ServerRelease m mb i t = Inr (Some cr, t') \<and> wf_locks t' \<and> slots t' =
      (slots t)(i := if lk_isToBeDeleted e \<and> acquireCount e = 0 \<and> slstate L' = FREE then None else Some e)"
    using t1(2,3) t2(2,3) by simp
  then show ?thesis using L(2,3) a True e_def by auto
next
  case False
  then show ?thesis using assms(1) by (simp add: ServerRelease_def)
qed

text \<open>\<open>ServerDestroyLock\<close> and \<open>ServerDestroyCV\<close>.\<close>

lemma ServerDestroyLock_ok:
  assumes "wf_locks t"
  shows "if i \<in> used t
     then \<exists>L t'. lockp (at t i) = Some L \<and> lock_wf L \<and> ServerDestroyLock i t = Inr t' \<and> wf_locks t' \<and>
       slots t' = (slots t)(i := if slstate L = BUSY \<and> acquireCount (at t i) = 0
         then Some ((at t i)\<lparr>lk_isToBeDeleted := True\<rparr>) else None)
     else ServerDestroyLock i t = Inr t"
proof (cases "i \<in> used t")
  case True
  obtain L where L: "lock_at t i = Inr (at t i, L)" "lockp (at t i) = Some L" "lock_wf L"
    using lock_at_ok [OF assms True] by blast
  let ?e = "(at t i)\<lparr>lk_isToBeDeleted := True\<rparr>"
  have "lock_name ?e = lock_name (at t i)" "lock_entry_wf ?e"
    using L by (simp_all add: lock_name_def lock_entry_wf_def)
  then obtain t1 where t1: "slot_set t i ?e = Inr t1" "wf_locks t1" "slots t1 = (slots t)(i \<mapsto> ?e)"
    using slot_update [OF assms True] by blast
  obtain t2 where t2: "delete_lock t i (at t i) = Inr t2" "wf_locks t2" "slots t2 = (slots t)(i := None)"
    using delete_lock_ok [OF assms True] by blast
  show ?thesis
    using True L assms t1 t2 by (simp add: ServerDestroyLock_def sl_isBusy_def)
next
  case False
  then show ?thesis using assms by (simp add: ServerDestroyLock_def)
qed

lemma ServerDestroyCV_ok:
  assumes "wf_conds t"
  shows "\<exists>t'. ServerDestroyCV i t = Inr t' \<and> wf_conds t'"
proof (cases "i \<in> used t")
  case True
  obtain C where C: "cond_at t i = Inr (at t i, C)" "condp (at t i) = Some C" "cond_wf C"
    using cond_at_ok [OF assms True] by blast
  let ?e = "(at t i)\<lparr>cv_isToBeDeleted := True\<rparr>"
  have "cond_name ?e = cond_name (at t i)" "cond_entry_wf ?e"
    using C by (simp_all add: cond_name_def cond_entry_wf_def)
  then obtain t1 where t1: "slot_set t i ?e = Inr t1" "wf_conds t1" using slot_update [OF assms True] by blast
  obtain t2 where t2: "delete_cond t i (at t i) = Inr t2" "wf_conds t2"
    using delete_cond_ok [OF assms True] by blast
  show ?thesis using True C assms t1 t2 by (simp add: ServerDestroyCV_def)
next
  case False
  then show ?thesis using assms by (simp add: ServerDestroyCV_def)
qed

lemma ServerSignal_ok:
  assumes "wf_conds t" "0 \<le> mb" "mb < numBoxes"
  shows "\<exists>r t'. ServerSignal m mb i l t = Inr (r, t') \<and> wf_conds t' \<and> (\<forall>c. r = Some c \<longrightarrow> good_client c)"
proof (cases "i \<in> used t \<and> 0 \<le> l")
  case True
  obtain C where C: "cond_at t i = Inr (at t i, C)" "condp (at t i) = Some C" "cond_wf C"
    using cond_at_ok [OF assms(1)] True by blast
  obtain cr C' where a: "sc_Signal l (new_ClientRequest m mb) C = (cr, C')" by fastforce
  note w = sc_Signal_wf [OF C(3) _ a]
  let ?e = "(at t i)\<lparr>condp := Some C'\<rparr>"
  have "cond_name ?e = cond_name (at t i)" "cond_entry_wf ?e"
    using w C assms by (simp_all add: cond_name_def cond_entry_wf_def)
  then obtain t' where "slot_set t i ?e = Inr t'" "wf_conds t'"
    using slot_update [OF assms(1)] True by blast
  then show ?thesis using True C a assms w by (simp add: ServerSignal_def)
next
  case False
  then show ?thesis using assms(1) by (auto simp: ServerSignal_def)
qed

lemma ServerWait_ok:
  assumes "wf_conds t" "0 \<le> mb" "mb < numBoxes" "i \<in> used t"
  shows "\<exists>t'. ServerWait m mb i l t = Inr t' \<and> wf_conds t'"
proof -
  have r: "set_up t" "0 \<le> i" "i < 500" using wf_table_set_up [OF assms(1,4)] by auto
  obtain C where C: "cond_at t i = Inr (at t i, C)" "condp (at t i) = Some C" "cond_wf C"
    using cond_at_ok [OF assms(1,4)] by blast
  obtain cr C' where a: "sc_Wait l (new_ClientRequest m mb) C = (cr, C')" by fastforce
  note w = sc_Wait_wf [OF C(3) _ a]
  let ?e = "(at t i)\<lparr>condp := Some C'\<rparr>"
  have "cond_name ?e = cond_name (at t i)" "cond_entry_wf ?e"
    using w C assms by (simp_all add: cond_name_def cond_entry_wf_def)
  then obtain t1 where t1: "slot_set t i ?e = Inr t1" "wf_conds t1" "slots t1 = (slots t)(i \<mapsto> ?e)"
    using slot_update [OF assms(1,4)] by blast
  have u: "i \<in> used t1" using arg_cong [OF t1(3), of dom] by simp
  obtain t2 where "delete_cond t1 i ?e = Inr t2" "wf_conds t2"
    using delete_cond_ok [OF t1(2) u] by blast
  then show ?thesis
    using r slot_test_set_up [OF r] assms(4) C a t1 by (simp add: ServerWait_def Let_def)
qed

lemma ServerDestroyMV_ok:
  assumes "wf_mvs t"
  shows "\<exists>t'. ServerDestroyMV i t = Inr t' \<and> wf_mvs t' \<and> slots t' = (slots t)(i := None)"
proof (cases "i \<in> used t")
  case True
  then show ?thesis
    using slot_delete [OF assms True, of "(at t i)\<lparr>mvEntries := None\<rparr>"] mv_at_ok [OF assms True] assms
    by (auto simp: ServerDestroyMV_def)
next
  case False
  then show ?thesis using assms by (auto simp: ServerDestroyMV_def fun_eq_iff slots_def)
qed

lemma ServerGetMV_ok:
  assumes "wf_mvs t"
  shows "ServerGetMV i k t = Inr (case slots t i of
     Some e \<Rightarrow> if 0 \<le> k \<and> k < numEntries e then the (mvEntries e) ! nat k else - 1 | None \<Rightarrow> - 1)"
proof (cases "i \<in> used t")
  case True
  then show ?thesis
    using mv_at_ok [OF assms True] assms by (auto simp: ServerGetMV_def slots_def split: option.splits)
next
  case False
  then show ?thesis using assms by (simp add: ServerGetMV_def slots_def)
qed

lemma ServerSetMV_ok:
  assumes "wf_mvs t"
  shows "\<exists>t'. ServerSetMV i k v t = Inr t' \<and> wf_mvs t' \<and> slots t' = (case slots t i of
     Some e \<Rightarrow> if 0 \<le> k \<and> k < numEntries e
       then (slots t)(i \<mapsto> e\<lparr>mvEntries := Some ((the (mvEntries e))[nat k := v])\<rparr>) else slots t
     | None \<Rightarrow> slots t)"
proof (cases "i \<in> used t")
  case True
  obtain vs where vs: "slot_get t i = Inr (at t i)" "mvEntries (at t i) = Some vs"
    "numEntries (at t i) = int (length vs)"
    using mv_at_ok [OF assms True] by blast
  let ?e = "(at t i)\<lparr>mvEntries := Some (vs[nat k := v])\<rparr>"
  have "mv_name ?e = mv_name (at t i)" "mv_entry_wf ?e" using vs by (simp_all add: mv_name_def mv_entry_wf_def)
  then obtain t' where "slot_set t i ?e = Inr t'" "wf_mvs t'" "slots t' = (slots t)(i \<mapsto> ?e)"
    using slot_update [OF assms True] by blast
  then show ?thesis using True vs assms by (auto simp: ServerSetMV_def slots_def)
next
  case False
  then show ?thesis using assms by (simp add: ServerSetMV_def slots_def)
qed

end
