(* ===== verification/Server_Properties.thy ===== *)
theory Server_Properties
  imports Server_Invariant
begin

text \<open>
  Properties of the servers: what a client can rely on, what brings a server down, and where the
  servers lose a request.
\<close>

section \<open>The invariant of a machine\<close>

definition good_response :: "ServerResponse \<Rightarrow> bool" where
  "good_response r \<longleftrightarrow> 0 \<le> toMailbox r \<and> toMailbox r < numBoxes"

definition server_ok :: "server \<Rightarrow> bool" where
  "server_ok s \<longleftrightarrow> wf_locks (lock_table s) \<and> wf_conds (cond_table s) \<and> wf_mvs (mv_table s) \<and>
     (\<forall>r\<in>set (necessaryResponses s). good_response r)"

text \<open>A message as \<open>Receive\<close> delivers it, whose sender has a mailbox.\<close>

definition wf_mail :: "mail \<Rightarrow> bool" where
  "wf_mail m \<longleftrightarrow> length (mdata m) = 40 \<and> 0 \<le> mail_len m \<and> mail_len m \<le> 40 \<and>
     0 \<le> mail_from m \<and> mail_from m < numBoxes"

definition mail_type :: "mail \<Rightarrow> int" where
  "mail_type m = char_at (mdata m) 0"

text \<open>The name in a creation: its length byte at \<open>k - 1\<close> is not negative and covers a zero byte.\<close>

definition name_ok :: "nat \<Rightarrow> mail \<Rightarrow> bool" where
  "name_ok k m \<longleftrightarrow> 0 \<le> char_at (mdata m) (k - 1) \<and>
     terminated (take (nat (char_at (mdata m) (k - 1))) (drop k (mdata m)))"

definition mail_name :: "nat \<Rightarrow> mail \<Rightarrow> u8 list" where
  "mail_name k m = cstr (take (nat (char_at (mdata m) (k - 1))) (drop k (mdata m)))"

lemma get_name_ok:
  assumes "name_ok k m"
  shows "\<exists>n. get_name (mdata m) k (char_at (mdata m) (k - 1)) = Inr n \<and> terminated n \<and> cstr n = mail_name k m"
  using strncpy_terminated [of "nat (char_at (mdata m) (k - 1))" "drop k (mdata m)"] assms
  by (auto simp: get_name_def name_ok_def mail_name_def)

lemma start_server_ok: "server_ok (start_server me n)"
  by (simp add: server_ok_def start_server_def empty_table_def wf_table_def wf_map_def slots_def used_def)

text \<open>A case of the switch that goes well.\<close>

definition goes_well :: "outcome result \<Rightarrow> bool" where
  "goes_well r \<longleftrightarrow> (\<exists>resp ms s'. r = Inr (resp, ms, s') \<and> server_ok s')"

lemma goes_wellI [intro]: "r = Inr (resp, ms, s') \<Longrightarrow> server_ok s' \<Longrightarrow> goes_well r"
  by (auto simp: goes_well_def)

lemma goes_well_Inr [simp]: "goes_well (Inr (resp, ms, s')) = server_ok s'"
  by (auto simp: goes_well_def)

lemma server_ok_push [simp]: "server_ok (push_response r s) \<longleftrightarrow> server_ok s \<and> good_response r"
  by (auto simp: server_ok_def push_response_def)

lemma good_response_of_mail [simp]: "wf_mail m \<Longrightarrow> good_response (response m d)"
  by (simp add: wf_mail_def good_response_def response_def)

lemma good_response_to [simp]: "good_response (response_to c) \<longleftrightarrow> good_client c"
  by (simp add: good_response_def response_to_def good_client_def)

lemma server_ok_upd:
  "server_ok s \<Longrightarrow> wf_locks t \<Longrightarrow> server_ok (s\<lparr>lock_table := t\<rparr>)"
  "server_ok s \<Longrightarrow> wf_conds t' \<Longrightarrow> server_ok (s\<lparr>cond_table := t'\<rparr>)"
  "server_ok s \<Longrightarrow> wf_mvs t'' \<Longrightarrow> server_ok (s\<lparr>mv_table := t''\<rparr>)"
  "server_ok s \<Longrightarrow> server_ok (s\<lparr>cvLockTrackerList := cs\<rparr>)"
  by (simp_all add: server_ok_def)

lemma post_send_ok:
  "0 \<le> mail_len m \<Longrightarrow> mail_len m \<le> 40 \<Longrightarrow> 0 \<le> mail_to m \<Longrightarrow> mail_to m < 100 \<Longrightarrow>
   mail_len m \<le> int (length (mdata m)) \<Longrightarrow> post_send m = Inr (m\<lparr>mdata := take (nat (mail_len m)) (mdata m)\<rparr>)"
  by (simp add: post_send_def MaxMailSize_def numBoxes_def)

lemma sendMessageWithData_ok:
  assumes "0 \<le> n" "n \<le> 40" "0 \<le> tb" "tb < 100" "n \<le> int (length d)"
  shows "sendMessageWithData fm fb tm tb n d = Inr \<lparr>pkt_to = tm, pkt_from = fm, mail_to = tb,
     mail_from = fb, mail_len = n, mdata = take (nat n) d\<rparr>"
  using assms by (simp add: sendMessageWithData_def post_send_ok)

lemma forward_ok [simp]: "wf_mail m \<Longrightarrow> goes_well (forward m s) = server_ok s"
  by (simp add: forward_def sendMessageWithData_ok wf_mail_def)

lemma flush_ok:
  assumes "server_ok s"
  shows "\<exists>ms' s'. flush (resp, ms, s) = Inr (ms', s') \<and> server_ok s'"
proof -
  have "\<exists>xs. send_all (map (response_mail s) rs) = Inr xs" if "\<forall>r\<in>set rs. good_response r" for rs
    using that
    by (induction rs) (auto simp: response_mail_def post_send_ok good_response_def numBoxes_def)
  then show ?thesis using assms by (fastforce simp: flush_def server_ok_def)
qed

section \<open>Every case of the switch\<close>

lemma on_CREATE_LOCK_ok:
  assumes "server_ok s" "wf_mail m" "name_ok 2 m"
  shows "goes_well (on_CREATE_LOCK g m s)"
proof -
  obtain n where n: "get_name (mdata m) 2 (char_at (mdata m) 1) = Inr n" "terminated n"
    using get_name_ok [OF assms(3)] by auto
  have w: "wf_locks (lock_table s)" using assms(1) by (simp add: server_ok_def)
  obtain k t where t: "ServerCreateLock g n (lock_table s) = Inr (k, t)" "wf_locks t"
    using ServerCreateLock_ok [OF w n(2)] by blast
  show ?thesis
    using n find_name_all(1) [OF w n(2)] t assms(1,2)
    by (auto simp: on_CREATE_LOCK_def server_ok_upd split: option.split)
qed

lemma on_CREATE_CV_ok:
  assumes "server_ok s" "wf_mail m" "name_ok 2 m"
  shows "goes_well (on_CREATE_CV g m s)"
proof -
  obtain n where n: "get_name (mdata m) 2 (char_at (mdata m) 1) = Inr n" "terminated n"
    using get_name_ok [OF assms(3)] by auto
  have w: "wf_conds (cond_table s)" using assms(1) by (simp add: server_ok_def)
  obtain k t where t: "ServerCreateCV g n (cond_table s) = Inr (k, t)" "wf_conds t"
    using ServerCreateCV_ok [OF w n(2)] by blast
  show ?thesis
    using n find_name_all(1) [OF w n(2)] t assms(1,2)
    by (auto simp: on_CREATE_CV_def server_ok_upd split: option.split)
qed

lemma on_CREATE_MV_ok:
  assumes "server_ok s" "wf_mail m" "name_ok 10 m" "0 \<le> int_at m 1"
  shows "goes_well (on_CREATE_MV g m s)"
proof -
  obtain n where n: "get_name (mdata m) 10 (char_at (mdata m) 9) = Inr n" "terminated n"
    using get_name_ok [OF assms(3)] by auto
  have w: "wf_mvs (mv_table s)" using assms(1) by (simp add: server_ok_def)
  obtain k t where t: "ServerCreateMV g n (int_at m 1) (int_at m 5) (mv_table s) = Inr (k, t)" "wf_mvs t"
  proof (cases "int_at m 1 \<le> 500")
    case True
    then show ?thesis using that ServerCreateMV_ok [OF w n(2) assms(4)] by blast
  next
    case False
    then show ?thesis using that init_table_ok [OF w]
      by (auto simp: ServerCreateMV_def MAX_SERVER_ENTRIES_PER_MV_ARRAY_def)
  qed
  show ?thesis
    using n find_name_all(1) [OF w n(2)] t assms(1,2)
    by (auto simp: on_CREATE_MV_def server_ok_upd split: option.split)
qed

lemma table_parts:
  "server_ok s \<Longrightarrow> wf_locks (lock_table s)" "server_ok s \<Longrightarrow> wf_conds (cond_table s)"
  "server_ok s \<Longrightarrow> wf_mvs (mv_table s)"
  by (simp_all add: server_ok_def)

lemma mailbox_range: "wf_mail m \<Longrightarrow> 0 \<le> mail_from m" "wf_mail m \<Longrightarrow> mail_from m < numBoxes"
  by (simp_all add: wf_mail_def)

lemma on_DESTROY_LOCK_ok:
  assumes "server_ok s" "wf_mail m"
  shows "goes_well (on_DESTROY_LOCK m s)"
  using assms ServerDestroyLock_ok [OF table_parts(1) [OF assms(1)], of "decodeIndex s (int_at m 1)"]
  by (auto simp: on_DESTROY_LOCK_def server_ok_upd split: if_splits)

lemma on_ACQUIRE_ok:
  assumes "server_ok s" "wf_mail m"
  shows "goes_well (on_ACQUIRE m s)"
proof -
  note w = table_parts(1) [OF assms(1)] mailbox_range [OF assms(2)]
  have g: "good_client cr" if "sl_Acquire (new_ClientRequest (pkt_from m) (mail_from m)) L = (cr, L')" "lock_wf L"
    for L L' cr
    using sl_Acquire_wf [OF that(2) _ that(1)] w(2,3) by (auto simp: good_client_def)
  show ?thesis
    using assms g ServerAcquire_ok [OF w, of "decodeIndex s (int_at m 1)" "pkt_from m"]
    by (auto simp: on_ACQUIRE_def server_ok_upd Let_def split: if_splits)
qed

lemma on_RELEASE_ok:
  assumes "server_ok s" "wf_mail m"
  shows "goes_well (on_RELEASE m s)"
proof -
  note w = table_parts(1) [OF assms(1)] mailbox_range [OF assms(2)]
  have g: "good_client cr" if "sl_Release (new_ClientRequest (pkt_from m) (mail_from m)) L = (cr, L')" "lock_wf L"
    for L L' cr
    using sl_Release_wf [OF that(2) _ that(1)] w(2,3) by (auto simp: good_client_def)
  show ?thesis
    using assms g ServerRelease_ok [OF w, of "decodeIndex s (int_at m 1)" "pkt_from m"]
    by (auto simp: on_RELEASE_def server_ok_upd Let_def split: if_splits)
qed

lemma on_DESTROY_CV_ok:
  assumes "server_ok s" "wf_mail m"
  shows "goes_well (on_DESTROY_CV m s)"
  using assms ServerDestroyCV_ok [OF table_parts(2) [OF assms(1)], of "int_at m 1"]
  by (auto simp: on_DESTROY_CV_def server_ok_upd)

lemma on_DOES_CLIENT_HAVE_LOCK_ok:
  assumes "server_ok s" "wf_mail m"
  shows "goes_well (on_DOES_CLIENT_HAVE_LOCK m s)"
proof -
  let ?i = "decodeIndex s (int_at m 9)"
  note w = table_parts(1) [OF assms(1)]
  show ?thesis
  proof (cases "?i \<in> used (lock_table s)")
    case True
    then obtain L where "lock_at (lock_table s) ?i = Inr (at (lock_table s) ?i, L)"
      using lock_at_ok [OF w] by blast
    then show ?thesis using True w assms mailbox_range [OF assms(2)]
      by (simp add: on_DOES_CLIENT_HAVE_LOCK_def Let_def sendMessageWithData_ok numBoxes_def)
  next
    case False
    then show ?thesis using w assms(1) by (simp add: on_DOES_CLIENT_HAVE_LOCK_def Let_def)
  qed
qed

lemma check_lock_machine_ok [simp]:
  "wf_mail m \<Longrightarrow> server_ok (check_lock_machine m s) = server_ok s"
  "lock_table (check_lock_machine m s) = lock_table s"
  "cond_table (check_lock_machine m s) = cond_table s"
  "myMachineID (check_lock_machine m s) = myMachineID s"
  by (auto simp: check_lock_machine_def push_response_def server_ok_def good_response_def response_def wf_mail_def)

lemma query_lock_owner_ok: "server_ok s \<Longrightarrow> goes_well (query_lock_owner op m s)"
  by (simp add: query_lock_owner_def Let_def sendMessageWithData_ok server_ok_upd)

lemma push_signalled_ok: "server_ok s \<Longrightarrow> \<forall>c. r = Some c \<longrightarrow> good_client c \<Longrightarrow> server_ok (push_signalled r s)"
  by (auto simp: push_signalled_def split: option.split)

lemma on_SIGNAL_ok:
  assumes "server_ok s" "wf_mail m"
  shows "goes_well (on_SIGNAL m s)"
proof -
  note w = table_parts [OF assms(1)] mailbox_range [OF assms(2)]
  obtain r t where r: "ServerSignal (pkt_from m) (mail_from m) (decodeIndex s (int_at m 1))
      (decodeIndex s (int_at m 5)) (cond_table s) = Inr (r, t)" "wf_conds t" "\<forall>c. r = Some c \<longrightarrow> good_client c"
    using ServerSignal_ok [OF w(2,4,5)] by blast
  show ?thesis
    unfolding on_SIGNAL_def
    using assms w r by (simp add: Let_def query_lock_owner_ok push_signalled_ok server_ok_upd)
qed

text \<open>A number that decodes to this machine gives an index below 500.\<close>

lemma decode_range:
  assumes "decodeMachineID n = myMachineID s" "0 \<le> myMachineID s"
  shows "decodeIndex s n < 500"
proof (cases "0 \<le> n")
  case True
  then have "n div 500 = myMachineID s" using assms(1) by (simp add: decodeMachineID_def MAX_SERVER_def quot_nonneg)
  then show ?thesis by (simp add: decodeIndex_def MAX_SERVER_def)
next
  case False
  then show ?thesis using assms(2) by (simp add: decodeIndex_def MAX_SERVER_def)
qed

lemma wf_table_size: "wf_table nm f t \<Longrightarrow> tsize t \<noteq> 0 \<Longrightarrow> set_up t"
  by (auto simp: wf_table_def)

lemma ServerWait_total:
  assumes "wf_conds t" "0 \<le> mb" "mb < numBoxes" "tsize t \<noteq> 0" "i < 500"
  shows "\<exists>t'. ServerWait m mb i l t = Inr t' \<and> wf_conds t'"
proof (cases "0 \<le> i \<and> i \<notin> used t")
  case True
  then show ?thesis
    using slot_test_set_up [OF wf_table_size [OF assms(1,4)], of i] assms by (simp add: ServerWait_def)
next
  case False
  then consider "i < 0" | "i \<in> used t" by auto
  then show ?thesis
  proof cases
    case 1
    then show ?thesis using assms(1) by (simp add: ServerWait_def)
  next
    case 2
    then show ?thesis using ServerWait_ok [OF assms(1-3)] by blast
  qed
qed

lemma on_WAIT_ok:
  assumes "server_ok s" "wf_mail m" "tsize (cond_table s) \<noteq> 0" "0 \<le> myMachineID s"
  shows "goes_well (on_WAIT m s)"
proof (cases "decodeMachineID (int_at m 5) = myMachineID s \<and> decodeMachineID (int_at m 1) = myMachineID s \<and>
    decodeIndex s (int_at m 5) \<in> used (lock_table s)")
  case False
  then show ?thesis
    unfolding on_WAIT_def
    using assms table_parts [OF assms(1)] by (auto simp: Let_def query_lock_owner_ok)
next
  case True
  note w = table_parts [OF assms(1)] mailbox_range [OF assms(2)]
  let ?i = "decodeIndex s (int_at m 5)"
  obtain ct where ct: "ServerWait (pkt_from m) (mail_from m) (decodeIndex s (int_at m 1)) ?i (cond_table s) = Inr ct"
    "wf_conds ct"
    using ServerWait_total [OF w(2,4,5) assms(3)] decode_range [of "int_at m 1" s] True assms(4) by blast
  obtain L cr L' lt where r: "lock_wf L" "sl_Release (new_ClientRequest (pkt_from m) (mail_from m)) L = (cr, L')"
    "ServerRelease (pkt_from m) (mail_from m) ?i (lock_table s) = Inr (Some cr, lt)" "wf_locks lt"
    using ServerRelease_ok [OF w(1,4,5), of ?i "pkt_from m"] True by auto
  have "good_client cr" using sl_Release_wf [OF r(1) _ r(2)] w(4,5) by simp
  then show ?thesis
    unfolding on_WAIT_def
    using True w ct r assms by (auto simp: Let_def server_ok_upd)
qed

lemma on_DESTROY_MV_ok:
  assumes "server_ok s" "wf_mail m"
  shows "goes_well (on_DESTROY_MV m s)"
  using assms ServerDestroyMV_ok [OF table_parts(3) [OF assms(1)], of "decodeIndex s (int_at m 1)"]
  by (auto simp: on_DESTROY_MV_def server_ok_upd)

lemma on_GET_MV_ok:
  assumes "server_ok s" "wf_mail m"
  shows "goes_well (on_GET_MV m s)"
  using assms ServerGetMV_ok [OF table_parts(3) [OF assms(1)]] by (simp add: on_GET_MV_def)

lemma on_SET_MV_ok:
  assumes "server_ok s" "wf_mail m"
  shows "goes_well (on_SET_MV m s)"
  using assms ServerSetMV_ok [OF table_parts(3) [OF assms(1)], of "decodeIndex s (int_at m 1)" "int_at m 5" "int_at m 9"]
  by (auto simp: on_SET_MV_def server_ok_upd)

section \<open>Broadcast\<close>

lemma broadcast_responses_ok:
  assumes "cond_wf C" "scwaiting C = l \<or> scqueue C = []"
  shows "broadcast_responses m mb l C rs =
     Some (C\<lparr>scqueue := [], scwaiting := - 1\<rparr>, rs @ map response_to (scqueue C))"
  using assms
proof (induction "scqueue C" arbitrary: C rs)
  case Nil
  then have "C\<lparr>scqueue := [], scwaiting := - 1\<rparr> = C" by (cases C) (simp add: cond_wf_def)
  then show ?case using Nil by (subst broadcast_responses.simps) (simp add: sc_hasWaiting_def)
next
  case (Cons c q)
  let ?C = "if q = [] then C\<lparr>scqueue := q, scwaiting := - 1\<rparr> else C\<lparr>scqueue := q\<rparr>"
  have q: "scqueue C = c # q" using Cons.hyps(2) by simp
  have "cond_wf ?C" "scwaiting ?C = l \<or> scqueue ?C = []" "q = scqueue ?C"
    using Cons.prems q by (auto simp: cond_wf_def)
  note ih = Cons.hyps(1) [OF this(3,1,2)]
  have "sc_Signal l (new_ClientRequest m mb) C = (c\<lparr>respond := True\<rparr>, ?C)"
    using Cons.prems(2) q by (simp add: sc_Signal_def)
  then show ?case
    using q ih by (subst broadcast_responses.simps) (simp add: sc_hasWaiting_def response_to_def)
qed

lemma broadcast_responses_returns:
  assumes "broadcast_responses m mb l C rs = Some y"
  shows "scwaiting C = l \<or> scqueue C = []"
proof (rule broadcast_responses.raw_induct [OF _ assms])
  fix self m mb l C rs y
  assume ih: "\<And>m mb l C rs y. self m mb l C rs = Some y \<Longrightarrow> scwaiting C = l \<or> scqueue C = []"
    and s: "(if \<not> sc_hasWaiting C then Some (C, rs)
      else case sc_Signal l (new_ClientRequest m mb) C of (cr, C') \<Rightarrow>
        self m mb l C' (rs @ [\<lparr>toMachine = machineID cr, toMailbox = mailboxNumber cr, rdata = - 1\<rparr>])) =
      Some y"
  show "scwaiting C = l \<or> scqueue C = []"
  proof (rule ccontr)
    assume n: "\<not> (scwaiting C = l \<or> scqueue C = [])"
    then have "sc_Signal l (new_ClientRequest m mb) C = ((new_ClientRequest m mb)\<lparr>respond := False\<rparr>, C)"
      by (simp add: sc_Signal_def)
    moreover have "sc_hasWaiting C" using n by (simp add: sc_hasWaiting_def)
    ultimately obtain rs' where "self m mb l C rs' = Some y" using s by auto
    then show False using ih n by blast
  qed
qed

definition cond_of :: "server \<Rightarrow> int \<Rightarrow> ServerCondition" where
  "cond_of s i = the (condp (at (cond_table s) i))"

definition lock_of :: "server \<Rightarrow> int \<Rightarrow> ServerLock" where
  "lock_of s i = the (lockp (at (lock_table s) i))"

lemma ServerBroadcast_ok:
  assumes "server_ok s" "i \<in> used (cond_table s)"
  shows "if scwaiting (cond_of s i) = l \<or> scqueue (cond_of s i) = []
    then \<exists>t'. ServerBroadcast m mb i l (cond_table s) rs =
        Some (Inr (t', rs @ map response_to (scqueue (cond_of s i)))) \<and> wf_conds t' \<and>
        slots t' = (slots (cond_table s))(i \<mapsto> (at (cond_table s) i)\<lparr>condp :=
          Some ((cond_of s i)\<lparr>scqueue := [], scwaiting := - 1\<rparr>)\<rparr>) \<and>
        (\<forall>c\<in>set (scqueue (cond_of s i)). good_client c)
    else ServerBroadcast m mb i l (cond_table s) rs = None"
proof -
  let ?t = "cond_table s" and ?C = "cond_of s i"
  note w = table_parts(2) [OF assms(1)]
  note r = wf_table_set_up [OF w assms(2)]
  have C: "cond_at ?t i = Inr (at ?t i, ?C)" "condp (at ?t i) = Some ?C" "cond_wf ?C"
    using cond_at_ok [OF w assms(2)] by (auto simp: cond_of_def)
  let ?C' = "?C\<lparr>scqueue := [], scwaiting := - 1\<rparr>"
  let ?e = "(at ?t i)\<lparr>condp := Some ?C'\<rparr>"
  have "cond_name ?e = cond_name (at ?t i)" "cond_entry_wf ?e"
    using C by (simp_all add: cond_name_def cond_entry_wf_def cond_wf_def)
  then obtain t' where t': "slot_set ?t i ?e = Inr t'" "wf_conds t'" "slots t' = (slots ?t)(i \<mapsto> ?e)"
    using slot_update [OF w assms(2)] by blast
  have u: "ServerBroadcast m mb i l ?t rs = map_option (\<lambda>(C', rs').
      bind_result (slot_set ?t i ((at ?t i)\<lparr>condp := Some C'\<rparr>)) (\<lambda>t'. Inr (t', rs')))
      (broadcast_responses m mb l ?C rs)"
    using r slot_test_set_up [of ?t i] assms(2) C(1) by (simp add: ServerBroadcast_def)
  show ?thesis
  proof (cases "scwaiting ?C = l \<or> scqueue ?C = []")
    case True
    then show ?thesis
      unfolding u broadcast_responses_ok [OF C(3) True] using t' C(3) by (auto simp: cond_wf_def)
  next
    case False
    then have "broadcast_responses m mb l ?C rs = None"
      using broadcast_responses_returns [of m mb l ?C rs] by (cases "broadcast_responses m mb l ?C rs") auto
    then show ?thesis unfolding u using False by simp
  qed
qed

text \<open>A broadcast that never ends: the variable has waiters, but waits with another lock.\<close>

definition stuck_broadcast :: "mail \<Rightarrow> server \<Rightarrow> bool" where
  "stuck_broadcast m s \<longleftrightarrow>
     decodeMachineID (int_at m 5) = myMachineID s \<and> decodeIndex s (int_at m 5) \<in> used (lock_table s) \<and>
     decodeMachineID (int_at m 1) = myMachineID s \<and> decodeIndex s (int_at m 1) \<in> used (cond_table s) \<and>
     scqueue (cond_of s (decodeIndex s (int_at m 1))) \<noteq> [] \<and>
     scwaiting (cond_of s (decodeIndex s (int_at m 1))) \<noteq> decodeIndex s (int_at m 5)"

lemma on_BROADCAST_ok:
  assumes "server_ok s" "wf_mail m" "tsize (cond_table s) \<noteq> 0" "0 \<le> myMachineID s"
  shows "if stuck_broadcast m s then on_BROADCAST m s = None
    else \<exists>r. on_BROADCAST m s = Some r \<and> goes_well r"
proof -
  note w = table_parts [OF assms(1)]
  let ?l = "decodeIndex s (int_at m 5)" and ?c = "decodeIndex s (int_at m 1)"
  let ?s = "check_lock_machine m s"
  have sk: "server_ok ?s" using assms by simp
  have co: "cond_of ?s = cond_of s" by (simp add: cond_of_def fun_eq_iff)
  consider (away) "decodeMachineID (int_at m 5) \<noteq> myMachineID s"
    | (nolock) "decodeMachineID (int_at m 5) = myMachineID s" "?l \<notin> used (lock_table s)"
    | (cvaway) "decodeMachineID (int_at m 5) = myMachineID s" "?l \<in> used (lock_table s)"
        "decodeMachineID (int_at m 1) \<noteq> myMachineID s"
    | (nocv) "decodeMachineID (int_at m 5) = myMachineID s" "?l \<in> used (lock_table s)"
        "decodeMachineID (int_at m 1) = myMachineID s" "?c \<notin> used (cond_table s)"
    | (here) "decodeMachineID (int_at m 5) = myMachineID s" "?l \<in> used (lock_table s)"
        "decodeMachineID (int_at m 1) = myMachineID s" "?c \<in> used (cond_table s)"
    by blast
  then show ?thesis
  proof cases
    case away
    then show ?thesis using query_lock_owner_ok [OF sk] by (simp add: on_BROADCAST_def stuck_broadcast_def Let_def)
  next
    case nolock
    then show ?thesis using w assms by (simp add: on_BROADCAST_def stuck_broadcast_def Let_def)
  next
    case cvaway
    then show ?thesis using w assms by (simp add: on_BROADCAST_def stuck_broadcast_def Let_def)
  next
    case nocv
    then have "?c < 0 \<or> slot_test (cond_table s) ?c = Inr False"
      using decode_range [of "int_at m 1" s] slot_test_set_up [OF wf_table_size [OF w(2) assms(3)], of ?c] assms(4)
      by (cases "?c < 0") auto
    then have "ServerBroadcast (pkt_from m) (mail_from m) ?c ?l (cond_table s) (necessaryResponses ?s) =
        Some (Inr (cond_table s, necessaryResponses ?s))"
      by (auto simp: ServerBroadcast_def)
    moreover have "server_ok (?s\<lparr>cond_table := cond_table s\<rparr>)" by (rule server_ok_upd(2) [OF sk w(2)])
    ultimately show ?thesis using nocv w sk assms by (simp add: on_BROADCAST_def stuck_broadcast_def Let_def)
  next
    case here
    note b = ServerBroadcast_ok [OF sk, of ?c ?l "pkt_from m" "mail_from m" "necessaryResponses ?s"]
    show ?thesis
    proof (cases "stuck_broadcast m s")
      case True
      then show ?thesis using here b w co by (simp add: on_BROADCAST_def stuck_broadcast_def Let_def)
    next
      case False
      then obtain t' where "ServerBroadcast (pkt_from m) (mail_from m) ?c ?l (cond_table ?s) (necessaryResponses ?s) =
          Some (Inr (t', necessaryResponses ?s @ map response_to (scqueue (cond_of s ?c))))" "wf_conds t'"
          "\<forall>c\<in>set (scqueue (cond_of s ?c)). good_client c"
        using here b co by (auto simp: stuck_broadcast_def)
      moreover have "server_ok (?s\<lparr>cond_table := t', necessaryResponses := necessaryResponses ?s @
          map response_to (scqueue (cond_of s ?c))\<rparr>)"
        using sk calculation(2,3) by (auto simp: server_ok_def)
      ultimately show ?thesis using False here w assms
        by (simp add: on_BROADCAST_def Let_def)
    qed
  qed
qed

section \<open>The properties\<close>

lemmas message_types = CREATE_LOCK_def DESTROY_LOCK_def ACQUIRE_def RELEASE_def CREATE_CV_def DESTROY_CV_def
  SIGNAL_def WAIT_def BROADCAST_def CREATE_MV_def DESTROY_MV_def GET_MV_def SET_MV_def
  DOES_CLIENT_HAVE_LOCK_def CV_LOCK_TRACKER_RESPONSE_def

text \<open>
  the integers in messages. Every \<open>int\<close> packed by \<open>compressInt\<close> is read back by \<open>extractInt\<close>,
  whatever bytes follow it, and any four bytes read as an \<open>int\<close> are packed into the same bytes; the
  number a server gives an object decodes, on that server, to the object's slot and to the server.
\<close>

lemma message_int_roundtrip:
  assumes "- (2 ^ 31) \<le> x" "x < 2 ^ 31" "length buf = 4"
    and "0 \<le> i" "i < 500" "0 \<le> myMachineID s"
  shows "extractInt (compressInt x @ rest) = x \<and> compressInt (extractInt buf) = buf \<and>
    decodeIndex s (encodeIndex s i) = i \<and> decodeMachineID (encodeIndex s i) = myMachineID s"
proof -
  have "encodeIndex s i div 500 = myMachineID s"
    using assms(4,5) by (simp add: encodeIndex_def MAX_SERVER_def)
  moreover have "0 \<le> encodeIndex s i" using assms by (simp add: encodeIndex_def MAX_SERVER_def)
  ultimately have "decodeMachineID (encodeIndex s i) = myMachineID s"
    by (simp add: decodeMachineID_def quot_nonneg MAX_SERVER_def)
  then show ?thesis
    using extractInt_compressInt [OF assms(1,2)] compressInt_extractInt [OF assms(3)]
    by (simp add: decodeIndex_def encodeIndex_def)
qed

lemma message_int_roundtrip_example:
  "extractInt (compressInt (- 2) @ [7]) = - 2 \<and> decodeMachineID (encodeIndex (start_server 3 4) 499) = 3"
  using message_int_roundtrip [of "- 2" "[1, 2, 3, 4]" 499 "start_server 3 4" "[7]"]
  by (simp add: start_server_def)

text \<open>
  C14: a server survives its clients, with the exceptions named here. From a sane state, a message of
  any type but the lock tracker's keeps the state sane and all its answers can be sent, provided that
  a creation carries a terminated name (and no negative number of entries) and that a WAIT or BROADCAST does not come
  before the first condition variable is created. The one message that never gets an answer, because
  the server's loop does not end, is a BROADCAST with a lock that is not the one the waiters wait
  with; it hangs the server every time.
\<close>

theorem server_survives:
  assumes "server_ok s" "wf_mail m" "0 \<le> myMachineID s"
    and "mail_type m \<in> {CREATE_LOCK, CREATE_CV} \<longrightarrow> name_ok 2 m"
    and "mail_type m = CREATE_MV \<longrightarrow> name_ok 10 m \<and> 0 \<le> int_at m 1"
    and "mail_type m \<in> {WAIT, BROADCAST} \<longrightarrow> tsize (cond_table s) \<noteq> 0"
    and "mail_type m \<noteq> CV_LOCK_TRACKER_RESPONSE"
  shows "if mail_type m = BROADCAST \<and> stuck_broadcast m s then handle0 g m s = None
    else \<exists>ms s'. handle0 g m s = Some (Inr (ms, s')) \<and> server_ok s'"
proof -
  have "if mail_type m = BROADCAST \<and> stuck_broadcast m s then dispatch0 g m s = None
    else \<exists>r. dispatch0 g m s = Some r \<and> goes_well r"
  proof (cases "mail_type m = BROADCAST")
    case True
    then have "dispatch0 g m s = on_BROADCAST m s"
      by (simp add: dispatch0_def mail_type_def Let_def message_types)
    then show ?thesis using on_BROADCAST_ok [OF assms(1,2) _ assms(3)] assms(6) True by simp
  next
    case False
    then show ?thesis
      using assms on_CREATE_LOCK_ok [of s m g] on_DESTROY_LOCK_ok [of s m] on_ACQUIRE_ok [of s m]
        on_RELEASE_ok [of s m] on_CREATE_CV_ok [of s m g] on_DESTROY_CV_ok [of s m]
        on_DOES_CLIENT_HAVE_LOCK_ok [of s m] on_SIGNAL_ok [of s m] on_WAIT_ok [of s m]
        on_CREATE_MV_ok [of s m g] on_DESTROY_MV_ok [of s m] on_GET_MV_ok [of s m] on_SET_MV_ok [of s m]
      by (auto simp: dispatch0_def mail_type_def [symmetric] Let_def)
  qed
  moreover have "\<exists>ms s'. bind_result r flush = Inr (ms, s') \<and> server_ok s'" if "goes_well r" for r
    using that flush_ok by (fastforce simp: goes_well_def)
  ultimately show ?thesis by (fastforce simp: handle0_def split: if_splits)
qed

text \<open>A message for the examples: type, then an \<open>int\<close> at 1 and at 5.\<close>

definition msg :: "int \<Rightarrow> int \<Rightarrow> int \<Rightarrow> int \<Rightarrow> int \<Rightarrow> mail" where
  "msg ty from box x y = \<lparr>pkt_to = 0, pkt_from = from, mail_to = 0, mail_from = box, mail_len = 9,
     mdata = word_of_int ty # compressInt x @ compressInt y @ replicate 31 0\<rparr>"

lemma wf_msg [simp]: "wf_mail (msg ty from box x y) \<longleftrightarrow> 0 \<le> box \<and> box < numBoxes"
  by (simp add: wf_mail_def msg_def)

lemma int_at_msg [simp]:
  "- (2 ^ 31) \<le> x \<Longrightarrow> x < 2 ^ 31 \<Longrightarrow> int_at (msg ty from box x y) 1 = x"
  "- (2 ^ 31) \<le> y \<Longrightarrow> y < 2 ^ 31 \<Longrightarrow> int_at (msg ty from box x y) 5 = y"
  by (simp_all add: int_at_def msg_def extractInt_compressInt)

lemma mail_type_msg: "mail_type (msg ty from box x y) = sint (word_of_int ty :: u8)"
  by (simp add: mail_type_def msg_def char_at_def)

theorem server_survives_witness:
  "\<exists>ms s'. handle0 (\<lambda>_. 0) (msg ACQUIRE 5 1 0 0) (start_server 0 1) = Some (Inr (ms, s')) \<and> server_ok s'"
  using server_survives [OF start_server_ok, of "msg ACQUIRE 5 1 0 0" 0 1 "\<lambda>_. 0"]
  by (simp add: start_server_def mail_type_msg message_types numBoxes_def)

section \<open>Creation by name\<close>

text \<open>
  What the users of a table of named objects rely on: \<open>create\<close> finds the object with the name or adds
  it (or gives up with -1), and two names never share a number.
\<close>

fun create_all :: "(u8 list \<Rightarrow> 't \<Rightarrow> (int \<times> 't) result) \<Rightarrow> u8 list list \<Rightarrow> 't \<Rightarrow> (int list \<times> 't) result" where
  "create_all create [] t = Inr ([], t)"
| "create_all create (n # ns) t =
     bind_result (create n t) (\<lambda>(k, t1). bind_result (create_all create ns t1) (\<lambda>(ks, t2). Inr (k # ks, t2)))"

locale named_store =
  fixes inv :: "'t \<Rightarrow> bool"
    and slot :: "'t \<Rightarrow> u8 list \<Rightarrow> int option"
    and create :: "u8 list \<Rightarrow> 't \<Rightarrow> (int \<times> 't) result"
  assumes create: "inv t \<Longrightarrow> terminated n \<Longrightarrow> \<exists>k t'. create n t = Inr (k, t') \<and> inv t' \<and>
      slot t \<subseteq>\<^sub>m slot t' \<and> (k \<noteq> - 1 \<longrightarrow> slot t' (cstr n) = Some k)"
    and slot_inj: "inv t \<Longrightarrow> slot t n = Some i \<Longrightarrow> slot t n' = Some i \<Longrightarrow> n = n'"
begin

lemma create_all_ok:
  assumes "inv t" "\<forall>n\<in>set ns. terminated n"
  shows "\<exists>ks t'. create_all create ns t = Inr (ks, t') \<and> inv t' \<and> slot t \<subseteq>\<^sub>m slot t' \<and>
     length ks = length ns \<and> (\<forall>i<length ns. ks ! i \<noteq> - 1 \<longrightarrow> slot t' (cstr (ns ! i)) = Some (ks ! i))"
  using assms
proof (induction ns arbitrary: t)
  case (Cons n ns)
  then obtain k t1 where k: "create n t = Inr (k, t1)" "inv t1" "slot t \<subseteq>\<^sub>m slot t1"
    "k \<noteq> - 1 \<longrightarrow> slot t1 (cstr n) = Some k"
    using create [of t n] by auto
  obtain ks t2 where ks: "create_all create ns t1 = Inr (ks, t2)" "inv t2" "slot t1 \<subseteq>\<^sub>m slot t2"
    "length ks = length ns" "\<forall>i<length ns. ks ! i \<noteq> - 1 \<longrightarrow> slot t2 (cstr (ns ! i)) = Some (ks ! i)"
    using Cons.IH [OF k(2)] Cons.prems(2) by auto
  have "k \<noteq> - 1 \<longrightarrow> slot t2 (cstr n) = Some k" using k(4) ks(3) by (force simp: map_le_def dom_def)
  then show ?case
    using k ks map_le_trans [OF k(3) ks(3)] by (auto simp: nth_Cons less_Suc_eq_0_disj split: nat.splits)
qed simp

lemma same_number_iff_same_name:
  assumes "inv t" "\<forall>n\<in>set ns. terminated n"
  shows "\<exists>ks t'. create_all create ns t = Inr (ks, t') \<and> inv t' \<and> length ks = length ns \<and>
     (\<forall>i<length ns. \<forall>j<length ns. ks ! i \<noteq> - 1 \<and> ks ! j \<noteq> - 1 \<longrightarrow>
        (ks ! i = ks ! j \<longleftrightarrow> cstr (ns ! i) = cstr (ns ! j)))"
proof -
  obtain ks t' where ks: "create_all create ns t = Inr (ks, t')" "inv t'" "length ks = length ns"
    "\<forall>i<length ns. ks ! i \<noteq> - 1 \<longrightarrow> slot t' (cstr (ns ! i)) = Some (ks ! i)"
    using create_all_ok [OF assms] by blast
  have "ks ! i = ks ! j \<longleftrightarrow> cstr (ns ! i) = cstr (ns ! j)"
    if "i < length ns" "j < length ns" "ks ! i \<noteq> - 1" "ks ! j \<noteq> - 1" for i j
  proof -
    have s: "slot t' (cstr (ns ! i)) = Some (ks ! i)" "slot t' (cstr (ns ! j)) = Some (ks ! j)"
      using that ks(4) by auto
    then show ?thesis using slot_inj [OF ks(2), of "cstr (ns ! i)" "ks ! i" "cstr (ns ! j)"] by auto
  qed
  with ks(1-3) show ?thesis by blast
qed

end

lemma created_slot_of:
  assumes "wf_table nm f t" "wf_table nm f t'" "created nm n e t k t'" "sname nm e = n"
  shows "slot_of nm t \<subseteq>\<^sub>m slot_of nm t' \<and> (k \<noteq> - 1 \<longrightarrow> slot_of nm t' n = Some k)"
proof (cases "slot_of nm t n = None \<and> used t \<noteq> {0..<500}")
  case False
  then have "slots t' = slots t" "k \<noteq> - 1 \<longrightarrow> slot_of nm t n = Some k"
    using assms(3) by (auto simp: created_def split: option.splits if_splits)
  then show ?thesis using slot_of_slots [of t' t nm] by (simp add: map_le_def)
next
  case True
  then have k: "k \<notin> used t" "slots t' = (slots t)(k \<mapsto> e)" using assms(3) by (auto simp: created_def)
  have u: "used t' = insert k (used t)" using arg_cong [OF k(2), of dom] by simp
  have at_k: "at t' k = e" using fun_cong [OF k(2), of k] u by (simp add: slots_def)
  have at: "at t' i = at t i" if "i \<in> used t" for i
    using fun_cong [OF k(2), of i] that u k(1) by (auto simp: slots_def split: if_splits)
  have "slot_of nm t' a = Some i" if "slot_of nm t a = Some i" for a i
    using that u at by (simp add: slot_of_Some [OF assms(1)] slot_of_Some [OF assms(2)])
  moreover have "slot_of nm t' n = Some k"
    using u at_k assms(4) by (simp add: slot_of_Some [OF assms(2)])
  ultimately show ?thesis by (auto simp: map_le_def)
qed

lemma slot_of_inj: "wf_table nm f t \<Longrightarrow> slot_of nm t n = Some i \<Longrightarrow> slot_of nm t n' = Some i \<Longrightarrow> n = n'"
  by (simp add: slot_of_Some)

interpretation lock_store: named_store wf_locks "slot_of lock_name" "ServerCreateLock g" for g
proof
  fix t :: "ServerLockEntry table" and n :: "u8 list"
  assume "wf_locks t" "terminated n"
  then show "\<exists>k t'. ServerCreateLock g n t = Inr (k, t') \<and> wf_locks t' \<and>
      slot_of lock_name t \<subseteq>\<^sub>m slot_of lock_name t' \<and> (k \<noteq> - 1 \<longrightarrow> slot_of lock_name t' (cstr n) = Some k)"
    using ServerCreateLock_ok [of t n g]
      created_slot_of [of lock_name lock_entry_wf t _ "cstr n" "fresh_lock n"]
    by (fastforce simp: sname_def lock_name_def fresh_lock_def new_ServerLock_def)
qed (rule slot_of_inj)

interpretation cond_store: named_store wf_conds "slot_of cond_name" "ServerCreateCV g" for g
proof
  fix t :: "ServerConditionEntry table" and n :: "u8 list"
  assume "wf_conds t" "terminated n"
  then show "\<exists>k t'. ServerCreateCV g n t = Inr (k, t') \<and> wf_conds t' \<and>
      slot_of cond_name t \<subseteq>\<^sub>m slot_of cond_name t' \<and> (k \<noteq> - 1 \<longrightarrow> slot_of cond_name t' (cstr n) = Some k)"
    using ServerCreateCV_ok [of t n g]
      created_slot_of [of cond_name cond_entry_wf t _ "cstr n" "fresh_cond n"]
    by (fastforce simp: sname_def cond_name_def fresh_cond_def new_ServerCondition_def)
qed (rule slot_of_inj)

definition small_mv :: "(nat \<Rightarrow> u32) \<Rightarrow> nat \<Rightarrow> int \<Rightarrow> u8 list \<Rightarrow> ServerMVEntry table \<Rightarrow> (int \<times> ServerMVEntry table) result" where
  "small_mv g k v n = ServerCreateMV g n (int (min k 500)) v"

interpretation mv_store: named_store wf_mvs "slot_of mv_name" "small_mv g k v" for g k v
proof
  fix t :: "ServerMVEntry table" and n :: "u8 list"
  assume "wf_mvs t" "terminated n"
  then show "\<exists>i t'. small_mv g k v n t = Inr (i, t') \<and> wf_mvs t' \<and>
      slot_of mv_name t \<subseteq>\<^sub>m slot_of mv_name t' \<and> (i \<noteq> - 1 \<longrightarrow> slot_of mv_name t' (cstr n) = Some i)"
    using ServerCreateMV_ok [of t n "int (min k 500)" g v]
      created_slot_of [of mv_name mv_entry_wf t _ "cstr n" "fresh_mv n (int (min k 500)) v"]
    by (fastforce simp: sname_def mv_name_def fresh_mv_def small_mv_def)
qed (rule slot_of_inj)

text \<open>
  on one server, objects are known by their names. However many locks are created one after
  another, with whatever names, two creations return the same number exactly if the two names are
  equal (up to the zero byte), -1 for a full table apart; the same holds for condition variables.
\<close>

lemma creation_by_name:
  assumes "wf_locks t" "wf_conds u" "\<forall>n\<in>set ns. terminated n"
  shows "(\<exists>ks t'. create_all (ServerCreateLock g) ns t = Inr (ks, t') \<and> wf_locks t' \<and>
      length ks = length ns \<and> (\<forall>i<length ns. \<forall>j<length ns. ks ! i \<noteq> - 1 \<and> ks ! j \<noteq> - 1 \<longrightarrow>
        (ks ! i = ks ! j \<longleftrightarrow> cstr (ns ! i) = cstr (ns ! j)))) \<and>
    (\<exists>ks u'. create_all (ServerCreateCV g) ns u = Inr (ks, u') \<and> wf_conds u' \<and>
      length ks = length ns \<and> (\<forall>i<length ns. \<forall>j<length ns. ks ! i \<noteq> - 1 \<and> ks ! j \<noteq> - 1 \<longrightarrow>
        (ks ! i = ks ! j \<longleftrightarrow> cstr (ns ! i) = cstr (ns ! j))))"
  using lock_store.same_number_iff_same_name [OF assms(1,3)]
    cond_store.same_number_iff_same_name [OF assms(2,3)] by blast

lemma creation_by_name_example:
  "\<exists>ks t'. create_all (ServerCreateLock (\<lambda>_. 0)) [[65, 0], [66, 0], [65, 0]] empty_table = Inr (ks, t') \<and>
     length ks = 3 \<and> (ks ! 0 \<noteq> - 1 \<and> ks ! 2 \<noteq> - 1 \<longrightarrow> ks ! 0 = ks ! 2)"
proof -
  have e: "wf_locks empty_table" "wf_conds empty_table"
    by (simp_all add: empty_table_def wf_table_def wf_map_def slots_def used_def)
  obtain ks t' where "create_all (ServerCreateLock (\<lambda>_. 0)) [[65, 0], [66, 0], [65, 0]] empty_table = Inr (ks, t')"
    "length ks = 3" and c: "\<forall>i<3. \<forall>j<3. ks ! i \<noteq> - 1 \<and> ks ! j \<noteq> - 1 \<longrightarrow>
      (ks ! i = ks ! j \<longleftrightarrow> cstr ([[65, 0], [66, 0], [65, 0]] ! i) = cstr ([[65, 0], [66, 0], [65, 0]] ! j))"
    using creation_by_name [OF e, of "[[65, 0], [66, 0], [65, 0]]" "\<lambda>_. 0"]
    by (auto simp: terminated_def)
  moreover have "ks ! 0 \<noteq> - 1 \<and> ks ! 2 \<noteq> - 1 \<longrightarrow> ks ! 0 = ks ! 2"
    using c [rule_format, of 0 2] by simp
  ultimately show ?thesis by blast
qed

end
