(* ===== verification/Server_Claims.thy ===== *)
theory Server_Claims
  imports Server_Properties
begin

text \<open>
  The conversations between clients and servers: what a client that locks, waits or reads a monitor
  variable gets, on one machine and across machines.
\<close>

lemmas peer_types = DO_YOU_HAVE_LOCK_def DO_YOU_HAVE_CV_def DO_YOU_HAVE_MV_def DO_YOU_HAVE_LOCK_NAME_def
  DO_YOU_HAVE_CV_NAME_def DO_YOU_HAVE_MV_NAME_def HAVE_LOCK_def HAVE_CV_def HAVE_MV_def
  DO_NOT_HAVE_LOCK_def DO_NOT_HAVE_CV_def DO_NOT_HAVE_MV_def HAVE_LOCK_NAME_def HAVE_CV_NAME_def
  HAVE_MV_NAME_def DO_NOT_HAVE_LOCK_NAME_def DO_NOT_HAVE_CV_NAME_def DO_NOT_HAVE_MV_NAME_def

section \<open>Locks\<close>

type_synonym client = "int \<times> int"     \<comment> \<open>machine and mailbox\<close>

definition client_of :: "ClientRequest \<Rightarrow> client" where
  "client_of c = (machineID c, mailboxNumber c)"

definition sender :: "mail \<Rightarrow> client" where
  "sender m = (pkt_from m, mail_from m)"

definition holder :: "server \<Rightarrow> int \<Rightarrow> client option" where
  "holder s i = map_option client_of (currentClientRequest (lock_of s i))"

definition waiters :: "server \<Rightarrow> int \<Rightarrow> client list" where
  "waiters s i = map client_of (slqueue (lock_of s i))"

text \<open>The answer that lets a client go on.\<close>

definition reply :: "server \<Rightarrow> int \<Rightarrow> client \<Rightarrow> mail" where
  "reply s d c = \<lparr>pkt_to = fst c, pkt_from = myMachineID s, mail_to = snd c, mail_from = 0, mail_len = 4,
     mdata = compressInt d\<rparr>"

lemma send_reply [simp]:
  "0 \<le> toMailbox r \<Longrightarrow> toMailbox r < 100 \<Longrightarrow>
   post_send (response_mail s r) = Inr (reply s (rdata r) (toMachine r, toMailbox r))"
  by (simp add: post_send_ok response_mail_def reply_def)

lemmas int_at_msg_Suc [simp] = int_at_msg(1) [unfolded One_nat_def]

lemma start_server_fields [simp]:
  "myMachineID (start_server me n) = me" "totalNumServers (start_server me n) = n"
  "necessaryResponses (start_server me n) = []" "cvLockTrackerList (start_server me n) = []"
  "lock_table (start_server me n) = empty_table" "cond_table (start_server me n) = empty_table"
  "mv_table (start_server me n) = empty_table" "pendingCreates (start_server me n) = []"
  by (simp_all add: start_server_def)

lemma reply_upd [simp]:
  "reply (s\<lparr>lock_table := t\<rparr>) = reply s" "reply (s\<lparr>necessaryResponses := rs\<rparr>) = reply s"
  by (simp_all add: fun_eq_iff reply_def)

lemma dispatch0_lock_ops:
  "mail_type m = ACQUIRE \<Longrightarrow> dispatch0 g m s = Some (on_ACQUIRE m s)"
  "mail_type m = RELEASE \<Longrightarrow> dispatch0 g m s = Some (on_RELEASE m s)"
  "mail_type m = DESTROY_LOCK \<Longrightarrow> dispatch0 g m s = Some (on_DESTROY_LOCK m s)"
  "mail_type m = WAIT \<Longrightarrow> dispatch0 g m s = Some (on_WAIT m s)"
  "mail_type m = GET_MV \<Longrightarrow> dispatch0 g m s = Some (on_GET_MV m s)"
  "mail_type m = SET_MV \<Longrightarrow> dispatch0 g m s = Some (on_SET_MV m s)"
  "mail_type m = CV_LOCK_TRACKER_RESPONSE \<Longrightarrow> dispatch0 g m s = on_CV_LOCK_TRACKER_RESPONSE m s"
  by (simp_all add: dispatch0_def mail_type_def [symmetric] message_types)

lemma held_iff: "isHeldByRequester (lock_of s i) (new_ClientRequest m mb) \<longleftrightarrow> holder s i = Some (m, mb)"
  by (auto simp: isHeldByRequester_def holder_def client_of_def split: option.split)

lemma lock_of_slots:
  assumes "slots (lock_table s') i = Some e" "lockp e = Some L"
  shows "lock_of s' i = L"
  using assms by (auto simp: lock_of_def)

text \<open>A message for a lock of this machine, with no answer left over from an earlier one.\<close>

definition for_lock :: "mail \<Rightarrow> server \<Rightarrow> int \<Rightarrow> bool" where
  "for_lock m s i \<longleftrightarrow> server_ok s \<and> wf_mail m \<and> necessaryResponses s = [] \<and>
     decodeMachineID (int_at m 1) = myMachineID s \<and> decodeIndex s (int_at m 1) = i \<and> i \<in> used (lock_table s)"

lemma acquire_messages:
  assumes "for_lock m s i" "mail_type m = ACQUIRE"
  shows "\<exists>s'. server_ok s' \<and> i \<in> used (lock_table s') \<and>
    (if holder s i = Some (sender m) \<or> slstate (lock_of s i) = FREE
     then handle0 g m s = Some (Inr ([reply s (- 1) (sender m)], s')) \<and> holder s' i = Some (sender m) \<and>
       waiters s' i = waiters s i
     else handle0 g m s = Some (Inr ([], s')) \<and> holder s' i = holder s i \<and>
       waiters s' i = waiters s i @ [sender m])"
proof -
  have f: "server_ok s" "wf_mail m" "necessaryResponses s = []" "i \<in> used (lock_table s)"
    using assms(1) by (simp_all add: for_lock_def)
  note w = table_parts(1) [OF f(1)] mailbox_range [OF f(2)]
  let ?L = "lock_of s i" and ?cr = "new_ClientRequest (pkt_from m) (mail_from m)"
  obtain L cr L' t' where L: "lockp (at (lock_table s) i) = Some L" "lock_wf L" "sl_Acquire ?cr L = (cr, L')"
    "ServerAcquire (pkt_from m) (mail_from m) i (lock_table s) = Inr (Some cr, t')" "wf_locks t'"
    and e: "slots t' = (slots (lock_table s))(i \<mapsto> (at (lock_table s) i)\<lparr>acquireCount :=
       acquireCount (at (lock_table s) i) + 1, lockp := Some L'\<rparr>)"
    using ServerAcquire_ok [OF w, of i "pkt_from m"] f(4) by auto
  define e where "e = (at (lock_table s) i)\<lparr>acquireCount :=
    acquireCount (at (lock_table s) i) + 1, lockp := Some L'\<rparr>"
  have L6: "slots t' = (slots (lock_table s))(i \<mapsto> e)" "lockp e = Some L'" using e by (simp_all add: e_def)
  have LL: "L = ?L" using L(1) by (simp add: lock_of_def)
  let ?s = "s\<lparr>lock_table := t'\<rparr>"
  have L': "lock_of ?s i = L'" by (rule lock_of_slots [where e = e]) (simp_all add: L6 del: slots_Some)
  have u: "i \<in> used t'" using arg_cong [OF L6(1), of dom] by simp
  have ok: "server_ok ?s" using f(1) L(5) by (simp add: server_ok_upd)
  have h: "handle0 g m s = Some (bind_result
      (if respond cr then Inr (True, [], push_response (response_to cr) ?s) else Inr (False, [], ?s)) flush)"
    using assms L(4) by (simp add: handle0_def dispatch0_lock_ops on_ACQUIRE_def for_lock_def Let_def)
  show ?thesis
  proof (cases "holder s i = Some (sender m) \<or> slstate ?L = FREE")
    case True
    then have a: "respond cr" "response_to cr = response m (- 1)" "slqueue L' = slqueue ?L"
      "map_option client_of (currentClientRequest L') = Some (sender m)"
      using L(3) held_iff [of s i "pkt_from m" "mail_from m"] unfolding LL
      by (auto simp: sl_Acquire_def sender_def response_to_def response_def client_of_def holder_def
          new_ClientRequest_def split: if_splits)
    then show ?thesis
      using True h ok u L' f w unfolding numBoxes_def
      by (intro exI [of _ ?s])
        (auto simp: flush_def push_response_def server_ok_def holder_def waiters_def response_def sender_def
          reply_def response_mail_def post_send_ok)
  next
    case False
    then have a: "\<not> respond cr" "slqueue L' = slqueue ?L @ [?cr\<lparr>respond := False\<rparr>]"
      "currentClientRequest L' = currentClientRequest ?L"
      using L(3) held_iff [of s i "pkt_from m" "mail_from m"] unfolding LL
      by (auto simp: sl_Acquire_def sender_def list_append_def split: if_splits)
    then show ?thesis
      using False h ok u L' f w
      by (intro exI [of _ ?s])
        (auto simp: flush_def holder_def waiters_def client_of_def sender_def new_ClientRequest_def)
  qed
qed

lemma release_messages:
  assumes "for_lock m s i" "mail_type m = RELEASE"
  shows "\<exists>s' ms. server_ok s' \<and> handle0 g m s = Some (Inr (reply s (- 1) (sender m) # ms, s')) \<and>
    necessaryResponses s' = [] \<and> myMachineID s' = myMachineID s \<and>
    (if holder s i \<noteq> Some (sender m)
     then ms = [] \<and> (holder s i \<noteq> None \<longrightarrow> i \<in> used (lock_table s')) \<and> (i \<in> used (lock_table s') \<longrightarrow> lock_of s' i = lock_of s i)
     else case waiters s i of
       [] \<Rightarrow> ms = [] \<and> (i \<in> used (lock_table s') \<longrightarrow> holder s' i = None \<and> waiters s' i = [])
     | c # cs \<Rightarrow> ms = [reply s (- 1) c] \<and> i \<in> used (lock_table s') \<and> holder s' i = Some c \<and> waiters s' i = cs)"
proof -
  have f: "server_ok s" "wf_mail m" "necessaryResponses s = []" "i \<in> used (lock_table s)"
    using assms(1) by (simp_all add: for_lock_def)
  note w = table_parts(1) [OF f(1)] mailbox_range [OF f(2)]
  let ?L = "lock_of s i" and ?cr = "new_ClientRequest (pkt_from m) (mail_from m)"
  obtain L cr L' e t' where L: "lockp (at (lock_table s) i) = Some L" "lock_wf L" "sl_Release ?cr L = (cr, L')"
    "e = (at (lock_table s) i)\<lparr>acquireCount := acquireCount (at (lock_table s) i) - 1, lockp := Some L'\<rparr>"
    "ServerRelease (pkt_from m) (mail_from m) i (lock_table s) = Inr (Some cr, t')" "wf_locks t'"
    "slots t' = (slots (lock_table s))(i := if lk_isToBeDeleted e \<and> acquireCount e = 0 \<and> slstate L' = FREE
       then None else Some e)"
    using ServerRelease_ok [OF w, of i "pkt_from m", unfolded if_P [OF f(4)]] by blast
  have L4: "lockp e = Some L'" using L(4) by simp
  have LL: "L = ?L" using L(1) by (simp add: lock_of_def)
  let ?s = "s\<lparr>lock_table := t'\<rparr>" and ?r = "response m (- 1)"
  have L': "lock_of ?s i = L'" if "i \<in> used t'"
  proof (rule lock_of_slots)
    have "slots t' i \<noteq> None" using that by (simp add: slots_def)
    then show "slots (lock_table ?s) i = Some e" using L(7) by (auto simp del: slots_Some split: if_splits)
  qed (rule L4)
  have u: "i \<in> used t'" if "slstate L' \<noteq> FREE"
  proof -
    have "slots t' i \<noteq> None" using that L(7) by simp
    then show ?thesis by (auto simp: slots_def split: if_splits)
  qed
  have ok: "server_ok ?s" using f(1) L(6) by (simp add: server_ok_upd)
  have h: "handle0 g m s = Some (bind_result (Inr (True, [], if respond cr
      then push_response (response_to cr) (push_response ?r ?s) else push_response ?r ?s)) flush)"
    using assms L(5) by (simp add: handle0_def dispatch0_lock_ops on_RELEASE_def for_lock_def Let_def)
  have gr: "0 \<le> toMailbox ?r" "toMailbox ?r < 100" "rdata ?r = - 1" "(toMachine ?r, toMailbox ?r) = sender m"
    using w(2,3) by (simp_all add: response_def numBoxes_def sender_def)
  have rep: "reply (s\<lparr>lock_table := t', necessaryResponses := rs\<rparr>) = reply s" for rs
    by (simp add: fun_eq_iff reply_def)
  have one: "handle0 g m s = Some (Inr ([reply s (- 1) (sender m)], ?s))" if "\<not> respond cr"
    using that h gr f(3) by (simp add: flush_def push_response_def rep f(3))
  show ?thesis
  proof (cases "holder s i = Some (sender m)")
    case False
    then have "\<not> respond cr" "L' = ?L"
      using L(3) held_iff [of s i "pkt_from m" "mail_from m"] unfolding LL
      by (auto simp: sl_Release_def sender_def split: if_splits)
    moreover have "slstate ?L \<noteq> FREE" if "holder s i \<noteq> None" using that L(2) unfolding LL by (auto simp: holder_def lock_wf_def)
    ultimately show ?thesis using False one ok L' u f(3) by (intro exI [of _ ?s] exI [of _ "[]"]) auto
  next
    case True
    then have held: "isHeldByRequester L ?cr"
      using held_iff [of s i "pkt_from m" "mail_from m"] unfolding LL by (simp add: sender_def)
    show ?thesis
    proof (cases "slqueue L")
      case Nil
      then have "\<not> respond cr" "currentClientRequest L' = None" "slqueue L' = []"
        using L(3) held by (auto simp: sl_Release_def)
      moreover have "waiters s i = []" using Nil LL by (simp add: waiters_def)
      ultimately show ?thesis using True one ok L' f(3) by (auto simp: holder_def waiters_def)
    next
      case (Cons c cs)
      then have c: "cr = c\<lparr>respond := True\<rparr>" "L' = L\<lparr>slqueue := cs, currentClientRequest := Some cr\<rparr>"
        using L(3) held by (auto simp: sl_Release_def)
      have busy: "slstate L' \<noteq> FREE" and gc: "good_client c" using L(2) Cons c(2) by (auto simp: lock_wf_def)
      have gcr: "0 \<le> toMailbox (response_to cr)" "toMailbox (response_to cr) < 100"
        "rdata (response_to cr) = - 1" "(toMachine (response_to cr), toMailbox (response_to cr)) = client_of c"
        using gc c(1) by (simp_all add: response_to_def good_client_def numBoxes_def client_of_def)
      have "handle0 g m s = Some (Inr ([reply s (- 1) (sender m), reply s (- 1) (client_of c)], ?s))"
        using h gr gcr c(1) f(3) by (simp add: flush_def push_response_def rep f(3))
      moreover have "waiters s i = client_of c # map client_of cs" using Cons LL by (simp add: waiters_def)
      moreover have "holder ?s i = Some (client_of c)" "waiters ?s i = map client_of cs"
        using L' [OF u [OF busy]] c by (simp_all add: holder_def waiters_def client_of_def)
      ultimately show ?thesis using True u [OF busy] ok f(3) by auto
    qed
  qed
qed

text \<open>
  C15: the messages of a lock. For a lock of its machine, the server answers an ACQUIRE at once
  exactly if the lock is free or the client has it already, and the client then holds it; otherwise
  the client is put at the end of the queue and hears nothing. A RELEASE is always answered; if the
  client holds the lock and clients wait, the one that has waited longest becomes the holder and
  is answered too, and if none waits the lock becomes free; a client that does not hold the lock
  changes neither its holder nor its queue.
\<close>

theorem lock_messages:
  assumes "for_lock m s i" "mail_type m = ACQUIRE \<or> mail_type m = RELEASE"
  shows "\<exists>s' ms. server_ok s' \<and> handle0 g m s = Some (Inr (ms, s')) \<and>
    (if mail_type m = ACQUIRE then
       i \<in> used (lock_table s') \<and>
       (if holder s i = Some (sender m) \<or> slstate (lock_of s i) = FREE
        then ms = [reply s (- 1) (sender m)] \<and> holder s' i = Some (sender m) \<and> waiters s' i = waiters s i
        else ms = [] \<and> holder s' i = holder s i \<and> waiters s' i = waiters s i @ [sender m])
     else if holder s i \<noteq> Some (sender m) then
       ms = [reply s (- 1) (sender m)] \<and>
       (i \<in> used (lock_table s') \<longrightarrow> holder s' i = holder s i \<and> waiters s' i = waiters s i)
     else (case waiters s i of
       [] \<Rightarrow> ms = [reply s (- 1) (sender m)] \<and>
         (i \<in> used (lock_table s') \<longrightarrow> holder s' i = None \<and> waiters s' i = [])
     | c # cs \<Rightarrow> ms = [reply s (- 1) (sender m), reply s (- 1) c] \<and> i \<in> used (lock_table s') \<and>
         holder s' i = Some c \<and> waiters s' i = cs))"
proof (cases "mail_type m = ACQUIRE")
  case True
  then show ?thesis using acquire_messages [OF assms(1) True, of g] by (auto split: if_splits)
next
  case False
  then have r: "mail_type m = RELEASE" using assms(2) by simp
  obtain s' ms where "server_ok s'" "handle0 g m s = Some (Inr (reply s (- 1) (sender m) # ms, s'))"
    and e: "if holder s i \<noteq> Some (sender m)
     then ms = [] \<and> (holder s i \<noteq> None \<longrightarrow> i \<in> used (lock_table s')) \<and> (i \<in> used (lock_table s') \<longrightarrow> lock_of s' i = lock_of s i)
     else case waiters s i of
       [] \<Rightarrow> ms = [] \<and> (i \<in> used (lock_table s') \<longrightarrow> holder s' i = None \<and> waiters s' i = [])
     | c # cs \<Rightarrow> ms = [reply s (- 1) c] \<and> i \<in> used (lock_table s') \<and> holder s' i = Some c \<and> waiters s' i = cs"
    using release_messages [OF assms(1) r, of g] by blast
  then show ?thesis using False
    by (intro exI [of _ s'] exI [of _ "reply s (- 1) (sender m) # ms"])
      (auto simp: holder_def waiters_def split: list.splits if_splits)
qed

text \<open>A server with one free lock, at slot 0, and one with a condition variable beside it.\<close>

lemma sample_table:
  "\<exists>t. ServerCreateLock g [65, 0] empty_table = Inr (0, t) \<and> wf_locks t \<and> slots t = [0 \<mapsto> fresh_lock [65, 0]]"
proof -
  have e: "wf_locks empty_table" "used (empty_table :: ServerLockEntry table) = {}"
    "slots (empty_table :: ServerLockEntry table) = Map.empty"
    by (simp_all add: empty_table_def wf_table_def wf_map_def slots_def used_def)
  then have "slot_of lock_name empty_table (cstr [65, 0]) = None" by (simp add: slot_of_None [OF e(1)])
  moreover obtain k t where "ServerCreateLock g [65, 0] empty_table = Inr (k, t)" "wf_locks t"
    "created lock_name (cstr [65, 0]) (fresh_lock [65, 0]) empty_table k t"
    using ServerCreateLock_ok [OF e(1), of "[65, 0]" g] by (auto simp: terminated_def)
  moreover from calculation have "0 \<le> k" "{0..<k} = {}" "slots t = [k \<mapsto> fresh_lock [65, 0]]"
    using e by (auto simp: created_def)
  moreover from calculation have "k = 0" by simp
  ultimately show ?thesis by auto
qed

lemma sample_lock:
  "\<exists>t. for_lock (msg ACQUIRE 5 1 0 0) (start_server 0 1\<lparr>lock_table := t\<rparr>) 0 \<and>
     slstate (lock_of (start_server 0 1\<lparr>lock_table := t\<rparr>) 0) = FREE"
proof -
  obtain t where t: "wf_locks t" "slots t = [0 \<mapsto> fresh_lock [65, 0]]" using sample_table by blast
  have "0 \<in> used t" using arg_cong [OF t(2), of dom] by simp
  moreover have "slots t 0 = Some (fresh_lock [65, 0])" unfolding t(2) by simp
  then have "at t 0 = fresh_lock [65, 0]" by simp
  ultimately show ?thesis using server_ok_upd(1) [OF start_server_ok t(1), of 0 1]
    by (intro exI [of _ t]) (simp add: for_lock_def numBoxes_def decodeMachineID_def quot_def
        decodeIndex_def lock_of_def fresh_lock_def new_ServerLock_def)
qed

theorem lock_messages_witness:
  "\<exists>s s'. handle0 (\<lambda>_. 0) (msg ACQUIRE 5 1 0 0) s = Some (Inr ([reply s (- 1) (5, 1)], s')) \<and>
     holder s' 0 = Some (5, 1)"
proof -
  obtain s where s: "for_lock (msg ACQUIRE 5 1 0 0) s 0" "slstate (lock_of s 0) = FREE"
    using sample_lock by blast
  have "mail_type (msg ACQUIRE 5 1 0 0) = ACQUIRE" by (simp add: mail_type_msg message_types)
  moreover have "sender (msg ACQUIRE 5 1 0 0) = (5, 1)" by (simp add: sender_def msg_def)
  ultimately show ?thesis using lock_messages [OF s(1), of "\<lambda>_. 0"] s(2) by auto
qed

text \<open>
  destroying a lock forgets the clients that wait for it. DESTROY_LOCK removes a lock at once
  unless it is busy with an acquire count of 0 (the condition in the code is the wrong way round): the lock is gone
  also when a client holds it and others wait, no message is sent to any of them, and what the
  holder and the others send from then on for this lock is answered as for a lock that does not exist.
\<close>

lemma destroy_strands_waiters:
  assumes "for_lock m s i" "mail_type m = DESTROY_LOCK"
    and "slstate (lock_of s i) = FREE \<or> acquireCount (at (lock_table s) i) \<noteq> 0"
  shows "\<exists>s'. handle0 g m s = Some (Inr ([], s')) \<and> server_ok s' \<and> i \<notin> used (lock_table s') \<and>
    ServerAcquire mid mb i (lock_table s') = Inr (None, lock_table s') \<and>
    ServerRelease mid mb i (lock_table s') = Inr (None, lock_table s')"
proof -
  have f: "server_ok s" "wf_mail m" "i \<in> used (lock_table s)"
    using assms(1) by (simp_all add: for_lock_def)
  note w = table_parts(1) [OF f(1)]
  obtain L t' where L: "lockp (at (lock_table s) i) = Some L" "ServerDestroyLock i (lock_table s) = Inr t'"
    "wf_locks t'" "slots t' = (slots (lock_table s))(i := if slstate L = BUSY \<and> acquireCount (at (lock_table s) i) = 0
         then Some ((at (lock_table s) i)\<lparr>lk_isToBeDeleted := True\<rparr>) else None)"
    using ServerDestroyLock_ok [OF w, of i, unfolded if_P [OF f(3)]] by blast
  have "slstate L \<noteq> BUSY \<or> acquireCount (at (lock_table s) i) \<noteq> 0"
    using assms(3) L(1) by (auto simp: lock_of_def)
  then have "slots t' i = None" using L(4) by auto
  then have u: "i \<notin> used t'" by (auto simp: slots_def split: if_splits)
  have "handle0 g m s = Some (Inr ([], s\<lparr>lock_table := t'\<rparr>))"
    using assms(1,2) L(2) by (simp add: handle0_def dispatch0_lock_ops on_DESTROY_LOCK_def for_lock_def flush_def)
  moreover have "ServerAcquire mid mb i t' = Inr (None, t')" "ServerRelease mid mb i t' = Inr (None, t')"
    using u L(3) by (simp_all add: ServerAcquire_def ServerRelease_def)
  ultimately show ?thesis using u server_ok_upd(1) [OF f(1) L(3)]
    by (intro exI [of _ "s\<lparr>lock_table := t'\<rparr>"]) simp
qed

lemma destroy_strands_waiters_example:
  "\<exists>s s'. for_lock (msg DESTROY_LOCK 5 1 0 0) s 0 \<and>
     handle0 (\<lambda>_. 0) (msg DESTROY_LOCK 5 1 0 0) s = Some (Inr ([], s')) \<and> 0 \<notin> used (lock_table s')"
proof -
  obtain s where s: "for_lock (msg ACQUIRE 5 1 0 0) s 0" "slstate (lock_of s 0) = FREE"
    using sample_lock by blast
  then have "for_lock (msg DESTROY_LOCK 5 1 0 0) s 0" by (simp add: for_lock_def)
  moreover have "mail_type (msg DESTROY_LOCK 5 1 0 0) = DESTROY_LOCK" by (simp add: mail_type_msg message_types)
  ultimately show ?thesis using destroy_strands_waiters [of "msg DESTROY_LOCK 5 1 0 0" s 0 "\<lambda>_. 0"] s(2) by blast
qed

section \<open>Waiting\<close>

text \<open>A message as it arrives in the receiver's buffer, which held \<open>pad\<close> behind it.\<close>

definition delivered :: "u8 list \<Rightarrow> mail \<Rightarrow> mail" where
  "delivered pad m = m\<lparr>mdata := mdata m @ pad\<rparr>"

lemma delivered_sel [simp]:
  "pkt_from (delivered pad m) = pkt_from m" "mail_from (delivered pad m) = mail_from m"
  "mail_len (delivered pad m) = mail_len m" "mdata (delivered pad m) = mdata m @ pad"
  by (simp_all add: delivered_def)

text \<open>The answer of the machine with the lock says that the client has it, for the first waiting request.\<close>

definition lock_confirmed :: "mail \<Rightarrow> server \<Rightarrow> CVLockTracker \<Rightarrow> bool" where
  "lock_confirmed m s e \<longleftrightarrow> mail_type m = CV_LOCK_TRACKER_RESPONSE \<and> char_at (mdata m) 13 \<noteq> 0 \<and>
     (\<exists>es. cvLockTrackerList s = e # es) \<and> tracker_match (int_at m 1) (int_at m 5) (int_at m 9) e \<and>
     decodeMachineID (cvNum e) = myMachineID s \<and> decodeIndex s (cvNum e) \<in> used (cond_table s)"

text \<open>Who waits on a condition variable of the machine.\<close>

definition cond_waiters :: "server \<Rightarrow> int \<Rightarrow> client list" where
  "cond_waiters s c = map client_of (scqueue (cond_of s c))"

text \<open>
  \<open>ServerWait\<close> puts the client at the end of the queue, if the variable waits with this lock or with none yet;
  with another lock it does not, and a variable that was destroyed and has no waiters is then deleted.
\<close>

lemma ServerWait_queues:
  assumes "wf_conds (cond_table s)" "0 \<le> mb" "mb < numBoxes" "i \<in> used (cond_table s)"
    and "ServerWait mid mb i l (cond_table s) = Inr t"
  shows "(\<forall>j. j \<noteq> i \<longrightarrow> slots t j = slots (cond_table s) j) \<and>
    (if scwaiting (cond_of s i) \<in> {- 1, l}
     then i \<in> used t \<and> cond_waiters (s\<lparr>cond_table := t\<rparr>) i = cond_waiters s i @ [(mid, mb)] \<and>
       scwaiting (cond_of (s\<lparr>cond_table := t\<rparr>) i) = l
     else i \<in> used t \<longrightarrow> cond_of (s\<lparr>cond_table := t\<rparr>) i = cond_of s i)"
proof -
  let ?t = "cond_table s"
  have r: "set_up ?t" "0 \<le> i" "i < 500" using wf_table_set_up [OF assms(1,4)] by auto
  obtain C where C: "cond_at ?t i = Inr (at ?t i, C)" "condp (at ?t i) = Some C" "cond_wf C"
    using cond_at_ok [OF assms(1,4)] by blast
  obtain cr C' where a: "sc_Wait l (new_ClientRequest mid mb) C = (cr, C')" by fastforce
  note w = sc_Wait_wf [OF C(3) _ a]
  let ?e = "(at ?t i)\<lparr>condp := Some C'\<rparr>"
  have "cond_name ?e = cond_name (at ?t i)" "cond_entry_wf ?e"
    using w C assms(2,3) by (simp_all add: cond_name_def cond_entry_wf_def good_client_def new_ClientRequest_def)
  then obtain t1 where t1: "slot_set ?t i ?e = Inr t1" "wf_conds t1" "slots t1 = (slots ?t)(i \<mapsto> ?e)"
    using slot_update [OF assms(1,4)] by blast
  have u: "i \<in> used t1" using arg_cong [OF t1(3), of dom] by simp
  obtain t2 where t2: "delete_cond t1 i ?e = Inr t2" "wf_conds t2" "slots t2 = (slots t1)(i := None)"
    using delete_cond_ok [OF t1(2) u] by blast
  have t: "t = (if cv_isToBeDeleted (at ?t i) \<and> \<not> sc_hasWaiting C' then t2 else t1)"
    using assms(5) r slot_test_set_up [OF r] assms(4) C(1) a t1(1) t2(1) by (auto simp: ServerWait_def Let_def split: if_splits)
  have e: "at t1 i = ?e" using u arg_cong [OF t1(3), of "\<lambda>f. f i"] by (simp add: slots_def)
  have n: "i \<notin> used t2" using arg_cong [OF t2(3), of dom] by simp
  have q: "C' = (if scwaiting C \<in> {- 1, l} then C\<lparr>scwaiting := l, scqueue := scqueue C @ [new_ClientRequest mid mb]\<rparr> else C)"
    using a by (auto simp: sc_Wait_def Let_def list_append_def split: if_splits)
  have "\<forall>j. j \<noteq> i \<longrightarrow> slots t j = slots ?t j" using t t1(3) t2(3) by (simp split: if_splits)
  moreover have "cond_of s i = C" using C(2) by (simp add: cond_of_def)
  moreover have "cond_of (s\<lparr>cond_table := t1\<rparr>) i = C'" using e by (simp add: cond_of_def)
  ultimately show ?thesis
    using t u n q by (auto simp: cond_waiters_def client_of_def new_ClientRequest_def sc_hasWaiting_def split: if_splits)
qed

lemma busy_when_held:
  assumes "server_ok s" "i \<in> used (lock_table s)" "holder s i = Some c"
  shows "slstate (lock_of s i) \<noteq> FREE"
proof -
  obtain L where "lockp (at (lock_table s) i) = Some L" "lock_wf L"
    using lock_at_ok [OF table_parts(1) [OF assms(1)] assms(2)] by blast
  then show ?thesis using assms(3) by (auto simp: lock_of_def holder_def lock_wf_def)
qed

text \<open>
  C16: a WAIT with the lock on another machine does not release the lock. When that machine has
  confirmed that the client holds the lock, the condition variable's server puts the client at the end of the
  variable's queue (unless the variable is in use with another lock: then it does not even do that) and changes
  no other variable. It sends one message, a RELEASE that names the client's lock, but in its own name (mailbox 0 of
  the server) and not in the client's. The lock's server, if the holder is the client, therefore leaves
  holder and queue as they are and answers the other server; and the next ACQUIRE of any other client is put into
  the queue of the lock and not answered.
\<close>

theorem remote_WAIT_keeps_lock:
  assumes "server_ok s" "lock_confirmed m s e" "messageType e = WAIT"
    and "0 \<le> int_at m 5" "int_at m 5 < numBoxes"
    and "c = decodeIndex s (cvNum e)" "client = (int_at m 1, int_at m 5)"
  shows "\<exists>x s'. handle0 g m s = Some (Inr ([x], s')) \<and> server_ok s' \<and>
    (\<forall>j. j \<noteq> c \<longrightarrow> slots (cond_table s') j = slots (cond_table s) j) \<and>
    (if scwaiting (cond_of s c) \<in> {- 1, int_at m 9}
     then c \<in> used (cond_table s') \<and> cond_waiters s' c = cond_waiters s c @ [client] \<and>
       scwaiting (cond_of s' c) = int_at m 9
     else c \<in> used (cond_table s') \<longrightarrow> cond_waiters s' c = cond_waiters s c) \<and>
    sender x = (myMachineID s, 0) \<and> pkt_to x = decodeMachineID (int_at m 9) \<and> mail_to x = 0 \<and>
    mail_len x = 5 \<and> mdata x = word_of_int RELEASE # compressInt (int_at m 9) \<and>
    (\<forall>pad. mail_type (delivered pad x) = RELEASE \<and> int_at (delivered pad x) 1 = int_at m 9 \<and>
       (\<forall>s2 i. for_lock (delivered pad x) s2 i \<and> holder s2 i = Some client \<and> client \<noteq> (myMachineID s, 0) \<longrightarrow>
         (\<exists>s2'. handle0 g (delivered pad x) s2 = Some (Inr ([reply s2 (- 1) (myMachineID s, 0)], s2')) \<and>
           i \<in> used (lock_table s2') \<and> holder s2' i = Some client \<and> waiters s2' i = waiters s2 i \<and>
           (\<forall>m3. wf_mail m3 \<and> mail_type m3 = ACQUIRE \<and> int_at m3 1 = int_at m 9 \<and> sender m3 \<noteq> client \<longrightarrow>
             (\<exists>s3. handle0 g m3 s2' = Some (Inr ([], s3)) \<and> holder s3 i = Some client \<and>
               waiters s3 i = waiters s2 i @ [sender m3])))))"
proof -
  let ?mid = "int_at m 1" and ?mbx = "int_at m 5" and ?ln = "int_at m 9"
  obtain es where es: "cvLockTrackerList s = e # es" using assms(2) by (auto simp: lock_confirmed_def)
  have c: "tracker_match ?mid ?mbx ?ln e" "decodeMachineID (cvNum e) = myMachineID s"
    "c \<in> used (cond_table s)" "mail_type m = CV_LOCK_TRACKER_RESPONSE"
    "char_at (mdata m) 13 \<noteq> 0"
    using assms(2) by (auto simp: lock_confirmed_def assms(6))
  obtain t where t: "ServerWait ?mid ?mbx c ?ln (cond_table s) = Inr t" "wf_conds t"
    using ServerWait_ok [OF table_parts(2) [OF assms(1)] assms(4,5) c(3)] by blast
  note q = ServerWait_queues [OF table_parts(2) [OF assms(1)] assms(4,5) c(3) t(1)]
  let ?x = "\<lparr>pkt_to = decodeMachineID ?ln, pkt_from = myMachineID s, mail_to = 0, mail_from = 0, mail_len = 5,
    mdata = word_of_int RELEASE # compressInt ?ln\<rparr>"
  let ?s = "s\<lparr>cvLockTrackerList := es, cond_table := t\<rparr>"
  have d: "decodeIndex (s\<lparr>cvLockTrackerList := es\<rparr>) (cvNum e) = c"
    by (simp add: decodeIndex_def assms(6))
  have h: "handle0 g m s = Some (Inr ([?x], ?s))"
    using c es t assms(3) by (simp add: handle0_def dispatch0_lock_ops on_CV_LOCK_TRACKER_RESPONSE_def Let_def
        tracked_operation_def sendMessageWithData_ok flush_def d message_types)
  have ok: "server_ok ?s" using server_ok_upd(2,4) assms(1) t(2) by auto
  have r: "mail_type (delivered pad ?x) = RELEASE" for pad
    by (simp add: mail_type_def char_at_def RELEASE_def)
  have ln: "- (2 ^ 31) \<le> ?ln" "?ln < 2 ^ 31"
    using sint_ge [where ?'a = 32] sint_lt [where ?'a = 32] by (simp_all add: int_at_def extractInt_def Let_def)
  have n: "int_at (delivered pad ?x) 1 = ?ln" for pad
    using extractInt_compressInt [OF ln] by (simp add: int_at_def [of "delivered pad ?x"])
  have rel: "\<exists>s2'. handle0 g (delivered pad ?x) s2 = Some (Inr ([reply s2 (- 1) (myMachineID s, 0)], s2')) \<and>
      i \<in> used (lock_table s2') \<and> holder s2' i = Some client \<and> waiters s2' i = waiters s2 i \<and>
      (\<forall>m3. wf_mail m3 \<and> mail_type m3 = ACQUIRE \<and> int_at m3 1 = ?ln \<and> sender m3 \<noteq> client \<longrightarrow>
         (\<exists>s3. handle0 g m3 s2' = Some (Inr ([], s3)) \<and> holder s3 i = Some client \<and> waiters s3 i = waiters s2 i @ [sender m3]))"
    if f: "for_lock (delivered pad ?x) s2 i" "holder s2 i = Some client" "client \<noteq> (myMachineID s, 0)" for pad s2 i
  proof -
    have sd: "sender (delivered pad ?x) = (myMachineID s, 0)" by (simp add: sender_def)
    obtain s2' where s2': "handle0 g (delivered pad ?x) s2 = Some (Inr ([reply s2 (- 1) (myMachineID s, 0)], s2'))"
      "server_ok s2'" "necessaryResponses s2' = []" "myMachineID s2' = myMachineID s2" "i \<in> used (lock_table s2')"
      "lock_of s2' i = lock_of s2 i"
      using release_messages [OF f(1) r, of g] f(2,3) unfolding sd by auto
    then have hd: "holder s2' i = Some client" "waiters s2' i = waiters s2 i"
      using f(2) by (simp_all add: holder_def waiters_def)
    have "\<exists>s3. handle0 g m3 s2' = Some (Inr ([], s3)) \<and> holder s3 i = Some client \<and> waiters s3 i = waiters s2 i @ [sender m3]"
      if m3: "wf_mail m3" "mail_type m3 = ACQUIRE" "int_at m3 1 = ?ln" "sender m3 \<noteq> client" for m3
    proof -
      have "for_lock m3 s2' i"
        using f(1) s2'(2-5) m3(1,3) n [of pad] by (simp add: for_lock_def decodeIndex_def)
      then show ?thesis
        using acquire_messages [OF _ m3(2), of s2' i g] busy_when_held [OF s2'(2,5) hd(1)] hd m3(4) by auto
    qed
    with s2'(1,5) hd show ?thesis by blast
  qed
  have w: "cond_of (s\<lparr>cvLockTrackerList := es, cond_table := t\<rparr>) c = cond_of (s\<lparr>cond_table := t\<rparr>) c"
    by (simp add: cond_of_def)
  show ?thesis
    using q h ok r n rel w
    by (intro exI [of _ ?x] exI [of _ ?s]) (auto simp: sender_def cond_waiters_def assms(7) split: if_splits)
qed

lemma sample_cond: "\<exists>t. wf_conds t \<and> slots t = [0 \<mapsto> fresh_cond [66, 0]]"
proof -
  have e: "wf_conds empty_table" "used (empty_table :: ServerConditionEntry table) = {}"
    "slots (empty_table :: ServerConditionEntry table) = Map.empty"
    by (simp_all add: empty_table_def wf_table_def wf_map_def slots_def used_def)
  then have "slot_of cond_name empty_table (cstr [66, 0]) = None" by (simp add: slot_of_None [OF e(1)])
  moreover obtain k t where t: "wf_conds t" "created cond_name (cstr [66, 0]) (fresh_cond [66, 0]) empty_table k t"
    using ServerCreateCV_ok [OF e(1), of "[66, 0]" "\<lambda>_. 0"] by (auto simp: terminated_def)
  ultimately have k: "0 \<le> k" "{0..<k} = {}" "slots t = [k \<mapsto> fresh_cond [66, 0]]"
    using e by (auto simp: created_def)
  then have "k = 0" by simp
  with t(1) k(3) show ?thesis by blast
qed

text \<open>A server of machine 1 whose lock 0 is held by mailbox 1 of machine 5.\<close>

lemma sample_held:
  "\<exists>s. server_ok s \<and> necessaryResponses s = [] \<and> myMachineID s = 1 \<and> 0 \<in> used (lock_table s) \<and> holder s 0 = Some (5, 1) \<and> waiters s 0 = []"
proof -
  obtain t where t: "wf_locks t" "slots t = [0 \<mapsto> fresh_lock [65, 0]]" using sample_table by blast
  have u: "0 \<in> used t" using arg_cong [OF t(2), of dom] by simp
  have "slots t 0 = Some (fresh_lock [65, 0])" unfolding t(2) by simp
  then have a: "at t 0 = fresh_lock [65, 0]" by simp
  let ?L = "(new_ServerLock [65, 0])\<lparr>slstate := BUSY, currentClientRequest := Some (new_ClientRequest 5 1)\<rparr>"
  let ?e = "(at t 0)\<lparr>lockp := Some ?L\<rparr>"
  have "lock_name ?e = lock_name (at t 0)" "lock_entry_wf ?e"
    by (simp_all add: a lock_name_def fresh_lock_def new_ServerLock_def lock_entry_wf_def lock_wf_def)
  then obtain t1 where t1: "wf_locks t1" "slots t1 = (slots t)(0 \<mapsto> ?e)" using slot_update [OF t(1) u] by blast
  have u1: "0 \<in> used t1" using arg_cong [OF t1(2), of dom] by simp
  have "slots (lock_table (start_server 1 2\<lparr>lock_table := t1\<rparr>)) 0 = Some ?e" using t1(2) by simp
  then have "lock_of (start_server 1 2\<lparr>lock_table := t1\<rparr>) 0 = ?L" by (rule lock_of_slots) simp
  then show ?thesis
    using server_ok_upd(1) [OF start_server_ok t1(1), of 1 2] u1
    by (intro exI [of _ "start_server 1 2\<lparr>lock_table := t1\<rparr>"])
      (simp add: holder_def waiters_def new_ServerLock_def client_of_def new_ClientRequest_def)
qed

definition confirmation :: mail where
  "confirmation = \<lparr>pkt_to = 0, pkt_from = 1, mail_to = 0, mail_from = 0, mail_len = 14,
     mdata = 65 # compressInt 5 @ compressInt 1 @ compressInt 500 @ [1] @ replicate 26 0\<rparr>"

text \<open>
  Machine 1 has confirmed that client (5, 1) holds its lock 0; the client is queued at machine 0, and machine 1
  goes on to let nobody else have the lock: client (6, 1) is queued behind it.
\<close>

theorem remote_WAIT_keeps_lock_witness:
  "\<exists>s x s' s2 s2' s3. handle0 (\<lambda>_. 0) confirmation s = Some (Inr ([x], s')) \<and> sender x = (0, 0) \<and> pkt_to x = 1 \<and>
     cond_waiters s 0 = [] \<and> cond_waiters s' 0 = [(5, 1)] \<and>
     mail_type (delivered (replicate 35 0) x) = RELEASE \<and> int_at (delivered (replicate 35 0) x) 1 = 500 \<and>
     holder s2 0 = Some (5, 1) \<and> handle0 (\<lambda>_. 0) (delivered (replicate 35 0) x) s2 = Some (Inr ([reply s2 (- 1) (0, 0)], s2')) \<and>
     holder s2' 0 = Some (5, 1) \<and>
     handle0 (\<lambda>_. 0) (msg ACQUIRE 6 1 500 0) s2' = Some (Inr ([], s3)) \<and> holder s3 0 = Some (5, 1) \<and> waiters s3 0 = [(6, 1)]"
proof -
  obtain t where t: "wf_conds t" "slots t = [0 \<mapsto> fresh_cond [66, 0]]" using sample_cond by blast
  have u: "0 \<in> used t" using arg_cong [OF t(2), of dom] by simp
  have "slots t 0 = Some (fresh_cond [66, 0])" unfolding t(2) by simp
  then have at: "at t 0 = fresh_cond [66, 0]" by simp
  let ?e = "\<lparr>clientMachineID = 5, clientMailbox = 1, cvNum = 0, lockNum = 500, messageType = WAIT\<rparr>"
  let ?s = "start_server 0 2\<lparr>cond_table := t, cvLockTrackerList := [?e]\<rparr>"
  have ok: "server_ok ?s" using server_ok_upd(2,4) [OF start_server_ok] t(1) server_ok_upd(4) by blast
  have i: "int_at confirmation 1 = 5" "int_at confirmation 5 = 1" "int_at confirmation 9 = 500"
    by (simp_all add: int_at_def confirmation_def extractInt_compressInt)
  have d: "decodeMachineID 0 = 0" "decodeMachineID 500 = 1" "decodeIndex ?s 0 = 0"
    by (simp_all add: decodeMachineID_def quot_def MAX_SERVER_def decodeIndex_def)
  have "mail_type confirmation = CV_LOCK_TRACKER_RESPONSE" "char_at (mdata confirmation) 13 \<noteq> 0"
    by (simp_all add: mail_type_def char_at_def confirmation_def CV_LOCK_TRACKER_RESPONSE_def nth_append)
  then have lc: "lock_confirmed confirmation ?s ?e"
    using i d u by (simp add: lock_confirmed_def tracker_match_def)
  have c: "scwaiting (cond_of ?s 0) = - 1" "cond_waiters ?s 0 = []"
    by (simp_all add: cond_of_def cond_waiters_def at fresh_cond_def new_ServerCondition_def)
  obtain s2 where s2: "server_ok s2" "necessaryResponses s2 = []" "myMachineID s2 = 1" "0 \<in> used (lock_table s2)"
    "holder s2 0 = Some (5, 1)" "waiters s2 0 = []" using sample_held by blast
  obtain x s' where x: "handle0 (\<lambda>_. 0) confirmation ?s = Some (Inr ([x], s'))" "sender x = (0, 0)" "pkt_to x = 1"
    "cond_waiters s' 0 = [(5, 1)]" "mail_len x = 5" "mdata x = word_of_int RELEASE # compressInt 500" and r: "\<And>pad. mail_type (delivered pad x) = RELEASE \<and> int_at (delivered pad x) 1 = 500 \<and>
       (\<forall>s2 i. for_lock (delivered pad x) s2 i \<and> holder s2 i = Some (5, 1) \<longrightarrow>
         (\<exists>s2'. handle0 (\<lambda>_. 0) (delivered pad x) s2 = Some (Inr ([reply s2 (- 1) (0, 0)], s2')) \<and>
           i \<in> used (lock_table s2') \<and> holder s2' i = Some (5, 1) \<and> waiters s2' i = waiters s2 i \<and>
           (\<forall>m3. wf_mail m3 \<and> mail_type m3 = ACQUIRE \<and> int_at m3 1 = 500 \<and> sender m3 \<noteq> (5, 1) \<longrightarrow>
             (\<exists>s3. handle0 (\<lambda>_. 0) m3 s2' = Some (Inr ([], s3)) \<and> holder s3 i = Some (5, 1) \<and>
               waiters s3 i = waiters s2 i @ [sender m3]))))"
    using remote_WAIT_keeps_lock [OF ok lc, of 0 "(5, 1)" "\<lambda>_. 0"] i d c by (auto simp: numBoxes_def)
  have l: "pkt_from x = 0" "mail_from x = 0" using x(2) by (simp_all add: sender_def)
  have "wf_mail (delivered (replicate 35 0) x)"
    using l x(5,6) by (simp add: wf_mail_def compressInt_def Let_def numBoxes_def)
  then have f: "for_lock (delivered (replicate 35 0) x) s2 0"
    using s2 r [of "replicate 35 0"] d by (simp add: for_lock_def decodeIndex_def MAX_SERVER_def)
  have m3: "wf_mail (msg ACQUIRE 6 1 500 0)" "mail_type (msg ACQUIRE 6 1 500 0) = ACQUIRE" "int_at (msg ACQUIRE 6 1 500 0) 1 = 500"
    by (simp_all add: numBoxes_def mail_type_msg message_types)
  have sd: "sender (msg ACQUIRE 6 1 500 0) = (6, 1)" by (simp add: sender_def msg_def)
  note R = r [of "replicate 35 0"]
  obtain s2' where s2': "handle0 (\<lambda>_. 0) (delivered (replicate 35 0) x) s2 = Some (Inr ([reply s2 (- 1) (0, 0)], s2'))"
    "holder s2' 0 = Some (5, 1)" and q: "\<forall>m3. wf_mail m3 \<and> mail_type m3 = ACQUIRE \<and> int_at m3 1 = 500 \<and> sender m3 \<noteq> (5, 1) \<longrightarrow>
      (\<exists>s3. handle0 (\<lambda>_. 0) m3 s2' = Some (Inr ([], s3)) \<and> holder s3 0 = Some (5, 1) \<and> waiters s3 0 = waiters s2 0 @ [sender m3])"
    using R f s2(5) by blast
  have "sender (msg ACQUIRE 6 1 500 0) \<noteq> (5, 1)" unfolding sd by simp
  then obtain s3 where s3: "handle0 (\<lambda>_. 0) (msg ACQUIRE 6 1 500 0) s2' = Some (Inr ([], s3))" "holder s3 0 = Some (5, 1)"
    "waiters s3 0 = [(6, 1)]"
    using q [rule_format, of "msg ACQUIRE 6 1 500 0"] m3 s2(6) unfolding sd by auto
  show ?thesis
    using x(1-4) c(2) R s2(5) s2' s3
    by (intro exI [of _ ?s] exI [of _ x] exI [of _ s'] exI [of _ s2] exI [of _ s2'] exI [of _ s3] conjI) simp_all
qed

text \<open>
  requests that bring a server down. Until the first condition variable is created, a WAIT or
  BROADCAST for a lock of the server makes it follow a null pointer, whatever variable of that machine it names (\<open>ServerWait\<close> and
  \<open>ServerBroadcast\<close> lack the check of the table's size that every other operation has); and a message
  of an unknown type to mailbox 1 makes it act on an uninitialised variable.
\<close>

lemma server_crashes:
  assumes "server_ok s" "wf_mail m"
  shows "(mail_type m \<in> {WAIT, BROADCAST} \<and> tsize (cond_table s) = 0 \<and>
      decodeMachineID (int_at m 5) = myMachineID s \<and> decodeIndex s (int_at m 5) \<in> used (lock_table s) \<and>
      decodeMachineID (int_at m 1) = myMachineID s \<and> 0 \<le> decodeIndex s (int_at m 1) \<longrightarrow>
      handle0 g m s = Some (Inl NullPointer)) \<and>
    (mail_type m < 65 \<longrightarrow> handle1 g m s = Inl Uninitialised)"
proof (intro conjI impI)
  assume a: "mail_type m \<in> {WAIT, BROADCAST} \<and> tsize (cond_table s) = 0 \<and>
      decodeMachineID (int_at m 5) = myMachineID s \<and> decodeIndex s (int_at m 5) \<in> used (lock_table s) \<and>
      decodeMachineID (int_at m 1) = myMachineID s \<and> 0 \<le> decodeIndex s (int_at m 1)"
  have "tbits (cond_table s) = None"
    using table_parts(2) [OF assms(1)] a by (auto simp: wf_table_def set_up_def MAX_SERVER_def)
  then have n: "slot_test (cond_table s) i = Inl NullPointer" for i by (simp add: slot_test_def)
  have b: "dispatch0 g m s = on_BROADCAST m s" if "mail_type m = BROADCAST"
    using that by (simp add: dispatch0_def mail_type_def [symmetric] message_types)
  show "handle0 g m s = Some (Inl NullPointer)"
    using a n b table_parts(1) [OF assms(1)]
    by (auto simp: handle0_def dispatch0_lock_ops on_WAIT_def on_BROADCAST_def Let_def ServerWait_def
        ServerBroadcast_def)
next
  assume "mail_type m < 65"
  then show "handle1 g m s = Inl Uninitialised"
    by (simp add: handle1_def dispatch1_def mail_type_def [symmetric] Let_def message_types
        peer_types)
qed

lemma server_crashes_example:
  "\<exists>s. server_ok s \<and> handle0 (\<lambda>_. 0) (msg WAIT 5 1 0 0) s = Some (Inl NullPointer)"
proof -
  obtain t where t: "for_lock (msg ACQUIRE 5 1 0 0) (start_server 0 1\<lparr>lock_table := t\<rparr>) 0"
    using sample_lock by blast
  let ?s = "start_server 0 1\<lparr>lock_table := t\<rparr>"
  have ok: "server_ok ?s" "0 \<in> used t" using t by (simp_all add: for_lock_def)
  have "decodeMachineID 0 = 0" "decodeIndex ?s 0 = 0" "tsize (cond_table ?s) = 0"
    by (simp_all add: decodeMachineID_def quot_def decodeIndex_def empty_table_def)
  moreover have "mail_type (msg WAIT 5 1 0 0) = WAIT" by (simp add: mail_type_msg message_types)
  moreover have "wf_mail (msg WAIT 5 1 0 0)" by (simp add: numBoxes_def)
  ultimately have "handle0 (\<lambda>_. 0) (msg WAIT 5 1 0 0) ?s = Some (Inl NullPointer)"
    using server_crashes [OF ok(1), of "msg WAIT 5 1 0 0" "\<lambda>_. 0"] ok(2) by simp
  with ok(1) show ?thesis by blast
qed

section \<open>Monitor variables\<close>

text \<open>
  Monitor variables are memory. After a SET_MV of an entry that exists, answered at once, a
  GET_MV from any client returns the value set if it names the same entry of the same array, and
  otherwise what the entry held before; an entry that does not exist reads as -1 and a SET_MV to it changes nothing.
\<close>

lemma GET_MV_after_SET_MV:
  assumes "server_ok s" "necessaryResponses s = []" "wf_mail m1" "wf_mail m2"
    and "mail_type m1 = SET_MV" "mail_type m2 = GET_MV"
    and "decodeMachineID (int_at m1 1) = myMachineID s" "decodeMachineID (int_at m2 1) = myMachineID s"
  defines "val \<equiv> \<lambda>i k. case slots (mv_table s) i of
      Some e \<Rightarrow> if 0 \<le> k \<and> k < numEntries e then the (mvEntries e) ! nat k else - 1 | None \<Rightarrow> - 1"
    and "exists \<equiv> \<lambda>i k. \<exists>e. slots (mv_table s) i = Some e \<and> 0 \<le> k \<and> k < numEntries e"
    and "i1 \<equiv> decodeIndex s (int_at m1 1)" and "i2 \<equiv> decodeIndex s (int_at m2 1)"
  shows "\<exists>s1 s2. handle0 g m1 s = Some (Inr ([reply s (- 1) (sender m1)], s1)) \<and>
    handle0 g m2 s1 = Some (Inr ([reply s (if i1 = i2 \<and> int_at m1 5 = int_at m2 5 \<and> exists i1 (int_at m1 5)
      then int_at m1 9 else val i2 (int_at m2 5)) (sender m2)], s2))"
proof -
  note w = table_parts(3) [OF assms(1)]
  let ?k1 = "int_at m1 5" and ?k2 = "int_at m2 5" and ?v = "int_at m1 9"
  obtain t where t: "ServerSetMV i1 ?k1 ?v (mv_table s) = Inr t" "wf_mvs t"
    "slots t = (case slots (mv_table s) i1 of
     Some e \<Rightarrow> if 0 \<le> ?k1 \<and> ?k1 < numEntries e
       then (slots (mv_table s))(i1 \<mapsto> e\<lparr>mvEntries := Some ((the (mvEntries e))[nat ?k1 := ?v])\<rparr>) else slots (mv_table s)
     | None \<Rightarrow> slots (mv_table s))"
    using ServerSetMV_ok [OF w, of i1 ?k1 ?v] by blast
  let ?s1 = "s\<lparr>mv_table := t\<rparr>"
  have r: "reply ?s1 = reply s" for d by (simp add: fun_eq_iff reply_def)
  have h1: "handle0 g m1 s = Some (Inr ([reply s (- 1) (sender m1)], ?s1))"
    using assms(2,3,5,7) t(1) i1_def mailbox_range [OF assms(3)]
    by (simp add: handle0_def dispatch0_lock_ops on_SET_MV_def flush_def push_response_def response_def
        response_mail_def post_send_ok reply_def sender_def numBoxes_def)
  have g2: "ServerGetMV i2 ?k2 t = Inr (if i1 = i2 \<and> ?k1 = ?k2 \<and> exists i1 ?k1 then ?v else val i2 ?k2)"
  proof (cases "exists i1 ?k1")
    case True
    then obtain e where e: "slots (mv_table s) i1 = Some e" "0 \<le> ?k1" "?k1 < numEntries e"
      unfolding exists_def by blast
    then have st: "slots t = (slots (mv_table s))(i1 \<mapsto> e\<lparr>mvEntries := Some ((the (mvEntries e))[nat ?k1 := ?v])\<rparr>)"
      using t(3) by (simp del: slots_Some)
    have l: "numEntries e = int (length (the (mvEntries e)))"
      using w e(1) mv_at_ok [OF w, of i1] by auto
    show ?thesis
      unfolding ServerGetMV_ok [OF t(2)] st val_def
      using True e l by (auto simp: nth_list_update nat_eq_iff simp del: slots_Some split: option.splits)
  next
    case False
    then have "slots t = slots (mv_table s)"
      using t(3) by (auto simp: exists_def simp del: slots_Some split: option.splits)
    then show ?thesis unfolding ServerGetMV_ok [OF t(2)] val_def using False by simp
  qed
  have "decodeIndex ?s1 (int_at m2 1) = i2" by (simp add: i2_def decodeIndex_def)
  then have "handle0 g m2 ?s1 = Some (Inr ([reply s (if i1 = i2 \<and> ?k1 = ?k2 \<and> exists i1 ?k1 then ?v
      else val i2 ?k2) (sender m2)], ?s1))"
    using assms(2,4,6,8) g2 mailbox_range [OF assms(4)]
    by (simp add: handle0_def dispatch0_lock_ops on_GET_MV_def flush_def push_response_def response_def
        response_mail_def post_send_ok reply_def sender_def numBoxes_def)
  with h1 show ?thesis by blast
qed

lemma sample_mv: "\<exists>t. wf_mvs t \<and> slots t = [0 \<mapsto> fresh_mv [67, 0] 2 9]"
proof -
  have e: "wf_mvs empty_table" "used (empty_table :: ServerMVEntry table) = {}"
    "slots (empty_table :: ServerMVEntry table) = Map.empty"
    by (simp_all add: empty_table_def wf_table_def wf_map_def slots_def used_def)
  then have "slot_of mv_name empty_table (cstr [67, 0]) = None" by (simp add: slot_of_None [OF e(1)])
  moreover obtain k t where t: "wf_mvs t" "created mv_name (cstr [67, 0]) (fresh_mv [67, 0] 2 9) empty_table k t"
    using ServerCreateMV_ok [OF e(1), of "[67, 0]" 2 "\<lambda>_. 0" 9] by (auto simp: terminated_def)
  ultimately have "0 \<le> k" "{0..<k} = {}" "slots t = [k \<mapsto> fresh_mv [67, 0] 2 9]"
    using e by (auto simp: created_def)
  then have "k = 0" by simp
  with \<open>slots t = [k \<mapsto> fresh_mv [67, 0] 2 9]\<close> t(1) show ?thesis by (auto simp del: slots_Some)
qed

section \<open>Creation across servers\<close>

lemma send_all_map:
  "(\<And>x. x \<in> set xs \<Longrightarrow> post_send (f x) = Inr (h x)) \<Longrightarrow> send_all (map f xs) = Inr (map h xs)"
  by (induction xs) auto

lemma strncpy_zero: "0 < n \<Longrightarrow> strncpy n (0 # bs) = Inr (replicate n 0)"
  by (cases n) auto

lemma char_word [simp]: "word_of_int (char_at d k) = d ! k"
  by (simp add: char_at_def)

lemma put_int_five: "put_int 1 x (five ty @ rest) = word_of_int ty # compressInt x @ rest"
  by (simp add: put_int_def five_def numeral_eq_Suc)

lemma dispatch1_mv:
  "mail_type m = CREATE_MV \<Longrightarrow> dispatch1 g m s = on_CREATE_MV1 m s"
  "mail_type m = DO_YOU_HAVE_MV_NAME \<Longrightarrow> dispatch1 g m s = on_DO_YOU_HAVE_MV_NAME m s"
  by (simp_all add: dispatch1_def mail_type_def [symmetric] Let_def message_types peer_types)

lemma answer_sent:
  assumes "dispatch1 g m s = Inr (Respond_Once_To_Server, five ty, [], s)" "0 \<le> mail_from m" "mail_from m < 100"
  shows "handle1 g m s = Inr ([\<lparr>pkt_to = pkt_from m, pkt_from = myMachineID s, mail_to = mail_from m,
     mail_from = mail_to m, mail_len = 5, mdata = word_of_int ty # compressInt (int_at m 1)\<rparr>], s)"
proof -
  have "put_int 1 (int_at m 1) (five ty) = word_of_int ty # compressInt (int_at m 1)"
    using put_int_five [of _ _ "[]"] by simp
  then show ?thesis using assms by (simp add: handle1_def perform_def post_send_ok)
qed

text \<open>The question about a monitor variable that a server sends out.\<close>

definition mv_question :: "int \<Rightarrow> int \<Rightarrow> int \<Rightarrow> u8 \<Rightarrow> mail" where
  "mv_question to from ident len = \<lparr>pkt_to = to, pkt_from = from, mail_to = 1, mail_from = 1,
     mail_len = 6 + sint len, mdata = word_of_int DO_YOU_HAVE_MV_NAME # compressInt ident @
       len # replicate (nat (sint len)) 0\<rparr>"

lemma create_mv_questions:
  assumes "server_ok s" "name_ok 10 m" "char_at (mdata m) 9 \<le> 34" "0 < char_at (mdata m) 9"
    and "length (mdata m) = 40" "mdata m ! 2 = 0" "mail_type m = CREATE_MV"
    and "slot_of mv_name (mv_table s) (mail_name 10 m) = None" "pendingCreates s = []"
    and "0 \<le> myMachineID s" "myMachineID s < totalNumServers s"
  shows "\<exists>s'. handle1 g m s = Inr (map (\<lambda>i. mv_question i (myMachineID s) (nextQueryID s) (mdata m ! 9))
      (filter (\<lambda>i. i \<noteq> myMachineID s) [0..totalNumServers s - 1]), s')"
proof -
  let ?l = "char_at (mdata m) 9"
  obtain n where n: "get_name (mdata m) 10 ?l = Inr n" "terminated n" "cstr n = mail_name 10 m"
    using get_name_ok [OF assms(2)] by auto
  have ex: "checkIfExists mv_name n (mv_table s) = Inr (- 1)"
    using find_name_all(3) [OF table_parts(3) [OF assms(1)] n(2)] n(3) assms(8) by simp
  have "drop 2 (mdata m) = 0 # drop (Suc 2) (mdata m)"
    using Cons_nth_drop_Suc [of 2 "mdata m"] assms(5,6) by simp
  then have asked: "get_name (mdata m) 2 ?l = Inr (replicate (nat ?l) 0)"
    using assms(4) by (simp add: get_name_def strncpy_zero)
  obtain p s1 where p: "new_PendingCreate n MVT s = Inr (p, s1)" "pcID p = nextQueryID s"
    "myMachineID s1 = myMachineID s" "totalNumServers s1 = totalNumServers s"
    using assms(10,11) by (auto simp: new_PendingCreate_def)
  obtain q s2 where q: "new_QueryStatus m s1 = (q, s2)" "myMachineID s2 = myMachineID s"
    "totalNumServers s2 = totalNumServers s"
    using p(3,4) by (auto simp: new_QueryStatus_def)
  let ?data = "word_of_int DO_YOU_HAVE_MV_NAME # compressInt (nextQueryID s) @ (mdata m ! 9) # replicate (nat ?l) 0"
  have d: "dispatch1 g m s = Inr (Create_Query, ?data, [],
      s2\<lparr>pendingCreates := pendingCreates s2 @ [p\<lparr>waitingClients := [q]\<rparr>]\<rparr>)"
  proof -
    have "dispatch1 g m s = on_CREATE_MV1 m s" by (rule dispatch1_mv(1) [OF assms(7)])
    also have "\<dots> = Inr (Create_Query, ?data, [],
        s2\<lparr>pendingCreates := pendingCreates s2 @ [p\<lparr>waitingClients := [q]\<rparr>]\<rparr>)"
      using n(1) ex asked assms(3,9) p q
      by (simp add: on_CREATE_MV1_def on_CREATE_def Let_def MaxMailSize_def put_int_five [unfolded One_nat_def])
    finally show ?thesis .
  qed
  have "send_all (map (\<lambda>i. \<lparr>pkt_to = i, pkt_from = myMachineID s, mail_to = 1, mail_from = 1,
      mail_len = int (length ?data), mdata = ?data\<rparr>) xs) =
    Inr (map (\<lambda>i. mv_question i (myMachineID s) (nextQueryID s) (mdata m ! 9)) xs)" for xs
    using assms(3,4) by (intro send_all_map) (simp add: post_send_ok mv_question_def char_at_def)
  then show ?thesis
    using q by (simp add: handle1_def d perform_def to_all_servers_def)
qed

lemma mv_question_denied:
  assumes "server_ok s" "pendingCreates s = []" "slot_of mv_name (mv_table s) [] = None" "0 < sint len"
  shows "\<exists>r. handle1 g (delivered pad (mv_question to from ident len)) s = Inr ([r], s) \<and>
    mail_type r = DO_NOT_HAVE_MV_NAME \<and> pkt_to r = from"
proof -
  let ?m = "delivered pad (mv_question to from ident len)"
  have md: "mdata ?m = word_of_int DO_YOU_HAVE_MV_NAME # compressInt ident @ len # replicate (nat (sint len)) 0 @ pad"
    by (simp add: mv_question_def)
  have l: "char_at (mdata ?m) 5 = sint len" unfolding md char_at_def by (simp add: nth_append)
  have dr: "drop 6 (mdata ?m) = replicate (nat (sint len)) 0 @ pad" unfolding md by simp
  have ty: "mail_type ?m = DO_YOU_HAVE_MV_NAME"
    unfolding mail_type_def char_at_def md by (simp add: DO_YOU_HAVE_MV_NAME_def)
  have z: "strncpy (nat (sint len)) (replicate (nat (sint len)) 0 @ pad) = Inr (replicate (nat (sint len)) 0)"
    using assms(4) by (cases "nat (sint len)") simp_all
  have t: "terminated (replicate (nat (sint len)) 0)" "cstr (replicate (nat (sint len)) 0) = []"
    using assms(4) by (cases "nat (sint len)"; simp add: terminated_def cstr_def)+
  have ex: "checkIfExists mv_name (replicate (nat (sint len)) 0) (mv_table s) = Inr (- 1)"
    using find_name_all(3) [OF table_parts(3) [OF assms(1)] t(1)] t(2) assms(3) by simp
  have "dispatch1 g ?m s = on_DO_YOU_HAVE_MV_NAME ?m s" by (rule dispatch1_mv(2) [OF ty])
  also have "\<dots> = Inr (Respond_Once_To_Server, five DO_NOT_HAVE_MV_NAME, [], s)"
    using l dr z ex assms(2,4)
    by (simp add: on_DO_YOU_HAVE_MV_NAME_def on_DO_YOU_HAVE_NAME_def get_name_def
        determineResponseToCreateRequest_def DO_NOT_HAVE_NAME_def)
  finally have d: "dispatch1 g ?m s = Inr (Respond_Once_To_Server, five DO_NOT_HAVE_MV_NAME, [], s)" .
  have f: "mail_from ?m = 1" "pkt_from ?m = from" by (simp_all add: mv_question_def)
  show ?thesis
    unfolding answer_sent [OF d, unfolded f, simplified]
    by (simp add: mail_type_def char_at_def DO_NOT_HAVE_MV_NAME_def)
qed

text \<open>
  monitor variables are duplicated. To create a monitor variable it does not have, a server asks
  the others for it, but copies the name it asks about from the wrong place (offset 2, inside the number of
  entries, instead of 10). With fewer than 65536 entries the question is about the empty name, and
  every other server, whatever monitor variables it has (but one with the empty name), answers that it does not have it, also when it does.
\<close>

lemma MV_creation_asks_for_wrong_name:
  assumes "server_ok s1" "wf_mail m" "mail_type m = CREATE_MV" "name_ok 10 m"
    and "0 < char_at (mdata m) 9" "char_at (mdata m) 9 \<le> 34" "mdata m ! 2 = 0"
    and "slot_of mv_name (mv_table s1) (mail_name 10 m) = None" "pendingCreates s1 = []"
    and "0 \<le> myMachineID s1" "myMachineID s1 < totalNumServers s1"
    and "server_ok s2" "pendingCreates s2 = []" "slot_of mv_name (mv_table s2) [] = None"
  shows "\<exists>ms s1'. handle1 g m s1 = Inr (ms, s1') \<and>
    map pkt_to ms = filter (\<lambda>i. i \<noteq> myMachineID s1) [0..totalNumServers s1 - 1] \<and>
    (\<forall>x\<in>set ms. \<forall>pad. \<exists>r. handle1 g (delivered pad x) s2 = Inr ([r], s2) \<and>
       mail_type r = DO_NOT_HAVE_MV_NAME \<and> pkt_to r = myMachineID s1)"
proof -
  have l: "length (mdata m) = 40" "0 < sint (mdata m ! 9)" using assms(2,5) by (simp_all add: wf_mail_def char_at_def)
  obtain s' where "handle1 g m s1 = Inr (map (\<lambda>i. mv_question i (myMachineID s1) (nextQueryID s1) (mdata m ! 9))
      (filter (\<lambda>i. i \<noteq> myMachineID s1) [0..totalNumServers s1 - 1]), s')"
    using create_mv_questions [OF assms(1,4,6,5) l(1) assms(7,3,8-11)] by blast
  moreover have "map pkt_to (map (\<lambda>i. mv_question i (myMachineID s1) (nextQueryID s1) (mdata m ! 9)) xs) = xs" for xs
    by (simp add: mv_question_def comp_def)
  ultimately show ?thesis using mv_question_denied [OF assms(12-14) l(2)] by auto
qed

definition create_mv_msg :: mail where
  "create_mv_msg = \<lparr>pkt_to = 0, pkt_from = 5, mail_to = 1, mail_from = 1, mail_len = 12,
     mdata = [106, 0, 0, 0, 3, 0, 0, 0, 9, 2, 67, 0] @ replicate 28 0\<rparr>"

lemma MV_creation_example:
  "\<exists>ms s1'. handle1 (\<lambda>_. 0) create_mv_msg (start_server 0 2) = Inr (ms, s1') \<and> map pkt_to ms = [1]"
proof -
  have e: "slot_of mv_name empty_table n = None" for n
    using start_server_ok [of 0 2] slot_of_None [of mv_name mv_entry_wf empty_table n]
    by (simp add: server_ok_def empty_table_def used_def)
  have "wf_mail create_mv_msg" "mail_type create_mv_msg = CREATE_MV" "name_ok 10 create_mv_msg"
    "char_at (mdata create_mv_msg) 9 = 2" "mdata create_mv_msg ! 2 = 0"
    by (simp_all add: wf_mail_def create_mv_msg_def numBoxes_def mail_type_def char_at_def CREATE_MV_def
        name_ok_def terminated_def)
  moreover have "[0..2 - 1] = [0, 1::int]" by (simp add: upto.simps)
  ultimately show ?thesis
    using MV_creation_asks_for_wrong_name [OF start_server_ok _ _ _ _ _ _ _ _ _ _ start_server_ok,
        of create_mv_msg 0 2 0 2 "\<lambda>_. 0"] e
    by auto
qed

end
