(* ===== verification/Paging.thy ===== *)
theory Paging
  imports Memory Bit_Map
begin

text \<open>
  The demand pager: the page-fault handler of userprog/exception.cc (\<open>Evict\<close>,
  \<open>HandleIPTMiss\<close>, \<open>HandlePageFault\<close>), the address spaces of userprog/addrspace.cc with the
  header of bin/noff.h, and the tables of userprog/IPTEntry.h and userprog/PageTableEntry.h.

  One call of the handler is one step: the locks \<open>iptLock\<close> and \<open>pageTableLock\<close> and the
  interrupt level exclude other threads and have no effect on the values. The list
  \<open>evictionList\<close> of \<open>int*\<close> is the list of the numbers it points to; \<open>rand()\<close> reads the next
  number of a stream. Files are UNIX files (\<open>FILESYS_STUB\<close>): a read copies as many bytes as
  the file has, a write extends the file, a negative position fails an ASSERT.
\<close>

section \<open>State\<close>

datatype DiskLocation = IN_EXECUTABLE | IN_MEMORY | IN_SWAP | UNINIT

datatype EvictionPolicy = FIFO | RAND

record PageTableEntry = TranslationEntry +
  location :: DiskLocation
  offset :: int

record IPTEntry = TranslationEntry +
  space :: "nat option"      \<comment> \<open>the pointer to the address space\<close>

record AddrSpace =
  pages :: "PageTableEntry list"     \<comment> \<open>the field pageTable, an array of numPages entries\<close>
  executable :: "u8 list"
  numExecutablePages :: int

record vm = machine +
  IPT :: "IPTEntry list"
  spaces :: "nat \<Rightarrow> AddrSpace option"   \<comment> \<open>the allocated address spaces, by pointer\<close>
  currentSpace :: nat                   \<comment> \<open>\<open>currentThread->space\<close>\<close>
  mainMemoryBitmap :: BitMap
  swapMap :: BitMap
  swapFile :: "u8 list"
  evictionList :: "int list"
  evictionPolicy :: EvictionPolicy
  currentTLB :: int
  randoms :: "nat \<Rightarrow> int"               \<comment> \<open>what \<open>rand()\<close> will return\<close>

section \<open>Files and arrays\<close>

definition read_bytes :: "u8 list \<Rightarrow> int \<Rightarrow> int \<Rightarrow> u8 list result" where
  "read_bytes f numBytes position =
     bind_result (ASSERT (position \<ge> 0)) (\<lambda>_. Inr (take (nat numBytes) (drop (nat position) f)))"

definition write_bytes :: "u8 list \<Rightarrow> u8 list \<Rightarrow> int \<Rightarrow> u8 list result" where
  "write_bytes f bs position =
     bind_result (ASSERT (position \<ge> 0)) (\<lambda>_.
     Inr (take (nat position) (f @ replicate (nat position - length f) 0) @ bs @
          drop (nat position + length bs) f))"

definition load_bytes :: "(nat \<Rightarrow> u8) \<Rightarrow> nat \<Rightarrow> u8 list \<Rightarrow> nat \<Rightarrow> u8" where
  "load_bytes mem a bs = (\<lambda>i. if a \<le> i \<and> i < a + length bs then bs ! (i - a) else mem i)"

definition frame_bytes :: "'k vm_scheme \<Rightarrow> int \<Rightarrow> u8 list" where
  "frame_bytes s p = map (\<lambda>o'. mainMemory s (nat (p * PageSize) + o')) [0..<nat PageSize]"

definition tlb_get :: "'k vm_scheme \<Rightarrow> int \<Rightarrow> TranslationEntry result" where
  "tlb_get s i = (case tlb s of None \<Rightarrow> Inl NullPointer | Some t \<Rightarrow> array_get t i)"

definition tlb_set :: "int \<Rightarrow> TranslationEntry \<Rightarrow> 'k vm_scheme \<Rightarrow> 'k vm_scheme result" where
  "tlb_set i e s = (case tlb s of None \<Rightarrow> Inl NullPointer
     | Some t \<Rightarrow> bind_result (array_set t i e) (\<lambda>t'. Inr (s\<lparr>tlb := Some t'\<rparr>)))"

definition ipt_get :: "'k vm_scheme \<Rightarrow> int \<Rightarrow> IPTEntry result" where
  "ipt_get s p = array_get (IPT s) p"

definition ipt_upd :: "int \<Rightarrow> (IPTEntry \<Rightarrow> IPTEntry) \<Rightarrow> 'k vm_scheme \<Rightarrow> 'k vm_scheme result" where
  "ipt_upd p f s = bind_result (array_get (IPT s) p) (\<lambda>e.
     bind_result (array_set (IPT s) p (f e)) (\<lambda>t. Inr (s\<lparr>IPT := t\<rparr>)))"

definition the_space :: "'k vm_scheme \<Rightarrow> nat option \<Rightarrow> (nat \<times> AddrSpace) result" where
  "the_space s a = (case a of None \<Rightarrow> Inl NullPointer | Some sid \<Rightarrow>
     (case spaces s sid of None \<Rightarrow> Inl DanglingPointer | Some sp \<Rightarrow> Inr (sid, sp)))"

definition pt_get :: "'k vm_scheme \<Rightarrow> nat option \<Rightarrow> int \<Rightarrow> PageTableEntry result" where
  "pt_get s a vpn = bind_result (the_space s a) (\<lambda>(sid, sp). array_get (pages sp) vpn)"

definition pt_upd ::
  "nat option \<Rightarrow> int \<Rightarrow> (PageTableEntry \<Rightarrow> PageTableEntry) \<Rightarrow> 'k vm_scheme \<Rightarrow> 'k vm_scheme result" where
  "pt_upd a vpn f s =
     bind_result (the_space s a) (\<lambda>(sid, sp).
     bind_result (array_get (pages sp) vpn) (\<lambda>e.
     bind_result (array_set (pages sp) vpn (f e)) (\<lambda>t.
     Inr (s\<lparr>spaces := (spaces s)(sid \<mapsto> sp\<lparr>pages := t\<rparr>)\<rparr>))))"

section \<open>Evict\<close>

definition rand :: "'k vm_scheme \<Rightarrow> int \<times> 'k vm_scheme" where
  "rand s = (randoms s 0, s\<lparr>randoms := \<lambda>n. randoms s (Suc n)\<rparr>)"

text \<open>The two loops that choose the frame. A loop that never meets a frame which is not in
  use does not return.\<close>

partial_function (option) random_frame :: "'k vm_scheme \<Rightarrow> (int \<times> 'k vm_scheme) result option" where
  "random_frame s =
     (let (r, s1) = rand s; p = rem r NumPhysPages in
      case ipt_get s1 p of Inl c \<Rightarrow> Some (Inl c)
      | Inr e \<Rightarrow> if use e then random_frame s1 else Some (Inr (p, s1)))"

partial_function (option) fifo_frame :: "'k vm_scheme \<Rightarrow> (int \<times> 'k vm_scheme) result option" where
  "fifo_frame s =
     (case evictionList s of [] \<Rightarrow> Some (Inl NullPointer)
      | p # ps \<Rightarrow>
        (case ipt_get s p of Inl c \<Rightarrow> Some (Inl c)
         | Inr e \<Rightarrow>
           if use e then fifo_frame (s\<lparr>evictionList := ps @ [p]\<rparr>)
           else Some (Inr (p, s\<lparr>evictionList := ps\<rparr>))))"

definition choose_frame :: "'k vm_scheme \<Rightarrow> (int \<times> 'k vm_scheme) result option" where
  "choose_frame s = (case evictionPolicy s of RAND \<Rightarrow> random_frame s | FIFO \<Rightarrow> fifo_frame s)"

text \<open>One turn of the loop over the TLB: an entry of the victim is invalidated, its dirty bit
  saved only when the entry of number \<open>currentTLB\<close> is valid.\<close>

definition evict_tlb :: "int \<Rightarrow> int \<Rightarrow> 'k vm_scheme \<Rightarrow> 'k vm_scheme result" where
  "evict_tlb p i s =
     bind_result (tlb_get s i) (\<lambda>e.
     if physicalPage e = p \<and> valid e then
       bind_result (tlb_get s (currentTLB s)) (\<lambda>c.
       bind_result (if valid c then ipt_upd p (dirty_update (\<lambda>_. dirty e)) s else Inr s) (\<lambda>s1.
       tlb_set i (e\<lparr>valid := False\<rparr>) s1))
     else Inr s)"

text \<open>The dirty victim goes to the swap file: \<open>WriteAt\<close> returns the number of bytes, so the
  branch for \<open>-1\<close> is dead.\<close>

definition swap_out :: "int \<Rightarrow> 'k vm_scheme \<Rightarrow> 'k vm_scheme result" where
  "swap_out p s =
     bind_result (ipt_get s p) (\<lambda>e.
     if \<not> dirty e then Inr s
     else
       bind_result (pt_get s (space e) (virtualPage e)) (\<lambda>pte.
       bind_result (if location pte = IN_SWAP then Inr (quot (offset pte) PageSize, swapMap s)
                    else Find (swapMap s)) (\<lambda>(n, b).
       bind_result (write_bytes (swapFile s) (frame_bytes s p) (n * PageSize)) (\<lambda>f.
       pt_upd (space e) (virtualPage e)
         (\<lambda>pte. pte\<lparr>location := IN_SWAP, offset := n * PageSize\<rparr>)
         (s\<lparr>swapMap := b, swapFile := f\<rparr>)))))"

definition evict_frame :: "int \<Rightarrow> 'k vm_scheme \<Rightarrow> 'k vm_scheme result" where
  "evict_frame p s =
     bind_result (ipt_upd p (use_update (\<lambda>_. True)) s) (\<lambda>s1.
     bind_result (for_loop 0 (int TLBSize) (evict_tlb p) s1) (swap_out p))"

definition Evict :: "'k vm_scheme \<Rightarrow> (int \<times> 'k vm_scheme) result option" where
  "Evict s =
     (case choose_frame s of None \<Rightarrow> None
      | Some r \<Rightarrow> Some (bind_result r (\<lambda>(p, s1).
          bind_result (evict_frame p s1) (\<lambda>s2. Inr (p, s2)))))"

section \<open>HandleIPTMiss\<close>

text \<open>The page is read from where the page table says it is; a page of location \<open>UNINIT\<close>
  keeps the bytes the frame had.\<close>

definition read_page :: "int \<Rightarrow> int \<Rightarrow> 'k vm_scheme \<Rightarrow> 'k vm_scheme result" where
  "read_page vpn p s =
     bind_result (the_space s (Some (currentSpace s))) (\<lambda>(sid, sp).
     bind_result (array_get (pages sp) vpn) (\<lambda>pte.
     bind_result (case location pte of
         IN_EXECUTABLE \<Rightarrow> read_bytes (executable sp) PageSize (offset pte)
       | IN_MEMORY \<Rightarrow> Inr []
       | IN_SWAP \<Rightarrow> read_bytes (swapFile s) PageSize (offset pte)
       | UNINIT \<Rightarrow> Inr []) (\<lambda>bs.
     Inr (s\<lparr>mainMemory := load_bytes (mainMemory s) (nat (p * PageSize)) bs\<rparr>))))"

definition new_entry :: "int \<Rightarrow> int \<Rightarrow> bool \<Rightarrow> 'e TranslationEntry_scheme \<Rightarrow> 'e TranslationEntry_scheme" where
  "new_entry vpn p d e =
     e\<lparr>virtualPage := vpn, physicalPage := p, valid := True, dirty := d, readOnly := False\<rparr>"

definition HandleIPTMiss :: "int \<Rightarrow> int \<Rightarrow> 'k vm_scheme \<Rightarrow> (int \<times> 'k vm_scheme) result" where
  "HandleIPTMiss vpn p s =
     (if p = - 1 then Inr (p, s)
      else
        bind_result (read_page vpn p s) (\<lambda>s1.
        bind_result (pt_get s1 (Some (currentSpace s1)) vpn) (\<lambda>pte.
        let d = (location pte = UNINIT) in
        bind_result (ipt_upd p (\<lambda>e. (new_entry vpn p d e)\<lparr>space := Some (currentSpace s1)\<rparr>) s1) (\<lambda>s2.
        let s3 = s2\<lparr>evictionList := (if evictionPolicy s2 = FIFO then evictionList s2 @ [p]
                                      else evictionList s2)\<rparr> in
        bind_result (pt_upd (Some (currentSpace s3)) vpn (new_entry vpn p d) s3) (\<lambda>s4.
        Inr (p, s4))))))"

section \<open>HandlePageFault\<close>

definition holds :: "nat \<Rightarrow> int \<Rightarrow> IPTEntry \<Rightarrow> bool" where
  "holds sid vpn e \<longleftrightarrow> valid e \<and> vpn = virtualPage e \<and> space e = Some sid \<and> \<not> use e"

definition ipt_search :: "'k vm_scheme \<Rightarrow> int \<Rightarrow> int" where
  "ipt_search s vpn =
     (case List.find (\<lambda>i. holds (currentSpace s) vpn (IPT s ! i)) [0..<length (IPT s)] of
        None \<Rightarrow> - 1 | Some i \<Rightarrow> int i)"

text \<open>The loop taken when no frame holds the page.\<close>

partial_function (option) fetch_page :: "int \<Rightarrow> 'k vm_scheme \<Rightarrow> (int \<times> 'k vm_scheme) result option" where
  "fetch_page vpn s =
     (case Find (mainMemoryBitmap s) of Inl c \<Rightarrow> Some (Inl c)
      | Inr (free, b) \<Rightarrow>
        (case (if free = - 1 then Evict (s\<lparr>mainMemoryBitmap := b\<rparr>)
               else Some (Inr (free, s\<lparr>mainMemoryBitmap := b\<rparr>))) of
           None \<Rightarrow> None
         | Some (Inl c) \<Rightarrow> Some (Inl c)
         | Some (Inr (p, s1)) \<Rightarrow>
             if p = - 1 then fetch_page vpn s1
             else Some (bind_result (ipt_upd p (use_update (\<lambda>_. True)) s1) (HandleIPTMiss vpn p))))"

definition get_frame :: "int \<Rightarrow> 'k vm_scheme \<Rightarrow> (int \<times> 'k vm_scheme) result option" where
  "get_frame vpn s =
     (let p = ipt_search s vpn in
      if p \<noteq> - 1
      then Some (bind_result (ipt_upd p (use_update (\<lambda>_. True)) s) (\<lambda>s1. Inr (p, s1)))
      else fetch_page vpn s)"

definition save_dirty :: "TranslationEntry \<Rightarrow> 'k vm_scheme \<Rightarrow> 'k vm_scheme result" where
  "save_dirty e s =
     (if valid e then ipt_upd (physicalPage e) (dirty_update (\<lambda>_. dirty e)) s else Inr s)"

definition fill_tlb :: "int \<Rightarrow> 'k vm_scheme \<Rightarrow> 'k vm_scheme result" where
  "fill_tlb p s =
     bind_result (tlb_get s (currentTLB s)) (\<lambda>old.
     bind_result (save_dirty old s) (\<lambda>s1.
     bind_result (ipt_get s1 p) (\<lambda>e.
     bind_result (tlb_set (currentTLB s1)
        (old\<lparr>virtualPage := virtualPage e, physicalPage := physicalPage e, valid := True,
             use := use e, dirty := dirty e, readOnly := readOnly e\<rparr>) s1) (\<lambda>s2.
     bind_result (ipt_upd p (use_update (\<lambda>_. False))
        (s2\<lparr>currentTLB := rem (currentTLB s2 + 1) (int TLBSize)\<rparr>)) (\<lambda>s3.
     bind_result (tlb_get s3 (currentTLB s3)) (\<lambda>n. tlb_set (currentTLB s3) (n\<lparr>use := False\<rparr>) s3))))))"

definition HandlePageFault :: "'k vm_scheme \<Rightarrow> 'k vm_scheme result option" where
  "HandlePageFault s =
     (let vpn = quot (sint (registers s BadVAddrReg)) 128 in
      case get_frame vpn s of None \<Rightarrow> None
      | Some r \<Rightarrow> Some (bind_result r (\<lambda>(p, s1). fill_tlb p s1)))"

section \<open>Address spaces\<close>

text \<open>A context switch writes the dirty bits back and empties the TLB.\<close>

definition flush_entry :: "int \<Rightarrow> 'k vm_scheme \<Rightarrow> 'k vm_scheme result" where
  "flush_entry i s =
     bind_result (tlb_get s i) (\<lambda>e.
     bind_result (save_dirty e s) (\<lambda>s1. tlb_set i (e\<lparr>valid := False\<rparr>) s1))"

definition SaveState :: "'k vm_scheme \<Rightarrow> 'k vm_scheme result" where
  "SaveState s = for_loop 0 (int TLBSize) flush_entry s"

definition RestoreState :: "'k vm_scheme \<Rightarrow> 'k vm_scheme result" where
  "RestoreState s = for_loop 0 (int TLBSize) flush_entry s"

text \<open>The header of an executable: ten integers in the order of the host. \<open>SwapHeader\<close>
  converts each of them when the magic number is in the other order.\<close>

record Segment =
  virtualAddr :: u32
  inFileAddr :: u32
  segsize :: u32

record NoffHeader =
  noffMagic :: u32
  code :: Segment
  initData :: Segment
  uninitData :: Segment

definition NOFFMAGIC :: u32 where "NOFFMAGIC = 0xbadfad"
definition NoffHeaderSize :: nat where "NoffHeaderSize = 40"
definition UserStackSize :: int where "UserStackSize = 1024"
definition MAX_THREADS :: int where "MAX_THREADS = 100"

definition header_word :: "bool \<Rightarrow> u8 list \<Rightarrow> nat \<Rightarrow> u32" where
  "header_word big f i = host_load32 big (\<lambda>j. f ! j) (4 * i)"

definition header_segment :: "bool \<Rightarrow> u8 list \<Rightarrow> nat \<Rightarrow> Segment" where
  "header_segment big f i = \<lparr>virtualAddr = header_word big f i,
     inFileAddr = header_word big f (i + 1), segsize = header_word big f (i + 2)\<rparr>"

definition read_header :: "bool \<Rightarrow> u8 list \<Rightarrow> NoffHeader result" where
  "read_header big f =
     (if length f < NoffHeaderSize then Inl Uninitialised
      else Inr \<lparr>noffMagic = header_word big f 0, code = header_segment big f 1,
        initData = header_segment big f 4, uninitData = header_segment big f 7\<rparr>)"

definition swap_segment :: "bool \<Rightarrow> Segment \<Rightarrow> Segment" where
  "swap_segment big g = \<lparr>virtualAddr = WordToHost big (virtualAddr g),
     inFileAddr = WordToHost big (inFileAddr g), segsize = WordToHost big (segsize g)\<rparr>"

definition SwapHeader :: "bool \<Rightarrow> NoffHeader \<Rightarrow> NoffHeader" where
  "SwapHeader big h = \<lparr>noffMagic = WordToHost big (noffMagic h), code = swap_segment big (code h),
     initData = swap_segment big (initData h), uninitData = swap_segment big (uninitData h)\<rparr>"

text \<open>The constructor: the pages of code and initialised data are in the executable, the
  others are \<open>UNINIT\<close> (the comparison with the loop's unsigned counter is unsigned). The field \<open>physicalPage\<close> is left as the allocator gave it. The sizes
  are summed as 32-bit integers; the number of pages is computed from the unsigned sum.\<close>

definition new_pages :: "(nat \<Rightarrow> PageTableEntry) \<Rightarrow> NoffHeader \<Rightarrow> nat \<Rightarrow> int \<Rightarrow> PageTableEntry list" where
  "new_pages garbage h n inExecutable =
     map (\<lambda>i. (garbage i)\<lparr>virtualPage := int i, valid := False, use := False, dirty := False,
       readOnly := False, location := (if int i < inExecutable mod 2 ^ 32 then IN_EXECUTABLE else UNINIT),
       offset := sint (inFileAddr (code h) + of_nat i * 128)\<rparr>) [0..<n]"

definition new_AddrSpace ::
  "bool \<Rightarrow> (nat \<Rightarrow> PageTableEntry) \<Rightarrow> u8 list option \<Rightarrow> AddrSpace result" where
  "new_AddrSpace big garbage exe =
     (case exe of None \<Rightarrow> Inl NullPointer
      | Some f \<Rightarrow>
        bind_result (read_header big f) (\<lambda>h0.
        let h = (if noffMagic h0 \<noteq> NOFFMAGIC \<and> WordToHost big (noffMagic h0) = NOFFMAGIC
                 then SwapHeader big h0 else h0) in
        bind_result (ASSERT (noffMagic h = NOFFMAGIC)) (\<lambda>_.
        let sz = segsize (code h) + segsize (initData h) + segsize (uninitData h);
            loaded = sint (segsize (code h) + segsize (initData h));
            n = divRoundUp (uint sz) PageSize + MAX_THREADS * divRoundUp UserStackSize PageSize
        in Inr \<lparr>pages = new_pages garbage h (nat n) (divRoundUp loaded PageSize),
                executable = f, numExecutablePages = divRoundUp (sint sz) PageSize\<rparr>)))"

end
