(* ===== verification/Paging_Invariant.thy ===== *)
theory Paging_Invariant
  imports Paging
begin

text \<open>
  The invariant of the demand pager and the memory it implements. \<open>frames\<close> are the frames the
  inverted page table says are in use; \<open>page_byte\<close> is the byte a process should see at an
  offset of a page: the byte in the frame once the page was modified, and otherwise the byte in
  the executable or in the swap file. The set \<open>H\<close> holds the frame the handler is refilling.
\<close>

section \<open>The memory of a process\<close>

definition frames :: "IPTEntry list \<Rightarrow> int set" where
  "frames ipt = {p. 0 \<le> p \<and> p < NumPhysPages \<and> valid (ipt ! nat p)}"

definition mapped :: "int set \<Rightarrow> IPTEntry list \<Rightarrow> nat \<Rightarrow> int \<Rightarrow> int \<Rightarrow> bool" where
  "mapped H ipt sid v p \<longleftrightarrow> p \<in> frames ipt - H \<and> space (ipt ! nat p) = Some sid \<and>
     virtualPage (ipt ! nat p) = v"

definition page_entry :: "(nat \<Rightarrow> AddrSpace option) \<Rightarrow> nat \<Rightarrow> int \<Rightarrow> PageTableEntry option" where
  "page_entry sps sid v = (case sps sid of None \<Rightarrow> None
     | Some sp \<Rightarrow> if 0 \<le> v \<and> v < int (length (pages sp)) then Some (pages sp ! nat v) else None)"

definition file_at :: "u8 list \<Rightarrow> nat \<Rightarrow> u8 option" where
  "file_at f i = (if i < length f then Some (f ! i) else None)"

definition backing ::
  "(nat \<Rightarrow> AddrSpace option) \<Rightarrow> u8 list \<Rightarrow> nat \<Rightarrow> int \<Rightarrow> nat \<Rightarrow> u8 option" where
  "backing sps sw sid v k = (case page_entry sps sid v of None \<Rightarrow> None
     | Some e \<Rightarrow>
        (case location e of
           IN_EXECUTABLE \<Rightarrow> file_at (executable (the (sps sid))) (nat (offset e) + k)
         | IN_SWAP \<Rightarrow> file_at sw (nat (offset e) + k)
         | _ \<Rightarrow> None))"

definition modified :: "IPTEntry list \<Rightarrow> TranslationEntry list \<Rightarrow> int \<Rightarrow> bool" where
  "modified ipt t p \<longleftrightarrow>
     dirty (ipt ! nat p) \<or> (\<exists>e\<in>set t. valid e \<and> physicalPage e = p \<and> dirty e)"

definition frame_byte :: "(nat \<Rightarrow> u8) \<Rightarrow> int \<Rightarrow> nat \<Rightarrow> u8" where
  "frame_byte mem p k = mem (nat (p * PageSize) + k)"

definition page_byte :: "int set \<Rightarrow> 'k vm_scheme \<Rightarrow> nat \<Rightarrow> int \<Rightarrow> nat \<Rightarrow> u8 \<Rightarrow> bool" where
  "page_byte H s sid v k b \<longleftrightarrow>
     (\<exists>p. mapped H (IPT s) sid v p \<and> modified (IPT s) (the (tlb s)) p \<and> frame_byte (mainMemory s) p k = b) \<or>
     (\<nexists>p. mapped H (IPT s) sid v p \<and> modified (IPT s) (the (tlb s)) p) \<and>
       backing (spaces s) (swapFile s) sid v k = Some b"

section \<open>The invariant\<close>

definition ipt_inv :: "int set \<Rightarrow> IPTEntry list \<Rightarrow> (nat \<Rightarrow> AddrSpace option) \<Rightarrow> bool" where
  "ipt_inv H ipt sps \<longleftrightarrow> int (length ipt) = NumPhysPages \<and>
     (\<forall>p\<in>frames ipt - H. physicalPage (ipt ! nat p) = p \<and>
        (\<exists>sid. space (ipt ! nat p) = Some sid \<and> page_entry sps sid (virtualPage (ipt ! nat p)) \<noteq> None)) \<and>
     (\<forall>sid v p q. mapped H ipt sid v p \<and> mapped H ipt sid v q \<longrightarrow> p = q)"

definition tlb_inv :: "int set \<Rightarrow> IPTEntry list \<Rightarrow> nat \<Rightarrow> int \<Rightarrow> TranslationEntry list \<Rightarrow> bool" where
  "tlb_inv H ipt cur c t \<longleftrightarrow> length t = TLBSize \<and> 0 \<le> c \<and> c < int TLBSize \<and>
     (\<forall>e\<in>set t. valid e \<longrightarrow> mapped H ipt cur (virtualPage e) (physicalPage e) \<and>
        (dirty (ipt ! nat (physicalPage e)) \<longrightarrow> dirty e)) \<and>
     (\<forall>i j. i < TLBSize \<and> j < TLBSize \<and> valid (t ! i) \<and> valid (t ! j) \<and>
        physicalPage (t ! i) = physicalPage (t ! j) \<longrightarrow> i = j)"

definition map_inv :: "int set \<Rightarrow> IPTEntry list \<Rightarrow> BitMap \<Rightarrow> bool" where
  "map_inv H ipt b \<longleftrightarrow> wf_BitMap b \<and> numBits b = NumPhysPages \<and> bits b = frames ipt \<union> H"

definition swap_inv :: "(nat \<Rightarrow> AddrSpace option) \<Rightarrow> BitMap \<Rightarrow> u8 list \<Rightarrow> bool" where
  "swap_inv sps b sw \<longleftrightarrow> wf_BitMap b \<and>
     (\<forall>sid v e. page_entry sps sid v = Some e \<longrightarrow>
        (location e = IN_EXECUTABLE \<longrightarrow> 0 \<le> offset e) \<and>
        (location e = IN_SWAP \<longrightarrow> (\<exists>n\<in>bits b. offset e = n * PageSize \<and>
            n * PageSize + PageSize \<le> int (length sw)))) \<and>
     (\<forall>sid v e sid' v' e'. page_entry sps sid v = Some e \<and> page_entry sps sid' v' = Some e' \<and>
        location e = IN_SWAP \<and> location e' = IN_SWAP \<and> offset e = offset e' \<longrightarrow> sid = sid' \<and> v = v')"

definition clean_inv ::
  "int set \<Rightarrow> IPTEntry list \<Rightarrow> TranslationEntry list \<Rightarrow> (nat \<Rightarrow> u8) \<Rightarrow>
   (nat \<Rightarrow> AddrSpace option) \<Rightarrow> u8 list \<Rightarrow> bool" where
  "clean_inv H ipt t mem sps sw \<longleftrightarrow>
     (\<forall>sid v p k b. mapped H ipt sid v p \<and> \<not> modified ipt t p \<and> k < 128 \<and>
        backing sps sw sid v k = Some b \<longrightarrow> frame_byte mem p k = b)"

text \<open>Frames in use by the handler may be missing from the eviction list.\<close>

definition list_inv :: "int set \<Rightarrow> IPTEntry list \<Rightarrow> EvictionPolicy \<Rightarrow> int list \<Rightarrow> bool" where
  "list_inv U ipt pol l \<longleftrightarrow> set l \<subseteq> {0..<NumPhysPages} \<and> (pol = FIFO \<longrightarrow> frames ipt - U \<subseteq> set l)"

definition unused :: "int set \<Rightarrow> IPTEntry list \<Rightarrow> bool" where
  "unused U ipt \<longleftrightarrow> (\<forall>p. 0 \<le> p \<and> p < NumPhysPages \<and> p \<notin> U \<longrightarrow> \<not> use (ipt ! nat p))"

definition vm_inv :: "int set \<Rightarrow> int set \<Rightarrow> 'k vm_scheme \<Rightarrow> bool" where
  "vm_inv H U s \<longleftrightarrow> H \<subseteq> {0..<NumPhysPages} \<and> tlb s \<noteq> None \<and>
     ipt_inv H (IPT s) (spaces s) \<and>
     tlb_inv H (IPT s) (currentSpace s) (currentTLB s) (the (tlb s)) \<and>
     map_inv H (IPT s) (mainMemoryBitmap s) \<and>
     swap_inv (spaces s) (swapMap s) (swapFile s) \<and>
     clean_inv H (IPT s) (the (tlb s)) (mainMemory s) (spaces s) (swapFile s) \<and>
     list_inv U (IPT s) (evictionPolicy s) (evictionList s) \<and>
     unused U (IPT s)"

abbreviation vm_ok :: "'k vm_scheme \<Rightarrow> bool" where
  "vm_ok \<equiv> vm_inv {} {}"

lemma vm_invI:
  assumes "H \<subseteq> {0..<NumPhysPages}" "tlb s = Some t"
    "ipt_inv H (IPT s) (spaces s)"
    "tlb_inv H (IPT s) (currentSpace s) (currentTLB s) t"
    "map_inv H (IPT s) (mainMemoryBitmap s)"
    "swap_inv (spaces s) (swapMap s) (swapFile s)"
    "clean_inv H (IPT s) t (mainMemory s) (spaces s) (swapFile s)"
    "list_inv U (IPT s) (evictionPolicy s) (evictionList s)"
    "unused U (IPT s)"
  shows "vm_inv H U s"
  using assms by (simp add: vm_inv_def)

lemma vm_invD:
  assumes "vm_inv H U s"
  shows "H \<subseteq> {0..<NumPhysPages}" "\<exists>t. tlb s = Some t"
    "ipt_inv H (IPT s) (spaces s)"
    "tlb_inv H (IPT s) (currentSpace s) (currentTLB s) (the (tlb s))"
    "map_inv H (IPT s) (mainMemoryBitmap s)"
    "swap_inv (spaces s) (swapMap s) (swapFile s)"
    "clean_inv H (IPT s) (the (tlb s)) (mainMemory s) (spaces s) (swapFile s)"
    "list_inv U (IPT s) (evictionPolicy s) (evictionList s)"
    "unused U (IPT s)"
  using assms by (auto simp: vm_inv_def)

section \<open>Entries of the tables\<close>

lemma frames_range: "p \<in> frames ipt \<Longrightarrow> 0 \<le> p \<and> p < NumPhysPages"
  by (simp add: frames_def)

lemma mapped_range: "mapped H ipt sid v p \<Longrightarrow> 0 \<le> p \<and> p < NumPhysPages \<and> p \<notin> H"
  by (simp add: mapped_def frames_def)

text \<open>Two tables that agree on what the invariant reads of an entry.\<close>

definition same_pages :: "IPTEntry list \<Rightarrow> IPTEntry list \<Rightarrow> bool" where
  "same_pages ipt ipt' \<longleftrightarrow> length ipt' = length ipt \<and>
     (\<forall>i<length ipt. valid (ipt' ! i) = valid (ipt ! i) \<and> space (ipt' ! i) = space (ipt ! i) \<and>
        virtualPage (ipt' ! i) = virtualPage (ipt ! i) \<and> physicalPage (ipt' ! i) = physicalPage (ipt ! i))"

lemma nth_update_cases: "xs[i := y] ! j = (if i = j \<and> i < length xs then y else xs ! j)"
  by (cases "i < length xs") (simp_all add: nth_list_update list_update_beyond)

lemma same_pages_update:
  assumes "valid e = valid (ipt ! i)" "space e = space (ipt ! i)" "virtualPage e = virtualPage (ipt ! i)"
    "physicalPage e = physicalPage (ipt ! i)"
  shows "same_pages ipt (ipt[i := e])"
  using assms by (simp add: same_pages_def nth_update_cases)

lemma same_pages_frames:
  "same_pages ipt ipt' \<Longrightarrow> int (length ipt) = NumPhysPages \<Longrightarrow> frames ipt' = frames ipt"
  by (auto simp: same_pages_def frames_def nat_less_iff)

lemma same_pages_mapped:
  "same_pages ipt ipt' \<Longrightarrow> int (length ipt) = NumPhysPages \<Longrightarrow> mapped H ipt' = mapped H ipt"
  using same_pages_frames [of ipt ipt']
  by (intro ext) (auto simp: mapped_def same_pages_def frames_def nat_less_iff)

lemma same_pages_ipt_inv:
  assumes "same_pages ipt ipt'" "ipt_inv H ipt sps"
  shows "ipt_inv H ipt' sps"
proof -
  note len = assms(2) [unfolded ipt_inv_def, THEN conjunct1]
  have "\<And>p. p \<in> frames ipt \<Longrightarrow> nat p < length ipt"
    using len by (auto simp: frames_def nat_less_iff)
  with assms show ?thesis
    unfolding ipt_inv_def same_pages_frames [OF assms(1) len] same_pages_mapped [OF assms(1) len]
    by (auto simp: same_pages_def)
qed

lemma map_inv_same: "same_pages ipt ipt' \<Longrightarrow> int (length ipt) = NumPhysPages \<Longrightarrow> map_inv H ipt b \<Longrightarrow> map_inv H ipt' b"
  by (simp add: map_inv_def same_pages_frames)

lemma list_inv_same: "same_pages ipt ipt' \<Longrightarrow> int (length ipt) = NumPhysPages \<Longrightarrow> list_inv U ipt p l \<Longrightarrow> list_inv U ipt' p l"
  by (simp add: list_inv_def same_pages_frames)

lemma list_inv_mono: "list_inv U ipt p l \<Longrightarrow> U \<subseteq> V \<Longrightarrow> list_inv V ipt p l"
  by (auto simp: list_inv_def)

lemma ipt_get_ok:
  "ipt_inv H (IPT s) sps \<Longrightarrow> 0 \<le> p \<Longrightarrow> p < NumPhysPages \<Longrightarrow> ipt_get s p = Inr (IPT s ! nat p)"
  by (simp add: ipt_get_def ipt_inv_def)

lemma ipt_upd_ok:
  "ipt_inv H (IPT s) sps \<Longrightarrow> 0 \<le> p \<Longrightarrow> p < NumPhysPages \<Longrightarrow>
   ipt_upd p f s = Inr (s\<lparr>IPT := (IPT s)[nat p := f (IPT s ! nat p)]\<rparr>)"
  by (simp add: ipt_upd_def ipt_inv_def)

lemma tlb_get_ok:
  "tlb s = Some t \<Longrightarrow> length t = TLBSize \<Longrightarrow> 0 \<le> i \<Longrightarrow> i < int TLBSize \<Longrightarrow> tlb_get s i = Inr (t ! nat i)"
  by (simp add: tlb_get_def)

lemma tlb_set_ok:
  "tlb s = Some t \<Longrightarrow> length t = TLBSize \<Longrightarrow> 0 \<le> i \<Longrightarrow> i < int TLBSize \<Longrightarrow>
   tlb_set i e s = Inr (s\<lparr>tlb := Some (t[nat i := e])\<rparr>)"
  by (simp add: tlb_set_def)

lemma page_entry_Some:
  "page_entry sps sid v = Some e \<longleftrightarrow>
   (\<exists>sp. sps sid = Some sp \<and> 0 \<le> v \<and> v < int (length (pages sp)) \<and> e = pages sp ! nat v)"
  by (auto simp: page_entry_def split: option.splits)

lemma pt_get_ok: "page_entry (spaces s) sid v = Some e \<Longrightarrow> pt_get s (Some sid) v = Inr e"
  by (auto simp: page_entry_Some pt_get_def the_space_def)

lemma pt_upd_ok:
  assumes "page_entry (spaces s) sid v = Some e"
  shows "\<exists>sps. pt_upd (Some sid) v f s = Inr (s\<lparr>spaces := sps\<rparr>) \<and>
    page_entry sps = (page_entry (spaces s))(sid := (page_entry (spaces s) sid)(v \<mapsto> f e)) \<and>
    (\<forall>x. map_option executable (sps x) = map_option executable (spaces s x))"
proof -
  from assms obtain sp where sp: "spaces s sid = Some sp" "0 \<le> v" "v < int (length (pages sp))"
    "e = pages sp ! nat v" by (auto simp: page_entry_Some)
  let ?sps = "(spaces s)(sid \<mapsto> sp\<lparr>pages := (pages sp)[nat v := f e]\<rparr>)"
  have "pt_upd (Some sid) v f s = Inr (s\<lparr>spaces := ?sps\<rparr>)"
    using sp by (simp add: pt_upd_def the_space_def)
  moreover have "page_entry ?sps = (page_entry (spaces s))(sid := (page_entry (spaces s) sid)(v \<mapsto> f e))"
    using sp by (intro ext) (auto simp: page_entry_def nat_eq_iff)
  moreover have "\<forall>x. map_option executable (?sps x) = map_option executable (spaces s x)"
    using sp by simp
  ultimately show ?thesis by blast
qed

section \<open>Marking a frame as in use\<close>

lemma modified_nth:
  "length t = n \<Longrightarrow> modified ipt t p \<longleftrightarrow>
   dirty (ipt ! nat p) \<or> (\<exists>i<n. valid (t ! i) \<and> physicalPage (t ! i) = p \<and> dirty (t ! i))"
  unfolding modified_def Bex_def in_set_conv_nth by auto

definition same_dirty :: "IPTEntry list \<Rightarrow> IPTEntry list \<Rightarrow> bool" where
  "same_dirty ipt ipt' \<longleftrightarrow> (\<forall>i<length ipt. dirty (ipt' ! i) = dirty (ipt ! i))"

lemma mapped_index: "mapped H ipt sid v p \<Longrightarrow> int (length ipt) = NumPhysPages \<Longrightarrow> nat p < length ipt"
  by (auto simp: mapped_def frames_def nat_less_iff)

lemma same_dirty_modified:
  "same_dirty ipt ipt' \<Longrightarrow> mapped H ipt sid v p \<Longrightarrow> int (length ipt) = NumPhysPages \<Longrightarrow>
   modified ipt' t p = modified ipt t p"
  using mapped_index [of H ipt sid v p] by (simp add: modified_def same_dirty_def)

lemma same_dirty_tlb_inv:
  assumes "same_pages ipt ipt'" "same_dirty ipt ipt'" "int (length ipt) = NumPhysPages"
    and "tlb_inv H ipt cur c t"
  shows "tlb_inv H ipt' cur c t"
  using assms(4) mapped_index [OF _ assms(3)] assms(2)
  unfolding tlb_inv_def same_pages_mapped [OF assms(1,3)] same_dirty_def by metis

lemma use_update_inv:
  assumes inv: "vm_inv H U s" and p: "0 \<le> p" "p < NumPhysPages"
    and s': "s' = s\<lparr>IPT := (IPT s)[nat p := (IPT s ! nat p)\<lparr>use := u\<rparr>]\<rparr>"
    and V: "if u then insert p U \<subseteq> V else U - {p} \<subseteq> V"
      "list_inv V (IPT s) (evictionPolicy s) (evictionList s)"
  shows "vm_inv H V s' \<and> page_byte H s' = page_byte H s"
proof -
  let ?ipt = "IPT s" and ?ipt' = "IPT s'"
  have same: "same_pages ?ipt ?ipt'" unfolding s' by (simp add: same_pages_update)
  have dirt: "same_dirty ?ipt ?ipt'" unfolding s' by (simp add: same_dirty_def nth_update_cases)
  note I = vm_invD [OF inv]
  obtain t where t: "tlb s = Some t" using I(2) by blast
  have len: "int (length ?ipt) = NumPhysPages" using I(3) by (simp add: ipt_inv_def)
  note sm = same_pages_mapped [OF same len] and md = same_dirty_modified [OF dirt _ len]
  have "clean_inv H ?ipt' t (mainMemory s) (spaces s) (swapFile s)"
    using I(7) md t unfolding clean_inv_def sm by (metis option.sel)
  moreover have "unused V ?ipt'"
    using I(9) V(1) p len unfolding unused_def s'
    by (auto simp: nth_update_cases nat_eq_iff split: if_splits)
  ultimately have "vm_inv H V s'"
    using I same_pages_ipt_inv [OF same I(3)] same_dirty_tlb_inv [OF same dirt len I(4)]
      map_inv_same [OF same len I(5)] list_inv_same [OF same len V(2)] t
    by (intro vm_invI [where t = t]) (simp_all add: s')
  moreover have "page_byte H s' = page_byte H s"
    unfolding page_byte_def sm using md by (intro ext) (auto simp: s')
  ultimately show ?thesis by blast
qed

section \<open>Retiring and installing a TLB entry\<close>

text \<open>An entry is retired when its dirty bit is saved and the entry invalidated.\<close>

lemma retire_modified:
  assumes tlb: "tlb_inv H ipt cur c t" and i: "i < TLBSize" "valid (t ! i)"
    and len: "int (length ipt) = NumPhysPages" and q: "0 \<le> q" "q < NumPhysPages"
    and ipt': "ipt' = ipt[nat (physicalPage (t ! i)) := (ipt ! nat (physicalPage (t ! i)))\<lparr>dirty := dirty (t ! i)\<rparr>]"
  shows "modified ipt' (t[i := (t ! i)\<lparr>valid := False\<rparr>]) q = modified ipt t q"
proof -
  have lt: "length t = TLBSize" using tlb by (simp add: tlb_inv_def)
  let ?p = "physicalPage (t ! i)"
  have mp: "mapped H ipt cur (virtualPage (t ! i)) ?p" "dirty (ipt ! nat ?p) \<Longrightarrow> dirty (t ! i)"
    using tlb i lt by (auto simp: tlb_inv_def)
  have uniq: "\<And>j. j < TLBSize \<Longrightarrow> valid (t ! j) \<Longrightarrow> physicalPage (t ! j) = ?p \<Longrightarrow> j = i"
    using tlb i by (simp add: tlb_inv_def)
  have ix: "nat ?p < length ipt" "0 \<le> ?p" using mapped_index [OF mp(1) len] mapped_range [OF mp(1)] by auto
  have d': "dirty (ipt' ! nat q) = (if q = ?p then dirty (t ! i) else dirty (ipt ! nat q))"
    using ix q by (auto simp: ipt' nth_update_cases nat_eq_iff)
  show ?thesis
  proof (cases "q = ?p")
    case True
    have "modified ipt t q = dirty (t ! i)"
      using True mp(2) uniq i by (auto simp: modified_nth [OF lt])
    moreover have "modified ipt' (t[i := (t ! i)\<lparr>valid := False\<rparr>]) q = dirty (t ! i)"
      using True d' uniq lt by (auto simp: modified_nth [of _ TLBSize] nth_update_cases)
    ultimately show ?thesis by simp
  next
    case False
    let ?t' = "t[i := (t ! i)\<lparr>valid := False\<rparr>]"
    have "(valid (?t' ! j) \<and> physicalPage (?t' ! j) = q \<and> dirty (?t' ! j)) =
        (valid (t ! j) \<and> physicalPage (t ! j) = q \<and> dirty (t ! j))" for j
      using False by (cases "j = i") (simp_all add: nth_update_cases)
    moreover have "dirty (ipt' ! nat q) = dirty (ipt ! nat q)" using d' False by simp
    moreover have "length ?t' = TLBSize" using lt by simp
    ultimately show ?thesis
      unfolding modified_nth [OF lt] modified_nth [OF \<open>length ?t' = TLBSize\<close>] by simp
  qed
qed

lemma retire_inv:
  assumes inv: "vm_inv H U s" and t: "tlb s = Some t" and i: "i < TLBSize" "valid (t ! i)"
    and s': "s' = s\<lparr>IPT := (IPT s)[nat (physicalPage (t ! i)) :=
         (IPT s ! nat (physicalPage (t ! i)))\<lparr>dirty := dirty (t ! i)\<rparr>],
         tlb := Some (t[i := (t ! i)\<lparr>valid := False\<rparr>])\<rparr>"
  shows "vm_inv H U s' \<and> page_byte H s' = page_byte H s"
proof -
  let ?ipt = "IPT s" and ?ipt' = "IPT s'" and ?t' = "t[i := (t ! i)\<lparr>valid := False\<rparr>]"
  note I = vm_invD [OF inv, unfolded t option.sel]
  have same: "same_pages ?ipt ?ipt'" unfolding s' by (simp add: same_pages_update)
  have len: "int (length ?ipt) = NumPhysPages" using I(3) by (simp add: ipt_inv_def)
  have lt: "length t = TLBSize" using I(4) by (simp add: tlb_inv_def)
  note sm = same_pages_mapped [OF same len]
  have md: "modified ?ipt' ?t' q = modified ?ipt t q" if "mapped H ?ipt sid v q" for sid v q
    using retire_modified [OF I(4) i len, of q ?ipt'] mapped_range [OF that] by (simp add: s')
  have "tlb_inv H ?ipt' (currentSpace s) (currentTLB s) ?t'"
  proof -
    have *: "mapped H ?ipt (currentSpace s) (virtualPage e) (physicalPage e) \<and>
        (dirty (?ipt' ! nat (physicalPage e)) \<longrightarrow> dirty e)" if e: "e \<in> set ?t'" "valid e" for e
    proof -
      obtain j where j: "j < TLBSize" "e = ?t' ! j" using e(1) lt by (auto simp: in_set_conv_nth)
      have ji: "j \<noteq> i" using j e(2) lt i by auto
      then have ej: "e = t ! j" using j by simp
      have m: "mapped H ?ipt (currentSpace s) (virtualPage e) (physicalPage e)"
        "dirty (?ipt ! nat (physicalPage e)) \<Longrightarrow> dirty e"
        using I(4) ej j(1) lt e(2) by (auto simp: tlb_inv_def)
      have "physicalPage e \<noteq> physicalPage (t ! i)" using I(4) ji j(1) i ej e(2) by (auto simp: tlb_inv_def)
      moreover have "0 \<le> physicalPage e" using mapped_range [OF m(1)] by simp
      moreover have "0 \<le> physicalPage (t ! i)"
        using I(4) i lt mapped_range [of H ?ipt "currentSpace s"] by (auto simp: tlb_inv_def)
      ultimately show ?thesis using m by (auto simp: s' nth_update_cases nat_eq_iff)
    qed
    moreover have "j = k" if "j < TLBSize" "k < TLBSize" "valid (?t' ! j)" "valid (?t' ! k)"
        "physicalPage (?t' ! j) = physicalPage (?t' ! k)" for j k
    proof -
      have "j \<noteq> i" "k \<noteq> i" using that i lt by auto
      then show ?thesis using that I(4) by (simp add: tlb_inv_def)
    qed
    ultimately show ?thesis
      unfolding tlb_inv_def sm using I(4) lt unfolding tlb_inv_def by auto
  qed
  moreover have "clean_inv H ?ipt' ?t' (mainMemory s) (spaces s) (swapFile s)"
    using I(7) md unfolding clean_inv_def sm by metis
  moreover have "unused U ?ipt'"
    using I(9) len unfolding unused_def s' by (auto simp: nth_update_cases)
  ultimately have "vm_inv H U s'"
    using I same_pages_ipt_inv [OF same I(3)]
      map_inv_same [OF same len I(5)] list_inv_same [OF same len I(8)]
    by (intro vm_invI [where t = ?t']) (simp_all add: s')
  moreover have "page_byte H s' = page_byte H s"
    unfolding page_byte_def sm using md by (intro ext) (auto simp: s' t)
  ultimately show ?thesis by blast
qed

lemma install_inv:
  assumes inv: "vm_inv H U s" and t: "tlb s = Some t" and i: "i < TLBSize" "\<not> valid (t ! i)"
    and e: "mapped H (IPT s) (currentSpace s) (virtualPage e) (physicalPage e)"
      "dirty e = dirty (IPT s ! nat (physicalPage e))"
    and new: "\<And>j. j < TLBSize \<Longrightarrow> valid (t ! j) \<Longrightarrow> physicalPage (t ! j) \<noteq> physicalPage e"
    and s': "s' = s\<lparr>tlb := Some (t[i := e])\<rparr>"
  shows "vm_inv H U s' \<and> page_byte H s' = page_byte H s"
proof -
  note I = vm_invD [OF inv, unfolded t option.sel]
  have lt: "length t = TLBSize" using I(4) by (simp add: tlb_inv_def)
  have md: "modified (IPT s) (t[i := e]) q = modified (IPT s) t q" for q
    using e(2) i lt by (auto simp: modified_nth [of _ TLBSize] nth_update_cases)
  have "tlb_inv H (IPT s) (currentSpace s) (currentTLB s) (t[i := e])"
    using I(4) e new i lt set_update_subset_insert [of t i e]
    unfolding tlb_inv_def by (auto simp: nth_update_cases) metis+
  then have "vm_inv H U s'"
    using I md by (intro vm_invI [where t = "t[i := e]"]) (simp_all add: s' clean_inv_def)
  moreover have "page_byte H s' = page_byte H s"
    unfolding page_byte_def by (intro ext) (simp add: s' t md)
  ultimately show ?thesis by blast
qed

end
