(* ===== verification/Paging_Evict.thy ===== *)
theory Paging_Evict
  imports Paging_Invariant
begin

text \<open>
  Evicting a page: what the loop over the TLB does, and what is kept when the victim is written
  to the swap file.
\<close>

section \<open>The loop over the TLB\<close>

definition tlb_hit :: "TranslationEntry list \<Rightarrow> int \<Rightarrow> nat \<Rightarrow> bool" where
  "tlb_hit t p i \<longleftrightarrow> i < TLBSize \<and> valid (t ! i) \<and> physicalPage (t ! i) = p"

text \<open>The state when entry \<open>i\<close> is the one of the victim: with the dirty bit saved or not.\<close>

definition entry_gone :: "nat \<Rightarrow> bool \<Rightarrow> 'k vm_scheme \<Rightarrow> 'k vm_scheme" where
  "entry_gone i save s =
     (let t = the (tlb s); e = t ! i; p = nat (physicalPage e) in
      s\<lparr>IPT := (if save then (IPT s)[p := (IPT s ! p)\<lparr>dirty := dirty e\<rparr>] else IPT s),
        tlb := Some (t[i := e\<lparr>valid := False\<rparr>])\<rparr>)"

lemma evict_tlb_hit:
  assumes "vm_inv H U s" "tlb s = Some t" "tlb_hit t p i"
  shows "evict_tlb p (int i) s = Inr (entry_gone i (valid (t ! nat (currentTLB s))) s)"
proof -
  note I = vm_invD [OF assms(1), unfolded assms(2) option.sel]
  have i: "i < TLBSize" "valid (t ! i)" "physicalPage (t ! i) = p" using assms(3) by (auto simp: tlb_hit_def)
  have lt: "length t = TLBSize" "0 \<le> currentTLB s" "currentTLB s < int TLBSize"
    using I(4) by (simp_all add: tlb_inv_def)
  then have "t ! i \<in> set t" using i by simp
  then have "mapped H (IPT s) (currentSpace s) (virtualPage (t ! i)) p"
    using I(4) i unfolding tlb_inv_def by blast
  from mapped_range [OF this] have p: "0 \<le> p" "p < NumPhysPages" by auto
  note g = tlb_get_ok [OF assms(2) lt(1)]
  show ?thesis
    using i lt assms(2)
    by (simp add: evict_tlb_def g entry_gone_def Let_def ipt_upd_ok [OF I(3) p] tlb_set_def)
qed

lemma evict_tlb_miss:
  assumes "tlb s = Some t" "length t = TLBSize" "i < TLBSize" "\<not> tlb_hit t p i"
  shows "evict_tlb p (int i) s = Inr s"
  using assms tlb_get_ok [OF assms(1,2), of "int i"] by (auto simp: evict_tlb_def tlb_hit_def)

lemma evict_loop_miss:
  assumes inv: "vm_inv H U s" and t: "tlb s = Some t" and none: "\<And>i. \<not> tlb_hit t p i"
  shows "for_loop 0 (int TLBSize) (evict_tlb p) s = Inr s"
proof -
  have lt: "length t = TLBSize" using vm_invD(4) [OF inv] t by (simp add: tlb_inv_def)
  have "\<exists>s'. for_loop 0 (int TLBSize) (evict_tlb p) s = Inr s' \<and> s' = s"
  proof (rule for_loop_rule [where I = "\<lambda>_ s'. s' = s"])
    fix j x assume "0 \<le> j" "j < int TLBSize" "x = s"
    then show "\<exists>t'. evict_tlb p j x = Inr t' \<and> t' = s"
      using evict_tlb_miss [OF t lt, of "nat j" p] none by simp
  qed simp_all
  then show ?thesis by simp
qed

lemma evict_loop_hit:
  assumes inv: "vm_inv H U s" and t: "tlb s = Some t" and hit: "tlb_hit t p i"
  shows "for_loop 0 (int TLBSize) (evict_tlb p) s =
    Inr (entry_gone i (valid (t ! nat (currentTLB s))) s)"
proof -
  let ?s' = "entry_gone i (valid (t ! nat (currentTLB s))) s" and ?t' = "t[i := (t ! i)\<lparr>valid := False\<rparr>]"
  have lt: "length t = TLBSize" using vm_invD(4) [OF inv] t by (simp add: tlb_inv_def)
  have uniq: "j = i" if "tlb_hit t p j" for j
    using that hit vm_invD(4) [OF inv] t by (simp add: tlb_inv_def tlb_hit_def)
  have t': "tlb ?s' = Some ?t'" by (simp add: entry_gone_def Let_def t)
  have none: "\<not> tlb_hit ?t' p j" for j
    using uniq [of j] by (cases "j = i") (auto simp: tlb_hit_def lt)
  have i: "i < TLBSize" using hit by (simp add: tlb_hit_def)
  have "\<exists>s'. for_loop 0 (int TLBSize) (evict_tlb p) s = Inr s' \<and>
      s' = (if int i < int TLBSize then ?s' else s)"
  proof (rule for_loop_rule [where I = "\<lambda>j x. x = (if int i < j then ?s' else s)"])
    fix j x assume j: "0 \<le> j" "j < int TLBSize" and x: "x = (if int i < j then ?s' else s)"
    have jn: "int (nat j) = j" "nat j < TLBSize" using j by auto
    consider "int i < j" | "j = int i" | "j < int i" by linarith
    then show "\<exists>t'. evict_tlb p j x = Inr t' \<and> t' = (if int i < j + 1 then ?s' else s)"
    proof cases
      case 1
      then show ?thesis using evict_tlb_miss [OF t' _ jn(2) none] lt jn(1) x by simp
    next
      case 2
      then show ?thesis using evict_tlb_hit [OF inv t hit] x by simp
    next
      case 3
      then have "nat j \<noteq> i" using jn by linarith
      then have "\<not> tlb_hit t p (nat j)" using uniq [of "nat j"] by blast
      then show ?thesis using evict_tlb_miss [OF t lt jn(2)] jn(1) x 3 by simp
    qed
  qed simp_all
  then show ?thesis using i by simp
qed

section \<open>Files\<close>

lemma write_bytes_ok:
  assumes "0 \<le> P"
  shows "\<exists>f'. write_bytes f bs P = Inr f' \<and> length f' = max (length f) (nat P + length bs) \<and>
    (\<forall>k<length bs. file_at f' (nat P + k) = Some (bs ! k)) \<and>
    (\<forall>i<length f. i < nat P \<or> nat P + length bs \<le> i \<longrightarrow> file_at f' i = file_at f i)"
proof -
  define pre where "pre = take (nat P) (f @ replicate (nat P - length f) 0)"
  let ?f = "pre @ bs @ drop (nat P + length bs) f"
  have lp: "length pre = nat P" by (simp add: pre_def)
  have len: "length ?f = max (length f) (nat P + length bs)" by (simp add: lp)
  have "file_at ?f (nat P + k) = Some (bs ! k)" if "k < length bs" for k
    using that by (simp add: file_at_def nth_append lp)
  moreover have "file_at ?f i = file_at f i" if "i < length f" "i < nat P \<or> nat P + length bs \<le> i" for i
  proof (cases "i < nat P")
    case True
    then show ?thesis using that by (simp add: file_at_def nth_append lp) (simp add: pre_def nth_append)
  next
    case False
    then show ?thesis using that by (auto simp: file_at_def nth_append lp)
  qed
  moreover have "write_bytes f bs P = Inr ?f" using assms by (simp add: write_bytes_def pre_def)
  ultimately show ?thesis using len by blast
qed

text \<open>The page of \<open>(sid, v)\<close> is written to the slot \<open>n\<close> of the swap file.\<close>

definition swapped_to ::
  "nat \<Rightarrow> int \<Rightarrow> int \<Rightarrow> u8 list \<Rightarrow> (nat \<Rightarrow> AddrSpace option) \<Rightarrow> u8 list \<Rightarrow> (nat \<Rightarrow> AddrSpace option) \<Rightarrow> u8 list \<Rightarrow> bool" where
  "swapped_to sid v n bs sps sw sps' sw' \<longleftrightarrow>
     page_entry sps' = (page_entry sps)(sid := (page_entry sps sid)(v \<mapsto>
        (the (page_entry sps sid v))\<lparr>location := IN_SWAP, offset := n * PageSize\<rparr>)) \<and>
     (\<forall>x. map_option executable (sps' x) = map_option executable (sps x)) \<and>
     length bs = 128 \<and> length sw' = max (length sw) (nat (n * PageSize) + 128) \<and>
     (\<forall>k<128. file_at sw' (nat (n * PageSize) + k) = Some (bs ! k)) \<and>
     (\<forall>i<length sw. i < nat (n * PageSize) \<or> nat (n * PageSize) + 128 \<le> i \<longrightarrow> file_at sw' i = file_at sw i)"

lemma executable_same:
  "\<forall>x. map_option executable (sps' x) = map_option executable (sps x) \<Longrightarrow> sps x \<noteq> None \<Longrightarrow>
   executable (the (sps' x)) = executable (the (sps x))"
  by (metis option.exhaust_sel option.map_disc_iff option.map_sel)

lemma page_entry_space: "page_entry sps sid v = Some e \<Longrightarrow> sps sid \<noteq> None"
  by (auto simp: page_entry_Some)

lemma swap_invD:
  assumes "swap_inv sps b sw" "page_entry sps sid v = Some e"
  shows "location e = IN_EXECUTABLE \<Longrightarrow> 0 \<le> offset e"
    and "location e = IN_SWAP \<Longrightarrow>
      \<exists>n\<in>bits b. offset e = n * PageSize \<and> n * PageSize + PageSize \<le> int (length sw)"
    and "page_entry sps sid' v' = Some e' \<Longrightarrow> location e = IN_SWAP \<Longrightarrow> location e' = IN_SWAP \<Longrightarrow>
      offset e = offset e' \<Longrightarrow> (sid', v') = (sid, v)"
  using assms unfolding swap_inv_def by blast+

lemma slots_apart:
  fixes m n :: int
  assumes "0 \<le> m" "0 \<le> n" "m \<noteq> n" "k < 128"
  shows "nat (m * PageSize) + k < nat (n * PageSize) \<or> nat (n * PageSize) + 128 \<le> nat (m * PageSize) + k"
  using assms by (simp add: PageSize_def) linarith

lemma swapped_own:
  assumes "swapped_to sid v n bs sps sw sps' sw'" "k < 128"
  shows "backing sps' sw' sid v k = Some (bs ! k)"
  using assms by (simp add: swapped_to_def backing_def)

lemma swapped_other:
  assumes sw: "swapped_to sid v n bs sps sw sps' sw'" and inv: "swap_inv sps b sw"
    and e: "page_entry sps sid v = Some e" and n: "0 \<le> n"
    and slot: "location e = IN_SWAP \<Longrightarrow> offset e = n * PageSize" "location e \<noteq> IN_SWAP \<Longrightarrow> n \<notin> bits b"
    and ne: "(sid', v') \<noteq> (sid, v)" and k: "k < 128"
  shows "backing sps' sw' sid' v' k = backing sps sw sid' v' k"
proof (cases "page_entry sps sid' v'")
  case None
  then show ?thesis using sw ne by (auto simp: backing_def swapped_to_def)
next
  case (Some x)
  then have pe': "page_entry sps' sid' v' = Some x" using sw ne by (auto simp: swapped_to_def)
  have exe: "executable (the (sps' sid')) = executable (the (sps sid'))"
    using sw executable_same [of sps' sps sid'] page_entry_space [OF Some] by (simp add: swapped_to_def)
  show ?thesis
  proof (cases "location x = IN_SWAP")
    case True
    with inv Some obtain m where m: "m \<in> bits b" "offset x = m * PageSize"
      "m * PageSize + PageSize \<le> int (length sw)"
      using swap_invD(2) by blast
    have "m \<noteq> n" using m True slot swap_invD(3) [OF inv e Some] ne by metis
    moreover have m0: "0 \<le> m" using m(1) bits_range [of b] by auto
    ultimately have "nat (m * PageSize) + k < nat (n * PageSize) \<or> nat (n * PageSize) + 128 \<le> nat (m * PageSize) + k"
      using slots_apart n k by blast
    moreover have "nat (m * PageSize) + k < length sw" using m(3) k m0 by (simp add: PageSize_def)
    ultimately have "file_at sw' (nat (m * PageSize) + k) = file_at sw (nat (m * PageSize) + k)"
      using sw unfolding swapped_to_def by blast
    then show ?thesis using Some pe' True m(2) by (simp add: backing_def)
  next
    case False
    then show ?thesis using Some pe' exe by (simp add: backing_def split: DiskLocation.splits)
  qed
qed

lemma swapped_swap_inv:
  assumes sw: "swapped_to sid v n bs sps sw sps' sw'" and inv: "swap_inv sps b sw"
    and e: "page_entry sps sid v = Some e" and n: "0 \<le> n"
    and slot: "location e = IN_SWAP \<Longrightarrow> offset e = n * PageSize" "location e \<noteq> IN_SWAP \<Longrightarrow> n \<notin> bits b"
    and b': "wf_BitMap b'" "bits b' = insert n (bits b)"
  shows "swap_inv sps' b' sw'"
proof -
  have pe': "page_entry sps' x y = (if (x, y) = (sid, v) then Some (e\<lparr>location := IN_SWAP, offset := n * PageSize\<rparr>)
      else page_entry sps x y)" for x y
    using sw e by (auto simp: swapped_to_def)
  have len: "length sw \<le> length sw'" "n * PageSize + PageSize \<le> int (length sw')"
    using sw n by (auto simp: swapped_to_def PageSize_def)
  have slot': "location x = IN_SWAP \<Longrightarrow> page_entry sps sid' v' = Some x \<Longrightarrow> (sid', v') \<noteq> (sid, v) \<Longrightarrow>
      offset x \<noteq> n * PageSize" for sid' v' x
  proof
    assume x: "location x = IN_SWAP" "page_entry sps sid' v' = Some x" "(sid', v') \<noteq> (sid, v)"
      "offset x = n * PageSize"
    obtain m where "m \<in> bits b" "offset x = m * PageSize" using swap_invD(2) [OF inv x(2,1)] by blast
    then have "n \<in> bits b" using x(4) by (simp add: PageSize_def)
    then show False using slot x swap_invD(3) [OF inv e x(2)] by metis
  qed
  have "(location x = IN_EXECUTABLE \<longrightarrow> 0 \<le> offset x) \<and> (location x = IN_SWAP \<longrightarrow>
      (\<exists>m\<in>bits b'. offset x = m * PageSize \<and> m * PageSize + PageSize \<le> int (length sw')))"
    if "page_entry sps' sid' v' = Some x" for sid' v' x
  proof (cases "(sid', v') = (sid, v)")
    case True
    then show ?thesis using that len b' by (auto simp: pe')
  next
    case False
    then have x: "page_entry sps sid' v' = Some x" using that by (simp only: pe' if_False)
    note D = swap_invD [OF inv x]
    show ?thesis
    proof (intro conjI impI)
      assume "location x = IN_SWAP"
      then obtain m where m: "m \<in> bits b" "offset x = m * PageSize" "m * PageSize + PageSize \<le> int (length sw)"
        using D(2) by blast
      then show "\<exists>m\<in>bits b'. offset x = m * PageSize \<and> m * PageSize + PageSize \<le> int (length sw')"
        using len(1) b'(2) by (intro bexI [of _ m]) auto
    qed (rule D(1))
  qed
  moreover have "sid1 = sid2 \<and> v1 = v2"
    if h: "page_entry sps' sid1 v1 = Some x1" "page_entry sps' sid2 v2 = Some x2"
      "location x1 = IN_SWAP" "location x2 = IN_SWAP" "offset x1 = offset x2" for sid1 v1 x1 sid2 v2 x2
  proof (cases "(sid1, v1) = (sid, v)")
    case True
    then have "offset x2 = n * PageSize" using h(1,5) by (auto simp: pe')
    then have "(sid2, v2) = (sid, v)" using slot' [of x2 sid2 v2] h(2,4) by (auto simp: pe' split: if_splits)
    then show ?thesis using True by simp
  next
    case False
    then have x1: "page_entry sps sid1 v1 = Some x1" using h(1) by (simp only: pe' if_False)
    have "(sid2, v2) \<noteq> (sid, v)"
      using slot' [OF h(3) x1 False] h(2,5) by (auto simp: pe')
    then have "page_entry sps sid2 v2 = Some x2" using h(2) by (simp only: pe' if_False)
    from swap_invD(3) [OF inv x1 this h(3-5)] show ?thesis by simp
  qed
  ultimately show ?thesis
    unfolding swap_inv_def using b'(1) by blast
qed


section \<open>The victim leaves its frame\<close>

lemma mapped_hole: "mapped {p} ipt sid v q \<longleftrightarrow> mapped {} ipt sid v q \<and> q \<noteq> p"
  by (auto simp: mapped_def)

text \<open>What stays when the frame \<open>p\<close> becomes the hole and nothing else changes.\<close>

lemma hole_parts:
  assumes inv: "vm_inv {} U s" and t: "tlb s = Some t" and p: "p \<in> frames (IPT s)"
    and nohit: "\<And>i. \<not> tlb_hit t p i"
  shows "ipt_inv {p} (IPT s) (spaces s)"
    "tlb_inv {p} (IPT s) (currentSpace s) (currentTLB s) t"
    "map_inv {p} (IPT s) (mainMemoryBitmap s)"
    "clean_inv {p} (IPT s) t (mainMemory s) (spaces s) (swapFile s)"
proof -
  note I = vm_invD [OF inv, unfolded t option.sel]
  show "ipt_inv {p} (IPT s) (spaces s)"
    using I(3) unfolding ipt_inv_def mapped_hole by auto
  have "physicalPage e \<noteq> p" if "e \<in> set t" "valid e" for e
    using that nohit I(4) by (auto simp: in_set_conv_nth tlb_hit_def tlb_inv_def)
  then show "tlb_inv {p} (IPT s) (currentSpace s) (currentTLB s) t"
    using I(4) unfolding tlb_inv_def mapped_hole by auto
  show "map_inv {p} (IPT s) (mainMemoryBitmap s)"
    using I(5) p by (auto simp: map_inv_def)
  show "clean_inv {p} (IPT s) t (mainMemory s) (spaces s) (swapFile s)"
    using I(7) unfolding clean_inv_def mapped_hole by blast
qed

lemma hole_clean:
  assumes inv: "vm_inv {} U s" and t: "tlb s = Some t" and p: "p \<in> frames (IPT s)"
    and nohit: "\<And>i. \<not> tlb_hit t p i" and clean: "\<not> modified (IPT s) t p"
  shows "vm_inv {p} U s \<and> page_byte {p} s = page_byte {} s"
proof
  show "vm_inv {p} U s"
    using vm_invD [OF inv] hole_parts [OF inv t p nohit] frames_range [OF p] t
    by (intro vm_invI [where t = t]) auto
  show "page_byte {p} s = page_byte {} s"
    unfolding page_byte_def mapped_hole t option.sel using clean by (intro ext) blast
qed

lemma frame_bytes_nth: "length (frame_bytes s p) = 128"
  "k < 128 \<Longrightarrow> frame_bytes s p ! k = frame_byte (mainMemory s) p k"
  by (simp_all add: frame_bytes_def frame_byte_def PageSize_def)

text \<open>The evicted page of a victim that was modified.\<close>

lemma hole_dirty:
  assumes inv: "vm_inv {} U s" and t: "tlb s = Some t" and p: "mapped {} (IPT s) sid v p"
    and nohit: "\<And>i. \<not> tlb_hit t p i" and dirt: "dirty (IPT s ! nat p)"
    and e: "page_entry (spaces s) sid v = Some e" and n: "0 \<le> n"
    and slot: "location e = IN_SWAP \<Longrightarrow> offset e = n * PageSize" "location e \<noteq> IN_SWAP \<Longrightarrow> n \<notin> bits (swapMap s)"
    and b': "wf_BitMap b'" "bits b' = insert n (bits (swapMap s))"
    and sw: "swapped_to sid v n (frame_bytes s p) (spaces s) (swapFile s) sps' f'"
    and s': "s' = s\<lparr>swapMap := b', swapFile := f', spaces := sps'\<rparr>"
  shows "vm_inv {p} U s' \<and> (\<forall>x y k c. k < 128 \<longrightarrow> page_byte {} s x y k c \<longrightarrow> page_byte {p} s' x y k c)"
proof -
  note I = vm_invD [OF inv, unfolded t option.sel]
  have pf: "p \<in> frames (IPT s)" using p by (simp add: mapped_def)
  note hp = hole_parts [OF inv t pf nohit]
  have bk: "backing sps' f' x y k = backing (spaces s) (swapFile s) x y k" if "(x, y) \<noteq> (sid, v)" "k < 128" for x y k
    by (rule swapped_other [OF sw I(6) e n slot that])
  have own: "backing sps' f' sid v k = Some (frame_byte (mainMemory s) p k)" if "k < 128" for k
    using swapped_own [OF sw that] frame_bytes_nth(2) [OF that] by simp
  have uniq: "q = p" if "mapped {} (IPT s) sid v q" for q
    using I(3) p that unfolding ipt_inv_def by blast
  have some: "page_entry sps' x y \<noteq> None" if "page_entry (spaces s) x y \<noteq> None" for x y
    using that sw by (auto simp: swapped_to_def)
  have "ipt_inv {p} (IPT s) sps'"
    using hp(1) some unfolding ipt_inv_def by blast
  moreover have "swap_inv sps' b' f'" by (rule swapped_swap_inv [OF sw I(6) e n slot b'])
  moreover have "clean_inv {p} (IPT s) t (mainMemory s) sps' f'"
    unfolding clean_inv_def
  proof (intro allI impI, elim conjE)
    fix x y q k c
    assume q: "mapped {p} (IPT s) x y q" "\<not> modified (IPT s) t q" "k < 128" "backing sps' f' x y k = Some c"
    have "(x, y) \<noteq> (sid, v)" using q(1) uniq [of q] by (auto simp: mapped_hole)
    then show "frame_byte (mainMemory s) q k = c"
      using hp(4) q bk unfolding clean_inv_def by metis
  qed
  ultimately have "vm_inv {p} U s'"
    using I hp frames_range [OF pf] t by (intro vm_invI [where t = t]) (simp_all add: s')
  moreover have "page_byte {p} s' x y k c" if k: "k < 128" and pb: "page_byte {} s x y k c" for x y k c
  proof (cases "(x, y) = (sid, v)")
    case True
    have "modified (IPT s) t p" using dirt by (simp add: modified_def)
    then have "c = frame_byte (mainMemory s) p k"
      using pb p uniq True unfolding page_byte_def t option.sel by blast
    moreover have "\<nexists>q. mapped {p} (IPT s) x y q" using uniq True by (auto simp: mapped_hole)
    ultimately show ?thesis using own [OF k] True by (simp add: page_byte_def s')
  next
    case False
    have "\<not> mapped {} (IPT s) x y p" using p False by (auto simp: mapped_def)
    then have "mapped {p} (IPT s) x y q \<longleftrightarrow> mapped {} (IPT s) x y q" for q by (auto simp: mapped_hole)
    then show ?thesis using pb bk [OF False k] unfolding page_byte_def by (simp add: s')
  qed
  ultimately show ?thesis by blast
qed

text \<open>\<open>swap_out\<close> needs a slot of the swap file for a modified page that never had one.\<close>

definition swap_room :: "'k vm_scheme \<Rightarrow> bool" where
  "swap_room s \<longleftrightarrow> \<not> {0..<numBits (swapMap s)} \<subseteq> bits (swapMap s)"

lemma swap_out_ok:
  assumes inv: "vm_inv {} U s" and t: "tlb s = Some t" and p: "p \<in> frames (IPT s)"
    and nohit: "\<And>i. \<not> tlb_hit t p i" and room: "swap_room s"
  shows "\<exists>b f sps. let s' = s\<lparr>swapMap := b, swapFile := f, spaces := sps\<rparr> in
    swap_out p s = Inr s' \<and> vm_inv {p} U s' \<and>
    (\<forall>x y. (page_entry sps x y = None) = (page_entry (spaces s) x y = None)) \<and>
    (\<forall>x y k c. k < 128 \<longrightarrow> page_byte {} s x y k c \<longrightarrow> page_byte {p} s' x y k c)"
proof -
  note I = vm_invD [OF inv, unfolded t option.sel]
  note pr = frames_range [OF p]
  have g: "ipt_get s p = Inr (IPT s ! nat p)" using ipt_get_ok [OF I(3)] pr by blast
  show ?thesis
  proof (cases "dirty (IPT s ! nat p)")
    case False
    then have "\<not> modified (IPT s) t p"
      using nohit I(4) by (auto simp: modified_nth [of t TLBSize] tlb_inv_def tlb_hit_def)
    from hole_clean [OF inv t p nohit this] False g show ?thesis
      by (intro exI [of _ "swapMap s"] exI [of _ "swapFile s"] exI [of _ "spaces s"])
         (simp add: swap_out_def)
  next
    case True
    from I(3) p obtain sid e where sid: "space (IPT s ! nat p) = Some sid"
      and e: "page_entry (spaces s) sid (virtualPage (IPT s ! nat p)) = Some e"
      unfolding ipt_inv_def by blast
    define v where "v = virtualPage (IPT s ! nat p)"
    have m: "mapped {} (IPT s) sid v p" using p sid by (simp add: mapped_def v_def)
    have wf: "wf_BitMap (swapMap s)" using I(6) by (simp add: swap_inv_def)
    obtain n b where nb: "(if location e = IN_SWAP then Inr (quot (offset e) PageSize, swapMap s)
          else Find (swapMap s)) = Inr (n, b)" and n: "0 \<le> n"
      "location e = IN_SWAP \<Longrightarrow> offset e = n * PageSize" "location e \<noteq> IN_SWAP \<Longrightarrow> n \<notin> bits (swapMap s)"
      "wf_BitMap b" "bits b = insert n (bits (swapMap s))"
    proof (cases "location e = IN_SWAP")
      case True
      obtain n where "n \<in> bits (swapMap s)" "offset e = n * PageSize" using swap_invD(2) [OF I(6) e True] by blast
      moreover have "0 \<le> n" using \<open>n \<in> bits _\<close> bits_range [of "swapMap s"] by auto
      ultimately show thesis
        using True wf by (intro that [of n "swapMap s"]) (auto simp: quot_nonneg PageSize_def)
    next
      case False
      then show thesis using Find_free [OF wf room [unfolded swap_room_def]] that by auto
    qed
    obtain f where f: "write_bytes (swapFile s) (frame_bytes s p) (n * PageSize) = Inr f"
      "length f = max (length (swapFile s)) (nat (n * PageSize) + 128)"
      "\<forall>k<128. file_at f (nat (n * PageSize) + k) = Some (frame_bytes s p ! k)"
      "\<forall>i<length (swapFile s). i < nat (n * PageSize) \<or> nat (n * PageSize) + 128 \<le> i \<longrightarrow>
         file_at f i = file_at (swapFile s) i"
      using write_bytes_ok [of "n * PageSize" "swapFile s" "frame_bytes s p"] n(1)
      by (auto simp: frame_bytes_nth PageSize_def)
    let ?s1 = "s\<lparr>swapMap := b, swapFile := f\<rparr>"
    obtain sps where sps: "pt_upd (Some sid) v (\<lambda>pte. pte\<lparr>location := IN_SWAP, offset := n * PageSize\<rparr>) ?s1 =
        Inr (?s1\<lparr>spaces := sps\<rparr>)"
      "page_entry sps = (page_entry (spaces s))(sid := (page_entry (spaces s) sid)(v \<mapsto> e\<lparr>location := IN_SWAP, offset := n * PageSize\<rparr>))"
      "\<forall>x. map_option executable (sps x) = map_option executable (spaces s x)"
      using pt_upd_ok [of ?s1 sid v e] e by (auto simp: v_def)
    have sw: "swapped_to sid v n (frame_bytes s p) (spaces s) (swapFile s) sps f"
      using sps(2,3) f e by (simp add: swapped_to_def frame_bytes_nth v_def)
    have so: "swap_out p s = Inr (?s1\<lparr>spaces := sps\<rparr>)"
      using True g sid pt_get_ok [OF e] nb f(1) sps(1) by (simp add: swap_out_def v_def)
    have "\<forall>x y. (page_entry sps x y = None) = (page_entry (spaces s) x y = None)"
      using sps(2) e by (auto simp: v_def)
    moreover note hole_dirty [OF inv t m nohit True e [folded v_def] n(1,2,3,4,5) sw refl]
    ultimately show ?thesis
      using so by (intro exI [of _ b] exI [of _ f] exI [of _ sps]) simp
  qed
qed

end
