(* ===== verification/Paging_Fault.thy ===== *)
theory Paging_Fault
  imports Paging_Evict
begin

text \<open>
  The page-fault handler keeps the invariant and the memory of every process: lemmas for the
  choice of the victim, its eviction, the reading of the page and the new TLB entry.
\<close>

section \<open>Choosing and evicting the victim\<close>

definition rand_ok :: "(nat \<Rightarrow> int) \<Rightarrow> bool" where
  "rand_ok r \<longleftrightarrow> (\<forall>n. 0 \<le> r n)"

lemma rem_less: "0 \<le> a \<Longrightarrow> 0 < b \<Longrightarrow> 0 \<le> rem a b \<and> rem a b < b"
  by (simp add: rem_def quot_nonneg minus_div_mult_eq_mod)

lemma choose_frame_ok:
  assumes inv: "vm_inv {} {} s" and full: "frames (IPT s) = {0..<NumPhysPages}" and r: "rand_ok (randoms s)"
  shows "\<exists>p l r'. choose_frame s = Some (Inr (p, s\<lparr>evictionList := l, randoms := r'\<rparr>)) \<and>
    p \<in> frames (IPT s) \<and> list_inv {p} (IPT s) (evictionPolicy s) l \<and> rand_ok r' \<and>
    (evictionPolicy s = FIFO \<longrightarrow> evictionList s = p # l)"
proof -
  note I = vm_invD [OF inv]
  have free: "ipt_get s p = Inr (IPT s ! nat p) \<and> \<not> use (IPT s ! nat p)" if "p \<in> {0..<NumPhysPages}" for p
    using that I(9) ipt_get_ok [OF I(3)] by (simp add: unused_def)
  show ?thesis
  proof (cases "evictionPolicy s")
    case FIFO
    have "frames (IPT s) \<noteq> {}" using full by (simp add: NumPhysPages_def)
    then have "set (evictionList s) \<noteq> {}" using I(8) FIFO by (auto simp: list_inv_def)
    then obtain p l where l: "evictionList s = p # l" by (cases "evictionList s") auto
    then have p: "p \<in> {0..<NumPhysPages}" using I(8) by (auto simp: list_inv_def)
    have "choose_frame s = Some (Inr (p, s\<lparr>evictionList := l, randoms := randoms s\<rparr>))"
      using FIFO l free [OF p] by (simp add: choose_frame_def fifo_frame.simps [of s])
    moreover have "list_inv {p} (IPT s) (evictionPolicy s) l"
      using I(8) l by (auto simp: list_inv_def)
    ultimately show ?thesis
      using p full l r by (intro exI [of _ p] exI [of _ l] exI [of _ "randoms s"]) simp
  next
    case RAND
    define p where "p = rem (randoms s 0) NumPhysPages"
    define r' where "r' = (\<lambda>n. randoms s (Suc n))"
    have p: "p \<in> {0..<NumPhysPages}"
      using r rem_less [of "randoms s 0" NumPhysPages] by (simp add: p_def rand_ok_def NumPhysPages_def)
    have g: "ipt_get (s\<lparr>randoms := r'\<rparr>) p = ipt_get s p" by (simp add: ipt_get_def)
    have "random_frame s = Some (Inr (p, s\<lparr>randoms := r'\<rparr>))"
      using free [OF p] by (subst random_frame.simps) (simp add: rand_def p_def [symmetric] r'_def [symmetric] g)
    then have "choose_frame s = Some (Inr (p, s\<lparr>evictionList := evictionList s, randoms := r'\<rparr>))"
      using RAND by (simp add: choose_frame_def)
    moreover have "list_inv {p} (IPT s) (evictionPolicy s) (evictionList s)"
      using list_inv_mono [OF I(8), of "{p}"] by simp
    moreover have "rand_ok r'" using r by (simp add: rand_ok_def r'_def)
    ultimately show ?thesis 
      using p full RAND by (intro exI [of _ p] exI [of _ "evictionList s"] exI [of _ r']) simp
  qed
qed

text \<open>When the dirty bit of the victim can be lost: its TLB entry knows more than the page
  table, and the entry of number \<open>currentTLB\<close>, which the code tests instead, is invalid.\<close>

definition dirty_lost :: "int \<Rightarrow> 'k vm_scheme \<Rightarrow> bool" where
  "dirty_lost p s \<longleftrightarrow> \<not> valid (the (tlb s) ! nat (currentTLB s)) \<and> \<not> dirty (IPT s ! nat p) \<and>
     modified (IPT s) (the (tlb s)) p"

text \<open>The pager's other fields, which eviction and loading leave alone.\<close>

definition same_cpu :: "'k vm_scheme \<Rightarrow> 'k vm_scheme \<Rightarrow> bool" where
  "same_cpu s s' \<longleftrightarrow> registers s' = registers s \<and> currentSpace s' = currentSpace s \<and>
     evictionPolicy s' = evictionPolicy s \<and> currentTLB s' = currentTLB s \<and>
     (\<forall>x y. (page_entry (spaces s') x y = None) = (page_entry (spaces s) x y = None))"

lemma same_cpu_trans: "same_cpu s s' \<Longrightarrow> same_cpu s' s'' \<Longrightarrow> same_cpu s s''"
  by (simp add: same_cpu_def)

definition keeps_bytes :: "int set \<Rightarrow> 'k vm_scheme \<Rightarrow> int set \<Rightarrow> 'k vm_scheme \<Rightarrow> bool" where
  "keeps_bytes H s H' s' \<longleftrightarrow> (\<forall>x y k c. k < 128 \<longrightarrow> page_byte H s x y k c \<longrightarrow> page_byte H' s' x y k c)"

lemma keeps_bytes_trans: "keeps_bytes H s H' s' \<Longrightarrow> keeps_bytes H' s' H'' s'' \<Longrightarrow> keeps_bytes H s H'' s''"
  by (simp add: keeps_bytes_def)

lemma keeps_bytes_eq: "page_byte H' s' = page_byte H s \<Longrightarrow> keeps_bytes H s H' s'"
  by (simp add: keeps_bytes_def)

lemma hit_gone:
  assumes "vm_inv H U s" "tlb s = Some t" "tlb_hit t p i"
  shows "\<not> tlb_hit (t[i := (t ! i)\<lparr>valid := False\<rparr>]) p j"
  using assms vm_invD(4) [OF assms(1)]
  by (cases "j = i") (auto simp: tlb_hit_def tlb_inv_def)

lemma same_pages_trans: "same_pages a b \<Longrightarrow> same_pages b c \<Longrightarrow> same_pages a c"
  by (simp add: same_pages_def)

lemma evict_loop_ok:
  assumes inv: "vm_inv {} U s" and t: "tlb s = Some t" and p: "p \<in> frames (IPT s)"
    and sync: "\<not> dirty_lost p s"
  shows "\<exists>s' t'. for_loop 0 (int TLBSize) (evict_tlb p) s = Inr s' \<and> vm_inv {} U s' \<and> tlb s' = Some t' \<and>
    (\<forall>i. \<not> tlb_hit t' p i) \<and> frames (IPT s') = frames (IPT s) \<and> page_byte {} s' = page_byte {} s \<and>
    same_pages (IPT s) (IPT s') \<and> spaces s' = spaces s \<and> swapMap s' = swapMap s \<and> same_cpu s s' \<and>
    evictionList s' = evictionList s \<and> randoms s' = randoms s"
proof (cases "\<exists>i. tlb_hit t p i")
  case False
  then show ?thesis
    using evict_loop_miss [OF inv t] inv t
    by (intro exI [of _ s] exI [of _ t]) (auto simp: same_pages_def same_cpu_def)
next
  case True
  then obtain i where hit: "tlb_hit t p i" by blast
  then have i: "i < TLBSize" "valid (t ! i)" "physicalPage (t ! i) = p" by (auto simp: tlb_hit_def)
  let ?t' = "t[i := (t ! i)\<lparr>valid := False\<rparr>]"
  note I = vm_invD [OF inv, unfolded t option.sel]
  have lt: "length t = TLBSize" and len: "int (length (IPT s)) = NumPhysPages"
    using I(3,4) by (simp_all add: tlb_inv_def ipt_inv_def)
  define sv where "sv = s\<lparr>IPT := (IPT s)[nat (physicalPage (t ! i)) :=
      (IPT s ! nat (physicalPage (t ! i)))\<lparr>dirty := dirty (t ! i)\<rparr>], tlb := Some ?t'\<rparr>"
  have sv: "vm_inv {} U sv \<and> page_byte {} sv = page_byte {} s"
    by (rule retire_inv [OF inv t i(1,2)]) (simp add: sv_def)
  have same: "entry_gone i (valid (t ! nat (currentTLB s))) s = sv"
  proof (cases "valid (t ! nat (currentTLB s))")
    case True
    then show ?thesis by (simp add: entry_gone_def sv_def t Let_def)
  next
    case False
    have "modified (IPT s) t p = (dirty (IPT s ! nat p) \<or> dirty (t ! i))"
      using hit I(4) i lt by (auto simp: modified_nth [OF lt] tlb_inv_def tlb_hit_def)
    moreover have "dirty (IPT s ! nat p) \<longrightarrow> dirty (t ! i)"
      using I(4) i lt by (auto simp: tlb_inv_def)
    ultimately have "dirty (t ! i) = dirty (IPT s ! nat p)"
      using sync False t by (auto simp: dirty_lost_def)
    then have "(IPT s ! nat p)\<lparr>dirty := dirty (t ! i)\<rparr> = IPT s ! nat p" by simp
    then show ?thesis
      using False i by (simp add: entry_gone_def sv_def t Let_def)
  qed
  have sp: "same_pages (IPT s) (IPT sv)" unfolding sv_def by (simp add: same_pages_update)
  from same_pages_frames [OF this len] have "frames (IPT sv) = frames (IPT s)" .
  then show ?thesis
    using evict_loop_hit [OF inv t hit, unfolded same] sv hit_gone [OF inv t hit] sp
    by (intro exI [of _ sv] exI [of _ ?t']) (simp add: sv_def same_cpu_def)
qed

lemma evict_frame_ok:
  assumes inv: "vm_inv {} {p} s" and t: "tlb s = Some t" and p: "p \<in> frames (IPT s)"
    and room: "swap_room s" and sync: "\<not> dirty_lost p s"
  shows "\<exists>s' t'. evict_frame p s = Inr s' \<and> vm_inv {p} {p} s' \<and> tlb s' = Some t' \<and>
    same_pages (IPT s) (IPT s') \<and> keeps_bytes {} s {p} s' \<and> same_cpu s s' \<and> randoms s' = randoms s"
proof -
  note pr = frames_range [OF p]
  define s1 where "s1 = s\<lparr>IPT := (IPT s)[nat p := (IPT s ! nat p)\<lparr>use := True\<rparr>]\<rparr>"
  have len: "int (length (IPT s)) = NumPhysPages" using vm_invD(3) [OF inv] by (simp add: ipt_inv_def)
  have s1: "vm_inv {} {p} s1" "page_byte {} s1 = page_byte {} s"
    using use_update_inv [OF inv _ _ s1_def, of "{p}"] pr vm_invD(8) [OF inv] by auto
  have same: "same_pages (IPT s) (IPT s1)" unfolding s1_def by (simp add: same_pages_update)
  have p1: "p \<in> frames (IPT s1)" using p same_pages_frames [OF same len] by simp
  have t1: "tlb s1 = Some t" using t by (simp add: s1_def)
  have "same_dirty (IPT s) (IPT s1)" unfolding s1_def by (simp add: same_dirty_def nth_update_cases)
  then have "\<not> dirty_lost p s1"
    using sync pr len by (auto simp: dirty_lost_def modified_def same_dirty_def s1_def nth_update_cases)
  from evict_loop_ok [OF s1(1) t1 p1 this] obtain s2 t2 where
    s2: "for_loop 0 (int TLBSize) (evict_tlb p) s1 = Inr s2" "vm_inv {} {p} s2" "tlb s2 = Some t2"
      "\<And>i. \<not> tlb_hit t2 p i" "frames (IPT s2) = frames (IPT s1)" "page_byte {} s2 = page_byte {} s1"
      "same_pages (IPT s1) (IPT s2)" "swapMap s2 = swapMap s1" "same_cpu s1 s2" "randoms s2 = randoms s1" by blast
  have "swap_room s2" using room s2(8) by (simp add: swap_room_def s1_def)
  from swap_out_ok [OF s2(2,3) _ s2(4) this] p1 s2(5) obtain b f sps where
    s3: "swap_out p s2 = Inr (s2\<lparr>swapMap := b, swapFile := f, spaces := sps\<rparr>)"
      "vm_inv {p} {p} (s2\<lparr>swapMap := b, swapFile := f, spaces := sps\<rparr>)"
      "\<forall>x y. (page_entry sps x y = None) = (page_entry (spaces s2) x y = None)"
      "\<forall>x y k c. k < 128 \<longrightarrow> page_byte {} s2 x y k c \<longrightarrow>
         page_byte {p} (s2\<lparr>swapMap := b, swapFile := f, spaces := sps\<rparr>) x y k c"
    by (auto simp: Let_def)
  have "ipt_upd p (use_update (\<lambda>_. True)) s = Inr s1"
    using ipt_upd_ok [OF vm_invD(3) [OF inv]] pr by (simp add: s1_def)
  then have "evict_frame p s = Inr (s2\<lparr>swapMap := b, swapFile := f, spaces := sps\<rparr>)"
    using s2(1) s3(1) by (simp add: evict_frame_def)
  moreover have "same_cpu s (s2\<lparr>swapMap := b, swapFile := f, spaces := sps\<rparr>)"
    using s2(9) s3(3) by (simp add: same_cpu_def s1_def)
  moreover have "keeps_bytes {} s {p} (s2\<lparr>swapMap := b, swapFile := f, spaces := sps\<rparr>)"
    using s3(4) s1(2) s2(6) by (simp add: keeps_bytes_def)
  ultimately show ?thesis
    using s3(2) s2(3,10) same_pages_trans [OF same s2(7)]
    by (intro exI [of _ "s2\<lparr>swapMap := b, swapFile := f, spaces := sps\<rparr>"] exI [of _ t2]) (simp add: s1_def)
qed

lemma Evict_ok:
  assumes inv: "vm_inv {} {} s" and t: "tlb s = Some t" and full: "frames (IPT s) = {0..<NumPhysPages}"
    and r: "rand_ok (randoms s)" and room: "swap_room s" and sync: "\<And>p. \<not> dirty_lost p s"
  shows "\<exists>p s' t'. Evict s = Some (Inr (p, s')) \<and> p \<in> {0..<NumPhysPages} \<and> vm_inv {p} {p} s' \<and>
    tlb s' = Some t' \<and> same_pages (IPT s) (IPT s') \<and> keeps_bytes {} s {p} s' \<and> same_cpu s s' \<and>
    rand_ok (randoms s')"
proof -
  obtain p l r' where c: "choose_frame s = Some (Inr (p, s\<lparr>evictionList := l, randoms := r'\<rparr>))"
    "p \<in> frames (IPT s)" "list_inv {p} (IPT s) (evictionPolicy s) l" "rand_ok r'"
    using choose_frame_ok [OF inv full r] by blast
  define s1 where "s1 = s\<lparr>evictionList := l, randoms := r'\<rparr>"
  have "unused {p} (IPT s)" using vm_invD(9) [OF inv] by (simp add: unused_def)
  then have i1: "vm_inv {} {p} s1"
    using vm_invD [OF inv] c(3) t by (intro vm_invI [where t = t]) (simp_all add: s1_def)
  have p1: "p \<in> frames (IPT s1)" "tlb s1 = Some t" "swap_room s1" "\<not> dirty_lost p s1"
    using c(2) t room sync [of p] by (simp_all add: s1_def swap_room_def dirty_lost_def)
  have pb: "page_byte {} s1 = page_byte {} s" by (intro ext) (simp add: page_byte_def s1_def)
  from evict_frame_ok [OF i1 p1(2,1,3,4)] obtain s' t' where
    s': "evict_frame p s1 = Inr s'" "vm_inv {p} {p} s'" "tlb s' = Some t'" "same_pages (IPT s1) (IPT s')"
      "keeps_bytes {} s1 {p} s'" "same_cpu s1 s'" "randoms s' = randoms s1" by blast
  have "Evict s = Some (Inr (p, s'))" using c(1) s'(1) by (simp add: Evict_def s1_def)
  moreover have "keeps_bytes {} s {p} s'" using s'(5) pb by (simp add: keeps_bytes_def)
  moreover have "same_cpu s s'" using s'(6) by (simp add: same_cpu_def s1_def)
  moreover have "rand_ok (randoms s')" using s'(7) c(4) by (simp add: s1_def)
  moreover have "same_pages (IPT s) (IPT s')" using s'(4) by (simp add: s1_def)
  ultimately show ?thesis using s'(2,3) frames_range [OF c(2)] by auto
qed

section \<open>Loading a page\<close>

definition same_locations ::
  "(nat \<Rightarrow> AddrSpace option) \<Rightarrow> (nat \<Rightarrow> AddrSpace option) \<Rightarrow> bool" where
  "same_locations sps sps' \<longleftrightarrow>
     (\<forall>x y. map_option (\<lambda>e. (location e, offset e)) (page_entry sps' x y) =
            map_option (\<lambda>e. (location e, offset e)) (page_entry sps x y)) \<and>
     (\<forall>x. map_option executable (sps' x) = map_option executable (sps x))"

lemma same_locations_entry:
  assumes "same_locations sps sps'" "page_entry sps' x y = Some e'"
  shows "\<exists>e. page_entry sps x y = Some e \<and> location e' = location e \<and> offset e' = offset e"
proof -
  have "map_option (\<lambda>e. (location e, offset e)) (page_entry sps x y) = Some (location e', offset e')"
    using assms unfolding same_locations_def by (metis option.simps(9))
  then show ?thesis by auto
qed

lemma same_locations_None:
  assumes "same_locations sps sps'"
  shows "(page_entry sps' x y = None) = (page_entry sps x y = None)"
proof -
  have "map_option (\<lambda>e. (location e, offset e)) (page_entry sps' x y) =
      map_option (\<lambda>e. (location e, offset e)) (page_entry sps x y)"
    using assms unfolding same_locations_def by blast
  then show ?thesis by (cases "page_entry sps' x y"; cases "page_entry sps x y") simp_all
qed

lemma same_locations_backing:
  assumes "same_locations sps sps'"
  shows "backing sps' sw x y k = backing sps sw x y k"
proof (cases "page_entry sps' x y")
  case None
  then show ?thesis using same_locations_None [OF assms, of x y] by (simp add: backing_def)
next
  case (Some e')
  then obtain e where e: "page_entry sps x y = Some e" "location e' = location e" "offset e' = offset e"
    using same_locations_entry [OF assms] by blast
  have "executable (the (sps' x)) = executable (the (sps x))"
    by (rule executable_same) (use assms page_entry_space [OF e(1)] in \<open>simp_all add: same_locations_def\<close>)
  then show ?thesis using Some e by (simp add: backing_def split: DiskLocation.splits)
qed

lemma same_locations_swap_inv:
  assumes "same_locations sps sps'" "swap_inv sps b sw"
  shows "swap_inv sps' b sw"
  unfolding swap_inv_def
proof (intro conjI allI impI; (elim conjE)?)
  show "wf_BitMap b" using assms(2) by (simp add: swap_inv_def)
next
  fix x y e assume e: "page_entry sps' x y = Some e"
  from same_locations_entry [OF assms(1) e] obtain e0 where
    e0: "page_entry sps x y = Some e0" "location e = location e0" "offset e = offset e0" by blast
  note D = swap_invD(1,2) [OF assms(2) e0(1), folded e0(2,3)]
  show "location e = IN_EXECUTABLE \<Longrightarrow> 0 \<le> offset e" by (rule D(1))
  show "location e = IN_SWAP \<Longrightarrow> \<exists>n\<in>bits b. offset e = n * PageSize \<and> n * PageSize + PageSize \<le> int (length sw)"
    by (rule D(2))
next
  fix x y e x' y' e'
  assume e: "page_entry sps' x y = Some e" and e': "page_entry sps' x' y' = Some e'"
    and l: "location e = IN_SWAP" "location e' = IN_SWAP" "offset e = offset e'"
  from same_locations_entry [OF assms(1) e] obtain e0 where
    e0: "page_entry sps x y = Some e0" "location e = location e0" "offset e = offset e0" by blast
  from same_locations_entry [OF assms(1) e'] obtain e1 where
    e1: "page_entry sps x' y' = Some e1" "location e' = location e1" "offset e' = offset e1" by blast
  have "(x', y') = (x, y)"
    using swap_invD(3) [OF assms(2) e0(1) e1(1)] l e0 e1 by simp
  then show "x = x'" "y = y'" by simp_all
qed

text \<open>What \<open>HandleIPTMiss\<close> copies into the frame.\<close>

definition page_bytes :: "'k vm_scheme \<Rightarrow> AddrSpace \<Rightarrow> PageTableEntry \<Rightarrow> u8 list" where
  "page_bytes s sp e = (case location e of
       IN_EXECUTABLE \<Rightarrow> take 128 (drop (nat (offset e)) (executable sp))
     | IN_SWAP \<Rightarrow> take 128 (drop (nat (offset e)) (swapFile s))
     | _ \<Rightarrow> [])"

lemma page_bytes_length: "length (page_bytes s sp e) \<le> 128"
  by (simp add: page_bytes_def split: DiskLocation.splits)

lemma file_at_take:
  "file_at f (i + k) = Some b \<Longrightarrow> k < 128 \<Longrightarrow> k < length (take 128 (drop i f)) \<and> take 128 (drop i f) ! k = b"
  by (auto simp: file_at_def split: if_splits)

lemma page_bytes_backing:
  assumes "page_entry (spaces s) sid v = Some e" "spaces s sid = Some sp" "k < 128"
    and "backing (spaces s) (swapFile s) sid v k = Some b"
  shows "k < length (page_bytes s sp e) \<and> page_bytes s sp e ! k = b"
  using assms by (auto simp: backing_def page_bytes_def file_at_def split: DiskLocation.splits if_splits)

lemma load_frame:
  assumes "length bs \<le> 128" "0 \<le> p" "0 \<le> q" "k < 128"
  shows "frame_byte (load_bytes mem (nat (p * PageSize)) bs) q k =
    (if q = p \<and> k < length bs then bs ! k else frame_byte mem q k)"
proof (cases "q = p")
  case True
  then show ?thesis by (simp add: frame_byte_def load_bytes_def)
next
  case False
  have "nat (q * PageSize) + k < nat (p * PageSize) \<or> nat (p * PageSize) + 128 \<le> nat (q * PageSize) + k"
    by (rule slots_apart [OF assms(3,2) False assms(4)])
  then show ?thesis using False assms(1) by (auto simp: frame_byte_def load_bytes_def)
qed

lemma read_page_ok:
  assumes "spaces s (currentSpace s) = Some sp" "page_entry (spaces s) (currentSpace s) v = Some e"
    "swap_inv (spaces s) b (swapFile s)"
  shows "read_page v p s =
    Inr (s\<lparr>mainMemory := load_bytes (mainMemory s) (nat (p * PageSize)) (page_bytes s sp e)\<rparr>)"
proof -
  have e: "array_get (pages sp) v = Inr e" using assms(1,2) by (auto simp: page_entry_Some)
  have off: "location e = IN_SWAP \<Longrightarrow> 0 \<le> offset e" "location e = IN_EXECUTABLE \<Longrightarrow> 0 \<le> offset e"
    using swap_invD(1,2) [OF assms(3,2)] bits_range [of b] by (auto simp: PageSize_def)
  show ?thesis
    using e off assms(1)
    by (cases "location e") (simp_all add: read_page_def the_space_def read_bytes_def page_bytes_def PageSize_def)
qed

lemma mapped_loaded:
  assumes len: "int (length ipt) = NumPhysPages" and p: "0 \<le> p" "p < NumPhysPages"
    and x: "valid x" "space x = Some sid" "virtualPage x = v"
  shows "mapped {} (ipt[nat p := x]) a b q \<longleftrightarrow> (if q = p then (a, b) = (sid, v) else mapped {p} ipt a b q)"
proof -
  have "nat p < length ipt" using len p by simp
  then show ?thesis
    using p x by (auto simp: mapped_def frames_def nth_update_cases nat_eq_iff)
qed

lemma frames_loaded:
  assumes "int (length ipt) = NumPhysPages" "0 \<le> p" "p < NumPhysPages" "valid x"
  shows "frames (ipt[nat p := x]) = frames ipt \<union> {p}"
proof -
  have "nat p < length ipt" using assms by simp
  then show ?thesis using assms by (auto simp: frames_def nth_update_cases nat_eq_iff split: if_splits)
qed

end
