(* ===== verification/Paging_Load.thy ===== *)
theory Paging_Load
  imports Paging_Fault
begin

text \<open>
  \<open>HandleIPTMiss\<close>, \<open>HandlePageFault\<close> and the context switch keep the invariant of the pager
  and the bytes of every page.
\<close>

section \<open>HandleIPTMiss\<close>

lemma HandleIPTMiss_ok:
  assumes inv: "vm_inv {p} {p} s" and t: "tlb s = Some t" and p: "0 \<le> p" "p < NumPhysPages"
    and e: "page_entry (spaces s) (currentSpace s) vpn = Some e"
    and new: "\<And>q. \<not> mapped {p} (IPT s) (currentSpace s) vpn q"
  shows "\<exists>s'. HandleIPTMiss vpn p s = Inr (p, s') \<and> vm_inv {} {p} s' \<and>
    list_inv {} (IPT s') (evictionPolicy s') (evictionList s') \<and>
    mapped {} (IPT s') (currentSpace s') vpn p \<and> tlb s' = Some t \<and> (\<forall>i. \<not> tlb_hit t p i) \<and>
    keeps_bytes {p} s {} s' \<and> same_cpu s s' \<and> randoms s' = randoms s"
proof -
  note I = vm_invD [OF inv, unfolded t option.sel]
  let ?sid = "currentSpace s"
  have len: "int (length (IPT s)) = NumPhysPages" and lt: "length t = TLBSize"
    using I(3,4) by (simp_all add: ipt_inv_def tlb_inv_def)
  obtain sp where sp: "spaces s ?sid = Some sp" using e by (auto simp: page_entry_Some)
  define bs where "bs = page_bytes s sp e"
  define mem where "mem = load_bytes (mainMemory s) (nat (p * PageSize)) bs"
  define d where "d = (location e = UNINIT)"
  define x where "x = (new_entry vpn p d (IPT s ! nat p))\<lparr>space := Some ?sid\<rparr>"
  define ipt where "ipt = (IPT s)[nat p := x]"
  define l where "l = (if evictionPolicy s = FIFO then evictionList s @ [p] else evictionList s)"
  have xs: "valid x" "space x = Some ?sid" "virtualPage x = vpn" "physicalPage x = p" "dirty x = d"
    by (simp_all add: x_def new_entry_def)
  let ?s3 = "s\<lparr>mainMemory := mem, IPT := ipt, evictionList := l\<rparr>"
  from pt_upd_ok [of ?s3 ?sid vpn e "new_entry vpn p d"] e obtain sps where
    sps: "pt_upd (Some ?sid) vpn (new_entry vpn p d) ?s3 = Inr (?s3\<lparr>spaces := sps\<rparr>)"
      "page_entry sps = (page_entry (spaces s))(?sid := (page_entry (spaces s) ?sid)(vpn \<mapsto> new_entry vpn p d e))"
      "\<forall>y. map_option executable (sps y) = map_option executable (spaces s y)"
    by auto
  define s' where "s' = ?s3\<lparr>spaces := sps\<rparr>"
  have run: "HandleIPTMiss vpn p s = Inr (p, s')"
    using p read_page_ok [OF sp e I(6), of p, folded bs_def, folded mem_def]
      pt_get_ok [of "s\<lparr>mainMemory := mem\<rparr>", simplified, OF e]
      ipt_upd_ok [of _ "s\<lparr>mainMemory := mem\<rparr>", simplified, OF I(3) p] sps(1)
    by (cases "evictionPolicy s")
       (simp_all add: HandleIPTMiss_def d_def [symmetric] x_def [symmetric] ipt_def [symmetric] s'_def l_def)
  have loc: "same_locations (spaces s) sps"
    using sps(2,3) e by (simp add: same_locations_def new_entry_def)
  note bk = same_locations_backing [OF loc]
  note mp = mapped_loaded [OF len p xs(1-3), folded ipt_def]
  have fr: "frames ipt = frames (IPT s) \<union> {p}" unfolding ipt_def by (rule frames_loaded [OF len p xs(1)])
  have ix: "nat p < length (IPT s)" using p len by simp
  have ip: "ipt ! nat p = x" "\<And>q. 0 \<le> q \<Longrightarrow> q \<noteq> p \<Longrightarrow> ipt ! nat q = IPT s ! nat q"
    using ix p by (auto simp: ipt_def nth_update_cases nat_eq_iff)
  have notp: "physicalPage y \<noteq> p" if "y \<in> set t" "valid y" for y
    using I(4) that by (auto simp: tlb_inv_def mapped_def)
  have mdp: "modified ipt t p = d" using notp xs(5) ip(1) by (auto simp: modified_def)
  have mdq: "modified ipt t q = modified (IPT s) t q" if "0 \<le> q" "q \<noteq> p" for q
    using ip(2) that by (simp add: modified_def)
  have fb: "frame_byte mem q k = frame_byte (mainMemory s) q k" if "0 \<le> q" "q \<noteq> p" "k < 128" for q k
    unfolding mem_def bs_def using load_frame [OF page_bytes_length [of s sp e] p(1) that(1,3)] that(2) by simp
  have fp: "frame_byte mem p k = c" if "k < 128" "backing (spaces s) (swapFile s) ?sid vpn k = Some c" for k c
    unfolding mem_def bs_def
    using load_frame [OF page_bytes_length [of s sp e] p(1) p(1) that(1)] page_bytes_backing [OF e sp that] by simp
  have mq: "mapped {p} (IPT s) y z q \<Longrightarrow> q \<noteq> p \<and> 0 \<le> q" for y z q
    using mapped_range [of "{p}" "IPT s" y z q] by auto
  have "ipt_inv {} ipt sps"
  proof -
    have *: "physicalPage (ipt ! nat q) = q \<and> (\<exists>sid. space (ipt ! nat q) = Some sid \<and>
        page_entry sps sid (virtualPage (ipt ! nat q)) \<noteq> None)" if "q \<in> frames ipt - {}" for q
    proof (cases "q = p")
      case True
      then show ?thesis using ip(1) xs sps(2) by simp
    next
      case False
      then have "q \<in> frames (IPT s) - {p}" "0 \<le> q" using that fr frames_range [of q] by auto
      then show ?thesis
        using I(3) ip(2) False same_locations_None [OF loc] unfolding ipt_inv_def by metis
    qed
    moreover have "q = r" if "mapped {} ipt y z q" "mapped {} ipt y z r" for y z q r
      using that I(3) new unfolding mp ipt_inv_def by (auto split: if_splits)
    moreover have "int (length ipt) = NumPhysPages" using len by (simp add: ipt_def)
    ultimately show ?thesis unfolding ipt_inv_def by blast
  qed
  moreover have "tlb_inv {} ipt ?sid (currentTLB s) t"
  proof -
    have "mapped {} ipt ?sid (virtualPage y) (physicalPage y) \<and> (dirty (ipt ! nat (physicalPage y)) \<longrightarrow> dirty y)"
      if "y \<in> set t" "valid y" for y
    proof -
      have m: "mapped {p} (IPT s) ?sid (virtualPage y) (physicalPage y)" "dirty (IPT s ! nat (physicalPage y)) \<longrightarrow> dirty y"
        using I(4) that by (auto simp: tlb_inv_def)
      then show ?thesis using mq [OF m(1)] ip(2) mp by simp
    qed
    then show ?thesis using I(4) unfolding tlb_inv_def by blast
  qed
  moreover have "map_inv {} ipt (mainMemoryBitmap s)" using I(5) fr by (auto simp: map_inv_def)
  moreover have "swap_inv sps (swapMap s) (swapFile s)" by (rule same_locations_swap_inv [OF loc I(6)])
  moreover have "clean_inv {} ipt t mem sps (swapFile s)"
    unfolding clean_inv_def
  proof (intro allI impI, elim conjE)
    fix y z q k c
    assume a: "mapped {} ipt y z q" "\<not> modified ipt t q" "k < 128" "backing sps (swapFile s) y z k = Some c"
    show "frame_byte mem q k = c"
    proof (cases "q = p")
      case True
      then show ?thesis using a fp mp by (simp add: bk)
    next
      case False
      then have m: "mapped {p} (IPT s) y z q" using a(1) mp by simp
      then show ?thesis
        using I(7) a mq [OF m] mdq fb bk unfolding clean_inv_def by metis
    qed
  qed
  moreover have ll: "list_inv {} ipt (evictionPolicy s) l"
    using I(8) p fr by (auto simp: list_inv_def l_def)
  moreover have "unused {p} ipt" using I(9) ip(2) by (auto simp: unused_def)
  ultimately have inv': "vm_inv {} {p} s'"
    using t list_inv_mono [OF ll, of "{p}"] by (intro vm_invI [where t = t]) (simp_all add: s'_def)
  moreover have "keeps_bytes {p} s {} s'"
    unfolding keeps_bytes_def
  proof (intro allI impI)
    fix y z k c assume k: "k < (128 :: nat)" and pb: "page_byte {p} s y z k c"
    show "page_byte {} s' y z k c"
    proof (cases "(y, z) = (?sid, vpn)")
      case True
      then have b: "backing (spaces s) (swapFile s) y z k = Some c" using pb new by (auto simp: page_byte_def)
      then have "\<not> d" using True e by (auto simp: d_def backing_def)
      have "\<nexists>q. mapped {} ipt y z q \<and> modified ipt t q"
        using \<open>\<not> d\<close> mdp True new by (auto simp: mp split: if_splits)
      then show ?thesis using b by (simp add: page_byte_def s'_def t bk)
    next
      case False
      have *: "(mapped {} ipt y z q \<and> modified ipt t q) = (mapped {p} (IPT s) y z q \<and> modified (IPT s) t q)" for q
        using False mq [of y z q] mdq [of q] by (auto simp: mp)
      have "(mapped {p} (IPT s) y z q \<and> modified (IPT s) t q \<and> frame_byte mem q k = c) =
          (mapped {p} (IPT s) y z q \<and> modified (IPT s) t q \<and> frame_byte (mainMemory s) q k = c)" for q
        using mq [of y z q] fb [of q k] k by auto
      then show ?thesis
        using pb * bk unfolding page_byte_def s'_def t by (simp add: t) metis
    qed
  qed
  moreover have "\<not> tlb_hit t p i" for i using notp lt by (auto simp: tlb_hit_def)
  moreover have "same_cpu s s'"
    using same_locations_None [OF loc] by (simp add: same_cpu_def s'_def)
  ultimately show ?thesis
    using run ll by (intro exI [of _ s']) (simp add: s'_def t mp)
qed

section \<open>Finding the frame\<close>

lemma ipt_search_cases:
  assumes inv: "vm_inv {} {} s"
  shows "(ipt_search s vpn = - 1 \<and> (\<forall>q. \<not> mapped {} (IPT s) (currentSpace s) vpn q)) \<or>
    (0 \<le> ipt_search s vpn \<and> mapped {} (IPT s) (currentSpace s) vpn (ipt_search s vpn))"
proof -
  note I = vm_invD [OF inv]
  have len: "int (length (IPT s)) = NumPhysPages" using I(3) by (simp add: ipt_inv_def)
  have h: "holds (currentSpace s) vpn (IPT s ! i) \<longleftrightarrow> mapped {} (IPT s) (currentSpace s) vpn (int i)"
    if "i < length (IPT s)" for i
  proof -
    have "\<not> use (IPT s ! i)" using I(9) [unfolded unused_def, rule_format, of "int i"] that len by simp
    then show ?thesis using that len by (auto simp: holds_def mapped_def frames_def)
  qed
  show ?thesis
  proof (cases "List.find (\<lambda>i. holds (currentSpace s) vpn (IPT s ! i)) [0..<length (IPT s)]")
    case None
    then have "\<not> mapped {} (IPT s) (currentSpace s) vpn q" for q
      using h [of "nat q"] mapped_index [OF _ len] mapped_range [of "{}" "IPT s" _ _ q]
      by (auto simp: find_upt_None)
    then show ?thesis using None by (simp add: ipt_search_def)
  next
    case (Some i)
    then have "ipt_search s vpn = int i" by (simp add: ipt_search_def)
    then show ?thesis using Some [unfolded find_upt_Some] h [of i] by simp
  qed
qed

lemma load_frame_ok:
  assumes inv: "vm_inv {p} {p} s" and t: "tlb s = Some t" and p: "0 \<le> p" "p < NumPhysPages"
    and e: "page_entry (spaces s) (currentSpace s) vpn \<noteq> None"
    and new: "\<And>q. \<not> mapped {p} (IPT s) (currentSpace s) vpn q"
  shows "\<exists>s'. bind_result (ipt_upd p (use_update (\<lambda>_. True)) s) (HandleIPTMiss vpn p) = Inr (p, s') \<and>
    vm_inv {} {p} s' \<and> list_inv {} (IPT s') (evictionPolicy s') (evictionList s') \<and>
    mapped {} (IPT s') (currentSpace s') vpn p \<and> tlb s' = Some t \<and> (\<forall>i. \<not> tlb_hit t p i) \<and>
    keeps_bytes {p} s {} s' \<and> same_cpu s s' \<and> randoms s' = randoms s"
proof -
  note I = vm_invD [OF inv]
  define s1 where "s1 = s\<lparr>IPT := (IPT s)[nat p := (IPT s ! nat p)\<lparr>use := True\<rparr>]\<rparr>"
  have len: "int (length (IPT s)) = NumPhysPages" using I(3) by (simp add: ipt_inv_def)
  have s1: "vm_inv {p} {p} s1" "page_byte {p} s1 = page_byte {p} s"
    using use_update_inv [OF inv p s1_def, of "{p}"] I(8) by auto
  have "same_pages (IPT s) (IPT s1)" unfolding s1_def by (simp add: same_pages_update)
  then have mp: "mapped {p} (IPT s1) = mapped {p} (IPT s)" using same_pages_mapped len by blast
  obtain e0 where e0: "page_entry (spaces s1) (currentSpace s1) vpn = Some e0" using e by (auto simp: s1_def)
  have new1: "\<not> mapped {p} (IPT s1) (currentSpace s1) vpn q" for q using new by (simp add: mp) (simp add: s1_def)
  have t1: "tlb s1 = Some t" using t by (simp add: s1_def)
  from HandleIPTMiss_ok [OF s1(1) t1 p e0 new1] obtain s' where
    s': "HandleIPTMiss vpn p s1 = Inr (p, s')" "vm_inv {} {p} s'"
      "list_inv {} (IPT s') (evictionPolicy s') (evictionList s')"
      "mapped {} (IPT s') (currentSpace s') vpn p" "tlb s' = Some t" "\<forall>i. \<not> tlb_hit t p i"
      "keeps_bytes {p} s1 {} s'" "same_cpu s1 s'" "randoms s' = randoms s1" by blast
  have "ipt_upd p (use_update (\<lambda>_. True)) s = Inr s1" using ipt_upd_ok [OF I(3) p] by (simp add: s1_def)
  then show ?thesis
    using s' s1(2) by (intro exI [of _ s']) (simp add: keeps_bytes_def same_cpu_def s1_def)
qed

lemma free_frame_inv:
  assumes inv: "vm_inv {} {} s" and p: "0 \<le> p" "p < NumPhysPages" "p \<notin> frames (IPT s)"
    and b: "wf_BitMap b" "numBits b = NumPhysPages" "bits b = insert p (bits (mainMemoryBitmap s))"
    and s': "s' = s\<lparr>mainMemoryBitmap := b\<rparr>"
  shows "vm_inv {p} {p} s' \<and> page_byte {p} s' = page_byte {} s"
proof -
  note I = vm_invD [OF inv]
  obtain t where t: "tlb s = Some t" using I(2) by blast
  have m: "mapped {p} (IPT s) = mapped {} (IPT s)" using p(3) by (intro ext) (auto simp: mapped_def)
  have f: "frames (IPT s) - {p} = frames (IPT s)" using p(3) by simp
  have "ipt_inv {p} (IPT s) (spaces s)" using I(3) unfolding ipt_inv_def m f by simp
  moreover have "tlb_inv {p} (IPT s) (currentSpace s) (currentTLB s) t"
    using I(4) t unfolding tlb_inv_def m by simp
  moreover have "clean_inv {p} (IPT s) t (mainMemory s) (spaces s) (swapFile s)"
    using I(7) t unfolding clean_inv_def m by simp
  moreover have "map_inv {p} (IPT s) b" using I(5) b by (simp add: map_inv_def)
  moreover have "unused {p} (IPT s)" using I(9) by (simp add: unused_def)
  ultimately have "vm_inv {p} {p} s'"
    using I(6) list_inv_mono [OF I(8), of "{p}"] p t by (intro vm_invI [where t = t]) (simp_all add: s')
  moreover have "page_byte {p} s' = page_byte {} s" by (intro ext) (simp add: page_byte_def m s')
  ultimately show ?thesis by blast
qed

text \<open>What the handler needs when every frame is taken.\<close>

definition evictable :: "'k vm_scheme \<Rightarrow> bool" where
  "evictable s \<longleftrightarrow> frames (IPT s) = {0..<NumPhysPages} \<longrightarrow>
     swap_room s \<and> (\<forall>p. \<not> dirty_lost p s) \<and> rand_ok (randoms s)"

lemma fetch_page_ok:
  assumes inv: "vm_inv {} {} s" and t: "tlb s = Some t" and ev: "evictable s"
    and e: "page_entry (spaces s) (currentSpace s) vpn \<noteq> None"
    and new: "\<And>q. \<not> mapped {} (IPT s) (currentSpace s) vpn q"
  shows "\<exists>p s' t'. fetch_page vpn s = Some (Inr (p, s')) \<and>
    vm_inv {} {p} s' \<and> list_inv {} (IPT s') (evictionPolicy s') (evictionList s') \<and>
    mapped {} (IPT s') (currentSpace s') vpn p \<and> tlb s' = Some t' \<and> (\<forall>i. \<not> tlb_hit t' p i) \<and>
    keeps_bytes {} s {} s' \<and> same_cpu s s'"
proof -
  note I = vm_invD [OF inv]
  have m: "wf_BitMap (mainMemoryBitmap s)" "numBits (mainMemoryBitmap s) = NumPhysPages"
    "bits (mainMemoryBitmap s) = frames (IPT s)" using I(5) by (auto simp: map_inv_def)
  show ?thesis
  proof (cases "frames (IPT s) = {0..<NumPhysPages}")
    case True
    then have F: "Find (mainMemoryBitmap s) = Inr (- 1, mainMemoryBitmap s)"
      using Find_full [OF m(1)] m by simp
    have ev': "swap_room s" "\<And>p. \<not> dirty_lost p s" "rand_ok (randoms s)" using ev True by (auto simp: evictable_def)
    from Evict_ok [OF inv t True ev'(3,1,2)] obtain p s1 t1 where
      s1: "Evict s = Some (Inr (p, s1))" "p \<in> {0..<NumPhysPages}" "vm_inv {p} {p} s1" "tlb s1 = Some t1"
        "same_pages (IPT s) (IPT s1)" "keeps_bytes {} s {p} s1" "same_cpu s s1" by blast
    have p: "0 \<le> p" "p < NumPhysPages" using s1(2) by auto
    have e1: "page_entry (spaces s1) (currentSpace s1) vpn \<noteq> None" using e s1(7) by (simp add: same_cpu_def)
    have new1: "\<not> mapped {p} (IPT s1) (currentSpace s1) vpn q" for q
      using new [of q] s1(7) same_pages_mapped [OF s1(5)] I(3)
      by (simp add: mapped_hole same_cpu_def ipt_inv_def)
    from load_frame_ok [OF s1(3,4) p e1 new1] obtain s' where
      s': "bind_result (ipt_upd p (use_update (\<lambda>_. True)) s1) (HandleIPTMiss vpn p) = Inr (p, s')"
        "vm_inv {} {p} s'" "list_inv {} (IPT s') (evictionPolicy s') (evictionList s')"
        "mapped {} (IPT s') (currentSpace s') vpn p" "tlb s' = Some t1" "\<forall>i. \<not> tlb_hit t1 p i"
        "keeps_bytes {p} s1 {} s'" "same_cpu s1 s'" by blast
    have "fetch_page vpn s = Some (Inr (p, s'))"
      using F s1(1) p s'(1) by (subst fetch_page.simps) simp
    then show ?thesis
      using s'(2-6) keeps_bytes_trans [OF s1(6) s'(7)] same_cpu_trans [OF s1(7) s'(8)] by blast
  next
    case False
    then have "\<not> {0..<numBits (mainMemoryBitmap s)} \<subseteq> bits (mainMemoryBitmap s)"
      using m frames_range by fastforce
    from Find_free [OF m(1) this] obtain p b where
      F: "Find (mainMemoryBitmap s) = Inr (p, b)" and p: "0 \<le> p" "p < NumPhysPages" "p \<notin> frames (IPT s)"
      and b: "wf_BitMap b" "numBits b = NumPhysPages" "bits b = insert p (bits (mainMemoryBitmap s))"
      using m by auto
    define s1 where "s1 = s\<lparr>mainMemoryBitmap := b\<rparr>"
    have i1: "vm_inv {p} {p} s1" "page_byte {p} s1 = page_byte {} s"
      using free_frame_inv [OF inv p b s1_def] by auto
    have h: "tlb s1 = Some t" "page_entry (spaces s1) (currentSpace s1) vpn \<noteq> None"
      using t e by (simp_all add: s1_def)
    have new1: "\<not> mapped {p} (IPT s1) (currentSpace s1) vpn q" for q
      using new [of q] by (simp add: s1_def mapped_hole)
    from load_frame_ok [OF i1(1) h(1) p(1,2) h(2) new1] obtain s' where
      s': "bind_result (ipt_upd p (use_update (\<lambda>_. True)) s1) (HandleIPTMiss vpn p) = Inr (p, s')"
        "vm_inv {} {p} s'" "list_inv {} (IPT s') (evictionPolicy s') (evictionList s')"
        "mapped {} (IPT s') (currentSpace s') vpn p" "tlb s' = Some t" "\<forall>i. \<not> tlb_hit t p i"
        "keeps_bytes {p} s1 {} s'" "same_cpu s1 s'" by blast
    have "fetch_page vpn s = Some (Inr (p, s'))"
      using F p s'(1) by (subst fetch_page.simps) (simp add: s1_def [symmetric])
    moreover have "keeps_bytes {} s {} s'" using s'(7) i1(2) by (simp add: keeps_bytes_def)
    moreover have "same_cpu s s'" using s'(8) by (simp add: same_cpu_def s1_def)
    ultimately show ?thesis using s'(2-6) by blast
  qed
qed

section \<open>The new TLB entry\<close>

lemma tlb_use_inv:
  assumes inv: "vm_inv H U s" and t: "tlb s = Some t"
    and s': "s' = s\<lparr>tlb := Some (t[i := (t ! i)\<lparr>use := u\<rparr>])\<rparr>"
  shows "vm_inv H U s' \<and> page_byte H s' = page_byte H s"
proof -
  note I = vm_invD [OF inv, unfolded t option.sel]
  let ?t' = "t[i := (t ! i)\<lparr>use := u\<rparr>]"
  have f: "valid (?t' ! j) = valid (t ! j)" "physicalPage (?t' ! j) = physicalPage (t ! j)"
    "virtualPage (?t' ! j) = virtualPage (t ! j)" "dirty (?t' ! j) = dirty (t ! j)" for j
    by (simp_all add: nth_update_cases)
  have md: "modified (IPT s) ?t' q = modified (IPT s) t q" for q
    by (simp add: modified_nth [of _ "length t"] f)
  have "tlb_inv H (IPT s) (currentSpace s) (currentTLB s) ?t'"
    using I(4) unfolding tlb_inv_def all_set_conv_all_nth f by simp
  then have "vm_inv H U s'"
    using I md by (intro vm_invI [where t = ?t']) (simp_all add: s' clean_inv_def)
  moreover have "page_byte H s' = page_byte H s"
    unfolding page_byte_def by (intro ext) (simp add: s' t md)
  ultimately show ?thesis by blast
qed

lemma save_dirty_ok:
  assumes inv: "vm_inv H U s" and t: "tlb s = Some t" and i: "i < TLBSize"
  shows "\<exists>ipt. save_dirty (t ! i) s = Inr (s\<lparr>IPT := ipt\<rparr>) \<and> same_pages (IPT s) ipt \<and>
    vm_inv H U (s\<lparr>IPT := ipt, tlb := Some (t[i := (t ! i)\<lparr>valid := False\<rparr>])\<rparr>) \<and>
    page_byte H (s\<lparr>IPT := ipt, tlb := Some (t[i := (t ! i)\<lparr>valid := False\<rparr>])\<rparr>) = page_byte H s"
proof (cases "valid (t ! i)")
  case True
  note I = vm_invD [OF inv, unfolded t option.sel]
  let ?p = "physicalPage (t ! i)"
  define ipt where "ipt = (IPT s)[nat ?p := (IPT s ! nat ?p)\<lparr>dirty := dirty (t ! i)\<rparr>]"
  have "t ! i \<in> set t" using I(4) i by (simp add: tlb_inv_def)
  then have "mapped H (IPT s) (currentSpace s) (virtualPage (t ! i)) ?p"
    using I(4) True unfolding tlb_inv_def by blast
  from mapped_range [OF this] have p: "0 \<le> ?p" "?p < NumPhysPages" by auto
  have "save_dirty (t ! i) s = Inr (s\<lparr>IPT := ipt\<rparr>)"
    using True ipt_upd_ok [OF I(3) p] by (simp add: save_dirty_def ipt_def)
  moreover have "same_pages (IPT s) ipt" unfolding ipt_def by (simp add: same_pages_update)
  ultimately show ?thesis
    using retire_inv [OF inv t i True refl] by (intro exI [of _ ipt]) (simp add: ipt_def)
next
  case False
  then have "(t ! i)\<lparr>valid := False\<rparr> = t ! i" by (cases "t ! i") simp
  then have "s\<lparr>IPT := IPT s, tlb := Some (t[i := (t ! i)\<lparr>valid := False\<rparr>])\<rparr> = s"
    using t by (cases s) simp
  then show ?thesis
    using False inv by (intro exI [of _ "IPT s"]) (simp add: save_dirty_def same_pages_def)
qed

lemma currentTLB_inv:
  "vm_inv H U s \<Longrightarrow> 0 \<le> c \<Longrightarrow> c < int TLBSize \<Longrightarrow> vm_inv H U (s\<lparr>currentTLB := c\<rparr>)"
  by (simp add: vm_inv_def tlb_inv_def)

lemma currentTLB_bytes: "page_byte H (s\<lparr>currentTLB := c\<rparr>) = page_byte H s"
  by (intro ext) (simp add: page_byte_def)

lemma fill_tlb_ok:
  assumes inv: "vm_inv {} {p} s" and t: "tlb s = Some t" and nohit: "\<And>i. \<not> tlb_hit t p i"
    and l: "list_inv {} (IPT s) (evictionPolicy s) (evictionList s)"
    and m: "mapped {} (IPT s) (currentSpace s) vpn p"
  shows "\<exists>s'. fill_tlb p s = Inr s' \<and> vm_inv {} {} s' \<and> page_byte {} s' = page_byte {} s \<and>
    (\<exists>e\<in>set (the (tlb s')). valid e \<and> virtualPage e = vpn) \<and> registers s' = registers s \<and>
    currentSpace s' = currentSpace s"
proof -
  note I = vm_invD [OF inv, unfolded t option.sel]
  define c where "c = nat (currentTLB s)"
  have lt: "length t = TLBSize" and len: "int (length (IPT s)) = NumPhysPages"
    and c: "c < TLBSize" "currentTLB s = int c"
    using I(3,4) by (auto simp: tlb_inv_def ipt_inv_def c_def)
  note pr = mapped_range [OF m]
  obtain ipt where s1: "save_dirty (t ! c) s = Inr (s\<lparr>IPT := ipt\<rparr>)" "same_pages (IPT s) ipt"
    "vm_inv {} {p} (s\<lparr>IPT := ipt, tlb := Some (t[c := (t ! c)\<lparr>valid := False\<rparr>])\<rparr>)"
    "page_byte {} (s\<lparr>IPT := ipt, tlb := Some (t[c := (t ! c)\<lparr>valid := False\<rparr>])\<rparr>) = page_byte {} s"
    using save_dirty_ok [OF inv t c(1)] by blast
  define x where "x = ipt ! nat p"
  have m1: "mapped {} ipt (currentSpace s) vpn p" using m same_pages_mapped [OF s1(2) len] by simp
  have ii: "ipt_inv {} ipt (spaces s)" using vm_invD(3) [OF s1(3)] by simp
  have x: "physicalPage x = p" "virtualPage x = vpn" "valid x"
  proof -
    have "p \<in> frames ipt - {}" using m1 by (simp add: mapped_def)
    then show "physicalPage x = p" using ii unfolding ipt_inv_def x_def by blast
    show "virtualPage x = vpn" "valid x" using m1 by (simp_all add: mapped_def frames_def x_def)
  qed
  define e where "e = (t ! c)\<lparr>virtualPage := virtualPage x, physicalPage := physicalPage x, valid := True,
      use := use x, dirty := dirty x, readOnly := readOnly x\<rparr>"
  define s2 where "s2 = s\<lparr>IPT := ipt, tlb := Some (t[c := e])\<rparr>"
  have gone: "tlb (s\<lparr>IPT := ipt, tlb := Some (t[c := (t ! c)\<lparr>valid := False\<rparr>])\<rparr>) =
      Some (t[c := (t ! c)\<lparr>valid := False\<rparr>])" by simp
  have i2: "vm_inv {} {p} s2 \<and> page_byte {} s2 = page_byte {} s"
    unfolding s1(4) [symmetric]
  proof (rule install_inv [OF s1(3) gone c(1)])
    show "physicalPage (t[c := (t ! c)\<lparr>valid := False\<rparr>] ! j) \<noteq> physicalPage e"
      if "j < TLBSize" "valid (t[c := (t ! c)\<lparr>valid := False\<rparr>] ! j)" for j
      using that nohit [of j] lt by (auto simp: nth_update_cases tlb_hit_def e_def x split: if_splits)
  qed (use c lt m1 x in \<open>simp_all add: e_def s2_def x_def\<close>)
  define c' where "c' = rem (currentTLB s + 1) (int TLBSize)"
  have c': "0 \<le> c'" "c' < int TLBSize"
    using rem_less [of "currentTLB s + 1" "int TLBSize"] c by (simp_all add: c'_def TLBSize_def)
  define s3 where "s3 = s2\<lparr>currentTLB := c'\<rparr>"
  have i3: "vm_inv {} {p} s3" "page_byte {} s3 = page_byte {} s"
    using i2 currentTLB_inv [OF _ c', of "{}" "{p}" s2] by (simp_all add: s3_def currentTLB_bytes)
  define s4 where "s4 = s3\<lparr>IPT := (IPT s3)[nat p := (IPT s3 ! nat p)\<lparr>use := False\<rparr>]\<rparr>"
  have "list_inv {} (IPT s3) (evictionPolicy s3) (evictionList s3)"
    using list_inv_same [OF s1(2) len l] by (simp add: s3_def s2_def)
  then have i4: "vm_inv {} {} s4" "page_byte {} s4 = page_byte {} s"
    using use_update_inv [OF i3(1) _ _ s4_def, of "{}"] pr i3(2) by auto
  define t4 where "t4 = t[c := e]"
  have t4: "tlb s4 = Some t4" "length t4 = TLBSize" by (simp_all add: s4_def s3_def s2_def t4_def lt)
  define s5 where "s5 = s4\<lparr>tlb := Some (t4[nat c' := (t4 ! nat c')\<lparr>use := False\<rparr>])\<rparr>"
  have i5: "vm_inv {} {} s5" "page_byte {} s5 = page_byte {} s"
    using tlb_use_inv [OF i4(1) t4(1) s5_def] i4(2) by auto
  have "ipt_get (s\<lparr>IPT := ipt\<rparr>) p = Inr x"
    using ipt_get_ok [of "{}" "s\<lparr>IPT := ipt\<rparr>" "spaces s" p] ii pr by (simp add: x_def)
  moreover have "tlb_set (int c) e (s\<lparr>IPT := ipt\<rparr>) = Inr s2"
    using tlb_set_ok [of "s\<lparr>IPT := ipt\<rparr>" t "int c" e] t lt c by (simp add: s2_def)
  moreover have "ipt_upd p (use_update (\<lambda>_. False)) s3 = Inr s4"
    using ipt_upd_ok [OF vm_invD(3) [OF i3(1)]] pr by (simp add: s4_def)
  moreover have "tlb_get s4 c' = Inr (t4 ! nat c')" using tlb_get_ok [OF t4 c'] .
  moreover have "tlb_set c' ((t4 ! nat c')\<lparr>use := False\<rparr>) s4 = Inr s5"
    using tlb_set_ok [OF t4 c'] by (simp add: s5_def)
  moreover have "tlb_get s (int c) = Inr (t ! c)" using tlb_get_ok [OF t lt, of "int c"] c by simp
  moreover have "currentTLB s2 = currentTLB s" "currentTLB s4 = c'" by (simp_all add: s2_def s4_def s3_def)
  moreover have "s2\<lparr>currentTLB := rem (int c + 1) (int TLBSize)\<rparr> = s3" by (simp add: s3_def c'_def c)
  ultimately have "fill_tlb p s = Inr s5"
    using s1(1) c(2) by (simp add: fill_tlb_def e_def [symmetric])
  moreover have "\<exists>y\<in>set (the (tlb s5)). valid y \<and> virtualPage y = vpn"
  proof
    let ?t5 = "t4[nat c' := (t4 ! nat c')\<lparr>use := False\<rparr>]"
    show "?t5 ! c \<in> set (the (tlb s5))" using c t4(2) by (simp add: s5_def)
    show "valid (?t5 ! c) \<and> virtualPage (?t5 ! c) = vpn"
      using c lt x by (auto simp: nth_update_cases t4_def e_def)
  qed
  moreover have "registers s5 = registers s" "currentSpace s5 = currentSpace s"
    by (simp_all add: s5_def s4_def s3_def s2_def)
  ultimately show ?thesis using i5 by blast
qed

end
