(* ===== verification/Paging_Claims.thy ===== *)
theory Paging_Claims
  imports Paging_Load
begin

text \<open>
  The properties of the demand pager. A page fault is answered and no process can see it, as
  long as the dirty bit of the victim is saved; where the code forgets it a write is lost. A
  context switch empties the TLB and forgets nothing. A fault outside the address space and a
  first touch of an uninitialised page show what the handler does not check.
\<close>

section \<open>The handler\<close>

definition fault_page :: "'k vm_scheme \<Rightarrow> int" where
  "fault_page s = quot (sint (registers s BadVAddrReg)) 128"

text \<open>The page is in the address space and the TLB has no entry for it, as when \<open>Translate\<close>
  raises the page fault.\<close>

definition faults_on :: "'k vm_scheme \<Rightarrow> int \<Rightarrow> bool" where
  "faults_on s vpn \<longleftrightarrow> fault_page s = vpn \<and> page_entry (spaces s) (currentSpace s) vpn \<noteq> None \<and>
     (\<forall>e\<in>set (the (tlb s)). valid e \<longrightarrow> virtualPage e \<noteq> vpn)"

lemma get_frame_ok:
  assumes inv: "vm_ok s" and t: "tlb s = Some t" and ev: "evictable s" and f: "faults_on s vpn"
  shows "\<exists>p s' t'. get_frame vpn s = Some (Inr (p, s')) \<and>
    vm_inv {} {p} s' \<and> list_inv {} (IPT s') (evictionPolicy s') (evictionList s') \<and>
    mapped {} (IPT s') (currentSpace s') vpn p \<and> tlb s' = Some t' \<and> (\<forall>i. \<not> tlb_hit t' p i) \<and>
    keeps_bytes {} s {} s' \<and> same_cpu s s'"
proof (cases "ipt_search s vpn = - 1")
  case True
  then have "\<And>q. \<not> mapped {} (IPT s) (currentSpace s) vpn q" using ipt_search_cases [OF inv, of vpn] by simp
  from fetch_page_ok [OF inv t ev _ this] f True show ?thesis
    by (simp add: get_frame_def faults_on_def)
next
  case False
  define p where "p = ipt_search s vpn"
  note I = vm_invD [OF inv, unfolded t option.sel]
  have m: "mapped {} (IPT s) (currentSpace s) vpn p" using False ipt_search_cases [OF inv, of vpn] by (simp add: p_def)
  note pr = mapped_range [OF m]
  define s1 where "s1 = s\<lparr>IPT := (IPT s)[nat p := (IPT s ! nat p)\<lparr>use := True\<rparr>]\<rparr>"
  have i1: "vm_inv {} {p} s1" "page_byte {} s1 = page_byte {} s"
    using use_update_inv [OF inv _ _ s1_def, of "{p}"] pr list_inv_mono [OF I(8), of "{p}"] by auto
  have len: "int (length (IPT s)) = NumPhysPages" using I(3) by (simp add: ipt_inv_def)
  have same: "same_pages (IPT s) (IPT s1)" unfolding s1_def by (simp add: same_pages_update)
  have "\<not> tlb_hit t p i" for i
  proof
    assume h: "tlb_hit t p i"
    then have "t ! i \<in> set t" "valid (t ! i)" "physicalPage (t ! i) = p" using I(4) by (auto simp: tlb_hit_def tlb_inv_def)
    then have "virtualPage (t ! i) = vpn" using I(4) m by (auto simp: tlb_inv_def mapped_def)
    then show False using f t \<open>t ! i \<in> set t\<close> \<open>valid (t ! i)\<close> by (simp add: faults_on_def)
  qed
  moreover have "get_frame vpn s = Some (Inr (p, s1))"
    using False ipt_upd_ok [OF I(3)] pr by (simp add: get_frame_def p_def [symmetric] s1_def)
  moreover have "mapped {} (IPT s1) (currentSpace s1) vpn p"
    using m same_pages_mapped [OF same len] by (simp add: s1_def)
  moreover have "list_inv {} (IPT s1) (evictionPolicy s1) (evictionList s1)"
    using list_inv_same [OF same len I(8)] by (simp add: s1_def)
  moreover have "tlb s1 = Some t" "same_cpu s s1" using t by (simp_all add: s1_def same_cpu_def)
  ultimately show ?thesis using i1 keeps_bytes_eq [OF i1(2)] by blast
qed

lemma HandlePageFault_ok:
  assumes inv: "vm_ok s" and ev: "evictable s" and f: "faults_on s vpn"
  shows "\<exists>s'. HandlePageFault s = Some (Inr s') \<and> vm_ok s' \<and> keeps_bytes {} s {} s' \<and>
    (\<exists>e\<in>set (the (tlb s')). valid e \<and> virtualPage e = vpn) \<and>
    registers s' = registers s \<and> currentSpace s' = currentSpace s"
proof -
  obtain t where t: "tlb s = Some t" using vm_invD(2) [OF inv] by blast
  from get_frame_ok [OF inv t ev f] obtain p s1 t1 where
    s1: "get_frame vpn s = Some (Inr (p, s1))" "vm_inv {} {p} s1"
      "list_inv {} (IPT s1) (evictionPolicy s1) (evictionList s1)"
      "mapped {} (IPT s1) (currentSpace s1) vpn p" "tlb s1 = Some t1" "\<And>i. \<not> tlb_hit t1 p i"
      "keeps_bytes {} s {} s1" "same_cpu s s1" by blast
  from fill_tlb_ok [OF s1(2,5,6,3,4)] obtain s' where
    s': "fill_tlb p s1 = Inr s'" "vm_ok s'" "page_byte {} s' = page_byte {} s1"
      "\<exists>e\<in>set (the (tlb s')). valid e \<and> virtualPage e = vpn" "registers s' = registers s1"
      "currentSpace s' = currentSpace s1" by blast
  have "HandlePageFault s = Some (Inr s')"
    using f s1(1) s'(1) by (simp add: HandlePageFault_def faults_on_def fault_page_def)
  moreover have "keeps_bytes {} s {} s'" using s1(7) s'(3) by (simp add: keeps_bytes_def)
  ultimately show ?thesis using s'(2,4-6) s1(8) by (intro exI [of _ s']) (simp add: same_cpu_def)
qed

section \<open>The context switch\<close>

lemma flush_entry_ok:
  assumes inv: "vm_inv H U s" and i: "0 \<le> i" "i < int TLBSize"
  shows "\<exists>s'. flush_entry i s = Inr s' \<and> vm_inv H U s' \<and> page_byte H s' = page_byte H s \<and>
    the (tlb s') = (the (tlb s))[nat i := (the (tlb s) ! nat i)\<lparr>valid := False\<rparr>]"
proof -
  obtain t where t: "tlb s = Some t" using vm_invD(2) [OF inv] by blast
  have lt: "length t = TLBSize" using vm_invD(4) [OF inv] t by (simp add: tlb_inv_def)
  have n: "nat i < TLBSize" using i by auto
  obtain ipt where s1: "save_dirty (t ! nat i) s = Inr (s\<lparr>IPT := ipt\<rparr>)"
    "vm_inv H U (s\<lparr>IPT := ipt, tlb := Some (t[nat i := (t ! nat i)\<lparr>valid := False\<rparr>])\<rparr>)"
    "page_byte H (s\<lparr>IPT := ipt, tlb := Some (t[nat i := (t ! nat i)\<lparr>valid := False\<rparr>])\<rparr>) = page_byte H s"
    using save_dirty_ok [OF inv t n] by blast
  have "flush_entry i s = Inr (s\<lparr>IPT := ipt, tlb := Some (t[nat i := (t ! nat i)\<lparr>valid := False\<rparr>])\<rparr>)"
    using s1(1) tlb_get_ok [OF t lt i] tlb_set_ok [of "s\<lparr>IPT := ipt\<rparr>" t i] t lt i
    by (simp add: flush_entry_def)
  then show ?thesis
    using s1(2,3) t
    by (intro exI [of _ "s\<lparr>IPT := ipt, tlb := Some (t[nat i := (t ! nat i)\<lparr>valid := False\<rparr>])\<rparr>"]) simp
qed

lemma flush_tlb_ok:
  assumes inv: "vm_inv H U s"
  shows "\<exists>s'. for_loop 0 (int TLBSize) flush_entry s = Inr s' \<and> vm_inv H U s' \<and>
    page_byte H s' = page_byte H s \<and> (\<forall>e\<in>set (the (tlb s')). \<not> valid e)"
proof -
  have "\<exists>s'. for_loop 0 (int TLBSize) flush_entry s = Inr s' \<and> vm_inv H U s' \<and>
    page_byte H s' = page_byte H s \<and> (\<forall>i. int i < int TLBSize \<longrightarrow> \<not> valid (the (tlb s') ! i))"
  proof (rule for_loop_rule [where I = "\<lambda>j s'. vm_inv H U s' \<and> page_byte H s' = page_byte H s \<and>
      (\<forall>i. int i < j \<longrightarrow> \<not> valid (the (tlb s') ! i))"])
    fix j x
    assume j: "0 \<le> j" "j < int TLBSize" and x: "vm_inv H U x \<and> page_byte H x = page_byte H s \<and>
      (\<forall>i. int i < j \<longrightarrow> \<not> valid (the (tlb x) ! i))"
    then obtain y where y: "flush_entry j x = Inr y" "vm_inv H U y" "page_byte H y = page_byte H x"
      "the (tlb y) = (the (tlb x))[nat j := (the (tlb x) ! nat j)\<lparr>valid := False\<rparr>]"
      using flush_entry_ok [of H U x j] by blast
    have "\<not> valid (the (tlb y) ! i)" if "int i < j + 1" for i
    proof (cases "i = nat j")
      case True
      have "length (the (tlb x)) = TLBSize" using vm_invD(4) [of H U x] x by (simp add: tlb_inv_def)
      then show ?thesis using y(4) True j by simp
    next
      case False
      then have "int i < j" using that j by linarith
      then show ?thesis using x y(4) False by simp
    qed
    then show "\<exists>t'. flush_entry j x = Inr t' \<and> vm_inv H U t' \<and> page_byte H t' = page_byte H s \<and>
      (\<forall>i. int i < j + 1 \<longrightarrow> \<not> valid (the (tlb t') ! i))"
      using y x by auto
  qed (use inv in simp_all)
  then obtain s' where s': "for_loop 0 (int TLBSize) flush_entry s = Inr s'" "vm_inv H U s'"
    "page_byte H s' = page_byte H s" "\<And>i. i < TLBSize \<Longrightarrow> \<not> valid (the (tlb s') ! i)" by auto
  have "length (the (tlb s')) = TLBSize" using vm_invD(4) [OF s'(2)] by (simp add: tlb_inv_def)
  then have "\<forall>e\<in>set (the (tlb s')). \<not> valid e" using s'(4) by (auto simp: in_set_conv_nth)
  then show ?thesis using s'(1-3) by blast
qed

section \<open>Concrete states\<close>

definition no_entry :: TranslationEntry where
  "no_entry = \<lparr>virtualPage = 0, physicalPage = 0, valid = False, readOnly = False, use = False, dirty = False\<rparr>"

definition no_frame :: IPTEntry where
  "no_frame = TranslationEntry.extend no_entry \<lparr>space = None\<rparr>"

definition sample_page :: "int \<Rightarrow> DiskLocation \<Rightarrow> PageTableEntry" where
  "sample_page v l = TranslationEntry.extend (no_entry\<lparr>virtualPage := v\<rparr>)
     \<lparr>location = l, offset = 40 + v * 128\<rparr>"

text \<open>One process of two pages, the second of them \<open>UNINIT\<close>.\<close>

definition sample_space :: AddrSpace where
  "sample_space = \<lparr>pages = [sample_page 0 IN_EXECUTABLE, sample_page 1 UNINIT],
     executable = replicate 168 5, numExecutablePages = 1\<rparr>"

definition frame_map :: "u32 \<Rightarrow> BitMap" where
  "frame_map w = \<lparr>numBits = NumPhysPages, numWords = 128, bmap = w # replicate 127 0\<rparr>"

definition boot_vm :: vm where
  "boot_vm = machine.extend (new_Machine True (\<lambda>_. no_entry) 0)
     \<lparr>IPT = replicate (nat NumPhysPages) no_frame, spaces = [7 \<mapsto> sample_space], currentSpace = 7,
      mainMemoryBitmap = frame_map 0, swapMap = frame_map 0, swapFile = [], evictionList = [],
      evictionPolicy = FIFO, currentTLB = 0, randoms = (\<lambda>_. 0)\<rparr>"

lemma boot_fields [simp]:
  "IPT boot_vm = replicate (nat NumPhysPages) no_frame" "spaces boot_vm = [7 \<mapsto> sample_space]"
  "currentSpace boot_vm = 7" "mainMemoryBitmap boot_vm = frame_map 0" "swapMap boot_vm = frame_map 0"
  "swapFile boot_vm = []" "evictionList boot_vm = []" "evictionPolicy boot_vm = FIFO"
  "currentTLB boot_vm = 0" "randoms boot_vm = (\<lambda>_. 0)"
  "tlb boot_vm = Some (replicate TLBSize no_entry)" "registers boot_vm = (\<lambda>_. 0)"
  by (simp_all add: boot_vm_def machine.defs new_Machine_def no_entry_def map_replicate_const)

lemma frame_map_wf: "wf_BitMap (frame_map w)"
  by (simp add: frame_map_def wf_BitMap_def NumPhysPages_def divRoundUp_def)

lemma frame_map_bits: "bits (frame_map 0) = {}" "bits (frame_map 1) = {0}"
proof -
  have nth: "(w # replicate 127 0) ! word_index i = (if word_index i = 0 then w else 0)"
    if "0 \<le> i" "i < NumPhysPages" for i and w :: u32
  proof -
    have "word_index i < 128" using that by (simp add: word_index_def NumPhysPages_def)
    then show ?thesis by (cases "word_index i") simp_all
  qed
  show "bits (frame_map 0) = {}"
    using nth [where w = 0] by (auto simp: bits_def frame_map_def)
  show "bits (frame_map 1) = {0}"
  proof -
    have "x = 0" if "0 \<le> x" "x < NumPhysPages" "bit ((1 # replicate 127 0 :: u32 list) ! word_index x) (bit_index x)" for x
    proof -
      have "word_index x = 0" "bit_index x = 0"
        using that(3) nth [OF that(1,2), where w = 1] by (auto simp: bit_1_iff split: if_splits)
      then have "x div 32 = 0" "x mod 32 = 0" using that(1) by (simp_all add: word_index_def bit_index_def)
      then show "x = 0" by presburger
    qed
    moreover have "bit ((1 # replicate 127 0 :: u32 list) ! word_index 0) (bit_index 0)"
      by (simp add: word_index_def bit_index_def)
    ultimately show ?thesis by (auto simp: bits_def frame_map_def NumPhysPages_def)
  qed
qed

lemma frames_none: "frames (replicate (nat NumPhysPages) no_frame) = {}"
  by (auto simp: frames_def no_frame_def no_entry_def TranslationEntry.defs)

lemma sample_entries:
  "page_entry [7 \<mapsto> sample_space] x y = (if x = 7 \<and> y = 0 then Some (sample_page 0 IN_EXECUTABLE)
     else if x = 7 \<and> y = 1 then Some (sample_page 1 UNINIT) else None)"
proof -
  consider "x = 7 \<and> (y = 0 \<or> y = 1)" | "x \<noteq> 7 \<or> \<not> (0 \<le> y \<and> y < 2)" by (cases "x = 7") linarith+
  then show ?thesis by cases (auto simp: page_entry_def sample_space_def)
qed

lemma sample_page_fields [simp]:
  "location (sample_page v l) = l" "offset (sample_page v l) = 40 + v * 128"
  by (simp_all add: sample_page_def TranslationEntry.defs no_entry_def)

lemma sample_swap_inv: "swap_inv [7 \<mapsto> sample_space] (frame_map 0) []"
  by (auto simp: swap_inv_def frame_map_wf sample_entries split: if_splits)

lemma unused_none: "unused U (replicate (nat NumPhysPages) no_frame)"
  by (simp add: unused_def no_frame_def no_entry_def TranslationEntry.defs nat_less_eq_zless)

lemma boot_vm_ok: "vm_ok boot_vm"
proof (rule vm_invI [where t = "replicate TLBSize no_entry"])
  show "ipt_inv {} (IPT boot_vm) (spaces boot_vm)"
    by (simp add: ipt_inv_def frames_none mapped_def) (simp add: NumPhysPages_def)
  show "tlb_inv {} (IPT boot_vm) (currentSpace boot_vm) (currentTLB boot_vm) (replicate TLBSize no_entry)"
    by (auto simp: tlb_inv_def no_entry_def TLBSize_def)
  show "map_inv {} (IPT boot_vm) (mainMemoryBitmap boot_vm)"
    by (simp add: map_inv_def frame_map_wf frame_map_bits frames_none) (simp add: frame_map_def)
  show "clean_inv {} (IPT boot_vm) (replicate TLBSize no_entry) (mainMemory boot_vm) (spaces boot_vm) (swapFile boot_vm)"
    by (simp add: clean_inv_def mapped_def frames_none)
qed (simp_all add: sample_swap_inv list_inv_def frames_none unused_none)

lemma boot_evictable: "evictable boot_vm"
  by (simp add: evictable_def frames_none) (simp add: NumPhysPages_def)

lemma boot_faults: "faults_on boot_vm 0"
  by (simp add: faults_on_def fault_page_def quot_def sample_entries no_entry_def TLBSize_def)

text \<open>The same machine with its one page in frame 0, written through TLB entry 1, while the
  next entry to be replaced, number 0, is not valid: three more faults ago it was flushed.\<close>

definition written_vm :: vm where
  "written_vm = boot_vm\<lparr>
     IPT := (replicate (nat NumPhysPages) no_frame)[0 := no_frame\<lparr>valid := True, space := Some 7\<rparr>],
     tlb := Some ((replicate TLBSize no_entry)[1 := no_entry\<lparr>valid := True, dirty := True\<rparr>]),
     mainMemoryBitmap := frame_map 1, evictionList := [0]\<rparr>"

lemma written_vm_fields [simp]:
  "IPT written_vm = (replicate (nat NumPhysPages) no_frame)[0 := no_frame\<lparr>valid := True, space := Some 7\<rparr>]"
  "tlb written_vm = Some ((replicate TLBSize no_entry)[1 := no_entry\<lparr>valid := True, dirty := True\<rparr>])"
  "mainMemoryBitmap written_vm = frame_map 1" "evictionList written_vm = [0]"
  "spaces written_vm = [7 \<mapsto> sample_space]" "currentSpace written_vm = 7" "swapMap written_vm = frame_map 0"
  "swapFile written_vm = []" "evictionPolicy written_vm = FIFO" "currentTLB written_vm = 0"
  by (simp_all add: written_vm_def)

lemma written_ipt:
  assumes "0 \<le> p" "p < NumPhysPages"
  shows "IPT written_vm ! nat p = (if p = 0 then no_frame\<lparr>valid := True, space := Some 7\<rparr> else no_frame)"
  using assms by (simp add: nth_update_cases nat_less_eq_zless NumPhysPages_def)

lemma no_frame_fields [simp]:
  "valid no_frame = False" "physicalPage no_frame = 0" "virtualPage no_frame = 0" "dirty no_frame = False"
  "use no_frame = False" "space no_frame = None"
  by (simp_all add: no_frame_def no_entry_def TranslationEntry.defs)

lemma written_frames: "frames (IPT written_vm) = {0}"
proof -
  have "valid (IPT written_vm ! nat p) \<longleftrightarrow> p = 0" if "0 \<le> p" "p < NumPhysPages" for p
    using written_ipt [OF that] by simp
  then show ?thesis unfolding frames_def by (auto simp: NumPhysPages_def)
qed

lemma written_mapped: "mapped {} (IPT written_vm) x y q \<longleftrightarrow> x = 7 \<and> y = 0 \<and> q = 0"
  unfolding mapped_def written_frames
  using written_ipt [of 0] by (auto simp: NumPhysPages_def simp del: written_vm_fields(1))

lemma written_tlb:
  "e \<in> set ((replicate TLBSize no_entry)[Suc 0 := no_entry\<lparr>valid := True, dirty := True\<rparr>]) \<longleftrightarrow>
   e = no_entry \<or> e = no_entry\<lparr>valid := True, dirty := True\<rparr>"
  by (auto simp: TLBSize_def numeral_eq_Suc)

lemma written_modified: "modified (IPT written_vm) (the (tlb written_vm)) 0"
proof -
  have "no_entry\<lparr>valid := True, dirty := True\<rparr> \<in> set (the (tlb written_vm))" by (simp add: written_tlb)
  then show ?thesis unfolding modified_def by (intro disjI2 bexI) (auto simp: no_entry_def)
qed

lemma written_vm_ok: "vm_ok written_vm"
proof (rule vm_invI [where t = "the (tlb written_vm)"])
  have z: "IPT written_vm ! 0 = no_frame\<lparr>valid := True, space := Some 7\<rparr>"
    using written_ipt [of 0] by (simp add: NumPhysPages_def)
  show "ipt_inv {} (IPT written_vm) (spaces written_vm)"
    unfolding ipt_inv_def written_mapped written_frames
    using z by (simp add: sample_entries) (simp add: NumPhysPages_def)
  show "tlb_inv {} (IPT written_vm) (currentSpace written_vm) (currentTLB written_vm) (the (tlb written_vm))"
    unfolding tlb_inv_def written_mapped using z
    by (auto simp: written_tlb nth_update_cases simp del: written_vm_fields(1)) (auto simp: no_entry_def TLBSize_def)
  show "map_inv {} (IPT written_vm) (mainMemoryBitmap written_vm)"
    unfolding map_inv_def written_frames by (simp add: frame_map_wf frame_map_bits) (simp add: frame_map_def)
  show "clean_inv {} (IPT written_vm) (the (tlb written_vm)) (mainMemory written_vm) (spaces written_vm) (swapFile written_vm)"
    unfolding clean_inv_def written_mapped using written_modified by blast
  show "list_inv {} (IPT written_vm) (evictionPolicy written_vm) (evictionList written_vm)"
    unfolding list_inv_def written_frames by (simp add: NumPhysPages_def)
  show "unused {} (IPT written_vm)"
    unfolding unused_def using written_ipt by (simp del: written_vm_fields(1))
qed (simp_all add: sample_swap_inv)

lemma written_dirty_lost: "dirty_lost 0 written_vm"
  using written_modified written_ipt [of 0]
  by (simp add: dirty_lost_def NumPhysPages_def del: written_vm_fields(1)) (simp add: no_entry_def TLBSize_def)

section \<open>Properties\<close>

lemma tlb_search_hit:
  "e \<in> set t \<Longrightarrow> valid e \<Longrightarrow> virtualPage e = vpn \<Longrightarrow> 0 \<le> vpn \<Longrightarrow> vpn < 2 ^ 32 \<Longrightarrow> tlb_search t vpn \<noteq> None"
  by (induction t) auto

lemma fault_page_less: "fault_page s < 2 ^ 32"
proof -
  have b: "sint (registers s BadVAddrReg) < 2147483648" using sint_lt [of "registers s BadVAddrReg"] by simp
  show ?thesis
  proof (cases "0 \<le> sint (registers s BadVAddrReg)")
    case True
    define x where "x = sint (registers s BadVAddrReg)"
    have "0 \<le> x mod 128" by simp
    then have "x div 128 < 4294967296"
      using b True minus_mult_div_eq_mod [of x 128] unfolding x_def [symmetric] by linarith
    then show ?thesis using True by (simp add: fault_page_def quot_nonneg x_def)
  next
    case False
    then have "fault_page s \<le> 0"
      by (simp add: fault_page_def quot_def pos_imp_zdiv_nonneg_iff)
    then show ?thesis by simp
  qed
qed

text \<open>
  C17: demand paging is transparent. When the page of the faulting address belongs to the address
  space and the TLB has no entry for it, the handler returns (no crash, and its loops end) with the
  invariant of the pager kept; the retried access is found in the TLB; and every byte that a page of
  any process had, in memory, in the executable or in the swap file, it still has. If no
  frame is free the swap file needs a free slot and the dirty bit of the victim must not be one the code loses.
\<close>

theorem page_fault_transparent:
  assumes "vm_ok s" "faults_on s vpn"
    and "frames (IPT s) = {0..<NumPhysPages} \<Longrightarrow>
      swap_room s \<and> (\<forall>p. \<not> dirty_lost p s) \<and> rand_ok (randoms s)"
  shows "\<exists>s'. HandlePageFault s = Some (Inr s') \<and> vm_ok s' \<and> tlb_search (the (tlb s')) vpn \<noteq> None \<and>
    registers s' = registers s \<and> currentSpace s' = currentSpace s \<and>
    (\<forall>sid v k b. k < 128 \<and> page_byte {} s sid v k b \<longrightarrow> page_byte {} s' sid v k b)"
proof -
  have "evictable s" using assms(3) by (simp add: evictable_def)
  from HandlePageFault_ok [OF assms(1) this assms(2)] obtain s' e where
    s': "HandlePageFault s = Some (Inr s')" "vm_ok s'" "keeps_bytes {} s {} s'"
      "e \<in> set (the (tlb s'))" "valid e" "virtualPage e = vpn" "registers s' = registers s"
      "currentSpace s' = currentSpace s" by blast
  have "0 \<le> vpn" "vpn < 2 ^ 32"
    using assms(2) fault_page_less [of s] by (auto simp: faults_on_def page_entry_def split: option.splits if_splits)
  from tlb_search_hit [OF s'(4-6) this] s' show ?thesis unfolding keeps_bytes_def by blast
qed

theorem page_fault_transparent_witness:
  "\<exists>s'. HandlePageFault boot_vm = Some (Inr s') \<and> vm_ok s' \<and>
    (\<forall>k b. k < 128 \<and> page_byte {} boot_vm 7 0 k b \<longrightarrow> page_byte {} s' 7 0 k b)"
  using page_fault_transparent [OF boot_vm_ok boot_faults] boot_evictable [unfolded evictable_def] by blast

text \<open>
  C18: a write can be lost. \<open>Evict\<close> saves the dirty bit of the victim's TLB entry only if the entry of
  number \<open>currentTLB\<close>, which has nothing to do with the victim, is valid. When it is not, and the
  write happened after the entry was loaded, the victim is not written to the swap file: before the
  eviction the page has the bytes of its frame, afterwards those it had before it was written.
\<close>

theorem eviction_loses_write:
  assumes "vm_ok s" "evictionPolicy s = FIFO" "evictionList s = p # l"
    and "mapped {} (IPT s) sid v p" "dirty_lost p s"
  shows "(\<forall>k b. page_byte {} s sid v k b \<longleftrightarrow> b = frame_byte (mainMemory s) p k) \<and>
    (\<exists>s'. Evict s = Some (Inr (p, s')) \<and> swapFile s' = swapFile s \<and> spaces s' = spaces s \<and>
      (\<forall>k b. page_byte {p} s' sid v k b \<longleftrightarrow> backing (spaces s) (swapFile s) sid v k = Some b))"
proof -
  note I = vm_invD [OF assms(1)]
  obtain t where t: "tlb s = Some t" using I(2) by blast
  note pr = mapped_range [OF assms(4)]
  have lt: "length t = TLBSize" and len: "int (length (IPT s)) = NumPhysPages"
    using I(3,4) t by (simp_all add: tlb_inv_def ipt_inv_def)
  have mod: "modified (IPT s) t p" and d: "\<not> dirty (IPT s ! nat p)" and c: "\<not> valid (t ! nat (currentTLB s))"
    using assms(5) t by (auto simp: dirty_lost_def)
  have uniq: "q = p" if "mapped {} (IPT s) sid v q" for q using that assms(4) I(3) unfolding ipt_inv_def by blast
  have before: "page_byte {} s sid v k b \<longleftrightarrow> b = frame_byte (mainMemory s) p k" for k b
    unfolding page_byte_def t option.sel using mod assms(4) uniq by blast
  obtain i where hit: "tlb_hit t p i"
    using mod d by (auto simp: modified_nth [OF lt] tlb_hit_def)
  define s0 where "s0 = s\<lparr>evictionList := l\<rparr>"
  define s1 where "s1 = s0\<lparr>IPT := (IPT s0)[nat p := (IPT s0 ! nat p)\<lparr>use := True\<rparr>]\<rparr>"
  define s' where "s' = s1\<lparr>tlb := Some (t[i := (t ! i)\<lparr>valid := False\<rparr>])\<rparr>"
  have "list_inv {p} (IPT s) FIFO l" using I(8) assms(2,3) by (auto simp: list_inv_def)
  moreover have "unused {p} (IPT s)" using I(9) by (simp add: unused_def)
  ultimately have "vm_inv {} {p} s0"
    using I assms(2) t by (intro vm_invI [where t = t]) (simp_all add: s0_def)
  from use_update_inv [OF this _ _ s1_def, of "{p}"] have i1: "vm_inv {} {p} s1"
    using pr \<open>list_inv {p} (IPT s) FIFO l\<close> assms(2) by (simp add: s0_def)
  have t1: "tlb s1 = Some t" "currentTLB s1 = currentTLB s" using t by (simp_all add: s1_def s0_def)
  have gone: "entry_gone i False s1 = s'" by (simp add: entry_gone_def Let_def s'_def t1)
  have np: "nat p < length (IPT s)" using mapped_index [OF assms(4) len] .
  have "fifo_frame s = Some (Inr (p, s0))"
    using assms(3) ipt_get_ok [OF I(3)] pr I(9) by (subst fifo_frame.simps) (simp add: unused_def s0_def)
  moreover have "ipt_upd p (use_update (\<lambda>_. True)) s0 = Inr s1"
    using ipt_upd_ok [of "{}" s0 "spaces s" p] I(3) pr by (simp add: s1_def s0_def)
  moreover have "for_loop 0 (int TLBSize) (evict_tlb p) s1 = Inr s'"
    using evict_loop_hit [OF i1 t1(1) hit] c by (simp add: t1 gone)
  moreover have "swap_out p s' = Inr s'"
    using d pr len np by (simp add: swap_out_def ipt_get_def s'_def s1_def s0_def)
  ultimately have run: "Evict s = Some (Inr (p, s'))"
    using assms(2) by (simp add: Evict_def choose_frame_def evict_frame_def)
  have "same_pages (IPT s) (IPT s')" unfolding s'_def s1_def s0_def by (simp add: same_pages_update)
  then have "\<not> mapped {p} (IPT s') sid v q" for q
    using uniq same_pages_mapped len by (auto simp: mapped_hole)
  then have "page_byte {p} s' sid v k b \<longleftrightarrow> backing (spaces s) (swapFile s) sid v k = Some b" for k b
    by (simp add: page_byte_def s'_def s1_def s0_def)
  with before run show ?thesis by (auto simp: s'_def s1_def s0_def)
qed

theorem eviction_loses_write_witness:
  "\<exists>s'. Evict written_vm = Some (Inr (0, s')) \<and> page_byte {} written_vm 7 0 0 0 \<and> page_byte {0} s' 7 0 0 5"
proof -
  have "frame_byte (mainMemory written_vm) 0 0 = 0"
    by (simp add: frame_byte_def written_vm_def boot_vm_def machine.defs new_Machine_def)
  moreover have "backing (spaces written_vm) (swapFile written_vm) 7 0 0 = Some 5"
    by (simp add: backing_def sample_entries file_at_def) (simp add: sample_space_def)
  ultimately show ?thesis
    using eviction_loses_write [OF written_vm_ok _ _ _ written_dirty_lost, of "[]" 7 0]
    by (simp add: written_mapped del: written_vm_fields(1)) blast
qed

text \<open>
  C19: a context switch is safe. Saving or restoring the state of an address space saves the dirty bit
  of every valid TLB entry and empties the TLB, so that no translation of the old process is left;
  the invariant of the pager and the bytes of all pages stay.
\<close>

theorem context_switch_flushes:
  assumes "vm_ok s"
  shows "\<exists>s'. SaveState s = Inr s' \<and> RestoreState s = Inr s' \<and> vm_ok s' \<and> page_byte {} s' = page_byte {} s \<and>
    (\<forall>e\<in>set (the (tlb s')). \<not> valid e) \<and> (\<forall>p. \<not> dirty_lost p s') \<and>
    (\<forall>sid. vm_ok (s'\<lparr>currentSpace := sid\<rparr>))"
proof -
  from flush_tlb_ok [OF assms] obtain s' where s': "for_loop 0 (int TLBSize) flush_entry s = Inr s'" "vm_ok s'"
    "page_byte {} s' = page_byte {} s" "\<forall>e\<in>set (the (tlb s')). \<not> valid e" by blast
  have "\<not> dirty_lost p s'" for p using s'(4) by (auto simp: dirty_lost_def modified_def)
  moreover have "vm_ok (s'\<lparr>currentSpace := sid\<rparr>)" for sid
    using s'(2,4) by (auto simp: vm_inv_def tlb_inv_def)
  ultimately show ?thesis using s' by (auto simp: SaveState_def RestoreState_def)
qed

theorem context_switch_flushes_witness: "\<exists>s'. SaveState written_vm = Inr s' \<and> vm_ok s'"
  using context_switch_flushes [OF written_vm_ok] by blast

text \<open>
  the handler does not check the address. A fault on a page outside the address space of the running
  process brings the kernel down, with an access outside the page table; and for the last 127
  addresses, which are negative as an \<open>int\<close>, it brings in page 0, while the translation looks for
  the page 33554431: the access, retried, faults again for ever.
\<close>

lemma wild_address_crashes:
  assumes "vm_ok s" "evictable s" "spaces s (currentSpace s) = Some sp" "pages sp \<noteq> []"
  shows "(\<not> (0 \<le> fault_page s \<and> fault_page s < int (length (pages sp))) \<longrightarrow>
      HandlePageFault s = Some (Inl OutOfBounds)) \<and>
    (uint (registers s BadVAddrReg) > 2 ^ 32 - 128 \<longrightarrow>
      fault_page s = 0 \<and> uint (registers s BadVAddrReg) div PageSize = 33554431)"
proof (intro conjI impI)
  assume out: "\<not> (0 \<le> fault_page s \<and> fault_page s < int (length (pages sp)))"
  note I = vm_invD [OF assms(1)]
  let ?v = "fault_page s"
  obtain t where t: "tlb s = Some t" using I(2) by blast
  have none: "page_entry (spaces s) (currentSpace s) ?v = None" using out assms(3) by (auto simp: page_entry_def)
  have some0: "page_entry (spaces s) (currentSpace s) 0 \<noteq> None" using assms(3,4) by (simp add: page_entry_def)
  have "ipt_search s ?v = - 1"
  proof (rule ccontr)
    assume "ipt_search s ?v \<noteq> - 1"
    then have "mapped {} (IPT s) (currentSpace s) ?v (ipt_search s ?v)"
      using ipt_search_cases [OF assms(1), of ?v] by simp
    then have "ipt_search s ?v \<in> frames (IPT s) - {}" "space (IPT s ! nat (ipt_search s ?v)) = Some (currentSpace s)"
      "virtualPage (IPT s ! nat (ipt_search s ?v)) = ?v" by (auto simp: mapped_def)
    then show False using I(3) none unfolding ipt_inv_def by (metis option.inject)
  qed
  moreover have crash: "bind_result (ipt_upd p (use_update (\<lambda>_. True)) x) (HandleIPTMiss ?v p) = Inl OutOfBounds"
    if p: "0 \<le> p" "p < NumPhysPages" and x: "ipt_inv H (IPT x) sps" "currentSpace x = currentSpace s"
      "\<And>y z. (page_entry (spaces x) y z = None) = (page_entry (spaces s) y z = None)" for p x H sps
  proof -
    obtain spx where spx: "spaces x (currentSpace s) = Some spx"
      using x(3) [of "currentSpace s" 0] some0 by (auto simp: page_entry_def split: option.splits)
    then have "\<not> (0 \<le> ?v \<and> ?v < int (length (pages spx)))"
      using x(3) [of "currentSpace s" ?v] none by (auto simp: page_entry_def)
    then show ?thesis
      using p spx x(2) ipt_upd_ok [OF x(1) p]
      by (auto simp: HandleIPTMiss_def read_page_def the_space_def array_get_def)
  qed
  moreover have "fetch_page ?v s = Some (Inl OutOfBounds)"
  proof (cases "frames (IPT s) = {0..<NumPhysPages}")
    case True
    then have "Find (mainMemoryBitmap s) = Inr (- 1, mainMemoryBitmap s)"
      using Find_full [of "mainMemoryBitmap s"] I(5) by (simp add: map_inv_def)
    moreover have "swap_room s" "\<And>p. \<not> dirty_lost p s" "rand_ok (randoms s)"
      using assms(2) True by (auto simp: evictable_def)
    with Evict_ok [OF assms(1) t True] obtain p s1 where s1: "Evict s = Some (Inr (p, s1))"
      "p \<in> {0..<NumPhysPages}" "vm_inv {p} {p} s1" "same_cpu s s1" by blast
    ultimately show ?thesis
      using crash [of p "{p}" s1] vm_invD(3) [OF s1(3)]
      by (subst fetch_page.simps) (simp add: same_cpu_def)
  next
    case False
    then have "\<not> {0..<numBits (mainMemoryBitmap s)} \<subseteq> bits (mainMemoryBitmap s)"
      using I(5) frames_range by (fastforce simp: map_inv_def)
    from Find_free [OF _ this] obtain p b where "Find (mainMemoryBitmap s) = Inr (p, b)"
      "0 \<le> p" "p < NumPhysPages" using I(5) by (auto simp: map_inv_def)
    then show ?thesis
      using crash [of p "{}" "s\<lparr>mainMemoryBitmap := b\<rparr>"] I(3)
      by (subst fetch_page.simps) simp
  qed
  ultimately show "HandlePageFault s = Some (Inl OutOfBounds)"
    by (simp add: HandlePageFault_def get_frame_def fault_page_def [symmetric])
next
  assume h: "uint (registers s BadVAddrReg) > 2 ^ 32 - 128"
  define r where "r = uint (registers s BadVAddrReg)"
  have r: "4294967168 < r" "r < 4294967296" using h uint_lt2p [of "registers s BadVAddrReg"] by (simp_all add: r_def)
  have "(word_of_int (r - 4294967296) :: u32) = word_of_int r"
    by (simp add: word_of_int_eq_iff take_bit_eq_mod)
  then have "registers s BadVAddrReg = word_of_int (r - 4294967296)" by (simp add: r_def)
  then have "sint (registers s BadVAddrReg) = r - 4294967296"
    using r sint_of_int [of "r - 4294967296"] by simp
  then have "\<bar>sint (registers s BadVAddrReg)\<bar> div 128 = 0" using r by simp
  then show "fault_page s = 0" by (simp add: fault_page_def quot_def)
  have "r div 128 = 33554431" using r by linarith
  then show "uint (registers s BadVAddrReg) div PageSize = 33554431" by (simp add: r_def PageSize_def)
qed

text \<open>Two faults of the sample machine: on page 2, which it does not have, and on the last byte.\<close>

lemma wild_address_crashes_example:
  "HandlePageFault (set_reg BadVAddrReg 256 boot_vm) = Some (Inl OutOfBounds) \<and>
   fault_page (set_reg BadVAddrReg (- 1) boot_vm) = 0"
proof -
  have ok: "vm_ok (set_reg BadVAddrReg w boot_vm)" "evictable (set_reg BadVAddrReg w boot_vm)" for w
    using boot_vm_ok boot_evictable
    by (simp_all add: set_reg_def vm_inv_def evictable_def dirty_lost_def swap_room_def)
  have f: "fault_page (set_reg BadVAddrReg 256 boot_vm) = 2"
    by (simp add: fault_page_def set_reg_def quot_def)
  have u: "uint (registers (set_reg BadVAddrReg (- 1) boot_vm) BadVAddrReg) = 4294967295"
    by (simp add: set_reg_def unsigned_minus_1_eq_mask mask_eq_exp_minus_1)
  have sp: "spaces (set_reg BadVAddrReg w boot_vm) (currentSpace (set_reg BadVAddrReg w boot_vm)) = Some sample_space"
    "pages sample_space \<noteq> []" "length (pages sample_space) = 2" for w
    by (simp_all add: set_reg_def sample_space_def)
  show ?thesis
    using wild_address_crashes [OF ok sp(1,2), of 256] wild_address_crashes [OF ok sp(1,2), of "- 1"] f u sp(3)
    by simp
qed

section \<open>A new address space\<close>

text \<open>A page of location \<open>UNINIT\<close> (the stack, and the uninitialised data, which bin/noff.h
  says should be zeroed) is whatever the frame held before, perhaps the page of another process.\<close>

lemma uninitialised_page_not_zeroed:
  assumes "vm_inv H U s" "page_entry (spaces s) (currentSpace s) v = Some e" "location e = UNINIT"
  shows "\<exists>s'. read_page v p s = Inr s' \<and> mainMemory s' = mainMemory s"
proof -
  obtain sp where sp: "spaces s (currentSpace s) = Some sp" using assms(2) by (auto simp: page_entry_Some)
  have "page_bytes s sp e = []" using assms(3) by (simp add: page_bytes_def)
  then have "load_bytes (mainMemory s) (nat (p * PageSize)) (page_bytes s sp e) = mainMemory s"
    by (intro ext) (auto simp: load_bytes_def)
  then show ?thesis using read_page_ok [OF sp assms(2) vm_invD(6) [OF assms(1)], of p] by simp
qed

text \<open>The sizes of a header that does not overflow the kernel's integers.\<close>

definition loaded_size :: "NoffHeader \<Rightarrow> int" where
  "loaded_size h = sint (segsize (code h)) + sint (segsize (initData h))"

definition noff_ok :: "NoffHeader \<Rightarrow> bool" where
  "noff_ok h \<longleftrightarrow> noffMagic h = NOFFMAGIC \<and> 0 \<le> sint (segsize (code h)) \<and> 0 \<le> sint (segsize (initData h)) \<and>
     0 \<le> sint (segsize (uninitData h)) \<and> loaded_size h + sint (segsize (uninitData h)) < 2 ^ 31 \<and>
     0 \<le> sint (inFileAddr (code h)) \<and> sint (inFileAddr (code h)) + loaded_size h < 2 ^ 31 - 128"

lemma sint_add_ok:
  fixes a b :: u32
  assumes "0 \<le> sint a" "0 \<le> sint b" "sint a + sint b < 2 ^ 31"
  shows "sint (a + b) = sint a + sint b"
proof -
  have "a + b = word_of_int (sint a + sint b)" by (simp add: wi_hom_syms)
  then show ?thesis using assms sint_of_int [of "sint a + sint b"] by simp
qed

lemma loaded_pages_bound:
  assumes "0 \<le> n" "0 \<le> v" "v < divRoundUp n PageSize"
  shows "v * 128 < n"
  using divRoundUp_upper [of PageSize n] assms by (simp add: PageSize_def)

lemma uint_sint:
  assumes "0 \<le> sint (w :: u32)"
  shows "uint w = sint w"
proof -
  have "uint (word_of_int (sint w) :: u32) = sint w mod 2 ^ 32"
    by (subst uint_word_of_int) simp
  then show ?thesis using assms sint_lt [of w] by simp
qed

lemma new_page_at:
  assumes "i < n" "0 \<le> m" "m < 2 ^ 32"
  shows "location (new_pages g h n m ! i) = (if int i < m then IN_EXECUTABLE else UNINIT)"
    "offset (new_pages g h n m ! i) = sint (inFileAddr (code h) + of_nat i * 128)"
  using assms by (simp_all add: new_pages_def)

lemma new_page_offset:
  assumes h: "noff_ok h" and v: "0 \<le> v" "v < divRoundUp (loaded_size h) PageSize"
  shows "sint (inFileAddr (code h) + of_nat (nat v) * 128) = sint (inFileAddr (code h)) + v * 128"
proof -
  have l: "0 \<le> loaded_size h" using h by (simp add: noff_ok_def loaded_size_def)
  have b: "v * 128 < loaded_size h" by (rule loaded_pages_bound [OF l v])
  have e: "of_nat (nat v) * 128 = (word_of_int (v * 128) :: u32)" using v(1) by (simp add: wi_hom_syms)
  have "sint (word_of_int (v * 128) :: u32) = v * 128"
    using b v(1) h sint_of_int [of "v * 128"] by (simp add: noff_ok_def)
  then show ?thesis
    unfolding e using sint_add_ok [of "inFileAddr (code h)" "word_of_int (v * 128)"] h b v(1)
    by (simp add: noff_ok_def)
qed

lemma new_AddrSpace_ok:
  assumes "read_header big f = Inr h" "noff_ok h"
  shows "new_AddrSpace big g (Some f) = Inr \<lparr>pages = new_pages g h
      (nat (divRoundUp (loaded_size h + sint (segsize (uninitData h))) PageSize + 800))
      (divRoundUp (loaded_size h) PageSize), executable = f,
    numExecutablePages = divRoundUp (loaded_size h + sint (segsize (uninitData h))) PageSize\<rparr>"
proof -
  have h: "noffMagic h = NOFFMAGIC" using assms(2) by (simp add: noff_ok_def)
  have c: "sint (segsize (code h) + segsize (initData h)) = loaded_size h"
    using sint_add_ok [of "segsize (code h)" "segsize (initData h)"] assms(2)
    by (simp add: noff_ok_def loaded_size_def)
  have s: "sint (segsize (code h) + segsize (initData h) + segsize (uninitData h)) =
      loaded_size h + sint (segsize (uninitData h))"
    using sint_add_ok [of "segsize (code h) + segsize (initData h)" "segsize (uninitData h)"] c assms(2)
    by (simp add: noff_ok_def loaded_size_def)
  have "0 \<le> loaded_size h + sint (segsize (uninitData h))"
    using assms(2) by (simp add: noff_ok_def loaded_size_def)
  then have u: "uint (segsize (code h) + segsize (initData h) + segsize (uninitData h)) =
      loaded_size h + sint (segsize (uninitData h))"
    using s uint_sint by metis
  show ?thesis
    using assms(1) h c s u
    by (simp add: new_AddrSpace_def Let_def divRoundUp_def MAX_THREADS_def UserStackSize_def PageSize_def)
qed

text \<open>
  a program is loaded by being mapped. For an executable with a sound header the constructor
  makes an address space whose pages of code and initialised data are the bytes of the file, in order
  from the place the header names, without touching memory; added to the kernel under a new pointer it
  leaves every byte of every other process as it was, and keeps the invariant of the pager. A missing file is a null
  pointer that is dereferenced, a file with another magic number fails an ASSERT.
\<close>

lemma exec_maps_program:
  assumes "vm_ok s" "spaces s sid = None" "read_header big f = Inr h" "noff_ok h"
  shows "(\<exists>sp. new_AddrSpace big g (Some f) = Inr sp \<and> vm_ok (s\<lparr>spaces := (spaces s)(sid \<mapsto> sp)\<rparr>) \<and>
      (\<forall>a k. k < 128 \<and> int (a * 128 + k) < loaded_size h \<and> nat (sint (inFileAddr (code h))) + a * 128 + k < length f \<longrightarrow>
         page_byte {} (s\<lparr>spaces := (spaces s)(sid \<mapsto> sp)\<rparr>) sid (int a) k
           (f ! (nat (sint (inFileAddr (code h))) + a * 128 + k))) \<and>
      (\<forall>x v k b. x \<noteq> sid \<longrightarrow> page_byte {} (s\<lparr>spaces := (spaces s)(sid \<mapsto> sp)\<rparr>) x v k b = page_byte {} s x v k b)) \<and>
    new_AddrSpace big g None = Inl NullPointer \<and>
    (\<forall>f' h'. read_header big f' = Inr h' \<and> noffMagic h' \<noteq> NOFFMAGIC \<and> WordToHost big (noffMagic h') \<noteq> NOFFMAGIC \<longrightarrow>
      new_AddrSpace big g (Some f') = Inl AssertFailed)"
proof -
  note I = vm_invD [OF assms(1)]
  obtain t where t: "tlb s = Some t" using I(2) by blast
  define m where "m = divRoundUp (loaded_size h) PageSize"
  define n where "n = nat (divRoundUp (loaded_size h + sint (segsize (uninitData h))) PageSize + 800)"
  define sp where "sp = \<lparr>pages = new_pages g h n m, executable = f,
      numExecutablePages = divRoundUp (loaded_size h + sint (segsize (uninitData h))) PageSize\<rparr>"
  have new: "new_AddrSpace big g (Some f) = Inr sp"
    using new_AddrSpace_ok [OF assms(3,4)] by (simp add: sp_def n_def m_def)
  let ?sps = "(spaces s)(sid \<mapsto> sp)"
  have lp: "length (pages sp) = n" by (simp add: sp_def new_pages_def)
  have l0: "0 \<le> loaded_size h" using assms(4) by (simp add: noff_ok_def loaded_size_def)
  have m: "0 \<le> m" "m < 2 ^ 32"
    using divRoundUp_nonneg [OF l0, of PageSize] divRoundUp_upper [of PageSize "loaded_size h"] assms(4)
    by (simp_all add: m_def PageSize_def noff_ok_def)
  have other: "page_entry ?sps x v = page_entry (spaces s) x v" if "x \<noteq> sid" for x v
    using that by (simp add: page_entry_def)
  have none: "page_entry (spaces s) sid v = None" for v using assms(2) by (simp add: page_entry_def)
  have own: "location e = (if v < m then IN_EXECUTABLE else UNINIT) \<and> (v < m \<longrightarrow> 0 \<le> v \<and>
      offset e = sint (inFileAddr (code h)) + v * 128)" if "page_entry ?sps sid v = Some e" for v e
  proof -
    have v: "0 \<le> v" "nat v < n" "e = new_pages g h n m ! nat v"
      using that lp by (auto simp: page_entry_Some sp_def)
    show ?thesis
      using new_page_at [OF v(2) m, of g h] v new_page_offset [OF assms(4) v(1)] by (auto simp: m_def)
  qed
  have bk: "backing ?sps sw x v k = backing (spaces s) sw x v k" if "x \<noteq> sid" for sw x v k
    using that other by (simp add: backing_def split: option.split DiskLocation.split)
  have nomap: "\<not> mapped {} (IPT s) sid v q" for v q
    using I(3) none unfolding ipt_inv_def mapped_def by (metis option.inject)
  have "page_entry ?sps x v \<noteq> None" if "page_entry (spaces s) x v \<noteq> None" for x v
    using that other none by (cases "x = sid") auto
  then have "ipt_inv {} (IPT s) ?sps" using I(3) unfolding ipt_inv_def by blast
  moreover have "swap_inv ?sps (swapMap s) (swapFile s)"
  proof -
    have loc: "location e = IN_SWAP \<Longrightarrow> page_entry ?sps x v = Some e \<Longrightarrow> x \<noteq> sid" for x v e
      using own by (auto split: if_splits)
    have "0 \<le> offset e" if "page_entry ?sps sid v = Some e" "location e = IN_EXECUTABLE" for v e
      using own [OF that(1)] that(2) assms(4) by (auto simp: noff_ok_def split: if_splits)
    then show ?thesis
      using I(6) other loc unfolding swap_inv_def by (metis (no_types, lifting))
  qed
  moreover have "clean_inv {} (IPT s) t (mainMemory s) ?sps (swapFile s)"
    using I(7) nomap bk t unfolding clean_inv_def by (metis option.sel)
  ultimately have "vm_ok (s\<lparr>spaces := ?sps\<rparr>)"
    using I t by (intro vm_invI [where t = t]) simp_all
  moreover have "page_byte {} (s\<lparr>spaces := ?sps\<rparr>) sid (int a) k (f ! (nat (sint (inFileAddr (code h))) + a * 128 + k))"
    if k: "k < 128" "int (a * 128 + k) < loaded_size h" "nat (sint (inFileAddr (code h))) + a * 128 + k < length f" for a k
  proof -
    have "int a * 128 + int k < loaded_size h" using k(2) by simp
    then have a: "int a < m" using div_less_divRoundUp [of PageSize "int a * 128" "loaded_size h"] k(1)
      by (simp add: m_def PageSize_def)
    have "m \<le> divRoundUp (loaded_size h + sint (segsize (uninitData h))) PageSize + 800"
      using divRoundUp_upper [of PageSize "loaded_size h"]
        divRoundUp_lower [of PageSize "loaded_size h + sint (segsize (uninitData h))"] assms(4)
      by (simp add: m_def PageSize_def noff_ok_def)
    then have "a < n" using a by (simp add: n_def)
    then obtain e where e: "page_entry ?sps sid (int a) = Some e" using lp by (simp add: page_entry_def)
    then show ?thesis
      using own [OF e] a k assms(4) nomap
      by (simp add: page_byte_def backing_def file_at_def sp_def noff_ok_def nat_add_distrib nat_mult_distrib add.assoc)
  qed
  moreover have "page_byte {} (s\<lparr>spaces := ?sps\<rparr>) x v k b = page_byte {} s x v k b" if "x \<noteq> sid" for x v k b
    using bk [OF that] by (simp add: page_byte_def)
  ultimately show ?thesis
    using new by (intro conjI exI [of _ sp] allI impI) (auto simp: new_AddrSpace_def Let_def)
qed

text \<open>An executable of one page, of the byte 9.\<close>

definition sample_exe :: "u8 list" where
  "sample_exe = [0xad, 0xdf, 0xba, 0, 0, 0, 0, 0, 40, 0, 0, 0, 128, 0, 0, 0] @ replicate 24 0 @ replicate 128 9"

definition sample_noff :: NoffHeader where
  "sample_noff = \<lparr>noffMagic = NOFFMAGIC, code = \<lparr>virtualAddr = 0, inFileAddr = 40, segsize = 128\<rparr>,
     initData = \<lparr>virtualAddr = 0, inFileAddr = 0, segsize = 0\<rparr>,
     uninitData = \<lparr>virtualAddr = 0, inFileAddr = 0, segsize = 0\<rparr>\<rparr>"

lemma sample_read: "read_header False sample_exe = Inr sample_noff"
  by (simp add: read_header_def header_segment_def header_word_def host_load32_def le32_def sample_exe_def
      sample_noff_def NoffHeaderSize_def NOFFMAGIC_def nth_append)

lemma sample_noff_ok: "noff_ok sample_noff" "loaded_size sample_noff = 128"
  by (simp_all add: noff_ok_def sample_noff_def loaded_size_def)

lemma exec_maps_program_example:
  "\<exists>sp. new_AddrSpace False (\<lambda>_. sample_page 0 UNINIT) (Some sample_exe) = Inr sp \<and>
     page_byte {} (boot_vm\<lparr>spaces := [7 \<mapsto> sample_space, 8 \<mapsto> sp]\<rparr>) 8 0 3 9 \<and>
     new_AddrSpace False (\<lambda>_. sample_page 0 UNINIT) (Some (replicate 40 1)) = Inl AssertFailed"
proof -
  have 8: "spaces boot_vm 8 = None" by simp
  have "read_header False (replicate 40 1) = Inr (let h = \<lparr>virtualAddr = 0x1010101, inFileAddr = 0x1010101,
      segsize = 0x1010101\<rparr> in \<lparr>noffMagic = 0x1010101, code = h, initData = h, uninitData = h\<rparr>)"
    by (simp add: read_header_def header_segment_def header_word_def host_load32_def le32_def
        NoffHeaderSize_def nth_append Let_def)
  with exec_maps_program [OF boot_vm_ok 8 sample_read sample_noff_ok(1), of "\<lambda>_. sample_page 0 UNINIT"]
  have m: "new_AddrSpace False (\<lambda>_. sample_page 0 UNINIT) (Some (replicate 40 1)) = Inl AssertFailed"
    by (simp add: NOFFMAGIC_def WordToHost_def Let_def)
  have b: "sample_exe ! 43 = 9" "length sample_exe = 168" "nat (sint (inFileAddr (code sample_noff))) = 40"
    by (simp_all add: sample_exe_def sample_noff_def nth_append)
  from exec_maps_program [OF boot_vm_ok 8 sample_read sample_noff_ok(1), of "\<lambda>_. sample_page 0 UNINIT"]
  obtain sp where sp: "new_AddrSpace False (\<lambda>_. sample_page 0 UNINIT) (Some sample_exe) = Inr sp"
    "\<And>a k. k < 128 \<Longrightarrow> int (a * 128 + k) < 128 \<Longrightarrow> 40 + a * 128 + k < length sample_exe \<Longrightarrow>
       page_byte {} (boot_vm\<lparr>spaces := (spaces boot_vm)(8 \<mapsto> sp)\<rparr>) 8 (int a) k (sample_exe ! (40 + a * 128 + k))"
    unfolding b(3) sample_noff_ok(2) by blast
  have "page_byte {} (boot_vm\<lparr>spaces := (spaces boot_vm)(8 \<mapsto> sp)\<rparr>) 8 (int 0) 3 (sample_exe ! (40 + 0 * 128 + 3))"
    by (rule sp(2)) (simp_all add: b)
  then show ?thesis using sp(1) m b by (intro exI [of _ sp]) simp
qed

end
