(* ===== verification/Interrupts.thy ===== *)
theory Interrupts
  imports Memory Linked_List
begin

text \<open>
  machine/interrupt.cc, machine/interrupt.h, machine/timer.cc and the counters of
  machine/stats.h: simulated time and the interrupts that are scheduled to occur.

  The state extends the machine: \<open>mode\<close> is the field \<open>status\<close> of the class \<open>Interrupt\<close> and
  \<open>totalTicks\<close> that of the global \<open>stats\<close>. The list \<open>pending\<close> is the sequence of keys and items of
  the sorted list (the theory Linked_List proves that the list is one). A pointer to a handler
  function is a value of the type \<open>'h\<close>; calling it is the argument \<open>run\<close>, and \<open>Yield\<close> of the
  current thread is the argument \<open>yield\<close>. Times are mathematical integers.
\<close>

section \<open>State\<close>

datatype IntStatus = IntOff | IntOn

datatype IntType = TimerInt | DiskInt | ConsoleWriteInt | ConsoleReadInt | NetworkSendInt | NetworkRecvInt

record 'h PendingInterrupt =
  handler :: 'h
  arg :: int
  "when" :: int
  itype :: IntType

record 'h irq = machine +
  level :: IntStatus
  pending :: "(int \<times> 'h PendingInterrupt) list"
  inHandler :: bool
  yieldOnReturn :: bool
  idleTicks :: int
  systemTicks :: int
  userTicks :: int

definition SystemTick :: int where "SystemTick = 10"
definition UserTick :: int where "UserTick = 1"
definition TimerTicks :: int where "TimerTicks = 100"

lemmas tick_sizes = SystemTick_def UserTick_def TimerTicks_def

text \<open>What a call that may stop the simulation gives.\<close>

datatype 's outcome = Halted 's | Continues 's

type_synonym ('h, 'k) handlers = "'h \<Rightarrow> int \<Rightarrow> ('h, 'k) irq_scheme \<Rightarrow> ('h, 'k) irq_scheme result"

section \<open>The class Interrupt\<close>

definition new_Interrupt :: "('h, 'k) irq_scheme \<Rightarrow> ('h, 'k) irq_scheme" where
  "new_Interrupt s = s\<lparr>level := IntOff, pending := [], inHandler := False, yieldOnReturn := False,
     mode := SystemMode\<rparr>"

definition ChangeLevel :: "IntStatus \<Rightarrow> ('h, 'k) irq_scheme \<Rightarrow> ('h, 'k) irq_scheme" where
  "ChangeLevel now s = s\<lparr>level := now\<rparr>"

definition YieldOnReturn :: "('h, 'k) irq_scheme \<Rightarrow> ('h, 'k) irq_scheme result" where
  "YieldOnReturn s = bind_result (ASSERT (inHandler s)) (\<lambda>_. Inr (s\<lparr>yieldOnReturn := True\<rparr>))"

definition Schedule :: "'h \<Rightarrow> int \<Rightarrow> int \<Rightarrow> IntType \<Rightarrow> ('h, 'k) irq_scheme \<Rightarrow> ('h, 'k) irq_scheme result" where
  "Schedule h a fromNow ty s =
     (let w = totalTicks s + fromNow;
          toOccur = \<lparr>handler = h, arg = a, when = w, itype = ty\<rparr>
      in bind_result (ASSERT (fromNow > 0)) (\<lambda>_.
         Inr (s\<lparr>pending := sorted_insert w toOccur (pending s)\<rparr>)))"

text \<open>\<open>CheckIfDue\<close> runs the handler of the first pending interrupt, if it is due or if the
  clock may be advanced to it.\<close>

definition fire :: "('h, 'k) handlers \<Rightarrow> 'h PendingInterrupt \<Rightarrow> ('h, 'k) irq_scheme \<Rightarrow> ('h, 'k) irq_scheme result" where
  "fire run toOccur s =
     bind_result (DelayedLoad s 0 0) (\<lambda>s1.
     bind_result (run (handler toOccur) (arg toOccur) (s1\<lparr>inHandler := True, mode := SystemMode\<rparr>)) (\<lambda>s2.
     Inr (s2\<lparr>mode := mode s, inHandler := False\<rparr>)))"

definition advance_to :: "int \<Rightarrow> ('h, 'k) irq_scheme \<Rightarrow> ('h, 'k) irq_scheme" where
  "advance_to w s =
     (if w > totalTicks s
      then s\<lparr>idleTicks := idleTicks s + (w - totalTicks s), totalTicks := w\<rparr> else s)"

definition CheckIfDue :: "('h, 'k) handlers \<Rightarrow> bool \<Rightarrow> ('h, 'k) irq_scheme \<Rightarrow> (bool \<times> ('h, 'k) irq_scheme) result" where
  "CheckIfDue run advanceClock s =
     bind_result (ASSERT (level s = IntOff)) (\<lambda>_.
     case list_remove (pending s) of
       (None, _) \<Rightarrow> Inr (False, s)
     | (Some (w, toOccur), q) \<Rightarrow>
         let s1 = s\<lparr>pending := q\<rparr>;
             s2 = (if advanceClock then advance_to w s1 else s1)
         in
           if \<not> advanceClock \<and> w > totalTicks s1
             then Inr (False, s1\<lparr>pending := sorted_insert w toOccur q\<rparr>)
           else if mode s2 = IdleMode \<and> itype toOccur = TimerInt \<and> q = []
             then Inr (False, s2\<lparr>pending := sorted_insert w toOccur q\<rparr>)
           else bind_result (fire run toOccur s2) (\<lambda>s3. Inr (True, s3)))"

text \<open>\<open>while (CheckIfDue(FALSE)) ;\<close>\<close>

partial_function (option) check_loop ::
  "('h, 'k) handlers \<Rightarrow> ('h, 'k) irq_scheme \<Rightarrow> ('h, 'k) irq_scheme result option" where
  "check_loop run s =
     (case CheckIfDue run False s of
        Inl c \<Rightarrow> Some (Inl c)
      | Inr (fired, s1) \<Rightarrow> if fired then check_loop run s1 else Some (Inr s1))"

definition add_tick :: "('h, 'k) irq_scheme \<Rightarrow> ('h, 'k) irq_scheme" where
  "add_tick s =
     (if mode s = SystemMode
      then s\<lparr>totalTicks := totalTicks s + SystemTick, systemTicks := systemTicks s + SystemTick\<rparr>
      else s\<lparr>totalTicks := totalTicks s + UserTick, userTicks := userTicks s + UserTick\<rparr>)"

definition OneTick ::
  "('h, 'k) handlers \<Rightarrow> (('h, 'k) irq_scheme \<Rightarrow> ('h, 'k) irq_scheme result) \<Rightarrow> ('h, 'k) irq_scheme \<Rightarrow>
   ('h, 'k) irq_scheme result option" where
  "OneTick run yield s =
     map_option (\<lambda>r. bind_result r (\<lambda>s1.
       let s2 = ChangeLevel IntOn s1 in
       if yieldOnReturn s2
       then bind_result (yield (s2\<lparr>yieldOnReturn := False, mode := SystemMode\<rparr>)) (\<lambda>s3.
            Inr (s3\<lparr>mode := mode s\<rparr>))
       else Inr s2))
     (check_loop run (ChangeLevel IntOff (add_tick s)))"

definition SetLevel ::
  "('h, 'k) handlers \<Rightarrow> (('h, 'k) irq_scheme \<Rightarrow> ('h, 'k) irq_scheme result) \<Rightarrow> IntStatus \<Rightarrow>
   ('h, 'k) irq_scheme \<Rightarrow> (IntStatus \<times> ('h, 'k) irq_scheme) result option" where
  "SetLevel run yield now s =
     (case ASSERT (now = IntOff \<or> \<not> inHandler s) of
        Inl c \<Rightarrow> Some (Inl c)
      | Inr _ \<Rightarrow>
          let s1 = ChangeLevel now s in
          if now = IntOn \<and> level s = IntOff
          then map_option (\<lambda>r. bind_result r (\<lambda>s2. Inr (level s, s2))) (OneTick run yield s1)
          else Some (Inr (level s, s1)))"

definition Enable where
  "Enable run yield s = SetLevel run yield IntOn s"

text \<open>\<open>Halt\<close> prints the statistics and never returns.\<close>

definition Idle :: "('h, 'k) handlers \<Rightarrow> ('h, 'k) irq_scheme \<Rightarrow> ('h, 'k) irq_scheme outcome result option" where
  "Idle run s =
     (case CheckIfDue run True (s\<lparr>mode := IdleMode\<rparr>) of
        Inl c \<Rightarrow> Some (Inl c)
      | Inr (fired, s1) \<Rightarrow>
          if fired
          then map_option (\<lambda>r. bind_result r (\<lambda>s2.
                 Inr (Continues (s2\<lparr>yieldOnReturn := False, mode := SystemMode\<rparr>)))) (check_loop run s1)
          else Some (Inr (Halted s1)))"

section \<open>The timer\<close>

text \<open>\<open>rnd\<close> is what \<open>Random()\<close> returns.\<close>

record Timer =
  randomize :: bool
  targ :: int

definition TimeOfNextInterrupt :: "Timer \<Rightarrow> int \<Rightarrow> int" where
  "TimeOfNextInterrupt t rnd = (if randomize t then 1 + rem rnd (TimerTicks * 2) else TimerTicks)"

definition new_Timer :: "'h \<Rightarrow> int \<Rightarrow> int \<Rightarrow> Timer \<Rightarrow> ('h, 'k) irq_scheme \<Rightarrow> ('h, 'k) irq_scheme result" where
  "new_Timer timerHandler this rnd t s = Schedule timerHandler this (TimeOfNextInterrupt t rnd) TimerInt s"

definition TimerExpired ::
  "'h \<Rightarrow> (int \<Rightarrow> ('h, 'k) irq_scheme \<Rightarrow> ('h, 'k) irq_scheme result) \<Rightarrow> Timer \<Rightarrow> int \<Rightarrow> int \<Rightarrow>
   ('h, 'k) irq_scheme \<Rightarrow> ('h, 'k) irq_scheme result" where
  "TimerExpired timerHandler callback t this rnd s =
     bind_result (Schedule timerHandler this (TimeOfNextInterrupt t rnd) TimerInt s) (callback (targ t))"

definition TimerInterruptHandler :: "int \<Rightarrow> ('h, 'k) irq_scheme \<Rightarrow> ('h, 'k) irq_scheme result" where
  "TimerInterruptHandler dummy s = (if mode s \<noteq> IdleMode then YieldOnReturn s else Inr s)"

end
