(* ===== verification/Interrupt_Properties.thy ===== *)
theory Interrupt_Properties
  imports Interrupts
begin

text \<open>
  The interface of an interrupt handler (the locale \<open>interrupt_handlers\<close>): it may schedule
  later interrupts and ask for a context switch, but neither moves the clock nor touches what is
  due. On it rest the end of the loops over the pending interrupts, their order, and the
  accounting of time.
\<close>

section \<open>Sorted lists of pending interrupts\<close>

definition keys_ok :: "(int \<times> 'h PendingInterrupt) list \<Rightarrow> bool" where
  "keys_ok q \<longleftrightarrow> sorted (map fst q) \<and> (\<forall>x\<in>set q. when (snd x) = fst x)"

definition due :: "int \<Rightarrow> (int \<times> 'a) list \<Rightarrow> (int \<times> 'a) list" where
  "due now q = takeWhile (\<lambda>x. fst x \<le> now) q"

lemma due_simps [simp]:
  "due now [] = []" "due now (x # q) = (if fst x \<le> now then x # due now q else [])"
  by (simp_all add: due_def)

lemma sorted_insert_set [simp]: "set (sorted_insert k x q) = insert (k, x) (set q)"
proof -
  have "set q = set (takeWhile (\<lambda>p. fst p \<le> k) q @ dropWhile (\<lambda>p. fst p \<le> k) q)" by simp
  then show ?thesis by (simp add: sorted_insert_def del: takeWhile_dropWhile_id)
qed

lemma sorted_insert_keys: "keys_ok q \<Longrightarrow> when x = k \<Longrightarrow> keys_ok (sorted_insert k x q)"
  by (induction q) (auto simp: keys_ok_def sorted_insert_Cons)

lemma sorted_insert_due: "now < k \<Longrightarrow> due now (sorted_insert k x q) = due now q"
  by (induction q) (auto simp: sorted_insert_Cons)

lemma keys_ok_Cons:
  "keys_ok ((w, p) # q) \<longleftrightarrow> when p = w \<and> keys_ok q \<and> (\<forall>x\<in>set q. w \<le> fst x)"
  by (auto simp: keys_ok_def)

section \<open>The invariant\<close>

definition load_ok :: "('h, 'k) irq_scheme \<Rightarrow> bool" where
  "load_ok s \<longleftrightarrow> 0 \<le> sint (registers s LoadReg) \<and> sint (registers s LoadReg) < NumTotalRegs"

definition clock_ok :: "('h, 'k) irq_scheme \<Rightarrow> bool" where
  "clock_ok s \<longleftrightarrow> totalTicks s = idleTicks s + systemTicks s + userTicks s"

definition irq_ok :: "('h, 'k) irq_scheme \<Rightarrow> bool" where
  "irq_ok s \<longleftrightarrow> keys_ok (pending s) \<and> load_ok s \<and> clock_ok s"

definition same_clock :: "('h, 'k) irq_scheme \<Rightarrow> ('h, 'k) irq_scheme \<Rightarrow> bool" where
  "same_clock s s' \<longleftrightarrow> totalTicks s' = totalTicks s \<and> idleTicks s' = idleTicks s \<and>
     systemTicks s' = systemTicks s \<and> userTicks s' = userTicks s"

lemma same_clock_trans: "same_clock s t \<Longrightarrow> same_clock t u \<Longrightarrow> same_clock s u"
  by (simp add: same_clock_def)

text \<open>What a handler may do.\<close>

definition handler_effect :: "('h, 'k) irq_scheme \<Rightarrow> ('h, 'k) irq_scheme \<Rightarrow> bool" where
  "handler_effect s s' \<longleftrightarrow> irq_ok s' \<and> level s' = IntOff \<and> same_clock s s' \<and>
     due (totalTicks s) (pending s') = due (totalTicks s) (pending s)"

lemma Schedule_effect:
  assumes "irq_ok s" "level s = IntOff" "0 < fromNow"
  shows "\<exists>s'. Schedule h a fromNow ty s = Inr s' \<and> handler_effect s s' \<and> inHandler s' = inHandler s \<and>
    mode s' = mode s"
  using assms
  by (auto simp: Schedule_def Let_def handler_effect_def irq_ok_def load_ok_def clock_ok_def same_clock_def
      sorted_insert_keys sorted_insert_due)

lemma handler_effect_trans:
  "handler_effect s t \<Longrightarrow> handler_effect t u \<Longrightarrow> handler_effect s u"
  by (auto simp: handler_effect_def same_clock_def)

text \<open>\<open>fires run ps s s'\<close>: the interrupts \<open>ps\<close> are handled one after the other.\<close>

inductive fires :: "('h, 'k) handlers \<Rightarrow> (int \<times> 'h PendingInterrupt) list \<Rightarrow>
    ('h, 'k) irq_scheme \<Rightarrow> ('h, 'k) irq_scheme \<Rightarrow> bool" for run where
  none: "fires run [] s s"
| one: "pending s = x # q \<Longrightarrow> CheckIfDue run False s = Inr (True, t) \<Longrightarrow> fires run ps t u \<Longrightarrow>
    fires run (x # ps) s u"

inductive_cases fires_NilE [elim!]: "fires run [] s s'"
inductive_cases fires_ConsE [elim]: "fires run (x # ps) s s'"

section \<open>The loop over the pending interrupts\<close>

lemma delayed_load_ok:
  assumes "load_ok s"
  shows "\<exists>s1. DelayedLoad s 0 0 = Inr s1 \<and> pending s1 = pending s \<and> level s1 = level s \<and>
    same_clock s s1 \<and> mode s1 = mode s \<and> load_ok s1 \<and> yieldOnReturn s1 = yieldOnReturn s"
  using assms
  by (simp add: load_ok_def DelayedLoad_def Let_def set_reg_def same_clock_def reg_numbers)

locale interrupt_handlers =
  fixes run :: "'h \<Rightarrow> int \<Rightarrow> ('h, 'k) irq_scheme \<Rightarrow> ('h, 'k) irq_scheme result"
  assumes run_effect: "irq_ok s \<Longrightarrow> level s = IntOff \<Longrightarrow> inHandler s \<Longrightarrow> run h a s = Inr s' \<Longrightarrow>
    handler_effect s s'"
begin

lemma fire_effect:
  assumes "irq_ok s" "level s = IntOff" "fire run p s = Inr s'"
  shows "handler_effect s s' \<and> mode s' = mode s \<and> \<not> inHandler s'"
proof -
  obtain s1 where s1: "DelayedLoad s 0 0 = Inr s1" "pending s1 = pending s" "level s1 = level s"
    "same_clock s s1" "load_ok s1" using delayed_load_ok assms(1) by (auto simp: irq_ok_def)
  let ?s2 = "s1\<lparr>inHandler := True, mode := SystemMode\<rparr>"
  obtain s3 where s3: "run (handler p) (arg p) ?s2 = Inr s3" "s' = s3\<lparr>mode := mode s, inHandler := False\<rparr>"
    using assms(3) s1(1) by (auto simp: fire_def)
  have "irq_ok ?s2" using assms(1) s1 by (simp add: irq_ok_def load_ok_def clock_ok_def same_clock_def)
  from run_effect [OF this _ _ s3(1)] have "handler_effect ?s2 s3" using s1(3) assms(2) by simp
  then have "handler_effect s s3" using s1 by (simp add: handler_effect_def same_clock_def)
  then show ?thesis by (simp add: s3(2) handler_effect_def irq_ok_def load_ok_def clock_ok_def same_clock_def)
qed

lemma CheckIfDue_fires:
  assumes ok: "irq_ok s" "level s = IntOff" and q: "pending s = (w, p) # q" "w \<le> totalTicks s"
    and m: "mode s \<noteq> IdleMode" and r: "CheckIfDue run False s = Inr (b, s')"
  shows "b \<and> irq_ok s' \<and> level s' = IntOff \<and> same_clock s s' \<and> mode s' = mode s \<and>
    due (totalTicks s) (pending s') = due (totalTicks s) q"
proof -
  let ?s1 = "s\<lparr>pending := q\<rparr>"
  have f: "b" "fire run p ?s1 = Inr s'" using r ok q m by (auto simp: CheckIfDue_def Let_def split: if_splits)
  have "irq_ok ?s1" using ok(1) q by (simp add: irq_ok_def load_ok_def clock_ok_def keys_ok_Cons)
  from fire_effect [OF this _ f(2)] show ?thesis
    using ok f(1) by (simp add: handler_effect_def same_clock_def)
qed

lemma CheckIfDue_quiet:
  assumes ok: "irq_ok s" "level s = IntOff" and d: "due (totalTicks s) (pending s) = []"
  shows "\<exists>s'. CheckIfDue run False s = Inr (False, s') \<and> irq_ok s' \<and> level s' = IntOff \<and>
    same_clock s s' \<and> mode s' = mode s \<and> due (totalTicks s) (pending s') = [] \<and>
    set (pending s') = set (pending s) \<and> s' = s\<lparr>pending := pending s'\<rparr>"
proof (cases "pending s")
  case Nil
  then show ?thesis using ok by (simp add: CheckIfDue_def same_clock_def)
next
  case (Cons x q)
  obtain w p where x: "x = (w, p)" by (cases x)
  have w: "totalTicks s < w" using d Cons x by (simp split: if_splits)
  have k: "when p = w" "keys_ok q" "\<forall>y\<in>set q. w \<le> fst y" using ok(1) Cons x by (auto simp: irq_ok_def keys_ok_Cons)
  have "due (totalTicks s) q = []" using k(3) w by (cases q) (auto simp: due_def)
  then show ?thesis
    using ok Cons x w k
    by (simp add: CheckIfDue_def irq_ok_def load_ok_def clock_ok_def same_clock_def sorted_insert_keys
        sorted_insert_due)
qed

text \<open>The loop ends, and it has then handled what was due, in order.\<close>

lemma check_loop_ok:
  assumes "irq_ok s" "level s = IntOff" "mode s \<noteq> IdleMode"
  shows "\<exists>r. check_loop run s = Some r \<and> (\<forall>s'. r = Inr s' \<longrightarrow>
    irq_ok s' \<and> level s' = IntOff \<and> same_clock s s' \<and> mode s' = mode s \<and>
    due (totalTicks s) (pending s') = [] \<and>
    (\<exists>t. fires run (due (totalTicks s) (pending s)) s t \<and> set (pending s') = set (pending t) \<and>
       s' = t\<lparr>pending := pending s'\<rparr>))"
  using assms
proof (induction "length (due (totalTicks s) (pending s))" arbitrary: s)
  case 0
  then obtain s' where s': "CheckIfDue run False s = Inr (False, s')" "irq_ok s'" "level s' = IntOff"
    "same_clock s s'" "mode s' = mode s" "due (totalTicks s) (pending s') = []"
    "set (pending s') = set (pending s)" "s' = s\<lparr>pending := pending s'\<rparr>" using CheckIfDue_quiet [of s] by auto
  have "check_loop run s = Some (Inr s')" using s'(1) by (subst check_loop.simps) simp
  moreover have "fires run (due (totalTicks s) (pending s)) s s" using 0(1) by (auto intro: fires.none)
  ultimately show ?case using s' by (intro exI [of _ "Inr s'"]) auto
next
  case (Suc n)
  then obtain x q where q: "pending s = x # q" by (cases "pending s") auto
  obtain w p where x: "x = (w, p)" by (cases x)
  have w: "w \<le> totalTicks s" using Suc.hyps(2) q x by (simp split: if_splits)
  show ?case
  proof (cases "CheckIfDue run False s")
    case (Inl c)
    then show ?thesis by (subst check_loop.simps) simp
  next
    case (Inr r)
    obtain b s1 where b: "r = (b, s1)" by (cases r)
    have s1: "b" "irq_ok s1" "level s1 = IntOff" "same_clock s s1" "mode s1 = mode s"
      "due (totalTicks s) (pending s1) = due (totalTicks s) q"
      using CheckIfDue_fires [OF Suc.prems(1,2) q [unfolded x] w Suc.prems(3) Inr [unfolded b]] by auto
    have t: "totalTicks s1 = totalTicks s" using s1(4) by (simp add: same_clock_def)
    have "n = length (due (totalTicks s1) (pending s1))" using Suc.hyps(2) q x w s1(6) t by simp
    from Suc.hyps(1) [OF this s1(2,3)] Suc.prems(3) s1(5) obtain r' where
      r': "check_loop run s1 = Some r'" "\<forall>s'. r' = Inr s' \<longrightarrow>
        irq_ok s' \<and> level s' = IntOff \<and> same_clock s1 s' \<and> mode s' = mode s1 \<and>
        due (totalTicks s1) (pending s') = [] \<and>
        (\<exists>t. fires run (due (totalTicks s1) (pending s1)) s1 t \<and> set (pending s') = set (pending t) \<and>
           s' = t\<lparr>pending := pending s'\<rparr>)"
      by auto
    have "check_loop run s = Some r'" using Inr b s1(1) r'(1) by (subst check_loop.simps) simp
    moreover have "fires run (due (totalTicks s) (pending s)) s u"
      if "fires run (due (totalTicks s1) (pending s1)) s1 u" for u
      using fires.one [OF q, of run s1] Inr b s1(1,6) that q x w t by simp
    ultimately show ?thesis
      using r'(2) s1(4,5) same_clock_trans [OF s1(4)] t by (intro exI [of _ r']) metis
  qed
qed

end

end
