(* ===== verification/Host_Bytes.thy ===== *)
theory Host_Bytes
  imports Memory
begin

text \<open>
  C structures as the bytes they are in the memory of the host, a little-endian machine: what the
  devices and the file system copy with a cast to \<open>char *\<close>.
\<close>

section \<open>Integers\<close>

definition word_bytes :: "u32 \<Rightarrow> u8 list" where
  "word_bytes w = [byte_of w 0, byte_of w 1, byte_of w 2, byte_of w 3]"

definition int_bytes :: "int \<Rightarrow> u8 list" where
  "int_bytes x = word_bytes (word_of_int x)"

definition word_at :: "u8 list \<Rightarrow> nat \<Rightarrow> u32" where
  "word_at bs i = le32 (bs ! i) (bs ! (i + 1)) (bs ! (i + 2)) (bs ! (i + 3))"

lemma length_word_bytes [simp]: "length (word_bytes w) = 4"
  by (simp add: word_bytes_def)

lemma length_int_bytes [simp]: "length (int_bytes x) = 4"
  by (simp add: int_bytes_def)

lemma word_at_word_bytes [simp]: "word_at (xs @ word_bytes w @ ys) (length xs) = w"
  by (simp add: word_at_def word_bytes_def nth_append le32_bytes [unfolded One_nat_def])

lemma word_at_int_bytes [simp]: "word_at (xs @ int_bytes x @ ys) (length xs) = word_of_int x"
  by (simp add: int_bytes_def)

lemma word_at_0: "word_at (int_bytes x @ ys) 0 = word_of_int x"
  using word_at_int_bytes [of "[]"] by simp

lemma word_at_4: "word_at (int_bytes a @ int_bytes x @ ys) 4 = word_of_int x"
  using word_at_int_bytes [of "int_bytes a"] by simp

lemma word_at_8: "word_at (int_bytes a @ int_bytes b @ int_bytes x @ ys) 8 = word_of_int x"
  using word_at_int_bytes [of "int_bytes a @ int_bytes b"] by simp

lemmas word_at_simps = word_at_0 word_at_4 word_at_8

section \<open>Arrays of integers\<close>

definition words_bytes :: "u32 list \<Rightarrow> u8 list" where
  "words_bytes ws = concat (map word_bytes ws)"

definition words_of :: "nat \<Rightarrow> u8 list \<Rightarrow> u32 list" where
  "words_of n bs = map (\<lambda>i. word_at bs (4 * i)) [0..<n]"

definition ints_bytes :: "int list \<Rightarrow> u8 list" where
  "ints_bytes xs = words_bytes (map word_of_int xs)"

definition ints_of :: "nat \<Rightarrow> u8 list \<Rightarrow> int list" where
  "ints_of n bs = map sint (words_of n bs)"

lemma length_words_bytes [simp]: "length (words_bytes ws) = 4 * length ws"
  by (induction ws) (simp_all add: words_bytes_def)

lemma length_ints_bytes [simp]: "length (ints_bytes xs) = 4 * length xs"
  by (simp add: ints_bytes_def)

lemma length_words_of [simp]: "length (words_of n bs) = n" "length (ints_of n bs) = n"
  by (simp_all add: words_of_def ints_of_def)

lemma words_bytes_append: "words_bytes (us @ vs) = words_bytes us @ words_bytes vs"
  by (simp add: words_bytes_def)

lemma words_of_bytes [simp]: "words_of (length ws) (words_bytes ws @ ys) = ws"
proof (rule nth_equalityI)
  fix i assume "i < length (words_of (length ws) (words_bytes ws @ ys))"
  then have i: "i < length ws" by simp
  have "words_bytes ws @ ys = words_bytes (take i ws) @ word_bytes (ws ! i) @ words_bytes (drop (Suc i) ws) @ ys"
    using arg_cong [OF id_take_nth_drop [OF i], of words_bytes]
    by (simp add: words_bytes_append) (simp add: words_bytes_def)
  moreover have "length (words_bytes (take i ws)) = 4 * i" using i by simp
  ultimately have "word_at (words_bytes ws @ ys) (4 * i) = ws ! i"
    using word_at_word_bytes [of "words_bytes (take i ws)"] by metis
  then show "words_of (length ws) (words_bytes ws @ ys) ! i = ws ! i" using i by (simp add: words_of_def)
qed simp

lemma ints_of_bytes: "\<forall>x\<in>set xs. int32 x \<Longrightarrow> ints_of (length xs) (ints_bytes xs @ ys) = xs"
  using words_of_bytes [of "map word_of_int xs" ys]
  by (simp add: ints_of_def ints_bytes_def map_idI sint_int32)

end
