(* ===== verification/Devices.thy ===== *)
theory Devices
  imports Interrupt_Properties Host_Bytes
begin

text \<open>
  The devices that cause interrupts: machine/console.cc, machine/network.cc and the timer, with
  their handlers. What a device reads from UNIX (the keyboard, the socket) is a list with one element
  for each poll, \<open>None\<close> where nothing has arrived; what it writes is appended to a list. The kernel's
  callbacks only do \<open>V\<close> on a semaphore (network/post.cc, userprog/progtest.cc): they are counted.
\<close>

section \<open>State\<close>

datatype device_handler = TimerHandler | ConsoleReadPoll | ConsoleWriteDone | NetworkReadPoll | NetworkSendDone

datatype device_sem = ConsoleReadAvail | ConsoleWriteReady | MessageAvailable | MessageSent

record PacketHeader =
  hto :: int
  hfrom :: int
  hlength :: int

definition MaxWireSize :: int where "MaxWireSize = 64"
definition MaxPacketSize :: int where "MaxPacketSize = MaxWireSize - 12"
definition ConsoleTime :: int where "ConsoleTime = 100"
definition NetworkTime :: int where "NetworkTime = 100"

text \<open>The character that stands for an empty buffer: \<open>EOF\<close> in a variable of type \<open>char\<close>.\<close>

definition EOF :: u8 where "EOF = - 1"

record devices = "device_handler irq" +
  timerDev :: Timer
  randomNumbers :: "nat \<Rightarrow> int"
  putBusy :: bool
  incoming :: u8
  keyboard :: "u8 option list"
  display :: "u8 list"
  numConsoleCharsRead :: int
  numConsoleCharsWritten :: int
  ident :: int
  chance :: int        \<comment> \<open>the least number that is not below \<open>chanceToWork * 100\<close>\<close>
  sendBusy :: bool
  inHdr :: PacketHeader
  inbox :: "u8 list"
  socket :: "u8 list option list"
  reachable :: "int \<Rightarrow> bool"     \<comment> \<open>the machines whose socket exists\<close>
  wire :: "(int \<times> u8 list) list"
  numPacketsSent :: int
  numPacketsRecvd :: int
  signals :: "device_sem \<Rightarrow> nat"

definition Vsem :: "device_sem \<Rightarrow> 'k devices_scheme \<Rightarrow> 'k devices_scheme" where
  "Vsem x s = s\<lparr>signals := (signals s)(x := signals s x + 1)\<rparr>"

definition next_random :: "'k devices_scheme \<Rightarrow> int \<times> 'k devices_scheme" where
  "next_random s = (randomNumbers s 0, s\<lparr>randomNumbers := \<lambda>n. randomNumbers s (Suc n)\<rparr>)"

section \<open>Console\<close>

definition new_Console :: "'k devices_scheme \<Rightarrow> 'k devices_scheme result" where
  "new_Console s = Schedule ConsoleReadPoll 0 ConsoleTime ConsoleReadInt (s\<lparr>putBusy := False, incoming := EOF\<rparr>)"

definition CheckCharAvail :: "'k devices_scheme \<Rightarrow> 'k devices_scheme result" where
  "CheckCharAvail s =
     bind_result (Schedule ConsoleReadPoll 0 ConsoleTime ConsoleReadInt s) (\<lambda>s1.
     if incoming s1 \<noteq> EOF then Inr s1
     else case list_remove (keyboard s1) of
       (Some (Some c), k) \<Rightarrow> Inr (Vsem ConsoleReadAvail (s1\<lparr>keyboard := k, incoming := c,
            numConsoleCharsRead := numConsoleCharsRead s1 + 1\<rparr>))
     | (_, k) \<Rightarrow> Inr (s1\<lparr>keyboard := k\<rparr>))"

definition WriteDone :: "'k devices_scheme \<Rightarrow> 'k devices_scheme" where
  "WriteDone s = Vsem ConsoleWriteReady
     (s\<lparr>putBusy := False, numConsoleCharsWritten := numConsoleCharsWritten s + 1\<rparr>)"

definition GetChar :: "'k devices_scheme \<Rightarrow> u8 \<times> 'k devices_scheme" where
  "GetChar s = (incoming s, s\<lparr>incoming := EOF\<rparr>)"

definition PutChar :: "u8 \<Rightarrow> 'k devices_scheme \<Rightarrow> 'k devices_scheme result" where
  "PutChar ch s =
     bind_result (ASSERT (\<not> putBusy s)) (\<lambda>_.
     Schedule ConsoleWriteDone 0 ConsoleTime ConsoleWriteInt (s\<lparr>display := display s @ [ch], putBusy := True\<rparr>))"

section \<open>Network\<close>

text \<open>The headers are C structures of three 32-bit integers, copied byte by byte.\<close>

definition header_bytes :: "PacketHeader \<Rightarrow> u8 list" where
  "header_bytes h = int_bytes (hto h) @ int_bytes (hfrom h) @ int_bytes (hlength h)"

definition header_of :: "u8 list \<Rightarrow> PacketHeader" where
  "header_of bs = \<lparr>hto = sint (word_at bs 0), hfrom = sint (word_at bs 4), hlength = uint (word_at bs 8)\<rparr>"

definition new_Network :: "int \<Rightarrow> 'k devices_scheme \<Rightarrow> 'k devices_scheme result" where
  "new_Network addr s = Schedule NetworkReadPoll 0 NetworkTime NetworkRecvInt
     (s\<lparr>ident := addr, sendBusy := False, inHdr := (inHdr s)\<lparr>hlength := 0\<rparr>\<rparr>)"

definition CheckPktAvail :: "'k devices_scheme \<Rightarrow> 'k devices_scheme result" where
  "CheckPktAvail s =
     bind_result (Schedule NetworkReadPoll 0 NetworkTime NetworkRecvInt s) (\<lambda>s1.
     if hlength (inHdr s1) \<noteq> 0 then Inr s1
     else case list_remove (socket s1) of
       (Some (Some buffer), k) \<Rightarrow>
         bind_result (ASSERT (int (length buffer) = MaxWireSize)) (\<lambda>_.
         let h = header_of buffer in
         bind_result (ASSERT (hto h = ident s1 \<and> hlength h \<le> MaxPacketSize)) (\<lambda>_.
         Inr (Vsem MessageAvailable (s1\<lparr>socket := k, inHdr := h,
            inbox := take (nat (hlength h)) (drop 12 buffer) @ drop (nat (hlength h)) (inbox s1),
            numPacketsRecvd := numPacketsRecvd s1 + 1\<rparr>))))
     | (_, k) \<Rightarrow> Inr (s1\<lparr>socket := k\<rparr>))"

definition SendDone :: "'k devices_scheme \<Rightarrow> 'k devices_scheme" where
  "SendDone s = Vsem MessageSent (s\<lparr>sendBusy := False, numPacketsSent := numPacketsSent s + 1\<rparr>)"

text \<open>The rest of the buffer, \<open>pad\<close>, is what the allocator left in it.\<close>

definition Network_Send :: "(nat \<Rightarrow> u8) \<Rightarrow> PacketHeader \<Rightarrow> u8 list \<Rightarrow> 'k devices_scheme \<Rightarrow> (bool \<times> 'k devices_scheme) result" where
  "Network_Send pad hdr data s =
     bind_result (ASSERT (\<not> sendBusy s \<and> hlength hdr > 0 \<and> hlength hdr \<le> MaxPacketSize)) (\<lambda>_.
     bind_result (Schedule NetworkSendDone 0 NetworkTime NetworkSendInt s) (\<lambda>s1.
     let (r, s2) = next_random s1 in
     if rem r 100 \<ge> chance s2 then Inr (True, s2)
     else if int (length data) < hlength hdr then Inl OutOfBounds
     else
       let n = nat (hlength hdr);
           buffer = header_bytes hdr @ take n data @ map pad [0..<nat MaxPacketSize - n]
       in if reachable s2 (hto hdr) then Inr (True, s2\<lparr>wire := wire s2 @ [(hto hdr, buffer)]\<rparr>)
          else Inr (False, s2)))"

definition Network_Receive :: "'k devices_scheme \<Rightarrow> (PacketHeader \<times> u8 list) \<times> 'k devices_scheme" where
  "Network_Receive s =
     ((inHdr s, take (nat (hlength (inHdr s))) (inbox s)), s\<lparr>inHdr := (inHdr s)\<lparr>hlength := 0\<rparr>\<rparr>)"

section \<open>The handlers\<close>

definition device_run :: "device_handler \<Rightarrow> int \<Rightarrow> 'k devices_scheme \<Rightarrow> 'k devices_scheme result" where
  "device_run h a s =
     (case h of
        TimerHandler \<Rightarrow> (let (r, s1) = next_random s in TimerExpired TimerHandler TimerInterruptHandler (timerDev s1) a r s1)
      | ConsoleReadPoll \<Rightarrow> CheckCharAvail s
      | ConsoleWriteDone \<Rightarrow> Inr (WriteDone s)
      | NetworkReadPoll \<Rightarrow> CheckPktAvail s
      | NetworkSendDone \<Rightarrow> Inr (SendDone s))"

section \<open>The handlers satisfy the interface\<close>

text \<open>What the other fields of the devices are does not matter.\<close>

definition same_irq :: "('h, 'k) irq_scheme \<Rightarrow> ('h, 'k) irq_scheme \<Rightarrow> bool" where
  "same_irq s s' \<longleftrightarrow> pending s' = pending s \<and> registers s' = registers s \<and> level s' = level s \<and>
     same_clock s s'"

lemma same_irq_effect: "handler_effect s t \<Longrightarrow> same_irq t u \<Longrightarrow> handler_effect s u"
  by (auto simp: handler_effect_def same_irq_def same_clock_def irq_ok_def load_ok_def clock_ok_def)

lemma same_irq_refl_effect: "irq_ok s \<Longrightarrow> level s = IntOff \<Longrightarrow> same_irq s u \<Longrightarrow> handler_effect s u"
  by (auto simp: handler_effect_def same_irq_def same_clock_def irq_ok_def load_ok_def clock_ok_def)

lemmas same_irq_simps = same_irq_def same_clock_def Vsem_def

lemma Schedule_does:
  assumes "irq_ok s" "level s = IntOff" "Schedule h a n ty s = Inr s1"
  shows "handler_effect s s1"
proof -
  have "0 < n" using assms(3) by (auto simp: Schedule_def Let_def)
  from Schedule_effect [OF assms(1,2) this, of h a ty] show ?thesis using assms(3) by auto
qed

lemma CheckCharAvail_effect:
  assumes "irq_ok s" "level s = IntOff" "CheckCharAvail s = Inr s'"
  shows "handler_effect s s'"
proof -
  obtain s1 where s1: "Schedule ConsoleReadPoll 0 ConsoleTime ConsoleReadInt s = Inr s1" "handler_effect s s1"
    using assms(3) Schedule_does [OF assms(1,2)] by (auto simp: CheckCharAvail_def)
  have "same_irq s1 s'"
    using assms(3) s1(1) by (cases "keyboard s1")
      (auto simp: CheckCharAvail_def same_irq_simps split: if_splits option.splits)
  with s1(2) show ?thesis by (rule same_irq_effect)
qed

lemma CheckPktAvail_effect:
  assumes "irq_ok s" "level s = IntOff" "CheckPktAvail s = Inr s'"
  shows "handler_effect s s'"
proof -
  obtain s1 where s1: "Schedule NetworkReadPoll 0 NetworkTime NetworkRecvInt s = Inr s1" "handler_effect s s1"
    using assms(3) Schedule_does [OF assms(1,2)] by (auto simp: CheckPktAvail_def)
  have "same_irq s1 s'"
    using assms(3) s1(1) by (cases "socket s1")
      (auto simp: CheckPktAvail_def same_irq_simps Let_def split: if_splits option.splits)
  with s1(2) show ?thesis by (rule same_irq_effect)
qed

lemma TimerExpired_effect:
  assumes "irq_ok s" "level s = IntOff"
    and r: "TimerExpired TimerHandler TimerInterruptHandler t a rnd s = Inr s'"
  shows "handler_effect s s'"
proof -
  obtain s1 where s1: "Schedule TimerHandler a (TimeOfNextInterrupt t rnd) TimerInt s = Inr s1"
    "TimerInterruptHandler (targ t) s1 = Inr s'" using r by (auto simp: TimerExpired_def)
  have "handler_effect s s1" by (rule Schedule_does [OF assms(1,2) s1(1)])
  moreover have "same_irq s1 s'"
    using s1(2) by (auto simp: TimerInterruptHandler_def YieldOnReturn_def same_irq_simps split: if_splits)
  ultimately show ?thesis by (rule same_irq_effect)
qed

interpretation dev: interrupt_handlers device_run
proof
  fix s :: "'k devices_scheme" and h a s'
  assume ok: "irq_ok s" "level s = IntOff" and r: "device_run h a s = Inr s'"
  show "handler_effect s s'"
  proof (cases h)
    case TimerHandler
    define s1 where "s1 = snd (next_random s)"
    have "same_irq s s1" by (simp add: s1_def next_random_def same_irq_simps)
    then have "handler_effect s s1" by (rule same_irq_refl_effect [OF ok])
    moreover from this have "handler_effect s1 s'"
      using TimerExpired_effect [of s1 "timerDev s1" a "randomNumbers s 0" s'] r TimerHandler
      by (simp add: device_run_def s1_def next_random_def handler_effect_def)
    ultimately show ?thesis by (rule handler_effect_trans)
  next
    case ConsoleReadPoll
    then show ?thesis using CheckCharAvail_effect [OF ok] r by (simp add: device_run_def)
  next
    case ConsoleWriteDone
    then show ?thesis using same_irq_refl_effect [OF ok] r
      by (auto simp: device_run_def WriteDone_def same_irq_simps)
  next
    case NetworkReadPoll
    then show ?thesis using CheckPktAvail_effect [OF ok] r by (simp add: device_run_def)
  next
    case NetworkSendDone
    then show ?thesis using same_irq_refl_effect [OF ok] r
      by (auto simp: device_run_def SendDone_def same_irq_simps)
  qed
qed

end
