(* ===== verification/Device_Claims.thy ===== *)
theory Device_Claims
  imports Devices
begin

text \<open>
  Time and interrupts with the handlers of the devices: a tick handles exactly what is due, and the
  idle CPU moves the clock to the next interrupt. The general facts are proved on the interface of
  Interrupt_Properties.
\<close>

section \<open>A tick\<close>

lemma add_tick_ok:
  assumes "irq_ok s"
  shows "irq_ok (ChangeLevel IntOff (add_tick s))" "level (ChangeLevel IntOff (add_tick s)) = IntOff"
    "mode (ChangeLevel IntOff (add_tick s)) = mode s"
    "pending (ChangeLevel IntOff (add_tick s)) = pending s"
  using assms by (simp_all add: ChangeLevel_def add_tick_def irq_ok_def load_ok_def clock_ok_def)

context interrupt_handlers
begin

lemma OneTick_ok:
  assumes "irq_ok s" "mode s \<noteq> IdleMode"
  shows "\<exists>r. OneTick run yield s = Some r \<and> (\<forall>s'. r = Inr s' \<longrightarrow>
    (let s0 = ChangeLevel IntOff (add_tick s) in
     \<exists>t u. fires run (due (totalTicks s0) (pending s)) s0 t \<and> set (pending u) = set (pending t) \<and> u = t\<lparr>pending := pending u\<rparr> \<and>
       irq_ok u \<and> same_clock s0 u \<and> due (totalTicks s0) (pending u) = [] \<and>
       (if yieldOnReturn u
        then \<exists>v. yield (u\<lparr>level := IntOn, yieldOnReturn := False, mode := SystemMode\<rparr>) = Inr v \<and>
          s' = v\<lparr>mode := mode s\<rparr>
        else s' = u\<lparr>level := IntOn\<rparr>)))"
proof -
  define s0 where "s0 = ChangeLevel IntOff (add_tick s)"
  note ok = add_tick_ok [OF assms(1), folded s0_def]
  have "mode s0 \<noteq> IdleMode" using ok(3) assms(2) by simp
  then obtain r where r: "check_loop run s0 = Some r" "\<forall>u. r = Inr u \<longrightarrow>
    irq_ok u \<and> level u = IntOff \<and> same_clock s0 u \<and> mode u = mode s0 \<and> due (totalTicks s0) (pending u) = [] \<and>
    (\<exists>t. fires run (due (totalTicks s0) (pending s0)) s0 t \<and> set (pending u) = set (pending t) \<and>
       u = t\<lparr>pending := pending u\<rparr>)"
    using check_loop_ok [OF ok(1,2)] by blast
  have eq: "OneTick run yield s = Some (bind_result r (\<lambda>s1.
       let s2 = ChangeLevel IntOn s1 in
       if yieldOnReturn s2
       then bind_result (yield (s2\<lparr>yieldOnReturn := False, mode := SystemMode\<rparr>)) (\<lambda>s3.
            Inr (s3\<lparr>mode := mode s\<rparr>))
       else Inr s2))" (is "_ = Some ?b")
    using r(1) by (simp add: OneTick_def s0_def)
  have "\<exists>t u. fires run (due (totalTicks s0) (pending s)) s0 t \<and> set (pending u) = set (pending t) \<and> u = t\<lparr>pending := pending u\<rparr> \<and>
       irq_ok u \<and> same_clock s0 u \<and> due (totalTicks s0) (pending u) = [] \<and>
       (if yieldOnReturn u
        then \<exists>v. yield (u\<lparr>level := IntOn, yieldOnReturn := False, mode := SystemMode\<rparr>) = Inr v \<and>
          s' = v\<lparr>mode := mode s\<rparr>
        else s' = u\<lparr>level := IntOn\<rparr>)" if b: "?b = Inr s'" for s'
  proof -
    from b obtain u where u: "r = Inr u" "(let s2 = ChangeLevel IntOn u in
       if yieldOnReturn s2
       then bind_result (yield (s2\<lparr>yieldOnReturn := False, mode := SystemMode\<rparr>)) (\<lambda>s3.
            Inr (s3\<lparr>mode := mode s\<rparr>))
       else Inr s2) = Inr s'" by auto
    from r(2) u(1) obtain t where t: "fires run (due (totalTicks s0) (pending s0)) s0 t"
      "set (pending u) = set (pending t)" "u = t\<lparr>pending := pending u\<rparr>" "irq_ok u" "same_clock s0 u" "due (totalTicks s0) (pending u) = []"
      by blast
    have "if yieldOnReturn u
        then \<exists>v. yield (u\<lparr>level := IntOn, yieldOnReturn := False, mode := SystemMode\<rparr>) = Inr v \<and>
          s' = v\<lparr>mode := mode s\<rparr>
        else s' = u\<lparr>level := IntOn\<rparr>"
      using u(2) by (auto simp: ChangeLevel_def Let_def split: if_splits)
    with t(1,2,4-6) ok(4) show ?thesis by (intro exI [of _ t] exI [of _ u] conjI t(3)) simp_all
  qed
  then show ?thesis unfolding eq by (intro exI [of _ ?b] conjI refl) (simp add: Let_def s0_def)
qed

section \<open>The idle CPU\<close>

text \<open>In idle mode the loop also stops before a timer interrupt that is alone in the list.\<close>

lemma check_loop_idle:
  assumes "irq_ok s" "level s = IntOff" "mode s = IdleMode"
  shows "\<exists>r. check_loop run s = Some r \<and> (\<forall>s'. r = Inr s' \<longrightarrow>
    irq_ok s' \<and> same_clock s s' \<and> (due (totalTicks s) (pending s') = [] \<or>
      (\<exists>x. pending s' = [x] \<and> itype (snd x) = TimerInt)))"
  using assms
proof (induction "length (due (totalTicks s) (pending s))" arbitrary: s)
  case 0
  then obtain s' where s': "CheckIfDue run False s = Inr (False, s')" "irq_ok s'"
    "same_clock s s'" "due (totalTicks s) (pending s') = []" using CheckIfDue_quiet [of s] by auto
  have "check_loop run s = Some (Inr s')" using s'(1) by (subst check_loop.simps) simp
  then show ?case using s' by (intro exI [of _ "Inr s'"]) simp
next
  case (Suc n)
  then obtain x q where q: "pending s = x # q" by (cases "pending s") auto
  obtain w p where x: "x = (w, p)" by (cases x)
  have w: "w \<le> totalTicks s" using Suc.hyps(2) q x by (simp split: if_splits)
  have ok: "keys_ok q" "when p = w" using Suc.prems(1) q x by (auto simp: irq_ok_def keys_ok_Cons)
  show ?case
  proof (cases "itype p = TimerInt \<and> q = []")
    case True
    then have "CheckIfDue run False s = Inr (False, s\<lparr>pending := [(w, p)]\<rparr>)"
      using Suc.prems q x w by (simp add: CheckIfDue_def)
    then have "check_loop run s = Some (Inr (s\<lparr>pending := [(w, p)]\<rparr>))"
      by (subst check_loop.simps) simp
    moreover have "irq_ok (s\<lparr>pending := [(w, p)]\<rparr>)"
      using Suc.prems(1) ok True by (simp add: irq_ok_def load_ok_def clock_ok_def keys_ok_Cons)
    ultimately show ?thesis using True
      by (intro exI [of _ "Inr (s\<lparr>pending := [(w, p)]\<rparr>)"]) (simp add: same_clock_def)
  next
    case False
    let ?s1 = "s\<lparr>pending := q\<rparr>"
    have c: "CheckIfDue run False s = bind_result (fire run p ?s1) (\<lambda>s3. Inr (True, s3))"
      using Suc.prems False q x w by (auto simp: CheckIfDue_def)
    show ?thesis
    proof (cases "fire run p ?s1")
      case (Inl e)
      then have "check_loop run s = Some (Inl e)" using c by (subst check_loop.simps) simp
      then show ?thesis by simp
    next
      case (Inr s1)
      have "irq_ok ?s1" using Suc.prems(1) ok by (simp add: irq_ok_def load_ok_def clock_ok_def)
      from fire_effect [OF this _ Inr] have f: "irq_ok s1" "level s1 = IntOff" "same_clock s s1"
        "mode s1 = IdleMode" "due (totalTicks s) (pending s1) = due (totalTicks s) q"
        using Suc.prems(2,3) by (auto simp: handler_effect_def same_clock_def)
      have t: "totalTicks s1 = totalTicks s" using f(3) by (simp add: same_clock_def)
      have "n = length (due (totalTicks s1) (pending s1))" using Suc.hyps(2) q x w f(5) t by simp
      from Suc.hyps(1) [OF this f(1,2,4)] obtain r where r: "check_loop run s1 = Some r"
        "\<forall>s'. r = Inr s' \<longrightarrow> irq_ok s' \<and> same_clock s1 s' \<and> (due (totalTicks s1) (pending s') = [] \<or>
          (\<exists>x. pending s' = [x] \<and> itype (snd x) = TimerInt))" by blast
      have "check_loop run s = Some r" using c Inr r(1) by (subst check_loop.simps) simp
      then show ?thesis using r(2) same_clock_trans [OF f(3)] t by (intro exI [of _ r]) simp
    qed
  qed
qed

lemma Idle_halts:
  assumes "level s = IntOff" "pending s = [] \<or> (\<exists>w p. pending s = [(w, p)] \<and> itype p = TimerInt)"
  shows "\<exists>u. Idle run s = Some (Inr (Halted u)) \<and> pending u = pending s"
  using assms by (auto simp: Idle_def CheckIfDue_def advance_to_def Let_def)

lemma Idle_goes_on:
  assumes ok: "irq_ok s" "level s = IntOff" and q: "pending s = (w, p) # q"
    and n: "\<not> (itype p = TimerInt \<and> q = [])"
  shows "\<exists>r. Idle run s = Some r \<and> (\<forall>y. r = Inr y \<longrightarrow> (\<exists>u. y = Continues u \<and> irq_ok u \<and>
    totalTicks u = max w (totalTicks s) \<and> idleTicks u = idleTicks s + (totalTicks u - totalTicks s) \<and>
    systemTicks u = systemTicks s \<and> userTicks u = userTicks s \<and>
    mode u = SystemMode \<and> \<not> yieldOnReturn u \<and> (due (totalTicks u) (pending u) = [] \<or>
      (\<exists>x. pending u = [x] \<and> itype (snd x) = TimerInt))))"
proof -
  define s0 where "s0 = advance_to w (s\<lparr>mode := IdleMode, pending := q\<rparr>)"
  have clock: "totalTicks s0 = max w (totalTicks s)" "idleTicks s0 = idleTicks s + (totalTicks s0 - totalTicks s)"
    "systemTicks s0 = systemTicks s" "userTicks s0 = userTicks s"
    by (auto simp: s0_def advance_to_def)
  have s0: "irq_ok s0" "level s0 = IntOff" "mode s0 = IdleMode"
    using ok q by (auto simp: s0_def advance_to_def irq_ok_def load_ok_def clock_ok_def keys_ok_Cons)
  have c: "CheckIfDue run True (s\<lparr>mode := IdleMode\<rparr>) = bind_result (fire run p s0) (\<lambda>s3. Inr (True, s3))"
    using ok(2) q n s0(3) by (auto simp: CheckIfDue_def s0_def Let_def)
  show ?thesis
  proof (cases "fire run p s0")
    case (Inl e)
    then show ?thesis using c by (simp add: Idle_def)
  next
    case (Inr s1)
    from fire_effect [OF s0(1,2) Inr] have f: "irq_ok s1" "level s1 = IntOff" "same_clock s0 s1" "mode s1 = IdleMode"
      using s0(3) by (auto simp: handler_effect_def)
    obtain r where r: "check_loop run s1 = Some r" "\<forall>s'. r = Inr s' \<longrightarrow>
      irq_ok s' \<and> same_clock s1 s' \<and> (due (totalTicks s1) (pending s') = [] \<or>
        (\<exists>x. pending s' = [x] \<and> itype (snd x) = TimerInt))" using check_loop_idle [OF f(1,2,4)] by blast
    have i: "Idle run s = Some (bind_result r (\<lambda>s2.
        Inr (Continues (s2\<lparr>yieldOnReturn := False, mode := SystemMode\<rparr>))))"
      using c Inr r(1) by (simp add: Idle_def)
    show ?thesis
    proof (cases r)
      case (Inl e)
      then show ?thesis using i by simp
    next
      case (Inr u)
      then have "irq_ok u" "same_clock s0 u" "due (totalTicks u) (pending u) = [] \<or>
        (\<exists>x. pending u = [x] \<and> itype (snd x) = TimerInt)"
        using r(2) f(3) by (auto simp: same_clock_def)
      then show ?thesis using i Inr clock
        by (intro exI [of _ "Inr (Continues (u\<lparr>yieldOnReturn := False, mode := SystemMode\<rparr>))"])
          (auto simp: same_clock_def irq_ok_def load_ok_def clock_ok_def)
    qed
  qed
qed

end

section \<open>Properties\<close>

definition quiet_machine :: "int \<Rightarrow> (int \<times> device_handler PendingInterrupt) list \<Rightarrow> devices" where
  "quiet_machine now q =
     \<lparr>mainMemory = (\<lambda>_. 0), registers = (\<lambda>_. 0), tlb = None, pageTable = None, pageTableSize = 0,
      lastUsed = (\<lambda>_. 0), totalTicks = now, mode = UserMode,
      level = IntOn, pending = q, inHandler = False, yieldOnReturn = False,
      idleTicks = 0, systemTicks = 0, userTicks = now,
      timerDev = \<lparr>randomize = False, targ = 0\<rparr>, randomNumbers = (\<lambda>_. 0), putBusy = True, incoming = EOF,
      keyboard = [], display = [], numConsoleCharsRead = 0, numConsoleCharsWritten = 0, ident = 0,
      chance = 100, sendBusy = False, inHdr = \<lparr>hto = 0, hfrom = 0, hlength = 0\<rparr>, inbox = [],
      socket = [], reachable = (\<lambda>_. True), wire = [], numPacketsSent = 0, numPacketsRecvd = 0,
      signals = (\<lambda>_. 0)\<rparr>"

definition tick_example :: "(int \<times> device_handler PendingInterrupt) list" where
  "tick_example =
     [(5, \<lparr>handler = ConsoleWriteDone, arg = 0, when = 5, itype = ConsoleWriteInt\<rparr>),
      (6, \<lparr>handler = TimerHandler, arg = 0, when = 6, itype = TimerInt\<rparr>),
      (90, \<lparr>handler = ConsoleReadPoll, arg = 0, when = 90, itype = ConsoleReadInt\<rparr>)]"

lemma quiet_machine_ok: "keys_ok q \<Longrightarrow> irq_ok (quiet_machine now q)"
  by (simp add: quiet_machine_def irq_ok_def load_ok_def clock_ok_def NumTotalRegs_def)

lemma tick_example_keys: "keys_ok tick_example"
  by (simp add: tick_example_def keys_ok_def)

text \<open>The timer is the only device whose handler asks for a switch, and it always does.\<close>

lemma device_run_yield:
  "device_run h a s = Inr s' \<Longrightarrow> mode s = SystemMode \<Longrightarrow> yieldOnReturn s' \<longleftrightarrow> yieldOnReturn s \<or> h = TimerHandler"
  by (cases h; cases "keyboard s"; cases "socket s")
    (auto simp: device_run_def TimerExpired_def TimerInterruptHandler_def YieldOnReturn_def Schedule_def Let_def
      next_random_def CheckCharAvail_def WriteDone_def CheckPktAvail_def SendDone_def Vsem_def
      split: if_splits option.splits)

lemma CheckIfDue_yield:
  assumes "CheckIfDue device_run False s = Inr (True, t)" "pending s = x # q" "load_ok s"
  shows "yieldOnReturn t \<longleftrightarrow> yieldOnReturn s \<or> handler (snd x) = TimerHandler"
proof -
  obtain w p where x: "x = (w, p)" by (cases x)
  have "fire device_run p (s\<lparr>pending := q\<rparr>) = Inr t"
    using assms(1,2) x by (auto simp: CheckIfDue_def Let_def split: if_splits)
  moreover obtain s1 where "DelayedLoad (s\<lparr>pending := q\<rparr>) 0 0 = Inr s1" "yieldOnReturn s1 = yieldOnReturn s"
    using delayed_load_ok [of "s\<lparr>pending := q\<rparr>"] assms(3) by (auto simp: load_ok_def)
  ultimately obtain s3 where "device_run (handler p) (arg p) (s1\<lparr>inHandler := True, mode := SystemMode\<rparr>) = Inr s3"
    "yieldOnReturn t = yieldOnReturn s3" by (auto simp: fire_def)
  from device_run_yield [OF this(1)] this(2) show ?thesis using \<open>yieldOnReturn s1 = yieldOnReturn s\<close> x by auto
qed

lemma fires_yield:
  "fires device_run ps s u \<Longrightarrow> irq_ok s \<Longrightarrow> level s = IntOff \<Longrightarrow> mode s \<noteq> IdleMode \<Longrightarrow>
   \<forall>x\<in>set ps. fst x \<le> totalTicks s \<Longrightarrow>
   yieldOnReturn u \<longleftrightarrow> yieldOnReturn s \<or> (\<exists>x\<in>set ps. handler (snd x) = TimerHandler)"
proof (induction rule: fires.induct)
  case (one s x q t ps u)
  obtain w p where x: "x = (w, p)" by (cases x)
  have f: "irq_ok t" "level t = IntOff" "same_clock s t" "mode t = mode s"
    using dev.CheckIfDue_fires [OF one.prems(1,2) one.hyps(1) [unfolded x] _ one.prems(3) one.hyps(2)] one.prems(4) x by auto
  then have "yieldOnReturn u \<longleftrightarrow> yieldOnReturn t \<or> (\<exists>x\<in>set ps. handler (snd x) = TimerHandler)"
    using one.IH one.prems(3,4) by (simp add: same_clock_def)
  then show ?case
    using CheckIfDue_yield [OF one.hyps(2,1)] one.prems(1) by (auto simp: irq_ok_def)
qed simp

text \<open>
  C22: a tick of the simulated clock with the handlers of the timer, the console and the network, outside idle
  mode. The loop over the pending interrupts ends; when no handler crashes, the interrupts that are due at the
  new time have been handled, each once and in the order of their times; none that is due is left;
  the clock is still the sum of its idle, system and user parts; and the current thread yields, in system mode and
  with interrupts on, exactly when a timer interrupt was among them (or a switch had been asked for before), after
  which the mode is what it was.
\<close>

theorem OneTick_handles_what_is_due:
  assumes "irq_ok s" "mode s \<noteq> IdleMode"
  shows "\<exists>r. OneTick device_run yield s = Some r \<and> (\<forall>s'. r = Inr s' \<longrightarrow>
    (let s0 = ChangeLevel IntOff (add_tick s); ps = due (totalTicks s0) (pending s) in
     \<exists>t u. fires device_run ps s0 t \<and> set (pending u) = set (pending t) \<and> u = t\<lparr>pending := pending u\<rparr> \<and>
       irq_ok u \<and> same_clock s0 u \<and> due (totalTicks s0) (pending u) = [] \<and>
       (if yieldOnReturn s \<or> (\<exists>x\<in>set ps. handler (snd x) = TimerHandler)
        then \<exists>v. yield (u\<lparr>level := IntOn, yieldOnReturn := False, mode := SystemMode\<rparr>) = Inr v \<and>
          s' = v\<lparr>mode := mode s\<rparr>
        else s' = u\<lparr>level := IntOn\<rparr>)))"
proof -
  define s0 where "s0 = ChangeLevel IntOff (add_tick s)"
  note ok = add_tick_ok [OF assms(1), folded s0_def]
  have y0: "yieldOnReturn s0 = yieldOnReturn s" by (simp add: s0_def ChangeLevel_def add_tick_def)
  have y: "yieldOnReturn u \<longleftrightarrow> yieldOnReturn s \<or> (\<exists>x\<in>set (due (totalTicks s0) (pending s)). handler (snd x) = TimerHandler)"
    if "fires device_run (due (totalTicks s0) (pending s)) s0 t" "u = t\<lparr>pending := pending u\<rparr>" for t u
  proof -
    have "\<forall>x\<in>set (due (totalTicks s0) (pending s)). fst x \<le> totalTicks s0" by (auto simp: due_def dest: set_takeWhileD)
    moreover have "yieldOnReturn u = yieldOnReturn t" by (subst that(2)) simp
    ultimately show ?thesis using fires_yield [OF that(1) ok(1,2)] ok(3) assms(2) y0 by simp
  qed
  obtain r where r: "OneTick device_run yield s = Some r" "\<forall>s'. r = Inr s' \<longrightarrow>
     (\<exists>t u. fires device_run (due (totalTicks s0) (pending s)) s0 t \<and> set (pending u) = set (pending t) \<and>
       u = t\<lparr>pending := pending u\<rparr> \<and> irq_ok u \<and> same_clock s0 u \<and> due (totalTicks s0) (pending u) = [] \<and>
       (if yieldOnReturn u
        then \<exists>v. yield (u\<lparr>level := IntOn, yieldOnReturn := False, mode := SystemMode\<rparr>) = Inr v \<and>
          s' = v\<lparr>mode := mode s\<rparr>
        else s' = u\<lparr>level := IntOn\<rparr>))"
    using dev.OneTick_ok [OF assms, of yield] unfolding s0_def Let_def by blast
  show ?thesis unfolding Let_def s0_def [symmetric] using r y by metis
qed

lemmas tick_run = OneTick_def CheckIfDue_def add_tick_def ChangeLevel_def tick_sizes Let_def fire_def
  DelayedLoad_def set_reg_def reg_numbers device_run_def WriteDone_def Vsem_def next_random_def TimerExpired_def
  TimeOfNextInterrupt_def Schedule_def TimerInterruptHandler_def YieldOnReturn_def sorted_insert_def

text \<open>At time 5 the console and the timer are due one tick later: the thread yields, in the state shown.\<close>

theorem OneTick_handles_what_is_due_witness:
  "\<exists>s' t. OneTick device_run (\<lambda>s. Inr (s\<lparr>ident := 42\<rparr>)) (quiet_machine 5 tick_example) = Some (Inr s') \<and>
     fires device_run (take 2 tick_example) (ChangeLevel IntOff (add_tick (quiet_machine 5 tick_example))) t \<and>
     map fst (pending s') = [90, 106] \<and> totalTicks s' = 6 \<and> mode s' = UserMode \<and> level s' = IntOn \<and>
     \<not> yieldOnReturn s' \<and> ident s' = 42"
proof -
  let ?s = "quiet_machine 5 tick_example" and ?y = "\<lambda>s :: devices. Inr (s\<lparr>ident := 42\<rparr>) :: devices result"
  have "\<exists>u. check_loop device_run (ChangeLevel IntOff (add_tick ?s)) = Some (Inr u) \<and> yieldOnReturn u \<and>
      map fst (pending u) = [90, 106] \<and> totalTicks u = 6"
    unfolding quiet_machine_def tick_example_def
    by (simp add: tick_run, subst check_loop.simps, simp add: tick_run, subst check_loop.simps, simp add: tick_run,
        subst check_loop.simps, simp add: tick_run)
  then obtain u where "check_loop device_run (ChangeLevel IntOff (add_tick ?s)) = Some (Inr u)" "yieldOnReturn u"
      "map fst (pending u) = [90, 106]" "totalTicks u = 6" by (elim exE conjE)
  then have "\<exists>s'. OneTick device_run ?y ?s = Some (Inr s') \<and> map fst (pending s') = [90, 106] \<and> totalTicks s' = 6 \<and>
      mode s' = UserMode \<and> level s' = IntOn \<and> \<not> yieldOnReturn s' \<and> ident s' = 42"
    by (simp only: OneTick_def option.map bind_result.simps Let_def) (simp add: ChangeLevel_def quiet_machine_def)
  then obtain s' where s': "OneTick device_run ?y ?s = Some (Inr s')" "map fst (pending s') = [90, 106]" "totalTicks s' = 6"
      "mode s' = UserMode" "level s' = IntOn" "\<not> yieldOnReturn s'" "ident s' = 42" by (elim exE conjE)
  have d: "due (totalTicks (ChangeLevel IntOff (add_tick ?s))) (pending ?s) = take 2 tick_example"
    by (simp add: quiet_machine_def tick_example_def add_tick_def ChangeLevel_def tick_sizes)
  obtain t where "fires device_run (take 2 tick_example) (ChangeLevel IntOff (add_tick ?s)) t"
    using OneTick_handles_what_is_due [OF quiet_machine_ok [OF tick_example_keys], of 5 ?y] s'(1)
    unfolding Let_def d by (auto simp: quiet_machine_def)
  with s' show ?thesis by (intro exI [of _ s'] exI [of _ t] conjI)
qed

text \<open>
  the idle CPU. If nothing but a timer interrupt can happen any more, the simulation halts;
  otherwise the clock moves to the time of the first pending interrupt, the time skipped counts as
  idle, and everything due by then is handled before the CPU looks for a thread again.
\<close>

lemma Idle_advances_the_clock:
  assumes "irq_ok s" "level s = IntOff"
  shows "case pending s of
      [] \<Rightarrow> \<exists>u. Idle device_run s = Some (Inr (Halted u))
    | (w, p) # q \<Rightarrow>
        if itype p = TimerInt \<and> q = [] then \<exists>u. Idle device_run s = Some (Inr (Halted u))
        else \<exists>r. Idle device_run s = Some r \<and> (\<forall>y. r = Inr y \<longrightarrow> (\<exists>u. y = Continues u \<and> irq_ok u \<and>
          totalTicks u = max w (totalTicks s) \<and> idleTicks u = idleTicks s + (totalTicks u - totalTicks s) \<and>
          systemTicks u = systemTicks s \<and> userTicks u = userTicks s \<and>
          mode u = SystemMode \<and> \<not> yieldOnReturn u \<and> (due (totalTicks u) (pending u) = [] \<or>
            (\<exists>x. pending u = [x] \<and> itype (snd x) = TimerInt))))"
proof (cases "pending s")
  case Nil
  then show ?thesis using dev.Idle_halts [OF assms(2)] by auto
next
  case (Cons x q)
  obtain w p where x: "x = (w, p)" by (cases x)
  show ?thesis
  proof (cases "itype p = TimerInt \<and> q = []")
    case True
    then show ?thesis using dev.Idle_halts [OF assms(2)] Cons x by auto
  next
    case False
    then have e: "(case pending s of [] \<Rightarrow> A | (w, p) # q \<Rightarrow> if itype p = TimerInt \<and> q = [] then B else C w) = C w"
      for A B C using Cons x by auto
    show ?thesis unfolding e by (rule dev.Idle_goes_on [OF assms Cons [unfolded x] False])
  qed
qed

lemma Idle_advances_the_clock_example:
  "\<exists>r. Idle device_run ((quiet_machine 0 tick_example)\<lparr>level := IntOff\<rparr>) = Some r"
proof -
  have "irq_ok ((quiet_machine 0 tick_example)\<lparr>level := IntOff\<rparr>)"
    using quiet_machine_ok [OF tick_example_keys, of 0] by (simp add: irq_ok_def load_ok_def clock_ok_def)
  from Idle_advances_the_clock [OF this] show ?thesis
    by (auto simp: quiet_machine_def tick_example_def)
qed

end
