(* ===== verification/Post.thy ===== *)
theory Post
  imports Device_Claims Server_Messages
begin

text \<open>
  network/post.cc: the post office, which puts a second header in front of the data of a packet and
  sorts what arrives into mailboxes. Sending holds a lock until the device says that it is done, so
  \<open>Send\<close> is two steps; the postal worker is one step for each message. \<open>None\<close> is a thread that has to
  wait. A mailbox is the list of its messages (threads/synchlist.cc).
\<close>

section \<open>State\<close>

record MailHeader =
  mto :: int
  mfrom :: int
  mlength :: int

text \<open>Of the array \<open>data\<close> the first \<open>length\<close> bytes, the ones that are ever read.\<close>

record Mail =
  pktHdr :: PacketHeader
  mailHdr :: MailHeader
  data :: "u8 list"

text \<open>\<open>buffer\<close> is the buffer of the postal worker; \<open>sendLocked\<close> says that \<open>sendLock\<close> is held.\<close>

record post = devices +
  boxes :: "Mail list list"
  buffer :: "u8 list"
  sendLocked :: bool

definition new_PostOffice :: "int \<Rightarrow> nat \<Rightarrow> u8 list \<Rightarrow> post \<Rightarrow> post result" where
  "new_PostOffice addr nBoxes garbage s =
     new_Network addr (s\<lparr>boxes := replicate nBoxes [], buffer := garbage, sendLocked := False,
       signals := (signals s)(MessageAvailable := 0, MessageSent := 0)\<rparr>)"

section \<open>Headers\<close>

definition mail_header_bytes :: "MailHeader \<Rightarrow> u8 list" where
  "mail_header_bytes h = int_bytes (mto h) @ int_bytes (mfrom h) @ int_bytes (mlength h)"

definition mail_header_of :: "u8 list \<Rightarrow> MailHeader" where
  "mail_header_of bs = \<lparr>mto = sint (word_at bs 0), mfrom = sint (word_at bs 4), mlength = uint (word_at bs 8)\<rparr>"

section \<open>Operations\<close>

definition new_Mail :: "PacketHeader \<Rightarrow> MailHeader \<Rightarrow> u8 list \<Rightarrow> Mail result" where
  "new_Mail p h msgData =
     bind_result (ASSERT (mlength h \<le> MaxMailSize)) (\<lambda>_.
     if int (length msgData) < mlength h then Inl OutOfBounds
     else Inr \<lparr>pktHdr = p, mailHdr = h, data = take (nat (mlength h)) msgData\<rparr>)"

definition MailBox_Put :: "PacketHeader \<Rightarrow> MailHeader \<Rightarrow> u8 list \<Rightarrow> Mail list \<Rightarrow> Mail list result" where
  "MailBox_Put p h d box = bind_result (new_Mail p h d) (\<lambda>m. Inr (list_append box m))"

text \<open>\<open>bcopy\<close> over the front of the caller's buffer.\<close>

definition MailBox_Get :: "u8 list \<Rightarrow> Mail list \<Rightarrow> (PacketHeader \<times> MailHeader \<times> u8 list \<times> Mail list) result option" where
  "MailBox_Get buf box =
     (case list_remove box of
        (None, _) \<Rightarrow> None
      | (Some m, box') \<Rightarrow>
          Some (if length buf < length (data m) then Inl OutOfBounds
                else Inr (pktHdr m, mailHdr m, data m @ drop (length (data m)) buf, box')))"

text \<open>The part of \<open>P\<close> on a device's semaphore after the wait.\<close>

definition take_signal :: "device_sem \<Rightarrow> post \<Rightarrow> post" where
  "take_signal x s = s\<lparr>signals := (signals s)(x := signals s x - 1)\<rparr>"

definition put_mail :: "PacketHeader \<Rightarrow> MailHeader \<Rightarrow> u8 list \<Rightarrow> post \<Rightarrow> post result" where
  "put_mail p h d s =
     bind_result (ASSERT (0 \<le> mto h \<and> mto h < int (length (boxes s)))) (\<lambda>_.
     bind_result (ASSERT (mlength h \<le> MaxMailSize)) (\<lambda>_.
     bind_result (MailBox_Put p h d (boxes s ! nat (mto h))) (\<lambda>box.
     Inr (s\<lparr>boxes := (boxes s)[nat (mto h) := box]\<rparr>))))"

definition PostalDelivery :: "post \<Rightarrow> post result option" where
  "PostalDelivery s =
     (if signals s MessageAvailable = 0 then None
      else case Network_Receive (take_signal MessageAvailable s) of ((p, d), s1) \<Rightarrow>
        let buf = d @ drop (length d) (buffer s1)
        in Some (put_mail p (mail_header_of buf) (drop 12 buf) (s1\<lparr>buffer := buf\<rparr>)))"

text \<open>\<open>Send\<close> up to the wait for \<open>messageSent\<close>, and the rest of it.\<close>

definition Post_Send ::
  "(nat \<Rightarrow> u8) \<Rightarrow> PacketHeader \<Rightarrow> MailHeader \<Rightarrow> u8 list \<Rightarrow> post \<Rightarrow> (bool \<times> post) result option" where
  "Post_Send pad p h d s =
     (if \<not> mlength h \<le> MaxMailSize \<or> \<not> (0 \<le> mto h \<and> mto h < int (length (boxes s)))
        then Some (Inl AssertFailed)
      else if int (length d) < mlength h then Some (Inl OutOfBounds)
      else if sendLocked s then None
      else Some (Network_Send pad (p\<lparr>hlength := mlength h + 12\<rparr>)
             (mail_header_bytes h @ take (nat (mlength h)) d) (s\<lparr>sendLocked := True\<rparr>)))"

definition Post_Sent :: "post \<Rightarrow> post option" where
  "Post_Sent s =
     (if signals s MessageSent = 0 then None else Some ((take_signal MessageSent s)\<lparr>sendLocked := False\<rparr>))"

definition Post_Receive :: "int \<Rightarrow> u8 list \<Rightarrow> post \<Rightarrow> (PacketHeader \<times> MailHeader \<times> u8 list \<times> post) result option" where
  "Post_Receive box buf s =
     (if \<not> (box \<ge> 0 \<and> box < int (length (boxes s))) then Some (Inl AssertFailed)
      else map_option (\<lambda>r. bind_result r (\<lambda>(p, h, d, ms).
             bind_result (ASSERT (mlength h \<le> MaxMailSize)) (\<lambda>_.
             Inr (p, h, d, s\<lparr>boxes := (boxes s)[nat box := ms]\<rparr>))))
           (MailBox_Get buf (boxes s ! nat box)))"

section \<open>The headers on the wire\<close>

lemma header_roundtrip:
  assumes "int32 (hto h)" "int32 (hfrom h)" "uint32 (hlength h)"
  shows "header_of (header_bytes h @ xs) = h"
  using assms by (simp add: header_of_def header_bytes_def word_at_simps sint_int32 uint_uint32)

lemma mail_header_roundtrip:
  assumes "int32 (mto h)" "int32 (mfrom h)" "uint32 (mlength h)"
  shows "mail_header_of (mail_header_bytes h @ xs) = h"
  using assms by (simp add: mail_header_of_def mail_header_bytes_def word_at_simps sint_int32 uint_uint32)

lemma length_headers [simp]: "length (header_bytes h) = 12" "length (mail_header_bytes h') = 12"
  by (simp_all add: header_bytes_def mail_header_bytes_def)

section \<open>Delivery\<close>

text \<open>The packet that \<open>Send\<close> puts on the wire.\<close>

definition packet_of :: "(nat \<Rightarrow> u8) \<Rightarrow> PacketHeader \<Rightarrow> MailHeader \<Rightarrow> u8 list \<Rightarrow> u8 list" where
  "packet_of pad p h d =
     header_bytes (p\<lparr>hlength := mlength h + 12\<rparr>) @ mail_header_bytes h @ take (nat (mlength h)) d @
     map pad [0..<40 - nat (mlength h)]"

lemma length_packet_of:
  "0 \<le> mlength h \<Longrightarrow> mlength h \<le> 40 \<Longrightarrow> mlength h \<le> int (length d) \<Longrightarrow> length (packet_of pad p h d) = 64"
  by (simp add: packet_of_def)

text \<open>
  What \<open>Network::Send\<close> does when the device is idle: the packet is lost when the reliability test fails,
  which the sender is not told, and the answer is no when there is no such socket.
\<close>

definition lost :: "post \<Rightarrow> bool" where
  "lost s \<longleftrightarrow> rem (randomNumbers s 0) 100 \<ge> chance s"

lemma Post_Send_does:
  assumes "0 \<le> mlength h" "mlength h \<le> MaxMailSize" "0 \<le> mto h" "mto h < int (length (boxes s))"
    "mlength h \<le> int (length d)" "\<not> sendLocked s" "\<not> sendBusy s"
  shows "\<exists>s1. Post_Send pad p h d s = Some (Inr (lost s \<or> reachable s (hto p), s1)) \<and> sendLocked s1 \<and>
    wire s1 = wire s @ (if \<not> lost s \<and> reachable s (hto p) then [(hto p, packet_of pad p h d)] else [])"
proof -
  have n: "nat (mlength h + 12) = 12 + nat (mlength h)" using assms(1) by simp
  show ?thesis
    using assms by (simp add: Post_Send_def Network_Send_def Schedule_def next_random_def Let_def n lost_def
        MaxPacketSize_def MaxWireSize_def MaxMailSize_def NetworkTime_def packet_of_def)
qed

text \<open>A machine that can take a packet from its socket.\<close>

definition ready_for :: "int \<Rightarrow> u8 list \<Rightarrow> post \<Rightarrow> bool" where
  "ready_for addr packet r \<longleftrightarrow> ident r = addr \<and> hlength (inHdr r) = 0 \<and>
     (\<exists>k. socket r = Some packet # k) \<and> length (buffer r) = nat MaxPacketSize"

lemma CheckPktAvail_takes:
  assumes r: "ready_for (hto p) (packet_of pad p h d) r"
    and h: "0 \<le> mlength h" "mlength h \<le> 40" "mlength h \<le> int (length d)"
    and p: "int32 (hto p)" "int32 (hfrom p)"
  shows "\<exists>r1. CheckPktAvail r = Inr r1 \<and> inHdr r1 = p\<lparr>hlength := mlength h + 12\<rparr> \<and>
    take (nat (mlength h + 12)) (inbox r1) = mail_header_bytes h @ take (nat (mlength h)) d \<and>
    signals r1 MessageAvailable = signals r MessageAvailable + 1 \<and> boxes r1 = boxes r \<and> buffer r1 = buffer r"
proof -
  let ?p = "p\<lparr>hlength := mlength h + 12\<rparr>"
  have "uint32 (mlength h + 12)" using h by (simp add: uint32_def)
  then have hd: "header_of (packet_of pad p h d) = ?p"
    using header_roundtrip [of ?p] p by (simp add: packet_of_def)
  have n: "nat (mlength h + 12) = 12 + nat (mlength h)" using h by simp
  have t: "take (nat (mlength h + 12)) (drop 12 (packet_of pad p h d)) =
      mail_header_bytes h @ take (nat (mlength h)) d"
    using h by (simp add: packet_of_def n)
  have l: "nat (mlength h) \<le> length d" "nat (mlength h + 12) - 12 = nat (mlength h)" using h by simp_all
  show ?thesis
    using r h length_packet_of [OF h, of pad p] l
    by (auto simp: ready_for_def CheckPktAvail_def Schedule_def Let_def hd t NetworkTime_def MaxWireSize_def
        MaxPacketSize_def Vsem_def)
qed

lemma PostalDelivery_delivers:
  assumes r: "inHdr r = p" "take (nat (hlength p)) (inbox r) = mail_header_bytes h @ d"
      "signals r MessageAvailable \<noteq> 0" "length (buffer r) = nat MaxPacketSize"
    and h: "mlength h = int (length d)" "length d \<le> 40" "0 \<le> mto h" "mto h < int (length (boxes r))"
      "int32 (mto h)" "int32 (mfrom h)"
  shows "\<exists>r1. PostalDelivery r = Some (Inr r1) \<and> hlength (inHdr r1) = 0 \<and>
    boxes r1 = (boxes r)[nat (mto h) := boxes r ! nat (mto h) @ [\<lparr>pktHdr = p, mailHdr = h, data = d\<rparr>]]"
proof -
  have "uint32 (mlength h)" using h by (simp add: uint32_def)
  then have mh: "mail_header_of ((mail_header_bytes h @ d) @ xs) = h" for xs
    using mail_header_roundtrip [OF h(5,6)] by simp
  have "length (drop (12 + length d) (buffer r)) = 40 - length d"
    using r(4) by (simp add: MaxPacketSize_def MaxWireSize_def)
  moreover have "min (length (inbox r)) (nat (hlength p)) = 12 + length d"
    using arg_cong [OF r(2), of length] by simp
  moreover have "MailBox_Put p h (d @ xs) b = Inr (b @ [\<lparr>pktHdr = p, mailHdr = h, data = d\<rparr>])" for xs b
    using h by (simp add: MailBox_Put_def new_Mail_def list_append_def MaxMailSize_def)
  moreover have "ASSERT (mlength h \<le> MaxMailSize) = Inr ()" using h by (simp add: MaxMailSize_def)
  ultimately show ?thesis
    using r h mh by (simp add: PostalDelivery_def Network_Receive_def take_signal_def put_mail_def)
qed

lemma Post_Receive_first:
  assumes "0 \<le> box" "box < int (length (boxes s))" "boxes s ! nat box = m # ms"
    "mlength (mailHdr m) \<le> MaxMailSize" "length (data m) \<le> length buf"
  shows "Post_Receive box buf s =
    Some (Inr (pktHdr m, mailHdr m, data m @ drop (length (data m)) buf, s\<lparr>boxes := (boxes s)[nat box := ms]\<rparr>))"
  using assms by (simp add: Post_Receive_def MailBox_Get_def)

section \<open>One message on the way out\<close>

definition sending :: "(int \<times> device_handler PendingInterrupt) list \<Rightarrow> nat" where
  "sending q = length (filter (\<lambda>x. handler (snd x) = NetworkSendDone) q)"

lemma sending_simps [simp]:
  "sending [] = 0" "sending (x # q) = (if handler (snd x) = NetworkSendDone then 1 else 0) + sending q"
  by (simp_all add: sending_def)

lemma sending_insert [simp]: "sending (sorted_insert k x q) = sending ((k, x) # q)"
  by (induction q) (simp_all add: sorted_insert_Cons)

text \<open>
  While the lock is held, one interrupt is due to come or has come; else there is none. The device is
  busy only while its interrupt is to come, and there are \<open>n\<close> mailboxes.
\<close>

definition send_inv :: "nat \<Rightarrow> post \<Rightarrow> bool" where
  "send_inv n s \<longleftrightarrow>
     sending (pending s) + signals s MessageSent = (if sendLocked s then 1 else 0) \<and>
     (sendBusy s \<longrightarrow> sending (pending s) \<noteq> 0) \<and> length (boxes s) = n"

datatype post_event =
    Send_mail "nat \<Rightarrow> u8" PacketHeader MailHeader "u8 list"   \<comment> \<open>Send, until it waits\<close>
  | Sent                                                       \<comment> \<open>the rest of Send\<close>
  | Deliver                                                    \<comment> \<open>an iteration of PostalDelivery\<close>
  | Receive_mail int "u8 list"
  | Device bool                                                \<comment> \<open>CheckIfDue, from a tick or from Idle\<close>

text \<open>One step of a thread or of the devices; \<open>None\<close> where a thread has to wait.\<close>

fun post_step :: "post_event \<Rightarrow> post \<Rightarrow> post result option" where
  "post_step (Send_mail pad p h d) s = map_option (map_sum id snd) (Post_Send pad p h d s)"
| "post_step Sent s = map_option Inr (Post_Sent s)"
| "post_step Deliver s = PostalDelivery s"
| "post_step (Receive_mail box buf) s = map_option (map_sum id (\<lambda>(p, h, d, s'). s')) (Post_Receive box buf s)"
| "post_step (Device adv) s = Some (map_sum id snd (CheckIfDue device_run adv (ChangeLevel IntOff s)))"

text \<open>Everything that may happen to a post office; interrupts are off in \<open>CheckIfDue\<close>.\<close>

inductive post_run :: "post \<Rightarrow> post \<Rightarrow> bool" where
  refl: "post_run s s"
| step: "post_run s t \<Longrightarrow> post_step e t = Some (Inr u) \<Longrightarrow> post_run s u"

lemma Schedule_sends:
  "Schedule h a n ty s = Inr s' \<Longrightarrow> \<exists>q. s' = s\<lparr>pending := q\<rparr> \<and>
    sending q = (if h = NetworkSendDone then 1 else 0) + sending (pending s)"
  by (auto simp: Schedule_def Let_def)

lemmas handler_defs = device_run_def CheckCharAvail_def WriteDone_def CheckPktAvail_def SendDone_def
  TimerExpired_def TimerInterruptHandler_def YieldOnReturn_def Vsem_def next_random_def

lemma device_run_sends:
  fixes s :: post
  assumes "device_run h a s = Inr s'"
  shows "sending (pending s') + signals s' MessageSent =
      sending (pending s) + signals s MessageSent + (if h = NetworkSendDone then 1 else 0) \<and>
    sendLocked s' = sendLocked s \<and> boxes s' = boxes s \<and>
    sendBusy s' = (sendBusy s \<and> h \<noteq> NetworkSendDone) \<and>
    (h \<noteq> NetworkSendDone \<longrightarrow> sending (pending s') = sending (pending s))"
  using assms
  by (cases h) (auto simp: handler_defs Let_def dest!: Schedule_sends split: if_splits option.splits prod.splits)

lemma CheckIfDue_sends:
  fixes s :: post
  assumes "CheckIfDue device_run adv s = Inr (b, s')" "send_inv n s"
  shows "send_inv n s'"
proof (cases "pending s")
  case Nil
  then show ?thesis using assms by (simp add: CheckIfDue_def)
next
  case (Cons x q)
  obtain w p where x: "x = (w, p)" by (cases x)
  define s2 where "s2 = (if adv then advance_to w (s\<lparr>pending := q\<rparr>) else s\<lparr>pending := q\<rparr>)"
  have s2: "pending s2 = q" "signals s2 = signals s" "sendLocked s2 = sendLocked s"
    "sendBusy s2 = sendBusy s" "boxes s2 = boxes s"
    by (simp_all add: s2_def advance_to_def)
  have "s' = s2\<lparr>pending := sorted_insert w p q\<rparr> \<or> fire device_run p s2 = Inr s'"
    using assms(1) Cons x by (auto simp: CheckIfDue_def Let_def s2_def split: if_splits)
  then show ?thesis
  proof
    assume "s' = s2\<lparr>pending := sorted_insert w p q\<rparr>"
    then show ?thesis using assms(2) Cons x s2 by (simp add: send_inv_def)
  next
    assume f: "fire device_run p s2 = Inr s'"
    then obtain s3 s4 where s3: "DelayedLoad s2 0 0 = Inr s3"
      "device_run (handler p) (arg p) (s3\<lparr>inHandler := True, mode := SystemMode\<rparr>) = Inr s4"
      "s' = s4\<lparr>mode := mode s2, inHandler := False\<rparr>" by (auto simp: fire_def)
    have "pending s3 = q \<and> signals s3 = signals s \<and> sendLocked s3 = sendLocked s \<and>
        sendBusy s3 = sendBusy s \<and> boxes s3 = boxes s"
      using s3(1) s2 by (auto simp: DelayedLoad_def Let_def set_reg_def split: if_splits)
    with device_run_sends [OF s3(2)] show ?thesis
      using assms(2) Cons x s3(3) by (simp add: send_inv_def split: if_splits)
  qed
qed

lemma Network_Send_sends:
  fixes s :: post
  assumes "Network_Send pad p d s = Inr (b, s')"
  shows "sending (pending s') = 1 + sending (pending s) \<and> signals s' = signals s \<and>
    sendLocked s' = sendLocked s \<and> boxes s' = boxes s"
proof -
  obtain s1 where s1: "Schedule NetworkSendDone 0 NetworkTime NetworkSendInt s = Inr s1"
    using assms by (auto simp: Network_Send_def)
  have "pending s' = pending s1 \<and> signals s' = signals s1 \<and> sendLocked s' = sendLocked s1 \<and> boxes s' = boxes s1"
    using assms s1 by (simp add: Network_Send_def next_random_def Let_def split: if_splits) auto
  with Schedule_sends [OF s1] show ?thesis by auto
qed

lemma Post_Send_sends:
  assumes "Post_Send pad p h d s = Some (Inr (b, s'))" "send_inv n s"
  shows "send_inv n s'"
proof -
  have s: "\<not> sendLocked s" "Network_Send pad (p\<lparr>hlength := mlength h + 12\<rparr>)
      (mail_header_bytes h @ take (nat (mlength h)) d) (s\<lparr>sendLocked := True\<rparr>) = Inr (b, s')"
    using assms(1) by (simp_all add: Post_Send_def split: if_splits)
  from Network_Send_sends [OF s(2)] show ?thesis using s(1) assms(2) by (simp add: send_inv_def)
qed

lemma put_mail_sends:
  "put_mail p h d s = Inr s' \<Longrightarrow>
    pending s' = pending s \<and> signals s' = signals s \<and> sendLocked s' = sendLocked s \<and>
    sendBusy s' = sendBusy s \<and> length (boxes s') = length (boxes s)"
  by (auto simp: put_mail_def)

lemma PostalDelivery_sends:
  assumes "PostalDelivery s = Some (Inr s')"
  shows "pending s' = pending s \<and> signals s' MessageSent = signals s MessageSent \<and> sendLocked s' = sendLocked s \<and>
    sendBusy s' = sendBusy s \<and> length (boxes s') = length (boxes s)"
  using assms
  by (auto simp: PostalDelivery_def Network_Receive_def take_signal_def Let_def dest!: put_mail_sends split: if_splits)

lemma Post_Receive_sends:
  assumes "Post_Receive box buf s = Some (Inr (p, h, d, s'))"
  shows "\<exists>bs. s' = s\<lparr>boxes := bs\<rparr> \<and> length bs = length (boxes s)"
proof (cases "MailBox_Get buf (boxes s ! nat box)")
  case None
  then show ?thesis using assms by (simp add: Post_Receive_def split: if_splits)
next
  case (Some r)
  show ?thesis
  proof (cases r)
    case (Inl c)
    then show ?thesis using assms Some by (simp add: Post_Receive_def split: if_splits)
  next
    case (Inr x)
    obtain p1 h1 d1 ms where x: "x = (p1, h1, d1, ms)" by (cases x)
    have "s' = s\<lparr>boxes := (boxes s)[nat box := ms]\<rparr>"
      using assms Some Inr x by (simp add: Post_Receive_def split: if_splits)
    then show ?thesis by (intro exI [of _ "(boxes s)[nat box := ms]"]) simp
  qed
qed

lemma post_step_sends:
  assumes "post_step e s = Some (Inr s')" "send_inv n s"
  shows "send_inv n s'"
proof (cases e)
  case (Send_mail pad p h d)
  then obtain r where r: "Post_Send pad p h d s = Some r" "map_sum id snd r = Inr s'" using assms(1) by auto
  then obtain y where "Post_Send pad p h d s = Some (Inr y)" "snd y = s'" by (cases r) simp_all
  then obtain b where "Post_Send pad p h d s = Some (Inr (b, s'))" by (cases y) simp
  from Post_Send_sends [OF this assms(2)] show ?thesis .
next
  case Sent
  then show ?thesis using assms by (auto simp: Post_Sent_def take_signal_def send_inv_def split: if_splits)
next
  case Deliver
  then show ?thesis using assms PostalDelivery_sends [of s s'] by (simp add: send_inv_def)
next
  case (Receive_mail box buf)
  then obtain r where r: "Post_Receive box buf s = Some r" "map_sum id (\<lambda>(p, h, d, s'). s') r = Inr s'"
    using assms(1) by auto
  then obtain p h d where "Post_Receive box buf s = Some (Inr (p, h, d, s'))" by (cases r) auto
  from Post_Receive_sends [OF this] obtain bs where "s' = s\<lparr>boxes := bs\<rparr>" "length bs = length (boxes s)" by blast
  with assms(2) show ?thesis by (simp add: send_inv_def)
next
  case (Device adv)
  then obtain r where r: "CheckIfDue device_run adv (ChangeLevel IntOff s) = r" "map_sum id snd r = Inr s'"
    using assms(1) by auto
  then obtain y where "CheckIfDue device_run adv (ChangeLevel IntOff s) = Inr y" "snd y = s'"
    by (cases r) simp_all
  then obtain b where b: "CheckIfDue device_run adv (ChangeLevel IntOff s) = Inr (b, s')" by (cases y) simp
  have "send_inv n (ChangeLevel IntOff s)"
    using assms(2) by (simp add: send_inv_def ChangeLevel_def)
  from CheckIfDue_sends [OF b this] show ?thesis .
qed

lemma post_run_sends: "post_run s t \<Longrightarrow> send_inv n s \<Longrightarrow> send_inv n t"
  by (induction rule: post_run.induct) (auto intro: post_step_sends)

lemma new_post_inv:
  "new_PostOffice addr n garbage s0 = Inr s \<Longrightarrow> sending (pending s0) = 0 \<Longrightarrow> send_inv n s"
  by (auto simp: new_PostOffice_def new_Network_def send_inv_def dest!: Schedule_sends)

section \<open>Properties\<close>

text \<open>
  C40: one packet at a time, and no completion lost. Take a post office that has been built while no interrupt
  of the sending side of the network was pending, and any sequence of steps of its threads (\<open>Send\<close> up to its
  wait, the rest of \<open>Send\<close>, the postal worker, \<open>Receive\<close>) and of the devices. While the send lock is held, either the
  one interrupt of the device is pending and \<open>messageSent\<close> is 0, or it has come and \<open>messageSent\<close> is 1, so that the
  sender can go on and releases the lock. While the lock is free, no such interrupt is pending and \<open>messageSent\<close>
  is 0, so the next sender cannot take the completion of an earlier packet for its own.
\<close>

theorem one_message_at_a_time:
  assumes "new_PostOffice addr n garbage s0 = Inr s" "sending (pending s0) = 0" "post_run s t"
  shows "if sendLocked t
    then sending (pending t) = 1 \<and> signals t MessageSent = 0 \<or>
      sending (pending t) = 0 \<and> signals t MessageSent = 1 \<and> (\<exists>u. Post_Sent t = Some u \<and> \<not> sendLocked u)
    else sending (pending t) = 0 \<and> signals t MessageSent = 0"
proof -
  from post_run_sends [OF assms(3) new_post_inv [OF assms(1,2)]] show ?thesis
    by (cases "signals t MessageSent") (auto simp: send_inv_def Post_Sent_def split: if_splits)
qed

definition example_post :: post where
  "example_post = \<lparr>mainMemory = (\<lambda>_. 0), registers = (\<lambda>_. 0), tlb = None, pageTable = None, pageTableSize = 0,
      lastUsed = (\<lambda>_. 0), totalTicks = 0, mode = SystemMode,
      level = IntOff, pending = [], inHandler = False, yieldOnReturn = False,
      idleTicks = 0, systemTicks = 0, userTicks = 0,
      timerDev = \<lparr>randomize = False, targ = 0\<rparr>, randomNumbers = (\<lambda>_. 0), putBusy = True, incoming = EOF,
      keyboard = [], display = [], numConsoleCharsRead = 0, numConsoleCharsWritten = 0, ident = 3,
      chance = 100, sendBusy = False, inHdr = \<lparr>hto = 0, hfrom = 0, hlength = 0\<rparr>, inbox = [],
      socket = [], reachable = (\<lambda>_. True), wire = [], numPacketsSent = 0, numPacketsRecvd = 0,
      signals = (\<lambda>_. 0), boxes = replicate 100 [], buffer = replicate 52 0, sendLocked = False\<rparr>"

text \<open>A packet on its way: the poll of the network is the first interrupt, the completion the second.\<close>

lemmas post_evaluation = new_PostOffice_def new_Network_def Schedule_def NetworkTime_def example_post_def Let_def
  rem_def quot_def Post_Send_def Network_Send_def next_random_def MaxMailSize_def MaxPacketSize_def MaxWireSize_def
  CheckIfDue_def ChangeLevel_def fire_def DelayedLoad_def set_reg_def LoadReg_def LoadValueReg_def advance_to_def
  CheckPktAvail_def SendDone_def Vsem_def Post_Sent_def take_signal_def device_run_def sorted_insert_Cons
  NumTotalRegs_def

theorem one_message_at_a_time_witness:
  "\<exists>s t u v w. new_PostOffice 3 100 (replicate 52 0) example_post = Inr s \<and> post_run s t \<and> sendLocked t \<and>
    sending (pending t) = 1 \<and> Post_Sent t = None \<and>
    post_step (Device True) t = Some (Inr u) \<and> post_step (Device True) u = Some (Inr v) \<and>
    post_run s v \<and> sendLocked v \<and> sending (pending v) = 0 \<and> Post_Sent v = Some w \<and> \<not> sendLocked w"
proof -
  let ?p = "\<lparr>hto = 3, hfrom = 3, hlength = 0\<rparr>" and ?h = "\<lparr>mto = 1, mfrom = 0, mlength = 2\<rparr>"
  have "\<exists>s t u v. new_PostOffice 3 100 (replicate 52 0) example_post = Inr s \<and>
    Post_Send (\<lambda>_. 0) ?p ?h [104, 105] s = Some (Inr (True, t)) \<and> sendLocked t \<and> signals t MessageSent = 0 \<and>
    CheckIfDue device_run True (ChangeLevel IntOff t) = Inr (True, u) \<and>
    CheckIfDue device_run True (ChangeLevel IntOff u) = Inr (True, v) \<and> sendLocked v \<and> signals v MessageSent = 1"
    by (simp add: post_evaluation)
  then obtain s t u v where c: "new_PostOffice 3 100 (replicate 52 0) example_post = Inr s"
    "Post_Send (\<lambda>_. 0) ?p ?h [104, 105] s = Some (Inr (True, t))" "sendLocked t" "signals t MessageSent = 0"
    "CheckIfDue device_run True (ChangeLevel IntOff t) = Inr (True, u)"
    "CheckIfDue device_run True (ChangeLevel IntOff u) = Inr (True, v)" "sendLocked v" "signals v MessageSent = 1"
    by blast
  have t: "post_run s t"
    by (rule post_run.step [OF post_run.refl, of "Send_mail (\<lambda>_. 0) ?p ?h [104, 105]"]) (simp add: c)
  have u: "post_run s u" by (rule post_run.step [OF t, of "Device True"]) (simp add: c)
  have v: "post_run s v" by (rule post_run.step [OF u, of "Device True"]) (simp add: c)
  have e: "sending (pending example_post) = 0" by (simp add: example_post_def)
  have "sending (pending t) = 1" "Post_Sent t = None"
    using one_message_at_a_time [OF c(1) e t] c(3,4) by (simp_all add: Post_Sent_def)
  moreover have "sending (pending v) = 0" "\<exists>w. Post_Sent v = Some w \<and> \<not> sendLocked w"
    using one_message_at_a_time [OF c(1) e v] c(7,8) by simp_all
  moreover have "post_step (Device True) t = Some (Inr u)" "post_step (Device True) u = Some (Inr v)"
    using c(5,6) by simp_all
  ultimately show ?thesis using c(1,3,7) t v by blast
qed

text \<open>
  C23: the network carries mail. Take a message that passes the checks of \<open>post_send\<close>, the model of
  \<open>Send\<close> the servers use, with 32-bit addresses, on a machine whose post office has been built and run
  in any way. While another thread is sending, \<open>Send\<close> waits. Otherwise it puts exactly one packet on
  the wire, and answers TRUE, if the reliability test passes and the destination's socket exists; a
  packet lost in that test is not put on the wire and the answer is TRUE too; with no such socket nothing
  is sent and the answer is FALSE. When the device of the machine the packet is addressed to takes it
  from its socket (having no other packet buffered), the postal worker appends to the mailbox it is
  addressed to a mail with the same two headers and the same data; and when such a mail is the first of
  its mailbox, \<open>Receive\<close> copies it over the front of its caller's buffer and removes it.
\<close>

theorem mail_is_carried:
  assumes "new_PostOffice addr (nat numBoxes) garbage s0 = Inr s1" "sending (pending s0) = 0" "post_run s1 s"
    and "post_send m = Inr m'" "int32 (pkt_to m)" "int32 (pkt_from m)" "int32 (mail_to m)" "int32 (mail_from m)"
    and p: "p = \<lparr>hto = pkt_to m, hfrom = pkt_from m, hlength = anything\<rparr>"
    and h: "h = \<lparr>mto = mail_to m, mfrom = mail_from m, mlength = mail_len m\<rparr>"
  shows "\<exists>packet.
    (if sendLocked s then Post_Send pad p h (mdata m) s = None
     else \<exists>t. Post_Send pad p h (mdata m) s = Some (Inr (lost s \<or> reachable s (pkt_to m), t)) \<and>
       wire t = wire s @ (if \<not> lost s \<and> reachable s (pkt_to m) then [(pkt_to m, packet)] else [])) \<and>
    (\<forall>r. ready_for (pkt_to m) packet r \<and> length (boxes r) = nat numBoxes \<longrightarrow>
      (\<exists>r1 r2. CheckPktAvail r = Inr r1 \<and> PostalDelivery r1 = Some (Inr r2) \<and>
        boxes r2 = (boxes r)[nat (mail_to m) := boxes r ! nat (mail_to m) @
          [\<lparr>pktHdr = p\<lparr>hlength := mail_len m + 12\<rparr>, mailHdr = h, data = mdata m'\<rparr>]])) \<and>
    (\<forall>u ms buf. length (boxes u) = nat numBoxes \<and> length buf = nat MaxMailSize \<and> boxes u ! nat (mail_to m) =
        \<lparr>pktHdr = p\<lparr>hlength := mail_len m + 12\<rparr>, mailHdr = h, data = mdata m'\<rparr> # ms \<longrightarrow>
      Post_Receive (mail_to m) buf u = Some (Inr (p\<lparr>hlength := mail_len m + 12\<rparr>, h,
        mdata m' @ drop (length (mdata m')) buf, u\<lparr>boxes := (boxes u)[nat (mail_to m) := ms]\<rparr>)))"
proof -
  have m: "0 \<le> mail_len m" "mail_len m \<le> 40" "0 \<le> mail_to m" "mail_to m < 100"
    "mail_len m \<le> int (length (mdata m))" "mdata m' = take (nat (mail_len m)) (mdata m)"
    using assms(4) by (auto simp: post_send_def MaxMailSize_def numBoxes_def split: if_splits)
  have inv: "send_inv (nat numBoxes) s" by (rule post_run_sends [OF assms(3) new_post_inv [OF assms(1,2)]])
  have hf: "mlength h = mail_len m" "mto h = mail_to m" "mfrom h = mail_from m" by (simp_all add: h)
  have pf: "hto p = pkt_to m" "hfrom p = pkt_from m" by (simp_all add: p)
  have l: "length (mdata m') = nat (mail_len m)" using m by simp
  have send: "if sendLocked s then Post_Send pad p h (mdata m) s = None
     else \<exists>t. Post_Send pad p h (mdata m) s = Some (Inr (lost s \<or> reachable s (pkt_to m), t)) \<and>
       wire t = wire s @
         (if \<not> lost s \<and> reachable s (pkt_to m) then [(pkt_to m, packet_of pad p h (mdata m))] else [])"
  proof (cases "sendLocked s")
    case True
    then show ?thesis using m hf inv by (simp add: Post_Send_def send_inv_def MaxMailSize_def numBoxes_def)
  next
    case False
    then have "\<not> sendBusy s" using inv by (auto simp: send_inv_def)
    then obtain t where "Post_Send pad p h (mdata m) s = Some (Inr (lost s \<or> reachable s (pkt_to m), t))"
      "wire t = wire s @
         (if \<not> lost s \<and> reachable s (pkt_to m) then [(pkt_to m, packet_of pad p h (mdata m))] else [])"
      using Post_Send_does [of h s "mdata m" pad p, unfolded hf pf] m inv False
      by (auto simp only: send_inv_def MaxMailSize_def numBoxes_def int_nat_eq) auto
    with False show ?thesis by (simp only: if_False) blast
  qed
  have deliver: "\<exists>r1 r2. CheckPktAvail r = Inr r1 \<and> PostalDelivery r1 = Some (Inr r2) \<and>
        boxes r2 = (boxes r)[nat (mail_to m) := boxes r ! nat (mail_to m) @
          [\<lparr>pktHdr = p\<lparr>hlength := mail_len m + 12\<rparr>, mailHdr = h, data = mdata m'\<rparr>]]"
    if r: "ready_for (pkt_to m) (packet_of pad p h (mdata m)) r" "length (boxes r) = nat numBoxes" for r
  proof -
    obtain r1 where r1: "CheckPktAvail r = Inr r1" "inHdr r1 = p\<lparr>hlength := mail_len m + 12\<rparr>"
      "take (nat (mail_len m + 12)) (inbox r1) = mail_header_bytes h @ mdata m'"
      "signals r1 MessageAvailable \<noteq> 0" "boxes r1 = boxes r" "buffer r1 = buffer r"
      using CheckPktAvail_takes [of p pad h "mdata m" r] r(1) hf pf m assms(5,6) by auto
    have "\<exists>r2. PostalDelivery r1 = Some (Inr r2) \<and> hlength (inHdr r2) = 0 \<and>
      boxes r2 = (boxes r1)[nat (mto h) := boxes r1 ! nat (mto h) @
        [\<lparr>pktHdr = p\<lparr>hlength := mail_len m + 12\<rparr>, mailHdr = h, data = mdata m'\<rparr>]]"
      by (rule PostalDelivery_delivers)
        (use r1 r m hf l assms(7,8) in \<open>simp_all add: ready_for_def numBoxes_def\<close>)
    with r1(1,5) hf(2) show ?thesis by auto
  qed
  have receive: "Post_Receive (mail_to m) buf u = Some (Inr (p\<lparr>hlength := mail_len m + 12\<rparr>, h,
        mdata m' @ drop (length (mdata m')) buf, u\<lparr>boxes := (boxes u)[nat (mail_to m) := ms]\<rparr>))"
    if "length (boxes u) = nat numBoxes" "length buf = nat MaxMailSize" "boxes u ! nat (mail_to m) =
        \<lparr>pktHdr = p\<lparr>hlength := mail_len m + 12\<rparr>, mailHdr = h, data = mdata m'\<rparr> # ms" for u ms buf
    using Post_Receive_first [of "mail_to m" u _ ms buf, OF _ _ that(3)] that m hf l
    by (simp add: MaxMailSize_def numBoxes_def)
  from send deliver receive show ?thesis by (intro exI [of _ "packet_of pad p h (mdata m)"]) blast
qed

text \<open>Two machines: number 3 sends \<open>hi\<close> to mailbox 1 of number 4, which takes it and receives it.\<close>

definition built_post :: post where
  "built_post = (case new_PostOffice 3 100 (replicate 52 0) example_post of Inr s \<Rightarrow> s | Inl _ \<Rightarrow> example_post)"

lemma built_post: "new_PostOffice 3 (nat numBoxes) (replicate 52 0) example_post = Inr built_post"
  by (simp add: built_post_def new_PostOffice_def new_Network_def Schedule_def NetworkTime_def Let_def numBoxes_def)

lemma built_post_fields:
  "randomNumbers built_post = (\<lambda>_. 0)" "chance built_post = 100" "reachable built_post = (\<lambda>_. True)"
  "wire built_post = []" "\<not> sendLocked built_post"
  by (simp_all add: built_post_def new_PostOffice_def new_Network_def Schedule_def NetworkTime_def Let_def
      example_post_def)

theorem mail_is_carried_witness:
  "\<exists>t packet r1 r2 r3.
    Post_Send (\<lambda>_. 0) \<lparr>hto = 4, hfrom = 3, hlength = 0\<rparr> \<lparr>mto = 1, mfrom = 0, mlength = 2\<rparr>
      [104, 105] built_post = Some (Inr (True, t)) \<and> wire t = [(4, packet)] \<and>
    CheckPktAvail (example_post\<lparr>ident := 4, socket := [Some packet]\<rparr>) = Inr r1 \<and>
    PostalDelivery r1 = Some (Inr r2) \<and>
    boxes r2 ! 1 = [\<lparr>pktHdr = \<lparr>hto = 4, hfrom = 3, hlength = 14\<rparr>,
      mailHdr = \<lparr>mto = 1, mfrom = 0, mlength = 2\<rparr>, data = [104, 105]\<rparr>] \<and>
    Post_Receive 1 (replicate 40 0) r2 = Some (Inr (\<lparr>hto = 4, hfrom = 3, hlength = 14\<rparr>,
      \<lparr>mto = 1, mfrom = 0, mlength = 2\<rparr>, [104, 105] @ replicate 38 0, r3)) \<and> boxes r3 ! 1 = []"
proof -
  let ?m = "\<lparr>pkt_to = 4, pkt_from = 3, mail_to = 1, mail_from = 0, mail_len = 2, mdata = [104, 105]\<rparr>"
  let ?p = "\<lparr>hto = 4, hfrom = 3, hlength = 0\<rparr>" and ?h = "\<lparr>mto = 1, mfrom = 0, mlength = 2\<rparr>"
  let ?q = "\<lparr>hto = 4, hfrom = 3, hlength = 14\<rparr>"
  have m: "post_send ?m = Inr ?m" by (simp add: post_send_def MaxMailSize_def numBoxes_def)
  have p: "?p = \<lparr>hto = pkt_to ?m, hfrom = pkt_from ?m, hlength = 0\<rparr>"
    and h: "?h = \<lparr>mto = mail_to ?m, mfrom = mail_from ?m, mlength = mail_len ?m\<rparr>" by simp_all
  have "sending (pending example_post) = 0" by (simp add: example_post_def)
  from mail_is_carried [OF built_post this post_run.refl m _ _ _ _ p h, of "\<lambda>_. 0"]
  obtain packet t where c:
    "Post_Send (\<lambda>_. 0) ?p ?h [104, 105] built_post = Some (Inr (True, t))" "wire t = [(4, packet)]"
    "\<And>r. ready_for 4 packet r \<and> length (boxes r) = nat numBoxes \<Longrightarrow>
      \<exists>r1 r2. CheckPktAvail r = Inr r1 \<and> PostalDelivery r1 = Some (Inr r2) \<and>
        boxes r2 = (boxes r)[nat 1 := boxes r ! nat 1 @ [\<lparr>pktHdr = ?q, mailHdr = ?h, data = [104, 105]\<rparr>]]"
    "\<And>u ms buf. length (boxes u) = nat numBoxes \<and> length buf = nat MaxMailSize \<and>
        boxes u ! nat 1 = \<lparr>pktHdr = ?q, mailHdr = ?h, data = [104, 105]\<rparr> # ms \<Longrightarrow>
      Post_Receive 1 buf u = Some (Inr (?q, ?h, [104, 105] @ drop 2 buf, u\<lparr>boxes := (boxes u)[nat 1 := ms]\<rparr>))"
    by (auto simp: int32_def built_post_fields lost_def rem_def quot_def numeral_2_eq_2)
  let ?r = "example_post\<lparr>ident := 4, socket := [Some packet]\<rparr>"
  have "ready_for 4 packet ?r \<and> length (boxes ?r) = nat numBoxes"
    by (simp add: ready_for_def example_post_def MaxPacketSize_def MaxWireSize_def numBoxes_def)
  from c(3) [OF this] obtain r1 r2 where r: "CheckPktAvail ?r = Inr r1" "PostalDelivery r1 = Some (Inr r2)"
    "boxes r2 = (boxes ?r)[nat 1 := boxes ?r ! nat 1 @ [\<lparr>pktHdr = ?q, mailHdr = ?h, data = [104, 105]\<rparr>]]"
    by blast
  then have b: "length (boxes r2) = nat numBoxes" "boxes r2 ! nat 1 = [\<lparr>pktHdr = ?q, mailHdr = ?h, data = [104, 105]\<rparr>]"
    by (simp_all add: example_post_def numBoxes_def)
  have "Post_Receive 1 (replicate 40 0) r2 = Some (Inr (?q, ?h, [104, 105] @ drop 2 (replicate 40 0),
      r2\<lparr>boxes := (boxes r2)[nat 1 := []]\<rparr>))"
    by (rule c(4)) (use b in \<open>simp add: MaxMailSize_def\<close>)
  with c(1,2) r(1,2) b show ?thesis
    by (intro exI [of _ t] exI [of _ packet] exI [of _ r1] exI [of _ r2]
        exI [of _ "r2\<lparr>boxes := (boxes r2)[nat 1 := []]\<rparr>"]) (simp add: numBoxes_def)
qed

end
