(* ===== verification/Client.thy ===== *)
theory Client
  imports Server_Claims
begin

text \<open>
  The system calls of a NETWORK build (userprog/exception.cc): a kernel asks a server and waits for
  its answer. \<open>client\<close> is the machine and mailbox of the calling thread, \<open>srv\<close> the server that
  \<open>pickServer\<close> chose. A call is the message it sends and what it makes of the first answer that is not
  from mailbox 2; \<open>None\<close> is a call that goes on waiting.
\<close>

section \<open>Integers in messages\<close>

definition extractIntFromBytes :: "u8 list \<Rightarrow> int" where
  "extractIntFromBytes buf =
     (let a = push_bit 24 (scast (buf ! 0)) AND 0xff000000 :: u32;
          b = push_bit 16 (scast (buf ! 1)) AND 0x00ff0000;
          c = push_bit 8 (scast (buf ! 2)) AND 0x0000ff00;
          d = scast (buf ! 3) AND 0x000000ff
      in sint (a + b + c + d))"

definition compressIntFromBytes :: "int \<Rightarrow> u8 list" where
  "compressIntFromBytes x = (let w = word_of_int x :: u32 in
     [ucast (drop_bit 24 w AND 0xff), ucast (drop_bit 16 w AND 0xff),
      ucast (drop_bit 8 w AND 0xff), ucast (w AND 0xff)])"

definition pickServer :: "int \<Rightarrow> int \<Rightarrow> int" where
  "pickServer r servers = rem r servers"

section \<open>Requests\<close>

definition request :: "client \<Rightarrow> int \<Rightarrow> int \<Rightarrow> u8 list \<Rightarrow> mail result" where
  "request c srv len data =
     post_send \<lparr>pkt_to = srv, pkt_from = fst c, mail_to = 0, mail_from = snd c, mail_len = len, mdata = data\<rparr>"

definition char :: "int \<Rightarrow> u8" where
  "char x = word_of_int x"

text \<open>\<open>name\<close> is the buffer of \<open>length\<close> bytes that \<open>copyin\<close> has filled.\<close>

definition CreateLock_request :: "client \<Rightarrow> int \<Rightarrow> u8 list \<Rightarrow> mail result" where
  "CreateLock_request c srv name =
     bind_result (strncpy (length name) name) (\<lambda>n.
     request c srv (2 + int (length name)) (char CREATE_LOCK # char (int (length name)) # n))"

definition CreateCondition_request :: "client \<Rightarrow> int \<Rightarrow> u8 list \<Rightarrow> mail result" where
  "CreateCondition_request c srv name =
     bind_result (strncpy (length name) name) (\<lambda>n.
     request c srv (2 + int (length name)) (char CREATE_CV # char (int (length name)) # n))"

definition CreateMV_request :: "client \<Rightarrow> int \<Rightarrow> u8 list \<Rightarrow> int \<Rightarrow> int \<Rightarrow> mail result" where
  "CreateMV_request c srv name numArrayEntries initialValue =
     bind_result (strncpy (length name) name) (\<lambda>n.
     request c srv (10 + int (length name)) (char CREATE_MV # compressIntFromBytes numArrayEntries @
       compressIntFromBytes initialValue @ char (int (length name)) # n))"

definition Signal_request :: "client \<Rightarrow> int \<Rightarrow> int \<Rightarrow> int \<Rightarrow> mail result" where
  "Signal_request c srv conditionIndex lockIndex = request c srv 9
     (char SIGNAL # compressIntFromBytes conditionIndex @ compressIntFromBytes lockIndex)"

definition Broadcast_request :: "client \<Rightarrow> int \<Rightarrow> int \<Rightarrow> int \<Rightarrow> mail result" where
  "Broadcast_request c srv conditionIndex lockIndex = request c srv 9
     (char BROADCAST # compressIntFromBytes conditionIndex @ compressIntFromBytes lockIndex)"

text \<open>\<open>Wait\<close> is two conversations: this one, and then the one of \<open>Acquire\<close>.\<close>

definition Wait_request :: "client \<Rightarrow> int \<Rightarrow> int \<Rightarrow> int \<Rightarrow> mail result" where
  "Wait_request c srv conditionIndex lockIndex = request c srv 9
     (char WAIT # compressIntFromBytes conditionIndex @ compressIntFromBytes lockIndex)"

definition Acquire_request :: "client \<Rightarrow> int \<Rightarrow> int \<Rightarrow> mail result" where
  "Acquire_request c srv lockIndex = request c srv 5 (char ACQUIRE # compressIntFromBytes lockIndex)"

definition Release_request :: "client \<Rightarrow> int \<Rightarrow> int \<Rightarrow> mail result" where
  "Release_request c srv lockIndex = request c srv 5 (char RELEASE # compressIntFromBytes lockIndex)"

definition DestroyLock_request :: "client \<Rightarrow> int \<Rightarrow> int \<Rightarrow> mail result" where
  "DestroyLock_request c srv lockIndex = request c srv 5 (char DESTROY_LOCK # compressIntFromBytes lockIndex)"

definition DestroyCondition_request :: "client \<Rightarrow> int \<Rightarrow> int \<Rightarrow> mail result" where
  "DestroyCondition_request c srv conditionIndex =
     request c srv 5 (char DESTROY_CV # compressIntFromBytes conditionIndex)"

definition DestroyMV_request :: "client \<Rightarrow> int \<Rightarrow> int \<Rightarrow> mail result" where
  "DestroyMV_request c srv index = request c srv 5 (char DESTROY_MV # compressIntFromBytes index)"

definition SetMV_request :: "client \<Rightarrow> int \<Rightarrow> int \<Rightarrow> int \<Rightarrow> int \<Rightarrow> mail result" where
  "SetMV_request c srv arrIndex indexInArray value = request c srv 13
     (char SET_MV # compressIntFromBytes arrIndex @ compressIntFromBytes indexInArray @ compressIntFromBytes value)"

definition GetMV_request :: "client \<Rightarrow> int \<Rightarrow> int \<Rightarrow> int \<Rightarrow> mail result" where
  "GetMV_request c srv arrIndex varIndex = request c srv 9
     (char GET_MV # compressIntFromBytes arrIndex @ compressIntFromBytes varIndex)"

section \<open>Answers\<close>

text \<open>\<open>do Receive while (mailHeader->from == 2)\<close> on the mailbox.\<close>

fun await_reply :: "mail list \<Rightarrow> (mail \<times> mail list) option" where
  "await_reply [] = None"
| "await_reply (m # ms) = (if mail_from m = 2 then await_reply ms else Some (m, ms))"

text \<open>What the calls return that return something.\<close>

definition answer :: "mail \<Rightarrow> int" where
  "answer m = extractIntFromBytes (mdata m)"

section \<open>A conversation with a server\<close>

text \<open>
  The request is delivered to the server, which handles it; of the messages this causes, those for the
  client's mailbox are appended to what is there. \<open>pad\<close> is what was in the server's buffer.
\<close>

definition for_client :: "client \<Rightarrow> mail list \<Rightarrow> mail list" where
  "for_client c ms = filter (\<lambda>m. pkt_to m = fst c \<and> mail_to m = snd c) ms"

definition conversation ::
  "(nat \<Rightarrow> u32) \<Rightarrow> u8 list \<Rightarrow> mail result \<Rightarrow> server \<Rightarrow> ((mail \<times> mail list) option \<times> server) result option" where
  "conversation g pad req s =
     (case req of Inl e \<Rightarrow> Some (Inl e)
      | Inr m \<Rightarrow> map_option (\<lambda>r. bind_result r (\<lambda>(ms, s').
          Inr (await_reply (for_client (sender m) ms), s'))) (handle0 g (delivered pad m) s))"

section \<open>What the server reads\<close>

lemma same_codec: "extractIntFromBytes = extractInt" "compressIntFromBytes = compressInt"
  by (simp_all add: fun_eq_iff extractIntFromBytes_def extractInt_def compressIntFromBytes_def compressInt_def)

lemma extract_int32: "int32 x \<Longrightarrow> extractInt (compressInt x @ ys) = x"
  by (simp add: int32_def extractInt_compressInt)

lemma request_ok:
  assumes "0 \<le> len" "len \<le> 40" "len = int (length d)"
  shows "request c srv len d = Inr \<lparr>pkt_to = srv, pkt_from = fst c, mail_to = 0, mail_from = snd c, mail_len = len, mdata = d\<rparr>"
  using assms by (simp add: request_def post_send_def MaxMailSize_def numBoxes_def)

text \<open>A request of type \<open>ty\<close> with the integers \<open>xs\<close>, as the server's loop reads it.\<close>

definition reads :: "client \<Rightarrow> int \<Rightarrow> int list \<Rightarrow> mail result \<Rightarrow> bool" where
  "reads c ty xs req \<longleftrightarrow> (\<exists>m. req = Inr m \<and> sender m = c \<and> mail_to m = 0 \<and> length (mdata m) \<le> 40 \<and>
     (\<forall>pad. length (mdata m @ pad) = 40 \<longrightarrow> (0 \<le> snd c \<and> snd c < numBoxes \<longrightarrow> wf_mail (delivered pad m)) \<and>
       mail_type (delivered pad m) = ty \<and> (\<forall>i<length xs. int_at (delivered pad m) (1 + 4 * i) = xs ! i)))"

lemma packed_length: "length (concat (map compressInt ys)) = 4 * length ys"
  by (induction ys) auto

lemma packed_ints:
  "i < length ys \<Longrightarrow> \<forall>x\<in>set ys. int32 x \<Longrightarrow>
   extractInt (drop (4 * i) (concat (map compressInt ys) @ pad)) = ys ! i"
proof (induction ys arbitrary: i)
  case (Cons y ys)
  then show ?case by (cases i) (auto simp: extract_int32)
qed simp

lemma reads_ints:
  assumes "ty = sint (word_of_int ty :: u8)" "\<forall>x\<in>set xs. int32 x" "length xs \<le> 3"
    and "d = char ty # concat (map compressIntFromBytes xs)"
  shows "reads c ty xs (request c srv (1 + 4 * int (length xs)) d)"
proof -
  note l = packed_length and i = packed_ints
  have len: "length d = 1 + 4 * length xs" by (simp add: assms(4) same_codec l)
  have "request c srv (1 + 4 * int (length xs)) d =
      Inr \<lparr>pkt_to = srv, pkt_from = fst c, mail_to = 0, mail_from = snd c, mail_len = 1 + 4 * int (length xs), mdata = d\<rparr>"
    using assms(3) len by (intro request_ok) auto
  then show ?thesis
    using assms len i [of _ xs] unfolding reads_def
    by (auto simp: sender_def wf_mail_def mail_type_def char_at_def int_at_def same_codec char_def)
qed

lemma requests_read:
  assumes "int32 x" "int32 y" "int32 z"
  shows "reads c ACQUIRE [x] (Acquire_request c srv x)" "reads c RELEASE [x] (Release_request c srv x)"
    "reads c DESTROY_LOCK [x] (DestroyLock_request c srv x)"
    "reads c DESTROY_CV [x] (DestroyCondition_request c srv x)"
    "reads c DESTROY_MV [x] (DestroyMV_request c srv x)"
    "reads c SIGNAL [x, y] (Signal_request c srv x y)" "reads c BROADCAST [x, y] (Broadcast_request c srv x y)"
    "reads c WAIT [x, y] (Wait_request c srv x y)" "reads c GET_MV [x, y] (GetMV_request c srv x y)"
    "reads c SET_MV [x, y, z] (SetMV_request c srv x y z)"
  using assms reads_ints [of _ "[x]"] reads_ints [of _ "[x, y]"] reads_ints [of _ "[x, y, z]"]
  by (simp_all add: Acquire_request_def Release_request_def DestroyLock_request_def DestroyCondition_request_def
      DestroyMV_request_def Signal_request_def Broadcast_request_def Wait_request_def GetMV_request_def
      SetMV_request_def message_types)

lemma strncpy_again: "strncpy n src = Inr r \<Longrightarrow> strncpy n (r @ ys) = Inr r"
  by (induction n src arbitrary: r rule: strncpy.induct) (auto split: if_splits)

lemma strncpy_whole: "\<exists>r. strncpy (length name) name = Inr r \<and> length r = length name"
  by (induction name) auto

text \<open>
  A creation with the integers \<open>xs\<close>, whose name the server copies, from the place \<open>k\<close>, as the client has copied it.
\<close>

definition reads_name :: "client \<Rightarrow> int \<Rightarrow> int list \<Rightarrow> nat \<Rightarrow> u8 list \<Rightarrow> mail result \<Rightarrow> bool" where
  "reads_name c ty xs k name req \<longleftrightarrow> (\<exists>m. req = Inr m \<and> sender m = c \<and> mail_to m = 0 \<and> length (mdata m) \<le> 40 \<and>
     (\<forall>pad. length (mdata m @ pad) = 40 \<longrightarrow> mail_type (delivered pad m) = ty \<and>
       (\<forall>i<length xs. int_at (delivered pad m) (1 + 4 * i) = xs ! i) \<and>
       get_name (mdata (delivered pad m)) k (char_at (mdata (delivered pad m)) (k - 1)) =
         strncpy (length name) name))"

lemma small_char: "n < 128 \<Longrightarrow> sint (char (int n)) = int n"
  unfolding char_def by (subst sint_sbintrunc') (simp add: signed_take_bit_int_eq_self)

lemma name_request_read:
  assumes "n = length name" "strncpy n name = Inr r" "k = 2 + 4 * length xs" "n + k \<le> 40" "\<forall>x\<in>set xs. int32 x"
    and "ty = sint (word_of_int ty :: u8)" "ints = concat (map compressIntFromBytes xs)"
  shows "reads_name c ty xs k name (request c srv (int k + int n) (char ty # ints @ char (int n) # r))"
proof -
  have li: "length ints = 4 * length xs" by (simp add: assms(7) same_codec packed_length)
  have l: "length r = n" using strncpy_whole [of name] assms(1,2) by simp
  then have "int k + int n = int (length (char ty # ints @ char (int n) # r))" using assms(3) li by simp
  moreover have "int k + int n \<le> 40" using assms(4) by linarith
  ultimately have r: "request c srv (int k + int n) (char ty # ints @ char (int n) # r) =
      Inr \<lparr>pkt_to = srv, pkt_from = fst c, mail_to = 0, mail_from = snd c, mail_len = int k + int n,
        mdata = char ty # ints @ char (int n) # r\<rparr>" (is "_ = Inr ?m")
    by (intro request_ok) auto
  have "mdata (delivered pad ?m) ! (k - 1) = char (int n)" for pad
    using assms(3) li by (simp add: nth_append)
  moreover have "drop k (mdata (delivered pad ?m)) = r @ pad" for pad
    using assms(3) li by simp
  moreover have "n < 128" using assms(4) by simp
  ultimately have "get_name (mdata (delivered pad ?m)) k (char_at (mdata (delivered pad ?m)) (k - 1)) =
      strncpy (length name) name" for pad
    using assms(1,2) strncpy_again [OF assms(2), of pad] by (simp add: get_name_def char_at_def small_char)
  moreover have "int_at (delivered pad ?m) (1 + 4 * i) = xs ! i" if "i < length xs" for i pad
  proof -
    have "int_at (delivered pad ?m) (1 + 4 * i) = extractInt (drop (4 * i) (ints @ char (int n) # r @ pad))"
      by (simp add: int_at_def)
    then show ?thesis using packed_ints [OF that assms(5), of "char (int n) # r @ pad"] by (simp add: assms(7) same_codec)
  qed
  moreover have "length (mdata ?m) \<le> 40" using l li assms(3,4) by simp
  ultimately show ?thesis using r assms(6) by (auto simp: reads_name_def sender_def mail_type_def char_at_def char_def)
qed

lemma creations_read:
  "length name \<le> 38 \<Longrightarrow> reads_name c CREATE_LOCK [] 2 name (CreateLock_request c srv name)"
  "length name \<le> 38 \<Longrightarrow> reads_name c CREATE_CV [] 2 name (CreateCondition_request c srv name)"
  "int32 n \<Longrightarrow> int32 v \<Longrightarrow> length name \<le> 30 \<Longrightarrow>
   reads_name c CREATE_MV [n, v] 10 name (CreateMV_request c srv name n v)"
proof -
  obtain r where r: "strncpy (length name) name = Inr r" using strncpy_whole [of name] by blast
  show "reads_name c CREATE_LOCK [] 2 name (CreateLock_request c srv name)" if "length name \<le> 38"
    using name_request_read [OF refl r, of 2 "[]" CREATE_LOCK "[]" c srv] that r
    by (simp add: CreateLock_request_def message_types)
  show "reads_name c CREATE_CV [] 2 name (CreateCondition_request c srv name)" if "length name \<le> 38"
    using name_request_read [OF refl r, of 2 "[]" CREATE_CV "[]" c srv] that r
    by (simp add: CreateCondition_request_def message_types)
  show "reads_name c CREATE_MV [n, v] 10 name (CreateMV_request c srv name n v)"
    if "int32 n" "int32 v" "length name \<le> 30"
    using name_request_read [OF refl r, of 10 "[n, v]" CREATE_MV _ c srv] that r
    by (simp add: CreateMV_request_def message_types)
qed

lemma long_names_crash:
  "38 < length name \<Longrightarrow> CreateLock_request c srv name = Inl AssertFailed"
  "38 < length name \<Longrightarrow> CreateCondition_request c srv name = Inl AssertFailed"
  "30 < length name \<Longrightarrow> CreateMV_request c srv name n v = Inl AssertFailed"
  using strncpy_whole [of name]
  by (auto simp: CreateLock_request_def CreateCondition_request_def CreateMV_request_def request_def
      post_send_def MaxMailSize_def ASSERT_def)

section \<open>Properties\<close>

text \<open>
  C20: clients and servers speak the same language. For every system call the message of the client,
  delivered to a server in a buffer of 40 bytes, has the type of that call, the client as its sender,
  and at the places where the server looks the integers and the name that the user program passed (registers hold
  32-bit integers, hence \<open>int32\<close>). A name that does not fit is not refused: one of more than 38 bytes for
  a lock or a condition variable, or of more than 30 for a monitor variable, fails an ASSERT in the client's kernel.
\<close>

theorem requests_are_understood:
  assumes "int32 x" "int32 y" "int32 z"
  shows "reads c ACQUIRE [x] (Acquire_request c srv x) \<and> reads c RELEASE [x] (Release_request c srv x) \<and>
    reads c DESTROY_LOCK [x] (DestroyLock_request c srv x) \<and>
    reads c DESTROY_CV [x] (DestroyCondition_request c srv x) \<and>
    reads c DESTROY_MV [x] (DestroyMV_request c srv x) \<and>
    reads c SIGNAL [x, y] (Signal_request c srv x y) \<and> reads c BROADCAST [x, y] (Broadcast_request c srv x y) \<and>
    reads c WAIT [x, y] (Wait_request c srv x y) \<and> reads c GET_MV [x, y] (GetMV_request c srv x y) \<and>
    reads c SET_MV [x, y, z] (SetMV_request c srv x y z) \<and>
    (if length name \<le> 38
     then reads_name c CREATE_LOCK [] 2 name (CreateLock_request c srv name) \<and>
       reads_name c CREATE_CV [] 2 name (CreateCondition_request c srv name)
     else CreateLock_request c srv name = Inl AssertFailed \<and> CreateCondition_request c srv name = Inl AssertFailed) \<and>
    (if length name \<le> 30 then reads_name c CREATE_MV [x, y] 10 name (CreateMV_request c srv name x y)
     else CreateMV_request c srv name x y = Inl AssertFailed)"
  using requests_read [OF assms] creations_read(1,2) [of name] creations_read(3) [OF assms(1,2), of name]
    long_names_crash [of name]
  by (simp add: not_le)

theorem requests_are_understood_witness:
  "reads (5, 1) SET_MV [3, 2, - 1] (SetMV_request (5, 1) 0 3 2 (- 1)) \<and>
   reads_name (5, 1) CREATE_MV [3, 2] 10 [65, 0] (CreateMV_request (5, 1) 0 [65, 0] 3 2) \<and>
   CreateLock_request (5, 1) 0 (replicate 39 65) = Inl AssertFailed \<and>
   reads_name (5, 1) CREATE_LOCK [] 2 (replicate 35 65) (CreateLock_request (5, 1) 0 (replicate 35 65)) \<and>
   CreateMV_request (5, 1) 0 (replicate 35 65) 3 2 = Inl AssertFailed"
  using requests_are_understood [of 3 2 "- 1" "(5, 1)" 0 "[65, 0]"]
    requests_are_understood [of 3 2 "- 1" "(5, 1)" 0 "replicate 39 65"]
    requests_are_understood [of 3 2 "- 1" "(5, 1)" 0 "replicate 35 65"]
  by (simp add: int32_def)

lemma client_mail:
  "for_client c [reply s d c] = [reply s d c]" "mail_from (reply s d c) = 0" "mdata (reply s d c) = compressInt d"
  by (simp_all add: for_client_def reply_def)

lemma answer_reply: "int32 d \<Longrightarrow> answer (reply s d c) = d"
  using extract_int32 [of d "[]"] by (simp add: answer_def client_mail same_codec)

definition mv_entry :: "server \<Rightarrow> int \<Rightarrow> int \<Rightarrow> bool" where
  "mv_entry s i k \<longleftrightarrow> (\<exists>e. slots (mv_table s) i = Some e \<and> 0 \<le> k \<and> k < numEntries e)"

text \<open>
  C21: monitor variables are shared memory for the user programs. Let the number \<open>i\<close> belong to the server that is
  asked (a number of another machine is handed on, see \<open>forward\<close>, and is not covered), and let the server have no
  answer left over from another request. When one program sets an entry of the array and a program on any
  machine then reads it, both calls return; the second one gets the value that was set, or -1 if there is
  no such entry.
\<close>

theorem GetMV_after_SetMV:
  assumes "server_ok s" "necessaryResponses s = []" "decodeMachineID i = myMachineID s"
    and "int32 i" "int32 k" "int32 v" "0 \<le> snd c" "snd c < numBoxes" "0 \<le> snd c'" "snd c' < numBoxes"
    and "length pad = 27" "length pad' = 31"
  shows "\<exists>ack s1 r s2. conversation g pad (SetMV_request c srv i k v) s = Some (Inr (Some (ack, []), s1)) \<and>
    conversation g pad' (GetMV_request c' srv i k) s1 = Some (Inr (Some (r, []), s2)) \<and>
    answer r = (if mv_entry s (decodeIndex s i) k then v else - 1)"
proof -
  obtain m1 where m1: "SetMV_request c srv i k v = Inr m1" "sender m1 = c" "length (mdata m1) = 13"
    using request_ok [of 13 _ c srv]
    by (simp add: SetMV_request_def same_codec sender_def)
  obtain m2 where m2: "GetMV_request c' srv i k = Inr m2" "sender m2 = c'" "length (mdata m2) = 9"
    using request_ok [of 9 _ c' srv]
    by (simp add: GetMV_request_def same_codec sender_def)
  have r1: "wf_mail (delivered pad m1)" "mail_type (delivered pad m1) = SET_MV"
    "int_at (delivered pad m1) 1 = i" "int_at (delivered pad m1) 5 = k" "int_at (delivered pad m1) 9 = v"
    using requests_read(10) [OF assms(4-6), of c srv] m1 assms(7,8,11)
    unfolding reads_def by (auto simp: All_less_Suc numeral_3_eq_3)
  have r2: "wf_mail (delivered pad' m2)" "mail_type (delivered pad' m2) = GET_MV"
    "int_at (delivered pad' m2) 1 = i" "int_at (delivered pad' m2) 5 = k"
    using requests_read(9) [OF assms(4,5,6), of c' srv] m2 assms(9,10,12)
    unfolding reads_def by (auto simp: All_less_Suc numeral_2_eq_2)
  have sd: "sender (delivered pad m1) = c" "sender (delivered pad' m2) = c'"
    using m1(2) m2(2) by (simp_all add: sender_def)
  define x where "x = (if mv_entry s (decodeIndex s i) k then v else - 1)"
  obtain s1 s2 where h: "handle0 g (delivered pad m1) s = Some (Inr ([reply s (- 1) c], s1))"
    "handle0 g (delivered pad' m2) s1 = Some (Inr ([reply s x c'], s2))"
  proof -
    have d: "decodeMachineID (int_at (delivered pad m1) 1) = myMachineID s"
      "decodeMachineID (int_at (delivered pad' m2) 1) = myMachineID s" using r1(3) r2(3) assms(3) by simp_all
    have "x = (if \<exists>e. slots (mv_table s) (decodeIndex s i) = Some e \<and> 0 \<le> k \<and> k < numEntries e then v
      else case slots (mv_table s) (decodeIndex s i) of
        Some e \<Rightarrow> if 0 \<le> k \<and> k < numEntries e then the (mvEntries e) ! nat k else - 1 | None \<Rightarrow> - 1)"
      by (auto simp: x_def mv_entry_def simp del: slots_Some split: option.splits)
    then show ?thesis
      using that GET_MV_after_SET_MV [OF assms(1,2) r1(1) r2(1) r1(2) r2(2) d, of g]
      unfolding r1 r2 sd by (simp del: slots_Some) blast
  qed
  have "int32 x" using assms(6) by (simp add: x_def int32_def)
  then have "answer (reply s x c') = x" by (rule answer_reply)
  with h m1(1,2) m2(1,2) show ?thesis unfolding x_def [symmetric] by (simp add: conversation_def client_mail)
qed

lemma dispatch0_DESTROY_CV: "mail_type m = DESTROY_CV \<Longrightarrow> dispatch0 g m s = Some (on_DESTROY_CV m s)"
  by (simp add: dispatch0_def mail_type_def [symmetric] message_types)

theorem GetMV_after_SetMV_witness:
  "\<exists>s ack s1 r s2. conversation (\<lambda>_. 0) (replicate 27 0) (SetMV_request (5, 1) 0 0 1 77) s =
      Some (Inr (Some (ack, []), s1)) \<and>
    conversation (\<lambda>_. 0) (replicate 31 0) (GetMV_request (6, 2) 0 0 1) s1 = Some (Inr (Some (r, []), s2)) \<and>
    answer r = 77"
proof -
  obtain t where t: "wf_mvs t" "slots t = [0 \<mapsto> fresh_mv [67, 0] 2 9]" using sample_mv by blast
  let ?s = "start_server 0 1\<lparr>mv_table := t\<rparr>"
  have ok: "server_ok ?s" by (rule server_ok_upd(3) [OF start_server_ok t(1)])
  have d: "decodeMachineID 0 = myMachineID ?s" "decodeIndex ?s 0 = 0"
    by (simp_all add: decodeMachineID_def quot_def decodeIndex_def)
  then have "mv_entry ?s (decodeIndex ?s 0) 1" using t(2) by (simp add: mv_entry_def fresh_mv_def del: slots_Some)
  with GetMV_after_SetMV [OF ok _ d(1), of 1 77 "(5, 1)" "(6, 2)" "replicate 27 0" "replicate 31 0" "\<lambda>_. 0" 0]
  have "\<exists>ack s1 r s2. conversation (\<lambda>_. 0) (replicate 27 0) (SetMV_request (5, 1) 0 0 1 77) ?s =
      Some (Inr (Some (ack, []), s1)) \<and>
    conversation (\<lambda>_. 0) (replicate 31 0) (GetMV_request (6, 2) 0 0 1) s1 = Some (Inr (Some (r, []), s2)) \<and>
    answer r = 77" by (simp add: int32_def numBoxes_def)
  then show ?thesis by blast
qed

text \<open>
  a program that destroys a lock or a condition variable on its server never gets on. The server
  does what it is asked but sends no answer, and the call waits for one; the comment in the code says
  that it need not.
\<close>

lemma destroy_is_not_answered:
  assumes "server_ok s" "decodeMachineID i = myMachineID s" "int32 i" "0 \<le> snd c" "snd c < numBoxes"
    "length pad = 35"
  shows "(\<exists>s'. conversation g pad (DestroyLock_request c srv i) s = Some (Inr (None, s')) \<and> server_ok s') \<and>
    (\<exists>s'. conversation g pad (DestroyCondition_request c srv i) s = Some (Inr (None, s')) \<and> server_ok s')"
proof -
  obtain m where m: "DestroyLock_request c srv i = Inr m" "sender m = c" "length (mdata m) = 5"
    using request_ok [of 5 _ c srv] by (simp add: DestroyLock_request_def same_codec sender_def)
  obtain n where n: "DestroyCondition_request c srv i = Inr n" "sender n = c" "length (mdata n) = 5"
    using request_ok [of 5 _ c srv] by (simp add: DestroyCondition_request_def same_codec sender_def)
  have r: "wf_mail (delivered pad m)" "mail_type (delivered pad m) = DESTROY_LOCK" "int_at (delivered pad m) 1 = i"
    using requests_read(3) [OF assms(3,3,3), of c srv] m assms(4-6) unfolding reads_def by auto
  have q: "wf_mail (delivered pad n)" "mail_type (delivered pad n) = DESTROY_CV" "int_at (delivered pad n) 1 = i"
    using requests_read(4) [OF assms(3,3,3), of c srv] n assms(4-6) unfolding reads_def by auto
  obtain t where t: "on_DESTROY_LOCK (delivered pad m) s = Inr (False, [], s\<lparr>lock_table := t\<rparr>)"
      "server_ok (s\<lparr>lock_table := t\<rparr>)"
    using on_DESTROY_LOCK_ok [OF assms(1) r(1)] assms(2) r(3)
    by (auto simp: on_DESTROY_LOCK_def goes_well_def)
  obtain u where u: "on_DESTROY_CV (delivered pad n) s = Inr (False, [], s\<lparr>cond_table := u\<rparr>)"
      "server_ok (s\<lparr>cond_table := u\<rparr>)"
    using on_DESTROY_CV_ok [OF assms(1) q(1)] assms(2) q(3)
    by (auto simp: on_DESTROY_CV_def goes_well_def)
  have "dispatch0 g (delivered pad n) s = Some (on_DESTROY_CV (delivered pad n) s)"
    using q(2) by (rule dispatch0_DESTROY_CV)
  with t u r(2) m n show ?thesis
    by (simp add: conversation_def handle0_def dispatch0_lock_ops flush_def for_client_def)
qed

lemma destroy_is_not_answered_example:
  "\<exists>s'. conversation (\<lambda>_. 0) (replicate 35 0) (DestroyLock_request (5, 1) 0 3) (start_server 0 1) = Some (Inr (None, s'))"
  using destroy_is_not_answered [OF start_server_ok, of 3 0 1 "(5, 1)" "replicate 35 0" "\<lambda>_. 0" 0]
  by (auto simp: decodeMachineID_def quot_def int32_def numBoxes_def MAX_SERVER_def)

end
