(* ===== verification/Disk.thy ===== *)
theory Disk
  imports Interrupt_Properties
begin

text \<open>
  machine/disk.cc: a disk whose sectors are kept in a UNIX file, and filesys/synchdisk.cc: one
  request at a time, with the caller waiting for the interrupt that ends it. A read or a write of a
  sector is two steps of its thread, the second after the interrupt; \<open>None\<close> is a thread that has to wait.
\<close>

section \<open>UNIX files\<close>

text \<open>\<open>Lseek\<close> and then \<open>Read\<close> or \<open>WriteFile\<close> of machine/sysdep.cc: a short read fails an ASSERT, a write
  beyond the end fills the hole with zeroes.\<close>

definition unix_read :: "u8 list \<Rightarrow> nat \<Rightarrow> nat \<Rightarrow> u8 list result" where
  "unix_read f pos n =
     bind_result (ASSERT (length (take n (drop pos f)) = n)) (\<lambda>_. Inr (take n (drop pos f)))"

definition unix_write :: "u8 list \<Rightarrow> nat \<Rightarrow> u8 list \<Rightarrow> u8 list" where
  "unix_write f pos bs =
     take pos (f @ replicate (pos - length f) 0) @ bs @ drop (pos + length bs) f"

section \<open>State\<close>

datatype disk_handler = DiskDone

definition SectorSize :: int where "SectorSize = 128"
definition SectorsPerTrack :: int where "SectorsPerTrack = 32"
definition NumTracks :: int where "NumTracks = 32"
definition NumSectors :: int where "NumSectors = SectorsPerTrack * NumTracks"
definition RotationTime :: int where "RotationTime = 500"
definition SeekTime :: int where "SeekTime = 500"
definition MagicNumber :: u32 where "MagicNumber = 0x456789ab"
definition MagicSize :: int where "MagicSize = 4"
definition DiskSize :: int where "DiskSize = MagicSize + NumSectors * SectorSize"

lemmas disk_sizes = SectorSize_def SectorsPerTrack_def NumTracks_def NumSectors_def MagicSize_def DiskSize_def

text \<open>The disk, and the lock and the semaphore of the synchronous disk.\<close>

record disk = "disk_handler irq" +
  diskFile :: "u8 list"
  diskActive :: bool
  lastSector :: int
  bufferInit :: int
  numDiskReads :: int
  numDiskWrites :: int
  diskLocked :: bool
  diskDone :: nat

section \<open>The disk\<close>

text \<open>\<open>contents\<close> is the UNIX file with the disk's name, if there is one.\<close>

definition disk_file :: "u8 list option \<Rightarrow> u8 list result" where
  "disk_file contents =
     (case contents of
        Some f \<Rightarrow> bind_result (unix_read f 0 4) (\<lambda>magic.
          bind_result (ASSERT (le32 (magic ! 0) (magic ! 1) (magic ! 2) (magic ! 3) = MagicNumber)) (\<lambda>_. Inr f))
      | None \<Rightarrow>
          let f = unix_write [] 0 [byte_of MagicNumber 0, byte_of MagicNumber 1, byte_of MagicNumber 2, byte_of MagicNumber 3]
          in Inr (unix_write f (nat (DiskSize - 4)) [0, 0, 0, 0]))"

definition new_Disk :: "u8 list option \<Rightarrow> disk \<Rightarrow> disk result" where
  "new_Disk contents s =
     bind_result (disk_file contents) (\<lambda>f.
     Inr (s\<lparr>lastSector := 0, bufferInit := 0, diskFile := f, diskActive := False\<rparr>))"

text \<open>
  The tick counter is a 64-bit integer and the times of the disk are \<open>int\<close>s: \<open>to_int\<close> is the conversion,
  where the value may not fit, and the subtraction of two of them. All the other values fit.
\<close>

definition to_int :: "int \<Rightarrow> int" where
  "to_int x = sint (word_of_int x :: u32)"

definition TimeToSeek :: "int \<Rightarrow> disk \<Rightarrow> int \<times> int" where
  "TimeToSeek newSector s =
     (let newTrack = quot newSector SectorsPerTrack;
          oldTrack = quot (lastSector s) SectorsPerTrack;
          seek = to_int (\<bar>newTrack - oldTrack\<bar> * SeekTime);
          over = rem (totalTicks s + seek) RotationTime
      in (seek, if over > 0 then RotationTime - over else 0))"

definition ModuloDiff :: "int \<Rightarrow> int \<Rightarrow> int" where
  "ModuloDiff to from =
     rem ((rem to SectorsPerTrack - rem from SectorsPerTrack) + SectorsPerTrack) SectorsPerTrack"

definition ComputeLatency :: "int \<Rightarrow> bool \<Rightarrow> disk \<Rightarrow> int" where
  "ComputeLatency newSector writing s =
     (case TimeToSeek newSector s of (seek, rotation) \<Rightarrow>
      let timeAfter = to_int (totalTicks s + seek + rotation) in
      if \<not> writing \<and> seek = 0 \<and>
        quot (to_int (timeAfter - bufferInit s)) RotationTime > ModuloDiff newSector (quot (bufferInit s) RotationTime)
      then RotationTime
      else seek + (rotation + ModuloDiff newSector (quot timeAfter RotationTime) * RotationTime) + RotationTime)"

definition UpdateLast :: "int \<Rightarrow> disk \<Rightarrow> disk" where
  "UpdateLast newSector s =
     (case TimeToSeek newSector s of (seek, rotation) \<Rightarrow>
      let s1 = (if seek \<noteq> 0 then s\<lparr>bufferInit := to_int (totalTicks s + seek + rotation)\<rparr> else s)
      in s1\<lparr>lastSector := newSector\<rparr>)"

definition sector_pos :: "int \<Rightarrow> nat" where
  "sector_pos n = nat (SectorSize * n + MagicSize)"

text \<open>\<open>data\<close> of a write request is a buffer of the caller, of \<open>SectorSize\<close> bytes.\<close>

definition ReadRequest :: "int \<Rightarrow> disk \<Rightarrow> (u8 list \<times> disk) result" where
  "ReadRequest sectorNumber s =
     (let ticks = ComputeLatency sectorNumber False s in
      bind_result (ASSERT (\<not> diskActive s)) (\<lambda>_.
      bind_result (ASSERT (sectorNumber \<ge> 0 \<and> sectorNumber < NumSectors)) (\<lambda>_.
      bind_result (unix_read (diskFile s) (sector_pos sectorNumber) (nat SectorSize)) (\<lambda>bs.
      let s1 = UpdateLast sectorNumber (s\<lparr>diskActive := True\<rparr>) in
      bind_result (Schedule DiskDone 0 ticks DiskInt (s1\<lparr>numDiskReads := numDiskReads s + 1\<rparr>)) (\<lambda>s2.
      Inr (bs, s2))))))"

definition WriteRequest :: "int \<Rightarrow> u8 list \<Rightarrow> disk \<Rightarrow> disk result" where
  "WriteRequest sectorNumber bs s =
     (let ticks = ComputeLatency sectorNumber True s in
      bind_result (ASSERT (\<not> diskActive s)) (\<lambda>_.
      bind_result (ASSERT (sectorNumber \<ge> 0 \<and> sectorNumber < NumSectors)) (\<lambda>_.
      let s1 = UpdateLast sectorNumber
            (s\<lparr>diskFile := unix_write (diskFile s) (sector_pos sectorNumber) bs, diskActive := True\<rparr>)
      in Schedule DiskDone 0 ticks DiskInt (s1\<lparr>numDiskWrites := numDiskWrites s + 1\<rparr>))))"

section \<open>The synchronous disk\<close>

definition new_SynchDisk :: "u8 list option \<Rightarrow> disk \<Rightarrow> disk result" where
  "new_SynchDisk contents s = new_Disk contents (s\<lparr>diskLocked := False, diskDone := 0\<rparr>)"

text \<open>\<open>DiskDone\<close>: \<open>Disk::HandleInterrupt\<close>, which calls \<open>SynchDisk::RequestDone\<close>.\<close>

definition HandleInterrupt :: "disk \<Rightarrow> disk" where
  "HandleInterrupt s = s\<lparr>diskActive := False, diskDone := diskDone s + 1\<rparr>"

definition disk_run :: "disk_handler \<Rightarrow> int \<Rightarrow> disk \<Rightarrow> disk result" where
  "disk_run h a s = (case h of DiskDone \<Rightarrow> Inr (HandleInterrupt s))"

definition ReadSector_start :: "int \<Rightarrow> disk \<Rightarrow> (u8 list \<times> disk) result option" where
  "ReadSector_start n s =
     (if diskLocked s then None else Some (ReadRequest n (s\<lparr>diskLocked := True\<rparr>)))"

definition WriteSector_start :: "int \<Rightarrow> u8 list \<Rightarrow> disk \<Rightarrow> disk result option" where
  "WriteSector_start n bs s =
     (if diskLocked s then None else Some (WriteRequest n bs (s\<lparr>diskLocked := True\<rparr>)))"

text \<open>The rest of both: \<open>semaphore->P(); lock->Release()\<close>.\<close>

definition Sector_finish :: "disk \<Rightarrow> disk option" where
  "Sector_finish s =
     (if diskDone s = 0 then None else Some (s\<lparr>diskDone := diskDone s - 1, diskLocked := False\<rparr>))"

section \<open>What the file system sees\<close>

text \<open>
  For its caller, \<open>SynchDisk::ReadSector\<close> gives the bytes of the sector and \<open>WriteSector\<close> replaces them;
  lemmas \<open>ReadSector_start_ok\<close> and \<open>WriteSector_start_ok\<close> relate them to the steps above.
\<close>

definition ReadSector :: "u8 list \<Rightarrow> int \<Rightarrow> u8 list result" where
  "ReadSector f n =
     bind_result (ASSERT (n \<ge> 0 \<and> n < NumSectors)) (\<lambda>_. unix_read f (sector_pos n) (nat SectorSize))"

definition WriteSector :: "u8 list \<Rightarrow> int \<Rightarrow> u8 list \<Rightarrow> u8 list result" where
  "WriteSector f n bs =
     bind_result (ASSERT (n \<ge> 0 \<and> n < NumSectors)) (\<lambda>_. Inr (unix_write f (sector_pos n) bs))"

section \<open>Sectors of the file\<close>

definition sector :: "u8 list \<Rightarrow> int \<Rightarrow> u8 list" where
  "sector f n = take 128 (drop (sector_pos n) f)"

definition disk_file_ok :: "u8 list \<Rightarrow> bool" where
  "disk_file_ok f \<longleftrightarrow> int (length f) = DiskSize"

lemma sector_pos_bound: "0 \<le> n \<Longrightarrow> n < NumSectors \<Longrightarrow> sector_pos n + 128 \<le> nat DiskSize"
  by (simp add: sector_pos_def disk_sizes)

lemma sector_apart:
  "0 \<le> m \<Longrightarrow> 0 \<le> n \<Longrightarrow> m \<noteq> n \<Longrightarrow> sector_pos m + 128 \<le> sector_pos n \<or> sector_pos n + 128 \<le> sector_pos m"
  unfolding sector_pos_def disk_sizes by arith

lemma length_sector [simp]: "disk_file_ok f \<Longrightarrow> 0 \<le> n \<Longrightarrow> n < NumSectors \<Longrightarrow> length (sector f n) = 128"
  using sector_pos_bound [of n] by (simp add: sector_def disk_file_ok_def)

lemma ReadSector_ok [simp]:
  "disk_file_ok f \<Longrightarrow> 0 \<le> n \<Longrightarrow> n < NumSectors \<Longrightarrow> ReadSector f n = Inr (sector f n)"
  using length_sector [of f n] by (simp add: ReadSector_def unix_read_def SectorSize_def sector_def)

lemma WriteSector_ok:
  assumes "disk_file_ok f" "0 \<le> n" "n < NumSectors" "length bs = 128"
  shows "\<exists>f'. WriteSector f n bs = Inr f' \<and> disk_file_ok f' \<and> sector f' n = bs \<and>
    (\<forall>m. 0 \<le> m \<and> m \<noteq> n \<longrightarrow> sector f' m = sector f m)"
proof -
  let ?p = "sector_pos n"
  let ?f = "take ?p f @ bs @ drop (?p + 128) f"
  have l: "?p + 128 \<le> length f" using sector_pos_bound [OF assms(2,3)] assms(1) by (simp add: disk_file_ok_def)
  have "WriteSector f n bs = Inr ?f"
    using assms l by (simp add: WriteSector_def unix_write_def)
  moreover have "sector ?f m = sector f m" if "0 \<le> m" "m \<noteq> n" for m
    using sector_apart [OF that(1) assms(2) that(2)]
  proof
    assume "sector_pos m + 128 \<le> ?p"
    then obtain k where "?p = sector_pos m + 128 + k" using le_Suc_ex by blast
    then show ?thesis using l by (simp add: sector_def drop_take)
  next
    assume "?p + 128 \<le> sector_pos m"
    then show ?thesis using l assms(4) by (simp add: sector_def min_def)
  qed
  moreover have "sector ?f n = bs" using l assms(4) by (simp add: sector_def min_def)
  ultimately show ?thesis using assms(1,4) l by (auto simp: disk_file_ok_def)
qed

lemma range_fails:
  "\<not> (0 \<le> n \<and> n < NumSectors) \<Longrightarrow> ReadSector f n = Inl AssertFailed \<and> WriteSector f n bs = Inl AssertFailed"
  by (auto simp: ReadSector_def WriteSector_def ASSERT_def)

lemma new_disk_file: "\<exists>f. disk_file None = Inr f \<and> disk_file_ok f"
  by (simp add: disk_file_def unix_write_def Let_def disk_file_ok_def disk_sizes)

text \<open>A file that \<open>new_Disk\<close> accepts: it starts with the magic number, which no write of a sector touches.\<close>

definition formatted :: "u8 list \<Rightarrow> bool" where
  "formatted f \<longleftrightarrow> disk_file_ok f \<and> disk_file (Some f) = Inr f"

lemma formatted_write:
  assumes "formatted f" "0 \<le> n" "n < NumSectors" "length bs = 128"
  shows "\<exists>f'. WriteSector f n bs = Inr f' \<and> formatted f' \<and> sector f' n = bs \<and>
    (\<forall>m. 0 \<le> m \<and> m \<noteq> n \<longrightarrow> sector f' m = sector f m)"
proof -
  have ok: "disk_file_ok f" using assms(1) by (simp add: formatted_def)
  obtain f' where f': "WriteSector f n bs = Inr f'" "disk_file_ok f'" "sector f' n = bs"
    "\<forall>m. 0 \<le> m \<and> m \<noteq> n \<longrightarrow> sector f' m = sector f m"
    using WriteSector_ok [OF ok assms(2-4)] by blast
  have p: "4 \<le> sector_pos n" using assms(2) by (simp add: sector_pos_def disk_sizes)
  have l: "4 \<le> length f" using ok by (simp add: disk_file_ok_def disk_sizes)
  have "take 4 f' = take 4 f"
    using f'(1) assms(2,3) p l by (auto simp: WriteSector_def unix_write_def min_def)
  then have "disk_file (Some f') = Inr f'"
    using assms(1) by (auto simp: formatted_def disk_file_def unix_read_def ASSERT_def split: if_splits)
  with f' show ?thesis by (auto simp: formatted_def)
qed

lemma new_disk_formatted:
  assumes "disk_file contents = Inr f" "\<And>g. contents = Some g \<Longrightarrow> disk_file_ok g"
  shows "formatted f"
proof (cases contents)
  case None
  have m: "byte_of MagicNumber 0 = 0xab" "byte_of MagicNumber 1 = 0x89" "byte_of MagicNumber 2 = 0x67"
    "byte_of MagicNumber 3 = 0x45" "le32 0xab 0x89 0x67 0x45 = MagicNumber"
    by code_simp+
  from None assms(1) have "f = [0xab, 0x89, 0x67, 0x45] @ replicate 131068 0 @ [0, 0, 0, 0]"
    by (simp add: disk_file_def unix_write_def Let_def disk_sizes m m(2) [simplified])
  then show ?thesis
    by (simp add: formatted_def disk_file_ok_def disk_sizes disk_file_def unix_read_def m)
next
  case (Some g)
  then show ?thesis using assms by (auto simp: formatted_def disk_file_def)
qed

section \<open>How long a request takes\<close>

lemma rem_nonneg: "0 \<le> a \<Longrightarrow> 0 < b \<Longrightarrow> rem a b = a mod b"
  by (simp add: rem_def quot_nonneg minus_div_mult_eq_mod)

lemma rem_abs: "0 < b \<Longrightarrow> \<bar>rem a b\<bar> < b"
proof (cases "0 \<le> a")
  case False
  assume b: "0 < b"
  have "rem a b = - (\<bar>a\<bar> mod b)"
    using False b by (simp add: rem_def quot_def sgn_if minus_div_mult_eq_mod [symmetric])
  then show ?thesis using b by simp
qed (simp add: rem_nonneg)

lemma ModuloDiff_bounds:
  assumes "0 \<le> to"
  shows "0 \<le> ModuloDiff to from \<and> ModuloDiff to from < 32"
proof -
  have "\<bar>rem from 32\<bar> < 32" by (rule rem_abs) simp
  moreover have "0 \<le> rem to 32" using assms by (simp add: rem_nonneg)
  ultimately have "0 \<le> rem to 32 - rem from 32 + 32" by linarith
  then show ?thesis by (simp add: ModuloDiff_def SectorsPerTrack_def rem_nonneg)
qed

lemma TimeToSeek_bounds:
  assumes "0 \<le> n" "n < NumSectors" "0 \<le> lastSector s" "lastSector s < NumSectors" "TimeToSeek n s = (seek, rotation)"
  shows "0 \<le> seek \<and> seek \<le> 31 * SeekTime \<and> 0 \<le> rotation \<and> rotation < RotationTime"
proof -
  define a where "a = n div 32"
  define b where "b = lastSector s div 32"
  have ab: "0 \<le> a" "a < 32" "0 \<le> b" "b < 32" using assms by (auto simp: a_def b_def disk_sizes)
  then have "\<bar>a - b\<bar> \<le> 31" by linarith
  moreover have "seek = \<bar>a - b\<bar> * 500"
  proof -
    have "seek = to_int (\<bar>a - b\<bar> * 500)"
      using assms by (simp add: TimeToSeek_def Let_def SectorsPerTrack_def quot_nonneg SeekTime_def a_def b_def)
    also have "\<dots> = \<bar>a - b\<bar> * 500"
    proof -
      have "\<bar>a - b\<bar> * 500 < 2 ^ 31" using \<open>\<bar>a - b\<bar> \<le> 31\<close> by simp
      moreover have "- (2 ^ 31) \<le> \<bar>a - b\<bar> * 500" by (rule order_trans [of _ 0]) simp_all
      ultimately have "int32 (\<bar>a - b\<bar> * 500)" by (simp only: int32_def)
      then show ?thesis unfolding to_int_def by (rule sint_int32)
    qed
    finally show ?thesis .
  qed
  moreover have "rotation = (let over = rem (totalTicks s + seek) 500 in if over > 0 then 500 - over else 0)"
    using assms(5) by (auto simp: TimeToSeek_def Let_def RotationTime_def)
  moreover have "\<bar>rem (totalTicks s + seek) 500\<bar> < 500" by (rule rem_abs) simp
  ultimately show ?thesis by (auto simp: SeekTime_def RotationTime_def Let_def)
qed

lemma ComputeLatency_bounds:
  assumes "0 \<le> n" "n < NumSectors" "0 \<le> lastSector s" "lastSector s < NumSectors"
  shows "RotationTime \<le> ComputeLatency n w s \<and> ComputeLatency n w s < 31 * SeekTime + 33 * RotationTime"
proof -
  obtain seek rotation where t: "TimeToSeek n s = (seek, rotation)" by fastforce
  have m: "0 \<le> ModuloDiff n k \<and> ModuloDiff n k \<le> 31" for k using ModuloDiff_bounds [OF assms(1), of k] by simp
  show ?thesis
    using TimeToSeek_bounds [OF assms t] m [of "quot (to_int (totalTicks s + seek + rotation)) RotationTime"]
    by (auto simp: ComputeLatency_def t Let_def RotationTime_def SeekTime_def)
qed

section \<open>One request at a time\<close>

text \<open>While the lock is held, either the interrupt is to come or the semaphore has been raised.\<close>

definition synch_ok :: "disk \<Rightarrow> bool" where
  "synch_ok s \<longleftrightarrow> formatted (diskFile s) \<and> 0 \<le> lastSector s \<and> lastSector s < NumSectors \<and> load_ok s \<and>
     (\<forall>x\<in>set (pending s). itype (snd x) = DiskInt) \<and>
     length (pending s) + diskDone s = (if diskLocked s then 1 else 0) \<and>
     (diskActive s \<longleftrightarrow> pending s \<noteq> [])"

lemma synch_file: "synch_ok s \<Longrightarrow> disk_file_ok (diskFile s)"
  by (simp add: synch_ok_def formatted_def)

text \<open>A request has been made.\<close>

definition in_progress :: "disk \<Rightarrow> bool" where
  "in_progress s \<longleftrightarrow> synch_ok s \<and> diskLocked s \<and> diskActive s"

lemma UpdateLast_frame [simp]:
  "diskFile (UpdateLast n s) = diskFile s" "pending (UpdateLast n s) = pending s"
  "diskLocked (UpdateLast n s) = diskLocked s" "diskDone (UpdateLast n s) = diskDone s"
  "diskActive (UpdateLast n s) = diskActive s" "lastSector (UpdateLast n s) = n"
  "registers (UpdateLast n s) = registers s"
  by (simp_all add: UpdateLast_def Let_def split: prod.splits)

lemma synch_idle:
  "synch_ok s \<Longrightarrow> \<not> diskLocked s \<Longrightarrow> \<not> diskActive s \<and> pending s = [] \<and> diskDone s = 0"
  by (auto simp: synch_ok_def)

lemma latency_positive:
  "synch_ok s \<Longrightarrow> 0 \<le> n \<Longrightarrow> n < NumSectors \<Longrightarrow> 0 < ComputeLatency n w (s\<lparr>diskLocked := True\<rparr>)"
  using ComputeLatency_bounds [of n "s\<lparr>diskLocked := True\<rparr>" w]
  by (simp add: synch_ok_def RotationTime_def)

lemma ReadSector_start_ok:
  assumes "synch_ok s" "\<not> diskLocked s" "0 \<le> n" "n < NumSectors"
  shows "\<exists>t. ReadSector_start n s = Some (Inr (sector (diskFile s) n, t)) \<and> in_progress t \<and> diskFile t = diskFile s"
proof -
  have "unix_read (diskFile s) (sector_pos n) (nat SectorSize) = Inr (sector (diskFile s) n)"
    using ReadSector_ok [of "diskFile s" n] assms synch_file by (simp add: ReadSector_def)
  then show ?thesis
    using assms synch_idle [OF assms(1,2)] latency_positive [OF assms(1,3,4), of False]
    by (simp add: ReadSector_start_def ReadRequest_def Let_def Schedule_def in_progress_def synch_ok_def load_ok_def)
qed

lemma WriteSector_start_ok:
  assumes "synch_ok s" "\<not> diskLocked s" "0 \<le> n" "n < NumSectors" "length bs = 128"
  shows "\<exists>t. WriteSector_start n bs s = Some (Inr t) \<and> in_progress t \<and>
    WriteSector (diskFile s) n bs = Inr (diskFile t)"
proof -
  obtain f where "WriteSector (diskFile s) n bs = Inr f" "formatted f"
    using formatted_write [of "diskFile s" n bs] assms by (auto simp: synch_ok_def)
  then show ?thesis
    using assms synch_idle [OF assms(1,2)] latency_positive [OF assms(1,3,4), of True]
    by (simp add: WriteSector_start_def WriteRequest_def WriteSector_def Let_def Schedule_def in_progress_def
        synch_ok_def load_ok_def)
qed

lemma start_fails:
  assumes "synch_ok s" "\<not> diskLocked s" "\<not> (0 \<le> n \<and> n < NumSectors)"
  shows "ReadSector_start n s = Some (Inl AssertFailed) \<and> WriteSector_start n bs s = Some (Inl AssertFailed)"
  using assms synch_idle [OF assms(1,2)]
  by (auto simp: ReadSector_start_def WriteSector_start_def ReadRequest_def WriteRequest_def Let_def ASSERT_def)

interpretation disk_irq: interrupt_handlers disk_run
proof
  fix s s' :: disk and h a
  assume "irq_ok s" "level s = IntOff" "disk_run h a s = Inr s'"
  then show "handler_effect s s'"
    by (cases h) (auto simp: disk_run_def HandleInterrupt_def handler_effect_def irq_ok_def load_ok_def clock_ok_def
        same_clock_def)
qed

lemma fire_disk:
  assumes "load_ok s"
  shows "\<exists>t. fire disk_run p s = Inr t \<and> diskFile t = diskFile s \<and> lastSector t = lastSector s \<and>
    pending t = pending s \<and> diskLocked t = diskLocked s \<and> \<not> diskActive t \<and> diskDone t = diskDone s + 1 \<and> load_ok t"
  using assms
  by (cases "handler p") (simp add: fire_def disk_run_def HandleInterrupt_def load_ok_def DelayedLoad_def Let_def
      set_reg_def reg_numbers)

lemma CheckIfDue_disk:
  assumes "synch_ok s"
  shows "\<exists>b t. CheckIfDue disk_run adv (ChangeLevel IntOff s) = Inr (b, t) \<and> synch_ok t \<and>
    diskFile t = diskFile s \<and> diskLocked t = diskLocked s \<and> (adv \<and> diskActive s \<longrightarrow> b \<and> diskDone t = 1)"
proof (cases "pending s")
  case Nil
  then show ?thesis using assms
    by (intro exI [of _ False]) (simp add: CheckIfDue_def ChangeLevel_def synch_ok_def load_ok_def)
next
  case (Cons x q)
  obtain w p where x: "x = (w, p)" by (cases x)
  have s: "q = []" "diskLocked s" "diskDone s = 0" "diskActive s" "itype p = DiskInt"
    using assms Cons x by (auto simp: synch_ok_def split: if_splits)
  let ?s1 = "s\<lparr>level := IntOff, pending := []\<rparr>"
  define s2 where "s2 = (if adv then advance_to w ?s1 else ?s1)"
  have s2: "load_ok s2" "diskFile s2 = diskFile s" "lastSector s2 = lastSector s" "pending s2 = []"
    "diskLocked s2" "diskDone s2 = 0"
    using assms s by (simp_all add: s2_def advance_to_def synch_ok_def load_ok_def)
  obtain t where t: "fire disk_run p s2 = Inr t" "diskFile t = diskFile s2 \<and> lastSector t = lastSector s2 \<and>
    pending t = pending s2 \<and> diskLocked t = diskLocked s2 \<and> \<not> diskActive t \<and> diskDone t = diskDone s2 + 1 \<and> load_ok t"
    using fire_disk [OF s2(1)] by blast
  have ok: "synch_ok t" using t(2) s2 assms by (simp add: synch_ok_def)
  show ?thesis
  proof (cases "\<not> adv \<and> w > totalTicks s")
    case True
    then show ?thesis using assms Cons x s
      by (intro exI [of _ False]) (simp add: CheckIfDue_def ChangeLevel_def synch_ok_def load_ok_def)
  next
    case False
    then have "CheckIfDue disk_run adv (ChangeLevel IntOff s) = Inr (True, t)"
      using Cons x s t(1) by (auto simp: CheckIfDue_def ChangeLevel_def s2_def)
    then show ?thesis using ok t(2) s2 s by (intro exI [of _ True] exI [of _ t]) simp
  qed
qed

lemma Sector_finish_ok:
  "synch_ok s \<Longrightarrow> Sector_finish s = Some t \<Longrightarrow> synch_ok t \<and> \<not> diskLocked t \<and> diskFile t = diskFile s"
  by (cases "pending s") (auto simp: Sector_finish_def synch_ok_def load_ok_def split: if_splits)

section \<open>Everything that can happen to the disk\<close>

datatype disk_event = Read_sector int | Write_sector int "u8 list" | Request_finish | Look_at_clock bool

fun disk_step :: "disk_event \<Rightarrow> disk \<Rightarrow> disk result option" where
  "disk_step (Read_sector n) s = map_option (map_sum id snd) (ReadSector_start n s)"
| "disk_step (Write_sector n bs) s = WriteSector_start n bs s"
| "disk_step Request_finish s = map_option Inr (Sector_finish s)"
| "disk_step (Look_at_clock adv) s = Some (map_sum id snd (CheckIfDue disk_run adv (ChangeLevel IntOff s)))"

fun good_event :: "disk_event \<Rightarrow> bool" where
  "good_event (Write_sector n bs) \<longleftrightarrow> length bs = 128"
| "good_event _ \<longleftrightarrow> True"

text \<open>From a new disk, on a new file or one that has the size of a disk.\<close>

inductive disk_reachable :: "disk \<Rightarrow> bool" where
  start: "new_SynchDisk contents s0 = Inr s \<Longrightarrow> (\<And>f. contents = Some f \<Longrightarrow> disk_file_ok f) \<Longrightarrow>
    load_ok s0 \<Longrightarrow> pending s0 = [] \<Longrightarrow> disk_reachable s"
| step: "disk_reachable s \<Longrightarrow> good_event e \<Longrightarrow> disk_step e s = Some (Inr t) \<Longrightarrow> disk_reachable t"

lemma disk_step_ok:
  assumes "synch_ok s" "good_event e" "disk_step e s = Some (Inr t)"
  shows "synch_ok t"
proof (cases e)
  case (Read_sector n)
  then have r: "\<not> diskLocked s" using assms(3) by (auto simp: ReadSector_start_def split: if_splits)
  then have "0 \<le> n \<and> n < NumSectors"
    using start_fails [OF assms(1) r, of n "[]"] assms(3) Read_sector by (cases "0 \<le> n \<and> n < NumSectors") auto
  then obtain u where "ReadSector_start n s = Some (Inr (sector (diskFile s) n, u))" "in_progress u"
    using ReadSector_start_ok [OF assms(1) r] by blast
  then show ?thesis using assms(3) Read_sector by (simp add: in_progress_def)
next
  case (Write_sector n bs)
  then have r: "\<not> diskLocked s" using assms(3) by (auto simp: WriteSector_start_def split: if_splits)
  then have "0 \<le> n \<and> n < NumSectors"
    using start_fails [OF assms(1) r, of n bs] assms(3) Write_sector by (cases "0 \<le> n \<and> n < NumSectors") auto
  then obtain u where "WriteSector_start n bs s = Some (Inr u)" "in_progress u"
    using WriteSector_start_ok [OF assms(1) r, of n bs] assms(2) Write_sector by auto
  then show ?thesis using assms(3) Write_sector by (simp add: in_progress_def)
next
  case Request_finish
  then have "Sector_finish s = Some t" using assms(3) by auto
  then show ?thesis using Sector_finish_ok [OF assms(1)] by blast
next
  case (Look_at_clock adv)
  then show ?thesis using assms(3) CheckIfDue_disk [OF assms(1), of adv] by auto
qed

lemma disk_reachable_ok: "disk_reachable s \<Longrightarrow> synch_ok s"
proof (induction rule: disk_reachable.induct)
  case (start contents s0 s)
  then obtain f where "disk_file contents = Inr f" "formatted f"
    using new_disk_formatted by (auto simp: new_SynchDisk_def new_Disk_def)
  then show ?case using start
    by (auto simp: new_SynchDisk_def new_Disk_def synch_ok_def load_ok_def NumSectors_def SectorsPerTrack_def NumTracks_def)
next
  case (step s e t)
  then show ?case using disk_step_ok by blast
qed

text \<open>The request that is in progress ends at the next interrupt, and the lock is free.\<close>

definition completes :: "disk \<Rightarrow> bool" where
  "completes s \<longleftrightarrow> (\<exists>u v. CheckIfDue disk_run True (ChangeLevel IntOff s) = Inr (True, u) \<and>
     Sector_finish s = None \<and> Sector_finish u = Some v \<and> \<not> diskLocked v \<and> diskFile v = diskFile s)"

lemma in_progress_completes: "in_progress s \<Longrightarrow> completes s"
proof -
  assume "in_progress s"
  then have s: "synch_ok s" "diskLocked s" "diskActive s" by (simp_all add: in_progress_def)
  then have "diskDone s = 0" by (cases "pending s") (auto simp: synch_ok_def)
  moreover obtain u where u: "CheckIfDue disk_run True (ChangeLevel IntOff s) = Inr (True, u)"
    "diskFile u = diskFile s" "diskDone u = 1"
    using CheckIfDue_disk [OF s(1), of True] s(3) by auto
  ultimately show ?thesis
    unfolding completes_def
    by (intro exI [of _ u] exI [of _ "u\<lparr>diskDone := 0, diskLocked := False\<rparr>"]) (simp add: Sector_finish_def)
qed

text \<open>The array of sectors that the disk holds.\<close>

definition sectors :: "disk \<Rightarrow> int \<Rightarrow> u8 list option" where
  "sectors s n = (if 0 \<le> n \<and> n < 1024 then Some (sector (diskFile s) n) else None)"

text \<open>
  C24: the synchronous disk is an array of 1024 sectors of 128 bytes. However the calls of the threads
  and the interrupts are interleaved since the disk was opened, on a new file or on one of a disk, two
  requests never overlap (the ASSERT of the disk does not fail) and every latency is positive. While the
  lock is held both calls wait. Otherwise, for a sector of the disk, a read gives the value of the array
  there and changes nothing, and a write of 128 bytes changes the array there and nowhere else; for any
  other number an ASSERT fails. The interrupt that lets the caller go on does come and frees the lock, and
  the file can still be opened as a disk, with the same sectors.
\<close>

theorem synchdisk_serves_one_request:
  assumes "disk_reachable s" "length bs = 128"
  shows "if diskLocked s then ReadSector_start n s = None \<and> WriteSector_start n bs s = None
    else if 0 \<le> n \<and> n < 1024 then
      (\<exists>t x. sectors s n = Some x \<and> length x = 128 \<and> ReadSector_start n s = Some (Inr (x, t)) \<and>
         sectors t = sectors s \<and> completes t \<and> disk_file (Some (diskFile t)) = Inr (diskFile t)) \<and>
      (\<exists>t. WriteSector_start n bs s = Some (Inr t) \<and> sectors t = (sectors s)(n \<mapsto> bs) \<and> completes t \<and>
         disk_file (Some (diskFile t)) = Inr (diskFile t))
    else ReadSector_start n s = Some (Inl AssertFailed) \<and> WriteSector_start n bs s = Some (Inl AssertFailed)"
proof (cases "diskLocked s")
  case True
  then show ?thesis by (simp add: ReadSector_start_def WriteSector_start_def)
next
  case False
  note ok = disk_reachable_ok [OF assms(1)]
  have N: "NumSectors = 1024" by (simp add: disk_sizes)
  show ?thesis
  proof (cases "0 \<le> n \<and> n < NumSectors")
    case True
    then have n: "0 \<le> n" "n < NumSectors" by simp_all
    from ok have f: "formatted (diskFile s)" by (simp add: synch_ok_def)
    obtain t where t: "ReadSector_start n s = Some (Inr (sector (diskFile s) n, t))" "in_progress t"
      "diskFile t = diskFile s"
      using ReadSector_start_ok [OF ok False n] by blast
    obtain u where u: "WriteSector_start n bs s = Some (Inr u)" "in_progress u"
      "WriteSector (diskFile s) n bs = Inr (diskFile u)"
      using WriteSector_start_ok [OF ok False n assms(2)] by blast
    have "formatted (diskFile u)" and v: "sector (diskFile u) n = bs"
      "\<And>m. 0 \<le> m \<Longrightarrow> m \<noteq> n \<Longrightarrow> sector (diskFile u) m = sector (diskFile s) m"
      using formatted_write [OF f n assms(2)] u(3) by auto
    moreover have "sectors u = (sectors s)(n \<mapsto> bs)"
      using v n N by (auto simp: sectors_def fun_eq_iff)
    moreover have "sectors t = sectors s" using t(3) by (simp add: sectors_def fun_eq_iff)
    moreover have "sectors s n = Some (sector (diskFile s) n)" "length (sector (diskFile s) n) = 128"
      using n N synch_file [OF ok] by (simp_all add: sectors_def)
    ultimately show ?thesis
      using False n N t u f in_progress_completes by (simp add: formatted_def)
  next
    case out: False
    then show ?thesis using False N start_fails [OF ok False, of n bs] by simp
  qed
qed

definition blank_disk :: disk where
  "blank_disk =
     \<lparr>mainMemory = (\<lambda>_. 0), registers = (\<lambda>_. 0), tlb = None, pageTable = None, pageTableSize = 0,
      lastUsed = (\<lambda>_. 0), totalTicks = 1234, mode = SystemMode, level = IntOn, pending = [], inHandler = False,
      yieldOnReturn = False, idleTicks = 0, systemTicks = 1234, userTicks = 0,
      diskFile = [], diskActive = True, lastSector = 0, bufferInit = 0, numDiskReads = 0, numDiskWrites = 0,
      diskLocked = True, diskDone = 0\<rparr>"

text \<open>A write of the last sector, to its end, and then reads of this sector and of another.\<close>

theorem synchdisk_serves_one_request_witness:
  "\<exists>s t v x y. new_SynchDisk None blank_disk = Inr s \<and> \<not> diskLocked s \<and>
    WriteSector_start 1023 (replicate 128 7) s = Some (Inr t) \<and> disk_reachable t \<and> diskLocked t \<and>
    ReadSector_start 5 t = None \<and> disk_reachable v \<and> \<not> diskLocked v \<and>
    ReadSector_start 1023 v = Some (Inr (replicate 128 7, x)) \<and>
    ReadSector_start 5 v = Some (Inr (sector (diskFile s) 5, y)) \<and>
    ReadSector_start 1024 v = Some (Inl AssertFailed)"
proof -
  let ?b = "replicate 128 (7 :: u8)"
  obtain s where s: "new_SynchDisk None blank_disk = Inr s" "\<not> diskLocked s"
    using new_disk_file by (auto simp: new_SynchDisk_def new_Disk_def)
  have r: "disk_reachable s"
    by (rule disk_reachable.start [OF s(1)]) (simp_all add: blank_disk_def load_ok_def NumTotalRegs_def)
  obtain t where t: "WriteSector_start 1023 ?b s = Some (Inr t)" "completes t" "sectors t = (sectors s)(1023 \<mapsto> ?b)"
    using synchdisk_serves_one_request [OF r, of ?b 1023] s(2) by auto
  have rt: "disk_reachable t" by (rule disk_reachable.step [OF r, of "Write_sector 1023 ?b"]) (simp_all add: t(1))
  have lt: "diskLocked t"
    using WriteSector_start_ok [OF disk_reachable_ok [OF r] s(2), of 1023 ?b] t(1)
    by (auto simp: in_progress_def disk_sizes)
  obtain u v where uv: "CheckIfDue disk_run True (ChangeLevel IntOff t) = Inr (True, u)" "Sector_finish u = Some v"
    "\<not> diskLocked v" "diskFile v = diskFile t"
    using t(2) by (auto simp: completes_def)
  have ru: "disk_reachable u" by (rule disk_reachable.step [OF rt, of "Look_at_clock True"]) (simp_all add: uv(1))
  have rv: "disk_reachable v" by (rule disk_reachable.step [OF ru, of Request_finish]) (simp_all add: uv(2))
  have "sectors v = sectors t" using uv(4) by (simp add: sectors_def fun_eq_iff)
  then have sv: "sectors v = (sectors s)(1023 \<mapsto> ?b)" using t(3) by simp
  have "ReadSector_start 5 t = None" using synchdisk_serves_one_request [OF rt, of ?b 5] lt by simp
  moreover obtain x where "ReadSector_start 1023 v = Some (Inr (?b, x))"
    using synchdisk_serves_one_request [OF rv, of ?b 1023] uv(3) sv by auto
  moreover obtain y where "ReadSector_start 5 v = Some (Inr (sector (diskFile s) 5, y))"
    using synchdisk_serves_one_request [OF rv, of ?b 5] uv(3) sv by (auto simp: sectors_def [of s])
  moreover have "ReadSector_start 1024 v = Some (Inl AssertFailed)"
    using synchdisk_serves_one_request [OF rv, of ?b 1024] uv(3) by auto
  ultimately show ?thesis using s t(1) rt lt rv uv(3) by blast
qed

end
