(* ===== verification/Open_File.thy ===== *)
theory Open_File
  imports Disk Bit_Map Host_Bytes
begin

text \<open>
  filesys/filehdr.cc and filesys/openfile.cc: a file is a header in one sector, with the numbers of
  the sectors of its data, and a position. The disk is the bytes of its UNIX file (theory Disk), which
  \<open>ReadSector\<close> and \<open>WriteSector\<close> read and write. What the caller passes as a buffer is a list.
\<close>

section \<open>File headers\<close>

definition NumDirect :: int where "NumDirect = quot (SectorSize - 2 * 4) 4"
definition MaxFileSize :: int where "MaxFileSize = NumDirect * SectorSize"

record FileHeader =
  numBytes :: int
  numSectors :: int
  dataSectors :: "int list"      \<comment> \<open>an array of \<open>NumDirect\<close> numbers\<close>

text \<open>The header as the bytes of its sector, \<open>(char *)this\<close>.\<close>

definition header_image :: "FileHeader \<Rightarrow> u8 list" where
  "header_image h = int_bytes (numBytes h) @ int_bytes (numSectors h) @ ints_bytes (dataSectors h)"

definition header_from :: "u8 list \<Rightarrow> FileHeader" where
  "header_from bs =
     \<lparr>numBytes = sint (word_at bs 0), numSectors = sint (word_at bs 4), dataSectors = ints_of 30 (drop 8 bs)\<rparr>"

text \<open>\<open>divRoundUp\<close> of an \<open>int\<close> that may be negative.\<close>

definition div_round_up :: "int \<Rightarrow> int \<Rightarrow> int" where
  "div_round_up n s = quot n s + (if rem n s > 0 then 1 else 0)"

definition Allocate :: "FileHeader \<Rightarrow> BitMap \<Rightarrow> int \<Rightarrow> (bool \<times> FileHeader \<times> BitMap) result" where
  "Allocate h freeMap fileSize =
     (let h1 = h\<lparr>numBytes := fileSize, numSectors := div_round_up fileSize SectorSize\<rparr> in
      bind_result (NumClear freeMap) (\<lambda>n.
      if n < numSectors h1 then Inr (False, h1, freeMap)
      else bind_result (for_loop 0 (numSectors h1)
          (\<lambda>i (hd, m). bind_result (Find m) (\<lambda>(k, m'). bind_result (array_set (dataSectors hd) i k) (\<lambda>ds.
             Inr (hd\<lparr>dataSectors := ds\<rparr>, m')))) (h1, freeMap)) (\<lambda>(h2, m2).
        Inr (True, h2, m2))))"

definition Deallocate :: "FileHeader \<Rightarrow> BitMap \<Rightarrow> BitMap result" where
  "Deallocate h freeMap = for_loop 0 (numSectors h)
     (\<lambda>i m. bind_result (array_get (dataSectors h) i) (\<lambda>k.
        bind_result (Test m k) (\<lambda>t. bind_result (ASSERT t) (\<lambda>_. Clear m k)))) freeMap"

definition Header_FetchFrom :: "int \<Rightarrow> u8 list \<Rightarrow> FileHeader result" where
  "Header_FetchFrom sectorNumber d = bind_result (ReadSector d sectorNumber) (\<lambda>bs. Inr (header_from bs))"

definition Header_WriteBack :: "FileHeader \<Rightarrow> int \<Rightarrow> u8 list \<Rightarrow> u8 list result" where
  "Header_WriteBack h sectorNumber d = WriteSector d sectorNumber (header_image h)"

definition ByteToSector :: "FileHeader \<Rightarrow> int \<Rightarrow> int result" where
  "ByteToSector h offset = array_get (dataSectors h) (quot offset SectorSize)"

definition FileLength :: "FileHeader \<Rightarrow> int" where
  "FileLength h = numBytes h"

section \<open>Open files\<close>

record OpenFile =
  ohdr :: FileHeader
  seekPosition :: int

definition new_OpenFile :: "int \<Rightarrow> u8 list \<Rightarrow> OpenFile result" where
  "new_OpenFile sectorNumber d =
     bind_result (Header_FetchFrom sectorNumber d) (\<lambda>h. Inr \<lparr>ohdr = h, seekPosition = 0\<rparr>)"

text \<open>\<open>bcopy\<close> from and into the middle of a buffer.\<close>

definition slice :: "u8 list \<Rightarrow> int \<Rightarrow> int \<Rightarrow> u8 list result" where
  "slice buf off n =
     (if 0 \<le> off \<and> 0 \<le> n \<and> off + n \<le> int (length buf) then Inr (take (nat n) (drop (nat off) buf)) else Inl OutOfBounds)"

definition overlay :: "u8 list \<Rightarrow> int \<Rightarrow> u8 list \<Rightarrow> u8 list result" where
  "overlay buf off bs =
     (if 0 \<le> off \<and> off + int (length bs) \<le> int (length buf)
      then Inr (take (nat off) buf @ bs @ drop (nat off + length bs) buf) else Inl OutOfBounds)"

text \<open>\<open>ReadAt\<close> gives the bytes it copies; their number is what it returns.\<close>

definition read_sectors :: "FileHeader \<Rightarrow> int \<Rightarrow> int \<Rightarrow> u8 list \<Rightarrow> u8 list result" where
  "read_sectors h lo hi d = for_loop lo (hi + 1)
     (\<lambda>i buf. bind_result (ByteToSector h (i * SectorSize)) (\<lambda>k.
        bind_result (ReadSector d k) (\<lambda>bs. Inr (buf @ bs)))) []"

definition ReadAt :: "FileHeader \<Rightarrow> int \<Rightarrow> int \<Rightarrow> u8 list \<Rightarrow> u8 list result" where
  "ReadAt h numB position d =
     (let fileLength = FileLength h in
      if numB \<le> 0 \<or> position \<ge> fileLength then Inr []
      else
        let n = (if position + numB > fileLength then fileLength - position else numB);
            firstS = quot position SectorSize;
            lastS = quot (position + n - 1) SectorSize
        in bind_result (read_sectors h firstS lastS d) (\<lambda>buf. slice buf (position - firstS * SectorSize) n))"

text \<open>\<open>garbage\<close> is what the new buffer holds.\<close>

definition write_sectors :: "FileHeader \<Rightarrow> int \<Rightarrow> int \<Rightarrow> u8 list \<Rightarrow> u8 list \<Rightarrow> u8 list result" where
  "write_sectors h lo hi buf d = for_loop lo (hi + 1)
     (\<lambda>i d1. bind_result (ByteToSector h (i * SectorSize)) (\<lambda>k.
        bind_result (slice buf ((i - lo) * SectorSize) SectorSize) (\<lambda>bs. WriteSector d1 k bs))) d"

definition WriteAt :: "(nat \<Rightarrow> u8) \<Rightarrow> FileHeader \<Rightarrow> u8 list \<Rightarrow> int \<Rightarrow> int \<Rightarrow> u8 list \<Rightarrow> (int \<times> u8 list) result" where
  "WriteAt garbage h source numB position d =
     (let fileLength = FileLength h in
      if numB \<le> 0 \<or> position \<ge> fileLength then Inr (0, d)
      else
        let n = (if position + numB > fileLength then fileLength - position else numB);
            firstS = quot position SectorSize;
            lastS = quot (position + n - 1) SectorSize;
            buf = map garbage [0..<nat ((1 + lastS - firstS) * SectorSize)];
            firstAligned = (position = firstS * SectorSize);
            lastAligned = (position + n = (lastS + 1) * SectorSize)
        in
          bind_result (if \<not> firstAligned
            then bind_result (ReadAt h SectorSize (firstS * SectorSize) d) (overlay buf 0) else Inr buf) (\<lambda>buf1.
          bind_result (if \<not> lastAligned \<and> (firstS \<noteq> lastS \<or> firstAligned)
            then bind_result (ReadAt h SectorSize (lastS * SectorSize) d) (overlay buf1 ((lastS - firstS) * SectorSize))
            else Inr buf1) (\<lambda>buf2.
          bind_result (slice source 0 n) (\<lambda>bs.
          bind_result (overlay buf2 (position - firstS * SectorSize) bs) (\<lambda>buf3.
          bind_result (write_sectors h firstS lastS buf3 d) (\<lambda>d1. Inr (n, d1)))))))"

definition Seek :: "OpenFile \<Rightarrow> int \<Rightarrow> OpenFile" where
  "Seek file position = file\<lparr>seekPosition := position\<rparr>"

definition File_Read :: "OpenFile \<Rightarrow> int \<Rightarrow> u8 list \<Rightarrow> (u8 list \<times> OpenFile) result" where
  "File_Read file numB d =
     bind_result (ReadAt (ohdr file) numB (seekPosition file) d) (\<lambda>bs.
     Inr (bs, file\<lparr>seekPosition := seekPosition file + int (length bs)\<rparr>))"

definition File_Write :: "(nat \<Rightarrow> u8) \<Rightarrow> OpenFile \<Rightarrow> u8 list \<Rightarrow> int \<Rightarrow> u8 list \<Rightarrow> (int \<times> OpenFile \<times> u8 list) result" where
  "File_Write garbage file source numB d =
     bind_result (WriteAt garbage (ohdr file) source numB (seekPosition file) d) (\<lambda>(n, d1).
     Inr (n, file\<lparr>seekPosition := seekPosition file + n\<rparr>, d1))"

definition File_Length :: "OpenFile \<Rightarrow> int" where
  "File_Length file = FileLength (ohdr file)"

section \<open>The bytes of a file\<close>

definition file_sectors :: "FileHeader \<Rightarrow> int list" where
  "file_sectors h = take (nat (numSectors h)) (dataSectors h)"

definition header_ok :: "FileHeader \<Rightarrow> bool" where
  "header_ok h \<longleftrightarrow> 0 \<le> numBytes h \<and> numSectors h = divRoundUp (numBytes h) 128 \<and> numSectors h \<le> 30 \<and>
     length (dataSectors h) = 30 \<and> (\<forall>x\<in>set (dataSectors h). int32 x) \<and>
     set (file_sectors h) \<subseteq> {0..<NumSectors} \<and> distinct (file_sectors h)"

definition file_raw :: "FileHeader \<Rightarrow> u8 list \<Rightarrow> u8 list" where
  "file_raw h d = concat (map (sector d) (file_sectors h))"

definition contents :: "FileHeader \<Rightarrow> u8 list \<Rightarrow> u8 list" where
  "contents h d = take (nat (numBytes h)) (file_raw h d)"

lemma length_window:
  "0 \<le> k \<Longrightarrow> 0 \<le> m \<Longrightarrow> m + k \<le> int (length xs) \<Longrightarrow> int (length (take (nat k) (drop (nat m) xs))) = k"
  by simp

lemma slice_window:
  assumes "0 \<le> a" "a \<le> p" "0 \<le> m" "p + m \<le> a + k" "a + k \<le> int (length xs)"
  shows "slice (take (nat k) (drop (nat a) xs)) (p - a) m = Inr (take (nat m) (drop (nat p) xs))"
proof -
  have "int (length (take (nat k) (drop (nat a) xs))) = k" using assms by (intro length_window) simp_all
  moreover have "nat m \<le> nat k - nat (p - a)" "nat (p - a) + nat a = nat p" using assms by simp_all
  ultimately show ?thesis using assms by (simp add: slice_def drop_take min_def)
qed

text \<open>Chunks of equal length.\<close>

lemma length_chunks: "(\<forall>x\<in>set xs. length (g x) = n) \<Longrightarrow> length (concat (map g xs)) = n * length xs"
  by (induction xs) simp_all

lemma nth_chunks:
  "(\<forall>x\<in>set xs. length (g x) = n) \<Longrightarrow> j < n * length xs \<Longrightarrow> concat (map g xs) ! j = g (xs ! (j div n)) ! (j mod n)"
proof (induction xs arbitrary: j)
  case (Cons x xs)
  show ?case
  proof (cases "j < n")
    case True
    then show ?thesis using Cons.prems by (simp add: nth_append)
  next
    case False
    have "0 < n" using Cons.prems(2) by (cases n) simp_all
    then have "j div n = Suc ((j - n) div n)" "j mod n = (j - n) mod n"
      using False by (simp_all add: le_div_geq le_mod_geq)
    then show ?thesis using Cons False by (simp add: nth_append)
  qed
qed simp

lemma chunk_at:
  assumes "\<forall>x\<in>set xs. length (g x) = n" "i < length xs"
  shows "take n (drop (n * i) (concat (map g xs))) = g (xs ! i)"
proof -
  have "concat (map g xs) = concat (map g (take i xs @ xs ! i # drop (Suc i) xs))"
    using id_take_nth_drop [OF assms(2)] by (rule arg_cong)
  then have "concat (map g xs) = concat (map g (take i xs)) @ g (xs ! i) @ concat (map g (drop (Suc i) xs))"
    by simp
  moreover have "length (concat (map g (take i xs))) = n * i"
    using assms(2) length_chunks [of "take i xs" g n] assms(1) by (auto dest: in_set_takeD)
  moreover have "length (g (xs ! i)) = n" using assms by simp
  ultimately show ?thesis by simp
qed

lemma header_facts:
  assumes "header_ok h"
  shows "0 \<le> numBytes h" "0 \<le> numSectors h" "numSectors h \<le> 30" "length (dataSectors h) = 30"
    "int (length (file_sectors h)) = numSectors h" "numBytes h \<le> 128 * numSectors h"
    "distinct (file_sectors h)" "\<And>x. x \<in> set (file_sectors h) \<Longrightarrow> 0 \<le> x \<and> x < NumSectors"
    "\<And>i. 0 \<le> i \<Longrightarrow> i < numSectors h \<Longrightarrow> dataSectors h ! nat i = file_sectors h ! nat i"
    "numBytes h \<le> MaxFileSize"
proof -
  show n: "0 \<le> numBytes h" "numSectors h \<le> 30" "length (dataSectors h) = 30" using assms by (simp_all add: header_ok_def)
  show s: "0 \<le> numSectors h" using assms divRoundUp_nonneg [of "numBytes h" 128] by (simp add: header_ok_def)
  show "int (length (file_sectors h)) = numSectors h" using n s by (simp add: file_sectors_def)
  show b: "numBytes h \<le> 128 * numSectors h" using assms divRoundUp_lower [of 128 "numBytes h"] by (simp add: header_ok_def)
  show "distinct (file_sectors h)" "\<And>x. x \<in> set (file_sectors h) \<Longrightarrow> 0 \<le> x \<and> x < NumSectors"
    using assms by (auto simp: header_ok_def)
  show "\<And>i. 0 \<le> i \<Longrightarrow> i < numSectors h \<Longrightarrow> dataSectors h ! nat i = file_sectors h ! nat i"
    by (simp add: file_sectors_def)
  show "numBytes h \<le> MaxFileSize" using b n by (simp add: MaxFileSize_def NumDirect_def SectorSize_def quot_nonneg)
qed

lemma sectors_length: "header_ok h \<Longrightarrow> disk_file_ok d \<Longrightarrow> \<forall>x\<in>set (file_sectors h). length (sector d x) = 128"
  using header_facts(8) by auto

lemma length_file_raw: "header_ok h \<Longrightarrow> disk_file_ok d \<Longrightarrow> length (file_raw h d) = 128 * nat (numSectors h)"
  using length_chunks [OF sectors_length] header_facts(5) [of h] by (simp add: file_raw_def)

lemma length_contents: "header_ok h \<Longrightarrow> disk_file_ok d \<Longrightarrow> int (length (contents h d)) = numBytes h"
  using length_file_raw [of h d] header_facts(1,6) [of h] by (simp add: contents_def)

lemma ByteToSector_ok:
  assumes "header_ok h" "0 \<le> i" "i < numSectors h"
  shows "ByteToSector h (i * SectorSize) = Inr (file_sectors h ! nat i)" "file_sectors h ! nat i \<in> set (file_sectors h)"
proof -
  show "ByteToSector h (i * SectorSize) = Inr (file_sectors h ! nat i)"
    using assms header_facts [OF assms(1)] by (simp add: ByteToSector_def SectorSize_def quot_nonneg)
  show "file_sectors h ! nat i \<in> set (file_sectors h)"
    using assms header_facts(5) [OF assms(1)] by (simp add: nat_less_iff)
qed

lemma read_sectors_ok:
  assumes "header_ok h" "disk_file_ok d" "0 \<le> lo" "lo \<le> hi" "hi < numSectors h"
  shows "read_sectors h lo hi d = Inr (take (nat (128 * (hi + 1 - lo))) (drop (nat (128 * lo)) (file_raw h d)))"
proof -
  let ?b = "\<lambda>i. take (nat (128 * (i - lo))) (drop (nat (128 * lo)) (file_raw h d))"
  have "\<exists>buf. read_sectors h lo hi d = Inr buf \<and> buf = ?b (hi + 1)"
    unfolding read_sectors_def
  proof (rule for_loop_rule [where I = "\<lambda>i buf. buf = ?b i"])
    fix i buf assume i: "lo \<le> i" "i < hi + 1" "buf = ?b i"
    note B = ByteToSector_ok [OF assms(1), of i]
    have "take 128 (drop (128 * nat i) (file_raw h d)) = sector d (file_sectors h ! nat i)"
      using chunk_at [OF sectors_length [OF assms(1,2)], of "nat i"] header_facts(5) [OF assms(1)] i assms
      by (simp add: file_raw_def nat_less_iff)
    moreover have "nat (128 * (i + 1 - lo)) = nat (128 * (i - lo)) + 128" "128 * nat i = nat (128 * (i - lo)) + nat (128 * lo)"
      using i assms by simp_all
    ultimately have "buf @ sector d (file_sectors h ! nat i) = ?b (i + 1)"
      using i(3) by (simp only: take_add drop_drop)
    moreover have "ReadSector d (file_sectors h ! nat i) = Inr (sector d (file_sectors h ! nat i))"
      using B i assms header_facts(8) [OF assms(1)] by simp
    ultimately show "\<exists>buf'. bind_result (ByteToSector h (i * SectorSize)) (\<lambda>k. bind_result (ReadSector d k) (\<lambda>bs. Inr (buf @ bs))) =
        Inr buf' \<and> buf' = ?b (i + 1)"
      using B(1) i assms by simp
  qed (use assms in simp_all)
  then show ?thesis by blast
qed

text \<open>The sectors that a request for bytes of a file touches.\<close>

lemma request_sectors:
  assumes "header_ok h" "0 \<le> p" "0 < n" "p + n \<le> numBytes h"
  shows "0 \<le> p div 128" "p div 128 \<le> (p + n - 1) div 128" "(p + n - 1) div 128 < numSectors h"
    "128 * (p div 128) \<le> p" "p + n \<le> 128 * ((p + n - 1) div 128 + 1)"
proof -
  have "(p + n - 1) div 128 * 128 \<le> p + n - 1" by simp
  then show "(p + n - 1) div 128 < numSectors h" using header_facts(6) [OF assms(1)] assms(4) by linarith
  show "p div 128 \<le> (p + n - 1) div 128" using assms by (intro zdiv_mono1) simp_all
qed (use assms in simp_all)

lemma ReadAt_ok:
  assumes "header_ok h" "disk_file_ok d" "0 \<le> p"
  shows "ReadAt h n p d = Inr (take (nat n) (drop (nat p) (contents h d)))"
proof (cases "n \<le> 0 \<or> p \<ge> numBytes h")
  case True
  then show ?thesis using length_contents [OF assms(1,2)] by (auto simp: ReadAt_def FileLength_def)
next
  case False
  define m where "m = (if p + n > numBytes h then numBytes h - p else n)"
  have m: "0 < m" "p + m \<le> numBytes h" "m \<le> n" using False by (auto simp: m_def)
  note r = request_sectors [OF assms(1,3) m(1,2)]
  obtain a z where az: "p div 128 = a" "(p + m - 1) div 128 = z" by simp
  note r = r [unfolded az]
  have q: "quot p SectorSize = a" "quot (p + m - 1) SectorSize = z"
    using assms(3) m(1) az by (simp_all add: quot_nonneg SectorSize_def)
  have "ReadAt h n p d = bind_result (read_sectors h a z d) (\<lambda>buf. slice buf (p - a * SectorSize) m)"
    using False q by (simp add: ReadAt_def FileLength_def Let_def m_def)
  also have "\<dots> = slice (take (nat (128 * (z + 1 - a))) (drop (nat (128 * a)) (file_raw h d))) (p - 128 * a) m"
    using read_sectors_ok [OF assms(1,2) r(1,2,3)] by (simp add: SectorSize_def mult.commute)
  also have "\<dots> = Inr (take (nat m) (drop (nat p) (file_raw h d)))"
    using length_file_raw [OF assms(1,2)] r m header_facts(2) [OF assms(1)] by (intro slice_window) simp_all
  also have "take (nat m) (drop (nat p) (file_raw h d)) = take (nat n) (drop (nat p) (contents h d))"
  proof -
    have "take (nat n) (drop (nat p) (contents h d)) = take (min (nat n) (nat (numBytes h) - nat p)) (drop (nat p) (file_raw h d))"
      by (simp add: contents_def drop_take min.commute)
    moreover have "min (nat n) (nat (numBytes h) - nat p) = nat m" using False assms(3) by (auto simp: m_def min_def)
    ultimately show ?thesis by simp
  qed
  finally show ?thesis .
qed

section \<open>Writing\<close>

lemma write_one:
  assumes "header_ok h" "disk_file_ok d" "i < length (file_sectors h)" "length bs = 128"
  shows "\<exists>d'. WriteSector d (file_sectors h ! i) bs = Inr d' \<and> disk_file_ok d' \<and>
    (\<forall>x. 0 \<le> x \<and> x \<noteq> file_sectors h ! i \<longrightarrow> sector d' x = sector d x) \<and>
    file_raw h d' = take (128 * i) (file_raw h d) @ bs @ drop (128 * Suc i) (file_raw h d)"
proof -
  let ?xs = "file_sectors h"
  let ?x = "?xs ! i"
  have "?x \<in> set ?xs" using assms(3) by simp
  then obtain d' where d': "WriteSector d ?x bs = Inr d'" "disk_file_ok d'" "sector d' ?x = bs"
    "\<forall>m. 0 \<le> m \<and> m \<noteq> ?x \<longrightarrow> sector d' m = sector d m"
    using WriteSector_ok [OF assms(2) _ _ assms(4)] header_facts(8) [OF assms(1)] by blast
  have split: "?xs = take i ?xs @ ?x # drop (Suc i) ?xs" by (rule id_take_nth_drop [OF assms(3)])
  have "distinct (take i ?xs @ ?x # drop (Suc i) ?xs)" using header_facts(7) [OF assms(1)] split by metis
  then have out: "?x \<notin> set (take i ?xs)" "?x \<notin> set (drop (Suc i) ?xs)" by auto
  have same: "map (sector d') ys = map (sector d) ys" if "set ys \<subseteq> set ?xs" "?x \<notin> set ys" for ys
    using that d'(4) header_facts(8) [OF assms(1)] by auto
  have l: "length (concat (map (sector d) (take i ?xs))) = 128 * i"
    using length_chunks [of "take i ?xs" "sector d" 128] sectors_length [OF assms(1,2)] assms(3)
    by (auto dest: in_set_takeD)
  have l1: "length (sector d ?x) = 128" using sectors_length [OF assms(1,2)] assms(3) by simp
  have raw: "file_raw h d = concat (map (sector d) (take i ?xs)) @ sector d ?x @ concat (map (sector d) (drop (Suc i) ?xs))"
    unfolding file_raw_def by (subst split) simp
  have "file_raw h d' = concat (map (sector d') (take i ?xs)) @ bs @ concat (map (sector d') (drop (Suc i) ?xs))"
    unfolding file_raw_def d'(3) [symmetric] by (subst split) simp
  also have "\<dots> = concat (map (sector d) (take i ?xs)) @ bs @ concat (map (sector d) (drop (Suc i) ?xs))"
    by (simp only: same [OF set_take_subset out(1)] same [OF set_drop_subset out(2)])
  also have "\<dots> = take (128 * i) (file_raw h d) @ bs @ drop (128 * Suc i) (file_raw h d)"
    using l l1 by (simp add: raw)
  finally show ?thesis using d' by blast
qed

lemma write_sectors_ok:
  assumes "header_ok h" "disk_file_ok d" "lo \<le> hi" "hi < length (file_sectors h)" "length buf = 128 * (hi + 1 - lo)"
  shows "\<exists>d'. write_sectors h (int lo) (int hi) buf d = Inr d' \<and> disk_file_ok d' \<and>
    (\<forall>x. 0 \<le> x \<and> x \<notin> set (file_sectors h) \<longrightarrow> sector d' x = sector d x) \<and>
    file_raw h d' = take (128 * lo) (file_raw h d) @ buf @ drop (128 * (hi + 1)) (file_raw h d)"
proof -
  define raw where "raw = file_raw h d"
  have raw: "length raw = 128 * length (file_sectors h)"
    using length_chunks [OF sectors_length [OF assms(1,2)]] by (simp add: raw_def file_raw_def)
  let ?I = "\<lambda>i d'. disk_file_ok d' \<and> (\<forall>x. 0 \<le> x \<and> x \<notin> set (file_sectors h) \<longrightarrow> sector d' x = sector d x) \<and>
    file_raw h d' = take (128 * lo) raw @ take (128 * (nat i - lo)) buf @ drop (128 * nat i) raw"
  have "\<exists>d'. write_sectors h (int lo) (int hi) buf d = Inr d' \<and> ?I (int hi + 1) d'"
    unfolding write_sectors_def
  proof (rule for_loop_rule [where I = ?I])
    show "?I (int lo) d" using assms(2) by (simp add: raw_def)
    show "int lo \<le> int hi + 1" using assms(3) by simp
  next
    fix j d1 assume j: "int lo \<le> j" "j < int hi + 1" and I: "?I j d1"
    obtain k where k: "j = int k" "lo \<le> k" "k \<le> hi" using j by (metis nat_int nat_le_iff nonneg_int_cases of_nat_0_le_iff of_nat_le_iff order_trans zle_add1_eq_le)
    let ?bs = "take 128 (drop (128 * (k - lo)) buf)"
    have kl: "k < length (file_sectors h)" using k assms(4) by simp
    have "128 * (k - lo) + 128 \<le> length buf" using k assms(5) by simp
    then have bs: "length ?bs = 128" "slice buf ((j - int lo) * SectorSize) SectorSize = Inr ?bs"
      using k by (simp_all add: slice_def SectorSize_def nat_mult_distrib mult.commute flip: of_nat_diff)
    have B: "ByteToSector h (j * SectorSize) = Inr (file_sectors h ! k)"
      using ByteToSector_ok(1) [OF assms(1), of j] k kl header_facts(5) [OF assms(1)] by simp
    obtain d2 where d2: "WriteSector d1 (file_sectors h ! k) ?bs = Inr d2" "disk_file_ok d2"
      "\<forall>x. 0 \<le> x \<and> x \<noteq> file_sectors h ! k \<longrightarrow> sector d2 x = sector d1 x"
      "file_raw h d2 = take (128 * k) (file_raw h d1) @ ?bs @ drop (128 * Suc k) (file_raw h d1)"
      using write_one [OF assms(1) _ kl bs(1), of d1] I by blast
    have fr: "file_raw h d1 = take (128 * lo) raw @ take (128 * (k - lo)) buf @ drop (128 * k) raw" using I k by simp
    have l: "length (take (128 * lo) raw) = 128 * lo" "length (take (128 * (k - lo)) buf) = 128 * (k - lo)"
      using raw kl k assms(5) by simp_all
    have "file_raw h d2 = take (128 * lo) raw @ (take (128 * (k - lo)) buf @ ?bs) @ drop (128 * Suc k) raw"
    proof -
      obtain e where e: "k = lo + e" using k(2) le_Suc_ex by blast
      show ?thesis unfolding d2(4) fr using l unfolding e by (simp add: algebra_simps)
    qed
    moreover have "take (128 * (k - lo)) buf @ ?bs = take (128 * (Suc k - lo)) buf"
      using take_add [of "128 * (k - lo)" 128 buf] k by (simp add: Suc_diff_le add.commute)
    ultimately have "file_raw h d2 = take (128 * lo) raw @ take (128 * (Suc k - lo)) buf @ drop (128 * Suc k) raw"
      by simp
    moreover have "file_sectors h ! k \<in> set (file_sectors h)" using kl by simp
    ultimately have "?I (j + 1) d2" using d2(2,3) I k by (auto simp: nat_add_distrib)
    then show "\<exists>d'. bind_result (ByteToSector h (j * SectorSize)) (\<lambda>k.
        bind_result (slice buf ((j - int lo) * SectorSize) SectorSize) (WriteSector d1 k)) = Inr d' \<and> ?I (j + 1) d'"
      using B bs(2) d2(1) by simp
  qed
  then obtain d' where "write_sectors h (int lo) (int hi) buf d = Inr d'" "?I (int hi + 1) d'" by blast
  moreover have "nat (int hi + 1) = hi + 1" by simp
  ultimately show ?thesis using assms(3,5) by (intro exI [of _ d']) (simp add: raw_def)
qed

lemma overlay_ok:
  assumes "off + length bs \<le> length buf"
  shows "\<exists>r. overlay buf (int off) bs = Inr r \<and> length r = length buf \<and>
    (\<forall>j<length buf. r ! j = (if off \<le> j \<and> j < off + length bs then bs ! (j - off) else buf ! j))"
  using assms by (auto simp: overlay_def nth_append)

text \<open>
  The buffer of \<open>WriteAt\<close> before the new bytes are copied in: around them it holds the bytes of the
  file, in the sectors that are only partly overwritten. \<open>A\<close> and \<open>Z\<close> are the first and the last sector.
\<close>

lemma edges_ok:
  fixes A Z P M :: nat
  assumes h: "header_ok h" "disk_file_ok d" and L: "P + M \<le> nat (numBytes h)"
    and A: "128 * A \<le> P" "P < 128 * A + 128" "A \<le> Z" "128 * Z < P + M" "P + M \<le> 128 * Z + 128"
    and buf: "length buf = 128 * (Z + 1 - A)"
  shows "\<exists>buf1 buf2.
    (if P \<noteq> 128 * A then bind_result (ReadAt h 128 (int (128 * A)) d) (overlay buf 0) else Inr buf) = Inr buf1 \<and>
    (if P + M \<noteq> 128 * Z + 128 \<and> (A \<noteq> Z \<or> P = 128 * A)
     then bind_result (ReadAt h 128 (int (128 * Z)) d) (overlay buf1 (int (128 * (Z - A)))) else Inr buf1) = Inr buf2 \<and>
    length buf2 = 128 * (Z + 1 - A) \<and>
    (\<forall>j<128 * (Z + 1 - A). 128 * A + j < nat (numBytes h) \<and> (128 * A + j < P \<or> P + M \<le> 128 * A + j) \<longrightarrow>
       buf2 ! j = contents h d ! (128 * A + j))"
proof -
  define c where "c = contents h d"
  have lc: "length c = nat (numBytes h)" using length_contents [OF h] by (simp add: c_def)
  have rd: "ReadAt h 128 (128 * int S) d = Inr (take 128 (drop (128 * S) c))" for S
    using ReadAt_ok [OF h, of "128 * int S" 128] by (simp add: c_def nat_mult_distrib)
  obtain e where e: "Z = A + e" using A(3) le_Suc_ex by blast
  have K: "length buf = 128 * e + 128" using buf e by simp
  have "\<exists>buf1. (if P \<noteq> 128 * A then bind_result (ReadAt h 128 (int (128 * A)) d) (overlay buf 0) else Inr buf) = Inr buf1 \<and>
    length buf1 = length buf \<and> (\<forall>j<128. P \<noteq> 128 * A \<and> 128 * A + j < length c \<longrightarrow> buf1 ! j = c ! (128 * A + j))"
  proof (cases "P = 128 * A")
    case False
    have "0 + length (take 128 (drop (128 * A) c)) \<le> length buf" using K by simp
    from overlay_ok [OF this] obtain r where r: "overlay buf 0 (take 128 (drop (128 * A) c)) = Inr r"
      "length r = length buf" "\<And>j. j < length buf \<Longrightarrow> j < length (take 128 (drop (128 * A) c)) \<Longrightarrow>
        r ! j = take 128 (drop (128 * A) c) ! j" by auto
    then show ?thesis using False K by (intro exI [of _ r]) (simp add: rd less_diff_conv2)
  qed simp
  then obtain buf1 where b1: "(if P \<noteq> 128 * A then bind_result (ReadAt h 128 (int (128 * A)) d) (overlay buf 0) else Inr buf) = Inr buf1"
    "length buf1 = length buf" "\<And>j. j < 128 \<Longrightarrow> P \<noteq> 128 * A \<Longrightarrow> 128 * A + j < length c \<Longrightarrow> buf1 ! j = c ! (128 * A + j)"
    by blast
  let ?c2 = "P + M \<noteq> 128 * Z + 128 \<and> (A \<noteq> Z \<or> P = 128 * A)"
  have "\<exists>buf2. (if ?c2 then bind_result (ReadAt h 128 (int (128 * Z)) d) (overlay buf1 (int (128 * (Z - A)))) else Inr buf1) = Inr buf2 \<and>
    length buf2 = length buf \<and> (\<forall>j<128 * e. buf2 ! j = buf1 ! j) \<and> (\<not> ?c2 \<longrightarrow> buf2 = buf1) \<and>
    (\<forall>j. ?c2 \<and> 128 * e \<le> j \<and> j < 128 * e + 128 \<and> 128 * A + j < length c \<longrightarrow> buf2 ! j = c ! (128 * A + j))"
  proof (cases ?c2)
    case True
    have "Z - A = e" using e by simp
    then obtain r where r: "overlay buf1 (int (128 * (Z - A))) (take 128 (drop (128 * Z) c)) = Inr r"
      "length r = length buf" "\<forall>j<length buf. r ! j =
        (if 128 * e \<le> j \<and> j < 128 * e + length (take 128 (drop (128 * Z) c)) then take 128 (drop (128 * Z) c) ! (j - 128 * e) else buf1 ! j)"
      using overlay_ok [of "128 * e" "take 128 (drop (128 * Z) c)" buf1] K b1(2) by auto
    have "r ! j = c ! (128 * A + j)" if jj: "128 * e \<le> j" "j < 128 * e + 128" "128 * A + j < length c" for j
    proof -
      obtain i where i: "j = 128 * e + i" using le_Suc_ex [OF jj(1)] by blast
      have "128 * Z + i < length c" and "i < 128" using jj(2,3) unfolding i e by simp_all
      moreover have "j - 128 * e = i" unfolding i by simp
      ultimately have "j - 128 * e < length c - 128 * Z \<and> j - 128 * e < 128" by linarith
      then have l: "j - 128 * e < length (take 128 (drop (128 * Z) c))" by simp
      then have "j < 128 * e + length (take 128 (drop (128 * Z) c))" using jj(1) by linarith
      then have "r ! j = take 128 (drop (128 * Z) c) ! (j - 128 * e)" using r(3) jj K by simp
      also have "\<dots> = c ! (128 * Z + (j - 128 * e))"
      proof -
        have "128 * Z \<le> length c" using \<open>128 * Z + i < length c\<close> by linarith
        then show ?thesis using l by (simp add: nth_drop)
      qed
      finally show ?thesis using jj(1) e by simp
    qed
    moreover have "\<forall>j<128 * e. r ! j = buf1 ! j" using r(3) K by simp
    ultimately show ?thesis using True r(1,2) by (simp add: rd del: take_all)
  next
    case False
    then have "(if ?c2 then x else Inr buf1) = Inr buf1" for x :: "u8 list result" by (rule if_not_P)
    then show ?thesis using False b1(2) by blast
  qed
  then obtain buf2 where b2: "(if ?c2 then bind_result (ReadAt h 128 (int (128 * Z)) d) (overlay buf1 (int (128 * (Z - A)))) else Inr buf1) = Inr buf2"
    "length buf2 = length buf" "\<And>j. j < 128 * e \<Longrightarrow> buf2 ! j = buf1 ! j" "\<not> ?c2 \<Longrightarrow> buf2 = buf1"
    "\<And>j. ?c2 \<Longrightarrow> 128 * e \<le> j \<Longrightarrow> j < 128 * e + 128 \<Longrightarrow> 128 * A + j < length c \<Longrightarrow> buf2 ! j = c ! (128 * A + j)"
    by blast
  have "buf2 ! j = c ! (128 * A + j)"
    if j: "j < 128 * e + 128" "128 * A + j < length c" and o: "128 * A + j < P \<or> P + M \<le> 128 * A + j" for j
  proof (cases "128 * A + j < P")
    case True
    then have p: "P \<noteq> 128 * A" "j < 128" using A(2) by auto
    show ?thesis
    proof (cases "128 * e \<le> j")
      case True
      then have "e = 0" using p(2) by simp
      then have "\<not> ?c2" using e p(1) by simp
      then show ?thesis using b2(4) b1(3) p j(2) by simp
    next
      case False
      then show ?thesis using b2(3) b1(3) p j(2) by simp
    qed
  next
    case False
    then have q: "P + M \<le> 128 * A + j" using o by simp
    then have w: "P + M \<noteq> 128 * Z + 128" "128 * e \<le> j" using j A(4) e by auto
    show ?thesis
    proof (cases "A \<noteq> Z \<or> P = 128 * A")
      case True
      then show ?thesis using b2(5) w j by simp
    next
      case False
      then have "e = 0" "\<not> ?c2" using e by simp_all
      then show ?thesis using b2(4) b1(3) False j by simp
    qed
  qed
  then show ?thesis using b1(1) b2(1,2) K buf lc unfolding c_def by (intro exI [of _ buf1] exI [of _ buf2]) (simp add: e)
qed

lemma WriteAt_nat:
  fixes P M :: nat
  assumes h: "header_ok h" "disk_file_ok d" and M: "0 < M" "P + M \<le> nat (numBytes h)" "M \<le> length source"
    and n: "int M = (if int P + numB > numBytes h then numBytes h - int P else numB)" "0 < numB"
  shows "\<exists>d'. WriteAt garbage h source numB (int P) d = Inr (int M, d') \<and> disk_file_ok d' \<and>
    (\<forall>x. 0 \<le> x \<and> x \<notin> set (file_sectors h) \<longrightarrow> sector d' x = sector d x) \<and>
    contents h d' = take P (contents h d) @ take M source @ drop (P + M) (contents h d)"
proof -
  define A where "A = P div 128"
  define Z where "Z = (P + M - 1) div 128"
  define c where "c = contents h d"
  define L where "L = nat (numBytes h)"
  have lc: "length c = L" using length_contents [OF h] by (simp add: c_def L_def)
  have AZ: "128 * A \<le> P" "P < 128 * A + 128" "128 * Z < P + M" "P + M \<le> 128 * Z + 128"
    using M(1) unfolding A_def Z_def by linarith+
  have "A \<le> Z" unfolding A_def Z_def using M(1) by (intro div_le_mono) simp
  have rawl: "length (file_raw h d) = 128 * length (file_sectors h)"
    using length_chunks [OF sectors_length [OF h]] by (simp add: file_raw_def)
  have LS: "L \<le> 128 * length (file_sectors h)"
    using header_facts(5,6) [OF h(1)] by (simp add: L_def)
  then have Zl: "Z < length (file_sectors h)" using AZ(3) M(2) L_def by linarith
  define K where "K = 128 * (Z + 1 - A)"
  let ?buf = "map garbage [0..<K]"
  let ?fa = "P \<noteq> 128 * A" and ?la = "P + M \<noteq> 128 * Z + 128 \<and> (A \<noteq> Z \<or> P = 128 * A)"
  obtain buf1 buf2 where b:
    "(if ?fa then bind_result (ReadAt h 128 (int (128 * A)) d) (overlay ?buf 0) else Inr ?buf) = Inr buf1"
    "(if ?la then bind_result (ReadAt h 128 (int (128 * Z)) d) (overlay buf1 (int (128 * (Z - A)))) else Inr buf1) = Inr buf2"
    "length buf2 = K"
    "\<And>j. j < K \<Longrightarrow> 128 * A + j < L \<Longrightarrow> 128 * A + j < P \<or> P + M \<le> 128 * A + j \<Longrightarrow> buf2 ! j = c ! (128 * A + j)"
    using edges_ok [OF h M(2) AZ(1,2) \<open>A \<le> Z\<close> AZ(3,4), of ?buf] by (auto simp: K_def c_def L_def)
  have PA: "P - 128 * A + M \<le> K" using AZ \<open>A \<le> Z\<close> by (simp add: K_def)
  obtain buf3 where b3: "overlay buf2 (int (P - 128 * A)) (take M source) = Inr buf3" "length buf3 = K"
    "\<And>j. j < K \<Longrightarrow> buf3 ! j = (if P - 128 * A \<le> j \<and> j < P - 128 * A + M then source ! (j - (P - 128 * A)) else buf2 ! j)"
  proof -
    have l: "length (take M source) = M" "P - 128 * A + length (take M source) \<le> length buf2" using b(3) M(3) PA by simp_all
    show thesis using overlay_ok [OF l(2)] that b(3) unfolding l(1) by (auto simp: less_diff_conv2)
  qed
  obtain d' where d': "write_sectors h (int A) (int Z) buf3 d = Inr d'" "disk_file_ok d'"
    "\<forall>x. 0 \<le> x \<and> x \<notin> set (file_sectors h) \<longrightarrow> sector d' x = sector d x"
    "file_raw h d' = take (128 * A) (file_raw h d) @ buf3 @ drop (128 * (Z + 1)) (file_raw h d)"
    using write_sectors_ok [OF h \<open>A \<le> Z\<close> Zl b3(2) [unfolded K_def]] by blast
  have idx: "quot (int P) SectorSize = int A" "quot (int P + int M - 1) SectorSize = int Z"
  proof -
    have "int P + int M - 1 = int (P + M - 1)" using M(1) by simp
    then have "quot (int P + int M - 1) SectorSize = int (P + M - 1) div 128"
      by (simp only: SectorSize_def) (rule quot_nonneg, simp_all only: of_nat_0_le_iff zero_less_numeral)
    then show "quot (int P + int M - 1) SectorSize = int Z" unfolding Z_def zdiv_int by simp
    show "quot (int P) SectorSize = int A" by (simp add: quot_nonneg SectorSize_def A_def zdiv_int)
  qed
  have cv: "nat ((1 + int Z - int A) * 128) = K" "(int P = int (128 * A)) = (P = 128 * A)"
    "(int P + int M = (int Z + 1) * 128) = (P + M = 128 * Z + 128)" "(int Z - int A) * 128 = int (128 * (Z - A))"
    "int P - int (128 * A) = int (P - 128 * A)" "int A * 128 = int (128 * A)" "int Z * 128 = int (128 * Z)"
    "(int A = int Z) = (A = Z)"
  proof -
    show "(int P + int M = (int Z + 1) * 128) = (P + M = 128 * Z + 128)" by presburger
    show "(int P = int (128 * A)) = (P = 128 * A)" by (rule of_nat_eq_iff)
  qed (use \<open>A \<le> Z\<close> AZ(1) in \<open>simp_all add: K_def of_nat_diff\<close>)
  have "slice source 0 (int M) = Inr (take M source)" using M(3) by (simp add: slice_def)
  moreover have "(numB \<le> 0 \<or> int P \<ge> numBytes h) = False" using n(2) M(1,2) by simp
  ultimately have w: "WriteAt garbage h source numB (int P) d = Inr (int M, d')"
    unfolding WriteAt_def Let_def FileLength_def n(1) [symmetric] idx
    unfolding SectorSize_def cv by (simp only: b(1,2) b3(1) d'(1) bind_result.simps if_False)
  moreover have "contents h d' = take P c @ take M source @ drop (P + M) c"
  proof (rule nth_equalityI)
    have l': "length (contents h d') = L" using length_contents [OF h(1) d'(2)] by (simp add: L_def)
    show "length (contents h d') = length (take P c @ take M source @ drop (P + M) c)"
      using l' lc M(2,3) by (simp add: L_def)
    fix j assume "j < length (contents h d')"
    then have j: "j < L" using l' by simp
    have cj: "c ! i = file_raw h d ! i" if "i < L" for i using that by (simp add: c_def contents_def L_def)
    have "contents h d' ! j = file_raw h d' ! j" using j by (simp add: contents_def L_def)
    also have "\<dots> = (if j < 128 * A then c ! j else if j - 128 * A < K then buf3 ! (j - 128 * A) else c ! j)"
    proof -
      have "128 * A \<le> length (file_raw h d)" using rawl \<open>A \<le> Z\<close> Zl by simp
      moreover have "128 * (Z + 1) + (j - 128 * A - K) = j" if "\<not> j < 128 * A" "\<not> j - 128 * A < K"
        using that \<open>A \<le> Z\<close> by (simp add: K_def)
      moreover have "128 * (Z + 1) \<le> length (file_raw h d)" using rawl Zl by simp
      ultimately show ?thesis unfolding d'(4) using b3(2) cj [OF j] by (simp add: nth_append min_def)
    qed
    also have "\<dots> = (take P c @ take M source @ drop (P + M) c) ! j"
    proof -
      have "P + (j - P) = j" if "P \<le> j" using that by simp
      then show ?thesis
        using b3(3) [of "j - 128 * A"] b(4) [of "j - 128 * A"] j lc AZ(1) M(2,3) PA
        by (auto simp: nth_append L_def min_def not_less diff_diff_eq)
    qed
    finally show "contents h d' ! j = (take P c @ take M source @ drop (P + M) c) ! j" .
  qed
  ultimately show ?thesis using d' by (auto simp: c_def)
qed

lemma WriteAt_ok:
  assumes "header_ok h" "disk_file_ok d" "0 \<le> p" "n \<le> int (length source)"
  defines "m \<equiv> nat (min n (numBytes h - p))"
  shows "\<exists>d'. WriteAt garbage h source n p d = Inr (int m, d') \<and> disk_file_ok d' \<and>
    (\<forall>x. 0 \<le> x \<and> x \<notin> set (file_sectors h) \<longrightarrow> sector d' x = sector d x) \<and>
    contents h d' = take (nat p) (contents h d) @ take m source @ drop (nat p + m) (contents h d)"
proof (cases "n \<le> 0 \<or> p \<ge> numBytes h")
  case True
  then have "m = 0" by (auto simp: m_def)
  then show ?thesis using True assms(2) by (auto simp: WriteAt_def FileLength_def)
next
  case False
  have "m \<le> length source" "0 < m" "nat p + m \<le> nat (numBytes h)" "int (nat p) = p"
    "int m = (if p + n > numBytes h then numBytes h - p else n)"
    using False assms(3,4) by (auto simp: m_def)
  moreover from this have "int m = (if int (nat p) + n > numBytes h then numBytes h - int (nat p) else n)" by simp
  ultimately show ?thesis using WriteAt_nat [OF assms(1,2), of m "nat p" source n garbage] False by (metis not_le)
qed

section \<open>The interface of a file\<close>

text \<open>
  A file is an array of bytes of a fixed length: a read gives the bytes that there are, a write
  replaces them. The bitmap and the directory of the file system are stored through this interface.
\<close>

locale byte_file =
  fixes inv :: "'d \<Rightarrow> bool"
    and bytes :: "'d \<Rightarrow> u8 list"
    and rd :: "int \<Rightarrow> int \<Rightarrow> 'd \<Rightarrow> u8 list result"
    and wr :: "u8 list \<Rightarrow> int \<Rightarrow> int \<Rightarrow> 'd \<Rightarrow> (int \<times> 'd) result"
  assumes rd_ok: "inv d \<Longrightarrow> 0 \<le> p \<Longrightarrow> rd n p d = Inr (take (nat n) (drop (nat p) (bytes d)))"
    and wr_ok: "inv d \<Longrightarrow> 0 \<le> p \<Longrightarrow> n \<le> int (length source) \<Longrightarrow> m = nat (min n (int (length (bytes d)) - p)) \<Longrightarrow>
      \<exists>d'. wr source n p d = Inr (int m, d') \<and> inv d' \<and>
        bytes d' = take (nat p) (bytes d) @ take m source @ drop (nat p + m) (bytes d)"
begin

lemma store_prefix:
  assumes "inv d" "length source \<le> length (bytes d)"
  shows "\<exists>d'. wr source (int (length source)) 0 d = Inr (int (length source), d') \<and> inv d' \<and>
    bytes d' = source @ drop (length source) (bytes d) \<and> rd (int (length source)) 0 d' = Inr source"
  using wr_ok [OF assms(1), of 0 "int (length source)" source "length source"] assms(2) rd_ok by fastforce

lemma load_prefix: "inv d \<Longrightarrow> rd (int n) 0 d = Inr (take n (bytes d))"
  using rd_ok [of d 0 "int n"] by simp

lemma length_kept:
  assumes "inv d" "0 \<le> p" "n \<le> int (length source)" "wr source n p d = Inr (k, d')"
  shows "inv d' \<and> length (bytes d') = length (bytes d)"
proof -
  define m where "m = nat (min n (int (length (bytes d)) - p))"
  obtain e where "wr source n p d = Inr (int m, e)" "inv e"
    "bytes e = take (nat p) (bytes d) @ take m source @ drop (nat p + m) (bytes d)"
    using wr_ok [OF assms(1-3) m_def] by blast
  moreover have "m \<le> length source" "m = 0 \<or> nat p + m \<le> length (bytes d)" using assms(2,3) by (auto simp: m_def)
  ultimately show ?thesis using assms(4) by auto
qed

end

interpretation open_file: byte_file "\<lambda>d. header_ok h \<and> disk_file_ok d" "contents h" "ReadAt h" "WriteAt garbage h"
  for h garbage
proof
  fix d source :: "u8 list" and p n :: int and m
  assume d: "header_ok h \<and> disk_file_ok d" and p: "0 \<le> p"
  show "ReadAt h n p d = Inr (take (nat n) (drop (nat p) (contents h d)))" using ReadAt_ok d p by blast
  assume "n \<le> int (length source)" "m = nat (min n (int (length (contents h d)) - p))"
  then show "\<exists>d'. WriteAt garbage h source n p d = Inr (int m, d') \<and> (header_ok h \<and> disk_file_ok d') \<and>
      contents h d' = take (nat p) (contents h d) @ take m source @ drop (nat p + m) (contents h d)"
    using WriteAt_ok [of h d p n source garbage] d p length_contents [of h d] by auto
qed

section \<open>Properties\<close>

text \<open>
  a file is an array of bytes. For a header whose sectors are distinct sectors of the disk, a write
  at any position replaces exactly the bytes that lie in the file (the rest of the request is cut off,
  which is what it returns), changes no byte of the file before or after them though it writes whole
  sectors, changes no other sector, and every later read gives the bytes of that array.
\<close>

lemma file_is_byte_array:
  assumes "header_ok h" "disk_file_ok d" "0 \<le> p" "n \<le> int (length source)"
  shows "\<exists>d'. WriteAt garbage h source n p d = Inr (int (nat (min n (numBytes h - p))), d') \<and> disk_file_ok d' \<and>
    (\<forall>x. 0 \<le> x \<and> x \<notin> set (file_sectors h) \<longrightarrow> sector d' x = sector d x) \<and>
    (\<forall>k q. 0 \<le> q \<longrightarrow> ReadAt h k q d' = Inr (take (nat k) (drop (nat q)
       (take (nat p) (contents h d) @ take (nat (min n (numBytes h - p))) source @
        drop (nat p + nat (min n (numBytes h - p))) (contents h d)))))"
  using WriteAt_ok [OF assms, of garbage] ReadAt_ok [OF assms(1)] by fastforce

definition sample_header :: FileHeader where
  "sample_header = \<lparr>numBytes = 200, numSectors = 2, dataSectors = 7 # 3 # replicate 28 0\<rparr>"

lemma file_is_byte_array_example:
  "\<exists>d'. WriteAt (\<lambda>_. 9) sample_header [1, 2, 3, 4] 4 126 (replicate (nat DiskSize) 0) = Inr (4, d') \<and>
    ReadAt sample_header 5 125 d' = Inr [0, 1, 2, 3, 4] \<and> ReadAt sample_header 5 198 d' = Inr [0, 0]"
proof -
  let ?d = "replicate (nat DiskSize) 0 :: u8 list"
  have h: "header_ok sample_header" "file_sectors sample_header = [7, 3]"
    by (simp_all add: header_ok_def file_sectors_def sample_header_def divRoundUp_def int32_def disk_sizes numeral_2_eq_2)
  have d: "disk_file_ok ?d" by (simp add: disk_file_ok_def DiskSize_def disk_sizes)
  have s: "sector ?d x = replicate 128 0" if "x \<in> {7, 3}" for x
    using that by (auto simp: sector_def disk_sizes sector_pos_def)
  have c: "contents sample_header ?d = replicate 200 0"
    unfolding contents_def file_raw_def h(2) by (simp add: s sample_header_def flip: replicate_add)
  have n: "numBytes sample_header = 200" by (simp add: sample_header_def)
  have w: "take 126 (replicate 200 0 :: u8 list) @ take 4 [1, 2, 3, 4] @ drop 130 (replicate 200 0) =
      replicate 125 0 @ [0, 1, 2, 3, 4] @ replicate 70 0"
    by (simp add: numeral_eq_Suc)
  show ?thesis
    using file_is_byte_array [OF h(1) d, of 126 4 "[1, 2, 3, 4]" "\<lambda>_. 9"] c n w by (auto simp: numeral_2_eq_2)
qed

end
