(* ===== verification/Directory.thy ===== *)
theory Directory
  imports Open_File
begin

text \<open>
  filesys/directory.cc, and how a bitmap is kept in a file (userprog/bitmap.cc): both are copied to and
  from a file as the bytes they are in memory. A C string is the list of its characters before the
  terminating 0.
\<close>

section \<open>Strings\<close>

text \<open>\<open>!strncmp(s, t, n)\<close> on two arrays that hold a 0 or at least \<open>n\<close> characters, and \<open>strncpy\<close>.\<close>

fun strn_equal :: "nat \<Rightarrow> u8 list \<Rightarrow> u8 list \<Rightarrow> bool" where
  "strn_equal (Suc n) (x # xs) (y # ys) \<longleftrightarrow> x = y \<and> (x = 0 \<or> strn_equal n xs ys)"
| "strn_equal 0 xs ys \<longleftrightarrow> True"
| "strn_equal (Suc n) xs ys \<longleftrightarrow> False"

definition strn_copy :: "nat \<Rightarrow> u8 list \<Rightarrow> u8 list \<Rightarrow> u8 list" where
  "strn_copy n dest s = take n (s @ replicate n 0) @ drop n dest"

section \<open>State\<close>

definition FileNameMaxLen :: nat where "FileNameMaxLen = 9"

text \<open>The layout of the structure: a \<open>bool\<close>, three bytes of padding, an \<open>int\<close>, ten characters and two
  bytes of padding.\<close>

record DirectoryEntry =
  inUse :: u8
  epad :: "u8 list"
  esector :: int
  ename :: "u8 list"
  etail :: "u8 list"

record Directory =
  tableSize :: int
  dtable :: "DirectoryEntry list"

definition entry_image :: "DirectoryEntry \<Rightarrow> u8 list" where
  "entry_image e = [inUse e] @ epad e @ int_bytes (esector e) @ ename e @ etail e"

definition entry_from :: "u8 list \<Rightarrow> DirectoryEntry" where
  "entry_from bs = \<lparr>inUse = bs ! 0, epad = take 3 (drop 1 bs), esector = sint (word_at bs 4),
     ename = take 10 (drop 8 bs), etail = take 2 (drop 18 bs)\<rparr>"

definition table_image :: "DirectoryEntry list \<Rightarrow> u8 list" where
  "table_image es = concat (map entry_image es)"

definition table_from :: "nat \<Rightarrow> u8 list \<Rightarrow> DirectoryEntry list" where
  "table_from n bs = map (\<lambda>i. entry_from (take 20 (drop (20 * i) bs))) [0..<n]"

section \<open>Operations\<close>

text \<open>\<open>garbage\<close> is what the new array holds.\<close>

definition new_Directory :: "(nat \<Rightarrow> DirectoryEntry) \<Rightarrow> int \<Rightarrow> Directory" where
  "new_Directory garbage sz =
     \<lparr>tableSize = sz, dtable = map (\<lambda>i. (garbage i)\<lparr>inUse := 0\<rparr>) [0..<nat sz]\<rparr>"

text \<open>\<open>bs\<close> copied over the front of \<open>old\<close>.\<close>

definition over_front :: "u8 list \<Rightarrow> u8 list \<Rightarrow> u8 list" where
  "over_front bs old = bs @ drop (length bs) old"

definition Directory_FetchFrom :: "Directory \<Rightarrow> FileHeader \<Rightarrow> u8 list \<Rightarrow> Directory result" where
  "Directory_FetchFrom dir h d =
     bind_result (ReadAt h (tableSize dir * 20) 0 d) (\<lambda>bs.
     Inr (dir\<lparr>dtable := table_from (length (dtable dir)) (over_front bs (table_image (dtable dir)))\<rparr>))"

definition Directory_WriteBack ::
  "(nat \<Rightarrow> u8) \<Rightarrow> Directory \<Rightarrow> FileHeader \<Rightarrow> u8 list \<Rightarrow> u8 list result" where
  "Directory_WriteBack garbage dir h d =
     bind_result (WriteAt garbage h (table_image (dtable dir)) (tableSize dir * 20) 0 d) (\<lambda>(n, d1). Inr d1)"

definition BitMap_FetchFrom :: "BitMap \<Rightarrow> FileHeader \<Rightarrow> u8 list \<Rightarrow> BitMap result" where
  "BitMap_FetchFrom b h d =
     bind_result (ReadAt h (numWords b * 4) 0 d) (\<lambda>bs.
     Inr (b\<lparr>bmap := words_of (length (bmap b)) (over_front bs (words_bytes (bmap b)))\<rparr>))"

definition BitMap_WriteBack :: "(nat \<Rightarrow> u8) \<Rightarrow> BitMap \<Rightarrow> FileHeader \<Rightarrow> u8 list \<Rightarrow> u8 list result" where
  "BitMap_WriteBack garbage b h d =
     bind_result (WriteAt garbage h (words_bytes (bmap b)) (numWords b * 4) 0 d) (\<lambda>(n, d1). Inr d1)"

definition FindIndex :: "u8 list \<Rightarrow> Directory \<Rightarrow> int" where
  "FindIndex name dir =
     (case List.find (\<lambda>i. inUse (dtable dir ! i) \<noteq> 0 \<and> strn_equal FileNameMaxLen (ename (dtable dir ! i)) (name @ [0]))
        [0..<nat (tableSize dir)]
      of Some i \<Rightarrow> int i | None \<Rightarrow> - 1)"

definition Directory_Find :: "u8 list \<Rightarrow> Directory \<Rightarrow> int" where
  "Directory_Find name dir =
     (let i = FindIndex name dir in if i \<noteq> - 1 then esector (dtable dir ! nat i) else - 1)"

definition Directory_Add :: "u8 list \<Rightarrow> int \<Rightarrow> Directory \<Rightarrow> bool \<times> Directory" where
  "Directory_Add name newSector dir =
     (if FindIndex name dir \<noteq> - 1 then (False, dir)
      else case List.find (\<lambda>i. inUse (dtable dir ! i) = 0) [0..<nat (tableSize dir)] of
        Some i \<Rightarrow> (True, dir\<lparr>dtable := (dtable dir)[i := (dtable dir ! i)
            \<lparr>inUse := 1, ename := strn_copy FileNameMaxLen (ename (dtable dir ! i)) name, esector := newSector\<rparr>]\<rparr>)
      | None \<Rightarrow> (False, dir))"

definition Directory_Remove :: "u8 list \<Rightarrow> Directory \<Rightarrow> bool \<times> Directory" where
  "Directory_Remove name dir =
     (let i = FindIndex name dir in
      if i = - 1 then (False, dir)
      else (True, dir\<lparr>dtable := (dtable dir)[nat i := (dtable dir ! nat i)\<lparr>inUse := 0\<rparr>]\<rparr>))"

text \<open>\<open>List\<close> prints the names; a name of nine characters runs on into what follows it in memory.\<close>

definition printed :: "u8 list \<Rightarrow> u8 list result" where
  "printed s = (if 0 \<in> set s then Inr (takeWhile (\<lambda>c. c \<noteq> 0) s) else Inl OutOfBounds)"

definition Directory_List :: "Directory \<Rightarrow> u8 list result list" where
  "Directory_List dir =
     map (\<lambda>e. printed (ename e)) (filter (\<lambda>e. inUse e \<noteq> 0) (take (nat (tableSize dir)) (dtable dir)))"

section \<open>Bytes\<close>

definition wf_entry :: "DirectoryEntry \<Rightarrow> bool" where
  "wf_entry e \<longleftrightarrow> length (epad e) = 3 \<and> length (ename e) = 10 \<and> length (etail e) = 2 \<and> int32 (esector e)"

lemma length_entry_image: "wf_entry e \<Longrightarrow> length (entry_image e) = 20"
  by (simp add: wf_entry_def entry_image_def)

lemma entry_roundtrip: "wf_entry e \<Longrightarrow> entry_from (entry_image e) = e"
proof -
  assume e: "wf_entry e"
  then have "word_at (entry_image e) 4 = word_of_int (esector e)"
    using word_at_int_bytes [of "[inUse e] @ epad e" "esector e" "ename e @ etail e"]
    by (simp add: entry_image_def wf_entry_def)
  then show ?thesis using e by (simp add: entry_from_def entry_image_def wf_entry_def sint_int32)
qed

lemma entry_from_wf: "length bs = 20 \<Longrightarrow> wf_entry (entry_from bs)"
  using sint_range_size [of "word_at bs 4"]
  by (simp add: wf_entry_def entry_from_def int32_def word_size)

lemma table_roundtrip:
  assumes "\<forall>e\<in>set es. wf_entry e" "length es = n"
  shows "table_from n (table_image es @ xs) = es"
proof (rule nth_equalityI)
  show "length (table_from n (table_image es @ xs)) = length es" using assms(2) by (simp add: table_from_def)
  fix i assume "i < length (table_from n (table_image es @ xs))"
  then have i: "i < length es" using assms(2) by (simp add: table_from_def)
  have l: "\<forall>e\<in>set es. length (entry_image e) = 20" using assms(1) length_entry_image by blast
  have "length (table_image es) = 20 * length es" unfolding table_image_def by (rule length_chunks [OF l])
  then have "take 20 (drop (20 * i) (table_image es @ xs)) = take 20 (drop (20 * i) (table_image es))"
    using i by simp
  also have "\<dots> = entry_image (es ! i)" unfolding table_image_def by (rule chunk_at [OF l i])
  finally show "table_from n (table_image es @ xs) ! i = es ! i"
    using i assms entry_roundtrip by (simp add: table_from_def)
qed

lemma length_table_image: "\<forall>e\<in>set es. wf_entry e \<Longrightarrow> length (table_image es) = 20 * length es"
  unfolding table_image_def by (rule length_chunks) (simp add: length_entry_image)

section \<open>Names\<close>

definition cname :: "DirectoryEntry \<Rightarrow> u8 list" where
  "cname e = takeWhile (\<lambda>c. c \<noteq> 0) (take 9 (ename e))"

text \<open>The part of a name that the file system looks at.\<close>

definition key_of :: "u8 list \<Rightarrow> u8 list" where
  "key_of name = take 9 name"

lemma strn_equal_take:
  "0 \<notin> set ys \<Longrightarrow> n \<le> length xs \<Longrightarrow>
   strn_equal n xs (ys @ [0]) \<longleftrightarrow> takeWhile (\<lambda>c. c \<noteq> 0) (take n xs) = take n ys"
proof (induction n arbitrary: xs ys)
  case (Suc n)
  then obtain x xs' where x: "xs = x # xs'" by (cases xs) auto
  show ?case
  proof (cases ys)
    case Nil
    then show ?thesis using x by simp
  next
    case (Cons y ys')
    then show ?thesis using Suc.IH [of ys' xs'] Suc.prems x by auto
  qed
qed simp

lemma same_name: "wf_entry e \<Longrightarrow> 0 \<notin> set name \<Longrightarrow> strn_equal FileNameMaxLen (ename e) (name @ [0]) \<longleftrightarrow> cname e = key_of name"
  by (simp add: strn_equal_take wf_entry_def cname_def key_of_def FileNameMaxLen_def)

lemma takeWhile_padded: "0 \<notin> set xs \<Longrightarrow> takeWhile (\<lambda>c. c \<noteq> 0) (xs @ replicate k 0) = xs"
  by (induction xs) (auto simp: takeWhile_eq_Nil_iff)

lemma cname_copied:
  assumes "0 \<notin> set name"
  shows "takeWhile (\<lambda>c. c \<noteq> 0) (take 9 (strn_copy 9 dest name)) = key_of name"
proof -
  have "take 9 (strn_copy 9 dest name) = take 9 name @ replicate (9 - length name) 0"
    by (simp add: strn_copy_def min_def)
  moreover have "0 \<notin> set (take 9 name)" using assms in_set_takeD by metis
  ultimately show ?thesis using takeWhile_padded by (simp add: key_of_def)
qed

section \<open>A directory is a map from names to sectors\<close>

definition dir_ok :: "Directory \<Rightarrow> bool" where
  "dir_ok dir \<longleftrightarrow> tableSize dir = int (length (dtable dir)) \<and> (\<forall>e\<in>set (dtable dir). wf_entry e) \<and>
     (\<forall>i j. i < length (dtable dir) \<and> j < length (dtable dir) \<and> inUse (dtable dir ! i) \<noteq> 0 \<and> inUse (dtable dir ! j) \<noteq> 0 \<and>
        cname (dtable dir ! i) = cname (dtable dir ! j) \<longrightarrow> i = j)"

definition dir_map :: "Directory \<Rightarrow> u8 list \<Rightarrow> int option" where
  "dir_map dir k = map_option (\<lambda>i. esector (dtable dir ! i))
     (List.find (\<lambda>i. inUse (dtable dir ! i) \<noteq> 0 \<and> cname (dtable dir ! i) = k) [0..<length (dtable dir)])"

definition dir_full :: "Directory \<Rightarrow> bool" where
  "dir_full dir \<longleftrightarrow> (\<forall>e\<in>set (dtable dir). inUse e \<noteq> 0)"

lemma dir_okD:
  "dir_ok dir \<Longrightarrow> i < length (dtable dir) \<Longrightarrow> wf_entry (dtable dir ! i)"
  "dir_ok dir \<Longrightarrow> nat (tableSize dir) = length (dtable dir)"
  "dir_ok dir \<Longrightarrow> i < length (dtable dir) \<Longrightarrow> j < length (dtable dir) \<Longrightarrow> inUse (dtable dir ! i) \<noteq> 0 \<Longrightarrow>
     inUse (dtable dir ! j) \<noteq> 0 \<Longrightarrow> cname (dtable dir ! i) = cname (dtable dir ! j) \<Longrightarrow> i = j"
  by (auto simp: dir_ok_def)

lemma dir_map_Some:
  assumes "dir_ok dir"
  shows "dir_map dir k = Some s \<longleftrightarrow>
    (\<exists>i<length (dtable dir). inUse (dtable dir ! i) \<noteq> 0 \<and> cname (dtable dir ! i) = k \<and> esector (dtable dir ! i) = s)"
proof
  assume "dir_map dir k = Some s"
  then show "\<exists>i<length (dtable dir). inUse (dtable dir ! i) \<noteq> 0 \<and> cname (dtable dir ! i) = k \<and> esector (dtable dir ! i) = s"
    by (auto simp: dir_map_def find_upt_Some)
next
  assume "\<exists>i<length (dtable dir). inUse (dtable dir ! i) \<noteq> 0 \<and> cname (dtable dir ! i) = k \<and> esector (dtable dir ! i) = s"
  then obtain i where i: "i < length (dtable dir)" "inUse (dtable dir ! i) \<noteq> 0" "cname (dtable dir ! i) = k" "esector (dtable dir ! i) = s"
    by blast
  have "List.find (\<lambda>i. inUse (dtable dir ! i) \<noteq> 0 \<and> cname (dtable dir ! i) = k) [0..<length (dtable dir)] = Some i"
  proof -
    have "\<not> (inUse (dtable dir ! j) \<noteq> 0 \<and> cname (dtable dir ! j) = k)" if "j < i" for j
      using dir_okD(3) [OF assms _ i(1) _ i(2), of j] that i(1,3) by auto
    then show ?thesis using i(1-3) by (simp add: find_upt_Some)
  qed
  then show "dir_map dir k = Some s" using i(4) by (simp add: dir_map_def)
qed

lemma dir_map_None:
  "dir_map dir k = None \<longleftrightarrow> (\<forall>i<length (dtable dir). inUse (dtable dir ! i) \<noteq> 0 \<longrightarrow> cname (dtable dir ! i) \<noteq> k)"
  by (auto simp: dir_map_def find_upt_None)

lemma option_ext: "(\<And>x. a = Some x \<longleftrightarrow> b = Some x) \<Longrightarrow> a = b"
  by (metis option.exhaust)

text \<open>What \<open>FindIndex\<close> returns.\<close>

lemma FindIndex_ok:
  assumes "dir_ok dir" "0 \<notin> set name"
  shows "(dir_map dir (key_of name) = None \<and> FindIndex name dir = - 1) \<or>
    (\<exists>i<length (dtable dir). FindIndex name dir = int i \<and> inUse (dtable dir ! i) \<noteq> 0 \<and>
       cname (dtable dir ! i) = key_of name \<and> dir_map dir (key_of name) = Some (esector (dtable dir ! i)))"
proof -
  let ?p = "\<lambda>i. inUse (dtable dir ! i) \<noteq> 0 \<and> strn_equal FileNameMaxLen (ename (dtable dir ! i)) (name @ [0])"
  have p: "?p i \<longleftrightarrow> inUse (dtable dir ! i) \<noteq> 0 \<and> cname (dtable dir ! i) = key_of name" if "i < length (dtable dir)" for i
    using same_name [OF dir_okD(1) [OF assms(1) that] assms(2)] by simp
  show ?thesis
  proof (cases "List.find ?p [0..<length (dtable dir)]")
    case None
    then have "dir_map dir (key_of name) = None" using p by (auto simp: find_upt_None dir_map_None)
    then show ?thesis using None by (simp add: FindIndex_def dir_okD(2) [OF assms(1)])
  next
    case (Some i)
    then have "i < length (dtable dir)" "?p i" by (simp_all add: find_upt_Some)
    with p Some show ?thesis
      by (intro disjI2 exI [of _ i]) (auto simp: FindIndex_def dir_okD(2) [OF assms(1)] dir_map_Some [OF assms(1)])
  qed
qed

lemma Directory_Find_ok:
  "dir_ok dir \<Longrightarrow> 0 \<notin> set name \<Longrightarrow>
   Directory_Find name dir = (case dir_map dir (key_of name) of None \<Rightarrow> - 1 | Some s \<Rightarrow> s)"
  using FindIndex_ok [of dir name] by (auto simp: Directory_Find_def)

lemma Directory_Add_ok:
  assumes "dir_ok dir" "0 \<notin> set name" "int32 s"
  shows "if dir_map dir (key_of name) \<noteq> None \<or> dir_full dir then Directory_Add name s dir = (False, dir)
    else \<exists>dir'. Directory_Add name s dir = (True, dir') \<and> dir_ok dir' \<and>
      dir_map dir' = (dir_map dir)(key_of name \<mapsto> s) \<and> length (dtable dir') = length (dtable dir)"
proof (cases "dir_map dir (key_of name)")
  case (Some x)
  then show ?thesis using FindIndex_ok [OF assms(1,2)] by (auto simp: Directory_Add_def)
next
  case None
  then have f: "FindIndex name dir = - 1" using FindIndex_ok [OF assms(1,2)] by auto
  let ?q = "\<lambda>i. inUse (dtable dir ! i) = 0"
  show ?thesis
  proof (cases "List.find ?q [0..<length (dtable dir)]")
    case q: None
    then have "dir_full dir" by (auto simp: find_upt_None dir_full_def in_set_conv_nth)
    then show ?thesis using f q by (simp add: Directory_Add_def dir_okD(2) [OF assms(1)])
  next
    case (Some i)
    then have i: "i < length (dtable dir)" "inUse (dtable dir ! i) = 0" by (simp_all add: find_upt_Some)
    let ?e = "(dtable dir ! i)\<lparr>inUse := 1, ename := strn_copy FileNameMaxLen (ename (dtable dir ! i)) name, esector := s\<rparr>"
    let ?dir = "dir\<lparr>dtable := (dtable dir)[i := ?e]\<rparr>"
    have c: "cname ?e = key_of name" using cname_copied [OF assms(2)] by (simp add: cname_def FileNameMaxLen_def)
    have w: "wf_entry ?e" using dir_okD(1) [OF assms(1) i(1)] assms(3) by (simp add: wf_entry_def strn_copy_def FileNameMaxLen_def)
    have free: "cname (dtable dir ! j) \<noteq> key_of name" if "j < length (dtable dir)" "inUse (dtable dir ! j) \<noteq> 0" for j
      using None that by (simp add: dir_map_None)
    have ok: "dir_ok ?dir"
      unfolding dir_ok_def
    proof (intro conjI ballI allI impI)
      fix e assume "e \<in> set (dtable ?dir)"
      then show "wf_entry e" using set_update_subset_insert [of "dtable dir" i ?e] w assms(1) by (auto simp: dir_ok_def)
    next
      fix j k assume jk: "j < length (dtable ?dir) \<and> k < length (dtable ?dir) \<and> inUse (dtable ?dir ! j) \<noteq> 0 \<and>
        inUse (dtable ?dir ! k) \<noteq> 0 \<and> cname (dtable ?dir ! j) = cname (dtable ?dir ! k)"
      then show "j = k" using free c dir_okD(3) [OF assms(1), of j k] i(1)
        by (cases "j = i"; cases "k = i") (auto simp: nth_list_update)
    qed (use assms(1) in \<open>simp add: dir_ok_def\<close>)
    have "dir_map ?dir k = ((dir_map dir)(key_of name \<mapsto> s)) k" for k
    proof (cases "k = key_of name")
      case True
      have "dir_map ?dir k = Some s" unfolding dir_map_Some [OF ok]
        using True c i(1) by (intro exI [of _ i]) simp
      then show ?thesis using True by simp
    next
      case False
      have "dir_map ?dir k = Some x \<longleftrightarrow> dir_map dir k = Some x" for x
        unfolding dir_map_Some [OF ok] dir_map_Some [OF assms(1)]
      proof (intro ex_cong1 iffI)
        fix j
        assume "j < length (dtable ?dir) \<and> inUse (dtable ?dir ! j) \<noteq> 0 \<and> cname (dtable ?dir ! j) = k \<and> esector (dtable ?dir ! j) = x"
        then show "j < length (dtable dir) \<and> inUse (dtable dir ! j) \<noteq> 0 \<and> cname (dtable dir ! j) = k \<and> esector (dtable dir ! j) = x"
          using False c i(1) by (cases "j = i") simp_all
      next
        fix j
        assume "j < length (dtable dir) \<and> inUse (dtable dir ! j) \<noteq> 0 \<and> cname (dtable dir ! j) = k \<and> esector (dtable dir ! j) = x"
        then show "j < length (dtable ?dir) \<and> inUse (dtable ?dir ! j) \<noteq> 0 \<and> cname (dtable ?dir ! j) = k \<and> esector (dtable ?dir ! j) = x"
          using i(2) by (cases "j = i") simp_all
      qed
      then show ?thesis using False by (simp add: option_ext)
    qed
    moreover have "\<not> dir_full dir" using i by (auto simp: dir_full_def)
    moreover have "Directory_Add name s dir = (True, ?dir)"
      using f Some by (simp add: Directory_Add_def dir_okD(2) [OF assms(1)])
    ultimately show ?thesis using ok None by (auto simp: fun_eq_iff)
  qed
qed

lemma Directory_Remove_ok:
  assumes "dir_ok dir" "0 \<notin> set name" "dir_map dir (key_of name) \<noteq> None"
  shows "\<exists>dir'. Directory_Remove name dir = (True, dir') \<and> dir_ok dir' \<and>
    dir_map dir' = (dir_map dir)(key_of name := None) \<and> length (dtable dir') = length (dtable dir)"
proof -
  obtain i where i: "i < length (dtable dir)" "FindIndex name dir = int i" "inUse (dtable dir ! i) \<noteq> 0"
    "cname (dtable dir ! i) = key_of name"
    using FindIndex_ok [OF assms(1,2)] assms(3) by auto
  let ?e = "(dtable dir ! i)\<lparr>inUse := 0\<rparr>"
  let ?dir = "dir\<lparr>dtable := (dtable dir)[i := ?e]\<rparr>"
  have w: "wf_entry ?e" using dir_okD(1) [OF assms(1) i(1)] by (simp add: wf_entry_def)
  have ok: "dir_ok ?dir"
    unfolding dir_ok_def
  proof (intro conjI ballI allI impI)
    fix e assume "e \<in> set (dtable ?dir)"
    then show "wf_entry e" using set_update_subset_insert [of "dtable dir" i ?e] w assms(1) by (auto simp: dir_ok_def)
  next
    fix j k assume jk: "j < length (dtable ?dir) \<and> k < length (dtable ?dir) \<and> inUse (dtable ?dir ! j) \<noteq> 0 \<and>
      inUse (dtable ?dir ! k) \<noteq> 0 \<and> cname (dtable ?dir ! j) = cname (dtable ?dir ! k)"
    then show "j = k" using dir_okD(3) [OF assms(1), of j k] i(1)
      by (cases "j = i"; cases "k = i") (auto simp: nth_list_update)
  qed (use assms(1) in \<open>simp add: dir_ok_def\<close>)
  have "dir_map ?dir k = Some x \<longleftrightarrow> k \<noteq> key_of name \<and> dir_map dir k = Some x" for k x
    unfolding dir_map_Some [OF ok] dir_map_Some [OF assms(1)]
  proof
    assume "\<exists>j<length (dtable ?dir). inUse (dtable ?dir ! j) \<noteq> 0 \<and> cname (dtable ?dir ! j) = k \<and> esector (dtable ?dir ! j) = x"
    then obtain j where "j < length (dtable dir)" "j \<noteq> i" "inUse (dtable dir ! j) \<noteq> 0" "cname (dtable dir ! j) = k"
      "esector (dtable dir ! j) = x"
    proof -
      from \<open>\<exists>j<length (dtable ?dir). _ j\<close> obtain j where j: "j < length (dtable ?dir)" "inUse (dtable ?dir ! j) \<noteq> 0"
        "cname (dtable ?dir ! j) = k" "esector (dtable ?dir ! j) = x" by blast
      then have "j \<noteq> i" using i(1) by auto
      then show thesis using j that by simp
    qed
    then show "k \<noteq> key_of name \<and> (\<exists>j<length (dtable dir). inUse (dtable dir ! j) \<noteq> 0 \<and> cname (dtable dir ! j) = k \<and> esector (dtable dir ! j) = x)"
      using dir_okD(3) [OF assms(1) _ i(1) _ i(3), of j] i(4) by auto
  next
    assume "k \<noteq> key_of name \<and> (\<exists>j<length (dtable dir). inUse (dtable dir ! j) \<noteq> 0 \<and> cname (dtable dir ! j) = k \<and> esector (dtable dir ! j) = x)"
    then show "\<exists>j<length (dtable ?dir). inUse (dtable ?dir ! j) \<noteq> 0 \<and> cname (dtable ?dir ! j) = k \<and> esector (dtable ?dir ! j) = x"
    proof (elim conjE exE)
      fix j assume "k \<noteq> key_of name" "j < length (dtable dir)" "inUse (dtable dir ! j) \<noteq> 0" "cname (dtable dir ! j) = k"
        "esector (dtable dir ! j) = x"
      then show ?thesis using i(4) by (intro exI [of _ j]) (cases "j = i", simp_all)
    qed
  qed
  then have "dir_map ?dir k = ((dir_map dir)(key_of name := None)) k" for k by (intro option_ext) auto
  moreover have "Directory_Remove name dir = (True, ?dir)" using i by (simp add: Directory_Remove_def)
  ultimately show ?thesis using ok by (auto simp: fun_eq_iff)
qed

lemma new_Directory_ok:
  "\<forall>i. wf_entry (garbage i) \<Longrightarrow> 0 \<le> n \<Longrightarrow> dir_ok (new_Directory garbage n) \<and> dir_map (new_Directory garbage n) = Map.empty"
  by (auto simp: dir_ok_def new_Directory_def wf_entry_def dir_map_def find_upt_None fun_eq_iff)


section \<open>Kept in a file\<close>

text \<open>The file \<open>h\<close> of the disk holds exactly the bitmap \<open>b\<close>, the directory \<open>dir\<close>.\<close>

definition stores_map :: "FileHeader \<Rightarrow> u8 list \<Rightarrow> BitMap \<Rightarrow> bool" where
  "stores_map h d b \<longleftrightarrow> wf_BitMap b \<and> numBits b = 1024 \<and> contents h d = words_bytes (bmap b)"

definition stores_dir :: "FileHeader \<Rightarrow> u8 list \<Rightarrow> Directory \<Rightarrow> bool" where
  "stores_dir h d dir \<longleftrightarrow> dir_ok dir \<and> tableSize dir = 10 \<and> contents h d = table_image (dtable dir)"

text \<open>A write to the file changes no other sector.\<close>

definition same_outside :: "int set \<Rightarrow> u8 list \<Rightarrow> u8 list \<Rightarrow> bool" where
  "same_outside S d d' \<longleftrightarrow> (\<forall>x. 0 \<le> x \<and> x \<notin> S \<longrightarrow> sector d' x = sector d x)"

lemma same_outside_trans: "same_outside S d e \<Longrightarrow> same_outside T e f \<Longrightarrow> same_outside (S \<union> T) d f"
  by (simp add: same_outside_def)

lemma same_outside_refl [simp]: "same_outside S d d"
  by (simp add: same_outside_def)

lemma same_outside_mono: "same_outside S d e \<Longrightarrow> S \<subseteq> T \<Longrightarrow> same_outside T d e"
  by (auto simp: same_outside_def)

lemma contents_same:
  assumes "header_ok h" "same_outside S d d'" "S \<inter> set (file_sectors h) = {}"
  shows "contents h d' = contents h d"
proof -
  have "map (sector d') (file_sectors h) = map (sector d) (file_sectors h)"
    using assms header_facts(8) [OF assms(1)] by (auto simp: same_outside_def)
  then show ?thesis by (simp only: contents_def file_raw_def)
qed

lemma store_file:
  assumes "header_ok h" "disk_file_ok d" "numBytes h = int (length bs)"
  shows "\<exists>d'. WriteAt garbage h bs (int (length bs)) 0 d = Inr (int (length bs), d') \<and> disk_file_ok d' \<and>
    same_outside (set (file_sectors h)) d d' \<and> contents h d' = bs"
proof -
  have l: "length (contents h d) = length bs" using length_contents [OF assms(1,2)] assms(3) by simp
  show ?thesis
    using WriteAt_ok [OF assms(1,2), of 0 "int (length bs)" bs garbage] l by (simp add: same_outside_def assms(3))
qed

lemma wf_words: "wf_BitMap b \<Longrightarrow> numBits b = 1024 \<Longrightarrow> numWords b = 32 \<and> length (bmap b) = 32"
  by (simp add: wf_BitMap_def divRoundUp_def)

lemma BitMap_WriteBack_ok:
  assumes "header_ok h" "disk_file_ok d" "numBytes h = 128" "wf_BitMap b" "numBits b = 1024"
  shows "\<exists>d'. BitMap_WriteBack garbage b h d = Inr d' \<and> disk_file_ok d' \<and>
    same_outside (set (file_sectors h)) d d' \<and> stores_map h d' b"
  using store_file [OF assms(1,2), of "words_bytes (bmap b)" garbage] wf_words [OF assms(4,5)] assms(3-5)
  by (auto simp: BitMap_WriteBack_def stores_map_def)

lemma BitMap_FetchFrom_ok:
  assumes "header_ok h" "disk_file_ok d" "stores_map h d b" "wf_BitMap b0" "numBits b0 = 1024"
  shows "BitMap_FetchFrom b0 h d = Inr b"
proof -
  note w = wf_words [of b] wf_words [OF assms(4,5)]
  have c: "contents h d = words_bytes (bmap b)" "wf_BitMap b" "numBits b = 1024" using assms(3) by (auto simp: stores_map_def)
  then have "length (contents h d) = 128" using w by simp
  then have "ReadAt h 128 0 d = Inr (words_bytes (bmap b))" using open_file.load_prefix [of h d 128] assms(1,2) c by simp
  moreover have "words_of 32 (over_front (words_bytes (bmap b)) xs) = bmap b" for xs
    using words_of_bytes [of "bmap b"] w c by (simp add: over_front_def)
  ultimately show ?thesis using w c assms(5) by (simp add: BitMap_FetchFrom_def)
qed

lemma Directory_WriteBack_ok:
  assumes "header_ok h" "disk_file_ok d" "numBytes h = 200" "dir_ok dir" "tableSize dir = 10"
  shows "\<exists>d'. Directory_WriteBack garbage dir h d = Inr d' \<and> disk_file_ok d' \<and>
    same_outside (set (file_sectors h)) d d' \<and> stores_dir h d' dir"
proof -
  have "int (length (table_image (dtable dir))) = 200"
    using length_table_image [of "dtable dir"] assms(4,5) by (simp add: dir_ok_def)
  then show ?thesis
    using store_file [OF assms(1,2), of "table_image (dtable dir)" garbage] assms(3-5)
    by (auto simp: Directory_WriteBack_def stores_dir_def)
qed

lemma Directory_FetchFrom_ok:
  assumes "header_ok h" "disk_file_ok d" "stores_dir h d dir" "tableSize dir0 = 10" "length (dtable dir0) = 10"
  shows "Directory_FetchFrom dir0 h d = Inr dir"
proof -
  have c: "contents h d = table_image (dtable dir)" "dir_ok dir" "tableSize dir = 10" using assms(3) by (auto simp: stores_dir_def)
  have e: "\<forall>e\<in>set (dtable dir). wf_entry e" "length (dtable dir) = 10" using c by (simp_all add: dir_ok_def)
  then have "length (contents h d) = 200" using c length_table_image by simp
  then have "ReadAt h 200 0 d = Inr (table_image (dtable dir))" using open_file.load_prefix [of h d 200] assms(1,2) c by simp
  moreover have "table_from 10 (over_front (table_image (dtable dir)) xs) = dtable dir" for xs
    using table_roundtrip [OF e] by (simp add: over_front_def)
  ultimately show ?thesis using c assms(4,5) by (simp add: Directory_FetchFrom_def)
qed

end
