(* ===== verification/File_System.thy ===== *)
theory File_System
  imports Directory
begin

text \<open>
  filesys/filesys.cc: names, headers and free sectors put together. The bitmap of the free sectors and
  the directory are files, whose headers are in sectors 0 and 1; each operation reads them from the
  disk and writes them back when it succeeds.
\<close>

section \<open>Operations\<close>

definition FreeMapSector :: int where "FreeMapSector = 0"
definition DirectorySector :: int where "DirectorySector = 1"
definition FreeMapFileSize :: int where "FreeMapFileSize = quot NumSectors 8"
definition NumDirEntries :: int where "NumDirEntries = 10"
definition DirectoryFileSize :: int where "DirectoryFileSize = 20 * NumDirEntries"

record filesys =
  dsk :: "u8 list"
  freeMapFile :: OpenFile
  directoryFile :: OpenFile

text \<open>What memory that was just allocated holds.\<close>

record fresh =
  fresh_words :: "nat \<Rightarrow> u32"
  fresh_entries :: "nat \<Rightarrow> DirectoryEntry"
  fresh_header :: "nat \<Rightarrow> FileHeader"
  fresh_bytes :: "nat \<Rightarrow> nat \<Rightarrow> u8"

definition open_system_files :: "u8 list \<Rightarrow> filesys result" where
  "open_system_files d =
     bind_result (new_OpenFile FreeMapSector d) (\<lambda>f.
     bind_result (new_OpenFile DirectorySector d) (\<lambda>g.
     Inr \<lparr>dsk = d, freeMapFile = f, directoryFile = g\<rparr>))"

definition new_FileSystem :: "fresh \<Rightarrow> bool \<Rightarrow> u8 list \<Rightarrow> filesys result" where
  "new_FileSystem g format d =
     (if format then
        bind_result (new_BitMap (fresh_words g) NumSectors) (\<lambda>m0.
        let directory = new_Directory (fresh_entries g) NumDirEntries in
        bind_result (Mark m0 FreeMapSector) (\<lambda>m1.
        bind_result (Mark m1 DirectorySector) (\<lambda>m2.
        bind_result (Allocate (fresh_header g 0) m2 FreeMapFileSize) (\<lambda>(ok1, mapHdr, m3).
        bind_result (ASSERT ok1) (\<lambda>_.
        bind_result (Allocate (fresh_header g 1) m3 DirectoryFileSize) (\<lambda>(ok2, dirHdr, freeMap).
        bind_result (ASSERT ok2) (\<lambda>_.
        bind_result (Header_WriteBack mapHdr FreeMapSector d) (\<lambda>d1.
        bind_result (Header_WriteBack dirHdr DirectorySector d1) (\<lambda>d2.
        bind_result (open_system_files d2) (\<lambda>s.
        bind_result (BitMap_WriteBack (fresh_bytes g 0) freeMap (ohdr (freeMapFile s)) d2) (\<lambda>d3.
        bind_result (Directory_WriteBack (fresh_bytes g 1) directory (ohdr (directoryFile s)) d3) (\<lambda>d4.
        Inr (s\<lparr>dsk := d4\<rparr>)))))))))))))
      else open_system_files d)"

text \<open>The directory and the bitmap, from the disk.\<close>

definition fetch_directory :: "fresh \<Rightarrow> filesys \<Rightarrow> Directory result" where
  "fetch_directory g s =
     Directory_FetchFrom (new_Directory (fresh_entries g) NumDirEntries) (ohdr (directoryFile s)) (dsk s)"

definition fetch_map :: "fresh \<Rightarrow> filesys \<Rightarrow> BitMap result" where
  "fetch_map g s = bind_result (new_BitMap (fresh_words g) NumSectors) (\<lambda>m.
     BitMap_FetchFrom m (ohdr (freeMapFile s)) (dsk s))"

definition FS_Create :: "fresh \<Rightarrow> u8 list \<Rightarrow> int \<Rightarrow> filesys \<Rightarrow> (bool \<times> filesys) result" where
  "FS_Create g name initialSize s =
     bind_result (fetch_directory g s) (\<lambda>directory.
     if Directory_Find name directory \<noteq> - 1 then Inr (False, s)
     else
       bind_result (fetch_map g s) (\<lambda>m0.
       bind_result (Find m0) (\<lambda>(sec, m1).
       if sec = - 1 then Inr (False, s)
       else case Directory_Add name sec directory of (added, directory1) \<Rightarrow>
         if \<not> added then Inr (False, s)
         else
           bind_result (Allocate (fresh_header g 0) m1 initialSize) (\<lambda>(allocated, hdr, freeMap).
           if \<not> allocated then Inr (False, s)
           else
             bind_result (Header_WriteBack hdr sec (dsk s)) (\<lambda>d1.
             bind_result (Directory_WriteBack (fresh_bytes g 1) directory1 (ohdr (directoryFile s)) d1) (\<lambda>d2.
             bind_result (BitMap_WriteBack (fresh_bytes g 0) freeMap (ohdr (freeMapFile s)) d2) (\<lambda>d3.
             Inr (True, s\<lparr>dsk := d3\<rparr>))))))))"

definition FS_Open :: "fresh \<Rightarrow> u8 list \<Rightarrow> filesys \<Rightarrow> OpenFile option result" where
  "FS_Open g name s =
     bind_result (fetch_directory g s) (\<lambda>directory.
     let sec = Directory_Find name directory in
     if sec \<ge> 0 then bind_result (new_OpenFile sec (dsk s)) (\<lambda>f. Inr (Some f)) else Inr None)"

definition FS_Remove :: "fresh \<Rightarrow> u8 list \<Rightarrow> filesys \<Rightarrow> (bool \<times> filesys) result" where
  "FS_Remove g name s =
     bind_result (fetch_directory g s) (\<lambda>directory.
     let sec = Directory_Find name directory in
     if sec = - 1 then Inr (False, s)
     else
       bind_result (Header_FetchFrom sec (dsk s)) (\<lambda>fileHdr.
       bind_result (fetch_map g s) (\<lambda>m0.
       bind_result (Deallocate fileHdr m0) (\<lambda>m1.
       bind_result (Clear m1 sec) (\<lambda>freeMap.
       let directory1 = snd (Directory_Remove name directory) in
       bind_result (BitMap_WriteBack (fresh_bytes g 0) freeMap (ohdr (freeMapFile s)) (dsk s)) (\<lambda>d1.
       bind_result (Directory_WriteBack (fresh_bytes g 1) directory1 (ohdr (directoryFile s)) d1) (\<lambda>d2.
       Inr (True, s\<lparr>dsk := d2\<rparr>))))))))"

definition FS_List :: "fresh \<Rightarrow> filesys \<Rightarrow> u8 list result list result" where
  "FS_List g s = bind_result (fetch_directory g s) (\<lambda>directory. Inr (Directory_List directory))"

section \<open>Headers and sectors\<close>

lemma header_roundtrip_disk: "header_ok h \<Longrightarrow> header_from (header_image h) = h"
proof -
  assume h: "header_ok h"
  note f = header_facts [OF h]
  have i: "int32 (numBytes h)" "int32 (numSectors h)" "\<forall>x\<in>set (dataSectors h). int32 x"
    using f(1,2,3,6) h by (auto simp: int32_def header_ok_def)
  have "ints_of 30 (ints_bytes (dataSectors h)) = dataSectors h"
    using ints_of_bytes [OF i(3), of "[]"] f(4) by simp
  then show ?thesis
    using i(1,2) by (simp add: header_from_def header_image_def word_at_simps sint_int32)
qed

lemma length_header_image: "header_ok h \<Longrightarrow> length (header_image h) = 128"
  using header_facts(4) [of h] by (simp add: header_image_def)

definition hdr_at :: "u8 list \<Rightarrow> int \<Rightarrow> FileHeader" where
  "hdr_at d k = header_from (sector d k)"

lemma Header_WriteBack_ok:
  assumes "disk_file_ok d" "header_ok h" "0 \<le> k" "k < NumSectors"
  shows "\<exists>d'. Header_WriteBack h k d = Inr d' \<and> disk_file_ok d' \<and> same_outside {k} d d' \<and> hdr_at d' k = h"
  using WriteSector_ok [OF assms(1,3,4) length_header_image [OF assms(2)]] header_roundtrip_disk [OF assms(2)]
  by (auto simp: Header_WriteBack_def same_outside_def hdr_at_def)

lemma Header_FetchFrom_ok:
  "disk_file_ok d \<Longrightarrow> 0 \<le> k \<Longrightarrow> k < NumSectors \<Longrightarrow> Header_FetchFrom k d = Inr (hdr_at d k)"
  by (simp add: Header_FetchFrom_def hdr_at_def)

definition blank_ok :: "FileHeader \<Rightarrow> bool" where
  "blank_ok h \<longleftrightarrow> length (dataSectors h) = 30 \<and> (\<forall>x\<in>set (dataSectors h). int32 x)"

lemma div_round_up_nonneg: "0 \<le> n \<Longrightarrow> div_round_up n SectorSize = divRoundUp n 128"
  by (simp add: div_round_up_def divRoundUp_def quot_nonneg rem_nonneg SectorSize_def)

lemma set_take_update: "i < length xs \<Longrightarrow> set (take (Suc i) (xs[i := x])) = insert x (set (take i xs))"
  by (simp add: take_Suc_conv_app_nth take_update_cancel)

lemma distinct_take_update:
  "i < length xs \<Longrightarrow> distinct (take (Suc i) (xs[i := x])) \<longleftrightarrow> distinct (take i xs) \<and> x \<notin> set (take i xs)"
  by (auto simp: take_Suc_conv_app_nth take_update_cancel)

definition free_sectors :: "BitMap \<Rightarrow> int" where
  "free_sectors b = 1024 - int (card (bits b))"

text \<open>\<open>Allocate\<close> gives the file sectors of its own, or fails and changes nothing.\<close>

lemma free_sectors_ok: "wf_BitMap b \<Longrightarrow> numBits b = 1024 \<Longrightarrow> NumClear b = Inr (free_sectors b)"
proof -
  assume b: "wf_BitMap b" "numBits b = 1024"
  have "bits b \<subseteq> {0..<1024}" using bits_range [of b] b(2) by simp
  then have "card ({0..<1024} - bits b) = 1024 - card (bits b)" "card (bits b) \<le> 1024"
    using card_Diff_subset [of "bits b" "{0..<1024}"] card_mono [of "{0..<1024}" "bits b"] finite_subset
    by auto
  then show ?thesis using NumClear_ok [OF b(1)] b(2) by (simp add: free_sectors_def of_nat_diff)
qed

lemma free_sector_exists:
  assumes "wf_BitMap b" "numBits b = 1024" "0 < free_sectors b"
  shows "\<not> {0..<numBits b} \<subseteq> bits b"
proof
  assume "{0..<numBits b} \<subseteq> bits b"
  then have "card {0..<1024 :: int} \<le> card (bits b)"
    using bits_range [of b] assms(2) by (intro card_mono) (auto intro: finite_subset)
  then show False using assms(3) by (simp add: free_sectors_def)
qed

lemma free_sectors_insert:
  "i \<notin> bits b \<Longrightarrow> bits b' = insert i (bits b) \<Longrightarrow> free_sectors b' = free_sectors b - 1"
  using finite_subset [OF bits_range [of b]] by (simp add: free_sectors_def)

definition alloc_inv :: "int \<Rightarrow> FileHeader \<Rightarrow> BitMap \<Rightarrow> int \<Rightarrow> FileHeader \<times> BitMap \<Rightarrow> bool" where
  "alloc_inv n h b i = (\<lambda>(fh, m). numBytes fh = n \<and> numSectors fh = divRoundUp n 128 \<and> blank_ok fh \<and>
     wf_BitMap m \<and> numBits m = 1024 \<and> free_sectors m = free_sectors b - i \<and>
     distinct (take (nat i) (dataSectors fh)) \<and> set (take (nat i) (dataSectors fh)) \<inter> bits b = {} \<and>
     set (take (nat i) (dataSectors fh)) \<subseteq> {0..<1024} \<and> bits m = bits b \<union> set (take (nat i) (dataSectors fh)))"

lemma alloc_step:
  assumes I: "alloc_inv n h b i (fh, m)" and i: "0 \<le> i" "i < 30" "i < free_sectors b"
  shows "\<exists>k m' ds. Find m = Inr (k, m') \<and> array_set (dataSectors fh) i k = Inr ds \<and>
    alloc_inv n h b (i + 1) (fh\<lparr>dataSectors := ds\<rparr>, m')"
proof -
  have m: "wf_BitMap m" "numBits m = 1024" "0 < free_sectors m" "blank_ok fh" using I i(3) by (simp_all add: alloc_inv_def)
  obtain k m' where k: "Find m = Inr (k, m')" "0 \<le> k" "k < 1024" "k \<notin> bits m" "wf_BitMap m'" "numBits m' = 1024"
    "bits m' = insert k (bits m)"
    using Find_free [OF m(1) free_sector_exists [OF m(1-3)]] m(2) by auto
  let ?ds = "(dataSectors fh)[nat i := k]"
  have l: "nat i < length (dataSectors fh)" "nat (i + 1) = Suc (nat i)" using m(4) i by (simp_all add: blank_ok_def nat_add_distrib)
  have "int32 k" using k(2,3) by (simp add: int32_def)
  then have "blank_ok (fh\<lparr>dataSectors := ?ds\<rparr>)"
    using m(4) set_update_subset_insert [of "dataSectors fh" "nat i" k] by (auto simp: blank_ok_def)
  moreover have "free_sectors m' = free_sectors m - 1" by (rule free_sectors_insert [OF k(4,7)])
  ultimately have "alloc_inv n h b (i + 1) (fh\<lparr>dataSectors := ?ds\<rparr>, m')"
    using I k l by (auto simp: alloc_inv_def set_take_update distinct_take_update)
  moreover have "array_set (dataSectors fh) i k = Inr ?ds" using l i by (simp add: zless_nat_eq_int_zless)
  ultimately show ?thesis using k(1) by blast
qed

lemma alloc_loop:
  assumes "0 \<le> n" "wf_BitMap b" "numBits b = 1024" "blank_ok h" "0 \<le> k" "k \<le> 30" "k \<le> free_sectors b"
  shows "\<exists>s. for_loop 0 k
      (\<lambda>i (fh, m). bind_result (Find m) (\<lambda>(k, m'). bind_result (array_set (dataSectors fh) i k) (\<lambda>ds.
         Inr (fh\<lparr>dataSectors := ds\<rparr>, m')))) (h\<lparr>numBytes := n, numSectors := divRoundUp n 128\<rparr>, b) = Inr s \<and>
    alloc_inv n h b k s"
proof (rule for_loop_rule [where I = "alloc_inv n h b"])
  show "alloc_inv n h b 0 (h\<lparr>numBytes := n, numSectors := divRoundUp n 128\<rparr>, b)"
    using assms(2-4) by (simp add: alloc_inv_def blank_ok_def)
next
  fix j t assume j: "0 \<le> j" "j < k" "alloc_inv n h b j t"
  then show "\<exists>t'. (case t of (fh, m) \<Rightarrow> bind_result (Find m) (\<lambda>(k, m').
      bind_result (array_set (dataSectors fh) j k) (\<lambda>ds. Inr (fh\<lparr>dataSectors := ds\<rparr>, m')))) = Inr t' \<and>
      alloc_inv n h b (j + 1) t'"
    using alloc_step [of n h b j "fst t" "snd t"] assms(6,7) by (cases t) auto
qed (use assms in simp)

lemma Allocate_ok:
  assumes "wf_BitMap b" "numBits b = 1024" "blank_ok h" "0 \<le> n" "n \<le> MaxFileSize"
  shows "if divRoundUp n 128 \<le> free_sectors b
    then \<exists>h' b'. Allocate h b n = Inr (True, h', b') \<and> header_ok h' \<and> numBytes h' = n \<and>
      wf_BitMap b' \<and> numBits b' = 1024 \<and> set (file_sectors h') \<inter> bits b = {} \<and>
      bits b' = bits b \<union> set (file_sectors h') \<and> free_sectors b' = free_sectors b - divRoundUp n 128
    else \<exists>h'. Allocate h b n = Inr (False, h', b)"
proof -
  let ?h = "h\<lparr>numBytes := n, numSectors := divRoundUp n 128\<rparr>"
  have k: "0 \<le> divRoundUp n 128" "divRoundUp n 128 \<le> 30"
    using assms(4,5) divRoundUp_nonneg [of n 128] divRoundUp_upper [of 128 n]
    by (simp_all add: MaxFileSize_def NumDirect_def SectorSize_def quot_nonneg)
  show ?thesis
  proof (cases "divRoundUp n 128 \<le> free_sectors b")
    case True
    obtain h' b' where s: "for_loop 0 (divRoundUp n 128)
        (\<lambda>i (fh, m). bind_result (Find m) (\<lambda>(k, m'). bind_result (array_set (dataSectors fh) i k) (\<lambda>ds.
         Inr (fh\<lparr>dataSectors := ds\<rparr>, m')))) (?h, b) = Inr (h', b')" "alloc_inv n h b (divRoundUp n 128) (h', b')"
      using alloc_loop [OF assms(4,1,2,3) k True] by force
    have a: "numBytes h' = n" "numSectors h' = divRoundUp n 128" "blank_ok h'" "wf_BitMap b'" "numBits b' = 1024"
      "free_sectors b' = free_sectors b - divRoundUp n 128" "distinct (file_sectors h')"
      "set (file_sectors h') \<inter> bits b = {}" "set (file_sectors h') \<subseteq> {0..<1024}" "bits b' = bits b \<union> set (file_sectors h')"
      using s(2) by (auto simp: alloc_inv_def file_sectors_def)
    have "header_ok h'" using a k assms(4) by (simp add: header_ok_def blank_ok_def disk_sizes)
    moreover have "Allocate h b n = Inr (True, h', b')"
      using s(1) True by (simp add: Allocate_def div_round_up_nonneg [OF assms(4)] free_sectors_ok [OF assms(1,2)] Let_def)
    ultimately show ?thesis using True a by auto
  next
    case False
    then show ?thesis
      by (simp add: Allocate_def div_round_up_nonneg [OF assms(4)] free_sectors_ok [OF assms(1,2)] Let_def)
  qed
qed

lemma for_loop_split:
  "i \<le> j \<Longrightarrow> j \<le> n \<Longrightarrow> for_loop i n f s = bind_result (for_loop i j f s) (for_loop j n f)"
proof (induction i j f s rule: for_loop.induct)
  case (1 i j f s)
  show ?case
  proof (cases "i < j")
    case True
    then show ?thesis using 1 by (cases "f i s") (simp_all add: for_loop_step)
  next
    case False
    then show ?thesis using 1 by simp
  qed
qed

text \<open>A file that needs more sectors than a header has room for is not refused: the array is overrun.\<close>

lemma Allocate_overrun:
  assumes "wf_BitMap b" "numBits b = 1024" "blank_ok h" "MaxFileSize < n" "divRoundUp n 128 \<le> free_sectors b"
  shows "Allocate h b n = Inl OutOfBounds"
proof -
  let ?f = "\<lambda>i (fh, m). bind_result (Find m) (\<lambda>(k, m'). bind_result (array_set (dataSectors fh) i k) (\<lambda>ds.
         Inr (fh\<lparr>dataSectors := ds\<rparr>, m')))"
  let ?h = "h\<lparr>numBytes := n, numSectors := divRoundUp n 128\<rparr>"
  have n: "0 \<le> n" "30 < divRoundUp n 128"
    using assms(4) divRoundUp_lower [of 128 n] by (simp_all add: MaxFileSize_def NumDirect_def SectorSize_def quot_nonneg)
  obtain fh m where s: "for_loop 0 30 ?f (?h, b) = Inr (fh, m)" "alloc_inv n h b 30 (fh, m)"
    using alloc_loop [OF n(1) assms(1-3), of 30] n(2) assms(5) by force
  have m: "wf_BitMap m" "numBits m = 1024" "0 < free_sectors m" "length (dataSectors fh) = 30"
    using s(2) n(2) assms(5) by (simp_all add: alloc_inv_def blank_ok_def)
  obtain k m' where "Find m = Inr (k, m')" using Find_free [OF m(1) free_sector_exists [OF m(1-3)]] by blast
  then have "?f 30 (fh, m) = Inl OutOfBounds" using m(4) by (simp add: array_set_def)
  then have "for_loop 30 (divRoundUp n 128) ?f (fh, m) = Inl OutOfBounds" using n(2) by (simp add: for_loop_step)
  then have "for_loop 0 (divRoundUp n 128) ?f (?h, b) = Inl OutOfBounds"
    using for_loop_split [of 0 30 "divRoundUp n 128" ?f "(?h, b)"] s(1) n(2) by simp
  then show ?thesis
    using assms(5) by (simp add: Allocate_def div_round_up_nonneg [OF n(1)] free_sectors_ok [OF assms(1,2)] Let_def)
qed

lemma Deallocate_ok:
  assumes "header_ok h" "wf_BitMap b" "numBits b = 1024" "set (file_sectors h) \<subseteq> bits b"
  shows "\<exists>b'. Deallocate h b = Inr b' \<and> wf_BitMap b' \<and> numBits b' = 1024 \<and> bits b' = bits b - set (file_sectors h)"
proof -
  let ?I = "\<lambda>i m. wf_BitMap m \<and> numBits m = 1024 \<and> bits m = bits b - set (take (nat i) (dataSectors h))"
  note H = header_facts [OF assms(1)]
  have "\<exists>b'. Deallocate h b = Inr b' \<and> ?I (numSectors h) b'"
    unfolding Deallocate_def
  proof (rule for_loop_rule [where I = ?I])
    fix i m assume i: "0 \<le> i" "i < numSectors h" "?I i m"
    let ?k = "dataSectors h ! nat i"
    have l: "nat i < length (dataSectors h)" "nat i < length (file_sectors h)" "nat (i + 1) = Suc (nat i)" using i H(3,4,5) by auto
    have k: "?k = file_sectors h ! nat i" using H(9) i by blast
    then have in_s: "?k \<in> set (file_sectors h)" using l(2) by simp
    have "?k \<notin> set (take (nat i) (dataSectors h))"
    proof -
      have "distinct (take (Suc (nat i)) (dataSectors h))"
      proof -
        have "Suc (nat i) \<le> nat (numSectors h)" using i(1,2) by linarith
        then have "take (Suc (nat i)) (dataSectors h) = take (Suc (nat i)) (file_sectors h)"
          by (simp add: file_sectors_def min_def)
        then show ?thesis using H(7) by simp
      qed
      then show ?thesis using l(1) by (simp add: take_Suc_conv_app_nth)
    qed
    then have t: "?k \<in> bits m" using i(3) in_s assms(4) by auto
    have r: "0 \<le> ?k" "?k < 1024" using H(8) [OF in_s] by (simp_all add: disk_sizes)
    obtain m' where "Clear m ?k = Inr m'" "wf_BitMap m'" "numBits m' = 1024" "bits m' = bits m - {?k}"
      using Clear_ok [of m ?k] i(3) r by auto
    then show "\<exists>m'. bind_result (array_get (dataSectors h) i) (\<lambda>k.
        bind_result (Test m k) (\<lambda>t. bind_result (ASSERT t) (\<lambda>_. Clear m k))) = Inr m' \<and> ?I (i + 1) m'"
      using i l t r by (auto simp: take_Suc_conv_app_nth zless_nat_eq_int_zless)
  qed (use assms H in auto)
  then show ?thesis by (simp add: file_sectors_def)
qed

section \<open>The invariant\<close>

definition the_map_of :: "filesys \<Rightarrow> BitMap" where
  "the_map_of s = \<lparr>numBits = 1024, numWords = 32, bmap = words_of 32 (contents (ohdr (freeMapFile s)) (dsk s))\<rparr>"

definition the_dir_of :: "filesys \<Rightarrow> Directory" where
  "the_dir_of s = \<lparr>tableSize = 10, dtable = table_from 10 (contents (ohdr (directoryFile s)) (dsk s))\<rparr>"

text \<open>The sectors of a file: its header, in sector \<open>k\<close>, and its data; and those of the system.\<close>

definition file_blocks :: "u8 list \<Rightarrow> int \<Rightarrow> int set" where
  "file_blocks d k = insert k (set (file_sectors (hdr_at d k)))"

definition system_blocks :: "filesys \<Rightarrow> int set" where
  "system_blocks s = {0, 1} \<union> set (file_sectors (ohdr (freeMapFile s))) \<union> set (file_sectors (ohdr (directoryFile s)))"

text \<open>The two files of the system.\<close>

definition system_ok :: "filesys \<Rightarrow> bool" where
  "system_ok s \<longleftrightarrow> disk_file_ok (dsk s) \<and>
     header_ok (ohdr (freeMapFile s)) \<and> numBytes (ohdr (freeMapFile s)) = 128 \<and>
     header_ok (ohdr (directoryFile s)) \<and> numBytes (ohdr (directoryFile s)) = 200 \<and>
     hdr_at (dsk s) 0 = ohdr (freeMapFile s) \<and> hdr_at (dsk s) 1 = ohdr (directoryFile s) \<and>
     seekPosition (freeMapFile s) = 0 \<and> seekPosition (directoryFile s) = 0 \<and>
     {0, 1} \<inter> (set (file_sectors (ohdr (freeMapFile s))) \<union> set (file_sectors (ohdr (directoryFile s)))) = {} \<and>
     set (file_sectors (ohdr (freeMapFile s))) \<inter> set (file_sectors (ohdr (directoryFile s))) = {}"

text \<open>The files with the names in the map \<open>m\<close>; every sector has one owner, and the bits are those of owned sectors.\<close>

definition files_ok :: "filesys \<Rightarrow> (u8 list \<Rightarrow> int option) \<Rightarrow> int set \<Rightarrow> bool" where
  "files_ok s m used \<longleftrightarrow>
     (\<forall>n k. m n = Some k \<longrightarrow> 0 \<le> k \<and> k < 1024 \<and> header_ok (hdr_at (dsk s) k) \<and>
        k \<notin> set (file_sectors (hdr_at (dsk s) k)) \<and> file_blocks (dsk s) k \<inter> system_blocks s = {}) \<and>
     (\<forall>n n' k k'. m n = Some k \<and> m n' = Some k' \<and> n \<noteq> n' \<longrightarrow> file_blocks (dsk s) k \<inter> file_blocks (dsk s) k' = {}) \<and>
     used = system_blocks s \<union> (\<Union>k\<in>ran m. file_blocks (dsk s) k)"

definition fs_inv :: "filesys \<Rightarrow> BitMap \<Rightarrow> Directory \<Rightarrow> bool" where
  "fs_inv s b dir \<longleftrightarrow> system_ok s \<and> stores_map (ohdr (freeMapFile s)) (dsk s) b \<and>
     stores_dir (ohdr (directoryFile s)) (dsk s) dir \<and> files_ok s (dir_map dir) (bits b)"

definition fs_ok :: "filesys \<Rightarrow> bool" where
  "fs_ok s \<longleftrightarrow> fs_inv s (the_map_of s) (the_dir_of s)"

lemma fs_inv_unique: "fs_inv s b dir \<Longrightarrow> b = the_map_of s \<and> dir = the_dir_of s"
proof -
  assume i: "fs_inv s b dir"
  then have m: "stores_map (ohdr (freeMapFile s)) (dsk s) b" and d: "stores_dir (ohdr (directoryFile s)) (dsk s) dir"
    by (simp_all add: fs_inv_def)
  have "length (bmap b) = 32" "numWords b = 32" "numBits b = 1024" using m wf_words [of b] by (simp_all add: stores_map_def)
  moreover have "words_of (length (bmap b)) (words_bytes (bmap b) @ []) = bmap b" by (rule words_of_bytes)
  ultimately have "b = the_map_of s" using m by (simp add: the_map_of_def stores_map_def)
  moreover have "table_from 10 (table_image (dtable dir) @ []) = dtable dir"
    using d by (intro table_roundtrip) (simp_all add: stores_dir_def dir_ok_def)
  then have "dir = the_dir_of s" using d by (simp add: the_dir_of_def stores_dir_def)
  ultimately show ?thesis by simp
qed

lemma fs_ok_iff: "fs_ok s \<longleftrightarrow> (\<exists>b dir. fs_inv s b dir)"
  using fs_inv_unique by (auto simp: fs_ok_def)

text \<open>The abstraction: the files that there are, and how many sectors are free.\<close>

definition files :: "filesys \<Rightarrow> u8 list \<Rightarrow> u8 list option" where
  "files s name = map_option (\<lambda>k. contents (hdr_at (dsk s) k) (dsk s)) (dir_map (the_dir_of s) name)"

definition room :: "filesys \<Rightarrow> int" where
  "room s = free_sectors (the_map_of s)"

lemma fs_inv_view:
  "fs_inv s b dir \<Longrightarrow> files s = (\<lambda>name. map_option (\<lambda>k. contents (hdr_at (dsk s) k) (dsk s)) (dir_map dir name)) \<and>
    room s = free_sectors b \<and> fs_ok s"
  using fs_inv_unique [of s b dir] by (auto simp: files_def fun_eq_iff room_def fs_ok_def)

definition fresh_ok :: "fresh \<Rightarrow> bool" where
  "fresh_ok g \<longleftrightarrow> (\<forall>i. wf_entry (fresh_entries g i)) \<and> (\<forall>i. blank_ok (fresh_header g i))"

lemma fetch_ok:
  assumes "fs_inv s b dir"
  shows "fetch_directory g s = Inr dir" "fetch_map g s = Inr b"
proof -
  obtain m where "new_BitMap (fresh_words g) NumSectors = Inr m" "wf_BitMap m" "numBits m = 1024"
    using new_BitMap_ok [of NumSectors "fresh_words g"] by (auto simp: disk_sizes)
  with assms show "fetch_map g s = Inr b"
    using BitMap_FetchFrom_ok [of "ohdr (freeMapFile s)" "dsk s" b m] by (simp add: fetch_map_def fs_inv_def system_ok_def)
  show "fetch_directory g s = Inr dir"
    using assms Directory_FetchFrom_ok [of "ohdr (directoryFile s)" "dsk s" dir]
    by (simp add: fetch_directory_def fs_inv_def system_ok_def NumDirEntries_def new_Directory_def)
qed

text \<open>What a change of other sectors leaves alone.\<close>

lemma file_frame:
  assumes "same_outside S d d'" "S \<inter> file_blocks d k = {}" "0 \<le> k"
  shows "hdr_at d' k = hdr_at d k" "file_blocks d' k = file_blocks d k"
    "header_ok (hdr_at d k) \<Longrightarrow> contents (hdr_at d k) d' = contents (hdr_at d k) d"
proof -
  show h: "hdr_at d' k = hdr_at d k" using assms by (auto simp: hdr_at_def same_outside_def file_blocks_def)
  then show "file_blocks d' k = file_blocks d k" by (simp add: file_blocks_def)
  show "contents (hdr_at d k) d' = contents (hdr_at d k) d" if "header_ok (hdr_at d k)"
    using contents_same [OF that assms(1)] assms(2) by (auto simp: file_blocks_def)
qed

lemma system_frame:
  assumes "system_ok s" "same_outside S (dsk s) d'" "{0, 1} \<inter> S = {}" "disk_file_ok d'"
  shows "system_ok (s\<lparr>dsk := d'\<rparr>)" "system_blocks (s\<lparr>dsk := d'\<rparr>) = system_blocks s"
  using assms by (auto simp: system_ok_def hdr_at_def same_outside_def system_blocks_def)

lemma files_okI:
  assumes "\<And>n k. m n = Some k \<Longrightarrow> 0 \<le> k \<and> k < 1024 \<and> header_ok (hdr_at (dsk s) k) \<and>
      k \<notin> set (file_sectors (hdr_at (dsk s) k)) \<and> file_blocks (dsk s) k \<inter> system_blocks s = {}"
    and "\<And>n n' k k'. m n = Some k \<Longrightarrow> m n' = Some k' \<Longrightarrow> n \<noteq> n' \<Longrightarrow> file_blocks (dsk s) k \<inter> file_blocks (dsk s) k' = {}"
    and "U = system_blocks s \<union> (\<Union>k\<in>ran m. file_blocks (dsk s) k)"
  shows "files_ok s m U"
  unfolding files_ok_def using assms by blast

lemma files_okD:
  assumes "files_ok s m U"
  shows "\<And>n k. m n = Some k \<Longrightarrow> 0 \<le> k \<and> k < 1024 \<and> header_ok (hdr_at (dsk s) k) \<and>
      k \<notin> set (file_sectors (hdr_at (dsk s) k)) \<and> file_blocks (dsk s) k \<inter> system_blocks s = {}"
    and "\<And>n n' k k'. m n = Some k \<Longrightarrow> m n' = Some k' \<Longrightarrow> n \<noteq> n' \<Longrightarrow> file_blocks (dsk s) k \<inter> file_blocks (dsk s) k' = {}"
    and "U = system_blocks s \<union> (\<Union>k\<in>ran m. file_blocks (dsk s) k)"
  using assms unfolding files_ok_def by blast+

text \<open>Only the headers matter to the invariant.\<close>

lemma files_same_headers:
  assumes f: "files_ok s m U" and h: "\<And>n k. m n = Some k \<Longrightarrow> hdr_at d' k = hdr_at (dsk s) k"
  shows "files_ok (s\<lparr>dsk := d'\<rparr>) m U"
proof -
  have same: "file_blocks d' k = file_blocks (dsk s) k" if "m n = Some k" for n k
    using h [OF that] by (simp add: file_blocks_def)
  then have "(\<Union>k\<in>ran m. file_blocks d' k) = (\<Union>k\<in>ran m. file_blocks (dsk s) k)" by (auto simp: ran_def)
  moreover have sb: "system_blocks (s\<lparr>dsk := d'\<rparr>) = system_blocks s" by (simp add: system_blocks_def)
  ultimately have "U = system_blocks (s\<lparr>dsk := d'\<rparr>) \<union> (\<Union>k\<in>ran m. file_blocks d' k)"
    using files_okD(3) [OF f] by simp
  moreover have "file_blocks d' k \<inter> file_blocks d' l = {}" if "m n = Some k" "m n' = Some l" "n \<noteq> n'" for n n' k l
    using files_okD(2) [OF f that] same [OF that(1)] same [OF that(2)] by simp
  moreover have "0 \<le> k \<and> k < 1024 \<and> header_ok (hdr_at d' k) \<and> k \<notin> set (file_sectors (hdr_at d' k)) \<and>
      file_blocks d' k \<inter> system_blocks (s\<lparr>dsk := d'\<rparr>) = {}" if "m n = Some k" for n k
    using files_okD(1) [OF f that] h [OF that] same [OF that] sb by simp
  ultimately show ?thesis by (intro files_okI) simp_all
qed

lemma files_frame:
  assumes f: "files_ok s m U" and S: "same_outside S (dsk s) d'"
    and out: "\<And>n k. m n = Some k \<Longrightarrow> S \<inter> file_blocks (dsk s) k = {}"
  shows "files_ok (s\<lparr>dsk := d'\<rparr>) m U"
    "\<And>n k. m n = Some k \<Longrightarrow> contents (hdr_at d' k) d' = contents (hdr_at (dsk s) k) (dsk s)"
proof -
  have same: "hdr_at d' k = hdr_at (dsk s) k" if "m n = Some k" for n k
    using file_frame(1) [OF S out [OF that]] files_okD(1) [OF f that] by simp
  then show "files_ok (s\<lparr>dsk := d'\<rparr>) m U" by (rule files_same_headers [OF f])
  show "contents (hdr_at d' k) d' = contents (hdr_at (dsk s) k) (dsk s)" if "m n = Some k" for n k
    using file_frame(3) [OF S out [OF that]] files_okD(1) [OF f that] same [OF that] by simp
qed

section \<open>Create\<close>

lemma fs_invD:
  assumes "fs_inv s b dir"
  shows "system_ok s" "wf_BitMap b" "numBits b = 1024" "dir_ok dir" "tableSize dir = 10" "files_ok s (dir_map dir) (bits b)"
    "disk_file_ok (dsk s)" "system_blocks s \<subseteq> bits b" "\<And>n k. dir_map dir n = Some k \<Longrightarrow> file_blocks (dsk s) k \<subseteq> bits b"
    "stores_map (ohdr (freeMapFile s)) (dsk s) b" "stores_dir (ohdr (directoryFile s)) (dsk s) dir"
  using assms by (auto simp: fs_inv_def stores_map_def stores_dir_def system_ok_def files_ok_def ran_def)

lemma system_okD:
  assumes "system_ok s"
  shows "header_ok (ohdr (freeMapFile s))" "header_ok (ohdr (directoryFile s))"
    "numBytes (ohdr (freeMapFile s)) = 128" "numBytes (ohdr (directoryFile s)) = 200"
    "set (file_sectors (ohdr (freeMapFile s))) \<subseteq> system_blocks s" "set (file_sectors (ohdr (directoryFile s))) \<subseteq> system_blocks s"
    "{0, 1} \<inter> set (file_sectors (ohdr (freeMapFile s))) = {}" "{0, 1} \<inter> set (file_sectors (ohdr (directoryFile s))) = {}"
    "set (file_sectors (ohdr (freeMapFile s))) \<inter> set (file_sectors (ohdr (directoryFile s))) = {}"
  using assms by (auto simp: system_ok_def system_blocks_def)

text \<open>Writing back the directory and the bitmap, in either order.\<close>

lemma write_back_ok:
  assumes sys: "system_ok s" and d: "disk_file_ok d" "same_outside S (dsk s) d" "S \<inter> system_blocks s = {}"
    and dir: "dir_ok dir" "tableSize dir = 10" and b: "wf_BitMap b" "numBits b = 1024"
  shows "\<exists>d1 d2. Directory_WriteBack g dir (ohdr (directoryFile s)) d = Inr d1 \<and>
      BitMap_WriteBack g' b (ohdr (freeMapFile s)) d1 = Inr d2 \<and>
      same_outside (system_blocks s - {0, 1}) d d2 \<and>
      system_ok (s\<lparr>dsk := d2\<rparr>) \<and> system_blocks (s\<lparr>dsk := d2\<rparr>) = system_blocks s \<and>
      stores_map (ohdr (freeMapFile s)) d2 b \<and> stores_dir (ohdr (directoryFile s)) d2 dir" (is ?A)
    and "\<exists>d1 d2. BitMap_WriteBack g' b (ohdr (freeMapFile s)) d = Inr d1 \<and>
      Directory_WriteBack g dir (ohdr (directoryFile s)) d1 = Inr d2 \<and>
      same_outside (system_blocks s - {0, 1}) d d2 \<and>
      system_ok (s\<lparr>dsk := d2\<rparr>) \<and> system_blocks (s\<lparr>dsk := d2\<rparr>) = system_blocks s \<and>
      stores_map (ohdr (freeMapFile s)) d2 b \<and> stores_dir (ohdr (directoryFile s)) d2 dir" (is ?B)
proof -
  note H = system_okD [OF sys]
  let ?fs = "set (file_sectors (ohdr (freeMapFile s)))" and ?ds = "set (file_sectors (ohdr (directoryFile s)))"
  have fin: "same_outside (system_blocks s - {0, 1}) d e \<and> system_ok (s\<lparr>dsk := e\<rparr>) \<and> system_blocks (s\<lparr>dsk := e\<rparr>) = system_blocks s"
    if "same_outside (?fs \<union> ?ds) d e" "disk_file_ok e" for e
  proof -
    have "same_outside (S \<union> (?fs \<union> ?ds)) (dsk s) e" by (rule same_outside_trans [OF d(2) that(1)])
    moreover have "{0, 1} \<inter> (S \<union> (?fs \<union> ?ds)) = {}" using d(3) H(7,8) by (auto simp: system_blocks_def)
    moreover have "?fs \<union> ?ds \<subseteq> system_blocks s - {0, 1}" using H(5-8) by blast
    ultimately show ?thesis
      using system_frame [OF sys _ _ that(2)] same_outside_mono [OF that(1)] by simp
  qed
  obtain d1 where d1: "Directory_WriteBack g dir (ohdr (directoryFile s)) d = Inr d1" "disk_file_ok d1" "same_outside ?ds d d1"
    "stores_dir (ohdr (directoryFile s)) d1 dir"
    using Directory_WriteBack_ok [OF H(2) d(1) H(4) dir] by blast
  obtain d2 where d2: "BitMap_WriteBack g' b (ohdr (freeMapFile s)) d1 = Inr d2" "disk_file_ok d2" "same_outside ?fs d1 d2"
    "stores_map (ohdr (freeMapFile s)) d2 b"
    using BitMap_WriteBack_ok [OF H(1) d1(2) H(3) b] by blast
  have "stores_dir (ohdr (directoryFile s)) d2 dir"
    using d1(4) contents_same [OF H(2) d2(3) H(9)] by (simp add: stores_dir_def)
  moreover have "same_outside (?fs \<union> ?ds) d d2" using same_outside_trans [OF d1(3) d2(3)] by (simp add: Un_commute)
  ultimately show ?A using fin [OF _ d2(2)] d1(1) d2(1,4) by blast
  obtain e1 where e1: "BitMap_WriteBack g' b (ohdr (freeMapFile s)) d = Inr e1" "disk_file_ok e1" "same_outside ?fs d e1"
    "stores_map (ohdr (freeMapFile s)) e1 b"
    using BitMap_WriteBack_ok [OF H(1) d(1) H(3) b] by blast
  obtain e2 where e2: "Directory_WriteBack g dir (ohdr (directoryFile s)) e1 = Inr e2" "disk_file_ok e2" "same_outside ?ds e1 e2"
    "stores_dir (ohdr (directoryFile s)) e2 dir"
    using Directory_WriteBack_ok [OF H(2) e1(2) H(4) dir] by blast
  have "?ds \<inter> ?fs = {}" using H(9) by blast
  then have "stores_map (ohdr (freeMapFile s)) e2 b"
    using e1(4) contents_same [OF H(1) e2(3)] by (simp add: stores_map_def)
  then show ?B using fin [OF same_outside_trans [OF e1(3) e2(3)] e2(2)] e1(1) e2(1,4) by blast
qed

lemma dir_map_cong: "dtable dir' = dtable dir \<Longrightarrow> dir_map dir' = dir_map dir"
  by (simp add: dir_map_def fun_eq_iff)

lemma Directory_sizes:
  "Directory_Add name k dir = (ok, dir') \<Longrightarrow> tableSize dir' = tableSize dir"
  "Directory_Remove name dir = (ok, dir') \<Longrightarrow> tableSize dir' = tableSize dir"
  by (auto simp: Directory_Add_def Directory_Remove_def Let_def split: if_splits option.splits)

text \<open>The new file joins the others.\<close>

lemma files_add:
  assumes f: "files_ok s m U" and k: "0 \<le> k" "k < 1024" "header_ok h" "k \<notin> set (file_sectors h)"
    and new: "insert k (set (file_sectors h)) \<inter> U = {}" and d: "hdr_at d k = h"
    and S: "same_outside S (dsk s) d" "\<And>n l. m n = Some l \<Longrightarrow> S \<inter> file_blocks (dsk s) l = {}"
    and nm: "m name = None"
  shows "files_ok (s\<lparr>dsk := d\<rparr>) (m(name \<mapsto> k)) (U \<union> insert k (set (file_sectors h)))"
proof -
  have F: "files_ok (s\<lparr>dsk := d\<rparr>) m U" by (rule files_frame(1) [OF f S(1)]) (rule S(2))
  note D = files_okD [OF F]
  have b: "file_blocks d k = insert k (set (file_sectors h))" using d by (simp add: file_blocks_def)
  have U: "file_blocks d l \<subseteq> U" if "m n = Some l" for n l using D(3) that by (auto simp: ran_def)
  have dj: "file_blocks d k \<inter> file_blocks d l = {}" if "m n = Some l" for n l using U [OF that] new b by auto
  show ?thesis
  proof (rule files_okI)
    fix n l assume l: "(m(name \<mapsto> k)) n = Some l"
    show "0 \<le> l \<and> l < 1024 \<and> header_ok (hdr_at (dsk (s\<lparr>dsk := d\<rparr>)) l) \<and>
        l \<notin> set (file_sectors (hdr_at (dsk (s\<lparr>dsk := d\<rparr>)) l)) \<and>
        file_blocks (dsk (s\<lparr>dsk := d\<rparr>)) l \<inter> system_blocks (s\<lparr>dsk := d\<rparr>) = {}"
    proof (cases "n = name")
      case True
      then have "l = k" using l by simp
      moreover have "file_blocks d k \<inter> system_blocks (s\<lparr>dsk := d\<rparr>) = {}" using D(3) b new by auto
      ultimately show ?thesis using k d by simp
    next
      case False
      then have "m n = Some l" using l by simp
      then show ?thesis using D(1) by simp
    qed
  next
    fix n n' l l' assume "(m(name \<mapsto> k)) n = Some l" "(m(name \<mapsto> k)) n' = Some l'" "n \<noteq> n'"
    then show "file_blocks (dsk (s\<lparr>dsk := d\<rparr>)) l \<inter> file_blocks (dsk (s\<lparr>dsk := d\<rparr>)) l' = {}"
      using D(2) [of n l n' l'] dj [of n' l'] dj [of n l] by (cases "n = name"; cases "n' = name") (simp_all add: Int_commute)
  next
    have "ran (m(name \<mapsto> k)) = insert k (ran m)" using nm by (rule ran_map_upd)
    then show "U \<union> insert k (set (file_sectors h)) = system_blocks (s\<lparr>dsk := d\<rparr>) \<union>
        (\<Union>l\<in>ran (m(name \<mapsto> k)). file_blocks (dsk (s\<lparr>dsk := d\<rparr>)) l)"
      using D(3) b by auto
  qed
qed

lemma FS_Create_ok:
  assumes i: "fs_inv s b dir" and g: "fresh_ok g" and name: "0 \<notin> set name" and n: "0 \<le> n" "n \<le> MaxFileSize"
  shows "if dir_map dir (key_of name) = None \<and> \<not> dir_full dir \<and> divRoundUp n 128 + 1 \<le> free_sectors b
    then \<exists>d b' dir' k. FS_Create g name n s = Inr (True, s\<lparr>dsk := d\<rparr>) \<and> fs_inv (s\<lparr>dsk := d\<rparr>) b' dir' \<and>
      dir_map dir' = (dir_map dir)(key_of name \<mapsto> k) \<and> free_sectors b' = free_sectors b - (divRoundUp n 128 + 1) \<and>
      numBytes (hdr_at d k) = n \<and>
      (\<forall>m l. dir_map dir m = Some l \<longrightarrow> contents (hdr_at d l) d = contents (hdr_at (dsk s) l) (dsk s))
    else FS_Create g name n s = Inr (False, s)"
proof (cases "dir_map dir (key_of name)")
  note I = fs_invD [OF i]
  case (Some k)
  then have "Directory_Find name dir = k" "0 \<le> k" using Directory_Find_ok [OF I(4) name] files_okD(1) [OF I(6) Some] by simp_all
  then show ?thesis using Some by (simp add: FS_Create_def fetch_ok [OF i])
next
  note I = fs_invD [OF i]
  case None
  then have nf: "Directory_Find name dir = - 1" using Directory_Find_ok [OF I(4) name] by simp
  have pos: "0 \<le> divRoundUp n 128" by (rule divRoundUp_nonneg [OF n(1)]) simp
  show ?thesis
  proof (cases "0 < free_sectors b")
    case False
    have "{0..<numBits b} \<subseteq> bits b"
    proof (rule ccontr)
      assume "\<not> {0..<numBits b} \<subseteq> bits b"
      then have "bits b \<subset> {0..<1024}" using bits_range [of b] I(3) by auto
      then have "card (bits b) < card {0..<1024 :: int}" by (intro psubset_card_mono) simp_all
      then show False using False by (simp add: free_sectors_def)
    qed
    then have "Find b = Inr (- 1, b)" by (rule Find_full [OF I(2)])
    then show ?thesis using False pos nf by (simp add: FS_Create_def fetch_ok [OF i])
  next
    case True
    obtain k b1 where k: "Find b = Inr (k, b1)" "0 \<le> k" "k < 1024" "k \<notin> bits b" "wf_BitMap b1" "numBits b1 = 1024"
      "bits b1 = insert k (bits b)"
      using Find_free [OF I(2) free_sector_exists [OF I(2,3) True]] I(3) by auto
    have fr: "free_sectors b1 = free_sectors b - 1" by (rule free_sectors_insert [OF k(4,7)])
    have "int32 k" using k(2,3) by (simp add: int32_def)
    note A = Directory_Add_ok [OF I(4) name this]
    show ?thesis
    proof (cases "dir_full dir")
      case True
      then show ?thesis using A nf k(1,2) None by (simp add: FS_Create_def fetch_ok [OF i])
    next
      case False
      then obtain dir' where a: "Directory_Add name k dir = (True, dir')" "dir_ok dir'"
        "dir_map dir' = (dir_map dir)(key_of name \<mapsto> k)" "length (dtable dir') = length (dtable dir)"
        using A None by auto
      have ts: "tableSize dir' = 10" using Directory_sizes(1) [OF a(1)] I(5) by simp
      have bl: "blank_ok (fresh_header g 0)" using g by (simp add: fresh_ok_def)
      note B = Allocate_ok [OF k(5,6) bl n]
      show ?thesis
      proof (cases "divRoundUp n 128 \<le> free_sectors b1")
        case False
        then show ?thesis using B nf k(1,2) None a(1) fr by (auto simp: FS_Create_def fetch_ok [OF i])
      next
        case True
        then obtain h b2 where h: "Allocate (fresh_header g 0) b1 n = Inr (True, h, b2)" "header_ok h" "numBytes h = n"
          "wf_BitMap b2" "numBits b2 = 1024" "set (file_sectors h) \<inter> bits b1 = {}"
          "bits b2 = bits b1 \<union> set (file_sectors h)" "free_sectors b2 = free_sectors b1 - divRoundUp n 128"
          using B by auto
        have kh: "k \<notin> set (file_sectors h)" using h(6) k(7) by auto
        obtain d1 where d1: "Header_WriteBack h k (dsk s) = Inr d1" "disk_file_ok d1" "same_outside {k} (dsk s) d1" "hdr_at d1 k = h"
          using Header_WriteBack_ok [OF I(7) h(2) k(2)] k(3) by (auto simp: disk_sizes)
        have ks: "{k} \<inter> system_blocks s = {}" using k(4) I(8) by blast
        obtain d2 d3 where d: "Directory_WriteBack (fresh_bytes g 1) dir' (ohdr (directoryFile s)) d1 = Inr d2"
          "BitMap_WriteBack (fresh_bytes g 0) b2 (ohdr (freeMapFile s)) d2 = Inr d3"
          "same_outside (system_blocks s - {0, 1}) d1 d3" "system_ok (s\<lparr>dsk := d3\<rparr>)"
          "stores_map (ohdr (freeMapFile s)) d3 b2" "stores_dir (ohdr (directoryFile s)) d3 dir'"
          using write_back_ok(1) [OF I(1) d1(2,3) ks a(2) ts h(4,5)] by blast
        define S where "S = {k} \<union> (system_blocks s - {0, 1})"
        have S: "same_outside S (dsk s) d3" unfolding S_def by (rule same_outside_trans [OF d1(3) d(3)])
        have out: "S \<inter> file_blocks (dsk s) l = {}" if "dir_map dir m = Some l" for m l
          using files_okD(1) [OF I(6) that] I(9) [OF that] k(4) by (auto simp: S_def)
        have hk: "hdr_at d3 k = h" using d(3) d1(4) k(2) ks by (auto simp: same_outside_def hdr_at_def)
        have new: "insert k (set (file_sectors h)) \<inter> bits b = {}" using h(6) k(4,7) by auto
        have "files_ok (s\<lparr>dsk := d3\<rparr>) ((dir_map dir)(key_of name \<mapsto> k)) (bits b \<union> insert k (set (file_sectors h)))"
          by (rule files_add [OF I(6) k(2,3) h(2) kh new hk S _ None]) (rule out)
        moreover have "bits b2 = bits b \<union> insert k (set (file_sectors h))" using h(7) k(7) by auto
        ultimately have "fs_inv (s\<lparr>dsk := d3\<rparr>) b2 dir'" using d(4-6) a(3) by (simp add: fs_inv_def)
        moreover have "contents (hdr_at d3 l) d3 = contents (hdr_at (dsk s) l) (dsk s)" if "dir_map dir m = Some l" for m l
          by (rule files_frame(2) [OF I(6) S _ that]) (rule out)
        moreover have "FS_Create g name n s = Inr (True, s\<lparr>dsk := d3\<rparr>)"
          using nf k(1,2) a(1) h(1) d1(1) d(1,2) by (simp add: FS_Create_def fetch_ok [OF i])
        moreover have "dir_map dir (key_of name) = None \<and> \<not> dir_full dir \<and> divRoundUp n 128 + 1 \<le> free_sectors b"
          using True False None fr by simp
        moreover have "free_sectors b2 = free_sectors b - (divRoundUp n 128 + 1)" "numBytes (hdr_at d3 k) = n"
          using fr h(3,8) hk by simp_all
        ultimately show ?thesis using a(3) by (simp only: simp_thms if_True) blast
      qed
    qed
  qed
qed

section \<open>Remove\<close>

lemma files_remove:
  assumes f: "files_ok s m U" and k: "m name = Some k"
  shows "files_ok s (m(name := None)) (U - file_blocks (dsk s) k)"
proof -
  note D = files_okD [OF f]
  have "file_blocks (dsk s) k \<inter> file_blocks (dsk s) l = {}" if "l \<in> ran (m(name := None))" for l
    using that D(2) [OF k] by (auto simp: ran_def split: if_splits)
  moreover have "file_blocks (dsk s) k \<inter> system_blocks s = {}" using D(1) [OF k] by simp
  moreover have "ran m = insert k (ran (m(name := None)))"
    using ran_map_upd [of "m(name := None)" name k] k by (simp add: fun_upd_idem)
  ultimately have "U - file_blocks (dsk s) k = system_blocks s \<union> (\<Union>l\<in>ran (m(name := None)). file_blocks (dsk s) l)"
    unfolding D(3) by auto
  then show ?thesis
  proof (intro files_okI)
    fix n l assume "(m(name := None)) n = Some l"
    then show "0 \<le> l \<and> l < 1024 \<and> header_ok (hdr_at (dsk s) l) \<and> l \<notin> set (file_sectors (hdr_at (dsk s) l)) \<and>
        file_blocks (dsk s) l \<inter> system_blocks s = {}" using D(1) [of n l] by (simp split: if_splits)
  next
    fix n n' l l' assume "(m(name := None)) n = Some l" "(m(name := None)) n' = Some l'" "n \<noteq> n'"
    then show "file_blocks (dsk s) l \<inter> file_blocks (dsk s) l' = {}" using D(2) [of n l n' l'] by (simp split: if_splits)
  qed
qed

lemma FS_Remove_ok:
  assumes i: "fs_inv s b dir" and name: "0 \<notin> set name"
  shows "case dir_map dir (key_of name) of
      None \<Rightarrow> FS_Remove g name s = Inr (False, s)
    | Some k \<Rightarrow> \<exists>d b' dir'. FS_Remove g name s = Inr (True, s\<lparr>dsk := d\<rparr>) \<and> fs_inv (s\<lparr>dsk := d\<rparr>) b' dir' \<and>
        dir_map dir' = (dir_map dir)(key_of name := None) \<and>
        free_sectors b' = free_sectors b + (divRoundUp (numBytes (hdr_at (dsk s) k)) 128 + 1) \<and>
        (\<forall>m l. dir_map dir m = Some l \<longrightarrow> contents (hdr_at d l) d = contents (hdr_at (dsk s) l) (dsk s))"
proof (cases "dir_map dir (key_of name)")
  note I = fs_invD [OF i]
  case None
  then show ?thesis using Directory_Find_ok [OF I(4) name] by (simp add: FS_Remove_def fetch_ok [OF i])
next
  note I = fs_invD [OF i]
  case (Some k)
  let ?h = "hdr_at (dsk s) k"
  have k: "0 \<le> k" "k < 1024" "header_ok ?h" "k \<notin> set (file_sectors ?h)" "file_blocks (dsk s) k \<inter> system_blocks s = {}"
    using files_okD(1) [OF I(6) Some] by simp_all
  have fk: "Directory_Find name dir = k" using Directory_Find_ok [OF I(4) name] Some by simp
  have fb: "file_blocks (dsk s) k \<subseteq> bits b" by (rule I(9) [OF Some])
  obtain b1 where b1: "Deallocate ?h b = Inr b1" "wf_BitMap b1" "numBits b1 = 1024" "bits b1 = bits b - set (file_sectors ?h)"
    using Deallocate_ok [OF k(3) I(2,3)] fb by (auto simp: file_blocks_def)
  obtain b2 where b2: "Clear b1 k = Inr b2" "wf_BitMap b2" "numBits b2 = 1024" "bits b2 = bits b1 - {k}"
    using Clear_ok [OF b1(2), of k] k(1,2) b1(3) by auto
  have bits2: "bits b2 = bits b - file_blocks (dsk s) k" using b1(4) b2(4) by (auto simp: file_blocks_def)
  obtain dir' where a: "Directory_Remove name dir = (True, dir')" "dir_ok dir'" "dir_map dir' = (dir_map dir)(key_of name := None)"
    using Directory_Remove_ok [OF I(4) name] Some by auto
  have ts: "tableSize dir' = 10" using Directory_sizes(2) [OF a(1)] I(5) by simp
  obtain d1 d2 where d: "BitMap_WriteBack (fresh_bytes g 0) b2 (ohdr (freeMapFile s)) (dsk s) = Inr d1"
    "Directory_WriteBack (fresh_bytes g 1) dir' (ohdr (directoryFile s)) d1 = Inr d2"
    "same_outside (system_blocks s - {0, 1}) (dsk s) d2" "system_ok (s\<lparr>dsk := d2\<rparr>)"
    "stores_map (ohdr (freeMapFile s)) d2 b2" "stores_dir (ohdr (directoryFile s)) d2 dir'"
    using write_back_ok(2) [OF I(1) I(7) same_outside_refl [of "{}"] _ a(2) ts b2(2,3)] by blast
  have out: "(system_blocks s - {0, 1}) \<inter> file_blocks (dsk s) l = {}" if "dir_map dir m = Some l" for m l
    using files_okD(1) [OF I(6) that] by blast
  have "files_ok (s\<lparr>dsk := d2\<rparr>) ((dir_map dir)(key_of name := None)) (bits b2)"
  proof (rule files_frame(1))
    show "files_ok s ((dir_map dir)(key_of name := None)) (bits b2)" unfolding bits2 by (rule files_remove [OF I(6) Some])
    show "same_outside (system_blocks s - {0, 1}) (dsk s) d2" by (rule d(3))
  qed (use out in \<open>auto split: if_splits\<close>)
  then have "fs_inv (s\<lparr>dsk := d2\<rparr>) b2 dir'" using d(4-6) a(3) by (simp add: fs_inv_def)
  moreover have "contents (hdr_at d2 l) d2 = contents (hdr_at (dsk s) l) (dsk s)" if "dir_map dir m = Some l" for m l
    by (rule files_frame(2) [OF I(6) d(3) _ that]) (rule out)
  moreover have "FS_Remove g name s = Inr (True, s\<lparr>dsk := d2\<rparr>)"
    using fk k(1,2) b1(1) b2(1) a(1) d(1,2) I(7)
    by (simp add: FS_Remove_def fetch_ok [OF i] Header_FetchFrom_ok disk_sizes)
  moreover have "free_sectors b2 = free_sectors b + (divRoundUp (numBytes ?h) 128 + 1)"
  proof -
    have "finite (bits b)" using bits_range [of b] finite_subset by blast
    then have "card (bits b2) = card (bits b) - card (file_blocks (dsk s) k)" "card (file_blocks (dsk s) k) \<le> card (bits b)"
      using fb unfolding bits2 by (simp_all add: card_Diff_subset finite_subset card_mono)
    moreover have "int (card (file_blocks (dsk s) k)) = divRoundUp (numBytes ?h) 128 + 1"
      using k(4) header_facts(5,7) [OF k(3)] k(3) by (simp add: file_blocks_def distinct_card header_ok_def)
    ultimately show ?thesis by (simp add: free_sectors_def)
  qed
  ultimately show ?thesis using a(3) Some by (simp only: option.case) blast
qed

section \<open>Open files\<close>

lemma FS_Open_ok:
  assumes i: "fs_inv s b dir" and name: "0 \<notin> set name"
  shows "FS_Open g name s = Inr (map_option (\<lambda>k. \<lparr>ohdr = hdr_at (dsk s) k, seekPosition = 0\<rparr>) (dir_map dir (key_of name)))"
proof (cases "dir_map dir (key_of name)")
  note I = fs_invD [OF i]
  case None
  then show ?thesis using Directory_Find_ok [OF I(4) name] by (simp add: FS_Open_def fetch_ok [OF i])
next
  note I = fs_invD [OF i]
  case (Some k)
  then show ?thesis using Directory_Find_ok [OF I(4) name] files_okD(1) [OF I(6) Some] I(7)
    by (simp add: FS_Open_def fetch_ok [OF i] new_OpenFile_def Header_FetchFrom_ok disk_sizes)
qed

lemma write_file_ok:
  assumes i: "fs_inv s b dir" and k: "dir_map dir nm = Some k" and p: "0 \<le> p" "n \<le> int (length source)"
  defines "h \<equiv> hdr_at (dsk s) k" and "c \<equiv> contents (hdr_at (dsk s) k) (dsk s)"
  defines "m \<equiv> nat (min n (int (length c) - p))"
  shows "\<exists>d. WriteAt garbage h source n p (dsk s) = Inr (int m, d) \<and> fs_inv (s\<lparr>dsk := d\<rparr>) b dir \<and>
    files (s\<lparr>dsk := d\<rparr>) = (files s)(nm \<mapsto> take (nat p) c @ take m source @ drop (nat p + m) c) \<and>
    (\<forall>n' l. dir_map dir n' = Some l \<longrightarrow> hdr_at d l = hdr_at (dsk s) l)"
proof -
  note I = fs_invD [OF i]
  note H = system_okD [OF I(1)]
  have hk: "0 \<le> k" "header_ok h" "k \<notin> set (file_sectors h)" "file_blocks (dsk s) k \<inter> system_blocks s = {}"
    using files_okD(1) [OF I(6) k] by (simp_all add: h_def)
  let ?S = "set (file_sectors h)"
  have Sb: "?S \<subseteq> file_blocks (dsk s) k" by (auto simp: file_blocks_def h_def)
  have "numBytes h = int (length c)" using length_contents [OF hk(2) I(7)] by (simp add: c_def h_def)
  then obtain d where d: "WriteAt garbage h source n p (dsk s) = Inr (int m, d)" "disk_file_ok d" "same_outside ?S (dsk s) d"
    "contents h d = take (nat p) c @ take m source @ drop (nat p + m) c"
    using WriteAt_ok [OF hk(2) I(7) p, of garbage] by (auto simp: same_outside_def m_def c_def h_def)
  have out: "?S \<inter> file_blocks (dsk s) l = {}" if "dir_map dir n' = Some l" "n' \<noteq> nm" for n' l
    using files_okD(2) [OF I(6) k that(1)] that(2) Sb by blast
  have hd: "hdr_at d l = hdr_at (dsk s) l" if l: "dir_map dir n' = Some l" for n' l
  proof (cases "n' = nm")
    case True
    then have "l = k" using l k by simp
    then show ?thesis using d(3) hk(1,3) by (simp add: hdr_at_def same_outside_def)
  next
    case False
    show ?thesis by (rule file_frame(1) [OF d(3) out [OF l False]]) (use files_okD(1) [OF I(6) l] in simp)
  qed
  have S0: "?S \<inter> system_blocks s = {}" using Sb hk(4) by blast
  have "stores_map (ohdr (freeMapFile s)) d b"
    using I(10) contents_same [OF H(1) d(3)] S0 H(5) by (simp add: stores_map_def) blast
  moreover have "stores_dir (ohdr (directoryFile s)) d dir"
    using I(11) contents_same [OF H(2) d(3)] S0 H(6) by (simp add: stores_dir_def) blast
  moreover have "system_ok (s\<lparr>dsk := d\<rparr>)"
    by (rule system_frame(1) [OF I(1) d(3) _ d(2)]) (use S0 in \<open>auto simp: system_blocks_def\<close>)
  moreover have "files_ok (s\<lparr>dsk := d\<rparr>) (dir_map dir) (bits b)" by (rule files_same_headers [OF I(6) hd])
  ultimately have inv: "fs_inv (s\<lparr>dsk := d\<rparr>) b dir" by (simp add: fs_inv_def)
  have "files (s\<lparr>dsk := d\<rparr>) n' = ((files s)(nm \<mapsto> take (nat p) c @ take m source @ drop (nat p + m) c)) n'" for n'
  proof (cases "dir_map dir n'")
    case None
    then show ?thesis using fs_inv_view [OF inv] fs_inv_view [OF i] k by auto
  next
    case (Some l)
    have "files (s\<lparr>dsk := d\<rparr>) n' = Some (contents (hdr_at (dsk s) l) d)"
      using fs_inv_view [OF inv] Some hd [OF Some] by simp
    moreover have "contents (hdr_at (dsk s) l) d = contents (hdr_at (dsk s) l) (dsk s)" if "n' \<noteq> nm"
      by (rule file_frame(3) [OF d(3) out [OF Some that]]) (use files_okD(1) [OF I(6) Some] in simp_all)
    ultimately show ?thesis
      using fs_inv_view [OF i] Some k d(4) by (cases "n' = nm") (simp_all add: h_def)
  qed
  then show ?thesis using d(1) inv hd by (intro exI [of _ d]) (simp add: fun_eq_iff)
qed

section \<open>A new file system\<close>

lemma fs_inv_remount:
  assumes "fs_inv s b dir"
  shows "new_FileSystem g False (dsk s) = Inr s"
proof -
  have s: "system_ok s" using assms by (simp add: fs_inv_def)
  then have "open_system_files (dsk s) = Inr \<lparr>dsk = dsk s,
      freeMapFile = \<lparr>ohdr = ohdr (freeMapFile s), seekPosition = 0\<rparr>,
      directoryFile = \<lparr>ohdr = ohdr (directoryFile s), seekPosition = 0\<rparr>\<rparr>"
    by (simp add: open_system_files_def new_OpenFile_def Header_FetchFrom_ok system_ok_def FreeMapSector_def
        DirectorySector_def disk_sizes)
  moreover have "f = \<lparr>ohdr = ohdr f, seekPosition = 0\<rparr>" if "seekPosition f = 0" for f :: OpenFile using that by simp
  ultimately show ?thesis using s by (simp add: new_FileSystem_def system_ok_def)
qed

lemma format_ok:
  assumes d: "disk_file_ok d" and g: "fresh_ok g"
  shows "\<exists>s b dir. new_FileSystem g True d = Inr s \<and> fs_inv s b dir \<and> dir_map dir = Map.empty \<and> free_sectors b = 1019"
proof -
  have bl: "blank_ok (fresh_header g i)" for i using g by (simp add: fresh_ok_def)
  obtain m0 where m0: "new_BitMap (fresh_words g) NumSectors = Inr m0" "wf_BitMap m0" "numBits m0 = 1024" "bits m0 = {}"
    using new_BitMap_ok [of NumSectors "fresh_words g"] by (auto simp: disk_sizes)
  obtain m1 where m1: "Mark m0 0 = Inr m1" "wf_BitMap m1" "numBits m1 = 1024" "bits m1 = {0}"
    using Mark_ok [of m0 0] m0 by auto
  obtain m2 where m2: "Mark m1 1 = Inr m2" "wf_BitMap m2" "numBits m2 = 1024" "bits m2 = {0, 1}"
    using Mark_ok [of m1 1] m1 by auto
  have f2: "free_sectors m2 = 1022" using m2(4) by (simp add: free_sectors_def)
  have sz: "(128 :: int) \<le> MaxFileSize" "(200 :: int) \<le> MaxFileSize" "divRoundUp 128 128 = 1" "divRoundUp 200 128 = 2"
    by (simp_all add: MaxFileSize_def NumDirect_def SectorSize_def quot_nonneg divRoundUp_def)
  obtain h m3 where h: "Allocate (fresh_header g 0) m2 128 = Inr (True, h, m3)" "header_ok h" "numBytes h = 128"
    "wf_BitMap m3" "numBits m3 = 1024" "set (file_sectors h) \<inter> {0, 1} = {}" "bits m3 = {0, 1} \<union> set (file_sectors h)"
    "free_sectors m3 = 1021"
    using Allocate_ok [OF m2(2,3) bl [of 0] _ sz(1)] f2 sz m2(4) by auto
  obtain h' m4 where h': "Allocate (fresh_header g 1) m3 200 = Inr (True, h', m4)" "header_ok h'" "numBytes h' = 200"
    "wf_BitMap m4" "numBits m4 = 1024" "set (file_sectors h') \<inter> bits m3 = {}" "bits m4 = bits m3 \<union> set (file_sectors h')"
    "free_sectors m4 = 1019"
    using Allocate_ok [OF h(4,5) bl [of 1] _ sz(2)] h(8) sz by auto
  obtain d1 where d1: "Header_WriteBack h 0 d = Inr d1" "disk_file_ok d1" "hdr_at d1 0 = h"
    using Header_WriteBack_ok [OF d h(2), of 0] by (auto simp: disk_sizes)
  obtain d2 where d2: "Header_WriteBack h' 1 d1 = Inr d2" "disk_file_ok d2" "same_outside {1} d1 d2" "hdr_at d2 1 = h'"
    using Header_WriteBack_ok [OF d1(2) h'(2), of 1] by (auto simp: disk_sizes)
  have h0: "hdr_at d2 0 = h" using d2(3) d1(3) by (simp add: hdr_at_def same_outside_def)
  let ?s = "\<lparr>dsk = d2, freeMapFile = \<lparr>ohdr = h, seekPosition = 0\<rparr>, directoryFile = \<lparr>ohdr = h', seekPosition = 0\<rparr>\<rparr>"
  have o: "open_system_files d2 = Inr ?s"
    using d2(2,4) h0 by (simp add: open_system_files_def new_OpenFile_def Header_FetchFrom_ok FreeMapSector_def
        DirectorySector_def disk_sizes)
  have sys: "system_ok ?s"
    using d2(2,4) h0 h(2,3,6,7) h'(2,3,6) by (auto simp: system_ok_def)
  let ?dir = "new_Directory (fresh_entries g) NumDirEntries"
  have dir: "dir_ok ?dir" "dir_map ?dir = Map.empty" "tableSize ?dir = 10"
    using new_Directory_ok [of "fresh_entries g" NumDirEntries] g by (simp_all add: fresh_ok_def NumDirEntries_def)
     (simp add: new_Directory_def)
  obtain d3 d4 where w: "BitMap_WriteBack (fresh_bytes g 0) m4 h d2 = Inr d3" "Directory_WriteBack (fresh_bytes g 1) ?dir h' d3 = Inr d4"
    "system_ok (?s\<lparr>dsk := d4\<rparr>)" "stores_map h d4 m4" "stores_dir h' d4 ?dir"
    using write_back_ok(2) [OF sys d2(2), of "{}" ?dir m4 "fresh_bytes g 0" "fresh_bytes g 1"] dir(1,3) h'(4,5) by auto
  have "files_ok (?s\<lparr>dsk := d4\<rparr>) (dir_map ?dir) (bits m4)"
    using h(7) h'(7) by (auto simp: dir(2) files_ok_def system_blocks_def)
  then have "fs_inv (?s\<lparr>dsk := d4\<rparr>) m4 ?dir" using w(3-5) by (simp add: fs_inv_def)
  moreover have "new_FileSystem g True d = Inr (?s\<lparr>dsk := d4\<rparr>)"
    using m0(1) m1(1) m2(1) h(1) h'(1) d1(1) d2(1) o w(1,2)
    by (simp add: new_FileSystem_def Let_def FreeMapSector_def DirectorySector_def FreeMapFileSize_def
        DirectoryFileSize_def NumDirEntries_def disk_sizes quot_nonneg)
  ultimately show ?thesis using dir(2) h'(8) by blast
qed

end
