(* ===== verification/File_Claims.thy ===== *)
theory File_Claims
  imports File_System
begin

text \<open>
  What the file system promises: \<open>files\<close>, a map from names to byte lists, is what \<open>Create\<close>, \<open>Remove\<close>,
  \<open>Open\<close> and the operations on open files work on, and \<open>room\<close> is the number of sectors left.
\<close>

section \<open>A full directory\<close>

lemma card_dir_map:
  assumes "dir_ok dir"
  shows "card (dom (dir_map dir)) < length (dtable dir) \<longleftrightarrow> \<not> dir_full dir"
proof -
  let ?n = "length (dtable dir)"
  let ?U = "{i. i < ?n \<and> inUse (dtable dir ! i) \<noteq> 0}"
  have "dom (dir_map dir) = (\<lambda>i. cname (dtable dir ! i)) ` ?U"
    by (auto simp: dom_def dir_map_Some [OF assms])
  moreover have "inj_on (\<lambda>i. cname (dtable dir ! i)) ?U"
    using dir_okD(3) [OF assms] by (auto simp: inj_on_def)
  ultimately have c: "card (dom (dir_map dir)) = card ?U" by (simp add: card_image)
  have sub: "?U \<subseteq> {..<?n}" by blast
  have "card ?U < ?n \<longleftrightarrow> ?U \<noteq> {..<?n}"
  proof
    assume "?U \<noteq> {..<?n}"
    then have "?U \<subset> {..<?n}" using sub by (simp add: psubset_eq)
    then show "card ?U < ?n" using psubset_card_mono [of "{..<?n}" ?U] by simp
  next
    assume U: "card ?U < ?n"
    show "?U \<noteq> {..<?n}"
    proof
      assume "?U = {..<?n}"
      then have "card ?U = ?n" by (simp only: card_lessThan)
      then show False using U by (simp only: less_irrefl)
    qed
  qed
  also have "\<dots> \<longleftrightarrow> \<not> (\<forall>i<?n. inUse (dtable dir ! i) \<noteq> 0)" by blast
  also have "\<dots> \<longleftrightarrow> \<not> dir_full dir" by (simp add: dir_full_def all_set_conv_all_nth)
  finally show ?thesis using c by simp
qed

lemma dom_files: "fs_inv s b dir \<Longrightarrow> dom (files s) = dom (dir_map dir)"
  using fs_inv_view [of s b dir] by auto

lemma not_full:
  assumes "fs_inv s b dir"
  shows "card (dom (files s)) < 10 \<longleftrightarrow> \<not> dir_full dir"
proof -
  have "dir_ok dir" "length (dtable dir) = 10"
    using fs_invD(4,5) [OF assms] dir_okD(2) [of dir] by simp_all
  then show ?thesis using card_dir_map [of dir] dom_files [OF assms] by simp
qed

lemma fs_okD: "fs_ok s \<Longrightarrow> fs_inv s (the_map_of s) (the_dir_of s)"
  by (simp add: fs_ok_def)

section \<open>A file system to start from\<close>

definition sample_fresh :: fresh where
  "sample_fresh = \<lparr>fresh_words = \<lambda>_. 0,
     fresh_entries = \<lambda>_. \<lparr>inUse = 5, epad = replicate 3 7, esector = 6, ename = replicate 10 1, etail = replicate 2 0\<rparr>,
     fresh_header = \<lambda>_. \<lparr>numBytes = - 1, numSectors = 77, dataSectors = replicate 30 9\<rparr>,
     fresh_bytes = \<lambda>_ _. 255\<rparr>"

definition blank_disk :: "u8 list" where
  "blank_disk = replicate (nat DiskSize) 0"

lemma sample_fresh_ok [simp]: "fresh_ok sample_fresh"
  by (simp add: fresh_ok_def sample_fresh_def wf_entry_def blank_ok_def int32_def)

lemma blank_disk_ok [simp]: "disk_file_ok blank_disk"
  by (simp add: disk_file_ok_def blank_disk_def DiskSize_def disk_sizes)

lemma sample_system:
  "\<exists>s. new_FileSystem sample_fresh True blank_disk = Inr s \<and> fs_ok s \<and> files s = Map.empty \<and> room s = 1019"
  using format_ok [OF blank_disk_ok sample_fresh_ok] fs_inv_view by fastforce

lemma sample_sizes: "300 \<le> MaxFileSize" "divRoundUp 300 128 = 3" "MaxFileSize = 3840"
  by (simp_all add: MaxFileSize_def NumDirect_def SectorSize_def quot_nonneg divRoundUp_def)

section \<open>Create\<close>

lemma Create_ok:
  assumes "fs_ok s" "fresh_ok g" "0 \<notin> set name" "0 \<le> n" "n \<le> MaxFileSize"
  shows "if files s (key_of name) = None \<and> card (dom (files s)) < 10 \<and> divRoundUp n 128 + 1 \<le> room s
    then \<exists>s' data b' dir' k. FS_Create g name n s = Inr (True, s') \<and> fs_inv s' b' dir' \<and> dir_map dir' (key_of name) = Some k \<and> int (length data) = n \<and>
      files s' = (files s)(key_of name \<mapsto> data) \<and> room s' = room s - (divRoundUp n 128 + 1)
    else FS_Create g name n s = Inr (False, s)"
proof -
  let ?b = "the_map_of s" and ?dir = "the_dir_of s"
  have i: "fs_inv s ?b ?dir" by (rule fs_okD [OF assms(1)])
  note v = fs_inv_view [OF i]
  have c: "files s (key_of name) = None \<and> card (dom (files s)) < 10 \<and> divRoundUp n 128 + 1 \<le> room s \<longleftrightarrow>
      dir_map ?dir (key_of name) = None \<and> \<not> dir_full ?dir \<and> divRoundUp n 128 + 1 \<le> free_sectors ?b" (is "?C \<longleftrightarrow> ?D")
    using not_full [OF i] v by simp
  note A = FS_Create_ok [OF i assms(2-5)]
  show ?thesis
  proof (cases ?D)
    case False
    then show ?thesis using A c by (simp only: if_False)
  next
    case True
    obtain d b' dir' k where r: "FS_Create g name n s = Inr (True, s\<lparr>dsk := d\<rparr>)" "fs_inv (s\<lparr>dsk := d\<rparr>) b' dir'"
      "dir_map dir' = (dir_map ?dir)(key_of name \<mapsto> k)" "free_sectors b' = free_sectors ?b - (divRoundUp n 128 + 1)"
      "numBytes (hdr_at d k) = n"
      "\<And>m l. dir_map ?dir m = Some l \<Longrightarrow> contents (hdr_at d l) d = contents (hdr_at (dsk s) l) (dsk s)"
      using A [unfolded if_P [OF True]] by blast
    note v' = fs_inv_view [OF r(2)]
    have "files (s\<lparr>dsk := d\<rparr>) m = ((files s)(key_of name \<mapsto> contents (hdr_at d k) d)) m" for m
      using v v' r(3,6) by (cases "dir_map ?dir m") auto
    moreover have "int (length (contents (hdr_at d k) d)) = n"
    proof -
      have "header_ok (hdr_at d k)" using files_okD(1) [OF fs_invD(6) [OF r(2)], of "key_of name" k] r(3) by simp
      then show ?thesis using length_contents [of "hdr_at d k" d] fs_invD(7) [OF r(2)] r(5) assms(4) by simp
    qed
    ultimately have "dir_map dir' (key_of name) = Some k \<and> int (length (contents (hdr_at d k) d)) = n \<and>
        files (s\<lparr>dsk := d\<rparr>) = (files s)(key_of name \<mapsto> contents (hdr_at d k) d) \<and>
        room (s\<lparr>dsk := d\<rparr>) = room s - (divRoundUp n 128 + 1)"
      using r(3,4) v v' by (simp only: fun_eq_iff) simp
    moreover have ?C by (rule iffD2 [OF c True])
    ultimately show ?thesis using r(1,2) by (simp only: simp_thms if_True) blast
  qed
qed

text \<open>What is refused is refused for any size.\<close>

lemma Allocate_full:
  assumes "wf_BitMap b" "numBits b = 1024" "0 \<le> n" "\<not> divRoundUp n 128 \<le> free_sectors b"
  shows "\<exists>h'. Allocate h b n = Inr (False, h', b)"
  using assms(4) by (simp add: Allocate_def div_round_up_nonneg [OF assms(3)] free_sectors_ok [OF assms(1,2)] Let_def)

lemma Create_refused:
  assumes i: "fs_inv s b dir" and name: "0 \<notin> set name" and n: "0 \<le> n"
    and no: "\<not> (dir_map dir (key_of name) = None \<and> \<not> dir_full dir \<and> divRoundUp n 128 + 1 \<le> free_sectors b)"
  shows "FS_Create g name n s = Inr (False, s)"
proof (cases "dir_map dir (key_of name)")
  note I = fs_invD [OF i]
  case (Some k)
  then have "Directory_Find name dir = k" "0 \<le> k" using Directory_Find_ok [OF I(4) name] files_okD(1) [OF I(6) Some] by simp_all
  then show ?thesis by (simp add: FS_Create_def fetch_ok [OF i])
next
  note I = fs_invD [OF i]
  case None
  then have nf: "Directory_Find name dir = - 1" using Directory_Find_ok [OF I(4) name] by simp
  show ?thesis
  proof (cases "\<exists>k. 0 \<le> k \<and> k < 1024 \<and> k \<notin> bits b")
    case False
    then have "{0..<numBits b} \<subseteq> bits b" using I(3) by auto
    then have "Find b = Inr (- 1, b)" by (rule Find_full [OF I(2)])
    then show ?thesis using nf by (simp add: FS_Create_def fetch_ok [OF i])
  next
    case True
    then have "\<not> {0..<numBits b} \<subseteq> bits b" using I(3) by auto
    then obtain k b1 where k: "Find b = Inr (k, b1)" "0 \<le> k" "k < 1024" "k \<notin> bits b" "wf_BitMap b1" "numBits b1 = 1024"
      "bits b1 = insert k (bits b)" using Find_free [OF I(2)] I(3) by auto
    have "int32 k" using k(2,3) by (simp add: int32_def)
    note A = Directory_Add_ok [OF I(4) name this]
    show ?thesis
    proof (cases "dir_full dir")
      case True
      then show ?thesis using A nf k(1,2) None by (simp add: FS_Create_def fetch_ok [OF i])
    next
      case False
      then obtain dir' where a: "Directory_Add name k dir = (True, dir')" using A None by auto
      have "\<not> divRoundUp n 128 \<le> free_sectors b1" using no None False free_sectors_insert [OF k(4,7)] by simp
      then obtain h' where "Allocate (fresh_header g 0) b1 n = Inr (False, h', b1)"
        using Allocate_full [OF k(5,6) n] by blast
      then show ?thesis using nf k(1,2) a by (simp add: FS_Create_def fetch_ok [OF i])
    qed
  qed
qed

text \<open>
  \<open>FileSystem::Create\<close> does not check the size against \<open>MaxFileSize\<close> (30 sectors): with the sectors
  free, a larger file makes \<open>FileHeader::Allocate\<close> write past the end of the array of the header, on
  the heap of the host. The disk is not touched, but the kernel does not report the error either.
\<close>

lemma oversized_Create_overruns:
  assumes "fs_ok s" "fresh_ok g" "0 \<notin> set name" "MaxFileSize < n"
    and "files s (key_of name) = None" "card (dom (files s)) < 10" "divRoundUp n 128 + 1 \<le> room s"
  shows "FS_Create g name n s = Inl OutOfBounds"
proof -
  let ?b = "the_map_of s" and ?dir = "the_dir_of s"
  have i: "fs_inv s ?b ?dir" by (rule fs_okD [OF assms(1)])
  note I = fs_invD [OF i] and v = fs_inv_view [OF i]
  have none: "dir_map ?dir (key_of name) = None" and room: "divRoundUp n 128 + 1 \<le> free_sectors ?b"
    and dir: "\<not> dir_full ?dir"
    using assms(5-7) v not_full [OF i] by simp_all
  have "0 \<le> divRoundUp n 128" by (rule divRoundUp_nonneg) (use assms(4) sample_sizes(3) in simp_all)
  then have "0 < free_sectors ?b" using room by simp
  then obtain k b1 where k: "Find ?b = Inr (k, b1)" "0 \<le> k" "k < 1024" "k \<notin> bits ?b" "wf_BitMap b1" "numBits b1 = 1024"
    "bits b1 = insert k (bits ?b)"
    using Find_free [OF I(2) free_sector_exists [OF I(2,3)]] I(3) by auto
  have "int32 k" using k(2,3) by (simp add: int32_def)
  then obtain dir' where a: "Directory_Add name k ?dir = (True, dir')"
    using Directory_Add_ok [OF I(4) assms(3), of k] none dir by auto
  have "divRoundUp n 128 \<le> free_sectors b1" using free_sectors_insert [OF k(4,7)] room by simp
  then have "Allocate (fresh_header g 0) b1 n = Inl OutOfBounds"
    using Allocate_overrun [OF k(5,6) _ assms(4)] assms(2) by (simp add: fresh_ok_def)
  then show ?thesis
    using Directory_Find_ok [OF I(4) assms(3)] none k(1,2) a by (simp add: FS_Create_def fetch_ok [OF i])
qed

text \<open>
  C25: \<open>FileSystem::Create\<close> (filesys/filesys.cc) refines adding a name to a map of names to byte lists, for
  a name and a size that is not negative. If no file has that name (its first nine characters), fewer than
  ten files exist and there are enough free sectors for the header and the data, then for a size of at
  most \<open>MaxFileSize\<close> (30 sectors) it succeeds: the new file has the size asked for, no other file has changed
  and the sectors have left the free list; a larger size runs over the end of the header's array. If one of
  the three conditions fails, it returns FALSE and the disk is as it was, whatever the size. Whenever it
  returns the invariant holds: the bitmap on the disk marks exactly the sectors that have an owner, and no
  sector has two.
\<close>

theorem Create_refines:
  assumes "fs_ok s" "fresh_ok g" "0 \<notin> set name" "0 \<le> n"
  shows "if files s (key_of name) = None \<and> card (dom (files s)) < 10 \<and> divRoundUp n 128 + 1 \<le> room s
    then if n \<le> MaxFileSize
      then \<exists>s' data. FS_Create g name n s = Inr (True, s') \<and> fs_ok s' \<and> int (length data) = n \<and>
        files s' = (files s)(key_of name \<mapsto> data) \<and> room s' = room s - (divRoundUp n 128 + 1)
      else FS_Create g name n s = Inl OutOfBounds
    else FS_Create g name n s = Inr (False, s)"
proof (cases "n \<le> MaxFileSize")
  case True
  then show ?thesis using Create_ok [OF assms] fs_inv_view by (auto split: if_splits)
next
  case False
  note i = fs_okD [OF assms(1)]
  show ?thesis
  proof (cases "files s (key_of name) = None \<and> card (dom (files s)) < 10 \<and> divRoundUp n 128 + 1 \<le> room s")
    case True
    then show ?thesis using False oversized_Create_overruns [OF assms(1-3), of n] by simp
  next
    case no: False
    then have "FS_Create g name n s = Inr (False, s)"
      using fs_inv_view [OF i] not_full [OF i] by (intro Create_refused [OF i assms(3,4)]) auto
    with no show ?thesis by simp
  qed
qed

theorem Create_refines_witness:
  "\<exists>s s' data. new_FileSystem sample_fresh True blank_disk = Inr s \<and>
     FS_Create sample_fresh [97] 300 s = Inr (True, s') \<and> fs_ok s' \<and> length data = 300 \<and>
     files s' = [[97] \<mapsto> data] \<and> room s' = 1015"
proof -
  obtain s where s: "new_FileSystem sample_fresh True blank_disk = Inr s" "fs_ok s" "files s = Map.empty" "room s = 1019"
    using sample_system by blast
  then show ?thesis
    using Create_refines [OF s(2) sample_fresh_ok, of "[97]" 300] by (auto simp: sample_sizes key_of_def)
qed

lemma oversized_Create_overruns_example:
  "\<exists>s. new_FileSystem sample_fresh True blank_disk = Inr s \<and> FS_Create sample_fresh [97] 3841 s = Inl OutOfBounds"
proof -
  obtain s where s: "new_FileSystem sample_fresh True blank_disk = Inr s" "fs_ok s" "files s = Map.empty" "room s = 1019"
    using sample_system by blast
  then show ?thesis
    using oversized_Create_overruns [OF s(2) sample_fresh_ok, of "[97]" 3841]
    by (auto simp: sample_sizes divRoundUp_def)
qed

section \<open>Remove\<close>

text \<open>
  C26: \<open>FileSystem::Remove\<close> refines deleting a name from the map: when there is a file of that name it
  returns TRUE, the name is gone, every other file keeps its bytes, and exactly the sectors of the
  file's data and the one of its header come back to the free list; otherwise it returns FALSE and
  nothing changes. None of the ASSERTs on the way fails.
\<close>

theorem Remove_refines:
  assumes "fs_ok s" "0 \<notin> set name"
  shows "case files s (key_of name) of
      None \<Rightarrow> FS_Remove g name s = Inr (False, s)
    | Some data \<Rightarrow> \<exists>s'. FS_Remove g name s = Inr (True, s') \<and> fs_ok s' \<and> files s' = (files s)(key_of name := None) \<and>
        room s' = room s + (divRoundUp (int (length data)) 128 + 1)"
proof -
  let ?b = "the_map_of s" and ?dir = "the_dir_of s"
  have i: "fs_inv s ?b ?dir" by (rule fs_okD [OF assms(1)])
  note v = fs_inv_view [OF i] and A = FS_Remove_ok [OF i assms(2), of g]
  show ?thesis
  proof (cases "dir_map ?dir (key_of name)")
    case None
    then show ?thesis using A v by simp
  next
    case (Some k)
    obtain d b' dir' where r: "FS_Remove g name s = Inr (True, s\<lparr>dsk := d\<rparr>)" "fs_inv (s\<lparr>dsk := d\<rparr>) b' dir'"
      "dir_map dir' = (dir_map ?dir)(key_of name := None)"
      "free_sectors b' = free_sectors ?b + (divRoundUp (numBytes (hdr_at (dsk s) k)) 128 + 1)"
      "\<And>m l. dir_map ?dir m = Some l \<Longrightarrow> contents (hdr_at d l) d = contents (hdr_at (dsk s) l) (dsk s)"
      using A Some by auto
    note v' = fs_inv_view [OF r(2)]
    have "files (s\<lparr>dsk := d\<rparr>) m = ((files s)(key_of name := None)) m" for m
      using v v' r(3,5) by (cases "dir_map ?dir m") auto
    moreover have "int (length (contents (hdr_at (dsk s) k) (dsk s))) = numBytes (hdr_at (dsk s) k)"
    proof -
      have h: "header_ok (hdr_at (dsk s) k)" using files_okD(1) [OF fs_invD(6) [OF i] Some] by simp
      then show ?thesis using length_contents [OF h fs_invD(7) [OF i]] by (simp add: header_ok_def)
    qed
    ultimately show ?thesis using Some r(1,4) v v' by (auto simp: fun_eq_iff)
  qed
qed

lemma sample_file:
  "\<exists>s data. fs_ok s \<and> files s = [[97] \<mapsto> data] \<and> length data = 300 \<and> room s = 1015"
proof -
  obtain s b dir where s: "fs_inv s b dir" "dir_map dir = Map.empty" "free_sectors b = 1019"
    using format_ok [OF blank_disk_ok sample_fresh_ok] by blast
  have "\<not> dir_full dir" using not_full [OF s(1)] fs_inv_view [OF s(1)] s(2) by simp
  then obtain d b' dir' k where r: "fs_inv (s\<lparr>dsk := d\<rparr>) b' dir'" "dir_map dir' = [[97] \<mapsto> k]" "free_sectors b' = 1015"
    "numBytes (hdr_at d k) = 300"
    using FS_Create_ok [OF s(1) sample_fresh_ok, of "[97]" 300] s(2,3) by (auto simp: sample_sizes key_of_def)
  have h: "header_ok (hdr_at d k)" using files_okD(1) [OF fs_invD(6) [OF r(1)], of "[97]" k] r(2) by simp
  have "disk_file_ok d" using fs_invD(7) [OF r(1)] by simp
  then have "length (contents (hdr_at d k) d) = 300" using length_contents [OF h] r(4) by simp
  moreover have "files (s\<lparr>dsk := d\<rparr>) = [[97] \<mapsto> contents (hdr_at d k) d]" "room (s\<lparr>dsk := d\<rparr>) = 1015" "fs_ok (s\<lparr>dsk := d\<rparr>)"
    using fs_inv_view [OF r(1)] r(2,3) by (auto simp: fun_eq_iff)
  ultimately show ?thesis by blast
qed

theorem Remove_refines_witness:
  "\<exists>s data s'. files s = [[97] \<mapsto> data] \<and> FS_Remove sample_fresh [97] s = Inr (True, s') \<and> fs_ok s' \<and>
     files s' = Map.empty \<and> room s' = 1019 \<and> FS_Remove sample_fresh [98] s = Inr (False, s)"
proof -
  obtain s data where s: "fs_ok s" "files s = [[97] \<mapsto> data]" "length data = 300" "room s = 1015"
    using sample_file by blast
  have k: "key_of [97] = [97]" "key_of [98] = [98]" by (simp_all add: key_of_def)
  have "\<exists>s'. FS_Remove sample_fresh [97] s = Inr (True, s') \<and> fs_ok s' \<and> files s' = Map.empty \<and> room s' = 1019"
    using Remove_refines [OF s(1), of "[97]" sample_fresh] s(2-4) k(1) by (auto simp: sample_sizes)
  moreover have "FS_Remove sample_fresh [98] s = Inr (False, s)"
    using Remove_refines [OF s(1), of "[98]" sample_fresh] s(2) k(2) by simp
  ultimately show ?thesis using s(2) by blast
qed

section \<open>Open files\<close>

text \<open>
  a file of the file system is its bytes. \<open>Open\<close> of a name that is there gives an open file through
  which \<open>ReadAt\<close> returns the bytes that \<open>files\<close> has under the name, and \<open>WriteAt\<close> replaces the bytes of
  that file that the request covers, cut off at its end, and returns how many; no other file, directory
  entry or free sector changes. \<open>Open\<close> of any other name gives NULL.
\<close>

lemma open_file_is_its_bytes:
  assumes "fs_ok s" "0 \<notin> set name"
  shows "case files s (key_of name) of
      None \<Rightarrow> FS_Open g name s = Inr None
    | Some c \<Rightarrow> \<exists>f. FS_Open g name s = Inr (Some f) \<and> seekPosition f = 0 \<and>
        (\<forall>k q. 0 \<le> q \<longrightarrow> ReadAt (ohdr f) k q (dsk s) = Inr (take (nat k) (drop (nat q) c))) \<and>
        (\<forall>garbage source n p. 0 \<le> p \<and> n \<le> int (length source) \<longrightarrow>
          (\<exists>d. let m = nat (min n (int (length c) - p)); s' = s\<lparr>dsk := d\<rparr> in
             WriteAt garbage (ohdr f) source n p (dsk s) = Inr (int m, d) \<and> fs_ok s' \<and> room s' = room s \<and>
             files s' = (files s)(key_of name \<mapsto> take (nat p) c @ take m source @ drop (nat p + m) c)))"
proof -
  let ?b = "the_map_of s" and ?dir = "the_dir_of s"
  have i: "fs_inv s ?b ?dir" by (rule fs_okD [OF assms(1)])
  note v = fs_inv_view [OF i] and A = FS_Open_ok [OF i assms(2), of g]
  show ?thesis
  proof (cases "dir_map ?dir (key_of name)")
    case None
    then show ?thesis using A v by simp
  next
    case (Some k)
    have h: "header_ok (hdr_at (dsk s) k)" using files_okD(1) [OF fs_invD(6) [OF i] Some] by simp
    let ?c = "contents (hdr_at (dsk s) k) (dsk s)" and ?f = "\<lparr>ohdr = hdr_at (dsk s) k, seekPosition = 0\<rparr>"
    have "\<exists>d. let m = nat (min n (int (length ?c) - p)); s' = s\<lparr>dsk := d\<rparr> in
        WriteAt garbage (ohdr ?f) source n p (dsk s) = Inr (int m, d) \<and> fs_ok s' \<and> room s' = room s \<and>
        files s' = (files s)(key_of name \<mapsto> take (nat p) ?c @ take m source @ drop (nat p + m) ?c)"
      if pn: "0 \<le> p" "n \<le> int (length source)" for garbage source n p
    proof -
      obtain d where "WriteAt garbage (hdr_at (dsk s) k) source n p (dsk s) = Inr (int (nat (min n (int (length ?c) - p))), d)"
        "fs_inv (s\<lparr>dsk := d\<rparr>) ?b ?dir"
        "files (s\<lparr>dsk := d\<rparr>) = (files s)(key_of name \<mapsto> take (nat p) ?c @ take (nat (min n (int (length ?c) - p))) source @
           drop (nat p + nat (min n (int (length ?c) - p))) ?c)"
        using write_file_ok [OF i Some pn, of garbage] by blast
      moreover have "room (s\<lparr>dsk := d\<rparr>) = room s" "fs_ok (s\<lparr>dsk := d\<rparr>)"
        using fs_inv_view [OF calculation(2)] v by simp_all
      ultimately show ?thesis by (intro exI [of _ d]) (simp only: Let_def OpenFile.select_convs simp_thms)
    qed
    moreover have "ReadAt (ohdr ?f) n q (dsk s) = Inr (take (nat n) (drop (nat q) ?c))" if "0 \<le> q" for n q
      using open_file.rd_ok [of "hdr_at (dsk s) k" "dsk s" q n] h fs_invD(7) [OF i] that by simp
    moreover have "files s (key_of name) = Some ?c" "FS_Open g name s = Inr (Some ?f)" "seekPosition ?f = 0"
      using A v Some by simp_all
    ultimately show ?thesis by (simp only: option.case) blast
  qed
qed


lemma open_file_is_its_bytes_example:
  "\<exists>s data f d. files s = [[97] \<mapsto> data] \<and> FS_Open sample_fresh [97] s = Inr (Some f) \<and>
     ReadAt (ohdr f) 5 298 (dsk s) = Inr (drop 298 data) \<and>
     WriteAt (\<lambda>_. 9) (ohdr f) [1, 2, 3, 4] 4 298 (dsk s) = Inr (2, d) \<and>
     files (s\<lparr>dsk := d\<rparr>) = [[97] \<mapsto> take 298 data @ [1, 2]] \<and> FS_Open sample_fresh [98] s = Inr None"
proof -
  obtain s data where s: "fs_ok s" "files s = [[97] \<mapsto> data]" "length data = 300" "room s = 1015"
    using sample_file by blast
  have k: "key_of [97] = [97]" "key_of [98] = [98]" by (simp_all add: key_of_def)
  obtain f where f: "FS_Open sample_fresh [97] s = Inr (Some f)"
    "\<And>k q. 0 \<le> q \<Longrightarrow> ReadAt (ohdr f) k q (dsk s) = Inr (take (nat k) (drop (nat q) data))"
    "\<And>garbage source n p. 0 \<le> p \<Longrightarrow> n \<le> int (length source) \<Longrightarrow>
       \<exists>d. let m = nat (min n (int (length data) - p)); s' = s\<lparr>dsk := d\<rparr> in
          WriteAt garbage (ohdr f) source n p (dsk s) = Inr (int m, d) \<and> fs_ok s' \<and> room s' = room s \<and>
          files s' = (files s)([97] \<mapsto> take (nat p) data @ take m source @ drop (nat p + m) data)"
    using open_file_is_its_bytes [OF s(1), of "[97]" sample_fresh] s(2) k(1) by (auto simp: Let_def)
  have "FS_Open sample_fresh [98] s = Inr None"
    using open_file_is_its_bytes [OF s(1), of "[98]" sample_fresh] s(2) k(2) by simp
  moreover have "ReadAt (ohdr f) 5 298 (dsk s) = Inr (drop 298 data)" using f(2) [of 298 5] s(3) by simp
  moreover have "take 2 [1, 2, 3, 4 :: u8] = [1, 2]" by (simp add: numeral_2_eq_2)
  then have "\<exists>d. WriteAt (\<lambda>_. 9) (ohdr f) [1, 2, 3, 4] 4 298 (dsk s) = Inr (2, d) \<and>
      files (s\<lparr>dsk := d\<rparr>) = [[97] \<mapsto> take 298 data @ [1, 2]]"
    using f(3) [of 298 4 "[1, 2, 3, 4]" "\<lambda>_. 9"] s(2,3) by (auto simp: Let_def)
  ultimately show ?thesis using s(2) f(1) by blast
qed

section \<open>Mounting\<close>

text \<open>
  C28: the constructor \<open>FileSystem::FileSystem\<close> makes a well-formed file system of any disk: with \<open>format\<close>
  the invariant holds, there is no file and 1019 of the 1024 sectors are free (the two headers, one
  sector of bitmap and two of directory are not); without it, mounting the disk of a well-formed file
  system gives the file system back as it was, with every file and every free sector.
\<close>

theorem mount_well_formed:
  assumes "disk_file_ok d" "fresh_ok g" "fs_ok t"
  shows "(\<exists>s. new_FileSystem g True d = Inr s \<and> fs_ok s \<and> files s = Map.empty \<and> room s = 1019) \<and>
    new_FileSystem g False (dsk t) = Inr t"
proof -
  obtain s b dir where s: "new_FileSystem g True d = Inr s" "fs_inv s b dir" "dir_map dir = Map.empty" "free_sectors b = 1019"
    using format_ok [OF assms(1,2)] by blast
  then have "fs_ok s \<and> files s = Map.empty \<and> room s = 1019" using fs_inv_view [OF s(2)] by (simp add: fun_eq_iff)
  then show ?thesis using s(1) fs_inv_remount [OF fs_okD [OF assms(3)]] by blast
qed

theorem mount_well_formed_witness:
  "\<exists>s t data. new_FileSystem sample_fresh True blank_disk = Inr s \<and> files s = Map.empty \<and>
     files t = [[97] \<mapsto> data] \<and> new_FileSystem sample_fresh False (dsk t) = Inr t"
proof -
  obtain t data where t: "fs_ok t" "files t = [[97] \<mapsto> data]" using sample_file by blast
  show ?thesis using mount_well_formed [OF blank_disk_ok sample_fresh_ok t(1)] t(2) by blast
qed

end
