(* ===== verification/User_Memory.thy ===== *)
theory User_Memory
  imports Paging_Claims
begin

text \<open>
  How the kernel reads and writes the memory of the program that called it: \<open>copyin\<close> and \<open>copyout\<close> of
  userprog/exception.cc over the machine and the pager. A page fault on the way goes through
  \<open>RaiseException\<close> to the kernel's own handler.
\<close>

section \<open>Operations\<close>

text \<open>\<open>ExceptionHandler\<close> for the exceptions of a memory access: all but the page fault halt the machine.\<close>

definition fault_handler :: "ExceptionType \<Rightarrow> 'k vm_scheme \<Rightarrow> 'k vm_scheme result" where
  "fault_handler which s =
     (if which = PageFaultException
      then (case HandlePageFault s of None \<Rightarrow> Inl NoReturn | Some r \<Rightarrow> r)
      else Inl Halted)"

text \<open>The loops of \<open>copyin\<close>: one byte is read until \<open>ReadMem\<close> returns TRUE.\<close>

partial_function (option) read_again :: "bool \<Rightarrow> u32 \<Rightarrow> 'k vm_scheme \<Rightarrow> (u32 \<times> 'k vm_scheme) result option" where
  "read_again big vaddr s =
     (case ReadMem big fault_handler s vaddr 1 of
        Inl c \<Rightarrow> Some (Inl c)
      | Inr (r, s1) \<Rightarrow> (case r of Some v \<Rightarrow> Some (Inr (v, s1)) | None \<Rightarrow> read_again big vaddr s1))"

primrec copyin_bytes :: "bool \<Rightarrow> nat \<Rightarrow> u32 \<Rightarrow> 'k vm_scheme \<Rightarrow> (u8 list \<times> 'k vm_scheme) result option" where
  "copyin_bytes big 0 vaddr s = Some (Inr ([], s))"
| "copyin_bytes big (Suc n) vaddr s =
     (case read_again big vaddr s of
        None \<Rightarrow> None
      | Some r \<Rightarrow>
        (case r of
           Inl c \<Rightarrow> Some (Inl c)
         | Inr (v, s1) \<Rightarrow>
             map_option (\<lambda>r. bind_result r (\<lambda>(bs, s2). Inr (ucast v # bs, s2))) (copyin_bytes big n (vaddr + 1) s1)))"

definition copyin :: "bool \<Rightarrow> u32 \<Rightarrow> int \<Rightarrow> 'k vm_scheme \<Rightarrow> (u8 list \<times> 'k vm_scheme) result option" where
  "copyin big vaddr n s = copyin_bytes big (nat n) vaddr s"

text \<open>\<open>copyout\<close> gives up at the first byte whose \<open>WriteMem\<close> returns FALSE.\<close>

fun copyout_bytes :: "bool \<Rightarrow> u32 \<Rightarrow> u8 list \<Rightarrow> 'k vm_scheme \<Rightarrow> (bool \<times> 'k vm_scheme) result" where
  "copyout_bytes big vaddr [] s = Inr (True, s)"
| "copyout_bytes big vaddr (b # bs) s =
     bind_result (WriteMem big fault_handler s vaddr 1 (scast b)) (\<lambda>(ok, s1).
     if \<not> ok then Inr (False, s1) else copyout_bytes big (vaddr + 1) bs s1)"

definition copyout :: "bool \<Rightarrow> u32 \<Rightarrow> int \<Rightarrow> u8 list \<Rightarrow> 'k vm_scheme \<Rightarrow> (int \<times> 'k vm_scheme) result" where
  "copyout big vaddr n buf s =
     bind_result (if nat n \<le> length buf then Inr () else Inl OutOfBounds) (\<lambda>_.
     bind_result (copyout_bytes big vaddr (take (nat n) buf) s) (\<lambda>(ok, s1).
     Inr (if ok then max 0 n else - 1, s1)))"

section \<open>What a fault leaves alone\<close>

text \<open>The fields that the handler leaves alone.\<close>

definition same_outside_pager :: "'k vm_scheme \<Rightarrow> 'k vm_scheme \<Rightarrow> bool" where
  "same_outside_pager s s' \<longleftrightarrow> pageTable s' = pageTable s \<and>
     (\<forall>x y. (page_entry (spaces s') x y = None) = (page_entry (spaces s) x y = None))"

lemma same_outside_pager_trans:
  "same_outside_pager s s' \<Longrightarrow> same_outside_pager s' s'' \<Longrightarrow> same_outside_pager s s''"
  by (simp add: same_outside_pager_def)

lemma ipt_upd_frame:
  "ipt_upd p f s = Inr s' \<Longrightarrow> same_outside_pager s s' \<and> mainMemoryBitmap s' = mainMemoryBitmap s"
  by (auto simp: ipt_upd_def same_outside_pager_def)

lemma tlb_set_frame:
  "tlb_set i e s = Inr s' \<Longrightarrow> same_outside_pager s s' \<and> mainMemoryBitmap s' = mainMemoryBitmap s"
  by (auto simp: tlb_set_def same_outside_pager_def split: option.splits)

lemma pt_upd_frame:
  assumes "pt_upd a v f s = Inr s'"
  shows "same_outside_pager s s' \<and> mainMemoryBitmap s' = mainMemoryBitmap s"
proof -
  obtain sid sp e t where u: "the_space s a = Inr (sid, sp)" "array_set (pages sp) v (f e) = Inr t"
    "s' = s\<lparr>spaces := (spaces s)(sid \<mapsto> sp\<lparr>pages := t\<rparr>)\<rparr>"
    using assms by (auto simp: pt_upd_def)
  have "spaces s sid = Some sp" using u(1) by (auto simp: the_space_def split: option.splits)
  moreover have "length t = length (pages sp)" using u(2) array_set_Inr [of "pages sp" v "f e" t] by auto
  ultimately show ?thesis using u(3) by (auto simp: same_outside_pager_def page_entry_def)
qed

lemma read_page_frame:
  "read_page v p s = Inr s' \<Longrightarrow> same_outside_pager s s' \<and> mainMemoryBitmap s' = mainMemoryBitmap s"
  by (auto simp: read_page_def same_outside_pager_def)

lemma HandleIPTMiss_frame:
  assumes "HandleIPTMiss v p s = Inr (q, s')"
  shows "same_outside_pager s s' \<and> mainMemoryBitmap s' = mainMemoryBitmap s"
proof (cases "p = - 1")
  case True
  then show ?thesis using assms by (simp add: HandleIPTMiss_def same_outside_pager_def)
next
  case False
  obtain s1 e s2 g l where s: "read_page v p s = Inr s1" "ipt_upd p e s1 = Inr s2"
    "pt_upd (Some (currentSpace s2)) v g (s2\<lparr>evictionList := l\<rparr>) = Inr s'"
    using False assms by (auto simp: HandleIPTMiss_def Let_def)
  have "same_outside_pager s2 (s2\<lparr>evictionList := l\<rparr>) \<and> mainMemoryBitmap (s2\<lparr>evictionList := l\<rparr>) = mainMemoryBitmap s2"
    by (simp add: same_outside_pager_def)
  with read_page_frame [OF s(1)] ipt_upd_frame [OF s(2)] pt_upd_frame [OF s(3)] show ?thesis
    by (auto simp: same_outside_pager_def)
qed

lemma save_dirty_frame:
  "save_dirty e s = Inr s' \<Longrightarrow> same_outside_pager s s' \<and> mainMemoryBitmap s' = mainMemoryBitmap s"
  using ipt_upd_frame by (auto simp: save_dirty_def same_outside_pager_def split: if_splits)

lemma fill_tlb_frame:
  assumes "fill_tlb p s = Inr s'"
  shows "same_outside_pager s s' \<and> mainMemoryBitmap s' = mainMemoryBitmap s"
proof -
  obtain old s1 e s2 s3 n where s: "save_dirty old s = Inr s1" "tlb_set (currentTLB s1) e s1 = Inr s2"
    "ipt_upd p (use_update (\<lambda>_. False)) (s2\<lparr>currentTLB := rem (currentTLB s2 + 1) (int TLBSize)\<rparr>) = Inr s3"
    "tlb_set (currentTLB s3) n s3 = Inr s'"
    using assms by (auto simp: fill_tlb_def)
  show ?thesis
    using save_dirty_frame [OF s(1)] tlb_set_frame [OF s(2)] ipt_upd_frame [OF s(3)] tlb_set_frame [OF s(4)]
    by (simp add: same_outside_pager_def)
qed

lemma get_frame_frame:
  assumes "get_frame v s = Some (Inr (p, s'))" "Find (mainMemoryBitmap s) = Inr (f, b)" "f \<noteq> - 1"
  shows "same_outside_pager s s' \<and> mainMemoryBitmap s' \<in> {mainMemoryBitmap s, b}"
proof (cases "ipt_search s v = - 1")
  case False
  then have "ipt_upd (ipt_search s v) (use_update (\<lambda>_. True)) s = Inr s'" using False assms(1) by (auto simp: get_frame_def Let_def)
  from ipt_upd_frame [OF this] show ?thesis by simp
next
  case True
  obtain s1 where s1: "ipt_upd f (use_update (\<lambda>_. True)) (s\<lparr>mainMemoryBitmap := b\<rparr>) = Inr s1"
    "HandleIPTMiss v f s1 = Inr (p, s')"
    using True assms by (auto simp: get_frame_def fetch_page.simps [of v s])
  show ?thesis using ipt_upd_frame [OF s1(1)] HandleIPTMiss_frame [OF s1(2)] by (simp add: same_outside_pager_def)
qed

text \<open>The number of frames in use.\<close>

definition frames_used :: "'k vm_scheme \<Rightarrow> int" where
  "frames_used s = int (card (bits (mainMemoryBitmap s)))"

lemma HandlePageFault_frame:
  assumes inv: "vm_ok s" and room: "frames_used s < NumPhysPages" and h: "HandlePageFault s = Some (Inr s')"
  shows "same_outside_pager s s' \<and> frames_used s' \<le> frames_used s + 1"
proof -
  have m: "wf_BitMap (mainMemoryBitmap s)" "numBits (mainMemoryBitmap s) = NumPhysPages"
    using vm_invD(5) [OF inv] by (simp_all add: map_inv_def)
  have fin: "finite (bits (mainMemoryBitmap s))" using bits_range finite_subset by blast
  have "\<not> {0..<numBits (mainMemoryBitmap s)} \<subseteq> bits (mainMemoryBitmap s)"
  proof
    assume "{0..<numBits (mainMemoryBitmap s)} \<subseteq> bits (mainMemoryBitmap s)"
    then have "card {0..<NumPhysPages} \<le> card (bits (mainMemoryBitmap s))" using m(2) by (intro card_mono fin) simp
    then show False using room by (simp add: frames_used_def machine_sizes)
  qed
  from Find_free [OF m(1) this] obtain f b where
    F: "Find (mainMemoryBitmap s) = Inr (f, b)" "f \<noteq> - 1" "bits b = insert f (bits (mainMemoryBitmap s))" by auto
  obtain v p s1 where g: "get_frame v s = Some (Inr (p, s1))" "fill_tlb p s1 = Inr s'"
    using h by (auto simp: HandlePageFault_def Let_def split: option.splits)
  have "card (bits b) \<le> card (bits (mainMemoryBitmap s)) + 1" using F(3) fin by (simp add: card_insert_if)
  then show ?thesis
    using get_frame_frame [OF g(1) F(1,2)] fill_tlb_frame [OF g(2)] by (auto simp: same_outside_pager_def frames_used_def)
qed


section \<open>A fault\<close>

text \<open>What the kernel relies on while it runs for a user program. \<open>small\<close>: the addresses are below \<open>2 ^ 31\<close>, where an \<open>int\<close> is not negative.\<close>

definition small :: "'k vm_scheme \<Rightarrow> bool" where
  "small s \<longleftrightarrow> (\<forall>x v. page_entry (spaces s) x v \<noteq> None \<longrightarrow> v < 2 ^ 24)"

definition kernel_ok :: "'k vm_scheme \<Rightarrow> bool" where
  "kernel_ok s \<longleftrightarrow> vm_ok s \<and> pageTable s = None \<and> registers s LoadReg = 0 \<and> small s"

lemma kernel_okD:
  "kernel_ok s \<Longrightarrow> vm_ok s" "kernel_ok s \<Longrightarrow> pageTable s = None" "kernel_ok s \<Longrightarrow> small s" "kernel_ok s \<Longrightarrow> wf_machine s"
  using vm_invD(2) [of "{}" "{}" s] by (auto simp: kernel_ok_def wf_machine_def)

definition in_tlb :: "'k vm_scheme \<Rightarrow> int \<Rightarrow> bool" where
  "in_tlb s v \<longleftrightarrow> tlb_search (the (tlb s)) v \<noteq> None"

lemma page_entry_nonneg: "page_entry sps x v \<noteq> None \<Longrightarrow> 0 \<le> v"
  by (auto simp: page_entry_def split: option.splits if_splits)

lemma mapped_page_entry: "ipt_inv H ipt sps \<Longrightarrow> mapped H ipt sid v p \<Longrightarrow> page_entry sps sid v \<noteq> None"
proof -
  assume i: "ipt_inv H ipt sps" and "mapped H ipt sid v p"
  then have m: "p \<in> frames ipt - H" "space (ipt ! nat p) = Some sid" "virtualPage (ipt ! nat p) = v" by (simp_all add: mapped_def)
  from i have "\<forall>p\<in>frames ipt - H. physicalPage (ipt ! nat p) = p \<and>
      (\<exists>sid. space (ipt ! nat p) = Some sid \<and> page_entry sps sid (virtualPage (ipt ! nat p)) \<noteq> None)"
    unfolding ipt_inv_def by (elim conjE)
  with m show ?thesis by force
qed

text \<open>The entry that the TLB has for a page.\<close>

lemma tlb_entry:
  assumes "vm_ok s" "small s" "tlb s = Some t" "tlb_search t v = Some i"
  shows "i < TLBSize" "length t = TLBSize" "valid (t ! i)" "virtualPage (t ! i) = v"
    "mapped {} (IPT s) (currentSpace s) v (physicalPage (t ! i))"
    "0 \<le> physicalPage (t ! i)" "physicalPage (t ! i) < NumPhysPages"
proof -
  note I = vm_invD [OF assms(1), unfolded assms(3) option.sel]
  note S = tlb_search_Some [OF assms(4)]
  show l: "length t = TLBSize" using I(4) by (simp add: tlb_inv_def)
  then show "i < TLBSize" using S by simp
  show vl: "valid (t ! i)" using S by simp
  have m: "mapped {} (IPT s) (currentSpace s) (virtualPage (t ! i)) (physicalPage (t ! i))"
    using I(4) S by (simp add: tlb_inv_def)
  note pr = mapped_range [OF m]
  show "0 \<le> physicalPage (t ! i)" "physicalPage (t ! i) < NumPhysPages" using pr by simp_all
  have "page_entry (spaces s) (currentSpace s) (virtualPage (t ! i)) \<noteq> None" by (rule mapped_page_entry [OF I(3) m])
  then have "0 \<le> virtualPage (t ! i)" "virtualPage (t ! i) < 2 ^ 24"
    using page_entry_nonneg assms(2) by (auto simp: small_def)
  then show v: "virtualPage (t ! i) = v" using S by simp
  show "mapped {} (IPT s) (currentSpace s) v (physicalPage (t ! i))" using m v by simp
qed

lemma not_in_tlb:
  assumes "vm_ok s" "small s" "page_entry (spaces s) (currentSpace s) v \<noteq> None" "\<not> in_tlb s v" "e \<in> set (the (tlb s))" "valid e"
  shows "virtualPage e \<noteq> v"
proof -
  have "0 \<le> v" "v < 2 ^ 24" using page_entry_nonneg [OF assms(3)] assms(2,3) by (auto simp: small_def)
  then show ?thesis using tlb_search_hit [OF assms(5,6), of v] assms(4) by (auto simp: in_tlb_def)
qed

text \<open>The state in which the handler is called, and the one it returns to.\<close>

definition at_fault :: "u32 \<Rightarrow> 'k vm_scheme \<Rightarrow> 'k vm_scheme" where
  "at_fault a s = s\<lparr>registers := (registers s)(BadVAddrReg := a, 0 := 0, LoadReg := 0, LoadValueReg := 0), mode := SystemMode\<rparr>"

lemma RaiseException_at_fault:
  assumes "registers s LoadReg = 0"
  shows "RaiseException H s e a = bind_result (H e (at_fault a s)) (\<lambda>s'. Inr (s'\<lparr>mode := UserMode\<rparr>))"
proof -
  have "DelayedLoad (set_reg BadVAddrReg a s) 0 0 =
      Inr (s\<lparr>registers := (registers s)(BadVAddrReg := a, 0 := 0, LoadReg := 0, LoadValueReg := 0)\<rparr>)"
    using assms by (simp add: DelayedLoad_def set_reg_def reg_numbers Let_def fun_upd_twist fun_upd_idem_iff)
  then show ?thesis by (simp add: RaiseException_def at_fault_def)
qed


lemma fault_ok:
  assumes k: "kernel_ok s" and e: "page_entry (spaces s) (currentSpace s) (uint a div PageSize) \<noteq> None"
    and new: "\<not> in_tlb s (uint a div PageSize)" and room: "frames_used s < NumPhysPages"
  shows "\<exists>s'. RaiseException fault_handler s PageFaultException a = Inr s' \<and> kernel_ok s' \<and>
    in_tlb s' (uint a div PageSize) \<and> currentSpace s' = currentSpace s \<and> keeps_bytes {} s {} s' \<and>
    same_outside_pager s s' \<and> frames_used s' \<le> frames_used s + 1 \<and> registers s' = registers (at_fault a s)"
proof -
  let ?v = "uint a div PageSize" and ?s0 = "at_fault a s"
  note K = kernel_okD [OF k]
  have v: "?v < 2 ^ 24" using e K(3) by (simp add: small_def)
  have f0: "tlb ?s0 = tlb s" "spaces ?s0 = spaces s" "currentSpace ?s0 = currentSpace s" "pageTable ?s0 = pageTable s"
    "frames_used ?s0 = frames_used s" "IPT ?s0 = IPT s"
    by (simp_all add: at_fault_def frames_used_def)
  have i0: "vm_ok ?s0" "page_byte {} ?s0 = page_byte {} s"
    using K(1) by (simp_all add: at_fault_def vm_inv_def page_byte_def fun_eq_iff)
  have "frames (IPT s) \<noteq> {0..<NumPhysPages}"
    using vm_invD(5) [OF K(1)] room by (auto simp: map_inv_def frames_used_def machine_sizes)
  then have ev: "evictable ?s0" by (simp add: evictable_def f0)
  have "x div 128 < 16777216 \<Longrightarrow> x < 2147483648" for x :: int by linarith
  then have "uint a < 2147483648" using v by (simp add: machine_sizes)
  moreover have "- 2147483648 \<le> uint a" using uint_ge_0 [of a] by linarith
  ultimately have "sint a = uint a" using signed_take_bit_int_eq_self [of 31 "uint a"] by (simp add: sint_uint)
  then have "fault_page ?s0 = ?v" by (simp add: fault_page_def at_fault_def reg_numbers quot_nonneg machine_sizes)
  then have fo: "faults_on ?s0 ?v"
    using e not_in_tlb [OF K(1,3) e new] by (simp add: faults_on_def f0)
  obtain s1 x where s1: "HandlePageFault ?s0 = Some (Inr s1)" "vm_ok s1" "keeps_bytes {} ?s0 {} s1"
    "x \<in> set (the (tlb s1))" "valid x" "virtualPage x = ?v" "registers s1 = registers ?s0" "currentSpace s1 = currentSpace ?s0"
    using HandlePageFault_ok [OF i0(1) ev fo] by blast
  have fr: "same_outside_pager ?s0 s1" "frames_used s1 \<le> frames_used ?s0 + 1"
    using HandlePageFault_frame [OF i0(1) _ s1(1)] room f0 by simp_all
  let ?s' = "s1\<lparr>mode := UserMode\<rparr>"
  have "in_tlb s1 ?v" using tlb_search_hit [OF s1(4-6)] v page_entry_nonneg [OF e] by (simp add: in_tlb_def)
  moreover have "small s1" using fr(1) K(3) f0 by (simp add: small_def same_outside_pager_def)
  moreover have "vm_ok ?s'" "page_byte {} ?s' = page_byte {} s1"
    using s1(2) by (simp_all add: vm_inv_def page_byte_def fun_eq_iff)
  ultimately show ?thesis
    using s1(1,3,7,8) fr i0(2) K(2) f0 RaiseException_at_fault [of s fault_handler PageFaultException a] k
    by (intro exI [of _ ?s'])
      (simp add: kernel_ok_def fault_handler_def same_outside_pager_def small_def in_tlb_def frames_used_def keeps_bytes_def
        at_fault_def reg_numbers)
qed

section \<open>A read\<close>

lemma page_byte_in_frame:
  assumes "vm_ok s" "mapped {} (IPT s) sid v p" "page_byte {} s sid v k b" "k < 128"
  shows "frame_byte (mainMemory s) p k = b"
proof -
  note I = vm_invD [OF assms(1)]
  have u: "q = p" if "mapped {} (IPT s) sid v q" for q using that assms(2) I(3) unfolding ipt_inv_def by blast
  show ?thesis
  proof (cases "modified (IPT s) (the (tlb s)) p")
    case True
    then show ?thesis using assms(2,3) u unfolding page_byte_def by blast
  next
    case False
    then have "backing (spaces s) (swapFile s) sid v k = Some b" using assms(3) u unfolding page_byte_def by blast
    with False assms(2,4) I(7) show ?thesis unfolding clean_inv_def by blast
  qed
qed

text \<open>The translation of an address whose page is in the TLB; \<open>q\<close> is any address that is then noted as touched.\<close>

lemma user_translate:
  assumes k: "kernel_ok s" and hit: "in_tlb s (uint a div PageSize)" and sz: "sz \<in> sizes" "aligned a sz"
  shows "\<exists>p s1. Translate s a sz False = Inr (Inr (p * PageSize + uint a mod PageSize), s1) \<and> mainMemory s1 = mainMemory s \<and>
    mapped {} (IPT s) (currentSpace s) (uint a div PageSize) p \<and> 0 \<le> p \<and>
    (\<forall>q. kernel_ok (touch q s1) \<and> in_tlb (touch q s1) = in_tlb s \<and> currentSpace (touch q s1) = currentSpace s \<and>
       keeps_bytes {} s {} (touch q s1) \<and> same_outside_pager s (touch q s1) \<and> frames_used (touch q s1) = frames_used s)"
proof -
  let ?v = "uint a div PageSize"
  note K = kernel_okD [OF k]
  obtain t where t: "tlb s = Some t" using vm_invD(2) [OF K(1)] by blast
  obtain i where i: "tlb_search t ?v = Some i" using hit t by (auto simp: in_tlb_def)
  note E = tlb_entry [OF K(1,3) t i]
  let ?p = "physicalPage (t ! i) * PageSize + uint a mod PageSize"
  have ph: "physicalPage (t ! i) mod 2 ^ 32 = physicalPage (t ! i)" using E(6,7) by (simp add: machine_sizes)
  let ?t' = "t[i := mark_entry False (t ! i)]"
  let ?s1 = "s\<lparr>tlb := Some ?t'\<rparr>"
  have "translate_entry (t ! i) (uint a mod PageSize) sz False = Inr (Inr (?p, mark_entry False (t ! i)))"
    using translate_entry_ok [OF sz, of "t ! i" False] E(7) ph by simp
  moreover have "\<not> (sz = 4 \<and> a AND 3 \<noteq> 0)" "\<not> (sz = 2 \<and> a AND 1 \<noteq> 0)" using sz(2) by (auto simp: aligned_def)
  ultimately have tr: "Translate s a sz False = Inr (Inr ?p, ?s1)"
    using t i K(2) by (simp add: Translate_def Let_def)
  have m: "mark_entry False (t ! i) = (t ! i)\<lparr>use := True\<rparr>" by (simp add: mark_entry_def)
  have inv: "vm_ok ?s1" "page_byte {} ?s1 = page_byte {} s"
    using tlb_use_inv [OF K(1) t, of ?s1 i True] unfolding m by blast+
  have "tlb_search ?t' = tlb_search t" using E(1,2) by (intro ext tlb_search_update) simp_all
  then have "in_tlb (touch q ?s1) = in_tlb s" for q using t by (simp add: in_tlb_def fun_eq_iff)
  moreover have "vm_ok (touch q ?s1)" "page_byte {} (touch q ?s1) = page_byte {} ?s1" for q
    using inv(1) by (simp_all add: touch_def vm_inv_def page_byte_def fun_eq_iff)
  ultimately show ?thesis
    using tr E(5,6) inv(2) k by (intro exI [of _ "physicalPage (t ! i)"] exI [of _ ?s1])
      (simp add: kernel_ok_def touch_def same_outside_pager_def small_def frames_used_def keeps_bytes_def)
qed

text \<open>A byte of a page in the TLB stands in its frame, \<open>i\<close> bytes after the one that was translated.\<close>

lemma user_byte:
  assumes "vm_ok s" "mapped {} (IPT s) (currentSpace s) (uint a div PageSize) p" "0 \<le> p"
    and b: "page_byte {} s (currentSpace s) (uint a div PageSize) (nat (uint a mod PageSize) + i) b"
    and i: "nat (uint a mod PageSize) + i < 128"
  shows "mainMemory s (nat (p * PageSize + uint a mod PageSize) + i) = b"
proof -
  have "nat (p * PageSize + uint a mod PageSize) = nat (p * PageSize) + nat (uint a mod PageSize)"
    using assms(3) by (simp add: nat_add_distrib PageSize_def)
  then show ?thesis using page_byte_in_frame [OF assms(1,2) b i] by (simp add: frame_byte_def add.assoc)
qed

lemma user_load:
  assumes k: "kernel_ok s" and hit: "in_tlb s (uint a div PageSize)"
    and b: "page_byte {} s (currentSpace s) (uint a div PageSize) (nat (uint a mod PageSize)) b"
  shows "\<exists>s'. ReadMem big H s a 1 = Inr (Some (scast b), s') \<and> kernel_ok s' \<and> in_tlb s' = in_tlb s \<and>
    currentSpace s' = currentSpace s \<and> keeps_bytes {} s {} s' \<and> same_outside_pager s s' \<and> frames_used s' = frames_used s"
proof -
  have "(1 :: int) \<in> sizes" "aligned a 1" by (simp_all add: aligned_def sizes_def)
  then obtain p s1 where t: "Translate s a 1 False = Inr (Inr (p * PageSize + uint a mod PageSize), s1)"
    "mainMemory s1 = mainMemory s" "mapped {} (IPT s) (currentSpace s) (uint a div PageSize) p" "0 \<le> p"
    "\<And>q. kernel_ok (touch q s1) \<and> in_tlb (touch q s1) = in_tlb s \<and> currentSpace (touch q s1) = currentSpace s \<and>
       keeps_bytes {} s {} (touch q s1) \<and> same_outside_pager s (touch q s1) \<and> frames_used (touch q s1) = frames_used s"
    using user_translate [OF k hit] by blast
  have "nat (uint a mod PageSize) < 128" by (simp add: PageSize_def nat_less_iff)
  then show ?thesis
    using t user_byte [OF kernel_okD(1) [OF k] t(3,4), of 0 b] b by (simp add: ReadMem_def)
qed

text \<open>The fetch of an instruction.\<close>

lemma user_fetch:
  assumes k: "kernel_ok s" and hit: "in_tlb s (uint a div PageSize)" and al: "aligned a 4"
    and b: "\<And>i. i < 4 \<Longrightarrow> page_byte {} s (currentSpace s) (uint a div PageSize) (nat (uint a mod PageSize) + i) (bs i)"
  shows "\<exists>s'. ReadMem big H s a 4 = Inr (Some (le32 (bs 0) (bs 1) (bs 2) (bs 3)), s') \<and> kernel_ok s' \<and> in_tlb s' = in_tlb s \<and>
    currentSpace s' = currentSpace s \<and> keeps_bytes {} s {} s' \<and> same_outside_pager s s' \<and> frames_used s' = frames_used s"
proof -
  have "(4 :: int) \<in> sizes" by (simp add: sizes_def)
  then obtain p s1 where t: "Translate s a 4 False = Inr (Inr (p * PageSize + uint a mod PageSize), s1)"
    "mainMemory s1 = mainMemory s" "mapped {} (IPT s) (currentSpace s) (uint a div PageSize) p" "0 \<le> p"
    "\<And>q. kernel_ok (touch q s1) \<and> in_tlb (touch q s1) = in_tlb s \<and> currentSpace (touch q s1) = currentSpace s \<and>
       keeps_bytes {} s {} (touch q s1) \<and> same_outside_pager s (touch q s1) \<and> frames_used (touch q s1) = frames_used s"
    using user_translate [OF k hit _ al] by blast
  have "uint a mod 4 = 0" using al by (simp add: aligned_def and_3_eq_0)
  then have "uint a mod 128 + 4 \<le> 128" by (rule page_offset_bounds(4))
  then have "nat (uint a mod PageSize) + i < 128" if "i < 4" for i using that by (simp add: PageSize_def)
  then have m: "mainMemory s1 (nat (p * PageSize + uint a mod PageSize) + i) = bs i" if "i < 4" for i
    using user_byte [OF kernel_okD(1) [OF k] t(3,4) b] that t(2) by simp
  show ?thesis
    using t(1,5) m [of 0] m [of 1] m [of 2] m [of 3] by (simp add: ReadMem_def load32_host)
qed


lemma page_byte_entry: "vm_ok s \<Longrightarrow> page_byte {} s sid v k b \<Longrightarrow> page_entry (spaces s) sid v \<noteq> None"
proof -
  assume i: "vm_ok s" and "page_byte {} s sid v k b"
  then consider p where "mapped {} (IPT s) sid v p" | "backing (spaces s) (swapFile s) sid v k = Some b"
    unfolding page_byte_def by blast
  then show ?thesis
  proof cases
    case 1
    then show ?thesis by (rule mapped_page_entry [OF vm_invD(3) [OF i]])
  next
    case 2
    then show ?thesis by (auto simp: backing_def split: option.splits)
  qed
qed

lemma Translate_miss:
  assumes "kernel_ok s" "\<not> in_tlb s (uint a div PageSize)" "aligned a sz"
  shows "Translate s a sz w = Inr (Inl PageFaultException, s)"
proof -
  obtain t where t: "tlb s = Some t" using vm_invD(2) [OF kernel_okD(1) [OF assms(1)]] by blast
  moreover have "\<not> (sz = 4 \<and> a AND 3 \<noteq> 0)" "\<not> (sz = 2 \<and> a AND 1 \<noteq> 0)" using assms(3) by (auto simp: aligned_def)
  ultimately show ?thesis using assms kernel_okD(2) [OF assms(1)] by (simp add: Translate_def in_tlb_def Let_def)
qed

lemma ReadMem_miss:
  assumes "kernel_ok s" "\<not> in_tlb s (uint a div PageSize)" "aligned a sz"
  shows "ReadMem big H s a sz = bind_result (RaiseException H s PageFaultException a) (\<lambda>s'. Inr (None, s'))"
    "WriteMem big H s a sz w = bind_result (RaiseException H s PageFaultException a) (\<lambda>s'. Inr (False, s'))"
  using Translate_miss [OF assms] by (simp_all add: ReadMem_def WriteMem_def)

lemma aligned_byte [simp]: "aligned a 1"
  by (simp add: aligned_def)

lemma read_again_ok:
  assumes k: "kernel_ok s" and b: "page_byte {} s (currentSpace s) (uint a div PageSize) (nat (uint a mod PageSize)) b"
    and room: "in_tlb s (uint a div PageSize) \<or> frames_used s < NumPhysPages"
  shows "\<exists>s'. read_again big a s = Some (Inr (scast b, s')) \<and> kernel_ok s' \<and> in_tlb s' (uint a div PageSize) \<and>
    currentSpace s' = currentSpace s \<and> keeps_bytes {} s {} s' \<and> same_outside_pager s s' \<and>
    frames_used s' \<le> frames_used s + (if in_tlb s (uint a div PageSize) then 0 else 1)"
proof (cases "in_tlb s (uint a div PageSize)")
  case True
  from user_load [OF k True b, of big fault_handler] obtain s' where
    "ReadMem big fault_handler s a 1 = Inr (Some (scast b), s')" "kernel_ok s'" "in_tlb s' = in_tlb s"
    "currentSpace s' = currentSpace s" "keeps_bytes {} s {} s'" "same_outside_pager s s'" "frames_used s' = frames_used s"
    by blast
  then show ?thesis using True by (simp add: read_again.simps [of big a s])
next
  case False
  let ?v = "uint a div PageSize"
  have "page_entry (spaces s) (currentSpace s) ?v \<noteq> None" by (rule page_byte_entry [OF kernel_okD(1) [OF k] b])
  from fault_ok [OF k this False] room False obtain s1 where
    s1: "RaiseException fault_handler s PageFaultException a = Inr s1" "kernel_ok s1" "in_tlb s1 ?v"
      "currentSpace s1 = currentSpace s" "keeps_bytes {} s {} s1" "same_outside_pager s s1" "frames_used s1 \<le> frames_used s + 1"
    by blast
  have o: "nat (uint a mod PageSize) < 128" by (simp add: PageSize_def nat_less_iff)
  have "page_byte {} s1 (currentSpace s1) ?v (nat (uint a mod PageSize)) b"
    using s1(4,5) b o by (simp add: keeps_bytes_def)
  from user_load [OF s1(2,3) this, of big fault_handler] obtain s' where
    s': "ReadMem big fault_handler s1 a 1 = Inr (Some (scast b), s')" "kernel_ok s'" "in_tlb s' = in_tlb s1"
    "currentSpace s' = currentSpace s1" "keeps_bytes {} s1 {} s'" "same_outside_pager s1 s'" "frames_used s' = frames_used s1"
    by blast
  have "read_again big a s = read_again big a s1"
    using s1(1) ReadMem_miss(1) [OF k False, of 1] by (subst read_again.simps) simp
  also have "\<dots> = Some (Inr (scast b, s'))" using s'(1) by (subst read_again.simps) simp
  finally show ?thesis
    using s1 s' False keeps_bytes_trans [OF s1(5) s'(5)] same_outside_pager_trans [OF s1(6) s'(6)] by auto
qed

section \<open>Copyin\<close>

definition user_bytes :: "'k vm_scheme \<Rightarrow> u32 \<Rightarrow> u8 list \<Rightarrow> bool" where
  "user_bytes s a bs \<longleftrightarrow> uint a + int (length bs) < 2 ^ 32 \<and>
     (\<forall>i<length bs. page_byte {} s (currentSpace s) ((uint a + int i) div PageSize) (nat ((uint a + int i) mod PageSize)) (bs ! i))"

text \<open>The pages of \<open>n\<close> bytes from \<open>a\<close> on.\<close>

definition pages_of :: "u32 \<Rightarrow> int \<Rightarrow> int" where
  "pages_of a n = (uint a + n - 1) div PageSize - uint a div PageSize + 1"

lemma page_step: "((x :: int) + 1) div 128 = x div 128 \<or> (x + 1) div 128 = x div 128 + 1" by linarith

lemma copyin_bytes_ok:
  assumes "kernel_ok s" "user_bytes s a bs"
    and "bs \<noteq> [] \<Longrightarrow> frames_used s + pages_of a (int (length bs)) - (if in_tlb s (uint a div PageSize) then 1 else 0) \<le> NumPhysPages"
  shows "\<exists>s'. copyin_bytes big (length bs) a s = Some (Inr (bs, s')) \<and> kernel_ok s' \<and>
    currentSpace s' = currentSpace s \<and> keeps_bytes {} s {} s' \<and> same_outside_pager s s'"
  using assms
proof (induction bs arbitrary: a s)
  case Nil
  then show ?case by (simp add: keeps_bytes_def same_outside_pager_def)
next
  case (Cons b bs)
  let ?v = "uint a div PageSize"
  have b: "page_byte {} s (currentSpace s) ?v (nat (uint a mod PageSize)) b"
    using Cons.prems(2) by (auto simp: user_bytes_def)
  have au: "uint a + int (Suc (length bs)) < 2 ^ 32" using Cons.prems(2) by (simp add: user_bytes_def)
  have pos: "1 \<le> pages_of a (int (length (b # bs)))" by (simp add: pages_of_def zdiv_mono1 PageSize_def)
  have room: "in_tlb s ?v \<or> frames_used s < NumPhysPages" using Cons.prems(3) pos by (auto split: if_splits)
  from read_again_ok [OF Cons.prems(1) b room, of big] obtain s1 where
    s1: "read_again big a s = Some (Inr (scast b, s1))" "kernel_ok s1" "in_tlb s1 ?v"
      "currentSpace s1 = currentSpace s" "keeps_bytes {} s {} s1" "same_outside_pager s s1"
      "frames_used s1 \<le> frames_used s + (if in_tlb s ?v then 0 else 1)" by blast
  have a1: "uint (a + 1) = uint a + 1" using au by (simp add: uint_plus_if')
  have ub: "user_bytes s1 (a + 1) bs"
    unfolding user_bytes_def
  proof (intro conjI allI impI)
    show "uint (a + 1) + int (length bs) < 2 ^ 32" using au a1 by simp
    fix i assume i: "i < length bs"
    have "nat ((uint a + int (Suc i)) mod PageSize) < 128" by (simp add: PageSize_def nat_less_iff)
    moreover have "page_byte {} s (currentSpace s) ((uint a + int (Suc i)) div PageSize) (nat ((uint a + int (Suc i)) mod PageSize)) (bs ! i)"
      using Cons.prems(2) i unfolding user_bytes_def by (metis Suc_less_eq length_Cons nth_Cons_Suc)
    ultimately show "page_byte {} s1 (currentSpace s1) ((uint (a + 1) + int i) div PageSize) (nat ((uint (a + 1) + int i) mod PageSize)) (bs ! i)"
      using s1(4,5) a1 by (simp add: keeps_bytes_def ac_simps)
  qed
  have "frames_used s1 + pages_of (a + 1) (int (length bs)) - (if in_tlb s1 (uint (a + 1) div PageSize) then 1 else 0) \<le> NumPhysPages"
  proof -
    have "frames_used s1 + pages_of a (int (length (b # bs))) - 1 \<le> NumPhysPages"
      using Cons.prems(3) s1(7) by (auto split: if_splits)
    moreover have "pages_of (a + 1) (int (length bs)) = pages_of a (int (length (b # bs))) - ((uint a + 1) div 128 - uint a div 128)"
      unfolding pages_of_def a1 PageSize_def by simp
    ultimately show ?thesis using page_step [of "uint a"] s1(3) by (auto simp: a1 PageSize_def)
  qed
  from Cons.IH [OF s1(2) ub this] obtain s' where
    "copyin_bytes big (length bs) (a + 1) s1 = Some (Inr (bs, s'))" "kernel_ok s'" "currentSpace s' = currentSpace s1"
    "keeps_bytes {} s1 {} s'" "same_outside_pager s1 s'" by blast
  moreover have "ucast (scast b :: u32) = b" by (rule bit_word_eqI) (simp add: bit_simps)
  ultimately show ?case
    using s1 keeps_bytes_trans [OF s1(5)] same_outside_pager_trans [OF s1(6)] by auto
qed


section \<open>A write\<close>

definition writable :: "'k vm_scheme \<Rightarrow> int \<Rightarrow> bool" where
  "writable s v \<longleftrightarrow> (\<exists>i. tlb_search (the (tlb s)) v = Some i \<and> \<not> readOnly (the (tlb s) ! i))"

lemma writable_in_tlb: "writable s v \<Longrightarrow> in_tlb s v"
  by (auto simp: writable_def in_tlb_def)

lemma frame_apart:
  fixes p q :: int and j off :: nat
  assumes "0 \<le> p" "0 \<le> q" "off < 128" "j < 128"
  shows "nat (q * 128) + j = nat (p * 128) + off \<longleftrightarrow> q = p \<and> j = off"
proof
  assume a: "nat (q * 128) + j = nat (p * 128) + off"
  obtain m n where "q = int m" "p = int n" using assms(1,2) nonneg_int_cases by metis
  moreover from this a have e: "j + m * 128 = off + n * 128" by (simp add: nat_mult_distrib)
  moreover have "m = n" using arg_cong [OF e, of "\<lambda>x. x div 128"] assms(3,4) by simp
  ultimately show "q = p \<and> j = off" by simp
qed simp

lemma frame_byte_update:
  assumes "0 \<le> p" "0 \<le> q" "off < 128" "j < 128"
  shows "frame_byte (mem(nat (p * PageSize) + off := b)) q j = (if q = p \<and> j = off then b else frame_byte mem q j)"
  unfolding frame_byte_def PageSize_def fun_upd_apply frame_apart [OF assms] by (rule refl)

text \<open>A byte written through entry \<open>i\<close> of the TLB.\<close>

lemma store_inv:
  assumes inv: "vm_ok s" and t: "tlb s = Some t" and i: "i < TLBSize" "valid (t ! i)" "virtualPage (t ! i) = v"
    and e: "e = (t ! i)\<lparr>use := u, dirty := True\<rparr>" and off: "off < 128"
    and s': "s' = s\<lparr>tlb := Some (t[i := e]), mainMemory := (mainMemory s)(nat (physicalPage (t ! i) * PageSize) + off := b)\<rparr>"
  shows "vm_ok s'" "page_byte {} s' (currentSpace s) v off b"
    "\<And>x y j c. j < 128 \<Longrightarrow> page_byte {} s x y j c \<Longrightarrow> (x, y, j) \<noteq> (currentSpace s, v, off) \<Longrightarrow> page_byte {} s' x y j c"
proof -
  note I = vm_invD [OF inv, unfolded t option.sel]
  let ?t' = "t[i := e]" and ?p = "physicalPage (t ! i)"
  have lt: "length t = TLBSize" using I(4) by (simp add: tlb_inv_def)
  have f: "valid (?t' ! j) = valid (t ! j)" "physicalPage (?t' ! j) = physicalPage (t ! j)"
    "virtualPage (?t' ! j) = virtualPage (t ! j)" "dirty (?t' ! j) \<longleftrightarrow> dirty (t ! j) \<or> j = i" for j
    using i(1) lt by (auto simp: nth_update_cases e)
  have m: "mapped {} (IPT s) (currentSpace s) v ?p"
  proof -
    have "t ! i \<in> set t" using i(1) lt by simp
    then have "mapped {} (IPT s) (currentSpace s) (virtualPage (t ! i)) ?p" using I(4) i(2) by (simp add: tlb_inv_def)
    then show ?thesis by (simp only: i(3))
  qed
  have u: "q = ?p" if "mapped {} (IPT s) (currentSpace s) v q" for q using that m I(3) unfolding ipt_inv_def by blast
  note pr = mapped_range [OF m]
  have md: "modified (IPT s) ?t' q \<longleftrightarrow> modified (IPT s) t q \<or> q = ?p" for q
    using i(1,2) lt by (auto simp: modified_nth [of _ "length t"] f)
  have fb: "frame_byte (mainMemory s') q j = (if q = ?p \<and> j = off then b else frame_byte (mainMemory s) q j)"
    if "0 \<le> q" "j < 128" for q j using frame_byte_update [OF _ that(1) off that(2), of ?p] pr by (simp add: s')
  have ti: "tlb_inv {} (IPT s) (currentSpace s) (currentTLB s) ?t'"
    using I(4) unfolding tlb_inv_def all_set_conv_all_nth f by simp
  have "clean_inv {} (IPT s) ?t' (mainMemory s') (spaces s) (swapFile s)"
    unfolding clean_inv_def
  proof (intro allI impI)
    fix x y q j c
    assume a: "mapped {} (IPT s) x y q \<and> \<not> modified (IPT s) ?t' q \<and> j < 128 \<and> backing (spaces s) (swapFile s) x y j = Some c"
    then have "frame_byte (mainMemory s) q j = c" using I(7) md unfolding clean_inv_def by blast
    moreover have "q \<noteq> ?p" "0 \<le> q" using a md mapped_range [of "{}" "IPT s" x y q] by auto
    ultimately show "frame_byte (mainMemory s') q j = c" using fb a by simp
  qed
  then show "vm_ok s'" using I ti by (intro vm_invI [where t = ?t']) (simp_all add: s')
  have T: "the (tlb s') = ?t'" "IPT s' = IPT s" "spaces s' = spaces s" "swapFile s' = swapFile s" by (simp_all add: s')
  have "modified (IPT s) ?t' ?p" "frame_byte (mainMemory s') ?p off = b" using md fb [of ?p off] pr off by simp_all
  then show "page_byte {} s' (currentSpace s) v off b" unfolding page_byte_def T using m by blast
  fix x y j c assume j: "j < 128" and c: "page_byte {} s x y j c" and ne: "(x, y, j) \<noteq> (currentSpace s, v, off)"
  show "page_byte {} s' x y j c"
  proof (cases "\<exists>q. mapped {} (IPT s) x y q \<and> modified (IPT s) ?t' q")
    case True
    then obtain q where q: "mapped {} (IPT s) x y q" "modified (IPT s) ?t' q" by blast
    have "q = ?p \<Longrightarrow> x = currentSpace s \<and> y = v" using q(1) m by (simp add: mapped_def)
    then have "frame_byte (mainMemory s') q j = frame_byte (mainMemory s) q j"
      using fb [of q j] j ne mapped_range [OF q(1)] by auto
    moreover have "frame_byte (mainMemory s) q j = c" by (rule page_byte_in_frame [OF inv q(1) c j])
    ultimately show ?thesis unfolding page_byte_def T using q by blast
  next
    case False
    then have "backing (spaces s) (swapFile s) x y j = Some c" using c md t unfolding page_byte_def by auto
    then show ?thesis unfolding page_byte_def T using False by blast
  qed
qed


lemma user_store:
  assumes k: "kernel_ok s" and w: "writable s (uint a div PageSize)"
  shows "\<exists>s'. WriteMem big H s a 1 (scast b) = Inr (True, s') \<and> kernel_ok s' \<and> writable s' = writable s \<and>
    currentSpace s' = currentSpace s \<and> frames_used s' = frames_used s \<and>
    page_byte {} s' (currentSpace s) (uint a div PageSize) (nat (uint a mod PageSize)) b \<and>
    (\<forall>x y j c. j < 128 \<and> page_byte {} s x y j c \<and> (x \<noteq> currentSpace s \<or> y * 128 + int j \<noteq> uint a) \<longrightarrow> page_byte {} s' x y j c)"
proof -
  let ?v = "uint a div PageSize"
  note K = kernel_okD [OF k]
  obtain t where t: "tlb s = Some t" using vm_invD(2) [OF K(1)] by blast
  obtain i where i: "tlb_search t ?v = Some i" "\<not> readOnly (t ! i)" using w t by (auto simp: writable_def)
  note E = tlb_entry [OF K(1,3) t i(1)]
  define off where "off = nat (uint a mod PageSize)"
  have off: "int off = uint a mod PageSize" "off < 128" by (simp_all add: off_def PageSize_def nat_less_iff)
  let ?p = "physicalPage (t ! i) * PageSize + uint a mod PageSize"
  have np: "nat ?p = nat (physicalPage (t ! i) * PageSize) + off"
    using E(6) by (simp add: off_def nat_add_distrib PageSize_def)
  have ph: "physicalPage (t ! i) mod 2 ^ 32 = physicalPage (t ! i)" using E(6,7) by (simp add: machine_sizes)
  have al: "aligned a 1" "(1 :: int) \<in> sizes" by (simp_all add: aligned_def sizes_def)
  let ?e = "mark_entry True (t ! i)"
  have te: "translate_entry (t ! i) (uint a mod PageSize) 1 True = Inr (Inr (?p, ?e))"
    using translate_entry_ok [OF al(2,1), of "t ! i" True] E(7) ph i(2) by simp
  have tr: "Translate s a 1 True = Inr (Inr ?p, s\<lparr>tlb := Some (t[i := ?e])\<rparr>)"
    using t i(1) te K(2) by (simp add: Translate_def Let_def)
  define s1 where "s1 = s\<lparr>tlb := Some (t[i := ?e]),
      mainMemory := (mainMemory s)(nat (physicalPage (t ! i) * PageSize) + off := b)\<rparr>"
  have "ucast ((scast b :: u32) AND 0xff) = b" unfolding low_byte byte_of_def by (rule bit_word_eqI) (simp add: bit_simps)
  then have r: "WriteMem big H s a 1 (scast b) = Inr (True, touch ?p s1)"
    using tr np by (simp add: WriteMem_def s1_def)
  have "?e = (t ! i)\<lparr>use := True, dirty := True\<rparr>" by (simp add: mark_entry_def)
  note S = store_inv [OF K(1) t E(1,3,4) this off(2) s1_def]
  have "tlb_search (t[i := ?e]) = tlb_search t" using E(1,2) by (intro ext tlb_search_update) simp_all
  then have "writable (touch ?p s1) = writable s"
    using t E(1,2) by (auto simp: writable_def s1_def fun_eq_iff nth_update_cases)
  moreover have pb: "vm_ok (touch ?p s1)" "page_byte {} (touch ?p s1) = page_byte {} s1"
    using S(1) by (simp_all add: touch_def vm_inv_def page_byte_def fun_eq_iff)
  have fr: "pageTable (touch ?p s1) = pageTable s \<and> registers (touch ?p s1) = registers s \<and> small (touch ?p s1) = small s \<and>
      currentSpace (touch ?p s1) = currentSpace s \<and> frames_used (touch ?p s1) = frames_used s"
    by (simp add: touch_def small_def frames_used_def s1_def)
  moreover have "kernel_ok (touch ?p s1)" using pb(1) fr k by (simp add: kernel_ok_def)
  moreover have "page_byte {} (touch ?p s1) x y j c"
    if "j < 128" "page_byte {} s x y j c" "x \<noteq> currentSpace s \<or> y * 128 + int j \<noteq> uint a" for x y j c
  proof -
    have "?v * 128 + int off = uint a" using off(1) by (simp add: PageSize_def)
    then have "(x, y, j) \<noteq> (currentSpace s, ?v, off)" using that(3) by auto
    then show ?thesis using S(3) [OF that(1,2)] pb(2) by simp
  qed
  moreover have "page_byte {} (touch ?p s1) (currentSpace s) ?v (nat (uint a mod PageSize)) b"
    using S(2) pb(2) by (simp add: off_def)
  ultimately show ?thesis using r by (intro exI [of _ "touch ?p s1"]) blast
qed

section \<open>Copyout\<close>

lemma copyout_bytes_ok:
  assumes "kernel_ok s" "\<forall>i<length bs. writable s ((uint a + int i) div PageSize)" "uint a + int (length bs) < 2 ^ 32"
  shows "\<exists>s'. copyout_bytes big a bs s = Inr (True, s') \<and> kernel_ok s' \<and> writable s' = writable s \<and>
    currentSpace s' = currentSpace s \<and> frames_used s' = frames_used s \<and> user_bytes s' a bs \<and>
    (\<forall>x y j c. j < 128 \<and> page_byte {} s x y j c \<and>
       (x \<noteq> currentSpace s \<or> y * 128 + int j < uint a \<or> uint a + int (length bs) \<le> y * 128 + int j) \<longrightarrow> page_byte {} s' x y j c)"
  using assms
proof (induction bs arbitrary: a s)
  case Nil
  then show ?case by (simp add: user_bytes_def)
next
  case (Cons b bs)
  have a1: "uint (a + 1) = uint a + 1" using Cons.prems(3) by (simp add: uint_plus_if')
  have "writable s (uint a div PageSize)" using Cons.prems(2) by force
  from user_store [OF Cons.prems(1) this, of big fault_handler b] obtain s1 where
    s1: "WriteMem big fault_handler s a 1 (scast b) = Inr (True, s1)" "kernel_ok s1" "writable s1 = writable s"
      "currentSpace s1 = currentSpace s" "frames_used s1 = frames_used s"
      "page_byte {} s1 (currentSpace s) (uint a div PageSize) (nat (uint a mod PageSize)) b"
      "\<And>x y j c. j < 128 \<Longrightarrow> page_byte {} s x y j c \<Longrightarrow> x \<noteq> currentSpace s \<or> y * 128 + int j \<noteq> uint a \<Longrightarrow> page_byte {} s1 x y j c"
    by blast
  have w1: "\<forall>i<length bs. writable s1 ((uint (a + 1) + int i) div PageSize)"
  proof (intro allI impI)
    fix i assume "i < length bs"
    then have "writable s ((uint a + int (Suc i)) div PageSize)" using Cons.prems(2) by (simp del: of_nat_Suc)
    then show "writable s1 ((uint (a + 1) + int i) div PageSize)" using s1(3) a1 by (simp add: ac_simps)
  qed
  have "uint (a + 1) + int (length bs) < 2 ^ 32" using Cons.prems(3) a1 by simp
  from Cons.IH [OF s1(2) w1 this] obtain s' where
    s': "copyout_bytes big (a + 1) bs s1 = Inr (True, s')" "kernel_ok s'" "writable s' = writable s1"
      "currentSpace s' = currentSpace s1" "frames_used s' = frames_used s1" "user_bytes s' (a + 1) bs"
      "\<And>x y j c. j < 128 \<Longrightarrow> page_byte {} s1 x y j c \<Longrightarrow>
       x \<noteq> currentSpace s1 \<or> y * 128 + int j < uint (a + 1) \<or> uint (a + 1) + int (length bs) \<le> y * 128 + int j \<Longrightarrow> page_byte {} s' x y j c"
    by blast
  have o: "nat (uint a mod PageSize) < 128" by (simp add: PageSize_def nat_less_iff)
  have fst: "page_byte {} s' (currentSpace s) (uint a div PageSize) (nat (uint a mod PageSize)) b"
    using s'(7) [OF o s1(6)] a1 by (simp add: PageSize_def)
  have ub: "user_bytes s' a (b # bs)"
    unfolding user_bytes_def
  proof (intro conjI allI impI)
    show "uint a + int (length (b # bs)) < 2 ^ 32" by (rule Cons.prems(3))
    fix i assume "i < length (b # bs)"
    then consider "i = 0" | m where "i = Suc m" "m < length bs" by (cases i) auto
    then show "page_byte {} s' (currentSpace s') ((uint a + int i) div PageSize) (nat ((uint a + int i) mod PageSize)) ((b # bs) ! i)"
    proof cases
      case 1
      then show ?thesis using fst s'(4) s1(4) by simp
    next
      case 2
      then have "page_byte {} s' (currentSpace s') ((uint (a + 1) + int m) div PageSize) (nat ((uint (a + 1) + int m) mod PageSize)) (bs ! m)"
        using s'(6) by (simp add: user_bytes_def)
      then show ?thesis using 2 a1 by (simp add: ac_simps)
    qed
  qed
  have "page_byte {} s' x y j c" if "j < 128" "page_byte {} s x y j c"
    "x \<noteq> currentSpace s \<or> y * 128 + int j < uint a \<or> uint a + int (length (b # bs)) \<le> y * 128 + int j" for x y j c
  proof (rule s'(7) [OF that(1)])
    show "page_byte {} s1 x y j c" using s1(7) [OF that(1,2)] that(3) by auto
    show "x \<noteq> currentSpace s1 \<or> y * 128 + int j < uint (a + 1) \<or> uint (a + 1) + int (length bs) \<le> y * 128 + int j"
      using that(3) s1(4) a1 by auto
  qed
  then show ?case using s1(1,3-5) s'(1-5) ub by auto
qed


section \<open>Properties\<close>

text \<open>
  C29: \<open>copyin\<close> reads the memory of the program, wherever it is. If the bytes at \<open>vaddr\<close> are known (in a
  frame, the executable or the swap file) and there are free frames for their pages, the two loops of
  \<open>copyin\<close> end with exactly those bytes in the buffer, whatever was in the TLB: each page fault on the
  way brings its page in, and the pager's invariant and the bytes of every process are kept.
\<close>

theorem copyin_reads_user_memory:
  assumes "kernel_ok s" "user_bytes s vaddr bs"
    and "bs \<noteq> [] \<Longrightarrow> frames_used s + pages_of vaddr (int (length bs)) \<le> NumPhysPages"
  shows "\<exists>s'. copyin big vaddr (int (length bs)) s = Some (Inr (bs, s')) \<and> kernel_ok s' \<and> currentSpace s' = currentSpace s \<and>
    (\<forall>x v k b. k < 128 \<and> page_byte {} s x v k b \<longrightarrow> page_byte {} s' x v k b)"
  using copyin_bytes_ok [OF assms(1,2), of big] assms(3) unfolding copyin_def keeps_bytes_def by fastforce

lemma kernel_ok_boot: "kernel_ok boot_vm"
  using boot_vm_ok by (simp add: kernel_ok_def small_def sample_entries) (simp add: boot_vm_def machine.defs new_Machine_def)

lemma boot_bytes:
  assumes "k < 128"
  shows "page_byte {} boot_vm 7 0 k 5"
proof -
  have "\<not> mapped {} (IPT boot_vm) 7 0 p" for p by (simp add: mapped_def frames_none)
  moreover have "backing (spaces boot_vm) (swapFile boot_vm) 7 0 k = Some 5"
    using assms by (simp add: backing_def sample_entries file_at_def) (simp add: sample_space_def)
  ultimately show ?thesis by (simp add: page_byte_def)
qed

theorem copyin_reads_user_memory_witness:
  "\<exists>s'. copyin False 100 3 boot_vm = Some (Inr ([5, 5, 5], s')) \<and> kernel_ok s'"
proof -
  have "user_bytes boot_vm 100 [5, 5, 5]"
    using boot_bytes by (auto simp: user_bytes_def less_Suc_eq PageSize_def numeral_3_eq_3)
  moreover have "frames_used boot_vm + pages_of 100 3 \<le> NumPhysPages"
    by (simp add: frames_used_def frame_map_bits pages_of_def machine_sizes)
  ultimately show ?thesis
    using copyin_reads_user_memory [OF kernel_ok_boot, of 100 "[5, 5, 5]" False] by auto
qed

text \<open>
  C30: \<open>copyout\<close> and \<open>copyin\<close> are inverse when the TLB has the pages. \<open>copyout\<close> then returns the number of
  bytes, the memory of the program holds exactly the buffer at \<open>vaddr\<close>, no other byte of it or of another
  process has changed, the pager's invariant holds with the pages marked dirty, and \<open>copyin\<close> gives the
  buffer back.
\<close>

theorem copyout_copyin:
  assumes "kernel_ok s" "\<forall>i<length bs. writable s ((uint vaddr + int i) div PageSize)" "uint vaddr + int (length bs) < 2 ^ 32"
    and "frames_used s + pages_of vaddr (int (length bs)) \<le> NumPhysPages"
  shows "\<exists>s'. copyout big vaddr (int (length bs)) bs s = Inr (int (length bs), s') \<and> kernel_ok s' \<and>
    (\<forall>x v k b. k < 128 \<and> page_byte {} s x v k b \<and>
       (x \<noteq> currentSpace s \<or> v * 128 + int k < uint vaddr \<or> uint vaddr + int (length bs) \<le> v * 128 + int k) \<longrightarrow>
       page_byte {} s' x v k b) \<and>
    (\<exists>s''. copyin big vaddr (int (length bs)) s' = Some (Inr (bs, s'')))"
proof -
  obtain s' where s': "copyout_bytes big vaddr bs s = Inr (True, s')" "kernel_ok s'" "frames_used s' = frames_used s"
    "user_bytes s' vaddr bs"
    "\<forall>x y j c. j < 128 \<and> page_byte {} s x y j c \<and>
       (x \<noteq> currentSpace s \<or> y * 128 + int j < uint vaddr \<or> uint vaddr + int (length bs) \<le> y * 128 + int j) \<longrightarrow> page_byte {} s' x y j c"
    using copyout_bytes_ok [OF assms(1-3), of big] by blast
  have "frames_used s' + pages_of vaddr (int (length bs)) - (if in_tlb s' (uint vaddr div PageSize) then 1 else 0) \<le> NumPhysPages"
    using assms(4) s'(3) by simp
  then obtain s'' where "copyin_bytes big (length bs) vaddr s' = Some (Inr (bs, s''))"
    using copyin_bytes_ok [OF s'(2,4), of big] by blast
  moreover have "copyout big vaddr (int (length bs)) bs s = Inr (int (length bs), s')" using s'(1) by (simp add: copyout_def)
  ultimately show ?thesis using s'(2,5) by (auto simp: copyin_def)
qed

lemma kernel_ok_written: "kernel_ok written_vm"
  using written_vm_ok by (simp add: kernel_ok_def small_def sample_entries)
    (simp add: written_vm_def boot_vm_def machine.defs new_Machine_def)

lemma written_writable: "writable written_vm 0"
proof -
  have "tlb_search (the (tlb written_vm)) 0 = Some 1"
    by (simp add: TLBSize_def numeral_eq_Suc) (simp add: no_entry_def)
  moreover have "\<not> readOnly (the (tlb written_vm) ! 1)" by (simp add: TLBSize_def) (simp add: no_entry_def)
  ultimately show ?thesis by (auto simp: writable_def)
qed

theorem copyout_copyin_witness:
  "\<exists>s' s''. copyout False 100 3 [1, 2, 3] written_vm = Inr (3, s') \<and> copyin False 100 3 s' = Some (Inr ([1, 2, 3], s''))"
proof -
  have "frames_used written_vm + pages_of 100 3 \<le> NumPhysPages"
    by (simp add: frames_used_def frame_map_bits pages_of_def machine_sizes)
  moreover have "\<forall>i<length [1, 2, 3 :: u8]. writable written_vm ((uint (100 :: u32) + int i) div PageSize)"
    using written_writable by (auto simp: PageSize_def less_Suc_eq numeral_3_eq_3)
  ultimately show ?thesis
    using copyout_copyin [OF kernel_ok_written, of "[1, 2, 3]" 100 False] by auto
qed

text \<open>
  \<open>copyout\<close> does not try again. When the TLB has no entry for the first page, its \<open>WriteMem\<close> raises
  the page fault, the handler brings the page in and returns, and \<open>copyout\<close> gives up with -1: not a byte
  of the program's memory has changed. (\<open>copyin\<close> was changed to repeat the access; \<open>copyout\<close> was not.)
\<close>

lemma copyout_gives_up_ok:
  assumes "kernel_ok s" "bs \<noteq> []" "\<not> in_tlb s (uint vaddr div PageSize)"
    and "page_entry (spaces s) (currentSpace s) (uint vaddr div PageSize) \<noteq> None" "frames_used s < NumPhysPages"
  shows "\<exists>s'. copyout big vaddr (int (length bs)) bs s = Inr (- 1, s') \<and> kernel_ok s' \<and> currentSpace s' = currentSpace s \<and>
    in_tlb s' (uint vaddr div PageSize) \<and> keeps_bytes {} s {} s'"
proof -
  obtain b cs where bs: "bs = b # cs" using assms(2) by (cases bs) auto
  from fault_ok [OF assms(1,4,3,5)] obtain s' where
    "RaiseException fault_handler s PageFaultException vaddr = Inr s'" "kernel_ok s'" "in_tlb s' (uint vaddr div PageSize)"
    "currentSpace s' = currentSpace s" "keeps_bytes {} s {} s'" by blast
  then show ?thesis using ReadMem_miss(2) [OF assms(1,3), of 1] bs by (auto simp: copyout_def)
qed

end
