(* ===== verification/File_Calls.thy ===== *)
theory File_Calls
  imports File_Claims User_Memory
begin

text \<open>
  The system calls on files (userprog/exception.cc): names and data come from the memory of the program
  (theory User_Memory), open files are in the table of its address space (theory Bit_Map), the files
  are those of the NACHOS disk (theory File_System). One call is one step.
\<close>

section \<open>State\<close>

definition ConsoleInput :: int where "ConsoleInput = 0"
definition ConsoleOutput :: int where "ConsoleOutput = 1"
definition MaxOpenFiles :: int where "MaxOpenFiles = 256"

text \<open>
  \<open>fileTables\<close> gives the table of each address space. An open file is in one slot of one table only, so
  a slot holds the object itself. \<open>keyboard\<close> are the words that \<open>scanf\<close> will find.
\<close>

record io =
  iovm :: vm
  iofs :: filesys
  fileTables :: "nat \<Rightarrow> OpenFile Table"
  screen :: "u8 list"
  keyboard :: "u8 list list"

text \<open>The table of a new address space: the first two slots are taken and hold null pointers.\<close>

definition new_fileTable :: "(nat \<Rightarrow> u32) \<Rightarrow> (nat \<Rightarrow> OpenFile option) \<Rightarrow> OpenFile Table result" where
  "new_fileTable garbage slots =
     bind_result (new_Table garbage slots MaxOpenFiles) (\<lambda>t0.
     bind_result (Put t0 None) (\<lambda>(_, t1).
     bind_result (Put t1 None) (\<lambda>(_, t2). Inr t2)))"

definition myTable :: "io \<Rightarrow> OpenFile Table" where
  "myTable s = fileTables s (currentSpace (iovm s))"

definition set_myTable :: "OpenFile Table \<Rightarrow> io \<Rightarrow> io" where
  "set_myTable t s = s\<lparr>fileTables := (fileTables s)(currentSpace (iovm s) := t)\<rparr>"

text \<open>The object that slot \<open>fid\<close> points to has changed.\<close>

definition set_file :: "int \<Rightarrow> OpenFile \<Rightarrow> io \<Rightarrow> io result" where
  "set_file fid f s =
     bind_result (array_set (table (myTable s)) fid (Some f)) (\<lambda>ts. Inr (set_myTable ((myTable s)\<lparr>table := ts\<rparr>) s))"

text \<open>What follows a call that may not return.\<close>

definition after :: "'a result option \<Rightarrow> ('a \<Rightarrow> 'b result) \<Rightarrow> 'b result option" where
  "after r f = map_option (\<lambda>x. bind_result x f) r"

lemma after_simps [simp]: "after (Some (Inr x)) f = Some (f x)" "after (Some (Inl c)) f = Some (Inl c)" "after None f = None"
  by (simp_all add: after_def)

text \<open>A buffer as the C string in it.\<close>

definition c_string :: "u8 list \<Rightarrow> u8 list" where
  "c_string bs = takeWhile (\<lambda>c. c \<noteq> 0) bs"

section \<open>The calls\<close>

text \<open>A length of -1 is what \<open>copyin\<close> returns for it, and passes for a bad pointer.\<close>

definition Create_Syscall :: "bool \<Rightarrow> fresh \<Rightarrow> u32 \<Rightarrow> int \<Rightarrow> io \<Rightarrow> io result option" where
  "Create_Syscall big g vaddr len s =
     (if len + 1 < 0 then Some (Inl OutOfMemory)
      else if len = - 1 then Some (Inr s)
      else after (copyin big vaddr len (iovm s)) (\<lambda>(buf, v).
        bind_result (FS_Create g (c_string buf) 0 (iofs s)) (\<lambda>(ok, f). Inr (s\<lparr>iovm := v, iofs := f\<rparr>))))"

definition Open_Syscall :: "bool \<Rightarrow> fresh \<Rightarrow> u32 \<Rightarrow> int \<Rightarrow> io \<Rightarrow> (int \<times> io) result option" where
  "Open_Syscall big g vaddr len s =
     (if len + 1 < 0 then Some (Inl OutOfMemory)
      else if len = - 1 then Some (Inr (- 1, s))
      else after (copyin big vaddr len (iovm s)) (\<lambda>(buf, v).
        let s1 = s\<lparr>iovm := v\<rparr> in
        bind_result (FS_Open g (c_string buf) (iofs s1)) (\<lambda>f.
        case f of
          None \<Rightarrow> Inr (- 1, s1)
        | Some f' \<Rightarrow> bind_result (Put (myTable s1) (Some f')) (\<lambda>(fid, t). Inr (fid, set_myTable t s1)))))"

definition Write_Syscall :: "bool \<Rightarrow> (nat \<Rightarrow> u8) \<Rightarrow> u32 \<Rightarrow> int \<Rightarrow> int \<Rightarrow> io \<Rightarrow> io result option" where
  "Write_Syscall big garbage vaddr len fid s =
     (if fid = ConsoleInput then Some (Inr s)
      else if len < 0 then Some (Inl OutOfMemory)
      else after (copyin big vaddr len (iovm s)) (\<lambda>(buf, v).
        let s1 = s\<lparr>iovm := v\<rparr> in
        if fid = ConsoleOutput then Inr (s1\<lparr>screen := screen s1 @ buf\<rparr>)
        else bind_result (Get (myTable s1) fid) (\<lambda>p.
          case p of
            None \<Rightarrow> Inr s1
          | Some f \<Rightarrow>
              bind_result (File_Write garbage f buf len (dsk (iofs s1))) (\<lambda>(n, f', d).
              set_file fid f' (s1\<lparr>iofs := (iofs s1)\<lparr>dsk := d\<rparr>\<rparr>)))))"

text \<open>
  \<open>scanf("%s")\<close> does not know the size of the buffer; at the end of the input it leaves the buffer as
  it was. \<open>noise\<close> is what the new buffer holds. Whatever \<open>copyout\<close> returns, the call returns the length.
\<close>

definition scan_word :: "(nat \<Rightarrow> u8) \<Rightarrow> int \<Rightarrow> u8 list list \<Rightarrow> (u8 list \<times> u8 list list) result" where
  "scan_word noise len words =
     (case words of
        [] \<Rightarrow> Inr (map noise [0..<nat len], [])
      | w # ws \<Rightarrow>
          if int (length w) + 1 \<le> len then Inr (over_front (w @ [0]) (map noise [0..<nat len]), ws) else Inl OutOfBounds)"

definition Read_Syscall :: "bool \<Rightarrow> (nat \<Rightarrow> u8) \<Rightarrow> u32 \<Rightarrow> int \<Rightarrow> int \<Rightarrow> io \<Rightarrow> (int \<times> io) result" where
  "Read_Syscall big noise vaddr len fid s =
     (if fid = ConsoleOutput then Inr (- 1, s)
      else if len < 0 then Inl OutOfMemory
      else if fid = ConsoleInput then
        bind_result (scan_word noise len (keyboard s)) (\<lambda>(buf, ws).
        bind_result (copyout big vaddr len buf (iovm s)) (\<lambda>(r, v). Inr (len, s\<lparr>iovm := v, keyboard := ws\<rparr>)))
      else bind_result (Get (myTable s) fid) (\<lambda>p.
        case p of
          None \<Rightarrow> Inr (- 1, s)
        | Some f \<Rightarrow>
            bind_result (File_Read f len (dsk (iofs s))) (\<lambda>(bs, f').
            bind_result (set_file fid f' s) (\<lambda>s1.
            let n = int (length bs) in
            if n > 0 then bind_result (copyout big vaddr n bs (iovm s1)) (\<lambda>(r, v). Inr (n, s1\<lparr>iovm := v\<rparr>))
            else Inr (n, s1)))))"

definition Close_Syscall :: "int \<Rightarrow> io \<Rightarrow> io result" where
  "Close_Syscall fd s = bind_result (Table_Remove (myTable s) fd) (\<lambda>(f, t). Inr (set_myTable t s))"

section \<open>Open files\<close>

definition io_ok :: "io \<Rightarrow> bool" where
  "io_ok s \<longleftrightarrow> kernel_ok (iovm s) \<and> fs_ok (iofs s) \<and> wf_Table (myTable s)"

text \<open>Slot \<open>fid\<close> is an open file on the file of name \<open>nm\<close>, at position \<open>p\<close>.\<close>

definition open_on :: "io \<Rightarrow> int \<Rightarrow> u8 list \<Rightarrow> int \<Rightarrow> bool" where
  "open_on s fid nm p \<longleftrightarrow> fid \<noteq> ConsoleInput \<and> fid \<noteq> ConsoleOutput \<and>
     (\<exists>k f. abs_Table (myTable s) fid = Some (Some f) \<and> seekPosition f = p \<and>
        dir_map (the_dir_of (iofs s)) nm = Some k \<and> ohdr f = hdr_at (dsk (iofs s)) k)"

lemma set_file_ok:
  assumes "wf_Table (myTable s)" "abs_Table (myTable s) fid = Some p"
  shows "\<exists>t. set_file fid f s = Inr (set_myTable t s) \<and> wf_Table t \<and> abs_Table t = (abs_Table (myTable s))(fid \<mapsto> Some f)"
proof -
  let ?t = "myTable s"
  have i: "fid \<in> bits (tmap ?t)" using assms(2) by (auto simp: abs_Table_def split: if_splits)
  then have r: "0 \<le> fid" "fid < int (length (table ?t))" using wf_Table_bits [OF assms(1) i] assms(1) by (simp_all add: wf_Table_def)
  let ?t' = "?t\<lparr>table := (table ?t)[nat fid := Some f]\<rparr>"
  have "set_file fid f s = Inr (set_myTable ?t' s)" using r by (simp add: set_file_def)
  moreover have "wf_Table ?t'" using assms(1) by (simp add: wf_Table_def)
  moreover have "abs_Table ?t' j = ((abs_Table ?t)(fid \<mapsto> Some f)) j" for j
  proof (cases "j \<in> bits (tmap ?t)")
    case True
    then have "0 \<le> j" using wf_Table_bits [OF assms(1)] by simp
    then have "nat fid = nat j \<longleftrightarrow> j = fid" using r(1) by (auto simp: eq_nat_nat_iff)
    moreover have "nat fid < length (table ?t)" using r by (simp add: nat_less_iff)
    ultimately show ?thesis using True by (simp add: abs_Table_def nth_update_cases)
  next
    case False
    then show ?thesis using i by (auto simp: abs_Table_def)
  qed
  ultimately show ?thesis by (intro exI [of _ ?t']) (simp add: fun_eq_iff)
qed

lemma myTable_simps [simp]:
  "myTable (set_myTable t s) = t" "iofs (set_myTable t s) = iofs s" "iovm (set_myTable t s) = iovm s"
  "currentSpace v = currentSpace (iovm s) \<Longrightarrow> myTable (s\<lparr>iovm := v\<rparr>) = myTable s"
  "myTable (s\<lparr>iofs := f\<rparr>) = myTable s"
  by (simp_all add: myTable_def set_myTable_def)

lemma Get_open: "wf_Table (myTable s) \<Longrightarrow> abs_Table (myTable s) fid = Some (Some f) \<Longrightarrow> Get (myTable s) fid = Inr (Some f)"
  by (simp add: Get_ok)

lemma new_fileTable_ok:
  "\<exists>t. new_fileTable garbage slots = Inr t \<and> wf_Table t \<and> abs_Table t = [0 \<mapsto> None, 1 \<mapsto> None]"
proof -
  obtain t0 where t0: "new_Table garbage slots MaxOpenFiles = Inr t0" "wf_Table t0" "size_of t0 = 256" "abs_Table t0 = Map.empty"
    using new_Table_ok [of MaxOpenFiles garbage slots] by (auto simp: MaxOpenFiles_def)
  have "\<not> {0..<size_of t0} \<subseteq> dom (abs_Table t0)" using t0 by (simp only: dom_empty) simp
  then obtain i t1 where t1: "Put t0 None = Inr (i, t1)" "0 \<le> i" "{0..<i} \<subseteq> dom (abs_Table t0)" "wf_Table t1" "size_of t1 = 256"
    "abs_Table t1 = (abs_Table t0)(i \<mapsto> None)"
    using Put_ok [OF t0(2), of None] t0(3) by (simp only: if_False) blast
  have i: "i = 0" using t1(2,3) t0(4) by (cases "i = 0") (simp_all only: dom_empty, auto)
  have "5 \<in> {0..<size_of t1}" "5 \<notin> dom (abs_Table t1)" using t1(5,6) t0(4) i by (simp, simp only: dom_fun_upd dom_empty, simp)
  then have "\<not> {0..<size_of t1} \<subseteq> dom (abs_Table t1)" by blast
  then obtain j t2 where t2: "Put t1 None = Inr (j, t2)" "0 \<le> j" "j \<notin> dom (abs_Table t1)" "{0..<j} \<subseteq> dom (abs_Table t1)" "wf_Table t2"
    "abs_Table t2 = (abs_Table t1)(j \<mapsto> None)"
    using Put_ok [OF t1(4), of None] t1(5) by (simp only: if_False) blast
  have "j = 1"
  proof -
    have "{0..<j} \<subseteq> {0}" "j \<noteq> 0" using t2(3,4) t1(6) t0(4) i by simp_all
    then have "1 \<notin> {0..<j}" by (metis singletonD subsetD zero_neq_one)
    then show ?thesis using t2(2) \<open>j \<noteq> 0\<close> by simp
  qed
  then show ?thesis using t0(1,4) t1(1,6) t2(1,5,6) i by (simp add: new_fileTable_def)
qed


lemma new_fileTable_size: "new_fileTable garbage slots = Inr t \<Longrightarrow> size_of t = 256"
  by (auto simp: new_fileTable_def new_Table_def Put_def Put_find_def Put_store_def MaxOpenFiles_def split: if_splits)

section \<open>Open\<close>

text \<open>The bytes at \<open>vaddr\<close>, with frames for their pages.\<close>

definition user_buffer :: "vm \<Rightarrow> u32 \<Rightarrow> u8 list \<Rightarrow> bool" where
  "user_buffer v vaddr bs \<longleftrightarrow> user_bytes v vaddr bs \<and>
     (bs \<noteq> [] \<longrightarrow> frames_used v + pages_of vaddr (int (length bs)) \<le> NumPhysPages)"

lemma copyin_buffer:
  assumes "kernel_ok v" "user_buffer v vaddr bs"
  shows "\<exists>v'. copyin big vaddr (int (length bs)) v = Some (Inr (bs, v')) \<and> kernel_ok v' \<and>
    currentSpace v' = currentSpace v \<and> keeps_bytes {} v {} v'"
proof -
  have "frames_used v + pages_of vaddr (int (length bs)) - (if in_tlb v (uint vaddr div PageSize) then 1 else 0) \<le> NumPhysPages"
    if "bs \<noteq> []" using assms(2) that by (simp add: user_buffer_def)
  then show ?thesis
    using copyin_bytes_ok [OF assms(1), of vaddr bs big] assms(2) by (auto simp: copyin_def user_buffer_def)
qed

lemma c_string_all: "0 \<notin> set bs \<Longrightarrow> c_string bs = bs"
  unfolding c_string_def by (induction bs) auto

lemma Open_Syscall_ok:
  assumes s: "io_ok s" and b: "user_buffer (iovm s) vaddr name" "0 \<notin> set name"
    and tbl: "{0, 1} \<subseteq> dom (abs_Table (myTable s))"
  shows "\<exists>r s'. Open_Syscall big g vaddr (int (length name)) s = Some (Inr (r, s')) \<and> io_ok s' \<and> iofs s' = iofs s \<and>
    (if files (iofs s) (key_of name) = None \<or> {0..<size_of (myTable s)} \<subseteq> dom (abs_Table (myTable s))
     then r = - 1 \<and> abs_Table (myTable s') = abs_Table (myTable s)
     else r \<notin> dom (abs_Table (myTable s)) \<and> 0 \<le> r \<and> open_on s' r (key_of name) 0 \<and>
       abs_Table (myTable s') = (abs_Table (myTable s))(r := abs_Table (myTable s') r))"
proof -
  have k: "kernel_ok (iovm s)" "fs_ok (iofs s)" "wf_Table (myTable s)" using s by (simp_all add: io_ok_def)
  obtain v where v: "copyin big vaddr (int (length name)) (iovm s) = Some (Inr (name, v))" "kernel_ok v"
    "currentSpace v = currentSpace (iovm s)" using copyin_buffer [OF k(1) b(1)] by blast
  let ?s1 = "s\<lparr>iovm := v\<rparr>" and ?dir = "the_dir_of (iofs s)"
  have t1: "myTable ?s1 = myTable s" using v(3) by simp
  have i: "fs_inv (iofs s) (the_map_of (iofs s)) ?dir" by (rule fs_okD [OF k(2)])
  have f: "files (iofs s) (key_of name) = None \<longleftrightarrow> dir_map ?dir (key_of name) = None" using fs_inv_view [OF i] by simp
  have ok1: "io_ok ?s1" using k v t1 by (simp add: io_ok_def)
  note op = FS_Open_ok [OF i b(2), of g]
  show ?thesis
  proof (cases "dir_map ?dir (key_of name)")
    case None
    then have "Open_Syscall big g vaddr (int (length name)) s = Some (Inr (- 1, ?s1))"
      using v(1) op c_string_all [OF b(2)] by (simp add: Open_Syscall_def)
    then show ?thesis using None f ok1 t1 by auto
  next
    case (Some m)
    let ?f = "\<lparr>ohdr = hdr_at (dsk (iofs s)) m, seekPosition = 0\<rparr>"
    have run: "Open_Syscall big g vaddr (int (length name)) s =
        Some (bind_result (Put (myTable s) (Some ?f)) (\<lambda>(fid, t). Inr (fid, set_myTable t ?s1)))"
      using v(1) op c_string_all [OF b(2)] t1 Some by (simp add: Open_Syscall_def)
    show ?thesis
    proof (cases "{0..<size_of (myTable s)} \<subseteq> dom (abs_Table (myTable s))")
      case True
      then have "Put (myTable s) (Some ?f) = Inr (- 1, myTable s)" using Put_ok [OF k(3), of "Some ?f"] by (simp only: if_True)
      moreover have "io_ok (set_myTable (myTable s) ?s1)" using ok1 t1 by (simp add: io_ok_def)
      ultimately show ?thesis using run True by auto
    next
      case False
      then obtain r t where t: "Put (myTable s) (Some ?f) = Inr (r, t)" "0 \<le> r" "r \<notin> dom (abs_Table (myTable s))" "wf_Table t"
        "abs_Table t = (abs_Table (myTable s))(r \<mapsto> Some ?f)"
        using Put_ok [OF k(3), of "Some ?f"] by (simp only: if_False) blast
      let ?s2 = "set_myTable t ?s1"
      have "r \<noteq> 0" "r \<noteq> 1" using t(3) tbl by auto
      then have "open_on ?s2 r (key_of name) 0"
        using t(5) Some by (simp add: open_on_def ConsoleInput_def ConsoleOutput_def)
      moreover have "io_ok ?s2" using ok1 t(4) by (simp add: io_ok_def)
      ultimately show ?thesis using run t False f Some by (intro exI [of _ r] exI [of _ ?s2]) (auto simp del: dom_abs_Table)
    qed
  qed
qed

section \<open>Write\<close>

lemma open_on_header:
  assumes "io_ok s" "open_on s fid nm p"
  obtains k f c where "abs_Table (myTable s) fid = Some (Some f)" "seekPosition f = p" "dir_map (the_dir_of (iofs s)) nm = Some k"
    "ohdr f = hdr_at (dsk (iofs s)) k" "header_ok (ohdr f)" "disk_file_ok (dsk (iofs s))"
    "files (iofs s) nm = Some c" "c = contents (ohdr f) (dsk (iofs s))" "numBytes (ohdr f) = int (length c)"
proof -
  obtain k f where f: "abs_Table (myTable s) fid = Some (Some f)" "seekPosition f = p" "dir_map (the_dir_of (iofs s)) nm = Some k"
    "ohdr f = hdr_at (dsk (iofs s)) k" using assms(2) by (auto simp: open_on_def)
  have i: "fs_inv (iofs s) (the_map_of (iofs s)) (the_dir_of (iofs s))" using assms(1) fs_okD by (simp add: io_ok_def)
  have h: "header_ok (ohdr f)" using files_okD(1) [OF fs_invD(6) [OF i] f(3)] f(4) by simp
  have d: "disk_file_ok (dsk (iofs s))" by (rule fs_invD(7) [OF i])
  have "numBytes (ohdr f) = int (length (contents (ohdr f) (dsk (iofs s))))"
    using length_contents [OF h d] h by (simp add: header_ok_def)
  moreover have "files (iofs s) nm = Some (contents (ohdr f) (dsk (iofs s)))" using fs_inv_view [OF i] f(3,4) by simp
  ultimately show ?thesis using that f h d by blast
qed


lemma open_on_dir:
  "open_on s fid nm p \<Longrightarrow> the_dir_of (iofs s') = the_dir_of (iofs s) \<Longrightarrow> abs_Table (myTable s') fid = abs_Table (myTable s) fid \<Longrightarrow>
   (\<And>n k. dir_map (the_dir_of (iofs s)) n = Some k \<Longrightarrow> hdr_at (dsk (iofs s')) k = hdr_at (dsk (iofs s)) k) \<Longrightarrow> open_on s' fid nm p"
  unfolding open_on_def by fastforce

lemma Write_Syscall_ok:
  assumes s: "io_ok s" and b: "user_buffer (iovm s) vaddr bs" and o: "open_on s fid nm p" "0 \<le> p"
    and c: "files (iofs s) nm = Some c"
  defines "m \<equiv> nat (min (int (length bs)) (int (length c) - p))"
  shows "\<exists>s'. Write_Syscall big garbage vaddr (int (length bs)) fid s = Some (Inr s') \<and> io_ok s' \<and> open_on s' fid nm (p + int m) \<and>
    files (iofs s') = (files (iofs s))(nm \<mapsto> take (nat p) c @ take m bs @ drop (nat p + m) c) \<and> room (iofs s') = room (iofs s) \<and>
    (\<forall>fid' nm' p'. fid' \<noteq> fid \<and> open_on s fid' nm' p' \<longrightarrow> open_on s' fid' nm' p')"
proof -
  have ks: "kernel_ok (iovm s)" "fs_ok (iofs s)" "wf_Table (myTable s)" using s by (simp_all add: io_ok_def)
  obtain v where v: "copyin big vaddr (int (length bs)) (iovm s) = Some (Inr (bs, v))" "kernel_ok v"
    "currentSpace v = currentSpace (iovm s)" using copyin_buffer [OF ks(1) b] by blast
  let ?dir = "the_dir_of (iofs s)" and ?b = "the_map_of (iofs s)"
  have i: "fs_inv (iofs s) ?b ?dir" by (rule fs_okD [OF ks(2)])
  obtain k f c' where f: "abs_Table (myTable s) fid = Some (Some f)" "seekPosition f = p" "dir_map ?dir nm = Some k"
    "ohdr f = hdr_at (dsk (iofs s)) k" "files (iofs s) nm = Some c'" "c' = contents (ohdr f) (dsk (iofs s))"
    using open_on_header [OF s o(1)] by metis
  have cc: "c = contents (hdr_at (dsk (iofs s)) k) (dsk (iofs s))" using f(4-6) c by simp
  obtain d where d: "WriteAt garbage (ohdr f) bs (int (length bs)) p (dsk (iofs s)) = Inr (int m, d)"
    "fs_inv ((iofs s)\<lparr>dsk := d\<rparr>) ?b ?dir"
    "files ((iofs s)\<lparr>dsk := d\<rparr>) = (files (iofs s))(nm \<mapsto> take (nat p) c @ take m bs @ drop (nat p + m) c)"
    "\<And>n' l. dir_map ?dir n' = Some l \<Longrightarrow> hdr_at d l = hdr_at (dsk (iofs s)) l"
    using write_file_ok [OF i f(3) o(2), of "int (length bs)" bs garbage] f(4) unfolding m_def cc by auto
  let ?s1 = "s\<lparr>iovm := v, iofs := (iofs s)\<lparr>dsk := d\<rparr>\<rparr>" and ?f' = "f\<lparr>seekPosition := p + int m\<rparr>"
  have t1: "myTable ?s1 = myTable s" "myTable (s\<lparr>iovm := v\<rparr>) = myTable s" using v(3) by simp_all
  obtain t where t: "set_file fid ?f' ?s1 = Inr (set_myTable t ?s1)" "wf_Table t"
    "abs_Table t = (abs_Table (myTable s))(fid \<mapsto> Some ?f')"
    using set_file_ok [of ?s1 fid "Some f" ?f'] ks(3) f(1) t1 by auto
  let ?s' = "set_myTable t ?s1"
  have "File_Write garbage f bs (int (length bs)) (dsk (iofs s)) = Inr (int m, ?f', d)"
    using d(1) f(2) by (simp add: File_Write_def)
  then have run: "Write_Syscall big garbage vaddr (int (length bs)) fid s = Some (Inr ?s')"
    using v(1) o(1) Get_open [OF ks(3) f(1)] t1 t(1) by (simp add: Write_Syscall_def open_on_def)
  have dir: "the_dir_of (iofs ?s') = ?dir" "the_map_of (iofs ?s') = ?b" using fs_inv_unique [OF d(2)] by simp_all
  have "io_ok ?s'" using v(2) t(2) fs_inv_view [OF d(2)] by (simp add: io_ok_def)
  moreover have "open_on ?s' fid nm (p + int m)"
    unfolding open_on_def dir using o(1) t(3) f(3,4) d(4) by (simp add: open_on_def)
  moreover have "open_on ?s' fid' nm' p'" if "fid' \<noteq> fid" "open_on s fid' nm' p'" for fid' nm' p'
    by (rule open_on_dir [OF that(2) dir(1)]) (use t(3) that(1) d(4) in simp_all)
  ultimately show ?thesis using run d(3) fs_inv_view [OF d(2)] fs_inv_view [OF i] by (intro exI [of _ ?s']) simp
qed

section \<open>Read\<close>

lemma copyout_all: "copyout_bytes big vaddr bs s = Inr (True, v) \<Longrightarrow> copyout big vaddr (int (length bs)) bs s = Inr (int (length bs), v)"
  by (simp add: copyout_def)

text \<open>What \<open>Read\<close> does before the data is copied to the program.\<close>

lemma Read_Syscall_split:
  assumes s: "io_ok s" and o: "open_on s fid nm p" "0 \<le> p" and c: "files (iofs s) nm = Some c" and n: "0 \<le> n"
  defines "bs \<equiv> take (nat n) (drop (nat p) c)"
  shows "\<exists>s1. io_ok s1 \<and> iovm s1 = iovm s \<and> iofs s1 = iofs s \<and> open_on s1 fid nm (p + int (length bs)) \<and>
    (\<forall>fid' nm' p'. fid' \<noteq> fid \<and> open_on s fid' nm' p' \<longrightarrow> open_on s1 fid' nm' p') \<and>
    Read_Syscall big noise vaddr n fid s =
      (if bs = [] then Inr (0, s1)
       else bind_result (copyout big vaddr (int (length bs)) bs (iovm s)) (\<lambda>(r, v). Inr (int (length bs), s1\<lparr>iovm := v\<rparr>)))"
proof -
  have ks: "wf_Table (myTable s)" using s by (simp add: io_ok_def)
  obtain k f c' where f: "abs_Table (myTable s) fid = Some (Some f)" "seekPosition f = p" "dir_map (the_dir_of (iofs s)) nm = Some k"
    "ohdr f = hdr_at (dsk (iofs s)) k" "header_ok (ohdr f)" "disk_file_ok (dsk (iofs s))"
    "files (iofs s) nm = Some c'" "c' = contents (ohdr f) (dsk (iofs s))"
    using open_on_header [OF s o(1)] by metis
  have r: "ReadAt (ohdr f) n p (dsk (iofs s)) = Inr bs" using ReadAt_ok [OF f(5,6) o(2), of n] f(7,8) c by (simp add: bs_def)
  let ?f' = "f\<lparr>seekPosition := p + int (length bs)\<rparr>"
  obtain t where t: "set_file fid ?f' s = Inr (set_myTable t s)" "wf_Table t" "abs_Table t = (abs_Table (myTable s))(fid \<mapsto> Some ?f')"
    using set_file_ok [OF ks f(1)] by blast
  let ?s1 = "set_myTable t s"
  have "io_ok ?s1" using s t(2) by (simp add: io_ok_def)
  moreover have "open_on ?s1 fid nm (p + int (length bs))" using o(1) t(3) f(3,4) by (simp add: open_on_def)
  moreover have "open_on ?s1 fid' nm' p'" if "fid' \<noteq> fid" "open_on s fid' nm' p'" for fid' nm' p'
    by (rule open_on_dir [OF that(2)]) (use t(3) that(1) in simp_all)
  moreover have "Read_Syscall big noise vaddr n fid s =
      (if bs = [] then Inr (0, ?s1)
       else bind_result (copyout big vaddr (int (length bs)) bs (iovm s)) (\<lambda>(r, v). Inr (int (length bs), ?s1\<lparr>iovm := v\<rparr>)))"
    using n o(1) Get_open [OF ks f(1)] r f(2) t(1) by (simp add: Read_Syscall_def File_Read_def open_on_def Let_def)
  ultimately show ?thesis by (intro exI [of _ ?s1]) simp
qed


section \<open>Concrete states\<close>

lemma sample_io:
  assumes "kernel_ok v"
  shows "\<exists>s fid data. io_ok s \<and> iovm s = v \<and> open_on s fid [97] 0 \<and> files (iofs s) = [[97] \<mapsto> data] \<and> length data = 300"
proof -
  obtain fs data where fs: "fs_ok fs" "files fs = [[97] \<mapsto> data]" "length data = 300" using sample_file by blast
  have i: "fs_inv fs (the_map_of fs) (the_dir_of fs)" by (rule fs_okD [OF fs(1)])
  have "files fs [97] = Some data" using fs(2) by simp
  then obtain k where k: "dir_map (the_dir_of fs) [97] = Some k" using fs_inv_view [OF i] by auto
  obtain t0 :: "OpenFile Table" where t0: "wf_Table t0" "abs_Table t0 = [0 \<mapsto> None, 1 \<mapsto> None]" "size_of t0 = 256"
  proof -
    obtain t where t: "new_fileTable (\<lambda>_. 0) (\<lambda>_. None) = Inr t" "wf_Table t" "abs_Table t = [0 \<mapsto> None, 1 \<mapsto> None]"
      using new_fileTable_ok by blast
    moreover have "size_of t = 256" using t(1) by (rule new_fileTable_size)
    ultimately show thesis using that by blast
  qed
  let ?f = "\<lparr>ohdr = hdr_at (dsk fs) k, seekPosition = 0\<rparr>"
  have "5 \<in> {0..<size_of t0}" "5 \<notin> dom (abs_Table t0)" using t0(2,3) by (simp, simp only: dom_fun_upd dom_empty, simp)
  then have "\<not> {0..<size_of t0} \<subseteq> dom (abs_Table t0)" by blast
  then obtain r t where t: "r \<notin> dom (abs_Table t0)" "wf_Table t" "abs_Table t = (abs_Table t0)(r \<mapsto> Some ?f)"
    using Put_ok [OF t0(1), of "Some ?f"] by (simp only: if_False) blast
  let ?s = "\<lparr>iovm = v, iofs = fs, fileTables = \<lambda>_. t, screen = [], keyboard = []\<rparr>"
  have "r \<noteq> 0" "r \<noteq> 1" using t(1) t0(2) by (auto simp del: dom_abs_Table)
  then have "open_on ?s r [97] 0" using t(3) k by (simp add: open_on_def ConsoleInput_def ConsoleOutput_def myTable_def)
  moreover have "io_ok ?s" using assms fs(1) t(2) by (simp add: io_ok_def myTable_def)
  ultimately show ?thesis using fs(2,3) by (intro exI [of _ ?s] exI [of _ r] exI [of _ data]) simp
qed

lemma boot_buffer: "user_buffer boot_vm 100 [5, 5, 5]"
  using boot_bytes
  by (auto simp: user_buffer_def user_bytes_def less_Suc_eq numeral_3_eq_3 frames_used_def frame_map_bits pages_of_def machine_sizes)

section \<open>Properties\<close>

text \<open>
  C31: \<open>Write\<close> to an open file copies from the memory of the program to the file. It returns, with the
  bytes at \<open>vaddr\<close> in place of those of the file from the position on, as many as fit before its end;
  the position has moved by that number, every other file, open file and free sector is as it was, and
  the invariants of the pager, the file system and the table hold.
\<close>

theorem Write_Syscall_writes_file:
  assumes "io_ok s" "user_buffer (iovm s) vaddr bs" "open_on s fid nm p" "0 \<le> p" "files (iofs s) nm = Some c"
  shows "\<exists>s'. Write_Syscall big garbage vaddr (int (length bs)) fid s = Some (Inr s') \<and> io_ok s' \<and>
    (let m = nat (min (int (length bs)) (int (length c) - p)) in
     files (iofs s') = (files (iofs s))(nm \<mapsto> take (nat p) c @ take m bs @ drop (nat p + m) c) \<and>
     room (iofs s') = room (iofs s) \<and> open_on s' fid nm (p + int m)) \<and>
    (\<forall>fid' nm' p'. fid' \<noteq> fid \<and> open_on s fid' nm' p' \<longrightarrow> open_on s' fid' nm' p')"
  using Write_Syscall_ok [OF assms, of big garbage] unfolding Let_def by blast

theorem Write_Syscall_writes_file_witness:
  "\<exists>s fid data s'. files (iofs s) = [[97] \<mapsto> data] \<and> Write_Syscall False (\<lambda>_. 9) 100 3 fid s = Some (Inr s') \<and>
     files (iofs s') = [[97] \<mapsto> [5, 5, 5] @ drop 3 data] \<and> open_on s' fid [97] 3"
proof -
  obtain s fid data where s: "io_ok s" "iovm s = boot_vm" "open_on s fid [97] 0" "files (iofs s) = [[97] \<mapsto> data]" "length data = 300"
    using sample_io [OF kernel_ok_boot] by blast
  have b: "user_buffer (iovm s) 100 [5, 5, 5]" using boot_buffer s(2) by simp
  obtain s' where "Write_Syscall False (\<lambda>_. 9) 100 3 fid s = Some (Inr s')" "open_on s' fid [97] 3"
    "files (iofs s') = [[97] \<mapsto> [5, 5, 5] @ drop 3 data]"
    using Write_Syscall_writes_file [OF s(1) b s(3), of data False "\<lambda>_. 9"] s(4,5) by (auto simp: Let_def)
  then show ?thesis using s(4) by blast
qed

text \<open>
  C32: \<open>Read\<close> from an open file, with the pages of the buffer in the TLB, copies from the file to the
  memory of the program: it returns how many of the bytes asked for the file has from the position on,
  exactly those bytes are at \<open>vaddr\<close>, the position has moved by their number, and the files are as
  they were.
\<close>

theorem Read_Syscall_delivers:
  assumes "io_ok s" "open_on s fid nm p" "0 \<le> p" "files (iofs s) nm = Some c" "0 \<le> n"
    and "\<forall>i<length (take (nat n) (drop (nat p) c)). writable (iovm s) ((uint vaddr + int i) div PageSize)"
    and "uint vaddr + int (length (take (nat n) (drop (nat p) c))) < 2 ^ 32"
  shows "\<exists>s'. Read_Syscall big noise vaddr n fid s = Inr (int (length (take (nat n) (drop (nat p) c))), s') \<and> io_ok s' \<and>
    iofs s' = iofs s \<and> open_on s' fid nm (p + int (length (take (nat n) (drop (nat p) c)))) \<and>
    user_bytes (iovm s') vaddr (take (nat n) (drop (nat p) c))"
proof -
  let ?bs = "take (nat n) (drop (nat p) c)"
  obtain s1 where s1: "io_ok s1" "iovm s1 = iovm s" "iofs s1 = iofs s" "open_on s1 fid nm (p + int (length ?bs))"
    "Read_Syscall big noise vaddr n fid s = (if ?bs = [] then Inr (0, s1)
       else bind_result (copyout big vaddr (int (length ?bs)) ?bs (iovm s)) (\<lambda>(r, v). Inr (int (length ?bs), s1\<lparr>iovm := v\<rparr>)))"
    using Read_Syscall_split [OF assms(1-5)] by blast
  show ?thesis
  proof (cases "?bs = []")
    case True
    have "uint vaddr < 2 ^ 32" using uint_lt2p [of vaddr] by simp
    then have "user_bytes (iovm s1) vaddr ?bs" unfolding True by (simp add: user_bytes_def)
    moreover have "Read_Syscall big noise vaddr n fid s = Inr (int (length ?bs), s1)"
      unfolding s1(5) unfolding True by simp
    ultimately show ?thesis using s1(1,3,4) by blast
  next
    case False
    have "kernel_ok (iovm s)" using assms(1) by (simp add: io_ok_def)
    from copyout_bytes_ok [OF this assms(6,7)] obtain v where
      v: "copyout_bytes big vaddr ?bs (iovm s) = Inr (True, v)" "kernel_ok v" "currentSpace v = currentSpace (iovm s)"
        "user_bytes v vaddr ?bs" by blast
    have "copyout big vaddr (int (length ?bs)) ?bs (iovm s) = Inr (int (length ?bs), v)"
      by (rule copyout_all [OF v(1)])
    then have "Read_Syscall big noise vaddr n fid s = Inr (int (length ?bs), s1\<lparr>iovm := v\<rparr>)"
      using s1(5) False by (simp only: if_False bind_result.simps case_prod_conv)
    moreover have "myTable (s1\<lparr>iovm := v\<rparr>) = myTable s1" using v(3) s1(2) by simp
    ultimately show ?thesis
      using v s1 by (intro exI [of _ "s1\<lparr>iovm := v\<rparr>"]) (simp add: io_ok_def open_on_def)
  qed
qed


theorem Read_Syscall_delivers_witness:
  "\<exists>s fid data s'. files (iofs s) = [[97] \<mapsto> data] \<and> Read_Syscall False (\<lambda>_. 9) 100 3 fid s = Inr (3, s') \<and>
     user_bytes (iovm s') 100 (take 3 data) \<and> open_on s' fid [97] 3"
proof -
  obtain s fid data where s: "io_ok s" "iovm s = written_vm" "open_on s fid [97] 0" "files (iofs s) = [[97] \<mapsto> data]" "length data = 300"
    using sample_io [OF kernel_ok_written] by blast
  have "\<forall>i<length (take (nat 3) (drop (nat 0) data)). writable (iovm s) ((uint (100 :: u32) + int i) div PageSize)"
    using written_writable s(2,5) by (simp add: PageSize_def div_pos_pos_trivial)
  then have "\<exists>s'. Read_Syscall False (\<lambda>_. 9) 100 3 fid s = Inr (3, s') \<and> user_bytes (iovm s') 100 (take 3 data) \<and> open_on s' fid [97] 3"
    using Read_Syscall_delivers [OF s(1,3) _ _ _, of data 3 100 False "\<lambda>_. 9"] s(4,5) by auto
  then show ?thesis using s(4) by blast
qed

text \<open>
  C33: \<open>Read\<close> can lose data and report success. When the TLB has no entry for the page of the buffer, which
  is the state of every page after a context switch, the call returns the number of bytes and moves the
  position past them, while \<open>copyout\<close> has given up at the page fault that its first byte raised: not
  one byte of the program's memory is other than before. The data is gone for the next \<open>Read\<close>.
\<close>

theorem Read_Syscall_loses_data:
  assumes "io_ok s" "open_on s fid nm p" "0 \<le> p" "files (iofs s) nm = Some c" "0 \<le> n"
    and "take (nat n) (drop (nat p) c) \<noteq> []" "\<not> in_tlb (iovm s) (uint vaddr div PageSize)"
    and "page_entry (spaces (iovm s)) (currentSpace (iovm s)) (uint vaddr div PageSize) \<noteq> None" "frames_used (iovm s) < NumPhysPages"
  shows "\<exists>s'. Read_Syscall big noise vaddr n fid s = Inr (int (length (take (nat n) (drop (nat p) c))), s') \<and>
    open_on s' fid nm (p + int (length (take (nat n) (drop (nat p) c)))) \<and>
    (\<forall>x v k b. k < 128 \<and> page_byte {} (iovm s) x v k b \<longrightarrow> page_byte {} (iovm s') x v k b)"
proof -
  let ?bs = "take (nat n) (drop (nat p) c)"
  obtain s1 where s1: "io_ok s1" "iovm s1 = iovm s" "iofs s1 = iofs s" "open_on s1 fid nm (p + int (length ?bs))"
    "Read_Syscall big noise vaddr n fid s = (if ?bs = [] then Inr (0, s1)
       else bind_result (copyout big vaddr (int (length ?bs)) ?bs (iovm s)) (\<lambda>(r, v). Inr (int (length ?bs), s1\<lparr>iovm := v\<rparr>)))"
    using Read_Syscall_split [OF assms(1-5)] by blast
  have k: "kernel_ok (iovm s)" using assms(1) by (simp add: io_ok_def)
  from copyout_gives_up_ok [OF k assms(6-9), of big] obtain v where
    v: "copyout big vaddr (int (length ?bs)) ?bs (iovm s) = Inr (- 1, v)" "currentSpace v = currentSpace (iovm s)"
      "keeps_bytes {} (iovm s) {} v" by blast
  have "Read_Syscall big noise vaddr n fid s = Inr (int (length ?bs), s1\<lparr>iovm := v\<rparr>)"
    using s1(5) v(1) assms(6) by (simp only: if_False bind_result.simps case_prod_conv)
  moreover have "myTable (s1\<lparr>iovm := v\<rparr>) = myTable s1" using v(2) s1(2) by simp
  ultimately show ?thesis
    using v(3) s1(4) by (intro exI [of _ "s1\<lparr>iovm := v\<rparr>"]) (simp add: open_on_def keeps_bytes_def)
qed

theorem Read_Syscall_loses_data_witness:
  "\<exists>s fid s'. Read_Syscall False (\<lambda>_. 9) 100 3 fid s = Inr (3, s') \<and> open_on s' fid [97] 3 \<and>
     (\<forall>k<128. page_byte {} (iovm s') 7 0 k 5)"
proof -
  obtain s fid data where s: "io_ok s" "iovm s = boot_vm" "open_on s fid [97] 0" "files (iofs s) = [[97] \<mapsto> data]" "length data = 300"
    using sample_io [OF kernel_ok_boot] by blast
  have "length (take (nat 3) (drop (nat 0) data)) = 3" using s(5) by simp
  moreover from this have "take (nat 3) (drop (nat 0) data) \<noteq> []" by (metis list.size(3) zero_neq_numeral)
  moreover have "\<not> in_tlb (iovm s) (uint (100 :: u32) div PageSize)"
    by (simp add: s(2) in_tlb_def TLBSize_def numeral_eq_Suc) (simp add: no_entry_def)
  moreover have "frames_used (iovm s) < NumPhysPages" by (simp add: s(2) frames_used_def frame_map_bits machine_sizes)
  moreover have "page_entry (spaces (iovm s)) (currentSpace (iovm s)) (uint (100 :: u32) div PageSize) \<noteq> None"
    by (simp add: s(2) sample_entries PageSize_def)
  moreover have "files (iofs s) [97] = Some data" using s(4) by simp
  ultimately obtain s' where s': "Read_Syscall False (\<lambda>_. 9) 100 3 fid s = Inr (3, s')" "open_on s' fid [97] 3"
    "\<And>x v k b. k < 128 \<Longrightarrow> page_byte {} (iovm s) x v k b \<Longrightarrow> page_byte {} (iovm s') x v k b"
    using Read_Syscall_loses_data [OF s(1,3), of data 3 100 False "\<lambda>_. 9"] by auto
  then show ?thesis using boot_bytes s(2) by (intro exI [of _ s] exI [of _ fid] exI [of _ s']) simp
qed


section \<open>Create\<close>

text \<open>
  a file that a program creates can hold no data. \<open>Create\<close> makes a file of the name in the memory of
  the program, of size 0, and since a file of this file system does not grow, every \<open>Write\<close> to it, at any
  position and of any data, leaves all files as they are (and no error is returned, \<open>Write\<close> returns none).
\<close>

lemma created_file_holds_nothing:
  assumes "io_ok s" "fresh_ok g" "user_buffer (iovm s) vaddr name" "0 \<notin> set name"
    and "files (iofs s) (key_of name) = None" "card (dom (files (iofs s))) < 10" "1 \<le> room (iofs s)"
  shows "\<exists>s'. Create_Syscall big g vaddr (int (length name)) s = Some (Inr s') \<and> io_ok s' \<and>
      files (iofs s') = (files (iofs s))(key_of name \<mapsto> []) \<and>
      (\<forall>t fid p a bs garbage. io_ok t \<and> files (iofs t) (key_of name) = Some [] \<and> open_on t fid (key_of name) p \<and> 0 \<le> p \<and>
         user_buffer (iovm t) a bs \<longrightarrow>
         (\<exists>t'. Write_Syscall big garbage a (int (length bs)) fid t = Some (Inr t') \<and> files (iofs t') = files (iofs t)))"
proof -
  have ks: "kernel_ok (iovm s)" "fs_ok (iofs s)" "wf_Table (myTable s)" using assms(1) by (simp_all add: io_ok_def)
  have i: "fs_inv (iofs s) (the_map_of (iofs s)) (the_dir_of (iofs s))" by (rule fs_okD [OF ks(2)])
  note v0 = fs_inv_view [OF i]
  obtain v where v: "copyin big vaddr (int (length name)) (iovm s) = Some (Inr (name, v))" "kernel_ok v"
    "currentSpace v = currentSpace (iovm s)" using copyin_buffer [OF ks(1) assms(3)] by blast
  have "0 \<le> MaxFileSize" "divRoundUp 0 128 = 0" using sample_sizes(3) by (simp_all add: divRoundUp_def)
  moreover have "\<not> dir_full (the_dir_of (iofs s))" using assms(6) not_full [OF i] by simp
  ultimately obtain d b' dir' k where r: "FS_Create g name 0 (iofs s) = Inr (True, (iofs s)\<lparr>dsk := d\<rparr>)"
    "fs_inv ((iofs s)\<lparr>dsk := d\<rparr>) b' dir'" "dir_map dir' = (dir_map (the_dir_of (iofs s)))(key_of name \<mapsto> k)"
    "numBytes (hdr_at d k) = 0"
    "\<And>m l. dir_map (the_dir_of (iofs s)) m = Some l \<Longrightarrow> contents (hdr_at d l) d = contents (hdr_at (dsk (iofs s)) l) (dsk (iofs s))"
    using FS_Create_ok [OF i assms(2,4), of 0] assms(5,7) v0 by auto
  let ?s' = "s\<lparr>iovm := v, iofs := (iofs s)\<lparr>dsk := d\<rparr>\<rparr>"
  have "Create_Syscall big g vaddr (int (length name)) s = Some (Inr ?s')"
    using v(1) r(1) c_string_all [OF assms(4)] by (simp add: Create_Syscall_def)
  moreover have "io_ok ?s'" using v(2,3) ks(3) fs_inv_view [OF r(2)] by (simp add: io_ok_def)
  moreover have "files (iofs ?s') = (files (iofs s))(key_of name \<mapsto> [])"
  proof
    fix m
    have "contents (hdr_at d k) d = []" using r(4) by (simp add: contents_def)
    then show "files (iofs ?s') m = ((files (iofs s))(key_of name \<mapsto> [])) m"
      using fs_inv_view [OF r(2)] v0 r(3,5) by (cases "dir_map (the_dir_of (iofs s)) m") auto
  qed
  moreover have "\<exists>t'. Write_Syscall big garbage a (int (length bs)) fid t = Some (Inr t') \<and> files (iofs t') = files (iofs t)"
    if t: "io_ok t" "files (iofs t) (key_of name) = Some []" "open_on t fid (key_of name) p" "0 \<le> p" "user_buffer (iovm t) a bs"
    for t fid p a bs garbage
  proof -
    obtain t' where "Write_Syscall big garbage a (int (length bs)) fid t = Some (Inr t')"
      "files (iofs t') = (files (iofs t))(key_of name \<mapsto> [])"
      using Write_Syscall_ok [OF t(1,5,3,4,2), of big garbage] t(4) by auto
    moreover have "(files (iofs t))(key_of name \<mapsto> []) = files (iofs t)" using t(2) by (simp add: fun_upd_idem)
    ultimately show ?thesis by auto
  qed
  ultimately show ?thesis by blast
qed

lemma created_file_holds_nothing_example:
  "\<exists>s s'. Create_Syscall False sample_fresh 100 3 s = Some (Inr s') \<and> files (iofs s') = [[5, 5, 5] \<mapsto> []] \<and> io_ok s'"
proof -
  obtain fs where fs: "fs_ok fs" "files fs = Map.empty" "room fs = 1019" using sample_system by blast
  obtain t :: "OpenFile Table" where t: "wf_Table t" using new_fileTable_ok by blast
  let ?s = "\<lparr>iovm = boot_vm, iofs = fs, fileTables = \<lambda>_. t, screen = [], keyboard = []\<rparr>"
  have "io_ok ?s" using kernel_ok_boot fs(1) t by (simp add: io_ok_def myTable_def)
  then show ?thesis
    using created_file_holds_nothing [of ?s sample_fresh 100 "[5, 5, 5]" False] boot_buffer fs(2,3)
    by (auto simp: key_of_def)
qed

end
