(* ===== verification/Syscalls.thy ===== *)
theory Syscalls
  imports Threads Bit_Map
begin

text \<open>
  The system calls on locks, condition variables and queues of a build without NETWORK
  (userprog/exception.cc, userprog/exception.h). A user program names a lock by its index in
  \<open>lockTable\<close>; a slot of the table points to a lock of the kernel (theory Threads). A call is one step:
  the calls run with interrupts off or under a kernel lock. What is left of a call when its thread is
  put to sleep is a frame in \<open>afterWait\<close>, which \<open>resume\<close> runs when the thread is dispatched again.
\<close>

section \<open>State\<close>

definition MAX_LOCKS_CONDITIONS :: int where "MAX_LOCKS_CONDITIONS = 500"

record LockEntry =
  lockp :: "lid option"        \<comment> \<open>the field lock; \<open>None\<close> in memory not yet written\<close>
  lockSpace :: "nat option"
  lockToBeDeleted :: bool
  acquireCount :: int

record ConditionEntry =
  condp :: "cid option"
  conditionSpace :: "nat option"
  condToBeDeleted :: bool

text \<open>
  \<open>nextLock\<close> and \<open>nextCond\<close> are the addresses that \<open>new\<close> returns next; the addresses that \<open>delete\<close>
  has released are in \<open>freedLocks\<close> and \<open>freedConds\<close>.
\<close>

record sys =
  kern :: kernel
  threadSpace :: "tid \<Rightarrow> nat option"      \<comment> \<open>\<open>thread->space\<close>\<close>
  lockTable :: "LockEntry list"
  lockMap :: "BitMap option"
  lockArraySize :: int
  conditionTable :: "ConditionEntry list"
  conditionMap :: "BitMap option"
  conditionArraySize :: int
  queueTable :: "int list list"
  queueMap :: "BitMap option"
  queueArraySize :: int
  nextLock :: lid
  nextCond :: cid
  freedLocks :: "lid set"
  freedConds :: "cid set"
  afterWait :: "tid \<Rightarrow> int option"

definition callerSpace :: "sys \<Rightarrow> nat option" where
  "callerSpace s = threadSpace s (currentThread (kern s))"

definition deref :: "'a option \<Rightarrow> 'a set \<Rightarrow> 'a result" where
  "deref p freed = (case p of None \<Rightarrow> Inl Uninitialised | Some x \<Rightarrow>
     if x \<in> freed then Inl DanglingPointer else Inr x)"

definition the_map :: "BitMap option \<Rightarrow> BitMap result" where
  "the_map m = (case m of None \<Rightarrow> Inl NullPointer | Some b \<Rightarrow> Inr b)"

section \<open>The checks\<close>

definition check_lock :: "int \<Rightarrow> sys \<Rightarrow> bool result" where
  "check_lock lockIndex s =
     (if lockIndex < 0 \<or> lockIndex > lockArraySize s - 1 then Inr False
      else bind_result (the_map (lockMap s)) (\<lambda>b. bind_result (Test b lockIndex) (\<lambda>t.
        if \<not> t then Inr False
        else bind_result (array_get (lockTable s) lockIndex) (\<lambda>e. Inr (lockSpace e = callerSpace s)))))"

definition check_condition :: "int \<Rightarrow> sys \<Rightarrow> bool result" where
  "check_condition conditionIndex s =
     (if conditionIndex < 0 \<or> conditionIndex > conditionArraySize s - 1 then Inr False
      else bind_result (the_map (conditionMap s)) (\<lambda>b. bind_result (Test b conditionIndex) (\<lambda>t.
        if \<not> t then Inr False
        else bind_result (array_get (conditionTable s) conditionIndex) (\<lambda>e.
          Inr (conditionSpace e = callerSpace s)))))"

definition check_both :: "int \<Rightarrow> int \<Rightarrow> sys \<Rightarrow> bool result" where
  "check_both conditionIndex lockIndex s =
     bind_result (check_condition conditionIndex s) (\<lambda>c. if c then check_lock lockIndex s else Inr False)"

text \<open>\<open>lockTable[i].lock->\<close> and \<open>conditionTable[i].condition->\<close>.\<close>

definition lock_at :: "int \<Rightarrow> sys \<Rightarrow> lid result" where
  "lock_at i s = bind_result (array_get (lockTable s) i) (\<lambda>e. deref (lockp e) (freedLocks s))"

definition condition_at :: "int \<Rightarrow> sys \<Rightarrow> cid result" where
  "condition_at i s = bind_result (array_get (conditionTable s) i) (\<lambda>e. deref (condp e) (freedConds s))"

definition set_lock_entry :: "int \<Rightarrow> (LockEntry \<Rightarrow> LockEntry) \<Rightarrow> sys \<Rightarrow> sys result" where
  "set_lock_entry i f s = bind_result (array_get (lockTable s) i) (\<lambda>e.
     bind_result (array_set (lockTable s) i (f e)) (\<lambda>t. Inr (s\<lparr>lockTable := t\<rparr>)))"

definition set_condition_entry :: "int \<Rightarrow> (ConditionEntry \<Rightarrow> ConditionEntry) \<Rightarrow> sys \<Rightarrow> sys result" where
  "set_condition_entry i f s = bind_result (array_get (conditionTable s) i) (\<lambda>e.
     bind_result (array_set (conditionTable s) i (f e)) (\<lambda>t. Inr (s\<lparr>conditionTable := t\<rparr>)))"

text \<open>\<open>delete lockTable[i].lock; lockMap->Clear(i)\<close>: the pointer stays in the table.\<close>

definition delete_lock :: "int \<Rightarrow> sys \<Rightarrow> sys result" where
  "delete_lock i s =
     bind_result (lock_at i s) (\<lambda>l.
     bind_result (the_map (lockMap s)) (\<lambda>b. bind_result (Clear b i) (\<lambda>b'.
     Inr (s\<lparr>freedLocks := insert l (freedLocks s), lockMap := Some b'\<rparr>))))"

definition delete_condition :: "int \<Rightarrow> sys \<Rightarrow> sys result" where
  "delete_condition i s =
     bind_result (condition_at i s) (\<lambda>c.
     bind_result (the_map (conditionMap s)) (\<lambda>b. bind_result (Clear b i) (\<lambda>b'.
     Inr (s\<lparr>freedConds := insert c (freedConds s), conditionMap := Some b'\<rparr>))))"

section \<open>Creation\<close>

text \<open>
  \<open>g\<close> gives the words of fresh memory, \<open>e\<close> the entries of a fresh table, \<open>owner\<close> the owner that a new
  lock or condition variable happens to have. \<open>None\<close> is a call that halts the machine.
\<close>

definition init_locks :: "(nat \<Rightarrow> u32) \<Rightarrow> (nat \<Rightarrow> LockEntry) \<Rightarrow> sys \<Rightarrow> sys result" where
  "init_locks g e s =
     (if lockArraySize s = 0
      then bind_result (new_BitMap g MAX_LOCKS_CONDITIONS) (\<lambda>b.
        Inr (s\<lparr>lockTable := map e [0..<nat MAX_LOCKS_CONDITIONS], lockMap := Some b,
               lockArraySize := MAX_LOCKS_CONDITIONS\<rparr>))
      else Inr s)"

definition CreateLock_Syscall ::
  "(nat \<Rightarrow> u32) \<Rightarrow> (nat \<Rightarrow> LockEntry) \<Rightarrow> tid option \<Rightarrow> sys \<Rightarrow> (int \<times> sys) option result" where
  "CreateLock_Syscall g e owner s =
     bind_result (init_locks g e s) (\<lambda>s1.
     bind_result (the_map (lockMap s1)) (\<lambda>b. bind_result (Find b) (\<lambda>(i, b').
     if i = - 1 then Inr None
     else
       let s2 = s1\<lparr>lockMap := Some b', kern := set_lock (nextLock s1) (new_Lock owner) (kern s1),
                   nextLock := Suc (nextLock s1)\<rparr>
       in bind_result (set_lock_entry i (\<lambda>_. \<lparr>lockp = Some (nextLock s1), lockSpace = callerSpace s1,
              lockToBeDeleted = False, acquireCount = 0\<rparr>) s2) (\<lambda>s3.
          Inr (Some (i, s3))))))"

definition init_conditions :: "(nat \<Rightarrow> u32) \<Rightarrow> (nat \<Rightarrow> ConditionEntry) \<Rightarrow> sys \<Rightarrow> sys result" where
  "init_conditions g e s =
     (if conditionArraySize s = 0
      then bind_result (new_BitMap g MAX_LOCKS_CONDITIONS) (\<lambda>b.
        Inr (s\<lparr>conditionTable := map e [0..<nat MAX_LOCKS_CONDITIONS], conditionMap := Some b,
               conditionArraySize := MAX_LOCKS_CONDITIONS\<rparr>))
      else Inr s)"

definition CreateCondition_Syscall ::
  "(nat \<Rightarrow> u32) \<Rightarrow> (nat \<Rightarrow> ConditionEntry) \<Rightarrow> lid option \<Rightarrow> sys \<Rightarrow> (int \<times> sys) option result" where
  "CreateCondition_Syscall g e w s =
     bind_result (init_conditions g e s) (\<lambda>s1.
     bind_result (the_map (conditionMap s1)) (\<lambda>b. bind_result (Find b) (\<lambda>(i, b').
     if i = - 1 then Inr None
     else
       let s2 = s1\<lparr>conditionMap := Some b', kern := set_cond (nextCond s1) (new_Condition w) (kern s1),
                   nextCond := Suc (nextCond s1)\<rparr>
       in bind_result (set_condition_entry i (\<lambda>_. \<lparr>condp = Some (nextCond s1),
              conditionSpace = callerSpace s1, condToBeDeleted = False\<rparr>) s2) (\<lambda>s3.
          Inr (Some (i, s3))))))"

section \<open>Locks\<close>

text \<open>The rest of \<open>Wait_Syscall\<close>, for the thread that now runs.\<close>

definition finish_wait :: "int \<Rightarrow> sys \<Rightarrow> sys result" where
  "finish_wait i s =
     bind_result (array_get (conditionTable s) i) (\<lambda>e.
     if condToBeDeleted e then
       bind_result (condition_at i s) (\<lambda>c.
       if \<not> hasWaiting c (kern s) then delete_condition i s else Inr s)
     else Inr s)"

definition resume :: "sys \<Rightarrow> sys result" where
  "resume s =
     (let t = currentThread (kern s) in
      if idle (kern s) then Inr s
      else case afterWait s t of None \<Rightarrow> Inr s
      | Some i \<Rightarrow> finish_wait i (s\<lparr>afterWait := (afterWait s)(t := None)\<rparr>))"

definition Acquire_Syscall :: "int \<Rightarrow> sys \<Rightarrow> sys result" where
  "Acquire_Syscall lockIndex s =
     bind_result (check_lock lockIndex s) (\<lambda>ok.
     if \<not> ok then Inr s
     else
       bind_result (set_lock_entry lockIndex (\<lambda>e. e\<lparr>acquireCount := acquireCount e + 1\<rparr>) s) (\<lambda>s1.
       bind_result (lock_at lockIndex s1) (\<lambda>l.
       bind_result (Acquire l (kern s1)) (\<lambda>k. resume (s1\<lparr>kern := k\<rparr>)))))"

definition Release_Syscall :: "int \<Rightarrow> sys \<Rightarrow> sys result" where
  "Release_Syscall lockIndex s =
     bind_result (check_lock lockIndex s) (\<lambda>ok.
     if \<not> ok then Inr s
     else
       bind_result (set_lock_entry lockIndex (\<lambda>e. e\<lparr>acquireCount := acquireCount e - 1\<rparr>) s) (\<lambda>s1.
       bind_result (lock_at lockIndex s1) (\<lambda>l.
       let s2 = s1\<lparr>kern := Release l (kern s1)\<rparr> in
       bind_result (array_get (lockTable s2) lockIndex) (\<lambda>e.
       if lockToBeDeleted e \<and> acquireCount e = 0 \<and> \<not> isBusy l (kern s2) then delete_lock lockIndex s2
       else Inr s2))))"

definition DestroyLock_Syscall :: "int \<Rightarrow> sys \<Rightarrow> sys result" where
  "DestroyLock_Syscall lockIndex s =
     bind_result (check_lock lockIndex s) (\<lambda>ok.
     if \<not> ok then Inr s
     else
       bind_result (lock_at lockIndex s) (\<lambda>l.
       bind_result (array_get (lockTable s) lockIndex) (\<lambda>e.
       if \<not> (isBusy l (kern s) \<and> acquireCount e = 0) then delete_lock lockIndex s
       else set_lock_entry lockIndex (\<lambda>e. e\<lparr>lockToBeDeleted := True\<rparr>) s)))"

section \<open>Condition variables\<close>

definition Signal_Syscall :: "int \<Rightarrow> int \<Rightarrow> sys \<Rightarrow> sys result" where
  "Signal_Syscall conditionIndex lockIndex s =
     bind_result (check_both conditionIndex lockIndex s) (\<lambda>ok.
     if \<not> ok then Inr s
     else
       bind_result (condition_at conditionIndex s) (\<lambda>c.
       bind_result (lock_at lockIndex s) (\<lambda>l. Inr (s\<lparr>kern := Signal c (Some l) (kern s)\<rparr>))))"

definition Broadcast_Syscall :: "int \<Rightarrow> int \<Rightarrow> sys \<Rightarrow> sys result option" where
  "Broadcast_Syscall conditionIndex lockIndex s =
     (case check_both conditionIndex lockIndex s of
        Inl x \<Rightarrow> Some (Inl x)
      | Inr ok \<Rightarrow>
          if \<not> ok then Some (Inr s)
          else case (condition_at conditionIndex s, lock_at lockIndex s) of
            (Inr c, Inr l) \<Rightarrow> map_option (\<lambda>k. Inr (s\<lparr>kern := k\<rparr>)) (Broadcast c (Some l) (kern s))
          | (Inl x, _) \<Rightarrow> Some (Inl x)
          | (_, Inl x) \<Rightarrow> Some (Inl x))"

definition Wait_Syscall :: "int \<Rightarrow> int \<Rightarrow> sys \<Rightarrow> sys result" where
  "Wait_Syscall conditionIndex lockIndex s =
     bind_result (check_both conditionIndex lockIndex s) (\<lambda>ok.
     if \<not> ok then Inr s
     else
       bind_result (condition_at conditionIndex s) (\<lambda>c.
       bind_result (lock_at lockIndex s) (\<lambda>l.
       bind_result (Wait c (Some l) (kern s)) (\<lambda>k.
       resume (s\<lparr>kern := k,
         afterWait := (afterWait s)(currentThread (kern s) := Some conditionIndex)\<rparr>)))))"

definition DestroyCondition_Syscall :: "int \<Rightarrow> sys \<Rightarrow> sys result" where
  "DestroyCondition_Syscall conditionIndex s =
     bind_result (check_condition conditionIndex s) (\<lambda>ok.
     if \<not> ok then Inr s
     else
       bind_result (condition_at conditionIndex s) (\<lambda>c.
       if \<not> hasWaiting c (kern s) then delete_condition conditionIndex s
       else set_condition_entry conditionIndex (\<lambda>e. e\<lparr>condToBeDeleted := True\<rparr>) s))"

definition Yield_Syscall :: "sys \<Rightarrow> sys result" where
  "Yield_Syscall s = bind_result (Yield (kern s)) (\<lambda>k. resume (s\<lparr>kern := k\<rparr>))"

section \<open>Queues\<close>

definition CreateQueue_Syscall :: "(nat \<Rightarrow> u32) \<Rightarrow> sys \<Rightarrow> (int \<times> sys) option result" where
  "CreateQueue_Syscall g s =
     bind_result
       (if queueArraySize s = 0
        then bind_result (new_BitMap g 8) (\<lambda>b.
          Inr (s\<lparr>queueTable := replicate 8 [], queueMap := Some b, queueArraySize := 8\<rparr>))
        else Inr s) (\<lambda>s1.
     bind_result (the_map (queueMap s1)) (\<lambda>b. bind_result (Find b) (\<lambda>(i, b').
     if i = - 1 then Inr None else Inr (Some (i, s1\<lparr>queueMap := Some b'\<rparr>)))))"

text \<open>
  The checks of the queue calls print a message and go on; \<open>Test\<close> of an index outside the map fails an
  ASSERT. \<open>front\<close> and \<open>pop\<close> of an empty queue are undefined.
\<close>

definition queue_at :: "int \<Rightarrow> sys \<Rightarrow> int list result" where
  "queue_at q s =
     bind_result (the_map (queueMap s)) (\<lambda>b. bind_result (Test b q) (\<lambda>_. array_get (queueTable s) q))"

definition QueuePush_Syscall :: "int \<Rightarrow> int \<Rightarrow> sys \<Rightarrow> sys result" where
  "QueuePush_Syscall q x s =
     bind_result (queue_at q s) (\<lambda>xs. bind_result (array_set (queueTable s) q (xs @ [x])) (\<lambda>t.
     Inr (s\<lparr>queueTable := t\<rparr>)))"

definition QueueFront_Syscall :: "int \<Rightarrow> sys \<Rightarrow> int result" where
  "QueueFront_Syscall q s =
     bind_result (queue_at q s) (\<lambda>xs. case xs of [] \<Rightarrow> Inl DanglingPointer | x # _ \<Rightarrow> Inr x)"

definition QueuePop_Syscall :: "int \<Rightarrow> sys \<Rightarrow> sys result" where
  "QueuePop_Syscall q s =
     bind_result (queue_at q s) (\<lambda>xs. case xs of [] \<Rightarrow> Inl DanglingPointer
       | _ # ys \<Rightarrow> bind_result (array_set (queueTable s) q ys) (\<lambda>t. Inr (s\<lparr>queueTable := t\<rparr>)))"

definition QueueEmpty_Syscall :: "int \<Rightarrow> sys \<Rightarrow> int result" where
  "QueueEmpty_Syscall q s = bind_result (queue_at q s) (\<lambda>xs. Inr (if xs = [] then 1 else 0))"

definition QueueSize_Syscall :: "int \<Rightarrow> sys \<Rightarrow> int result" where
  "QueueSize_Syscall q s = bind_result (queue_at q s) (\<lambda>xs. Inr (int (length xs)))"

section \<open>Two numbers in one\<close>

definition NEncode2to1_Syscall :: "u32 \<Rightarrow> u32 \<Rightarrow> u32" where
  "NEncode2to1_Syscall v1 v2 = push_bit 16 v2 OR (v1 AND 0x0000ffff)"

definition decode2to1 :: "u32 \<Rightarrow> u32 \<times> u32" where
  "decode2to1 v = (v AND 0x0000ffff, drop_bit 16 (v AND 0xffff0000))"

end
