(* ===== verification/Syscall_Claims.thy ===== *)
theory Syscall_Claims
  imports Syscalls
begin

text \<open>
  The tables of locks and condition variables: what an index means to a process, the invariant that
  an index in use names an object of its own that is not deleted, and what the calls do with it.
\<close>

section \<open>The invariant of a table\<close>

definition handles_ok ::
  "int \<Rightarrow> BitMap option \<Rightarrow> ('e \<Rightarrow> nat option) \<Rightarrow> 'e list \<Rightarrow> nat set \<Rightarrow> nat \<Rightarrow> bool" where
  "handles_ok n m ptr tab freed lim \<longleftrightarrow> freed \<subseteq> {..<lim} \<and>
     (n = 0 \<and> m = None \<or> n = 500 \<and> length tab = 500 \<and>
       (\<exists>b. m = Some b \<and> wf_BitMap b \<and> numBits b = 500 \<and>
         (\<forall>i\<in>bits b. \<exists>p. ptr (tab ! nat i) = Some p \<and> p < lim \<and> p \<notin> freed) \<and>
         (\<forall>i p. 0 \<le> i \<and> i < 500 \<and> i \<notin> bits b \<and> ptr (tab ! nat i) = Some p \<longrightarrow> p \<in> freed) \<and>
         inj_on (\<lambda>i. ptr (tab ! nat i)) (bits b)))"

definition in_use :: "BitMap option \<Rightarrow> int set" where
  "in_use m = (case m of None \<Rightarrow> {} | Some b \<Rightarrow> bits b)"

lemma in_use_simps [simp]: "in_use None = {}" "in_use (Some b) = bits b"
  by (simp_all add: in_use_def)

lemma handles_range:
  "handles_ok n m ptr tab freed lim \<Longrightarrow> i \<in> in_use m \<Longrightarrow> 0 \<le> i \<and> i < 500 \<and> n = 500 \<and> length tab = 500"
  using bits_range by (auto simp: handles_ok_def in_use_def split: option.splits) fastforce+

lemma handles_live:
  "handles_ok n m ptr tab freed lim \<Longrightarrow> i \<in> in_use m \<Longrightarrow>
   \<exists>p. ptr (tab ! nat i) = Some p \<and> p < lim \<and> p \<notin> freed"
  by (auto simp: handles_ok_def)

lemma handles_inj:
  "handles_ok n m ptr tab freed lim \<Longrightarrow> i \<in> in_use m \<Longrightarrow> j \<in> in_use m \<Longrightarrow>
   ptr (tab ! nat i) = ptr (tab ! nat j) \<Longrightarrow> i = j"
  by (auto simp: handles_ok_def dest: inj_onD)

lemma handles_test:
  "handles_ok n m ptr tab freed lim \<Longrightarrow> 0 \<le> i \<Longrightarrow> i < n \<Longrightarrow>
   \<exists>b. m = Some b \<and> Test b i = Inr (i \<in> in_use m) \<and> array_get tab i = Inr (tab ! nat i)"
  by (auto simp: handles_ok_def)

lemma handles_dead:
  "handles_ok n m ptr tab freed lim \<Longrightarrow> 0 \<le> i \<Longrightarrow> i < n \<Longrightarrow> ptr (tab ! nat i) = Some p \<Longrightarrow> p \<notin> freed \<Longrightarrow>
   i \<in> in_use m"
  by (auto simp: handles_ok_def) blast

lemma handles_freed: "handles_ok n m ptr tab freed lim \<Longrightarrow> freed \<subseteq> {..<lim}"
  by (simp add: handles_ok_def)

lemma handles_okI:
  assumes "freed \<subseteq> {..<lim}" "length tab = 500" "wf_BitMap b" "numBits b = 500"
    and "\<And>i. i \<in> bits b \<Longrightarrow> \<exists>p. ptr (tab ! nat i) = Some p \<and> p < lim \<and> p \<notin> freed"
    and "\<And>i p. 0 \<le> i \<Longrightarrow> i < 500 \<Longrightarrow> i \<notin> bits b \<Longrightarrow> ptr (tab ! nat i) = Some p \<Longrightarrow> p \<in> freed"
    and "inj_on (\<lambda>i. ptr (tab ! nat i)) (bits b)"
  shows "handles_ok 500 (Some b) ptr tab freed lim"
  using assms unfolding handles_ok_def by blast

text \<open>An entry may change if its pointer does not; a slot may be cleared with its object deleted; a
  free slot may get a new object.\<close>

lemma handles_update:
  assumes "handles_ok n m ptr tab freed lim" "i \<in> in_use m" "ptr e = ptr (tab ! nat i)"
  shows "handles_ok n m ptr (tab[nat i := e]) freed lim"
proof -
  have "ptr (tab[nat i := e] ! nat j) = ptr (tab ! nat j)" for j
    using assms(3) handles_range [OF assms(1,2)] by (auto simp: nth_list_update)
  then show ?thesis using assms(1) by (simp add: handles_ok_def)
qed

lemma handles_delete:
  assumes "handles_ok n m ptr tab freed lim" "i \<in> in_use m" "ptr (tab ! nat i) = Some p"
  shows "\<exists>b b'. m = Some b \<and> Clear b i = Inr b' \<and> bits b' = bits b - {i} \<and>
    handles_ok n (Some b') ptr tab (insert p freed) lim"
proof -
  obtain b where b: "m = Some b" "wf_BitMap b" "numBits b = 500" "i \<in> bits b"
    using assms by (auto simp: handles_ok_def)
  obtain b' where b': "Clear b i = Inr b'" "wf_BitMap b'" "numBits b' = 500" "bits b' = bits b - {i}"
    using Clear_ok [OF b(2), of i] handles_range [OF assms(1,2)] b(3) by auto
  have "\<exists>q. ptr (tab ! nat j) = Some q \<and> q < lim \<and> q \<notin> insert p freed" if "j \<in> bits b'" for j
    using handles_live [OF assms(1), of j] handles_inj [OF assms(1), of j i] that b b' assms(3) by auto
  moreover have "p < lim" using handles_live [OF assms(1,2)] assms(3) by auto
  moreover have "inj_on (\<lambda>i. ptr (tab ! nat i)) (bits b')"
    using handles_inj [OF assms(1)] b(1) b'(4) by (intro inj_onI) simp
  moreover have "q \<in> insert p freed" if "0 \<le> j" "j < 500" "j \<notin> bits b'" "ptr (tab ! nat j) = Some q" for j q
  proof (cases "j = i")
    case True
    then show ?thesis using that(4) assms(3) by simp
  next
    case False
    then have "j \<notin> in_use m" using that(3) b(1) b'(4) by simp
    then show ?thesis
      using handles_dead [OF assms(1) that(1) _ that(4)] that(2) handles_range [OF assms(1,2)] by blast
  qed
  moreover have "insert p freed \<subseteq> {..<lim}" using handles_freed [OF assms(1)] \<open>p < lim\<close> by simp
  ultimately have "handles_ok 500 (Some b') ptr tab (insert p freed) lim"
    using handles_range [OF assms(1,2)] b'(2,3) by (intro handles_okI) blast+
  then have "handles_ok n (Some b') ptr tab (insert p freed) lim"
    using handles_range [OF assms(1,2)] by simp
  then show ?thesis using b(1) b' by blast
qed

lemma handles_new:
  assumes "handles_ok 500 (Some b) ptr tab freed lim" "Find b = Inr (i, b')" "i \<noteq> - 1" "ptr e = Some lim"
  shows "handles_ok 500 (Some b') ptr (tab[nat i := e]) freed (Suc lim) \<and> i \<notin> bits b \<and>
    0 \<le> i \<and> i < 500 \<and> bits b' = insert i (bits b)"
proof -
  have w: "wf_BitMap b" "numBits b = 500" "length tab = 500" using assms(1) by (auto simp: handles_ok_def)
  have "\<not> {0..<numBits b} \<subseteq> bits b" using Find_full [OF w(1)] assms(2,3) by auto
  from Find_free [OF w(1) this] assms(2) have
    f: "0 \<le> i" "i < 500" "i \<notin> bits b" "wf_BitMap b'" "numBits b' = 500" "bits b' = insert i (bits b)"
    using w(2) by auto
  have nth: "tab[nat i := e] ! nat j = (if j = i then e else tab ! nat j)" if "j \<in> bits b'" for j
  proof -
    have "0 \<le> j" using that bits_range [of b'] by auto
    then show ?thesis using f(1,2) w(3) by (auto simp: nth_list_update eq_nat_nat_iff)
  qed
  have live: "\<exists>p. ptr (tab[nat i := e] ! nat j) = Some p \<and> p < Suc lim \<and> p \<notin> freed \<and> (j \<noteq> i \<longrightarrow> p < lim)"
    if "j \<in> bits b'" for j
    using handles_live [OF assms(1), of j] that f(6) nth [OF that] assms(1,4)
    by (auto simp: handles_ok_def)
  have "inj_on (\<lambda>j. ptr (tab[nat i := e] ! nat j)) (bits b')"
  proof (rule inj_onI)
    fix j k assume jk: "j \<in> bits b'" "k \<in> bits b'" "ptr (tab[nat i := e] ! nat j) = ptr (tab[nat i := e] ! nat k)"
    show "j = k"
      using live [OF jk(1)] live [OF jk(2)] jk f(6) nth [OF jk(1)] nth [OF jk(2)] assms(4)
        handles_inj [OF assms(1), of j k] by (cases "j = i"; cases "k = i") auto
  qed
  moreover have "p \<in> freed" if j: "0 \<le> j" "j < 500" "j \<notin> bits b'" "ptr (tab[nat i := e] ! nat j) = Some p" for j p
  proof -
    have "j \<noteq> i" using j(3) f(6) by blast
    then have "ptr (tab ! nat j) = Some p" using j f(1) by (simp add: eq_nat_nat_iff)
    moreover have "j \<notin> bits b" using j(3) f(6) by blast
    ultimately show ?thesis using assms(1) j(1,2) by (auto simp: handles_ok_def)
  qed
  moreover have "freed \<subseteq> {..<Suc lim}" using handles_freed [OF assms(1)] by auto
  ultimately have "handles_ok 500 (Some b') ptr (tab[nat i := e]) freed (Suc lim)"
    using f w(3) live by (intro handles_okI) (simp, simp, blast+)
  with f show ?thesis by blast
qed

lemma handles_fresh_table:
  assumes "freed \<subseteq> {..<lim}" "length tab = 500" "\<forall>e\<in>set tab. ptr e = None"
  shows "\<exists>b. new_BitMap g MAX_LOCKS_CONDITIONS = Inr b \<and> handles_ok 500 (Some b) ptr tab freed lim \<and> bits b = {}"
  using new_BitMap_ok [of MAX_LOCKS_CONDITIONS g] assms
  by (auto simp: handles_ok_def MAX_LOCKS_CONDITIONS_def)

section \<open>The invariant of the tables\<close>

definition locks_ok :: "sys \<Rightarrow> bool" where
  "locks_ok s \<longleftrightarrow> handles_ok (lockArraySize s) (lockMap s) lockp (lockTable s) (freedLocks s) (nextLock s)"

definition conds_ok :: "sys \<Rightarrow> bool" where
  "conds_ok s \<longleftrightarrow>
     handles_ok (conditionArraySize s) (conditionMap s) condp (conditionTable s) (freedConds s) (nextCond s)"

definition sys_ok :: "sys \<Rightarrow> bool" where
  "sys_ok s \<longleftrightarrow> locks_ok s \<and> conds_ok s"

lemma lock_table: "sys_ok s \<Longrightarrow>
    handles_ok (lockArraySize s) (lockMap s) lockp (lockTable s) (freedLocks s) (nextLock s)"
  by (simp add: sys_ok_def locks_ok_def)

lemma condition_table: "sys_ok s \<Longrightarrow>
    handles_ok (conditionArraySize s) (conditionMap s) condp (conditionTable s) (freedConds s) (nextCond s)"
  by (simp add: sys_ok_def conds_ok_def)

text \<open>What an index means to the running thread.\<close>

definition lock_handle :: "sys \<Rightarrow> int \<Rightarrow> lid option" where
  "lock_handle s i =
     (if i \<in> in_use (lockMap s) \<and> lockSpace (lockTable s ! nat i) = callerSpace s
      then lockp (lockTable s ! nat i) else None)"

definition condition_handle :: "sys \<Rightarrow> int \<Rightarrow> cid option" where
  "condition_handle s i =
     (if i \<in> in_use (conditionMap s) \<and> conditionSpace (conditionTable s ! nat i) = callerSpace s
      then condp (conditionTable s ! nat i) else None)"

lemma check_lock_ok:
  assumes "sys_ok s"
  shows "check_lock i s = Inr (lock_handle s i \<noteq> None)"
proof (cases "0 \<le> i \<and> i < lockArraySize s")
  case True
  then obtain b where b: "lockMap s = Some b" "Test b i = Inr (i \<in> in_use (lockMap s))"
    "array_get (lockTable s) i = Inr (lockTable s ! nat i)"
    using handles_test [OF lock_table [OF assms], of i] by blast
  show ?thesis
  proof (cases "i \<in> in_use (lockMap s)")
    case used: True
    then obtain p where "lockp (lockTable s ! nat i) = Some p"
      using handles_live [OF lock_table [OF assms]] by blast
    then show ?thesis using True b used by (simp add: check_lock_def lock_handle_def the_map_def)
  next
    case False
    then show ?thesis using True b by (simp add: check_lock_def lock_handle_def the_map_def)
  qed
next
  case False
  then have "i \<notin> in_use (lockMap s)" using handles_range [OF lock_table [OF assms]] by auto
  with False show ?thesis by (auto simp: check_lock_def lock_handle_def)
qed

lemma check_condition_ok:
  assumes "sys_ok s"
  shows "check_condition i s = Inr (condition_handle s i \<noteq> None)"
proof (cases "0 \<le> i \<and> i < conditionArraySize s")
  case True
  then obtain b where b: "conditionMap s = Some b" "Test b i = Inr (i \<in> in_use (conditionMap s))"
    "array_get (conditionTable s) i = Inr (conditionTable s ! nat i)"
    using handles_test [OF condition_table [OF assms], of i] by blast
  show ?thesis
  proof (cases "i \<in> in_use (conditionMap s)")
    case used: True
    then obtain p where "condp (conditionTable s ! nat i) = Some p"
      using handles_live [OF condition_table [OF assms]] by blast
    then show ?thesis using True b used by (simp add: check_condition_def condition_handle_def the_map_def)
  next
    case False
    then show ?thesis using True b by (simp add: check_condition_def condition_handle_def the_map_def)
  qed
next
  case False
  then have "i \<notin> in_use (conditionMap s)" using handles_range [OF condition_table [OF assms]] by auto
  with False show ?thesis by (auto simp: check_condition_def condition_handle_def)
qed

lemma check_both_ok:
  "sys_ok s \<Longrightarrow> check_both c l s = Inr (condition_handle s c \<noteq> None \<and> lock_handle s l \<noteq> None)"
  by (simp add: check_both_def check_condition_ok check_lock_ok)

lemma lock_slot:
  assumes "sys_ok s" "i \<in> in_use (lockMap s)" "lockp (lockTable s ! nat i) = Some l"
  shows "array_get (lockTable s) i = Inr (lockTable s ! nat i)" "lock_at i s = Inr l"
    "array_set (lockTable s) i e = Inr ((lockTable s)[nat i := e])"
  using assms handles_range [of _ _ lockp _ _ _ i] handles_live [of _ _ lockp _ _ _ i]
  unfolding sys_ok_def locks_ok_def by (fastforce simp: lock_at_def deref_def)+

lemma condition_slot:
  assumes "sys_ok s" "i \<in> in_use (conditionMap s)" "condp (conditionTable s ! nat i) = Some c"
  shows "array_get (conditionTable s) i = Inr (conditionTable s ! nat i)" "condition_at i s = Inr c"
    "array_set (conditionTable s) i e = Inr ((conditionTable s)[nat i := e])"
  using assms handles_range [of _ _ condp _ _ _ i] handles_live [of _ _ condp _ _ _ i]
  unfolding sys_ok_def conds_ok_def by (fastforce simp: condition_at_def deref_def)+

lemma lock_handleD:
  "lock_handle s i = Some l \<Longrightarrow> i \<in> in_use (lockMap s) \<and> lockp (lockTable s ! nat i) = Some l"
  by (simp add: lock_handle_def split: if_splits)

lemma condition_handleD:
  "condition_handle s i = Some c \<Longrightarrow> i \<in> in_use (conditionMap s) \<and> condp (conditionTable s ! nat i) = Some c"
  by (simp add: condition_handle_def split: if_splits)

lemmas handle_slot = lock_slot [OF _ conjunct1 [OF lock_handleD] conjunct2 [OF lock_handleD]]
lemmas condition_handle_slot =
  condition_slot [OF _ conjunct1 [OF condition_handleD] conjunct2 [OF condition_handleD]]

lemma delete_lock_entry_ok:
  assumes "sys_ok s" "i \<in> in_use (lockMap s)" "lockp (lockTable s ! nat i) = Some l"
  shows "\<exists>s'. delete_lock i s = Inr s' \<and> sys_ok s' \<and> kern s' = kern s \<and> afterWait s' = afterWait s \<and>
    threadSpace s' = threadSpace s \<and>
    lockTable s' = lockTable s \<and> in_use (lockMap s') = in_use (lockMap s) - {i} \<and>
    freedLocks s' = insert l (freedLocks s) \<and> condition_handle s' = condition_handle s"
proof -
  obtain b b' where b: "lockMap s = Some b" "Clear b i = Inr b'" "bits b' = bits b - {i}"
    "handles_ok (lockArraySize s) (Some b') lockp (lockTable s) (insert l (freedLocks s)) (nextLock s)"
    using handles_delete [OF lock_table [OF assms(1)] assms(2,3)] by blast
  then show ?thesis
    using assms(1) lock_slot(2) [OF assms]
    by (simp add: delete_lock_def the_map_def sys_ok_def locks_ok_def conds_ok_def condition_handle_def
        callerSpace_def fun_eq_iff)
qed

lemma delete_condition_entry_ok:
  assumes "sys_ok s" "i \<in> in_use (conditionMap s)" "condp (conditionTable s ! nat i) = Some c"
  shows "\<exists>s'. delete_condition i s = Inr s' \<and> sys_ok s' \<and> kern s' = kern s \<and> afterWait s' = afterWait s \<and>
    threadSpace s' = threadSpace s \<and>
    conditionTable s' = conditionTable s \<and> in_use (conditionMap s') = in_use (conditionMap s) - {i} \<and>
    freedConds s' = insert c (freedConds s) \<and> lock_handle s' = lock_handle s"
proof -
  obtain b b' where b: "conditionMap s = Some b" "Clear b i = Inr b'" "bits b' = bits b - {i}"
    "handles_ok (conditionArraySize s) (Some b') condp (conditionTable s) (insert c (freedConds s)) (nextCond s)"
    using handles_delete [OF condition_table [OF assms(1)] assms(2,3)] by blast
  then show ?thesis
    using assms(1) condition_slot(2) [OF assms]
    by (simp add: delete_condition_def the_map_def sys_ok_def locks_ok_def conds_ok_def lock_handle_def
        callerSpace_def fun_eq_iff)
qed

section \<open>The calls\<close>

lemma sys_ok_kern [simp]: "sys_ok (s\<lparr>kern := k\<rparr>) = sys_ok s" "sys_ok (s\<lparr>afterWait := w\<rparr>) = sys_ok s"
  by (simp_all add: sys_ok_def locks_ok_def conds_ok_def)

text \<open>\<open>on_lock i f s\<close> is \<open>s\<close> with the entry of lock \<open>i\<close> changed by \<open>f\<close>.\<close>

definition on_lock :: "int \<Rightarrow> (LockEntry \<Rightarrow> LockEntry) \<Rightarrow> sys \<Rightarrow> sys" where
  "on_lock i f s = s\<lparr>lockTable := (lockTable s)[nat i := f (lockTable s ! nat i)]\<rparr>"

lemma on_lock_simps [simp]:
  "kern (on_lock i f s) = kern s" "lockMap (on_lock i f s) = lockMap s" "freedLocks (on_lock i f s) = freedLocks s"
  "threadSpace (on_lock i f s) = threadSpace s" "afterWait (on_lock i f s) = afterWait s"
  by (simp_all add: on_lock_def)

lemma on_lock_entry:
  assumes "sys_ok s" "i \<in> in_use (lockMap s)"
  shows "lockTable (on_lock i f s) ! nat i = f (lockTable s ! nat i)"
proof -
  have "nat i < length (lockTable s)" using handles_range [OF lock_table [OF assms(1)] assms(2)] by auto
  then show ?thesis by (simp add: on_lock_def)
qed

lemma on_lock_ok:
  assumes "sys_ok s" "i \<in> in_use (lockMap s)" "\<And>e. lockp (f e) = lockp e"
  shows "sys_ok (on_lock i f s)" "set_lock_entry i f s = Inr (on_lock i f s)"
proof -
  show "sys_ok (on_lock i f s)"
    using handles_update [of "lockArraySize s" "lockMap s" lockp, OF lock_table [OF assms(1)] assms(2,3)] assms(1)
    by (simp add: on_lock_def sys_ok_def locks_ok_def conds_ok_def)
  obtain l where "lockp (lockTable s ! nat i) = Some l"
    using handles_live [OF lock_table [OF assms(1)] assms(2)] by blast
  then show "set_lock_entry i f s = Inr (on_lock i f s)"
    using lock_slot(1,3) [OF assms(1,2)] by (simp add: set_lock_entry_def on_lock_def)
qed

lemma finish_wait_ok:
  assumes "sys_ok s" "finish_wait i s = Inr s'"
  shows "sys_ok s' \<and> kern s' = kern s \<and> lock_handle s' = lock_handle s \<and> lockTable s' = lockTable s"
proof -
  have "s' = s \<or> (\<exists>c. condition_at i s = Inr c \<and> delete_condition i s = Inr s')"
    using assms(2) by (auto simp: finish_wait_def split: if_splits)
  then show ?thesis
  proof
    assume "\<exists>c. condition_at i s = Inr c \<and> delete_condition i s = Inr s'"
    then obtain c where c: "condition_at i s = Inr c" "delete_condition i s = Inr s'" by blast
    then have e: "condp (conditionTable s ! nat i) = Some c" "c \<notin> freedConds s" "0 \<le> i"
      by (auto simp: condition_at_def deref_def array_get_Inr split: option.splits if_splits)
    obtain b where "conditionMap s = Some b" "Clear b i \<noteq> Inl AssertFailed"
      using c by (cases "conditionMap s") (auto simp: delete_condition_def the_map_def)
    then have "i < conditionArraySize s"
      using condition_table [OF assms(1)] range_asserts [of i b] by (auto simp: handles_ok_def)
    then have "i \<in> in_use (conditionMap s)"
      using handles_dead [OF condition_table [OF assms(1)] e(3) _ e(1,2)] by blast
    from delete_condition_entry_ok [OF assms(1) this e(1)] c(2) show ?thesis
      by (auto simp: delete_condition_def)
  qed (simp add: assms(1))
qed

lemma resume_ok: "sys_ok s \<Longrightarrow> resume s = Inr s' \<Longrightarrow> sys_ok s' \<and> kern s' = kern s"
  by (auto simp: resume_def Let_def split: if_splits option.splits dest!: finish_wait_ok [rotated])

lemma Release_Syscall_does:
  assumes "sys_ok s" "lock_handle s i = Some l"
  defines "e \<equiv> lockTable s ! nat i" and "k \<equiv> Release l (kern s)"
  shows "\<exists>s'. Release_Syscall i s = Inr s' \<and> sys_ok s' \<and> kern s' = k \<and>
    in_use (lockMap s') = in_use (lockMap s) -
      (if lockToBeDeleted e \<and> acquireCount e = 1 \<and> \<not> isBusy l k then {i} else {})"
proof -
  note h = lock_handleD [OF assms(2)]
  let ?f = "\<lambda>e. e\<lparr>acquireCount := acquireCount e - 1\<rparr>"
  let ?s1 = "on_lock i ?f s"
  let ?s2 = "?s1\<lparr>kern := k\<rparr>"
  have ok: "sys_ok ?s1" "set_lock_entry i ?f s = Inr ?s1" using on_lock_ok [OF assms(1), of i ?f] h by auto
  have e1: "lockTable ?s1 ! nat i = ?f e" using on_lock_entry [OF assms(1)] h e_def by blast
  have at: "lock_at i ?s1 = Inr l" "array_get (lockTable ?s1) i = Inr (?f e)"
    using lock_slot [OF ok(1), of i l] h e1 by (simp_all add: e_def)
  have c: "check_lock i s = Inr True" using check_lock_ok [OF assms(1)] assms(2) by simp
  show ?thesis
  proof (cases "lockToBeDeleted e \<and> acquireCount e = 1 \<and> \<not> isBusy l k")
    case True
    obtain s' where s': "delete_lock i ?s2 = Inr s'" "sys_ok s'" "kern s' = k"
      "in_use (lockMap s') = in_use (lockMap s) - {i}"
      using delete_lock_entry_ok [of ?s2 i l] ok(1) h e1 by (auto simp: e_def)
    then show ?thesis using True c ok(2) at by (simp add: Release_Syscall_def k_def Let_def)
  next
    case False
    then show ?thesis using c ok at by (auto simp: Release_Syscall_def k_def Let_def)
  qed
qed

lemma DestroyLock_Syscall_does:
  assumes "sys_ok s" "lock_handle s i = Some l"
  defines "e \<equiv> lockTable s ! nat i"
  shows "\<exists>s'. DestroyLock_Syscall i s = Inr s' \<and> sys_ok s' \<and> kern s' = kern s \<and>
    (if isBusy l (kern s) \<and> acquireCount e = 0
     then in_use (lockMap s') = in_use (lockMap s) \<and> lockToBeDeleted (lockTable s' ! nat i)
     else in_use (lockMap s') = in_use (lockMap s) - {i} \<and> freedLocks s' = insert l (freedLocks s))"
proof -
  note h = lock_handleD [OF assms(2)]
  have at: "lock_at i s = Inr l" "array_get (lockTable s) i = Inr e"
    using lock_slot [OF assms(1), of i l] h by (simp_all add: e_def)
  have c: "check_lock i s = Inr True" using check_lock_ok [OF assms(1)] assms(2) by simp
  show ?thesis
  proof (cases "isBusy l (kern s) \<and> acquireCount e = 0")
    case True
    let ?f = "\<lambda>e. e\<lparr>lockToBeDeleted := True\<rparr>"
    have "sys_ok (on_lock i ?f s)" "set_lock_entry i ?f s = Inr (on_lock i ?f s)"
      using on_lock_ok [OF assms(1), of i ?f] h by auto
    then show ?thesis using True c at on_lock_entry [OF assms(1) conjunct1 [OF h], of ?f]
      by (simp add: DestroyLock_Syscall_def)
  next
    case False
    obtain s' where "delete_lock i s = Inr s'" "sys_ok s'" "kern s' = kern s"
      "in_use (lockMap s') = in_use (lockMap s) - {i}" "freedLocks s' = insert l (freedLocks s)"
      using delete_lock_entry_ok [OF assms(1), of i l] h by blast
    then show ?thesis using False c at by (auto simp: DestroyLock_Syscall_def)
  qed
qed

lemma Acquire_Syscall_does:
  assumes "sys_ok s" "lock_handle s i = Some l"
  shows "Acquire_Syscall i s = bind_result (Acquire l (kern s)) (\<lambda>k.
      resume ((on_lock i (\<lambda>e. e\<lparr>acquireCount := acquireCount e + 1\<rparr>) s)\<lparr>kern := k\<rparr>))"
proof -
  note h = lock_handleD [OF assms(2)]
  let ?f = "\<lambda>e. e\<lparr>acquireCount := acquireCount e + 1\<rparr>"
  have ok: "sys_ok (on_lock i ?f s)" "set_lock_entry i ?f s = Inr (on_lock i ?f s)"
    using on_lock_ok [OF assms(1), of i ?f] h by auto
  have "lockTable (on_lock i ?f s) ! nat i = ?f (lockTable s ! nat i)" using on_lock_entry [OF assms(1)] h by blast
  then have "lock_at i (on_lock i ?f s) = Inr l" using lock_slot(2) [OF ok(1), of i l] h by simp
  then show ?thesis using check_lock_ok [OF assms(1), of i] assms(2) ok by (simp add: Acquire_Syscall_def)
qed

lemma init_locks_ok:
  assumes "sys_ok s" "\<forall>n. lockp (e n) = None"
  shows "\<exists>s1 b. init_locks g e s = Inr s1 \<and> sys_ok s1 \<and> lockMap s1 = Some b \<and> lockArraySize s1 = 500 \<and>
    kern s1 = kern s \<and> in_use (lockMap s1) = in_use (lockMap s) \<and> nextLock s1 = nextLock s \<and>
    freedLocks s1 = freedLocks s \<and> callerSpace s1 = callerSpace s"
proof (cases "lockArraySize s = 0")
  case True
  obtain b where "new_BitMap g MAX_LOCKS_CONDITIONS = Inr b" "bits b = {}"
    "handles_ok 500 (Some b) lockp (map e [0..<500]) (freedLocks s) (nextLock s)"
    using handles_fresh_table [OF handles_freed [OF lock_table [OF assms(1)]], of "map e [0..<500]" lockp g] assms(2)
    by auto
  moreover have "lockMap s = None" using True lock_table [OF assms(1)] by (auto simp: handles_ok_def)
  ultimately show ?thesis using True assms(1)
    by (auto simp: init_locks_def sys_ok_def locks_ok_def conds_ok_def MAX_LOCKS_CONDITIONS_def callerSpace_def)
next
  case False
  then show ?thesis using lock_table [OF assms(1)] assms(1) by (auto simp: init_locks_def handles_ok_def)
qed

lemma CreateLock_Syscall_does:
  assumes "sys_ok s" "\<forall>n. lockp (e n) = None" "CreateLock_Syscall g e owner s = Inr (Some (i, s'))"
  shows "sys_ok s' \<and> i \<notin> in_use (lockMap s) \<and> in_use (lockMap s') = insert i (in_use (lockMap s)) \<and>
    lock_handle s' i = Some (nextLock s) \<and> kern s' = set_lock (nextLock s) (new_Lock owner) (kern s) \<and>
    lockSpace (lockTable s' ! nat i) = callerSpace s"
proof -
  obtain s1 b where s1: "init_locks g e s = Inr s1" "sys_ok s1" "lockMap s1 = Some b" "lockArraySize s1 = 500"
    "kern s1 = kern s" "in_use (lockMap s1) = in_use (lockMap s)" "nextLock s1 = nextLock s"
    "freedLocks s1 = freedLocks s" "callerSpace s1 = callerSpace s"
    using init_locks_ok [OF assms(1,2), of g] by blast
  define x where "x = \<lparr>lockp = Some (nextLock s), lockSpace = callerSpace s, lockToBeDeleted = False, acquireCount = 0\<rparr>"
  obtain b' where f: "Find b = Inr (i, b')" "i \<noteq> - 1"
    "s' = s1\<lparr>lockMap := Some b', kern := set_lock (nextLock s) (new_Lock owner) (kern s),
        nextLock := Suc (nextLock s), lockTable := (lockTable s1)[nat i := x]\<rparr>"
    using assms(3) s1 by (auto simp: CreateLock_Syscall_def Let_def the_map_def set_lock_entry_def x_def
        array_set_Inr split: if_splits prod.splits)
  have h: "handles_ok 500 (Some b') lockp ((lockTable s1)[nat i := x]) (freedLocks s1) (Suc (nextLock s)) \<and>
    i \<notin> bits b \<and> 0 \<le> i \<and> i < 500 \<and> bits b' = insert i (bits b)"
    using handles_new [OF _ f(1,2), of lockp "lockTable s1" "freedLocks s1" "nextLock s" x]
      lock_table [OF s1(2)] s1(3,4,7) by (simp add: x_def)
  then have "sys_ok s'" using s1(2,4) by (simp add: f(3) sys_ok_def locks_ok_def conds_ok_def)
  moreover have "lockTable s' ! nat i = x"
  proof -
    have "length (lockTable s1) = 500" using lock_table [OF s1(2)] s1(4) by (auto simp: handles_ok_def)
    then have "nat i < length (lockTable s1)" using h by auto
    then show ?thesis by (simp add: f(3))
  qed
  moreover have "callerSpace s' = callerSpace s"
    using s1(5,9) by (simp add: f(3) callerSpace_def set_lock_def)
  ultimately show ?thesis using h s1(3,6) by (auto simp: f(3) lock_handle_def x_def)
qed

section \<open>The calls on condition variables\<close>

definition on_condition :: "int \<Rightarrow> (ConditionEntry \<Rightarrow> ConditionEntry) \<Rightarrow> sys \<Rightarrow> sys" where
  "on_condition i f s = s\<lparr>conditionTable := (conditionTable s)[nat i := f (conditionTable s ! nat i)]\<rparr>"

lemma on_condition_entry:
  assumes "sys_ok s" "i \<in> in_use (conditionMap s)"
  shows "conditionTable (on_condition i f s) ! nat i = f (conditionTable s ! nat i)"
proof -
  have "nat i < length (conditionTable s)" using handles_range [OF condition_table [OF assms(1)] assms(2)] by auto
  then show ?thesis by (simp add: on_condition_def)
qed

lemma on_condition_ok:
  assumes "sys_ok s" "i \<in> in_use (conditionMap s)" "\<And>e. condp (f e) = condp e"
  shows "sys_ok (on_condition i f s)" "set_condition_entry i f s = Inr (on_condition i f s)"
proof -
  show "sys_ok (on_condition i f s)"
    using handles_update [of "conditionArraySize s" "conditionMap s" condp, OF condition_table [OF assms(1)] assms(2,3)]
      assms(1) by (simp add: on_condition_def sys_ok_def locks_ok_def conds_ok_def)
  obtain c where "condp (conditionTable s ! nat i) = Some c"
    using handles_live [OF condition_table [OF assms(1)] assms(2)] by blast
  then show "set_condition_entry i f s = Inr (on_condition i f s)"
    using condition_slot(1,3) [OF assms(1,2)] by (simp add: set_condition_entry_def on_condition_def)
qed

lemma DestroyCondition_Syscall_does:
  assumes "sys_ok s" "condition_handle s i = Some c"
  shows "\<exists>s'. DestroyCondition_Syscall i s = Inr s' \<and> sys_ok s' \<and> kern s' = kern s \<and>
    (if hasWaiting c (kern s)
     then s' = on_condition i (\<lambda>e. e\<lparr>condToBeDeleted := True\<rparr>) s
     else in_use (conditionMap s') = in_use (conditionMap s) - {i} \<and> freedConds s' = insert c (freedConds s))"
proof -
  note h = condition_handleD [OF assms(2)]
  have at: "condition_at i s = Inr c" using condition_slot [OF assms(1), of i c] h by simp
  have ck: "check_condition i s = Inr True" using check_condition_ok [OF assms(1)] assms(2) by simp
  show ?thesis
  proof (cases "hasWaiting c (kern s)")
    case True
    let ?f = "\<lambda>e. e\<lparr>condToBeDeleted := True\<rparr>"
    have "sys_ok (on_condition i ?f s)" "set_condition_entry i ?f s = Inr (on_condition i ?f s)"
      using on_condition_ok [OF assms(1), of i ?f] h by auto
    then show ?thesis using True ck at by (simp add: DestroyCondition_Syscall_def) (simp add: on_condition_def)
  next
    case False
    obtain s' where "delete_condition i s = Inr s'" "sys_ok s'" "kern s' = kern s"
      "in_use (conditionMap s') = in_use (conditionMap s) - {i}" "freedConds s' = insert c (freedConds s)"
      using delete_condition_entry_ok [OF assms(1), of i c] h by blast
    then show ?thesis using False ck at by (simp add: DestroyCondition_Syscall_def)
  qed
qed

lemma init_conditions_ok:
  assumes "sys_ok s" "\<forall>n. condp (e n) = None"
  shows "\<exists>s1 b. init_conditions g e s = Inr s1 \<and> sys_ok s1 \<and> conditionMap s1 = Some b \<and> conditionArraySize s1 = 500"
proof (cases "conditionArraySize s = 0")
  case True
  obtain b where "new_BitMap g MAX_LOCKS_CONDITIONS = Inr b"
    "handles_ok 500 (Some b) condp (map e [0..<500]) (freedConds s) (nextCond s)"
    using handles_fresh_table [OF handles_freed [OF condition_table [OF assms(1)]], of "map e [0..<500]" condp g] assms(2)
    by auto
  then show ?thesis using True assms(1)
    by (auto simp: init_conditions_def sys_ok_def locks_ok_def conds_ok_def MAX_LOCKS_CONDITIONS_def)
next
  case False
  then show ?thesis using condition_table [OF assms(1)] assms(1) by (auto simp: init_conditions_def handles_ok_def)
qed

lemma CreateCondition_Syscall_ok:
  assumes "sys_ok s" "\<forall>n. condp (e n) = None" "CreateCondition_Syscall g e w s = Inr (Some (i, s'))"
  shows "sys_ok s'"
proof -
  obtain s1 b where s1: "init_conditions g e s = Inr s1" "sys_ok s1" "conditionMap s1 = Some b"
    "conditionArraySize s1 = 500" using init_conditions_ok [OF assms(1,2), of g] by blast
  define x where "x = \<lparr>condp = Some (nextCond s1), conditionSpace = callerSpace s1, condToBeDeleted = False\<rparr>"
  obtain b' where f: "Find b = Inr (i, b')" "i \<noteq> - 1"
    "s' = s1\<lparr>conditionMap := Some b', kern := set_cond (nextCond s1) (new_Condition w) (kern s1),
        nextCond := Suc (nextCond s1), conditionTable := (conditionTable s1)[nat i := x]\<rparr>"
    using assms(3) s1 by (auto simp: CreateCondition_Syscall_def Let_def the_map_def set_condition_entry_def x_def
        array_set_Inr split: if_splits prod.splits)
  have "handles_ok 500 (Some b') condp ((conditionTable s1)[nat i := x]) (freedConds s1) (Suc (nextCond s1))"
    using handles_new [OF _ f(1,2), of condp "conditionTable s1" "freedConds s1" "nextCond s1" x]
      condition_table [OF s1(2)] s1(3,4) by (simp add: x_def)
  then show ?thesis using s1(2,4) by (simp add: f(3) sys_ok_def locks_ok_def conds_ok_def)
qed

section \<open>All calls\<close>

datatype sys_call =
    Call_CreateLock "nat \<Rightarrow> u32" "nat \<Rightarrow> LockEntry" "tid option"
  | Call_CreateCondition "nat \<Rightarrow> u32" "nat \<Rightarrow> ConditionEntry" "lid option"
  | Call_Acquire int | Call_Release int | Call_DestroyLock int
  | Call_Signal int int | Call_Broadcast int int | Call_Wait int int | Call_DestroyCondition int
  | Call_Yield

definition drop_index :: "(int \<times> sys) option result \<Rightarrow> sys result option" where
  "drop_index r = (case r of Inl c \<Rightarrow> Some (Inl c) | Inr None \<Rightarrow> None | Inr (Some (i, s)) \<Rightarrow> Some (Inr s))"

text \<open>\<open>None\<close>: the machine has halted, or the call does not return.\<close>

fun do_call :: "sys_call \<Rightarrow> sys \<Rightarrow> sys result option" where
  "do_call (Call_CreateLock g e owner) s = drop_index (CreateLock_Syscall g e owner s)"
| "do_call (Call_CreateCondition g e w) s = drop_index (CreateCondition_Syscall g e w s)"
| "do_call (Call_Acquire i) s = Some (Acquire_Syscall i s)"
| "do_call (Call_Release i) s = Some (Release_Syscall i s)"
| "do_call (Call_DestroyLock i) s = Some (DestroyLock_Syscall i s)"
| "do_call (Call_Signal c l) s = Some (Signal_Syscall c l s)"
| "do_call (Call_Broadcast c l) s = Broadcast_Syscall c l s"
| "do_call (Call_Wait c l) s = Some (Wait_Syscall c l s)"
| "do_call (Call_DestroyCondition c) s = Some (DestroyCondition_Syscall c s)"
| "do_call Call_Yield s = Some (Yield_Syscall s)"

text \<open>A new table is in memory that holds no pointers.\<close>

fun clean_call :: "sys_call \<Rightarrow> bool" where
  "clean_call (Call_CreateLock g e owner) \<longleftrightarrow> (\<forall>n. lockp (e n) = None)"
| "clean_call (Call_CreateCondition g e w) \<longleftrightarrow> (\<forall>n. condp (e n) = None)"
| "clean_call _ \<longleftrightarrow> True"

lemma Broadcast_Syscall_ok:
  "sys_ok s \<Longrightarrow> Broadcast_Syscall c l s = Some (Inr s') \<Longrightarrow> sys_ok s'"
  by (auto simp: Broadcast_Syscall_def check_both_ok split: if_splits sum.splits)

lemma Signal_Syscall_ok: "sys_ok s \<Longrightarrow> Signal_Syscall c l s = Inr s' \<Longrightarrow> sys_ok s'"
  by (auto simp: Signal_Syscall_def check_both_ok split: if_splits)

lemma Acquire_Syscall_ok:
  assumes "sys_ok s" "Acquire_Syscall i s = Inr s'"
  shows "sys_ok s'"
proof (cases "lock_handle s i")
  case None
  then show ?thesis using assms check_lock_ok [OF assms(1), of i] by (simp add: Acquire_Syscall_def)
next
  case (Some l)
  let ?f = "\<lambda>e. e\<lparr>acquireCount := acquireCount e + 1\<rparr>"
  obtain k where "resume ((on_lock i ?f s)\<lparr>kern := k\<rparr>) = Inr s'"
    using assms(2) Acquire_Syscall_does [OF assms(1) Some] by auto
  moreover have "sys_ok (on_lock i ?f s)"
    by (rule on_lock_ok(1) [OF assms(1) conjunct1 [OF lock_handleD [OF Some]]]) simp
  then have "sys_ok ((on_lock i ?f s)\<lparr>kern := k\<rparr>)" by simp
  ultimately show ?thesis using resume_ok by blast
qed

lemma Wait_Syscall_ok:
  assumes "sys_ok s" "Wait_Syscall c l s = Inr s'"
  shows "sys_ok s'"
proof (cases "check_both c l s = Inr False")
  case True
  then show ?thesis using assms by (simp add: Wait_Syscall_def)
next
  case False
  then obtain k w where "resume (s\<lparr>kern := k, afterWait := w\<rparr>) = Inr s'"
    using assms by (auto simp: Wait_Syscall_def check_both_ok split: if_splits)
  moreover have "sys_ok (s\<lparr>kern := k, afterWait := w\<rparr>)" using assms(1) by simp
  ultimately show ?thesis using resume_ok by blast
qed

lemma refused:
  "sys_ok s \<Longrightarrow> lock_handle s i = None \<Longrightarrow> Release_Syscall i s = Inr s"
  "sys_ok s \<Longrightarrow> lock_handle s i = None \<Longrightarrow> DestroyLock_Syscall i s = Inr s"
  "sys_ok s \<Longrightarrow> lock_handle s i = None \<Longrightarrow> Acquire_Syscall i s = Inr s"
  "sys_ok s \<Longrightarrow> condition_handle s i = None \<Longrightarrow> DestroyCondition_Syscall i s = Inr s"
  by (simp_all add: Release_Syscall_def DestroyLock_Syscall_def Acquire_Syscall_def DestroyCondition_Syscall_def
      check_lock_ok check_condition_ok)

lemma do_call_ok:
  assumes "sys_ok s" "clean_call c" "do_call c s = Some (Inr s')"
  shows "sys_ok s'"
proof (cases c)
  case (Call_CreateLock g e owner)
  then obtain i where "CreateLock_Syscall g e owner s = Inr (Some (i, s'))"
    using assms(3) by (auto simp: drop_index_def split: sum.splits option.splits)
  then show ?thesis using CreateLock_Syscall_does [OF assms(1)] assms(2) Call_CreateLock by auto
next
  case (Call_CreateCondition g e w)
  then obtain i where "CreateCondition_Syscall g e w s = Inr (Some (i, s'))"
    using assms(3) by (auto simp: drop_index_def split: sum.splits option.splits)
  then show ?thesis using CreateCondition_Syscall_ok [OF assms(1)] assms(2) Call_CreateCondition by auto
next
  case (Call_Acquire i)
  then show ?thesis using Acquire_Syscall_ok [OF assms(1)] assms(3) by simp
next
  case (Call_Release i)
  have "\<exists>u. Release_Syscall i s = Inr u \<and> sys_ok u"
  proof (cases "lock_handle s i")
    case None
    then show ?thesis using refused(1) [OF assms(1)] assms(1) by simp
  next
    case (Some x)
    then show ?thesis using Release_Syscall_does [OF assms(1)] by blast
  qed
  then show ?thesis using assms(3) Call_Release by auto
next
  case (Call_DestroyLock i)
  have "\<exists>u. DestroyLock_Syscall i s = Inr u \<and> sys_ok u"
  proof (cases "lock_handle s i")
    case None
    then show ?thesis using refused(2) [OF assms(1)] assms(1) by simp
  next
    case (Some x)
    then show ?thesis using DestroyLock_Syscall_does [OF assms(1)] by blast
  qed
  then show ?thesis using assms(3) Call_DestroyLock by auto
next
  case (Call_Signal c l)
  then show ?thesis using Signal_Syscall_ok [OF assms(1)] assms(3) by simp
next
  case (Call_Broadcast c l)
  then show ?thesis using Broadcast_Syscall_ok [OF assms(1)] assms(3) by simp
next
  case (Call_Wait c l)
  then show ?thesis using Wait_Syscall_ok [OF assms(1)] assms(3) by simp
next
  case (Call_DestroyCondition i)
  have "\<exists>u. DestroyCondition_Syscall i s = Inr u \<and> sys_ok u"
  proof (cases "condition_handle s i")
    case None
    then show ?thesis using refused(4) [OF assms(1)] assms(1) by simp
  next
    case (Some x)
    then show ?thesis using DestroyCondition_Syscall_does [OF assms(1)] by blast
  qed
  then show ?thesis using assms(3) Call_DestroyCondition by auto
next
  case Call_Yield
  then obtain k where "resume (s\<lparr>kern := k\<rparr>) = Inr s'" using assms(3) by (auto simp: Yield_Syscall_def)
  moreover have "sys_ok (s\<lparr>kern := k\<rparr>)" using assms(1) by simp
  ultimately show ?thesis using resume_ok by blast
qed

text \<open>A system that has just started, and what user programs and devices make of it.\<close>

definition boot_sys :: "kernel \<Rightarrow> (tid \<Rightarrow> nat option) \<Rightarrow> sys" where
  "boot_sys k sp = \<lparr>kern = k, threadSpace = sp, lockTable = [], lockMap = None, lockArraySize = 0,
     conditionTable = [], conditionMap = None, conditionArraySize = 0, queueTable = [], queueMap = None,
     queueArraySize = 0, nextLock = 0, nextCond = 0, freedLocks = {}, freedConds = {}, afterWait = (\<lambda>_. None)\<rparr>"

inductive sys_reachable :: "sys \<Rightarrow> bool" where
  start: "sys_reachable (boot_sys k sp)"
| call: "sys_reachable s \<Longrightarrow> clean_call c \<Longrightarrow> do_call c s = Some (Inr s') \<Longrightarrow> sys_reachable s'"
| kernel: "sys_reachable s \<Longrightarrow> resume (s\<lparr>kern := k\<rparr>) = Inr s' \<Longrightarrow> sys_reachable s'"

lemma sys_reachable_ok: "sys_reachable s \<Longrightarrow> sys_ok s"
proof (induction rule: sys_reachable.induct)
  case (start k sp)
  show ?case by (simp add: boot_sys_def sys_ok_def locks_ok_def conds_ok_def handles_ok_def)
next
  case (call s c s')
  show ?case by (rule do_call_ok [OF call(4) call(2,3)])
next
  case (kernel s k s')
  then show ?case using resume_ok [of "s\<lparr>kern := k\<rparr>"] by simp
qed

section \<open>Properties of the calls on locks\<close>

text \<open>
  C12: an index is a capability. No two indices name the same lock, whoever uses them; a program that
  passes an index which is not one of its own locks changes nothing; with one of its own locks the
  calls do on the kernel's lock exactly what the kernel's operations do (so what is proved of those
  holds for user programs), they never touch a deleted lock, and they keep the table consistent.
\<close>

theorem lock_calls_go_to_their_lock:
  assumes "sys_reachable s"
  shows "(\<forall>j t. lock_handle s i = Some l \<and>
      lock_handle (s\<lparr>kern := (kern s)\<lparr>currentThread := t\<rparr>\<rparr>) j = Some l \<longrightarrow> i = j) \<and>
    (case lock_handle s i of
       None \<Rightarrow> Acquire_Syscall i s = Inr s \<and> Release_Syscall i s = Inr s \<and> DestroyLock_Syscall i s = Inr s
     | Some l \<Rightarrow> l \<notin> freedLocks s \<and>
         Acquire_Syscall i s = bind_result (Acquire l (kern s)) (\<lambda>k.
           resume ((on_lock i (\<lambda>e. e\<lparr>acquireCount := acquireCount e + 1\<rparr>) s)\<lparr>kern := k\<rparr>)) \<and>
         (\<exists>s'. Release_Syscall i s = Inr s' \<and> sys_ok s' \<and> kern s' = Release l (kern s)) \<and>
         (\<exists>s'. DestroyLock_Syscall i s = Inr s' \<and> sys_ok s' \<and> kern s' = kern s))"
proof -
  note ok = sys_reachable_ok [OF assms]
  have inj: "i = j" if "lock_handle s i = Some l" "lock_handle (s\<lparr>kern := (kern s)\<lparr>currentThread := t\<rparr>\<rparr>) j = Some l" for j t
    using lock_handleD [OF that(1)] lock_handleD [OF that(2)] handles_inj [OF lock_table [OF ok], of i j] by simp
  show ?thesis
  proof (cases "lock_handle s i")
    case None
    then show ?thesis using refused [OF ok, of i] inj by simp
  next
    case (Some m)
    have "m \<notin> freedLocks s" using lock_handleD [OF Some] handles_live [OF lock_table [OF ok]] by fastforce
    then show ?thesis
      using Some inj Acquire_Syscall_does [OF ok Some] Release_Syscall_does [OF ok Some]
        DestroyLock_Syscall_does [OF ok Some] by auto
  qed
qed

lemma set_lock_frame [simp]:
  "currentThread (set_lock l x k) = currentThread k" "locks (set_lock l x k) = (locks k)(l := x)"
  "idle (set_lock l x k) = idle k"
  by (simp_all add: set_lock_def)

definition blank_lock :: LockEntry where
  "blank_lock = \<lparr>lockp = None, lockSpace = None, lockToBeDeleted = False, acquireCount = 0\<rparr>"

text \<open>The first program creates a lock.\<close>

lemma first_lock:
  "\<exists>s i. sys_reachable s \<and> lock_handle s i = Some 0 \<and> locks (kern s) 0 = new_Lock None \<and>
    currentThread (kern s) = 0 \<and> \<not> idle (kern s) \<and> afterWait s = (\<lambda>_. None) \<and> acquireCount (lockTable s ! nat i) = 0 \<and>
    threadSpace s = (\<lambda>_. Some 7)"
proof -
  let ?boot = "boot_sys (boot (\<lambda>_. 0)) (\<lambda>_. Some 7)"
  obtain b where b: "new_BitMap (\<lambda>_. 0) MAX_LOCKS_CONDITIONS = Inr b" "wf_BitMap b" "numBits b = 500" "bits b = {}"
    using new_BitMap_ok [of MAX_LOCKS_CONDITIONS "\<lambda>_. 0"] by (auto simp: MAX_LOCKS_CONDITIONS_def)
  obtain i b' where f: "Find b = Inr (i, b')" "0 \<le> i" "i < 500" using Find_free [OF b(2)] b(3,4) by auto
  let ?x = "\<lparr>lockp = Some 0, lockSpace = Some 7, lockToBeDeleted = False, acquireCount = 0\<rparr>"
  let ?s = "?boot\<lparr>lockMap := Some b', lockArraySize := 500, lockTable := (map (\<lambda>_. blank_lock) [0..<500])[nat i := ?x],
    kern := set_lock 0 (new_Lock None) (boot (\<lambda>_. 0)), nextLock := 1\<rparr>"
  have c: "CreateLock_Syscall (\<lambda>_. 0) (\<lambda>_. blank_lock) None ?boot = Inr (Some (i, ?s))"
    using b f by (simp add: CreateLock_Syscall_def init_locks_def boot_sys_def the_map_def Let_def set_lock_entry_def
        callerSpace_def boot_def MAX_LOCKS_CONDITIONS_def)
  have "sys_reachable ?s"
    by (rule sys_reachable.call [OF sys_reachable.start [of "boot (\<lambda>_. 0)" "\<lambda>_. Some 7"],
          of "Call_CreateLock (\<lambda>_. 0) (\<lambda>_. blank_lock) None"])
      (use c in \<open>simp_all add: drop_index_def blank_lock_def\<close>)
  moreover have "lock_handle ?s i = Some 0 \<and> lockTable ?s ! nat i = ?x"
    using CreateLock_Syscall_does [OF sys_reachable_ok [OF sys_reachable.start] _ c] f(2,3)
    by (simp add: blank_lock_def boot_sys_def nat_less_iff)
  ultimately show ?thesis by (intro exI [of _ ?s] exI [of _ i]) (simp add: boot_sys_def boot_def)
qed

theorem lock_calls_go_to_their_lock_witness:
  "\<exists>s i s'. sys_reachable s \<and> lock_handle s i = Some 0 \<and> Release_Syscall i s = Inr s' \<and>
    kern s' = Release 0 (kern s) \<and> Release_Syscall (- 1) s = Inr s"
proof -
  obtain s i where s: "sys_reachable s" "lock_handle s i = Some 0" using first_lock by blast
  have "lock_handle s (- 1) = None"
    using handles_range [OF lock_table [OF sys_reachable_ok [OF s(1)]], of "- 1"] by (auto simp: lock_handle_def)
  then show ?thesis
    using lock_calls_go_to_their_lock [OF s(1), of i 0] lock_calls_go_to_their_lock [OF s(1), of "- 1" 0] s by auto
qed

text \<open>
  C13: destroying a lock that is held. The code means to put off the deletion until nobody holds the lock
  or waits for it, but tests the wrong way round: if the lock is busy and the counter of its entry is not 0
  (\<open>Acquire\<close> counts up and \<open>Release\<close> counts down, also a \<open>Release\<close> that the lock then refuses), the lock is deleted at
  once. No index that the caller may use stands for it any more, and \<open>Release\<close> with its old index is refused, also
  to its holder, while the kernel still has it busy, with the same possessor and every waiter in its queue.
\<close>

theorem DestroyLock_deletes_held_lock:
  assumes "sys_reachable s" "lock_handle s i = Some l" "isBusy l (kern s)" "acquireCount (lockTable s ! nat i) \<noteq> 0"
  shows "\<exists>s'. DestroyLock_Syscall i s = Inr s' \<and> l \<in> freedLocks s' \<and> kern s' = kern s \<and>
    lstate (locks (kern s') l) = BUSY \<and> lqueue (locks (kern s') l) = lqueue (locks (kern s) l) \<and>
    Release_Syscall i s' = Inr s' \<and> (\<forall>j. lock_handle s' j \<noteq> Some l)"
proof -
  note ok = sys_reachable_ok [OF assms(1)]
  obtain s' where s': "DestroyLock_Syscall i s = Inr s'" "sys_ok s'" "kern s' = kern s"
    "in_use (lockMap s') = in_use (lockMap s) - {i}" "freedLocks s' = insert l (freedLocks s)"
    using DestroyLock_Syscall_does [OF ok assms(2)] assms(3,4) by auto
  have dead: "lock_handle s' j \<noteq> Some l" for j
  proof
    assume "lock_handle s' j = Some l"
    note h = lock_handleD [OF this]
    then obtain p where "lockp (lockTable s' ! nat j) = Some p" "p \<notin> freedLocks s'"
      using handles_live [OF lock_table [OF s'(2)]] by blast
    with h s'(5) show False by simp
  qed
  have "lock_handle s' i = None" using s'(4) by (simp add: lock_handle_def)
  then have "Release_Syscall i s' = Inr s'" using check_lock_ok [OF s'(2), of i] by (simp add: Release_Syscall_def)
  with s' dead assms(3) show ?thesis by (auto simp: isBusy_def)
qed

theorem DestroyLock_deletes_held_lock_witness:
  "\<exists>s i s'. sys_reachable s \<and> DestroyLock_Syscall i s = Inr s' \<and> lstate (locks (kern s') 0) = BUSY \<and>
    0 \<in> freedLocks s' \<and> Release_Syscall i s' = Inr s'"
proof -
  obtain s i where s: "sys_reachable s" "lock_handle s i = Some 0" "locks (kern s) 0 = new_Lock None"
    "currentThread (kern s) = 0" "\<not> idle (kern s)" "afterWait s = (\<lambda>_. None)" "acquireCount (lockTable s ! nat i) = 0"
    using first_lock by blast
  note ok = sys_reachable_ok [OF s(1)] and h = lock_handleD [OF s(2)]
  let ?f = "\<lambda>e. e\<lparr>acquireCount := acquireCount e + 1\<rparr>"
  define k where "k = set_lock 0 \<lparr>lstate = BUSY, threadWithPossession = Some 0, lqueue = []\<rparr> (kern s)"
  let ?s1 = "(on_lock i ?f s)\<lparr>kern := k\<rparr>"
  have "Acquire 0 (kern s) = Inr k"
    using s(3,4) by (simp add: Acquire_def Acquire_try_def isHeldByCurrentThread_def new_Lock_def k_def)
  then have "Acquire_Syscall i s = Inr ?s1"
    using Acquire_Syscall_does [OF ok s(2)] s(4,5,6) by (simp add: resume_def k_def)
  then have r: "sys_reachable ?s1" by (intro sys_reachable.call [OF s(1), of "Call_Acquire i"]) simp_all
  have e: "lockTable ?s1 ! nat i = ?f (lockTable s ! nat i)" using on_lock_entry [OF ok conjunct1 [OF h], of ?f] by simp
  have "lock_handle ?s1 i = Some 0"
    using s(2) h e by (simp add: lock_handle_def callerSpace_def k_def split: if_splits)
  moreover have "isBusy 0 (kern ?s1)" "acquireCount (lockTable ?s1 ! nat i) \<noteq> 0"
    using e s(7) by (simp_all add: isBusy_def k_def)
  ultimately obtain s' where "DestroyLock_Syscall i ?s1 = Inr s'" "0 \<in> freedLocks s'" "kern s' = k"
    "Release_Syscall i s' = Inr s'" using DestroyLock_deletes_held_lock [OF r, of i 0] by auto
  with r show ?thesis by (intro exI [of _ ?s1] exI [of _ i] exI [of _ s']) (simp add: k_def)
qed

section \<open>Deferred deletion, queues, pairs of numbers\<close>

text \<open>
  A condition variable that was destroyed while threads waited is deleted by the first of them that
  returns from its wait; each of the others then looks at the deleted object.
\<close>

lemma deferred_deletion_frees_twice:
  assumes "sys_ok s" "i \<in> in_use (conditionMap s)" "condp (conditionTable s ! nat i) = Some c"
    and "condToBeDeleted (conditionTable s ! nat i)" "\<not> hasWaiting c (kern s)"
  shows "\<exists>s1. finish_wait i s = Inr s1 \<and> finish_wait i (s1\<lparr>kern := k\<rparr>) = Inl DanglingPointer"
proof -
  note slot = condition_slot [OF assms(1,2,3)]
  obtain s1 where s1: "delete_condition i s = Inr s1" "conditionTable s1 = conditionTable s" "c \<in> freedConds s1"
    using delete_condition_entry_ok [OF assms(1-3)] by auto
  have "array_get (conditionTable s1) i = Inr (conditionTable s ! nat i)" using slot(1) s1(2) by simp
  then show ?thesis
    using s1 slot assms(3,4,5) by (auto simp: finish_wait_def condition_at_def deref_def)
qed

lemma decode_encode: "decode2to1 (NEncode2to1_Syscall v1 v2) = (v1 AND 0xffff, v2 AND 0xffff)"
proof -
  have m: "bit (0xffff :: u32) n \<longleftrightarrow> n < 16" for n
    using bit_mask_iff [where ?'a = u32, of 16 n] by (auto simp: mask_eq_exp_minus_1 dest: bit_imp_le_length)
  have h: "bit (0xffff0000 :: u32) n \<longleftrightarrow> 16 \<le> n \<and> n < 32" for n
  proof -
    have "(0xffff0000 :: u32) = push_bit 16 0xffff" by simp
    then show ?thesis by (simp only: bit_push_bit_iff m) (auto simp: m)
  qed
  show ?thesis
    unfolding decode2to1_def NEncode2to1_Syscall_def prod.inject
    by (intro conjI bit_word_eqI; simp only: bit_and_iff bit_or_iff bit_push_bit_iff bit_drop_bit_eq o_def m h; auto)
qed

text \<open>The calls on queues work on any index of the array, created or not, and stop the kernel on any other.\<close>

lemma queue_calls:
  assumes "queueMap s = Some b" "wf_BitMap b" "numBits b = 8" "length (queueTable s) = 8"
  shows "queue_at q s = (if 0 \<le> q \<and> q < 8 then Inr (queueTable s ! nat q) else Inl AssertFailed)"
  using assms range_asserts [of q b] by (auto simp: queue_at_def the_map_def)

lemma queue_fifo:
  assumes "queueMap s = Some b" "wf_BitMap b" "numBits b = 8" "length (queueTable s) = 8" "0 \<le> q" "q < 8"
  shows "\<exists>s1. QueuePush_Syscall q x s = Inr s1 \<and>
    QueueFront_Syscall q s1 = Inr (hd (queueTable s ! nat q @ [x])) \<and>
    QueueSize_Syscall q s1 = Inr (int (length (queueTable s ! nat q)) + 1) \<and>
    (\<exists>s2. QueuePop_Syscall q s1 = Inr s2 \<and> queue_at q s2 = Inr (tl (queueTable s ! nat q @ [x])))"
proof -
  define xs where "xs = queueTable s ! nat q"
  let ?s1 = "s\<lparr>queueTable := (queueTable s)[nat q := xs @ [x]]\<rparr>"
  have p: "QueuePush_Syscall q x s = Inr ?s1"
    using queue_calls [OF assms(1-4), of q] assms(4-6) by (simp add: QueuePush_Syscall_def xs_def)
  have a: "queue_at q ?s1 = Inr (xs @ [x])"
    using queue_calls [of ?s1 b q] assms by (simp add: nat_less_iff)
  obtain y ys where y: "xs @ [x] = y # ys" by (cases "xs @ [x]") auto
  let ?s2 = "?s1\<lparr>queueTable := (queueTable s)[nat q := ys]\<rparr>"
  have "QueuePop_Syscall q ?s1 = Inr ?s2"
    using a y assms(4-6) by (simp add: QueuePop_Syscall_def)
  moreover have "queue_at q ?s2 = Inr ys" using queue_calls [of ?s2 b q] assms by (simp add: nat_less_iff)
  moreover have "QueueFront_Syscall q ?s1 = Inr y" using a y by (simp add: QueueFront_Syscall_def)
  moreover have "QueueSize_Syscall q ?s1 = Inr (int (length xs) + 1)" using a by (simp add: QueueSize_Syscall_def)
  ultimately show ?thesis using p unfolding xs_def [symmetric] y by auto
qed

end
