(* ===== verification/Processes.thy ===== *)
theory Processes
  imports File_Calls Syscall_Claims
begin

text \<open>
  Processes and their threads: the process table (threads/system.h), the system calls Fork, Exec and Exit
  with the functions that a new thread runs first (userprog/exception.cc), the registers of a new process
  (userprog/addrspace.cc) and what the scheduler does with the user half of a thread when it
  switches (threads/thread.cc, threads/scheduler.cc).

  A call is one step; the kernel locks it takes exclude other threads and do not show.
\<close>

section \<open>State\<close>

definition MAX_PROCESSES :: int where "MAX_PROCESSES = 100"

record ProcessEntry =
  numThreadsAlive :: int
  processID :: int
  threadStacks :: "int list"
  nextThreadID :: int

text \<open>
  \<open>spaceProcess\<close> is the field \<open>processID\<close> of an address space, \<open>threadID\<close>, \<open>userRegisters\<close> and
  \<open>mailboxNum\<close> are fields of a thread. \<open>startAt\<close> is the function a forked thread will run: \<open>Some a\<close> is
  \<open>Create_Kernel_Thread_Fork\<close> with argument \<open>a\<close>, \<open>None\<close> is \<open>Create_Kernel_Thread_Exec\<close>.
\<close>

record os =
  osio :: io
  osys :: sys
  processTable :: "ProcessEntry list"
  nextProcessID :: int
  numLivingProcesses :: int
  spaceProcess :: "nat \<Rightarrow> int"
  threadID :: "tid \<Rightarrow> int"
  userRegisters :: "tid \<Rightarrow> nat \<Rightarrow> u32"
  startAt :: "tid \<Rightarrow> u32 option"
  mailboxNum :: "tid \<Rightarrow> int"
  nextMailboxID :: int

definition osvm :: "os \<Rightarrow> vm" where
  "osvm s = iovm (osio s)"

definition set_osvm :: "vm \<Rightarrow> os \<Rightarrow> os" where
  "set_osvm v s = s\<lparr>osio := (osio s)\<lparr>iovm := v\<rparr>\<rparr>"

definition running :: "os \<Rightarrow> tid" where
  "running s = currentThread (kern (osys s))"

definition set_kern :: "kernel \<Rightarrow> os \<Rightarrow> os" where
  "set_kern k s = s\<lparr>osys := (osys s)\<lparr>kern := k\<rparr>\<rparr>"

text \<open>\<open>currentThread->space\<close>, its address space and its entry in the process table.\<close>

definition my_space :: "os \<Rightarrow> nat result" where
  "my_space s = (case threadSpace (osys s) (running s) of None \<Rightarrow> Inl NullPointer | Some sp \<Rightarrow> Inr sp)"

definition my_AddrSpace :: "os \<Rightarrow> AddrSpace result" where
  "my_AddrSpace s = bind_result (my_space s) (\<lambda>sp. bind_result (the_space (osvm s) (Some sp)) (\<lambda>(_, a). Inr a))"

definition my_entry :: "os \<Rightarrow> ProcessEntry result" where
  "my_entry s = bind_result (my_space s) (\<lambda>sp. array_get (processTable s) (spaceProcess s sp))"

definition upd_entry :: "int \<Rightarrow> (ProcessEntry \<Rightarrow> ProcessEntry) \<Rightarrow> os \<Rightarrow> os result" where
  "upd_entry pid f s =
     bind_result (array_get (processTable s) pid) (\<lambda>e.
     bind_result (array_set (processTable s) pid (f e)) (\<lambda>t. Inr (s\<lparr>processTable := t\<rparr>)))"

text \<open>The start of the kernel empties the table; the stacks are not set.\<close>

definition clear_processTable :: "ProcessEntry list \<Rightarrow> ProcessEntry list" where
  "clear_processTable t = map (\<lambda>e. e\<lparr>numThreadsAlive := 0, processID := - 1, nextThreadID := 0\<rparr>) t"

section \<open>The first function of a thread\<close>

text \<open>\<open>stackEnd\<close> is the number of the page after the stack of a thread.\<close>

definition stackEnd :: "AddrSpace \<Rightarrow> int \<Rightarrow> int" where
  "stackEnd a i = numExecutablePages a + (i + 1) * 8"

definition record_stack :: "int \<Rightarrow> os \<Rightarrow> os result" where
  "record_stack p s =
     bind_result (my_space s) (\<lambda>sp.
     bind_result (my_entry s) (\<lambda>e.
     bind_result (array_set (threadStacks e) (threadID s (running s)) p) (\<lambda>st.
     upd_entry (spaceProcess s sp) (\<lambda>e. e\<lparr>threadStacks := st\<rparr>) s)))"

definition write_regs :: "(nat \<times> u32) list \<Rightarrow> os \<Rightarrow> os" where
  "write_regs rs s = set_osvm (fold (\<lambda>(r, v) m. set_reg r v m) rs (osvm s)) s"

definition restore_state :: "os \<Rightarrow> os result" where
  "restore_state s = bind_result (RestoreState (osvm s)) (\<lambda>v. Inr (set_osvm v s))"

definition Create_Kernel_Thread_Fork :: "u32 \<Rightarrow> os \<Rightarrow> os result" where
  "Create_Kernel_Thread_Fork vaddr s =
     bind_result (restore_state (write_regs [(PCReg, vaddr), (NextPCReg, vaddr + 4)] s)) (\<lambda>s1.
     bind_result (my_AddrSpace s1) (\<lambda>a.
     let i = threadID s1 (running s1); stackLoc = stackEnd a i * PageSize - 16 in
     bind_result (record_stack (stackEnd a i) s1) (\<lambda>s2.
     Inr (write_regs [(StackReg, word_of_int stackLoc)] s2))))"

definition InitRegisters :: "os \<Rightarrow> os result" where
  "InitRegisters s =
     (let s1 = write_regs (map (\<lambda>i. (i, 0)) [0..<nat NumTotalRegs] @ [(PCReg, 0), (NextPCReg, 4)]) s in
      bind_result (my_AddrSpace s1) (\<lambda>a.
      bind_result (record_stack (numExecutablePages a + 8) s1) (\<lambda>s2.
      Inr (write_regs [(StackReg, word_of_int (stackEnd a 0 * PageSize - 16))] s2))))"

definition Create_Kernel_Thread_Exec :: "os \<Rightarrow> os result" where
  "Create_Kernel_Thread_Exec s =
     bind_result (InitRegisters (s\<lparr>mailboxNum := (mailboxNum s)(running s := nextMailboxID s),
        nextMailboxID := nextMailboxID s + 1\<rparr>)) restore_state"

section \<open>Switching\<close>

text \<open>The end of \<open>ExceptionHandler\<close>: the result is in register 2 and the program goes on behind the call.\<close>

definition syscall_return :: "u32 \<Rightarrow> os \<Rightarrow> os" where
  "syscall_return rv s =
     (let m1 = set_reg 2 rv (osvm s);
          m2 = set_reg PrevPCReg (registers m1 PCReg) m1;
          m3 = set_reg PCReg (registers m2 NextPCReg) m2;
          m4 = set_reg NextPCReg (registers m3 PCReg + 4) m3
      in set_osvm m4 s)"

text \<open>The first half of \<open>Scheduler::Run\<close>, for the thread that leaves the CPU.\<close>

definition leave_user :: "os \<Rightarrow> os result" where
  "leave_user s =
     (if threadSpace (osys s) (running s) = None then Inr s
      else bind_result (SaveState (osvm s)) (\<lambda>v.
        Inr (set_osvm v (s\<lparr>userRegisters := (userRegisters s)(running s := registers (osvm s))\<rparr>))))"

text \<open>The second half, for the thread that comes back in the middle of a call that returns no value.\<close>

definition enter_space :: "os \<Rightarrow> os" where
  "enter_space s = (case threadSpace (osys s) (running s) of None \<Rightarrow> s
     | Some sp \<Rightarrow> set_osvm ((osvm s)\<lparr>currentSpace := sp\<rparr>) s)"

definition return_user :: "os \<Rightarrow> os result" where
  "return_user s =
     (if threadSpace (osys s) (running s) = None then Inr s
      else
        let s1 = enter_space s in
        bind_result (restore_state (set_osvm ((osvm s1)\<lparr>registers := userRegisters s1 (running s1)\<rparr>) s1)) (\<lambda>s2.
        Inr (syscall_return 0 s2)))"

definition start_user :: "os \<Rightarrow> os result" where
  "start_user s =
     (case startAt s (running s) of
        Some a \<Rightarrow> Create_Kernel_Thread_Fork a (enter_space s)
      | None \<Rightarrow> Create_Kernel_Thread_Exec (enter_space s))"

text \<open>
  The scheduler has gone from the state of \<open>s\<close> to \<open>k\<close> through a switch. While the CPU idles in the loop
  of \<open>Thread::Sleep\<close> there has been no call of \<open>Run\<close>.
\<close>

definition switch_user :: "kernel \<Rightarrow> os \<Rightarrow> os result" where
  "switch_user k s =
     (if idle k then Inr (set_kern k s)
      else bind_result (leave_user s) (\<lambda>s1.
     let s2 = set_kern k s1 in
     if conts (kern (osys s)) (currentThread k) = Start then start_user s2
     else return_user s2))"

section \<open>Fork and Exec\<close>

text \<open>\<open>t\<close> and \<open>sp\<close> are the pointers that \<open>new\<close> returns for the thread and the address space.\<close>

definition adopt :: "tid \<Rightarrow> nat \<Rightarrow> int \<Rightarrow> u32 option \<Rightarrow> os \<Rightarrow> os" where
  "adopt t sp i start s =
     s\<lparr>osys := (osys s)\<lparr>kern := Fork t (kern (osys s)), threadSpace := (threadSpace (osys s))(t := Some sp)\<rparr>,
       threadID := (threadID s)(t := i), startAt := (startAt s)(t := start)\<rparr>"

definition Fork_Syscall :: "bool \<Rightarrow> tid \<Rightarrow> u32 \<Rightarrow> u32 \<Rightarrow> int \<Rightarrow> os \<Rightarrow> os result option" where
  "Fork_Syscall big t vaddr nameIndex len s =
     (case my_entry s of Inl c \<Rightarrow> Some (Inl c)
      | Inr e0 \<Rightarrow>
        if nextThreadID e0 = MAX_THREADS then Some (Inl crash.Halted)
        else if len + 1 < 0 then Some (Inl OutOfMemory)
        else after (copyin big nameIndex len (osvm s)) (\<lambda>(_, v).
          let s1 = set_osvm v s in
          bind_result (my_space s1) (\<lambda>sp.
          bind_result (my_entry s1) (\<lambda>e.
          bind_result (upd_entry (spaceProcess s1 sp)
             (\<lambda>e. e\<lparr>nextThreadID := nextThreadID e + 1, numThreadsAlive := numThreadsAlive e + 1\<rparr>) s1) (\<lambda>s2.
          Inr (adopt t sp (nextThreadID e) (Some vaddr) s2))))))"

text \<open>The constructor of \<open>AddrSpace\<close>, with the table of open files (\<open>words\<close> and \<open>slots\<close> are what fresh memory holds).\<close>

definition make_AddrSpace ::
  "bool \<Rightarrow> (nat \<Rightarrow> u32) \<Rightarrow> (nat \<Rightarrow> OpenFile option) \<Rightarrow> (nat \<Rightarrow> PageTableEntry) \<Rightarrow> u8 list option \<Rightarrow>
   (OpenFile Table \<times> AddrSpace) result" where
  "make_AddrSpace big words slots garbage exe =
     bind_result (new_fileTable words slots) (\<lambda>ft. bind_result (new_AddrSpace big garbage exe) (\<lambda>a. Inr (ft, a)))"

text \<open>\<open>sp\<close> now points to the address space \<open>a\<close> with the table \<open>ft\<close>.\<close>

definition allocate_space :: "nat \<Rightarrow> OpenFile Table \<Rightarrow> AddrSpace \<Rightarrow> os \<Rightarrow> os" where
  "allocate_space sp ft a s =
     s\<lparr>osio := (osio s)\<lparr>iovm := (osvm s)\<lparr>spaces := (spaces (osvm s))(sp \<mapsto> a)\<rparr>, fileTables := (fileTables (osio s))(sp := ft)\<rparr>\<rparr>"

text \<open>
  The name of the executable is not terminated: \<open>beyond\<close> is the byte after it. \<open>exe\<close> gives the contents of
  a UNIX file, \<open>None\<close> when there is none; the new address space then reads from a null pointer.
\<close>

definition Exec_Syscall ::
  "bool \<Rightarrow> tid \<Rightarrow> nat \<Rightarrow> u8 \<Rightarrow> (nat \<Rightarrow> u32) \<Rightarrow> (nat \<Rightarrow> OpenFile option) \<Rightarrow> (nat \<Rightarrow> PageTableEntry) \<Rightarrow>
   (u8 list \<Rightarrow> u8 list option) \<Rightarrow> u32 \<Rightarrow> int \<Rightarrow> u32 \<Rightarrow> int \<Rightarrow> os \<Rightarrow> (int \<times> os) result option" where
  "Exec_Syscall big t sp beyond words slots garbage exe fileName filenameLength nameIndex nameLength s =
     (if filenameLength + 1 < 0 then Some (Inl OutOfMemory)
      else case copyin big fileName filenameLength (osvm s) of None \<Rightarrow> None | Some (Inl c) \<Rightarrow> Some (Inl c)
      | Some (Inr (buf, v)) \<Rightarrow>
        (case bind_result (printed (buf @ [beyond])) (\<lambda>name. make_AddrSpace big words slots garbage (exe name)) of
           Inl c \<Rightarrow> Some (Inl c)
         | Inr (ft, a) \<Rightarrow>
           if nextProcessID s = MAX_PROCESSES then Some (Inl crash.Halted)
           else if nameLength < 0 then Some (Inl OutOfMemory)
           else
             let pid = nextProcessID s;
                 s1 = (allocate_space sp ft a (set_osvm v s))
                   \<lparr>spaceProcess := (spaceProcess s)(sp := pid), numLivingProcesses := numLivingProcesses s + 1,
                    nextProcessID := pid + 1\<rparr> in
             after (copyin big nameIndex nameLength (osvm s1)) (\<lambda>(_, v').
               let s2 = set_osvm v' s1 in
               bind_result (array_get (processTable s2) pid) (\<lambda>e.
               bind_result (upd_entry pid (\<lambda>e. e\<lparr>processID := pid, nextThreadID := nextThreadID e + 1,
                  numThreadsAlive := numThreadsAlive e + 1\<rparr>) s2) (\<lambda>s3.
               Inr (pid, adopt t sp (nextThreadID e) None s3))))))"

section \<open>Exit\<close>

definition exit_lock :: "int \<Rightarrow> sys \<Rightarrow> sys result" where
  "exit_lock i s =
     bind_result (array_get (lockTable s) i) (\<lambda>e.
     if lockSpace e = callerSpace s
     then bind_result (set_lock_entry i (\<lambda>e. e\<lparr>lockSpace := None, lockToBeDeleted := False\<rparr>) s) (delete_lock i)
     else Inr s)"

definition exit_condition :: "int \<Rightarrow> sys \<Rightarrow> sys result" where
  "exit_condition i s =
     bind_result (array_get (conditionTable s) i) (\<lambda>e.
     if conditionSpace e = callerSpace s
     then bind_result (set_condition_entry i (\<lambda>e. e\<lparr>conditionSpace := None, condToBeDeleted := False\<rparr>) s) (delete_condition i)
     else Inr s)"

definition free_frame :: "int \<Rightarrow> 'k vm_scheme \<Rightarrow> 'k vm_scheme result" where
  "free_frame p v =
     bind_result (ipt_upd p (\<lambda>e. e\<lparr>valid := False, use := False\<rparr>) v) (\<lambda>v1.
     bind_result (Clear (mainMemoryBitmap v1) p) (\<lambda>b. Inr (v1\<lparr>mainMemoryBitmap := b\<rparr>)))"

definition exit_frame :: "nat \<Rightarrow> int \<Rightarrow> 'k vm_scheme \<Rightarrow> 'k vm_scheme result" where
  "exit_frame sp p v =
     bind_result (ipt_get v p) (\<lambda>e. if space e = Some sp then free_frame p v else Inr v)"

text \<open>The page of number \<open>lastStackPage - i\<close>: the frame that its page table entry names, current or not.\<close>

definition exit_stack_page :: "nat \<Rightarrow> int \<Rightarrow> int \<Rightarrow> 'k vm_scheme \<Rightarrow> 'k vm_scheme result" where
  "exit_stack_page sp lastStackPage i v =
     bind_result (pt_get v (Some sp) (lastStackPage - i)) (\<lambda>pte.
     let ppn = physicalPage pte in
     bind_result (ipt_get v ppn) (\<lambda>e.
     if valid e \<and> \<not> use e \<and> space e = Some sp then free_frame ppn v else Inr v))"

definition finish_thread :: "os \<Rightarrow> os result" where
  "finish_thread s = bind_result (Finish (kern (osys s))) (\<lambda>k. switch_user k s)"

definition exit_process :: "os \<Rightarrow> os result" where
  "exit_process s =
     bind_result (my_space s) (\<lambda>sp.
     bind_result (my_entry s) (\<lambda>e.
     bind_result (array_get (threadStacks e) (threadID s (running s))) (\<lambda>_.
     bind_result (for_loop 0 (lockArraySize (osys s)) exit_lock (osys s)) (\<lambda>y1.
     bind_result (for_loop 0 (conditionArraySize y1) exit_condition y1) (\<lambda>y2.
     bind_result (for_loop 0 NumPhysPages (exit_frame sp) (osvm s)) (\<lambda>v.
     finish_thread (set_osvm v (s\<lparr>osys := y2, numLivingProcesses := numLivingProcesses s - 1\<rparr>))))))))"

definition exit_thread :: "os \<Rightarrow> os result" where
  "exit_thread s =
     bind_result (my_space s) (\<lambda>sp.
     bind_result (upd_entry (spaceProcess s sp) (\<lambda>e. e\<lparr>numThreadsAlive := numThreadsAlive e - 1\<rparr>) s) (\<lambda>s1.
     bind_result (my_entry s1) (\<lambda>e.
     bind_result (array_get (threadStacks e) (threadID s1 (running s1))) (\<lambda>lastStackPage.
     bind_result (for_loop 0 (quot UserStackSize PageSize) (exit_stack_page sp lastStackPage) (osvm s1)) (\<lambda>v.
     finish_thread (set_osvm v s1))))))"

definition Exit_Syscall :: "os \<Rightarrow> os result" where
  "Exit_Syscall s =
     bind_result (my_entry s) (\<lambda>e.
     if numLivingProcesses s = 1 \<and> numThreadsAlive e = 1 then Inl crash.Halted
     else if numLivingProcesses s > 1 \<and> numThreadsAlive e = 1 then exit_process s
     else if numThreadsAlive e > 1 then exit_thread s
     else Inl crash.Halted)"

end
