(* ===== verification/Process_Memory.thy ===== *)
theory Process_Memory
  imports Processes
begin

text \<open>
  What the memory of the other processes sees of an \<open>Exit\<close>: frames of one address space leave the tables
  while the TLB may still name them, and the switch to the next thread empties the TLB. The pager's
  invariant holds again after the switch, and only the freed pages have changed.
\<close>

section \<open>Freeing frames of a space, and the switch that follows\<close>

text \<open>\<open>F\<close> are the frames that were freed; all of them are of the address space \<open>sp\<close>.\<close>

definition freed :: "nat \<Rightarrow> int set \<Rightarrow> vm \<Rightarrow> vm \<Rightarrow> bool" where
  "freed sp F v w \<longleftrightarrow> (\<exists>ipt b. w = v\<lparr>IPT := ipt, mainMemoryBitmap := b\<rparr> \<and> length ipt = length (IPT v) \<and>
     (\<forall>p<length ipt. ipt ! p = (if int p \<in> F then (IPT v ! p)\<lparr>valid := False, use := False\<rparr> else IPT v ! p)) \<and>
     (\<forall>p\<in>F. 0 \<le> p \<and> p < NumPhysPages \<and> space (IPT v ! nat p) = Some sp) \<and>
     wf_BitMap b \<and> numBits b = NumPhysPages \<and> bits b = bits (mainMemoryBitmap v) - F)"

lemma freed_none: "vm_ok v \<Longrightarrow> freed sp {} v v"
  using vm_invD(5) [of "{}" "{}" v]
  by (auto simp: freed_def map_inv_def intro!: exI [of _ "IPT v"] exI [of _ "mainMemoryBitmap v"])

lemma freed_ipt:
  assumes "freed sp F v w" "0 \<le> p" "p < int (length (IPT v))"
  shows "IPT w ! nat p = (if p \<in> F then (IPT v ! nat p)\<lparr>valid := False, use := False\<rparr> else IPT v ! nat p)"
  using assms by (auto simp: freed_def nat_less_iff)

lemma free_frame_ok:
  assumes f: "freed sp F v w" and l: "int (length (IPT v)) = NumPhysPages" and p: "0 \<le> p" "p < NumPhysPages"
    "space (IPT w ! nat p) = Some sp"
  shows "\<exists>w'. free_frame p w = Inr w' \<and> freed sp (insert p F) v w'"
proof -
  obtain ipt b where w: "w = v\<lparr>IPT := ipt, mainMemoryBitmap := b\<rparr>" "length ipt = length (IPT v)"
    "\<And>p. p < length ipt \<Longrightarrow> ipt ! p = (if int p \<in> F then (IPT v ! p)\<lparr>valid := False, use := False\<rparr> else IPT v ! p)"
    "\<And>p. p \<in> F \<Longrightarrow> 0 \<le> p \<and> p < NumPhysPages \<and> space (IPT v ! nat p) = Some sp"
    "wf_BitMap b" "numBits b = NumPhysPages" "bits b = bits (mainMemoryBitmap v) - F"
    using f unfolding freed_def by blast
  obtain b' where b': "Clear b p = Inr b'" "wf_BitMap b'" "numBits b' = NumPhysPages" "bits b' = bits b - {p}"
    using Clear_ok [OF w(5) p(1)] p(2) w(6) by auto
  let ?e = "ipt ! nat p" and ?ipt = "ipt[nat p := (ipt ! nat p)\<lparr>valid := False, use := False\<rparr>]"
  have n: "nat p < length ipt" using p(1,2) l w(2) by simp
  have "free_frame p w = Inr (v\<lparr>IPT := ?ipt, mainMemoryBitmap := b'\<rparr>)"
    using p(1) n b'(1) w(1) by (simp add: free_frame_def ipt_upd_def)
  moreover have "freed sp (insert p F) v (v\<lparr>IPT := ?ipt, mainMemoryBitmap := b'\<rparr>)"
    unfolding freed_def
  proof (intro exI conjI)
    show "\<forall>q<length ?ipt. ?ipt ! q = (if int q \<in> insert p F then (IPT v ! q)\<lparr>valid := False, use := False\<rparr> else IPT v ! q)"
      using w(3) p(1) n by (auto simp: nth_list_update)
    show "\<forall>q\<in>insert p F. 0 \<le> q \<and> q < NumPhysPages \<and> space (IPT v ! nat q) = Some sp"
      using w(4) p w(3) [OF n] w(1) by (auto split: if_splits)
    show "bits b' = bits (mainMemoryBitmap v) - insert p F" using b'(4) w(7) by blast
  qed (use w(2) b' in simp_all)
  ultimately show ?thesis by blast
qed

lemma freed_fields:
  "freed sp F v w \<Longrightarrow> spaces w = spaces v \<and> tlb w = tlb v \<and> currentSpace w = currentSpace v \<and>
     length (IPT w) = length (IPT v)"
  by (auto simp: freed_def)

lemma frame_space_kept:
  assumes "freed sp F v w" "0 \<le> p" "p < int (length (IPT v))"
  shows "space (IPT w ! nat p) = space (IPT v ! nat p)"
  using freed_ipt [OF assms] by simp

lemma exit_frames_ok:
  assumes l: "int (length (IPT v)) = NumPhysPages" and n: "freed sp {} v v"
  shows "\<exists>w. for_loop 0 NumPhysPages (exit_frame sp) v = Inr w \<and>
    freed sp {p. 0 \<le> p \<and> p < NumPhysPages \<and> space (IPT v ! nat p) = Some sp} v w"
proof -
  let ?F = "\<lambda>j. {p. 0 \<le> p \<and> p < j \<and> space (IPT v ! nat p) = Some sp}"
  have "\<exists>w. for_loop 0 NumPhysPages (exit_frame sp) v = Inr w \<and> freed sp (?F NumPhysPages) v w"
  proof (rule for_loop_rule [where I = "\<lambda>j w. freed sp (?F j) v w"])
    have e: "?F 0 = {}" by auto
    show "freed sp (?F 0) v v" unfolding e by (rule n)
  next
    fix j w assume j: "0 \<le> j" "j < NumPhysPages" and f: "freed sp (?F j) v w"
    have s: "space (IPT w ! nat j) = space (IPT v ! nat j)" using frame_space_kept [OF f j(1)] j(2) l by simp
    have g: "ipt_get w j = Inr (IPT w ! nat j)" using j l freed_fields [OF f] by (simp add: ipt_get_def)
    show "\<exists>w'. exit_frame sp j w = Inr w' \<and> freed sp (?F (j + 1)) v w'"
    proof (cases "space (IPT v ! nat j) = Some sp")
      case True
      then have "?F (j + 1) = insert j (?F j)" using j(1) by auto
      then show ?thesis using free_frame_ok [OF f l j] s g True by (simp add: exit_frame_def)
    next
      case False
      then have "?F (j + 1) = ?F j" by (auto simp: order_le_less)
      then show ?thesis using f s g False by (simp add: exit_frame_def)
    qed
  qed (simp add: NumPhysPages_def)
  then show ?thesis .
qed

text \<open>Each of the eight table entries names some frame.\<close>

lemma exit_stack_ok:
  assumes l: "int (length (IPT v)) = NumPhysPages" and n: "freed sp {} v v"
    and pt: "\<And>i. 0 \<le> i \<Longrightarrow> i < 8 \<Longrightarrow> \<exists>pte. pt_get v (Some sp) (l - i) = Inr pte \<and> 0 \<le> physicalPage pte \<and> physicalPage pte < NumPhysPages"
  shows "\<exists>w F. for_loop 0 8 (exit_stack_page sp l) v = Inr w \<and> freed sp F v w \<and>
    F = {q. \<exists>i pte. 0 \<le> i \<and> i < 8 \<and> pt_get v (Some sp) (l - i) = Inr pte \<and> physicalPage pte = q \<and>
      valid (IPT v ! nat q) \<and> \<not> use (IPT v ! nat q) \<and> space (IPT v ! nat q) = Some sp}"
proof -
  let ?F = "\<lambda>j. {q. \<exists>i pte. 0 \<le> i \<and> i < j \<and> pt_get v (Some sp) (l - i) = Inr pte \<and> physicalPage pte = q \<and>
      valid (IPT v ! nat q) \<and> \<not> use (IPT v ! nat q) \<and> space (IPT v ! nat q) = Some sp}"
  have "\<exists>w. for_loop 0 8 (exit_stack_page sp l) v = Inr w \<and> freed sp (?F 8) v w"
  proof (rule for_loop_rule [where I = "\<lambda>j w. freed sp (?F j) v w"])
    have e: "?F 0 = {}" by auto
    show "freed sp (?F 0) v v" unfolding e by (rule n)
  next
    fix j w assume j: "0 \<le> j" "j < (8::int)" and f: "freed sp (?F j) v w"
    obtain pte where pte: "pt_get v (Some sp) (l - j) = Inr pte" "0 \<le> physicalPage pte" "physicalPage pte < NumPhysPages"
      using pt [OF j] by blast
    let ?q = "physicalPage pte"
    have r: "?q < int (length (IPT v))" using pte(3) assms(1) by simp
    have "pt_get w (Some sp) (l - j) = Inr pte" using pte(1) freed_fields [OF f] by (simp add: pt_get_def the_space_def)
    moreover have "ipt_get w ?q = Inr (IPT w ! nat ?q)" using pte(2) r freed_fields [OF f] by (simp add: ipt_get_def)
    moreover note e = freed_ipt [OF f pte(2) r]
    have grow: "?F (j + 1) = (if valid (IPT v ! nat ?q) \<and> \<not> use (IPT v ! nat ?q) \<and> space (IPT v ! nat ?q) = Some sp
        then insert ?q (?F j) else ?F j)" (is "?L = ?R")
    proof (rule set_eqI)
      fix q
      have "i < j + 1 \<longleftrightarrow> i < j \<or> i = j" for i by linarith
      then show "q \<in> ?L \<longleftrightarrow> q \<in> ?R" using pte(1) j(1) by auto
    qed
    have "insert ?q (?F j) = ?F j" if "?q \<in> ?F j" using that by blast
    ultimately show "\<exists>w'. exit_stack_page sp l j w = Inr w' \<and> freed sp (?F (j + 1)) v w'"
      using free_frame_ok [OF f assms(1) pte(2,3)] f e grow
      by (auto simp: exit_stack_page_def Let_def split: if_splits)
  qed simp
  then show ?thesis by blast
qed

section \<open>The switch that follows\<close>

lemma for_loop_simulation:
  assumes "R s t" "for_loop i n f s = Inr s'"
    and "\<And>j s t s'. R s t \<Longrightarrow> f j s = Inr s' \<Longrightarrow> \<exists>t'. g j t = Inr t' \<and> R s' t'"
  shows "\<exists>t'. for_loop i n g t = Inr t' \<and> R s' t'"
  using assms
proof (induction i n f s arbitrary: t rule: for_loop.induct)
  case (1 i n f s)
  note step = 1(4)
  show ?case
  proof (cases "i < n")
    case True
    then obtain s1 where s1: "f i s = Inr s1" "for_loop (i + 1) n f s1 = Inr s'"
      using 1(3) by (subst (asm) for_loop.simps) (auto split: sum.splits)
    obtain t1 where t1: "g i t = Inr t1" "R s1 t1" using step [OF 1(2) s1(1)] by blast
    show ?thesis using 1(1) [OF True s1(1) t1(2) s1(2) step] t1(1) True by (subst for_loop.simps) simp
  next
    case False
    then show ?thesis using 1 by (simp add: for_loop.simps)
  qed
qed

text \<open>Emptying the TLB and freeing frames commute.\<close>

lemma freed_tlb: "freed sp F v w \<Longrightarrow> freed sp F (v\<lparr>tlb := t\<rparr>) (w\<lparr>tlb := t\<rparr>)"
  unfolding freed_def
  by (elim exE, rule_tac x = ipt in exI, rule_tac x = b in exI) simp

lemma freed_flush_entry:
  assumes f: "freed sp F v w" and e: "flush_entry i v = Inr v'"
  shows "\<exists>w'. flush_entry i w = Inr w' \<and> freed sp F v' w'"
proof -
  obtain ipt b where w: "w = v\<lparr>IPT := ipt, mainMemoryBitmap := b\<rparr>" "length ipt = length (IPT v)"
    "\<And>p. p < length ipt \<Longrightarrow> ipt ! p = (if int p \<in> F then (IPT v ! p)\<lparr>valid := False, use := False\<rparr> else IPT v ! p)"
    "\<And>p. p \<in> F \<Longrightarrow> 0 \<le> p \<and> p < NumPhysPages \<and> space (IPT v ! nat p) = Some sp"
    "wf_BitMap b" "numBits b = NumPhysPages" "bits b = bits (mainMemoryBitmap v) - F"
    using f unfolding freed_def by blast
  obtain x v1 where x: "tlb_get v i = Inr x" "save_dirty x v = Inr v1" "tlb_set i (x\<lparr>valid := False\<rparr>) v1 = Inr v'"
    using e by (auto simp: flush_entry_def)
  have "\<exists>w1. save_dirty x w = Inr w1 \<and> freed sp F v1 w1 \<and> tlb w1 = tlb v1"
  proof (cases "valid x")
    case False
    then show ?thesis using f x(2) w(1) by (auto simp: save_dirty_def)
  next
    case True
    let ?p = "physicalPage x"
    have r: "0 \<le> ?p" "?p < int (length (IPT v))" and
      v1: "v1 = v\<lparr>IPT := (IPT v)[nat ?p := (IPT v ! nat ?p)\<lparr>dirty := dirty x\<rparr>]\<rparr>"
      using x(2) True by (auto simp: save_dirty_def ipt_upd_def array_get_def array_set_def split: if_splits)
    let ?ipt = "ipt[nat ?p := (ipt ! nat ?p)\<lparr>dirty := dirty x\<rparr>]"
    have "save_dirty x w = Inr (w\<lparr>IPT := ?ipt\<rparr>)"
      using True r w(1,2) by (simp add: save_dirty_def ipt_upd_def)
    moreover have "freed sp F v1 (w\<lparr>IPT := ?ipt\<rparr>)"
      unfolding freed_def
    proof (intro exI conjI)
      show "w\<lparr>IPT := ?ipt\<rparr> = v1\<lparr>IPT := ?ipt, mainMemoryBitmap := b\<rparr>" using w(1) v1 by simp
      show "\<forall>q<length ?ipt. ?ipt ! q = (if int q \<in> F then (IPT v1 ! q)\<lparr>valid := False, use := False\<rparr> else IPT v1 ! q)"
        using w(2,3) v1 r by (auto simp: nth_update_cases)
      show "\<forall>q\<in>F. 0 \<le> q \<and> q < NumPhysPages \<and> space (IPT v1 ! nat q) = Some sp"
        using w(4) v1 by (auto simp: nth_update_cases)
    qed (use w v1 in simp_all)
    ultimately show ?thesis using w(1) v1 by simp
  qed
  then obtain w1 where w1: "save_dirty x w = Inr w1" "freed sp F v1 w1" "tlb w1 = tlb v1" by blast
  obtain ipt1 b1 where s1: "w1 = v1\<lparr>IPT := ipt1, mainMemoryBitmap := b1\<rparr>" using w1(2) by (auto simp: freed_def)
  obtain t where t: "v' = v1\<lparr>tlb := t\<rparr>" "tlb_set i (x\<lparr>valid := False\<rparr>) w1 = Inr (w1\<lparr>tlb := t\<rparr>)"
  proof (cases "tlb v1")
    case None
    then show ?thesis using x(3) by (simp add: tlb_set_def)
  next
    case (Some u)
    then obtain u' where "array_set u i (x\<lparr>valid := False\<rparr>) = Inr u'" "v' = v1\<lparr>tlb := Some u'\<rparr>"
      using x(3) by (auto simp: tlb_set_def)
    then show ?thesis using that [of "Some u'"] Some w1(3) by (simp add: tlb_set_def)
  qed
  have "freed sp F v' (w1\<lparr>tlb := t\<rparr>)"
    unfolding t(1) by (rule freed_tlb [OF w1(2)])
  moreover have "flush_entry i w = Inr (w1\<lparr>tlb := t\<rparr>)"
    using x(1) w1(1) t(2) w(1) by (simp add: flush_entry_def tlb_get_def)
  ultimately show ?thesis by blast
qed

lemma for_loop_keeps:
  assumes "for_loop i n f s = Inr s'" "K s" "\<And>j s s'. f j s = Inr s' \<Longrightarrow> K s \<Longrightarrow> K s'"
  shows "K s'"
  using for_loop_simulation [where R = "\<lambda>s t. s = t \<and> K t" and f = f and g = f and s = s and t = s] assms by blast

definition flushed :: "vm \<Rightarrow> vm \<Rightarrow> bool" where
  "flushed v v' \<longleftrightarrow> (\<exists>ipt t. v' = v\<lparr>IPT := ipt, tlb := t\<rparr> \<and> same_pages (IPT v) ipt)"

lemma flush_entry_flushed:
  assumes e: "flush_entry i v = Inr v'" and f: "flushed v0 v"
  shows "flushed v0 v'"
proof -
  obtain ipt t where v: "v = v0\<lparr>IPT := ipt, tlb := t\<rparr>" "same_pages (IPT v0) ipt" using f by (auto simp: flushed_def)
  obtain x v1 where x: "save_dirty x v = Inr v1" "tlb_set i (x\<lparr>valid := False\<rparr>) v1 = Inr v'"
    using e by (auto simp: flush_entry_def)
  obtain ipt1 where v1: "v1 = v0\<lparr>IPT := ipt1, tlb := t\<rparr>" "same_pages (IPT v0) ipt1"
  proof (cases "valid x")
    case False
    then have "v1 = v0\<lparr>IPT := ipt, tlb := t\<rparr>" using x(1) v(1) by (simp add: save_dirty_def)
    then show ?thesis by (rule that) (rule v(2))
  next
    case True
    let ?p = "nat (physicalPage x)"
    have "v1 = v0\<lparr>IPT := ipt[?p := (ipt ! ?p)\<lparr>dirty := dirty x\<rparr>], tlb := t\<rparr>"
      using x(1) True v(1) by (auto simp: save_dirty_def ipt_upd_def array_get_Inr array_set_Inr)
    moreover have "same_pages (IPT v0) (ipt[?p := (ipt ! ?p)\<lparr>dirty := dirty x\<rparr>])"
      using v(2) by (auto simp: same_pages_def nth_update_cases)
    ultimately show ?thesis using that by blast
  qed
  obtain t' where "v' = v1\<lparr>tlb := t'\<rparr>"
    using x(2) by (cases "tlb v1") (auto simp: tlb_set_def)
  then show ?thesis using v1 unfolding flushed_def by (intro exI [of _ ipt1] exI [of _ t']) simp
qed

lemma SaveState_flushed: "SaveState v = Inr v' \<Longrightarrow> flushed v v'"
  unfolding SaveState_def
proof (erule for_loop_keeps)
  show "flushed v v" unfolding flushed_def by (intro exI [of _ "IPT v"] exI [of _ "tlb v"]) (simp add: same_pages_def)
qed (rule flush_entry_flushed)

lemma no_tlb_modified: "\<forall>e\<in>set t. \<not> valid e \<Longrightarrow> modified ipt t p \<longleftrightarrow> dirty (ipt ! nat p)"
  by (auto simp: modified_def)

lemma freed_mapped:
  assumes f: "freed sp F v w" and l: "int (length (IPT v)) = NumPhysPages"
  shows "frames (IPT w) = frames (IPT v) - F" "mapped {} (IPT w) x y p \<longleftrightarrow> mapped {} (IPT v) x y p \<and> p \<notin> F"
proof -
  have e: "IPT w ! nat p = (if p \<in> F then (IPT v ! nat p)\<lparr>valid := False, use := False\<rparr> else IPT v ! nat p)"
    if "0 \<le> p" "p < NumPhysPages" for p
    by (rule freed_ipt [OF f that(1)]) (use that l in simp)
  show s: "frames (IPT w) = frames (IPT v) - F" using e by (auto simp: frames_def split: if_splits)
  show "mapped {} (IPT w) x y p \<longleftrightarrow> mapped {} (IPT v) x y p \<and> p \<notin> F"
  proof (cases "0 \<le> p \<and> p < NumPhysPages")
    case True
    then show ?thesis using e [of p] s by (auto simp: mapped_def)
  next
    case False
    then show ?thesis by (auto simp: mapped_def frames_def)
  qed
qed

lemma freed_vm_ok:
  assumes inv: "vm_ok v" and f: "freed sp F v w" and t: "\<forall>e\<in>set (the (tlb v)). \<not> valid e"
  shows "vm_ok w"
proof -
  have i: "ipt_inv {} (IPT v) (spaces v)" and m: "map_inv {} (IPT v) (mainMemoryBitmap v)"
    and c: "clean_inv {} (IPT v) (the (tlb v)) (mainMemory v) (spaces v) (swapFile v)"
    and l: "int (length (IPT v)) = NumPhysPages"
    using vm_invD [OF inv] by (simp_all add: ipt_inv_def)
  note fr = freed_mapped [OF f l]
  obtain ipt b where w: "w = v\<lparr>IPT := ipt, mainMemoryBitmap := b\<rparr>" "length ipt = length (IPT v)"
    "wf_BitMap b" "numBits b = NumPhysPages" "bits b = bits (mainMemoryBitmap v) - F"
    using f unfolding freed_def by blast
  have e: "IPT w ! nat p = (if p \<in> F then (IPT v ! nat p)\<lparr>valid := False, use := False\<rparr> else IPT v ! nat p)"
    if "0 \<le> p" "p < NumPhysPages" for p
    by (rule freed_ipt [OF f that(1)]) (use that l in simp)
  have i1: "IPT w ! nat p = IPT v ! nat p" if "p \<in> frames (IPT w)" for p
    using e [of p] frames_range [OF that] that fr(1) by auto
  obtain u where u: "tlb v = Some u" using vm_invD(2) [OF inv] by blast
  show ?thesis
  proof (rule vm_invI [where t = u])
    show "ipt_inv {} (IPT w) (spaces w)"
    proof -
      have "frames ipt \<subseteq> frames (IPT v)" using fr(1) w(1) by auto
      then show ?thesis using i i1 l w(1,2) unfolding ipt_inv_def fr(2) by auto
    qed
    show "tlb_inv {} (IPT w) (currentSpace w) (currentTLB w) u"
      using vm_invD(4) [OF inv] t u w(1) by (auto simp: tlb_inv_def)
    show "map_inv {} (IPT w) (mainMemoryBitmap w)" using m w fr(1) by (simp add: map_inv_def)
    show "clean_inv {} (IPT w) u (mainMemory w) (spaces w) (swapFile w)"
      unfolding clean_inv_def fr(2)
    proof (intro allI impI)
      fix x y p k a
      assume a: "(mapped {} (IPT v) x y p \<and> p \<notin> F) \<and> \<not> modified (IPT w) u p \<and> k < 128 \<and>
        backing (spaces w) (swapFile w) x y k = Some a"
      then have "\<not> modified (IPT v) u p" using e [of p] mapped_range [of "{}" "IPT v" x y p] t u
        by (auto simp: no_tlb_modified)
      then show "frame_byte (mainMemory w) p k = a" using a c w(1) u by (auto simp: clean_inv_def)
    qed
    show "list_inv {} (IPT w) (evictionPolicy w) (evictionList w)"
      using vm_invD(8) [OF inv] w(1) fr(1) by (auto simp: list_inv_def)
    show "unused {} (IPT w)" using vm_invD(9) [OF inv] e by (simp add: unused_def)
  qed (use w u vm_invD(6) [OF inv] in simp_all)
qed

text \<open>
  The pager after some frames of a space were freed and the TLB was emptied: the invariant holds, the
  frames are out of the tables, every other page holds what it held.
\<close>

lemma freed_SaveState:
  assumes inv: "vm_ok v" and f: "freed sp F v w"
  shows "\<exists>w'. SaveState w = Inr w' \<and> vm_ok w' \<and> (\<forall>e\<in>set (the (tlb w')). \<not> valid e) \<and>
    bits (mainMemoryBitmap w') = bits (mainMemoryBitmap v) - F \<and> swapMap w' = swapMap v \<and> spaces w' = spaces v \<and>
    (\<forall>x y p. mapped {} (IPT w') x y p \<longleftrightarrow> mapped {} (IPT v) x y p \<and> p \<notin> F) \<and>
    (\<forall>x y. (\<forall>p\<in>F. \<not> mapped {} (IPT v) x y p) \<longrightarrow> page_byte {} w' x y = page_byte {} v x y) \<and>
    (\<forall>x y k c. (\<exists>p\<in>F. mapped {} (IPT v) x y p) \<longrightarrow>
       page_byte {} w' x y k c = (backing (spaces v) (swapFile v) x y k = Some c))"
proof -
  obtain v1 where v1: "SaveState v = Inr v1" "vm_ok v1" "page_byte {} v1 = page_byte {} v"
    "\<forall>e\<in>set (the (tlb v1)). \<not> valid e"
    using flush_tlb_ok [OF inv] by (auto simp: SaveState_def)
  have l: "int (length (IPT v)) = NumPhysPages" "int (length (IPT v1)) = NumPhysPages"
    and uniq: "\<And>x y p q. mapped {} (IPT v1) x y p \<Longrightarrow> mapped {} (IPT v1) x y q \<Longrightarrow> p = q"
    using vm_invD(3) [OF inv] vm_invD(3) [OF v1(2)] by (auto simp: ipt_inv_def)
  obtain ipt t where fl: "v1 = v\<lparr>IPT := ipt, tlb := t\<rparr>" "same_pages (IPT v) ipt"
    using SaveState_flushed [OF v1(1)] by (auto simp: flushed_def)
  have m1: "mapped {} (IPT v1) = mapped {} (IPT v)" using same_pages_mapped [OF fl(2) l(1)] fl(1) by simp
  obtain w1 where w1: "SaveState w = Inr w1" "freed sp F v1 w1"
    using for_loop_simulation [where R = "freed sp F" and f = flush_entry and g = flush_entry, OF f v1(1) [unfolded SaveState_def]]
      freed_flush_entry unfolding SaveState_def by blast
  obtain u b where s1: "w1 = v1\<lparr>IPT := u, mainMemoryBitmap := b\<rparr>" "bits b = bits (mainMemoryBitmap v1) - F"
    using w1(2) by (auto simp: freed_def)
  have t1: "tlb w1 = tlb v1" using s1(1) by simp
  note fm = freed_mapped(2) [OF w1(2) l(2)]
  have md: "modified (IPT w1) (the (tlb w1)) p = modified (IPT v1) (the (tlb v1)) p" if "mapped {} (IPT w1) x y p" for x y p
  proof -
    have "IPT w1 ! nat p = IPT v1 ! nat p"
      using freed_ipt [OF w1(2), of p] that fm [of x y p] mapped_range [OF that] l(2) by simp
    then show ?thesis using v1(4) t1 by (simp add: no_tlb_modified)
  qed
  have keep: "page_byte {} w1 x y = page_byte {} v x y" if "\<forall>p\<in>F. \<not> mapped {} (IPT v) x y p" for x y
  proof -
    have m: "mapped {} (IPT w1) x y p \<longleftrightarrow> mapped {} (IPT v1) x y p" for p using fm [of x y p] that m1 by auto
    have d: "mapped {} (IPT v1) x y p \<Longrightarrow> modified (IPT w1) (the (tlb w1)) p \<longleftrightarrow> modified (IPT v1) (the (tlb v1)) p" for p
      using md [of x y p] m [of p] by blast
    have same: "mainMemory w1 = mainMemory v1" "spaces w1 = spaces v1" "swapFile w1 = swapFile v1"
      unfolding s1(1) by simp_all
    have "page_byte {} w1 x y = page_byte {} v1 x y"
      unfolding page_byte_def m same by (intro ext) (simp add: d cong: conj_cong)
    then show ?thesis using v1(3) by simp
  qed
  have lose: "page_byte {} w1 x y k c = (backing (spaces v) (swapFile v) x y k = Some c)"
    if p: "p \<in> F" "mapped {} (IPT v) x y p" for x y k c p
  proof -
    have "\<not> mapped {} (IPT w1) x y q" for q using fm [of x y q] uniq [of x y p q] p m1 by auto
    then show ?thesis using s1(1) fl(1) by (simp add: page_byte_def)
  qed
  show ?thesis
  proof (intro exI conjI)
    show "SaveState w = Inr w1" by (rule w1(1))
    show "vm_ok w1" by (rule freed_vm_ok [OF v1(2) w1(2) v1(4)])
    show "\<forall>e\<in>set (the (tlb w1)). \<not> valid e" using v1(4) t1 by simp
    show "\<forall>x y p. mapped {} (IPT w1) x y p \<longleftrightarrow> mapped {} (IPT v) x y p \<and> p \<notin> F" using fm m1 by simp
    show "\<forall>x y. (\<forall>p\<in>F. \<not> mapped {} (IPT v) x y p) \<longrightarrow> page_byte {} w1 x y = page_byte {} v x y" using keep by blast
    show "\<forall>x y k c. (\<exists>p\<in>F. mapped {} (IPT v) x y p) \<longrightarrow>
       page_byte {} w1 x y k c = (backing (spaces v) (swapFile v) x y k = Some c)" using lose by blast
  qed (use s1 fl(1) in simp_all)
qed

text \<open>The two pagers hold the same pages in the same frames; the TLB of the second is empty.\<close>

definition same_memory :: "vm \<Rightarrow> vm \<Rightarrow> bool" where
  "same_memory v w \<longleftrightarrow> vm_ok w \<and> (\<forall>e\<in>set (the (tlb w)). \<not> valid e) \<and> page_byte {} w = page_byte {} v \<and>
     mapped {} (IPT w) = mapped {} (IPT v) \<and> mainMemoryBitmap w = mainMemoryBitmap v \<and> swapMap w = swapMap v \<and>
     spaces w = spaces v"

lemma same_memory_trans: "same_memory u v \<Longrightarrow> same_memory v w \<Longrightarrow> same_memory u w"
  by (simp add: same_memory_def)

lemma SaveState_same_memory:
  assumes "vm_ok v"
  shows "\<exists>w. SaveState v = Inr w \<and> same_memory v w \<and> registers w = registers v"
proof -
  obtain w where w: "SaveState v = Inr w" "vm_ok w" "page_byte {} w = page_byte {} v" "\<forall>e\<in>set (the (tlb w)). \<not> valid e"
    using flush_tlb_ok [OF assms] by (auto simp: SaveState_def)
  obtain ipt t where f: "w = v\<lparr>IPT := ipt, tlb := t\<rparr>" "same_pages (IPT v) ipt"
    using SaveState_flushed [OF w(1)] by (auto simp: flushed_def)
  have "mapped {} (IPT w) = mapped {} (IPT v)"
    using same_pages_mapped [OF f(2)] vm_invD(3) [OF assms] f(1) by (simp add: ipt_inv_def)
  then show ?thesis using w f(1) by (intro exI [of _ w]) (auto simp: same_memory_def)
qed

lemma same_memory_enter:
  assumes "same_memory u v"
  shows "same_memory u (v\<lparr>currentSpace := c, registers := r\<rparr>)"
proof -
  have p: "page_byte {} (v\<lparr>currentSpace := c, registers := r\<rparr>) = page_byte {} v" by (intro ext) (simp add: page_byte_def)
  have "tlb_inv {} (IPT v) c (currentTLB v) (the (tlb v))"
    using assms by (auto simp: same_memory_def vm_inv_def tlb_inv_def)
  then have "vm_ok (v\<lparr>currentSpace := c, registers := r\<rparr>)"
    using assms [unfolded same_memory_def, THEN conjunct1] by (simp add: vm_inv_def)
  then show ?thesis using assms by (simp add: same_memory_def p)
qed

lemma same_memory_registers: "same_memory u v \<Longrightarrow> same_memory u (v\<lparr>registers := r\<rparr>)"
  using same_memory_enter [where u = u and v = v and c = "currentSpace v" and r = r] by simp

lemma set_reg_registers: "set_reg r x v = v\<lparr>registers := (registers v)(r := x)\<rparr>"
  by (simp add: set_reg_def)

lemma osvm_simps [simp]:
  "osvm (set_osvm v s) = v" "osvm (set_kern k s) = osvm s" "osys (set_osvm v s) = osys s"
  "osys (set_kern k s) = (osys s)\<lparr>kern := k\<rparr>" "processTable (set_osvm v s) = processTable s"
  "numLivingProcesses (set_osvm v s) = numLivingProcesses s" "processTable (set_kern k s) = processTable s"
  "numLivingProcesses (set_kern k s) = numLivingProcesses s" "spaceProcess (set_osvm v s) = spaceProcess s"
  "threadID (set_osvm v s) = threadID s" "userRegisters (set_osvm v s) = userRegisters s"
  "userRegisters (set_kern k s) = userRegisters s" "threadID (set_kern k s) = threadID s"
  "spaceProcess (set_kern k s) = spaceProcess s"
  by (simp_all add: osvm_def set_osvm_def set_kern_def)

text \<open>A switch to a thread that has run before.\<close>

lemma return_user_ok:
  assumes "same_memory v (osvm s)"
  shows "\<exists>s'. return_user s = Inr s' \<and> same_memory v (osvm s') \<and> processTable s' = processTable s \<and>
    numLivingProcesses s' = numLivingProcesses s"
proof (cases "threadSpace (osys s) (running s)")
  case None
  then show ?thesis using assms by (simp add: return_user_def)
next
  case (Some c)
  let ?v = "(osvm s)\<lparr>currentSpace := c, registers := userRegisters s (running s)\<rparr>"
  have m: "same_memory v ?v" by (rule same_memory_enter [OF assms])
  then obtain w where w: "RestoreState ?v = Inr w" "same_memory ?v w"
    using SaveState_same_memory [of ?v] by (auto simp: same_memory_def SaveState_def RestoreState_def)
  have "same_memory v (osvm (syscall_return 0 (set_osvm w s)))"
    using same_memory_registers [OF same_memory_trans [OF m w(2)]] by (simp add: syscall_return_def set_reg_registers Let_def)
  moreover have "return_user s = Inr (syscall_return 0 (set_osvm w s))"
    using Some w(1) by (simp add: return_user_def enter_space_def restore_state_def running_def set_osvm_def osvm_def)
  ultimately show ?thesis by (simp add: syscall_return_def Let_def)
qed

lemma switch_user_ok:
  assumes "SaveState (osvm s) = Inr w" "same_memory w w" "threadSpace (osys s) (running s) \<noteq> None"
    and "\<not> idle k" "conts (kern (osys s)) (currentThread k) \<noteq> Start"
  shows "\<exists>s'. switch_user k s = Inr s' \<and> same_memory w (osvm s') \<and> processTable s' = processTable s \<and>
    numLivingProcesses s' = numLivingProcesses s"
proof -
  let ?s = "set_kern k (set_osvm w (s\<lparr>userRegisters := (userRegisters s)(running s := registers (osvm s))\<rparr>))"
  have "leave_user s = Inr (set_osvm w (s\<lparr>userRegisters := (userRegisters s)(running s := registers (osvm s))\<rparr>))"
    using assms(1,3) by (auto simp: leave_user_def)
  then have "switch_user k s = return_user ?s" using assms(4,5) by (auto simp: switch_user_def Let_def)
  moreover obtain s' where "return_user ?s = Inr s'" "same_memory w (osvm s')" "processTable s' = processTable ?s"
    "numLivingProcesses s' = numLivingProcesses ?s" using return_user_ok [of w ?s] assms(2) by auto
  ultimately show ?thesis by auto
qed

end
