(* ===== verification/Exit_Tables.thy ===== *)
theory Exit_Tables
  imports Processes Thread_Invariant
begin

text \<open>
  The loops of \<open>Exit\<close> over the tables of locks and condition variables (userprog/exception.cc). They delete
  what the entries of the process name, without asking the bit maps: this goes well exactly when every
  entry that names the process is in use, and otherwise something is deleted that is deleted already.
\<close>

section \<open>Locks\<close>

text \<open>\<open>t\<close> is \<open>s\<close>, but perhaps for the table of locks.\<close>

definition same_but_locks :: "sys \<Rightarrow> sys \<Rightarrow> bool" where
  "same_but_locks s t \<longleftrightarrow> (\<exists>tab m f. t = s\<lparr>lockTable := tab, lockMap := m, freedLocks := f\<rparr>)"

lemma same_but_locksD:
  assumes "same_but_locks s t"
  shows "kern t = kern s" "threadSpace t = threadSpace s" "callerSpace t = callerSpace s"
    "lockArraySize t = lockArraySize s" "conditionArraySize t = conditionArraySize s"
    "conditionTable t = conditionTable s" "conditionMap t = conditionMap s" "freedConds t = freedConds s"
  using assms by (auto simp: same_but_locks_def callerSpace_def)

lemma same_but_locks_refl: "same_but_locks s s"
  unfolding same_but_locks_def by (intro exI [of _ "lockTable s"] exI [of _ "lockMap s"] exI [of _ "freedLocks s"]) simp

lemma same_but_locks_upd: "same_but_locks s (s\<lparr>lockTable := a, freedLocks := b, lockMap := c\<rparr>)"
  unfolding same_but_locks_def by (intro exI [of _ a] exI [of _ c] exI [of _ b]) simp

lemma exit_lock_frame: "exit_lock i s = Inr t \<Longrightarrow> same_but_locks s t"
  unfolding exit_lock_def
  by (auto simp: set_lock_entry_def delete_lock_def same_but_locks_refl same_but_locks_upd split: if_splits)

lemma same_but_locks_trans:
  "same_but_locks s t \<Longrightarrow> same_but_locks t u \<Longrightarrow> same_but_locks s u"
  unfolding same_but_locks_def by (elim exE) (simp, blast)

lemma exit_lock_own:
  assumes "sys_ok s" "i \<in> in_use (lockMap s)" "lockSpace (lockTable s ! nat i) = callerSpace s"
  shows "\<exists>t. exit_lock i s = Inr t \<and> sys_ok t \<and> in_use (lockMap t) = in_use (lockMap s) - {i} \<and>
    (\<forall>j. 0 \<le> j \<and> j \<noteq> i \<longrightarrow> lockTable t ! nat j = lockTable s ! nat j)"
proof -
  let ?f = "\<lambda>e. e\<lparr>lockSpace := None, lockToBeDeleted := False\<rparr>"
  obtain l where l: "lockp (lockTable s ! nat i) = Some l" using handles_live [OF lock_table [OF assms(1)] assms(2)] by blast
  have ok: "sys_ok (on_lock i ?f s)" "set_lock_entry i ?f s = Inr (on_lock i ?f s)"
    using on_lock_ok [OF assms(1,2), of ?f] by auto
  have "lockp (lockTable (on_lock i ?f s) ! nat i) = Some l" using on_lock_entry [OF assms(1,2), of ?f] l by simp
  then obtain t where t: "delete_lock i (on_lock i ?f s) = Inr t" "sys_ok t" "lockTable t = lockTable (on_lock i ?f s)"
    "in_use (lockMap t) = in_use (lockMap s) - {i}"
    using delete_lock_entry_ok [OF ok(1), of i l] assms(2) by auto
  have "0 \<le> i" using handles_range [OF lock_table [OF assms(1)] assms(2)] by blast
  then have "lockTable t ! nat j = lockTable s ! nat j" if "0 \<le> j" "j \<noteq> i" for j
    using that t(3) by (simp add: on_lock_def nth_list_update eq_nat_nat_iff)
  moreover have "exit_lock i s = Inr t"
    using lock_slot(1) [OF assms(1,2) l] assms(3) ok(2) t(1) by (simp add: exit_lock_def)
  ultimately show ?thesis using t by blast
qed

text \<open>Every entry of the caller is in use.\<close>

definition own_locks_live :: "sys \<Rightarrow> bool" where
  "own_locks_live s \<longleftrightarrow> (\<forall>i. 0 \<le> i \<and> i < lockArraySize s \<and> lockSpace (lockTable s ! nat i) = callerSpace s \<longrightarrow>
     i \<in> in_use (lockMap s))"

definition locks_of_others :: "sys \<Rightarrow> sys \<Rightarrow> bool" where
  "locks_of_others s t \<longleftrightarrow>
     in_use (lockMap t) = {i \<in> in_use (lockMap s). lockSpace (lockTable s ! nat i) \<noteq> callerSpace s} \<and>
     (\<forall>i\<in>in_use (lockMap t). lockTable t ! nat i = lockTable s ! nat i)"

text \<open>After the first \<open>n\<close> rounds of the loop.\<close>

definition exited_locks :: "sys \<Rightarrow> int \<Rightarrow> sys \<Rightarrow> bool" where
  "exited_locks s n t \<longleftrightarrow> sys_ok t \<and> same_but_locks s t \<and>
     in_use (lockMap t) = {i \<in> in_use (lockMap s). i < n \<longrightarrow> lockSpace (lockTable s ! nat i) \<noteq> callerSpace s} \<and>
     (\<forall>i. 0 \<le> i \<and> (n \<le> i \<or> lockSpace (lockTable s ! nat i) \<noteq> callerSpace s) \<longrightarrow> lockTable t ! nat i = lockTable s ! nat i)"

lemma exited_locks_get:
  assumes "exited_locks s j t" "0 \<le> j" "j < lockArraySize s"
  shows "array_get (lockTable t) j = Inr (lockTable s ! nat j)" "j < int (length (lockTable t))"
proof -
  have t: "sys_ok t" "same_but_locks s t" "lockTable t ! nat j = lockTable s ! nat j" using assms by (simp_all add: exited_locks_def)
  then show g: "array_get (lockTable t) j = Inr (lockTable s ! nat j)"
    using handles_test [OF lock_table [OF t(1)], of j] assms(2,3) same_but_locksD [OF t(2)] by fastforce
  then show "j < int (length (lockTable t))" by (simp add: array_get_Inr)
qed

lemma exit_locks_upto:
  assumes "sys_ok s" "0 \<le> n" "n \<le> lockArraySize s"
    and own: "\<And>i. 0 \<le> i \<Longrightarrow> i < n \<Longrightarrow> lockSpace (lockTable s ! nat i) = callerSpace s \<Longrightarrow> i \<in> in_use (lockMap s)"
  shows "\<exists>t. for_loop 0 n exit_lock s = Inr t \<and> exited_locks s n t"
proof (rule for_loop_rule [OF _ assms(2)])
  show "exited_locks s 0 s"
    using assms(1) same_but_locks_refl by (auto simp: exited_locks_def dest: handles_range [OF lock_table [OF assms(1)]])
next
  fix j t assume j: "0 \<le> j" "j < n" and t: "exited_locks s j t"
  let ?own = "\<lambda>i. lockSpace (lockTable s ! nat i) = callerSpace s"
  have T: "sys_ok t" "same_but_locks s t" "in_use (lockMap t) = {i \<in> in_use (lockMap s). i < j \<longrightarrow> \<not> ?own i}"
    "\<And>i. 0 \<le> i \<Longrightarrow> j \<le> i \<or> \<not> ?own i \<Longrightarrow> lockTable t ! nat i = lockTable s ! nat i"
    using t by (simp_all add: exited_locks_def)
  note fr = same_but_locksD [OF T(2)] and e = T(4) [OF j(1)]
  have g: "array_get (lockTable t) j = Inr (lockTable s ! nat j)" using exited_locks_get [OF t j(1)] j(2) assms(3) by simp
  show "\<exists>u. exit_lock j t = Inr u \<and> exited_locks s (j + 1) u"
  proof (cases "?own j")
    case False
    then have "exit_lock j t = Inr t" using g fr by (simp add: exit_lock_def)
    moreover have "{i \<in> in_use (lockMap s). i < j \<longrightarrow> \<not> ?own i} = {i \<in> in_use (lockMap s). i < j + 1 \<longrightarrow> \<not> ?own i}"
      using False by (auto simp: less_le)
    ultimately show ?thesis using T by (auto simp: exited_locks_def)
  next
    case True
    then have "j \<in> in_use (lockMap t)" using own j T(3) by auto
    then obtain u where u: "exit_lock j t = Inr u" "sys_ok u" "in_use (lockMap u) = in_use (lockMap t) - {j}"
      "\<forall>i. 0 \<le> i \<and> i \<noteq> j \<longrightarrow> lockTable u ! nat i = lockTable t ! nat i"
      using exit_lock_own [OF T(1), of j] True e fr by auto
    have "same_but_locks s u" by (rule same_but_locks_trans [OF T(2) exit_lock_frame [OF u(1)]])
    moreover have "in_use (lockMap u) = {i \<in> in_use (lockMap s). i < j + 1 \<longrightarrow> \<not> ?own i}"
    proof -
      have "{i \<in> in_use (lockMap s). i < j + 1 \<longrightarrow> \<not> ?own i} =
          {i \<in> in_use (lockMap s). i < j \<longrightarrow> \<not> ?own i} - {j}" using True by (auto simp: less_le)
      then show ?thesis by (simp only: u(3) T(3))
    qed
    moreover have "lockTable u ! nat i = lockTable s ! nat i" if "0 \<le> i" "j + 1 \<le> i \<or> \<not> ?own i" for i
      using that u(4) T(4) True by (cases "i = j") auto
    ultimately have "exited_locks s (j + 1) u" using u(2) unfolding exited_locks_def by blast
    with u(1) show ?thesis by blast
  qed
qed

lemma exit_locks_ok:
  assumes "sys_ok s" "own_locks_live s"
  shows "\<exists>t. for_loop 0 (lockArraySize s) exit_lock s = Inr t \<and> sys_ok t \<and> same_but_locks s t \<and> locks_of_others s t"
proof -
  have "0 \<le> lockArraySize s" using lock_table [OF assms(1)] by (auto simp: handles_ok_def)
  then obtain t where t: "for_loop 0 (lockArraySize s) exit_lock s = Inr t" "exited_locks s (lockArraySize s) t"
    using exit_locks_upto [OF assms(1), of "lockArraySize s"] assms(2) by (auto simp: own_locks_live_def)
  have r: "0 \<le> i \<and> i < lockArraySize s" if "i \<in> in_use (lockMap s)" for i
    using handles_range [OF lock_table [OF assms(1)] that] by auto
  have "locks_of_others s t" using t(2) r by (auto simp: locks_of_others_def exited_locks_def)
  with t show ?thesis by (auto simp: exited_locks_def)
qed

text \<open>The loop stops at the first entry of the caller that is not in use: what it deletes there is deleted already, or was never made.\<close>

lemma exit_locks_fail:
  assumes "sys_ok s" "\<not> own_locks_live s"
  shows "\<exists>c. for_loop 0 (lockArraySize s) exit_lock s = Inl c \<and> (c = DanglingPointer \<or> c = Uninitialised)"
proof -
  define dead where "dead n \<longleftrightarrow> int n < lockArraySize s \<and> lockSpace (lockTable s ! n) = callerSpace s \<and> int n \<notin> in_use (lockMap s)" for n
  obtain i where i: "0 \<le> i" "i < lockArraySize s" "lockSpace (lockTable s ! nat i) = callerSpace s" "i \<notin> in_use (lockMap s)"
    using assms(2) by (auto simp: own_locks_live_def)
  then have "dead (nat i)" by (simp add: dead_def)
  then have d: "dead (LEAST n. dead n)" "\<And>n. n < (LEAST n. dead n) \<Longrightarrow> \<not> dead n" by (auto intro: LeastI dest: not_less_Least)
  define j where "j = int (LEAST n. dead n)"
  have j: "0 \<le> j" "j < lockArraySize s" "lockSpace (lockTable s ! nat j) = callerSpace s" "j \<notin> in_use (lockMap s)"
    using d(1) by (simp_all add: dead_def j_def)
  have "i \<in> in_use (lockMap s)" if "0 \<le> i" "i < j" "lockSpace (lockTable s ! nat i) = callerSpace s" for i
    using d(2) [of "nat i"] that j(2) by (auto simp: dead_def j_def)
  then obtain t where t: "for_loop 0 j exit_lock s = Inr t" "exited_locks s j t"
    using exit_locks_upto [OF assms(1) j(1)] j(2) by auto
  have T: "sys_ok t" "same_but_locks s t" "j \<notin> in_use (lockMap t)" using t(2) j(4) by (auto simp: exited_locks_def)
  note fr = same_but_locksD [OF T(2)] and g = exited_locks_get [OF t(2) j(1,2)]
  let ?e = "lockTable s ! nat j"
  have e: "lockTable t ! nat j = ?e" using g(1) by (simp add: array_get_Inr)
  have "p \<in> freedLocks t" if "lockp ?e = Some p" for p
    using handles_dead [OF lock_table [OF T(1)] j(1), of p] j(2) T(3) that e fr by auto
  then have "\<exists>c. exit_lock j t = Inl c \<and> (c = DanglingPointer \<or> c = Uninitialised)"
    using g e j(1,3) fr by (cases "lockp ?e")
      (auto simp: exit_lock_def set_lock_entry_def delete_lock_def lock_at_def deref_def nat_less_iff)
  then show ?thesis
    using for_loop_split [of 0 j "lockArraySize s" exit_lock s] for_loop_step [OF j(2), of exit_lock t] t(1) j by auto
qed

section \<open>Condition variables\<close>

definition same_but_conditions :: "sys \<Rightarrow> sys \<Rightarrow> bool" where
  "same_but_conditions s t \<longleftrightarrow> (\<exists>tab m f. t = s\<lparr>conditionTable := tab, conditionMap := m, freedConds := f\<rparr>)"

lemma same_but_conditionsD:
  assumes "same_but_conditions s t"
  shows "kern t = kern s" "threadSpace t = threadSpace s" "callerSpace t = callerSpace s"
    "lockArraySize t = lockArraySize s" "conditionArraySize t = conditionArraySize s"
    "lockTable t = lockTable s" "lockMap t = lockMap s" "freedLocks t = freedLocks s"
  using assms by (auto simp: same_but_conditions_def callerSpace_def)

lemma same_but_conditions_refl: "same_but_conditions s s"
  unfolding same_but_conditions_def
  by (intro exI [of _ "conditionTable s"] exI [of _ "conditionMap s"] exI [of _ "freedConds s"]) simp

lemma same_but_conditions_upd:
  "same_but_conditions s (s\<lparr>conditionTable := a, freedConds := b, conditionMap := c\<rparr>)"
  unfolding same_but_conditions_def by (intro exI [of _ a] exI [of _ c] exI [of _ b]) simp

lemma exit_condition_frame: "exit_condition i s = Inr t \<Longrightarrow> same_but_conditions s t"
  unfolding exit_condition_def
  by (auto simp: set_condition_entry_def delete_condition_def same_but_conditions_refl same_but_conditions_upd
      split: if_splits)

lemma same_but_conditions_trans:
  "same_but_conditions s t \<Longrightarrow> same_but_conditions t u \<Longrightarrow> same_but_conditions s u"
  unfolding same_but_conditions_def by (elim exE) (simp, blast)

lemma exit_condition_own:
  assumes "sys_ok s" "i \<in> in_use (conditionMap s)" "conditionSpace (conditionTable s ! nat i) = callerSpace s"
  shows "\<exists>t. exit_condition i s = Inr t \<and> sys_ok t \<and> in_use (conditionMap t) = in_use (conditionMap s) - {i} \<and>
    (\<forall>j. 0 \<le> j \<and> j \<noteq> i \<longrightarrow> conditionTable t ! nat j = conditionTable s ! nat j)"
proof -
  let ?f = "\<lambda>e. e\<lparr>conditionSpace := None, condToBeDeleted := False\<rparr>"
  let ?s = "on_condition i ?f s"
  obtain c where c: "condp (conditionTable s ! nat i) = Some c"
    using handles_live [OF condition_table [OF assms(1)] assms(2)] by blast
  have ok: "sys_ok ?s" "set_condition_entry i ?f s = Inr ?s" using on_condition_ok [OF assms(1,2), of ?f] by auto
  have m: "conditionMap ?s = conditionMap s" by (simp add: on_condition_def)
  have "condp (conditionTable ?s ! nat i) = Some c" using on_condition_entry [OF assms(1,2), of ?f] c by simp
  then obtain t where t: "delete_condition i ?s = Inr t" "sys_ok t" "conditionTable t = conditionTable ?s"
    "in_use (conditionMap t) = in_use (conditionMap s) - {i}"
    using delete_condition_entry_ok [OF ok(1), of i c] assms(2) m by auto
  have "0 \<le> i" using handles_range [OF condition_table [OF assms(1)] assms(2)] by blast
  then have "conditionTable t ! nat j = conditionTable s ! nat j" if "0 \<le> j" "j \<noteq> i" for j
    using that t(3) by (simp add: on_condition_def nth_list_update eq_nat_nat_iff)
  moreover have "exit_condition i s = Inr t"
    using condition_slot(1) [OF assms(1,2) c] assms(3) ok(2) t(1) by (simp add: exit_condition_def)
  ultimately show ?thesis using t by blast
qed

definition own_conditions_live :: "sys \<Rightarrow> bool" where
  "own_conditions_live s \<longleftrightarrow> (\<forall>i. 0 \<le> i \<and> i < conditionArraySize s \<and>
     conditionSpace (conditionTable s ! nat i) = callerSpace s \<longrightarrow> i \<in> in_use (conditionMap s))"

definition conditions_of_others :: "sys \<Rightarrow> sys \<Rightarrow> bool" where
  "conditions_of_others s t \<longleftrightarrow>
     in_use (conditionMap t) = {i \<in> in_use (conditionMap s). conditionSpace (conditionTable s ! nat i) \<noteq> callerSpace s} \<and>
     (\<forall>i\<in>in_use (conditionMap t). conditionTable t ! nat i = conditionTable s ! nat i)"

text \<open>After the first \<open>n\<close> rounds of the loop.\<close>

definition exited_conditions :: "sys \<Rightarrow> int \<Rightarrow> sys \<Rightarrow> bool" where
  "exited_conditions s n t \<longleftrightarrow> sys_ok t \<and> same_but_conditions s t \<and>
     in_use (conditionMap t) = {i \<in> in_use (conditionMap s). i < n \<longrightarrow> conditionSpace (conditionTable s ! nat i) \<noteq> callerSpace s} \<and>
     (\<forall>i. 0 \<le> i \<and> (n \<le> i \<or> conditionSpace (conditionTable s ! nat i) \<noteq> callerSpace s) \<longrightarrow> conditionTable t ! nat i = conditionTable s ! nat i)"

lemma exited_conditions_get:
  assumes "exited_conditions s j t" "0 \<le> j" "j < conditionArraySize s"
  shows "array_get (conditionTable t) j = Inr (conditionTable s ! nat j)" "j < int (length (conditionTable t))"
proof -
  have t: "sys_ok t" "same_but_conditions s t" "conditionTable t ! nat j = conditionTable s ! nat j" using assms by (simp_all add: exited_conditions_def)
  then show g: "array_get (conditionTable t) j = Inr (conditionTable s ! nat j)"
    using handles_test [OF condition_table [OF t(1)], of j] assms(2,3) same_but_conditionsD [OF t(2)] by fastforce
  then show "j < int (length (conditionTable t))" by (simp add: array_get_Inr)
qed

lemma exit_conditions_upto:
  assumes "sys_ok s" "0 \<le> n" "n \<le> conditionArraySize s"
    and own: "\<And>i. 0 \<le> i \<Longrightarrow> i < n \<Longrightarrow> conditionSpace (conditionTable s ! nat i) = callerSpace s \<Longrightarrow> i \<in> in_use (conditionMap s)"
  shows "\<exists>t. for_loop 0 n exit_condition s = Inr t \<and> exited_conditions s n t"
proof (rule for_loop_rule [OF _ assms(2)])
  show "exited_conditions s 0 s"
    using assms(1) same_but_conditions_refl by (auto simp: exited_conditions_def dest: handles_range [OF condition_table [OF assms(1)]])
next
  fix j t assume j: "0 \<le> j" "j < n" and t: "exited_conditions s j t"
  let ?own = "\<lambda>i. conditionSpace (conditionTable s ! nat i) = callerSpace s"
  have T: "sys_ok t" "same_but_conditions s t" "in_use (conditionMap t) = {i \<in> in_use (conditionMap s). i < j \<longrightarrow> \<not> ?own i}"
    "\<And>i. 0 \<le> i \<Longrightarrow> j \<le> i \<or> \<not> ?own i \<Longrightarrow> conditionTable t ! nat i = conditionTable s ! nat i"
    using t by (simp_all add: exited_conditions_def)
  note fr = same_but_conditionsD [OF T(2)] and e = T(4) [OF j(1)]
  have g: "array_get (conditionTable t) j = Inr (conditionTable s ! nat j)" using exited_conditions_get [OF t j(1)] j(2) assms(3) by simp
  show "\<exists>u. exit_condition j t = Inr u \<and> exited_conditions s (j + 1) u"
  proof (cases "?own j")
    case False
    then have "exit_condition j t = Inr t" using g fr by (simp add: exit_condition_def)
    moreover have "{i \<in> in_use (conditionMap s). i < j \<longrightarrow> \<not> ?own i} = {i \<in> in_use (conditionMap s). i < j + 1 \<longrightarrow> \<not> ?own i}"
      using False by (auto simp: less_le)
    ultimately show ?thesis using T by (auto simp: exited_conditions_def)
  next
    case True
    then have "j \<in> in_use (conditionMap t)" using own j T(3) by auto
    then obtain u where u: "exit_condition j t = Inr u" "sys_ok u" "in_use (conditionMap u) = in_use (conditionMap t) - {j}"
      "\<forall>i. 0 \<le> i \<and> i \<noteq> j \<longrightarrow> conditionTable u ! nat i = conditionTable t ! nat i"
      using exit_condition_own [OF T(1), of j] True e fr by auto
    have "same_but_conditions s u" by (rule same_but_conditions_trans [OF T(2) exit_condition_frame [OF u(1)]])
    moreover have "in_use (conditionMap u) = {i \<in> in_use (conditionMap s). i < j + 1 \<longrightarrow> \<not> ?own i}"
    proof -
      have "{i \<in> in_use (conditionMap s). i < j + 1 \<longrightarrow> \<not> ?own i} =
          {i \<in> in_use (conditionMap s). i < j \<longrightarrow> \<not> ?own i} - {j}" using True by (auto simp: less_le)
      then show ?thesis by (simp only: u(3) T(3))
    qed
    moreover have "conditionTable u ! nat i = conditionTable s ! nat i" if "0 \<le> i" "j + 1 \<le> i \<or> \<not> ?own i" for i
      using that u(4) T(4) True by (cases "i = j") auto
    ultimately have "exited_conditions s (j + 1) u" using u(2) unfolding exited_conditions_def by blast
    with u(1) show ?thesis by blast
  qed
qed

lemma exit_conditions_ok:
  assumes "sys_ok s" "own_conditions_live s"
  shows "\<exists>t. for_loop 0 (conditionArraySize s) exit_condition s = Inr t \<and> sys_ok t \<and> same_but_conditions s t \<and> conditions_of_others s t"
proof -
  have "0 \<le> conditionArraySize s" using condition_table [OF assms(1)] by (auto simp: handles_ok_def)
  then obtain t where t: "for_loop 0 (conditionArraySize s) exit_condition s = Inr t" "exited_conditions s (conditionArraySize s) t"
    using exit_conditions_upto [OF assms(1), of "conditionArraySize s"] assms(2) by (auto simp: own_conditions_live_def)
  have r: "0 \<le> i \<and> i < conditionArraySize s" if "i \<in> in_use (conditionMap s)" for i
    using handles_range [OF condition_table [OF assms(1)] that] by auto
  have "conditions_of_others s t" using t(2) r by (auto simp: conditions_of_others_def exited_conditions_def)
  with t show ?thesis by (auto simp: exited_conditions_def)
qed

text \<open>The loop stops at the first entry of the caller that is not in use: what it deletes there is deleted already, or was never made.\<close>

lemma exit_conditions_fail:
  assumes "sys_ok s" "\<not> own_conditions_live s"
  shows "\<exists>c. for_loop 0 (conditionArraySize s) exit_condition s = Inl c \<and> (c = DanglingPointer \<or> c = Uninitialised)"
proof -
  define dead where "dead n \<longleftrightarrow> int n < conditionArraySize s \<and> conditionSpace (conditionTable s ! n) = callerSpace s \<and> int n \<notin> in_use (conditionMap s)" for n
  obtain i where i: "0 \<le> i" "i < conditionArraySize s" "conditionSpace (conditionTable s ! nat i) = callerSpace s" "i \<notin> in_use (conditionMap s)"
    using assms(2) by (auto simp: own_conditions_live_def)
  then have "dead (nat i)" by (simp add: dead_def)
  then have d: "dead (LEAST n. dead n)" "\<And>n. n < (LEAST n. dead n) \<Longrightarrow> \<not> dead n" by (auto intro: LeastI dest: not_less_Least)
  define j where "j = int (LEAST n. dead n)"
  have j: "0 \<le> j" "j < conditionArraySize s" "conditionSpace (conditionTable s ! nat j) = callerSpace s" "j \<notin> in_use (conditionMap s)"
    using d(1) by (simp_all add: dead_def j_def)
  have "i \<in> in_use (conditionMap s)" if "0 \<le> i" "i < j" "conditionSpace (conditionTable s ! nat i) = callerSpace s" for i
    using d(2) [of "nat i"] that j(2) by (auto simp: dead_def j_def)
  then obtain t where t: "for_loop 0 j exit_condition s = Inr t" "exited_conditions s j t"
    using exit_conditions_upto [OF assms(1) j(1)] j(2) by auto
  have T: "sys_ok t" "same_but_conditions s t" "j \<notin> in_use (conditionMap t)" using t(2) j(4) by (auto simp: exited_conditions_def)
  note fr = same_but_conditionsD [OF T(2)] and g = exited_conditions_get [OF t(2) j(1,2)]
  let ?e = "conditionTable s ! nat j"
  have e: "conditionTable t ! nat j = ?e" using g(1) by (simp add: array_get_Inr)
  have "p \<in> freedConds t" if "condp ?e = Some p" for p
    using handles_dead [OF condition_table [OF T(1)] j(1), of p] j(2) T(3) that e fr by auto
  then have "\<exists>c. exit_condition j t = Inl c \<and> (c = DanglingPointer \<or> c = Uninitialised)"
    using g e j(1,3) fr by (cases "condp ?e")
      (auto simp: exit_condition_def set_condition_entry_def delete_condition_def condition_at_def deref_def nat_less_iff)
  then show ?thesis
    using for_loop_split [of 0 j "conditionArraySize s" exit_condition s] for_loop_step [OF j(2), of exit_condition t] t(1) j by auto
qed

section \<open>Both loops\<close>

lemma exit_tables_ok:
  assumes "sys_ok s" "own_locks_live s" "own_conditions_live s"
  shows "\<exists>t u. for_loop 0 (lockArraySize s) exit_lock s = Inr t \<and>
    for_loop 0 (conditionArraySize t) exit_condition t = Inr u \<and> kern u = kern s \<and> threadSpace u = threadSpace s \<and>
    locks_of_others s u \<and> conditions_of_others s u"
proof -
  obtain t where t: "for_loop 0 (lockArraySize s) exit_lock s = Inr t" "sys_ok t" "same_but_locks s t" "locks_of_others s t"
    using exit_locks_ok [OF assms(1,2)] by blast
  note T = same_but_locksD [OF t(3)]
  have "own_conditions_live t" using assms(3) T by (simp add: own_conditions_live_def)
  then obtain u where u: "for_loop 0 (conditionArraySize t) exit_condition t = Inr u" "same_but_conditions t u"
    "conditions_of_others t u" using exit_conditions_ok [OF t(2)] by blast
  note U = same_but_conditionsD [OF u(2)]
  have "locks_of_others s u" using t(4) U by (simp add: locks_of_others_def)
  moreover have "conditions_of_others s u" using u(3) T by (simp add: conditions_of_others_def)
  ultimately show ?thesis using t(1) u(1) T U by (intro exI [of _ t] exI [of _ u]) simp
qed

lemma exit_tables_fail:
  assumes "sys_ok s" "\<not> (own_locks_live s \<and> own_conditions_live s)"
  shows "\<exists>c. (c = DanglingPointer \<or> c = Uninitialised) \<and> (for_loop 0 (lockArraySize s) exit_lock s = Inl c \<or>
    (\<exists>t. for_loop 0 (lockArraySize s) exit_lock s = Inr t \<and>
      for_loop 0 (conditionArraySize t) exit_condition t = Inl c))"
proof (cases "own_locks_live s")
  case False
  then show ?thesis using exit_locks_fail [OF assms(1)] by blast
next
  case True
  then obtain t where t: "for_loop 0 (lockArraySize s) exit_lock s = Inr t" "sys_ok t" "same_but_locks s t"
    using exit_locks_ok [OF assms(1)] by blast
  have "\<not> own_conditions_live t" using assms(2) True same_but_locksD [OF t(3)] by (simp add: own_conditions_live_def)
  then show ?thesis using exit_conditions_fail [OF t(2)] t(1) by blast
qed

section \<open>The switch to the next thread\<close>

lemma restore_state_osys: "restore_state s = Inr s' \<Longrightarrow> osys s' = osys s"
  by (auto simp: restore_state_def set_osvm_def)

lemma switch_user_osys:
  assumes "switch_user k s = Inr s'" "idle k \<or> conts (kern (osys s)) (currentThread k) \<noteq> Start"
  shows "osys s' = (osys s)\<lparr>kern := k\<rparr>"
proof (cases "idle k")
  case True
  then show ?thesis using assms by (auto simp: switch_user_def set_kern_def)
next
  case False
  then obtain s1 where s1: "leave_user s = Inr s1" "return_user (set_kern k s1) = Inr s'"
    using assms by (auto simp: switch_user_def Let_def)
  have 1: "osys s1 = osys s" using s1(1) by (auto simp: leave_user_def set_osvm_def split: if_splits)
  have "osys (enter_space x) = osys x" for x by (simp add: enter_space_def set_osvm_def split: option.split)
  then have "osys s' = osys (set_kern k s1)"
    using s1(2) by (auto simp: return_user_def syscall_return_def Let_def set_osvm_def dest!: restore_state_osys split: if_splits)
  then show ?thesis using 1 by (simp add: set_kern_def)
qed

text \<open>The scheduler's part of \<open>Finish\<close> always succeeds.\<close>

lemma reachable_Finish: "reachable k \<Longrightarrow> \<not> idle k \<Longrightarrow> \<exists>k'. Finish k = Inr k'"
  using reachable_inv [of k] Finish_ok [of k] by (auto simp: kernel_inv_def awake_def)

end
