(* ===== verification/Process_Claims.thy ===== *)
theory Process_Claims
  imports Process_Memory Exit_Tables
begin

text \<open>
  What Fork, Exec and Exit do to the threads, frames and locks of a process.
\<close>

section \<open>Exit\<close>

text \<open>The rest of the call, after frames \<open>F\<close> of the space of the caller have been freed.\<close>

lemma exit_switch_ok:
  assumes inv: "vm_ok v" and f: "freed sp F v (osvm s)" and sp: "threadSpace (osys s) (running s) = Some sp"
    and k: "Finish (kern (osys s)) = Inr k" "\<not> idle k" "conts (kern (osys s)) (currentThread k) \<noteq> Start"
  shows "\<exists>s'. finish_thread s = Inr s' \<and> vm_ok (osvm s') \<and> processTable s' = processTable s \<and>
    numLivingProcesses s' = numLivingProcesses s \<and> osys s' = (osys s)\<lparr>kern := k\<rparr> \<and>
    bits (mainMemoryBitmap (osvm s')) = bits (mainMemoryBitmap v) - F \<and> swapMap (osvm s') = swapMap v \<and>
    (\<forall>x y p. mapped {} (IPT (osvm s')) x y p \<longleftrightarrow> mapped {} (IPT v) x y p \<and> p \<notin> F) \<and>
    (\<forall>x y. (\<forall>p\<in>F. \<not> mapped {} (IPT v) x y p) \<longrightarrow> page_byte {} (osvm s') x y = page_byte {} v x y) \<and>
    (\<forall>x y k c. (\<exists>p\<in>F. mapped {} (IPT v) x y p) \<longrightarrow>
       page_byte {} (osvm s') x y k c = (backing (spaces v) (swapFile v) x y k = Some c))"
proof -
  obtain w where w: "SaveState (osvm s) = Inr w" "vm_ok w" "\<forall>e\<in>set (the (tlb w)). \<not> valid e"
    "bits (mainMemoryBitmap w) = bits (mainMemoryBitmap v) - F" "swapMap w = swapMap v"
    "\<And>x y p. mapped {} (IPT w) x y p \<longleftrightarrow> mapped {} (IPT v) x y p \<and> p \<notin> F"
    "\<And>x y. \<forall>p\<in>F. \<not> mapped {} (IPT v) x y p \<Longrightarrow> page_byte {} w x y = page_byte {} v x y"
    "\<And>x y k c. \<exists>p\<in>F. mapped {} (IPT v) x y p \<Longrightarrow>
       page_byte {} w x y k c = (backing (spaces v) (swapFile v) x y k = Some c)"
    using freed_SaveState [OF inv f] by blast
  have "same_memory w w" using w(2,3) by (simp add: same_memory_def)
  then obtain s' where s': "switch_user k s = Inr s'" "same_memory w (osvm s')" "processTable s' = processTable s"
    "numLivingProcesses s' = numLivingProcesses s"
    using switch_user_ok [OF w(1) _ _ k(2,3)] sp by auto
  note m = s'(2) [unfolded same_memory_def]
  show ?thesis
  proof (intro exI conjI)
    show "finish_thread s = Inr s'" using s'(1) k(1) by (simp add: finish_thread_def)
    show "osys s' = (osys s)\<lparr>kern := k\<rparr>" using switch_user_osys [OF s'(1)] k(3) by blast
  qed (use m s' w in simp_all)
qed

lemma my_space_Inr: "my_space s = Inr sp \<longleftrightarrow> threadSpace (osys s) (running s) = Some sp"
  by (simp add: my_space_def split: option.split)

text \<open>Thread 0 runs in address space 7, thread 1 is ready and waits in \<open>Yield\<close>.\<close>

definition pair_kernel :: kernel where
  "pair_kernel = (boot (\<lambda>_. 0))\<lparr>readyList := [1], status := (\<lambda>t. if t = 0 then RUNNING else READY)\<rparr>"

definition one_entry :: "int \<Rightarrow> int \<Rightarrow> ProcessEntry" where
  "one_entry n st = \<lparr>numThreadsAlive = n, processID = 0, threadStacks = replicate 100 st, nextThreadID = n\<rparr>"

definition sample_os :: "io \<Rightarrow> vm \<Rightarrow> int \<Rightarrow> int \<Rightarrow> os" where
  "sample_os x v n st = set_osvm v \<lparr>osio = x, osys = boot_sys pair_kernel [0 \<mapsto> 7],
     processTable = [one_entry n st], nextProcessID = 2, numLivingProcesses = 2, spaceProcess = (\<lambda>_. 0),
     threadID = (\<lambda>_. 0), userRegisters = (\<lambda>_ _. 0), startAt = (\<lambda>_. None), mailboxNum = (\<lambda>_. 0), nextMailboxID = 2\<rparr>"

lemma sample_os_simps [simp]:
  "osvm (sample_os x v n st) = v" "osys (sample_os x v n st) = boot_sys pair_kernel [0 \<mapsto> 7]"
  "running (sample_os x v n st) = 0" "my_space (sample_os x v n st) = Inr 7"
  "my_entry (sample_os x v n st) = Inr (one_entry n st)" "numLivingProcesses (sample_os x v n st) = 2"
  "threadID (sample_os x v n st) = (\<lambda>_. 0)" "lockArraySize (osys (sample_os x v n st)) = 0"
  "conditionArraySize (osys (sample_os x v n st)) = 0" "kern (osys (sample_os x v n st)) = pair_kernel"
  by (simp_all add: sample_os_def my_entry_def my_space_def running_def boot_sys_def pair_kernel_def boot_def
      set_osvm_def osvm_def)

lemma pair_finish: "\<exists>k. Finish pair_kernel = Inr k \<and> \<not> idle k \<and> conts pair_kernel (currentThread k) \<noteq> Start"
  by (simp add: Finish_def Sleep_def mark_blocked_def pair_kernel_def boot_def dispatch.simps FindNextToRun_def
      destroy_carcass_def Let_def)

text \<open>Every entry of the two tables that names the address space of the caller is in use.\<close>

definition own_tables_live :: "sys \<Rightarrow> bool" where
  "own_tables_live y \<longleftrightarrow> own_locks_live y \<and> own_conditions_live y"

text \<open>
  C35: \<open>Exit\<close> of the last thread of a process, when another process lives and the CPU goes to a thread
  that has run before (one that waits in a call of the kernel, not the first run of a thread). If every
  entry of the tables of locks and of condition variables that names the process is in use, the call goes
  through, \<open>Finish\<close> included: the pager's invariant survives (although the TLB still names frames that
  were just freed), no frame holds a page of the process, the bit map has lost exactly the frames that were
  of this address space, every byte of every other process is what it was, the swap pages of the process
  are not given back, the slots of exactly its own locks and condition variables are free and those of
  the other processes are as they were. If some entry that names the process is not in use, which is what
  \<open>DestroyLock\<close> and \<open>DestroyCondition\<close> leave behind, \<open>Exit\<close> ends in a delete of what is deleted already (or, for
  an entry that was never filled and whose garbage names the process, of what was never made).
\<close>

theorem Exit_frees_the_frames:
  assumes "vm_ok (osvm s)" "sys_reachable (osys s)" "reachable (kern (osys s))" "\<not> idle (kern (osys s))"
    and "my_space s = Inr sp" "my_entry s = Inr e" "1 < numLivingProcesses s" "numThreadsAlive e = 1"
    and "0 \<le> threadID s (running s)" "threadID s (running s) < int (length (threadStacks e))"
    and "\<And>k. Finish (kern (osys s)) = Inr k \<Longrightarrow> \<not> idle k \<and> conts (kern (osys s)) (currentThread k) \<noteq> Start"
  shows "if own_tables_live (osys s)
    then \<exists>s'. Exit_Syscall s = Inr s' \<and> vm_ok (osvm s') \<and> numLivingProcesses s' = numLivingProcesses s - 1 \<and>
      (\<forall>v p. \<not> mapped {} (IPT (osvm s')) sp v p) \<and>
      bits (mainMemoryBitmap (osvm s')) = bits (mainMemoryBitmap (osvm s)) -
        {p. 0 \<le> p \<and> p < NumPhysPages \<and> space (IPT (osvm s) ! nat p) = Some sp} \<and>
      (\<forall>x v k b. x \<noteq> sp \<longrightarrow> page_byte {} (osvm s') x v k b = page_byte {} (osvm s) x v k b) \<and>
      swapMap (osvm s') = swapMap (osvm s) \<and>
      locks_of_others (osys s) (osys s') \<and> conditions_of_others (osys s) (osys s')
    else Exit_Syscall s = Inl DanglingPointer \<or> Exit_Syscall s = Inl Uninitialised"
proof (cases "own_tables_live (osys s)")
  case False
  have "\<not> (own_locks_live (osys s) \<and> own_conditions_live (osys s))" using False by (simp add: own_tables_live_def)
  from exit_tables_fail [OF sys_reachable_ok [OF assms(2)] this]
  have "Exit_Syscall s = Inl DanglingPointer \<or> Exit_Syscall s = Inl Uninitialised"
    using assms(5-10) by (auto simp: Exit_Syscall_def exit_process_def)
  with False show ?thesis by simp
next
  case True
  let ?F = "{p. 0 \<le> p \<and> p < NumPhysPages \<and> space (IPT (osvm s) ! nat p) = Some sp}"
  obtain y1 y2 where y: "for_loop 0 (lockArraySize (osys s)) exit_lock (osys s) = Inr y1"
    "for_loop 0 (conditionArraySize y1) exit_condition y1 = Inr y2" and
    ker: "kern y2 = kern (osys s)" "threadSpace y2 = threadSpace (osys s)" and
    oth: "locks_of_others (osys s) y2" "conditions_of_others (osys s) y2"
    using exit_tables_ok [OF sys_reachable_ok [OF assms(2)]] True by (auto simp: own_tables_live_def)
  obtain k where k: "Finish (kern (osys s)) = Inr k" "\<not> idle k" "conts (kern (osys s)) (currentThread k) \<noteq> Start"
    using reachable_Finish [OF assms(3,4)] assms(11) by blast
  obtain w where w: "for_loop 0 NumPhysPages (exit_frame sp) (osvm s) = Inr w" "freed sp ?F (osvm s) w"
    using exit_frames_ok [OF _ freed_none [OF assms(1)], of sp] vm_invD(3) [OF assms(1), unfolded ipt_inv_def, THEN conjunct1]
    by blast
  let ?s = "set_osvm w (s\<lparr>osys := y2, numLivingProcesses := numLivingProcesses s - 1\<rparr>)"
  have r: "running ?s = running s" using ker by (simp add: running_def set_osvm_def)
  have o: "osvm ?s = w" "osys ?s = y2" "numLivingProcesses ?s = numLivingProcesses s - 1" by simp_all
  have "threadSpace (osys ?s) (running ?s) = Some sp" using assms(5) ker r o by (simp add: my_space_Inr)
  then obtain s' where s': "finish_thread ?s = Inr s'" "vm_ok (osvm s')" "numLivingProcesses s' = numLivingProcesses s - 1"
    "bits (mainMemoryBitmap (osvm s')) = bits (mainMemoryBitmap (osvm s)) - ?F" "swapMap (osvm s') = swapMap (osvm s)"
    "\<And>x y p. mapped {} (IPT (osvm s')) x y p \<longleftrightarrow> mapped {} (IPT (osvm s)) x y p \<and> p \<notin> ?F"
    "\<And>x y. \<forall>p\<in>?F. \<not> mapped {} (IPT (osvm s)) x y p \<Longrightarrow> page_byte {} (osvm s') x y = page_byte {} (osvm s) x y"
    "osys s' = y2\<lparr>kern := k\<rparr>"
    using exit_switch_ok [of "osvm s" sp ?F ?s k] assms(1) k w(2) ker o by auto
  have "Exit_Syscall s = Inr s'"
    using assms(5-10) y w(1) s'(1) by (simp add: Exit_Syscall_def exit_process_def)
  moreover have "\<not> mapped {} (IPT (osvm s')) sp v p" for v p
    using s'(6) [of sp v p] by (auto simp: mapped_def dest: frames_range)
  moreover have "page_byte {} (osvm s') x v k b = page_byte {} (osvm s) x v k b" if "x \<noteq> sp" for x v k b
    using s'(7) [of x v] that by (auto simp: mapped_def)
  moreover have "locks_of_others (osys s) (osys s') \<and> conditions_of_others (osys s) (osys s')"
    using oth s'(8) by (simp add: locks_of_others_def conditions_of_others_def)
  ultimately show ?thesis using True s'(2-5) by auto
qed

text \<open>
  Thread 0 has created thread 1 and both have yielded once. Thread 0 runs in address space 7 and has
  created a lock and a condition variable.
\<close>

definition yielded_kernel :: kernel where
  "yielded_kernel = (boot (\<lambda>_. 0))\<lparr>readyList := [1],
     status := (\<lambda>_. JUST_CREATED)(0 := RUNNING, 1 := READY), conts := (\<lambda>_. Returned)\<rparr>"

lemma yielded_reachable: "reachable yielded_kernel"
proof (rule run_ops_reachable)
  show "reachable (boot (\<lambda>_. 0))" by (rule reachable.init) simp
  show "run_ops [Op_Fork 1, Op_Yield, Op_Yield] (boot (\<lambda>_. 0)) = Some yielded_kernel"
    by (auto simp: run_defs yielded_kernel_def fun_eq_iff)
qed

lemma yielded_finish: "Finish yielded_kernel = Inr k \<Longrightarrow> \<not> idle k \<and> conts yielded_kernel (currentThread k) \<noteq> Start"
  by (auto simp: Finish_def Sleep_def mark_blocked_def yielded_kernel_def boot_def dispatch.simps FindNextToRun_def
      destroy_carcass_def Let_def)

definition blank_condition :: ConditionEntry where
  "blank_condition = \<lparr>condp = None, conditionSpace = None, condToBeDeleted = False\<rparr>"

lemma own_objects:
  "\<exists>u i j. sys_reachable u \<and> kern u = yielded_kernel \<and> threadSpace u = [0 \<mapsto> 7] \<and> i \<in> in_use (lockMap u) \<and>
    lockSpace (lockTable u ! nat i) = Some 7 \<and> j \<in> in_use (conditionMap u) \<and>
    conditionSpace (conditionTable u ! nat j) = Some 7 \<and> own_tables_live u"
proof -
  let ?boot = "boot_sys yielded_kernel [0 \<mapsto> 7]"
  obtain b where b: "new_BitMap (\<lambda>_. 0) MAX_LOCKS_CONDITIONS = Inr b" "wf_BitMap b" "numBits b = 500" "bits b = {}"
    using new_BitMap_ok [of MAX_LOCKS_CONDITIONS "\<lambda>_. 0"] by (auto simp: MAX_LOCKS_CONDITIONS_def)
  obtain i b' where f: "Find b = Inr (i, b')" "0 \<le> i" "i < 500" "bits b' = {i}"
    using Find_free [OF b(2)] b(3,4) by auto
  let ?x = "\<lparr>lockp = Some 0, lockSpace = Some 7, lockToBeDeleted = False, acquireCount = 0\<rparr>"
  let ?y = "\<lparr>condp = Some 0, conditionSpace = Some 7, condToBeDeleted = False\<rparr>"
  let ?s = "?boot\<lparr>lockMap := Some b', lockArraySize := 500, lockTable := (map (\<lambda>_. blank_lock) [0..<500])[nat i := ?x],
    kern := set_lock 0 (new_Lock None) yielded_kernel, nextLock := 1\<rparr>"
  let ?t = "?s\<lparr>conditionMap := Some b', conditionArraySize := 500,
    conditionTable := (map (\<lambda>_. blank_condition) [0..<500])[nat i := ?y],
    kern := set_cond 0 (new_Condition None) (kern ?s), nextCond := 1\<rparr>"
  let ?u = "?t\<lparr>kern := yielded_kernel\<rparr>"
  have c: "CreateLock_Syscall (\<lambda>_. 0) (\<lambda>_. blank_lock) None ?boot = Inr (Some (i, ?s))"
    using b f by (simp add: CreateLock_Syscall_def init_locks_def boot_sys_def the_map_def Let_def set_lock_entry_def
        callerSpace_def boot_def MAX_LOCKS_CONDITIONS_def yielded_kernel_def)
  have d: "CreateCondition_Syscall (\<lambda>_. 0) (\<lambda>_. blank_condition) None ?s = Inr (Some (i, ?t))"
    using b f by (simp add: CreateCondition_Syscall_def init_conditions_def boot_sys_def the_map_def Let_def
        set_condition_entry_def callerSpace_def boot_def MAX_LOCKS_CONDITIONS_def yielded_kernel_def)
  have "sys_reachable ?s"
    by (rule sys_reachable.call [OF sys_reachable.start [of yielded_kernel "[0 \<mapsto> 7]"],
          of "Call_CreateLock (\<lambda>_. 0) (\<lambda>_. blank_lock) None"])
      (use c in \<open>simp_all add: drop_index_def blank_lock_def\<close>)
  then have "sys_reachable ?t"
    by (rule sys_reachable.call [of _ "Call_CreateCondition (\<lambda>_. 0) (\<lambda>_. blank_condition) None"])
      (use d in \<open>simp_all add: drop_index_def blank_condition_def\<close>)
  then have "sys_reachable ?u"
    by (rule sys_reachable.kernel [of _ yielded_kernel]) (simp add: resume_def boot_sys_def Let_def)
  moreover have "j = i" if "0 \<le> j" "j < 500" "lockSpace ((map (\<lambda>_. blank_lock) [0..<500])[nat i := ?x] ! nat j) = Some 7" for j
    using that f(2,3) by (cases "j = i") (auto simp: nth_list_update eq_nat_nat_iff blank_lock_def)
  moreover have "j = i"
    if "0 \<le> j" "j < 500" "conditionSpace ((map (\<lambda>_. blank_condition) [0..<500])[nat i := ?y] ! nat j) = Some 7" for j
    using that f(2,3) by (cases "j = i") (auto simp: nth_list_update eq_nat_nat_iff blank_condition_def)
  ultimately show ?thesis
    using f by (intro exI [of _ ?u] exI [of _ i])
      (auto simp: own_tables_live_def own_locks_live_def own_conditions_live_def callerSpace_def boot_sys_def
        yielded_kernel_def boot_def)
qed

theorem Exit_frees_the_frames_witness:
  "\<forall>x. \<exists>u i j s'. i \<in> in_use (lockMap u) \<and> lockSpace (lockTable u ! nat i) = Some 7 \<and>
    j \<in> in_use (conditionMap u) \<and> conditionSpace (conditionTable u ! nat j) = Some 7 \<and>
    Exit_Syscall ((sample_os x written_vm 1 0)\<lparr>osys := u\<rparr>) = Inr s' \<and> vm_ok (osvm s') \<and> numLivingProcesses s' = 1 \<and>
    (\<forall>v p. \<not> mapped {} (IPT (osvm s')) 7 v p) \<and> i \<notin> in_use (lockMap (osys s')) \<and> j \<notin> in_use (conditionMap (osys s'))"
proof (rule allI, goal_cases)
  case (1 x)
  obtain u i j where u: "sys_reachable u" "kern u = yielded_kernel" "threadSpace u = [0 \<mapsto> 7]" "i \<in> in_use (lockMap u)"
    "lockSpace (lockTable u ! nat i) = Some 7" "j \<in> in_use (conditionMap u)"
    "conditionSpace (conditionTable u ! nat j) = Some 7" "own_tables_live u" using own_objects by blast
  let ?s = "(sample_os x written_vm 1 0)\<lparr>osys := u\<rparr>"
  have r: "currentThread yielded_kernel = 0" "\<not> idle yielded_kernel" by (simp_all add: yielded_kernel_def boot_def)
  have o: "osvm ?s = written_vm" "osys ?s = u" "running ?s = 0" "threadID ?s = (\<lambda>_. 0)" "numLivingProcesses ?s = 2"
    using u(2) r by (simp_all add: osvm_def running_def sample_os_def set_osvm_def)
  have m: "my_space ?s = Inr 7" using u(3) o by (simp add: my_space_Inr)
  then have e: "my_entry ?s = Inr (one_entry 1 0)" by (simp add: my_entry_def sample_os_def set_osvm_def)
  have "callerSpace u = Some 7" using u(2,3) r by (simp add: callerSpace_def)
  then obtain s' where "Exit_Syscall ?s = Inr s'" "vm_ok (osvm s')" "numLivingProcesses s' = 1"
    "\<forall>v p. \<not> mapped {} (IPT (osvm s')) 7 v p" "i \<notin> in_use (lockMap (osys s'))" "j \<notin> in_use (conditionMap (osys s'))"
    using Exit_frees_the_frames [OF _ _ _ _ m e, unfolded o u(2)] written_vm_ok u yielded_reachable r(2) yielded_finish
    by (auto simp: one_entry_def locks_of_others_def conditions_of_others_def)
  then show ?case
    using u by (intro exI [of _ u] exI [of _ i] exI [of _ j] exI [of _ s']) simp
qed

text \<open>
  C36: \<open>Exit\<close> of a thread whose process goes on. The loop frees the pages \<open>l\<close>, \<open>l - 1\<close>, ..., \<open>l - 7\<close> for
  the number \<open>l\<close> that the start of the thread recorded, which is the page AFTER its stack: page \<open>l\<close> is the
  lowest page of the next thread's stack. If that page is in a frame, the frame is taken away, and what the
  other thread wrote there is lost: a load then sees the executable or the swap file, or nothing at all for
  a page that was never loaded from a file. The lowest page of the thread's own stack keeps its frame.
\<close>

theorem Exit_frees_the_next_stack:
  assumes "vm_ok (osvm s)" "my_space s = Inr sp" "my_entry s = Inr e" "1 < numThreadsAlive e"
    and "0 \<le> threadID s (running s)" "threadID s (running s) < int (length (threadStacks e))"
    and "threadStacks e ! nat (threadID s (running s)) = l"
    and "\<And>i. 0 \<le> i \<Longrightarrow> i < 8 \<Longrightarrow> \<exists>pte. pt_get (osvm s) (Some sp) (l - i) = Inr pte \<and>
      0 \<le> physicalPage pte \<and> physicalPage pte < NumPhysPages"
    and "mapped {} (IPT (osvm s)) sp l q" "pt_get (osvm s) (Some sp) l = Inr pte" "physicalPage pte = q"
    and "Finish (kern (osys s)) = Inr k" "\<not> idle k" "conts (kern (osys s)) (currentThread k) \<noteq> Start"
  shows "\<exists>s'. Exit_Syscall s = Inr s' \<and> vm_ok (osvm s') \<and> (\<forall>p. \<not> mapped {} (IPT (osvm s')) sp l p) \<and>
    (\<forall>o' c. page_byte {} (osvm s') sp l o' c \<longleftrightarrow> backing (spaces (osvm s)) (swapFile (osvm s)) sp l o' = Some c) \<and>
    (\<forall>r. mapped {} (IPT (osvm s)) sp (l - 8) r \<and>
       (\<forall>i pte. 0 \<le> i \<and> i < 8 \<and> pt_get (osvm s) (Some sp) (l - i) = Inr pte \<longrightarrow> physicalPage pte \<noteq> r) \<longrightarrow>
       mapped {} (IPT (osvm s')) sp (l - 8) r)"
proof -
  let ?G = "\<lambda>q. valid (IPT (osvm s) ! nat q) \<and> \<not> use (IPT (osvm s) ! nat q) \<and> space (IPT (osvm s) ! nat q) = Some sp"
  obtain t where t: "array_get (processTable s) (spaceProcess s sp) = Inr e"
    "upd_entry (spaceProcess s sp) (\<lambda>e. e\<lparr>numThreadsAlive := numThreadsAlive e - 1\<rparr>) s = Inr (s\<lparr>processTable := t\<rparr>)"
    "array_get t (spaceProcess s sp) = Inr (e\<lparr>numThreadsAlive := numThreadsAlive e - 1\<rparr>)"
  proof (rule that)
    let ?i = "spaceProcess s sp" and ?e = "e\<lparr>numThreadsAlive := numThreadsAlive e - 1\<rparr>"
    have i: "0 \<le> ?i" "?i < int (length (processTable s))" "e = processTable s ! nat ?i"
      using assms(2,3) by (simp_all add: my_entry_def array_get_Inr)
    then show "array_get (processTable s) ?i = Inr e" by simp
    show "upd_entry ?i (\<lambda>e. e\<lparr>numThreadsAlive := numThreadsAlive e - 1\<rparr>) s =
        Inr (s\<lparr>processTable := (processTable s)[nat ?i := ?e]\<rparr>)" using i by (simp add: upd_entry_def)
    show "array_get ((processTable s)[nat ?i := ?e]) ?i = Inr ?e" using i by (simp add: nat_less_iff)
  qed
  let ?s = "s\<lparr>processTable := t\<rparr>"
  have o: "osvm ?s = osvm s" "osys ?s = osys s" "running ?s = running s" "threadID ?s = threadID s" "my_space ?s = Inr sp"
    using assms(2) by (simp_all add: osvm_def running_def my_space_def)
  then have my: "my_entry ?s = Inr (e\<lparr>numThreadsAlive := numThreadsAlive e - 1\<rparr>)" using t(3) by (simp add: my_entry_def)
  obtain w F where w: "for_loop 0 8 (exit_stack_page sp l) (osvm s) = Inr w" "freed sp F (osvm s) w"
    "F = {q. \<exists>i pte. 0 \<le> i \<and> i < 8 \<and> pt_get (osvm s) (Some sp) (l - i) = Inr pte \<and> physicalPage pte = q \<and> ?G q}"
    using exit_stack_ok [OF _ freed_none [OF assms(1)] assms(8)] vm_invD(3) [OF assms(1), unfolded ipt_inv_def, THEN conjunct1]
    by blast
  have "?G q" using assms(9) vm_invD(9) [OF assms(1)] by (auto simp: mapped_def frames_def unused_def)
  then have "q \<in> F" unfolding w(3) using assms(10,11) by (intro CollectI exI [of _ 0] exI [of _ pte]) simp
  let ?u = "set_osvm w ?s"
  have u: "osvm ?u = w" "osys ?u = osys s" "running ?u = running s" by (simp_all add: running_def)
  have "threadSpace (osys ?u) (running ?u) = Some sp" using assms(2) u by (simp add: my_space_Inr)
  then obtain s' where s': "finish_thread ?u = Inr s'" "vm_ok (osvm s')"
    "\<And>x y p. mapped {} (IPT (osvm s')) x y p \<longleftrightarrow> mapped {} (IPT (osvm s)) x y p \<and> p \<notin> F"
    "\<And>x y k c. \<exists>p\<in>F. mapped {} (IPT (osvm s)) x y p \<Longrightarrow>
       page_byte {} (osvm s') x y k c = (backing (spaces (osvm s)) (swapFile (osvm s)) x y k = Some c)"
    using exit_switch_ok [of "osvm s" sp F ?u k] assms(1,12-14) w(2) u by auto
  have "quot UserStackSize PageSize = 8" by (simp add: quot_def UserStackSize_def PageSize_def)
  then have "exit_thread s = Inr s'"
    using assms(2,5-7) t(2) o my w(1) s'(1) by (simp add: exit_thread_def)
  then have "Exit_Syscall s = Inr s'" using assms(3,4) by (simp add: Exit_Syscall_def)
  moreover have "\<not> mapped {} (IPT (osvm s')) sp l p" for p
  proof
    assume "mapped {} (IPT (osvm s')) sp l p"
    then have "mapped {} (IPT (osvm s)) sp l p" "p \<notin> F" using s'(3) by auto
    moreover have "p = q" using vm_invD(3) [OF assms(1)] calculation(1) assms(9) by (auto simp: ipt_inv_def)
    ultimately show False using \<open>q \<in> F\<close> by blast
  qed
  moreover have "page_byte {} (osvm s') sp l o' c \<longleftrightarrow> backing (spaces (osvm s)) (swapFile (osvm s)) sp l o' = Some c" for o' c
    using s'(4) \<open>q \<in> F\<close> assms(9) by blast
  moreover have "mapped {} (IPT (osvm s')) sp (l - 8) r" if "mapped {} (IPT (osvm s)) sp (l - 8) r"
    "\<forall>i pte. 0 \<le> i \<and> i < 8 \<and> pt_get (osvm s) (Some sp) (l - i) = Inr pte \<longrightarrow> physicalPage pte \<noteq> r" for r
    using s'(3) that w(3) by auto
  ultimately show ?thesis using s'(2) by (intro exI [of _ s']) auto
qed

text \<open>
  A process without code whose threads 0 and 1 have the stacks 0..7 and 8..15: thread 1 has written to its
  lowest page, which is in frame 0; the entries of the other pages hold the number 0 too.
\<close>

definition stack_space :: AddrSpace where
  "stack_space = \<lparr>pages = map (\<lambda>i. sample_page (int i) UNINIT) [0..<16], executable = [], numExecutablePages = 0\<rparr>"

definition stack_frame :: IPTEntry where
  "stack_frame = no_frame\<lparr>valid := True, dirty := True, virtualPage := 8, space := Some 7\<rparr>"

definition stack_vm :: vm where
  "stack_vm = boot_vm\<lparr>IPT := (replicate (nat NumPhysPages) no_frame)[0 := stack_frame], spaces := [7 \<mapsto> stack_space],
     mainMemoryBitmap := frame_map 1, evictionList := [0], mainMemory := (\<lambda>_. 5)\<rparr>"

lemma stack_vm_fields [simp]:
  "spaces stack_vm = [7 \<mapsto> stack_space]" "tlb stack_vm = Some (replicate TLBSize no_entry)"
  "mainMemoryBitmap stack_vm = frame_map 1" "evictionList stack_vm = [0]" "currentSpace stack_vm = 7"
  "swapMap stack_vm = frame_map 0" "swapFile stack_vm = []" "evictionPolicy stack_vm = FIFO" "currentTLB stack_vm = 0"
  by (simp_all add: stack_vm_def)

lemma stack_ipt:
  "0 \<le> p \<Longrightarrow> p < NumPhysPages \<Longrightarrow> IPT stack_vm ! nat p = (if p = 0 then stack_frame else no_frame)"
  by (simp add: stack_vm_def nth_update_cases nat_less_eq_zless NumPhysPages_def)

lemma stack_frames: "frames (IPT stack_vm) = {0}"
proof -
  have "valid (IPT stack_vm ! nat p) \<longleftrightarrow> p = 0" if "0 \<le> p" "p < NumPhysPages" for p
    using stack_ipt [OF that] by (simp add: stack_frame_def)
  moreover have "(0::int) < NumPhysPages" by (simp add: NumPhysPages_def)
  ultimately show ?thesis unfolding frames_def by auto
qed

lemma stack_frame_0: "IPT stack_vm ! 0 = stack_frame"
  using stack_ipt [of 0] by (simp add: NumPhysPages_def)

lemma stack_mapped: "mapped {} (IPT stack_vm) x y q \<longleftrightarrow> x = 7 \<and> y = 8 \<and> q = 0"
  unfolding mapped_def stack_frames using stack_frame_0 by (auto simp: stack_frame_def)

lemma stack_page: "0 \<le> y \<Longrightarrow> y < 16 \<Longrightarrow> array_get (pages stack_space) y = Inr (sample_page y UNINIT)"
  by (simp add: stack_space_def nat_less_iff)

lemma stack_entries:
  "page_entry [7 \<mapsto> stack_space] x y = (if x = 7 \<and> 0 \<le> y \<and> y < 16 then Some (sample_page y UNINIT) else None)"
  by (simp add: page_entry_def stack_space_def nat_less_iff)

lemma stack_pt_get: "0 \<le> y \<Longrightarrow> y < 16 \<Longrightarrow> pt_get stack_vm (Some 7) y = Inr (sample_page y UNINIT)"
  by (simp add: pt_get_def the_space_def stack_page)

lemma stack_vm_ok: "vm_ok stack_vm"
proof (rule vm_invI [where t = "replicate TLBSize no_entry"])
  have l: "int (length (IPT stack_vm)) = NumPhysPages" by (simp add: stack_vm_def) (simp add: NumPhysPages_def)
  show "ipt_inv {} (IPT stack_vm) (spaces stack_vm)"
    unfolding ipt_inv_def stack_mapped stack_frames using stack_frame_0 l by (simp add: stack_entries stack_frame_def)
  show "tlb_inv {} (IPT stack_vm) (currentSpace stack_vm) (currentTLB stack_vm) (replicate TLBSize no_entry)"
    by (auto simp: tlb_inv_def no_entry_def TLBSize_def)
  show "map_inv {} (IPT stack_vm) (mainMemoryBitmap stack_vm)"
    unfolding map_inv_def stack_frames by (simp add: frame_map_wf frame_map_bits) (simp add: frame_map_def)
  show "swap_inv (spaces stack_vm) (swapMap stack_vm) (swapFile stack_vm)"
    by (auto simp: swap_inv_def frame_map_wf stack_entries split: if_splits)
  show "clean_inv {} (IPT stack_vm) (replicate TLBSize no_entry) (mainMemory stack_vm) (spaces stack_vm) (swapFile stack_vm)"
    unfolding clean_inv_def stack_mapped using stack_frame_0 by (auto simp: modified_def stack_frame_def)
  show "list_inv {} (IPT stack_vm) (evictionPolicy stack_vm) (evictionList stack_vm)"
    unfolding list_inv_def stack_frames by (simp add: NumPhysPages_def)
  show "unused {} (IPT stack_vm)"
    unfolding unused_def using stack_ipt by (simp add: stack_frame_def)
qed simp_all

lemma stack_written: "page_byte {} stack_vm 7 8 k 5"
  unfolding page_byte_def stack_mapped using stack_frame_0
  by (intro disjI1 exI [of _ 0]) (simp add: modified_def stack_frame_def frame_byte_def stack_vm_def)

lemma stack_backing: "backing (spaces stack_vm) (swapFile stack_vm) 7 8 k = None"
  by (simp add: backing_def stack_entries)

theorem Exit_frees_the_next_stack_witness:
  "\<forall>x. page_byte {} stack_vm 7 8 0 5 \<and> stackEnd stack_space 0 = 8 \<and>
   (\<exists>s'. Exit_Syscall (sample_os x stack_vm 2 (stackEnd stack_space 0)) = Inr s' \<and> (\<forall>c. \<not> page_byte {} (osvm s') 7 8 0 c))"
proof (rule allI, goal_cases)
  case (1 x)
  let ?s = "sample_os x stack_vm 2 8"
  obtain k where k: "Finish pair_kernel = Inr k" "\<not> idle k" "conts pair_kernel (currentThread k) \<noteq> Start"
    using pair_finish by blast
  have z: "physicalPage (sample_page v l) = 0" for v l by (simp add: sample_page_def TranslationEntry.defs no_entry_def)
  have n: "(0::int) < NumPhysPages" by (simp add: NumPhysPages_def)
  have "\<exists>s'. Exit_Syscall ?s = Inr s' \<and> vm_ok (osvm s') \<and> (\<forall>p. \<not> mapped {} (IPT (osvm s')) 7 8 p) \<and>
    (\<forall>o' c. page_byte {} (osvm s') 7 8 o' c \<longleftrightarrow> backing (spaces (osvm ?s)) (swapFile (osvm ?s)) 7 8 o' = Some c) \<and>
    (\<forall>r. mapped {} (IPT (osvm ?s)) 7 (8 - 8) r \<and>
       (\<forall>i pte. 0 \<le> i \<and> i < 8 \<and> pt_get (osvm ?s) (Some 7) (8 - i) = Inr pte \<longrightarrow> physicalPage pte \<noteq> r) \<longrightarrow>
       mapped {} (IPT (osvm s')) 7 (8 - 8) r)"
    by (rule Exit_frees_the_next_stack [where e = "one_entry 2 8" and k = k and q = 0 and pte = "sample_page 8 UNINIT"])
      (use k stack_vm_ok z n in \<open>simp_all add: one_entry_def stack_mapped stack_pt_get boot_sys_def del: stack_vm_fields\<close>)
  moreover have "stackEnd stack_space 0 = 8" by (simp add: stackEnd_def stack_space_def)
  ultimately show ?case using stack_written [of 0] stack_backing by auto
qed

section \<open>Exit and destroyed locks\<close>

text \<open>
  \<open>DestroyLock\<close>, and later \<open>Exit\<close> as the last thread of the process. The lock is deleted by the first
  call, but its entry in the table goes on naming the process and the lock, and \<open>Exit\<close> does not ask the bit
  map: it deletes the lock a second time. No process that has destroyed one of its locks (while it was free,
  or held) can leave, unless the slot was given away in between.
\<close>

lemma Exit_deletes_a_destroyed_lock:
  assumes "sys_reachable (osys s)" "lock_handle (osys s) i = Some l"
    and "\<not> (isBusy l (kern (osys s)) \<and> acquireCount (lockTable (osys s) ! nat i) = 0)"
    and "my_entry s = Inr e" "1 < numLivingProcesses s" "numThreadsAlive e = 1"
  shows "\<exists>y. DestroyLock_Syscall i (osys s) = Inr y \<and> l \<in> freedLocks y \<and> (\<exists>c. Exit_Syscall (s\<lparr>osys := y\<rparr>) = Inl c)"
proof -
  note ok = sys_reachable_ok [OF assms(1)]
  obtain y where y: "DestroyLock_Syscall i (osys s) = Inr y" "freedLocks y = insert l (freedLocks (osys s))"
    and yd: "sys_ok y" "in_use (lockMap y) = in_use (lockMap (osys s)) - {i}"
    using DestroyLock_Syscall_does [OF ok assms(2)] assms(3) by auto
  have c: "check_lock i (osys s) = Inr True" using check_lock_ok [OF ok, of i] assms(2) by simp
  obtain x where x: "array_get (lockTable (osys s)) i = Inr x" "lockSpace x = callerSpace (osys s)"
    and r: "0 \<le> i" "i < lockArraySize (osys s)"
    using c by (auto simp: check_lock_def split: if_splits)
  have p: "lockp x = Some l" using lock_handleD [OF assms(2)] x(1) by (simp add: array_get_Inr)
  have "lock_at i (osys s) = Inr l" using lock_slot [OF ok, of i l] lock_handleD [OF assms(2)] by blast
  then have d: "delete_lock i (osys s) = Inr y"
    using y(1) c x(1) assms(3) by (simp add: DestroyLock_Syscall_def array_get_Inr)
  then have k: "kern y = kern (osys s)" "threadSpace y = threadSpace (osys s)" "lockTable y = lockTable (osys s)"
    "lockArraySize y = lockArraySize (osys s)" by (auto simp: delete_lock_def)
  have "i \<notin> in_use (lockMap y)" using yd(2) assms(3) by auto
  moreover have "lockSpace (lockTable y ! nat i) = callerSpace y"
    using x k by (simp add: array_get_Inr callerSpace_def)
  ultimately have "\<not> own_locks_live y" using r k(4) by (auto simp: own_locks_live_def)
  then obtain c where "for_loop 0 (lockArraySize y) exit_lock y = Inl c"
    using exit_locks_fail [OF yd(1)] by blast
  moreover obtain sp where "my_entry (s\<lparr>osys := y\<rparr>) = Inr e" "my_space (s\<lparr>osys := y\<rparr>) = Inr sp"
    using k(1,2) assms(4) by (auto simp: my_entry_def my_space_def running_def split: option.splits)
  ultimately have "\<exists>c. Exit_Syscall (s\<lparr>osys := y\<rparr>) = Inl c"
    using assms(5,6) by (cases "array_get (threadStacks e) (threadID s (running (s\<lparr>osys := y\<rparr>)))")
      (simp_all add: Exit_Syscall_def exit_process_def)
  then show ?thesis using y by blast
qed

lemma Exit_deletes_a_destroyed_lock_example:
  "\<exists>s i y. DestroyLock_Syscall i (osys s) = Inr y \<and> (\<exists>c. Exit_Syscall (s\<lparr>osys := y\<rparr>) = Inl c)"
proof -
  obtain u i where u: "sys_reachable u" "lock_handle u i = Some 0" "locks (kern u) 0 = new_Lock None"
    "threadSpace u = (\<lambda>_. Some 7)" using first_lock by blast
  let ?s = "(sample_os x boot_vm 1 0)\<lparr>osys := u\<rparr>"
  have "my_entry ?s = Inr (one_entry 1 0)" using u(4)
    by (simp add: my_entry_def my_space_def running_def sample_os_def set_osvm_def)
  moreover have "numLivingProcesses ?s = 2" by (simp add: sample_os_def)
  ultimately show ?thesis
    using Exit_deletes_a_destroyed_lock [of ?s i 0 "one_entry 1 0"] u(1-3) sample_os_simps
    by (intro exI [of _ ?s] exI [of _ i]) (auto simp: one_entry_def isBusy_def new_Lock_def)
qed

section \<open>Fork\<close>

lemma Fork_Syscall_does:
  assumes "Fork_Syscall big t vaddr nameIndex len s = Some (Inr s1)" "my_entry s = Inr e" "my_space s = Inr sp"
    and "threadStacks e = st"
  shows "running s1 = running s" "threadSpace (osys s1) = (threadSpace (osys s))(t := Some sp)"
    "threadID s1 = (threadID s)(t := nextThreadID e)" "startAt s1 = (startAt s)(t := Some vaddr)"
    "spaceProcess s1 = spaceProcess s" "kern (osys s1) = Fork t (kern (osys s))" "nextThreadID e \<noteq> MAX_THREADS"
    "array_get (processTable s1) (spaceProcess s sp) =
       Inr (e\<lparr>nextThreadID := nextThreadID e + 1, numThreadsAlive := numThreadsAlive e + 1\<rparr>)"
proof -
  have g: "nextThreadID e \<noteq> MAX_THREADS" "\<not> len + 1 < 0" using assms(1,2) by (auto simp: Fork_Syscall_def split: if_splits)
  obtain bs v where c: "copyin big nameIndex len (osvm s) = Some (Inr (bs, v))"
    using assms(1,2) g by (auto simp: Fork_Syscall_def after_def split: sum.splits)
  have my: "my_entry (set_osvm v s) = Inr e" "my_space (set_osvm v s) = Inr sp"
    using assms(2,3) by (simp_all add: my_entry_def my_space_def running_def)
  let ?e = "e\<lparr>nextThreadID := nextThreadID e + 1, numThreadsAlive := numThreadsAlive e + 1\<rparr>"
  have i: "0 \<le> spaceProcess s sp" "spaceProcess s sp < int (length (processTable s))" "e = processTable s ! nat (spaceProcess s sp)"
    using assms(2,3) by (simp_all add: my_entry_def array_get_Inr)
  have u: "upd_entry (spaceProcess s sp) (\<lambda>e. e\<lparr>nextThreadID := nextThreadID e + 1, numThreadsAlive := numThreadsAlive e + 1\<rparr>) (set_osvm v s) =
      Inr ((set_osvm v s)\<lparr>processTable := (processTable s)[nat (spaceProcess s sp) := ?e]\<rparr>)"
    using i by (simp add: upd_entry_def)
  have s1: "s1 = adopt t sp (nextThreadID e) (Some vaddr)
      ((set_osvm v s)\<lparr>processTable := (processTable s)[nat (spaceProcess s sp) := ?e]\<rparr>)"
    using assms(1,2) g c my u by (simp add: Fork_Syscall_def Let_def)
  show "nextThreadID e \<noteq> MAX_THREADS" by (rule g(1))
  show "running s1 = running s" "threadSpace (osys s1) = (threadSpace (osys s))(t := Some sp)"
    "threadID s1 = (threadID s)(t := nextThreadID e)" "startAt s1 = (startAt s)(t := Some vaddr)"
    "spaceProcess s1 = spaceProcess s" "kern (osys s1) = Fork t (kern (osys s))"
    by (simp_all add: s1 adopt_def running_def Fork_def ReadyToRun_def set_osvm_def)
  show "array_get (processTable s1) (spaceProcess s sp) = Inr ?e"
    using i by (simp add: s1 adopt_def nat_less_iff)
qed

text \<open>The first steps of the new thread.\<close>

lemma start_fork_ok:
  assumes m: "same_memory v (osvm s)" and t: "threadSpace (osys s) (running s) = Some sp" "startAt s (running s) = Some a"
    and sp: "spaces v sp = Some x" and e: "array_get (processTable s) (spaceProcess s sp) = Inr e"
    and i: "0 \<le> threadID s (running s)" "threadID s (running s) < int (length (threadStacks e))"
  defines "tp \<equiv> stackEnd x (threadID s (running s))"
  shows "\<exists>s'. start_user s = Inr s' \<and> same_memory v (osvm s') \<and> currentSpace (osvm s') = sp \<and>
    registers (osvm s') PCReg = a \<and> registers (osvm s') NextPCReg = a + 4 \<and>
    registers (osvm s') StackReg = word_of_int (tp * PageSize - 16) \<and>
    array_get (processTable s') (spaceProcess s sp) =
      Inr (e\<lparr>threadStacks := (threadStacks e)[nat (threadID s (running s)) := tp]\<rparr>)"
proof -
  let ?r = "((registers (osvm s))(PCReg := a))(NextPCReg := a + 4)"
  let ?v = "(osvm s)\<lparr>currentSpace := sp, registers := ?r\<rparr>"
  have mv: "same_memory v ?v" by (rule same_memory_enter [OF m])
  then obtain w where w: "RestoreState ?v = Inr w" "same_memory ?v w" "registers w = ?r"
    using SaveState_same_memory [of ?v] by (auto simp: same_memory_def SaveState_def RestoreState_def)
  have mw: "same_memory v w" by (rule same_memory_trans [OF mv w(2)])
  have c: "currentSpace w = sp" using w(1) SaveState_flushed [of ?v w] by (auto simp: SaveState_def RestoreState_def flushed_def)
  let ?s1 = "set_osvm w s"
  let ?e = "e\<lparr>threadStacks := (threadStacks e)[nat (threadID s (running s)) := tp]\<rparr>"
  have en: "write_regs [(PCReg, a), (NextPCReg, a + 4)] (enter_space s) = set_osvm ?v s"
    using t(1) by (simp add: write_regs_def enter_space_def set_reg_def set_osvm_def osvm_def)
  have r1: "running ?s1 = running s" by (simp add: running_def)
  have sp1: "my_space ?s1 = Inr sp" using t(1) r1 by (simp add: my_space_Inr)
  have "spaces w sp = Some x" using mw sp by (simp add: same_memory_def)
  then have as: "my_AddrSpace ?s1 = Inr x" using sp1 by (simp add: my_AddrSpace_def the_space_def)
  have me: "my_entry ?s1 = Inr e" using sp1 e by (simp add: my_entry_def)
  let ?s2 = "?s1\<lparr>processTable := (processTable s)[nat (spaceProcess s sp) := ?e]\<rparr>"
  have j: "0 \<le> spaceProcess s sp" "spaceProcess s sp < int (length (processTable s))" "e = processTable s ! nat (spaceProcess s sp)"
    using e by (simp_all add: array_get_Inr)
  have rs: "record_stack tp ?s1 = Inr ?s2"
    using sp1 me r1 i j by (simp add: record_stack_def upd_entry_def)
  let ?s' = "write_regs [(StackReg, word_of_int (tp * PageSize - 16))] ?s2"
  have o2: "osvm ?s2 = w" by (simp add: osvm_def set_osvm_def)
  have o': "osvm ?s' = w\<lparr>registers := ?r(StackReg := word_of_int (tp * PageSize - 16))\<rparr>"
    unfolding write_regs_def o2 using w(3) by (simp add: set_reg_def)
  have "restore_state (set_osvm ?v s) = Inr ?s1" using w(1) by (simp add: restore_state_def set_osvm_def osvm_def)
  then have "start_user s = Inr ?s'"
    using t(2) en as rs r1 by (simp add: start_user_def enter_space_def Create_Kernel_Thread_Fork_def Let_def tp_def t(1))
  moreover have "array_get (processTable ?s') (spaceProcess s sp) = Inr ?e"
    using j by (simp add: write_regs_def nat_less_iff)
  ultimately show ?thesis
    using same_memory_registers [OF mw] c o'
    by (intro exI [of _ ?s'] conjI) (simp_all add: PCReg_def NextPCReg_def StackReg_def)
qed

text \<open>Starting a thread changes registers, the pager and the stacks in the process table only.\<close>

definition same_threads :: "os \<Rightarrow> os \<Rightarrow> bool" where
  "same_threads s s' \<longleftrightarrow> osys s' = osys s \<and> threadID s' = threadID s \<and> spaceProcess s' = spaceProcess s"

lemma same_threads_simps:
  "same_threads s (set_osvm v s') = same_threads s s'" "same_threads s (write_regs rs s') = same_threads s s'"
  "same_threads s (enter_space s') = same_threads s s'" "same_threads s s"
  by (auto simp: same_threads_def write_regs_def enter_space_def set_osvm_def split: option.split)

lemma same_threads_calls:
  "restore_state s' = Inr s'' \<Longrightarrow> same_threads s s'' = same_threads s s'"
  "record_stack p s' = Inr s'' \<Longrightarrow> same_threads s s'' = same_threads s s'"
  by (auto simp: same_threads_def set_osvm_def restore_state_def record_stack_def upd_entry_def)

lemma start_fork_keeps:
  assumes "Create_Kernel_Thread_Fork a s = Inr s'"
  shows "same_threads s s'"
proof -
  obtain x y b c where "restore_state (write_regs [(PCReg, a), (NextPCReg, a + 4)] s) = Inr x" "record_stack b x = Inr y"
    "s' = write_regs c y" using assms by (auto simp: Create_Kernel_Thread_Fork_def Let_def)
  then show ?thesis using same_threads_calls [where s = s] by (simp add: same_threads_simps)
qed

lemma start_user_keeps:
  assumes "start_user s = Inr s'" "startAt s (running s) \<noteq> None"
  shows "osys s' = osys s \<and> threadID s' = threadID s \<and> spaceProcess s' = spaceProcess s"
proof -
  obtain a where "Create_Kernel_Thread_Fork a (enter_space s) = Inr s'" using assms by (auto simp: start_user_def)
  then have "same_threads (enter_space s) s'" by (rule start_fork_keeps)
  moreover have "same_threads s (enter_space s)" by (simp add: same_threads_simps)
  ultimately show ?thesis by (simp add: same_threads_def)
qed

lemma stacks_apart:
  "i \<noteq> j \<Longrightarrow> {stackEnd a i - 8 ..< stackEnd a i} \<inter> {stackEnd a j - 8 ..< stackEnd a j} = {}"
  by (auto simp: stackEnd_def)

text \<open>
  C34: \<open>Fork\<close>, up to the first instruction of the new thread. The thread gets the caller's address space and
  the next thread number \<open>i\<close> of the process; when the scheduler takes it, it starts at the address that was
  passed to \<open>Fork\<close> with its stack pointer 16 bytes below the end of the eight pages of number \<open>i\<close> behind the
  program, which are nobody else's; the switch keeps the pager's invariant and changes no byte of any
  process; and the page that the thread records for \<open>Exit\<close> is the one after its stack.
\<close>

theorem Fork_starts_a_thread:
  assumes "Fork_Syscall big t vaddr nameIndex len s = Some (Inr s1)" "my_space s = Inr sp" "my_entry s = Inr e"
    and "0 \<le> nextThreadID e" "nextThreadID e < int (length (threadStacks e))"
    and "vm_ok (osvm s1)" "spaces (osvm s1) sp = Some a"
    and "currentThread k = t" "\<not> idle k"
  shows "\<exists>s2. switch_user k s1 = Inr s2 \<and> kern (osys s2) = k \<and> vm_ok (osvm s2) \<and> page_byte {} (osvm s2) = page_byte {} (osvm s1) \<and>
    currentSpace (osvm s2) = sp \<and> threadSpace (osys s2) t = Some sp \<and> threadID s2 t = nextThreadID e \<and>
    registers (osvm s2) PCReg = vaddr \<and> registers (osvm s2) NextPCReg = vaddr + 4 \<and>
    registers (osvm s2) StackReg = word_of_int (stackEnd a (nextThreadID e) * PageSize - 16) \<and>
    numExecutablePages a \<le> stackEnd a (nextThreadID e) - 8 \<and>
    (\<forall>j. j \<noteq> nextThreadID e \<longrightarrow>
       {stackEnd a j - 8 ..< stackEnd a j} \<inter> {stackEnd a (nextThreadID e) - 8 ..< stackEnd a (nextThreadID e)} = {}) \<and>
    array_get (processTable s2) (spaceProcess s2 sp) =
      Inr (e\<lparr>nextThreadID := nextThreadID e + 1, numThreadsAlive := numThreadsAlive e + 1,
        threadStacks := (threadStacks e)[nat (nextThreadID e) := stackEnd a (nextThreadID e)]\<rparr>)"
proof -
  note f = Fork_Syscall_does [OF assms(1,3,2) refl]
  let ?i = "nextThreadID e"
  have r: "threadSpace (osys s1) (running s1) \<noteq> None" using assms(2) f(1,2) by (auto simp: my_space_Inr)
  then obtain w where w: "SaveState (osvm s1) = Inr w" "same_memory (osvm s1) w"
    using SaveState_same_memory [OF assms(6)] by blast
  let ?s = "set_kern k (set_osvm w (s1\<lparr>userRegisters := (userRegisters s1)(running s1 := registers (osvm s1))\<rparr>))"
  have "leave_user s1 = Inr (set_osvm w (s1\<lparr>userRegisters := (userRegisters s1)(running s1 := registers (osvm s1))\<rparr>))"
    using w(1) r by (auto simp: leave_user_def)
  moreover have "conts (kern (osys s1)) (currentThread k) = Start" using f(6) assms(8) by (simp add: Fork_def ReadyToRun_def)
  ultimately have sw: "switch_user k s1 = start_user ?s" using assms(9) by (simp add: switch_user_def Let_def)
  have g: "running ?s = t" "threadSpace (osys ?s) t = Some sp" "startAt ?s t = Some vaddr" "threadID ?s t = ?i"
    "processTable ?s = processTable s1" "spaceProcess ?s sp = spaceProcess s sp" "osvm ?s = w"
    using f(2,3,4,5) assms(8) by (simp_all add: running_def set_kern_def set_osvm_def osvm_def)
  obtain s2 where s2: "start_user ?s = Inr s2" "same_memory (osvm s1) (osvm s2)" "currentSpace (osvm s2) = sp"
    "registers (osvm s2) PCReg = vaddr" "registers (osvm s2) NextPCReg = vaddr + 4"
    "registers (osvm s2) StackReg = word_of_int (stackEnd a ?i * PageSize - 16)"
    "array_get (processTable s2) (spaceProcess s sp) = Inr (e\<lparr>nextThreadID := ?i + 1, numThreadsAlive := numThreadsAlive e + 1,
        threadStacks := (threadStacks e)[nat ?i := stackEnd a ?i]\<rparr>)"
    using start_fork_ok [of "osvm s1" ?s sp vaddr a "e\<lparr>nextThreadID := ?i + 1, numThreadsAlive := numThreadsAlive e + 1\<rparr>"]
      w(2) g f(8) assms(4,5,7) by auto
  have keep: "kern (osys s2) = k \<and> threadSpace (osys s2) = threadSpace (osys ?s) \<and> threadID s2 = threadID ?s \<and> spaceProcess s2 = spaceProcess ?s"
    using start_user_keeps [OF s2(1)] g(1,3) by simp
  show ?thesis
  proof (intro exI conjI)
    show "switch_user k s1 = Inr s2" using sw s2(1) by simp
    show "\<forall>j. j \<noteq> ?i \<longrightarrow> {stackEnd a j - 8 ..< stackEnd a j} \<inter> {stackEnd a ?i - 8 ..< stackEnd a ?i} = {}"
      using stacks_apart by blast
    show "numExecutablePages a \<le> stackEnd a ?i - 8" using assms(4) by (simp add: stackEnd_def)
  qed (use s2 keep g s2(2) [unfolded same_memory_def] in simp_all)
qed

text \<open>The one thread forks thread 1 and yields.\<close>

theorem Fork_starts_a_thread_witness:
  "\<forall>x. \<exists>s1 k s2. Fork_Syscall True 1 20 0 0 ((sample_os x stack_vm 1 8)\<lparr>osys := boot_sys (boot (\<lambda>_. 0)) [0 \<mapsto> 7]\<rparr>) = Some (Inr s1) \<and>
    Yield (kern (osys s1)) = Inr k \<and> currentThread k = 1 \<and> switch_user k s1 = Inr s2 \<and> registers (osvm s2) PCReg = 20 \<and>
    registers (osvm s2) StackReg = 2032"
proof (rule allI, goal_cases)
  case (1 x)
  let ?s = "(sample_os x stack_vm 1 8)\<lparr>osys := boot_sys (boot (\<lambda>_. 0)) [0 \<mapsto> 7]\<rparr>"
  have my: "my_space ?s = Inr 7" "my_entry ?s = Inr (one_entry 1 8)" "osvm ?s = stack_vm"
    by (simp_all add: my_entry_def my_space_def running_def sample_os_def set_osvm_def osvm_def boot_sys_def boot_def)
  have c: "copyin True 0 0 stack_vm = Some (Inr ([], stack_vm))" by (simp add: copyin_def)
  have so: "set_osvm stack_vm ?s = ?s" by (simp add: sample_os_def set_osvm_def)
  let ?e = "(one_entry 1 8)\<lparr>nextThreadID := 2, numThreadsAlive := 2\<rparr>"
  let ?s1 = "adopt 1 7 1 (Some 20) (?s\<lparr>processTable := [?e]\<rparr>)"
  have u: "upd_entry (spaceProcess ?s 7) (\<lambda>e. e\<lparr>nextThreadID := nextThreadID e + 1, numThreadsAlive := numThreadsAlive e + 1\<rparr>) ?s =
      Inr (?s\<lparr>processTable := [?e]\<rparr>)"
    by (simp add: upd_entry_def sample_os_def set_osvm_def one_entry_def array_get_def array_set_def)
  have f: "Fork_Syscall True 1 20 0 0 ?s = Some (Inr ?s1)"
    using my c u so by (simp add: Fork_Syscall_def one_entry_def MAX_THREADS_def)
  have kern: "kern (osys ?s1) = Fork 1 (boot (\<lambda>_. 0))" by (simp add: adopt_def boot_sys_def)
  obtain k where k: "Yield (kern (osys ?s1)) = Inr k" "currentThread k = 1" "\<not> idle k"
    unfolding kern by (simp add: Yield_def Fork_def ReadyToRun_def boot_def dispatch.simps FindNextToRun_def Let_def list_append_def)
  have o: "osvm ?s1 = stack_vm" using my(3) by (simp add: adopt_def osvm_def)
  have "stackEnd stack_space 1 * PageSize - 16 = 2032" by (simp add: stackEnd_def stack_space_def PageSize_def)
  then show ?case
    using Fork_starts_a_thread [OF f my(1,2), of stack_space k] stack_vm_ok k o f
    by (auto simp: one_entry_def)
qed

text \<open>
  \<open>Exec\<close> does not look at the result of \<open>Open\<close>: for a file that does not exist the constructor of the
  address space reads through a null pointer, and the kernel goes down.
\<close>

lemma Exec_of_missing_file:
  assumes "0 \<le> filenameLength" "copyin big fileName filenameLength (osvm s) = Some (Inr (buf, v))"
    and "printed (buf @ [beyond]) = Inr name" "exe name = None"
  shows "Exec_Syscall big t sp beyond words slots garbage exe fileName filenameLength nameIndex nameLength s = Some (Inl NullPointer)"
proof -
  obtain ft where "new_fileTable words slots = Inr ft" using new_fileTable_ok by blast
  then show ?thesis using assms by (simp add: Exec_Syscall_def make_AddrSpace_def new_AddrSpace_def)
qed

end
