(* ===== verification/Test_Suite.thy ===== *)
theory Test_Suite
  imports Thread_Invariant
begin

text \<open>
  threads/threadtest.cc: the tests that come with the kernel, run on the model of the kernel. A thread runs
  its function line by line; a line prints or calls the kernel (busy loops are left out), and at the end of
  the function the thread finishes. The run is the one without time slices: the CPU changes hands only in a call.
\<close>

section \<open>Threads that run a function\<close>

datatype line = Print string | Do kop

text \<open>\<open>code\<close> is what each thread has left of its function, \<open>printed_lines\<close> what was printed.\<close>

record run =
  code :: "tid \<Rightarrow> line list"
  krn :: kernel
  printed_lines :: "string list"

definition next_line :: "run \<Rightarrow> line" where
  "next_line r = (case code r (currentThread (krn r)) of [] \<Rightarrow> Do Op_Finish | l # ls \<Rightarrow> l)"

definition run_line :: "run \<Rightarrow> run result option" where
  "run_line r =
     (let t = currentThread (krn r); r1 = r\<lparr>code := (code r)(t := tl (code r t))\<rparr> in
      case next_line r of
        Print s \<Rightarrow> Some (Inr (r1\<lparr>printed_lines := printed_lines r @ [s]\<rparr>))
      | Do p \<Rightarrow> map_option (\<lambda>x. bind_result x (\<lambda>k. Inr (r1\<lparr>krn := k\<rparr>))) (exec p (krn r)))"

text \<open>At most \<open>n\<close> lines, or until no thread can run.\<close>

primrec run_lines :: "nat \<Rightarrow> run \<Rightarrow> run result option" where
  "run_lines 0 r = Some (Inr r)"
| "run_lines (Suc n) r =
     (if idle (krn r) then Some (Inr r)
      else case run_line r of None \<Rightarrow> None | Some (Inl c) \<Rightarrow> Some (Inl c) | Some (Inr r') \<Rightarrow> run_lines n r')"

section \<open>The ping-pong test\<close>

definition digits :: "string list" where
  "digits = [''0'', ''1'', ''2'', ''3'', ''4'']"

definition looped :: "nat \<Rightarrow> nat \<Rightarrow> string" where
  "looped which num = ''*** thread '' @ digits ! which @ '' looped '' @ digits ! num @ '' times''"

definition SimpleThread :: "nat \<Rightarrow> line list" where
  "SimpleThread which = concat (map (\<lambda>num. [Print (looped which num), Do Op_Yield]) [0, 1, 2, 3, 4])"

definition ThreadTest :: "tid \<Rightarrow> line list" where
  "ThreadTest t = Do (Op_Fork t) # SimpleThread 0"

section \<open>The test suite\<close>

definition t1_s1 :: sid where "t1_s1 = 0"
definition t1_s2 :: sid where "t1_s2 = 1"
definition t1_s3 :: sid where "t1_s3 = 2"
definition t1_done :: sid where "t1_done = 3"
definition t1_l1 :: lid where "t1_l1 = 0"
definition t2_l1 :: lid where "t2_l1 = 1"
definition t2_c1 :: cid where "t2_c1 = 0"
definition t2_s1 :: sid where "t2_s1 = 4"
definition t2_done :: sid where "t2_done = 5"
definition t3_l1 :: lid where "t3_l1 = 2"
definition t3_c1 :: cid where "t3_c1 = 1"
definition t3_s1 :: sid where "t3_s1 = 6"
definition t3_done :: sid where "t3_done = 7"
definition t4_l1 :: lid where "t4_l1 = 3"
definition t4_c1 :: cid where "t4_c1 = 2"
definition t4_s1 :: sid where "t4_s1 = 8"
definition t4_done :: sid where "t4_done = 9"
definition t5_l1 :: lid where "t5_l1 = 4"
definition t5_l2 :: lid where "t5_l2 = 5"
definition t5_c1 :: cid where "t5_c1 = 3"
definition t5_s1 :: sid where "t5_s1 = 10"

text \<open>The calls of \<open>printf\<close>, with the names of threads, locks and conditions filled in.\<close>

definition t1_t1_acquired :: "string" where "t1_t1_acquired = ''t1_t1: Acquired Lock t1_l1, waiting for t3''"
definition t1_t1_working :: "string" where "t1_t1_working = ''t1_t1: working in CS''"
definition t1_t1_releasing :: "string" where "t1_t1_releasing = ''t1_t1: Releasing Lock t1_l1''"
definition t1_t2_trying :: "string" where "t1_t2_trying = ''t1_t2: trying to acquire lock t1_l1''"
definition t1_t2_acquired :: "string" where "t1_t2_acquired = ''t1_t2: Acquired Lock t1_l1, working in CS''"
definition t1_t2_releasing :: "string" where "t1_t2_releasing = ''t1_t2: Releasing Lock t1_l1''"
definition t1_t3_trying :: "string" where "t1_t3_trying = ''t1_t3: Trying to release Lock t1_l1''"
definition t2_t1_signalling :: "string" where "t2_t1_signalling = ''t2_t1: Lock t2_l1 acquired, signalling t2_c1''"
definition t2_t1_releasing :: "string" where "t2_t1_releasing = ''t2_t1: Releasing Lock t2_l1''"
definition t2_t2_waiting :: "string" where "t2_t2_waiting = ''t2_t2: Lock t2_l1 acquired, waiting on t2_c1''"
definition t2_t2_releasing :: "string" where "t2_t2_releasing = ''t2_t2: Releasing Lock t2_l1''"
definition t3_signalling :: "string" where "t3_signalling = ''t3_signaller: Lock t3_l1 acquired, signalling t3_c1''"
definition t3_releasing :: "string" where "t3_releasing = ''t3_signaller: Releasing t3_l1''"
definition t4_broadcasting :: "string" where "t4_broadcasting = ''t4_signaller: Lock t4_l1 acquired, broadcasting t4_c1''"
definition t4_releasing :: "string" where "t4_releasing = ''t4_signaller: Releasing t4_l1''"
definition t5_t1_waiting :: "string" where "t5_t1_waiting = ''t5_t1: Lock t5_l1 acquired, waiting on t5_c1''"
definition t5_t1_releasing :: "string" where "t5_t1_releasing = ''t5_t1: Releasing Lock t5_l1''"
definition t5_t2_signalling :: "string" where "t5_t2_signalling = ''t5_t2: Lock t5_l2 acquired, signalling t5_c1''"
definition t5_t2_releasing_l2 :: "string" where "t5_t2_releasing_l2 = ''t5_t2: Releasing Lock t5_l2''"
definition t5_t2_releasing_l1 :: "string" where "t5_t2_releasing_l1 = ''t5_t2: Releasing Lock t5_l1''"
definition starting_1 :: "string" where "starting_1 = ''Starting Test 1''"
definition starting_2 :: "string" where "starting_2 = ''Starting Test 2.  Note that it is an error if thread t2_t2''"
definition completes :: "string" where "completes = ''completes''"
definition starting_3 :: "string" where "starting_3 = ''Starting Test 3''"
definition starting_4 :: "string" where "starting_4 = ''Starting Test 4''"
definition starting_5 :: "string" where "starting_5 = ''Starting Test 5.  Note that it is an error if thread t5_t1''"
definition t3_waiting :: "nat \<Rightarrow> string" where "t3_waiting i = ''t3_waiter'' @ digits ! i @ '': Lock t3_l1 acquired, waiting on t3_c1''"
definition t3_freed :: "nat \<Rightarrow> string" where "t3_freed i = ''t3_waiter'' @ digits ! i @ '': freed from t3_c1''"
definition t4_waiting :: "nat \<Rightarrow> string" where "t4_waiting i = ''t4_waiter'' @ digits ! i @ '': Lock t4_l1 acquired, waiting on t4_c1''"
definition t4_freed :: "nat \<Rightarrow> string" where "t4_freed i = ''t4_waiter'' @ digits ! i @ '': freed from t4_c1''"

definition t1_t1 :: "line list" where
  "t1_t1 = [Do (Op_Acquire t1_l1), Do (Op_V t1_s1), Print t1_t1_acquired,
     Do (Op_P t1_s3), Print t1_t1_working, Print t1_t1_releasing,
     Do (Op_Release t1_l1), Do (Op_V t1_done)]"

definition t1_t2 :: "line list" where
  "t1_t2 = [Do (Op_P t1_s1), Do (Op_V t1_s2), Print t1_t2_trying, Do (Op_Acquire t1_l1),
     Print t1_t2_acquired, Print t1_t2_releasing,
     Do (Op_Release t1_l1), Do (Op_V t1_done)]"

definition t1_t3 :: "line list" where
  "t1_t3 = [Do (Op_P t1_s2), Do (Op_V t1_s3)] @
     concat (replicate 3 [Print t1_t3_trying, Do (Op_Release t1_l1)])"

definition t2_t1 :: "line list" where
  "t2_t1 = [Do (Op_Acquire t2_l1), Print t2_t1_signalling,
     Do (Op_Signal t2_c1 (Some t2_l1)), Print t2_t1_releasing, Do (Op_Release t2_l1),
     Do (Op_V t2_s1), Do (Op_V t2_done)]"

definition t2_t2 :: "line list" where
  "t2_t2 = [Do (Op_P t2_s1), Do (Op_Acquire t2_l1), Print t2_t2_waiting,
     Do (Op_Wait t2_c1 (Some t2_l1)), Print t2_t2_releasing, Do (Op_Release t2_l1)]"

definition t3_waiter :: "nat \<Rightarrow> line list" where
  "t3_waiter i = [Do (Op_Acquire t3_l1), Do (Op_V t3_s1),
     Print (t3_waiting i), Do (Op_Wait t3_c1 (Some t3_l1)),
     Print (t3_freed i), Do (Op_Release t3_l1), Do (Op_V t3_done)]"

definition t3_signaller :: "line list" where
  "t3_signaller = replicate 5 (Do (Op_P t3_s1)) @
     [Do (Op_Acquire t3_l1), Print t3_signalling,
      Do (Op_Signal t3_c1 (Some t3_l1)), Print t3_releasing, Do (Op_Release t3_l1), Do (Op_V t3_done)]"

definition t4_waiter :: "nat \<Rightarrow> line list" where
  "t4_waiter i = [Do (Op_Acquire t4_l1), Do (Op_V t4_s1),
     Print (t4_waiting i), Do (Op_Wait t4_c1 (Some t4_l1)),
     Print (t4_freed i), Do (Op_Release t4_l1), Do (Op_V t4_done)]"

definition t4_signaller :: "line list" where
  "t4_signaller = replicate 5 (Do (Op_P t4_s1)) @
     [Do (Op_Acquire t4_l1), Print t4_broadcasting,
      Do (Op_Broadcast t4_c1 (Some t4_l1)), Print t4_releasing, Do (Op_Release t4_l1), Do (Op_V t4_done)]"

definition t5_t1 :: "line list" where
  "t5_t1 = [Do (Op_Acquire t5_l1), Do (Op_V t5_s1), Print t5_t1_waiting,
     Do (Op_Wait t5_c1 (Some t5_l1)), Print t5_t1_releasing, Do (Op_Release t5_l1)]"

definition t5_t2 :: "line list" where
  "t5_t2 = [Do (Op_P t5_s1), Do (Op_Acquire t5_l1), Do (Op_Acquire t5_l2),
     Print t5_t2_signalling, Do (Op_Signal t5_c1 (Some t5_l2)),
     Print t5_t2_releasing_l2, Do (Op_Release t5_l2),
     Print t5_t2_releasing_l1, Do (Op_Release t5_l1)]"

text \<open>The numbers are the threads in the order in which \<open>new\<close> makes them; thread 0 runs \<open>TestSuite\<close>.\<close>

definition TestSuite :: "line list" where
  "TestSuite = [Print starting_1, Do (Op_Fork 1), Do (Op_Fork 2), Do (Op_Fork 3)] @ replicate 2 (Do (Op_P t1_done)) @
     [Print starting_2, Print completes,
      Do (Op_Fork 4), Do (Op_Fork 5), Do (Op_P t2_done), Print starting_3] @
     map (\<lambda>t. Do (Op_Fork t)) [6, 7, 8, 9, 10, 11] @ replicate 2 (Do (Op_P t3_done)) @ [Print starting_4] @
     map (\<lambda>t. Do (Op_Fork t)) [12, 13, 14, 15, 16, 17] @ replicate 6 (Do (Op_P t4_done)) @
     [Print starting_5, Print completes,
      Do (Op_Fork 18), Do (Op_Fork 19)]"

definition thread_functions :: "line list list" where
  "thread_functions = [TestSuite, t1_t1, t1_t2, t1_t3, t2_t1, t2_t2] @
     map t3_waiter [0, 1, 2, 3, 4] @ [t3_signaller] @
     map t4_waiter [0, 1, 2, 3, 4] @ [t4_signaller, t5_t1, t5_t2]"

definition suite :: run where
  "suite = \<lparr>code = (\<lambda>t. if t < 20 then thread_functions ! t else []), krn = boot (\<lambda>_. 0), printed_lines = []\<rparr>"

definition ping_pong :: run where
  "ping_pong = \<lparr>code = (\<lambda>t. if t = 0 then ThreadTest 1 else if t = 1 then SimpleThread 1 else []),
     krn = boot (\<lambda>_. 0), printed_lines = []\<rparr>"

definition printed_by :: "nat \<Rightarrow> run \<Rightarrow> string list" where
  "printed_by n r = (case run_lines n r of Some (Inr r') \<Rightarrow> printed_lines r' | _ \<Rightarrow> [])"

section \<open>Running them\<close>

text \<open>Arrays of the kernel as finite tables, so that a run can be evaluated.\<close>

definition tab :: "'a list \<Rightarrow> 'a \<Rightarrow> nat \<Rightarrow> 'a" where
  "tab xs d = (\<lambda>i. if i < length xs then xs ! i else d)"

lemma tab_get: "i < length xs \<Longrightarrow> tab xs d i = xs ! i"
  by (simp add: tab_def)

lemma tab_set: "i < length xs \<Longrightarrow> (tab xs d)(i := v) = tab (xs[i := v]) d"
  by (auto simp: tab_def)

lemma const_tab: "(\<lambda>_. d) = tab (replicate n d) d"
  by (auto simp: tab_def)

lemma run_lines_numeral:
  "run_lines (numeral v) r = (if idle (krn r) then Some (Inr r)
     else case run_line r of None \<Rightarrow> None | Some (Inl c) \<Rightarrow> Some (Inl c)
       | Some (Inr r') \<Rightarrow> run_lines (pred_numeral v) r')"
  by (simp add: numeral_eq_Suc)

text \<open>The start of a run with at most 20 threads, 11 semaphores, 6 locks and 4 condition variables.\<close>

definition start_kernel :: kernel where
  "start_kernel = \<lparr>currentThread = 0, readyList = [], status = tab (RUNNING # replicate 19 JUST_CREATED) JUST_CREATED,
     conts = tab (replicate 20 Returned) Returned, idle = False, threadToBeDestroyed = None, deleted = {},
     sems = tab (replicate 11 (new_Semaphore 0)) (new_Semaphore 0),
     locks = tab (replicate 6 (new_Lock None)) (new_Lock None),
     conds = tab (replicate 4 (new_Condition None)) (new_Condition None)\<rparr>"

lemma start_kernel: "boot (\<lambda>_. 0) = start_kernel"
proof -
  have "(\<lambda>t. if t = 0 then RUNNING else JUST_CREATED) = tab (RUNNING # replicate 19 JUST_CREATED) JUST_CREATED"
    by (auto simp: tab_def nth_Cons' fun_eq_iff)
  then show ?thesis
    unfolding boot_def start_kernel_def const_tab [of Returned 20] const_tab [of "new_Semaphore 0" 11]
      const_tab [of "new_Lock None" 6] const_tab [of "new_Condition None" 4]
    by simp
qed

lemma update_numeral: "(x # xs)[numeral v := y] = x # xs[pred_numeral v := y]"
  by (simp add: numeral_eq_Suc)

lemma update_one: "(x # xs)[1 := y] = x # xs[0 := y]"
  by simp

lemmas kernel_simps = Fork_def ReadyToRun_def Yield_def dispatch.simps FindNextToRun_def destroy_carcass_def P_def P_try_def
  V_def Sleep_def mark_blocked_def Finish_def Acquire_def Acquire_try_def Release_def isHeldByCurrentThread_def
  Wait_def Signal_def Broadcast_def broadcast_loop.simps set_sem_def set_lock_def set_cond_def new_Semaphore_def
  new_Lock_def new_Condition_def list_append_def Let_def

lemmas run_simps = run_lines_numeral run_line_def next_line_def tab_get tab_set update_numeral update_one

lemma replicate_numeral: "replicate (numeral v) x = x # replicate (pred_numeral v) x"
  by (simp add: numeral_eq_Suc)

lemma suite_run: "suite = \<lparr>code = tab thread_functions [], krn = start_kernel, printed_lines = []\<rparr>"
proof -
  have "length thread_functions = 20" by (simp add: thread_functions_def)
  then show ?thesis by (simp add: suite_def start_kernel tab_def)
qed

lemmas suite_objects = t1_s1_def t1_s2_def t1_s3_def t1_done_def t1_l1_def t2_l1_def t2_c1_def t2_s1_def t2_done_def
  t3_l1_def t3_c1_def t3_s1_def t3_done_def t4_l1_def t4_c1_def t4_s1_def t4_done_def t5_l1_def t5_l2_def t5_c1_def t5_s1_def

lemmas suite_code = thread_functions_def TestSuite_def t1_t1_def t1_t2_def t1_t3_def t2_t1_def t2_t2_def t3_waiter_def
  t3_signaller_def t4_waiter_def t4_signaller_def t5_t1_def t5_t2_def

text \<open>The last state of the run.\<close>

definition suite_output :: "string list" where
  "suite_output = [starting_1, t1_t1_acquired, t1_t2_trying, t1_t3_trying, t1_t3_trying, t1_t3_trying,
     t1_t1_working, t1_t1_releasing, t1_t2_acquired, t1_t2_releasing,
     starting_2, completes, t2_t1_signalling, t2_t1_releasing, t2_t2_waiting, starting_3,
     t3_waiting 0, t3_waiting 1, t3_waiting 2, t3_waiting 3, t3_waiting 4, t3_signalling, t3_releasing,
     t3_freed 0, starting_4,
     t4_waiting 0, t4_waiting 1, t4_waiting 2, t4_waiting 3, t4_waiting 4, t4_broadcasting, t4_releasing,
     t4_freed 0, t4_freed 1, t4_freed 2, t4_freed 3, t4_freed 4,
     starting_5, completes, t5_t1_waiting, t5_t2_signalling, t5_t2_releasing_l2, t5_t2_releasing_l1]"

definition suite_end :: run where
  "suite_end = \<lparr>
     code = tab [[], [], [], [], [], [Print t2_t2_releasing, Do (Op_Release t2_l1)], [],
        [Print (t3_freed 1), Do (Op_Release t3_l1), Do (Op_V t3_done)], [Print (t3_freed 2), Do (Op_Release t3_l1), Do (Op_V t3_done)],
        [Print (t3_freed 3), Do (Op_Release t3_l1), Do (Op_V t3_done)], [Print (t3_freed 4), Do (Op_Release t3_l1), Do (Op_V t3_done)],
        [], [], [], [], [], [], [], [Print t5_t1_releasing, Do (Op_Release t5_l1)], []] [],
     krn = \<lparr>currentThread = 19, readyList = [], status = tab (replicate 20 BLOCKED) JUST_CREATED,
        conts = tab [Finished, Finished, Finished, Finished, Finished, Reacquire t2_l1, Finished, Reacquire t3_l1, Reacquire t3_l1,
          Reacquire t3_l1, Reacquire t3_l1, Finished, Finished, Finished, Finished, Finished, Finished, Finished, Reacquire t5_l1,
          Finished] Returned,
        idle = True, threadToBeDestroyed = Some 19, deleted = {16, 15, 14, 13, 12, 17, 6, 11, 4, 2, 1, 3},
        sems = tab (replicate 11 (new_Semaphore 0)) (new_Semaphore 0),
        locks = tab (replicate 6 (new_Lock None)) (new_Lock None),
        conds = tab [\<lparr>waitingLock = Some t2_l1, cqueue = [5]\<rparr>, \<lparr>waitingLock = Some t3_l1, cqueue = [7, 8, 9, 10]\<rparr>,
          \<lparr>waitingLock = None, cqueue = []\<rparr>, \<lparr>waitingLock = Some t5_l1, cqueue = [18]\<rparr>] (new_Condition None)\<rparr>,
     printed_lines = suite_output\<rparr>"

lemma suite_evaluated: "run_lines 400 suite = Some (Inr suite_end)"
  unfolding suite_run start_kernel_def suite_end_def
  by (simp add: run_simps kernel_simps suite_code suite_objects suite_output_def replicate_numeral)

section \<open>Properties\<close>

lemma ping_run:
  "ping_pong = \<lparr>code = tab [Do (Op_Fork 1) # SimpleThread 0, SimpleThread 1] [], krn = start_kernel, printed_lines = []\<rparr>"
  by (auto simp: ping_pong_def start_kernel tab_def ThreadTest_def fun_eq_iff less_2_cases_iff)

text \<open>The two threads of the first test take turns.\<close>

lemma ping_pong_takes_turns:
  "printed_by 100 ping_pong = concat (map (\<lambda>num. [looped 0 num, looped 1 num]) [0, 1, 2, 3, 4])"
  unfolding printed_by_def ping_run start_kernel_def
  by (simp add: run_simps kernel_simps SimpleThread_def replicate_numeral)

lemma below_20: "(t::nat) < 20 \<longleftrightarrow> t \<in> {0, 1, 2, 3, 4, 5, 6, 7, 8, 9, 10, 11, 12, 13, 14, 15, 16, 17, 18, 19}"
  unfolding insert_iff empty_iff by arith

text \<open>
  The run of the test suite. Without time slices it ends, with the CPU idle, every lock free and every
  semaphore at its first value. The lines are those that the tests print; the messages that \<open>Release\<close> and
  \<open>Signal\<close> print when they refuse a call are not part of the model. The three releases of a lock by a thread
  that does not hold it do nothing (test 1), the signal before the wait is lost, so that \<open>t2_t2\<close> does not
  complete (test 2), one signal frees one of five waiting threads (test 3), a broadcast frees all five in
  the order in which they came (test 4), and a signal under the wrong lock frees nobody, so that \<open>t5_t1\<close>
  does not complete (test 5). The thread that gave this signal goes on: the comment of the suite calls it a
  fatal error, which would terminate the thread, and the code returns from \<open>Signal\<close>.
\<close>

lemma test_suite_passes:
  "\<exists>r. run_lines 400 suite = Some (Inr r) \<and> idle (krn r) \<and> printed_lines r = suite_output \<and>
     {t. t < 20 \<and> conts (krn r) t \<noteq> Finished} = {5, 7, 8, 9, 10, 18} \<and>
     cqueue (conds (krn r) t2_c1) = [5] \<and> cqueue (conds (krn r) t3_c1) = [7, 8, 9, 10] \<and>
     cqueue (conds (krn r) t4_c1) = [] \<and> cqueue (conds (krn r) t5_c1) = [18] \<and>
     (\<forall>l. locks (krn r) l = new_Lock None) \<and> (\<forall>s. sems (krn r) s = new_Semaphore 0)"
proof (intro exI conjI)
  show "run_lines 400 suite = Some (Inr suite_end)" by (rule suite_evaluated)
  show "{t. t < 20 \<and> conts (krn suite_end) t \<noteq> Finished} = {5, 7, 8, 9, 10, 18}"
    unfolding below_20 by (auto simp: suite_end_def tab_get)
  show "\<forall>l. locks (krn suite_end) l = new_Lock None" "\<forall>s. sems (krn suite_end) s = new_Semaphore 0"
    by (simp_all add: suite_end_def const_tab [symmetric])
qed (simp_all add: suite_end_def tab_get t2_c1_def t3_c1_def t4_c1_def t5_c1_def)

end
