(* ===== verification/Monitor.thy ===== *)
theory Monitor
  imports Thread_Invariant
begin

text \<open>
  What every routine of the kernel does to the threads that use one lock together with one condition
  variable (threads/synch.cc, threads/scheduler.cc), for the clients that are written as monitors.
\<close>

section \<open>The role of a thread in a monitor\<close>

text \<open>
  For the lock \<open>l\<close> and the condition \<open>c\<close>: a thread owns the lock and can run, waits for the lock, waits on the
  condition, has been signalled and will ask for the lock again, or has nothing to do with them. \<open>Astray\<close> is
  a thread that owns the lock and sleeps somewhere else.
\<close>

datatype role = Owner | Wants | Waits | Woken | Away | Astray

definition role_of :: "lid \<Rightarrow> cid \<Rightarrow> kernel \<Rightarrow> tid \<Rightarrow> role" where
  "role_of l c k u =
     (if threadWithPossession (locks k l) = Some u then
        if status k u = RUNNING \<or> u \<in> set (readyList k) \<and> conts k u \<in> {Returned, AcquireDone l} then Owner else Astray
      else if u \<in> set (lqueue (locks k l)) then Wants
      else if u \<in> set (cqueue (conds k c)) then Waits
      else if u \<in> set (readyList k) \<and> conts k u = Reacquire l then Woken
      else Away)"

definition becomes :: "role \<Rightarrow> role \<Rightarrow> bool" where
  "becomes r r' \<longleftrightarrow> r = Astray \<or> r' = r \<or> r = Woken \<and> (r' = Owner \<or> r' = Wants)"

definition settles :: "lid \<Rightarrow> cid \<Rightarrow> kernel \<Rightarrow> kernel \<Rightarrow> bool" where
  "settles l c k k' \<longleftrightarrow> (\<forall>u. becomes (role_of l c k u) (role_of l c k' u))"

lemma becomes_refl [simp]: "becomes r r"
  by (simp add: becomes_def)

lemma becomes_trans: "becomes r s \<Longrightarrow> becomes s t \<Longrightarrow> becomes r t"
  by (auto simp: becomes_def)

lemma settles_refl: "settles l c k k"
  by (simp add: settles_def)

lemma settles_trans: "settles l c k k1 \<Longrightarrow> settles l c k1 k2 \<Longrightarrow> settles l c k k2"
  unfolding settles_def by (blast intro: becomes_trans)

lemma settles_same: "(\<And>u. role_of l c k' u = role_of l c k u) \<Longrightarrow> settles l c k k'"
  by (simp add: settles_def)

section \<open>Dispatching\<close>

text \<open>What \<open>dispatch\<close> does with the first ready thread.\<close>

definition dispatched :: "tid \<Rightarrow> tid list \<Rightarrow> kernel \<Rightarrow> kernel \<Rightarrow> bool" where
  "dispatched t ts k k2 \<longleftrightarrow> readyList k2 = ts \<and> conts k2 = (conts k)(t := Returned) \<and>
     status k2 = (status k)(t := RUNNING) \<and> currentThread k2 = t \<and> conds k2 = conds k \<and> locks k2 = locks k \<and>
     idle k2 = False"

lemma dispatch_first:
  assumes "asleep k" "readyList k = t # ts" "dispatch k = Inr k'"
  shows "\<exists>k2. dispatched t ts k k2 \<and> (case conts k t of
      RetryP s \<Rightarrow> (\<exists>b k3. P_try s k2 = (b, k3) \<and> (if b then k' = k3 else
        asleep (mark_blocked (RetryP s) k3) \<and> dispatch (mark_blocked (RetryP s) k3) = Inr k'))
    | Reacquire l \<Rightarrow> (\<exists>b k3. Acquire_try l k2 = (b, k3) \<and> (if b then k' = k3 else
        asleep (mark_blocked (AcquireDone l) k3) \<and> dispatch (mark_blocked (AcquireDone l) k3) = Inr k'))
    | _ \<Rightarrow> k' = k2)"
proof -
  obtain loc where k: "kinv loc k" "status k (currentThread k) \<noteq> RUNNING"
    using assms(1) by (auto simp: asleep_def)
  define k1 where "k1 = run_next t ts k"
  note core = run_next_core [OF k assms(2), folded k1_def]
  note sem = run_next_sems [OF k(1) assms(2), folded k1_def]
  have dsp: "dispatch k = (if conts k t = Start then Inr k1
    else bind_result (destroy_carcass k1) (\<lambda>k2.
      case conts k t of
        RetryP s \<Rightarrow> (case P_try s k2 of (True, k3) \<Rightarrow> Inr k3
           | (False, k3) \<Rightarrow> dispatch (mark_blocked (RetryP s) k3))
      | Reacquire l \<Rightarrow> (case Acquire_try l k2 of (True, k3) \<Rightarrow> Inr k3
           | (False, k3) \<Rightarrow> dispatch (mark_blocked (AcquireDone l) k3))
      | _ \<Rightarrow> Inr k2))"
    using assms(2) by (subst dispatch.simps) (simp add: FindNextToRun_def Let_def k1_def run_next_def)
  have d1: "dispatched t ts k k1" by (simp add: dispatched_def k1_def run_next_def)
  obtain k2 where k2: "destroy_carcass k1 = Inr k2" "kcore (loc(t := None)) k2" "currentThread k2 = t"
    "status k2 = status k1" "conts k2 = conts k1" "readyList k2 = ts" "locks k2 = locks k"
    "sems k2 = sems k" "idle k2 = False"
    using destroy_ok [OF core(1,3)] by (auto simp: k1_def run_next_def)
  have "conds k2 = conds k1" using k2(1) by (auto simp: destroy_carcass_def split: option.splits)
  then have d2: "dispatched t ts k k2" using k2 by (simp add: dispatched_def k1_def run_next_def)
  have run2: "status k2 (currentThread k2) = RUNNING" using core(3) k2 by (simp add: k1_def run_next_def)
  have wok: "woken k2 = woken k1" using k2 by (simp add: woken_def fun_eq_iff k1_def run_next_def)
  have same: "sems k1 = sems k" by (simp add: k1_def run_next_def)
  show ?thesis
  proof (cases "conts k t")
    case Start
    then show ?thesis using dsp assms(3) d1 by (intro exI [of _ k1]) simp
  next
    case (RetryP s)
    have "sems_slack s k2" using sem RetryP k2 wok same by (simp add: sems_slack_def)
    note p = P_try_kinv [OF k2(2) run2 this]
    obtain b k3 where b: "P_try s k2 = (b, k3)" by (cases "P_try s k2")
    then show ?thesis using dsp assms(3) d2 k2(1) RetryP p
      by (intro exI [of _ k2]) (cases b; auto)
  next
    case (Reacquire l)
    have "sems_ok k2" using sem Reacquire k2 wok same by (simp add: sems_ok_def)
    then have "awake k2" using k2(2) run2 by (auto simp: awake_def kinv_def)
    note p = Acquire_try_kinv [OF this, of l]
    obtain b k3 where b: "Acquire_try l k2 = (b, k3)" by (cases "Acquire_try l k2")
    then show ?thesis using dsp assms(3) d2 k2(1) Reacquire p
      by (intro exI [of _ k2]) (cases b; auto)
  qed (use dsp assms(3) d2 k2(1) in \<open>auto intro!: exI [of _ k2]\<close>)
qed

lemma dispatch_idle: "readyList k = [] \<Longrightarrow> dispatch k = Inr (k\<lparr>idle := True\<rparr>)"
  by (subst dispatch.simps) (simp add: FindNextToRun_def)

text \<open>The first ready thread: what it is and where it is not.\<close>

lemma first_ready:
  assumes "asleep k" "readyList k = t # ts"
  shows "t \<notin> set ts" "t \<notin> set (lqueue (locks k l))" "t \<notin> set (cqueue (conds k c))" "status k t = READY"
    "conts k t = AcquireDone l \<Longrightarrow> threadWithPossession (locks k l) = Some t"
    "threadWithPossession (locks k l) = Some u \<Longrightarrow> u \<notin> set (lqueue (locks k l))"
    "lstate (locks k l) = FREE \<longleftrightarrow> threadWithPossession (locks k l) = None"
proof -
  obtain loc where k: "kinv loc k" "status k (currentThread k) \<noteq> RUNNING" using assms(1) by (auto simp: asleep_def)
  note q = queue_loc [OF kinvD(7) [OF k(1)], of InReady t ts]
  have t: "loc t = Some InReady" "t \<notin> set ts" using assms(2) q by auto
  then show "t \<notin> set ts" by simp
  show "t \<notin> set (lqueue (locks k l))" using queues_okD(2) [OF kinvD(1) [OF k(1)], of t "AtLock l"] t by simp
  show "t \<notin> set (cqueue (conds k c))" using queues_okD(2) [OF kinvD(1) [OF k(1)], of t "AtCond c"] t by simp
  show "status k t = READY" using thread_ok_cases(1) [OF kinvD(7) [OF k(1)] t(1)] by simp
  show "threadWithPossession (locks k l) = Some t" if "conts k t = AcquireDone l"
    using kinvD(3) [OF k(1), of t] t that by simp
  show "u \<notin> set (lqueue (locks k l))" if "threadWithPossession (locks k l) = Some u"
    using kinvD(2) [OF k(1)] that by (simp add: locks_ok_def)
  show "lstate (locks k l) = FREE \<longleftrightarrow> threadWithPossession (locks k l) = None"
    using kinvD(2) [OF k(1)] by (simp add: locks_ok_def)
qed

text \<open>Running it, and putting it to sleep again, seen from a monitor it is not waking up in.\<close>

lemma run_first_settles:
  assumes "asleep k" "readyList k = t # ts" "dispatched t ts k k2" "conts k t \<noteq> Reacquire l"
    and "readyList k3 = ts" "conts k3 = conts k2" "status k3 = status k2" "conds k3 = conds k"
      "locks k3 l = locks k l"
  shows "settles l c k k3"
  unfolding settles_def
proof
  fix u
  note f = first_ready [OF assms(1,2)]
  show "becomes (role_of l c k u) (role_of l c k3 u)"
    using assms(2-9) f(1,4) f(2,5) [of l] f(3) [of c]
    by (cases "u = t"; cases "threadWithPossession (locks k l) = Some u")
      (auto simp: role_of_def becomes_def dispatched_def)
qed

lemma block_first_settles:
  assumes "asleep k" "readyList k = t # ts" "dispatched t ts k k2" "conts k t \<notin> {Returned, AcquireDone l, Reacquire l}"
    and "readyList k3 = ts" "conts k3 = conts k2" "status k3 = status k2" "conds k3 = conds k"
      "locks k3 l = locks k l" "currentThread k3 = t" "co \<noteq> Returned"
  shows "settles l c k (mark_blocked co k3)"
  unfolding settles_def
proof
  fix u
  note f = first_ready [OF assms(1,2)]
  show "becomes (role_of l c k u) (role_of l c (mark_blocked co k3) u)"
    using assms(2-11) f(1,4) f(2,5) [of l] f(3) [of c]
    by (cases "u = t"; cases "threadWithPossession (locks k l) = Some u")
      (auto simp: role_of_def becomes_def dispatched_def)
qed

text \<open>A thread that comes back from a condition asks for its lock.\<close>

lemma reacquire_first_settles:
  assumes "asleep k" "readyList k = t # ts" "dispatched t ts k k2" "conts k t = Reacquire l" "Acquire_try l k2 = (b, k3)"
  shows "settles l c k (if b then k3 else mark_blocked (AcquireDone l) k3)"
  unfolding settles_def
proof
  fix u
  note f = first_ready [OF assms(1,2)]
  note d = assms(3) [unfolded dispatched_def]
  consider "threadWithPossession (locks k l) = Some t" "b" "k3 = k2"
    | "threadWithPossession (locks k l) = None" "b" "k3 = set_lock l ((locks k l)\<lparr>lstate := BUSY, threadWithPossession := Some t\<rparr>) k2"
    | "threadWithPossession (locks k l) \<noteq> Some t" "\<not> b" "k3 = set_lock l ((locks k l)\<lparr>lqueue := lqueue (locks k l) @ [t]\<rparr>) k2"
    using assms(5) d f(7) [of l]
    by (auto simp: Acquire_try_def isHeldByCurrentThread_def Let_def list_append_def split: if_splits)
  then show "becomes (role_of l c k u) (role_of l c (if b then k3 else mark_blocked (AcquireDone l) k3) u)"
  proof cases
    case 1
    then show ?thesis using assms(2,4) d f(1) by (cases "u = t") (auto simp: role_of_def becomes_def)
  next
    case 2
    then show ?thesis using assms(2,4) d f(1,4) f(2) [of l] f(3) [of c] by (cases "u = t") (auto simp: role_of_def becomes_def)
  next
    case 3
    then show ?thesis using assms(2,4) d f(1,4) f(2,6) [of l] f(3) [of c]
      by (cases "u = t") (auto simp: role_of_def becomes_def)
  qed
qed

lemma dispatch_settles:
  "asleep k \<Longrightarrow> dispatch k = Inr k' \<Longrightarrow> settles l c k k' \<and> conds k' = conds k \<and> (idle k' \<longrightarrow> readyList k' = [])"
proof (induction "length (readyList k)" arbitrary: k rule: less_induct)
  case less
  show ?case
  proof (cases "readyList k")
    case Nil
    then show ?thesis using less(3) by (auto simp: dispatch_idle intro!: settles_same simp: role_of_def)
  next
    case (Cons t ts)
    obtain k2 where k2: "dispatched t ts k k2" and oc: "case conts k t of
        RetryP s \<Rightarrow> (\<exists>b k3. P_try s k2 = (b, k3) \<and> (if b then k' = k3 else
          asleep (mark_blocked (RetryP s) k3) \<and> dispatch (mark_blocked (RetryP s) k3) = Inr k'))
      | Reacquire l \<Rightarrow> (\<exists>b k3. Acquire_try l k2 = (b, k3) \<and> (if b then k' = k3 else
          asleep (mark_blocked (AcquireDone l) k3) \<and> dispatch (mark_blocked (AcquireDone l) k3) = Inr k'))
      | _ \<Rightarrow> k' = k2"
      using dispatch_first [OF less(2) Cons less(3)] by blast
    have again: ?thesis if "asleep (mark_blocked co k3)" "dispatch (mark_blocked co k3) = Inr k'" "readyList k3 = ts"
      "conds k3 = conds k" "settles l c k (mark_blocked co k3)" for co k3
    proof -
      have "settles l c (mark_blocked co k3) k' \<and> conds k' = conds (mark_blocked co k3) \<and> (idle k' \<longrightarrow> readyList k' = [])"
        using less(1) [OF _ that(1,2)] that(3) Cons by simp
      then show ?thesis using settles_trans [OF that(5)] that(4) by simp
    qed
    note d = k2 [unfolded dispatched_def]
    show ?thesis
    proof (cases "conts k t")
      case (RetryP s)
      then obtain b k3 where b: "P_try s k2 = (b, k3)" "if b then k' = k3 else
          asleep (mark_blocked (RetryP s) k3) \<and> dispatch (mark_blocked (RetryP s) k3) = Inr k'" using oc by auto
      have k3: "readyList k3 = ts" "conts k3 = conts k2" "status k3 = status k2" "conds k3 = conds k" "locks k3 = locks k"
        "currentThread k3 = t" "idle k3 = False"
        using b(1) d by (auto simp: P_try_def Let_def split: if_splits)
      show ?thesis
      proof (cases b)
        case True
        then show ?thesis using b(2) k3 run_first_settles [OF less(2) Cons k2 _ k3(1-4)] RetryP by simp
      next
        case False
        then show ?thesis using b(2) k3(1,4) RetryP
          by (intro again [of "RetryP s" k3] block_first_settles [OF less(2) Cons k2 _ k3(1-4) _ k3(6)]) (simp_all add: k3)
      qed
    next
      case (Reacquire l')
      then obtain b k3 where b: "Acquire_try l' k2 = (b, k3)" "if b then k' = k3 else
          asleep (mark_blocked (AcquireDone l') k3) \<and> dispatch (mark_blocked (AcquireDone l') k3) = Inr k'" using oc by auto
      have k3: "readyList k3 = ts" "conts k3 = conts k2" "status k3 = status k2" "conds k3 = conds k"
        "currentThread k3 = t" "idle k3 = False" and l: "l' \<noteq> l \<Longrightarrow> locks k3 l = locks k l"
        using b(1) d by (auto simp: Acquire_try_def Let_def split: if_splits)
      have "settles l c k (if b then k3 else mark_blocked (AcquireDone l') k3)"
      proof (cases "l' = l")
        case True
        have "settles l c k (if b then k3 else mark_blocked (AcquireDone l) k3)"
          by (rule reacquire_first_settles [OF less(2) Cons k2 _ b(1) [unfolded True]]) (simp add: Reacquire True)
        then show ?thesis by (cases b) (simp_all add: True)
      next
        case False
        then show ?thesis using run_first_settles [OF less(2) Cons k2 _ k3(1-4) l]
            block_first_settles [OF less(2) Cons k2 _ k3(1-4) l k3(5)] Reacquire by simp
      qed
      then show ?thesis using b(2) k3 again [of "AcquireDone l'" k3] by (cases b) simp_all
    qed (use oc d run_first_settles [OF less(2) Cons k2, where ?k3.0 = k2] in simp_all)
  qed
qed

section \<open>Threads that use other locks and conditions\<close>

text \<open>Where the running thread and the threads of other queues stand.\<close>

lemma running_places:
  assumes "kinv loc k" "status k (currentThread k) = RUNNING"
  shows "loc (currentThread k) = None" "currentThread k \<notin> set (lqueue (locks k l))"
    "currentThread k \<notin> set (cqueue (conds k c))" "currentThread k \<notin> set (readyList k)"
proof -
  show n: "loc (currentThread k) = None" by (rule running_alone [OF kinvD(7) [OF assms(1)] assms(2)])
  note q = queues_okD(2) [OF kinvD(1) [OF assms(1)], of "currentThread k"]
  show "currentThread k \<notin> set (lqueue (locks k l))" using q [of "AtLock l"] n by simp
  show "currentThread k \<notin> set (cqueue (conds k c))" using q [of "AtCond c"] n by simp
  show "currentThread k \<notin> set (readyList k)" using q [of InReady] n by simp
qed

lemma current_role:
  assumes "kinv loc k" "status k (currentThread k) = RUNNING"
  shows "role_of l c k (currentThread k) =
    (if threadWithPossession (locks k l) = Some (currentThread k) then Owner else Away)"
  using running_places [OF assms] assms(2) by (simp add: role_of_def)

lemma queue_places:
  assumes "kinv loc k" "queue_at k p = u # q" "p \<noteq> InReady"
  shows "u \<notin> set (readyList k)" "p \<noteq> AtLock l \<Longrightarrow> u \<notin> set (lqueue (locks k l))"
    "p \<noteq> AtCond c \<Longrightarrow> u \<notin> set (cqueue (conds k c))" "status k u \<noteq> RUNNING" "u \<notin> set q"
proof -
  note l = queue_loc [OF kinvD(7) [OF assms(1)] assms(2)]
  note q = queues_okD(2) [OF kinvD(1) [OF assms(1)], of u]
  show "u \<notin> set (readyList k)" using q [of InReady] l assms(3) by simp
  show "p \<noteq> AtLock l \<Longrightarrow> u \<notin> set (lqueue (locks k l))" using q [of "AtLock l"] l by simp
  show "p \<noteq> AtCond c \<Longrightarrow> u \<notin> set (cqueue (conds k c))" using q [of "AtCond c"] l by simp
  show "status k u \<noteq> RUNNING" by (rule queued_not_running [OF assms(1,2)])
  show "u \<notin> set q" by (rule l(2))
qed

text \<open>Waking a thread that waits for something else.\<close>

lemma wake_settles:
  assumes "kinv loc k" "queue_at k p = u # q" "p \<noteq> InReady" "p \<noteq> AtLock l" "p \<noteq> AtCond c" "conts k u \<noteq> Reacquire l"
    and "readyList k' = readyList k @ [u]" "conts k' = conts k" "status k' = (status k)(u := READY)"
      "locks k' l = locks k l" "cqueue (conds k' c) = cqueue (conds k c)"
  shows "settles l c k k'"
  unfolding settles_def
proof
  fix v
  show "becomes (role_of l c k v) (role_of l c k' v)"
    using queue_places(1-4) [OF assms(1-3)] assms(4-11) by (cases "v = u") (auto simp: role_of_def becomes_def)
qed

text \<open>The running thread goes to sleep elsewhere, or lets others run.\<close>

lemma sleep_elsewhere:
  assumes "kinv loc k" "status k (currentThread k) = RUNNING" "threadWithPossession (locks k l) \<noteq> Some (currentThread k)"
    and "settles l c k k1" "\<And>u. u = currentThread k \<Longrightarrow> role_of l c k1 u = Away"
    and "currentThread k1 = currentThread k" "currentThread k \<notin> set (readyList k1)"
    and "asleep (mark_blocked co k1)" "Sleep co k1 = Inr k'"
  shows "settles l c k k' \<and> conds k' = conds k1 \<and> (idle k' \<longrightarrow> readyList k' = [])"
proof -
  have "settles l c k1 (mark_blocked co k1)"
    unfolding settles_def
  proof
    fix u
    show "becomes (role_of l c k1 u) (role_of l c (mark_blocked co k1) u)"
      using assms(5) [of u] assms(6,7) by (cases "u = currentThread k") (auto simp: role_of_def becomes_def split: if_splits)
  qed
  moreover have "settles l c (mark_blocked co k1) k' \<and> conds k' = conds (mark_blocked co k1) \<and> (idle k' \<longrightarrow> readyList k' = [])"
    using dispatch_settles [OF assms(8)] assms(9) by (simp add: Sleep_def)
  ultimately show ?thesis using settles_trans [OF assms(4)] settles_trans by simp
qed

text \<open>
  Calls on other locks and conditions. \<open>apart\<close>: threads that wait on another condition do so with another lock.
\<close>

fun foreign :: "lid \<Rightarrow> cid \<Rightarrow> kop \<Rightarrow> bool" where
  "foreign l c (Op_Acquire l') \<longleftrightarrow> l' \<noteq> l"
| "foreign l c (Op_Release l') \<longleftrightarrow> l' \<noteq> l"
| "foreign l c (Op_Wait c' lo) \<longleftrightarrow> c' \<noteq> c \<and> lo \<noteq> Some l"
| "foreign l c (Op_Signal c' lo) \<longleftrightarrow> c' \<noteq> c"
| "foreign l c (Op_Broadcast c' lo) \<longleftrightarrow> c' \<noteq> c"
| "foreign l c _ \<longleftrightarrow> True"

definition apart :: "lid \<Rightarrow> cid \<Rightarrow> kernel \<Rightarrow> bool" where
  "apart l c k \<longleftrightarrow> (\<forall>c'. c' \<noteq> c \<longrightarrow> waitingLock (conds k c') \<noteq> Some l) \<and> waitingLock (conds k c) \<in> {None, Some l}"

text \<open>What a call leaves of the monitor: roles settle, the condition is as it was, an idle CPU has no ready thread.\<close>

definition leaves :: "lid \<Rightarrow> cid \<Rightarrow> kernel \<Rightarrow> kernel \<Rightarrow> bool" where
  "leaves l c k k' \<longleftrightarrow> settles l c k k' \<and> conds k' c = conds k c \<and> (apart l c k \<longrightarrow> apart l c k') \<and>
     (idle k' \<longrightarrow> readyList k' = [])"

lemma leaves_same:
  assumes "\<And>u. role_of l c k' u = role_of l c k u" "conds k' = conds k" "\<not> idle k'"
  shows "leaves l c k k'"
  using assms settles_same [OF assms(1)] by (simp add: leaves_def apart_def)

lemma leaves_sleep:
  assumes "kinv loc k" "status k (currentThread k) = RUNNING" "threadWithPossession (locks k l) \<noteq> Some (currentThread k)"
    and "settles l c k k1" "\<And>u. u = currentThread k \<Longrightarrow> role_of l c k1 u = Away"
    and "currentThread k1 = currentThread k" "currentThread k \<notin> set (readyList k1)"
    and "asleep (mark_blocked co k1)" "Sleep co k1 = Inr k'" "conds k1 c = conds k c" "apart l c k \<longrightarrow> apart l c k1"
  shows "leaves l c k k'"
  using sleep_elsewhere [OF assms(1-9)] assms(10,11) by (simp add: leaves_def apart_def)

lemma Acquire_foreign:
  assumes "kinv loc k" "status k (currentThread k) = RUNNING" "\<not> idle k"
    and "threadWithPossession (locks k l) \<noteq> Some (currentThread k)" "l' \<noteq> l" "Acquire l' k = Inr k'"
  shows "leaves l c k k'"
proof -
  obtain b k1 where b: "Acquire_try l' k = (b, k1)" by (cases "Acquire_try l' k")
  have k1: "locks k1 l = locks k l" "conds k1 = conds k" "readyList k1 = readyList k" "conts k1 = conts k"
    "status k1 = status k" "currentThread k1 = currentThread k" "idle k1 = idle k"
    using b assms(5) by (auto simp: Acquire_try_def Let_def split: if_splits)
  then have r: "role_of l c k1 u = role_of l c k u" for u by (simp add: role_of_def)
  show ?thesis
  proof (cases b)
    case True
    then show ?thesis using assms(3,6) b k1 leaves_same [OF r k1(2)] by (simp add: Acquire_def)
  next
    case False
    have "awake k" using assms(1,2) by (auto simp: awake_def)
    from Acquire_try_kinv [OF this, of l'] have "asleep (mark_blocked (AcquireDone l') k1)" using b False by simp
    moreover have "Sleep (AcquireDone l') k1 = Inr k'" using assms(6) b False by (simp add: Acquire_def)
    ultimately show ?thesis
      using running_places [OF assms(1,2)] current_role [OF assms(1,2), of l c] assms(4) k1 r settles_same [of l c k1 k]
      by (intro leaves_sleep [OF assms(1,2,4), of c k1 "AcquireDone l'"]) (simp_all add: apart_def)
  qed
qed

lemma P_foreign:
  assumes "kinv loc k" "status k (currentThread k) = RUNNING" "\<not> idle k"
    and "threadWithPossession (locks k l) \<noteq> Some (currentThread k)" "P s k = Inr k'"
  shows "leaves l c k k'"
proof -
  obtain b k1 where b: "P_try s k = (b, k1)" by (cases "P_try s k")
  have k1: "locks k1 = locks k" "conds k1 = conds k" "readyList k1 = readyList k" "conts k1 = conts k"
    "status k1 = status k" "currentThread k1 = currentThread k" "idle k1 = idle k"
    using b by (auto simp: P_try_def Let_def split: if_splits)
  then have r: "role_of l c k1 u = role_of l c k u" for u by (simp add: role_of_def)
  show ?thesis
  proof (cases b)
    case True
    then show ?thesis using assms(3,5) b k1 leaves_same [OF r k1(2)] by (simp add: P_def)
  next
    case False
    have "sems_slack s k" using kinvD(4) [OF assms(1)] by (force simp: sems_ok_def sems_slack_def)
    from P_try_kinv [OF kinvD(7) [OF assms(1)] assms(2) this] have "asleep (mark_blocked (RetryP s) k1)"
      using b False by simp
    moreover have "Sleep (RetryP s) k1 = Inr k'" using assms(5) b False by (simp add: P_def)
    ultimately show ?thesis
      using running_places [OF assms(1,2)] current_role [OF assms(1,2), of l c] assms(4) k1 r settles_same [of l c k1 k]
      by (intro leaves_sleep [OF assms(1,2,4), of c k1 "RetryP s"]) (simp_all add: apart_def)
  qed
qed

lemma V_settles:
  assumes "kinv loc k"
  shows "settles l c k (V s k)" "conds (V s k) = conds k"
proof -
  have "settles l c k (V s k) \<and> conds (V s k) = conds k"
  proof (cases "squeue (sems k s)")
    case Nil
    then show ?thesis by (auto simp: V_def Let_def role_of_def intro!: settles_same)
  next
    case (Cons u q)
    have "loc u = Some (AtSem s)" using queue_loc(1) [OF kinvD(7) [OF assms], of "AtSem s" u q] Cons by simp
    then have "conts k u = RetryP s" using kinvD(3) [OF assms, of u] by simp
    then show ?thesis using wake_settles [OF assms, of "AtSem s" u q l c "V s k"] Cons by (simp add: V_def Let_def)
  qed
  then show "settles l c k (V s k)" "conds (V s k) = conds k" by simp_all
qed

lemma V_foreign: "kinv loc k \<Longrightarrow> \<not> idle k \<Longrightarrow> leaves l c k (V s k)"
  using V_settles V_status(3) by (simp add: leaves_def apart_def)

lemma device_V_foreign:
  assumes "kernel_inv k" "device_V s k = Inr k'"
  shows "leaves l c k k'"
proof -
  obtain loc where k: "kinv loc k" "idle k \<longleftrightarrow> status k (currentThread k) \<noteq> RUNNING"
    using assms(1) by (auto simp: kernel_inv_def)
  show ?thesis
  proof (cases "idle k")
    case True
    then have "asleep k" using k by (auto simp: asleep_def)
    then have "asleep (V s k)" by (rule V_asleep)
    from dispatch_settles [OF this, of k'] show ?thesis
      using True assms(2) V_settles(1) [OF k(1), of l c s] V_settles(2) [OF k(1), of s] settles_trans
      by (auto simp: device_V_def leaves_def apart_def)
  next
    case False
    then show ?thesis using V_foreign [OF k(1)] assms(2) by (auto simp: device_V_def)
  qed
qed

lemma Release_foreign:
  assumes "kinv loc k" "status k (currentThread k) = RUNNING" "\<not> idle k" "l' \<noteq> l"
  shows "settles l c k (Release l' k)" "conds (Release l' k) = conds k"
proof -
  have "settles l c k (Release l' k) \<and> conds (Release l' k) = conds k"
  proof (cases "isHeldByCurrentThread k l' \<and> lqueue (locks k l') \<noteq> []")
    case False
    then show ?thesis using assms(4)
      by (auto simp: Release_def Let_def role_of_def intro!: settles_same)
  next
    case True
    then obtain u q where q: "lqueue (locks k l') = u # q" by (cases "lqueue (locks k l')") auto
    have "loc u = Some (AtLock l')" using queue_loc(1) [OF kinvD(7) [OF assms(1)], of "AtLock l'" u q] q by simp
    then have "conts k u = AcquireDone l'" using kinvD(3) [OF assms(1), of u] by simp
    then show ?thesis
      using wake_settles [OF assms(1), of "AtLock l'" u q l c "Release l' k"] q True assms(4)
      by (simp add: Release_def Let_def)
  qed
  then show "settles l c k (Release l' k)" "conds (Release l' k) = conds k" by simp_all
qed

lemma Signal_foreign:
  assumes "kinv loc k" "apart l c k" "c' \<noteq> c"
  shows "settles l c k (Signal c' lo k)" "conds (Signal c' lo k) c = conds k c" "apart l c (Signal c' lo k)"
proof -
  have "settles l c k (Signal c' lo k) \<and> conds (Signal c' lo k) c = conds k c \<and> apart l c (Signal c' lo k)"
  proof (cases "\<exists>l' u q. lo = Some l' \<and> cqueue (conds k c') = u # q \<and> waitingLock (conds k c') = Some l' \<and>
      isHeldByCurrentThread k l'")
    case False
    then have "Signal c' lo k = k"
      by (cases "cqueue (conds k c')") (auto simp: Signal_def Let_def split: option.splits)
    then show ?thesis using assms(2) by (simp add: settles_refl)
  next
    case True
    then obtain l' u q where q: "lo = Some l'" "cqueue (conds k c') = u # q" "waitingLock (conds k c') = Some l'"
      "isHeldByCurrentThread k l'" by blast
    have "loc u = Some (AtCond c')" using queue_loc(1) [OF kinvD(7) [OF assms(1)], of "AtCond c'" u q] q by simp
    then have "conts k u = Reacquire l'" using kinvD(3) [OF assms(1), of u] q(3) by auto
    then show ?thesis
      using wake_settles [OF assms(1), of "AtCond c'" u q l c "Signal c' lo k"] q assms(2,3)
      by (auto simp: Signal_def Let_def apart_def)
  qed
  then show "settles l c k (Signal c' lo k)" "conds (Signal c' lo k) c = conds k c" "apart l c (Signal c' lo k)" by simp_all
qed

lemma broadcast_loop_keeps:
  assumes "broadcast_loop c l k = Some k'" "Q k" "\<And>k. Q k \<Longrightarrow> Q (Signal c (Some l) k)"
  shows "Q k'"
proof -
  have "(\<forall>k. Q k \<longrightarrow> Q (Signal c (Some l) k)) \<longrightarrow> Q k \<longrightarrow> Q k'"
    by (rule broadcast_loop.raw_induct [OF _ assms(1), of "\<lambda>c l k k'. (\<forall>k. Q k \<longrightarrow> Q (Signal c (Some l) k)) \<longrightarrow> Q k \<longrightarrow> Q k'"])
      (auto split: if_splits)
  then show ?thesis using assms(2,3) by blast
qed

lemma Broadcast_foreign:
  assumes "awake k" "\<not> idle k" "apart l c k" "c' \<noteq> c" "Broadcast c' lo k = Some k'"
  shows "leaves l c k k'"
proof -
  let ?Q = "\<lambda>k'. awake k' \<and> \<not> idle k' \<and> apart l c k' \<and> settles l c k k' \<and> conds k' c = conds k c"
  have st: "?Q (Signal c' (Some l') k1)" if "?Q k1" for l' k1
  proof -
    from that obtain loc where k1: "kinv loc k1" by (auto simp: awake_def)
    show ?thesis
      using Signal_foreign [OF k1 _ assms(4), of l "Some l'"] that Signal_frame [of c' "Some l'" k1]
        Signal_awake [of k1 c' "Some l'"] settles_trans [of l c k k1] by auto
  qed
  have "?Q k'"
  proof (cases "Broadcast c' lo k = Some k")
    case True
    then show ?thesis using assms by (simp add: settles_refl)
  next
    case False
    then obtain l' where l': "broadcast_loop c' l' k = Some k'"
      using assms(5) by (auto simp: Broadcast_def split: option.splits if_splits)
    show ?thesis by (rule broadcast_loop_keeps [OF l', of ?Q, OF _ st]) (use assms in \<open>simp_all add: settles_refl\<close>)
  qed
  then show ?thesis by (simp add: leaves_def)
qed

lemma Wait_foreign:
  assumes "awake k" "\<not> idle k" "apart l c k" "c' \<noteq> c" "lo \<noteq> Some l"
    and "threadWithPossession (locks k l) \<noteq> Some (currentThread k)" "Wait c' lo k = Inr k'"
  shows "leaves l c k k'"
proof (cases lo)
  case None
  then show ?thesis using assms(2,7) by (auto simp: Wait_def leaves_def settles_refl)
next
  case (Some l')
  with assms(5) have l': "l' \<noteq> l" by simp
  define x1 where "x1 = (if waitingLock (conds k c') = None then (conds k c')\<lparr>waitingLock := Some l'\<rparr> else conds k c')"
  define k1 where "k1 = set_cond c' x1 k"
  have k1: "awake k1" "\<not> idle k1" "currentThread k1 = currentThread k" "conds k1 c = conds k c" "apart l c k1"
    using assms set_waitingLock_awake [OF assms(1), of c' l'] l'
    by (auto simp: k1_def x1_def apart_def fun_upd_idem set_cond_def)
  have r1: "role_of l c k1 u = role_of l c k u" for u using assms(4) by (simp add: role_of_def k1_def)
  obtain loc1 where kk1: "kinv loc1 k1" "status k1 (currentThread k1) = RUNNING" using k1(1) by (auto simp: awake_def)
  show ?thesis
  proof (cases "Some l' = waitingLock x1 \<and> isHeldByCurrentThread k1 l'")
    case False
    then have "Wait c' lo k = Inr k1" using Some by (auto simp: Wait_def Let_def k1_def x1_def)
    then show ?thesis using k1 assms(7) r1 settles_same [of l c k1 k] by (simp add: leaves_def)
  next
    case True
    define k2 where "k2 = Release l' k1"
    define k3 where "k3 = set_cond c' ((conds k2 c')\<lparr>cqueue := cqueue (conds k2 c') @ [currentThread k2]\<rparr>) k2"
    have w: "Wait c' lo k = Sleep (Reacquire l') k3"
      using Some True by (simp add: Wait_def Let_def k1_def x1_def k2_def k3_def list_append_def)
    note rf = Release_foreign [OF kk1 k1(2) l', folded k2_def]
    note fr = Release_frame [of l' k1, folded k2_def]
    have "awake k2" unfolding k2_def by (rule Release_awake [OF k1(1)])
    then obtain loc where kk: "kinv loc k2" "status k2 (currentThread k2) = RUNNING" by (auto simp: awake_def)
    have "waitingLock (conds k2 c') = Some l'" using True fr by (simp add: k1_def)
    then have "kinv (loc(currentThread k2 := Some (AtCond c'))) (mark_blocked (Reacquire l') k3)"
      using kinvD(2,4) [OF kk(1)]
      by (intro block_kinv [OF kinvD(7) [OF kk(1)] kk(2)]) (auto simp: k3_def locks_ok_def sems_ok_def)
    then have as: "asleep (mark_blocked (Reacquire l') k3)" by (auto simp: asleep_def)
    have r3: "role_of l c k3 u = role_of l c k2 u" for u using assms(4) by (simp add: role_of_def k3_def)
    have "settles l c k k2" using settles_same [of l c k1 k] r1 settles_trans rf(1) by blast
    then have "settles l c k k3" using settles_trans settles_same [of l c k3 k2] r3 by blast
    moreover have "threadWithPossession (locks k2 l) \<noteq> Some (currentThread k2)"
      using assms(6) l' fr k1(3)
      by (simp add: k2_def k1_def Release_def Let_def split: list.splits option.splits prod.splits)
    moreover have "Sleep (Reacquire l') k3 = Inr k'" using assms(7) w by simp
    moreover obtain loc0 where "kinv loc0 k" "status k (currentThread k) = RUNNING" using assms(1) by (auto simp: awake_def)
    ultimately show ?thesis
      using current_role [OF kk, of l c] running_places(4) [OF kk] r3 as fr k1 rf(2) assms(4,6)
      by (intro leaves_sleep [where ?k1.0 = k3 and co = "Reacquire l'"]) (simp_all add: k3_def apart_def)
  qed
qed

lemma Yield_leaves:
  assumes "kinv loc k" "status k (currentThread k) = RUNNING" "\<not> idle k" "Yield k = Inr k'"
  shows "leaves l c k k'"
proof (cases "readyList k")
  case Nil
  then show ?thesis using assms(3,4) by (simp add: Yield_def leaves_same)
next
  case (Cons t ts)
  let ?k = "ReadyToRun (currentThread k) (k\<lparr>conts := (conts k)(currentThread k := Returned)\<rparr>)"
  have "awake k" using assms(1,2) by (auto simp: awake_def)
  then have as: "asleep ?k" by (rule Yield_asleep)
  have "role_of l c ?k u = role_of l c k u" for u
    using running_places(2-4) [OF assms(1,2)] assms(2) by (cases "u = currentThread k") (simp_all add: role_of_def)
  then have "settles l c k ?k" by (rule settles_same)
  then show ?thesis
    using dispatch_settles [OF as, of k'] assms(4) Cons settles_trans by (auto simp: Yield_def leaves_def apart_def)
qed

lemma Fork_foreign:
  assumes "kinv loc k" "\<not> idle k" "status k t = JUST_CREATED"
  shows "leaves l c k (Fork t k)"
proof -
  have n: "loc t = None" using thread_ok_cases(1) [OF kinvD(7) [OF assms(1)], of t] assms(3) by (cases "loc t") auto
  note q = queues_okD(2) [OF kinvD(1) [OF assms(1)], of t]
  have nq: "t \<notin> set (lqueue (locks k l))" "t \<notin> set (cqueue (conds k c))" "t \<notin> set (readyList k)"
    using q [of "AtLock l"] q [of "AtCond c"] q [of InReady] n by simp_all
  have "becomes (role_of l c k u) (role_of l c (Fork t k) u)" for u
    using nq assms(3) by (cases "u = t") (auto simp: role_of_def becomes_def Fork_def)
  then show ?thesis using assms(2) by (simp add: leaves_def settles_def Fork_def apart_def)
qed

lemma Finish_foreign:
  assumes "kinv loc k" "status k (currentThread k) = RUNNING"
    and "threadWithPossession (locks k l) \<noteq> Some (currentThread k)" "Finish k = Inr k'"
  shows "leaves l c k k'"
proof -
  let ?k = "k\<lparr>threadToBeDestroyed := Some (currentThread k)\<rparr>"
  have r: "role_of l c ?k u = role_of l c k u" for u by (simp add: role_of_def)
  have "awake k" using assms(1,2) by (auto simp: awake_def)
  then have "asleep (mark_blocked Finished ?k)" by (rule Finish_asleep)
  then show ?thesis
    using assms(4) r current_role [OF assms(1,2), of l c] assms(3) running_places(4) [OF assms(1,2)]
    by (intro leaves_sleep [OF assms(1-3), where ?k1.0 = ?k and co = Finished])
      (simp_all add: settles_same Finish_def apart_def)
qed

lemma exec_foreign:
  assumes "kernel_inv k" "\<not> idle k" "threadWithPossession (locks k l) \<noteq> Some (currentThread k)" "foreign l c p"
    and "apart l c k" "\<And>t. p = Op_Fork t \<Longrightarrow> status k t = JUST_CREATED" "exec p k = Some (Inr k')"
  shows "leaves l c k k'"
proof -
  obtain loc where k: "kinv loc k" "status k (currentThread k) = RUNNING"
    using assms(1,2) by (auto simp: kernel_inv_def)
  then have aw: "awake k" by (auto simp: awake_def)
  show ?thesis
  proof (cases p)
    case (Op_Acquire l')
    then show ?thesis using Acquire_foreign [OF k assms(2,3)] assms(4,7) by simp
  next
    case (Op_Release l')
    then show ?thesis using Release_foreign(1,2) [OF k assms(2), of l'] Release_frame [of l' k] assms(2,4,7)
      by (auto simp: leaves_def apart_def)
  next
    case (Op_Wait c' lo)
    then show ?thesis using Wait_foreign [OF aw assms(2,5), of c' lo k'] assms(3,4,7) by simp
  next
    case (Op_Signal c' lo)
    then show ?thesis using Signal_foreign [OF k(1) assms(5), of c' lo] Signal_frame [of c' lo k] assms(2,4,7)
      by (auto simp: leaves_def)
  next
    case (Op_Broadcast c' lo)
    then show ?thesis using Broadcast_foreign [OF aw assms(2,5)] assms(4,7) by auto
  next
    case (Op_P s)
    then show ?thesis using P_foreign [OF k assms(2,3)] assms(7) by simp
  next
    case (Op_V s)
    then show ?thesis using V_foreign [OF k(1) assms(2)] assms(7) by auto
  next
    case Op_Yield
    then show ?thesis using Yield_leaves [OF k assms(2)] assms(7) by simp
  next
    case (Op_Fork t)
    then show ?thesis using Fork_foreign [OF k(1) assms(2)] assms(6,7) by auto
  next
    case Op_Finish
    then show ?thesis using Finish_foreign [OF k assms(3)] assms(7) by simp
  qed
qed

section \<open>The calls of the monitor itself\<close>

text \<open>A step that lets a thread in that waited for the lock.\<close>

definition admits :: "lid \<Rightarrow> cid \<Rightarrow> kernel \<Rightarrow> kernel \<Rightarrow> tid \<Rightarrow> bool" where
  "admits l c k k' u \<longleftrightarrow> (\<exists>r. (r = role_of l c k u \<or> role_of l c k u = Wants \<and> r = Owner) \<and> becomes r (role_of l c k' u))"

lemma Acquire_enters:
  assumes "kinv loc k" "status k (currentThread k) = RUNNING" "\<not> idle k"
    and "threadWithPossession (locks k l) \<noteq> Some (currentThread k)" "Acquire l k = Inr k'"
  shows "role_of l c k' (currentThread k) \<in> {Owner, Wants}"
    "u \<noteq> currentThread k \<Longrightarrow> becomes (role_of l c k u) (role_of l c k' u)"
    "conds k' = conds k" "idle k' \<Longrightarrow> readyList k' = []"
proof -
  let ?t = "currentThread k"
  note pl = running_places [OF assms(1,2)]
  have free: "lstate (locks k l) = FREE \<longleftrightarrow> threadWithPossession (locks k l) = None"
    using kinvD(2) [OF assms(1)] by (simp add: locks_ok_def)
  have "role_of l c k' ?t \<in> {Owner, Wants} \<and> (\<forall>u. u \<noteq> ?t \<longrightarrow> becomes (role_of l c k u) (role_of l c k' u)) \<and>
    conds k' = conds k \<and> (idle k' \<longrightarrow> readyList k' = [])"
  proof (cases "lstate (locks k l) = FREE")
    case True
    then have "k' = set_lock l ((locks k l)\<lparr>lstate := BUSY, threadWithPossession := Some ?t\<rparr>) k"
      using assms(4,5) by (simp add: Acquire_def Acquire_try_def Let_def isHeldByCurrentThread_def)
    then show ?thesis using assms(2,3) True free by (auto simp: role_of_def)
  next
    case False
    define k1 where "k1 = set_lock l ((locks k l)\<lparr>lqueue := lqueue (locks k l) @ [?t]\<rparr>) k"
    have tr: "Acquire_try l k = (False, k1)"
      using False assms(4) by (simp add: Acquire_try_def Let_def isHeldByCurrentThread_def k1_def list_append_def)
    have "awake k" using assms(1,2) by (auto simp: awake_def)
    from Acquire_try_kinv [OF this, of l] have as: "asleep (mark_blocked (AcquireDone l) k1)" using tr by simp
    have "dispatch (mark_blocked (AcquireDone l) k1) = Inr k'" using assms(5) tr by (simp add: Acquire_def Sleep_def)
    note d = dispatch_settles [OF as this, of l c]
    have me: "role_of l c (mark_blocked (AcquireDone l) k1) ?t = Wants"
      using assms(4) by (simp add: role_of_def k1_def)
    have b: "becomes (role_of l c (mark_blocked (AcquireDone l) k1) u) (role_of l c k' u)" for u
      using d by (simp add: settles_def)
    have "becomes (role_of l c k u) (role_of l c k' u)" if "u \<noteq> ?t" for u
    proof -
      have "role_of l c (mark_blocked (AcquireDone l) k1) u = role_of l c k u" using that by (simp add: role_of_def k1_def)
      then show ?thesis using b [of u] by simp
    qed
    moreover have "role_of l c k' ?t \<in> {Owner, Wants}" using b [of ?t] unfolding me by (simp add: becomes_def)
    ultimately show ?thesis using d by (simp add: k1_def)
  qed
  then show "role_of l c k' ?t \<in> {Owner, Wants}" "u \<noteq> ?t \<Longrightarrow> becomes (role_of l c k u) (role_of l c k' u)"
    "conds k' = conds k" "idle k' \<Longrightarrow> readyList k' = []" by blast+
qed

lemma Release_leaves:
  assumes "kinv loc k" "status k (currentThread k) = RUNNING" "threadWithPossession (locks k l) = Some (currentThread k)"
  shows "role_of l c (Release l k) (currentThread k) = Away"
    "u \<noteq> currentThread k \<Longrightarrow> admits l c k (Release l k) u" "awake (Release l k)"
proof -
  note pl = running_places [OF assms(1,2)]
  have busy: "lstate (locks k l) = BUSY"
    using kinvD(2) [OF assms(1)] assms(3) by (cases "lstate (locks k l)") (auto simp: locks_ok_def)
  have "role_of l c (Release l k) (currentThread k) = Away \<and>
    (\<forall>u. u \<noteq> currentThread k \<longrightarrow> admits l c k (Release l k) u)"
  proof (cases "lqueue (locks k l)")
    case Nil
    then show ?thesis using pl(3,4) assms(3)
      by (auto simp: Release_def Let_def isHeldByCurrentThread_def admits_def role_of_def)
  next
    case (Cons v q)
    note qp = queue_places [OF assms(1), of "AtLock l" v q]
    have "loc v = Some (AtLock l)" using queue_loc(1) [OF kinvD(7) [OF assms(1)], of "AtLock l" v q] Cons by simp
    then have ct: "conts k v = AcquireDone l" using kinvD(3) [OF assms(1), of v] by simp
    have R: "Release l k = ReadyToRun v (set_lock l ((locks k l)\<lparr>lqueue := q, threadWithPossession := Some v\<rparr>) k)"
      using Cons assms(3) by (simp add: Release_def Let_def isHeldByCurrentThread_def)
    have v: "v \<noteq> currentThread k" using pl(2) [of l] Cons by auto
    have "admits l c k (Release l k) u" if "u \<noteq> currentThread k" for u
    proof (cases "u = v")
      case True
      then have "role_of l c k u = Wants" "role_of l c (Release l k) u = Owner"
        using Cons assms(3) v ct by (simp_all add: role_of_def R)
      then show ?thesis by (auto simp: admits_def)
    next
      case False
      then have "role_of l c (Release l k) u = role_of l c k u"
        using Cons assms(3) that by (auto simp: role_of_def R)
      then show ?thesis by (auto simp: admits_def)
    qed
    moreover have "role_of l c (Release l k) (currentThread k) = Away"
      using pl(2) [of l] pl(3) [of c] pl(4) Cons v by (simp add: role_of_def R)
    ultimately show ?thesis by blast
  qed
  then show "role_of l c (Release l k) (currentThread k) = Away"
    "u \<noteq> currentThread k \<Longrightarrow> admits l c k (Release l k) u" by blast+
  show "awake (Release l k)" using assms(1,2) by (intro Release_awake) (auto simp: awake_def)
qed

lemma Signal_wakes:
  assumes "kinv loc k" "status k (currentThread k) = RUNNING" "isHeldByCurrentThread k l" "waitingLock (conds k c) \<in> {None, Some l}"
  shows "cqueue (conds (Signal c (Some l) k) c) = tl (cqueue (conds k c))"
    "role_of l c (Signal c (Some l) k) u =
       (if cqueue (conds k c) \<noteq> [] \<and> u = hd (cqueue (conds k c)) then Woken else role_of l c k u)"
    "\<And>c'. c' \<noteq> c \<Longrightarrow> conds (Signal c (Some l) k) c' = conds k c'"
    "waitingLock (conds (Signal c (Some l) k) c) \<in> {None, Some l}"
proof -
  have "cqueue (conds (Signal c (Some l) k) c) = tl (cqueue (conds k c)) \<and>
    role_of l c (Signal c (Some l) k) u =
       (if cqueue (conds k c) \<noteq> [] \<and> u = hd (cqueue (conds k c)) then Woken else role_of l c k u) \<and>
    (\<forall>c'. c' \<noteq> c \<longrightarrow> conds (Signal c (Some l) k) c' = conds k c') \<and>
    waitingLock (conds (Signal c (Some l) k) c) \<in> {None, Some l}"
  proof (cases "cqueue (conds k c)")
    case Nil
    then show ?thesis using assms(4) by (simp add: Signal_def Let_def)
  next
    case (Cons v q)
    note qp = queue_places [OF assms(1), of "AtCond c" v q]
    have "loc v = Some (AtCond c)" using queue_loc(1) [OF kinvD(7) [OF assms(1)], of "AtCond c" v q] Cons by simp
    then have ct: "conts k v = Reacquire l" "waitingLock (conds k c) = Some l"
      using kinvD(3) [OF assms(1), of v] assms(4) by auto
    have S: "Signal c (Some l) k = set_cond c ((conds k c)\<lparr>cqueue := q, waitingLock := (if q = [] then None else Some l)\<rparr>)
        (ReadyToRun v k)"
      using Cons assms(3) ct by (simp add: Signal_def Let_def)
    have "role_of l c (Signal c (Some l) k) u = (if u = v then Woken else role_of l c k u)"
    proof (cases "u = v")
      case True
      have "threadWithPossession (locks k l) \<noteq> Some v"
        using assms(2,3) qp(4) Cons by (auto simp: isHeldByCurrentThread_def)
      then show ?thesis using True qp(2) [of l] qp(5) ct Cons by (simp add: role_of_def S)
    next
      case False
      then show ?thesis using Cons by (auto simp: role_of_def S)
    qed
    then show ?thesis using Cons by (simp add: S)
  qed
  then show "cqueue (conds (Signal c (Some l) k) c) = tl (cqueue (conds k c))"
    "role_of l c (Signal c (Some l) k) u =
       (if cqueue (conds k c) \<noteq> [] \<and> u = hd (cqueue (conds k c)) then Woken else role_of l c k u)"
    "\<And>c'. c' \<noteq> c \<Longrightarrow> conds (Signal c (Some l) k) c' = conds k c'"
    "waitingLock (conds (Signal c (Some l) k) c) \<in> {None, Some l}" by blast+
qed

text \<open>\<open>Wait\<close> on the condition with the lock: the thread joins the queue, one that waits for the lock may get it.\<close>

lemma Wait_joins:
  assumes "kinv loc k" "status k (currentThread k) = RUNNING" "\<not> idle k" "isHeldByCurrentThread k l" "apart l c k"
    and "Wait c (Some l) k = Inr k'"
  shows "cqueue (conds k' c) = cqueue (conds k c) @ [currentThread k]" "role_of l c k' (currentThread k) = Waits"
    "u \<noteq> currentThread k \<Longrightarrow> admits l c k k' u" "apart l c k'" "idle k' \<Longrightarrow> readyList k' = []"
proof -
  let ?t = "currentThread k"
  define k1 where "k1 = set_cond c ((conds k c)\<lparr>waitingLock := Some l\<rparr>) k"
  have own: "threadWithPossession (locks k l) = Some ?t" using assms(4) by (simp add: isHeldByCurrentThread_def)
  have "awake k" using assms(1,2) by (auto simp: awake_def)
  have k1: "awake k1"
  proof (cases "waitingLock (conds k c) = None")
    case True
    then show ?thesis using set_waitingLock_awake [OF \<open>awake k\<close>] by (simp add: k1_def)
  next
    case False
    then have "(conds k c)\<lparr>waitingLock := Some l\<rparr> = conds k c" using assms(5) by (cases "conds k c") (auto simp: apart_def)
    then have "k1 = k" by (simp add: k1_def set_cond_def)
    then show ?thesis using \<open>awake k\<close> by simp
  qed
  then obtain loc1 where kk1: "kinv loc1 k1" "status k1 (currentThread k1) = RUNNING" by (auto simp: awake_def)
  have r1: "role_of l c k1 u = role_of l c k u" for u by (simp add: role_of_def k1_def)
  define k2 where "k2 = Release l k1"
  have "threadWithPossession (locks k1 l) = Some (currentThread k1)" using own by (simp add: k1_def)
  note R = Release_leaves [OF kk1 this, folded k2_def]
  note fr = Release_frame [of l k1, folded k2_def]
  from R(3) obtain loc2 where kk2: "kinv loc2 k2" "status k2 (currentThread k2) = RUNNING" by (auto simp: awake_def)
  define k3 where "k3 = set_cond c ((conds k2 c)\<lparr>cqueue := cqueue (conds k2 c) @ [currentThread k2]\<rparr>) k2"
  have cur: "currentThread k1 = ?t" "currentThread k2 = ?t" "currentThread k3 = ?t" using fr by (simp_all add: k1_def k3_def)
  have W: "Wait c (Some l) k = Sleep (Reacquire l) k3"
    using assms(4,5) by (auto simp: Wait_def Let_def k1_def k2_def k3_def list_append_def apart_def set_cond_def
      isHeldByCurrentThread_def)
  have "waitingLock (conds k2 c) = Some l" using fr by (simp add: k1_def)
  then have "kinv (loc2(currentThread k2 := Some (AtCond c))) (mark_blocked (Reacquire l) k3)"
    using kinvD(2,4) [OF kk2(1)]
    by (intro block_kinv [OF kinvD(7) [OF kk2(1)] kk2(2)]) (auto simp: k3_def locks_ok_def sems_ok_def)
  then have as: "asleep (mark_blocked (Reacquire l) k3)" by (auto simp: asleep_def)
  have "dispatch (mark_blocked (Reacquire l) k3) = Inr k'" using assms(6) W by (simp add: Sleep_def)
  note d = dispatch_settles [OF as this, of l c]
  have oth: "role_of l c (mark_blocked (Reacquire l) k3) u = role_of l c k2 u" if "u \<noteq> ?t" for u
    using that cur by (simp add: role_of_def k3_def)
  have "role_of l c k2 ?t = Away" using R(1) [of c] cur by simp
  then have me: "role_of l c (mark_blocked (Reacquire l) k3) ?t = Waits"
    using running_places [OF kk2] cur kk2(2) by (auto simp: role_of_def k3_def split: if_splits)
  have b: "becomes (role_of l c (mark_blocked (Reacquire l) k3) u) (role_of l c k' u)" for u
    using d by (simp add: settles_def)
  show "cqueue (conds k' c) = cqueue (conds k c) @ [?t]" using d fr cur by (simp add: k3_def k1_def)
  show "role_of l c k' ?t = Waits" using b [of ?t] unfolding me by (simp add: becomes_def)
  show "admits l c k k' u" if "u \<noteq> ?t"
  proof -
    have "admits l c k1 k2 u" using R(2) [of u c] that cur by simp
    then obtain r where r: "r = role_of l c k u \<or> role_of l c k u = Wants \<and> r = Owner" "becomes r (role_of l c k2 u)"
      by (auto simp: admits_def r1)
    have "becomes r (role_of l c k' u)" using becomes_trans [OF r(2)] b [of u] unfolding oth [OF that] by blast
    then show ?thesis using r(1) by (auto simp: admits_def)
  qed
  show "apart l c k'" using d fr assms(5) by (simp add: apart_def k3_def k1_def)
  show "idle k' \<Longrightarrow> readyList k' = []" using d by blast
qed

end
