(* ===== verification/Synch_List.thy ===== *)
theory Synch_List
  imports Monitor
begin

text \<open>
  threads/synchlist.cc: a list that threads share, with one lock and one condition variable. Its routines are
  cut into steps at every call of the kernel and between the steps other threads may run: a thread that leaves
  the CPU in a step goes on with the next one when the kernel runs it again.
\<close>

section \<open>The list and the threads that use it\<close>

text \<open>The line of a routine that a thread does next; \<open>Outside\<close> is a thread that is in none.\<close>

datatype 'a point =
    Outside
  | Append_item 'a       \<comment> \<open>\<open>list->Append(item)\<close>\<close>
  | Append_signal        \<comment> \<open>\<open>listEmpty->Signal(lock)\<close>\<close>
  | Append_release
  | Remove_test          \<comment> \<open>\<open>while (list->IsEmpty()) listEmpty->Wait(lock)\<close>\<close>
  | Remove_item          \<comment> \<open>\<open>item = list->Remove()\<close> and the ASSERT\<close>
  | Remove_release 'a
  | Mapcar_call          \<comment> \<open>\<open>list->Mapcar(func)\<close>\<close>
  | Mapcar_release

text \<open>
  \<open>items\<close> is the list. \<open>appended\<close> and \<open>removed\<close> record what the routines were given and took, in the order of
  the accesses to the list, and \<open>mapped\<close> what \<open>Mapcar\<close> gave to its function.
\<close>

record 'a synchlist =
  krn :: kernel
  lock :: lid
  listEmpty :: cid
  items :: "'a list"
  point :: "tid \<Rightarrow> 'a point"
  appended :: "'a list"
  removed :: "'a list"
  mapped :: "'a list list"

definition new_SynchList :: "kernel \<Rightarrow> lid \<Rightarrow> cid \<Rightarrow> 'a synchlist" where
  "new_SynchList k l c = \<lparr>krn = k, lock = l, listEmpty = c, items = [], point = (\<lambda>_. Outside), appended = [],
     removed = [], mapped = []\<rparr>"

text \<open>The running thread makes a call of the kernel and is to go on at \<open>p\<close>.\<close>

definition go_on :: "'a point \<Rightarrow> kernel \<Rightarrow> 'a synchlist \<Rightarrow> 'a synchlist" where
  "go_on p k s = s\<lparr>krn := k, point := (point s)(currentThread (krn s) := p)\<rparr>"

definition call_kernel :: "kernel result \<Rightarrow> 'a point \<Rightarrow> 'a synchlist \<Rightarrow> 'a synchlist result" where
  "call_kernel r p s = bind_result r (\<lambda>k. Inr (go_on p k s))"

definition SynchList_Append :: "'a \<Rightarrow> 'a synchlist \<Rightarrow> 'a synchlist result" where
  "SynchList_Append x s = call_kernel (Acquire (lock s) (krn s)) (Append_item x) s"

definition SynchList_Remove :: "'a synchlist \<Rightarrow> 'a synchlist result" where
  "SynchList_Remove s = call_kernel (Acquire (lock s) (krn s)) Remove_test s"

definition SynchList_Mapcar :: "'a synchlist \<Rightarrow> 'a synchlist result" where
  "SynchList_Mapcar s = call_kernel (Acquire (lock s) (krn s)) Mapcar_call s"

text \<open>The next step of the running thread.\<close>

definition next_step :: "'a synchlist \<Rightarrow> 'a synchlist result" where
  "next_step s = (let k = krn s; l = lock s; c = listEmpty s in
     case point s (currentThread k) of
       Outside \<Rightarrow> Inr s
     | Append_item x \<Rightarrow> Inr (go_on Append_signal k (s\<lparr>items := list_append (items s) x, appended := appended s @ [x]\<rparr>))
     | Append_signal \<Rightarrow> Inr (go_on Append_release (Signal c (Some l) k) s)
     | Append_release \<Rightarrow> Inr (go_on Outside (Release l k) s)
     | Remove_test \<Rightarrow>
         if items s = [] then call_kernel (Wait c (Some l) k) Remove_test s
         else Inr (go_on Remove_item k s)
     | Remove_item \<Rightarrow>
         (case list_remove (items s) of
            (None, _) \<Rightarrow> Inl AssertFailed
          | (Some x, xs) \<Rightarrow> Inr (go_on (Remove_release x) k (s\<lparr>items := xs, removed := removed s @ [x]\<rparr>)))
     | Remove_release x \<Rightarrow> Inr (go_on Outside (Release l k) s)
     | Mapcar_call \<Rightarrow> Inr (go_on Mapcar_release k (s\<lparr>mapped := mapped s @ [items s]\<rparr>))
     | Mapcar_release \<Rightarrow> Inr (go_on Outside (Release l k) s))"

text \<open>
  What can happen: a thread calls a routine or goes on in one; the timer takes the CPU from it; a thread
  that is in no routine does something else with the kernel, but leaves this lock and this condition alone;
  a device wakes a thread.
\<close>

inductive list_step :: "'a synchlist \<Rightarrow> 'a synchlist \<Rightarrow> bool" where
  append: "\<not> idle (krn s) \<Longrightarrow> point s (currentThread (krn s)) = Outside \<Longrightarrow> SynchList_Append x s = Inr s' \<Longrightarrow> list_step s s'"
| remove: "\<not> idle (krn s) \<Longrightarrow> point s (currentThread (krn s)) = Outside \<Longrightarrow> SynchList_Remove s = Inr s' \<Longrightarrow> list_step s s'"
| mapcar: "\<not> idle (krn s) \<Longrightarrow> point s (currentThread (krn s)) = Outside \<Longrightarrow> SynchList_Mapcar s = Inr s' \<Longrightarrow> list_step s s'"
| goes_on: "\<not> idle (krn s) \<Longrightarrow> point s (currentThread (krn s)) \<noteq> Outside \<Longrightarrow> next_step s = Inr s' \<Longrightarrow> list_step s s'"
| slice: "\<not> idle (krn s) \<Longrightarrow> Yield (krn s) = Inr k \<Longrightarrow> list_step s (s\<lparr>krn := k\<rparr>)"
| other: "\<not> idle (krn s) \<Longrightarrow> point s (currentThread (krn s)) = Outside \<Longrightarrow> foreign (lock s) (listEmpty s) p \<Longrightarrow>
    (\<And>t. p = Op_Fork t \<Longrightarrow> status (krn s) t = JUST_CREATED) \<Longrightarrow> exec p (krn s) = Some (Inr k) \<Longrightarrow>
    list_step s (s\<lparr>krn := k\<rparr>)"
| device: "device_V x (krn s) = Inr k \<Longrightarrow> list_step s (s\<lparr>krn := k\<rparr>)"

inductive list_reachable :: "'a synchlist \<Rightarrow> bool" where
  init: "(\<And>s. 0 \<le> v s) \<Longrightarrow> list_reachable (new_SynchList (boot v) l c)"
| step: "list_reachable s \<Longrightarrow> list_step s s' \<Longrightarrow> list_reachable s'"

section \<open>The invariant\<close>

fun fits :: "'a point \<Rightarrow> role \<Rightarrow> bool" where
  "fits Outside r \<longleftrightarrow> r = Away"
| "fits (Append_item x) r \<longleftrightarrow> r = Owner \<or> r = Wants"
| "fits Mapcar_call r \<longleftrightarrow> r = Owner \<or> r = Wants"
| "fits Remove_test r \<longleftrightarrow> r = Owner \<or> r = Wants \<or> r = Waits \<or> r = Woken"
| "fits _ r \<longleftrightarrow> r = Owner"

definition role_in :: "'a synchlist \<Rightarrow> tid \<Rightarrow> role" where
  "role_in s t = role_of (lock s) (listEmpty s) (krn s) t"

definition waiters :: "'a synchlist \<Rightarrow> tid list" where
  "waiters s = cqueue (conds (krn s) (listEmpty s))"

text \<open>Threads that will look at the list, or that will wake one that does.\<close>

definition helpers :: "'a synchlist \<Rightarrow> tid set" where
  "helpers s = {t. point s t = Append_signal \<or> point s t = Remove_item \<or> point s t = Remove_test \<and> t \<notin> set (waiters s)}"

definition list_inv :: "'a synchlist \<Rightarrow> bool" where
  "list_inv s \<longleftrightarrow> kernel_inv (krn s) \<and> apart (lock s) (listEmpty s) (krn s) \<and> (\<forall>t. fits (point s t) (role_in s t)) \<and>
     (idle (krn s) \<longrightarrow> readyList (krn s) = []) \<and> appended s = removed s @ items s \<and>
     finite {t. point s t \<noteq> Outside} \<and> (waiters s \<noteq> [] \<longrightarrow> length (items s) \<le> card (helpers s)) \<and>
     (\<forall>t. point s t = Remove_item \<longrightarrow> items s \<noteq> [])"

lemma list_invD:
  assumes "list_inv s"
  shows "kernel_inv (krn s)" "apart (lock s) (listEmpty s) (krn s)" "fits (point s t) (role_in s t)"
    "idle (krn s) \<Longrightarrow> readyList (krn s) = []" "appended s = removed s @ items s" "finite {t. point s t \<noteq> Outside}"
    "waiters s \<noteq> [] \<Longrightarrow> length (items s) \<le> card (helpers s)" "point s t = Remove_item \<Longrightarrow> items s \<noteq> []"
  using assms by (auto simp: list_inv_def)

lemma fits_becomes: "fits p r \<Longrightarrow> becomes r r' \<Longrightarrow> fits p r'"
  by (cases "(p, r)" rule: fits.cases) (auto simp: becomes_def)

lemma fits_admits:
  assumes "fits p (role_of l c k u)" "admits l c k k' u"
  shows "fits p (role_of l c k' u)"
proof -
  from assms(2) obtain r where r: "r = role_of l c k u \<or> role_of l c k u = Wants \<and> r = Owner" "becomes r (role_of l c k' u)"
    by (auto simp: admits_def)
  have "fits p r" using assms(1) r(1) by (cases "(p, role_of l c k u)" rule: fits.cases) auto
  then show ?thesis using r(2) by (rule fits_becomes)
qed

lemma fits_not_astray: "fits p r \<Longrightarrow> r \<noteq> Astray"
  by (cases "(p, r)" rule: fits.cases) auto

lemma finite_helpers: "list_inv s \<Longrightarrow> finite (helpers s)"
  by (rule finite_subset [OF _ list_invD(6)]) (auto simp: helpers_def)

lemma owner_unique: "role_of l c k t = Owner \<Longrightarrow> role_of l c k u = Owner \<Longrightarrow> t = u"
  by (auto simp: role_of_def split: if_splits)

text \<open>The running thread, if it is in a routine, has the lock.\<close>

lemma running_owner:
  assumes "list_inv s" "\<not> idle (krn s)"
  shows "\<exists>loc. kinv loc (krn s)" "status (krn s) (currentThread (krn s)) = RUNNING"
    "point s (currentThread (krn s)) = Outside \<Longrightarrow> threadWithPossession (locks (krn s) (lock s)) \<noteq> Some (currentThread (krn s))"
    "point s (currentThread (krn s)) \<noteq> Outside \<Longrightarrow> role_in s (currentThread (krn s)) = Owner \<and>
       threadWithPossession (locks (krn s) (lock s)) = Some (currentThread (krn s))"
proof -
  let ?t = "currentThread (krn s)"
  show k: "\<exists>loc. kinv loc (krn s)" and r: "status (krn s) ?t = RUNNING"
    using list_invD(1) [OF assms(1)] assms(2) by (auto simp: kernel_inv_def)
  then obtain loc where "kinv loc (krn s)" by blast
  from current_role [OF this r] have c: "role_in s ?t =
      (if threadWithPossession (locks (krn s) (lock s)) = Some ?t then Owner else Away)" by (simp add: role_in_def)
  note f = list_invD(3) [OF assms(1), of ?t]
  show "point s ?t = Outside \<Longrightarrow> threadWithPossession (locks (krn s) (lock s)) \<noteq> Some ?t"
    using f c by auto
  show "point s ?t \<noteq> Outside \<Longrightarrow> role_in s ?t = Owner \<and> threadWithPossession (locks (krn s) (lock s)) = Some ?t"
    using f c by (cases "(point s ?t, role_in s ?t)" rule: fits.cases) (auto split: if_splits)
qed

lemma list_inv_leaves:
  assumes "list_inv s" "leaves (lock s) (listEmpty s) (krn s) k" "kernel_inv k"
  shows "list_inv (s\<lparr>krn := k\<rparr>)"
proof -
  have "fits (point s t) (role_of (lock s) (listEmpty s) k t)" for t
    using list_invD(3) [OF assms(1), of t] assms(2) fits_becomes unfolding leaves_def settles_def role_in_def by blast
  moreover have "waiters (s\<lparr>krn := k\<rparr>) = waiters s" using assms(2) by (simp add: waiters_def leaves_def)
  moreover from this have "helpers (s\<lparr>krn := k\<rparr>) = helpers s" by (simp add: helpers_def)
  ultimately show ?thesis
    using assms by (simp add: list_inv_def role_in_def leaves_def)
qed

text \<open>A thread enters a routine.\<close>

lemma list_inv_enter:
  assumes "list_inv s" "\<not> idle (krn s)" "point s (currentThread (krn s)) = Outside"
    and "Acquire (lock s) (krn s) = Inr k" "p \<in> {Append_item x, Remove_test, Mapcar_call}"
  shows "list_inv (go_on p k s)"
proof -
  let ?t = "currentThread (krn s)"
  obtain loc where k: "kinv loc (krn s)" using running_owner(1) [OF assms(1,2)] by blast
  note run = running_owner(2) [OF assms(1,2)]
  note e = Acquire_enters [OF k run assms(2) running_owner(3) [OF assms(1-3)] assms(4)]
  have "awake (krn s)" using k run by (auto simp: awake_def)
  then have ki: "kernel_inv k" using Acquire_ok [OF _ assms(2), of "lock s"] assms(4) by auto
  have fit: "fits (point (go_on p k s) t) (role_in (go_on p k s) t)" for t
  proof (cases "t = ?t")
    case True
    then show ?thesis using e(1) [of "listEmpty s"] assms(5) by (auto simp: go_on_def role_in_def)
  next
    case False
    then show ?thesis using e(2) [OF False, of "listEmpty s"] list_invD(3) [OF assms(1), of t] fits_becomes
      by (simp add: go_on_def role_in_def) blast
  qed
  have w: "waiters (go_on p k s) = waiters s" using e(3) by (simp add: waiters_def go_on_def)
  have "helpers s \<subseteq> helpers (go_on p k s)" using assms(3) w by (auto simp: helpers_def go_on_def split: if_splits)
  moreover have fin: "finite {t. point (go_on p k s) t \<noteq> Outside}"
    by (rule finite_subset [of _ "insert ?t {t. point s t \<noteq> Outside}"]) (use list_invD(6) [OF assms(1)] in \<open>auto simp: go_on_def\<close>)
  moreover from fin have "finite (helpers (go_on p k s))" by (rule finite_subset [rotated]) (auto simp: helpers_def)
  ultimately have "card (helpers s) \<le> card (helpers (go_on p k s))" by (intro card_mono)
  moreover have "apart (lock s) (listEmpty s) k" using list_invD(2) [OF assms(1)] e(3) by (simp add: apart_def)
  ultimately show ?thesis
    using fit fin ki e(4) w list_invD(5,7,8) [OF assms(1)] assms(5)
    unfolding list_inv_def by (force simp: go_on_def)
qed

text \<open>A thread goes on in its routine without leaving the CPU: the other threads may only be let in or woken.\<close>

lemma list_inv_goes_on:
  fixes s :: "'a synchlist"
  defines "t \<equiv> currentThread (krn s)"
  assumes "list_inv s" "\<not> idle (krn s)" "point s t \<noteq> Outside"
    and "kernel_inv k" "apart (lock s) (listEmpty s) k" "idle k \<Longrightarrow> readyList k = []"
    and "fits p (role_of (lock s) (listEmpty s) k t)"
    and "\<And>u. u \<noteq> t \<Longrightarrow> fits (point s u) (role_of (lock s) (listEmpty s) k u)"
    and "s' = go_on p k s0" "krn s0 = krn s" "point s0 = point s" "lock s0 = lock s" "listEmpty s0 = listEmpty s"
      "appended s0 = removed s0 @ items s0"
    and "waiters s' \<noteq> [] \<Longrightarrow> length (items s0) \<le> card (helpers s')"
    and "p = Remove_item \<Longrightarrow> items s0 \<noteq> []"
    and "\<And>u. u \<noteq> t \<Longrightarrow> point s u = Remove_item \<Longrightarrow> items s0 \<noteq> []"
  shows "list_inv s'"
proof -
  have pt: "point s' = (point s)(t := p)" "krn s' = k" "lock s' = lock s" "listEmpty s' = listEmpty s"
    "items s' = items s0" "appended s' = appended s0" "removed s' = removed s0"
    using assms(10-14) by (simp_all add: go_on_def t_def)
  have "fits (point s' u) (role_in s' u)" for u
    using assms(8,9) by (simp add: role_in_def pt)
  moreover have "finite {u. point s' u \<noteq> Outside}"
    by (rule finite_subset [OF _ list_invD(6) [OF assms(2)]]) (use assms(4) in \<open>auto simp: pt split: if_splits\<close>)
  ultimately show ?thesis
    using assms(5-7,15-18) unfolding list_inv_def pt by auto
qed

text \<open>Steps of the owner of the lock that do not call the kernel.\<close>

lemma list_inv_local:
  fixes s :: "'a synchlist"
  defines "t \<equiv> currentThread (krn s)"
  assumes "list_inv s" "\<not> idle (krn s)" "point s t \<noteq> Outside" "p \<in> {Append_signal, Remove_item, Remove_release x, Mapcar_release}"
    and "s' = go_on p (krn s) s0" "krn s0 = krn s" "point s0 = point s" "lock s0 = lock s" "listEmpty s0 = listEmpty s"
      "appended s0 = removed s0 @ items s0"
    and "waiters s \<noteq> [] \<Longrightarrow> length (items s0) \<le> card (helpers s')"
    and "p = Remove_item \<Longrightarrow> items s0 \<noteq> []"
  shows "list_inv s'"
proof -
  note o = running_owner [OF assms(2,3)]
  have own: "role_in s t = Owner" using o(4) assms(1,4) by simp
  have others: "point s u \<noteq> Remove_item" if "u \<noteq> t" for u
  proof
    assume "point s u = Remove_item"
    then have "role_in s u = Owner" using list_invD(3) [OF assms(2), of u] by simp
    then show False using own owner_unique that by (auto simp: role_in_def)
  qed
  show ?thesis
  proof (rule list_inv_goes_on [OF assms(2,3) assms(4) [unfolded t_def] list_invD(1,2) [OF assms(2)]])
    show "readyList (krn s) = []" if "idle (krn s)" using assms(3) that by simp
    show "fits p (role_of (lock s) (listEmpty s) (krn s) (currentThread (krn s)))"
      using own assms(1,5) by (auto simp: role_in_def)
    show "fits (point s u) (role_of (lock s) (listEmpty s) (krn s) u)" for u
      using list_invD(3) [OF assms(2), of u] by (simp add: role_in_def)
    have "waiters s' = waiters s" using assms(6,10) by (simp add: waiters_def go_on_def)
    then show "length (items s0) \<le> card (helpers s')" if "waiters s' \<noteq> []" using assms(12) that by simp
    show "items s0 \<noteq> []" if "u \<noteq> currentThread (krn s)" "point s u = Remove_item" for u
      using others [of u] that assms(1) by simp
  qed (use assms in simp_all)
qed

lemma running_not_waiting:
  assumes "list_inv s" "\<not> idle (krn s)"
  shows "currentThread (krn s) \<notin> set (waiters s)"
  using running_places(3) running_owner(1,2) [OF assms] by (auto simp: waiters_def)

text \<open>The calls of the kernel by the owner of the lock.\<close>

lemma list_inv_release:
  assumes "list_inv s" "\<not> idle (krn s)" "point s (currentThread (krn s)) \<in> {Append_release, Mapcar_release} \<union> range Remove_release"
  shows "list_inv (go_on Outside (Release (lock s) (krn s)) s)"
proof -
  let ?t = "currentThread (krn s)" and ?k = "Release (lock s) (krn s)"
  obtain loc where k: "kinv loc (krn s)" using running_owner(1) [OF assms(1,2)] by blast
  have own: "threadWithPossession (locks (krn s) (lock s)) = Some ?t" using running_owner(4) [OF assms(1,2)] assms(3) by auto
  note R = Release_leaves [OF k running_owner(2) [OF assms(1,2)] own]
  note fr = Release_frame [of "lock s" "krn s"]
  have h: "helpers (go_on Outside ?k s) = helpers s"
    using assms(3) fr by (auto simp: helpers_def waiters_def go_on_def split: if_splits)
  show ?thesis
  proof (rule list_inv_goes_on [OF assms(1,2), where ?s0.0 = s])
    show "kernel_inv ?k" using R(3) fr assms(2) by (simp add: awake_not_idle)
    show "apart (lock s) (listEmpty s) ?k" using list_invD(2) [OF assms(1)] fr by (simp add: apart_def)
    show "fits (point s u) (role_of (lock s) (listEmpty s) ?k u)" if "u \<noteq> ?t" for u
      using fits_admits [OF _ R(2) [OF that]] list_invD(3) [OF assms(1), of u] by (simp add: role_in_def)
    show "length (items s) \<le> card (helpers (go_on Outside ?k s))" if "waiters (go_on Outside ?k s) \<noteq> []"
      using that list_invD(7) [OF assms(1)] fr unfolding h by (simp add: waiters_def go_on_def)
  qed (use assms fr R(1) list_invD(5,8) [OF assms(1)] in auto)
qed

lemma list_inv_wait:
  assumes "list_inv s" "\<not> idle (krn s)" "point s (currentThread (krn s)) = Remove_test" "items s = []"
    and "Wait (listEmpty s) (Some (lock s)) (krn s) = Inr k"
  shows "list_inv (go_on Remove_test k s)"
proof -
  let ?t = "currentThread (krn s)"
  obtain loc where kk: "kinv loc (krn s)" using running_owner(1) [OF assms(1,2)] by blast
  note run = running_owner(2) [OF assms(1,2)]
  have own: "isHeldByCurrentThread (krn s) (lock s)"
    using running_owner(4) [OF assms(1,2)] assms(3) by (simp add: isHeldByCurrentThread_def)
  note W = Wait_joins [OF kk run assms(2) own list_invD(2) [OF assms(1)] assms(5)]
  have "awake (krn s)" using kk run by (auto simp: awake_def)
  then have ki: "kernel_inv k" using Wait_ok [OF _ assms(2), of "listEmpty s" "Some (lock s)"] assms(5) by auto
  show ?thesis
  proof (rule list_inv_goes_on [OF assms(1,2) _ ki W(4), where ?s0.0 = s])
    show "fits (point s u) (role_of (lock s) (listEmpty s) k u)" if "u \<noteq> ?t" for u
      using fits_admits [OF _ W(3) [OF that]] list_invD(3) [OF assms(1), of u] by (simp add: role_in_def)
    show "items s \<noteq> []" if "u \<noteq> ?t" "point s u = Remove_item" for u
      using list_invD(8) [OF assms(1)] that by blast
  qed (use assms W(2,5) list_invD(5) [OF assms(1)] in auto)
qed

lemma waiting_threads:
  assumes "list_inv s" "t \<in> set (waiters s)"
  shows "point s t = Remove_test"
proof -
  obtain loc where k: "kinv loc (krn s)" using list_invD(1) [OF assms(1)] by (auto simp: kernel_inv_def)
  note q = queues_okD(2) [OF kinvD(1) [OF k], of t]
  have l: "loc t = Some (AtCond (listEmpty s))" using q [of "AtCond (listEmpty s)"] assms(2) by (simp add: waiters_def)
  then have "t \<notin> set (lqueue (locks (krn s) (lock s)))" using q [of "AtLock (lock s)"] by simp
  moreover have "role_in s t \<noteq> Astray" using fits_not_astray list_invD(3) [OF assms(1)] by blast
  moreover have "status (krn s) t = BLOCKED" using thread_ok_cases(1) [OF kinvD(7) [OF k] l] by (simp add: place_status_def)
  moreover have "t \<notin> set (readyList (krn s))" using q [of InReady] l by simp
  ultimately have "role_in s t = Waits"
    using assms(2) by (auto simp: role_in_def role_of_def waiters_def split: if_splits)
  then show ?thesis
    using list_invD(3) [OF assms(1), of t] by (cases "(point s t, role_in s t)" rule: fits.cases) auto
qed

lemma distinct_waiters: "list_inv s \<Longrightarrow> distinct (waiters s)"
  using queues_okD(1) [of _ _ _ _ "AtCond (listEmpty s)"] list_invD(1) [of s] kinvD(1)
  by (fastforce simp: kernel_inv_def waiters_def)

lemma signalled_helpers:
  assumes "f t = Append_signal" "f v = Remove_test" "v \<noteq> t" "v \<notin> set q"
  shows "{u. (f(t := Append_release)) u = Append_signal \<or> (f(t := Append_release)) u = Remove_item \<or>
      (f(t := Append_release)) u = Remove_test \<and> u \<notin> set q} =
    insert v ({u. f u = Append_signal \<or> f u = Remove_item \<or> f u = Remove_test \<and> u \<notin> set (v # q)} - {t})"
  using assms by (auto split: if_splits)

lemma list_inv_signal:
  assumes "list_inv s" "\<not> idle (krn s)" "point s (currentThread (krn s)) = Append_signal"
  shows "list_inv (go_on Append_release (Signal (listEmpty s) (Some (lock s)) (krn s)) s)"
    (is "list_inv ?s")
proof -
  let ?t = "currentThread (krn s)" and ?k = "Signal (listEmpty s) (Some (lock s)) (krn s)"
  obtain loc where k: "kinv loc (krn s)" using running_owner(1) [OF assms(1,2)] by blast
  note run = running_owner(2) [OF assms(1,2)]
  have own: "isHeldByCurrentThread (krn s) (lock s)" "role_in s ?t = Owner"
    using running_owner(4) [OF assms(1,2)] assms(3) by (simp_all add: isHeldByCurrentThread_def)
  have w: "waitingLock (conds (krn s) (listEmpty s)) \<in> {None, Some (lock s)}"
    using list_invD(2) [OF assms(1)] by (simp add: apart_def)
  note S = Signal_wakes [OF k run own(1) w]
  note fr = Signal_frame [of "listEmpty s" "Some (lock s)" "krn s"]
  have wt: "waiters ?s = tl (waiters s)" using S(1) by (simp add: waiters_def go_on_def)
  have role: "role_of (lock s) (listEmpty s) ?k u = (if waiters s \<noteq> [] \<and> u = hd (waiters s) then Woken else role_in s u)" for u
    using S(2) [of u] by (simp add: waiters_def role_in_def)
  show ?thesis
  proof (rule list_inv_goes_on [OF assms(1,2), where ?s0.0 = s])
    have "awake (krn s)" using k run by (auto simp: awake_def)
    then show "kernel_inv ?k" using Signal_awake [of "krn s" "listEmpty s" "Some (lock s)"] fr assms(2)
      by (simp add: awake_not_idle)
    show "apart (lock s) (listEmpty s) ?k" using list_invD(2) [OF assms(1)] S(3,4) by (auto simp: apart_def)
    show "fits Append_release (role_of (lock s) (listEmpty s) ?k ?t)"
      using own(2) running_not_waiting [OF assms(1,2)] unfolding role by (cases "waiters s") auto
    show "fits (point s u) (role_of (lock s) (listEmpty s) ?k u)" if "u \<noteq> ?t" for u
      using waiting_threads [OF assms(1), of u] list_invD(3) [OF assms(1), of u] unfolding role
      by (cases "waiters s") auto
    show "length (items s) \<le> card (helpers ?s)" if ne: "waiters ?s \<noteq> []"
    proof -
      obtain v q where v: "waiters s = v # q" using ne wt by (cases "waiters s") auto
      have vt: "point s v = Remove_test" "v \<noteq> ?t" "v \<notin> set q"
        using waiting_threads [OF assms(1), of v] assms(3) v distinct_waiters [OF assms(1)] by auto
      have h: "helpers ?s = insert v (helpers s - {?t})"
      proof -
        have "point ?s = (point s)(?t := Append_release)" "waiters ?s = q" using wt v by (simp_all add: go_on_def)
        then show ?thesis using signalled_helpers [OF assms(3) vt] unfolding helpers_def v by simp
      qed
      have "v \<notin> helpers s" "?t \<in> helpers s" using assms(3) v vt by (auto simp: helpers_def)
      then have "card (helpers ?s) = card (helpers s)"
        unfolding h using finite_helpers [OF assms(1)] card.remove [of "helpers s" ?t] by simp
      then show ?thesis using list_invD(7) [OF assms(1)] v by simp
    qed
    show "items s \<noteq> []" if "u \<noteq> ?t" "point s u = Remove_item" for u
      using list_invD(8) [OF assms(1)] that by blast
  qed (use assms(2,3) fr list_invD(5) [OF assms(1)] in simp_all)
qed

lemma list_inv_next:
  assumes "list_inv s" "\<not> idle (krn s)" "point s (currentThread (krn s)) \<noteq> Outside" "next_step s = Inr s'"
  shows "list_inv s'"
proof (cases "point s (currentThread (krn s))")
  case Outside
  then show ?thesis using assms(3) by simp
next
  case (Append_item x)
  let ?s0 = "s\<lparr>items := items s @ [x], appended := appended s @ [x]\<rparr>"
  have s': "s' = go_on Append_signal (krn s) ?s0"
    using assms(4) Append_item by (simp add: next_step_def Let_def list_append_def)
  have "helpers s' = insert (currentThread (krn s)) (helpers s)" "currentThread (krn s) \<notin> helpers s"
    using Append_item by (auto simp: s' helpers_def go_on_def waiters_def)
  then have "waiters s \<noteq> [] \<Longrightarrow> length (items ?s0) \<le> card (helpers s')"
    using list_invD(7) [OF assms(1)] finite_helpers [OF assms(1)] by simp
  then show ?thesis
    using list_invD(5) [OF assms(1)] by (intro list_inv_local [OF assms(1-3) _ s']) auto
next
  case Append_signal
  then show ?thesis using assms list_inv_signal by (auto simp: next_step_def Let_def)
next
  case Append_release
  then show ?thesis using assms list_inv_release by (auto simp: next_step_def Let_def)
next
  case Remove_test
  show ?thesis
  proof (cases "items s = []")
    case True
    then show ?thesis using assms Remove_test list_inv_wait by (auto simp: next_step_def Let_def call_kernel_def)
  next
    case False
    then have s': "s' = go_on Remove_item (krn s) s" using assms(4) Remove_test by (simp add: next_step_def Let_def)
    have "helpers s' = helpers s" using Remove_test running_not_waiting [OF assms(1,2)]
      by (auto simp: s' helpers_def go_on_def waiters_def split: if_splits)
    then show ?thesis
      using False list_invD(5,7) [OF assms(1)] by (intro list_inv_local [OF assms(1-3) _ s']) auto
  qed
next
  case Remove_item
  then obtain x xs where x: "items s = x # xs" using list_invD(8) [OF assms(1)] by (cases "items s") auto
  let ?s0 = "s\<lparr>items := xs, removed := removed s @ [x]\<rparr>"
  have s': "s' = go_on (Remove_release x) (krn s) ?s0" using assms(4) Remove_item x by (simp add: next_step_def Let_def)
  have "helpers s' = helpers s - {currentThread (krn s)}" "currentThread (krn s) \<in> helpers s"
    using Remove_item by (auto simp: s' helpers_def go_on_def waiters_def split: if_splits)
  then have "card (helpers s') = card (helpers s) - 1" using finite_helpers [OF assms(1)] by simp
  then have "waiters s \<noteq> [] \<Longrightarrow> length (items ?s0) \<le> card (helpers s')"
    using list_invD(7) [OF assms(1)] x by simp
  then show ?thesis
    using list_invD(5) [OF assms(1)] x by (intro list_inv_local [OF assms(1-3) _ s']) auto
next
  case (Remove_release x)
  then show ?thesis using assms list_inv_release by (auto simp: next_step_def Let_def)
next
  case Mapcar_call
  let ?s0 = "s\<lparr>mapped := mapped s @ [items s]\<rparr>"
  have s': "s' = go_on Mapcar_release (krn s) ?s0" using assms(4) Mapcar_call by (simp add: next_step_def Let_def)
  have "helpers s' = helpers s" using Mapcar_call by (auto simp: s' helpers_def go_on_def waiters_def split: if_splits)
  then show ?thesis
    using list_invD(5,7) [OF assms(1)] by (intro list_inv_local [OF assms(1-3) _ s']) auto
next
  case Mapcar_release
  then show ?thesis using assms list_inv_release by (auto simp: next_step_def Let_def)
qed

lemma list_inv_step:
  assumes "list_inv s" "list_step s s'"
  shows "list_inv s'"
  using assms(2)
proof cases
  case (append x)
  then show ?thesis using list_inv_enter [OF assms(1)] by (auto simp: SynchList_Append_def call_kernel_def)
next
  case remove
  then show ?thesis using list_inv_enter [OF assms(1)] by (auto simp: SynchList_Remove_def call_kernel_def)
next
  case mapcar
  then show ?thesis using list_inv_enter [OF assms(1)] by (auto simp: SynchList_Mapcar_def call_kernel_def)
next
  case goes_on
  then show ?thesis using list_inv_next [OF assms(1)] by simp
next
  case (slice k)
  obtain loc where "kinv loc (krn s)" using running_owner(1) [OF assms(1) slice(2)] by blast
  moreover have "exec Op_Yield (krn s) = Some (Inr k)" using slice(3) by simp
  ultimately show ?thesis
    using slice list_inv_leaves [OF assms(1)] Yield_leaves running_owner(2) [OF assms(1)]
      exec_ok [OF list_invD(1) [OF assms(1)] slice(2), of Op_Yield] by auto
next
  case (other p k)
  have "leaves (lock s) (listEmpty s) (krn s) k"
    by (rule exec_foreign [OF list_invD(1) [OF assms(1)] other(2) running_owner(3) [OF assms(1) other(2,3)] other(4)
        list_invD(2) [OF assms(1)] other(5,6)])
  then show ?thesis
    using other list_inv_leaves [OF assms(1)] exec_ok [OF list_invD(1) [OF assms(1)] other(2,5), of p] by auto
next
  case (device x k)
  then show ?thesis
    using list_inv_leaves [OF assms(1) device_V_foreign [OF list_invD(1) [OF assms(1)]]]
      device_V_ok [OF list_invD(1) [OF assms(1)], of x] by auto
qed

lemma list_inv_boot: "(\<And>s. 0 \<le> v s) \<Longrightarrow> list_inv (new_SynchList (boot v) l c)"
  using boot_inv [of v] by (auto simp: list_inv_def new_SynchList_def apart_def boot_def new_Condition_def new_Lock_def
      role_in_def role_of_def waiters_def)

lemma list_reachable_inv: "list_reachable s \<Longrightarrow> list_inv s"
  by (induction rule: list_reachable.induct) (auto intro: list_inv_boot list_inv_step)

section \<open>Properties\<close>

lemma point_owner:
  assumes "list_inv s" "point s t \<notin> {Outside, Remove_test, Mapcar_call} \<union> range Append_item"
  shows "role_in s t = Owner"
  using list_invD(3) [OF assms(1), of t] assms(2) by (cases "(point s t, role_in s t)" rule: fits.cases) auto

lemma next_step_succeeds:
  assumes "list_inv s" "\<not> idle (krn s)"
  shows "\<exists>s'. next_step s = Inr s'"
proof -
  have "awake (krn s)" using running_owner(1,2) [OF assms] by (auto simp: awake_def)
  from Wait_ok [OF this assms(2)] obtain k where "Wait (listEmpty s) (Some (lock s)) (krn s) = Inr k" by blast
  moreover have "items s \<noteq> []" if "point s (currentThread (krn s)) = Remove_item" using list_invD(8) [OF assms(1) that] .
  ultimately show ?thesis
    by (cases "point s (currentThread (krn s))"; cases "items s") (auto simp: next_step_def Let_def call_kernel_def)
qed

lemma Acquire_succeeds:
  assumes "list_inv s" "\<not> idle (krn s)"
  shows "\<exists>k. Acquire (lock s) (krn s) = Inr k"
proof -
  have "awake (krn s)" using running_owner(1,2) [OF assms] by (auto simp: awake_def)
  from Acquire_ok [OF this assms(2)] show ?thesis by blast
qed

text \<open>
  C37: a shared list is a queue. In every reachable state, however the timer cuts the routines, what was
  appended is what was removed followed by what is on the list: items come out once, in the order in which they
  went in. At most one thread is between \<open>Acquire\<close> and \<open>Release\<close> of a routine with the lock, and no step
  fails, so the ASSERT of \<open>Remove\<close> holds.
\<close>

theorem shared_list_is_a_queue:
  assumes "list_reachable s"
  shows "appended s = removed s @ items s \<and>
    (\<forall>t u. role_in s t = Owner \<and> role_in s u = Owner \<longrightarrow> t = u) \<and>
    (\<forall>t. point s t \<notin> {Outside, Remove_test, Mapcar_call} \<union> range Append_item \<longrightarrow> role_in s t = Owner) \<and>
    (\<not> idle (krn s) \<longrightarrow> (\<exists>s'. next_step s = Inr s') \<and> (\<exists>s'. SynchList_Append x s = Inr s') \<and>
       (\<exists>s'. SynchList_Remove s = Inr s') \<and> (\<exists>s'. SynchList_Mapcar s = Inr s'))"
proof -
  note inv = list_reachable_inv [OF assms]
  have "role_in s t = Owner \<and> role_in s u = Owner \<longrightarrow> t = u" for t u
    using owner_unique by (auto simp: role_in_def)
  then show ?thesis
    using list_invD(5) [OF inv] point_owner [OF inv] next_step_succeeds [OF inv] Acquire_succeeds [OF inv]
    by (force simp: SynchList_Append_def SynchList_Remove_def SynchList_Mapcar_def call_kernel_def)
qed

text \<open>A run, call by call.\<close>

datatype 'a list_call = Do_Append 'a | Do_Remove | Do_next

definition do_call :: "'a list_call \<Rightarrow> 'a synchlist \<Rightarrow> 'a synchlist option" where
  "do_call c s =
     (let r = (case c of Do_Append x \<Rightarrow> SynchList_Append x s | Do_Remove \<Rightarrow> SynchList_Remove s | Do_next \<Rightarrow> next_step s) in
      if idle (krn s) \<or> (point s (currentThread (krn s)) = Outside) = (c = Do_next) then None
      else case r of Inl _ \<Rightarrow> None | Inr s' \<Rightarrow> Some s')"

fun do_calls :: "'a list_call list \<Rightarrow> 'a synchlist \<Rightarrow> 'a synchlist option" where
  "do_calls [] s = Some s"
| "do_calls (c # cs) s = (case do_call c s of None \<Rightarrow> None | Some s' \<Rightarrow> do_calls cs s')"

lemma do_call_step: "do_call c s = Some s' \<Longrightarrow> list_step s s'"
  by (cases c) (auto simp: do_call_def Let_def intro: list_step.append list_step.remove list_step.goes_on
    split: if_splits sum.splits)

lemma do_calls_reachable: "list_reachable s \<Longrightarrow> do_calls cs s = Some s' \<Longrightarrow> list_reachable s'"
proof (induction cs arbitrary: s)
  case (Cons c cs)
  then obtain s1 where "do_call c s = Some s1" "do_calls cs s1 = Some s'" by (auto split: option.splits)
  then show ?case using Cons list_reachable.step [OF Cons(2) do_call_step] by blast
qed simp

lemma new_list_reachable: "list_reachable (new_SynchList (boot (\<lambda>_. 0)) l c)"
  by (rule list_reachable.init) simp

lemmas list_run_defs = do_call_def SynchList_Append_def SynchList_Remove_def next_step_def call_kernel_def go_on_def
  new_SynchList_def list_append_def

theorem shared_list_is_a_queue_witness:
  "\<exists>s. do_calls ([Do_Append 7] @ replicate 3 Do_next @ [Do_Append (8::nat)] @ replicate 3 Do_next @ [Do_Remove] @
       replicate 2 Do_next) (new_SynchList (boot (\<lambda>_. 0)) 0 0) = Some s \<and>
     removed s = [7] \<and> items s = [8] \<and> appended s = removed s @ items s"
proof -
  obtain s where s: "do_calls ([Do_Append 7] @ replicate 3 Do_next @ [Do_Append (8::nat)] @ replicate 3 Do_next @ [Do_Remove] @
       replicate 2 Do_next) (new_SynchList (boot (\<lambda>_. 0)) 0 0) = Some s" "removed s = [7]" "items s = [8]"
    by (simp add: list_run_defs run_defs Signal_def numeral_eq_Suc)
  have "list_reachable s" by (rule do_calls_reachable [OF new_list_reachable s(1)])
  from shared_list_is_a_queue [OF this] s show ?thesis by blast
qed

text \<open>
  C38: no wake-up is lost. When no thread can run, the only threads inside a routine of the list are in
  \<open>Remove\<close>, wait on the condition, and find the list empty: nobody sleeps while there is an item for him, and
  nobody waits for the lock.
\<close>

theorem shared_list_no_lost_wakeup:
  assumes "list_reachable s" "idle (krn s)" "point s t \<noteq> Outside"
  shows "point s t = Remove_test \<and> t \<in> set (waiters s) \<and> items s = [] \<and> lqueue (locks (krn s) (lock s)) = []"
proof -
  note inv = list_reachable_inv [OF assms(1)]
  obtain loc where k: "kinv loc (krn s)" "status (krn s) (currentThread (krn s)) \<noteq> RUNNING"
    using list_invD(1) [OF inv] assms(2) by (auto simp: kernel_inv_def)
  have run: "status (krn s) u \<noteq> RUNNING" for u using kinvD(6) [OF k(1), of u] k(2) by auto
  have ready: "readyList (krn s) = []" by (rule list_invD(4) [OF inv assms(2)])
  have no: "role_in s u \<noteq> Owner" "role_in s u \<noteq> Woken" for u
    using run [of u] ready by (auto simp: role_in_def role_of_def)
  have lk: "(lstate L = FREE \<longleftrightarrow> threadWithPossession L = None) \<and> (lstate L = FREE \<longrightarrow> lqueue L = [])"
    if "L = locks (krn s) (lock s)" for L
    using kinvD(2) [OF k(1)] that by (simp add: locks_ok_def)
  have "threadWithPossession (locks (krn s) (lock s)) \<noteq> Some u" for u
  proof
    assume "threadWithPossession (locks (krn s) (lock s)) = Some u"
    then have "role_in s u = Owner \<or> role_in s u = Astray" by (auto simp: role_in_def role_of_def)
    then show False using no fits_not_astray list_invD(3) [OF inv, of u] by blast
  qed
  then have free: "lqueue (locks (krn s) (lock s)) = []" using lk [OF refl] by (cases "threadWithPossession (locks (krn s) (lock s))") auto
  have inside: "point s u = Remove_test \<and> u \<in> set (waiters s)" if "point s u \<noteq> Outside" for u
  proof -
    have "role_in s u \<noteq> Wants" using free by (auto simp: role_in_def role_of_def)
    then have "role_in s u = Waits" "point s u = Remove_test"
      using list_invD(3) [OF inv, of u] no [of u] that by (cases "(point s u, role_in s u)" rule: fits.cases; simp)+
    then show ?thesis by (auto simp: role_in_def role_of_def waiters_def split: if_splits)
  qed
  then have "helpers s = {}" by (auto simp: helpers_def) (metis point.distinct)+
  moreover have "waiters s \<noteq> []" using inside [OF assms(3)] by auto
  ultimately have "items s = []" using list_invD(7) [OF inv] by simp
  then show ?thesis using inside [OF assms(3)] free by blast
qed

theorem shared_list_no_lost_wakeup_witness:
  "\<exists>s. do_calls [Do_Remove, Do_next] (new_SynchList (boot (\<lambda>_. 0)) 0 0 :: nat synchlist) = Some s \<and> idle (krn s) \<and>
     0 \<in> set (waiters s) \<and> items s = []"
proof -
  obtain s where s: "do_calls [Do_Remove, Do_next] (new_SynchList (boot (\<lambda>_. 0)) 0 0 :: nat synchlist) = Some s"
    "idle (krn s)" "point s 0 \<noteq> Outside"
    by (simp add: list_run_defs run_defs)
  have "list_reachable s" by (rule do_calls_reachable [OF new_list_reachable s(1)])
  from shared_list_no_lost_wakeup [OF this s(2,3)] s show ?thesis by blast
qed

end
