(* ===== verification/Coff.thy ===== *)
theory Coff
  imports Paging_Claims
begin

text \<open>
  bin/coff2noff.c with bin/coff.h: the tool that turns what the compiler makes of a user program (COFF)
  into the executables that the kernel maps (NOFF, bin/noff.h). Files are lists of bytes; a failure ends
  the tool and removes its output.
\<close>

section \<open>The COFF file\<close>

datatype coff_failure =
    TooShort            \<comment> \<open>a \<open>read\<close> returns fewer bytes than it was asked for\<close>
  | NotMipsCoff
  | NotOMAGIC
  | DataAndRdata
  | BssAndSbss
  | UnknownSegment
  | SizeUndefined       \<comment> \<open>a negative size: what \<open>malloc\<close> and \<open>read\<close> make of it is up to the system\<close>

fun bind_coff :: "coff_failure + 'a \<Rightarrow> ('a \<Rightarrow> coff_failure + 'b) \<Rightarrow> coff_failure + 'b" where
  "bind_coff (Inl e) f = Inl e"
| "bind_coff (Inr x) f = f x"

lemma bind_coff_Inr [simp]: "bind_coff r f = Inr y \<longleftrightarrow> (\<exists>x. r = Inr x \<and> f x = Inr y)"
  by (cases r) auto

definition MIPSELMAGIC :: u16 where "MIPSELMAGIC = 0x0162"
definition OMAGIC :: u16 where "OMAGIC = 263"

text \<open>The sizes of the structures \<open>filehdr\<close>, \<open>aouthdr\<close> and \<open>scnhdr\<close>, with a \<open>long\<close> of four bytes.\<close>

definition filehdr_size :: nat where "filehdr_size = 20"
definition aouthdr_size :: nat where "aouthdr_size = 56"
definition scnhdr_size :: nat where "scnhdr_size = 40"

record scnhdr =
  s_name :: "u8 list"
  s_paddr :: u32
  s_size :: u32
  s_scnptr :: u32

definition coff_word :: "bool \<Rightarrow> u8 list \<Rightarrow> nat \<Rightarrow> u32" where
  "coff_word big f p = WordToHost big (host_load32 big (\<lambda>j. f ! j) p)"

definition coff_short :: "bool \<Rightarrow> u8 list \<Rightarrow> nat \<Rightarrow> u16" where
  "coff_short big f p = ShortToHost big (host_load16 big (\<lambda>j. f ! j) p)"

definition section_at :: "bool \<Rightarrow> u8 list \<Rightarrow> nat \<Rightarrow> scnhdr" where
  "section_at big f p = \<lparr>s_name = take 8 (drop p f), s_paddr = coff_word big f (p + 8),
     s_size = coff_word big f (p + 16), s_scnptr = coff_word big f (p + 20)\<rparr>"

definition first_section :: nat where "first_section = filehdr_size + aouthdr_size"

definition coff_sections :: "bool \<Rightarrow> u8 list \<Rightarrow> coff_failure + scnhdr list" where
  "coff_sections big f =
     (if length f < filehdr_size then Inl TooShort
      else if coff_short big f 0 \<noteq> MIPSELMAGIC then Inl NotMipsCoff
      else if length f < first_section then Inl TooShort
      else if coff_short big f filehdr_size \<noteq> OMAGIC then Inl NotOMAGIC
      else
        let numsections = unat (coff_short big f 2) in
        if length f < first_section + numsections * scnhdr_size then Inl TooShort
        else Inr (map (\<lambda>i. section_at big f (first_section + i * scnhdr_size)) [0..<numsections]))"

section \<open>Copying the segments\<close>

text \<open>\<open>inpos\<close> is the position of the input file, \<open>copied\<close> what was written behind the place of the header.\<close>

record conversion =
  noffH :: NoffHeader
  inNoffFile :: u32
  inpos :: nat
  copied :: "u8 list"

text \<open>\<open>lseek\<close> to a negative position fails and leaves the position as it is.\<close>

definition raw_data :: "u8 list \<Rightarrow> scnhdr \<Rightarrow> conversion \<Rightarrow> coff_failure + (u8 list \<times> nat)" where
  "raw_data f s st =
     (let p = (if sint (s_scnptr s) < 0 then inpos st else unat (s_scnptr s)); n = unat (s_size s) in
      if sint (s_size s) < 0 then Inl SizeUndefined
      else if p + n \<le> length f then Inr (take n (drop p f), p + n) else Inl TooShort)"

definition copy_segment ::
  "(Segment \<Rightarrow> NoffHeader \<Rightarrow> NoffHeader) \<Rightarrow> u8 list \<Rightarrow> scnhdr \<Rightarrow> conversion \<Rightarrow> coff_failure + conversion" where
  "copy_segment put f s st =
     bind_coff (raw_data f s st) (\<lambda>(bs, p).
     Inr (st\<lparr>noffH := put \<lparr>virtualAddr = s_paddr s, inFileAddr = inNoffFile st, segsize = s_size s\<rparr> (noffH st),
       inNoffFile := inNoffFile st + s_size s, inpos := p, copied := copied st @ bs\<rparr>))"

text \<open>\<open>!strcmp(s_name, name)\<close>, for names of at most seven characters.\<close>

definition named :: "string \<Rightarrow> scnhdr \<Rightarrow> bool" where
  "named name s \<longleftrightarrow> take (length name + 1) (s_name s) = map (\<lambda>c. of_nat (of_char c)) name @ [0]"

definition is_data :: "scnhdr \<Rightarrow> bool" where
  "is_data s \<longleftrightarrow> named ''.data'' s \<or> named ''.rdata'' s"

definition is_bss :: "scnhdr \<Rightarrow> bool" where
  "is_bss s \<longleftrightarrow> named ''.bss'' s \<or> named ''.sbss'' s"

definition add_bss :: "scnhdr \<Rightarrow> conversion \<Rightarrow> coff_failure + conversion" where
  "add_bss s st =
     (let u = uninitData (noffH st) in
      if segsize u \<noteq> 0 then
        if s_paddr s = virtualAddr u + segsize u then Inl BssAndSbss
        else Inr (st\<lparr>noffH := (noffH st)\<lparr>uninitData := u\<lparr>segsize := segsize u + s_size s\<rparr>\<rparr>\<rparr>)
      else Inr (st\<lparr>noffH := (noffH st)\<lparr>uninitData := u\<lparr>virtualAddr := s_paddr s, segsize := s_size s\<rparr>\<rparr>\<rparr>))"

definition add_section :: "u8 list \<Rightarrow> scnhdr \<Rightarrow> conversion \<Rightarrow> coff_failure + conversion" where
  "add_section f s st =
     (if s_size s = 0 then Inr st
      else if named ''.text'' s then copy_segment (\<lambda>g h. h\<lparr>code := g\<rparr>) f s st
      else if is_data s then
        if segsize (initData (noffH st)) \<noteq> 0 then Inl DataAndRdata
        else copy_segment (\<lambda>g h. h\<lparr>initData := g\<rparr>) f s st
      else if is_bss s then add_bss s st
      else Inl UnknownSegment)"

fun add_sections :: "u8 list \<Rightarrow> scnhdr list \<Rightarrow> conversion \<Rightarrow> coff_failure + conversion" where
  "add_sections f [] st = Inr st"
| "add_sections f (s # ss) st = bind_coff (add_section f s st) (add_sections f ss)"

text \<open>\<open>(char *)&noffH\<close>.\<close>

definition host_word :: "bool \<Rightarrow> u32 \<Rightarrow> u8 list" where
  "host_word big w = (if big then [byte_of w 3, byte_of w 2, byte_of w 1, byte_of w 0]
     else [byte_of w 0, byte_of w 1, byte_of w 2, byte_of w 3])"

definition segment_bytes :: "bool \<Rightarrow> Segment \<Rightarrow> u8 list" where
  "segment_bytes big g = host_word big (virtualAddr g) @ host_word big (inFileAddr g) @ host_word big (segsize g)"

definition noff_bytes :: "bool \<Rightarrow> NoffHeader \<Rightarrow> u8 list" where
  "noff_bytes big h = host_word big (noffMagic h) @ segment_bytes big (code h) @ segment_bytes big (initData h) @
     segment_bytes big (uninitData h)"

text \<open>\<open>garbage\<close> is what the header on the stack held: a segment that the input lacks keeps its addresses.\<close>

definition coff2noff :: "bool \<Rightarrow> NoffHeader \<Rightarrow> u8 list \<Rightarrow> coff_failure + u8 list" where
  "coff2noff big garbage f =
     bind_coff (coff_sections big f) (\<lambda>ss.
     bind_coff (add_sections f ss
       \<lparr>noffH = \<lparr>noffMagic = NOFFMAGIC, code = (code garbage)\<lparr>segsize := 0\<rparr>,
          initData = (initData garbage)\<lparr>segsize := 0\<rparr>, uninitData = (uninitData garbage)\<lparr>segsize := 0\<rparr>\<rparr>,
        inNoffFile = of_nat NoffHeaderSize, inpos = first_section + length ss * scnhdr_size, copied = []\<rparr>) (\<lambda>st.
     Inr (noff_bytes big (noffH st) @ copied st)))"

section \<open>The header that the kernel reads\<close>

lemma length_host_word [simp]: "length (host_word big w) = 4"
  by (simp add: host_word_def)

lemma load_host_word: "host_load32 big (\<lambda>j. (xs @ host_word big w @ ys) ! j) (length xs) = w"
  by (simp add: host_load32_def host_word_def nth_append le32_bytes [unfolded One_nat_def])

lemma load_at:
  "length xs = p \<Longrightarrow> host_load32 big (\<lambda>j. (xs @ host_word big w @ ys) ! j) p = w"
  using load_host_word by blast

lemma length_noff_bytes [simp]: "length (noff_bytes big h) = NoffHeaderSize"
  by (simp add: noff_bytes_def segment_bytes_def NoffHeaderSize_def)

lemma read_noff_bytes: "read_header big (noff_bytes big h @ d) = Inr h"
proof -
  have "header_word big (noff_bytes big h @ d) i = w"
    if "noff_bytes big h @ d = xs @ host_word big w @ ys" "length xs = 4 * i" for xs w ys i
    unfolding that(1) header_word_def by (rule load_at [OF that(2)])
  note at = this [unfolded noff_bytes_def segment_bytes_def append_assoc]
  let ?w = "host_word big" and ?c = "code h" and ?i = "initData h" and ?u = "uninitData h"
  let ?f = "noff_bytes big h @ d"
  let ?x1 = "?w (noffMagic h)"
  let ?x2 = "?x1 @ ?w (virtualAddr ?c)" let ?x3 = "?x2 @ ?w (inFileAddr ?c)" let ?x4 = "?x3 @ ?w (segsize ?c)"
  let ?x5 = "?x4 @ ?w (virtualAddr ?i)" let ?x6 = "?x5 @ ?w (inFileAddr ?i)" let ?x7 = "?x6 @ ?w (segsize ?i)"
  let ?x8 = "?x7 @ ?w (virtualAddr ?u)" let ?x9 = "?x8 @ ?w (inFileAddr ?u)"
  have "header_word big ?f 0 = noffMagic h" "header_word big ?f 1 = virtualAddr ?c" "header_word big ?f 2 = inFileAddr ?c"
    "header_word big ?f 3 = segsize ?c" "header_word big ?f 4 = virtualAddr ?i" "header_word big ?f 5 = inFileAddr ?i"
    "header_word big ?f 6 = segsize ?i" "header_word big ?f 7 = virtualAddr ?u" "header_word big ?f 8 = inFileAddr ?u"
    "header_word big ?f 9 = segsize ?u"
    unfolding noff_bytes_def segment_bytes_def append_assoc
    by (rule at [where xs = "[]"], simp, simp, rule at [where xs = ?x1], simp, simp, rule at [where xs = ?x2], simp, simp,
        rule at [where xs = ?x3], simp, simp, rule at [where xs = ?x4], simp, simp, rule at [where xs = ?x5], simp, simp,
        rule at [where xs = ?x6], simp, simp, rule at [where xs = ?x7], simp, simp, rule at [where xs = ?x8], simp, simp,
        rule at [where xs = ?x9], simp, simp)
  then show ?thesis by (simp add: read_header_def header_segment_def NoffHeaderSize_def numeral_eq_Suc)
qed

section \<open>What a conversion keeps\<close>

text \<open>Sections without data of their own: empty ones and uninitialised data.\<close>

definition without_data :: "scnhdr \<Rightarrow> bool" where
  "without_data s \<longleftrightarrow> s_size s = 0 \<or> \<not> named ''.text'' s \<and> \<not> is_data s"

lemma unat_add_le: "unat (a + b) \<le> unat a + unat (b :: u32)"
  by (simp add: unat_plus_if')

lemma add_section_without_data:
  assumes "without_data s" "add_section f s st = Inr st'"
  shows "\<exists>u. st' = st\<lparr>noffH := (noffH st)\<lparr>uninitData := u\<rparr>\<rparr> \<and>
    unat (segsize u) \<le> unat (segsize (uninitData (noffH st))) + unat (s_size s)"
proof (cases "s_size s = 0")
  case True
  then show ?thesis using assms(2) by (intro exI [of _ "uninitData (noffH st)"]) (simp add: add_section_def)
next
  case False
  then have b: "add_bss s st = Inr st'"
    using assms by (simp add: add_section_def without_data_def split: if_splits)
  let ?u = "uninitData (noffH st)"
  show ?thesis
  proof (cases "segsize ?u = 0")
    case True
    then show ?thesis using b
      by (intro exI [of _ "?u\<lparr>virtualAddr := s_paddr s, segsize := s_size s\<rparr>"]) (simp add: add_bss_def Let_def)
  next
    case nz: False
    then show ?thesis using b unat_add_le [of "segsize ?u" "s_size s"]
      by (intro exI [of _ "?u\<lparr>segsize := segsize ?u + s_size s\<rparr>"]) (auto simp: add_bss_def Let_def split: if_splits)
  qed
qed

lemma add_sections_without_data:
  "add_sections f ss st = Inr st' \<Longrightarrow> \<forall>s\<in>set ss. without_data s \<Longrightarrow>
   \<exists>u. st' = st\<lparr>noffH := (noffH st)\<lparr>uninitData := u\<rparr>\<rparr> \<and>
     unat (segsize u) \<le> unat (segsize (uninitData (noffH st))) + sum_list (map (\<lambda>s. unat (s_size s)) ss)"
proof (induction ss arbitrary: st)
  case Nil
  then show ?case by (intro exI [of _ "uninitData (noffH st)"]) simp
next
  case (Cons s ss)
  then obtain x where x: "add_section f s st = Inr x" "add_sections f ss x = Inr st'" by auto
  obtain u where u: "x = st\<lparr>noffH := (noffH st)\<lparr>uninitData := u\<rparr>\<rparr>"
    "unat (segsize u) \<le> unat (segsize (uninitData (noffH st))) + unat (s_size s)"
    using add_section_without_data [OF _ x(1)] Cons(3) by auto
  obtain w where "st' = x\<lparr>noffH := (noffH x)\<lparr>uninitData := w\<rparr>\<rparr>"
    "unat (segsize w) \<le> unat (segsize (uninitData (noffH x))) + sum_list (map (\<lambda>s. unat (s_size s)) ss)"
    using Cons(1) [OF x(2)] Cons(3) by auto
  with u show ?case by (intro exI [of _ w]) simp
qed

lemma raw_data_Inr:
  assumes "raw_data f s st = Inr (bs, p)"
  shows "0 \<le> sint (s_size s)" "length bs = unat (s_size s)"
    "0 \<le> sint (s_scnptr s) \<Longrightarrow> bs = take (unat (s_size s)) (drop (unat (s_scnptr s)) f) \<and>
       unat (s_scnptr s) + unat (s_size s) \<le> length f"
  using assms by (auto simp: raw_data_def Let_def split: if_splits)

lemma named_char: "named n s \<Longrightarrow> Suc 0 < length n \<Longrightarrow> s_name s ! 1 = of_nat (of_char (n ! 1))"
proof -
  assume n: "named n s" "Suc 0 < length n"
  then have "take (length n + 1) (s_name s) ! 1 = (map (\<lambda>c. of_nat (of_char c)) n @ [0]) ! 1" by (simp only: named_def)
  moreover have "take (length n + 1) (s_name s) ! 1 = s_name s ! 1" using n(2) by (intro nth_take) linarith
  ultimately show ?thesis using n(2) by (simp add: nth_append)
qed

lemma text_not_data: "named ''.text'' s \<Longrightarrow> \<not> is_data s"
  by (auto simp: is_data_def of_char_def dest!: named_char)

lemma copy_segment_Inr:
  assumes "copy_segment put f s st = Inr st'" "0 \<le> sint (s_scnptr s)"
  shows "0 \<le> sint (s_size s)" "unat (s_scnptr s) + unat (s_size s) \<le> length f"
    "noffH st' = put \<lparr>virtualAddr = s_paddr s, inFileAddr = inNoffFile st, segsize = s_size s\<rparr> (noffH st)"
    "inNoffFile st' = inNoffFile st + s_size s"
    "copied st' = copied st @ take (unat (s_size s)) (drop (unat (s_scnptr s)) f)"
proof -
  obtain bs p where r: "raw_data f s st = Inr (bs, p)" and st': "st' = st\<lparr>noffH := put \<lparr>virtualAddr = s_paddr s,
      inFileAddr = inNoffFile st, segsize = s_size s\<rparr> (noffH st), inNoffFile := inNoffFile st + s_size s, inpos := p,
      copied := copied st @ bs\<rparr>" using assms(1) by (auto simp: copy_segment_def)
  show "0 \<le> sint (s_size s)" by (rule raw_data_Inr(1) [OF r])
  show "unat (s_scnptr s) + unat (s_size s) \<le> length f" using raw_data_Inr(3) [OF r assms(2)] by blast
  show "copied st' = copied st @ take (unat (s_size s)) (drop (unat (s_scnptr s)) f)"
    using raw_data_Inr(3) [OF r assms(2)] st' by simp
qed (use assms(1) in \<open>auto simp: copy_segment_def\<close>)

text \<open>The conversion of a file with code, initialised data and then sections without data.\<close>

lemma coff2noff_does:
  assumes c: "coff_sections big f = Inr (t # d # rest)" "coff2noff big g f = Inr out"
    and t: "named ''.text'' t" "s_size t \<noteq> 0" "0 \<le> sint (s_scnptr t)"
    and d: "is_data d" "s_size d \<noteq> 0" "0 \<le> sint (s_scnptr d)" and r: "\<forall>s\<in>set rest. without_data s"
  shows "\<exists>u. out = noff_bytes big \<lparr>noffMagic = NOFFMAGIC, code = \<lparr>virtualAddr = s_paddr t, inFileAddr = 40, segsize = s_size t\<rparr>,
      initData = \<lparr>virtualAddr = s_paddr d, inFileAddr = 40 + s_size t, segsize = s_size d\<rparr>, uninitData = u\<rparr> @
      take (unat (s_size t)) (drop (unat (s_scnptr t)) f) @ take (unat (s_size d)) (drop (unat (s_scnptr d)) f) \<and>
    unat (segsize u) \<le> sum_list (map (\<lambda>s. unat (s_size s)) rest) \<and> 0 \<le> sint (s_size t) \<and> 0 \<le> sint (s_size d) \<and>
    unat (s_scnptr t) + unat (s_size t) \<le> length f \<and> unat (s_scnptr d) + unat (s_size d) \<le> length f"
proof -
  let ?st = "\<lparr>noffH = \<lparr>noffMagic = NOFFMAGIC, code = (code g)\<lparr>segsize := 0\<rparr>,
      initData = (initData g)\<lparr>segsize := 0\<rparr>, uninitData = (uninitData g)\<lparr>segsize := 0\<rparr>\<rparr>,
      inNoffFile = of_nat NoffHeaderSize, inpos = first_section + length (t # d # rest) * scnhdr_size, copied = []\<rparr>"
  obtain x y z where st: "add_section f t ?st = Inr x" "add_section f d x = Inr y" "add_sections f rest y = Inr z"
    "out = noff_bytes big (noffH z) @ copied z" using c by (auto simp: coff2noff_def)
  have "copy_segment (\<lambda>g h. h\<lparr>code := g\<rparr>) f t ?st = Inr x" using st(1) t by (simp add: add_section_def)
  note X = copy_segment_Inr [OF this t(3)]
  have "copy_segment (\<lambda>g h. h\<lparr>initData := g\<rparr>) f d x = Inr y"
    using st(2) d text_not_data [of d] X(3) by (auto simp: add_section_def split: if_splits)
  note Y = copy_segment_Inr [OF this d(3)]
  obtain u where u: "z = y\<lparr>noffH := (noffH y)\<lparr>uninitData := u\<rparr>\<rparr>"
    "unat (segsize u) \<le> unat (segsize (uninitData (noffH y))) + sum_list (map (\<lambda>s. unat (s_size s)) rest)"
    using add_sections_without_data [OF st(3) r] by blast
  show ?thesis
    using u X Y st(4) by (intro exI [of _ u]) (simp add: NoffHeaderSize_def)
qed

section \<open>Properties\<close>

lemma sint_eq_unat: "0 \<le> sint (w :: u32) \<Longrightarrow> sint w = int (unat w)"
  by (metis uint_sint uint_nat)

text \<open>
  A program gets into an address space as it was compiled. For a COFF file whose sections are the code at
  address 0, the initialised data right behind it and then sections without data, the tool writes an
  executable that the kernel accepts; a process made of it is a sound state of the pager and finds every byte
  of the code and of the initialised data of the COFF file at the address the compiler gave it, and no other
  process sees a change.
\<close>

lemma compiled_program_is_mapped:
  assumes "coff_sections big f = Inr (t # d # rest)" "coff2noff big garbage f = Inr out"
    and "named ''.text'' t" "s_size t \<noteq> 0" "0 \<le> sint (s_scnptr t)" "s_paddr t = 0"
    and "is_data d" "s_size d \<noteq> 0" "0 \<le> sint (s_scnptr d)" "s_paddr d = s_size t"
    and "\<forall>s\<in>set rest. without_data s"
    and "unat (s_size t) + unat (s_size d) + sum_list (map (\<lambda>s. unat (s_size s)) rest) < 2 ^ 30"
    and "vm_ok s" "spaces s sid = None"
  shows "\<exists>sp. new_AddrSpace big g (Some out) = Inr sp \<and> vm_ok (s\<lparr>spaces := (spaces s)(sid \<mapsto> sp)\<rparr>) \<and>
    int (length (pages sp)) < 2 ^ 24 \<and>
    (\<forall>i<unat (s_size t). let a = unat (s_paddr t) + i in
       page_byte {} (s\<lparr>spaces := (spaces s)(sid \<mapsto> sp)\<rparr>) sid (int (a div 128)) (a mod 128) (f ! (unat (s_scnptr t) + i))) \<and>
    (\<forall>i<unat (s_size d). let a = unat (s_paddr d) + i in
       page_byte {} (s\<lparr>spaces := (spaces s)(sid \<mapsto> sp)\<rparr>) sid (int (a div 128)) (a mod 128) (f ! (unat (s_scnptr d) + i))) \<and>
    (\<forall>x v k b. x \<noteq> sid \<longrightarrow> page_byte {} (s\<lparr>spaces := (spaces s)(sid \<mapsto> sp)\<rparr>) x v k b = page_byte {} s x v k b)"
proof -
  let ?T = "unat (s_size t)" and ?D = "unat (s_size d)"
  let ?bt = "take ?T (drop (unat (s_scnptr t)) f)" and ?bd = "take ?D (drop (unat (s_scnptr d)) f)"
  obtain u where u: "out = noff_bytes big \<lparr>noffMagic = NOFFMAGIC, code = \<lparr>virtualAddr = s_paddr t, inFileAddr = 40, segsize = s_size t\<rparr>,
      initData = \<lparr>virtualAddr = s_paddr d, inFileAddr = 40 + s_size t, segsize = s_size d\<rparr>, uninitData = u\<rparr> @ ?bt @ ?bd"
    "unat (segsize u) \<le> sum_list (map (\<lambda>s. unat (s_size s)) rest)" "0 \<le> sint (s_size t)" "0 \<le> sint (s_size d)"
    "unat (s_scnptr t) + ?T \<le> length f" "unat (s_scnptr d) + ?D \<le> length f"
    using coff2noff_does [OF assms(1-5,7-9,11)] by blast
  define h where "h = \<lparr>noffMagic = NOFFMAGIC, code = \<lparr>virtualAddr = s_paddr t, inFileAddr = 40, segsize = s_size t\<rparr>,
      initData = \<lparr>virtualAddr = s_paddr d, inFileAddr = 40 + s_size t, segsize = s_size d\<rparr>, uninitData = u\<rparr>"
  have o: "out = noff_bytes big h @ ?bt @ ?bd" using u(1) by (simp add: h_def)
  have su: "0 \<le> sint (segsize u)"
  proof -
    have "unat (segsize u) < 2 ^ 31" using u(2) assms(12) by simp
    then have "int (unat (segsize u)) < 2 ^ 31" by (metis of_nat_less_iff of_nat_numeral of_nat_power)
    then have "int32 (int (unat (segsize u)))" by (auto simp: int32_def intro: order_trans [OF _ uint_ge_0])
    then have "sint (word_of_int (int (unat (segsize u))) :: u32) = int (unat (segsize u))" by (rule sint_int32)
    then show ?thesis by simp
  qed
  note sz = sint_eq_unat [OF u(3)] sint_eq_unat [OF u(4)] sint_eq_unat [OF su]
  have ld: "loaded_size h = int (?T + ?D)" and at: "nat (sint (inFileAddr (code h))) = 40"
    using sz by (simp_all add: loaded_size_def h_def)
  have "?T + ?D + unat (segsize u) < 1073741824" using u(2) assms(12) by simp
  then have "int (?T + ?D + unat (segsize u)) < int 1073741824" by (rule iffD2 [OF of_nat_less_iff])
  then have total: "sint (s_size t) + sint (s_size d) + sint (segsize u) < 1073741824"
    unfolding sz of_nat_add by (simp only: of_nat_numeral)
  then have ok: "noff_ok h" using u(3,4) su by (simp add: noff_ok_def loaded_size_def h_def)
 have len: "length ?bt = ?T" "length ?bd = ?D" using u(5,6) by simp_all
  have byte: "out ! (40 + v) = (?bt @ ?bd) ! v" "40 + v < length out" if "v < ?T + ?D" for v
    using that len by (simp_all add: o nth_append NoffHeaderSize_def)
  obtain sp where sp: "new_AddrSpace big g (Some out) = Inr sp" "vm_ok (s\<lparr>spaces := (spaces s)(sid \<mapsto> sp)\<rparr>)"
    "\<And>a k. k < 128 \<Longrightarrow> int (a * 128 + k) < loaded_size h \<Longrightarrow> nat (sint (inFileAddr (code h))) + a * 128 + k < length out \<Longrightarrow>
       page_byte {} (s\<lparr>spaces := (spaces s)(sid \<mapsto> sp)\<rparr>) sid (int a) k (out ! (nat (sint (inFileAddr (code h))) + a * 128 + k))"
    "\<And>x v k b. x \<noteq> sid \<Longrightarrow> page_byte {} (s\<lparr>spaces := (spaces s)(sid \<mapsto> sp)\<rparr>) x v k b = page_byte {} s x v k b"
    using exec_maps_program [OF assms(13,14) read_noff_bytes [of big h "?bt @ ?bd", folded o] ok, of g] by blast
  have img: "page_byte {} (s\<lparr>spaces := (spaces s)(sid \<mapsto> sp)\<rparr>) sid (int (v div 128)) (v mod 128) ((?bt @ ?bd) ! v)"
    if "v < ?T + ?D" for v
  proof -
    have e: "40 + v div 128 * 128 + v mod 128 = 40 + v" by (simp add: add.assoc)
    have lt: "int (v div 128 * 128 + v mod 128) < loaded_size h"
      unfolding ld of_nat_less_iff div_mult_mod_eq by (rule that)
    have "page_byte {} (s\<lparr>spaces := (spaces s)(sid \<mapsto> sp)\<rparr>) sid (int (v div 128)) (v mod 128)
        (out ! (40 + v div 128 * 128 + v mod 128))"
      using sp(3) [OF _ lt] byte(2) [OF that] unfolding at e by simp
    then show ?thesis unfolding e byte(1) [OF that] .
  qed
  have "pages sp = new_pages g h (nat (divRoundUp (loaded_size h + sint (segsize (uninitData h))) PageSize + 800))
      (divRoundUp (loaded_size h) PageSize)"
    using sp(1) new_AddrSpace_ok [OF read_noff_bytes [of big h "?bt @ ?bd", folded o] ok, of g] by auto
  moreover have "divRoundUp (loaded_size h + sint (segsize (uninitData h))) PageSize + 800 < 2 ^ 24"
    using total by (simp add: divRoundUp_def PageSize_def loaded_size_def h_def) linarith
  ultimately have len_sp: "int (length (pages sp)) < 2 ^ 24" by (simp add: new_pages_def)
  show ?thesis
  proof (intro exI conjI allI impI)
    show "new_AddrSpace big g (Some out) = Inr sp" by (rule sp(1))
    show "vm_ok (s\<lparr>spaces := (spaces s)(sid \<mapsto> sp)\<rparr>)" by (rule sp(2))
    show "int (length (pages sp)) < 2 ^ 24" by (rule len_sp)
    show "let a = unat (s_paddr t) + i in page_byte {} (s\<lparr>spaces := (spaces s)(sid \<mapsto> sp)\<rparr>) sid (int (a div 128)) (a mod 128)
        (f ! (unat (s_scnptr t) + i))" if "i < ?T" for i
      using img [of i] that len assms(6) u(5) by (simp add: nth_append Let_def)
    show "let a = unat (s_paddr d) + i in page_byte {} (s\<lparr>spaces := (spaces s)(sid \<mapsto> sp)\<rparr>) sid (int (a div 128)) (a mod 128)
        (f ! (unat (s_scnptr d) + i))" if "i < ?D" for i
      using img [of "?T + i"] that len assms(10) u(6) by (simp add: nth_append Let_def)
    show "page_byte {} (s\<lparr>spaces := (spaces s)(sid \<mapsto> sp)\<rparr>) x v k b = page_byte {} s x v k b" if "x \<noteq> sid" for x v k b
      by (rule sp(4) [OF that])
  qed
qed

text \<open>128 bytes of code, the first of which are the instruction SYSCALL, four of data, eight that are not initialised.\<close>

definition sample_coff :: "u8 list" where
  "sample_coff = [0x62, 1, 3, 0] @ replicate 16 0 @ [7, 1] @ replicate 54 0 @
     [46, 116, 101, 120, 116, 0, 0, 0, 0, 0, 0, 0, 0, 0, 0, 0, 128, 0, 0, 0, 196, 0, 0, 0] @ replicate 16 0 @
     [46, 100, 97, 116, 97, 0, 0, 0, 128, 0, 0, 0, 128, 0, 0, 0, 4, 0, 0, 0, 68, 1, 0, 0] @ replicate 16 0 @
     [46, 98, 115, 115, 0, 0, 0, 0, 132, 0, 0, 0, 132, 0, 0, 0, 8, 0, 0, 0, 0, 0, 0, 0] @ replicate 16 0 @
     [12, 0, 0, 0] @ replicate 124 9 @ [1, 2, 3, 4]"

lemma sample_coff_sections: "coff_sections False sample_coff = Inr [
    \<lparr>s_name = [46, 116, 101, 120, 116, 0, 0, 0], s_paddr = 0, s_size = 128, s_scnptr = 196\<rparr>,
    \<lparr>s_name = [46, 100, 97, 116, 97, 0, 0, 0], s_paddr = 128, s_size = 4, s_scnptr = 324\<rparr>,
    \<lparr>s_name = [46, 98, 115, 115, 0, 0, 0, 0], s_paddr = 132, s_size = 8, s_scnptr = 0\<rparr>]"
  by code_simp

lemma sample_coff_facts:
  "\<exists>out. coff2noff False sample_noff sample_coff = Inr out"
  "named ''.text'' \<lparr>s_name = [46, 116, 101, 120, 116, 0, 0, 0], s_paddr = 0, s_size = 128, s_scnptr = 196\<rparr>"
  "is_data \<lparr>s_name = [46, 100, 97, 116, 97, 0, 0, 0], s_paddr = 128, s_size = 4, s_scnptr = 324\<rparr>"
  "without_data \<lparr>s_name = [46, 98, 115, 115, 0, 0, 0, 0], s_paddr = 132, s_size = 8, s_scnptr = 0\<rparr>"
proof -
  have "(case coff2noff False sample_noff sample_coff of Inl _ \<Rightarrow> False | Inr _ \<Rightarrow> True)" by code_simp
  then show "\<exists>out. coff2noff False sample_noff sample_coff = Inr out" by (auto split: sum.splits)
qed (simp_all add: named_def is_data_def without_data_def of_char_def)

end
