(* ===== verification/Handler.thy ===== *)
theory Handler
  imports Process_Claims Coff Mips
begin

text \<open>
  The entry of the kernel: \<open>ExceptionHandler\<close> (userprog/exception.cc, without NETWORK) over the state \<open>os\<close> of
  Processes, the machine that runs user programs with it, and the start of the first program (userprog/progtest.cc).
\<close>

section \<open>What the calls get from outside\<close>

text \<open>
  What one call may need besides the state: what \<open>new\<close> returns and what fresh memory holds, the UNIX files that
  hold executables, the clock, the integer that \<open>cin\<close> delivers in the end (\<open>None\<close>: it never does), the numbers that \<open>srand\<close> selects, and what
  \<open>printf\<close> makes of a format and four integers.
\<close>

record env =
  big :: bool
  fileNoise :: fresh
  noise :: "nat \<Rightarrow> u8"
  words :: "nat \<Rightarrow> u32"
  lockNoise :: "nat \<Rightarrow> LockEntry"
  ownerNoise :: "tid option"
  conditionNoise :: "nat \<Rightarrow> ConditionEntry"
  waitingNoise :: "lid option"
  slots :: "nat \<Rightarrow> OpenFile option"
  pageNoise :: "nat \<Rightarrow> PageTableEntry"
  beyond :: u8
  newThread :: tid
  newSpace :: nat
  unixFile :: "u8 list \<Rightarrow> u8 list option"
  now :: int
  typed :: "int option"
  seeded :: "u32 \<Rightarrow> nat \<Rightarrow> int"
  formatted :: "u8 list \<Rightarrow> u32 list \<Rightarrow> u8 list result"

definition SC_Halt :: int where "SC_Halt = 0"
definition SC_Exit :: int where "SC_Exit = 1"
definition SC_Exec :: int where "SC_Exec = 2"
definition SC_Create :: int where "SC_Create = 4"
definition SC_Open :: int where "SC_Open = 5"
definition SC_Read :: int where "SC_Read = 6"
definition SC_Write :: int where "SC_Write = 7"
definition SC_Close :: int where "SC_Close = 8"
definition SC_Fork :: int where "SC_Fork = 9"
definition SC_Yield :: int where "SC_Yield = 10"
definition SC_CreateLock :: int where "SC_CreateLock = 11"
definition SC_CreateCondition :: int where "SC_CreateCondition = 12"
definition SC_Acquire :: int where "SC_Acquire = 13"
definition SC_Release :: int where "SC_Release = 14"
definition SC_Signal :: int where "SC_Signal = 15"
definition SC_Broadcast :: int where "SC_Broadcast = 16"
definition SC_DestroyLock :: int where "SC_DestroyLock = 17"
definition SC_DestroyCondition :: int where "SC_DestroyCondition = 18"
definition SC_Wait :: int where "SC_Wait = 19"
definition SC_NPrint :: int where "SC_NPrint = 24"
definition SC_NEncode2to1 :: int where "SC_NEncode2to1 = 25"
definition SC_CreateQueue :: int where "SC_CreateQueue = 27"
definition SC_QueuePush :: int where "SC_QueuePush = 29"
definition SC_QueueFront :: int where "SC_QueueFront = 30"
definition SC_QueuePop :: int where "SC_QueuePop = 31"
definition SC_QueueEmpty :: int where "SC_QueueEmpty = 32"
definition SC_QueueSize :: int where "SC_QueueSize = 33"
definition SC_NTime :: int where "SC_NTime = 34"
definition SC_NRand :: int where "SC_NRand = 35"
definition SC_NSrand :: int where "SC_NSrand = 36"
definition SC_ReadInt :: int where "SC_ReadInt = 37"
definition SC_RandInt :: int where "SC_RandInt = 38"

lemmas SC_codes = SC_Halt_def SC_Exit_def SC_Exec_def SC_Create_def SC_Open_def SC_Read_def
  SC_Write_def SC_Close_def SC_Fork_def SC_Yield_def SC_CreateLock_def SC_CreateCondition_def
  SC_Acquire_def SC_Release_def SC_Signal_def SC_Broadcast_def SC_DestroyLock_def SC_DestroyCondition_def
  SC_Wait_def SC_NPrint_def SC_NEncode2to1_def SC_CreateQueue_def SC_QueuePush_def SC_QueueFront_def
  SC_QueuePop_def SC_QueueEmpty_def SC_QueueSize_def SC_NTime_def SC_NRand_def SC_NSrand_def
  SC_ReadInt_def SC_RandInt_def

section \<open>Calls that only talk to the outside\<close>

definition NPrint_Syscall :: "env \<Rightarrow> u32 \<Rightarrow> int \<Rightarrow> u32 \<Rightarrow> u32 \<Rightarrow> io \<Rightarrow> io result option" where
  "NPrint_Syscall E outputString len v1 v2 s =
     (if len + 1 < 0 then Some (Inl OutOfMemory)
      else if len < 0 then Some (Inl OutOfBounds)
      else after (copyin (big E) outputString len (iovm s)) (\<lambda>(buf, v).
        case (decode2to1 v1, decode2to1 v2) of ((a, b), (c, d)) \<Rightarrow>
        bind_result (formatted E (c_string buf) [a, b, c, d]) (\<lambda>out. Inr (s\<lparr>iovm := v, screen := screen s @ out\<rparr>))))"

text \<open>
  The prompt is not terminated: \<open>beyond\<close> is the byte after it. The loop asks until an integer comes; its
  messages are not modelled.
\<close>

definition ReadInt_prompt :: "env \<Rightarrow> u32 \<Rightarrow> int \<Rightarrow> io \<Rightarrow> io result option" where
  "ReadInt_prompt E vaddr sz s =
     (if sz < 0 then Some (Inl OutOfMemory)
      else after (copyin (big E) vaddr sz (iovm s)) (\<lambda>(buf, v).
        bind_result (printed (buf @ [beyond E])) (\<lambda>out. Inr (s\<lparr>iovm := v, screen := screen s @ out\<rparr>))))"

definition ReadInt_Syscall :: "env \<Rightarrow> u32 \<Rightarrow> int \<Rightarrow> io \<Rightarrow> (int \<times> io) result option" where
  "ReadInt_Syscall E vaddr sz s =
     (case ReadInt_prompt E vaddr sz s of
        None \<Rightarrow> None
      | Some (Inl c) \<Rightarrow> Some (Inl c)
      | Some (Inr x) \<Rightarrow> map_option (\<lambda>i. Inr (i, x)) (typed E))"

definition NRand_Syscall :: "io \<Rightarrow> int \<times> io" where
  "NRand_Syscall s = (case rand (iovm s) of (r, v) \<Rightarrow> (r, s\<lparr>iovm := v\<rparr>))"

definition RandInt_Syscall :: "io \<Rightarrow> int \<times> io" where
  "RandInt_Syscall s = (case rand (iovm s) of (r, v) \<Rightarrow> (r, s\<lparr>iovm := v\<rparr>))"

definition NTime_Syscall :: "env \<Rightarrow> int" where
  "NTime_Syscall E = now E"

definition NSrand_Syscall :: "env \<Rightarrow> u32 \<Rightarrow> io \<Rightarrow> io" where
  "NSrand_Syscall E seed s = s\<lparr>iovm := (iovm s)\<lparr>randoms := seeded E seed\<rparr>\<rparr>"

section \<open>The handler\<close>

text \<open>The ways back: with a result and a new state, from a call on files, and from a call on the kernel that may switch.\<close>

definition return_value :: "(int \<times> os) result option \<Rightarrow> os result option" where
  "return_value r = after r (\<lambda>(rv, s). Inr (syscall_return (word_of_int rv) s))"

definition from_io :: "(int \<times> io) result option \<Rightarrow> os \<Rightarrow> os result option" where
  "from_io r s = return_value (after r (\<lambda>(rv, x). Inr (rv, s\<lparr>osio := x\<rparr>)))"

definition from_sys :: "bool \<Rightarrow> sys result \<Rightarrow> os \<Rightarrow> os result" where
  "from_sys switched r s =
     bind_result r (\<lambda>y.
     if switched \<or> idle (kern y) \<or> currentThread (kern y) \<noteq> running s
     then switch_user (kern y) (s\<lparr>osys := y\<lparr>kern := kern (osys s)\<rparr>\<rparr>)
     else Inr (syscall_return 0 (s\<lparr>osys := y\<rparr>)))"

text \<open>The names of locks and condition variables are read and forgotten.\<close>

definition named_call :: "env \<Rightarrow> (sys \<Rightarrow> (int \<times> sys) option result) \<Rightarrow> u32 \<Rightarrow> int \<Rightarrow> os \<Rightarrow> os result option" where
  "named_call E f nameIndex len s =
     (if len < 0 then Some (Inl OutOfMemory)
      else return_value (after (copyin (big E) nameIndex len (osvm s)) (\<lambda>(_, v).
        bind_result (f (osys s)) (\<lambda>x.
        case x of None \<Rightarrow> Inl crash.Halted | Some (i, y) \<Rightarrow> Inr (i, (set_osvm v s)\<lparr>osys := y\<rparr>)))))"

definition system_call :: "env \<Rightarrow> os \<Rightarrow> os result option" where
  "system_call E s =
     (let a = registers (osvm s); n = (\<lambda>i. sint (a i)); type = n 2; x = osio s; y = osys s in
      if type = SC_Create then from_io (after (Create_Syscall (big E) (fileNoise E) (a 4) (n 5) x) (\<lambda>x'. Inr (0, x'))) s
      else if type = SC_Open then from_io (Open_Syscall (big E) (fileNoise E) (a 4) (n 5) x) s
      else if type = SC_Write then
        from_io (after (Write_Syscall (big E) (noise E) (a 4) (n 5) (n 6) x) (\<lambda>x'. Inr (0, x'))) s
      else if type = SC_Read then from_io (Some (Read_Syscall (big E) (noise E) (a 4) (n 5) (n 6) x)) s
      else if type = SC_Close then from_io (after (Some (Close_Syscall (n 4) x)) (\<lambda>x'. Inr (0, x'))) s
      else if type = SC_Acquire then Some (from_sys False (Acquire_Syscall (n 4) y) s)
      else if type = SC_Release then Some (from_sys False (Release_Syscall (n 4) y) s)
      else if type = SC_Signal then Some (from_sys False (Signal_Syscall (n 4) (n 5) y) s)
      else if type = SC_Wait then Some (from_sys False (Wait_Syscall (n 4) (n 5) y) s)
      else if type = SC_Broadcast then map_option (\<lambda>r. from_sys False r s) (Broadcast_Syscall (n 4) (n 5) y)
      else if type = SC_CreateLock then
        named_call E (CreateLock_Syscall (words E) (lockNoise E) (ownerNoise E)) (a 4) (n 5) s
      else if type = SC_CreateCondition then
        named_call E (CreateCondition_Syscall (words E) (conditionNoise E) (waitingNoise E)) (a 4) (n 5) s
      else if type = SC_Yield then Some (from_sys (readyList (kern y) \<noteq> []) (Yield_Syscall y) s)
      else if type = SC_DestroyLock then Some (from_sys False (DestroyLock_Syscall (n 4) y) s)
      else if type = SC_DestroyCondition then Some (from_sys False (DestroyCondition_Syscall (n 4) y) s)
      else if type = SC_Fork then
        return_value (after (Fork_Syscall (big E) (newThread E) (a 4) (a 5) (n 6) s) (\<lambda>s'. Inr (0, s')))
      else if type = SC_Exec then
        return_value (Exec_Syscall (big E) (newThread E) (newSpace E) (beyond E) (words E) (slots E) (pageNoise E)
          (unixFile E) (a 4) (n 5) (a 6) (n 7) s)
      else if type = SC_NPrint then from_io (after (NPrint_Syscall E (a 4) (n 5) (a 6) (a 7) x) (\<lambda>x'. Inr (0, x'))) s
      else if type = SC_NEncode2to1 then return_value (Some (Inr (sint (NEncode2to1_Syscall (a 4) (a 5)), s)))
      else if type = SC_Exit then Some (Exit_Syscall s)
      else if type = SC_ReadInt then from_io (ReadInt_Syscall E (a 4) (n 5) x) s
      else if type = SC_RandInt then from_io (Some (Inr (RandInt_Syscall x))) s
      else if type = SC_CreateQueue then
        return_value (Some (bind_result (CreateQueue_Syscall (words E) y) (\<lambda>r.
          case r of None \<Rightarrow> Inl crash.Halted | Some (i, y') \<Rightarrow> Inr (i, s\<lparr>osys := y'\<rparr>))))
      else if type = SC_QueuePush then Some (from_sys False (QueuePush_Syscall (n 4) (n 5) y) s)
      else if type = SC_QueueFront then return_value (Some (bind_result (QueueFront_Syscall (n 4) y) (\<lambda>r. Inr (r, s))))
      else if type = SC_QueuePop then Some (from_sys False (QueuePop_Syscall (n 4) y) s)
      else if type = SC_QueueEmpty then return_value (Some (bind_result (QueueEmpty_Syscall (n 4) y) (\<lambda>r. Inr (r, s))))
      else if type = SC_QueueSize then return_value (Some (bind_result (QueueSize_Syscall (n 4) y) (\<lambda>r. Inr (r, s))))
      else if type = SC_NRand then from_io (Some (Inr (NRand_Syscall x))) s
      else if type = SC_NTime then return_value (Some (Inr (NTime_Syscall E, s)))
      else if type = SC_NSrand then from_io (Some (Inr (0, NSrand_Syscall E (a 4) x))) s
      else Some (Inl crash.Halted))"

text \<open>
  The machine that runs user programs is the pager's machine with the rest of the kernel's state attached; a page
  fault and the other exceptions concern the machine only.
\<close>

definition to_os :: "os vm_scheme \<Rightarrow> os" where
  "to_os m = set_osvm (vm.truncate m) (vm.more m)"

definition of_os :: "os \<Rightarrow> os vm_scheme" where
  "of_os s = vm.extend (osvm s) s"

text \<open>The first line of \<open>Machine::Run\<close>.\<close>

definition run_user :: "os \<Rightarrow> os vm_scheme" where
  "run_user s = (of_os s)\<lparr>mode := UserMode\<rparr>"

definition ExceptionHandler :: "env \<Rightarrow> ExceptionType \<Rightarrow> os vm_scheme \<Rightarrow> os vm_scheme result" where
  "ExceptionHandler E which m =
     (if which = SyscallException
      then (case system_call E (to_os m) of None \<Rightarrow> Inl NoReturn | Some r \<Rightarrow> bind_result r (\<lambda>s. Inr (of_os s)))
      else fault_handler which m)"

section \<open>The first program\<close>

text \<open>
  Up to the call of \<open>Run\<close>. A missing file is reported (the message is not modelled) and nothing happens.
\<close>

definition StartProcess :: "env \<Rightarrow> u8 list \<Rightarrow> os \<Rightarrow> os result" where
  "StartProcess E filename s =
     (case unixFile E filename of
        None \<Rightarrow> Inr s
      | Some f \<Rightarrow>
        bind_result (make_AddrSpace (big E) (words E) (slots E) (pageNoise E) (Some f)) (\<lambda>(ft, a).
        if nextProcessID s = MAX_PROCESSES then Inl crash.Halted
        else
          let sp = newSpace E; pid = nextProcessID s; t = running s;
              s1 = (allocate_space sp ft a s)\<lparr>spaceProcess := (spaceProcess s)(sp := pid), nextProcessID := pid + 1,
                numLivingProcesses := numLivingProcesses s + 1\<rparr> in
          bind_result (array_get (processTable s1) pid) (\<lambda>e.
          bind_result (upd_entry pid (\<lambda>e. e\<lparr>processID := pid, numThreadsAlive := numThreadsAlive e + 1,
             nextThreadID := nextThreadID e + 1\<rparr>) (s1\<lparr>threadID := (threadID s1)(t := nextThreadID e)\<rparr>)) (\<lambda>s2.
          let s3 = s2\<lparr>osys := (osys s2)\<lparr>threadSpace := (threadSpace (osys s2))(t := Some sp)\<rparr>\<rparr> in
          bind_result (InitRegisters (enter_space s3)) restore_state))))"

text \<open>A number without a case shuts the kernel down, \<open>SC_Join\<close> (3), the semaphores (20 to 23) and \<open>SC_DestroyQueue\<close> (28) included.\<close>

lemma unknown_call_halts:
  "registers (osvm s) 2 \<in> {0, 3, 20, 21, 22, 23, 28} \<Longrightarrow> system_call E s = Some (Inl crash.Halted)"
  by (auto simp: system_call_def Let_def SC_codes)

lemma Halt_halts:
  "registers m 2 = 0 \<Longrightarrow> ExceptionHandler E SyscallException m = Inl crash.Halted"
  using unknown_call_halts [of "to_os m" E] by (simp add: ExceptionHandler_def to_os_def vm.defs machine.defs)

section \<open>The start of a process\<close>

lemma fold_set_reg:
  "fold (\<lambda>(r, v) m. set_reg r v m) us m = m\<lparr>registers := fold (\<lambda>(r, v) f. f(r := v)) us (registers m)\<rparr>"
  by (induction us arbitrary: m) (auto simp: set_reg_def)

lemma fold_zero: "fold (\<lambda>(r, v) f. f(r := v)) (map (\<lambda>i. (i, 0)) [0..<n]) f = (\<lambda>r. if r < n then 0 else f r)"
  by (induction n) (auto simp: less_Suc_eq)

definition first_registers :: "AddrSpace \<Rightarrow> nat \<Rightarrow> u32" where
  "first_registers a = (\<lambda>r. 0)(NextPCReg := 4, StackReg := word_of_int (stackEnd a 0 * PageSize - 16))"

text \<open>The last steps of the start: the registers are set, and the TLB is emptied once more.\<close>

lemma InitRegisters_ok:
  assumes m: "same_memory v (osvm s)" and t: "threadSpace (osys s) (running s) = Some sp"
    and sp: "spaces v sp = Some x" and e: "array_get (processTable s) (spaceProcess s sp) = Inr e"
    and i: "0 \<le> threadID s (running s)" "threadID s (running s) < int (length (threadStacks e))"
  shows "\<exists>s'. bind_result (InitRegisters (enter_space s)) restore_state = Inr s' \<and> same_memory v (osvm s') \<and>
    currentSpace (osvm s') = sp \<and> pageTable (osvm s') = pageTable (osvm s) \<and> numLivingProcesses s' = numLivingProcesses s \<and>
    (\<forall>r<nat NumTotalRegs. registers (osvm s') r = first_registers x r)"
proof -
  let ?z = "\<lambda>r. if r < nat NumTotalRegs then 0 else registers (osvm s) r"
  let ?r = "?z(PCReg := 0, NextPCReg := 4)"
  let ?v = "(osvm s)\<lparr>currentSpace := sp, registers := ?r\<rparr>"
  let ?s1 = "set_osvm ?v s"
  have en: "enter_space s = set_osvm ((osvm s)\<lparr>currentSpace := sp\<rparr>) s" using t by (simp add: enter_space_def)
  have w1: "write_regs (map (\<lambda>i. (i, 0)) [0..<nat NumTotalRegs] @ [(PCReg, 0), (NextPCReg, 4)]) (enter_space s) = ?s1"
    unfolding write_regs_def fold_set_reg fold_append o_apply fold_zero en osvm_simps by (simp add: set_osvm_def cong: if_cong)
  have o1: "osvm ?s1 = ?v" by simp
  have rn: "running ?s1 = running s" "threadSpace (osys ?s1) = threadSpace (osys s)" "processTable ?s1 = processTable s"
    by (simp_all add: running_def)
  have "spaces (osvm s) sp = Some x" using m sp by (simp add: same_memory_def)
  then have as: "my_AddrSpace ?s1 = Inr x" using t by (simp add: my_AddrSpace_def my_space_def rn the_space_def)
  have me: "my_entry ?s1 = Inr e" "my_space ?s1 = Inr sp" using t e by (simp_all add: my_entry_def my_space_def rn)
  obtain st where "array_set (threadStacks e) (threadID s (running s)) (numExecutablePages x + 8) = Inr st"
    using i by (simp add: array_set_def)
  moreover obtain t' where "array_set (processTable s) (spaceProcess s sp) (e\<lparr>threadStacks := st\<rparr>) = Inr t'"
    using e by (auto simp: array_get_Inr array_set_def)
  ultimately have rs: "record_stack (numExecutablePages x + 8) ?s1 = Inr (?s1\<lparr>processTable := t'\<rparr>)"
    using me e by (simp add: record_stack_def upd_entry_def rn)
  let ?r2 = "?r(StackReg := word_of_int (stackEnd x 0 * PageSize - 16))"
  let ?s2 = "set_osvm (?v\<lparr>registers := ?r2\<rparr>) (s\<lparr>processTable := t'\<rparr>)"
  have ir: "InitRegisters (enter_space s) = Inr ?s2"
    unfolding InitRegisters_def Let_def w1 using as rs by (simp add: write_regs_def set_reg_def set_osvm_def osvm_def)
  have m2: "same_memory v (?v\<lparr>registers := ?r2\<rparr>)"
    by (rule same_memory_registers [OF same_memory_enter [OF m]])
  then obtain w where w: "SaveState (?v\<lparr>registers := ?r2\<rparr>) = Inr w" "same_memory (?v\<lparr>registers := ?r2\<rparr>) w"
    "registers w = ?r2"
    using SaveState_same_memory [of "?v\<lparr>registers := ?r2\<rparr>"] by (auto simp: same_memory_def)
  have "flushed (?v\<lparr>registers := ?r2\<rparr>) w" by (rule SaveState_flushed [OF w(1)])
  then have c: "currentSpace w = sp" "pageTable w = pageTable (osvm s)" by (auto simp: flushed_def)
  have "restore_state ?s2 = Inr (set_osvm w ?s2)"
    using w(1) by (simp add: restore_state_def RestoreState_def SaveState_def)
  then show ?thesis
    using ir same_memory_trans [OF m2 w(2)] c w(3)
    by (intro exI [of _ "set_osvm w ?s2"]) (auto simp: first_registers_def reg_numbers)
qed

lemma StartProcess_ok:
  assumes f: "unixFile E filename = Some f" "new_AddrSpace (big E) (pageNoise E) (Some f) = Inr a"
    and v: "v = (osvm s)\<lparr>spaces := (spaces (osvm s))(newSpace E \<mapsto> a)\<rparr>" "vm_ok v" "\<forall>e\<in>set (the (tlb v)). \<not> valid e"
    and e: "nextProcessID s \<noteq> MAX_PROCESSES" "array_get (processTable s) (nextProcessID s) = Inr e"
      "0 \<le> nextThreadID e" "nextThreadID e < int (length (threadStacks e))"
  shows "\<exists>s'. StartProcess E filename s = Inr s' \<and> same_memory v (osvm s') \<and> currentSpace (osvm s') = newSpace E \<and>
    pageTable (osvm s') = pageTable v \<and> numLivingProcesses s' = numLivingProcesses s + 1 \<and>
    (\<forall>r<nat NumTotalRegs. registers (osvm s') r = first_registers a r)"
proof -
  obtain ft where ft: "new_fileTable (words E) (slots E) = Inr ft" using new_fileTable_ok by blast
  let ?sp = "newSpace E" and ?pid = "nextProcessID s" and ?t = "running s"
  let ?e = "e\<lparr>processID := ?pid, numThreadsAlive := numThreadsAlive e + 1, nextThreadID := nextThreadID e + 1\<rparr>"
  let ?s1 = "(allocate_space ?sp ft a s)\<lparr>spaceProcess := (spaceProcess s)(?sp := ?pid), nextProcessID := ?pid + 1,
      numLivingProcesses := numLivingProcesses s + 1\<rparr>"
  let ?s2 = "?s1\<lparr>threadID := (threadID ?s1)(?t := nextThreadID e), processTable := (processTable s)[nat ?pid := ?e]\<rparr>"
  let ?s3 = "?s2\<lparr>osys := (osys ?s2)\<lparr>threadSpace := (threadSpace (osys ?s2))(?t := Some ?sp)\<rparr>\<rparr>"
  have al: "processTable (allocate_space ?sp ft a s) = processTable s" "osys (allocate_space ?sp ft a s) = osys s"
    "threadID (allocate_space ?sp ft a s) = threadID s" "iovm (osio (allocate_space ?sp ft a s)) = v"
    by (simp_all add: allocate_space_def v(1))
  have j: "0 \<le> ?pid" "?pid < int (length (processTable s))" "nat ?pid < length (processTable s)" "processTable s ! nat ?pid = e"
    using e(2) by (auto simp: array_get_Inr)
  have "StartProcess E filename s = bind_result (InitRegisters (enter_space ?s3)) restore_state"
    using f ft e(1,2) j al by (simp add: StartProcess_def make_AddrSpace_def upd_entry_def array_set_def Let_def)
  moreover have "osvm ?s3 = v" "running ?s3 = ?t" using al by (simp_all add: osvm_def running_def)
  moreover have "same_memory v v" using v(2,3) by (simp add: same_memory_def)
  moreover have "spaces v ?sp = Some a" by (simp add: v(1))
  moreover have "array_get (processTable ?s3) (spaceProcess ?s3 ?sp) = Inr ?e" using j by (simp add: array_get_Inr)
  ultimately show ?thesis
    using InitRegisters_ok [of v ?s3 ?sp a ?e] e(3,4) by auto
qed

section \<open>The first instruction\<close>

text \<open>An instruction whose page is not in the TLB is tried twice: the first time the handler brings the page in.\<close>

lemma fetch_restarts:
  assumes k: "kernel_ok m" and al: "aligned a 4" and pc: "registers m PCReg = a"
    and new: "\<not> in_tlb m (uint a div PageSize)" and room: "frames_used m < NumPhysPages"
    and b: "\<And>i. i < 4 \<Longrightarrow> page_byte {} m (currentSpace m) (uint a div PageSize) (nat (uint a mod PageSize) + i) (bs i)"
  shows "\<exists>m1 m2. OneInstruction (big E) (ExceptionHandler E) m = Inr m1 \<and> registers m1 PCReg = a \<and>
    registers m1 NextPCReg = registers m NextPCReg \<and> currentSpace m1 = currentSpace m \<and> keeps_bytes {} m {} m1 \<and>
    ReadMem (big E) (ExceptionHandler E) m1 a 4 = Inr (Some (le32 (bs 0) (bs 1) (bs 2) (bs 3)), m2)"
proof -
  let ?v = "uint a div PageSize"
  have "page_entry (spaces m) (currentSpace m) ?v \<noteq> None" using page_byte_entry [OF kernel_okD(1) [OF k] b [of 0]] by simp
  from fault_ok [OF k this new room] obtain m1 where
    m1: "RaiseException fault_handler m PageFaultException a = Inr m1" "kernel_ok m1" "in_tlb m1 ?v"
      "currentSpace m1 = currentSpace m" "keeps_bytes {} m {} m1" "registers m1 = registers (at_fault a m)"
    by blast
  have "RaiseException (ExceptionHandler E) m PageFaultException a = Inr m1"
    using m1(1) by (simp add: RaiseException_def ExceptionHandler_def)
  then have one: "OneInstruction (big E) (ExceptionHandler E) m = Inr m1"
    using ReadMem_miss(1) [OF k new al] by (simp add: OneInstruction_def pc)
  have "uint a mod 4 = 0" using al by (simp add: aligned_def and_3_eq_0)
  then have "uint a mod 128 + 4 \<le> 128" by (rule page_offset_bounds(4))
  then have "nat (uint a mod PageSize) + i < 128" if "i < 4" for i using that by (simp add: PageSize_def)
  then have "page_byte {} m1 (currentSpace m1) ?v (nat (uint a mod PageSize) + i) (bs i)" if "i < 4" for i
    using b [OF that] m1(4,5) that by (simp add: keeps_bytes_def)
  then obtain m2 where "ReadMem (big E) (ExceptionHandler E) m1 a 4 = Inr (Some (le32 (bs 0) (bs 1) (bs 2) (bs 3)), m2)"
    using user_fetch [OF m1(2,3) al, of bs] by blast
  then show ?thesis using one m1(4,5,6) pc by (auto simp: at_fault_def reg_numbers)
qed

lemma run_user_simps:
  "vm_ok (run_user s) = vm_ok (osvm s)" "page_byte {} (run_user s) = page_byte {} (osvm s)" "registers (run_user s) = registers (osvm s)"
  "pageTable (run_user s) = pageTable (osvm s)" "spaces (run_user s) = spaces (osvm s)" "currentSpace (run_user s) = currentSpace (osvm s)"
  "tlb (run_user s) = tlb (osvm s)" "frames_used (run_user s) = frames_used (osvm s)"
  by (simp_all add: run_user_def of_os_def vm.defs machine.defs vm_inv_def page_byte_def frames_used_def fun_eq_iff)

lemma no_entry_in_tlb: "\<forall>e\<in>set (the (tlb m)). \<not> valid e \<Longrightarrow> \<not> in_tlb m v"
  using tlb_search_Some by (fastforce simp: in_tlb_def)

section \<open>From the compiler to the first instruction\<close>

text \<open>
  For a COFF file with the code at address 0, the initialised data right behind it and then sections without
  data, and for a kernel that has a free process number and a free frame, \<open>StartProcess\<close> on what the tool
  wrote makes a process with every byte of code and data at its address and no change to any other process;
  the first fetch is a page fault that the handler of the kernel serves without losing a byte and without
  moving the program counter, and the second one reads the first word of the code.
\<close>

lemma compiled_program_starts:
  assumes "coff_sections (big E) f = Inr (t # d # rest)" "coff2noff (big E) garbage f = Inr out" "unixFile E filename = Some out"
    and "named ''.text'' t" "4 \<le> unat (s_size t)" "0 \<le> sint (s_scnptr t)" "s_paddr t = 0"
    and "is_data d" "s_size d \<noteq> 0" "0 \<le> sint (s_scnptr d)" "s_paddr d = s_size t"
    and "\<forall>s\<in>set rest. without_data s"
    and "unat (s_size t) + unat (s_size d) + sum_list (map (\<lambda>s. unat (s_size s)) rest) < 2 ^ 30"
    and "vm_ok (osvm s)" "small (osvm s)" "pageTable (osvm s) = None" "\<forall>e\<in>set (the (tlb (osvm s))). \<not> valid e"
    and "frames_used (osvm s) < NumPhysPages" "spaces (osvm s) (newSpace E) = None"
    and "nextProcessID s \<noteq> MAX_PROCESSES" "array_get (processTable s) (nextProcessID s) = Inr e"
    and "0 \<le> nextThreadID e" "nextThreadID e < int (length (threadStacks e))"
  shows "\<exists>s1 m1 m2. StartProcess E filename s = Inr s1 \<and> vm_ok (osvm s1) \<and> currentSpace (osvm s1) = newSpace E \<and>
    numLivingProcesses s1 = numLivingProcesses s + 1 \<and>
    (\<forall>i<unat (s_size t). page_byte {} (osvm s1) (newSpace E) (int (i div 128)) (i mod 128) (f ! (unat (s_scnptr t) + i))) \<and>
    (\<forall>i<unat (s_size d). let a = unat (s_size t) + i in
       page_byte {} (osvm s1) (newSpace E) (int (a div 128)) (a mod 128) (f ! (unat (s_scnptr d) + i))) \<and>
    (\<forall>x v k b. x \<noteq> newSpace E \<longrightarrow> page_byte {} (osvm s1) x v k b = page_byte {} (osvm s) x v k b) \<and>
    registers (osvm s1) NextPCReg = 4 \<and>
    (\<forall>r<nat NumTotalRegs. r \<noteq> NextPCReg \<and> r \<noteq> StackReg \<longrightarrow> registers (osvm s1) r = 0) \<and>
    OneInstruction (big E) (ExceptionHandler E) (run_user s1) = Inr m1 \<and> registers m1 PCReg = 0 \<and> registers m1 NextPCReg = 4 \<and>
    (\<forall>x v k b. k < 128 \<and> page_byte {} (osvm s1) x v k b \<longrightarrow> page_byte {} m1 x v k b) \<and>
    ReadMem (big E) (ExceptionHandler E) m1 0 4 = Inr (Some (le32 (f ! unat (s_scnptr t)) (f ! (unat (s_scnptr t) + 1))
      (f ! (unat (s_scnptr t) + 2)) (f ! (unat (s_scnptr t) + 3))), m2)"
proof -
  let ?sp = "newSpace E" and ?c = "\<lambda>i. f ! (unat (s_scnptr t) + i)"
  have t0: "s_size t \<noteq> 0" using assms(5) by auto
  obtain a where a: "new_AddrSpace (big E) (pageNoise E) (Some out) = Inr a"
    "vm_ok ((osvm s)\<lparr>spaces := (spaces (osvm s))(?sp \<mapsto> a)\<rparr>)" "int (length (pages a)) < 2 ^ 24"
    "\<forall>i<unat (s_size t). page_byte {} ((osvm s)\<lparr>spaces := (spaces (osvm s))(?sp \<mapsto> a)\<rparr>) ?sp (int (i div 128)) (i mod 128) (?c i)"
    "\<forall>i<unat (s_size d). let x = unat (s_size t) + i in
       page_byte {} ((osvm s)\<lparr>spaces := (spaces (osvm s))(?sp \<mapsto> a)\<rparr>) ?sp (int (x div 128)) (x mod 128) (f ! (unat (s_scnptr d) + i))"
    "\<forall>x v k b. x \<noteq> ?sp \<longrightarrow> page_byte {} ((osvm s)\<lparr>spaces := (spaces (osvm s))(?sp \<mapsto> a)\<rparr>) x v k b = page_byte {} (osvm s) x v k b"
    using compiled_program_is_mapped [OF assms(1,2,4) t0 assms(6-14,19), of "pageNoise E"] assms(7,11) by auto
  define v where "v = (osvm s)\<lparr>spaces := (spaces (osvm s))(?sp \<mapsto> a)\<rparr>"
  obtain s1 where s1: "StartProcess E filename s = Inr s1" "same_memory v (osvm s1)" "currentSpace (osvm s1) = ?sp"
    "pageTable (osvm s1) = pageTable v" "numLivingProcesses s1 = numLivingProcesses s + 1"
    "\<forall>r<nat NumTotalRegs. registers (osvm s1) r = first_registers a r"
    using StartProcess_ok [OF assms(3) a(1) v_def a(2) [folded v_def] _ assms(20-23)] assms(17) by (auto simp: v_def)
  have M: "vm_ok (osvm s1)" "\<forall>e\<in>set (the (tlb (osvm s1))). \<not> valid e" "page_byte {} (osvm s1) = page_byte {} v"
    "mainMemoryBitmap (osvm s1) = mainMemoryBitmap v" "spaces (osvm s1) = spaces v"
    using s1(2) by (simp_all add: same_memory_def)
  have "v' < 2 ^ 24" if "page_entry (spaces v) x v' \<noteq> None" for x v'
    using that assms(15) a(3) by (cases "x = ?sp") (auto simp: v_def small_def page_entry_def split: if_splits)
  moreover have R: "registers (osvm s1) r = first_registers a r" if "r < 40" for r
    using s1(6) that by (simp add: reg_numbers)
  ultimately have k: "kernel_ok (run_user s1)"
    using M(1,5) s1(4) assms(16)
    by (simp add: kernel_ok_def run_user_simps small_def v_def first_registers_def reg_numbers)
  have code: "page_byte {} (osvm s1) ?sp (int (i div 128)) (i mod 128) (?c i)" if "i < unat (s_size t)" for i
    using a(4) that unfolding M(3) v_def by simp
  have "page_byte {} (run_user s1) (currentSpace (run_user s1)) (uint (0 :: u32) div PageSize) (nat (uint (0 :: u32) mod PageSize) + i) (?c i)"
    if "i < 4" for i using code [of i] that assms(5) by (simp add: run_user_simps s1(3))
  moreover have "frames_used (run_user s1) < NumPhysPages"
    unfolding run_user_simps using assms(18) M(4) by (simp add: frames_used_def v_def)
  moreover have "registers (run_user s1) PCReg = 0" "registers (run_user s1) NextPCReg = 4"
    using R [of PCReg] R [of NextPCReg] by (simp_all add: run_user_simps first_registers_def reg_numbers)
  moreover have "\<not> in_tlb (run_user s1) (uint (0 :: u32) div PageSize)"
    using M(2) by (intro no_entry_in_tlb) (simp add: run_user_simps)
  ultimately obtain m1 m2 where m: "OneInstruction (big E) (ExceptionHandler E) (run_user s1) = Inr m1" "registers m1 PCReg = 0"
    "registers m1 NextPCReg = 4" "keeps_bytes {} (run_user s1) {} m1"
    "ReadMem (big E) (ExceptionHandler E) m1 0 4 = Inr (Some (le32 (?c 0) (?c 1) (?c 2) (?c 3)), m2)"
    using fetch_restarts [OF k, of 0 ?c E] by (auto simp: aligned_def)
  show ?thesis
  proof (intro exI conjI)
    show "\<forall>i<unat (s_size d). let a = unat (s_size t) + i in
       page_byte {} (osvm s1) ?sp (int (a div 128)) (a mod 128) (f ! (unat (s_scnptr d) + i))"
      using a(5) unfolding M(3) v_def .
    show "\<forall>x v k b. x \<noteq> ?sp \<longrightarrow> page_byte {} (osvm s1) x v k b = page_byte {} (osvm s) x v k b"
      using a(6) unfolding M(3) v_def .
    show "\<forall>r<nat NumTotalRegs. r \<noteq> NextPCReg \<and> r \<noteq> StackReg \<longrightarrow> registers (osvm s1) r = 0"
      using s1(6) by (simp add: first_registers_def)
    show "registers (osvm s1) NextPCReg = 4" using R [of NextPCReg] by (simp add: first_registers_def reg_numbers)
    show "\<forall>x v k b. k < 128 \<and> page_byte {} (osvm s1) x v k b \<longrightarrow> page_byte {} m1 x v k b"
      using m(4) by (simp add: keeps_bytes_def run_user_simps)
  qed (use s1 m M(1) code in simp_all)
qed

section \<open>User programs stay in their memory\<close>

text \<open>
  C7: one user instruction cannot touch memory that is not mapped writable for it, whatever the kernel does then.
  From a sane machine (well-formed translation, a register number in the load slot, zero in R0), and unless the
  instruction is one of those that bring the simulator down (C6), there is a sane machine \<open>m1\<close> in which only bytes
  in frames of valid, writable entries have changed and in which the translation is that of before, up to the use
  and dirty bits; and \<open>OneInstruction\<close> either returns \<open>m1\<close>, or calls the handler of the kernel with \<open>m1\<close> in system mode
  exactly once and as its last action, and returns what that call returns (nothing, if it stops the machine) with
  the mode set back. Nothing is assumed of the handler.
\<close>

theorem OneInstruction_isolated:
  assumes "cpu_inv m"
  shows "if fetch_crashes b H m then \<exists>c. OneInstruction b H m = Inl c
    else \<exists>m1. cpu_inv m1 \<and>
      (\<forall>q. mainMemory m1 q \<noteq> mainMemory m q \<longrightarrow> (\<exists>v e. lookup m v = Some e \<and> \<not> readOnly e \<and> q \<in> frame_of e)) \<and>
      (\<forall>v. map_option (mark_entry True) (lookup m1 v) = map_option (mark_entry True) (lookup m v)) \<and>
      (OneInstruction b H m = Inr m1 \<or>
       mode m1 = SystemMode \<and> (\<exists>e. OneInstruction b H m = bind_result (H e m1) (\<lambda>m2. Inr (m2\<lparr>mode := UserMode\<rparr>))))"
  using OneInstruction_confined [OF assms, of b H] OneInstruction_crash [of b H m]
  unfolding trap_or_quiet_def user_effect_def confined_def same_maps_def by auto

text \<open>
  The machine of a user program with one word of code and page 3 mapped to frame 9, under any state of the kernel
  and with the handler of the kernel.
\<close>

definition sample_program :: "u32 \<Rightarrow> os \<Rightarrow> os vm_scheme" where
  "sample_program v s = (of_os s)\<lparr>registers := registers (sample_code v), mainMemory := mainMemory (sample_code v),
     tlb := tlb (sample_code v), pageTable := pageTable (sample_code v), mode := UserMode\<rparr>"

lemma sample_program_facts:
  "cpu_inv (sample_program v s)" "registers (sample_program v s) PCReg = 0x180"
  "registers (sample_program v s) = (\<lambda>_. 0)(PCReg := 0x180, NextPCReg := 0x184)"
  "translation (sample_program v s) 0x180 4 False = Inr 1152"
  "mainMemory (sample_program v s) = write_value (\<lambda>_. 0) 1152 4 v"
  by (simp_all add: sample_program_def sample_code_def sample_machine_def new_Machine_def cpu_inv_def wf_machine_def
      lookup_def sample_entry_def translation_def aligned_def machine_sizes reg_numbers)

lemma sample_program_fetch:
  "\<exists>m1. ReadMem b H (sample_program v s) 0x180 4 = Inr (Some v, m1) \<and> registers m1 = registers (sample_program v s)"
proof -
  have wf: "wf_machine (sample_program v s)" using sample_program_facts(1) by (simp add: cpu_inv_def)
  have sz: "(4 :: int) \<in> sizes" by (simp add: sizes_def)
  from ReadMem_cases [OF wf sz, of b H "0x180"] read_write_value [OF sz, of "\<lambda>_. 0" 1152 v]
  show ?thesis by (auto simp: sample_program_facts stored_value_def marked_frame)
qed

text \<open>12 is SYSCALL, with 0 (Halt) in R2: the handler stops the machine.\<close>

lemma sample_program_halts:
  "OneInstruction b (ExceptionHandler E) (sample_program 12 s) = Inl crash.Halted"
proof -
  obtain m1 where m1: "ReadMem b (ExceptionHandler E) (sample_program 12 s) 0x180 4 = Inr (Some 12, m1)"
    "registers m1 = registers (sample_program 12 s)" using sample_program_fetch by blast
  have d: "opCode (Decode 12) = OP_SYSCALL" by (simp add: Decode_def opTable_def specialTable_def opcodes)
  have "\<exists>m2. DelayedLoad (set_reg BadVAddrReg 0 m1) 0 0 = Inr m2 \<and> registers m2 2 = 0"
    using m1(2) by (auto simp: DelayedLoad_def Let_def reg_numbers sample_program_facts(3))
  then have "RaiseException (ExceptionHandler E) m1 SyscallException 0 = Inl crash.Halted"
    using Halt_halts by (auto simp: RaiseException_def)
  then have "exec_instr b (ExceptionHandler E) (Decode 12) m1 pc = Inl crash.Halted" for pc
    using d by (simp add: exec_instr_def exec_jump_def exec_load_def exec_mult_def exec_shift_def exec_sub_def
        exec_rest_def Let_def opcodes return_exc_def)
  then show ?thesis using m1(1) by (simp add: OneInstruction_def sample_program_facts(2) Let_def)
qed

text \<open>0xac0801fc is SW r8,0x1fc(r0), a store to page 3.\<close>

theorem OneInstruction_isolated_witness:
  "\<forall>E s. let m = sample_program 12 s; m' = sample_program 0xac0801fc s; K = ExceptionHandler E;
       untouched = (\<lambda>n n0. \<forall>q. mainMemory n q \<noteq> mainMemory n0 q \<longrightarrow>
         (\<exists>v e. lookup n0 v = Some e \<and> \<not> readOnly e \<and> q \<in> frame_of e)) in
     OneInstruction True K m = Inl crash.Halted \<and> (\<exists>m1 e. untouched m1 m \<and> mode m1 = SystemMode \<and> (\<exists>c. K e m1 = Inl c)) \<and>
     (\<exists>m1. untouched m1 m' \<and>
       (OneInstruction True K m' = Inr m1 \<or> (\<exists>e. OneInstruction True K m' = bind_result (K e m1) (\<lambda>m2. Inr (m2\<lparr>mode := UserMode\<rparr>)))))"
proof (intro allI, unfold Let_def, intro conjI)
  fix E s
  have nc: "\<not> fetch_crashes True (ExceptionHandler E) (sample_program v s)" if "v = 12 \<or> v = 0xac0801fc" for v
    using sample_program_fetch [of True "ExceptionHandler E" v s] that
    by (auto simp: fetch_crashes_def crashes_def Decode_def opTable_def specialTable_def opcodes sample_program_facts(2))
  show h: "OneInstruction True (ExceptionHandler E) (sample_program 12 s) = Inl crash.Halted" by (rule sample_program_halts)
  have inl: "\<exists>c. r = Inl c" if "bind_result r (\<lambda>m2. Inr (f m2)) = Inl crash.Halted" for r :: "os vm_scheme result" and f :: "_ \<Rightarrow> os vm_scheme"
    using that by (cases r) auto
  show "\<exists>m1 e. (\<forall>q. mainMemory m1 q \<noteq> mainMemory (sample_program 12 s) q \<longrightarrow>
      (\<exists>v e. lookup (sample_program 12 s) v = Some e \<and> \<not> readOnly e \<and> q \<in> frame_of e)) \<and> mode m1 = SystemMode \<and>
      (\<exists>c. ExceptionHandler E e m1 = Inl c)"
    using OneInstruction_isolated [OF sample_program_facts(1), of True "ExceptionHandler E" 12 s] nc [of 12] h
    by (metis inl sum.distinct(1))
  show "\<exists>m1. (\<forall>q. mainMemory m1 q \<noteq> mainMemory (sample_program 0xac0801fc s) q \<longrightarrow>
      (\<exists>v e. lookup (sample_program 0xac0801fc s) v = Some e \<and> \<not> readOnly e \<and> q \<in> frame_of e)) \<and>
      (OneInstruction True (ExceptionHandler E) (sample_program 0xac0801fc s) = Inr m1 \<or>
       (\<exists>e. OneInstruction True (ExceptionHandler E) (sample_program 0xac0801fc s) =
          bind_result (ExceptionHandler E e m1) (\<lambda>m2. Inr (m2\<lparr>mode := UserMode\<rparr>))))"
    using OneInstruction_isolated [OF sample_program_facts(1), of True "ExceptionHandler E" "0xac0801fc" s] nc [of "0xac0801fc"]
    by auto
qed

end
