(* ===== verification/Startup.thy ===== *)
theory Startup
  imports Handler Interrupts
begin

text \<open>
  The start of the kernel: \<open>Initialize\<close> (threads/system.cc) and \<open>main\<close> (threads/main.cc) of the build in vm/, which
  has user programs, demand paging with a TLB and the files of UNIX. A word of the command line is a list of bytes.
\<close>

section \<open>The command line\<close>

definition cmd :: "string \<Rightarrow> u8 list" where
  "cmd s = map of_char s"

text \<open>\<open>atoi\<close> of the C library, for numbers that fit.\<close>

definition isspace :: "u8 \<Rightarrow> bool" where
  "isspace c \<longleftrightarrow> c = 32 \<or> 9 \<le> c \<and> c \<le> 13"

fun decimal :: "int \<Rightarrow> u8 list \<Rightarrow> int" where
  "decimal n [] = n"
| "decimal n (c # cs) = (if 48 \<le> c \<and> c \<le> 57 then decimal (10 * n + uint c - 48) cs else n)"

definition atoi :: "u8 list \<Rightarrow> int" where
  "atoi s =
     (case dropWhile isspace s of
        [] \<Rightarrow> 0
      | c # cs \<Rightarrow> if c = 45 then - decimal 0 cs else if c = 43 then decimal 0 cs else decimal 0 (c # cs))"

record options =
  debugArgs :: "u8 list"
  randomYield :: bool
  randomNumbers :: "nat \<Rightarrow> int"
  debugUserProg :: bool
  formatDisk :: bool

text \<open>The loop of \<open>Initialize\<close>: the words that it does not know are left to \<open>main\<close>.\<close>

fun scan_args :: "env \<Rightarrow> u8 list list \<Rightarrow> options \<Rightarrow> options result" where
  "scan_args E [] o' = Inr o'"
| "scan_args E (a # as) o' =
     (if a = cmd ''-d''
      then (case as of
          [] \<Rightarrow> Inr (o'\<lparr>debugArgs := cmd ''+''\<rparr>)
        | x # rest \<Rightarrow> scan_args E rest (o'\<lparr>debugArgs := x\<rparr>))
      else if a = cmd ''-rs''
      then (case as of
          [] \<Rightarrow> Inl AssertFailed
        | x # rest \<Rightarrow> scan_args E rest (o'\<lparr>randomNumbers := seeded E (word_of_int (atoi x)), randomYield := True\<rparr>))
      else if a = cmd ''-s'' then scan_args E as (o'\<lparr>debugUserProg := True\<rparr>)
      else if a = cmd ''-f'' then scan_args E as (o'\<lparr>formatDisk := True\<rparr>)
      else scan_args E as o')"

section \<open>Initialize\<close>

text \<open>
  What the memory holds that \<open>Initialize\<close> takes from the host and does not write, the numbers of \<open>rand\<close> without a
  seed, the files, and what will be typed.
\<close>

record host =
  iptMemory :: "nat \<Rightarrow> IPTEntry"
  tlbMemory :: "nat \<Rightarrow> TranslationEntry"
  unseeded :: "nat \<Rightarrow> int"
  theFiles :: filesys
  noTables :: "nat \<Rightarrow> OpenFile Table"
  typedLines :: "u8 list list"

text \<open>
  Simulated time starts: the counters, the interrupts, the timer when \<open>-rs\<close> asks for it, and \<open>Enable\<close>, which
  lets the first ticks pass. There is one handler, that of the timer; \<open>run\<close> calls it and \<open>yield\<close> is \<open>Thread::Yield\<close>.
  What the timer draws from \<open>rand\<close> after its first number is not taken from \<open>randoms\<close>. The tick counters are
  64-bit integers in the code and unbounded here; the counters of events that this build does not use are left out.
\<close>

definition new_Statistics :: "host \<Rightarrow> unit irq" where
  "new_Statistics N = machine.extend (new_Machine True (tlbMemory N) 0)
     \<lparr>level = IntOff, pending = [], inHandler = False, yieldOnReturn = False, idleTicks = 0, systemTicks = 0, userTicks = 0\<rparr>"

definition start_clock ::
  "(unit, unit) handlers \<Rightarrow> (unit irq \<Rightarrow> unit irq result) \<Rightarrow> host \<Rightarrow> options \<Rightarrow> unit irq result option" where
  "start_clock run yield N o' =
     (case (if randomYield o' then new_Timer () 0 (randomNumbers o' 0) \<lparr>randomize = True, targ = 0\<rparr> (new_Interrupt (new_Statistics N))
            else Inr (new_Interrupt (new_Statistics N))) of
        Inl c \<Rightarrow> Some (Inl c)
      | Inr s \<Rightarrow> map_option (\<lambda>r. bind_result r (\<lambda>(_, s1). Inr s1)) (Enable run yield s))"

text \<open>
  The machine and the pager; \<open>ticks\<close> is the time. The swap file is a UNIX file in this build: that the host
  can create and open it is taken for granted, and it starts empty.
\<close>

definition start_vm :: "env \<Rightarrow> host \<Rightarrow> options \<Rightarrow> int \<Rightarrow> vm result" where
  "start_vm E N o' ticks =
     bind_result (new_BitMap (words E) NumPhysPages) (\<lambda>frames.
     bind_result (new_BitMap (words E) 8192) (\<lambda>slots.
     Inr (machine.extend (new_Machine True (tlbMemory N) ticks)
       \<lparr>IPT = map (iptMemory N) [0..<nat NumPhysPages], spaces = (\<lambda>_. None), currentSpace = 0,
        mainMemoryBitmap = frames, swapMap = slots, swapFile = [], evictionList = [], evictionPolicy = FIFO,
        currentTLB = 0, randoms = (if randomYield o' then (\<lambda>i. randomNumbers o' (Suc i)) else randomNumbers o')\<rparr>)))"

definition start_sys :: sys where
  "start_sys = boot_sys (boot (\<lambda>_. 0)) (\<lambda>_. None)"

text \<open>The table of processes is a global: its bytes are zero before.\<close>

definition zero_entry :: ProcessEntry where
  "zero_entry = \<lparr>numThreadsAlive = 0, processID = 0, threadStacks = replicate (nat MAX_THREADS) 0, nextThreadID = 0\<rparr>"

definition Initialize ::
  "(unit, unit) handlers \<Rightarrow> (unit irq \<Rightarrow> unit irq result) \<Rightarrow> env \<Rightarrow> host \<Rightarrow> u8 list list \<Rightarrow>
   (options \<times> unit irq \<times> os) result option" where
  "Initialize run yield E N args =
     (case scan_args E args \<lparr>debugArgs = [], randomYield = False, randomNumbers = unseeded N, debugUserProg = False,
          formatDisk = False\<rparr> of
        Inl c \<Rightarrow> Some (Inl c)
      | Inr o' \<Rightarrow>
        after (start_clock run yield N o') (\<lambda>clock.
        bind_result (start_vm E N o' (totalTicks clock)) (\<lambda>v.
        Inr (o', clock, \<lparr>osio = \<lparr>iovm = v, iofs = theFiles N, fileTables = noTables N, screen = [], keyboard = typedLines N\<rparr>,
          osys = start_sys, processTable = clear_processTable (replicate (nat MAX_PROCESSES) zero_entry),
          nextProcessID = 0, numLivingProcesses = 0, spaceProcess = (\<lambda>_. 0), threadID = (\<lambda>_. 0),
          userRegisters = (\<lambda>_ _. 0), startAt = (\<lambda>_. None), mailboxNum = (\<lambda>_. 0), nextMailboxID = 0\<rparr>))))"

section \<open>main\<close>

definition set_policy :: "EvictionPolicy \<Rightarrow> os \<Rightarrow> os" where
  "set_policy p s = set_osvm ((osvm s)\<lparr>evictionPolicy := p\<rparr>) s"

text \<open>\<open>main\<close> either enters \<open>Machine::Run\<close>, which does not return, or comes to the \<open>Finish\<close> of the main thread.\<close>

datatype after_main = Runs os | Finishes os

text \<open>After the test of the console the kernel halts; what the test does before that is not modelled.\<close>

fun main_args :: "env \<Rightarrow> u8 list list \<Rightarrow> os \<Rightarrow> after_main result" where
  "main_args E [] s = Inr (Finishes s)"
| "main_args E (a # as) s =
     (if a = cmd ''-x''
      then (case as of
          [] \<Rightarrow> Inl AssertFailed
        | f # rest \<Rightarrow>
          let s1 = (case rest of [] \<Rightarrow> s
               | p # _ \<Rightarrow> if p = cmd ''-PFIFO'' then set_policy FIFO s else if p = cmd ''-PRAND'' then set_policy RAND s else s) in
          if unixFile E f = None then main_args E rest s1
          else bind_result (StartProcess E f s1) (\<lambda>s2. Inr (Runs s2)))
      else if a = cmd ''-PFIFO'' then main_args E as (set_policy FIFO s)
      else if a = cmd ''-c'' then (if length as = 1 then Inl AssertFailed else Inl crash.Halted)
      else main_args E as s)"

definition main ::
  "(unit, unit) handlers \<Rightarrow> (unit irq \<Rightarrow> unit irq result) \<Rightarrow> env \<Rightarrow> host \<Rightarrow> u8 list list \<Rightarrow> after_main result option" where
  "main run yield E N args = after (Initialize run yield E N args) (\<lambda>(_, _, s). main_args E args s)"

section \<open>The state after Initialize\<close>

lemma cmd_words: "cmd ''-x'' = [45, 120]" "cmd ''-d'' = [45, 100]" "cmd ''-rs'' = [45, 114, 115]" "cmd ''-s'' = [45, 115]"
  "cmd ''-f'' = [45, 102]"
  by (simp_all add: cmd_def of_char_def)

lemma scan_run:
  "f \<noteq> cmd ''-rs'' \<Longrightarrow> \<exists>o2. scan_args E [cmd ''-x'', f] o1 = Inr o2 \<and> randomYield o2 = randomYield o1"
  by (auto simp: cmd_words)

text \<open>Memory in which no entry of the inverted page table is marked valid or in use.\<close>

definition clean_memory :: "host \<Rightarrow> bool" where
  "clean_memory N \<longleftrightarrow> (\<forall>i<nat NumPhysPages. \<not> valid (iptMemory N i) \<and> \<not> use (iptMemory N i))"

lemma start_vm_ok:
  assumes "clean_memory N"
  shows "\<exists>v. start_vm E N o' t = Inr v \<and> vm_ok v \<and> spaces v = (\<lambda>_. None) \<and> pageTable v = None \<and>
    (\<forall>e\<in>set (the (tlb v)). \<not> valid e) \<and> frames_used v = 0"
proof -
  obtain b where b: "new_BitMap (words E) NumPhysPages = Inr b" "wf_BitMap b" "numBits b = NumPhysPages" "bits b = {}"
    using new_BitMap_ok [of NumPhysPages "words E"] by (auto simp: NumPhysPages_def)
  obtain w where w: "new_BitMap (words E) 8192 = Inr w" "wf_BitMap w" using new_BitMap_ok [of 8192 "words E"] by auto
  let ?t = "map (\<lambda>i. (tlbMemory N i)\<lparr>valid := False\<rparr>) [0..<TLBSize]"
  let ?ipt = "map (iptMemory N) [0..<nat NumPhysPages]"
  define v :: vm where "v = machine.extend (new_Machine True (tlbMemory N) t)
       \<lparr>IPT = ?ipt, spaces = (\<lambda>_. None), currentSpace = 0,
        mainMemoryBitmap = b, swapMap = w, swapFile = [], evictionList = [], evictionPolicy = FIFO,
        currentTLB = 0, randoms = (if randomYield o' then (\<lambda>i. randomNumbers o' (Suc i)) else randomNumbers o')\<rparr>"
  have f: "IPT v = ?ipt" "spaces v = (\<lambda>_. None)" "mainMemoryBitmap v = b" "swapMap v = w" "evictionList v = []" "currentTLB v = 0"
    "tlb v = Some ?t" "pageTable v = None" "evictionPolicy v = FIFO"
    by (simp_all add: v_def machine.defs new_Machine_def)
  have fr: "frames ?ipt = {}" using assms by (auto simp: frames_def clean_memory_def)
  have un: "unused U ?ipt" for U using assms by (auto simp: unused_def clean_memory_def)
  have "vm_ok v"
  proof (rule vm_invI [where t = ?t])
    show "ipt_inv {} (IPT v) (spaces v)" by (simp add: f ipt_inv_def fr mapped_def) (simp add: NumPhysPages_def)
    show "tlb_inv {} (IPT v) (currentSpace v) (currentTLB v) ?t" by (auto simp: f tlb_inv_def TLBSize_def)
    show "map_inv {} (IPT v) (mainMemoryBitmap v)" using b by (simp add: f map_inv_def fr)
    show "clean_inv {} (IPT v) ?t (mainMemory v) (spaces v) (swapFile v)" by (simp add: f clean_inv_def mapped_def fr)
    show "swap_inv (spaces v) (swapMap v) (swapFile v)" using w by (simp add: f swap_inv_def page_entry_def)
  qed (simp_all add: f list_inv_def fr un)
  moreover have "start_vm E N o' t = Inr v" using b(1) w(1) by (simp add: start_vm_def v_def)
  moreover have "frames_used v = 0" using b(4) by (simp add: frames_used_def f)
  ultimately show ?thesis using f by auto
qed

text \<open>Without \<open>-rs\<close> no interrupt is pending and \<open>Enable\<close> takes one tick of the system.\<close>

lemma start_clock_ok:
  assumes "\<not> randomYield o'"
  shows "\<exists>c. start_clock run yield N o' = Some (Inr c) \<and> totalTicks c = SystemTick \<and> level c = IntOn \<and> pending c = []"
proof -
  let ?s = "new_Interrupt (new_Statistics N)"
  have s: "pending ?s = []" "level ?s = IntOff" "\<not> inHandler ?s" "mode ?s = SystemMode" "totalTicks ?s = 0" "\<not> yieldOnReturn ?s"
    by (simp_all add: new_Interrupt_def new_Statistics_def machine.defs new_Machine_def)
  let ?c = "add_tick (ChangeLevel IntOn ?s)"
  have "CheckIfDue run False (ChangeLevel IntOff ?c) = Inr (False, ChangeLevel IntOff ?c)"
    using s by (simp add: CheckIfDue_def add_tick_def ChangeLevel_def)
  then have "check_loop run (ChangeLevel IntOff ?c) = Some (Inr (ChangeLevel IntOff ?c))"
    by (simp add: check_loop.simps)
  then show ?thesis
    using assms s
    by (simp add: start_clock_def Enable_def SetLevel_def OneTick_def Let_def add_tick_def ChangeLevel_def)
qed

lemma Initialize_ok:
  assumes f: "f \<noteq> cmd ''-rs''" and N: "clean_memory N"
  shows "\<exists>o' c s. Initialize run yield E N [cmd ''-x'', f] = Some (Inr (o', c, s)) \<and> totalTicks c = SystemTick \<and> level c = IntOn \<and>
    vm_ok (osvm s) \<and> small (osvm s) \<and> pageTable (osvm s) = None \<and> (\<forall>e\<in>set (the (tlb (osvm s))). \<not> valid e) \<and>
    frames_used (osvm s) = 0 \<and> spaces (osvm s) = (\<lambda>_. None) \<and> osys s = start_sys \<and> nextProcessID s = 0 \<and> numLivingProcesses s = 0 \<and>
    array_get (processTable s) 0 = Inr (zero_entry\<lparr>processID := - 1\<rparr>)"
proof -
  let ?o = "\<lparr>debugArgs = [], randomYield = False, randomNumbers = unseeded N, debugUserProg = False, formatDisk = False\<rparr>"
  obtain o' where o: "scan_args E [cmd ''-x'', f] ?o = Inr o'" "\<not> randomYield o'" using scan_run [OF f, of E ?o] by auto
  obtain c where c: "start_clock run yield N o' = Some (Inr c)" "totalTicks c = SystemTick" "level c = IntOn"
    using start_clock_ok [OF o(2)] by blast
  obtain v where v: "start_vm E N o' (totalTicks c) = Inr v" "vm_ok v" "spaces v = (\<lambda>_. None)" "pageTable v = None"
    "\<forall>e\<in>set (the (tlb v)). \<not> valid e" "frames_used v = 0" using start_vm_ok [OF N] by blast
  have "small v" by (simp add: small_def page_entry_def v(3))
  then show ?thesis
    using o(1) c v
    by (simp add: Initialize_def osvm_def clear_processTable_def zero_entry_def array_get_def MAX_PROCESSES_def)
qed

lemma start_sys_reachable: "sys_reachable start_sys" "reachable (kern start_sys)"
  unfolding start_sys_def by (rule sys_reachable.start) (simp add: boot_sys_def reachable.init)

section \<open>Properties\<close>

text \<open>
  C39: from the command line and the compiler's output to the first instruction. Take a COFF file with the code at
  address 0, the initialised data right behind it and then sections without data, converted by the tool; and
  memory in which no entry of the inverted page table is marked. Then \<open>main\<close> with the words \<open>-x\<close> and the
  name of the file comes to \<open>Machine::Run\<close>, in a sound state of the pager, with one process that has every byte of code
  and data at its address and all registers 0 but for the next program counter and the stack pointer. The
  first fetch is a page fault that the kernel serves without losing a byte and without moving the program
  counter, and the second one reads the first word of the code.
\<close>

theorem main_runs_program:
  assumes "coff_sections (big E) f = Inr (t # d # rest)" "coff2noff (big E) garbage f = Inr out" "unixFile E filename = Some out"
    and "named ''.text'' t" "4 \<le> unat (s_size t)" "0 \<le> sint (s_scnptr t)" "s_paddr t = 0"
    and "is_data d" "s_size d \<noteq> 0" "0 \<le> sint (s_scnptr d)" "s_paddr d = s_size t"
    and "\<forall>s\<in>set rest. without_data s"
    and "unat (s_size t) + unat (s_size d) + sum_list (map (\<lambda>s. unat (s_size s)) rest) < 2 ^ 30"
    and "clean_memory N" "filename \<noteq> cmd ''-rs''"
  shows "\<exists>s1 m1 m2. main run yield E N [cmd ''-x'', filename] = Some (Inr (Runs s1)) \<and> vm_ok (osvm s1) \<and>
    currentSpace (osvm s1) = newSpace E \<and> numLivingProcesses s1 = 1 \<and>
    (\<forall>i<unat (s_size t). page_byte {} (osvm s1) (newSpace E) (int (i div 128)) (i mod 128) (f ! (unat (s_scnptr t) + i))) \<and>
    (\<forall>i<unat (s_size d). let a = unat (s_size t) + i in
       page_byte {} (osvm s1) (newSpace E) (int (a div 128)) (a mod 128) (f ! (unat (s_scnptr d) + i))) \<and>
    registers (osvm s1) NextPCReg = 4 \<and>
    (\<forall>r<nat NumTotalRegs. r \<noteq> NextPCReg \<and> r \<noteq> StackReg \<longrightarrow> registers (osvm s1) r = 0) \<and>
    OneInstruction (big E) (ExceptionHandler E) (run_user s1) = Inr m1 \<and> registers m1 PCReg = 0 \<and> registers m1 NextPCReg = 4 \<and>
    (\<forall>x v k b. k < 128 \<and> page_byte {} (osvm s1) x v k b \<longrightarrow> page_byte {} m1 x v k b) \<and>
    ReadMem (big E) (ExceptionHandler E) m1 0 4 = Inr (Some (le32 (f ! unat (s_scnptr t)) (f ! (unat (s_scnptr t) + 1))
      (f ! (unat (s_scnptr t) + 2)) (f ! (unat (s_scnptr t) + 3))), m2)"
proof -
  let ?e = "zero_entry\<lparr>processID := - 1\<rparr>"
  obtain o' c s where s: "Initialize run yield E N [cmd ''-x'', filename] = Some (Inr (o', c, s))"
    "vm_ok (osvm s)" "small (osvm s)" "pageTable (osvm s) = None" "\<forall>e\<in>set (the (tlb (osvm s))). \<not> valid e"
    "frames_used (osvm s) = 0" "spaces (osvm s) = (\<lambda>_. None)" "nextProcessID s = 0" "numLivingProcesses s = 0"
    "array_get (processTable s) 0 = Inr ?e"
    using Initialize_ok [OF assms(15,14), of run yield E] by blast
  have fr: "frames_used (osvm s) < NumPhysPages" "spaces (osvm s) (newSpace E) = None" "nextProcessID s \<noteq> MAX_PROCESSES"
    "array_get (processTable s) (nextProcessID s) = Inr ?e" "0 \<le> nextThreadID ?e" "nextThreadID ?e < int (length (threadStacks ?e))"
    using s(6-10) by (simp_all add: NumPhysPages_def MAX_PROCESSES_def zero_entry_def MAX_THREADS_def)
  have run: "main run yield E N [cmd ''-x'', filename] = Some (Inr (Runs s1))" if "StartProcess E filename s = Inr s1" for s1
    using s(1) assms(3) that by (simp add: main_def)
  show ?thesis
    using compiled_program_starts [OF assms(1-13) s(2-5) fr] run unfolding s(9) by fastforce
qed

text \<open>A program whose first instruction is SYSCALL, started with \<open>nachos -x a\<close>.\<close>

definition sample_env :: "env \<Rightarrow> u8 list \<Rightarrow> env" where
  "sample_env E exe = E\<lparr>big := False, newSpace := 8, pageNoise := \<lambda>_. sample_page 0 UNINIT, unixFile := \<lambda>_. Some exe\<rparr>"

theorem main_runs_program_witness:
  "\<forall>run yield E N. \<exists>out s1 m1 m2. coff2noff False sample_noff sample_coff = Inr out \<and>
     main run yield (sample_env E out) (N\<lparr>iptMemory := \<lambda>_. no_frame\<rparr>) [cmd ''-x'', cmd ''a''] = Some (Inr (Runs s1)) \<and>
     page_byte {} (osvm s1) 8 1 2 3 \<and> OneInstruction False (ExceptionHandler (sample_env E out)) (run_user s1) = Inr m1 \<and>
     ReadMem False (ExceptionHandler (sample_env E out)) m1 0 4 = Inr (Some 12, m2)"
proof (intro allI, goal_cases)
  case (1 run yield E N)
  obtain out where out: "coff2noff False sample_noff sample_coff = Inr out" using sample_coff_facts(1) by blast
  let ?E = "sample_env E out" and ?N = "N\<lparr>iptMemory := \<lambda>_. no_frame\<rparr>"
  have E: "big ?E = False" "newSpace ?E = 8" "unixFile ?E (cmd ''a'') = Some out" by (simp_all add: sample_env_def)
  have N: "clean_memory ?N" "cmd ''a'' \<noteq> cmd ''-rs''"
    by (simp_all add: clean_memory_def no_frame_def no_entry_def TranslationEntry.defs cmd_def)
  have b: "sample_coff ! 326 = 3" "sample_coff ! 196 = 12" "sample_coff ! 197 = 0" "sample_coff ! 198 = 0" "sample_coff ! 199 = 0"
    by (simp_all add: sample_coff_def nth_append)
  have w: "le32 12 0 0 0 = 12" by (simp add: le32_def)
  obtain s1 m1 m2 where "main run yield ?E ?N [cmd ''-x'', cmd ''a''] = Some (Inr (Runs s1))"
    "\<And>i. i < 4 \<Longrightarrow> page_byte {} (osvm s1) 8 (int ((128 + i) div 128)) ((128 + i) mod 128) (sample_coff ! (324 + i))"
    "OneInstruction False (ExceptionHandler ?E) (run_user s1) = Inr m1"
    "ReadMem False (ExceptionHandler ?E) m1 0 4 = Inr (Some (le32 12 0 0 0), m2)"
    using main_runs_program [where E = ?E and run = run and yield = yield, unfolded E(1,2),
        OF sample_coff_sections out E(3) sample_coff_facts(2) _ _ _ sample_coff_facts(3) _ _ _ _ _ N]
      sample_coff_facts(4) b by (auto simp: Let_def)
  from this(1,3,4) this(2) [of 2] show ?case
    using out b(1) unfolding w by (intro exI [of _ out] exI [of _ s1] exI [of _ m1] exI [of _ m2]) simp
qed

end
