(* ===== verification/File_Test.thy ===== *)
theory File_Test
  imports File_Claims
begin

text \<open>
  filesys/fstest.cc: programs that use the file system. \<open>Copy\<close> brings a UNIX file onto the disk, \<open>Print\<close> shows a
  file, \<open>PerformanceTest\<close> writes and reads one. \<open>g\<close> and \<open>garbage\<close> are what fresh memory holds.
\<close>

section \<open>Operations\<close>

text \<open>What the programs report, apart from their progress and the statistics.\<close>

datatype report = Couldnt_open_input | Couldnt_create_output | Unable_to_open | Cant_create | Unable_to_write
  | Unable_to_read | Unable_to_remove

definition TransferSize :: nat where "TransferSize = 10"

text \<open>The loop of \<open>Copy\<close>: \<open>source\<close> is what the UNIX file still has. The result of \<open>Write\<close> is not looked at.\<close>

function copy_chunks :: "(nat \<Rightarrow> u8) \<Rightarrow> u8 list \<Rightarrow> OpenFile \<Rightarrow> filesys \<Rightarrow> filesys result" where
  "copy_chunks garbage source f s =
     (if source = [] then Inr s
      else
        let buffer = take TransferSize source in
        bind_result (File_Write garbage f buffer (int (length buffer)) (dsk s)) (\<lambda>(_, f', d).
        copy_chunks garbage (drop TransferSize source) f' (s\<lparr>dsk := d\<rparr>)))"
  by pat_completeness auto
termination by (relation "measure (\<lambda>(_, source, _). length source)") (auto simp: TransferSize_def)

definition Copy ::
  "(nat \<Rightarrow> u8) \<Rightarrow> fresh \<Rightarrow> (u8 list \<Rightarrow> u8 list option) \<Rightarrow> u8 list \<Rightarrow> u8 list \<Rightarrow> filesys \<Rightarrow> (report list \<times> filesys) result" where
  "Copy garbage g unix from to s =
     (case unix from of
        None \<Rightarrow> Inr ([Couldnt_open_input], s)
      | Some source \<Rightarrow>
        bind_result (FS_Create g to (int (length source)) s) (\<lambda>(ok, s1).
        if \<not> ok then Inr ([Couldnt_create_output], s1)
        else bind_result (FS_Open g to s1) (\<lambda>opened.
          case opened of
            None \<Rightarrow> Inl AssertFailed
          | Some f \<Rightarrow> bind_result (copy_chunks garbage source f s1) (\<lambda>s2. Inr ([], s2)))))"

text \<open>The loop of \<open>Print\<close>, with what it has printed.\<close>

partial_function (option) print_loop :: "OpenFile \<Rightarrow> u8 list \<Rightarrow> u8 list \<Rightarrow> u8 list result option" where
  "print_loop f d out =
     (case File_Read f (int TransferSize) d of
        Inl c \<Rightarrow> Some (Inl c)
      | Inr (bs, f') \<Rightarrow> if bs = [] then Some (Inr out) else print_loop f' d (out @ bs))"

definition Print :: "fresh \<Rightarrow> u8 list \<Rightarrow> filesys \<Rightarrow> (report list \<times> u8 list) result option" where
  "Print g name s =
     (case FS_Open g name s of
        Inl c \<Rightarrow> Some (Inl c)
      | Inr None \<Rightarrow> Some (Inr ([Unable_to_open], []))
      | Inr (Some f) \<Rightarrow> map_option (\<lambda>r. bind_result r (\<lambda>out. Inr ([], out))) (print_loop f (dsk s) []))"

definition FileName :: "u8 list" where "FileName = map of_char ''TestFile''"
definition Contents :: "u8 list" where "Contents = map of_char ''1234567890''"
definition FileSize :: nat where "FileSize = length Contents * 5000"

text \<open>The loops of the performance test: TRUE when they come to their end.\<close>

primrec write_loop :: "nat \<Rightarrow> (nat \<Rightarrow> u8) \<Rightarrow> OpenFile \<Rightarrow> filesys \<Rightarrow> (bool \<times> filesys) result" where
  "write_loop 0 garbage f s = Inr (True, s)"
| "write_loop (Suc n) garbage f s =
     bind_result (File_Write garbage f Contents (int (length Contents)) (dsk s)) (\<lambda>(numBytes, f', d).
     if numBytes < 10 then Inr (False, s\<lparr>dsk := d\<rparr>) else write_loop n garbage f' (s\<lparr>dsk := d\<rparr>))"

primrec read_loop :: "nat \<Rightarrow> OpenFile \<Rightarrow> u8 list \<Rightarrow> bool result" where
  "read_loop 0 f d = Inr True"
| "read_loop (Suc n) f d =
     bind_result (File_Read f (int (length Contents)) d) (\<lambda>(buffer, f').
     if length buffer < 10 \<or> buffer \<noteq> Contents then Inr False else read_loop n f' d)"

definition FileWrite :: "(nat \<Rightarrow> u8) \<Rightarrow> fresh \<Rightarrow> filesys \<Rightarrow> (report list \<times> filesys) result" where
  "FileWrite garbage g s =
     bind_result (FS_Create g FileName 0 s) (\<lambda>(ok, s1).
     if \<not> ok then Inr ([Cant_create], s1)
     else bind_result (FS_Open g FileName s1) (\<lambda>opened.
       case opened of
         None \<Rightarrow> Inr ([Unable_to_open], s1)
       | Some f \<Rightarrow> bind_result (write_loop (FileSize div length Contents) garbage f s1) (\<lambda>(ok, s2).
           Inr (if ok then [] else [Unable_to_write], s2))))"

definition FileRead :: "fresh \<Rightarrow> filesys \<Rightarrow> report list result" where
  "FileRead g s =
     bind_result (FS_Open g FileName s) (\<lambda>opened.
     case opened of
       None \<Rightarrow> Inr [Unable_to_open]
     | Some f \<Rightarrow> bind_result (read_loop (FileSize div length Contents) f (dsk s)) (\<lambda>ok.
         Inr (if ok then [] else [Unable_to_read])))"

definition PerformanceTest :: "(nat \<Rightarrow> u8) \<Rightarrow> fresh \<Rightarrow> filesys \<Rightarrow> (report list \<times> filesys) result" where
  "PerformanceTest garbage g s =
     bind_result (FileWrite garbage g s) (\<lambda>(r1, s1).
     bind_result (FileRead g s1) (\<lambda>r2.
     bind_result (FS_Remove g FileName s1) (\<lambda>(ok, s2).
     Inr (r1 @ r2 @ (if ok then [] else [Unable_to_remove]), s2))))"

section \<open>The loops\<close>

declare copy_chunks.simps [simp del]

lemma copy_chunks_ok:
  assumes "fs_inv s b dir" "dir_map dir nm = Some k" "ohdr f = hdr_at (dsk s) k" "seekPosition f = int (length pre)"
    and "files s nm = Some (pre @ old)" "length old = length source"
  shows "\<exists>s'. copy_chunks garbage source f s = Inr s' \<and> fs_inv s' b dir \<and> files s' = (files s)(nm \<mapsto> pre @ source)"
  using assms
proof (induction garbage source f s arbitrary: pre old rule: copy_chunks.induct)
  case (1 garbage source f s)
  show ?case
  proof (cases "source = []")
    case True
    then have "files s = (files s)(nm \<mapsto> pre @ source)" using "1.prems"(5,6) by auto
    then show ?thesis using True "1.prems"(1) copy_chunks.simps [of garbage source f s] by auto
  next
    case False
    let ?buf = "take TransferSize source" and ?n = "length (take TransferSize source)"
    have c: "contents (hdr_at (dsk s) k) (dsk s) = pre @ old"
      using fs_inv_view [OF "1.prems"(1)] "1.prems"(2,5) by auto
    have m: "nat (min (int ?n) (int (length (pre @ old)) - int (length pre))) = ?n" using "1.prems"(6) by simp
    have tk: "take (min (length source) TransferSize) source = ?buf" by (simp add: min_def)
    obtain d where d: "WriteAt garbage (hdr_at (dsk s) k) ?buf (int ?n) (int (length pre)) (dsk s) = Inr (int ?n, d)"
      "fs_inv (s\<lparr>dsk := d\<rparr>) b dir" "hdr_at d k = hdr_at (dsk s) k"
      "files (s\<lparr>dsk := d\<rparr>) = (files s)(nm \<mapsto> (pre @ ?buf) @ drop ?n old)"
      using write_file_ok [OF "1.prems"(1,2), of "int (length pre)" "int ?n" ?buf garbage, unfolded c m] "1.prems"(2) tk by auto
    let ?f = "f\<lparr>seekPosition := seekPosition f + int ?n\<rparr>"
    have w: "File_Write garbage f ?buf (int ?n) (dsk s) = Inr (int ?n, ?f, d)"
      using d(1) "1.prems"(3,4) by (simp add: File_Write_def)
    have "\<exists>s'. copy_chunks garbage (drop TransferSize source) ?f (s\<lparr>dsk := d\<rparr>) = Inr s' \<and> fs_inv s' b dir \<and>
        files s' = (files (s\<lparr>dsk := d\<rparr>))(nm \<mapsto> (pre @ ?buf) @ drop TransferSize source)"
    proof (rule "1.IH" [OF False refl w refl refl])
      show "files (s\<lparr>dsk := d\<rparr>) nm = Some ((pre @ ?buf) @ drop ?n old)" by (simp only: d(4)) simp
    qed (use d(2,3) "1.prems"(2-4,6) in simp_all)
    then show ?thesis
      using False w d(4) copy_chunks.simps [of garbage source f s] by (auto simp: Let_def)
  qed
qed

lemma print_loop_ok:
  assumes "header_ok (ohdr f)" "disk_file_ok d" "seekPosition f = int n"
  shows "print_loop f d out = Some (Inr (out @ drop n (contents (ohdr f) d)))"
  using assms
proof (induction "length (contents (ohdr f) d) - n" arbitrary: f n out rule: less_induct)
  case less
  let ?c = "contents (ohdr f) d"
  let ?bs = "take TransferSize (drop n ?c)"
  have r: "File_Read f (int TransferSize) d = Inr (?bs, f\<lparr>seekPosition := int n + int (length ?bs)\<rparr>)"
    using open_file.rd_ok [of "ohdr f" d "int n" "int TransferSize"] less.prems by (simp add: File_Read_def)
  show ?case
  proof (cases "n < length ?c")
    case False
    then show ?thesis using r by (simp add: print_loop.simps [of f])
  next
    case True
    let ?f = "f\<lparr>seekPosition := int (n + length ?bs)\<rparr>"
    have ne: "?bs \<noteq> []" using True by (simp add: TransferSize_def)
    then have "0 < length ?bs" by blast
    moreover have "ohdr ?f = ohdr f" by simp
    ultimately have "length (contents (ohdr ?f) d) - (n + length ?bs) < length ?c - n"
      using True by (metis add_diff_cancel_left' diff_less_mono2 less_add_same_cancel1)
    then have "print_loop ?f d (out @ ?bs) = Some (Inr ((out @ ?bs) @ drop (n + length ?bs) ?c))"
      using less.hyps [of ?f "n + length ?bs" "out @ ?bs"] less.prems(1,2) by simp
    moreover have "?bs = take (length ?bs) (drop n ?c)" by (simp add: min_def)
    then have "?bs @ drop (length ?bs) (drop n ?c) = drop n ?c" by (metis append_take_drop_id)
    then have "?bs @ drop (n + length ?bs) ?c = drop n ?c" by (simp only: drop_drop add.commute)
    moreover have "print_loop f d out = print_loop ?f d (out @ ?bs)"
      using r ne by (subst print_loop.simps) simp
    ultimately show ?thesis by simp
  qed
qed

section \<open>The performance test\<close>

lemma test_sizes: "length Contents = 10" "0 < FileSize div length Contents" "0 \<notin> set FileName"
  by (simp_all add: Contents_def FileSize_def FileName_def of_char_def)

lemma first_round:
  "0 < n \<Longrightarrow> File_Write garbage f Contents (int (length Contents)) (dsk s) = Inr (0, f', d) \<Longrightarrow>
    write_loop n garbage f s = Inr (False, s\<lparr>dsk := d\<rparr>)"
  "0 < n \<Longrightarrow> File_Read f (int (length Contents)) d = Inr ([], f') \<Longrightarrow> read_loop n f d = Inr False"
  by (cases n; simp)+

text \<open>
  The test cannot succeed on this file system: it creates the file with size 0, files do not grow, so the
  first \<open>Write\<close> stores nothing and the first \<open>Read\<close> finds nothing. The disk is as before.
\<close>

lemma PerformanceTest_fails:
  assumes "fs_ok s" "fresh_ok g" "files s (key_of FileName) = None" "card (dom (files s)) < 10" "1 \<le> room s"
  shows "\<exists>s'. PerformanceTest garbage g s = Inr ([Unable_to_write, Unable_to_read], s') \<and> fs_ok s' \<and> files s' = files s"
proof -
  have z: "divRoundUp 0 128 + 1 \<le> room s" "(0 :: int) \<le> MaxFileSize" using assms(5) by (simp_all add: divRoundUp_def sample_sizes)
  obtain s1 b dir k where c: "FS_Create g FileName 0 s = Inr (True, s1)" "fs_inv s1 b dir" "dir_map dir (key_of FileName) = Some k"
    "files s1 = (files s)(key_of FileName \<mapsto> [])"
    using Create_ok [OF assms(1,2) test_sizes(3), of 0] assms(3,4) z by auto
  let ?f = "\<lambda>s. \<lparr>ohdr = hdr_at (dsk s) k, seekPosition = 0\<rparr>"
  have o: "FS_Open g FileName s2 = Inr (Some (?f s2))" if "fs_inv s2 b dir" for s2
    using FS_Open_ok [OF that test_sizes(3), of g] c(3) by simp
  have e: "contents (hdr_at (dsk s2) k) (dsk s2) = []" if "fs_inv s2 b dir" "files s2 = (files s)(key_of FileName \<mapsto> [])" for s2
    using fs_inv_view [OF that(1)] that(2) c(3) by (auto simp: fun_eq_iff split: if_splits)
  obtain d where d: "WriteAt garbage (hdr_at (dsk s1) k) Contents 10 0 (dsk s1) = Inr (0, d)" "fs_inv (s1\<lparr>dsk := d\<rparr>) b dir"
    "files (s1\<lparr>dsk := d\<rparr>) = (files s)(key_of FileName \<mapsto> [])"
    using write_file_ok [OF c(2,3), of 0 10 Contents garbage, unfolded e [OF c(2,4)]] test_sizes(1) c(4) by auto
  let ?s2 = "s1\<lparr>dsk := d\<rparr>"
  have "File_Write garbage (?f s1) Contents (int (length Contents)) (dsk s1) = Inr (0, ?f s1, d)"
    using d(1) test_sizes(1) by (simp add: File_Write_def)
  note w = first_round(1) [OF test_sizes(2) this]
  have fw: "FileWrite garbage g s = Inr ([Unable_to_write], ?s2)"
    using c(1) o [OF c(2)] w by (simp add: FileWrite_def)
  have "header_ok (hdr_at (dsk ?s2) k)" "disk_file_ok (dsk ?s2)"
    using files_okD(1) [OF fs_invD(6) [OF d(2)] c(3)] fs_invD(7) [OF d(2)] by simp_all
  then have "ReadAt (hdr_at (dsk ?s2) k) 10 0 (dsk ?s2) = Inr []"
    using open_file.rd_ok [of "hdr_at (dsk ?s2) k" "dsk ?s2" 0 10] e [OF d(2,3)] by simp
  then have "File_Read (?f ?s2) (int (length Contents)) (dsk ?s2) = Inr ([], ?f ?s2)"
    using test_sizes(1) by (simp add: File_Read_def)
  note rd = first_round(2) [OF test_sizes(2) this]
  have fr: "FileRead g ?s2 = Inr [Unable_to_read]"
    using o [OF d(2)] rd by (simp add: FileRead_def)
  obtain d' b' dir' where r: "FS_Remove g FileName ?s2 = Inr (True, ?s2\<lparr>dsk := d'\<rparr>)" "fs_inv (?s2\<lparr>dsk := d'\<rparr>) b' dir'"
    "dir_map dir' = (dir_map dir)(key_of FileName := None)"
    "\<And>m l. dir_map dir m = Some l \<Longrightarrow> contents (hdr_at d' l) d' = contents (hdr_at (dsk ?s2) l) (dsk ?s2)"
    using FS_Remove_ok [OF d(2) test_sizes(3), of g] c(3) by auto
  have "files (?s2\<lparr>dsk := d'\<rparr>) m = files s m" for m
  proof (cases "m = key_of FileName")
    case True
    then show ?thesis using fs_inv_view [OF r(2)] r(3) assms(3) by simp
  next
    case False
    then have "files ?s2 m = files s m" by (simp only: d(3)) simp
    then show ?thesis using fs_inv_view [OF r(2)] fs_inv_view [OF d(2)] r(3,4) False by (cases "dir_map dir m") auto
  qed
  then have "files (?s2\<lparr>dsk := d'\<rparr>) = files s" by (rule ext)
  moreover have "PerformanceTest garbage g s = Inr ([Unable_to_write, Unable_to_read], ?s2\<lparr>dsk := d'\<rparr>)"
    using fw fr r(1) by (simp add: PerformanceTest_def)
  ultimately show ?thesis using fs_inv_view [OF r(2)] by auto
qed

section \<open>Properties\<close>

text \<open>
  C27: a file that is copied onto the disk is there. For a UNIX file of at most 30 sectors \<open>Copy\<close> succeeds
  exactly when \<open>Create\<close> does; then the disk has the bytes of the file under the new name and otherwise the files it had,
  the invariant holds, and \<open>Print\<close> returns and shows just those bytes. When there is no room, the name is
  taken or the directory is full, \<open>Copy\<close> reports it and leaves the disk as it was.
\<close>

theorem Copy_then_Print:
  assumes "fs_ok s" "fresh_ok g" "0 \<notin> set to" "unix from = Some source" "int (length source) \<le> MaxFileSize"
  shows "if files s (key_of to) = None \<and> card (dom (files s)) < 10 \<and> divRoundUp (int (length source)) 128 + 1 \<le> room s
    then \<exists>s'. Copy garbage g unix from to s = Inr ([], s') \<and> fs_ok s' \<and> files s' = (files s)(key_of to \<mapsto> source) \<and>
      room s' = room s - (divRoundUp (int (length source)) 128 + 1) \<and> Print g' to s' = Some (Inr ([], source))
    else Copy garbage g unix from to s = Inr ([Couldnt_create_output], s)"
proof -
  let ?n = "int (length source)"
  have n0: "0 \<le> ?n" by simp
  note C = Create_ok [OF assms(1-3) n0 assms(5)]
  show ?thesis
  proof (cases "files s (key_of to) = None \<and> card (dom (files s)) < 10 \<and> divRoundUp ?n 128 + 1 \<le> room s")
    case False
    then show ?thesis using C assms(4) by (auto simp: Copy_def)
  next
    case True
    then obtain s1 old b dir k where c: "FS_Create g to ?n s = Inr (True, s1)" "fs_inv s1 b dir" "dir_map dir (key_of to) = Some k"
      "int (length old) = ?n" "files s1 = (files s)(key_of to \<mapsto> old)" "room s1 = room s - (divRoundUp ?n 128 + 1)"
      using C by auto
    let ?f = "\<lambda>s. \<lparr>ohdr = hdr_at (dsk s) k, seekPosition = 0\<rparr>"
    have o: "FS_Open h to s2 = Inr (Some (?f s2))" if "fs_inv s2 b dir" for s2 h
      using FS_Open_ok [OF that assms(3), of h] c(3) by simp
    obtain s2 where s2: "copy_chunks garbage source (?f s1) s1 = Inr s2" "fs_inv s2 b dir" "files s2 = (files s)(key_of to \<mapsto> source)"
      using copy_chunks_ok [OF c(2,3), of "?f s1" "[]" old source garbage] c(4,5) by auto
    have "header_ok (hdr_at (dsk s2) k)" "disk_file_ok (dsk s2)"
      using files_okD(1) [OF fs_invD(6) [OF s2(2)] c(3)] fs_invD(7) [OF s2(2)] by simp_all
    moreover have "contents (hdr_at (dsk s2) k) (dsk s2) = source"
      using fs_inv_view [OF s2(2)] c(3) s2(3) by (auto simp: fun_eq_iff split: if_splits)
    ultimately have "print_loop (?f s2) (dsk s2) [] = Some (Inr source)" using print_loop_ok [of "?f s2" "dsk s2" 0 "[]"] by simp
    then have "Print g' to s2 = Some (Inr ([], source))" using o [OF s2(2)] by (simp add: Print_def)
    moreover have "Copy garbage g unix from to s = Inr ([], s2)" using assms(4) c(1) o [OF c(2)] s2(1) by (simp add: Copy_def)
    moreover have "room s2 = room s1" "fs_ok s2" using fs_inv_view [OF s2(2)] fs_inv_view [OF c(2)] by simp_all
    ultimately show ?thesis using True c(6) s2(3) by simp
  qed
qed

theorem Copy_then_Print_witness:
  "\<exists>s s'. new_FileSystem sample_fresh True blank_disk = Inr s \<and>
     Copy (\<lambda>_. 9) sample_fresh (\<lambda>_. Some [1, 2, 3, 4, 5, 6, 7, 8, 9, 10, 11, 12]) [120] [97] s = Inr ([], s') \<and>
     Print sample_fresh [97] s' = Some (Inr ([], [1, 2, 3, 4, 5, 6, 7, 8, 9, 10, 11, 12])) \<and> room s' = 1017"
proof -
  let ?b = "[1, 2, 3, 4, 5, 6, 7, 8, 9, 10, 11, 12] :: u8 list"
  obtain s where s: "new_FileSystem sample_fresh True blank_disk = Inr s" "fs_ok s" "files s = Map.empty" "room s = 1019"
    using sample_system by blast
  have r: "divRoundUp 12 128 = 1" by (simp add: divRoundUp_def)
  show ?thesis
    using Copy_then_Print [OF s(2) sample_fresh_ok, of "[97]" "\<lambda>_. Some ?b" "[120]" ?b "\<lambda>_. 9" sample_fresh] s r
    by (auto simp: sample_sizes)
qed

end
