(* ===== verification/Mutual_Exclusion.thy ===== *)
theory Mutual_Exclusion
  imports Monitor
begin

text \<open>
  Mutual exclusion of threads/synch.cc, over the histories of the kernel of Threads: who has come out of
  \<open>Acquire\<close> (or of the \<open>Acquire\<close> at the end of \<open>Wait\<close>) and has not given the lock up since.
\<close>

section \<open>Inside a lock\<close>

text \<open>
  The thread that a step brings past \<open>Acquire\<close> of the lock \<open>l\<close>: a thread that the step dispatches and that had
  blocked there, or the running thread, when its call of \<open>Acquire\<close> returns at once. \<open>p\<close> is the call; \<open>None\<close> is a device.
\<close>

definition enters :: "lid \<Rightarrow> kop option \<Rightarrow> kernel \<Rightarrow> kernel \<Rightarrow> tid set" where
  "enters l p k k' =
     (if idle k' then {}
      else if idle k \<or> currentThread k' \<noteq> currentThread k
      then (if conts k (currentThread k') \<in> {AcquireDone l, Reacquire l} then {currentThread k'} else {})
      else if p = Some (Op_Acquire l) then {currentThread k} else {})"

text \<open>The thread that gives it up: by \<open>Release\<close>, or by a \<open>Wait\<close> that puts it to sleep.\<close>

definition exits :: "lid \<Rightarrow> kop option \<Rightarrow> kernel \<Rightarrow> kernel \<Rightarrow> tid set" where
  "exits l p k k' =
     (case p of
        Some (Op_Release l') \<Rightarrow> if l' = l then {currentThread k} else {}
      | Some (Op_Wait c lo) \<Rightarrow>
          if lo = Some l \<and> (idle k' \<or> currentThread k' \<noteq> currentThread k) then {currentThread k} else {}
      | _ \<Rightarrow> {})"

text \<open>\<open>inside l A k\<close>: after some history that leads to \<open>k\<close>, \<open>A\<close> are the threads inside the lock \<open>l\<close>.\<close>

inductive inside :: "lid \<Rightarrow> tid set \<Rightarrow> kernel \<Rightarrow> bool" where
  start: "(\<And>s. 0 \<le> v s) \<Longrightarrow> inside l {} (boot v)"
| call: "inside l A k \<Longrightarrow> \<not> idle k \<Longrightarrow> (\<And>t. p = Op_Fork t \<Longrightarrow> status k t = JUST_CREATED) \<Longrightarrow>
    exec p k = Some (Inr k') \<Longrightarrow> inside l (A - exits l (Some p) k k' \<union> enters l (Some p) k k') k'"
| device: "inside l A k \<Longrightarrow> device_V s k = Inr k' \<Longrightarrow> inside l (A - exits l None k k' \<union> enters l None k k') k'"

lemma inside_reachable: "inside l A k \<Longrightarrow> reachable k"
  by (induction rule: inside.induct) (blast intro: reachable.intros kstep.intros)+

lemma reachable_inside: "reachable k \<Longrightarrow> \<exists>A. inside l A k"
proof (induction rule: reachable.induct)
  case (step k k')
  from step(3) obtain A where "inside l A k" ..
  with step(2) show ?case by cases (blast intro: inside.intros)+
qed (blast intro: inside.start)

text \<open>A thread that has been handed the lock and only waits for the CPU.\<close>

abbreviation possessor :: "kernel \<Rightarrow> lid \<Rightarrow> tid option" where
  "possessor k l \<equiv> threadWithPossession (locks k l)"

definition incoming :: "lid \<Rightarrow> kernel \<Rightarrow> tid \<Rightarrow> bool" where
  "incoming l k t \<longleftrightarrow> t \<in> set (readyList k) \<and> conts k t = AcquireDone l"

text \<open>The possessor of the lock is the thread inside it, or the one on its way in.\<close>

definition accounted :: "lid \<Rightarrow> tid set \<Rightarrow> kernel \<Rightarrow> bool" where
  "accounted l A k \<longleftrightarrow> (\<forall>t\<in>A. possessor k l = Some t) \<and> (\<forall>t. possessor k l = Some t \<longrightarrow> t \<in> A \<or> incoming l k t)"

lemma accounted_same:
  "accounted l A k \<Longrightarrow> possessor k' l = possessor k l \<Longrightarrow> (\<And>t. incoming l k t \<Longrightarrow> incoming l k' t) \<Longrightarrow> accounted l A k'"
  by (auto simp: accounted_def)

section \<open>Dispatching\<close>

definition carries :: "lid \<Rightarrow> kernel \<Rightarrow> kernel \<Rightarrow> bool" where
  "carries l k k' \<longleftrightarrow> (\<forall>t. (possessor k l = Some t \<longrightarrow> possessor k' l = Some t) \<and>
     (possessor k' l = Some t \<longrightarrow>
        \<not> idle k' \<and> t = currentThread k' \<and> t \<in> set (readyList k) \<and> conts k t \<in> {AcquireDone l, Reacquire l} \<or>
        possessor k l = Some t \<and> (incoming l k t \<longrightarrow> incoming l k' t)))"

text \<open>The first ready thread runs, or goes to sleep again and the next one is tried.\<close>

lemma carries_run:
  assumes "readyList k = t # ts" "dispatched t ts k k2"
    and "readyList k3 = ts" "conts k3 = conts k2" "currentThread k3 = t" "\<not> idle k3"
    and "locks k3 l = locks k l \<or> conts k t = Reacquire l \<and> possessor k l = None \<and> possessor k3 l = Some t"
  shows "carries l k k3"
  using assms unfolding carries_def dispatched_def by (auto simp: incoming_def)

lemma carries_again:
  assumes "readyList k = t # ts" "dispatched t ts k k2" "t \<notin> set ts" "conts k t \<noteq> AcquireDone l"
    and "readyList k3 = ts" "conts k3 = conts k2" "currentThread k3 = t" "possessor k3 l = possessor k l"
    and "carries l (mark_blocked co k3) k'"
  shows "carries l k k'"
proof -
  have m: "possessor (mark_blocked co k3) l = possessor k l" "readyList (mark_blocked co k3) = ts"
    "\<And>u. u \<in> set ts \<Longrightarrow> conts (mark_blocked co k3) u = conts k u"
    using assms(2,3,5-8) by (auto simp: dispatched_def)
  moreover have "incoming l k u \<Longrightarrow> incoming l (mark_blocked co k3) u" for u
    using assms(1,4) m(2) m(3) [of u] unfolding incoming_def by (metis set_ConsD)
  ultimately show ?thesis
    using assms(1,9) unfolding carries_def by (metis list.set_intros(2))
qed

lemma dispatch_carries: "asleep k \<Longrightarrow> dispatch k = Inr k' \<Longrightarrow> carries l k k'"
proof (induction "length (readyList k)" arbitrary: k rule: less_induct)
  case less
  show ?case
  proof (cases "readyList k")
    case Nil
    then show ?thesis using less(3) by (auto simp: dispatch_idle carries_def incoming_def)
  next
    case (Cons t ts)
    obtain k2 where k2: "dispatched t ts k k2" and oc: "case conts k t of
        RetryP s \<Rightarrow> (\<exists>b k3. P_try s k2 = (b, k3) \<and> (if b then k' = k3 else
          asleep (mark_blocked (RetryP s) k3) \<and> dispatch (mark_blocked (RetryP s) k3) = Inr k'))
      | Reacquire l \<Rightarrow> (\<exists>b k3. Acquire_try l k2 = (b, k3) \<and> (if b then k' = k3 else
          asleep (mark_blocked (AcquireDone l) k3) \<and> dispatch (mark_blocked (AcquireDone l) k3) = Inr k'))
      | _ \<Rightarrow> k' = k2"
      using dispatch_first [OF less(2) Cons less(3)] by blast
    note d = k2 [unfolded dispatched_def]
    note f = first_ready [OF less(2) Cons]
    have again: "carries l (mark_blocked co k3) k'"
      if "asleep (mark_blocked co k3)" "dispatch (mark_blocked co k3) = Inr k'" "readyList k3 = ts" for co k3
      using less(1) [OF _ that(1,2)] that(3) Cons by simp
    show ?thesis
    proof (cases "conts k t")
      case (RetryP s)
      then obtain b k3 where b: "P_try s k2 = (b, k3)" "if b then k' = k3 else
          asleep (mark_blocked (RetryP s) k3) \<and> dispatch (mark_blocked (RetryP s) k3) = Inr k'" using oc by auto
      have k3: "readyList k3 = ts" "conts k3 = conts k2" "currentThread k3 = t" "\<not> idle k3" "locks k3 = locks k"
        using b(1) d by (auto simp: P_try_def Let_def split: if_splits)
      show ?thesis
      proof (cases b)
        case True
        then show ?thesis using b(2) k3 carries_run [OF Cons k2 k3(1-4)] by simp
      next
        case False
        then show ?thesis using b(2) k3 RetryP again [of "RetryP s" k3]
          by (intro carries_again [OF Cons k2 f(1) _ k3(1-3)]) simp_all
      qed
    next
      case (Reacquire l')
      then obtain b k3 where b: "Acquire_try l' k2 = (b, k3)" "if b then k' = k3 else
          asleep (mark_blocked (AcquireDone l') k3) \<and> dispatch (mark_blocked (AcquireDone l') k3) = Inr k'" using oc by auto
      have k3: "readyList k3 = ts" "conts k3 = conts k2" "currentThread k3 = t" "\<not> idle k3"
        using b(1) d by (auto simp: Acquire_try_def Let_def split: if_splits)
      show ?thesis
      proof (cases b)
        case True
        then have "locks k3 l = locks k l \<or> conts k t = Reacquire l \<and> possessor k l = None \<and> possessor k3 l = Some t"
          using b(1) d f(7) [of l] Reacquire by (auto simp: Acquire_try_def Let_def split: if_splits)
        then show ?thesis using b(2) True carries_run [OF Cons k2 k3] by simp
      next
        case False
        then have "possessor k3 l = possessor k l"
          using b(1) d by (auto simp: Acquire_try_def Let_def split: if_splits)
        then show ?thesis using b(2) k3 Reacquire False again [of "AcquireDone l'" k3]
          by (intro carries_again [OF Cons k2 f(1) _ k3(1-3)]) simp_all
      qed
    qed (use oc d carries_run [OF Cons k2, of k2] in simp_all)
  qed
qed

section \<open>Every step keeps the account\<close>

text \<open>What the calls do before they put their thread to sleep, or without sleeping.\<close>

definition before_sleep :: "lid \<Rightarrow> kernel \<Rightarrow> kernel \<Rightarrow> bool" where
  "before_sleep l k kb \<longleftrightarrow> (\<forall>u\<in>set (readyList kb). conts kb u \<in> {AcquireDone l, Reacquire l} \<longrightarrow>
     conts k u = conts kb u \<and> (idle k \<or> u \<noteq> currentThread k))"

definition calmly :: "lid \<Rightarrow> tid set \<Rightarrow> kernel \<Rightarrow> kernel \<Rightarrow> bool" where
  "calmly l B k k' \<longleftrightarrow> (\<exists>kb. accounted l B kb \<and>
     (kb = k' \<or> asleep kb \<and> dispatch kb = Inr k' \<and> before_sleep l k kb))"

lemma calmly_same:
  "accounted l B k \<Longrightarrow> possessor k' l = possessor k l \<Longrightarrow> (\<And>t. incoming l k t \<Longrightarrow> incoming l k' t) \<Longrightarrow> calmly l B k k'"
  using accounted_same unfolding calmly_def by blast

text \<open>What enters holds the lock.\<close>

lemma calmly_accounted:
  assumes "calmly l B k k'" "\<forall>t\<in>enters l p k k'. possessor k' l = Some t"
  shows "accounted l (B \<union> enters l p k k') k'"
proof -
  obtain kb where kb: "accounted l B kb" and c: "kb = k' \<or> asleep kb \<and> dispatch kb = Inr k' \<and> before_sleep l k kb"
    using assms(1) by (auto simp: calmly_def)
  from c show ?thesis
  proof
    assume "kb = k'"
    then show ?thesis using kb assms(2) by (auto simp: accounted_def)
  next
    assume d: "asleep kb \<and> dispatch kb = Inr k' \<and> before_sleep l k kb"
    then have "carries l kb k'" using dispatch_carries by blast
    then show ?thesis
      using kb assms(2) d unfolding accounted_def carries_def before_sleep_def enters_def by (smt (verit) Un_iff singletonI)
  qed
qed

lemma running_not_ready:
  "awake k \<Longrightarrow> currentThread k \<notin> set (readyList k)"
  using running_places(4) by (auto simp: awake_def)

text \<open>A call that blocks: the lock is as it was and the sleeping thread is not one that waits for the CPU.\<close>

lemma calmly_sleep:
  assumes "accounted l B k1" "currentThread k1 \<notin> set (readyList k1)" "Sleep co k1 = Inr k'" "asleep (mark_blocked co k1)"
    and "conts k1 = conts k" "currentThread k1 = currentThread k"
  shows "calmly l B k k'"
proof -
  note nr = assms(2)
  have "accounted l B (mark_blocked co k1)"
    using nr by (intro accounted_same [OF assms(1)]) (auto simp: incoming_def)
  moreover have "before_sleep l k (mark_blocked co k1)"
    using nr assms(5,6) by (auto simp: before_sleep_def)
  ultimately show ?thesis using assms(3,4) unfolding calmly_def Sleep_def by blast
qed

lemma Acquire_accounted:
  assumes "accounted l A k" "awake k" "\<not> idle k" "Acquire l0 k = Inr k'"
    and "\<forall>t\<in>enters l (Some (Op_Acquire l0)) k k'. possessor k' l = Some t"
  shows "accounted l (A \<union> enters l (Some (Op_Acquire l0)) k k') k'"
proof (cases "Acquire_try l0 k")
  case (Pair b k1)
  note fr = Acquire_try_frame [OF Pair] and a = Acquire_try_kinv [OF assms(2), of l0]
  show ?thesis
  proof (cases b)
    case False
    have "possessor k1 l = possessor k l" using Pair False by (auto simp: Acquire_try_def Let_def split: if_splits)
    moreover have "accounted l A k1"
      by (rule accounted_same [OF assms(1)]) (use fr calculation in \<open>simp_all add: incoming_def\<close>)
    moreover have "asleep (mark_blocked (AcquireDone l0) k1)" using a Pair False by simp
    moreover have "currentThread k1 \<notin> set (readyList k1)" using running_not_ready [OF assms(2)] fr by simp
    ultimately show ?thesis
      using assms(4) Pair False fr by (intro calmly_accounted [OF calmly_sleep [where ?k1.0 = k1 and co = "AcquireDone l0"] assms(5)]) (auto simp: Acquire_def)
  next
    case True
    then have k': "k' = k1" using assms(4) Pair by (simp add: Acquire_def)
    show ?thesis
    proof (cases "possessor k1 l = possessor k l")
      case True
      then show ?thesis using fr
        by (intro calmly_accounted [OF calmly_same [OF assms(1)] assms(5)]) (simp_all add: k' incoming_def)
    next
      case False
      then have l: "l0 = l" "possessor k l = None" "\<not> idle k'" "currentThread k' = currentThread k"
        "possessor k' l = Some (currentThread k)"
        using Pair True assms(2,3) kinvD(2) unfolding k'
        by (auto simp: Acquire_try_def Let_def isHeldByCurrentThread_def awake_def locks_ok_def set_lock_def split: if_splits)
      then have "enters l (Some (Op_Acquire l0)) k k' = {currentThread k}" "A = {}"
        using assms(1,3) by (auto simp: enters_def accounted_def)
      then show ?thesis using l(5) by (simp add: accounted_def)
    qed
  qed
qed

text \<open>\<open>Release\<close>: the first waiter becomes the one on its way in.\<close>

lemma Release_accounted:
  assumes "accounted l A k" "kinv loc k"
  shows "accounted l (A - (if l0 = l then {currentThread k} else {})) (Release l0 k)"
proof (cases "l0 = l \<and> isHeldByCurrentThread k l")
  case True
  then have A: "A - {currentThread k} = {}" using assms(1) by (auto simp: accounted_def isHeldByCurrentThread_def)
  show ?thesis
  proof (cases "lqueue (locks k l)")
    case Nil
    then have "possessor (Release l0 k) l = None" using True by (simp add: Release_def Let_def)
    then show ?thesis using True A by (auto simp: accounted_def)
  next
    case (Cons t q)
    then have "loc t = Some (AtLock l)" using queue_loc(1) [OF kinvD(7) [OF assms(2)], of "AtLock l" t q] by simp
    then have "conts k t = AcquireDone l" using kinvD(3) [OF assms(2), of t] by simp
    then have "possessor (Release l0 k) l = Some t" "incoming l (Release l0 k) t"
      using True Cons by (simp_all add: Release_def Let_def incoming_def)
    then show ?thesis using True A by (auto simp: accounted_def)
  qed
next
  case False
  have B: "accounted l (A - (if l0 = l then {currentThread k} else {})) k"
    using assms(1) False by (auto simp: accounted_def isHeldByCurrentThread_def)
  have p: "possessor (Release l0 k) l = possessor k l"
  proof (cases "isHeldByCurrentThread k l0")
    case True
    with False have "l0 \<noteq> l" by blast
    then show ?thesis by (cases "lqueue (locks k l0)") (auto simp: Release_def Let_def)
  qed (simp add: Release_def)
  have "set (readyList k) \<subseteq> set (readyList (Release l0 k))"
    by (cases "lqueue (locks k l0)") (auto simp: Release_def Let_def)
  moreover have "conts (Release l0 k) = conts k" using Release_frame by blast
  ultimately have "incoming l k t \<Longrightarrow> incoming l (Release l0 k) t" for t by (simp add: incoming_def subset_iff)
  then show ?thesis using accounted_same [OF B p] by blast
qed

text \<open>The calls that only make threads ready.\<close>

definition only_wakes :: "kernel \<Rightarrow> kernel \<Rightarrow> bool" where
  "only_wakes k k' \<longleftrightarrow> locks k' = locks k \<and> (\<forall>t\<in>set (readyList k). conts k' t = conts k t) \<and>
     set (readyList k) \<subseteq> set (readyList k')"

lemma only_wakes_accounted: "accounted l A k \<Longrightarrow> only_wakes k k' \<Longrightarrow> accounted l A k'"
  by (rule accounted_same [of l A k]) (auto simp: only_wakes_def incoming_def)

lemma only_wakes_refl: "only_wakes k k"
  by (simp add: only_wakes_def)

lemma only_wakes_trans: "only_wakes k k1 \<Longrightarrow> only_wakes k1 k2 \<Longrightarrow> only_wakes k k2"
  by (auto simp: only_wakes_def)

lemma V_wakes: "only_wakes k (V s k)"
  by (cases "squeue (sems k s)") (auto simp: only_wakes_def V_def Let_def)

lemma Signal_wakes_only: "only_wakes k (Signal c lo k)"
  by (cases "cqueue (conds k c)") (auto simp: only_wakes_def Signal_def Let_def split: option.splits)

lemma Broadcast_wakes_only:
  assumes "Broadcast c lo k = Some k'"
  shows "only_wakes k k'"
proof (cases "Broadcast c lo k = Some k")
  case True
  then show ?thesis using assms by (simp add: only_wakes_refl)
next
  case False
  then obtain l where l: "broadcast_loop c l k = Some k'"
    using assms by (auto simp: Broadcast_def split: option.splits if_splits)
  show ?thesis
    by (rule broadcast_loop_keeps [OF l, of "only_wakes k"])
      (auto intro: only_wakes_refl only_wakes_trans [OF _ Signal_wakes_only])
qed

text \<open>\<open>Wait\<close> that sleeps is \<open>Release\<close> and then sleep.\<close>

lemma Wait_cases:
  assumes "awake k" "\<not> idle k" "Wait c lo k = Inr k'"
  obtains (returns) "only_wakes k k'" "currentThread k' = currentThread k" "\<not> idle k'"
  | (sleeps) l1 k1 k3 where "lo = Some l1" "awake k1" "locks k1 = locks k" "readyList k1 = readyList k" "conts k1 = conts k"
      "currentThread k1 = currentThread k" "locks k3 = locks (Release l1 k1)" "readyList k3 = readyList (Release l1 k1)"
      "conts k3 = conts k" "currentThread k3 = currentThread k" "awake (Release l1 k1)"
      "asleep (mark_blocked (Reacquire l1) k3)" "Sleep (Reacquire l1) k3 = Inr k'"
proof (cases lo)
  case None
  then show thesis using assms by (intro returns) (simp_all add: Wait_def only_wakes_refl)
next
  case (Some l1)
  define x1 where "x1 = (if waitingLock (conds k c) = None then (conds k c)\<lparr>waitingLock := Some l1\<rparr> else conds k c)"
  define k1 where "k1 = set_cond c x1 k"
  have k1: "awake k1" "\<not> idle k1"
    using assms(1,2) set_waitingLock_awake [OF assms(1), of c l1] by (auto simp: k1_def x1_def set_cond_def)
  show thesis
  proof (cases "Some l1 = waitingLock x1 \<and> isHeldByCurrentThread k1 l1")
    case False
    then have "Wait c lo k = Inr k1" using Some by (auto simp: Wait_def Let_def k1_def x1_def)
    then show thesis using assms(3) k1(2) by (intro returns) (simp_all add: only_wakes_def k1_def)
  next
    case True
    define k2 where "k2 = Release l1 k1"
    define k3 where "k3 = set_cond c ((conds k2 c)\<lparr>cqueue := cqueue (conds k2 c) @ [currentThread k2]\<rparr>) k2"
    have w: "Wait c lo k = Sleep (Reacquire l1) k3"
      using Some True by (simp add: Wait_def Let_def k1_def x1_def k2_def k3_def list_append_def)
    have a2: "awake k2" unfolding k2_def by (rule Release_awake [OF k1(1)])
    then obtain loc where kk: "kinv loc k2" "status k2 (currentThread k2) = RUNNING" by (auto simp: awake_def)
    note fr = Release_frame [of l1 k1, folded k2_def]
    have "waitingLock (conds k2 c) = Some l1" using True fr by (simp add: k1_def)
    then have "kinv (loc(currentThread k2 := Some (AtCond c))) (mark_blocked (Reacquire l1) k3)"
      using kinvD(2,4) [OF kk(1)]
      by (intro block_kinv [OF kinvD(7) [OF kk(1)] kk(2)]) (auto simp: k3_def locks_ok_def sems_ok_def)
    then have "asleep (mark_blocked (Reacquire l1) k3)" by (auto simp: asleep_def)
    moreover have "locks k1 = locks k" "readyList k1 = readyList k" "conts k1 = conts k" "currentThread k1 = currentThread k"
      by (simp_all add: k1_def)
    ultimately show thesis using assms(3) w Some k1(1) a2 fr
      by (intro sleeps [of l1 k1 k3]) (simp_all add: k2_def [symmetric], simp_all add: k3_def)
  qed
qed

lemma dispatch_runs:
  assumes "asleep kb" "dispatch kb = Inr k'"
  shows "idle k' \<or> currentThread k' \<in> set (readyList kb)"
  using dispatch_ok [OF assms(1)] assms(2) by (auto simp: resumed_def)

lemma Wait_accounted:
  assumes "accounted l A k" "awake k" "\<not> idle k" "Wait c lo k = Inr k'"
  shows "calmly l (A - exits l (Some (Op_Wait c lo)) k k') k k'"
  using assms(2-4)
proof (cases rule: Wait_cases)
  case returns
  then have "exits l (Some (Op_Wait c lo)) k k' = {}" by (simp add: exits_def)
  moreover have "accounted l A k'" by (rule only_wakes_accounted [OF assms(1) returns(1)])
  ultimately show ?thesis by (auto simp: calmly_def)
next
  case (sleeps l1 k1 k3)
  obtain loc where loc: "kinv loc k1" using sleeps(2) by (auto simp: awake_def)
  have ac: "accounted l A k1" by (rule accounted_same [OF assms(1)]) (use sleeps in \<open>simp_all add: incoming_def\<close>)
  have "accounted l (A - (if l1 = l then {currentThread k} else {})) (Release l1 k1)" using Release_accounted [OF ac loc, of l1] by (simp only: sleeps(6))
  moreover have "conts (Release l1 k1) = conts k" using Release_frame [of l1 k1] sleeps(5) by metis
  ultimately have r: "accounted l (A - (if l1 = l then {currentThread k} else {})) k3"
    by (elim accounted_same) (simp_all only: incoming_def sleeps(7-9))
  have nr: "currentThread k3 \<notin> set (readyList k3)"
    using running_not_ready [OF sleeps(11)] sleeps Release_frame [of l1 k1] by simp
  have "idle k' \<or> currentThread k' \<in> set (readyList (mark_blocked (Reacquire l1) k3))"
    using dispatch_runs [OF sleeps(12)] sleeps(13) by (simp add: Sleep_def)
  then have "idle k' \<or> currentThread k' \<noteq> currentThread k" using nr sleeps(10) by auto
  then have "exits l (Some (Op_Wait c lo)) k k' = (if l1 = l then {currentThread k} else {})"
    using sleeps(1) by (simp add: exits_def)
  then show ?thesis using calmly_sleep [OF r nr sleeps(13,12,9,10)] by simp
qed

lemma P_calmly:
  assumes "accounted l A k" "awake k" "P s k = Inr k'"
  shows "calmly l A k k'"
proof (cases "P_try s k")
  case (Pair b k1)
  note fr = P_try_frame [OF Pair]
  have lk: "locks k1 = locks k" using Pair by (auto simp: P_try_def Let_def split: if_splits)
  have a: "accounted l A k1" by (rule accounted_same [OF assms(1)]) (use fr lk in \<open>simp_all add: incoming_def\<close>)
  show ?thesis
  proof (cases b)
    case True
    then show ?thesis using a assms(3) Pair by (auto simp: P_def calmly_def)
  next
    case False
    obtain loc where k: "kinv loc k" "status k (currentThread k) = RUNNING" using assms(2) by (auto simp: awake_def)
    have "sems_slack s k" using kinvD(4) [OF k(1)] by (force simp: sems_ok_def sems_slack_def)
    from P_try_kinv [OF kinvD(7) [OF k(1)] k(2) this] have "asleep (mark_blocked (RetryP s) k1)"
      using Pair False by simp
    moreover have "currentThread k1 \<notin> set (readyList k1)" using running_not_ready [OF assms(2)] fr by simp
    ultimately show ?thesis
      using assms(3) Pair False fr by (intro calmly_sleep [OF a, of "RetryP s"]) (simp_all add: P_def)
  qed
qed

lemma Yield_calmly:
  assumes "accounted l A k" "awake k" "Yield k = Inr k'"
  shows "calmly l A k k'"
proof (cases "readyList k = []")
  case True
  then show ?thesis using assms by (simp add: Yield_def calmly_same)
next
  case False
  let ?kb = "ReadyToRun (currentThread k) (k\<lparr>conts := (conts k)(currentThread k := Returned)\<rparr>)"
  note nr = running_not_ready [OF assms(2)]
  have "accounted l A ?kb" using nr by (intro accounted_same [OF assms(1)]) (auto simp: incoming_def)
  moreover have "before_sleep l k ?kb" using nr by (auto simp: before_sleep_def)
  moreover have "dispatch ?kb = Inr k'" using assms(3) False by (simp add: Yield_def)
  ultimately show ?thesis using Yield_asleep [OF assms(2)] unfolding calmly_def by blast
qed

lemma Finish_calmly:
  assumes "accounted l A k" "awake k" "Finish k = Inr k'"
  shows "calmly l A k k'"
proof -
  let ?k1 = "k\<lparr>threadToBeDestroyed := Some (currentThread k)\<rparr>"
  have "accounted l A ?k1" by (rule accounted_same [OF assms(1)]) (simp_all add: incoming_def)
  then show ?thesis
    using running_not_ready [OF assms(2)] Finish_asleep [OF assms(2)] assms(3)
    by (intro calmly_sleep [of l A ?k1 Finished]) (simp_all add: Finish_def)
qed

lemma Fork_wakes:
  assumes "kinv loc k" "status k t = JUST_CREATED"
  shows "only_wakes k (Fork t k)"
proof -
  have "loc t = None" using thread_ok_cases(1) [OF kinvD(7) [OF assms(1)], of t] assms(2) by (cases "loc t") auto
  then have "t \<notin> set (readyList k)" using queues_okD(2) [OF kinvD(1) [OF assms(1)], of t InReady] by simp
  then show ?thesis by (auto simp: only_wakes_def Fork_def)
qed

text \<open>What enters possesses the lock, by the handover.\<close>

lemma enters_hold:
  assumes "kernel_inv k" "\<not> idle k" "\<And>t. p = Op_Fork t \<Longrightarrow> status k t = JUST_CREATED" "exec p k = Some (Inr k')"
  shows "\<forall>t\<in>enters l (Some p) k k'. possessor k' l = Some t"
proof -
  have aw: "awake k" using assms(1,2) by (auto simp: kernel_inv_def awake_def)
  have "\<exists>k'. exec p k = Some (Inr k') \<and> kernel_inv k' \<and> handover k k'"
    by (rule exec_ok [OF assms(1,2)]) (rule assms(3))
  then have "handover k k'" using assms(4) by auto
  moreover have "possessor k' l = Some (currentThread k)"
    if "p = Op_Acquire l" "\<not> idle k'" "currentThread k' = currentThread k"
    using Acquire_ok [OF aw assms(2), of l] assms(4) that by auto
  ultimately show ?thesis by (auto simp: enters_def handover_def)
qed

lemma exec_accounted:
  assumes "accounted l A k" "kernel_inv k" "\<not> idle k" "\<And>t. p = Op_Fork t \<Longrightarrow> status k t = JUST_CREATED"
    and "exec p k = Some (Inr k')"
  shows "accounted l (A - exits l (Some p) k k' \<union> enters l (Some p) k k') k'"
proof -
  have aw: "awake k" using assms(2,3) by (auto simp: kernel_inv_def awake_def)
  then obtain loc where k: "kinv loc k" by (auto simp: awake_def)
  note e = enters_hold [OF assms(2-5), of l]
  have wakes: "calmly l A k k'" if "only_wakes k k'"
    using only_wakes_accounted [OF assms(1) that] by (auto simp: calmly_def)
  have "calmly l (A - exits l (Some p) k k') k k'" if "\<And>l0. p \<noteq> Op_Acquire l0"
  proof (cases p)
    case (Op_Release l0)
    then have "calmly l (A - (if l0 = l then {currentThread k} else {})) k k'"
      using Release_accounted [OF assms(1) k, of l0] assms(5) by (auto simp: calmly_def)
    then show ?thesis by (simp add: exits_def Op_Release)
  next
    case (Op_Wait c lo)
    then show ?thesis using Wait_accounted [OF assms(1) aw assms(3), of c lo k'] assms(5) by simp
  next
    case (Op_Signal c lo)
    then show ?thesis using wakes Signal_wakes_only assms(5) by (auto simp: exits_def)
  next
    case (Op_Broadcast c lo)
    then show ?thesis using wakes Broadcast_wakes_only [of c lo k] assms(5) by (auto simp: exits_def)
  next
    case (Op_P s)
    then show ?thesis using P_calmly [OF assms(1) aw] assms(5) by (simp add: exits_def)
  next
    case (Op_V s)
    then show ?thesis using wakes V_wakes assms(5) by (auto simp: exits_def)
  next
    case Op_Yield
    then show ?thesis using Yield_calmly [OF assms(1) aw] assms(5) by (simp add: exits_def)
  next
    case (Op_Fork t)
    then show ?thesis using wakes Fork_wakes [OF k, of t] assms(4,5) by (auto simp: exits_def)
  next
    case Op_Finish
    then show ?thesis using Finish_calmly [OF assms(1) aw] assms(5) by (simp add: exits_def)
  qed (use that in blast)
  moreover have ?thesis if "p = Op_Acquire l0" for l0
    using Acquire_accounted [OF assms(1) aw assms(3), of l0 k'] e assms(5) that by (simp add: exits_def)
  ultimately show ?thesis using calmly_accounted [OF _ e] by blast
qed

lemma device_accounted:
  assumes "accounted l A k" "kernel_inv k" "device_V s k = Inr k'"
  shows "accounted l (A - exits l None k k' \<union> enters l None k k') k'"
proof -
  have a: "accounted l A (V s k)" by (rule only_wakes_accounted [OF assms(1) V_wakes])
  have c: "conts (V s k) = conts k" by (cases "squeue (sems k s)") (simp_all add: V_def Let_def)
  have "handover k k'" using device_V_ok [OF assms(2), of s] assms(3) by simp
  then have e: "\<forall>t\<in>enters l None k k'. possessor k' l = Some t" by (auto simp: enters_def handover_def)
  have "calmly l A k k'"
  proof (cases "idle k")
    case True
    then have "asleep k" using assms(2) by (auto simp: kernel_inv_def asleep_def)
    then have "asleep (V s k)" by (rule V_asleep)
    moreover have "before_sleep l k (V s k)" using True by (simp add: before_sleep_def c)
    moreover have "dispatch (V s k) = Inr k'" using assms(3) True by (simp add: device_V_def)
    ultimately show ?thesis using a unfolding calmly_def by blast
  next
    case False
    then show ?thesis using a assms(3) by (auto simp: device_V_def calmly_def)
  qed
  from calmly_accounted [OF this e] show ?thesis by (simp add: exits_def)
qed

lemma inside_accounted: "inside l A k \<Longrightarrow> accounted l A k"
proof (induction rule: inside.induct)
  case (start v l)
  then show ?case by (simp add: accounted_def boot_def new_Lock_def)
next
  case (call l A k p k')
  then show ?case using reachable_inv [OF inside_reachable] exec_accounted by blast
next
  case (device l A k s k')
  then show ?case using reachable_inv [OF inside_reachable] device_accounted by blast
qed

section \<open>Mutual exclusion\<close>

text \<open>
  C10: locks give mutual exclusion. For every history of calls and device interrupts that leads to a kernel \<open>k\<close>,
  call a thread inside a lock when it has come out of \<open>Acquire\<close> or \<open>Wait\<close> with it and has since neither called
  \<open>Release\<close> nor gone to sleep in \<open>Wait\<close> with it. At most one thread is inside; it possesses the lock, which is busy, and
  does not wait for it. The lock is free exactly when nobody possesses it, and then nobody is inside and nobody
  waits for it. And no possession is lost: the possessor is inside, or it is a waiter that has been handed the
  lock and is on the ready list, about to come out of \<open>Acquire\<close>. (The constructors are assumed to have found null
  pointers in memory; see \<open>boot\<close>.)
\<close>

theorem lock_ownership:
  assumes "reachable k"
  shows "(\<exists>A. inside l A k) \<and>
    (\<forall>A. inside l A k \<longrightarrow>
       (\<forall>t\<in>A. \<forall>u\<in>A. t = u) \<and>
       (\<forall>t\<in>A. threadWithPossession (locks k l) = Some t \<and> lstate (locks k l) = BUSY \<and> t \<notin> set (lqueue (locks k l))) \<and>
       (lstate (locks k l) = FREE \<longleftrightarrow> threadWithPossession (locks k l) = None) \<and>
       (lstate (locks k l) = FREE \<longrightarrow> A = {} \<and> lqueue (locks k l) = []) \<and>
       (\<forall>t. threadWithPossession (locks k l) = Some t \<longrightarrow>
          t \<in> A \<or> t \<in> set (readyList k) \<and> conts k t = AcquireDone l))"
proof -
  from reachable_inv [OF assms] obtain loc where "kinv loc k" by (auto simp: kernel_inv_def)
  then have lk: "locks_ok k" by (rule kinvD)
  have "lstate (locks k l) = BUSY" if "threadWithPossession (locks k l) = Some t" for t
    using lk that by (cases "lstate (locks k l)") (auto simp: locks_ok_def)
  moreover have "(\<forall>t\<in>A. possessor k l = Some t) \<and>
      (\<forall>t. possessor k l = Some t \<longrightarrow> t \<in> A \<or> t \<in> set (readyList k) \<and> conts k t = AcquireDone l)" if "inside l A k" for A
    using inside_accounted [OF that] by (simp add: accounted_def incoming_def)
  moreover have "lstate (locks k l) = FREE \<longleftrightarrow> possessor k l = None" "lstate (locks k l) = FREE \<longrightarrow> lqueue (locks k l) = []"
    "possessor k l = Some t \<longrightarrow> t \<notin> set (lqueue (locks k l))" for t
    using lk by (simp_all add: locks_ok_def)
  ultimately show ?thesis
    by (intro conjI reachable_inside [OF assms] allI impI) (metis option.inject option.distinct(1) all_not_in_conv)+
qed

text \<open>
  In \<open>sample_kernel\<close> thread 0 is inside lock 0 and thread 1 waits for it; when thread 0 has released it, thread 1
  is the only one that can be inside.
\<close>

theorem lock_ownership_witness:
  "inside 0 {0} sample_kernel \<and> lqueue (locks sample_kernel 0) = [1] \<and>
   (\<exists>B. inside 0 B (Release 0 sample_after) \<and> B \<subseteq> {1}) \<and>
   1 \<in> set (readyList (Release 0 sample_after)) \<and> conts (Release 0 sample_after) 1 = AcquireDone 0"
proof -
  have r: "reachable (Release 0 sample_after)"
    by (rule run_ops_reachable [OF sample_after_reachable, of "[Op_Release 0]"])
      (simp add: sample_after_def sample_kernel_def boot_def)
  have k: "threadWithPossession (locks sample_kernel 0) = Some 0" "lqueue (locks sample_kernel 0) = [1]"
    "conts sample_kernel 0 = Returned"
    by (simp_all add: sample_kernel_def)
  have k': "threadWithPossession (locks (Release 0 sample_after) 0) = Some 1"
    "readyList (Release 0 sample_after) = [2, 1]" "conts (Release 0 sample_after) 1 = AcquireDone 0"
    by (simp_all add: sample_after_def sample_kernel_def Release_def Let_def isHeldByCurrentThread_def)
  obtain A where A: "inside 0 A sample_kernel" "\<forall>t\<in>A. t = 0" "0 \<in> A"
    using lock_ownership [OF sample_reachable, of 0] k by auto
  then have "A = {0}" by blast
  moreover have "\<exists>B. inside 0 B (Release 0 sample_after) \<and> B \<subseteq> {1}"
    using lock_ownership [OF r, of 0] k' by auto
  ultimately show ?thesis using A(1) k k' by simp
qed

end
