(* ===== verification/Spec2Isabelle.thy ===== *)
theory Spec2Isabelle
  imports Linked_List Bit_Map Memory Mips Threads Thread_Invariant Server_Claims Paging_Claims
    Device_Claims Post Client Process_Claims Test_Suite Synch_List Startup File_Test Mutual_Exclusion
begin

text \<open>
  NACHOS (an instructional operating system that runs as one UNIX process on a simulated MIPS
  machine), with the projects built on it: threads and synchronisation, multiprogramming, demand
  paging, and network servers that give user programs remote locks, condition variables and monitor
  variables. Paths are below src/code.

  \<^bold>\<open>Parts of the program and the theories that model them\<close>

  \<^item> \<^verbatim>\<open>Prelude\<close>: failures (\<open>'a result\<close>, with \<open>Inl\<close> for a failed ASSERT or undefined behaviour),
    arrays with bounds, counted loops, C++ division. \<^verbatim>\<open>Host_Bytes\<close>: C structures as bytes.
  \<^item> \<^verbatim>\<open>Linked_List\<close>: threads/list.cc over a heap of cells, refined to sequences; every queue above is one.
  \<^item> \<^verbatim>\<open>Bit_Map\<close>: userprog/bitmap.cc and userprog/table.h, refined to a set and to a map.
  \<^item> \<^verbatim>\<open>Memory\<close>, \<^verbatim>\<open>Mips\<close>: machine/machine.cc, machine/translate.cc, machine/mipssim.cc: registers, TLB and
    page table, \<open>Translate\<close>, \<open>ReadMem\<close>, \<open>WriteMem\<close>, decoding, \<open>OneInstruction\<close>, \<open>Mult\<close>, \<open>DelayedLoad\<close>.
  \<^item> \<^verbatim>\<open>Threads\<close>, \<^verbatim>\<open>Thread_Invariant\<close>: threads/thread.cc, threads/scheduler.cc, threads/synch.cc. A thread is
    a number; a blocked operation is a continuation that \<open>dispatch\<close> runs when its thread is next.
    \<^verbatim>\<open>Mutual_Exclusion\<close>: who is inside a lock, over the histories of the kernel.
  \<^item> \<^verbatim>\<open>Interrupts\<close>, \<^verbatim>\<open>Interrupt_Properties\<close>, \<^verbatim>\<open>Devices\<close>, \<^verbatim>\<open>Device_Claims\<close>: machine/interrupt.cc,
    machine/timer.cc, machine/console.cc, machine/network.cc: simulated time and what happens in it.
  \<^item> \<^verbatim>\<open>Disk\<close>: machine/disk.cc and filesys/synchdisk.cc.
  \<^item> \<^verbatim>\<open>Post\<close>: network/post.cc. \<^verbatim>\<open>Client\<close>: the system calls of userprog/exception.cc that ask the servers.
  \<^item> \<^verbatim>\<open>Server_Messages\<close>, \<^verbatim>\<open>Server_Tables\<close>, \<^verbatim>\<open>Server\<close>, \<^verbatim>\<open>Server_Peer\<close>, \<^verbatim>\<open>Server_Invariant\<close>,
    \<^verbatim>\<open>Server_Properties\<close>, \<^verbatim>\<open>Server_Claims\<close>: network/server.cc and network/messagetypes.h: the codec, the
    tables, the handlers of the messages of clients (mailbox 0) and of other servers (mailbox 1).
  \<^item> \<^verbatim>\<open>Paging\<close>, \<^verbatim>\<open>Paging_Invariant\<close>, \<^verbatim>\<open>Paging_Evict\<close>, \<^verbatim>\<open>Paging_Fault\<close>, \<^verbatim>\<open>Paging_Load\<close>,
    \<^verbatim>\<open>Paging_Claims\<close>: the page-fault handler of userprog/exception.cc (inverted page table, eviction by FIFO or
    at random, swap file) and the address spaces of userprog/addrspace.cc.
  \<^item> \<^verbatim>\<open>Syscalls\<close>, \<^verbatim>\<open>Syscall_Claims\<close>: the system calls on locks, condition variables and queues of
    userprog/exception.cc without NETWORK.
  \<^item> \<^verbatim>\<open>Handler\<close>: \<open>ExceptionHandler\<close>, which puts pager, processes and system calls together, the calls that print or
    ask the host, and \<open>StartProcess\<close> of userprog/progtest.cc. \<^verbatim>\<open>Startup\<close>: \<open>Initialize\<close> and \<open>main\<close> (threads/system.cc,
    threads/main.cc) of the build in vm/; the way of a program from the compiler to its first instruction.
  \<^item> \<^verbatim>\<open>Open_File\<close>: filesys/filehdr.cc and filesys/openfile.cc: a file is the sectors its header lists.
  \<^item> \<^verbatim>\<open>Directory\<close>, \<^verbatim>\<open>File_System\<close>, \<^verbatim>\<open>File_Claims\<close>: filesys/directory.cc, filesys/filesys.cc and the part of
    userprog/bitmap.cc that reads and writes files. \<open>files\<close> is the abstraction, a map from names to bytes.
    \<^verbatim>\<open>File_Test\<close>: filesys/fstest.cc, the programs that copy files onto the disk, show them and measure the disk.
  \<^item> \<^verbatim>\<open>User_Memory\<close>: \<open>copyin\<close> and \<open>copyout\<close> of userprog/exception.cc, over the machine and the pager.
  \<^item> \<^verbatim>\<open>File_Calls\<close>: the system calls Create, Open, Read, Write, Close (userprog/exception.cc, userprog/addrspace.h).
  \<^item> \<^verbatim>\<open>Processes\<close>, \<^verbatim>\<open>Process_Memory\<close>, \<^verbatim>\<open>Exit_Tables\<close>, \<^verbatim>\<open>Process_Claims\<close>: Fork, Exec and Exit (userprog/exception.cc), the process
    table of threads/system.h, and the user half of a context switch (threads/scheduler.cc, threads/thread.cc).
  \<^item> \<^verbatim>\<open>Test_Suite\<close>: the tests of threads/threadtest.cc, as programs that run on the kernel of Threads.
  \<^item> \<^verbatim>\<open>Coff\<close>: bin/coff2noff.c, the tool that makes executables, composed with the loader of addrspace.cc.
  \<^item> \<^verbatim>\<open>Monitor\<close>: what every call of the kernel does to the threads that use one lock with one condition.
    \<^verbatim>\<open>Synch_List\<close>: threads/synchlist.cc on top of it, in steps that threads interleave.

  \<^bold>\<open>How they interact\<close>

  The machine raises exceptions; the page-fault handler is an argument of \<open>OneInstruction\<close> and of the
  memory operations, and Paging provides it. The system calls act on the kernel of Threads; the servers
  act on mailboxes; the clients' messages are proved to be read by the servers as they were meant.
  Interrupts run handlers that are an argument of the clock (locale \<open>interrupt_handlers\<close>), which the
  devices and the disk provide. Bitmaps allocate locks, frames, swap slots and sectors through the
  locale \<open>slot_allocator\<close>; the tables of the servers share the locale \<open>named_store\<close>; lists share
  \<open>fifo_queue\<close> and \<open>sorted_queue\<close>; the file system and the calls on files see an open file through the
  locale \<open>byte_file\<close>. The calls on files read user memory with \<open>copyin\<close>, so through page faults, and the
  record \<open>os\<close> of Processes puts files, pager, kernel and locks together. A switch between user
  threads empties the TLB; Exit relies on that, because it frees frames that the TLB still names.

  \<^bold>\<open>What the lemmas show\<close>

  Each component has an invariant (\<open>repr\<close> and \<open>heap_ok\<close> of lists, \<open>wf_BitMap\<close>, \<open>kinv\<close> of the kernel, \<open>irq_ok\<close>,
  \<open>synch_ok\<close>, \<open>vm_inv\<close>, \<open>sys_ok\<close>, the \<open>wf_\<close> predicates of the servers), lemmas that each operation keeps
  it and what it does on every branch, and theorems, numbered C1 and on, that state what the
  component is for: functional refinement (lists, bitmaps, tables), isolation (memory, instructions,
  paging, locks of user programs), no lost wake-ups and no stuck kernel (threads), round trips
  (messages, memory, files), and termination (the clock). Startup joins the tool that makes
  executables, the start of the kernel, the loader, the pager and the processor. Theorems of the kind \<open>error\<close> prove what goes wrong
  where the code does not do what it means to.

  \<^bold>\<open>Bounds and fuel\<close>

  There is no fuel. A loop that may not end is a \<open>partial_function (option)\<close> whose value \<open>None\<close> is not
  returning (list walks on cyclic heaps, \<open>check_loop\<close>, \<open>Broadcast\<close>, \<open>dispatch\<close>, eviction), and the
  theorems prove that it returns. A result \<open>None\<close> of a step of a thread is a thread that waits.
  Values whose bits or wrap-around matter are words of their width (registers, memory, messages);
  indices, counts and times are integers, and the times that the disk keeps in an \<open>int\<close> are cut to 32 bits (\<open>to_int\<close>).

  \<^bold>\<open>Not modelled\<close>

  Context switches in assembler (threads/switch.s), UNIX calls (machine/sysdep.cc, apart from what
  the devices use of it), the start of the builds other than vm/ (threads/main.cc, threads/system.cc), statistics
  and debugging output (the messages of \<open>Release\<close>, \<open>Wait\<close> and \<open>Signal\<close> about refused calls too), a host on which the swap
  file cannot be created, what the kernel's own locks and condition variables hold in the
  fields that their constructors do not set (they start as NULL), the moment in the page-fault handler between its two locks (it is one step), the synchronous console, which no part of the kernel uses (userprog/synchconsole.cc), the tests of the
  console and of the network (userprog/progtest.cc, network/nettest.cc), and most programs outside the kernel
  (test/, and bin/ apart from coff2noff). The
  supermarket simulation, most of threads/threadtest.cc, is commented out in the source. In the system calls, a call that blocks only on a lock of the
  kernel is one step; what the host gives (what \<open>printf\<close> makes of a format, the integers that are typed,
  the clock, seeds) is an argument, the record \<open>env\<close> of Handler. \<open>ExceptionHandler\<close> is that of the build without NETWORK.
\<close>

end
